(* ===== verification/Go_Prelude.thy ===== *)
theory Go_Prelude
  imports Main "HOL-Library.Sublist" "HOL-Library.List_Lexorder" "HOL-Library.Char_ord"
    "HOL-Library.Finite_Map"
begin

text \<open>
  Shared ground of the development.  Go strings are byte sequences and are modelled as HOL
  strings (lists of 8-bit characters).  This theory translates the pieces of Go's standard
  library the sources rely on (strings.Split, strings.Join, strings.TrimSpace, strings.ToLower
  on ASCII, path.Clean, path.Join, path.Ext, sort.Strings on the keys of a map), gives the early
  return of a Go loop as a fold over a sum type, and collects the facts about them that the
  component theories share.
\<close>

named_theorems go_path_simps \<open>facts about splitting, joining and cleaning slash paths\<close>
named_theorems fm_simps \<open>lookup facts for finite maps\<close>

section \<open>Loops with an early return\<close>

text \<open>A Go function that returns \<open>(value, error)\<close> returns \<open>Inl\<close> of the error or \<open>Inr\<close> of the value.\<close>

fun fold_res :: "('a \<Rightarrow> 's \<Rightarrow> 'e + 's) \<Rightarrow> 'a list \<Rightarrow> 's \<Rightarrow> 'e + 's" where
  "fold_res f [] s = Inr s"
| "fold_res f (x # xs) s = (case f x s of Inl e \<Rightarrow> Inl e | Inr s' \<Rightarrow> fold_res f xs s')"

lemma fold_res_append:
  "fold_res f (xs @ ys) s = (case fold_res f xs s of Inl e \<Rightarrow> Inl e | Inr s' \<Rightarrow> fold_res f ys s')"
  by (induction xs arbitrary: s) (auto split: sum.splits)

lemma fold_res_invariant:
  assumes "\<And>x s s'. x \<in> set xs \<Longrightarrow> I s \<Longrightarrow> f x s = Inr s' \<Longrightarrow> I s'" and "I s"
    and "fold_res f xs s = Inr s'"
  shows "I s'"
  using assms
proof (induction xs arbitrary: s)
  case Nil
  then show ?case by simp
next
  case (Cons x xs)
  from Cons.prems(3) obtain t where t: "f x s = Inr t" "fold_res f xs t = Inr s'"
    by (auto split: sum.splits)
  have "I t" using Cons.prems(1) [of x s t] Cons.prems(2) t(1) by simp
  then show ?case using Cons.IH [OF _ _ t(2)] Cons.prems(1) by (meson list.set_intros(2))
qed

section \<open>Finite maps\<close>

text \<open>\<open>m[k] = v\<close> or \<open>delete(m, k)\<close>, by an optional value.\<close>

definition fm_set :: "'k \<Rightarrow> 'v option \<Rightarrow> ('k, 'v) fmap \<Rightarrow> ('k, 'v) fmap" where
  "fm_set k v m = (case v of None \<Rightarrow> fmdrop k m | Some x \<Rightarrow> fmupd k x m)"

lemma fmlookup_fm_set [simp]: "fmlookup (fm_set k v m) j = (if j = k then v else fmlookup m j)"
  by (auto simp: fm_set_def split: option.split)

text \<open>The sorted list of the distinct elements of a list: a Go set of strings after sort.Strings.\<close>

definition sort_unique :: "'a::linorder list \<Rightarrow> 'a list" where
  "sort_unique xs = sort (remdups xs)"

lemma set_sort_unique [simp]: "set (sort_unique xs) = set xs"
  by (simp add: sort_unique_def)

lemma distinct_sort_unique [simp]: "distinct (sort_unique xs)"
  by (simp add: sort_unique_def)

lemma sorted_sort_unique [simp]: "sorted (sort_unique xs)"
  by (simp add: sort_unique_def)

abbreviation fm_keys :: "('k::linorder, 'v) fmap \<Rightarrow> 'k list" where
  "fm_keys m \<equiv> sorted_list_of_fset (fmdom m)"

lemma set_sorted_list_of_fset [simp]: "set (sorted_list_of_fset A) = fset A"
  by (simp add: sorted_list_of_fset.rep_eq)

lemma distinct_sorted_list_of_fset [simp]: "distinct (sorted_list_of_fset A)"
  by (simp add: sorted_list_of_fset.rep_eq)

lemma sorted_sorted_list_of_fset [simp]: "sorted (sorted_list_of_fset A)"
  by (simp add: sorted_list_of_fset.rep_eq)

lemma fset_fmdom_iff [fm_simps]: "k \<in> fset (fmdom m) \<longleftrightarrow> fmlookup m k \<noteq> None"
  by (auto simp: fmlookup_dom_iff)

lemma fmfilter_id [simp]: "(\<And>k. k |\<in>| fmdom m \<Longrightarrow> P k) \<Longrightarrow> fmfilter P m = m"
  by (intro fmap_ext) (auto simp: fmlookup_dom_iff)

section \<open>strings.Split and strings.Join with a one-byte separator\<close>

fun split_on :: "char \<Rightarrow> string \<Rightarrow> string list" where
  "split_on c [] = [[]]"
| "split_on c (x # xs) =
     (if x = c then [] # split_on c xs
      else (case split_on c xs of [] \<Rightarrow> [[x]] | s # ss \<Rightarrow> (x # s) # ss))"

fun join_with :: "char \<Rightarrow> string list \<Rightarrow> string" where
  "join_with c [] = []"
| "join_with c [s] = s"
| "join_with c (s # ss) = s @ c # join_with c ss"

lemma split_on_nonempty [simp]: "split_on c s \<noteq> []"
  by (cases s) (auto split: list.splits)

lemma join_with_Cons:
  "ss \<noteq> [] \<Longrightarrow> join_with c (s # ss) = s @ c # join_with c ss"
  by (cases ss) auto

lemma join_split [simp]: "join_with c (split_on c s) = s"
proof (induction s)
  case Nil
  then show ?case by simp
next
  case (Cons x xs)
  obtain y ys where split: "split_on c xs = y # ys"
    by (cases "split_on c xs") auto
  with Cons.IH have "join_with c (y # ys) = xs" by simp
  then show ?case using split by (cases ys) (auto simp: join_with_Cons)
qed

lemma split_on_no_sep: "c \<notin> set s \<Longrightarrow> split_on c s = [s]"
  by (induction s) auto

lemma split_on_append: "split_on c (s @ c # t) = split_on c s @ split_on c t"
  by (induction s) (auto split: list.splits)

lemma split_on_append_sep: "c \<notin> set s \<Longrightarrow> split_on c (s @ c # t) = s # split_on c t"
  by (induction s) auto

lemma split_join:
  "ss \<noteq> [] \<Longrightarrow> \<forall>s\<in>set ss. c \<notin> set s \<Longrightarrow> split_on c (join_with c ss) = ss"
proof (induction ss)
  case Nil
  then show ?case by simp
next
  case (Cons s ss)
  show ?case
  proof (cases "ss = []")
    case True
    with Cons.prems show ?thesis by (simp add: split_on_no_sep)
  next
    case False
    with Cons show ?thesis by (simp add: join_with_Cons split_on_append_sep)
  qed
qed

lemma split_on_segments: "p \<in> set (split_on c s) \<Longrightarrow> c \<notin> set p"
proof (induction s arbitrary: p)
  case Nil
  then show ?case by simp
next
  case (Cons x xs)
  then show ?case by (auto split: if_splits list.splits)
qed

lemma set_join_with: "set (join_with c ss) \<subseteq> insert c (\<Union>(set ` set ss))"
proof (induction ss)
  case Nil
  then show ?case by simp
next
  case (Cons s ss)
  then show ?case by (cases ss) auto
qed

lemma set_split_on: "p \<in> set (split_on c s) \<Longrightarrow> set p \<subseteq> set s"
proof (induction s arbitrary: p)
  case Nil
  then show ?case by simp
next
  case (Cons x xs)
  then show ?case by (fastforce split: if_splits list.splits)
qed

lemma join_with_eq_Nil: "join_with c ss = [] \<longleftrightarrow> ss = [] \<or> ss = [[]]"
  by (cases "(c, ss)" rule: join_with.cases) auto

lemma join_with_append:
  "xs \<noteq> [] \<Longrightarrow> ys \<noteq> [] \<Longrightarrow> join_with c (xs @ ys) = join_with c xs @ c # join_with c ys"
proof (induction xs)
  case Nil
  then show ?case by simp
next
  case (Cons x xs)
  then show ?case by (cases "xs = []") (auto simp: join_with_Cons)
qed

section \<open>strings.TrimSpace\<close>

text \<open>The UTF-8 encodings of the code points that unicode.IsSpace accepts.\<close>

definition go_spaces :: "string list" where
  "go_spaces =
     [[CHR 0x09], [CHR 0x0A], [CHR 0x0B], [CHR 0x0C], [CHR 0x0D], [CHR 0x20],
      [CHR 0xC2, CHR 0x85], [CHR 0xC2, CHR 0xA0], [CHR 0xE1, CHR 0x9A, CHR 0x80],
      [CHR 0xE2, CHR 0x80, CHR 0x80], [CHR 0xE2, CHR 0x80, CHR 0x81],
      [CHR 0xE2, CHR 0x80, CHR 0x82], [CHR 0xE2, CHR 0x80, CHR 0x83],
      [CHR 0xE2, CHR 0x80, CHR 0x84], [CHR 0xE2, CHR 0x80, CHR 0x85],
      [CHR 0xE2, CHR 0x80, CHR 0x86], [CHR 0xE2, CHR 0x80, CHR 0x87],
      [CHR 0xE2, CHR 0x80, CHR 0x88], [CHR 0xE2, CHR 0x80, CHR 0x89],
      [CHR 0xE2, CHR 0x80, CHR 0x8A], [CHR 0xE2, CHR 0x80, CHR 0xA8],
      [CHR 0xE2, CHR 0x80, CHR 0xA9], [CHR 0xE2, CHR 0x80, CHR 0xAF],
      [CHR 0xE2, CHR 0x81, CHR 0x9F], [CHR 0xE3, CHR 0x80, CHR 0x80]]"

function trim_prefixes :: "string list \<Rightarrow> string \<Rightarrow> string" where
  "trim_prefixes ws s =
     (case find (\<lambda>w. w \<noteq> [] \<and> prefix w s) ws of
        None \<Rightarrow> s
      | Some w \<Rightarrow> trim_prefixes ws (drop (length w) s))"
  by pat_completeness auto
termination
proof (relation "measure (length \<circ> snd)", goal_cases)
  case 1
  then show ?case by simp
next
  case (2 ws s w)
  then have "w \<noteq> []" "prefix w s" by (auto simp: find_Some_iff)
  then show ?case using prefix_length_le [of w s] by (cases w) auto
qed

declare trim_prefixes.simps [simp del]

definition trim_space :: "string \<Rightarrow> string" where
  "trim_space s = rev (trim_prefixes (map rev go_spaces) (rev (trim_prefixes go_spaces s)))"

definition starts_with_space :: "string \<Rightarrow> bool" where
  "starts_with_space s \<longleftrightarrow> list_ex (\<lambda>w. prefix w s) go_spaces"

lemma trim_prefixes_fixed:
  "w \<in> set ws \<Longrightarrow> w \<noteq> [] \<Longrightarrow> \<not> prefix w (trim_prefixes ws s)"
proof (induction ws s rule: trim_prefixes.induct)
  case (1 ws s)
  show ?case
  proof (cases "find (\<lambda>w. w \<noteq> [] \<and> prefix w s) ws")
    case None
    then have "trim_prefixes ws s = s" by (simp add: trim_prefixes.simps [of ws s])
    with None "1.prems" show ?thesis by (auto simp: find_None_iff)
  next
    case (Some v)
    with "1.IH" [OF Some] "1.prems" show ?thesis by (simp add: trim_prefixes.simps [of ws s])
  qed
qed

lemma trim_prefixes_Nil:
  "trim_prefixes ws s = [] \<Longrightarrow> s = [] \<or> (\<exists>w\<in>set ws. w \<noteq> [] \<and> suffix w s)"
proof (induction ws s rule: trim_prefixes.induct)
  case (1 ws s)
  show ?case
  proof (cases "find (\<lambda>w. w \<noteq> [] \<and> prefix w s) ws")
    case None
    with "1.prems" show ?thesis by (simp add: trim_prefixes.simps [of ws s])
  next
    case (Some v)
    then have v: "v \<in> set ws" "v \<noteq> []" "prefix v s" by (auto simp: find_Some_iff)
    from Some "1.prems" have "trim_prefixes ws (drop (length v) s) = []"
      by (simp add: trim_prefixes.simps [of ws s])
    from "1.IH" [OF Some this] show ?thesis
    proof
      assume "drop (length v) s = []"
      with v(3) have "s = v" by (auto simp: prefix_def)
      with v show ?thesis by auto
    next
      assume "\<exists>w\<in>set ws. w \<noteq> [] \<and> suffix w (drop (length v) s)"
      then show ?thesis by (meson suffix_drop suffix_order.trans)
    qed
  qed
qed

lemma go_spaces_nonempty: "w \<in> set go_spaces \<Longrightarrow> w \<noteq> []"
  by (auto simp: go_spaces_def)

lemma trim_space_Nil_cases:
  assumes "trim_space s = []"
  shows "s = [] \<or> starts_with_space s"
proof (cases "starts_with_space s")
  case False
  then have "find (\<lambda>w. w \<noteq> [] \<and> prefix w s) go_spaces = None"
    by (auto simp: find_None_iff starts_with_space_def list_ex_iff)
  then have id: "trim_prefixes go_spaces s = s" by (simp add: trim_prefixes.simps)
  with assms have "trim_prefixes (map rev go_spaces) (rev s) = []" by (simp add: trim_space_def)
  from trim_prefixes_Nil [OF this] show ?thesis
  proof
    assume "\<exists>w\<in>set (map rev go_spaces). w \<noteq> [] \<and> suffix w (rev s)"
    then obtain w where "w \<in> set go_spaces" "prefix w s"
      by (auto simp: suffix_to_prefix)
    with False show ?thesis by (auto simp: starts_with_space_def list_ex_iff)
  qed simp
qed simp

lemma trim_space_empty [simp]: "trim_space [] = []"
proof -
  have "find (\<lambda>w. w \<noteq> [] \<and> prefix w []) ws = None" for ws :: "string list"
    by (auto simp: find_None_iff)
  then show ?thesis by (simp add: trim_space_def trim_prefixes.simps)
qed

section \<open>ASCII case, extensions, byte replacement\<close>

definition lower_char :: "char \<Rightarrow> char" where
  "lower_char c = (if CHR ''A'' \<le> c \<and> c \<le> CHR ''Z'' then char_of (of_char c + (32::nat)) else c)"

definition to_lower :: "string \<Rightarrow> string" where
  "to_lower = map lower_char"

definition replace_char :: "char \<Rightarrow> char \<Rightarrow> string \<Rightarrow> string" where
  "replace_char a b = map (\<lambda>c. if c = a then b else c)"

definition path_ext :: "string \<Rightarrow> string" where
  "path_ext s =
     (let r = takeWhile (\<lambda>c. c \<noteq> CHR ''/'') (rev s)
      in if CHR ''.'' \<in> set r then CHR ''.'' # rev (takeWhile (\<lambda>c. c \<noteq> CHR ''.'') r) else [])"

definition trim_suffix :: "string \<Rightarrow> string \<Rightarrow> string" where
  "trim_suffix suf s = (if suffix suf s then take (length s - length suf) s else s)"

definition trim_prefix :: "string \<Rightarrow> string \<Rightarrow> string" where
  "trim_prefix pre s = (if prefix pre s then drop (length pre) s else s)"

lemma trim_suffix_append [simp]: "trim_suffix suf (s @ suf) = s"
  by (simp add: trim_suffix_def suffix_def)

lemma trim_prefix_append [simp]: "trim_prefix pre (pre @ s) = s"
  by (simp add: trim_prefix_def)

definition is_drive_letter :: "char \<Rightarrow> bool" where
  "is_drive_letter c \<longleftrightarrow> (CHR ''A'' \<le> c \<and> c \<le> CHR ''Z'') \<or> (CHR ''a'' \<le> c \<and> c \<le> CHR ''z'')"

lemma length_to_lower [simp]: "length (to_lower s) = length s"
  by (simp add: to_lower_def)

lemma to_lower_append [simp]: "to_lower (s @ t) = to_lower s @ to_lower t"
  by (simp add: to_lower_def)

lemma replace_char_append [simp]: "replace_char a b (s @ t) = replace_char a b s @ replace_char a b t"
  by (simp add: replace_char_def)

lemma length_replace_char [simp]: "length (replace_char a b s) = length s"
  by (simp add: replace_char_def)

lemma replace_char_id: "a \<notin> set s \<Longrightarrow> replace_char a b s = s"
  by (induction s) (auto simp: replace_char_def)

section \<open>path.Clean and path.Join\<close>

text \<open>
  \<open>clean_step\<close> consumes one element of the path; the elements kept so far are a stack.  A
  leading \<open>..\<close> stays only in a relative path.
\<close>

fun clean_step :: "bool \<Rightarrow> string list \<Rightarrow> string \<Rightarrow> string list" where
  "clean_step rooted st seg =
     (if seg = [] \<or> seg = ''.'' then st
      else if seg = ''..'' then
        (case st of [] \<Rightarrow> if rooted then [] else [''..'']
                  | s # rest \<Rightarrow> if s = ''..'' then seg # st else rest)
      else seg # st)"

definition path_clean :: "string \<Rightarrow> string" where
  "path_clean s =
     (if s = [] then ''.''
      else let rooted = (hd s = CHR ''/'');
               st = rev (foldl (clean_step rooted) [] (split_on CHR ''/'' s))
           in if rooted then CHR ''/'' # join_with CHR ''/'' st
              else if st = [] then ''.'' else join_with CHR ''/'' st)"

definition path_join :: "string list \<Rightarrow> string" where
  "path_join elems =
     (let ne = filter (\<lambda>e. e \<noteq> []) elems
      in if ne = [] then [] else path_clean (join_with CHR ''/'' ne))"

text \<open>A segment that neither \<open>path.Clean\<close> nor a directory walk gives a meaning of its own.\<close>

definition plain_segment :: "string \<Rightarrow> bool" where
  "plain_segment s \<longleftrightarrow> s \<noteq> [] \<and> s \<noteq> ''.'' \<and> s \<noteq> ''..'' \<and> CHR ''/'' \<notin> set s"

lemma plain_segmentD [dest]:
  "plain_segment s \<Longrightarrow> s \<noteq> [] \<and> s \<noteq> ''.'' \<and> s \<noteq> ''..'' \<and> CHR ''/'' \<notin> set s"
  by (simp add: plain_segment_def)

lemma foldl_clean_plain:
  "\<forall>s\<in>set ss. plain_segment s \<Longrightarrow> foldl (clean_step r) st ss = rev ss @ st"
  by (induction ss arbitrary: st) (auto simp: plain_segment_def)

lemma hd_join_plain:
  assumes "ss \<noteq> []" "plain_segment (hd ss)"
  shows "hd (join_with c ss) = hd (hd ss)" "join_with c ss \<noteq> []"
  using assms by (cases "(c, ss)" rule: join_with.cases; auto simp: plain_segment_def)+

lemma path_clean_plain [go_path_simps]:
  assumes "ss \<noteq> []" "\<forall>s\<in>set ss. plain_segment s"
  shows "path_clean (join_with CHR ''/'' ss) = join_with CHR ''/'' ss"
proof -
  let ?p = "join_with CHR ''/'' ss"
  have hd: "plain_segment (hd ss)" using assms by simp
  have "hd ?p = hd (hd ss)" and ne: "?p \<noteq> []" using hd_join_plain [OF assms(1) hd] by auto
  then have nr: "hd ?p \<noteq> CHR ''/''" using hd by (cases "hd ss") (auto simp: plain_segment_def)
  have sp: "split_on CHR ''/'' ?p = ss" by (rule split_join) (use assms in auto)
  show ?thesis using ne nr assms(1)
    by (simp add: path_clean_def sp foldl_clean_plain [OF assms(2)] Let_def)
qed

lemma path_clean_absolute_plain [go_path_simps]:
  assumes "\<forall>s\<in>set ss. plain_segment s"
  shows "path_clean (CHR ''/'' # join_with CHR ''/'' ss) = CHR ''/'' # join_with CHR ''/'' ss"
proof (cases "ss = []")
  case True
  then show ?thesis by (simp add: path_clean_def)
next
  case False
  have sp: "split_on CHR ''/'' (join_with CHR ''/'' ss) = ss"
    by (rule split_join) (use assms False in auto)
  show ?thesis by (simp add: path_clean_def sp foldl_clean_plain [OF assms] Let_def)
qed

lemma path_join_plain [go_path_simps]:
  assumes "ss \<noteq> []" "\<forall>s\<in>set ss. plain_segment s"
  shows "path_join ss = join_with CHR ''/'' ss"
proof -
  have "filter (\<lambda>e. e \<noteq> []) ss = ss" using assms(2) by (intro filter_True) auto
  then show ?thesis using assms path_clean_plain [OF assms] by (simp add: path_join_def)
qed

section \<open>Cleaning a relative path\<close>

text \<open>The segments of \<open>path.Clean\<close> of a path without a leading slash.\<close>

definition cleaned_segments :: "string \<Rightarrow> string list" where
  "cleaned_segments p = rev (foldl (clean_step False) [] (split_on CHR ''/'' p))"

text \<open>A cleaned relative path climbs first and then descends through plain segments.\<close>

definition climb_then_plain :: "string list \<Rightarrow> bool" where
  "climb_then_plain ss \<longleftrightarrow> (\<exists>k ps. ss = replicate k ''..'' @ ps \<and> (\<forall>p\<in>set ps. plain_segment p))"

lemma clean_step_shape:
  assumes "climb_then_plain (rev st)" "CHR ''/'' \<notin> set seg"
  shows "climb_then_plain (rev (clean_step False st seg))"
proof -
  obtain k ps where st: "rev st = replicate k ''..'' @ ps" "\<forall>p\<in>set ps. plain_segment p"
    using assms(1) by (auto simp: climb_then_plain_def)
  consider "seg = [] \<or> seg = ''.''" | "seg = ''..''" | "plain_segment seg"
    using assms(2) by (auto simp: plain_segment_def)
  then show ?thesis
  proof cases
    case 1
    then show ?thesis using assms(1) by auto
  next
    case 2
    show ?thesis
    proof (cases "ps = []")
      case True
      then have rs: "st = replicate k ''..''" using st(1) by (metis append_Nil2 rev_replicate rev_rev_ident)
      then have c: "clean_step False st seg = replicate (Suc k) ''..''" using 2 by (cases k) auto
      show ?thesis unfolding c climb_then_plain_def rev_replicate
        by (intro exI [of _ "Suc k"] exI [of _ "[]"]) simp
    next
      case False
      then obtain qs q where ps: "ps = qs @ [q]" by (metis rev_exhaust)
      then have "st = q # rev qs @ replicate k ''..''" using st(1) by (metis append.assoc append_Cons append_Nil rev.simps(2) rev_append rev_replicate rev_rev_ident)
      moreover have "q \<noteq> ''..''" using st(2) ps by (auto simp: plain_segment_def)
      ultimately have "clean_step False st seg = rev qs @ replicate k ''..''" using 2 by simp
      then show ?thesis using st(2) ps by (auto simp: climb_then_plain_def)
    qed
  next
    case 3
    then have "clean_step False st seg = seg # st" by (auto simp: plain_segment_def)
    then show ?thesis using st 3 unfolding climb_then_plain_def
      by (intro exI [of _ k] exI [of _ "ps @ [seg]"]) auto
  qed
qed

lemma foldl_clean_shape:
  "climb_then_plain (rev st) \<Longrightarrow> \<forall>s\<in>set ss. CHR ''/'' \<notin> set s \<Longrightarrow> climb_then_plain (rev (foldl (clean_step False) st ss))"
proof (induction ss arbitrary: st)
  case (Cons s ss)
  have "climb_then_plain (rev (clean_step False st s))" by (rule clean_step_shape) (use Cons.prems in auto)
  with Cons show ?case by (simp del: clean_step.simps)
qed simp

lemma cleaned_segments_plain:
  assumes "cleaned_segments p \<noteq> []" "hd (cleaned_segments p) \<noteq> ''..''"
  shows "\<forall>s\<in>set (cleaned_segments p). plain_segment s"
proof -
  have "climb_then_plain (cleaned_segments p)"
    unfolding cleaned_segments_def
    by (rule foldl_clean_shape) (auto simp: climb_then_plain_def dest: split_on_segments)
  then obtain k ps where *: "cleaned_segments p = replicate k ''..'' @ ps" "\<forall>p\<in>set ps. plain_segment p"
    by (auto simp: climb_then_plain_def)
  then have "k = 0" using assms by (cases k) auto
  with * show ?thesis by simp
qed

text \<open>A cleaned absolute path descends through plain segments from the root.\<close>

lemma foldl_clean_rooted:
  "\<forall>s\<in>set st. plain_segment s \<Longrightarrow> \<forall>s\<in>set ss. CHR ''/'' \<notin> set s \<Longrightarrow>
   \<forall>s\<in>set (foldl (clean_step True) st ss). plain_segment s"
proof (induction ss arbitrary: st)
  case (Cons s ss)
  have "\<forall>x\<in>set (clean_step True st s). plain_segment x"
    using Cons.prems by (cases st) (auto simp: plain_segment_def)
  then show ?case using Cons.IH Cons.prems(2) by (simp del: clean_step.simps)
qed simp

end
