(* ===== verification/Safe_Paths.thy ===== *)
theory Safe_Paths
  imports Go_Prelude
begin

text \<open>
  The path guards of \<open>internal/syncengine/resource_apply.go\<close> (safeJoin, safeWritableJoin,
  safeDeletableJoin, pathWithinRoot) over a file system with symbolic links, on a Unix host.  An
  absolute path is the list of its segments.  A file system maps the canonical location of every
  node to a file, a directory or a link; looking a path up walks it from the root and follows
  links, at most as many as the fuel allows (Go's EvalSymlinks gives up after 255, the kernel
  after 40).
\<close>

section \<open>File systems with links\<close>

datatype node = FileNode string | DirNode | LinkNode bool "string list"

text \<open>A link holds whether its target is absolute, and the segments of the target.\<close>

type_synonym fsys = "(string list, node) fmap"

text \<open>
  \<open>walk\<close> resolves every link and fails on a missing component; \<open>walk_create\<close> is what opening a
  path for writing after MkdirAll reaches: from the first missing component on, the rest of the
  path is created as it is spelled.
\<close>

function walk :: "nat \<Rightarrow> fsys \<Rightarrow> string list \<Rightarrow> string list \<Rightarrow> string list option" where
  "walk n fs at [] = Some at"
| "walk n fs at (s # rest) =
     (if s = ''..'' then walk n fs (butlast at) rest
      else case fmlookup fs (at @ [s]) of
        None \<Rightarrow> None
      | Some DirNode \<Rightarrow> walk n fs (at @ [s]) rest
      | Some (FileNode _) \<Rightarrow> if rest = [] then Some (at @ [s]) else None
      | Some (LinkNode absolute segs) \<Rightarrow>
          (case n of 0 \<Rightarrow> None | Suc m \<Rightarrow> walk m fs (if absolute then [] else at) (segs @ rest)))"
  by pat_completeness auto
termination by (relation "measures [\<lambda>(n, fs, at, p). n, \<lambda>(n, fs, at, p). length p]") auto

function walk_create :: "nat \<Rightarrow> fsys \<Rightarrow> string list \<Rightarrow> string list \<Rightarrow> string list option" where
  "walk_create n fs at [] = Some at"
| "walk_create n fs at (s # rest) =
     (if s = ''..'' then walk_create n fs (butlast at) rest
      else case fmlookup fs (at @ [s]) of
        None \<Rightarrow> Some (at @ s # rest)
      | Some DirNode \<Rightarrow> walk_create n fs (at @ [s]) rest
      | Some (FileNode _) \<Rightarrow> if rest = [] then Some (at @ [s]) else None
      | Some (LinkNode absolute segs) \<Rightarrow>
          (case n of 0 \<Rightarrow> None | Suc m \<Rightarrow> walk_create m fs (if absolute then [] else at) (segs @ rest)))"
  by pat_completeness auto
termination by (relation "measures [\<lambda>(n, fs, at, p). n, \<lambda>(n, fs, at, p). length p]") auto

text \<open>\<open>os.Lstat\<close>: the parents are followed, the last component is not.\<close>

definition lstat :: "nat \<Rightarrow> fsys \<Rightarrow> string list \<Rightarrow> node option" where
  "lstat n fs p =
     (if p = [] then Some DirNode
      else case walk n fs [] (butlast p) of
        None \<Rightarrow> None | Some at \<Rightarrow> fmlookup fs (at @ [last p]))"

definition evalSymlinks :: "nat \<Rightarrow> fsys \<Rightarrow> string list \<Rightarrow> string list option" where
  "evalSymlinks n fs p = walk n fs [] p"

section \<open>The guards\<close>

datatype path_guard_error = EmptyRoot | InvalidRelative string | Escapes string | IsSymlink | NoAncestor | Unresolvable
  | ResolvesOutside string

text \<open>\<open>filepath.Rel\<close> on two absolute clean paths.\<close>

fun strip_common :: "string list \<Rightarrow> string list \<Rightarrow> string list \<times> string list" where
  "strip_common (b # bs) (t # ts) = (if b = t then strip_common bs ts else (b # bs, t # ts))"
| "strip_common bs ts = (bs, ts)"

definition rel_segments :: "string list \<Rightarrow> string list \<Rightarrow> string list" where
  "rel_segments base targ = (case strip_common base targ of (bs, ts) \<Rightarrow> replicate (length bs) ''..'' @ ts)"

definition pathWithinRoot :: "string list \<Rightarrow> string list \<Rightarrow> bool" where
  "pathWithinRoot root candidate \<longleftrightarrow>
     (case rel_segments root candidate of [] \<Rightarrow> True | s # _ \<Rightarrow> s \<noteq> ''..'')"

text \<open>\<open>safeJoin\<close> for an absolute root; the result is the list of segments of the target.\<close>

definition safeJoin :: "string list \<Rightarrow> string \<Rightarrow> path_guard_error + string list" where
  "safeJoin root relative =
     (if trim_space relative = [] \<or> CHR 0x5C \<in> set relative \<or> prefix ''/'' relative
      then Inl (InvalidRelative relative)
      else
        let cleaned = cleaned_segments relative
        in if cleaned = [] \<or> hd cleaned = ''..'' then Inl (Escapes relative)
           else
             let target = root @ cleaned
             in if \<not> pathWithinRoot root target then Inl (Escapes relative) else Inr target)"

text \<open>The loop that climbs to the first existing ancestor.\<close>

function firstExisting :: "nat \<Rightarrow> fsys \<Rightarrow> string list \<Rightarrow> string list option" where
  "firstExisting n fs p =
     (if lstat n fs p \<noteq> None then Some p else if p = [] then None else firstExisting n fs (butlast p))"
  by pat_completeness auto
termination by (relation "measure (\<lambda>(n, fs, p). length p)") auto

declare firstExisting.simps [simp del]

definition checkAncestor :: "nat \<Rightarrow> fsys \<Rightarrow> string list \<Rightarrow> string list \<Rightarrow> path_guard_error + string list" where
  "checkAncestor n fs rootCanonical target =
     (case firstExisting n fs (butlast target) of
        None \<Rightarrow> Inl NoAncestor
      | Some ancestor \<Rightarrow>
          (case evalSymlinks n fs ancestor of
             None \<Rightarrow> Inl Unresolvable
           | Some canonical \<Rightarrow>
               if pathWithinRoot rootCanonical canonical then Inr target
               else Inl (ResolvesOutside (join_with CHR ''/'' target))))"

definition safeWritableJoin :: "nat \<Rightarrow> fsys \<Rightarrow> string list \<Rightarrow> string \<Rightarrow> path_guard_error + string list" where
  "safeWritableJoin n fs root relative =
     (case safeJoin root relative of
        Inl e \<Rightarrow> Inl e
      | Inr target \<Rightarrow>
          if lstat n fs root = None then Inr target
          else
            (case evalSymlinks n fs root of
               None \<Rightarrow> Inl Unresolvable
             | Some rootCanonical \<Rightarrow>
                 (case lstat n fs target of
                    Some (LinkNode _ _) \<Rightarrow> Inl IsSymlink
                  | _ \<Rightarrow> checkAncestor n fs rootCanonical target)))"

definition safeDeletableJoin :: "nat \<Rightarrow> fsys \<Rightarrow> string list \<Rightarrow> string \<Rightarrow> path_guard_error + string list" where
  "safeDeletableJoin n fs root relative =
     (case safeJoin root relative of
        Inl e \<Rightarrow> Inl e
      | Inr target \<Rightarrow>
          if lstat n fs root = None then Inr target
          else
            (case evalSymlinks n fs root of
               None \<Rightarrow> Inl Unresolvable
             | Some rootCanonical \<Rightarrow> checkAncestor n fs rootCanonical target))"

section \<open>Joining\<close>

lemma safeJoin_result:
  assumes "safeJoin root relative = Inr target"
  shows "\<exists>ss. ss \<noteq> [] \<and> (\<forall>s\<in>set ss. plain_segment s) \<and> target = root @ ss"
  using assms cleaned_segments_plain [of relative]
  by (auto simp: safeJoin_def Let_def split: if_splits)

lemma safeJoin_no_dots:
  assumes "safeJoin root relative = Inr target" "\<forall>s\<in>set root. plain_segment s"
  shows "\<forall>s\<in>set target. s \<noteq> ''..''"
proof
  fix s assume s: "s \<in> set target"
  obtain ss where "\<forall>s\<in>set ss. plain_segment s" "target = root @ ss" using safeJoin_result [OF assms(1)] by blast
  then have "plain_segment s" using s assms(2) by (metis Un_iff set_append)
  then show "s \<noteq> ''..''" unfolding plain_segment_def by blast
qed

section \<open>Containment\<close>

lemma strip_common_prefix: "strip_common bs ts = ([], us) \<Longrightarrow> ts = bs @ us"
  by (induction bs ts rule: strip_common.induct) (auto split: if_splits)

lemma pathWithinRoot_prefix:
  assumes "pathWithinRoot root candidate"
  shows "prefix root candidate"
proof -
  obtain bs ts where s: "strip_common root candidate = (bs, ts)" by (cases "strip_common root candidate")
  then have "bs = []" using assms by (cases bs) (auto simp: pathWithinRoot_def rel_segments_def)
  with strip_common_prefix [of root candidate ts] s show ?thesis by (auto simp: prefix_def)
qed

lemma walk_append:
  "walk n fs at (p @ q) = Some r \<Longrightarrow> q \<noteq> [] \<Longrightarrow> \<exists>m at'. m \<le> n \<and> walk n fs at p = Some at' \<and> walk m fs at' q = Some r"
proof (induction n fs at p arbitrary: q rule: walk.induct)
  case (1 n fs at)
  then show ?case by auto
next
  case (2 n fs at s rest)
  then show ?case
    by (auto split: if_splits option.splits node.splits nat.splits) (metis append.assoc le_Suc_eq)+
qed

lemma walk_create_walk: "walk n fs at p = Some r \<Longrightarrow> walk_create n fs at p = Some r"
  by (induction n fs at p rule: walk.induct)
    (auto split: if_splits option.splits node.splits nat.splits)

lemma walk_create_missing:
  "walk n fs at p = Some c \<Longrightarrow> s \<noteq> ''..'' \<Longrightarrow> fmlookup fs (c @ [s]) = None \<Longrightarrow>
     walk_create n fs at (p @ s # rest) = Some r \<Longrightarrow> r = c @ s # rest"
proof (induction n fs at p rule: walk.induct)
  case (1 n fs at)
  then show ?case by simp
next
  case (2 n fs at t ts)
  show ?case
  proof (cases "t = ''..''")
    case True
    then show ?thesis using "2.prems" "2.IH"(1) by simp
  next
    case False
    show ?thesis
    proof (cases "fmlookup fs (at @ [t])")
      case None
      then show ?thesis using "2.prems"(1) False by simp
    next
      case (Some nd)
      show ?thesis
      proof (cases nd)
        case (FileNode x)
        then show ?thesis using "2.prems" False Some by (auto split: if_splits)
      next
        case DirNode
        then show ?thesis using "2.prems" "2.IH"(2) [OF False Some DirNode] False Some by simp
      next
        case (LinkNode a segs)
        then show ?thesis using "2.prems" "2.IH"(3) [OF False Some LinkNode] False Some by (auto split: nat.splits)
      qed
    qed
  qed
qed

lemma firstExisting_Some:
  "firstExisting n fs p = Some a \<Longrightarrow>
     \<exists>rest. p = a @ rest \<and> lstat n fs a \<noteq> None \<and> (\<forall>s ss. rest = s # ss \<longrightarrow> lstat n fs (a @ [s]) = None)"
proof (induction n fs p rule: firstExisting.induct)
  case (1 n fs p)
  show ?case
  proof (cases "lstat n fs p = None \<and> p \<noteq> []")
    case False
    then have "a = p" "lstat n fs p \<noteq> None"
      using "1.prems" by (auto simp: firstExisting.simps [of n fs p] split: if_splits)
    then show ?thesis by auto
  next
    case True
    then have "firstExisting n fs (butlast p) = Some a" using "1.prems" by (simp add: firstExisting.simps [of n fs p])
    with "1.IH" True obtain rest where r: "butlast p = a @ rest" "lstat n fs a \<noteq> None"
      "\<forall>s ss. rest = s # ss \<longrightarrow> lstat n fs (a @ [s]) = None" by auto
    have p: "p = a @ rest @ [last p]" using True r(1) by (metis append.assoc append_butlast_last_id)
    have "\<forall>s ss. rest @ [last p] = s # ss \<longrightarrow> lstat n fs (a @ [s]) = None"
    proof (cases rest)
      case Nil
      then show ?thesis using p True by auto
    next
      case (Cons s ss)
      then show ?thesis using r(3) by auto
    qed
    then show ?thesis using p r(2) by blast
  qed
qed

lemma checkAncestor_result: "checkAncestor n fs rc t = Inr u \<Longrightarrow> t = u"
  by (simp add: checkAncestor_def split: option.splits if_splits)

lemma checkAncestor_inside:
  assumes ok: "checkAncestor n fs rc target = Inr t" and plain: "\<forall>s\<in>set target. s \<noteq> ''..''"
    and loc: "walk_create n fs [] (butlast target) = Some loc"
  shows "prefix rc loc"
proof -
  obtain a c where a: "firstExisting n fs (butlast target) = Some a" and c: "walk n fs [] a = Some c"
    and "pathWithinRoot rc c"
    using ok by (auto simp: checkAncestor_def evalSymlinks_def split: option.splits if_splits)
  then have rc: "prefix rc c" by (simp add: pathWithinRoot_prefix)
  obtain rest where p: "butlast target = a @ rest" and missing: "\<forall>s ss. rest = s # ss \<longrightarrow> lstat n fs (a @ [s]) = None"
    using firstExisting_Some [OF a] by blast
  show ?thesis
  proof (cases rest)
    case Nil
    then have "loc = c" using walk_create_walk [OF c] loc p by simp
    with rc show ?thesis by simp
  next
    case (Cons s ss)
    have "s \<in> set target" using p Cons by (metis append_is_Nil_conv in_set_butlastD in_set_conv_decomp list.distinct(1))
    then have "s \<noteq> ''..''" using plain by simp
    moreover have "fmlookup fs (c @ [s]) = None" using missing Cons c by (simp add: lstat_def)
    ultimately have "loc = c @ s # ss" using walk_create_missing [OF c] loc p Cons by simp
    with rc show ?thesis by (simp add: prefix_order.trans [OF rc])
  qed
qed

section \<open>A concrete file system\<close>

text \<open>\<open>/h/root\<close> holds a directory, a link that stays inside and a link that leaves it.\<close>

definition demo_fs :: fsys where
  "demo_fs = fmap_of_list
     [([''h''], DirNode), ([''h'', ''root''], DirNode), ([''h'', ''root'', ''d''], DirNode),
      ([''h'', ''root'', ''in''], LinkNode False [''d'']), ([''h'', ''root'', ''out''], LinkNode True [''etc'']),
      ([''etc''], DirNode)]"

section \<open>Properties\<close>

text \<open>A relative path that safeJoin accepts stays below the root by spelling: the target is the root
  followed by at least one segment, none of them empty, dot or dot-dot.\<close>

lemma safe_join_descends:
  assumes "safeJoin root relative = Inr target"
  shows "\<exists>ss. ss \<noteq> [] \<and> (\<forall>s\<in>set ss. plain_segment s) \<and> target = root @ ss"
  by (rule safeJoin_result [OF assms])

lemma safe_join_descends_witness:
  "safeJoin [''h'', ''root''] ''a/../b//c'' = Inr [''h'', ''root'', ''b'', ''c''] \<and>
   (\<exists>ss. ss \<noteq> [] \<and> [''h'', ''root'', ''b'', ''c''] = [''h'', ''root''] @ ss)"
proof
  show j: "safeJoin [''h'', ''root''] ''a/../b//c'' = Inr [''h'', ''root'', ''b'', ''c'']" by code_simp
  from safe_join_descends [OF j] show "\<exists>ss. ss \<noteq> [] \<and> [''h'', ''root'', ''b'', ''c''] = [''h'', ''root''] @ ss"
    by blast
qed

text \<open> C37. No write through a guarded path leaves the root, whatever symbolic links lie on the way: if
  the root exists and the guard accepts, the directory in which the file is created (links followed,
  missing directories made) lies below the canonical location of the root, and the target itself is
  not a link. \<close>

theorem writes_stay_inside_root:
  assumes "safeWritableJoin n fs root relative = Inr target" and "\<forall>s\<in>set root. plain_segment s"
    and "lstat n fs root \<noteq> None" and "walk_create n fs [] (butlast target) = Some dir"
  shows "\<exists>rootCanonical. evalSymlinks n fs root = Some rootCanonical \<and> prefix rootCanonical dir \<and>
    (\<forall>a segs. lstat n fs target \<noteq> Some (LinkNode a segs))"
proof -
  obtain t where t: "safeJoin root relative = Inr t"
    using assms(1) by (cases "safeJoin root relative") (simp_all add: safeWritableJoin_def)
  obtain rc where rc: "evalSymlinks n fs root = Some rc"
    using assms(1,3) t by (cases "evalSymlinks n fs root") (simp_all add: safeWritableJoin_def)
  have both: "(\<forall>a segs. lstat n fs t \<noteq> Some (LinkNode a segs)) \<and> checkAncestor n fs rc t = Inr target"
  proof (cases "lstat n fs t")
    case None
    then show ?thesis using assms(1,3) t rc by (simp add: safeWritableJoin_def)
  next
    case (Some nd)
    then show ?thesis using assms(1,3) t rc by (cases nd) (simp_all add: safeWritableJoin_def)
  qed
  have "t = target" using checkAncestor_result both by blast
  then have j: "safeJoin root relative = Inr target" and ck: "checkAncestor n fs rc target = Inr target"
    and nl: "\<forall>a segs. lstat n fs target \<noteq> Some (LinkNode a segs)" using t both by simp_all
  have "\<forall>s\<in>set target. s \<noteq> ''..''"
    by (rule safeJoin_no_dots [OF j assms(2)])
  from checkAncestor_inside [OF ck this assms(4)] show ?thesis using rc nl by (intro exI [of _ rc] conjI)
qed

lemma writes_stay_inside_root_witness:
  "safeWritableJoin 40 demo_fs [''h'', ''root''] ''in/x/f'' = Inr [''h'', ''root'', ''in'', ''x'', ''f''] \<and>
   prefix [''h'', ''root''] [''h'', ''root'', ''d'', ''x''] \<and>
   safeWritableJoin 40 demo_fs [''h'', ''root''] ''out/x/f'' \<noteq> Inr [''h'', ''root'', ''out'', ''x'', ''f'']"
proof (intro conjI)
  show j: "safeWritableJoin 40 demo_fs [''h'', ''root''] ''in/x/f'' = Inr [''h'', ''root'', ''in'', ''x'', ''f'']"
    by code_simp
  show "safeWritableJoin 40 demo_fs [''h'', ''root''] ''out/x/f'' \<noteq> Inr [''h'', ''root'', ''out'', ''x'', ''f'']"
    by code_simp
  have c: "walk_create 40 demo_fs [] (butlast [''h'', ''root'', ''in'', ''x'', ''f'']) = Some [''h'', ''root'', ''d'', ''x'']"
    and r: "evalSymlinks 40 demo_fs [''h'', ''root''] = Some [''h'', ''root'']"
    and l: "lstat 40 demo_fs [''h'', ''root''] = Some DirNode" by code_simp+
  have "\<forall>s\<in>set [''h'', ''root'']. plain_segment s" by (simp add: plain_segment_def)
  from writes_stay_inside_root [OF j this _ c] r l show "prefix [''h'', ''root''] [''h'', ''root'', ''d'', ''x'']" by simp
qed

text \<open>A guarded deletion removes an entry of a directory that lies below the canonical root, even
  when a parent of the target is a symbolic link.\<close>

lemma deletions_stay_inside_root:
  assumes "safeDeletableJoin n fs root relative = Inr target" and "\<forall>s\<in>set root. plain_segment s"
    and "lstat n fs root \<noteq> None" and "evalSymlinks n fs (butlast target) = Some dir"
  shows "\<exists>rootCanonical. evalSymlinks n fs root = Some rootCanonical \<and> prefix rootCanonical dir"
proof -
  obtain t where t: "safeJoin root relative = Inr t"
    using assms(1) by (cases "safeJoin root relative") (simp_all add: safeDeletableJoin_def)
  obtain rc where rc: "evalSymlinks n fs root = Some rc"
    using assms(1,3) t by (cases "evalSymlinks n fs root") (simp_all add: safeDeletableJoin_def)
  have ck: "checkAncestor n fs rc t = Inr target" using assms(1,3) t rc by (simp add: safeDeletableJoin_def)
  then have tt: "t = target" by (rule checkAncestor_result)
  have dots: "\<forall>s\<in>set t. s \<noteq> ''..''"
    by (rule safeJoin_no_dots [OF t assms(2)])
  have "walk_create n fs [] (butlast t) = Some dir"
    using walk_create_walk assms(4) by (simp add: evalSymlinks_def tt)
  from checkAncestor_inside [OF ck dots this] show ?thesis using rc by (intro exI [of _ rc] conjI)
qed

lemma deletions_stay_inside_root_witness:
  "prefix [''h'', ''root''] [''h'', ''root'', ''d'']"
proof -
  have j: "safeDeletableJoin 40 demo_fs [''h'', ''root''] ''in/f'' = Inr [''h'', ''root'', ''in'', ''f'']"
    and c: "evalSymlinks 40 demo_fs (butlast [''h'', ''root'', ''in'', ''f'']) = Some [''h'', ''root'', ''d'']"
    and r: "evalSymlinks 40 demo_fs [''h'', ''root''] = Some [''h'', ''root'']"
    and l: "lstat 40 demo_fs [''h'', ''root''] = Some DirNode" by code_simp+
  have "\<forall>s\<in>set [''h'', ''root'']. plain_segment s" by (simp add: plain_segment_def)
  from deletions_stay_inside_root [OF j this _ c] r l show ?thesis by simp
qed

end
