(* ===== verification/Repo_Namespace.thy ===== *)
theory Repo_Namespace
  imports Go_Prelude
begin

text \<open>
  The repository namespace: resource declarations and specifications
  (internal/resource/model.go, spec.go, identifier.go) and the mapping between a resource's
  relative path and its path in the synchronization repository
  (internal/resource/namespace.go).  A Go \<open>error\<close> result is an option, \<open>None\<close> for nil.
\<close>

section \<open>Categories, strategies, layouts\<close>

text \<open>\<open>Category\<close>, \<open>Strategy\<close> and \<open>Layout\<close> are Go string types: any string is a value, these are the named ones.\<close>

abbreviation CategorySessions :: string where "CategorySessions \<equiv> ''sessions''"
abbreviation CategoryConfig :: string where "CategoryConfig \<equiv> ''config''"
abbreviation CategoryInstructions :: string where "CategoryInstructions \<equiv> ''instructions''"
abbreviation CategorySkills :: string where "CategorySkills \<equiv> ''skills''"
abbreviation CategoryPlugins :: string where "CategoryPlugins \<equiv> ''plugins''"

abbreviation StrategyFileTree :: string where "StrategyFileTree \<equiv> ''file-tree''"
abbreviation StrategyTextTree :: string where "StrategyTextTree \<equiv> ''text-tree''"
abbreviation StrategyStructuredMerge :: string where "StrategyStructuredMerge \<equiv> ''structured-merge''"
abbreviation StrategySourceTree :: string where "StrategySourceTree \<equiv> ''source-tree''"
abbreviation StrategyInstallManifest :: string where "StrategyInstallManifest \<equiv> ''install-manifest''"

abbreviation LayoutLegacy :: string where "LayoutLegacy \<equiv> ''legacy''"
abbreviation LayoutPortable :: string where "LayoutPortable \<equiv> ''portable''"

abbreviation portableProviderName :: string where "portableProviderName \<equiv> ''_portable''"

definition known_category :: "string \<Rightarrow> bool" where
  "known_category c \<longleftrightarrow>
     c = CategorySessions \<or> c = CategoryConfig \<or> c = CategoryInstructions
     \<or> c = CategorySkills \<or> c = CategoryPlugins"

section \<open>Specifications and references\<close>

text \<open>
  \<open>ValidateRoot\<close> and \<open>ValidateContent\<close> are function fields that may be nil; a validator
  returns \<open>Some\<close> message for an error.
\<close>

record spec =
  sp_key :: string
  sp_provider :: string
  sp_id :: string
  sp_category :: string
  sp_strategy :: string
  sp_layout :: string
  sp_root :: string
  sp_targets :: "string list"
  sp_include :: "string list"
  sp_exclude :: "string list"
  sp_transformer :: string
  sp_installer :: string
  sp_shared_as :: string
  sp_key_patterns :: "string list"
  sp_reserved :: "string list"
  sp_copy_only :: bool
  sp_optional_root :: bool
  sp_validate_root :: "(string \<Rightarrow> string option) option"
  sp_validate_content :: "(string \<Rightarrow> string \<Rightarrow> string option) option"

record repo_ref =
  ref_provider :: string
  ref_category :: string
  ref_id :: string
  ref_relative :: string
  ref_portable :: bool
  ref_common :: bool

record resource_decl =
  decl_id :: string
  decl_category :: string
  decl_strategy :: string
  decl_layout :: string
  decl_transformer :: string
  decl_installer :: string
  decl_shared_as :: string

datatype path_error =
    PathEmpty
  | PathBackslash string
  | PathNotRelative string
  | PathMalformed string
  | PathSegment string string
  | InvalidIdentifier string string
  | LegacyCategoryUnsupported string string
  | UnsupportedLayout string string
  | InvalidRepoPath string
  | InvalidPortableRepoPath string
  | InvalidCategory string
  | InvalidLegacyCategory string

text \<open>The message of an issue keeps the structure of the error it renders.\<close>

datatype issue_message = Msg string | MsgPath path_error

record issue =
  iss_resource_key :: string
  iss_path :: string
  iss_code :: string
  iss_message :: issue_message
  iss_bytes :: int

section \<open>Identifiers\<close>

definition ValidateIdentifier :: "string \<Rightarrow> string \<Rightarrow> path_error option" where
  "ValidateIdentifier kind value =
     (if trim_space value = [] then Some (InvalidIdentifier kind value)
      else if value = ''.'' \<or> value = ''..'' \<or> CHR ''/'' \<in> set value \<or> CHR 0x5C \<in> set value
      then Some (InvalidIdentifier kind value)
      else None)"

definition ValidateOptionalIdentifier :: "string \<Rightarrow> string \<Rightarrow> path_error option" where
  "ValidateOptionalIdentifier kind value = (if value = [] then None else ValidateIdentifier kind value)"

section \<open>Repository-relative paths\<close>

definition isWindowsAbsolute :: "string \<Rightarrow> bool" where
  "isWindowsAbsolute value =
     (if length value < 3 \<or> value ! 1 \<noteq> CHR '':'' then False
      else if \<not> is_drive_letter (value ! 0) then False
      else value ! 2 = CHR ''/'')"

definition validateRepoSegment :: "string \<Rightarrow> bool" where
  "validateRepoSegment value \<longleftrightarrow>
     \<not> (value = [] \<or> value = ''.'' \<or> value = ''..'') \<and> CHR 0x5C \<notin> set value"

definition validateRepoRelative :: "string \<Rightarrow> path_error option" where
  "validateRepoRelative value =
     (if trim_space value = [] then Some PathEmpty
      else if CHR 0x5C \<in> set value then Some (PathBackslash value)
      else if prefix ''/'' value \<or> isWindowsAbsolute value then Some (PathNotRelative value)
      else if path_clean value \<noteq> value then Some (PathMalformed value)
      else (case find (\<lambda>part. \<not> validateRepoSegment part) (split_on CHR ''/'' value) of
              Some part \<Rightarrow> Some (PathSegment value part)
            | None \<Rightarrow> None))"

definition parseCategory :: "string \<Rightarrow> path_error + string" where
  "parseCategory value = (if known_category value then Inr value else Inl (InvalidCategory value))"

definition parseLegacyCategory :: "string \<Rightarrow> path_error + string" where
  "parseLegacyCategory value =
     (case parseCategory value of
        Inl e \<Rightarrow> Inl e
      | Inr category \<Rightarrow>
          if category \<noteq> CategoryConfig \<and> category \<noteq> CategorySessions
          then Inl (InvalidLegacyCategory value) else Inr category)"

definition legacyResourceID :: "string \<Rightarrow> string" where
  "legacyResourceID category =
     (if category = CategoryConfig then ''legacy-config''
      else if category = CategorySessions then ''legacy-sessions''
      else [])"

section \<open>RepoPath and ParseRepoPath\<close>

definition RepoPath :: "spec \<Rightarrow> string \<Rightarrow> path_error + string" where
  "RepoPath s relative =
     (case validateRepoRelative relative of Some e \<Rightarrow> Inl e | None \<Rightarrow>
      case ValidateIdentifier ''provider name'' (sp_provider s) of Some e \<Rightarrow> Inl e | None \<Rightarrow>
      if sp_layout s = LayoutLegacy then
        (if sp_category s = CategoryConfig then
           Inr (path_join [''agents'', sp_provider s, ''config'', relative])
         else if sp_category s = CategorySessions then
           Inr (path_join [''agents'', sp_provider s, ''sessions'', relative])
         else Inl (LegacyCategoryUnsupported (sp_key s) (sp_category s)))
      else if sp_layout s = LayoutPortable then
        (if sp_shared_as s \<noteq> [] \<or> sp_provider s = ''common'' then
           (let resourceID = (if sp_shared_as s = [] then sp_id s else sp_shared_as s)
            in case ValidateIdentifier ''shared_as'' resourceID of
                 Some e \<Rightarrow> Inl e
               | None \<Rightarrow> Inr (path_join [''agents'', portableProviderName, ''config'', ''common'',
                                 sp_category s, resourceID, relative]))
         else
           (case ValidateIdentifier ''resource id'' (sp_id s) of
              Some e \<Rightarrow> Inl e
            | None \<Rightarrow> Inr (path_join [''agents'', portableProviderName, ''config'', ''providers'',
                              sp_provider s, sp_category s, sp_id s, relative])))
      else Inl (UnsupportedLayout (sp_key s) (sp_layout s)))"

definition ParseRepoPath :: "string \<Rightarrow> path_error + repo_ref" where
  "ParseRepoPath repoPath =
     (case validateRepoRelative repoPath of Some e \<Rightarrow> Inl e | None \<Rightarrow>
      let parts = split_on CHR ''/'' repoPath in
      if length parts < 4 \<or> parts ! 0 \<noteq> ''agents'' then Inl (InvalidRepoPath repoPath)
      else if parts ! 1 \<noteq> portableProviderName then
        (case parseLegacyCategory (parts ! 2) of
           Inl e \<Rightarrow> Inl e
         | Inr category \<Rightarrow>
             Inr \<lparr>ref_provider = parts ! 1, ref_category = category,
                  ref_id = legacyResourceID category,
                  ref_relative = join_with CHR ''/'' (drop 3 parts),
                  ref_portable = False, ref_common = False\<rparr>)
      else if length parts < 7 \<or> parts ! 2 \<noteq> ''config'' then Inl (InvalidPortableRepoPath repoPath)
      else if parts ! 3 = ''common'' then
        (case parseCategory (parts ! 4) of
           Inl e \<Rightarrow> Inl e
         | Inr category \<Rightarrow>
             Inr \<lparr>ref_provider = ''common'', ref_category = category, ref_id = parts ! 5,
                  ref_relative = join_with CHR ''/'' (drop 6 parts),
                  ref_portable = True, ref_common = True\<rparr>)
      else if parts ! 3 = ''providers'' then
        (if length parts < 8 then Inl (InvalidPortableRepoPath repoPath)
         else case parseCategory (parts ! 5) of
           Inl e \<Rightarrow> Inl e
         | Inr category \<Rightarrow>
             Inr \<lparr>ref_provider = parts ! 4, ref_category = category, ref_id = parts ! 6,
                  ref_relative = join_with CHR ''/'' (drop 7 parts),
                  ref_portable = True, ref_common = False\<rparr>)
      else Inl (InvalidPortableRepoPath repoPath))"

section \<open>Ownership\<close>

definition canonical_case :: "string \<Rightarrow> string" where
  "canonical_case p = to_lower (replace_char CHR 0x5C CHR ''/'' p)"

fun owns_from :: "string \<Rightarrow> string list \<Rightarrow> bool" where
  "owns_from relative [] = True"
| "owns_from relative (r # rs) =
     (let p = canonical_case r
      in if p = [] \<or> relative = p \<or> prefix (p @ ''/'') relative then False
         else owns_from relative rs)"

definition Owns :: "spec \<Rightarrow> string \<Rightarrow> bool" where
  "Owns s relative = owns_from (canonical_case relative) (sp_reserved s)"

section \<open>Declaration.Validate\<close>

datatype decl_error =
    ReservedProvider string
  | DeclIdentifier path_error
  | MissingID string
  | UnsupportedCategory string string
  | UnsupportedStrategy string string
  | DeclLayout string string
  | LegacyLayoutCategory string string
  | LegacyResourceID string string
  | MissingTransformer string
  | UnknownTransformer string
  | MissingInstaller string
  | UnknownInstaller string

definition knownTransformers :: "string list" where
  "knownTransformers =
     [''claude-settings'', ''copilot-settings'', ''gemini-settings'', ''vscode-settings'',
      ''vscode-mcp'', ''cursor-settings'', ''common-skill-lock'', ''generic-safe'']"

definition knownInstallers :: "string list" where
  "knownInstallers = [''claude-plugin'', ''copilot-plugin'', ''skill-dependencies'']"

definition Normalized :: "resource_decl \<Rightarrow> resource_decl" where
  "Normalized d = (if decl_layout d = [] then d\<lparr>decl_layout := LayoutPortable\<rparr> else d)"

definition known_strategy :: "string \<Rightarrow> bool" where
  "known_strategy s \<longleftrightarrow>
     s = StrategyFileTree \<or> s = StrategyTextTree \<or> s = StrategyStructuredMerge
     \<or> s = StrategySourceTree \<or> s = StrategyInstallManifest"

definition validate_legacy :: "resource_decl \<Rightarrow> decl_error option" where
  "validate_legacy d =
     (if decl_layout d \<noteq> LayoutLegacy then None
      else let expectedID = legacyResourceID (decl_category d)
           in if expectedID = [] then Some (LegacyLayoutCategory (decl_id d) (decl_category d))
              else if decl_id d \<noteq> expectedID then Some (LegacyResourceID (decl_id d) expectedID)
              else None)"

definition ValidateDeclaration :: "string \<Rightarrow> resource_decl \<Rightarrow> decl_error option" where
  "ValidateDeclaration provider d =
     (if provider = portableProviderName then Some (ReservedProvider provider)
      else case ValidateIdentifier ''provider name'' provider of Some e \<Rightarrow> Some (DeclIdentifier e) | None \<Rightarrow>
      if trim_space (decl_id d) = [] then Some (MissingID provider)
      else case ValidateIdentifier ''resource id'' (decl_id d) of Some e \<Rightarrow> Some (DeclIdentifier e) | None \<Rightarrow>
      case ValidateOptionalIdentifier ''shared_as'' (decl_shared_as d) of Some e \<Rightarrow> Some (DeclIdentifier e) | None \<Rightarrow>
      if \<not> known_category (decl_category d) then Some (UnsupportedCategory (decl_id d) (decl_category d))
      else if \<not> known_strategy (decl_strategy d) then Some (UnsupportedStrategy (decl_id d) (decl_strategy d))
      else if decl_layout d \<noteq> LayoutLegacy \<and> decl_layout d \<noteq> LayoutPortable
        then Some (DeclLayout (decl_id d) (decl_layout d))
      else case validate_legacy d of Some e \<Rightarrow> Some e | None \<Rightarrow>
      if decl_strategy d = StrategyStructuredMerge \<and> trim_space (decl_transformer d) = []
        then Some (MissingTransformer (decl_id d))
      else if decl_transformer d \<noteq> [] \<and> decl_transformer d \<notin> set knownTransformers
        then Some (UnknownTransformer (decl_transformer d))
      else if decl_strategy d = StrategyInstallManifest \<and> trim_space (decl_installer d) = []
        then Some (MissingInstaller (decl_id d))
      else if decl_installer d \<noteq> [] \<and> decl_installer d \<notin> set knownInstallers
        then Some (UnknownInstaller (decl_installer d))
      else None)"

section \<open>Facts about validated paths\<close>

text \<open>What the validation of a repository path amounts to: every segment is plain.\<close>

lemma validateRepoRelative_None:
  "validateRepoRelative v = None \<longleftrightarrow>
     trim_space v \<noteq> [] \<and> CHR 0x5C \<notin> set v \<and> \<not> isWindowsAbsolute v
     \<and> (\<forall>p\<in>set (split_on CHR ''/'' v). plain_segment p)"
  (is "?L \<longleftrightarrow> ?R")
proof
  assume ?L
  then show ?R
    by (auto simp: validateRepoRelative_def validateRepoSegment_def find_None_iff plain_segment_def
        dest: split_on_segments split: if_splits option.splits)
next
  assume R: ?R
  let ?ss = "split_on CHR ''/'' v"
  from R have segs: "\<forall>p\<in>set ?ss. plain_segment p" by blast
  have clean: "path_clean v = v" using path_clean_plain [OF split_on_nonempty segs] by simp
  have "plain_segment (hd ?ss)" using segs by simp
  then have rel: "\<not> prefix ''/'' v"
    by (cases v) (auto simp: plain_segment_def split: if_splits list.splits)
  have "find (\<lambda>part. \<not> validateRepoSegment part) ?ss = None"
    using R by (auto simp: find_None_iff validateRepoSegment_def plain_segment_def dest: set_split_on)
  then show ?L using R clean rel by (simp add: validateRepoRelative_def)
qed

lemma ValidateIdentifier_None:
  "ValidateIdentifier kind v = None \<longleftrightarrow>
     trim_space v \<noteq> [] \<and> plain_segment v \<and> CHR 0x5C \<notin> set v"
  by (auto simp: ValidateIdentifier_def plain_segment_def)

lemma known_category_plain:
  "known_category c \<Longrightarrow> plain_segment c \<and> CHR 0x5C \<notin> set c"
  by (auto simp: known_category_def plain_segment_def)

text \<open>A path put together from plain segments and a valid relative path is itself valid.\<close>

lemma validateRepoRelative_agents:
  assumes "\<forall>s\<in>set ss. plain_segment s \<and> CHR 0x5C \<notin> set s" and "validateRepoRelative rel = None"
  shows "path_join (''agents'' # ss @ [rel]) = join_with CHR ''/'' (''agents'' # ss @ split_on CHR ''/'' rel)"
    and "split_on CHR ''/'' (path_join (''agents'' # ss @ [rel])) = ''agents'' # ss @ split_on CHR ''/'' rel"
    and "validateRepoRelative (path_join (''agents'' # ss @ [rel])) = None"
proof -
  let ?all = "''agents'' # ss @ split_on CHR ''/'' rel"
  have rel: "rel \<noteq> []" "CHR 0x5C \<notin> set rel" "\<forall>p\<in>set (split_on CHR ''/'' rel). plain_segment p"
    using assms(2) by (auto simp: validateRepoRelative_None)
  have plain: "\<forall>s\<in>set ?all. plain_segment s"
    using assms(1) rel(3) by (auto simp: plain_segment_def)
  have flat: "join_with CHR ''/'' (''agents'' # ss @ [rel]) = join_with CHR ''/'' ?all"
    using join_with_append [of "''agents'' # ss" "[rel]" "CHR ''/''"]
      join_with_append [of "''agents'' # ss" "split_on CHR ''/'' rel" "CHR ''/''"]
    by simp
  have ne: "filter (\<lambda>e. e \<noteq> []) (''agents'' # ss @ [rel]) = ''agents'' # ss @ [rel]"
    using assms(1) rel(1) by (intro filter_True) (auto simp: plain_segment_def)
  show join: "path_join (''agents'' # ss @ [rel]) = join_with CHR ''/'' ?all"
  proof -
    have "path_clean (join_with CHR ''/'' ?all) = join_with CHR ''/'' ?all"
      by (rule path_clean_plain) (use plain in auto)
    then show ?thesis unfolding path_join_def ne by (simp add: flat Let_def)
  qed
  show sp: "split_on CHR ''/'' (path_join (''agents'' # ss @ [rel])) = ?all"
    unfolding join by (rule split_join) (use plain in auto)
  let ?p = "path_join (''agents'' # ss @ [rel])"
  obtain t where t: "?p = ''agents/'' @ t"
    using join join_with_append [of "[''agents'']" "ss @ split_on CHR ''/'' rel" "CHR ''/''"] by auto
  have "set ?p \<subseteq> insert CHR ''/'' (\<Union>(set ` set ?all))"
    unfolding join by (rule set_join_with)
  moreover have "CHR 0x5C \<notin> \<Union>(set ` set ?all)"
    using assms(1) rel(2) set_split_on [of _ "CHR ''/''" rel] by auto
  ultimately have "CHR 0x5C \<notin> set ?p" by auto
  moreover have "trim_space ?p \<noteq> []"
    using trim_space_Nil_cases [of ?p] by (auto simp: t starts_with_space_def go_spaces_def)
  moreover have "\<not> isWindowsAbsolute ?p" by (simp add: t isWindowsAbsolute_def)
  ultimately show "validateRepoRelative ?p = None"
    unfolding validateRepoRelative_None sp using plain by blast
qed

section \<open>Round trip between a resource and its repository path\<close>

text \<open>The reference a path of resource \<open>s\<close> must parse back to.\<close>

definition spec_ref :: "spec \<Rightarrow> string \<Rightarrow> repo_ref" where
  "spec_ref s rel =
     (if sp_layout s = LayoutLegacy then
        \<lparr>ref_provider = sp_provider s, ref_category = sp_category s,
         ref_id = legacyResourceID (sp_category s), ref_relative = rel,
         ref_portable = False, ref_common = False\<rparr>
      else if sp_shared_as s \<noteq> [] \<or> sp_provider s = ''common'' then
        \<lparr>ref_provider = ''common'', ref_category = sp_category s,
         ref_id = (if sp_shared_as s = [] then sp_id s else sp_shared_as s),
         ref_relative = rel, ref_portable = True, ref_common = True\<rparr>
      else
        \<lparr>ref_provider = sp_provider s, ref_category = sp_category s, ref_id = sp_id s,
         ref_relative = rel, ref_portable = True, ref_common = False\<rparr>)"

text \<open>What \<open>Declaration.Validate\<close> guarantees of the specification built from a declaration.\<close>

definition spec_wf :: "spec \<Rightarrow> bool" where
  "spec_wf s \<longleftrightarrow>
     (sp_layout s = LayoutLegacy \<longrightarrow> sp_provider s \<noteq> portableProviderName)
     \<and> (sp_layout s = LayoutPortable \<longrightarrow> known_category (sp_category s))"

lemma RepoPath_cases:
  assumes "RepoPath s rel = Inr p"
  obtains
    (legacy) ss where "sp_layout s = LayoutLegacy" "ss = [sp_provider s, sp_category s]"
      "sp_category s = CategoryConfig \<or> sp_category s = CategorySessions"
      "p = path_join (''agents'' # ss @ [rel])"
      "validateRepoRelative rel = None" "ValidateIdentifier ''provider name'' (sp_provider s) = None"
  | (common) ss i where "sp_layout s = LayoutPortable" "sp_shared_as s \<noteq> [] \<or> sp_provider s = ''common''"
      "i = (if sp_shared_as s = [] then sp_id s else sp_shared_as s)"
      "ss = [portableProviderName, ''config'', ''common'', sp_category s, i]"
      "p = path_join (''agents'' # ss @ [rel])"
      "validateRepoRelative rel = None" "ValidateIdentifier ''shared_as'' i = None"
  | (owned) ss where "sp_layout s = LayoutPortable" "sp_shared_as s = []" "sp_provider s \<noteq> ''common''"
      "ss = [portableProviderName, ''config'', ''providers'', sp_provider s, sp_category s, sp_id s]"
      "p = path_join (''agents'' # ss @ [rel])"
      "validateRepoRelative rel = None" "ValidateIdentifier ''provider name'' (sp_provider s) = None"
      "ValidateIdentifier ''resource id'' (sp_id s) = None"
  using assms
  by (auto simp: RepoPath_def Let_def split: option.splits if_splits)

lemma RepoPath_shape:
  assumes "spec_wf s" "RepoPath s rel = Inr p"
  obtains ss where "\<forall>x\<in>set ss. plain_segment x \<and> CHR 0x5C \<notin> set x"
    "p = path_join (''agents'' # ss @ [rel])" "validateRepoRelative rel = None"
    "sp_layout s = LayoutLegacy \<and> ss = [sp_provider s, sp_category s]
       \<and> (sp_category s = CategoryConfig \<or> sp_category s = CategorySessions)
     \<or> sp_layout s = LayoutPortable \<and> (sp_shared_as s \<noteq> [] \<or> sp_provider s = ''common'')
       \<and> ss = [portableProviderName, ''config'', ''common'', sp_category s,
               if sp_shared_as s = [] then sp_id s else sp_shared_as s]
     \<or> sp_layout s = LayoutPortable \<and> sp_shared_as s = [] \<and> sp_provider s \<noteq> ''common''
       \<and> ss = [portableProviderName, ''config'', ''providers'', sp_provider s, sp_category s, sp_id s]"
proof -
  have cat: "known_category (sp_category s)" if "sp_layout s = LayoutPortable"
    using assms(1) that by (simp add: spec_wf_def)
  have kcs: "known_category CategoryConfig" "known_category CategorySessions"
    by (simp_all add: known_category_def)
  note seg = known_category_plain ValidateIdentifier_None
  have const: "plain_segment portableProviderName" "plain_segment ''config''" "plain_segment ''common''"
    "plain_segment ''providers''" "CHR 0x5C \<notin> set portableProviderName" "CHR 0x5C \<notin> set ''config''"
    "CHR 0x5C \<notin> set ''common''" "CHR 0x5C \<notin> set ''providers''"
    by (simp_all add: plain_segment_def)
  show thesis
    using assms(2)
  proof (cases rule: RepoPath_cases)
    case (legacy ss)
    have "\<forall>x\<in>set ss. plain_segment x \<and> CHR 0x5C \<notin> set x"
      using legacy(2,3,6) kcs known_category_plain by (auto simp: ValidateIdentifier_None)
    with legacy show thesis by (intro that [of ss]) auto
  next
    case (common ss i)
    have "\<forall>x\<in>set ss. plain_segment x \<and> CHR 0x5C \<notin> set x"
      unfolding common(4) using common(7) known_category_plain [OF cat [OF common(1)]] const
      by (simp add: ValidateIdentifier_None)
    with common show thesis by (intro that [of ss]) auto
  next
    case (owned ss)
    have "\<forall>x\<in>set ss. plain_segment x \<and> CHR 0x5C \<notin> set x"
      unfolding owned(4) using owned(7,8) known_category_plain [OF cat [OF owned(1)]] const
      by (simp add: ValidateIdentifier_None)
    with owned show thesis by (intro that [of ss]) auto
  qed
qed

lemma ParseRepoPath_RepoPath:
  assumes wf: "spec_wf s" and path: "RepoPath s rel = Inr p"
  shows "ParseRepoPath p = Inr (spec_ref s rel)"
proof -
  obtain ss where ss: "\<forall>x\<in>set ss. plain_segment x \<and> CHR 0x5C \<notin> set x"
    and p: "p = path_join (''agents'' # ss @ [rel])" and rel: "validateRepoRelative rel = None"
    and alt: "sp_layout s = LayoutLegacy \<and> ss = [sp_provider s, sp_category s]
       \<and> (sp_category s = CategoryConfig \<or> sp_category s = CategorySessions)
     \<or> sp_layout s = LayoutPortable \<and> (sp_shared_as s \<noteq> [] \<or> sp_provider s = ''common'')
       \<and> ss = [portableProviderName, ''config'', ''common'', sp_category s,
               if sp_shared_as s = [] then sp_id s else sp_shared_as s]
     \<or> sp_layout s = LayoutPortable \<and> sp_shared_as s = [] \<and> sp_provider s \<noteq> ''common''
       \<and> ss = [portableProviderName, ''config'', ''providers'', sp_provider s, sp_category s, sp_id s]"
    by (rule RepoPath_shape [OF wf path])
  have split: "split_on CHR ''/'' p = ''agents'' # ss @ split_on CHR ''/'' rel"
    and valid: "validateRepoRelative p = None"
    using validateRepoRelative_agents [OF ss rel] by (simp_all add: p)
  have n: "0 < length (split_on CHR ''/'' rel)" by simp
  have wf': "sp_layout s = LayoutLegacy \<Longrightarrow> sp_provider s \<noteq> portableProviderName"
    "sp_layout s = LayoutPortable \<Longrightarrow> known_category (sp_category s)"
    using wf by (auto simp: spec_wf_def)
  note simps = ParseRepoPath_def valid split Let_def spec_ref_def parseCategory_def parseLegacyCategory_def
  from alt show ?thesis
  proof (elim disjE conjE, goal_cases)
    case 1
    then show ?thesis using wf' n by (simp add: simps known_category_def)
  next
    case 2
    then show ?thesis using wf' n by (simp add: simps known_category_def)
  next
    case 3
    then show ?thesis using wf' n by (simp add: simps)
  next
    case 4
    then show ?thesis using wf' n by (simp add: simps)
  next
    case 5
    then show ?thesis using wf' n by (simp add: simps)
  qed
qed

text \<open>A declaration that passes \<open>Validate\<close> has a known category, and is not of the reserved provider.\<close>

lemma ValidateDeclaration_None:
  assumes "ValidateDeclaration provider d = None"
  shows "provider \<noteq> portableProviderName" "known_category (decl_category d)"
    "known_strategy (decl_strategy d)"
    "ValidateIdentifier ''provider name'' provider = None"
    "ValidateIdentifier ''resource id'' (decl_id d) = None"
    "ValidateOptionalIdentifier ''shared_as'' (decl_shared_as d) = None"
    "decl_layout d = LayoutLegacy \<or> decl_layout d = LayoutPortable"
    "decl_layout d = LayoutLegacy \<Longrightarrow> decl_id d = legacyResourceID (decl_category d)"
  using assms
  by (auto simp: ValidateDeclaration_def validate_legacy_def Let_def split: option.splits if_splits)

lemma legacyResourceID_nonempty:
  "legacyResourceID c \<noteq> [] \<longleftrightarrow> c = CategoryConfig \<or> c = CategorySessions"
  by (simp add: legacyResourceID_def)

text \<open>\<open>Owns\<close> is monotone in the reserved list and closed under subpaths of what is reserved.\<close>

lemma owns_from_iff:
  "owns_from r rs \<longleftrightarrow>
     (\<forall>x\<in>set rs. canonical_case x \<noteq> [] \<and> r \<noteq> canonical_case x
        \<and> \<not> prefix (canonical_case x @ ''/'') r)"
  by (induction rs) (auto simp: Let_def)

lemma canonical_case_append: "canonical_case (s @ t) = canonical_case s @ canonical_case t"
  by (simp add: canonical_case_def)

lemma canonical_case_slash: "canonical_case (CHR ''/'' # t) = CHR ''/'' # canonical_case t"
  by (simp add: canonical_case_def replace_char_def to_lower_def lower_char_def)

lemma Owns_subpath: "Owns s (rel @ CHR ''/'' # rest) \<Longrightarrow> Owns s rel"
  by (auto simp: Owns_def owns_from_iff canonical_case_append canonical_case_slash prefix_def)

section \<open>Properties\<close>

text \<open>
  A resource path survives the trip through the repository: when \<open>RepoPath\<close> gives a path for a
  relative name of a specification a validated declaration can have, \<open>ParseRepoPath\<close> accepts that
  path and gives back the provider, category, resource id, layout and exactly the same relative name.
\<close>

lemma repo_path_roundtrip:
  assumes "spec_wf s" and "RepoPath s rel = Inr p"
  shows "\<exists>ref. ParseRepoPath p = Inr ref \<and> ref = spec_ref s rel \<and> ref_relative ref = rel
    \<and> ref_category ref = sp_category s \<and> (ref_portable ref \<longleftrightarrow> sp_layout s = LayoutPortable)"
proof -
  have "sp_layout s = LayoutLegacy \<or> sp_layout s = LayoutPortable"
    using assms(2) by (auto simp: RepoPath_def split: option.splits if_splits)
  then show ?thesis
    using ParseRepoPath_RepoPath [OF assms] by (auto simp: spec_ref_def)
qed

definition example_spec :: spec where
  "example_spec =
     \<lparr>sp_key = ''claude/settings'', sp_provider = ''claude'', sp_id = ''settings'',
      sp_category = CategoryConfig, sp_strategy = StrategyStructuredMerge,
      sp_layout = LayoutPortable, sp_root = ''/home/u/.claude'', sp_targets = [''/home/u/.claude''],
      sp_include = [''settings.json''], sp_exclude = [], sp_transformer = ''claude-settings'',
      sp_installer = [], sp_shared_as = [], sp_key_patterns = [''token''], sp_reserved = [''skills/a''],
      sp_copy_only = False, sp_optional_root = False, sp_validate_root = None,
      sp_validate_content = None\<rparr>"

lemma example_RepoPath:
  "RepoPath example_spec ''settings.json'' =
     Inr ''agents/_portable/config/providers/claude/config/settings/settings.json''"
  by code_simp

theorem repo_path_roundtrip_witness:
  "\<exists>ref. ParseRepoPath ''agents/_portable/config/providers/claude/config/settings/settings.json'' = Inr ref
    \<and> ref_relative ref = ''settings.json''"
proof -
  have "spec_wf example_spec" by (simp add: spec_wf_def example_spec_def known_category_def)
  from repo_path_roundtrip [OF this example_RepoPath] show ?thesis by blast
qed

text \<open>
  Two resources never share a repository file: if two well-formed specifications map two
  relative names to the same repository path, then provider, category, resource id, layout and
  relative name all agree.
\<close>

lemma repo_path_injective:
  assumes "spec_wf s" and "spec_wf t" and "RepoPath s r = Inr p" and "RepoPath t q = Inr p"
  shows "spec_ref s r = spec_ref t q \<and> r = q"
proof -
  have eq: "spec_ref s r = spec_ref t q"
    using ParseRepoPath_RepoPath [OF assms(1,3)] ParseRepoPath_RepoPath [OF assms(2,4)] by simp
  have "ref_relative (spec_ref s r) = r" "ref_relative (spec_ref t q) = q"
    by (auto simp: spec_ref_def)
  with eq show ?thesis by metis
qed

theorem repo_path_injective_witness:
  "spec_ref example_spec ''settings.json'' = spec_ref (example_spec\<lparr>sp_key := ''other''\<rparr>) ''settings.json''"
proof -
  have wf: "spec_wf example_spec" "spec_wf (example_spec\<lparr>sp_key := ''other''\<rparr>)"
    by (simp_all add: spec_wf_def example_spec_def known_category_def)
  have "RepoPath (example_spec\<lparr>sp_key := ''other''\<rparr>) ''settings.json'' =
     Inr ''agents/_portable/config/providers/claude/config/settings/settings.json''"
    by code_simp
  from repo_path_injective [OF wf example_RepoPath this] show ?thesis by blast
qed

text \<open>
  A repository path that \<open>ParseRepoPath\<close> accepts cannot leave the repository: it is made of
  plain segments below \<open>agents\<close>, none of them empty, a dot or a double dot, and holds no backslash.
\<close>

lemma parsed_paths_stay_inside:
  assumes "ParseRepoPath p = Inr ref"
  shows "(\<exists>segs. split_on CHR ''/'' p = ''agents'' # segs \<and> (\<forall>x\<in>set segs. plain_segment x))
    \<and> CHR 0x5C \<notin> set p \<and> ref_relative ref \<noteq> [] \<and> validateRepoRelative p = None"
proof -
  let ?parts = "split_on CHR ''/'' p"
  have v: "validateRepoRelative p = None" and n: "4 \<le> length ?parts" "?parts ! 0 = ''agents''"
    using assms by (auto simp: ParseRepoPath_def Let_def split: option.splits if_splits)
  have plain: "\<forall>x\<in>set ?parts. plain_segment x" and bs: "CHR 0x5C \<notin> set p"
    using v by (auto simp: validateRepoRelative_None)
  obtain segs where segs: "?parts = ''agents'' # segs" using n by (cases ?parts) auto
  have tail: "join_with CHR ''/'' (drop k ?parts) \<noteq> []" if "k < length ?parts" for k
  proof -
    have "hd (drop k ?parts) \<in> set ?parts" using that by (simp add: hd_drop_conv_nth)
    then show ?thesis using plain that by (auto simp: join_with_eq_Nil)
  qed
  have "ref_relative ref \<noteq> []"
    using assms v n tail
    by (auto simp: ParseRepoPath_def Let_def split: sum.splits if_splits)
  then show ?thesis using segs plain bs v by auto
qed

theorem parsed_paths_stay_inside_witness:
  "ref_relative (spec_ref example_spec ''settings.json'') \<noteq> []"
proof -
  have "ParseRepoPath ''agents/_portable/config/providers/claude/config/settings/settings.json''
      = Inr (spec_ref example_spec ''settings.json'')"
    by (rule ParseRepoPath_RepoPath [OF _ example_RepoPath])
      (simp add: spec_wf_def example_spec_def known_category_def)
  from parsed_paths_stay_inside [OF this] show ?thesis by blast
qed

end
