(* ===== verification/Structured_Merge.thy ===== *)
theory Structured_Merge
  imports Go_Prelude
begin

text \<open>
  Three-way merging of portable documents (internal/portablemerge/merge.go): the structured merge of
  decoded JSON, YAML and TOML documents, the binary merge and the outcome of the external text
  merger.  A decoded document is a tree whose objects are finite maps, so that HOL equality is
  \<open>reflect.DeepEqual\<close> (numbers are compared as text, as \<open>Decoder.UseNumber\<close> keeps them); values are
  immutable, so \<open>cloneNode\<close> and \<open>cloneValue\<close> are the identity.
\<close>

section \<open>The contract of a three-way merger\<close>

text \<open>
  What a merger of a base, a local and a remote version promises: equal sides are kept, and a side
  that did not change gives way.  \<open>None\<close> is a conflict.
\<close>

locale merge3 =
  fixes merge :: "'a \<Rightarrow> 'a \<Rightarrow> 'a \<Rightarrow> 'a option"
  assumes merge_equal: "merge b x x = Some x"
    and merge_local_unchanged: "merge b b r = Some r"
    and merge_remote_unchanged: "merge b l b = Some l"
begin

lemma conflict_needs_two_edits:
  "merge b l r = None \<Longrightarrow> b \<noteq> l \<and> b \<noteq> r \<and> l \<noteq> r"
  using merge_equal merge_local_unchanged merge_remote_unchanged by fastforce

text \<open>A result adopted by both sides and by the base stays put, and any later one-sided edit wins.\<close>

lemma adopted_result_is_stable:
  "merge b l r = Some m \<Longrightarrow> merge m m m = Some m \<and> merge m x m = Some x \<and> merge m m x = Some x"
  by (simp add: merge_equal merge_local_unchanged merge_remote_unchanged)

end

text \<open>A merger that does not favour a side.\<close>

locale merge3_fair = merge3 +
  assumes merge_swap: "merge b l r = merge b r l"
begin

lemma conflict_swap: "merge b l r = None \<longleftrightarrow> merge b r l = None"
  by (simp add: merge_swap)

end

section \<open>Decoded documents\<close>

datatype json =
    JNull
  | JBool bool
  | JNum string
  | JStr string
  | JArr "json list"
  | JObj "(string, json) fmap"

type_synonym document = "(string, json) fmap"

text \<open>Nesting depth, the termination measure of the recursions over documents.\<close>

definition fm_max :: "('k, nat) fmap \<Rightarrow> nat" where
  "fm_max m = Max (insert 0 (fset (fmran m)))"

lemma fm_max_lookup: "fmlookup m k = Some n \<Longrightarrow> n \<le> fm_max m"
  by (auto simp: fm_max_def fmranI)

primrec depth :: "json \<Rightarrow> nat" where
  "depth JNull = 0"
| "depth (JBool b) = 0"
| "depth (JNum n) = 0"
| "depth (JStr s) = 0"
| "depth (JArr xs) = Suc (fold max (map depth xs) 0)"
| "depth (JObj m) = Suc (fm_max (fmmap depth m))"

definition doc_depth :: "document \<Rightarrow> nat" where
  "doc_depth m = fm_max (fmmap depth m)"

fun node_depth :: "json option \<Rightarrow> nat" where
  "node_depth None = 0"
| "node_depth (Some v) = depth v"

lemma node_depth_lookup: "node_depth (fmlookup m k) \<le> doc_depth m"
  using fm_max_lookup [of "fmmap depth m" k] by (cases "fmlookup m k") (auto simp: doc_depth_def)

section \<open>mergeMaps and mergeNode\<close>

text \<open>
  A node is an optional value (\<open>present\<close>).  The result is \<open>None\<close> for a conflict.  \<open>mergeMaps\<close> visits the
  keys in sorted order; \<open>mergeMaps_lookup\<close> below shows that the order Go picks does not matter.
\<close>

function (sequential) mergeMaps :: "document \<Rightarrow> document \<Rightarrow> document \<Rightarrow> document option"
  and mergeNode :: "json option \<Rightarrow> json option \<Rightarrow> json option \<Rightarrow> json option option" where
  "mergeMaps base local remote =
     (case fold_res
             (\<lambda>key out. case mergeNode (fmlookup base key) (fmlookup local key) (fmlookup remote key) of
                None \<Rightarrow> Inl ()
              | Some merged \<Rightarrow> Inr (case merged of None \<Rightarrow> out | Some v \<Rightarrow> fmupd key v out))
             (sort_unique (fm_keys base @ fm_keys local @ fm_keys remote)) fmempty of
        Inl _ \<Rightarrow> None
      | Inr out \<Rightarrow> Some out)"
| "mergeNode base local remote =
     (if local = remote then Some local
      else if base = local then Some remote
      else if base = remote then Some local
      else case (local, remote) of
        (Some (JObj localMap), Some (JObj remoteMap)) \<Rightarrow>
          (case base of
             None \<Rightarrow> map_option (\<lambda>m. Some (JObj m)) (mergeMaps fmempty localMap remoteMap)
           | Some (JObj baseMap) \<Rightarrow> map_option (\<lambda>m. Some (JObj m)) (mergeMaps baseMap localMap remoteMap)
           | Some _ \<Rightarrow> None)
      | _ \<Rightarrow> None)"
  by pat_completeness auto
termination
proof (relation "measure (\<lambda>x. case x of Inl (b, l, r) \<Rightarrow> 2 * doc_depth l + 2
                                        | Inr (b, l, r) \<Rightarrow> 2 * node_depth l + 1)", goal_cases)
  case (2 base local remote key out)
  then show ?case using node_depth_lookup [of local key] by simp
qed (auto simp: doc_depth_def)

declare mergeMaps.simps [simp del] mergeNode.simps [simp del]

section \<open>Binary, structured and text mergers\<close>

datatype 'a merge_result = Merged 'a | Conflict

definition Binary :: "string \<Rightarrow> string \<Rightarrow> string \<Rightarrow> string merge_result" where
  "Binary base local remote =
     (if local = remote then Merged local
      else if local = base then Merged remote
      else if remote = base then Merged local
      else Conflict)"

text \<open>
  \<open>portableconfig.Parse\<close> and \<open>Marshal\<close> rest on third-party YAML and TOML codecs: they are
  parameters.  \<open>parse rel data\<close> gives the format and the document, or an error text.
\<close>

datatype doc_format = FormatJSON | FormatYAML | FormatTOML

datatype merge_error =
    ParseBase string
  | ParseLocal string
  | ParseRemote string
  | FormatMismatch
  | MarshalFailed string
  | TextMergeFailed int
  | TextMergeIO string

type_synonym doc_parser = "string \<Rightarrow> string \<Rightarrow> string + doc_format \<times> document"
type_synonym doc_marshaller = "doc_format \<Rightarrow> document \<Rightarrow> string + string"

definition StructuredDocument ::
  "doc_parser \<Rightarrow> doc_marshaller \<Rightarrow> string \<Rightarrow> string \<Rightarrow> string \<Rightarrow> string \<Rightarrow> merge_error + string merge_result" where
  "StructuredDocument parse marshal rel base local remote =
     (case parse rel base of Inl e \<Rightarrow> Inl (ParseBase e) | Inr (format, baseDocument) \<Rightarrow>
      case parse rel local of Inl e \<Rightarrow> Inl (ParseLocal e) | Inr (localFormat, localDocument) \<Rightarrow>
      case parse rel remote of Inl e \<Rightarrow> Inl (ParseRemote e) | Inr (remoteFormat, remoteDocument) \<Rightarrow>
      if localFormat \<noteq> format \<or> remoteFormat \<noteq> format then Inl FormatMismatch
      else case mergeMaps baseDocument localDocument remoteDocument of
        None \<Rightarrow> Inr Conflict
      | Some merged \<Rightarrow>
          (case marshal format merged of Inl e \<Rightarrow> Inl (MarshalFailed e) | Inr data \<Rightarrow> Inr (Merged data)))"

definition Structured ::
  "(string \<Rightarrow> string + document) \<Rightarrow> (document \<Rightarrow> string + string)
     \<Rightarrow> string \<Rightarrow> string \<Rightarrow> string \<Rightarrow> merge_error + string merge_result" where
  "Structured parseObject encode base local remote =
     (case parseObject base of Inl e \<Rightarrow> Inl (ParseBase e) | Inr baseDocument \<Rightarrow>
      case parseObject local of Inl e \<Rightarrow> Inl (ParseLocal e) | Inr localDocument \<Rightarrow>
      case parseObject remote of Inl e \<Rightarrow> Inl (ParseRemote e) | Inr remoteDocument \<Rightarrow>
      case mergeMaps baseDocument localDocument remoteDocument of
        None \<Rightarrow> Inr Conflict
      | Some merged \<Rightarrow> (case encode merged of Inl e \<Rightarrow> Inl (MarshalFailed e) | Inr data \<Rightarrow> Inr (Merged data)))"

text \<open>
  \<open>GitTextMerger.Merge\<close> runs \<open>git merge-file --stdout local base remote\<close>.  The external command is
  a parameter that gives its exit code and its standard output, or an error text when the merge
  directory, an input file or the process could not be made.
\<close>

type_synonym git_merge_file = "string \<Rightarrow> string \<Rightarrow> string \<Rightarrow> string + int \<times> string"

definition GitTextMerge :: "git_merge_file \<Rightarrow> string \<Rightarrow> string \<Rightarrow> string \<Rightarrow> merge_error + string merge_result" where
  "GitTextMerge git base local remote =
     (case git local base remote of
        Inl e \<Rightarrow> Inl (TextMergeIO e)
      | Inr (exitCode, stdout) \<Rightarrow>
          if exitCode = 0 then Inr (Merged stdout)
          else if exitCode = 1 then Inr Conflict
          else Inl (TextMergeFailed exitCode))"

section \<open>mergeMaps key by key\<close>

text \<open>The loop over the keys, with the decision for each key abstracted.\<close>

abbreviation merge_loop ::
  "(string \<Rightarrow> json option option) \<Rightarrow> string list \<Rightarrow> document \<Rightarrow> unit + document" where
  "merge_loop f \<equiv> fold_res (\<lambda>key out. case f key of None \<Rightarrow> Inl ()
     | Some merged \<Rightarrow> Inr (case merged of None \<Rightarrow> out | Some v \<Rightarrow> fmupd key v out))"

lemma merge_loop_Inr:
  "distinct keys \<Longrightarrow> (\<forall>k\<in>set keys. fmlookup out k = None) \<Longrightarrow>
   merge_loop f keys out = Inr m \<longleftrightarrow>
     (\<forall>k\<in>set keys. f k = Some (fmlookup m k)) \<and> (\<forall>k. k \<notin> set keys \<longrightarrow> fmlookup m k = fmlookup out k)"
proof (induction keys arbitrary: out)
  case Nil
  then show ?case by (auto intro: fmap_ext)
next
  case (Cons key keys)
  show ?case
  proof (cases "f key")
    case None
    then show ?thesis by simp
  next
    case (Some merged)
    let ?out = "case merged of None \<Rightarrow> out | Some v \<Rightarrow> fmupd key v out"
    have fresh: "\<forall>k\<in>set keys. fmlookup ?out k = None"
      using Cons.prems by (auto split: option.splits)
    have "merge_loop f (key # keys) out = merge_loop f keys ?out" by (simp add: Some)
    also have "(\<dots> = Inr m) \<longleftrightarrow> (\<forall>k\<in>set keys. f k = Some (fmlookup m k))
        \<and> (\<forall>k. k \<notin> set keys \<longrightarrow> fmlookup m k = fmlookup ?out k)"
      using Cons.IH [OF _ fresh] Cons.prems(1) by simp
    also have "\<dots> \<longleftrightarrow> (\<forall>k\<in>set (key # keys). f k = Some (fmlookup m k))
        \<and> (\<forall>k. k \<notin> set (key # keys) \<longrightarrow> fmlookup m k = fmlookup out k)"
      (is "?L \<longleftrightarrow> ?R")
    proof
      assume L: ?L
      have "fmlookup m k = fmlookup ?out k" if "k = key \<or> k \<notin> set keys" for k
        using L Cons.prems(1) that by auto
      then show ?R using L Cons.prems Some by (force split: option.splits if_splits)
    next
      assume R: ?R
      then have "fmlookup m key = merged" using Some by simp
      then show ?L using R Cons.prems by (auto split: option.splits) metis
    qed
    finally show ?thesis .
  qed
qed

lemma mergeNode_same [simp]: "mergeNode b x x = Some x"
  by (simp add: mergeNode.simps)

lemma mergeMaps_eq_Some:
  "mergeMaps b l r = Some m \<longleftrightarrow>
     (\<forall>k. mergeNode (fmlookup b k) (fmlookup l k) (fmlookup r k) = Some (fmlookup m k))"
  (is "_ \<longleftrightarrow> (\<forall>k. ?f k = _)")
proof -
  let ?keys = "sort_unique (fm_keys b @ fm_keys l @ fm_keys r)"
  have "mergeMaps b l r = Some m \<longleftrightarrow> merge_loop ?f ?keys fmempty = Inr m"
    by (subst mergeMaps.simps) (auto split: sum.split)
  also have "\<dots> \<longleftrightarrow> (\<forall>k\<in>set ?keys. ?f k = Some (fmlookup m k)) \<and> (\<forall>k. k \<notin> set ?keys \<longrightarrow> fmlookup m k = None)"
    by (subst merge_loop_Inr) auto
  also have "\<dots> \<longleftrightarrow> (\<forall>k. ?f k = Some (fmlookup m k))"
  proof -
    have "?f k = Some None" if "k \<notin> set ?keys" for k
      using that by (auto simp: fm_simps)
    then show ?thesis by (metis option.inject)
  qed
  finally show ?thesis .
qed

lemma mergeMaps_eq_None:
  "mergeMaps b l r = None \<longleftrightarrow> (\<exists>k. mergeNode (fmlookup b k) (fmlookup l k) (fmlookup r k) = None)"
  (is "_ \<longleftrightarrow> (\<exists>k. ?f k = None)")
proof -
  let ?keys = "sort_unique (fm_keys b @ fm_keys l @ fm_keys r)"
  have loop: "(\<exists>u. merge_loop f keys out = Inl u) \<longleftrightarrow> (\<exists>k\<in>set keys. f k = None)" for f keys out
    by (induction keys arbitrary: out) (auto split: option.splits)
  have "mergeMaps b l r = None \<longleftrightarrow> (\<exists>u. merge_loop ?f ?keys fmempty = Inl u)"
    by (subst mergeMaps.simps) (auto split: sum.split)
  also have "\<dots> \<longleftrightarrow> (\<exists>k\<in>set ?keys. ?f k = None)" by (rule loop)
  also have "\<dots> \<longleftrightarrow> (\<exists>k. ?f k = None)"
  proof -
    have "?f k \<noteq> None" if "k \<notin> set ?keys" for k
      using that by (auto simp: fm_simps)
    then show ?thesis by metis
  qed
  finally show ?thesis .
qed

text \<open>\<open>mergeNode\<close> without the recursion: the object of the base, absent counting as empty.\<close>

definition base_object :: "json option \<Rightarrow> document option" where
  "base_object b = (case b of None \<Rightarrow> Some fmempty | Some (JObj m) \<Rightarrow> Some m | Some _ \<Rightarrow> None)"

lemma mergeNode_cases:
  "mergeNode b l r =
     (if l = r then Some l else if b = l then Some r else if b = r then Some l
      else case (base_object b, l, r) of
        (Some bm, Some (JObj lm), Some (JObj rm)) \<Rightarrow> map_option (\<lambda>m. Some (JObj m)) (mergeMaps bm lm rm)
      | _ \<Rightarrow> None)"
  by (subst mergeNode.simps) (auto simp: base_object_def split: option.split json.split)

lemma mergeNode_divergent:
  assumes "l \<noteq> r" "b \<noteq> l" "b \<noteq> r" "mergeNode b l r = Some n"
  obtains bm lm rm m where "base_object b = Some bm" "l = Some (JObj lm)" "r = Some (JObj rm)"
    "n = Some (JObj m)" "mergeMaps bm lm rm = Some m"
  using assms by (auto simp: mergeNode_cases split: option.splits json.splits)

interpretation binary_merge: merge3_fair "\<lambda>b l r. case Binary b l r of Merged x \<Rightarrow> Some x | Conflict \<Rightarrow> None"
  by unfold_locales (auto simp: Binary_def)

lemma mergeMaps_swap_and_mergeNode_swap:
  "mergeMaps b l r = mergeMaps b r l" "mergeNode b' l' r' = mergeNode b' r' l'"
proof (induction b l r and b' l' r' rule: mergeMaps_mergeNode.induct)
  case (1 base local remote)
  have IH: "mergeNode (fmlookup base k) (fmlookup local k) (fmlookup remote k)
      = mergeNode (fmlookup base k) (fmlookup remote k) (fmlookup local k)" for k
    by (rule 1)
  show ?case
  proof (cases "mergeMaps base local remote")
    case None
    then have "mergeMaps base remote local = None" unfolding mergeMaps_eq_None by (simp add: IH)
    with None show ?thesis by simp
  next
    case (Some m)
    then have "mergeMaps base remote local = Some m" unfolding mergeMaps_eq_Some by (simp add: IH)
    with Some show ?thesis by simp
  qed
next
  case (2 base local remote)
  then show ?case
    by (auto simp: mergeNode_cases [of base local remote] mergeNode_cases [of base remote local]
        base_object_def split: option.split json.split)
qed

lemma mergeNode_local_unchanged [simp]: "mergeNode b b r = Some r"
  by (simp add: mergeNode_cases)

lemma mergeNode_remote_unchanged [simp]: "mergeNode b l b = Some l"
  by (auto simp: mergeNode_cases)

interpretation node_merge: merge3_fair mergeNode
  by unfold_locales (simp_all add: mergeMaps_swap_and_mergeNode_swap(2))

interpretation map_merge: merge3_fair mergeMaps
  by unfold_locales (simp_all add: mergeMaps_eq_Some mergeMaps_swap_and_mergeNode_swap(1))

section \<open>Paths into a document\<close>

fun get_path :: "string list \<Rightarrow> json option \<Rightarrow> json option" where
  "get_path [] n = n"
| "get_path (k # ks) (Some (JObj m)) = get_path ks (fmlookup m k)"
| "get_path (k # ks) _ = None"

lemma get_path_None [simp]: "get_path p None = None"
  by (cases p) auto

lemma get_path_base_object:
  "base_object b = Some bm \<Longrightarrow> get_path (k # ks) b = get_path ks (fmlookup bm k)"
  by (auto simp: base_object_def split: option.splits json.splits)

text \<open>Where one side kept the base's subtree, the result has the other side's subtree.\<close>

lemma mergeNode_keeps_local:
  "mergeNode b l r = Some m \<Longrightarrow> get_path p b = get_path p r \<Longrightarrow> get_path p m = get_path p l"
proof (induction p arbitrary: b l r m)
  case Nil
  then show ?case by simp
next
  case (Cons k ks)
  show ?case
  proof (cases "l = r \<or> b = l \<or> b = r")
    case True
    with Cons.prems show ?thesis by (auto simp: mergeNode_cases split: if_splits)
  next
    case False
    then obtain bm lm rm mm where parts: "base_object b = Some bm" "l = Some (JObj lm)" "r = Some (JObj rm)"
      "m = Some (JObj mm)" "mergeMaps bm lm rm = Some mm"
      using Cons.prems(1) by (metis mergeNode_divergent)
    have "mergeNode (fmlookup bm k) (fmlookup lm k) (fmlookup rm k) = Some (fmlookup mm k)"
      using parts(5) by (simp add: mergeMaps_eq_Some)
    from Cons.IH [OF this] Cons.prems(2) parts show ?thesis by (simp add: get_path_base_object)
  qed
qed

lemma mergeMaps_as_node:
  assumes "mergeMaps b l r = Some m"
  shows "mergeNode (Some (JObj b)) (Some (JObj l)) (Some (JObj r)) = Some (Some (JObj m))"
proof -
  consider "l = r" | "b = l" | "b = r" | "l \<noteq> r" "b \<noteq> l" "b \<noteq> r" by blast
  then show ?thesis
    using assms map_merge.merge_equal map_merge.merge_local_unchanged map_merge.merge_remote_unchanged
    by cases (auto simp: mergeNode_cases base_object_def)
qed

text \<open>A genuine conflict: three different subtrees that cannot be merged key by key.\<close>

definition clash :: "json option \<Rightarrow> json option \<Rightarrow> json option \<Rightarrow> bool" where
  "clash b l r \<longleftrightarrow> b \<noteq> l \<and> b \<noteq> r \<and> l \<noteq> r \<and>
     (base_object b = None \<or> (\<nexists>m. l = Some (JObj m)) \<or> (\<nexists>m. r = Some (JObj m)))"

lemma conflict_has_clash:
  "mergeMaps b l r = None \<Longrightarrow> \<exists>k p. clash (get_path p (fmlookup b k)) (get_path p (fmlookup l k)) (get_path p (fmlookup r k))"
  "mergeNode b' l' r' = None \<Longrightarrow> \<exists>p. clash (get_path p b') (get_path p l') (get_path p r')"
proof (induction b l r and b' l' r' rule: mergeMaps_mergeNode.induct)
  case (1 base local remote)
  then show ?case unfolding mergeMaps_eq_None by blast
next
  case (2 base local remote)
  have ne: "local \<noteq> remote" "base \<noteq> local" "base \<noteq> remote"
    using node_merge.conflict_needs_two_edits [OF "2.prems"] by auto
  show ?case
  proof (cases "clash base local remote")
    case True
    then show ?thesis by (intro exI [of _ "[]"]) simp
  next
    case False
    with ne obtain bm lm rm where parts: "base_object base = Some bm"
      "local = Some (JObj lm)" "remote = Some (JObj rm)"
      by (auto simp: clash_def)
    have "mergeMaps bm lm rm = None" using "2.prems" ne parts by (simp add: mergeNode_cases)
    then have "\<exists>k p. clash (get_path p (fmlookup bm k)) (get_path p (fmlookup lm k)) (get_path p (fmlookup rm k))"
      using "2.IH" ne parts
      by (cases base) (auto simp: base_object_def split: json.splits)
    then obtain k p where c: "clash (get_path p (fmlookup bm k)) (get_path p (fmlookup lm k)) (get_path p (fmlookup rm k))"
      by blast
    have "clash (get_path (k # p) base) (get_path (k # p) local) (get_path (k # p) remote)"
      unfolding get_path_base_object [OF parts(1)] using parts(2,3) c by simp
    then show ?thesis by blast
  qed
qed

lemma clash_conflicts: "clash (get_path p b) (get_path p l) (get_path p r) \<Longrightarrow> mergeNode b l r = None"
proof (induction p arbitrary: b l r)
  case Nil
  then show ?case by (auto simp: clash_def mergeNode_cases split: option.split json.split)
next
  case (Cons k ks)
  show ?case
  proof (rule ccontr)
    assume "mergeNode b l r \<noteq> None"
    then obtain n where n: "mergeNode b l r = Some n" by blast
    have ne: "l \<noteq> r" "b \<noteq> l" "b \<noteq> r" using Cons.prems by (auto simp: clash_def)
    then obtain bm lm rm m where parts: "base_object b = Some bm" "l = Some (JObj lm)" "r = Some (JObj rm)"
      "mergeMaps bm lm rm = Some m"
      using n by (metis mergeNode_divergent)
    have "clash (get_path ks (fmlookup bm k)) (get_path ks (fmlookup lm k)) (get_path ks (fmlookup rm k))"
      using Cons.prems parts by (simp add: get_path_base_object)
    then have "mergeNode (fmlookup bm k) (fmlookup lm k) (fmlookup rm k) = None" by (rule Cons.IH)
    with parts(4) show False by (simp add: mergeMaps_eq_Some)
  qed
qed

section \<open>Properties\<close>

text \<open>
  C27. A structured merge loses no edit of either side: when three documents of one format merge,
  the written result parses back to a document in which, at every path, a subtree the remote side
  left as in the base is the local one, and a subtree the local side left as in the base is the
  remote one.  (The codecs are third-party code; the hypothesis is their round trip.)
\<close>

theorem structured_merge_keeps_both_edits:
  assumes parsed: "parse rel base = Inr (f, b)" "parse rel local = Inr (f, l)" "parse rel remote = Inr (f, r)"
    and codec: "\<forall>d out. marshal f d = Inr out \<longrightarrow> parse rel out = Inr (f, d)"
    and merged: "StructuredDocument parse marshal rel base local remote = Inr (Merged data)"
  shows "\<exists>m. parse rel data = Inr (f, m) \<and>
    (\<forall>p. (get_path p (Some (JObj b)) = get_path p (Some (JObj r)) \<longrightarrow>
            get_path p (Some (JObj m)) = get_path p (Some (JObj l)))
       \<and> (get_path p (Some (JObj b)) = get_path p (Some (JObj l)) \<longrightarrow>
            get_path p (Some (JObj m)) = get_path p (Some (JObj r))))"
proof -
  from merged parsed obtain m where m: "mergeMaps b l r = Some m" "marshal f m = Inr data"
    by (auto simp: StructuredDocument_def split: option.splits sum.splits)
  have "mergeMaps b r l = Some m" using m(1) map_merge.merge_swap by metis
  then show ?thesis
    using codec m mergeNode_keeps_local [OF mergeMaps_as_node] by (intro exI [of _ m]) auto
qed

definition example_doc :: "string \<Rightarrow> string \<Rightarrow> document" where
  "example_doc x y = fmap_of_list [(''x'', JNum x), (''y'', JNum y)]"

text \<open>A codec for a few documents: two characters give the two numbers.\<close>

definition example_parse :: doc_parser where
  "example_parse rel data = (if length data = 2 then Inr (FormatJSON, example_doc [hd data] [last data]) else Inl ''bad'')"

definition example_marshal :: doc_marshaller where
  "example_marshal f d =
     (case (fmlookup d ''x'', fmlookup d ''y'') of
        (Some (JNum [x]), Some (JNum [y])) \<Rightarrow>
          if d = example_doc [x] [y] then Inr [x, y] else Inl ''unsupported''
      | _ \<Rightarrow> Inl ''unsupported'')"

lemma example_codec: "\<forall>d out. example_marshal FormatJSON d = Inr out \<longrightarrow> example_parse rel out = Inr (FormatJSON, d)"
  by (auto simp: example_marshal_def example_parse_def split: option.splits json.splits list.splits if_splits)

lemma mergeMaps_example:
  "mergeMaps (example_doc ''1'' ''1'') (example_doc ''2'' ''1'') (example_doc ''1'' ''3'') = Some (example_doc ''2'' ''3'')"
  by (auto simp: mergeMaps_eq_Some example_doc_def)

theorem structured_merge_keeps_both_edits_witness:
  "StructuredDocument example_parse example_marshal ''a.json'' ''11'' ''21'' ''13'' = Inr (Merged ''23'')
   \<and> (\<exists>m. example_parse ''a.json'' ''23'' = Inr (FormatJSON, m)
        \<and> get_path [''x''] (Some (JObj m)) = Some (JNum ''2''))"
proof -
  have run: "StructuredDocument example_parse example_marshal ''a.json'' ''11'' ''21'' ''13'' = Inr (Merged ''23'')"
    using mergeMaps_example
    by (simp add: StructuredDocument_def example_parse_def example_marshal_def) (simp add: example_doc_def)
  have p: "example_parse ''a.json'' ''11'' = Inr (FormatJSON, example_doc ''1'' ''1'')"
    "example_parse ''a.json'' ''21'' = Inr (FormatJSON, example_doc ''2'' ''1'')"
    "example_parse ''a.json'' ''13'' = Inr (FormatJSON, example_doc ''1'' ''3'')"
    by (simp_all add: example_parse_def)
  from structured_merge_keeps_both_edits [OF p example_codec run] run show ?thesis
    by (auto simp: example_doc_def) (metis get_path.simps(1,2) fmupd_lookup)
qed

text \<open>
  The merge reports a conflict exactly when it must: \<open>mergeMaps\<close> fails if and only if at some
  path the base, the local and the remote subtree are pairwise different and are not all objects
  (an absent base counting as an empty one), and swapping the two sides changes nothing.
\<close>

lemma structured_conflict_iff_clash:
  "(mergeMaps b l r = None \<longleftrightarrow>
      (\<exists>k p. clash (get_path p (fmlookup b k)) (get_path p (fmlookup l k)) (get_path p (fmlookup r k))))
   \<and> mergeMaps b l r = mergeMaps b r l"
  using conflict_has_clash(1) clash_conflicts map_merge.merge_swap
  by (metis (no_types, lifting) mergeMaps_eq_None)

text \<open>
  Every merger of the engine keeps the three-way contract: equal sides are kept, and a side
  equal to the base gives way to the other; for the structured merge also below every key.
\<close>

lemma mergers_keep_contract:
  "Binary b x x = Merged x \<and> Binary b b r = Merged r \<and> Binary b l b = Merged l
   \<and> (Binary b l r = Conflict \<longleftrightarrow> b \<noteq> l \<and> b \<noteq> r \<and> l \<noteq> r)
   \<and> mergeMaps d y y = Some y \<and> mergeMaps d d s = Some s \<and> mergeMaps d t d = Some t
   \<and> (mergeMaps d t s = None \<longrightarrow> d \<noteq> t \<and> d \<noteq> s \<and> t \<noteq> s)"
  using map_merge.conflict_needs_two_edits [of d t s]
  by (auto simp: Binary_def map_merge.merge_equal map_merge.merge_local_unchanged map_merge.merge_remote_unchanged)

theorem mergers_keep_contract_witness:
  "mergeMaps (example_doc ''1'' ''1'') (example_doc ''2'' ''1'') (example_doc ''3'' ''1'') = None
   \<and> example_doc ''1'' ''1'' \<noteq> example_doc ''2'' ''1''"
proof -
  have "mergeNode (Some (JNum ''1'')) (Some (JNum ''2'')) (Some (JNum ''3'')) = None"
    by (simp add: mergeNode_cases base_object_def)
  then have none: "mergeMaps (example_doc ''1'' ''1'') (example_doc ''2'' ''1'') (example_doc ''3'' ''1'') = None"
    unfolding mergeMaps_eq_None by (intro exI [of _ "''x''"]) (simp add: example_doc_def)
  from mergers_keep_contract [of "[]" "[]" "[]" "[]" "example_doc ''1'' ''1''" fmempty
      "example_doc ''3'' ''1''" "example_doc ''2'' ''1''"] none
  show ?thesis by blast
qed

text \<open>
  The text merger turns only one conflicting hunk into a conflict.  git documents that
  merge-file exits with the number of conflicts (at most 127); with that behaviour a clean merge
  gives the merged text, one conflict gives a conflict, but two or more conflicts give an error
  where the contract asks for a conflict.
\<close>

lemma text_merge_outcomes:
  assumes git: "git local base remote = Inr (int (min 127 conflicts), out)"
  shows "(conflicts = 0 \<longrightarrow> GitTextMerge git base local remote = Inr (Merged out))
    \<and> (conflicts = 1 \<longrightarrow> GitTextMerge git base local remote = Inr Conflict)
    \<and> (2 \<le> conflicts \<longrightarrow>
         GitTextMerge git base local remote = Inl (TextMergeFailed (int (min 127 conflicts))))"
  using git by (auto simp: GitTextMerge_def)

definition example_git :: git_merge_file where
  "example_git local base remote = Inr (2, ''<<<'')"

theorem text_merge_outcomes_witness:
  "GitTextMerge example_git ''b'' ''l'' ''r'' = Inl (TextMergeFailed 2)"
proof -
  have run: "example_git ''l'' ''b'' ''r'' = Inr (int (min 127 2), ''<<<'')"
    unfolding example_git_def by (simp only: min_def) simp
  have two: "int (min 127 2) = 2" by (simp add: min_def)
  have "2 \<le> (2::nat) \<longrightarrow> GitTextMerge example_git ''b'' ''l'' ''r'' = Inl (TextMergeFailed (int (min 127 2)))"
    using text_merge_outcomes [where git = example_git and local = "''l''" and base = "''b''" and remote = "''r''", OF run] by blast
  then show ?thesis unfolding two by blast
qed

end
