(* ===== verification/Secret_Scanner.thy ===== *)
theory Secret_Scanner
  imports Repo_Namespace Structured_Merge
begin

text \<open>
  What keeps a file out of the repository: the secret scanner (internal/secret/secret.go) and the
  filter policy (internal/resource/filter.go).  Glob matching (the doublestar package) is a
  parameter, \<open>None\<close> for a malformed pattern, and so is \<open>json.Unmarshal\<close> into \<open>any\<close>, \<open>None\<close> for an
  error.  Case folding is that of ASCII.
\<close>

section \<open>Scanner\<close>

type_synonym glob = "string \<Rightarrow> string \<Rightarrow> bool option"
type_synonym unmarshaller = "string \<Rightarrow> json option"

record scanner =
  excludeGlobs :: "string list"
  keyPatterns :: "string list"

datatype scan_error = InvalidJSONLRecord

definition NewScanner :: "string list \<Rightarrow> string list \<Rightarrow> scanner" where
  "NewScanner globs patterns = \<lparr>excludeGlobs = globs, keyPatterns = map to_lower patterns\<rparr>"

definition IsExcluded :: "glob \<Rightarrow> scanner \<Rightarrow> string \<Rightarrow> bool" where
  "IsExcluded glob s rel =
     (let r = path_clean (replace_char CHR 0x5C CHR ''/'' rel)
      in list_ex (\<lambda>g. glob g r = Some True) (excludeGlobs s))"

definition isTokenMetric :: "string \<Rightarrow> bool" where
  "isTokenMetric key \<longleftrightarrow> key \<in> set
     [''cachedtokens'', ''cachereadtokens'', ''cachewritetokens'', ''compactiontokensused'',
      ''completiontokens'', ''conversationtokens'', ''currenttokens'', ''inputtokens'',
      ''maxinputtokens'', ''maxoutputtokens'', ''outputtokens'', ''precompactiontokens'',
      ''prompttokens'', ''prompttokensdetails'', ''reasoningtokens'', ''responsetokenlimit'',
      ''systemtokens'', ''tokencount'', ''tokendetails'', ''tokentype'', ''tokenusage'',
      ''tooldefinitionstokens'', ''totaltokens'']"

definition keyMatches :: "scanner \<Rightarrow> string \<Rightarrow> bool" where
  "keyMatches s key =
     (if CHR ''/'' \<in> set key \<or> CHR 0x5C \<in> set key then False
      else
        let lk = to_lower key
        in list_ex (\<lambda>p. if p = ''token''
                        then (let normalized = filter (\<lambda>c. c \<notin> set ''_- '') lk
                              in sublist ''token'' normalized \<and> \<not> isTokenMetric normalized)
                        else sublist p lk) (keyPatterns s))"

primrec walk_keys :: "scanner \<Rightarrow> json \<Rightarrow> bool" where
  "walk_keys s JNull = False"
| "walk_keys s (JBool b) = False"
| "walk_keys s (JNum n) = False"
| "walk_keys s (JStr t) = False"
| "walk_keys s (JArr xs) = list_ex id (map (walk_keys s) xs)"
| "walk_keys s (JObj m) =
     list_ex (\<lambda>k. keyMatches s k \<or> fmlookup (fmmap (walk_keys s) m) k = Some True) (fm_keys m)"

definition HasSecretContent :: "unmarshaller \<Rightarrow> scanner \<Rightarrow> string \<Rightarrow> bool" where
  "HasSecretContent unmarshal s data = (case unmarshal data of None \<Rightarrow> False | Some v \<Rightarrow> walk_keys s v)"

fun jsonlLines :: "unmarshaller \<Rightarrow> scanner \<Rightarrow> string list \<Rightarrow> scan_error + bool" where
  "jsonlLines unmarshal s [] = Inr False"
| "jsonlLines unmarshal s (l # ls) =
     (let line = trim_space l
      in if line = [] then jsonlLines unmarshal s ls
         else case unmarshal line of
           None \<Rightarrow> Inl InvalidJSONLRecord
         | Some v \<Rightarrow> if walk_keys s v then Inr True else jsonlLines unmarshal s ls)"

definition hasSecretJSONL :: "unmarshaller \<Rightarrow> scanner \<Rightarrow> string \<Rightarrow> scan_error + bool" where
  "hasSecretJSONL unmarshal s data = jsonlLines unmarshal s (split_on CHR 0x0A data)"

definition Scan :: "glob \<Rightarrow> unmarshaller \<Rightarrow> scanner \<Rightarrow> string \<Rightarrow> string \<Rightarrow> scan_error + bool" where
  "Scan glob unmarshal s rel data =
     (if IsExcluded glob s rel then Inr True
      else if HasSecretContent unmarshal s data then Inr True
      else if to_lower (path_ext rel) = ''.jsonl'' then hasSecretJSONL unmarshal s data
      else Inr False)"

definition ShouldBlock :: "glob \<Rightarrow> unmarshaller \<Rightarrow> scanner \<Rightarrow> string \<Rightarrow> string \<Rightarrow> bool" where
  "ShouldBlock glob unmarshal s rel data =
     (case Scan glob unmarshal s rel data of Inl _ \<Rightarrow> True | Inr blocked \<Rightarrow> blocked)"

section \<open>Filter policy\<close>

definition DefaultMaxFileSize :: int where "DefaultMaxFileSize = 50 * 2 ^ 20"

record filter_policy =
  maxFileSize :: int
  generatedGlobs :: "string list"
  executableExtensions :: "string list"

definition DefaultFilterPolicy :: filter_policy where
  "DefaultFilterPolicy =
     \<lparr>maxFileSize = DefaultMaxFileSize,
      generatedGlobs =
        [''**/.git/**'', ''**/.svn/**'', ''**/node_modules/**'', ''**/.venv/**'', ''**/venv/**'',
         ''**/__pycache__/**'', ''**/.vscode-test/**'', ''**/coverage/**'', ''**/.cache/**'',
         ''**/*.db'', ''**/*.db-*'', ''**/*.sqlite'', ''**/*.sqlite-*'', ''**/*.log'', ''**/*.lock'',
         ''**/*.tmp''],
      executableExtensions = [''.exe'', ''.dll'', ''.so'', ''.dylib'', ''.node'']\<rparr>"

text \<open>The result is the reason of a refusal, \<open>None\<close> when the file is allowed.\<close>

fun generatedReason :: "glob \<Rightarrow> string list \<Rightarrow> string list \<Rightarrow> string option" where
  "generatedReason glob [] rels = None"
| "generatedReason glob (g # gs) rels =
     (let outcomes = map (glob (replace_char CHR 0x5C CHR ''/'' g)) rels
      in case find (\<lambda>r. r \<noteq> Some False) outcomes of
           Some None \<Rightarrow> Some ''invalid-filter''
         | Some (Some _) \<Rightarrow> Some ''generated-content''
         | None \<Rightarrow> generatedReason glob gs rels)"

definition Check :: "glob \<Rightarrow> filter_policy \<Rightarrow> string \<Rightarrow> int \<Rightarrow> string \<Rightarrow> string option" where
  "Check glob p rel0 bytes strategy =
     (let rel = replace_char CHR 0x5C CHR ''/'' rel0
      in if validateRepoRelative rel \<noteq> None then Some ''invalid-path''
         else if bytes < 0 then Some ''invalid-size''
         else if maxFileSize p > 0 \<and> bytes \<ge> maxFileSize p then Some ''file-too-large''
         else case generatedReason glob (generatedGlobs p) [rel] of
           Some reason \<Rightarrow> Some reason
         | None \<Rightarrow>
             if strategy = StrategySourceTree \<and>
                list_ex (\<lambda>blocked. to_lower (path_ext rel) = to_lower blocked) (executableExtensions p)
             then Some ''platform-binary'' else None)"

definition Allows :: "glob \<Rightarrow> filter_policy \<Rightarrow> string \<Rightarrow> int \<Rightarrow> bool" where
  "Allows glob p rel bytes \<longleftrightarrow> Check glob p rel bytes StrategyFileTree = None"

definition CheckDirectory :: "glob \<Rightarrow> filter_policy \<Rightarrow> string \<Rightarrow> string option" where
  "CheckDirectory glob p rel0 =
     (let rel = replace_char CHR 0x5C CHR ''/'' rel0
      in if validateRepoRelative rel \<noteq> None then Some ''invalid-path''
         else generatedReason glob (generatedGlobs p) [rel, trim_suffix ''/'' rel @ ''/.synchub-entry''])"

section \<open>What the scanner finds\<close>

text \<open>A key occurs in a document: in an object at any depth, under objects and arrays.\<close>

inductive key_occurs :: "string \<Rightarrow> json \<Rightarrow> bool" where
  here: "fmlookup m k \<noteq> None \<Longrightarrow> key_occurs k (JObj m)"
| in_object: "fmlookup m j = Some v \<Longrightarrow> key_occurs k v \<Longrightarrow> key_occurs k (JObj m)"
| in_array: "v \<in> set xs \<Longrightarrow> key_occurs k v \<Longrightarrow> key_occurs k (JArr xs)"

inductive_simps key_occurs_simps [simp]:
  "key_occurs k JNull" "key_occurs k (JBool b)" "key_occurs k (JNum n)" "key_occurs k (JStr s)"
  "key_occurs k (JArr xs)" "key_occurs k (JObj m)"

lemma walk_keys_iff: "walk_keys s v \<longleftrightarrow> (\<exists>k. key_occurs k v \<and> keyMatches s k)"
proof (induction v)
  case (JArr xs)
  then show ?case by (auto simp: list_ex_iff)
next
  case (JObj m)
  have "fmlookup (fmmap (walk_keys s) m) j = Some True \<longleftrightarrow>
      (\<exists>v. fmlookup m j = Some v \<and> (\<exists>k. key_occurs k v \<and> keyMatches s k))" for j
    using JObj by (cases "fmlookup m j") (auto dest: fmran'I)
  then have "walk_keys s (JObj m) \<longleftrightarrow> (\<exists>j. fmlookup m j \<noteq> None \<and>
      (keyMatches s j \<or> (\<exists>v. fmlookup m j = Some v \<and> (\<exists>k. key_occurs k v \<and> keyMatches s k))))"
    unfolding walk_keys.simps list_ex_iff set_sorted_list_of_fset Bex_def fset_fmdom_iff by (simp only:)
  also have "\<dots> \<longleftrightarrow> (\<exists>k. key_occurs k (JObj m) \<and> keyMatches s k)"
    unfolding key_occurs_simps not_None_eq by blast
  finally show ?case .
qed simp_all

lemma jsonlLines_False:
  "jsonlLines u s ls = Inr False \<longleftrightarrow>
     (\<forall>l\<in>set ls. trim_space l \<noteq> [] \<longrightarrow> (\<exists>v. u (trim_space l) = Some v \<and> \<not> walk_keys s v))"
  by (induction u s ls rule: jsonlLines.induct) (auto simp: Let_def split: option.splits)

section \<open>Property\<close>

text \<open> C28. The scanner lets a file through exactly when no exclude pattern matches its cleaned path, no
  suspicious key occurs at any depth of the document it decodes to, and, for a JSONL file, every
  non-blank line decodes and carries no such key; a scan that fails counts as blocked. \<close>

theorem scanner_blocks_exactly:
  "\<not> ShouldBlock glob u s rel data \<longleftrightarrow>
     (\<forall>g\<in>set (excludeGlobs s). glob g (path_clean (replace_char CHR 0x5C CHR ''/'' rel)) \<noteq> Some True) \<and>
     (\<forall>v k. u data = Some v \<and> key_occurs k v \<longrightarrow> \<not> keyMatches s k) \<and>
     (to_lower (path_ext rel) = ''.jsonl'' \<longrightarrow>
        (\<forall>l\<in>set (split_on CHR 0x0A data). trim_space l \<noteq> [] \<longrightarrow>
           (\<exists>v. u (trim_space l) = Some v \<and> (\<forall>k. key_occurs k v \<longrightarrow> \<not> keyMatches s k))))"
proof -
  have "\<not> ShouldBlock glob u s rel data \<longleftrightarrow> Scan glob u s rel data = Inr False"
    by (auto simp: ShouldBlock_def split: sum.splits)
  also have "\<dots> \<longleftrightarrow> \<not> IsExcluded glob s rel \<and> \<not> HasSecretContent u s data \<and>
      (to_lower (path_ext rel) = ''.jsonl'' \<longrightarrow> jsonlLines u s (split_on CHR 0x0A data) = Inr False)"
    by (auto simp: Scan_def hasSecretJSONL_def)
  finally show ?thesis
    unfolding jsonlLines_False IsExcluded_def HasSecretContent_def
    by (auto simp: list_ex_iff walk_keys_iff Let_def split: option.splits)
qed

definition demo_unmarshal :: unmarshaller where
  "demo_unmarshal data =
     (if data = ''clean'' then Some (JObj (fmap_of_list [(''inputTokens'', JNum ''7'')]))
      else if data = ''secret'' then Some (JArr [JObj (fmap_of_list [(''access_Token'', JStr ''x'')])])
      else None)"

lemma scanner_blocks_exactly_witness:
  "(\<forall>v k. \<not> (demo_unmarshal ''clean'' = Some v \<and> key_occurs k v \<and>
      keyMatches (NewScanner [''*.env''] [''token'', ''apiKey'']) k)) \<and>
   (\<exists>v k. demo_unmarshal ''secret'' = Some v \<and> key_occurs k v \<and>
      keyMatches (NewScanner [''*.env''] [''token'', ''apiKey'']) k)"
proof
  let ?s = "NewScanner [''*.env''] [''token'', ''apiKey'']" and ?g = "\<lambda>p r. Some (p = r)"
  have "\<not> ShouldBlock ?g demo_unmarshal ?s ''a/b.json'' ''clean''" by code_simp
  from this [unfolded scanner_blocks_exactly]
  show "\<forall>v k. \<not> (demo_unmarshal ''clean'' = Some v \<and> key_occurs k v \<and> keyMatches ?s k)" by blast
  have "ShouldBlock ?g demo_unmarshal ?s ''a/b.json'' ''secret''"
    and "\<not> list_ex (\<lambda>g. ?g g (path_clean (replace_char CHR 0x5C CHR ''/'' ''a/b.json'')) = Some True) (excludeGlobs ?s)"
    and "to_lower (path_ext ''a/b.json'') \<noteq> ''.jsonl''" by code_simp+
  with scanner_blocks_exactly [of ?g demo_unmarshal ?s "''a/b.json''" "''secret''"]
  show "\<exists>v k. demo_unmarshal ''secret'' = Some v \<and> key_occurs k v \<and> keyMatches ?s k"
    unfolding list_ex_iff by blast
qed

end
