(* ===== verification/Portable_Document.thy ===== *)
theory Portable_Document
  imports Structured_Merge
begin

text \<open>
  Documents as sets of leaves (flatten, setAt, deleteAt and indexFields of
  internal/portableconfig/policy.go).  A leaf is a path of keys that ends in a value which is not a
  non-empty object.  Map iteration visits the keys in sorted order here; the lemmas describe the
  results by sets of leaves, which no order changes.  Values are immutable, so \<open>cloneValue\<close> is the
  identity and in-place updates return the updated document.
\<close>

section \<open>Fields\<close>

record doc_field =
  segments :: "string list"
  fieldPath :: string
  fieldValue :: json

definition mk_field :: "string list \<Rightarrow> json \<Rightarrow> doc_field" where
  "mk_field segs v = \<lparr>segments = segs, fieldPath = join_with CHR ''.'' segs, fieldValue = v\<rparr>"

primrec flattenValue :: "json \<Rightarrow> string list \<Rightarrow> doc_field list" where
  "flattenValue JNull = (\<lambda>segs. [mk_field segs JNull])"
| "flattenValue (JBool b) = (\<lambda>segs. [mk_field segs (JBool b)])"
| "flattenValue (JNum n) = (\<lambda>segs. [mk_field segs (JNum n)])"
| "flattenValue (JStr s) = (\<lambda>segs. [mk_field segs (JStr s)])"
| "flattenValue (JArr xs) = (\<lambda>segs. [mk_field segs (JArr xs)])"
| "flattenValue (JObj m) = (\<lambda>segs.
     if fm_keys m = [] then [mk_field segs (JObj m)]
     else concat (map (\<lambda>key. case fmlookup (fmmap flattenValue m) key of
                               None \<Rightarrow> [] | Some f \<Rightarrow> f (segs @ [key])) (fm_keys m)))"

definition flatten :: "document \<Rightarrow> doc_field list" where
  "flatten d =
     concat (map (\<lambda>key. case fmlookup d key of None \<Rightarrow> [] | Some v \<Rightarrow> flattenValue v [key]) (fm_keys d))"

text \<open>The JSON encoding of the segments only serves as a map key, and is injective.\<close>

definition indexFields :: "doc_field list \<Rightarrow> (string list, doc_field) fmap" where
  "indexFields fs = fmap_of_list (rev (map (\<lambda>f. (segments f, f)) fs))"

section \<open>Updates at a path\<close>

definition object_at :: "document \<Rightarrow> string \<Rightarrow> document" where
  "object_at d s = (case fmlookup d s of Some (JObj m) \<Rightarrow> m | _ \<Rightarrow> fmempty)"

text \<open>An empty path would panic in Go; \<open>flatten\<close> never produces one.\<close>

fun setAt :: "document \<Rightarrow> string list \<Rightarrow> json \<Rightarrow> document" where
  "setAt d [] v = d"
| "setAt d [s] v = fmupd s v d"
| "setAt d (s # t # ss) v = fmupd s (JObj (setAt (object_at d s) (t # ss) v)) d"

fun deleteAt :: "document \<Rightarrow> string list \<Rightarrow> document \<times> bool" where
  "deleteAt d [] = (d, False)"
| "deleteAt d [s] = (let d' = fmdrop s d in (d', fm_keys d' = []))"
| "deleteAt d (s # t # ss) =
     (case fmlookup d s of
        Some (JObj child) \<Rightarrow>
          (case deleteAt child (t # ss) of
             (child', emptied) \<Rightarrow>
               let d' = (if emptied then fmdrop s d else fmupd s (JObj child') d) in (d', fm_keys d' = []))
      | _ \<Rightarrow> (d, False))"

section \<open>Leaves\<close>

lemma sorted_list_of_fset_Nil [simp]: "sorted_list_of_fset A = [] \<longleftrightarrow> A = {||}"
  by (metis bot_fset.rep_eq fset_inverse set_empty set_sorted_list_of_fset)

lemma fmdom_empty_iff [simp]: "fmdom m = {||} \<longleftrightarrow> m = fmempty"
proof
  assume "fmdom m = {||}"
  then have "fmlookup m k = fmlookup fmempty k" for k using fmdom_notD [of k m] by simp
  then show "m = fmempty" by (rule fmap_ext)
qed simp

lemma set_concat_keys:
  "x \<in> set (concat (map (\<lambda>key. case fmlookup m key of None \<Rightarrow> [] | Some v \<Rightarrow> g v key) (fm_keys m))) \<longleftrightarrow>
     (\<exists>key v. fmlookup m key = Some v \<and> x \<in> set (g v key))"
proof
  assume "x \<in> set (concat (map (\<lambda>key. case fmlookup m key of None \<Rightarrow> [] | Some v \<Rightarrow> g v key) (fm_keys m)))"
  then obtain key where "x \<in> set (case fmlookup m key of None \<Rightarrow> [] | Some v \<Rightarrow> g v key)" by auto
  then show "\<exists>key v. fmlookup m key = Some v \<and> x \<in> set (g v key)" by (cases "fmlookup m key") auto
next
  assume "\<exists>key v. fmlookup m key = Some v \<and> x \<in> set (g v key)"
  then obtain key v where k: "fmlookup m key = Some v" "x \<in> set (g v key)" by blast
  then have "key \<in> set (fm_keys m)" by (auto simp: fmlookup_dom_iff)
  moreover have "x \<in> set (case fmlookup m key of None \<Rightarrow> [] | Some v \<Rightarrow> g v key)" using k by simp
  ultimately show "x \<in> set (concat (map (\<lambda>key. case fmlookup m key of None \<Rightarrow> [] | Some v \<Rightarrow> g v key) (fm_keys m)))"
    unfolding set_concat set_map by blast
qed

definition leaf_value :: "json \<Rightarrow> bool" where
  "leaf_value v \<longleftrightarrow> (case v of JObj m \<Rightarrow> m = fmempty | _ \<Rightarrow> True)"

lemma leaf_value_simps [simp]:
  "leaf_value JNull" "leaf_value (JBool b)" "leaf_value (JNum n)" "leaf_value (JStr s)"
  "leaf_value (JArr xs)" "leaf_value (JObj m) \<longleftrightarrow> m = fmempty"
  by (simp_all add: leaf_value_def)

abbreviation in_doc :: "document \<Rightarrow> string list \<Rightarrow> json option" where
  "in_doc d p \<equiv> get_path p (Some (JObj d))"

definition leaves :: "document \<Rightarrow> (string list \<times> json) set" where
  "leaves d = {(p, v). p \<noteq> [] \<and> in_doc d p = Some v \<and> leaf_value v}"

lemma get_path_append: "get_path (p @ q) n = get_path q (get_path p n)"
  by (induction p n rule: get_path.induct) auto

lemma get_path_leaf: "leaf_value w \<Longrightarrow> r \<noteq> [] \<Longrightarrow> get_path r (Some w) = None"
  by (cases r; cases w) auto

lemma flattenValue_iff:
  "f \<in> set (flattenValue v segs) \<longleftrightarrow>
     (\<exists>p w. f = mk_field (segs @ p) w \<and> get_path p (Some v) = Some w \<and> leaf_value w)"
proof (induction v arbitrary: segs)
  case (JObj m)
  show ?case
  proof (cases "m = fmempty")
    case True
    have "get_path p (Some (JObj fmempty)) = Some w \<longleftrightarrow> p = [] \<and> w = JObj fmempty" for p w
      by (cases p) auto
    then show ?thesis using True by simp
  next
    case False
    have IH: "f \<in> set (flattenValue v segs) \<longleftrightarrow>
        (\<exists>p w. f = mk_field (segs @ p) w \<and> get_path p (Some v) = Some w \<and> leaf_value w)"
      if "fmlookup m key = Some v" for key v segs
      using JObj that by (auto dest: fmran'I)
    have "f \<in> set (flattenValue (JObj m) segs) \<longleftrightarrow>
        (\<exists>key v. fmlookup m key = Some v \<and> f \<in> set (flattenValue v (segs @ [key])))"
      using set_concat_keys [where x = f and m = "fmmap flattenValue m" and g = "\<lambda>h key. h (segs @ [key])"] False by auto
    also have "\<dots> \<longleftrightarrow> (\<exists>key p w. f = mk_field (segs @ key # p) w \<and>
        get_path (key # p) (Some (JObj m)) = Some w \<and> leaf_value w)"
    proof -
      have "get_path (key # p) (Some (JObj m)) = Some w \<longleftrightarrow>
          (\<exists>v. fmlookup m key = Some v \<and> get_path p (Some v) = Some w)" for key p w
        by (cases "fmlookup m key") auto
      then show ?thesis using IH by fastforce
    qed
    also have "\<dots> \<longleftrightarrow> (\<exists>p w. f = mk_field (segs @ p) w \<and> get_path p (Some (JObj m)) = Some w \<and> leaf_value w)"
    proof -
      have "p \<noteq> []" if "get_path p (Some (JObj m)) = Some w" "leaf_value w" for p w
        using that False by (cases p) auto
      then show ?thesis by (metis list.exhaust)
    qed
    finally show ?thesis .
  qed
next
  case (JArr xs)
  have "get_path p (Some (JArr xs)) = Some w \<longleftrightarrow> p = [] \<and> w = JArr xs" for p w by (cases p) auto
  then show ?case by simp
next
  case JNull
  have "get_path p (Some JNull) = Some w \<longleftrightarrow> p = [] \<and> w = JNull" for p w by (cases p) auto
  then show ?case by simp
next
  case (JBool b)
  have "get_path p (Some (JBool b)) = Some w \<longleftrightarrow> p = [] \<and> w = JBool b" for p w by (cases p) auto
  then show ?case by simp
next
  case (JNum n)
  have "get_path p (Some (JNum n)) = Some w \<longleftrightarrow> p = [] \<and> w = JNum n" for p w by (cases p) auto
  then show ?case by simp
next
  case (JStr s)
  have "get_path p (Some (JStr s)) = Some w \<longleftrightarrow> p = [] \<and> w = JStr s" for p w by (cases p) auto
  then show ?case by simp
qed

lemma set_flatten: "set (flatten d) = {mk_field p v | p v. (p, v) \<in> leaves d}"
proof (rule set_eqI)
  fix f
  have "f \<in> set (flatten d) \<longleftrightarrow> (\<exists>key v. fmlookup d key = Some v \<and> f \<in> set (flattenValue v [key]))"
    unfolding flatten_def by (rule set_concat_keys)
  also have "\<dots> \<longleftrightarrow> (\<exists>key p w. f = mk_field (key # p) w \<and> in_doc d (key # p) = Some w \<and> leaf_value w)"
  proof -
    have "in_doc d (key # p) = Some w \<longleftrightarrow> (\<exists>v. fmlookup d key = Some v \<and> get_path p (Some v) = Some w)" for key p w
      by (cases "fmlookup d key") auto
    then show ?thesis unfolding flattenValue_iff append_Cons append_Nil by blast
  qed
  also have "\<dots> \<longleftrightarrow> f \<in> {mk_field p v | p v. (p, v) \<in> leaves d}"
  proof -
    have "(p, w) \<in> leaves d \<longleftrightarrow> (\<exists>key q. p = key # q \<and> in_doc d (key # q) = Some w \<and> leaf_value w)" for p w
      by (cases p) (auto simp: leaves_def)
    then show ?thesis unfolding mem_Collect_eq by metis
  qed
  finally show "f \<in> set (flatten d) \<longleftrightarrow> f \<in> {mk_field p v | p v. (p, v) \<in> leaves d}" .
qed

section \<open>Updates and leaves\<close>

abbreviation apart :: "string list \<Rightarrow> string list \<Rightarrow> bool" where
  "apart p q \<equiv> p \<parallel> q"

lemma leaves_apart: "(p, v) \<in> leaves d \<Longrightarrow> (q, w) \<in> leaves d \<Longrightarrow> p = q \<and> v = w \<or> apart p q"
proof -
  have "p = q" if "(p, v) \<in> leaves d" "(q, w) \<in> leaves d" "prefix p q" for p v q w
    using that get_path_leaf [of v] by (fastforce simp: leaves_def prefix_def get_path_append)
  then show "(p, v) \<in> leaves d \<Longrightarrow> (q, w) \<in> leaves d \<Longrightarrow> p = q \<and> v = w \<or> apart p q"
    unfolding parallel_def by (metis (mono_tags, lifting) leaves_def mem_Collect_eq case_prod_conv option.inject)
qed

lemma fmupd_nonempty [simp]: "fmupd k v m \<noteq> fmempty"
  by (metis fmempty_lookup fmupd_lookup option.distinct(1))

lemma object_at_path: "get_path q (fmlookup (object_at d s) k) = get_path (k # q) (fmlookup d s)"
  by (auto simp: object_at_def split: option.splits json.splits)

lemma get_setAt_below: "p \<noteq> [] \<Longrightarrow> in_doc (setAt d p v) (p @ r) = get_path r (Some v)"
  by (induction d p v rule: setAt.induct) auto

lemma get_setAt_above: "p = q @ r \<Longrightarrow> q \<noteq> [] \<Longrightarrow> r \<noteq> [] \<Longrightarrow> \<exists>m. in_doc (setAt d p v) q = Some (JObj m) \<and> m \<noteq> fmempty"
proof (induction d p v arbitrary: q rule: setAt.induct)
  case (3 d s t ss v)
  then obtain q' where q: "q = s # q'" "t # ss = q' @ r" by (cases q) auto
  show ?case
  proof (cases "q' = []")
    case True
    have "setAt (object_at d s) (t # ss) v \<noteq> fmempty" by (cases ss) simp_all
    then show ?thesis unfolding q(1) True by simp
  next
    case False
    have "in_doc (setAt d (s # t # ss) v) q = in_doc (setAt (object_at d s) (t # ss) v) q'"
      by (simp add: q(1))
    then show ?thesis using "3.IH" [OF q(2) False "3.prems"(3)] by simp
  qed
qed (auto simp: Cons_eq_append_conv)

lemma get_setAt_apart: "apart p q \<Longrightarrow> in_doc (setAt d p v) q = in_doc d q"
proof (induction d p v arbitrary: q rule: setAt.induct)
  case (2 d s v)
  then show ?case by (cases q) auto
next
  case (3 d s t ss v)
  then obtain u q' where q: "q = u # q'" by (cases q) auto
  show ?case
  proof (cases "u = s")
    case True
    then have a: "apart (t # ss) q'" using "3.prems" q by (simp add: parallel_def)
    then obtain k r where "q' = k # r" by (cases q') auto
    with "3.IH" [OF a] True q show ?thesis by (simp add: object_at_path)
  qed (simp add: q)
qed simp

lemma get_deleteAt_apart: "apart p q \<Longrightarrow> in_doc (fst (deleteAt d p)) q = in_doc d q"
proof (induction d p arbitrary: q rule: deleteAt.induct)
  case (2 d s)
  then show ?case by (cases q) (auto simp: Let_def)
next
  case (3 d s t ss)
  then obtain u q' where q: "q = u # q'" by (cases q) auto
  show ?case
  proof (cases "\<exists>child. fmlookup d s = Some (JObj child)")
    case True
    then obtain child where c: "fmlookup d s = Some (JObj child)" by blast
    obtain child' e where d: "deleteAt child (t # ss) = (child', e)" by fastforce
    have e: "e \<longleftrightarrow> child' = fmempty" if "e" using d that
      by (cases ss) (auto simp: Let_def split: option.splits json.splits prod.splits)
    show ?thesis
    proof (cases "u = s")
      case True
      then have a: "apart (t # ss) q'" using "3.prems" q by (simp add: parallel_def)
      then obtain k r where k: "q' = k # r" by (cases q') auto
      have "in_doc child' q' = in_doc child q'" using "3.IH" [OF c refl a] d by simp
      then show ?thesis using c d q True k e by (auto simp: Let_def)
    qed (auto simp: q c d Let_def)
  next
    case False
    then show ?thesis by (auto split: option.splits json.splits)
  qed
qed simp

lemma get_deleteAt: "p \<noteq> [] \<Longrightarrow> in_doc (fst (deleteAt d p)) (p @ r) = None"
proof (induction d p arbitrary: r rule: deleteAt.induct)
  case (3 d s t ss)
  show ?case
  proof (cases "\<exists>child. fmlookup d s = Some (JObj child)")
    case True
    then obtain child where c: "fmlookup d s = Some (JObj child)" by blast
    obtain child' e where d: "deleteAt child (t # ss) = (child', e)" by fastforce
    then show ?thesis using "3.IH" [OF c refl, where r = r] c by (auto simp: Let_def)
  next
    case False
    then show ?thesis by (auto split: option.splits json.splits)
  qed
qed (auto simp: Let_def)

text \<open>Writing a leaf apart from all others (or once more) adds exactly that leaf.\<close>

lemma leaves_setAt:
  assumes "p \<noteq> []" "leaf_value v" "\<And>q w. (q, w) \<in> leaves d \<Longrightarrow> q = p \<and> w = v \<or> apart p q"
  shows "leaves (setAt d p v) = insert (p, v) (leaves d)"
proof (intro set_eqI iffI)
  fix x assume x: "x \<in> leaves (setAt d p v)"
  obtain q w where qw: "x = (q, w)" by (cases x)
  have in_doc: "q \<noteq> []" "in_doc (setAt d p v) q = Some w" "leaf_value w" using x qw by (auto simp: leaves_def)
  consider r where "q = p @ r" | r where "p = q @ r" "r \<noteq> []" | "apart p q"
    by (metis append_Nil2 parallelI prefix_def)
  then show "x \<in> insert (p, v) (leaves d)"
  proof cases
    case 1
    then have "get_path r (Some v) = Some w" using in_doc(2) get_setAt_below [OF assms(1)] by simp
    then have "r = [] \<and> w = v" using get_path_leaf [OF assms(2)] by (cases "r = []") auto
    then show ?thesis using 1 qw by simp
  next
    case 2
    then show ?thesis using get_setAt_above [OF 2(1) in_doc(1) 2(2), where d = d and v = v] in_doc by auto
  next
    case 3
    then show ?thesis using in_doc get_setAt_apart qw by (auto simp: leaves_def)
  qed
next
  fix x assume x: "x \<in> insert (p, v) (leaves d)"
  then show "x \<in> leaves (setAt d p v)"
  proof
    assume "x = (p, v)"
    then show ?thesis using assms(1,2) get_setAt_below [OF assms(1), where d = d and v = v and r = "[]"] by (simp add: leaves_def)
  next
    assume l: "x \<in> leaves d"
    obtain q w where x': "x = (q, w)" by (cases x)
    consider "q = p \<and> w = v" | "apart p q" using l assms(3) x' by blast
    then show ?thesis
    proof cases
      case 1
      then show ?thesis using assms(1,2) x' get_setAt_below [OF assms(1), where d = d and v = v and r = "[]"]
        by (simp add: leaves_def)
    next
      case 2
      then show ?thesis using l x' get_setAt_apart [OF 2, where d = d and v = v] by (simp add: leaves_def)
    qed
  qed
qed

lemma leaves_empty [simp]: "leaves fmempty = {}"
proof -
  have "p = []" if "in_doc fmempty p = Some v" for p v using that by (cases p) auto
  then show ?thesis by (auto simp: leaves_def)
qed

end
