(* ===== verification/Path_Resolver.thy ===== *)
theory Path_Resolver
  imports Repo_Namespace
begin

text \<open>
  Home-relative paths (internal/pathresolver/pathresolver.go): the expansion of provider path
  templates, and the token that stands for the home directory in portable documents, which lets a
  path written on one machine be read on another with a different home and operating system.  Case
  folding on Windows is that of ASCII; the host separator of \<open>ResolveFor\<close> is \<open>/\<close>.
\<close>

section \<open>Definitions\<close>

definition HomeToken :: string where "HomeToken = ''${HOME}''"

abbreviation windows :: string where "windows \<equiv> ''windows''"

abbreviation to_slash :: "string \<Rightarrow> string" where "to_slash \<equiv> replace_char CHR 0x5C CHR ''/''"

datatype resolver_error = EmptyHome | PathIsEmpty | EmptySegment string | NotAbsolute string
  | Malformed string | InvalidHome resolver_error | InvalidTokenPath string resolver_error

text \<open>\<open>strings.ReplaceAll\<close> with a non-empty old string: non-overlapping matches, from the left.\<close>

function replace_all :: "string \<Rightarrow> string \<Rightarrow> string \<Rightarrow> string" where
  "replace_all old new s =
     (if old = [] \<or> s = [] then s
      else if prefix old s then new @ replace_all old new (drop (length old) s)
      else hd s # replace_all old new (tl s))"
  by pat_completeness auto
termination by (relation "measure (\<lambda>(_, _, s). length s)") auto

declare replace_all.simps [simp del]

definition ResolveFor :: "string \<Rightarrow> string \<Rightarrow> string \<Rightarrow> resolver_error + string" where
  "ResolveFor raw goos home =
     (if home = [] then Inl EmptyHome
      else
        let p = (if prefix ''~/'' raw \<or> prefix [CHR ''~'', CHR 0x5C] raw then home @ ''/'' @ drop 2 raw
                 else if raw = ''~'' then home else raw);
            p = replace_all ''%USERPROFILE%'' home p;
            p = replace_all ''$HOME'' home p;
            p = (if goos = windows then replace_char CHR ''/'' CHR 0x5C p else to_slash p)
        in Inr (path_clean p))"

definition isTargetAbsolute :: "string \<Rightarrow> string \<Rightarrow> bool" where
  "isTargetAbsolute value goos =
     (if goos \<noteq> windows then prefix ''/'' value
      else if length value < 3 \<or> value ! 1 \<noteq> CHR '':'' \<or> value ! 2 \<noteq> CHR ''/'' then False
      else is_drive_letter (value ! 0))"

definition normalizePortablePath :: "string \<Rightarrow> string \<Rightarrow> resolver_error + string" where
  "normalizePortablePath value goos =
     (if trim_space value = [] then Inl PathIsEmpty
      else
        let normalized = to_slash value
        in if sublist ''//'' normalized then Inl (EmptySegment value)
           else if \<not> isTargetAbsolute normalized goos then Inl (NotAbsolute value)
           else
             let cleaned = path_clean normalized
             in if cleaned \<noteq> normalized then Inl (Malformed value) else Inr cleaned)"

definition TokenizeHome :: "string \<Rightarrow> string \<Rightarrow> string \<Rightarrow> string \<times> bool" where
  "TokenizeHome value goos home =
     (case normalizePortablePath value goos of
        Inl _ \<Rightarrow> (value, False)
      | Inr normalizedValue \<Rightarrow>
          (case normalizePortablePath home goos of
             Inl _ \<Rightarrow> (value, False)
           | Inr normalizedHome \<Rightarrow>
               let fold = (if goos = windows then to_lower else id);
                   valueForCompare = fold normalizedValue;
                   homeForCompare = fold normalizedHome
               in if valueForCompare = homeForCompare then (HomeToken, True)
                  else if \<not> prefix (homeForCompare @ ''/'') valueForCompare then (value, False)
                  else (HomeToken @ drop (length normalizedHome) normalizedValue, True)))"

definition ExpandHomeToken :: "string \<Rightarrow> string \<Rightarrow> string \<Rightarrow> resolver_error + string" where
  "ExpandHomeToken value goos home =
     (if value \<noteq> HomeToken \<and> \<not> prefix (HomeToken @ ''/'') value \<and> \<not> prefix (HomeToken @ [CHR 0x5C]) value
      then Inr value
      else
        (case normalizePortablePath home goos of
           Inl e \<Rightarrow> Inl (InvalidHome e)
         | Inr normalizedHome \<Rightarrow>
             (case normalizePortablePath (normalizedHome @ to_slash (trim_prefix HomeToken value)) goos of
                Inl e \<Rightarrow> Inl (InvalidTokenPath value e)
              | Inr expanded \<Rightarrow>
                  Inr (if goos = windows then replace_char CHR ''/'' CHR 0x5C expanded else expanded))))"

section \<open>Normalised paths\<close>

text \<open>
  A normalised path: a start, which is empty on Unix and a drive on Windows, and plain segments.
\<close>

definition path_start :: "string \<Rightarrow> string \<Rightarrow> bool" where
  "path_start goos d \<longleftrightarrow>
     (if goos = windows then \<exists>c. is_drive_letter c \<and> d = [c, CHR '':''] else d = [])"

definition below :: "string list \<Rightarrow> string" where
  "below ss = concat (map (\<lambda>s. CHR ''/'' # s) ss)"

lemma below_append [simp]: "below (xs @ ys) = below xs @ below ys"
  by (simp add: below_def)

lemma below_Cons [simp]: "below (s # ss) = CHR ''/'' # s @ below ss"
  by (simp add: below_def)

lemma below_Nil [simp]: "below [] = []"
  by (simp add: below_def)

lemma below_eq_Nil [simp]: "below ss = [] \<longleftrightarrow> ss = []"
  by (cases ss) simp_all

lemma set_below: "s \<in> set ss \<Longrightarrow> set s \<subseteq> set (below ss)"
  by (auto simp: below_def)

lemma below_join: "ss \<noteq> [] \<Longrightarrow> below ss = CHR ''/'' # join_with CHR ''/'' ss"
proof (induction ss)
  case (Cons s ss)
  then show ?case by (cases ss) simp_all
qed simp

lemma split_below: "CHR ''/'' \<notin> set d \<Longrightarrow> \<forall>s\<in>set ss. CHR ''/'' \<notin> set s \<Longrightarrow> split_on CHR ''/'' (d @ below ss) = d # ss"
proof (induction ss arbitrary: d)
  case Nil
  then show ?case by (simp add: split_on_no_sep)
next
  case (Cons s ss)
  then have "split_on CHR ''/'' (s @ below ss) = s # ss" by simp
  with Cons.prems show ?case by (simp add: split_on_append_sep)
qed

lemma path_start_sep: "path_start goos d \<Longrightarrow> CHR ''/'' \<notin> set d \<and> CHR 0x5C \<notin> set d"
  by (auto simp: path_start_def is_drive_letter_def split: if_splits)

lemma no_double_slash:
  assumes "CHR ''/'' \<notin> set d" "\<forall>s\<in>set ss. plain_segment s"
  shows "\<not> sublist ''//'' (d @ below ss)"
proof
  assume "sublist ''//'' (d @ below ss)"
  then obtain xs ys where "d @ below ss = xs @ CHR ''/'' # [] @ CHR ''/'' # ys" by (auto simp: sublist_def)
  then have "split_on CHR ''/'' (d @ below ss) = split_on CHR ''/'' xs @ [[]] @ split_on CHR ''/'' ys"
    by (simp add: split_on_append)
  moreover have "split_on CHR ''/'' (d @ below ss) = d # ss" by (rule split_below) (use assms in auto)
  ultimately have "[] \<in> set ss" using split_on_nonempty [of "CHR ''/''" xs]
    by (metis append_Cons append_Nil hd_append2 in_set_conv_decomp list.sel(3) tl_append2)
  then show False using assms(2) by auto
qed

lemma path_clean_below:
  assumes "path_start goos d" "ss \<noteq> []" "\<forall>s\<in>set ss. plain_segment s"
  shows "path_clean (d @ below ss) = d @ below ss"
proof (cases "d = []")
  case True
  then show ?thesis using path_clean_absolute_plain [OF assms(3)] assms(2) by (simp add: below_join)
next
  case False
  then obtain c where c: "is_drive_letter c" "d = [c, CHR '':'']"
    using assms(1) by (auto simp: path_start_def split: if_splits)
  then have "plain_segment d" by (auto simp: plain_segment_def is_drive_letter_def)
  then have "path_clean (join_with CHR ''/'' (d # ss)) = join_with CHR ''/'' (d # ss)"
    using assms(3) by (intro path_clean_plain) auto
  then show ?thesis using assms(2) by (simp add: below_join join_with_Cons)
qed

lemma normalize_below:
  assumes "path_start goos d" "ss \<noteq> []" "\<forall>s\<in>set ss. plain_segment s \<and> CHR 0x5C \<notin> set s"
  shows "normalizePortablePath (d @ below ss) goos = Inr (d @ below ss)"
proof -
  let ?p = "d @ below ss"
  have bs: "CHR 0x5C \<notin> set ?p" using assms path_start_sep [OF assms(1)] by (auto simp: below_def)
  have first: "?p = CHR ''/'' # tl ?p \<or> (\<exists>c. is_drive_letter c \<and> ?p = c # tl ?p)"
    using assms(1,2) by (cases ss) (auto simp: path_start_def split: if_splits)
  have "\<not> starts_with_space ?p"
    using first by (elim disjE exE conjE) (erule ssubst, force simp: starts_with_space_def go_spaces_def is_drive_letter_def)+
  moreover have "?p \<noteq> []" using assms(2) by (cases ss) auto
  ultimately have ts: "trim_space ?p \<noteq> []" using trim_space_Nil_cases by blast
  have ab: "isTargetAbsolute ?p goos"
    using assms(1,2) by (cases ss) (auto simp: isTargetAbsolute_def path_start_def split: if_splits)
  have "path_clean ?p = ?p" "\<not> sublist ''//'' ?p"
    using path_clean_below no_double_slash path_start_sep assms by auto
  then show ?thesis using ts ab by (simp add: normalizePortablePath_def replace_char_id [OF bs] Let_def del: replace_char_append)
qed

lemma normalize_shape:
  assumes "normalizePortablePath v goos = Inr p"
  shows "p = to_slash v" "(goos \<noteq> windows \<and> p = ''/'') \<or>
    (\<exists>d ss. path_start goos d \<and> ss \<noteq> [] \<and> (\<forall>s\<in>set ss. plain_segment s \<and> CHR 0x5C \<notin> set s) \<and> p = d @ below ss)"
proof -
  have p: "p = to_slash v" "path_clean p = p" "isTargetAbsolute p goos"
    using assms by (auto simp: normalizePortablePath_def Let_def split: if_splits)
  show "p = to_slash v" by (rule p)
  have bs: "CHR 0x5C \<notin> set p" by (auto simp: p(1) replace_char_def)
  show "(goos \<noteq> windows \<and> p = ''/'') \<or>
    (\<exists>d ss. path_start goos d \<and> ss \<noteq> [] \<and> (\<forall>s\<in>set ss. plain_segment s \<and> CHR 0x5C \<notin> set s) \<and> p = d @ below ss)"
  proof (cases "goos = windows")
    case False
    then obtain q where q: "p = CHR ''/'' # q" using p(3) by (auto simp: isTargetAbsolute_def prefix_def)
    define ss where "ss = rev (foldl (clean_step True) [] (split_on CHR ''/'' p))"
    have plain: "\<forall>s\<in>set ss. plain_segment s"
      unfolding ss_def using foldl_clean_rooted [of "[]"] by (auto dest: split_on_segments)
    have e: "p = CHR ''/'' # join_with CHR ''/'' ss"
      using p(2) q by (simp add: path_clean_def ss_def Let_def)
    show ?thesis
    proof (cases "ss = []")
      case True
      then show ?thesis using e False by simp
    next
      case ne: False
      then have b: "p = [] @ below ss" using e by (simp add: below_join)
      then have "\<forall>s\<in>set ss. CHR 0x5C \<notin> set s" using bs set_below by fastforce
      then show ?thesis using b ne plain False by (intro disjI2 exI [of _ "[]"] exI [of _ ss]) (auto simp: path_start_def)
    qed
  next
    case True
    then have ab: "length p \<ge> 3" "p ! 1 = CHR '':''" "p ! 2 = CHR ''/''" "is_drive_letter (p ! 0)"
      using p(3) by (auto simp: isTargetAbsolute_def split: if_splits)
    then obtain c q where q: "p = c # CHR '':'' # CHR ''/'' # q" "is_drive_letter c"
      by (cases p rule: list.exhaust; cases "tl p"; cases "tl (tl p)") auto
    have nr: "c \<noteq> CHR ''/''" using q(2) by (auto simp: is_drive_letter_def)
    have e: "p = join_with CHR ''/'' (cleaned_segments p)" "cleaned_segments p \<noteq> []"
      using p(2) q(1) nr by (auto simp: path_clean_def cleaned_segments_def Let_def split: if_splits)
    have sp: "split_on CHR ''/'' p = [c, CHR '':''] # split_on CHR ''/'' q"
      using split_on_append_sep [of "CHR ''/''" "[c, CHR '':'']" q] nr q(1) by simp
    have hd: "hd (cleaned_segments p) \<noteq> ''..''"
    proof
      assume "hd (cleaned_segments p) = ''..''"
      then have "hd p = CHR ''.''" using e by (cases "cleaned_segments p"; cases "tl (cleaned_segments p)") (force simp: join_with_Cons)+
      then show False using q by (auto simp: is_drive_letter_def)
    qed
    have plain: "\<forall>s\<in>set (cleaned_segments p). plain_segment s" by (rule cleaned_segments_plain [OF e(2) hd])
    have "split_on CHR ''/'' p = cleaned_segments p"
      using e plain split_join [of "cleaned_segments p" "CHR ''/''"] by auto
    then have cs: "cleaned_segments p = [c, CHR '':''] # split_on CHR ''/'' q" using sp by simp
    then have b: "p = [c, CHR '':''] @ below (split_on CHR ''/'' q)"
      using q(1) by (simp add: below_join)
    have "\<forall>s\<in>set (split_on CHR ''/'' q). CHR 0x5C \<notin> set s"
      using bs q(1) by (auto dest: set_split_on)
    then show ?thesis using b plain cs q(2) True
      by (intro disjI2 exI [of _ "[c, CHR '':'']"] exI [of _ "split_on CHR ''/'' q"]) (auto simp: path_start_def)
  qed
qed

text \<open>Cutting a normalised path at a separator leaves whole segments.\<close>

lemma drop_below:
  assumes "CHR ''/'' \<notin> set d" "n < length (d @ below ss)" "(d @ below ss) ! n = CHR ''/''"
    "\<forall>s\<in>set ss. CHR ''/'' \<notin> set s"
  shows "\<exists>rest. drop n (d @ below ss) = below rest \<and> set rest \<subseteq> set ss"
  using assms
proof (induction ss arbitrary: d n)
  case Nil
  then show ?case by (metis append_Nil2 below_Nil nth_mem)
next
  case (Cons s ss)
  consider "n < length d" | "n = length d" | m where "n = length d + Suc m"
    by (metis add_Suc_right less_iff_Suc_add linorder_cases)
  then show ?case
  proof cases
    case 1
    then show ?thesis using Cons.prems by (metis nth_append nth_mem)
  next
    case 2
    then show ?thesis by (intro exI [of _ "s # ss"]) simp
  next
    case 3
    have "\<exists>rest. drop m (s @ below ss) = below rest \<and> set rest \<subseteq> set ss"
      by (rule Cons.IH) (use Cons.prems 3 in \<open>auto simp: nth_append\<close>)
    then show ?thesis using 3 by auto
  qed
qed

lemma lower_char_slash: "lower_char c = CHR ''/'' \<longleftrightarrow> c = CHR ''/''"
proof -
  have "char_of (of_char c + (32::nat)) \<noteq> CHR ''/''" if "CHR ''A'' \<le> c" "c \<le> CHR ''Z''"
  proof
    assume e: "char_of (of_char c + (32::nat)) = CHR ''/''"
    have "of_char c \<le> (90::nat)" using that(2) by (simp add: less_eq_char_def)
    then have "of_char (char_of (of_char c + (32::nat))) = of_char c + (32::nat)" by simp
    with e have "of_char c + (32::nat) = 47" by simp
    moreover have "(65::nat) \<le> of_char c" using that(1) by (simp add: less_eq_char_def)
    ultimately show False by simp
  qed
  then show ?thesis by (auto simp: lower_char_def)
qed

text \<open>A tokenized path is the home followed by whole segments, and the token keeps those segments.\<close>

lemma tokenized_shape:
  assumes "TokenizeHome v goos home = (t, True)"
  obtains hn rest where "normalizePortablePath home goos = Inr hn" "t = HomeToken @ below rest"
    "\<forall>s\<in>set rest. plain_segment s \<and> CHR 0x5C \<notin> set s"
    "if goos = windows then to_lower (to_slash v) = to_lower (hn @ below rest) else to_slash v = hn @ below rest"
proof -
  obtain vn hn where n: "normalizePortablePath v goos = Inr vn" "normalizePortablePath home goos = Inr hn"
    using assms by (auto simp: TokenizeHome_def split: sum.splits)
  note v = normalize_shape(1) [OF n(1)]
  define fold where "fold = (if goos = windows then to_lower else id)"
  have fold: "length (fold s) = length s" "i < length s \<Longrightarrow> fold s ! i = CHR ''/'' \<longleftrightarrow> s ! i = CHR ''/''"
    "fold (xs @ ys) = fold xs @ fold ys" for s i xs ys
    by (auto simp: fold_def to_lower_def lower_char_slash)
  have tok: "if fold vn = fold hn then t = HomeToken
      else prefix (fold hn @ ''/'') (fold vn) \<and> t = HomeToken @ drop (length hn) vn"
    using assms n by (auto simp: TokenizeHome_def fold_def Let_def split: if_splits)
  have same: "if goos = windows then to_lower (to_slash v) = to_lower (hn @ below rest) else to_slash v = hn @ below rest"
    if "fold vn = fold (hn @ below rest)" for rest
    using that v by (auto simp: fold_def)
  show thesis
  proof (cases "fold vn = fold hn")
    case True
    then show thesis using tok n(2) same [of "[]"] that [of hn "[]"] by simp
  next
    case False
    then obtain zs where z: "fold vn = fold hn @ CHR ''/'' # zs" and t: "t = HomeToken @ drop (length hn) vn"
      using tok by (auto simp: prefix_def)
    have len: "length hn < length vn" using z fold(1) by (metis add_Suc_right length_Cons length_append less_add_Suc1)
    have at: "vn ! length hn = CHR ''/''"
      using z fold(1,2) len by (metis nth_append_length)
    have "hn \<noteq> []" using normalize_shape(2) [OF n(2)] by auto
    then have "vn \<noteq> ''/''" using len by auto
    then obtain d ss where s: "path_start goos d" "\<forall>s\<in>set ss. plain_segment s \<and> CHR 0x5C \<notin> set s" "vn = d @ below ss"
      using normalize_shape(2) [OF n(1)] by blast
    obtain rest where r: "drop (length hn) vn = below rest" "set rest \<subseteq> set ss"
      using drop_below [of d "length hn" ss] path_start_sep [OF s(1)] len at s by auto
    have "take (length hn) (fold vn) = fold hn" using z fold(1) by (metis append_eq_conv_conj)
    moreover have "fold vn = fold (take (length hn) vn) @ fold (drop (length hn) vn)"
      by (metis append_take_drop_id fold(3))
    ultimately have "fold vn = fold hn @ fold (below rest)" using len fold(1) r(1)
      by (simp add: append_eq_conv_conj)
    then show thesis using that [of hn rest] n(2) t r s(2) same [of rest] fold(3) by auto
  qed
qed

section \<open>Property\<close>

abbreviation native :: "string \<Rightarrow> string \<Rightarrow> string" where
  "native goos s \<equiv> (if goos = windows then replace_char CHR ''/'' CHR 0x5C s else s)"

text \<open>The shape of the expanded path on another machine.\<close>

lemma tokens_travel:
  assumes "TokenizeHome v goos home = (t, True)"
    and "normalizePortablePath home2 goos2 = Inr hn2" and "hn2 \<noteq> ''/''"
  shows "\<exists>hn rest. normalizePortablePath home goos = Inr hn \<and> (\<forall>s\<in>set rest. plain_segment s) \<and>
    (if goos = windows then to_lower (to_slash v) = to_lower (hn @ below rest) else to_slash v = hn @ below rest) \<and>
    ExpandHomeToken t goos2 home2 = Inr (native goos2 (hn2 @ below rest))"
proof -
  obtain hn rest where r: "normalizePortablePath home goos = Inr hn" "t = HomeToken @ below rest"
    "\<forall>s\<in>set rest. plain_segment s \<and> CHR 0x5C \<notin> set s"
    "if goos = windows then to_lower (to_slash v) = to_lower (hn @ below rest) else to_slash v = hn @ below rest"
    by (rule tokenized_shape [OF assms(1)])
  obtain d ss where s: "path_start goos2 d" "ss \<noteq> []" "\<forall>s\<in>set ss. plain_segment s \<and> CHR 0x5C \<notin> set s" "hn2 = d @ below ss"
    using normalize_shape(2) [OF assms(2)] assms(3) by blast
  have "normalizePortablePath (d @ below (ss @ rest)) goos2 = Inr (d @ below (ss @ rest))"
    by (rule normalize_below) (use s r(3) in auto)
  then have n: "normalizePortablePath (hn2 @ below rest) goos2 = Inr (hn2 @ below rest)" by (simp add: s(4))
  have "CHR 0x5C \<notin> set (below rest)" using r(3) by (auto simp: below_def)
  then have b: "to_slash (below rest) = below rest" by (rule replace_char_id)
  have "rest = [] \<or> prefix (HomeToken @ ''/'') t" by (cases rest) (auto simp: r(2))
  then have "ExpandHomeToken t goos2 home2 = Inr (native goos2 (hn2 @ below rest))"
    using n b assms(2) by (auto simp: ExpandHomeToken_def r(2))
  then show ?thesis using r by blast
qed



end
