(* ===== verification/Portable_Config.thy ===== *)
theory Portable_Config
  imports Portable_Document Path_Resolver Secret_Scanner
begin

text \<open>
  The portable projection of configuration documents (internal/portableconfig): which fields of a
  settings file leave the machine, how paths below the home directory are rewritten, and how a
  remote document is put back into a local one (policy.go), the registry of policies (policies.go),
  and the codec around them (codec.go, document.go).  The JSON, YAML and TOML libraries and the
  glob matcher are parameters.  Go visits maps in any order; the definitions use the sorted one, and
  the lemmas about the loops hold for every order.
\<close>

section \<open>Policies\<close>

record policy =
  Portable :: "string list"
  Sensitive :: "string list"
  MachineLocal :: "string list"
  PathFields :: "string list"

definition matches :: "glob \<Rightarrow> string list \<Rightarrow> string \<Rightarrow> bool" where
  "matches glob patterns keyPath =
     (let lowerPath = replace_char CHR ''.'' CHR ''/'' (to_lower keyPath)
      in list_ex (\<lambda>pattern. glob (replace_char CHR ''.'' CHR ''/'' (to_lower pattern)) lowerPath = Some True)
           patterns)"

definition isPortable :: "glob \<Rightarrow> policy \<Rightarrow> string \<Rightarrow> bool" where
  "isPortable glob p path \<longleftrightarrow>
     matches glob (Portable p) path \<and> \<not> matches glob (Sensitive p) path \<and> \<not> matches glob (MachineLocal p) path"

definition looksAbsolute :: "string \<Rightarrow> string \<Rightarrow> bool" where
  "looksAbsolute value goos =
     (let normalized = to_slash value
      in if goos = windows
         then prefix ''//'' normalized \<or> (length normalized \<ge> 3 \<and> normalized ! 1 = CHR '':'' \<and> normalized ! 2 = CHR ''/'')
         else prefix ''/'' normalized)"

fun all_some :: "'a option list \<Rightarrow> 'a list option" where
  "all_some [] = Some []"
| "all_some (None # xs) = None"
| "all_some (Some x # xs) = map_option ((#) x) (all_some xs)"

definition tokenizeString :: "string \<Rightarrow> string \<Rightarrow> string \<Rightarrow> json option" where
  "tokenizeString goos home item =
     (case TokenizeHome item goos home of
        (tokenized, True) \<Rightarrow> Some (JStr tokenized)
      | (_, False) \<Rightarrow> if looksAbsolute item goos then None else Some (JStr item))"

primrec tokenizePathValue :: "string \<Rightarrow> string \<Rightarrow> json \<Rightarrow> json option" where
  "tokenizePathValue goos home JNull = Some JNull"
| "tokenizePathValue goos home (JBool b) = Some (JBool b)"
| "tokenizePathValue goos home (JNum n) = Some (JNum n)"
| "tokenizePathValue goos home (JStr item) = tokenizeString goos home item"
| "tokenizePathValue goos home (JArr xs) = map_option JArr (all_some (map (tokenizePathValue goos home) xs))"
| "tokenizePathValue goos home (JObj m) = Some (JObj m)"

text \<open>Expansion may also fail; \<open>Inr None\<close> drops the field.\<close>

fun all_expanded :: "('e + 'a option) list \<Rightarrow> 'e + 'a list option" where
  "all_expanded [] = Inr (Some [])"
| "all_expanded (Inl e # xs) = Inl e"
| "all_expanded (Inr None # xs) = Inr None"
| "all_expanded (Inr (Some x) # xs) =
     (case all_expanded xs of Inl e \<Rightarrow> Inl e | Inr r \<Rightarrow> Inr (map_option ((#) x) r))"

definition expandString :: "string \<Rightarrow> string \<Rightarrow> string \<Rightarrow> resolver_error + json option" where
  "expandString goos home item =
     (case ExpandHomeToken item goos home of
        Inl e \<Rightarrow> Inl e
      | Inr expanded \<Rightarrow>
          if expanded = item \<and> looksAbsolute item goos then Inr None else Inr (Some (JStr expanded)))"

primrec expandPathValue :: "string \<Rightarrow> string \<Rightarrow> json \<Rightarrow> resolver_error + json option" where
  "expandPathValue goos home JNull = Inr (Some JNull)"
| "expandPathValue goos home (JBool b) = Inr (Some (JBool b))"
| "expandPathValue goos home (JNum n) = Inr (Some (JNum n))"
| "expandPathValue goos home (JStr item) = expandString goos home item"
| "expandPathValue goos home (JArr xs) =
     map_sum id (map_option JArr) (all_expanded (map (expandPathValue goos home) xs))"
| "expandPathValue goos home (JObj m) = Inr (Some (JObj m))"

section \<open>Projection and restoration\<close>

definition projectedValue :: "glob \<Rightarrow> policy \<Rightarrow> string \<Rightarrow> string \<Rightarrow> doc_field \<Rightarrow> json option" where
  "projectedValue glob p goos home item =
     (if matches glob (PathFields p) (fieldPath item) then tokenizePathValue goos home (fieldValue item)
      else Some (fieldValue item))"

definition projectField :: "glob \<Rightarrow> policy \<Rightarrow> string \<Rightarrow> string \<Rightarrow> doc_field \<Rightarrow> document \<Rightarrow> document" where
  "projectField glob p goos home item projected =
     (if \<not> matches glob (Portable p) (fieldPath item) \<or> matches glob (Sensitive p) (fieldPath item) \<or>
         matches glob (MachineLocal p) (fieldPath item)
      then projected
      else case projectedValue glob p goos home item of
        None \<Rightarrow> projected
      | Some v \<Rightarrow> setAt projected (segments item) v)"

definition projectFields :: "glob \<Rightarrow> policy \<Rightarrow> string \<Rightarrow> string \<Rightarrow> doc_field list \<Rightarrow> document" where
  "projectFields glob p goos home fs = fold (projectField glob p goos home) fs fmempty"

definition projectDocument :: "glob \<Rightarrow> policy \<Rightarrow> document \<Rightarrow> string \<Rightarrow> string \<Rightarrow> document" where
  "projectDocument glob p d goos home = projectFields glob p goos home (flatten d)"

definition dropRemoved ::
  "glob \<Rightarrow> policy \<Rightarrow> (string list, doc_field) fmap \<Rightarrow> string list \<times> doc_field \<Rightarrow> document \<Rightarrow> document" where
  "dropRemoved glob p remoteFields = (\<lambda>(key, baseField) restored.
     if fmlookup remoteFields key \<noteq> None then restored
     else if isPortable glob p (fieldPath baseField) then fst (deleteAt restored (segments baseField))
     else restored)"

definition restoredValue :: "glob \<Rightarrow> policy \<Rightarrow> string \<Rightarrow> string \<Rightarrow> doc_field \<Rightarrow> resolver_error + json option" where
  "restoredValue glob p goos home item =
     (if matches glob (PathFields p) (fieldPath item) then expandPathValue goos home (fieldValue item)
      else Inr (Some (fieldValue item)))"

definition applyRemote ::
  "glob \<Rightarrow> policy \<Rightarrow> string \<Rightarrow> string \<Rightarrow> doc_field \<Rightarrow> document \<Rightarrow> (string \<times> resolver_error) + document" where
  "applyRemote glob p goos home item restored =
     (if \<not> isPortable glob p (fieldPath item) then Inr restored
      else if fieldValue item = JObj fmempty then Inr restored
      else case restoredValue glob p goos home item of
        Inl e \<Rightarrow> Inl (fieldPath item, e)
      | Inr None \<Rightarrow> Inr restored
      | Inr (Some v) \<Rightarrow> Inr (setAt restored (segments item) v))"

definition fm_entries :: "('k::linorder, 'v) fmap \<Rightarrow> ('k \<times> 'v) list" where
  "fm_entries m = map (\<lambda>k. (k, the (fmlookup m k))) (fm_keys m)"

definition restoreDocument ::
  "glob \<Rightarrow> policy \<Rightarrow> document \<Rightarrow> document \<Rightarrow> document \<Rightarrow> string \<Rightarrow> string \<Rightarrow> (string \<times> resolver_error) + document"
where
  "restoreDocument glob p localDoc baseDoc remoteDoc goos home =
     (let remoteFields = indexFields (flatten remoteDoc);
          restored = fold (dropRemoved glob p remoteFields) (fm_entries (indexFields (flatten baseDoc))) localDoc
      in fold_res (applyRemote glob p goos home) (flatten remoteDoc) restored)"

section \<open>Codec\<close>

text \<open>
  What the decoders yield before normalisation: YAML may give mappings with keys that are no strings.
  A decoder reads a stream: the documents before its end, and whether reading stopped at an error.
\<close>

datatype yaml_key = KeyString string | KeyOther

datatype raw =
    RScalar json
  | RArr "raw list"
  | RMap "(string, raw) fmap"
  | RAnyMap "(yaml_key \<times> raw) list"

type_synonym stream_decoder = "string \<Rightarrow> raw list \<times> bool"

record codecs =
  decodeJSON :: stream_decoder
  decodeYAML :: stream_decoder
  unmarshalTOML :: "string \<Rightarrow> (string, raw) fmap option"
  encodeDocument :: doc_marshaller
  marshalJSON :: "document \<Rightarrow> string option"
  unmarshalJSON :: unmarshaller
  globMatch :: glob

fun normalize_list :: "(string + json) list \<Rightarrow> string + json list" where
  "normalize_list [] = Inr []"
| "normalize_list (Inl e # xs) = Inl e"
| "normalize_list (Inr v # xs) = map_sum id ((#) v) (normalize_list xs)"

fun normalize_pairs :: "(yaml_key \<times> (string + json)) list \<Rightarrow> document \<Rightarrow> string + document" where
  "normalize_pairs [] out = Inr out"
| "normalize_pairs ((KeyOther, v) # kvs) out = Inl ''mapping key is not a string''"
| "normalize_pairs ((KeyString k, Inl e) # kvs) out = Inl e"
| "normalize_pairs ((KeyString k, Inr v) # kvs) out = normalize_pairs kvs (fmupd k v out)"

primrec normalizeValue :: "raw \<Rightarrow> string + json" where
  "normalizeValue (RScalar v) = Inr v"
| "normalizeValue (RArr xs) = map_sum id JArr (normalize_list (map normalizeValue xs))"
| "normalizeValue (RMap m) =
     map_sum id JObj (normalize_pairs (map (map_prod KeyString id) (fm_entries (fmmap normalizeValue m))) fmempty)"
| "normalizeValue (RAnyMap kvs) =
     map_sum id JObj (normalize_pairs (map (map_prod id normalizeValue) kvs) fmempty)"

definition formatForPath :: "string \<Rightarrow> string + doc_format" where
  "formatForPath rel =
     (let ext = to_lower (path_ext rel)
      in if ext = ''.json'' then Inr FormatJSON
         else if ext = ''.yaml'' \<or> ext = ''.yml'' then Inr FormatYAML
         else if ext = ''.toml'' then Inr FormatTOML
         else Inl ''unsupported structured document'')"

text \<open>One document and then the end of the stream (\<open>Decode\<close> followed by \<open>requireEnd\<close>).\<close>

definition decodeSingle :: "stream_decoder \<Rightarrow> string \<Rightarrow> string + raw" where
  "decodeSingle decode data =
     (case decode data of
        ([], _) \<Rightarrow> Inl ''parse''
      | ([v], stopped) \<Rightarrow> if stopped then Inl ''parse'' else Inr v
      | (_ # _ # _, _) \<Rightarrow> Inl ''multiple documents are not supported'')"

definition Parse :: "codecs \<Rightarrow> doc_parser" where
  "Parse cs rel data =
     (case formatForPath rel of Inl e \<Rightarrow> Inl e | Inr format \<Rightarrow>
      case (case format of
              FormatJSON \<Rightarrow> decodeSingle (decodeJSON cs) data
            | FormatYAML \<Rightarrow> decodeSingle (decodeYAML cs) data
            | FormatTOML \<Rightarrow> (case unmarshalTOML cs data of None \<Rightarrow> Inl ''parse'' | Some m \<Rightarrow> Inr (RMap m))) of
        Inl e \<Rightarrow> Inl e
      | Inr raw \<Rightarrow>
          (case normalizeValue raw of
             Inl e \<Rightarrow> Inl e
           | Inr (JObj document) \<Rightarrow> Inr (format, document)
           | Inr _ \<Rightarrow> Inl ''document root must be a mapping''))"

datatype codec_error =
    ParseFailed string
  | ScanFailed
  | SecretField
  | UnknownTransformer string
  | MarshalFailed string
  | PathFieldFailed string resolver_error

definition genericSecretPatterns :: "string list" where
  "genericSecretPatterns = [''apiKey'', ''token'', ''secret'', ''password'', ''oauth'', ''refresh_token'']"

definition scanDocument :: "codecs \<Rightarrow> document \<Rightarrow> codec_error option" where
  "scanDocument cs document =
     (case marshalJSON cs document of
        None \<Rightarrow> Some ScanFailed
      | Some data \<Rightarrow>
          (case Scan (globMatch cs) (unmarshalJSON cs) (NewScanner [] genericSecretPatterns) ''projection.json'' data of
             Inl _ \<Rightarrow> Some ScanFailed
           | Inr blocked \<Rightarrow> if blocked then Some SecretField else None))"

type_synonym registry = "(string, policy) fmap"

definition Register :: "registry \<Rightarrow> string \<Rightarrow> policy \<Rightarrow> registry" where
  "Register r transformer p = fmupd transformer p r"

definition marshal :: "codecs \<Rightarrow> doc_format \<Rightarrow> document \<Rightarrow> codec_error + string" where
  "marshal cs format document = map_sum MarshalFailed id (encodeDocument cs format document)"

definition Project :: "codecs \<Rightarrow> registry \<Rightarrow> string \<Rightarrow> string \<Rightarrow> string \<Rightarrow> string \<Rightarrow> string \<Rightarrow> codec_error + string" where
  "Project cs r transformer rel goos home data =
     (if transformer = [] then Inr data
      else case Parse cs rel data of Inl e \<Rightarrow> Inl (ParseFailed e) | Inr (format, document) \<Rightarrow>
      if transformer = ''generic-safe'' then
        (case scanDocument cs document of Some e \<Rightarrow> Inl e | None \<Rightarrow> marshal cs format document)
      else case fmlookup r transformer of None \<Rightarrow> Inl (UnknownTransformer transformer) | Some p \<Rightarrow>
        let projected = projectDocument (globMatch cs) p document goos home
        in case scanDocument cs projected of Some e \<Rightarrow> Inl e | None \<Rightarrow> marshal cs format projected)"

definition parseOptional :: "codecs \<Rightarrow> string \<Rightarrow> string \<Rightarrow> codec_error + document" where
  "parseOptional cs rel data =
     (if trim_space data = [] then Inr fmempty else map_sum ParseFailed snd (Parse cs rel data))"

definition RestoreConfig ::
  "codecs \<Rightarrow> registry \<Rightarrow> string \<Rightarrow> string \<Rightarrow> string \<Rightarrow> string \<Rightarrow> string \<Rightarrow> string \<Rightarrow> string \<Rightarrow> codec_error + string" where
  "RestoreConfig cs r transformer rel goos home localData base remote =
     (if transformer = [] then Inr remote
      else case Parse cs rel remote of Inl e \<Rightarrow> Inl (ParseFailed e) | Inr (format, remoteDocument) \<Rightarrow>
      case scanDocument cs remoteDocument of Some e \<Rightarrow> Inl e | None \<Rightarrow>
      if transformer = ''generic-safe'' then
        (if trim_space localData = [] then marshal cs format remoteDocument
         else case Parse cs rel localData of Inl e \<Rightarrow> Inl (ParseFailed e) | Inr (_, localDocument) \<Rightarrow>
           case scanDocument cs localDocument of Some e \<Rightarrow> Inl e | None \<Rightarrow> marshal cs format remoteDocument)
      else case fmlookup r transformer of None \<Rightarrow> Inl (UnknownTransformer transformer) | Some p \<Rightarrow>
        case parseOptional cs rel localData of Inl e \<Rightarrow> Inl e | Inr localDocument \<Rightarrow>
        case parseOptional cs rel base of Inl e \<Rightarrow> Inl e | Inr baseDocument \<Rightarrow>
        case restoreDocument (globMatch cs) p localDocument baseDocument remoteDocument goos home of
          Inl (path, e) \<Rightarrow> Inl (PathFieldFailed path e)
        | Inr restored \<Rightarrow> marshal cs format restored)"

definition commonSensitive :: "string list" where
  "commonSensitive = [''**.*token*'', ''**.*secret*'', ''**.*password*'', ''**.*oauth*'']"

definition BuiltinRegistry :: registry where
  "BuiltinRegistry = fold (\<lambda>(name, p) r. Register r name p)
     [(''claude-settings'', \<lparr>Portable = [''**''], Sensitive = commonSensitive,
         MachineLocal = [''installationId'', ''recentWorkspaces'', ''cache.**''],
         PathFields = [''**.*Path'', ''**.*Directory'']\<rparr>),
      (''copilot-settings'', \<lparr>Portable = [''**''], Sensitive = commonSensitive @ [''hosts.**''],
         MachineLocal = [''installationId'', ''recentRepositories'', ''cache.**'', ''session.**''],
         PathFields = [''**.*Path'', ''**.*Directory'']\<rparr>),
      (''gemini-settings'', \<lparr>Portable = [''theme'', ''model'', ''tools.**'', ''mcpServers.**'', ''context.**''],
         Sensitive = commonSensitive @ [''accounts.**''],
         MachineLocal = [''installationId'', ''trustedFolders'', ''recentProjects'', ''state.**''],
         PathFields = [''context.fileName'']\<rparr>),
      (''vscode-settings'', \<lparr>Portable = [''**''], Sensitive = commonSensitive,
         MachineLocal = [''window.restoreWindows'', ''workbench.localHistory.**'', ''recentlyOpened.**''],
         PathFields = [''**.*Path'', ''**.*Directory'']\<rparr>),
      (''vscode-mcp'',
       \<lparr>Portable = [''servers.**.type'', ''servers.**.command'', ''servers.**.args'', ''servers.**.url''],
         Sensitive = [''servers.**.env.**'', ''servers.**.headers.**'', ''**.*token*'', ''**.*secret*'', ''**.*password*''],
         MachineLocal = [], PathFields = [''servers.**.command'', ''servers.**.args'']\<rparr>),
      (''cursor-settings'', \<lparr>Portable = [''**''], Sensitive = commonSensitive,
         MachineLocal = [''installationId'', ''recentWorkspaces'', ''cache.**''],
         PathFields = [''**.*Path'', ''**.*Directory'']\<rparr>),
      (''common-skill-lock'',
       \<lparr>Portable = [''skills.**.name'', ''skills.**.source'', ''skills.**.version'', ''skills.**.revision''],
         Sensitive = commonSensitive, MachineLocal = [], PathFields = []\<rparr>)] fmempty"

section \<open>Loops over the fields\<close>

lemma mk_field_simps [simp]:
  "segments (mk_field p v) = p" "fieldPath (mk_field p v) = join_with CHR ''.'' p" "fieldValue (mk_field p v) = v"
  by (simp_all add: mk_field_def)

lemma mk_field_eq [simp]: "mk_field p v = mk_field q w \<longleftrightarrow> p = q \<and> v = w"
  by (auto simp: mk_field_def)

lemma tokenize_leaf: "leaf_value v \<Longrightarrow> tokenizePathValue goos home v = Some w \<Longrightarrow> leaf_value w"
  by (cases v) (auto simp: tokenizeString_def split: prod.splits bool.splits if_splits)

lemma expand_leaf: "leaf_value v \<Longrightarrow> expandPathValue goos home v = Inr (Some w) \<Longrightarrow> leaf_value w"
  by (cases v) (auto simp: expandString_def map_sum_def split: sum.splits if_splits)

text \<open>The leaves that a projection should have.\<close>

definition portable_leaves :: "glob \<Rightarrow> policy \<Rightarrow> string \<Rightarrow> string \<Rightarrow> (string list \<times> json) set \<Rightarrow> (string list \<times> json) set" where
  "portable_leaves glob p goos home L =
     {(q, w). \<exists>v. (q, v) \<in> L \<and> isPortable glob p (join_with CHR ''.'' q) \<and>
                 projectedValue glob p goos home (mk_field q v) = Some w}"

lemma portable_leaves_apart:
  assumes "L \<subseteq> leaves d" "(q, w) \<in> portable_leaves glob p goos home L" "(q', w') \<in> portable_leaves glob p goos home L"
  shows "q = q' \<and> w = w' \<or> apart q' q"
proof -
  obtain v v' where "(q, v) \<in> leaves d" "projectedValue glob p goos home (mk_field q v) = Some w"
    "(q', v') \<in> leaves d" "projectedValue glob p goos home (mk_field q' v') = Some w'"
    using assms by (auto simp: portable_leaves_def)
  then show ?thesis using leaves_apart [of q' v' d q v] by auto
qed

lemma projectFields_leaves:
  assumes "L \<subseteq> leaves d" "set fs \<subseteq> {mk_field q v | q v. (q, v) \<in> L}" "leaves acc \<subseteq> portable_leaves glob p goos home L"
  shows "leaves (fold (projectField glob p goos home) fs acc) =
    leaves acc \<union> portable_leaves glob p goos home {(q, v). mk_field q v \<in> set fs}"
  using assms(2,3)
proof (induction fs arbitrary: acc)
  case Nil
  then show ?case by (simp add: portable_leaves_def)
next
  case (Cons f fs)
  then obtain q v where f: "f = mk_field q v" "(q, v) \<in> L" by auto
  let ?new = "portable_leaves glob p goos home {(q, v)}"
  have step: "leaves (projectField glob p goos home f acc) = leaves acc \<union> ?new"
  proof (cases "isPortable glob p (join_with CHR ''.'' q) \<and> projectedValue glob p goos home f \<noteq> None")
    case False
    then have "?new = {}" "projectField glob p goos home f acc = acc"
      by (auto simp: portable_leaves_def projectField_def isPortable_def f split: option.splits)
    then show ?thesis by simp
  next
    case True
    then obtain w where w: "projectedValue glob p goos home f = Some w" by auto
    have ne: "q \<noteq> []" "leaf_value v" using f assms(1) by (auto simp: leaves_def)
    have lw: "leaf_value w" using w ne tokenize_leaf by (auto simp: projectedValue_def f split: if_splits)
    have new: "?new = {(q, w)}" using True w by (auto simp: portable_leaves_def f)
    have "(q, w) \<in> portable_leaves glob p goos home L" using True w f by (auto simp: portable_leaves_def)
    then have "leaves (setAt acc q w) = insert (q, w) (leaves acc)"
      using leaves_setAt [OF ne(1) lw, of acc] portable_leaves_apart [OF assms(1)] Cons.prems(2) by blast
    moreover have "projectField glob p goos home f acc = setAt acc q w"
      using True w by (auto simp: projectField_def isPortable_def f)
    ultimately show ?thesis using new by simp
  qed
  have "?new \<subseteq> portable_leaves glob p goos home L" using f by (auto simp: portable_leaves_def)
  then have "leaves (fold (projectField glob p goos home) fs (projectField glob p goos home f acc)) =
      (leaves acc \<union> ?new) \<union> portable_leaves glob p goos home {(q, v). mk_field q v \<in> set fs}"
    using Cons.IH [of "projectField glob p goos home f acc"] Cons.prems step by auto
  moreover have "portable_leaves glob p goos home {(q, v). mk_field q v \<in> set (f # fs)} =
      ?new \<union> portable_leaves glob p goos home {(q, v). mk_field q v \<in> set fs}"
    by (auto simp: portable_leaves_def f)
  ultimately show ?case by (simp add: Un_assoc)
qed

lemma projectFields_order:
  assumes "set fs = set (flatten d)"
  shows "leaves (projectFields glob p goos home fs) = portable_leaves glob p goos home (leaves d)"
proof -
  have "{(q, v). mk_field q v \<in> set fs} = leaves d" unfolding assms set_flatten by auto
  then show ?thesis using projectFields_leaves [of "leaves d" d fs fmempty glob p goos home] assms
    by (auto simp: projectFields_def set_flatten)
qed

text \<open>Restoration: removing the fields the remote side dropped, then writing the remote fields.\<close>

lemma indexFields_lookup:
  "fmlookup (indexFields (flatten d)) q = Some f \<longleftrightarrow> (\<exists>v. (q, v) \<in> leaves d \<and> f = mk_field q v)"
proof -
  let ?ps = "map (\<lambda>f. (segments f, f)) (flatten d)"
  have mem: "(q, f) \<in> set ?ps \<longleftrightarrow> (\<exists>v. (q, v) \<in> leaves d \<and> f = mk_field q v)" for f
    unfolding set_map set_flatten by force
  have uniq: "f = g" if "(q, f) \<in> set ?ps" "(q, g) \<in> set ?ps" for f g
    using that leaves_apart unfolding mem by (metis parallelD1 prefix_order.refl)
  have "map_of (rev ?ps) q = Some f \<longleftrightarrow> (q, f) \<in> set ?ps"
  proof
    assume "map_of (rev ?ps) q = Some f"
    then show "(q, f) \<in> set ?ps" using map_of_SomeD by fastforce
  next
    assume f: "(q, f) \<in> set ?ps"
    then have "q \<in> fst ` set (rev ?ps)" by force
    then obtain g where g: "map_of (rev ?ps) q = Some g" by (metis map_of_eq_None_iff not_None_eq)
    then have "(q, g) \<in> set ?ps" using map_of_SomeD by fastforce
    then show "map_of (rev ?ps) q = Some f" using g uniq f by blast
  qed
  then show ?thesis using mem by (simp add: indexFields_def fmlookup_of_list rev_map)
qed

lemma set_fm_entries: "set (fm_entries m) = {(k, v). fmlookup m k = Some v}"
  by (auto simp: fm_entries_def fmlookup_dom_iff image_iff)

definition removed_paths :: "glob \<Rightarrow> policy \<Rightarrow> document \<Rightarrow> document \<Rightarrow> string list set" where
  "removed_paths glob p baseDoc remoteDoc =
     {q. \<exists>v. (q, v) \<in> leaves baseDoc \<and> isPortable glob p (join_with CHR ''.'' q) \<and> (\<forall>w. (q, w) \<notin> leaves remoteDoc)}"

definition remote_values :: "glob \<Rightarrow> policy \<Rightarrow> string \<Rightarrow> string \<Rightarrow> (string list \<times> json) set \<Rightarrow> (string list \<times> json) set" where
  "remote_values glob p goos home L =
     {(q, w). \<exists>v. (q, v) \<in> L \<and> isPortable glob p (join_with CHR ''.'' q) \<and> v \<noteq> JObj fmempty \<and>
                 restoredValue glob p goos home (mk_field q v) = Inr (Some w)}"

lemma drop_apart:
  assumes "\<And>k f. (k, f) \<in> set es \<Longrightarrow> fmlookup R k = None \<Longrightarrow> isPortable glob p (fieldPath f) \<Longrightarrow> apart (segments f) q"
  shows "in_doc (fold (dropRemoved glob p R) es acc) q = in_doc acc q"
  using assms
proof (induction es arbitrary: acc)
  case (Cons e es)
  obtain k f where e: "e = (k, f)" by (cases e)
  have "in_doc (dropRemoved glob p R e acc) q = in_doc acc q"
    using Cons.prems [of k f] e get_deleteAt_apart by (auto simp: dropRemoved_def)
  moreover have "in_doc (fold (dropRemoved glob p R) es (dropRemoved glob p R e acc)) q = in_doc (dropRemoved glob p R e acc) q"
    using Cons.prems by (intro Cons.IH) auto
  ultimately show ?case by simp
qed simp

lemma drop_gone:
  assumes "\<And>k f. (k, f) \<in> set es \<Longrightarrow> segments f = q \<or> apart (segments f) q" and "q \<noteq> []"
    and "in_doc acc q = None \<or>
      (\<exists>k f. (k, f) \<in> set es \<and> segments f = q \<and> fmlookup R k = None \<and> isPortable glob p (fieldPath f))"
  shows "in_doc (fold (dropRemoved glob p R) es acc) q = None"
  using assms(1,3)
proof (induction es arbitrary: acc)
  case (Cons e es)
  obtain k f where e: "e = (k, f)" by (cases e)
  have gone: "in_doc (fst (deleteAt acc q)) q = None"
    using get_deleteAt [OF assms(2), where d = acc and r = "[]"] by simp
  have "segments f = q \<or> apart (segments f) q" using Cons.prems(1) e by auto
  then have step: "in_doc (dropRemoved glob p R e acc) q = None \<or>
      (\<exists>k f. (k, f) \<in> set es \<and> segments f = q \<and> fmlookup R k = None \<and> isPortable glob p (fieldPath f))"
    using Cons.prems(2) gone get_deleteAt_apart [where p = "segments f" and q = q and d = acc] e
    by (fastforce simp: dropRemoved_def)
  have "in_doc (fold (dropRemoved glob p R) es (dropRemoved glob p R e acc)) q = None"
    by (rule Cons.IH [OF _ step]) (use Cons.prems(1) in fastforce)
  then show ?case by simp
qed simp

lemma apply_apart:
  assumes "fold_res (applyRemote glob p goos home) fs acc = Inr out"
    and "\<And>f w. f \<in> set fs \<Longrightarrow> isPortable glob p (fieldPath f) \<Longrightarrow> fieldValue f \<noteq> JObj fmempty \<Longrightarrow>
      restoredValue glob p goos home f = Inr (Some w) \<Longrightarrow> apart (segments f) q"
  shows "in_doc out q = in_doc acc q"
  using assms
proof (induction fs arbitrary: acc)
  case (Cons f fs)
  obtain mid where m: "applyRemote glob p goos home f acc = Inr mid"
    "fold_res (applyRemote glob p goos home) fs mid = Inr out"
    using Cons.prems(1) by (auto split: sum.splits)
  have "in_doc mid q = in_doc acc q"
    using m(1) Cons.prems(2) [of f] get_setAt_apart
    by (auto simp: applyRemote_def split: if_splits sum.splits option.splits)
  moreover have "in_doc out q = in_doc mid q" by (rule Cons.IH [OF m(2)]) (use Cons.prems(2) in auto)
  ultimately show ?case by simp
qed simp

lemma apply_writes:
  assumes "fold_res (applyRemote glob p goos home) fs acc = Inr out"
    and "set fs \<subseteq> {mk_field q v | q v. (q, v) \<in> leaves d}"
    and "(q, w) \<in> remote_values glob p goos home {(q, v). mk_field q v \<in> set fs} \<or>
      (in_doc acc q = Some w \<and> (q, w) \<in> remote_values glob p goos home (leaves d))"
  shows "in_doc out q = Some w"
  using assms
proof (induction fs arbitrary: acc)
  case (Cons f fs)
  obtain mid where m: "applyRemote glob p goos home f acc = Inr mid"
    "fold_res (applyRemote glob p goos home) fs mid = Inr out"
    using Cons.prems(1) by (auto split: sum.splits)
  obtain q' v' where f: "f = mk_field q' v'" "(q', v') \<in> leaves d" using Cons.prems(2) by auto
  have inL: "(q, w) \<in> remote_values glob p goos home (leaves d)"
  proof -
    have "{(q, v). mk_field q v \<in> set (f # fs)} \<subseteq> leaves d" using Cons.prems(2) by fastforce
    then show ?thesis using Cons.prems(3) by (auto simp: remote_values_def)
  qed
  then obtain v where v: "(q, v) \<in> leaves d" "isPortable glob p (join_with CHR ''.'' q)" "v \<noteq> JObj fmempty"
    "restoredValue glob p goos home (mk_field q v) = Inr (Some w)" by (auto simp: remote_values_def)
  have ne: "q \<noteq> []" using v(1) by (simp add: leaves_def)
  have "(q, w) \<in> remote_values glob p goos home {(q, v). mk_field q v \<in> set fs} \<or> in_doc mid q = Some w"
  proof (cases "q = q'")
    case True
    then have vv: "v = v'" using leaves_apart [OF f(2) v(1)] by auto
    have "mid = setAt acc q w" using m(1) v True vv f(1) by (simp add: applyRemote_def)
    then show ?thesis using get_setAt_below [OF ne, where d = acc and v = w and r = "[]"] by simp
  next
    case False
    then have a: "apart q' q" using leaves_apart [OF f(2) v(1)] by auto
    have mid: "in_doc mid q = in_doc acc q"
      using m(1) get_setAt_apart [OF a] f(1)
      by (auto simp: applyRemote_def split: if_splits sum.splits option.splits)
    from Cons.prems(3) show ?thesis
    proof
      assume "(q, w) \<in> remote_values glob p goos home {(q, v). mk_field q v \<in> set (f # fs)}"
      then show ?thesis using False f by (auto simp: remote_values_def)
    qed (simp add: mid)
  qed
  then show ?case using Cons.IH [OF m(2)] Cons.prems(2) inL by auto
qed (auto simp: remote_values_def)

lemma restore_facts:
  assumes "restoreDocument glob p localDoc baseDoc remoteDoc goos home = Inr out"
  shows "(q, w) \<in> remote_values glob p goos home (leaves remoteDoc) \<Longrightarrow> in_doc out q = Some w"
    and "q \<in> removed_paths glob p baseDoc remoteDoc \<Longrightarrow>
      \<forall>(r, u) \<in> remote_values glob p goos home (leaves remoteDoc). apart r q \<Longrightarrow> in_doc out q = None"
    and "\<forall>(r, u) \<in> remote_values glob p goos home (leaves remoteDoc). apart r q \<Longrightarrow>
      \<forall>r \<in> removed_paths glob p baseDoc remoteDoc. apart r q \<Longrightarrow> in_doc out q = in_doc localDoc q"
proof -
  let ?R = "indexFields (flatten remoteDoc)" and ?es = "fm_entries (indexFields (flatten baseDoc))"
  let ?mid = "fold (dropRemoved glob p ?R) ?es localDoc"
  have res: "fold_res (applyRemote glob p goos home) (flatten remoteDoc) ?mid = Inr out"
    using assms by (simp add: restoreDocument_def)
  have fields: "{(q, v). mk_field q v \<in> set (flatten remoteDoc)} = leaves remoteDoc" by (auto simp: set_flatten)
  have entries: "(k, f) \<in> set ?es \<longleftrightarrow> (\<exists>v. (k, v) \<in> leaves baseDoc \<and> f = mk_field k v)" for k f
    by (simp add: set_fm_entries indexFields_lookup)
  have absent: "fmlookup ?R k = None \<longleftrightarrow> (\<forall>w. (k, w) \<notin> leaves remoteDoc)" for k
    using indexFields_lookup [of remoteDoc k] by (metis not_None_eq)
  have rest: "in_doc out q = in_doc ?mid q"
    if "\<forall>(r, u) \<in> remote_values glob p goos home (leaves remoteDoc). apart r q"
    by (rule apply_apart [OF res]) (use that in \<open>force simp: set_flatten remote_values_def\<close>)
  show "(q, w) \<in> remote_values glob p goos home (leaves remoteDoc) \<Longrightarrow> in_doc out q = Some w"
    by (rule apply_writes [OF res]) (auto simp: set_flatten fields)
  show "in_doc out q = None" if q: "q \<in> removed_paths glob p baseDoc remoteDoc"
    and a: "\<forall>(r, u) \<in> remote_values glob p goos home (leaves remoteDoc). apart r q"
  proof -
    obtain v where v: "(q, v) \<in> leaves baseDoc" "isPortable glob p (join_with CHR ''.'' q)" "\<forall>w. (q, w) \<notin> leaves remoteDoc"
      using q by (auto simp: removed_paths_def)
    have "in_doc ?mid q = None"
    proof (rule drop_gone)
      show "segments f = q \<or> apart (segments f) q" if ke: "(k, f) \<in> set ?es" for k f
      proof -
        obtain va where va: "(k, va) \<in> leaves baseDoc" "f = mk_field k va" using ke [unfolded entries] by blast
        from leaves_apart [OF va(1) v(1)] show ?thesis unfolding va(2) mk_field_simps by (rule disj_forward) simp_all
      qed
      show "q \<noteq> []" using v(1) by (simp add: leaves_def)
      have "(q, mk_field q v) \<in> set ?es \<and> fmlookup ?R q = None" using v by (simp add: entries absent)
      then show "in_doc localDoc q = None \<or> (\<exists>k f. (k, f) \<in> set ?es \<and> segments f = q \<and>
          fmlookup ?R k = None \<and> isPortable glob p (fieldPath f))" using v(2) by fastforce
    qed
    then show ?thesis using rest [OF a] by simp
  qed
  show "in_doc out q = in_doc localDoc q" if a: "\<forall>(r, u) \<in> remote_values glob p goos home (leaves remoteDoc). apart r q"
    and b: "\<forall>r \<in> removed_paths glob p baseDoc remoteDoc. apart r q"
  proof -
    have "in_doc ?mid q = in_doc localDoc q"
      by (rule drop_apart) (use b in \<open>auto simp: entries absent removed_paths_def\<close>)
    then show ?thesis using rest [OF a] by simp
  qed
qed

lemma projectDocument_portable: "\<forall>(q, w) \<in> leaves (projectDocument glob p d goos home). isPortable glob p (join_with CHR ''.'' q)"
  using projectFields_order [of "flatten d" d glob p goos home] by (auto simp: projectDocument_def portable_leaves_def)

section \<open>Properties\<close>

text \<open> C24. Projection sends exactly the portable fields: whatever order the fields are visited in, the leaves of
  the projected document are the leaves of the settings document that a portable pattern matches and
  no sensitive or machine-local pattern does, with path fields rewritten to the home token and those
  that name a place outside the home left out. \<close>

theorem projection_is_exactly_the_portable_fields:
  "leaves (projectDocument glob p d goos home) =
     {(q, w). \<exists>v. (q, v) \<in> leaves d \<and> matches glob (Portable p) (join_with CHR ''.'' q) \<and>
        \<not> matches glob (Sensitive p) (join_with CHR ''.'' q) \<and> \<not> matches glob (MachineLocal p) (join_with CHR ''.'' q) \<and>
        (if matches glob (PathFields p) (join_with CHR ''.'' q) then tokenizePathValue goos home v else Some v) = Some w}"
  using projectFields_order [of "flatten d" d glob p goos home]
  by (simp add: projectDocument_def portable_leaves_def isPortable_def projectedValue_def)

text \<open> C25. Restoring a remote document into a local one.  Every portable remote field takes its remote value, path
  fields expanded, except the fields that have nothing to restore here: an empty object, and a path field that does
  not expand to a place on this machine.  A portable field the remote side removed since the base is gone, provided
  no restored field lies on, above or below it.  Every path of the local document that neither lies on, above nor
  below a restored or a removed field is untouched, so sensitive and machine-local fields beside them survive. \<close>

theorem restore_merges_portable_fields:
  assumes "restoreDocument glob p localDoc baseDoc remoteDoc goos home = Inr out"
  shows "(\<forall>(q, w) \<in> remote_values glob p goos home (leaves remoteDoc). in_doc out q = Some w) \<and>
    (\<forall>q \<in> removed_paths glob p baseDoc remoteDoc.
       (\<forall>(r, u) \<in> remote_values glob p goos home (leaves remoteDoc). apart r q) \<longrightarrow> in_doc out q = None) \<and>
    (\<forall>q. (\<forall>(r, u) \<in> remote_values glob p goos home (leaves remoteDoc). apart r q) \<and>
       (\<forall>r \<in> removed_paths glob p baseDoc remoteDoc. apart r q) \<longrightarrow> in_doc out q = in_doc localDoc q)"
proof (intro conjI)
  show "\<forall>(q, w) \<in> remote_values glob p goos home (leaves remoteDoc). in_doc out q = Some w"
    using restore_facts(1) [OF assms] by blast
  show "\<forall>q \<in> removed_paths glob p baseDoc remoteDoc.
       (\<forall>(r, u) \<in> remote_values glob p goos home (leaves remoteDoc). apart r q) \<longrightarrow> in_doc out q = None"
    using restore_facts(2) [OF assms] by blast
  show "\<forall>q. (\<forall>(r, u) \<in> remote_values glob p goos home (leaves remoteDoc). apart r q) \<and>
       (\<forall>r \<in> removed_paths glob p baseDoc remoteDoc. apart r q) \<longrightarrow> in_doc out q = in_doc localDoc q"
    using restore_facts(3) [OF assms] by blast
qed

text \<open>A small glob matcher for examples: \<open>**\<close> or the literal path.\<close>

definition demo_glob :: glob where
  "demo_glob pat path = Some (pat = ''**'' \<or> pat = path)"

definition demo_policy :: policy where
  "demo_policy = \<lparr>Portable = [''**''], Sensitive = [''servers.env''], MachineLocal = [''id''], PathFields = [''dir'']\<rparr>"

definition demo_local :: document where
  "demo_local = fmap_of_list [(''id'', JNum ''7''), (''theme'', JStr ''old''),
     (''servers'', JObj (fmap_of_list [(''env'', JStr ''key'')]))]"

definition demo_remote :: document where
  "demo_remote = fmap_of_list [(''theme'', JStr ''new''), (''dir'', JStr ''${HOME}/x'')]"

lemma restore_merges_portable_fields_witness:
  "\<exists>out. restoreDocument demo_glob demo_policy demo_local demo_local demo_remote ''linux'' ''/home/a'' = Inr out \<and>
     in_doc out [''theme''] = Some (JStr ''new'')"
proof -
  let ?r = "restoreDocument demo_glob demo_policy demo_local demo_local demo_remote ''linux'' ''/home/a''"
  have "\<not> isl ?r" by code_simp
  then obtain out where o: "?r = Inr out" by (cases ?r) simp_all
  have "fmlookup demo_remote ''theme'' = Some (JStr ''new'')" by code_simp
  then have "([''theme''], JStr ''new'') \<in> leaves demo_remote" by (simp add: leaves_def)
  moreover have "isPortable demo_glob demo_policy (join_with CHR ''.'' [''theme''])"
    and "\<not> matches demo_glob (PathFields demo_policy) (join_with CHR ''.'' [''theme''])" by code_simp+
  ultimately have "([''theme''], JStr ''new'') \<in> remote_values demo_glob demo_policy ''linux'' ''/home/a'' (leaves demo_remote)"
    by (auto simp: remote_values_def restoredValue_def)
  with restore_merges_portable_fields [OF o] have "in_doc out [''theme''] = Some (JStr ''new'')" by blast
  then show ?thesis using o by blast
qed

text \<open>An empty object is a leaf of its own: when the base has one and the remote side drops it, restoration
  deletes everything the local document has gathered below it, sensitive fields included, which the
  policy says stay on the machine.\<close>

lemma restore_deletes_local_secrets:
  "\<not> isPortable demo_glob demo_policy ''servers.env'' \<and>
   in_doc demo_local [''servers'', ''env''] = Some (JStr ''key'') \<and>
   restoreDocument demo_glob demo_policy demo_local (fmap_of_list [(''servers'', JObj fmempty)]) fmempty ''linux'' ''/home/a'' =
     Inr (fmap_of_list [(''id'', JNum ''7''), (''theme'', JStr ''old'')])"
  by code_simp

text \<open> C29. A projection by a transformer that succeeds is safe to publish (without one a file goes out as it is).  Under a registered policy every leaf of its document is
  matched by a portable pattern of the policy and by none of its sensitive or machine-local ones; under the generic
  transformer it is the whole document; and in both cases it carries no secret-looking key at any depth, whenever the
  JSON codec gives back the keys it was given. \<close>

theorem project_output_is_safe:
  assumes "Project cs r transformer rel goos home data = Inr out" and "transformer \<noteq> []"
    and codec: "\<And>d s. marshalJSON cs d = Some s \<Longrightarrow> \<exists>v. unmarshalJSON cs s = Some v \<and> (\<forall>k. key_occurs k v = key_occurs k (JObj d))"
  shows "\<exists>format document projected. Parse cs rel data = Inr (format, document) \<and>
    encodeDocument cs format projected = Inr out \<and>
    (\<forall>k. key_occurs k (JObj projected) \<longrightarrow> \<not> keyMatches (NewScanner [] genericSecretPatterns) k) \<and>
    (transformer = ''generic-safe'' \<and> projected = document \<or>
     (\<exists>p. fmlookup r transformer = Some p \<and> projected = projectDocument (globMatch cs) p document goos home \<and>
        (\<forall>(q, w) \<in> leaves projected. matches (globMatch cs) (Portable p) (join_with CHR ''.'' q) \<and>
           \<not> matches (globMatch cs) (Sensitive p) (join_with CHR ''.'' q) \<and>
           \<not> matches (globMatch cs) (MachineLocal p) (join_with CHR ''.'' q))))"
proof -
  obtain format document where parsed: "Parse cs rel data = Inr (format, document)"
    using assms(1,2) by (auto simp: Project_def split: sum.splits if_splits)
  have clean: "\<not> keyMatches (NewScanner [] genericSecretPatterns) k"
    if scan: "scanDocument cs d = None" and k: "key_occurs k (JObj d)" for d k
  proof -
    obtain s where s: "marshalJSON cs d = Some s" using scan by (auto simp: scanDocument_def split: option.splits)
    then obtain v where v: "unmarshalJSON cs s = Some v" "\<forall>k. key_occurs k v = key_occurs k (JObj d)"
      using codec by blast
    have "\<not> walk_keys (NewScanner [] genericSecretPatterns) v"
      using scan s v(1) by (auto simp: scanDocument_def Scan_def HasSecretContent_def split: sum.splits if_splits)
    then show ?thesis using v(2) k walk_keys_iff by blast
  qed
  show ?thesis
  proof (cases "transformer = ''generic-safe''")
    case True
    have scan: "scanDocument cs document = None"
      using assms(1,2) parsed True by (cases "scanDocument cs document") (simp_all add: Project_def)
    have "encodeDocument cs format document = Inr out"
      using assms(1,2) parsed True scan by (cases "encodeDocument cs format document") (simp_all add: Project_def marshal_def)
    then show ?thesis using parsed True clean [OF scan] by blast
  next
    case False
    then obtain p where p: "fmlookup r transformer = Some p"
      using assms(1,2) parsed by (cases "fmlookup r transformer") (simp_all add: Project_def)
    define projected where "projected = projectDocument (globMatch cs) p document goos home"
    have scan: "scanDocument cs projected = None"
      using assms(1,2) parsed False p by (cases "scanDocument cs projected") (simp_all add: Project_def projected_def Let_def)
    have "encodeDocument cs format projected = Inr out"
      using assms(1,2) parsed False p scan
      by (cases "encodeDocument cs format projected") (simp_all add: Project_def marshal_def projected_def Let_def)
    moreover have "\<forall>(q, w) \<in> leaves projected. isPortable (globMatch cs) p (join_with CHR ''.'' q)"
      using projectDocument_portable projected_def by blast
    ultimately show ?thesis using parsed p clean [OF scan] projected_def unfolding isPortable_def by blast
  qed
qed

definition demo_codecs :: codecs where
  "demo_codecs =
     \<lparr>decodeJSON = (\<lambda>data. ([RMap (fmap_of_list [(''theme'', RScalar (JStr ''new'')), (''id'', RScalar (JNum ''7''))])], False)),
      decodeYAML = (\<lambda>_. ([], False)), unmarshalTOML = (\<lambda>_. None), encodeDocument = (\<lambda>_ _. Inr ''out''),
      marshalJSON = (\<lambda>d. if d = fmap_of_list [(''theme'', JStr ''new'')] then Some ''d'' else None),
      unmarshalJSON = (\<lambda>s. if s = ''d'' then Some (JObj (fmap_of_list [(''theme'', JStr ''new'')])) else None),
      globMatch = demo_glob\<rparr>"

lemma project_output_is_safe_witness:
  "\<exists>format document projected. Parse demo_codecs ''s.json'' ''raw'' = Inr (format, document) \<and>
    (\<forall>k. \<not> (key_occurs k (JObj projected) \<and> keyMatches (NewScanner [] genericSecretPatterns) k))"
proof -
  have run: "Project demo_codecs (Register fmempty ''t'' demo_policy) ''t'' ''s.json'' ''linux'' ''/home/a'' ''raw'' = Inr ''out''"
    by code_simp
  have codec: "\<exists>v. unmarshalJSON demo_codecs s = Some v \<and> (\<forall>k. key_occurs k v = key_occurs k (JObj d))"
    if "marshalJSON demo_codecs d = Some s" for d s
    using that by (auto simp: demo_codecs_def split: if_splits)
  have "''t'' \<noteq> []" by simp
  from project_output_is_safe [OF run this codec] show ?thesis by blast
qed

end
