(* ===== verification/Library_Guard.thy ===== *)
theory Library_Guard
  imports Safe_Paths Secret_Scanner Portable_Config
begin

text \<open>
  The shared library's names, places and content policy, and the reservation of the folders it
  generates (internal/sharedlibrary: model.go, sync.go, and validateContent and noLinks of files.go).
  The user's home is an absolute path on a Unix host.  JSON decoding and glob matching are
  parameters, as in Secret_Scanner.
\<close>

section \<open>Names and places\<close>

record lib_request =
  lr_action :: string
  lr_kind :: string
  lr_name :: string
  lr_harness :: string

datatype library_error =
    BadName string
  | ReservedName string
  | UnsupportedMapping string string string
  | NotRegular string
  | TooBig string
  | BlockedFile string string
  | SecretContent string
  | ScanError
  | LibraryLink string
  | OutsideHome string
  | UnexpectedType string
  | OwnershipCorrupt
  | OwnershipVersion
  | OwnershipRecord string
  | BackupPath
  | DuplicateSkill string
  | TargetModified
  | NotManagedHere
  | UnsupportedAction string
  | EmptySource
  | NoSkillFile
  | StalePreview
  | LibraryFault
  | WithRollback library_error library_error
  | AtKey string library_error

definition is_lower_alnum :: "char \<Rightarrow> bool" where
  "is_lower_alnum c \<longleftrightarrow> c \<in> set ''abcdefghijklmnopqrstuvwxyz0123456789''"

text \<open>The regular expression \<open>^[a-z0-9][a-z0-9_-]{0,63}$\<close>, then the device names of Windows.\<close>

definition deviceNames :: "string list" where
  "deviceNames = [''con'', ''prn'', ''aux'', ''nul''] @
     map (\<lambda>c. ''com'' @ [c]) ''123456789'' @ map (\<lambda>c. ''lpt'' @ [c]) ''123456789''"

definition validateName :: "string \<Rightarrow> library_error option" where
  "validateName name =
     (if name = [] \<or> \<not> is_lower_alnum (hd name) \<or>
         \<not> list_all (\<lambda>c. is_lower_alnum c \<or> c = CHR ''_'' \<or> c = CHR ''-'') (tl name) \<or> length (tl name) > 63
      then Some (BadName name)
      else if name \<in> set deviceNames then Some (ReservedName name) else None)"

definition libraryRoot :: "string \<Rightarrow> string" where
  "libraryRoot userHome = path_join [userHome, ''.agents'', ''library'']"

definition libraryPaths :: "string \<Rightarrow> lib_request \<Rightarrow> library_error + string \<times> string" where
  "libraryPaths userHome r =
     (case validateName (lr_name r) of
        Some e \<Rightarrow> Inl e
      | None \<Rightarrow>
          let source = path_join [libraryRoot userHome, ''skills'', lr_name r];
              unsupported = Inl (UnsupportedMapping (lr_kind r) (lr_name r) (lr_harness r))
          in if lr_kind r = ''skills'' then
               (if lr_harness r = ''claude'' then Inr (source, path_join [userHome, ''.claude'', ''skills'', lr_name r])
                else if lr_harness r = ''common'' then Inr (source, path_join [userHome, ''.agents'', ''skills'', lr_name r])
                else if lr_harness r = ''copilot'' \<and> lr_action r = ''import''
                then Inr (source, path_join [userHome, ''.copilot'', ''skills'', lr_name r])
                else unsupported)
             else if lr_kind r = ''instructions'' \<and> lr_name r = ''global'' \<and> lr_harness r = ''claude''
             then Inr (path_join [libraryRoot userHome, ''instructions'', ''AGENTS.md''],
                       path_join [userHome, ''.claude'', ''CLAUDE.md''])
             else unsupported)"

definition requestKey :: "lib_request \<Rightarrow> string" where
  "requestKey r = lr_kind r @ ''/'' @ lr_name r @ ''/'' @ lr_harness r"

section \<open>Content policy\<close>

text \<open>\<open>utf8.Valid\<close>: no overlong forms, no surrogates, nothing above U+10FFFF.\<close>

fun utf8_cont :: "int \<Rightarrow> int \<Rightarrow> int list \<Rightarrow> int list option" where
  "utf8_cont lo hi (b # bs) = (if lo \<le> b \<and> b \<le> hi then Some bs else None)"
| "utf8_cont lo hi [] = None"

fun utf8_valid :: "nat \<Rightarrow> int list \<Rightarrow> bool" where
  "utf8_valid fuel [] = True"
| "utf8_valid 0 (b # bs) = False"
| "utf8_valid (Suc fuel) (b # bs) =
     (if b < 0x80 then utf8_valid fuel bs
      else if 0xC2 \<le> b \<and> b \<le> 0xDF then
        (case utf8_cont 0x80 0xBF bs of None \<Rightarrow> False | Some bs1 \<Rightarrow> utf8_valid fuel bs1)
      else if 0xE0 \<le> b \<and> b \<le> 0xEF then
        (case utf8_cont (if b = 0xE0 then 0xA0 else 0x80) (if b = 0xED then 0x9F else 0xBF) bs of
           None \<Rightarrow> False
         | Some bs1 \<Rightarrow> (case utf8_cont 0x80 0xBF bs1 of None \<Rightarrow> False | Some bs2 \<Rightarrow> utf8_valid fuel bs2))
      else if 0xF0 \<le> b \<and> b \<le> 0xF4 then
        (case utf8_cont (if b = 0xF0 then 0x90 else 0x80) (if b = 0xF4 then 0x8F else 0xBF) bs of
           None \<Rightarrow> False
         | Some bs1 \<Rightarrow>
             (case utf8_cont 0x80 0xBF bs1 of
                None \<Rightarrow> False
              | Some bs2 \<Rightarrow> (case utf8_cont 0x80 0xBF bs2 of None \<Rightarrow> False | Some bs3 \<Rightarrow> utf8_valid fuel bs3)))
      else False)"

definition validUTF8 :: "string \<Rightarrow> bool" where
  "validUTF8 s = utf8_valid (length s) (map of_char s)"

text \<open>
  The regular expression of a credential assignment, matched from a position: blanks, an optional
  \<open>export\<close>, an optional quote, a keyword, an optional quote, a colon or an equals sign, and a
  character that is not blank.  Case is folded for ASCII only.  The alternatives exclude one another, so no backtracking is needed.
\<close>

definition re_space :: "char \<Rightarrow> bool" where
  "re_space c \<longleftrightarrow> c \<in> {CHR '' '', CHR 0x09, CHR 0x0A, CHR 0x0C, CHR 0x0D}"

definition skip_space :: "string \<Rightarrow> string" where
  "skip_space s = dropWhile re_space s"

definition skip_quote :: "string \<Rightarrow> string" where
  "skip_quote s = (case s of c # rest \<Rightarrow> if c = CHR 0x22 \<or> c = CHR 0x27 then rest else s | [] \<Rightarrow> s)"

definition skip_word :: "string \<Rightarrow> string \<Rightarrow> string option" where
  "skip_word w s = (if prefix w (to_lower s) then Some (drop (length w) s) else None)"

definition skip_separator :: "string \<Rightarrow> string" where
  "skip_separator s = (case s of c # rest \<Rightarrow> if c = CHR ''_'' \<or> c = CHR ''-'' then rest else s | [] \<Rightarrow> s)"

fun skip_two :: "string \<Rightarrow> string \<Rightarrow> string \<Rightarrow> string option" where
  "skip_two a b s = (case skip_word a s of None \<Rightarrow> None | Some rest \<Rightarrow> skip_word b (skip_separator rest))"

definition skip_keyword :: "string \<Rightarrow> string option" where
  "skip_keyword s =
     (case skip_two ''api'' ''key'' s of Some r \<Rightarrow> Some r | None \<Rightarrow>
      case skip_two ''access'' ''token'' s of Some r \<Rightarrow> Some r | None \<Rightarrow>
      case skip_word ''password'' s of Some r \<Rightarrow> Some r | None \<Rightarrow>
      case skip_word ''secret'' s of Some r \<Rightarrow> Some r | None \<Rightarrow> skip_two ''refresh'' ''token'' s)"

definition skip_export :: "string \<Rightarrow> string" where
  "skip_export s =
     (case skip_word ''export'' s of
        Some rest \<Rightarrow> if rest \<noteq> [] \<and> re_space (hd rest) then skip_space rest else s
      | None \<Rightarrow> s)"

definition credentialAt :: "string \<Rightarrow> bool" where
  "credentialAt s =
     (case skip_keyword (skip_quote (skip_export (skip_space s))) of
        None \<Rightarrow> False
      | Some rest \<Rightarrow>
          (case skip_space (skip_quote rest) of
             [] \<Rightarrow> False
           | c # value \<Rightarrow> (c = CHR '':'' \<or> c = CHR ''='') \<and> skip_space value \<noteq> []))"

text \<open>\<open>^\<close> matches at the start and after every newline.\<close>

fun credentialAssignment :: "bool \<Rightarrow> string \<Rightarrow> bool" where
  "credentialAssignment start [] = False"
| "credentialAssignment start (c # s) \<longleftrightarrow> (start \<and> credentialAt (c # s)) \<or> credentialAssignment (c = CHR 0x0A) s"

definition libraryScanner :: scanner where
  "libraryScanner = NewScanner [''**/.env'', ''**/.env.*'', ''**/*credentials*'', ''**/auth.json'', ''**/*.pem'', ''**/id_rsa'', ''**/id_ed25519'']
     [''apiKey'', ''token'', ''secret'', ''password'', ''oauth'', ''refresh_token'']"

definition validateLibraryContent :: "glob \<Rightarrow> unmarshaller \<Rightarrow> string \<Rightarrow> string \<Rightarrow> library_error option" where
  "validateLibraryContent glob unmarshal rel data =
     (if int (length data) > 1048576 \<or> \<not> validUTF8 data \<or> CHR 0x00 \<in> set data then Some (TooBig rel)
      else case Check glob DefaultFilterPolicy rel (int (length data)) StrategySourceTree of
        Some reason \<Rightarrow> Some (BlockedFile rel reason)
      | None \<Rightarrow>
          (case Scan glob unmarshal libraryScanner rel data of
             Inl _ \<Rightarrow> Some ScanError
           | Inr blocked \<Rightarrow> if blocked \<or> credentialAssignment True data then Some (SecretContent rel) else None))"

section \<open>No links at or below the user's home\<close>

text \<open>
  Go compares the home directory with each parent by device and inode as well as by path; the
  model compares the paths.  Walking up from the path ends at the home or at the root.
\<close>

fun noLinksFrom :: "nat \<Rightarrow> fsys \<Rightarrow> string list \<Rightarrow> string list \<Rightarrow> string list \<Rightarrow> library_error option" where
  "noLinksFrom n fs home name p =
     (case lstat n fs p of
        Some (LinkNode _ _) \<Rightarrow> Some (LibraryLink (join_with CHR ''/'' p))
      | _ \<Rightarrow>
          if p = home then None
          else if p = [] then Some (OutsideHome (join_with CHR ''/'' name))
          else noLinksFrom n fs home name (butlast p))"

declare noLinksFrom.simps [simp del]

definition noLinks :: "nat \<Rightarrow> fsys \<Rightarrow> string list \<Rightarrow> string list \<Rightarrow> library_error option" where
  "noLinks n fs home name =
     (case lstat n fs home of
        Some (LinkNode _ _) \<Rightarrow> Some (LibraryLink (join_with CHR ''/'' home))
      | _ \<Rightarrow> noLinksFrom n fs home name name)"

section \<open>Reserved outputs\<close>

definition absSegments :: "string \<Rightarrow> string list" where
  "absSegments p = rev (foldl (clean_step True) [] (split_on CHR ''/'' p))"

text \<open>\<open>filepath.Rel\<close>; with an absolute target, a relative base is an error.\<close>

definition relPath :: "string \<Rightarrow> string \<Rightarrow> string list option" where
  "relPath base target =
     (if prefix ''/'' base \<and> prefix ''/'' target then Some (rel_segments (absSegments base) (absSegments target)) else None)"

definition isLocalRel :: "string list \<Rightarrow> bool" where
  "isLocalRel rel = (case rel of [] \<Rightarrow> True | s # _ \<Rightarrow> s \<noteq> ''..'')"

definition reserveAll :: "spec \<Rightarrow> spec" where
  "reserveAll s = s\<lparr>sp_reserved := sp_reserved s @ [[]], sp_exclude := sp_exclude s @ [''**'']\<rparr>"

definition reserve :: "string \<Rightarrow> string \<Rightarrow> spec \<Rightarrow> spec" where
  "reserve root target s =
     (case relPath root target of
        None \<Rightarrow> s
      | Some rel \<Rightarrow>
          if rel = [] then reserveAll s
          else if \<not> isLocalRel rel then
            (case relPath target root of
               Some back \<Rightarrow> if isLocalRel back then reserveAll s else s
             | None \<Rightarrow> s)
          else let r = join_with CHR ''/'' rel
               in s\<lparr>sp_reserved := sp_reserved s @ [r], sp_exclude := sp_exclude s @ [r, r @ ''/**'']\<rparr>)"

text \<open>The outputs the library generates for the given skills.\<close>

definition managedOutputs :: "string \<Rightarrow> string list \<Rightarrow> bool \<Rightarrow> library_error + string list" where
  "managedOutputs userHome names instructions =
     map_sum id (\<lambda>ts. libraryRoot userHome # ts @ (if instructions then [path_join [userHome, ''.claude'', ''CLAUDE.md'']] else []))
       (fold_res (\<lambda>(name, harness) ts. map_sum id (\<lambda>(_, target). ts @ [target])
          (libraryPaths userHome \<lparr>lr_action = ''import'', lr_kind = ''skills'', lr_name = name, lr_harness = harness\<rparr>))
          [(name, harness). name \<leftarrow> names, harness \<leftarrow> [''claude'', ''common'', ''copilot'']] [])"

definition protectSpec :: "string list \<Rightarrow> spec \<Rightarrow> spec" where
  "protectSpec targets s =
     (if sp_provider s = ''common'' \<and> prefix ''library-'' (sp_id s) then s\<lparr>sp_copy_only := True\<rparr>
      else
        let s1 = (if sp_shared_as s = ''common-skills'' then s\<lparr>sp_copy_only := True\<rparr> else s)
        in fold (\<lambda>root. fold (reserve root) targets) (sp_root s # sp_targets s) s1)"

definition protect :: "string \<Rightarrow> string list \<Rightarrow> bool \<Rightarrow> (string, spec) fmap \<Rightarrow> library_error + (string, spec) fmap" where
  "protect userHome names instructions specs =
     (if names = [] \<and> \<not> instructions then Inr specs
      else map_sum id (\<lambda>targets. fmmap (protectSpec targets) specs) (managedOutputs userHome names instructions))"

text \<open>\<open>links\<close> is the check of the library's own roots, \<open>content\<close> the one of its files.\<close>

definition configureSources ::
  "(string \<Rightarrow> string option) \<Rightarrow> (string \<Rightarrow> string \<Rightarrow> string option) \<Rightarrow> (string, spec) fmap \<Rightarrow> (string, spec) fmap" where
  "configureSources links content specs =
     fold (\<lambda>k m. case fmlookup m k of
        None \<Rightarrow> m
      | Some s \<Rightarrow> fmupd k (s\<lparr>sp_optional_root := True, sp_copy_only := True, sp_validate_root := Some links,
                            sp_validate_content := Some content\<rparr>) m)
       [''common/library-skills'', ''common/library-instructions''] specs"

definition cutSlash :: "string \<Rightarrow> string \<times> bool" where
  "cutSlash s = (takeWhile (\<lambda>c. c \<noteq> CHR ''/'') s, CHR ''/'' \<in> set s)"

definition librarySkill :: "string \<Rightarrow> string option" where
  "librarySkill rel =
     (case ParseRepoPath rel of
        Inl _ \<Rightarrow> None
      | Inr ref \<Rightarrow>
          if ref_common ref \<and> ref_id ref = ''library-skills'' \<and> ref_category ref = CategorySkills \<and> snd (cutSlash (ref_relative ref))
          then Some (fst (cutSlash (ref_relative ref))) else None)"

definition libraryInstructions :: "string \<Rightarrow> bool" where
  "libraryInstructions rel =
     (case ParseRepoPath rel of
        Inl _ \<Rightarrow> False
      | Inr ref \<Rightarrow> ref_common ref \<and> ref_id ref = ''library-instructions'' \<and> ref_category ref = CategoryInstructions \<and>
                    ref_relative ref = ''AGENTS.md'')"

definition ProtectRemoteSpecs ::
  "(string \<Rightarrow> string option) \<Rightarrow> (string \<Rightarrow> string \<Rightarrow> string option) \<Rightarrow> string \<Rightarrow> string list \<Rightarrow> (string, spec) fmap
     \<Rightarrow> library_error + (string, spec) fmap" where
  "ProtectRemoteSpecs links content userHome remote specs =
     (let configured = configureSources links content specs;
          names = List.map_filter librarySkill remote
      in case List.map_filter validateName names of
           e # _ \<Rightarrow> Inl e
         | [] \<Rightarrow> protect userHome (remdups names) (list_ex libraryInstructions remote) configured)"

section \<open>Facts\<close>

lemma strip_common_split:
  "strip_common bs ts = (b, t) \<Longrightarrow> \<exists>c. bs = c @ b \<and> ts = c @ t \<and> (b = [] \<or> t = [] \<or> hd b \<noteq> hd t)"
  by (induction bs ts rule: strip_common.induct) (auto split: if_splits intro: exI [of _ "x # c" for x c])

lemma absSegments_plain: "\<forall>s\<in>set (absSegments p). plain_segment s"
proof -
  have "\<forall>s\<in>set (split_on CHR ''/'' p). CHR ''/'' \<notin> set s" by (auto dest: split_on_segments)
  from foldl_clean_rooted [OF _ this, of "[]"] show ?thesis by (simp add: absSegments_def)
qed

lemma reserve_mono: "set (sp_reserved s) \<subseteq> set (sp_reserved (reserve root target s))"
  by (auto simp: reserve_def reserveAll_def Let_def split: option.splits)

lemma reserves_mono: "set (sp_reserved s) \<subseteq> set (sp_reserved (fold (reserve root) targets s))"
  by (induction targets arbitrary: s) (auto dest: subsetD [OF reserve_mono])

lemma roots_mono: "set (sp_reserved s) \<subseteq> set (sp_reserved (fold (\<lambda>root. fold (reserve root) targets) roots s))"
  by (induction roots arbitrary: s) (auto dest: subsetD [OF reserves_mono])

text \<open>An entry of the reserved list that covers the path with these segments.\<close>

definition covers :: "string list \<Rightarrow> spec \<Rightarrow> bool" where
  "covers segs s \<longleftrightarrow> [] \<in> set (sp_reserved s) \<or>
     (\<exists>rel. rel \<noteq> [] \<and> prefix rel segs \<and> join_with CHR ''/'' rel \<in> set (sp_reserved s))"

lemma covers_mono: "covers segs s \<Longrightarrow> set (sp_reserved s) \<subseteq> set (sp_reserved s') \<Longrightarrow> covers segs s'"
  unfolding covers_def by blast

lemma covers_not_owned:
  assumes "covers segs s"
  shows "\<not> Owns s (join_with CHR ''/'' segs)"
proof (cases "[] \<in> set (sp_reserved s)")
  case True
  have "canonical_case [] = []" by (simp add: canonical_case_def replace_char_def to_lower_def)
  then show ?thesis using True by (auto simp: Owns_def owns_from_iff)
next
  case False
  then obtain rel more where r: "rel \<noteq> []" "segs = rel @ more" "join_with CHR ''/'' rel \<in> set (sp_reserved s)"
    using assms unfolding covers_def by (auto simp: prefix_def)
  show ?thesis
  proof (cases "more = []")
    case True
    then show ?thesis using r by (auto simp: Owns_def owns_from_iff)
  next
    case False
    then have "join_with CHR ''/'' segs = join_with CHR ''/'' rel @ CHR ''/'' # join_with CHR ''/'' more"
      using r by (simp add: join_with_append)
    moreover have "\<not> Owns s (join_with CHR ''/'' rel)" using r(3) by (auto simp: Owns_def owns_from_iff)
    ultimately show ?thesis using Owns_subpath by metis
  qed
qed

lemma isLocalRel_plain: "\<forall>s\<in>set p. plain_segment s \<Longrightarrow> isLocalRel p"
  by (cases p) (auto simp: isLocalRel_def plain_segment_def)

lemma reserve_covers:
  assumes abs: "prefix ''/'' root" "prefix ''/'' target"
    and inside: "prefix (absSegments target) (absSegments root @ segs)"
  shows "covers segs (reserve root target s)"
proof -
  obtain b t where st: "strip_common (absSegments root) (absSegments target) = (b, t)" by fastforce
  obtain c where c: "absSegments root = c @ b" "absSegments target = c @ t" "b = [] \<or> t = [] \<or> hd b \<noteq> hd t"
    using strip_common_split [OF st] by blast
  have rel: "relPath root target = Some (replicate (length b) ''..'' @ t)"
    using abs st by (simp add: relPath_def rel_segments_def)
  have plain: "\<forall>s\<in>set b. plain_segment s" "\<forall>s\<in>set t. plain_segment s"
    using absSegments_plain [of root] absSegments_plain [of target] c by auto
  show ?thesis
  proof (cases "b = []")
    case True
    then have "prefix t segs" using inside c by simp
    then show ?thesis
      using rel True isLocalRel_plain [OF plain(2)]
      by (cases "t = []") (auto simp: reserve_def covers_def reserveAll_def Let_def)
  next
    case False
    have "prefix t (b @ segs)" using inside c by simp
    then have t: "t = []" using c(3) False by (cases t; cases b) auto
    have "strip_common (absSegments target) (absSegments root) = ([], b)"
    proof -
      have "strip_common c (c @ b) = ([], b)" for c by (induction c) (cases b; simp)+
      then show ?thesis using c t by simp
    qed
    then have "relPath target root = Some b" using abs by (simp add: relPath_def rel_segments_def)
    moreover have "\<not> isLocalRel (replicate (length b) ''..'')" using False by (cases b) (auto simp: isLocalRel_def)
    ultimately show ?thesis
      using rel t False isLocalRel_plain [OF plain(1)] by (simp add: reserve_def covers_def reserveAll_def)
  qed
qed

lemma roots_cover:
  assumes "prefix ''/'' root" "prefix ''/'' target" "prefix (absSegments target) (absSegments root @ segs)"
    and "root \<in> set roots" "target \<in> set targets"
  shows "covers segs (fold (\<lambda>root. fold (reserve root) targets) roots s)"
proof -
  obtain ps qs where roots: "roots = ps @ root # qs" using assms(4) by (auto simp: in_set_conv_decomp)
  obtain xs ys where targets: "targets = xs @ target # ys" using assms(5) by (auto simp: in_set_conv_decomp)
  let ?s = "fold (reserve root) xs (fold (\<lambda>root. fold (reserve root) targets) ps s)"
  have "covers segs (fold (reserve root) ys (reserve root target ?s))"
    by (rule covers_mono [OF reserve_covers [OF assms(1-3)] reserves_mono])
  then have "covers segs (fold (reserve root) targets (fold (\<lambda>root. fold (reserve root) targets) ps s))"
    by (simp add: targets)
  then show ?thesis using covers_mono [OF _ roots_mono] by (simp add: roots)
qed

section \<open>Property\<close>

text \<open>The folders the library generates belong to nobody else: once protected, no other resource owns a path
  that lies inside a generated skill folder, the library itself or the generated instructions,
  however its roots are nested with them, so that neither collection nor restore touches it there.\<close>

lemma library_outputs_are_reserved:
  assumes "protect userHome names instructions specs = Inr specs'" and "names \<noteq> [] \<or> instructions"
    and "fmlookup specs k = Some s" and "\<not> (sp_provider s = ''common'' \<and> prefix ''library-'' (sp_id s))"
    and "managedOutputs userHome names instructions = Inr targets" and "target \<in> set targets"
    and "root \<in> set (sp_root s # sp_targets s)" and "prefix ''/'' root" "prefix ''/'' target"
    and "prefix (absSegments target) (absSegments root @ segs)"
  shows "\<exists>s'. fmlookup specs' k = Some s' \<and> \<not> Owns s' (join_with CHR ''/'' segs)"
proof -
  have "specs' = fmmap (protectSpec targets) specs"
    using assms(1,2,5) by (auto simp: protect_def split: if_splits)
  moreover have "covers segs (protectSpec targets s)"
    using roots_cover [OF assms(8-10,7,6)] assms(4) by (auto simp: protectSpec_def Let_def simp del: fold_simps)
  ultimately show ?thesis using assms(3) covers_not_owned by auto
qed

lemma library_outputs_are_reserved_witness:
  "\<exists>specs' s'. protect ''/h'' [''a''] False (fmap_of_list [(''claude/settings'', example_spec\<lparr>sp_root := ''/h/.claude''\<rparr>)]) = Inr specs' \<and>
     fmlookup specs' ''claude/settings'' = Some s' \<and> \<not> Owns s' ''skills/a/x.md''"
proof -
  let ?s = "example_spec\<lparr>sp_root := ''/h/.claude''\<rparr>" and ?specs = "fmap_of_list [(''claude/settings'', example_spec\<lparr>sp_root := ''/h/.claude''\<rparr>)]"
  have ok: "\<not> isl (protect ''/h'' [''a''] False ?specs)" by code_simp
  then obtain specs' where p: "protect ''/h'' [''a''] False ?specs = Inr specs'" by (cases "protect ''/h'' [''a''] False ?specs") auto
  have t: "managedOutputs ''/h'' [''a''] False =
      Inr [''/h/.agents/library'', ''/h/.claude/skills/a'', ''/h/.agents/skills/a'', ''/h/.copilot/skills/a'']" by code_simp
  have pre: "prefix (absSegments ''/h/.claude/skills/a'') (absSegments ''/h/.claude'' @ [''skills'', ''a'', ''x.md''])" by code_simp
  have s: "fmlookup ?specs ''claude/settings'' = Some ?s" "\<not> (sp_provider ?s = ''common'' \<and> prefix ''library-'' (sp_id ?s))"
    by (simp_all add: fmlookup_of_list example_spec_def)
  obtain s' where "fmlookup specs' ''claude/settings'' = Some s'" "\<not> Owns s' (join_with CHR ''/'' [''skills'', ''a'', ''x.md''])"
    using library_outputs_are_reserved [OF p _ s t _ _ _ _ pre] by auto
  then show ?thesis using p by auto
qed

end
