(* ===== verification/Provider_Config.thy ===== *)
theory Provider_Config
  imports Library_Guard Path_Resolver
begin

text \<open>
  Settings and providers (internal/config/config.go, internal/provider/provider.go) and the resource
  specifications they give (internal/cli/runtime.go).  YAML documents appear decoded; the decoder and the
  encoder are parameters of the properties that need them.  The names of the shared library's skills and
  whether it has instructions are arguments of the specification builder.
\<close>

section \<open>Providers\<close>

record declared =
  dc_decl :: resource_decl
  dc_paths :: "(string, string) fmap"
  dc_include :: "string list"
  dc_exclude :: "string list"

record config_spec =
  pc_paths :: "(string, string) fmap"
  pc_include :: "string list"
  pc_sessions :: "string list"
  pc_exclude :: "string list"

record provider_def =
  pv_schema :: int
  pv_name :: string
  pv_config :: config_spec
  pv_resources :: "declared list"
  pv_keyPatterns :: "string list"

text \<open>The decoded document: a field that is absent is \<open>None\<close>.\<close>

record provider_document =
  pd_schema :: "int option"
  pd_name :: string
  pd_config :: config_spec
  pd_resources :: "declared list option"
  pd_keyPatterns :: "string list"

datatype provider_error =
    MissingName
  | ReservedName string
  | BadName path_error
  | MixedConfig string
  | NeedsSchema2 string
  | UnsupportedSchema string int
  | BadDeclaration decl_error
  | DuplicateID string string

definition normalizedDeclared :: "declared \<Rightarrow> declared" where
  "normalizedDeclared d = d\<lparr>dc_decl := Normalized (dc_decl d)\<rparr>"

fun checkedDeclarations :: "string \<Rightarrow> string list \<Rightarrow> declared list \<Rightarrow> provider_error + declared list" where
  "checkedDeclarations name seen [] = Inr []"
| "checkedDeclarations name seen (x # rest) =
     (let d = normalizedDeclared x in
      case ValidateDeclaration name (dc_decl d) of
        Some e \<Rightarrow> Inl (BadDeclaration e)
      | None \<Rightarrow>
          if decl_id (dc_decl d) \<in> set seen then Inl (DuplicateID name (decl_id (dc_decl d)))
          else map_sum id (Cons d) (checkedDeclarations name (decl_id (dc_decl d) # seen) rest))"

definition legacyDeclared :: "config_spec \<Rightarrow> string \<Rightarrow> string \<Rightarrow> string list \<Rightarrow> declared" where
  "legacyDeclared c i category patterns =
     \<lparr>dc_decl = \<lparr>decl_id = i, decl_category = category, decl_strategy = StrategyFileTree, decl_layout = LayoutLegacy,
                  decl_transformer = [], decl_installer = [], decl_shared_as = []\<rparr>,
      dc_paths = pc_paths c, dc_include = patterns, dc_exclude = pc_exclude c\<rparr>"

definition legacyDeclarations :: "config_spec \<Rightarrow> declared list" where
  "legacyDeclarations c =
     (if pc_include c \<noteq> [] then [legacyDeclared c ''legacy-config'' CategoryConfig (pc_include c)] else []) @
     (if pc_sessions c \<noteq> [] then [legacyDeclared c ''legacy-sessions'' CategorySessions (pc_sessions c)] else [])"

definition Declarations :: "provider_def \<Rightarrow> provider_error + declared list" where
  "Declarations p =
     (if pv_name p = portableProviderName then Inl (ReservedName (pv_name p))
      else checkedDeclarations (pv_name p) []
        (if pv_resources p \<noteq> [] then pv_resources p else legacyDeclarations (pv_config p)))"

definition hasLegacyConfig :: "config_spec \<Rightarrow> bool" where
  "hasLegacyConfig c \<longleftrightarrow> pc_paths c \<noteq> fmempty \<or> pc_include c \<noteq> [] \<or> pc_sessions c \<noteq> [] \<or> pc_exclude c \<noteq> []"

definition validateSchema :: "string \<Rightarrow> int option \<Rightarrow> bool \<Rightarrow> provider_error option" where
  "validateSchema name schema typed =
     (if typed then
        (case schema of
           None \<Rightarrow> Some (NeedsSchema2 name)
         | Some v \<Rightarrow> if v = 0 \<or> v = 1 then Some (NeedsSchema2 name)
                     else if v \<noteq> 2 then Some (UnsupportedSchema name v) else None)
      else case schema of
        None \<Rightarrow> None
      | Some v \<Rightarrow> if v \<noteq> 0 \<and> v \<noteq> 1 then Some (UnsupportedSchema name v) else None)"

definition ParseProvider :: "provider_document \<Rightarrow> provider_error + provider_def" where
  "ParseProvider doc =
     (let name = pd_name doc;
          p = \<lparr>pv_schema = (case pd_schema doc of None \<Rightarrow> 0 | Some v \<Rightarrow> v), pv_name = name, pv_config = pd_config doc,
               pv_resources = (case pd_resources doc of None \<Rightarrow> [] | Some ds \<Rightarrow> ds), pv_keyPatterns = pd_keyPatterns doc\<rparr>
      in if trim_space name = [] then Inl MissingName
         else if name = portableProviderName then Inl (ReservedName name)
         else case ValidateIdentifier ''provider name'' name of Some e \<Rightarrow> Inl (BadName e) | None \<Rightarrow>
         if pd_resources doc \<noteq> None \<and> hasLegacyConfig (pd_config doc) then Inl (MixedConfig name)
         else case validateSchema name (pd_schema doc) (pd_resources doc \<noteq> None) of Some e \<Rightarrow> Inl e | None \<Rightarrow>
         case Declarations p of Inl e \<Rightarrow> Inl e | Inr _ \<Rightarrow> Inr p)"

text \<open>The user's definitions override built-in ones of the same name, in the order of first appearance.\<close>

definition addProvider :: "provider_def list \<Rightarrow> provider_def \<Rightarrow> provider_def list" where
  "addProvider out p =
     (if pv_name p \<in> set (map pv_name out) then map (\<lambda>q. if pv_name q = pv_name p then p else q) out else out @ [p])"

text \<open>A directory entry: its name, whether it is a directory, and its document if it decodes.\<close>

definition LoadProviders ::
  "provider_def list \<Rightarrow> (string \<times> bool \<times> provider_document option) list \<Rightarrow> provider_error option + provider_def list" where
  "LoadProviders builtins entries =
     fold_res (\<lambda>(name, dir, doc) out.
       if dir \<or> \<not> suffix ''.yaml'' name then Inr out
       else case doc of
         None \<Rightarrow> Inl None
       | Some d \<Rightarrow> (case ParseProvider d of Inl e \<Rightarrow> Inl (Some e) | Inr p \<Rightarrow> Inr (addProvider out p)))
       entries (foldl addProvider [] builtins)"

section \<open>Settings\<close>

record first_sync =
  fs_strategy :: string
  fs_completed :: bool

record custom_resource =
  cu_id :: string
  cu_category :: string
  cu_paths :: "(string, string) fmap"
  cu_targets :: "(string, string) fmap"
  cu_include :: "string list"
  cu_exclude :: "string list"
  cu_strategy :: string

record config =
  cfg_version :: int
  cfg_repoURL :: string
  cfg_repoDir :: string
  cfg_interval :: int
  cfg_trashGraceDays :: int
  cfg_agents :: "(string, bool) fmap"
  cfg_categories :: "(string, (string, bool) fmap) fmap"
  cfg_custom :: "custom_resource list"
  cfg_firstSync :: first_sync

datatype config_error =
    CustomInstallManifest string
  | CustomDeclaration decl_error
  | DuplicateCustom string
  | MissingPaths string string
  | EmptyPlatform string string
  | EmptyPath string string string
  | BadFirstSync string

definition DefaultConfig :: "string list \<Rightarrow> config" where
  "DefaultConfig names =
     \<lparr>cfg_version = 4, cfg_repoURL = [], cfg_repoDir = [], cfg_interval = 10, cfg_trashGraceDays = 30,
      cfg_agents = fmap_of_list (map (\<lambda>n. (n, True)) names), cfg_categories = fmempty, cfg_custom = [],
      cfg_firstSync = \<lparr>fs_strategy = [], fs_completed = False\<rparr>\<rparr>"

definition EnabledAgents :: "config \<Rightarrow> string list" where
  "EnabledAgents c = filter (\<lambda>n. fmlookup (cfg_agents c) n = Some True) (fm_keys (cfg_agents c))"

definition CategoryEnabled :: "config \<Rightarrow> string \<Rightarrow> string \<Rightarrow> bool" where
  "CategoryEnabled c provider category =
     (if fmlookup (cfg_agents c) provider \<noteq> Some True then False
      else case fmlookup (cfg_categories c) provider of
        None \<Rightarrow> True
      | Some values \<Rightarrow> (case fmlookup values category of None \<Rightarrow> True | Some enabled \<Rightarrow> enabled))"

definition enableMissing :: "string \<Rightarrow> config \<Rightarrow> config" where
  "enableMissing agent c =
     (if fmlookup (cfg_agents c) agent = None then c\<lparr>cfg_agents := fmupd agent True (cfg_agents c)\<rparr> else c)"

text \<open>What \<open>Load\<close> does to the decoded settings.\<close>

definition migrateConfig :: "config \<Rightarrow> config" where
  "migrateConfig c =
     (let before = cfg_version c;
          c1 = (if before < 1 then (enableMissing ''vscode-copilot'' c)\<lparr>cfg_version := 1\<rparr> else c);
          c2 = (if cfg_version c1 < 4 then (enableMissing ''common'' c1)\<lparr>cfg_version := 4\<rparr> else c1)
      in if before < 4 then c2\<lparr>cfg_firstSync := \<lparr>fs_strategy = [], fs_completed = True\<rparr>\<rparr> else c2)"

definition validatePathMap :: "string \<Rightarrow> string \<Rightarrow> (string, string) fmap \<Rightarrow> config_error option" where
  "validatePathMap i field values =
     (if values = fmempty then Some (MissingPaths i field)
      else fold (\<lambda>k e. if e \<noteq> None then e
          else if trim_space k = [] then Some (EmptyPlatform i field)
          else case fmlookup values k of
            None \<Rightarrow> None
          | Some v \<Rightarrow> if trim_space v = [] then Some (EmptyPath i field k) else None) (fm_keys values) None)"

definition customDeclaration :: "custom_resource \<Rightarrow> resource_decl" where
  "customDeclaration item =
     Normalized \<lparr>decl_id = cu_id item, decl_category = cu_category item, decl_strategy = cu_strategy item,
       decl_layout = [], decl_transformer = (if cu_strategy item = StrategyStructuredMerge then ''generic-safe'' else []),
       decl_installer = [], decl_shared_as = []\<rparr>"

fun validateCustom :: "string list \<Rightarrow> custom_resource list \<Rightarrow> config_error option" where
  "validateCustom seen [] = None"
| "validateCustom seen (item # rest) =
     (if cu_strategy item = StrategyInstallManifest then Some (CustomInstallManifest (cu_id item))
      else case ValidateDeclaration ''custom'' (customDeclaration item) of Some e \<Rightarrow> Some (CustomDeclaration e) | None \<Rightarrow>
      if cu_id item \<in> set seen then Some (DuplicateCustom (cu_id item))
      else case validatePathMap (cu_id item) ''paths'' (cu_paths item) of Some e \<Rightarrow> Some e | None \<Rightarrow>
      case validatePathMap (cu_id item) ''targets'' (cu_targets item) of Some e \<Rightarrow> Some e | None \<Rightarrow>
      validateCustom (cu_id item # seen) rest)"

definition ValidateCustomResources :: "custom_resource list \<Rightarrow> config_error option" where
  "ValidateCustomResources = validateCustom []"

definition firstSyncStrategies :: "string list" where
  "firstSyncStrategies = [[], ''choose'', ''use-cloud'', ''merge-cloud-local'', ''use-local'']"

definition validateFirstSyncPolicy :: "first_sync \<Rightarrow> config_error option" where
  "validateFirstSyncPolicy p = (if fs_strategy p \<in> set firstSyncStrategies then None else Some (BadFirstSync (fs_strategy p)))"

text \<open>The settings \<open>Save\<close> encodes.\<close>

definition savedConfig :: "config \<Rightarrow> config_error + config" where
  "savedConfig c =
     (case ValidateCustomResources (cfg_custom c) of Some e \<Rightarrow> Inl e | None \<Rightarrow>
      case validateFirstSyncPolicy (cfg_firstSync c) of Some e \<Rightarrow> Inl e | None \<Rightarrow>
      let fs = cfg_firstSync c;
          c1 = (if fs_strategy fs = [] \<and> \<not> fs_completed fs then c\<lparr>cfg_firstSync := fs\<lparr>fs_completed := True\<rparr>\<rparr> else c)
      in Inr (c1\<lparr>cfg_version := 4\<rparr>))"

section \<open>Specifications\<close>

text \<open>\<open>normalizeResolvedPath\<close> turns the separators of the platform SyncHub runs on into slashes; the resolver's model
  already gives slashes, so it is the identity here.\<close>

definition defaultRepoDir :: "string \<Rightarrow> string" where
  "defaultRepoDir home = path_join [home, ''repo'']"

definition ResolveRepoDir :: "string \<Rightarrow> config \<Rightarrow> string \<Rightarrow> string \<Rightarrow> resolver_error + string" where
  "ResolveRepoDir home c goos userHome =
     (if trim_space (cfg_repoDir c) = [] then Inr (defaultRepoDir home)
      else case ExpandHomeToken (cfg_repoDir c) goos userHome of
        Inl e \<Rightarrow> Inl e
      | Inr expanded \<Rightarrow> ResolveFor expanded goos userHome)"

datatype build_error =
    BuildIdentifier path_error
  | BuildProvider provider_error
  | BuildPath resolver_error
  | SharedConflict string string string string
  | BuildLibrary library_error

definition appendUnique :: "string list \<Rightarrow> string list \<Rightarrow> string list" where
  "appendUnique vals additions = foldl (\<lambda>vs a. if a \<in> set vs then vs else vs @ [a]) vals additions"

text \<open>The path of a platform, if there is a usable one.\<close>

definition platformPath :: "string \<Rightarrow> (string, string) fmap \<Rightarrow> string option" where
  "platformPath goos paths =
     (case fmlookup paths goos of None \<Rightarrow> None | Some raw \<Rightarrow> if trim_space raw = [] then None else Some raw)"

definition declaredSpec :: "provider_def \<Rightarrow> declared \<Rightarrow> string \<Rightarrow> spec" where
  "declaredSpec p d root =
     (let x = dc_decl d in
      \<lparr>sp_key = pv_name p @ ''/'' @ decl_id x, sp_provider = pv_name p, sp_id = decl_id x, sp_category = decl_category x,
       sp_strategy = decl_strategy x, sp_layout = decl_layout x, sp_root = root, sp_targets = [root],
       sp_include = dc_include d, sp_exclude = dc_exclude d, sp_transformer = decl_transformer x,
       sp_installer = decl_installer x, sp_shared_as = decl_shared_as x, sp_key_patterns = pv_keyPatterns p,
       sp_reserved = [], sp_copy_only = False, sp_optional_root = False, sp_validate_root = None, sp_validate_content = None\<rparr>)"

definition shareSpec :: "provider_def \<Rightarrow> declared \<Rightarrow> string \<Rightarrow> (string, spec) fmap \<Rightarrow> build_error + (string, spec) fmap" where
  "shareSpec p d root specs =
     (let s = declaredSpec p d root; key = ''common/'' @ sp_shared_as s in
      case fmlookup specs key of
        None \<Rightarrow> Inr (fmupd key (s\<lparr>sp_key := key, sp_provider := ''common''\<rparr>) specs)
      | Some old \<Rightarrow>
          if sp_strategy old \<noteq> sp_strategy s then Inl (SharedConflict key ''strategy'' (sp_strategy old) (sp_strategy s))
          else if sp_transformer old \<noteq> sp_transformer s
          then Inl (SharedConflict key ''transformer'' (sp_transformer old) (sp_transformer s))
          else Inr (fmupd key (old\<lparr>sp_targets := appendUnique (sp_targets old) [root],
                 sp_key_patterns := appendUnique (sp_key_patterns old) (pv_keyPatterns p)\<rparr>) specs))"

definition addDeclared ::
  "config \<Rightarrow> string \<Rightarrow> string \<Rightarrow> provider_def \<Rightarrow> declared \<Rightarrow> (string, spec) fmap \<Rightarrow> build_error + (string, spec) fmap" where
  "addDeclared c goos userHome p d specs =
     (let x = dc_decl d in
      case ValidateIdentifier ''resource id'' (decl_id x) of Some e \<Rightarrow> Inl (BuildIdentifier e) | None \<Rightarrow>
      case ValidateOptionalIdentifier ''shared_as'' (decl_shared_as x) of Some e \<Rightarrow> Inl (BuildIdentifier e) | None \<Rightarrow>
      if \<not> CategoryEnabled c (pv_name p) (decl_category x) then Inr specs
      else case platformPath goos (dc_paths d) of None \<Rightarrow> Inr specs | Some raw \<Rightarrow>
      case ResolveFor raw goos userHome of Inl e \<Rightarrow> Inl (BuildPath e) | Inr root \<Rightarrow>
      if decl_shared_as x = [] then Inr (fmupd (pv_name p @ ''/'' @ decl_id x) (declaredSpec p d root) specs)
      else shareSpec p d root specs)"

definition addProviderSpecs ::
  "config \<Rightarrow> string \<Rightarrow> string \<Rightarrow> provider_def \<Rightarrow> (string, spec) fmap \<Rightarrow> build_error + (string, spec) fmap" where
  "addProviderSpecs c goos userHome p specs =
     (case ValidateIdentifier ''provider name'' (pv_name p) of Some e \<Rightarrow> Inl (BuildIdentifier e) | None \<Rightarrow>
      case Declarations p of Inl e \<Rightarrow> Inl (BuildProvider e) | Inr ds \<Rightarrow>
      fold_res (addDeclared c goos userHome p) ds specs)"

definition customTargets :: "string \<Rightarrow> string \<Rightarrow> custom_resource \<Rightarrow> build_error + string list" where
  "customTargets goos userHome item =
     (case platformPath goos (cu_targets item) of
        None \<Rightarrow> Inr []
      | Some raw \<Rightarrow> (case ResolveFor raw goos userHome of Inl e \<Rightarrow> Inl (BuildPath e) | Inr t \<Rightarrow> Inr [t]))"

definition customSpec :: "custom_resource \<Rightarrow> string \<Rightarrow> string list \<Rightarrow> spec" where
  "customSpec item root targets =
     \<lparr>sp_key = ''custom/'' @ cu_id item, sp_provider = ''custom'', sp_id = cu_id item, sp_category = cu_category item,
      sp_strategy = cu_strategy item, sp_layout = LayoutPortable, sp_root = root, sp_targets = targets,
      sp_include = cu_include item, sp_exclude = cu_exclude item,
      sp_transformer = (if cu_strategy item = StrategyStructuredMerge then ''generic-safe'' else []),
      sp_installer = [], sp_shared_as = [], sp_key_patterns = [], sp_reserved = [], sp_copy_only = False,
      sp_optional_root = False, sp_validate_root = None, sp_validate_content = None\<rparr>"

definition addCustom :: "string \<Rightarrow> string \<Rightarrow> custom_resource \<Rightarrow> (string, spec) fmap \<Rightarrow> build_error + (string, spec) fmap" where
  "addCustom goos userHome item specs =
     (case ValidateIdentifier ''resource id'' (cu_id item) of Some e \<Rightarrow> Inl (BuildIdentifier e) | None \<Rightarrow>
      case platformPath goos (cu_paths item) of None \<Rightarrow> Inr specs | Some raw \<Rightarrow>
      case ResolveFor raw goos userHome of Inl e \<Rightarrow> Inl (BuildPath e) | Inr root \<Rightarrow>
      case customTargets goos userHome item of Inl e \<Rightarrow> Inl e | Inr targets \<Rightarrow>
      Inr (fmupd (''custom/'' @ cu_id item) (customSpec item root targets) specs))"

text \<open>What the shared library contributes: its checks, the names of its skills, and whether it has instructions.\<close>

record library_view =
  lv_links :: "string \<Rightarrow> string option"
  lv_content :: "string \<Rightarrow> string \<Rightarrow> string option"
  lv_names :: "string list"
  lv_instructions :: bool

definition ProtectSpecs :: "library_view \<Rightarrow> string \<Rightarrow> (string, spec) fmap \<Rightarrow> library_error + (string, spec) fmap" where
  "ProtectSpecs lib userHome specs =
     protect userHome (lv_names lib) (lv_instructions lib) (configureSources (lv_links lib) (lv_content lib) specs)"

definition BuildResourceSpecs ::
  "config \<Rightarrow> provider_def list \<Rightarrow> string \<Rightarrow> string \<Rightarrow> library_view \<Rightarrow> build_error + (string, spec) fmap" where
  "BuildResourceSpecs c providers goos userHome lib =
     (case fold_res (addProviderSpecs c goos userHome) providers fmempty of Inl e \<Rightarrow> Inl e | Inr specs \<Rightarrow>
      case fold_res (addCustom goos userHome) (cfg_custom c) specs of Inl e \<Rightarrow> Inl e | Inr specs \<Rightarrow>
      map_sum BuildLibrary id (ProtectSpecs lib userHome specs))"

section \<open>What a specification comes from\<close>

text \<open>A declaration of a provider that the settings enable, or a resource of the user's own, with a path on this platform.\<close>

definition fromProvider :: "config \<Rightarrow> provider_def list \<Rightarrow> string \<Rightarrow> string \<Rightarrow> spec \<Rightarrow> bool" where
  "fromProvider c ps goos userHome s \<longleftrightarrow>
     (\<exists>p ds d raw. p \<in> set ps \<and> Declarations p = Inr ds \<and> d \<in> set ds \<and>
        CategoryEnabled c (pv_name p) (decl_category (dc_decl d)) \<and> platformPath goos (dc_paths d) = Some raw \<and>
        ResolveFor raw goos userHome = Inr (sp_root s) \<and> sp_id s = decl_id (dc_decl d) \<and>
        sp_category s = decl_category (dc_decl d) \<and> sp_strategy s = decl_strategy (dc_decl d))"

definition fromUser :: "config \<Rightarrow> string \<Rightarrow> string \<Rightarrow> spec \<Rightarrow> bool" where
  "fromUser c goos userHome s \<longleftrightarrow>
     (\<exists>item raw. item \<in> set (cfg_custom c) \<and> platformPath goos (cu_paths item) = Some raw \<and>
        ResolveFor raw goos userHome = Inr (sp_root s) \<and> sp_id s = cu_id item \<and> sp_provider s = ''custom'')"

definition wellNamed :: "string \<Rightarrow> spec \<Rightarrow> bool" where
  "wellNamed k s \<longleftrightarrow>
     sp_key s = k \<and> distinct (sp_targets s) \<and>
     ValidateIdentifier ''provider name'' (sp_provider s) = None \<and> ValidateIdentifier ''resource id'' (sp_id s) = None \<and>
     (if sp_shared_as s = [] then k = sp_provider s @ ''/'' @ sp_id s
      else k = ''common/'' @ sp_shared_as s \<and> sp_provider s = ''common'' \<and> ValidateIdentifier ''shared_as'' (sp_shared_as s) = None)"

definition builtFrom :: "config \<Rightarrow> provider_def list \<Rightarrow> string \<Rightarrow> string \<Rightarrow> (string, spec) fmap \<Rightarrow> bool" where
  "builtFrom c ps goos userHome specs \<longleftrightarrow>
     (\<forall>k s. fmlookup specs k = Some s \<longrightarrow>
        wellNamed k s \<and> (fromProvider c ps goos userHome s \<or> fromUser c goos userHome s))"

lemma appendUnique_distinct: "distinct vs \<Longrightarrow> distinct (appendUnique vs as)"
  unfolding appendUnique_def by (induction as arbitrary: vs) auto

lemma builtFrom_upd:
  assumes "builtFrom c ps goos userHome specs" "wellNamed k s" "fromProvider c ps goos userHome s \<or> fromUser c goos userHome s"
  shows "builtFrom c ps goos userHome (fmupd k s specs)"
  using assms by (simp add: builtFrom_def)

lemma ValidateIdentifier_kind: "ValidateIdentifier a v = None \<longleftrightarrow> ValidateIdentifier b v = None"
  by (simp add: ValidateIdentifier_None)

lemma common_identifier: "ValidateIdentifier kind ''common'' = None" "ValidateIdentifier kind ''custom'' = None"
  by (simp_all add: ValidateIdentifier_def, code_simp+)

lemma declaredSpec_simps [simp]:
  "sp_key (declaredSpec p d root) = pv_name p @ ''/'' @ decl_id (dc_decl d)"
  "sp_provider (declaredSpec p d root) = pv_name p" "sp_id (declaredSpec p d root) = decl_id (dc_decl d)"
  "sp_category (declaredSpec p d root) = decl_category (dc_decl d)" "sp_strategy (declaredSpec p d root) = decl_strategy (dc_decl d)"
  "sp_root (declaredSpec p d root) = root" "sp_targets (declaredSpec p d root) = [root]"
  "sp_shared_as (declaredSpec p d root) = decl_shared_as (dc_decl d)"
  by (simp_all add: declaredSpec_def Let_def)

lemma fromProvider_same:
  assumes "fromProvider c ps goos userHome s" "sp_root t = sp_root s" "sp_id t = sp_id s" "sp_category t = sp_category s"
    "sp_strategy t = sp_strategy s"
  shows "fromProvider c ps goos userHome t"
  using assms by (simp add: fromProvider_def)

lemma fromUser_same:
  assumes "fromUser c goos userHome s" "sp_root t = sp_root s" "sp_id t = sp_id s" "sp_provider t = sp_provider s"
  shows "fromUser c goos userHome t"
  using assms by (simp add: fromUser_def)

lemma built_addDeclared:
  assumes "builtFrom c ps goos userHome specs" "addDeclared c goos userHome p d specs = Inr specs'"
    and "p \<in> set ps" "Declarations p = Inr ds" "d \<in> set ds" "ValidateIdentifier ''provider name'' (pv_name p) = None"
  shows "builtFrom c ps goos userHome specs'"
proof (cases "specs' = specs")
  case False
  then obtain raw root where on: "CategoryEnabled c (pv_name p) (decl_category (dc_decl d))"
      "platformPath goos (dc_paths d) = Some raw" "ResolveFor raw goos userHome = Inr root"
      "ValidateIdentifier ''resource id'' (decl_id (dc_decl d)) = None"
      "ValidateOptionalIdentifier ''shared_as'' (decl_shared_as (dc_decl d)) = None"
    and out: "(if decl_shared_as (dc_decl d) = [] then Inr (fmupd (pv_name p @ ''/'' @ decl_id (dc_decl d)) (declaredSpec p d root) specs)
      else shareSpec p d root specs) = Inr specs'"
    using assms(2) by (auto simp: addDeclared_def Let_def split: option.splits sum.splits if_splits)
  have origin: "fromProvider c ps goos userHome (declaredSpec p d root)"
    unfolding fromProvider_def declaredSpec_simps using on assms(3-5) by blast
  show ?thesis
  proof (cases "decl_shared_as (dc_decl d) = []")
    case True
    then have "wellNamed (pv_name p @ ''/'' @ decl_id (dc_decl d)) (declaredSpec p d root)"
      using on assms(6) by (simp add: wellNamed_def)
    then show ?thesis using out origin True builtFrom_upd [OF assms(1)] by auto
  next
    case shared: False
    let ?key = "''common/'' @ decl_shared_as (dc_decl d)"
    show ?thesis
    proof (cases "fmlookup specs ?key")
      case None
      let ?s = "(declaredSpec p d root)\<lparr>sp_key := ?key, sp_provider := ''common''\<rparr>"
      have "wellNamed ?key ?s" using on shared common_identifier by (simp add: wellNamed_def ValidateOptionalIdentifier_def)
      moreover have "fromProvider c ps goos userHome ?s" by (rule fromProvider_same [OF origin]) simp_all
      ultimately show ?thesis using out shared None builtFrom_upd [OF assms(1), of ?key ?s]
        by (auto simp: shareSpec_def Let_def)
    next
      case (Some old)
      then have old: "wellNamed ?key old" "fromProvider c ps goos userHome old \<or> fromUser c goos userHome old"
        using assms(1) by (auto simp: builtFrom_def)
      obtain ts ks where specs': "specs' = fmupd ?key (old\<lparr>sp_targets := appendUnique (sp_targets old) ts, sp_key_patterns := ks\<rparr>) specs"
        using out shared Some by (auto simp: shareSpec_def Let_def split: if_splits)
      let ?s = "old\<lparr>sp_targets := appendUnique (sp_targets old) ts, sp_key_patterns := ks\<rparr>"
      have "wellNamed ?key ?s" using old(1) appendUnique_distinct by (simp add: wellNamed_def)
      moreover have "fromProvider c ps goos userHome ?s \<or> fromUser c goos userHome ?s"
        using old(2) fromProvider_same [of c ps goos userHome old ?s] fromUser_same [of c goos userHome old ?s] by auto
      ultimately show ?thesis unfolding specs' by (rule builtFrom_upd [OF assms(1)])
    qed
  qed
qed (use assms(1) in simp)

lemma built_addProvider:
  assumes "builtFrom c ps goos userHome specs" "addProviderSpecs c goos userHome p specs = Inr specs'" "p \<in> set ps"
  shows "builtFrom c ps goos userHome specs'"
proof -
  obtain ds where ds: "ValidateIdentifier ''provider name'' (pv_name p) = None" "Declarations p = Inr ds"
      "fold_res (addDeclared c goos userHome p) ds specs = Inr specs'"
    using assms(2) by (auto simp: addProviderSpecs_def split: option.splits sum.splits)
  show ?thesis
  proof (rule fold_res_invariant [where I = "builtFrom c ps goos userHome" and f = "addDeclared c goos userHome p" and xs = ds])
    show "builtFrom c ps goos userHome t" if "d \<in> set ds" "builtFrom c ps goos userHome s" "addDeclared c goos userHome p d s = Inr t"
      for d s t
      by (rule built_addDeclared [OF that(2,3) assms(3) ds(2) that(1) ds(1)])
  qed (rule assms(1), rule ds(3))
qed

lemma built_addCustom:
  assumes "builtFrom c ps goos userHome specs" "addCustom goos userHome item specs = Inr specs'" "item \<in> set (cfg_custom c)"
  shows "builtFrom c ps goos userHome specs'"
proof (cases "specs' = specs")
  case False
  then obtain raw root targets where on: "platformPath goos (cu_paths item) = Some raw" "ResolveFor raw goos userHome = Inr root"
      "ValidateIdentifier ''resource id'' (cu_id item) = None" "customTargets goos userHome item = Inr targets"
    and specs': "specs' = fmupd (''custom/'' @ cu_id item) (customSpec item root targets) specs"
    using assms(2) by (auto simp: addCustom_def split: option.splits sum.splits)
  have "distinct targets" using on(4) by (auto simp: customTargets_def split: option.splits sum.splits)
  then have "wellNamed (''custom/'' @ cu_id item) (customSpec item root targets)"
    using on(3) common_identifier by (simp add: wellNamed_def customSpec_def)
  moreover have "fromUser c goos userHome (customSpec item root targets)"
    using on(1,2) assms(3) by (auto simp: fromUser_def customSpec_def)
  ultimately show ?thesis unfolding specs' by (intro builtFrom_upd [OF assms(1)]) auto
qed (use assms(1) in simp)

text \<open>The shared library adds restrictions only.\<close>

definition sameResource :: "spec \<Rightarrow> spec \<Rightarrow> bool" where
  "sameResource s t \<longleftrightarrow>
     sp_key t = sp_key s \<and> sp_provider t = sp_provider s \<and> sp_id t = sp_id s \<and> sp_category t = sp_category s \<and>
     sp_strategy t = sp_strategy s \<and> sp_root t = sp_root s \<and> sp_targets t = sp_targets s \<and> sp_shared_as t = sp_shared_as s"

lemma sameResource_trans: "sameResource s t \<Longrightarrow> sameResource t u \<Longrightarrow> sameResource s u"
  by (simp add: sameResource_def)

lemma sameResource_reserve: "sameResource s (reserve root target s)"
  by (auto simp: reserve_def reserveAll_def sameResource_def Let_def split: option.split)

lemma sameResource_fold: "(\<And>x s. sameResource s (f x s)) \<Longrightarrow> sameResource s (fold f xs s)"
  by (induction xs arbitrary: s) (auto simp: sameResource_def)

lemma sameResource_protectSpec: "sameResource s (protectSpec targets s)"
proof -
  have "sameResource s (s\<lparr>sp_copy_only := True\<rparr>)" by (simp add: sameResource_def)
  moreover have "sameResource t (fold (\<lambda>root. fold (reserve root) targets) roots t)" for t roots
    by (intro sameResource_fold sameResource_reserve)
  moreover have "sameResource s s" by (simp add: sameResource_def)
  ultimately show ?thesis unfolding protectSpec_def Let_def
    by (auto intro: sameResource_trans simp del: fold.simps fold_simps)
qed

lemma builtFrom_same:
  assumes "builtFrom c ps goos userHome specs"
    and "\<And>k t. fmlookup specs' k = Some t \<Longrightarrow> \<exists>s. fmlookup specs k = Some s \<and> sameResource s t"
  shows "builtFrom c ps goos userHome specs'"
  unfolding builtFrom_def
proof (intro allI impI)
  fix k t assume "fmlookup specs' k = Some t"
  then obtain s where s: "fmlookup specs k = Some s" "sameResource s t" using assms(2) by blast
  then have "wellNamed k s" "fromProvider c ps goos userHome s \<or> fromUser c goos userHome s"
    using assms(1) by (auto simp: builtFrom_def)
  then show "wellNamed k t \<and> (fromProvider c ps goos userHome t \<or> fromUser c goos userHome t)"
    using s(2) fromProvider_same [of c ps goos userHome s t] fromUser_same [of c goos userHome s t]
    by (auto simp: wellNamed_def sameResource_def)
qed

lemma built_configureSources:
  assumes "builtFrom c ps goos userHome specs"
  shows "builtFrom c ps goos userHome (configureSources links content specs)"
proof -
  have "builtFrom c ps goos userHome (case fmlookup m k of None \<Rightarrow> m
      | Some s \<Rightarrow> fmupd k (s\<lparr>sp_optional_root := True, sp_copy_only := True, sp_validate_root := Some links,
          sp_validate_content := Some content\<rparr>) m)" if "builtFrom c ps goos userHome m" for m k
    by (rule builtFrom_same [OF that]) (auto simp: sameResource_def split: option.splits if_splits)
  then show ?thesis using assms by (simp add: configureSources_def)
qed

lemma built_ProtectSpecs:
  assumes "builtFrom c ps goos userHome specs" "ProtectSpecs lib userHome specs = Inr specs'"
  shows "builtFrom c ps goos userHome specs'"
proof -
  let ?m = "configureSources (lv_links lib) (lv_content lib) specs"
  have m: "builtFrom c ps goos userHome ?m" by (rule built_configureSources [OF assms(1)])
  have "specs' = ?m \<or> (\<exists>targets. specs' = fmmap (protectSpec targets) ?m)"
    using assms(2) by (auto simp: ProtectSpecs_def protect_def map_sum_def split: sum.splits if_splits)
  then show ?thesis
  proof
    assume "\<exists>targets. specs' = fmmap (protectSpec targets) ?m"
    then obtain targets where t: "specs' = fmmap (protectSpec targets) ?m" by blast
    show ?thesis unfolding t by (rule builtFrom_same [OF m]) (auto simp: sameResource_protectSpec)
  qed (use m in simp)
qed

section \<open>Properties\<close>

text \<open> C14. Every specification that is built stands for something the user has switched on: it comes from a declaration
  of a provider whose category the settings enable, or from one of the user's own resources, with exactly the path declared
  for this platform, resolved; it carries the key it is filed under, made of valid identifiers (the shared ones under the
  provider common only), and no target twice, and the protection of the shared library has changed none of this. \<close>

theorem specifications_are_switched_on:
  assumes "BuildResourceSpecs c providers goos userHome lib = Inr specs" and "fmlookup specs k = Some s"
  shows "wellNamed k s \<and> (fromProvider c providers goos userHome s \<or> fromUser c goos userHome s)"
proof -
  obtain m n where m: "fold_res (addProviderSpecs c goos userHome) providers fmempty = Inr m"
    and n: "fold_res (addCustom goos userHome) (cfg_custom c) m = Inr n" and last: "ProtectSpecs lib userHome n = Inr specs"
    using assms(1) by (auto simp: BuildResourceSpecs_def map_sum_def split: sum.splits)
  have "builtFrom c providers goos userHome fmempty" by (simp add: builtFrom_def)
  then have bm: "builtFrom c providers goos userHome m"
    by (intro fold_res_invariant [where I = "builtFrom c providers goos userHome" and
          f = "addProviderSpecs c goos userHome", OF _ _ m]) (auto intro: built_addProvider)
  have "builtFrom c providers goos userHome n"
    by (intro fold_res_invariant [where I = "builtFrom c providers goos userHome" and
          f = "addCustom goos userHome", OF _ bm n]) (auto intro: built_addCustom)
  from built_ProtectSpecs [OF this last] show ?thesis using assms(2) by (simp add: builtFrom_def)
qed

definition demo_settings :: config where
  "demo_settings = (DefaultConfig [''demo''])\<lparr>cfg_custom :=
     [\<lparr>cu_id = ''notes'', cu_category = ''instructions'', cu_paths = fmap_of_list [(''linux'', ''~/notes'')],
       cu_targets = fmap_of_list [(''linux'', ''~/copy'')], cu_include = [''*''], cu_exclude = [], cu_strategy = ''file-tree''\<rparr>],
     cfg_firstSync := \<lparr>fs_strategy = [], fs_completed = False\<rparr>\<rparr>"

definition demo_provider :: provider_def where
  "demo_provider = \<lparr>pv_schema = 2, pv_name = ''demo'', pv_config = \<lparr>pc_paths = fmempty, pc_include = [], pc_sessions = [], pc_exclude = []\<rparr>,
     pv_resources = [\<lparr>dc_decl = \<lparr>decl_id = ''rules'', decl_category = ''instructions'', decl_strategy = ''text-tree'', decl_layout = [],
         decl_transformer = [], decl_installer = [], decl_shared_as = []\<rparr>,
       dc_paths = fmap_of_list [(''linux'', ''~/.demo/rules'')], dc_include = [''*''], dc_exclude = []\<rparr>], pv_keyPatterns = []\<rparr>"

definition demo_library_view :: library_view where
  "demo_library_view = \<lparr>lv_links = (\<lambda>_. None), lv_content = (\<lambda>_ _. None), lv_names = [], lv_instructions = False\<rparr>"

lemma demo_specifications:
  "(case BuildResourceSpecs demo_settings [demo_provider] ''linux'' ''/h'' demo_library_view of
      Inl _ \<Rightarrow> [] | Inr specs \<Rightarrow> map (\<lambda>k. (k, map_option sp_root (fmlookup specs k))) [''demo/rules'', ''custom/notes'', ''demo/other'']) =
   [(''demo/rules'', Some ''/h/.demo/rules''), (''custom/notes'', Some ''/h/notes''), (''demo/other'', None)]"
  by code_simp

theorem specifications_are_switched_on_witness:
  "\<exists>specs s. BuildResourceSpecs demo_settings [demo_provider] ''linux'' ''/h'' demo_library_view = Inr specs \<and>
     fmlookup specs ''demo/rules'' = Some s \<and> sp_root s = ''/h/.demo/rules'' \<and> wellNamed ''demo/rules'' s \<and>
     (fromProvider demo_settings [demo_provider] ''linux'' ''/h'' s \<or> fromUser demo_settings ''linux'' ''/h'' s)"
proof -
  obtain specs where specs: "BuildResourceSpecs demo_settings [demo_provider] ''linux'' ''/h'' demo_library_view = Inr specs"
    using demo_specifications by (cases "BuildResourceSpecs demo_settings [demo_provider] ''linux'' ''/h'' demo_library_view") auto
  obtain s where s: "fmlookup specs ''demo/rules'' = Some s" "sp_root s = ''/h/.demo/rules''"
    using demo_specifications unfolding specs by auto
  show ?thesis using specs s specifications_are_switched_on [OF specs s(1)] by blast
qed

text \<open> C35. Saved settings load back: whatever the encoder of the settings file is, as long as decoding inverts it, loading
  what was saved gives the settings that were saved, with the current version and a decided first synchronization, and
  migrating settings of any age a second time changes nothing and never overrides a choice the user has made for an
  agent. \<close>

theorem saved_settings_load_back:
  assumes "\<And>x. decode (encode x) = Some x" and "savedConfig c = Inr d"
  shows "map_option migrateConfig (decode (encode d)) = Some (c\<lparr>cfg_version := 4,
      cfg_firstSync := (cfg_firstSync c)\<lparr>fs_completed := fs_completed (cfg_firstSync c) \<or> fs_strategy (cfg_firstSync c) = []\<rparr>\<rparr>) \<and>
    migrateConfig (migrateConfig old) = migrateConfig old \<and>
    (fmlookup (cfg_agents old) a = Some b \<longrightarrow> fmlookup (cfg_agents (migrateConfig old)) a = Some b)"
proof (intro conjI impI)
  show "map_option migrateConfig (decode (encode d)) = Some (c\<lparr>cfg_version := 4,
      cfg_firstSync := (cfg_firstSync c)\<lparr>fs_completed := fs_completed (cfg_firstSync c) \<or> fs_strategy (cfg_firstSync c) = []\<rparr>\<rparr>)"
    using assms by (auto simp: savedConfig_def migrateConfig_def Let_def split: option.splits if_splits)
  show "migrateConfig (migrateConfig old) = migrateConfig old"
    by (auto simp: migrateConfig_def Let_def enableMissing_def)
  show "fmlookup (cfg_agents (migrateConfig old)) a = Some b" if "fmlookup (cfg_agents old) a = Some b"
    using that by (auto simp: migrateConfig_def Let_def enableMissing_def)
qed

theorem saved_settings_load_back_witness:
  "\<exists>d. savedConfig demo_settings = Inr d \<and>
     map_option migrateConfig (Some d) = Some (demo_settings\<lparr>cfg_version := 4,
       cfg_firstSync := (cfg_firstSync demo_settings)\<lparr>fs_completed :=
         fs_completed (cfg_firstSync demo_settings) \<or> fs_strategy (cfg_firstSync demo_settings) = []\<rparr>\<rparr>)"
proof -
  have "case savedConfig demo_settings of Inl _ \<Rightarrow> False | Inr _ \<Rightarrow> True" by code_simp
  then obtain d where d: "savedConfig demo_settings = Inr d" by (auto split: sum.splits)
  have dec: "Some (id x) = Some x" for x :: config by simp
  show ?thesis using d saved_settings_load_back [where encode = id and decode = Some, OF dec d] by auto
qed

end
