(* ===== verification/Scheduler_Machine.thy ===== *)
theory Scheduler_Machine
  imports Go_Prelude
begin

text \<open>
  The scheduler of \<open>internal/scheduler\<close> as a state machine.  A step is one critical section of the
  mutex, one channel operation or one timer operation; the methods that clients call concurrently
  (Pause, PauseIfIdle, Resume, SetInterval) run their critical section in one step and leave the rest
  (setState, notifyIntervalChange) in a bag of continuations that any later step may run, so every
  interleaving is a sequence of steps.  \<open>Run\<close> is a program counter.  Time is a counter that never
  goes back and is positive, so 0 is Go's zero time; the two channels have capacity one.
\<close>

datatype visible = StateIdle | StateUpdating | StateDone | StateError | StatePaused

datatype pc =
    Stopped
  | NewTimer int
  | CheckNext
  | StopNew
  | Loop
  | TimerFired int
  | ResetTimer
  | Cycle
  | JobStarted
  | JobRunning
  | BeforeTerminal bool
  | Rearm bool
  | TimerReset int bool
  | CheckPaused bool
  | Terminal bool
  | ClearJob
  | ExitCancel
  | ExitEnd

datatype continuation = ThenState visible | ThenNotify

record sched =
  sc_interval :: int
  sc_paused :: bool
  sc_state :: visible
  sc_nextRun :: int
  sc_running :: bool
  sc_jobRunning :: bool
  sc_cancelled :: bool
  sc_nextSubID :: nat
  sc_subscribers :: "nat list"
  sc_trigger :: bool
  sc_intervalChange :: bool
  sc_timer :: "int option"
  sc_now :: int
  sc_ctxDone :: bool
  sc_pc :: pc
  sc_pending :: "continuation list"
  sc_quiesced :: bool

text \<open>
  \<open>sc_quiesced\<close> is not in the code: it is set when PauseIfIdle returns true and reset by Resume,
  and lets the properties speak of the time between the two.
\<close>

definition default_interval :: int where
  "default_interval = 600000000000"

definition NewScheduler :: "int \<Rightarrow> int \<Rightarrow> sched" where
  "NewScheduler interval now =
     \<lparr>sc_interval = (if interval \<le> 0 then default_interval else interval), sc_paused = False,
      sc_state = StateIdle, sc_nextRun = 0, sc_running = False, sc_jobRunning = False,
      sc_cancelled = False, sc_nextSubID = 0, sc_subscribers = [], sc_trigger = False,
      sc_intervalChange = False, sc_timer = None, sc_now = now, sc_ctxDone = False,
      sc_pc = Stopped, sc_pending = [], sc_quiesced = False\<rparr>"

section \<open>Critical sections\<close>

definition active :: "sched \<Rightarrow> bool" where
  "active s \<longleftrightarrow> sc_running s \<and> \<not> sc_paused s \<and> \<not> sc_cancelled s"

definition SetInterval :: "int \<Rightarrow> sched \<Rightarrow> sched" where
  "SetInterval i s =
     (let i' = (if i \<le> 0 then default_interval else i)
      in s\<lparr>sc_interval := i', sc_nextRun := (if active s then sc_now s + i' else sc_nextRun s),
           sc_pending := ThenNotify # sc_pending s\<rparr>)"

definition Subscribe :: "sched \<Rightarrow> sched" where
  "Subscribe s = s\<lparr>sc_nextSubID := Suc (sc_nextSubID s), sc_subscribers := sc_nextSubID s # sc_subscribers s\<rparr>"

definition Unsubscribe :: "nat \<Rightarrow> sched \<Rightarrow> sched" where
  "Unsubscribe i s = s\<lparr>sc_subscribers := removeAll i (sc_subscribers s)\<rparr>"

definition Trigger :: "sched \<Rightarrow> sched" where
  "Trigger s = (if sc_running s \<and> sc_cancelled s then s else s\<lparr>sc_trigger := True\<rparr>)"

definition Pause :: "sched \<Rightarrow> sched" where
  "Pause s = s\<lparr>sc_paused := True, sc_nextRun := 0, sc_pending := ThenState StatePaused # sc_pending s\<rparr>"

definition PauseIfIdle :: "sched \<Rightarrow> sched \<times> bool" where
  "PauseIfIdle s = (if sc_jobRunning s then (s, False) else ((Pause s)\<lparr>sc_quiesced := True\<rparr>, True))"

definition Resume :: "sched \<Rightarrow> sched" where
  "Resume s =
     s\<lparr>sc_paused := False,
       sc_nextRun := (if sc_running s \<and> \<not> sc_cancelled s then sc_now s + sc_interval s else sc_nextRun s),
       sc_pending := ThenState StateIdle # sc_pending s, sc_quiesced := False\<rparr>"

definition beginRun :: "bool \<Rightarrow> sched \<Rightarrow> sched" where
  "beginRun done s =
     (if sc_running s then s
      else s\<lparr>sc_running := True, sc_cancelled := False,
             sc_nextRun := (if sc_paused s then 0 else sc_now s + sc_interval s),
             sc_ctxDone := done, sc_pc := NewTimer (sc_interval s)\<rparr>)"

definition cancelRun :: "sched \<Rightarrow> sched" where
  "cancelRun s =
     (if sc_running s then s\<lparr>sc_cancelled := True, sc_nextRun := 0, sc_trigger := False\<rparr> else s)"

definition endRun :: "sched \<Rightarrow> sched" where
  "endRun s = s\<lparr>sc_running := False, sc_cancelled := False, sc_nextRun := 0, sc_timer := None, sc_pc := Stopped\<rparr>"

definition resetTimer :: "sched \<Rightarrow> sched" where
  "resetTimer s =
     (if \<not> active s \<or> sc_nextRun s = 0 then s\<lparr>sc_timer := None\<rparr>
      else s\<lparr>sc_timer := Some (sc_now s + max 0 (sc_nextRun s - sc_now s))\<rparr>)"

definition timerEventCurrent :: "int \<Rightarrow> sched \<Rightarrow> bool" where
  "timerEventCurrent firedAt s \<longleftrightarrow> active s \<and> sc_nextRun s \<noteq> 0 \<and> sc_nextRun s \<le> firedAt"

definition rearmAfterCycle :: "bool \<Rightarrow> sched \<Rightarrow> sched" where
  "rearmAfterCycle err s =
     (if \<not> active s then s\<lparr>sc_nextRun := 0, sc_pc := ClearJob\<rparr>
      else s\<lparr>sc_nextRun := sc_now s + sc_interval s, sc_pc := TimerReset (sc_interval s) err\<rparr>)"

definition runContinuation :: "nat \<Rightarrow> sched \<Rightarrow> sched option" where
  "runContinuation k s =
     (if k < length (sc_pending s)
      then (case sc_pending s ! k of
              ThenState v \<Rightarrow> Some (s\<lparr>sc_state := v, sc_pending := (sc_pending s)[k := ThenNotify]\<rparr>)
            | ThenNotify \<Rightarrow>
                Some (s\<lparr>sc_intervalChange := True,
                        sc_pending := take k (sc_pending s) @ drop (Suc k) (sc_pending s)\<rparr>))
      else None)"

section \<open>The run loop\<close>

text \<open>What the loop's own goroutine does next, apart from the choice of a select branch.\<close>

definition advance :: "sched \<Rightarrow> sched option" where
  "advance s =
     (case sc_pc s of
        NewTimer i \<Rightarrow> Some (s\<lparr>sc_timer := Some (sc_now s + i), sc_pc := CheckNext\<rparr>)
      | CheckNext \<Rightarrow> Some (s\<lparr>sc_pc := (if sc_nextRun s = 0 then StopNew else Loop)\<rparr>)
      | StopNew \<Rightarrow> Some (s\<lparr>sc_timer := None, sc_pc := Loop\<rparr>)
      | TimerFired t \<Rightarrow>
          Some (if sc_ctxDone s then s\<lparr>sc_pc := ExitCancel\<rparr>
                else if timerEventCurrent t s then s\<lparr>sc_timer := None, sc_pc := Cycle\<rparr>
                else s\<lparr>sc_pc := ResetTimer\<rparr>)
      | ResetTimer \<Rightarrow> Some ((resetTimer s)\<lparr>sc_pc := Loop\<rparr>)
      | Cycle \<Rightarrow> Some (if sc_paused s then s\<lparr>sc_pc := Loop\<rparr> else s\<lparr>sc_jobRunning := True, sc_pc := JobStarted\<rparr>)
      | JobStarted \<Rightarrow> Some (s\<lparr>sc_state := StateUpdating, sc_pc := JobRunning\<rparr>)
      | BeforeTerminal err \<Rightarrow>
          Some (if sc_ctxDone s then (cancelRun s)\<lparr>sc_pc := ClearJob\<rparr> else s\<lparr>sc_pc := Rearm err\<rparr>)
      | Rearm err \<Rightarrow> Some (rearmAfterCycle err s)
      | TimerReset i err \<Rightarrow> Some (s\<lparr>sc_timer := Some (sc_now s + i), sc_pc := CheckPaused err\<rparr>)
      | CheckPaused err \<Rightarrow> Some (s\<lparr>sc_pc := (if sc_paused s then ClearJob else Terminal err)\<rparr>)
      | Terminal err \<Rightarrow> Some (s\<lparr>sc_state := (if err then StateError else StateDone), sc_pc := ClearJob\<rparr>)
      | ClearJob \<Rightarrow> Some (s\<lparr>sc_jobRunning := False, sc_pc := Loop\<rparr>)
      | ExitCancel \<Rightarrow> Some ((if sc_ctxDone s then cancelRun s else s)\<lparr>sc_pc := ExitEnd\<rparr>)
      | ExitEnd \<Rightarrow> Some (endRun s)
      | _ \<Rightarrow> None)"

datatype event =
    Pass nat
  | CallSetInterval int
  | CallSubscribe
  | CallUnsubscribe nat
  | CallTrigger
  | CallPause
  | CallPauseIfIdle
  | CallResume
  | Continue nat
  | CallRun bool
  | CancelContext
  | Watcher
  | SelectDone
  | SelectInterval
  | SelectTimer int
  | SelectTrigger
  | JobReturns bool
  | Advance

fun watching :: "pc \<Rightarrow> bool" where
  "watching Loop \<longleftrightarrow> True"
| "watching (TimerFired _) \<longleftrightarrow> True"
| "watching ResetTimer \<longleftrightarrow> True"
| "watching Cycle \<longleftrightarrow> True"
| "watching JobStarted \<longleftrightarrow> True"
| "watching JobRunning \<longleftrightarrow> True"
| "watching (BeforeTerminal _) \<longleftrightarrow> True"
| "watching (Rearm _) \<longleftrightarrow> True"
| "watching (TimerReset _ _) \<longleftrightarrow> True"
| "watching (CheckPaused _) \<longleftrightarrow> True"
| "watching (Terminal _) \<longleftrightarrow> True"
| "watching ClearJob \<longleftrightarrow> True"
| "watching ExitCancel \<longleftrightarrow> True"
| "watching _ \<longleftrightarrow> False"

fun sched_step :: "event \<Rightarrow> sched \<Rightarrow> sched option" where
  "sched_step (Pass n) s = Some (s\<lparr>sc_now := sc_now s + int n\<rparr>)"
| "sched_step (CallSetInterval i) s = Some (SetInterval i s)"
| "sched_step CallSubscribe s = Some (Subscribe s)"
| "sched_step (CallUnsubscribe i) s = Some (Unsubscribe i s)"
| "sched_step CallTrigger s = Some (Trigger s)"
| "sched_step CallPause s = Some (Pause s)"
| "sched_step CallPauseIfIdle s = Some (fst (PauseIfIdle s))"
| "sched_step CallResume s = Some (Resume s)"
| "sched_step (Continue k) s = runContinuation k s"
| "sched_step (CallRun done) s = Some (beginRun done s)"
| "sched_step CancelContext s = (if sc_pc s = Stopped then None else Some (s\<lparr>sc_ctxDone := True\<rparr>))"
| "sched_step Watcher s = (if sc_ctxDone s \<and> watching (sc_pc s) then Some (cancelRun s) else None)"
| "sched_step SelectDone s =
     (if sc_pc s = Loop \<and> sc_ctxDone s then Some (s\<lparr>sc_pc := ExitCancel\<rparr>) else None)"
| "sched_step SelectInterval s =
     (if sc_pc s = Loop \<and> sc_intervalChange s
      then Some (s\<lparr>sc_intervalChange := False, sc_pc := (if sc_ctxDone s then ExitCancel else ResetTimer)\<rparr>) else None)"
| "sched_step (SelectTimer t) s =
     (case sc_timer s of
        Some deadline \<Rightarrow>
          if sc_pc s = Loop \<and> deadline \<le> t \<and> t \<le> sc_now s
          then Some (s\<lparr>sc_timer := None, sc_pc := TimerFired t\<rparr>) else None
      | None \<Rightarrow> None)"
| "sched_step SelectTrigger s =
     (if sc_pc s = Loop \<and> sc_trigger s
      then Some (if sc_ctxDone s then s\<lparr>sc_trigger := False, sc_pc := ExitCancel\<rparr>
                 else s\<lparr>sc_trigger := False, sc_timer := None, sc_pc := Cycle\<rparr>) else None)"
| "sched_step (JobReturns err) s =
     (if sc_pc s = JobRunning then Some (s\<lparr>sc_pc := BeforeTerminal err\<rparr>) else None)"
| "sched_step Advance s = advance s"

fun sched_run :: "event list \<Rightarrow> sched \<Rightarrow> sched option" where
  "sched_run [] s = Some s"
| "sched_run (e # es) s = (case sched_step e s of None \<Rightarrow> None | Some s' \<Rightarrow> sched_run es s')"

inductive reachable :: "int \<Rightarrow> int \<Rightarrow> sched \<Rightarrow> bool" for i t where
  start: "reachable i t (NewScheduler i t)"
| step: "reachable i t s \<Longrightarrow> sched_step e s = Some s' \<Longrightarrow> reachable i t s'"

inductive_cases reachable_cases: "reachable i t s"

lemma sched_run_reachable: "reachable i t s \<Longrightarrow> sched_run es s = Some s' \<Longrightarrow> reachable i t s'"
proof (induction es arbitrary: s)
  case Nil
  then show ?case by simp
next
  case (Cons e es)
  then show ?case by (auto split: option.splits intro: reachable.step)
qed

section \<open>Invariants\<close>

text \<open>The pcs from which the loop goes back to its select without arming the timer itself.\<close>

fun resting :: "pc \<Rightarrow> bool" where
  "resting CheckNext \<longleftrightarrow> True"
| "resting StopNew \<longleftrightarrow> True"
| "resting Loop \<longleftrightarrow> True"
| "resting (CheckPaused _) \<longleftrightarrow> True"
| "resting (Terminal _) \<longleftrightarrow> True"
| "resting ClearJob \<longleftrightarrow> True"
| "resting _ \<longleftrightarrow> False"

fun in_job :: "pc \<Rightarrow> bool" where
  "in_job JobStarted \<longleftrightarrow> True"
| "in_job JobRunning \<longleftrightarrow> True"
| "in_job (BeforeTerminal _) \<longleftrightarrow> True"
| "in_job (Rearm _) \<longleftrightarrow> True"
| "in_job (TimerReset _ _) \<longleftrightarrow> True"
| "in_job (CheckPaused _) \<longleftrightarrow> True"
| "in_job (Terminal _) \<longleftrightarrow> True"
| "in_job ClearJob \<longleftrightarrow> True"
| "in_job _ \<longleftrightarrow> False"

definition clock_inv :: "sched \<Rightarrow> bool" where
  "clock_inv s \<longleftrightarrow> 0 < sc_now s \<and> 0 < sc_interval s"

definition next_inv :: "sched \<Rightarrow> bool" where
  "next_inv s \<longleftrightarrow> (sc_nextRun s \<noteq> 0 \<longleftrightarrow> active s) \<and> 0 \<le> sc_nextRun s \<and>
     (sc_running s \<longleftrightarrow> sc_pc s \<noteq> Stopped) \<and> (sc_cancelled s \<longrightarrow> sc_running s)"

definition job_inv :: "sched \<Rightarrow> bool" where
  "job_inv s \<longleftrightarrow> (sc_jobRunning s \<longleftrightarrow> in_job (sc_pc s)) \<and>
     (sc_quiesced s \<longrightarrow> sc_paused s \<and> \<not> sc_jobRunning s)"

text \<open>A schedule in force is never forgotten: the timer is armed or a wake-up is on its way.\<close>

definition wake_inv :: "sched \<Rightarrow> bool" where
  "wake_inv s \<longleftrightarrow>
     (resting (sc_pc s) \<and> sc_pc s \<noteq> StopNew \<and> active s \<longrightarrow>
        sc_timer s \<noteq> None \<or> sc_intervalChange s \<or> sc_pending s \<noteq> []) \<and>
     (sc_pc s = StopNew \<and> active s \<longrightarrow> sc_intervalChange s \<or> sc_pending s \<noteq> [])"

lemmas sched_ops = SetInterval_def Subscribe_def Unsubscribe_def Trigger_def Pause_def PauseIfIdle_def
  Resume_def beginRun_def cancelRun_def endRun_def resetTimer_def rearmAfterCycle_def runContinuation_def
  active_def Let_def

text \<open>\<open>stays I r\<close>: the invariant holds after the step, if the step is enabled.\<close>

definition stays :: "(sched \<Rightarrow> bool) \<Rightarrow> sched option \<Rightarrow> bool" where
  "stays I r \<longleftrightarrow> (case r of None \<Rightarrow> True | Some s' \<Rightarrow> I s')"

lemma stays_simps [simp]:
  "stays I None" "stays I (Some s) = I s"
  "stays I (if b then x else y) = ((b \<longrightarrow> stays I x) \<and> (\<not> b \<longrightarrow> stays I y))"
  by (simp_all add: stays_def)

lemma staysD: "stays I (sched_step e s) \<Longrightarrow> sched_step e s = Some s' \<Longrightarrow> I s'"
  by (simp add: stays_def)

lemma clock_inv_step: "clock_inv s \<Longrightarrow> stays clock_inv (sched_step e s)"
proof (induct e)
  case Advance
  then show ?case by (cases "sc_pc s"; simp add: clock_inv_def sched_ops advance_def; auto?)
next
  case (Continue k)
  then show ?case
    by (cases "sc_pending s ! k"; simp add: clock_inv_def runContinuation_def active_def; auto?)
next
  case (SelectTimer t)
  then show ?case by (cases "sc_timer s"; simp add: clock_inv_def active_def; auto?)
qed (simp_all add: clock_inv_def sched_ops default_interval_def, auto?)

lemma next_inv_step: "clock_inv s \<Longrightarrow> next_inv s \<Longrightarrow> stays next_inv (sched_step e s)"
proof (induct e)
  case Advance
  then show ?case by (cases "sc_pc s"; simp add: next_inv_def clock_inv_def sched_ops advance_def; auto?)
next
  case (Continue k)
  then show ?case
    by (cases "sc_pending s ! k"; simp add: next_inv_def clock_inv_def runContinuation_def active_def; auto?)
next
  case (SelectTimer t)
  then show ?case by (cases "sc_timer s"; simp add: next_inv_def clock_inv_def active_def; auto?)
qed (simp_all add: next_inv_def clock_inv_def sched_ops default_interval_def, auto?)

lemma job_inv_step: "next_inv s \<Longrightarrow> job_inv s \<Longrightarrow> stays job_inv (sched_step e s)"
proof (induct e)
  case Advance
  then show ?case by (cases "sc_pc s"; simp add: next_inv_def job_inv_def sched_ops advance_def; auto?)
next
  case (Continue k)
  then show ?case
    by (cases "sc_pending s ! k"; simp add: next_inv_def job_inv_def runContinuation_def active_def; auto?)
next
  case (SelectTimer t)
  then show ?case by (cases "sc_timer s"; simp add: next_inv_def job_inv_def active_def; auto?)
qed (simp_all add: next_inv_def job_inv_def sched_ops default_interval_def, auto?)

lemma wake_inv_step: "clock_inv s \<Longrightarrow> next_inv s \<Longrightarrow> wake_inv s \<Longrightarrow> stays wake_inv (sched_step e s)"
proof (induct e)
  case Advance
  then show ?case by (cases "sc_pc s"; simp add: wake_inv_def next_inv_def clock_inv_def sched_ops advance_def; auto?)
next
  case (Continue k)
  then show ?case
    by (cases "sc_pending s ! k"; simp add: wake_inv_def next_inv_def clock_inv_def runContinuation_def active_def; auto?)
next
  case (SelectTimer t)
  then show ?case by (cases "sc_timer s"; simp add: wake_inv_def next_inv_def clock_inv_def active_def; auto?)
qed (simp_all add: wake_inv_def next_inv_def clock_inv_def sched_ops default_interval_def, auto?)

lemma reachable_inv:
  assumes "reachable i t s" "0 < t"
  shows "clock_inv s \<and> next_inv s \<and> job_inv s \<and> wake_inv s"
  using assms(1)
proof induction
  case start
  then show ?case using assms(2)
    by (auto simp: NewScheduler_def clock_inv_def next_inv_def job_inv_def wake_inv_def active_def
        default_interval_def)
next
  case (step s e s')
  then show ?case using staysD clock_inv_step next_inv_step job_inv_step wake_inv_step by metis
qed

definition fired_inv :: "sched \<Rightarrow> bool" where
  "fired_inv s \<longleftrightarrow> (\<forall>t. sc_pc s = TimerFired t \<longrightarrow> t \<le> sc_now s)"

lemma fired_inv_step: "fired_inv s \<Longrightarrow> stays fired_inv (sched_step e s)"
proof (induct e)
  case Advance
  then show ?case by (cases "sc_pc s"; simp add: fired_inv_def sched_ops advance_def)
next
  case (Continue k)
  then show ?case by (cases "sc_pending s ! k"; simp add: fired_inv_def runContinuation_def)
next
  case (SelectTimer t)
  then show ?case by (cases "sc_timer s"; simp add: fired_inv_def)
qed (simp_all add: fired_inv_def sched_ops, auto?)

lemma reachable_fired: "reachable i t s \<Longrightarrow> fired_inv s"
  by (induction rule: reachable.induct)
    (simp add: NewScheduler_def fired_inv_def, use staysD fired_inv_step in blast)

text \<open>Nothing but Resume ends a quiescence.\<close>

lemma quiesced_step: "sc_quiesced s \<Longrightarrow> e \<noteq> CallResume \<Longrightarrow> stays sc_quiesced (sched_step e s)"
proof (induct e)
  case Advance
  then show ?case by (cases "sc_pc s"; simp add: sched_ops advance_def)
next
  case (Continue k)
  then show ?case by (cases "sc_pending s ! k"; simp add: runContinuation_def)
next
  case (SelectTimer t)
  then show ?case by (cases "sc_timer s"; simp)
qed (simp_all add: sched_ops)

lemma quiesced_run: "sched_run es s = Some s' \<Longrightarrow> sc_quiesced s \<Longrightarrow> CallResume \<notin> set es \<Longrightarrow> sc_quiesced s'"
proof (induction es arbitrary: s)
  case (Cons e es)
  then obtain s1 where s1: "sched_step e s = Some s1" "sched_run es s1 = Some s'" by (auto split: option.splits)
  have "e \<noteq> CallResume" "CallResume \<notin> set es" using Cons.prems(3) by auto
  then have "sc_quiesced s1" using staysD [OF quiesced_step s1(1)] Cons.prems(2) by simp
  with Cons.IH [OF s1(2)] \<open>CallResume \<notin> set es\<close> show ?case by simp
qed simp

section \<open>Concrete runs\<close>

definition demo_events :: "event list" where
  "demo_events = [CallRun False, Advance, Advance, CallTrigger, SelectTrigger, Advance, Advance]"

definition demo_start :: sched where
  "demo_start = NewScheduler 60 1"

lemma reachable_demo: "sched_run es demo_start = Some s \<Longrightarrow> reachable 60 1 s"
  using sched_run_reachable [OF reachable.start] unfolding demo_start_def .

section \<open>Properties\<close>

text \<open>NextRun is non-zero exactly while the loop runs, is not paused and has not been cancelled,
  in every reachable state and for every interleaving of the calls.\<close>

lemma next_run_iff_active:
  assumes "reachable i t s" and "0 < t"
  shows "sc_nextRun s \<noteq> 0 \<longleftrightarrow> sc_running s \<and> \<not> sc_paused s \<and> \<not> sc_cancelled s"
  using reachable_inv [OF assms] by (simp add: next_inv_def active_def)

lemma next_run_iff_active_witness:
  "\<exists>s. sched_run demo_events demo_start = Some s \<and> sc_nextRun s = 61 \<and> sc_running s"
proof -
  have "(case sched_run demo_events demo_start of Some s \<Rightarrow> sc_nextRun s = 61 | None \<Rightarrow> False)" by code_simp
  then obtain s where s: "sched_run demo_events demo_start = Some s" "sc_nextRun s = 61"
    by (auto split: option.splits)
  from next_run_iff_active [OF reachable_demo [OF s(1)]] s show ?thesis by auto
qed

text \<open> C26. PauseIfIdle refuses exactly while a job is in progress; once it has returned true, no job
  is in progress and none starts, whatever else is called, until Resume. \<close>

theorem pause_if_idle_excludes_jobs:
  assumes "reachable i t s" and "0 < t" and "PauseIfIdle s = (s1, ok)"
  shows "(ok \<longleftrightarrow> \<not> in_job (sc_pc s)) \<and>
    (\<forall>es s2. ok \<and> CallResume \<notin> set es \<and> sched_run es s1 = Some s2 \<longrightarrow> \<not> in_job (sc_pc s2) \<and> \<not> sc_jobRunning s2)"
proof -
  have J: "job_inv s" using reachable_inv [OF assms(1,2)] by simp
  have s1: "s1 = fst (PauseIfIdle s)" using assms(3) by simp
  have r1: "reachable i t s1"
    by (rule reachable.step [OF assms(1), of CallPauseIfIdle]) (simp add: s1)
  have "\<not> in_job (sc_pc s2) \<and> \<not> sc_jobRunning s2"
    if ok: "ok" and es: "CallResume \<notin> set es" and run: "sched_run es s1 = Some s2" for es s2
  proof -
    have "sc_quiesced s1" using assms(3) ok by (auto simp: PauseIfIdle_def split: if_splits)
    from quiesced_run [OF run this es] reachable_inv [OF sched_run_reachable [OF r1 run] assms(2)]
    show ?thesis by (auto simp: job_inv_def)
  qed
  moreover have "ok \<longleftrightarrow> \<not> in_job (sc_pc s)"
    using assms(3) J by (auto simp: PauseIfIdle_def job_inv_def split: if_splits)
  ultimately show ?thesis by blast
qed

lemma pause_if_idle_excludes_jobs_witness:
  "\<exists>s2. sched_run [CallRun False, Advance, Advance, Advance, CallTrigger, SelectTrigger, Advance]
       (fst (PauseIfIdle demo_start)) = Some s2 \<and> \<not> in_job (sc_pc s2)"
proof -
  let ?es = "[CallRun False, Advance, Advance, Advance, CallTrigger, SelectTrigger, Advance]"
  have p: "PauseIfIdle demo_start = (fst (PauseIfIdle demo_start), True)"
    by (simp add: PauseIfIdle_def demo_start_def NewScheduler_def)
  have r: "reachable 60 1 demo_start" unfolding demo_start_def by (rule reachable.start)
  have "sched_run ?es (fst (PauseIfIdle demo_start)) \<noteq> None" by code_simp
  then obtain s2 where s2: "sched_run ?es (fst (PauseIfIdle demo_start)) = Some s2" by blast
  have "CallResume \<notin> set ?es" by simp
  moreover have "0 < (1::int)" by simp
  ultimately have "\<not> in_job (sc_pc s2)"
    using pause_if_idle_excludes_jobs [OF r _ p, THEN conjunct2, rule_format, of ?es s2] s2 by blast
  with s2 show ?thesis by blast
qed

text \<open>The schedule is never lost: whenever the loop waits and the scheduler is running, neither paused
  nor cancelled, the timer is armed, or an interval-change signal is queued, or a caller is about to
  queue one.\<close>

lemma schedule_is_never_lost:
  assumes "reachable i t s" and "0 < t" and "sc_pc s = Loop" and "active s"
  shows "sc_timer s \<noteq> None \<or> sc_intervalChange s \<or> sc_pending s \<noteq> []"
  using reachable_inv [OF assms(1,2)] assms(3,4) by (simp add: wake_inv_def)

lemma schedule_is_never_lost_witness:
  "\<exists>s. sched_run [CallPause, CallRun False, Advance, Advance, Advance, Continue 0, Continue 0, SelectInterval, Advance, CallResume] demo_start = Some s \<and>
     sc_timer s = None \<and> sc_pending s \<noteq> []"
proof -
  let ?es = "[CallPause, CallRun False, Advance, Advance, Advance, Continue 0, Continue 0, SelectInterval, Advance, CallResume]"
  have "(case sched_run ?es demo_start of
      Some s \<Rightarrow> sc_pc s = Loop \<and> sc_running s \<and> \<not> sc_paused s \<and> \<not> sc_cancelled s \<and> sc_timer s = None \<and> \<not> sc_intervalChange s
    | None \<Rightarrow> False)" by code_simp
  then obtain s where s: "sched_run ?es demo_start = Some s" "sc_pc s = Loop" "active s" "sc_timer s = None"
      "\<not> sc_intervalChange s"
    by (auto split: option.splits simp: active_def)
  from schedule_is_never_lost [OF reachable_demo [OF s(1)] _ s(2,3)] s show ?thesis by auto
qed

text \<open>A job starts only in a step of the loop that finds the scheduler not paused, and a timer event
  leads to a cycle only when the scheduled time has been reached: cycles never run early.\<close>

lemma job_starts_only_when_due:
  assumes "reachable i t s" and "sched_step e s = Some s'"
  shows "(\<not> in_job (sc_pc s) \<and> in_job (sc_pc s') \<longrightarrow> e = Advance \<and> sc_pc s = Cycle \<and> \<not> sc_paused s) \<and>
    (\<forall>f. sc_pc s = TimerFired f \<and> sc_pc s' = Cycle \<longrightarrow> active s \<and> 0 \<noteq> sc_nextRun s \<and> sc_nextRun s \<le> f \<and> f \<le> sc_now s)"
proof -
  have f: "fired_inv s" by (rule reachable_fired [OF assms(1)])
  have "stays (\<lambda>s'. (\<not> in_job (sc_pc s) \<and> in_job (sc_pc s') \<longrightarrow> e = Advance \<and> sc_pc s = Cycle \<and> \<not> sc_paused s) \<and>
    (\<forall>f. sc_pc s = TimerFired f \<and> sc_pc s' = Cycle \<longrightarrow> active s \<and> 0 \<noteq> sc_nextRun s \<and> sc_nextRun s \<le> f \<and> f \<le> sc_now s))
    (sched_step e s)"
    using f
  proof (induct e)
    case Advance
    then show ?case
      by (cases "sc_pc s"; simp add: fired_inv_def timerEventCurrent_def sched_ops advance_def; auto?)
  next
    case (Continue k)
    then show ?case by (cases "sc_pending s ! k"; simp add: runContinuation_def; auto)
  next
    case (SelectTimer t)
    then show ?case by (cases "sc_timer s"; simp)
  qed (simp_all add: sched_ops, auto?)
  from staysD [OF this assms(2)] show ?thesis .
qed

lemma job_starts_only_when_due_witness:
  "\<exists>s s'. sched_run [CallRun False, Advance, Advance, Pass 60, SelectTimer 61] demo_start = Some s \<and>
     sched_step Advance s = Some s' \<and> sc_pc s' = Cycle \<and> sc_nextRun s \<le> 61"
proof -
  let ?es = "[CallRun False, Advance, Advance, Pass 60, SelectTimer 61]"
  have "(case sched_run ?es demo_start of
      Some s \<Rightarrow> sc_pc s = TimerFired 61 \<and> (case sched_step Advance s of Some s' \<Rightarrow> sc_pc s' = Cycle | None \<Rightarrow> False)
    | None \<Rightarrow> False)" by code_simp
  then obtain s s' where s: "sched_run ?es demo_start = Some s" "sc_pc s = TimerFired 61" "sched_step Advance s = Some s'"
      "sc_pc s' = Cycle"
    by (auto split: option.splits simp del: sched_step.simps)
  from job_starts_only_when_due [OF reachable_demo [OF s(1)] s(3)] s show ?thesis by blast
qed

text \<open>The visible state can end up Done while the scheduler is paused: a Pause whose whole effect falls
  between the loop's last check of the pause flag and its setState is overwritten, and nothing is
  left to correct it.\<close>

lemma paused_state_can_be_overwritten:
  "\<exists>es s. sched_run es (NewScheduler 60 1) = Some s \<and> sc_paused s \<and> sc_state s = StateDone \<and>
     sc_pc s = Loop \<and> sc_pending s = [] \<and> \<not> sc_trigger s"
proof -
  let ?es = "demo_events @ [JobReturns False, Advance, Advance, Advance, Advance, CallPause, Continue 0, Continue 0, Advance, Advance]"
  have "(case sched_run ?es (NewScheduler 60 1) of
      Some s \<Rightarrow> sc_paused s \<and> sc_state s = StateDone \<and> sc_pc s = Loop \<and> sc_pending s = [] \<and> \<not> sc_trigger s
    | None \<Rightarrow> False)" by code_simp
  then show ?thesis by (auto split: option.splits)
qed

end
