(* ===== verification/Install_Plan.thy ===== *)
theory Install_Plan
  imports Safe_Paths Repo_Namespace
begin

text \<open>
  Install plans (internal/installplan: model.go, claude.go, copilot.go, discovery.go and the checks of
  executor.go): declarations of plugins and skill dependencies, the operations that bring the
  installed set to the declared one, and the whitelist every operation must pass before it runs.
  SHA-256 and the JSON encoder are parameters.  \<open>sort.Slice\<close> is taken to be stable, which shows only
  on elements with one identity string.
\<close>

section \<open>Declarations and operations\<close>

record install_decl =
  de_id :: string
  de_adapter :: string
  de_source :: string
  de_version :: string
  de_enabled :: bool
  de_settings :: "(string, string) fmap"

record operation =
  op_id :: string
  op_adapter :: string
  op_source :: string
  op_kind :: string
  op_executable :: string
  op_args :: "string list"
  op_workingDir :: string

record plan =
  pl_id :: string
  pl_operations :: "operation list"
  pl_approved :: bool
  pl_errors :: "(string, string) fmap"

datatype install_error =
    MissingField string
  | ShellSyntax string
  | UnsupportedAdapter string
  | UnsupportedSetting string string
  | WrongAdapter string string
  | UntrustedCommand string
  | UnsupportedMetadata string
  | EscapingSource string
  | BadManifest
  | IncompleteApproval
  | NoAdapter string
  | UnsafePayload string
  | NamespaceError path_error
  | MarshalError
  | StoreCorrupt string
  | StoreFault

definition claudePlugin :: string where "claudePlugin = ''claude-plugin''"
definition copilotPlugin :: string where "copilotPlugin = ''copilot-plugin''"
definition skillDependencies :: string where "skillDependencies = ''skill-dependencies''"

definition rejectShellSyntax :: "string \<Rightarrow> install_error option" where
  "rejectShellSyntax value =
     (if list_ex (\<lambda>c. c \<in> set (''<>;&|'' @ [CHR 0x60, CHR 0x0D, CHR 0x0A, CHR 0x00])) value \<or> sublist ''$('' value
      then Some (ShellSyntax value) else None)"

definition allowedSettings :: "string \<Rightarrow> string list option" where
  "allowedSettings adapter =
     (if adapter = claudePlugin then Some [''marketplace'']
      else if adapter = copilotPlugin then Some []
      else if adapter = skillDependencies then Some [''manager'', ''manifest'']
      else None)"

definition validateDeclaration :: "install_decl \<Rightarrow> install_error option" where
  "validateDeclaration d =
     (if trim_space (de_id d) = [] then Some (MissingField ''id'')
      else if trim_space (de_adapter d) = [] then Some (MissingField ''adapter'')
      else if trim_space (de_source d) = [] then Some (MissingField ''source'')
      else case rejectShellSyntax (de_source d) of Some e \<Rightarrow> Some e | None \<Rightarrow>
      case allowedSettings (de_adapter d) of
        None \<Rightarrow> Some (UnsupportedAdapter (de_adapter d))
      | Some allowed \<Rightarrow>
          (case find (\<lambda>key. key \<notin> set allowed) (fm_keys (de_settings d)) of
             Some key \<Rightarrow> Some (UnsupportedSetting (de_id d) key)
           | None \<Rightarrow> None))"

abbreviation NUL :: char where "NUL \<equiv> CHR 0x00"

definition declarationIdentity :: "install_decl \<Rightarrow> string" where
  "declarationIdentity d = join_with NUL
     [de_adapter d, de_id d, de_source d, de_version d, if de_enabled d then ''true'' else ''false'']"

definition operationIdentity :: "operation \<Rightarrow> string" where
  "operationIdentity p = join_with NUL
     ([op_adapter p, op_id p, op_source p, op_kind p, op_executable p, op_workingDir p] @ op_args p)"

section \<open>The whitelist\<close>

record dependency_command =
  dc_manager :: string
  dc_executable :: string
  dc_args :: "string list"

definition dependencyCommands :: "(string \<times> dependency_command) list" where
  "dependencyCommands =
     [(''package-lock.json'', \<lparr>dc_manager = ''npm'', dc_executable = ''npm'', dc_args = [''ci'']\<rparr>),
      (''pnpm-lock.yaml'', \<lparr>dc_manager = ''pnpm'', dc_executable = ''pnpm'', dc_args = [''install'', ''--frozen-lockfile'']\<rparr>),
      (''yarn.lock'', \<lparr>dc_manager = ''yarn'', dc_executable = ''yarn'', dc_args = [''install'', ''--immutable'']\<rparr>),
      (''uv.lock'', \<lparr>dc_manager = ''uv'', dc_executable = ''uv'', dc_args = [''sync'', ''--frozen'']\<rparr>),
      (''requirements.txt'', \<lparr>dc_manager = ''pip'', dc_executable = ''python'',
         dc_args = [''-m'', ''pip'', ''install'', ''-r'', ''requirements.txt'']\<rparr>),
      (''go.mod'', \<lparr>dc_manager = ''go'', dc_executable = ''go'', dc_args = [''mod'', ''download'']\<rparr>)]"

definition validateClaudeOperation :: "operation \<Rightarrow> bool" where
  "validateClaudeOperation p \<longleftrightarrow>
     \<not> (op_executable p \<noteq> ''claude'' \<or> length (op_args p) < 5 \<or> op_args p ! 0 \<noteq> ''plugin'' \<or>
        op_args p ! 1 \<noteq> op_kind p \<or> op_args p ! 2 \<noteq> op_source p \<or> op_args p ! 3 \<noteq> ''--scope'' \<or>
        op_args p ! 4 \<noteq> ''user'') \<and>
     (if op_kind p = ''install'' \<or> op_kind p = ''update'' then length (op_args p) = 5
      else op_kind p = ''uninstall'' \<and> \<not> (length (op_args p) \<noteq> 6 \<or> op_args p ! 5 \<noteq> ''--keep-data''))"

definition validateCopilotOperation :: "operation \<Rightarrow> bool" where
  "validateCopilotOperation p \<longleftrightarrow>
     \<not> (op_executable p \<noteq> ''copilot'' \<or> length (op_args p) \<noteq> 3 \<or> op_args p ! 0 \<noteq> ''plugin'' \<or>
        op_args p ! 1 \<noteq> op_kind p \<or> op_args p ! 2 \<noteq> op_source p) \<and>
     op_kind p \<in> set [''install'', ''update'', ''uninstall'']"

definition validateDependencyOperation :: "operation \<Rightarrow> bool" where
  "validateDependencyOperation p \<longleftrightarrow>
     \<not> (op_kind p \<noteq> ''dependencies'' \<or> op_workingDir p = []) \<and>
     list_ex (\<lambda>(_, c). op_executable p = dc_executable c \<and> op_args p = dc_args c) dependencyCommands"

definition ValidateOperation :: "operation \<Rightarrow> install_error option" where
  "ValidateOperation p =
     (if trim_space (op_id p) = [] \<or> trim_space (op_adapter p) = [] \<or> trim_space (op_source p) = []
      then Some (MissingField ''identity'')
      else case rejectShellSyntax (op_source p) of Some e \<Rightarrow> Some e | None \<Rightarrow>
      case rejectShellSyntax (op_executable p) of Some e \<Rightarrow> Some e | None \<Rightarrow>
      case find (\<lambda>a. rejectShellSyntax a \<noteq> None) (op_args p) of Some a \<Rightarrow> Some (ShellSyntax a) | None \<Rightarrow>
      if op_adapter p = claudePlugin then
        (if validateClaudeOperation p then None else Some (UntrustedCommand (op_id p)))
      else if op_adapter p = copilotPlugin then
        (if validateCopilotOperation p then None else Some (UntrustedCommand (op_id p)))
      else if op_adapter p = skillDependencies then
        (if validateDependencyOperation p then None else Some (UntrustedCommand (op_id p)))
      else Some (UnsupportedAdapter (op_adapter p)))"

section \<open>Plans\<close>

definition NewPlan ::
  "(string \<Rightarrow> string) \<Rightarrow> (install_decl list \<Rightarrow> operation list \<Rightarrow> string option) \<Rightarrow>
     install_decl list \<Rightarrow> operation list \<Rightarrow> install_error + plan" where
  "NewPlan sha marshal declarations operations =
     (let ds = sort_key declarationIdentity declarations;
          ps = sort_key operationIdentity operations
      in case find (\<lambda>d. validateDeclaration d \<noteq> None) ds of
           Some d \<Rightarrow> Inl (the (validateDeclaration d))
         | None \<Rightarrow>
             (case find (\<lambda>p. ValidateOperation p \<noteq> None) ps of
                Some p \<Rightarrow> Inl (the (ValidateOperation p))
              | None \<Rightarrow>
                  (case marshal ds ps of
                     None \<Rightarrow> Inl MarshalError
                   | Some canonical \<Rightarrow>
                       Inr \<lparr>pl_id = sha canonical, pl_operations = ps, pl_approved = False, pl_errors = fmempty\<rparr>)))"

section \<open>Operations for plugins\<close>

definition pluginOperation :: "string \<Rightarrow> string \<Rightarrow> install_decl \<Rightarrow> string \<Rightarrow> operation" where
  "pluginOperation adapter executable d kind =
     \<lparr>op_id = adapter @ '':'' @ kind @ '':'' @ de_source d @ ''@'' @ de_version d,
      op_adapter = adapter, op_source = de_source d, op_kind = kind, op_executable = executable,
      op_args = [''plugin'', kind, de_source d] @
        (if adapter = claudePlugin
         then [''--scope'', ''user''] @ (if kind = ''uninstall'' then [''--keep-data''] else []) else []),
      op_workingDir = []\<rparr>"

text \<open>A map built by a loop of assignments: the last declaration of a source wins.\<close>

definition bySource :: "install_decl list \<Rightarrow> (string, install_decl) fmap" where
  "bySource ds = fold (\<lambda>d m. fmupd (de_source d) d m) ds fmempty"

definition desiredKind :: "(string, install_decl) fmap \<Rightarrow> install_decl \<Rightarrow> string" where
  "desiredKind currentBySource d =
     (case fmlookup currentBySource (de_source d) of
        None \<Rightarrow> ''install''
      | Some installed \<Rightarrow>
          if de_version d \<noteq> [] \<and> de_version installed \<noteq> [] \<and> de_version d \<noteq> de_version installed
          then ''update'' else [])"

definition pluginOperations ::
  "string \<Rightarrow> string \<Rightarrow> install_decl list \<Rightarrow> install_decl list \<Rightarrow> install_error + operation list" where
  "pluginOperations adapter executable desired current =
     (case find (\<lambda>d. validateDeclaration d \<noteq> None) (current @ desired) of
        Some d \<Rightarrow> Inl (the (validateDeclaration d))
      | None \<Rightarrow>
          let currentBySource = bySource current; desiredBySource = bySource desired;
              additions = concat (map (\<lambda>d.
                if \<not> de_enabled d then []
                else let kind = desiredKind currentBySource d
                     in if kind \<noteq> [] then [pluginOperation adapter executable d kind] else []) desired);
              removals = concat (map (\<lambda>d.
                if fmlookup desiredBySource (de_source d) \<noteq> None then []
                else [pluginOperation adapter executable d ''uninstall'']) current)
          in Inr (sort_key operationIdentity (additions @ removals)))"

section \<open>Skill dependencies\<close>

datatype skill_tree = SkillFile string string | SkillDir string "skill_tree list"

definition generatedDependencyDirectories :: "string list" where
  "generatedDependencyDirectories =
     [''node_modules'', ''.vscode-test'', ''.venv'', ''venv'', ''__pycache__'', ''.pnpm-store'', ''.yarn'', ''vendor'']"

definition dependencyDeclaration :: "(string \<Rightarrow> string) \<Rightarrow> string list \<Rightarrow> string \<Rightarrow> string \<Rightarrow> install_decl list" where
  "dependencyDeclaration sha directory name data =
     (case map_of dependencyCommands (to_lower name) of
        None \<Rightarrow> []
      | Some command \<Rightarrow>
          let source = (if directory = [] then ''.'' else join_with CHR ''/'' directory)
          in [\<lparr>de_id = ''skill:'' @ source @ '':'' @ dc_manager command, de_adapter = skillDependencies,
               de_source = source, de_version = sha data, de_enabled = True,
               de_settings = fmap_of_list [(''manager'', dc_manager command), (''manifest'', name)]\<rparr>])"

fun discoverIn :: "(string \<Rightarrow> string) \<Rightarrow> string list \<Rightarrow> skill_tree \<Rightarrow> install_decl list" where
  "discoverIn sha directory (SkillFile name data) = dependencyDeclaration sha directory name data"
| "discoverIn sha directory (SkillDir name entries) =
     (if to_lower name \<in> set generatedDependencyDirectories then []
      else concat (map (discoverIn sha (directory @ [name])) entries))"

text \<open>The entries of the root, which is walked even under a generated name; a missing root has none.\<close>

definition DiscoverSkillDependencies :: "(string \<Rightarrow> string) \<Rightarrow> skill_tree list \<Rightarrow> install_decl list" where
  "DiscoverSkillDependencies sha entries =
     sort_key declarationIdentity (concat (map (discoverIn sha []) entries))"

text \<open>The root is absolute and given by its segments.\<close>

definition safeWorkingDirectory :: "string list \<Rightarrow> string \<Rightarrow> install_error + string list" where
  "safeWorkingDirectory root source =
     (if source = ''.'' then Inr root
      else if prefix ''/'' source then Inl (EscapingSource source)
      else
        let joined = rev (foldl (clean_step True) (rev root) (split_on CHR ''/'' source))
        in if \<not> pathWithinRoot root joined then Inl (EscapingSource source) else Inr joined)"

definition absolute :: "string list \<Rightarrow> string" where
  "absolute segs = CHR ''/'' # join_with CHR ''/'' segs"

definition skillOperation :: "string list \<Rightarrow> install_decl \<Rightarrow> install_error + operation" where
  "skillOperation root d =
     (case validateDeclaration d of Some e \<Rightarrow> Inl e | None \<Rightarrow>
      let manifest = to_lower (case fmlookup (de_settings d) ''manifest'' of None \<Rightarrow> [] | Some m \<Rightarrow> m);
          manager = (case fmlookup (de_settings d) ''manager'' of None \<Rightarrow> [] | Some m \<Rightarrow> m)
      in case map_of dependencyCommands manifest of
           None \<Rightarrow> Inl (UnsupportedMetadata (de_id d))
         | Some command \<Rightarrow>
             if dc_manager command \<noteq> manager then Inl (UnsupportedMetadata (de_id d))
             else case safeWorkingDirectory root (de_source d) of
               Inl e \<Rightarrow> Inl e
             | Inr workingDir \<Rightarrow>
                 Inr \<lparr>op_id = ''skill:'' @ dc_manager command @ '':'' @ de_source d @ ''@'' @ de_version d,
                      op_adapter = de_adapter d, op_source = de_source d, op_kind = ''dependencies'',
                      op_executable = dc_executable command, op_args = dc_args command,
                      op_workingDir = absolute workingDir\<rparr>)"

definition OperationsForSkillDependencies :: "string list \<Rightarrow> install_decl list \<Rightarrow> install_error + operation list" where
  "OperationsForSkillDependencies root ds =
     map_sum id (sort_key operationIdentity)
       (fold_res (\<lambda>d ops. if de_adapter d \<noteq> skillDependencies then Inr ops
                          else map_sum id (\<lambda>p. ops @ [p]) (skillOperation root d)) ds [])"

section \<open>Planned operations pass the whitelist\<close>

lemma trim_space_letter: "is_drive_letter c \<Longrightarrow> trim_space (c # s) \<noteq> []"
proof
  assume c: "is_drive_letter c" and "trim_space (c # s) = []"
  then have "starts_with_space (c # s)" using trim_space_Nil_cases by blast
  with c show False by (auto simp: starts_with_space_def go_spaces_def is_drive_letter_def)
qed

lemma validateDeclaration_None:
  assumes "validateDeclaration d = None"
  shows "trim_space (de_source d) \<noteq> []" "rejectShellSyntax (de_source d) = None"
    "de_adapter d \<in> {claudePlugin, copilotPlugin, skillDependencies}"
  using assms by (auto simp: validateDeclaration_def allowedSettings_def split: if_splits option.splits)

lemma harmless_words:
  "rejectShellSyntax ''plugin'' = None" "rejectShellSyntax ''--scope'' = None" "rejectShellSyntax ''user'' = None"
  "rejectShellSyntax ''--keep-data'' = None" "rejectShellSyntax ''claude'' = None" "rejectShellSyntax ''copilot'' = None"
  "rejectShellSyntax ''install'' = None" "rejectShellSyntax ''update'' = None" "rejectShellSyntax ''uninstall'' = None"
  by code_simp+

lemma adapters_distinct:
  "claudePlugin \<noteq> copilotPlugin" "claudePlugin \<noteq> skillDependencies" "copilotPlugin \<noteq> skillDependencies"
  "copilotPlugin \<noteq> claudePlugin"
  by code_simp+

lemma pluginOperation_trusted:
  assumes d: "validateDeclaration d = None" and kind: "kind \<in> {''install'', ''update'', ''uninstall''}"
    and who: "adapter = claudePlugin \<and> executable = ''claude'' \<or> adapter = copilotPlugin \<and> executable = ''copilot''"
  shows "ValidateOperation (pluginOperation adapter executable d kind) = None"
proof -
  let ?p = "pluginOperation adapter executable d kind"
  have nb: "trim_space (op_id ?p) \<noteq> []" "trim_space (op_adapter ?p) \<noteq> []"
    using who by (auto simp: pluginOperation_def claudePlugin_def copilotPlugin_def is_drive_letter_def trim_space_letter)
  have args: "find (\<lambda>a. rejectShellSyntax a \<noteq> None) (op_args ?p) = None"
    using kind validateDeclaration_None(2) [OF d] by (auto simp: find_None_iff pluginOperation_def harmless_words)
  have exe: "rejectShellSyntax (op_executable ?p) = None" using who by (auto simp: pluginOperation_def harmless_words)
  have src: "op_source ?p = de_source d" "op_adapter ?p = adapter" by (simp_all add: pluginOperation_def)
  show ?thesis
  proof (cases "adapter = claudePlugin")
    case True
    then have "validateClaudeOperation ?p" using who kind adapters_distinct
      by (auto simp: validateClaudeOperation_def pluginOperation_def)
    then show ?thesis using nb args exe src True validateDeclaration_None [OF d] by (simp add: ValidateOperation_def)
  next
    case False
    then have "adapter = copilotPlugin" "validateCopilotOperation ?p" using who kind
      by (auto simp: validateCopilotOperation_def pluginOperation_def)
    then show ?thesis using nb args exe src False validateDeclaration_None [OF d] by (simp add: ValidateOperation_def)
  qed
qed

lemma pluginOperations_set:
  assumes "pluginOperations adapter executable desired current = Inr ops"
  shows "\<forall>d \<in> set (current @ desired). validateDeclaration d = None"
    "set ops = (\<lambda>d. pluginOperation adapter executable d (desiredKind (bySource current) d)) `
        {d \<in> set desired. de_enabled d \<and> desiredKind (bySource current) d \<noteq> []} \<union>
      (\<lambda>d. pluginOperation adapter executable d ''uninstall'') `
        {d \<in> set current. fmlookup (bySource desired) (de_source d) = None}"
proof -
  show "\<forall>d \<in> set (current @ desired). validateDeclaration d = None"
    using assms by (auto simp: pluginOperations_def find_None_iff split: option.splits)
  define adds where "adds = concat (map (\<lambda>d. if \<not> de_enabled d then []
     else let kind = desiredKind (bySource current) d
          in if kind \<noteq> [] then [pluginOperation adapter executable d kind] else []) desired)"
  define rems where "rems = concat (map (\<lambda>d. if fmlookup (bySource desired) (de_source d) \<noteq> None then []
     else [pluginOperation adapter executable d ''uninstall'']) current)"
  have "ops = sort_key operationIdentity (adds @ rems)"
    using assms unfolding pluginOperations_def adds_def rems_def Let_def by (simp split: option.splits)
  moreover have "set adds = (\<lambda>d. pluginOperation adapter executable d (desiredKind (bySource current) d)) `
        {d \<in> set desired. de_enabled d \<and> desiredKind (bySource current) d \<noteq> []}"
    unfolding adds_def set_concat set_map Let_def by (auto split: if_splits)
  moreover have "set rems = (\<lambda>d. pluginOperation adapter executable d ''uninstall'') `
        {d \<in> set current. fmlookup (bySource desired) (de_source d) = None}"
    unfolding rems_def set_concat set_map by (auto split: if_splits)
  ultimately show "set ops = (\<lambda>d. pluginOperation adapter executable d (desiredKind (bySource current) d)) `
        {d \<in> set desired. de_enabled d \<and> desiredKind (bySource current) d \<noteq> []} \<union>
      (\<lambda>d. pluginOperation adapter executable d ''uninstall'') `
        {d \<in> set current. fmlookup (bySource desired) (de_source d) = None}" by simp
qed

lemma desiredKind_cases: "desiredKind m d \<noteq> [] \<Longrightarrow> desiredKind m d \<in> {''install'', ''update'', ''uninstall''}"
  by (auto simp: desiredKind_def split: option.splits if_splits)

lemma dependency_commands_harmless:
  "list_all (\<lambda>(_, c). rejectShellSyntax (dc_executable c) = None \<and>
     list_all (\<lambda>a. rejectShellSyntax a = None) (dc_args c)) dependencyCommands"
  by code_simp

lemma skillOperation_trusted:
  assumes "skillOperation root d = Inr p" "de_adapter d = skillDependencies"
  shows "ValidateOperation p = None"
proof -
  have d: "validateDeclaration d = None" using assms by (auto simp: skillOperation_def split: option.splits)
  obtain m command w where c: "map_of dependencyCommands m = Some command"
    and p: "op_id p = ''skill:'' @ dc_manager command @ '':'' @ de_source d @ ''@'' @ de_version d" "op_adapter p = skillDependencies"
      "op_source p = de_source d" "op_kind p = ''dependencies''" "op_executable p = dc_executable command"
      "op_args p = dc_args command" "op_workingDir p = absolute w"
    using assms by (auto simp: skillOperation_def Let_def split: option.splits sum.splits if_splits)
  have mem: "(m, command) \<in> set dependencyCommands" using c by (rule map_of_SomeD)
  then have h: "rejectShellSyntax (dc_executable command) = None" "\<forall>a \<in> set (dc_args command). rejectShellSyntax a = None"
    using dependency_commands_harmless by (auto simp: list_all_iff)
  have "validateDependencyOperation p"
    using mem p by (auto simp: validateDependencyOperation_def list_ex_iff absolute_def)
  moreover have "trim_space (op_id p) \<noteq> []" "trim_space (op_adapter p) \<noteq> []"
    using p by (auto simp: skillDependencies_def is_drive_letter_def trim_space_letter)
  moreover have "find (\<lambda>a. rejectShellSyntax a \<noteq> None) (op_args p) = None" using h p by (simp add: find_None_iff)
  ultimately show ?thesis using p h validateDeclaration_None [OF d] adapters_distinct
    by (simp add: ValidateOperation_def)
qed

lemma skillOperations_set:
  assumes "fold_res (\<lambda>d ops. if de_adapter d \<noteq> skillDependencies then Inr ops
      else map_sum id (\<lambda>p. ops @ [p]) (skillOperation root d)) ds acc = Inr ops"
  shows "set ops = set acc \<union> {p. \<exists>d \<in> set ds. de_adapter d = skillDependencies \<and> skillOperation root d = Inr p}"
  using assms
proof (induction ds arbitrary: acc)
  case (Cons d ds)
  show ?case
  proof (cases "de_adapter d = skillDependencies")
    case True
    then obtain p where p: "skillOperation root d = Inr p" using Cons.prems by (cases "skillOperation root d") auto
    have "set ops = set (acc @ [p]) \<union> {p. \<exists>d \<in> set ds. de_adapter d = skillDependencies \<and> skillOperation root d = Inr p}"
      by (rule Cons.IH) (use Cons.prems True p in simp)
    then show ?thesis using True p by auto
  next
    case False
    then show ?thesis using Cons.IH [of acc] Cons.prems by auto
  qed
qed simp

section \<open>Properties\<close>

text \<open> C39. Every operation the program plans, for Claude plugins, Copilot plugins or skill dependencies, passes
  the whitelist the executor checks before it runs anything. \<close>

theorem planned_operations_are_trusted:
  assumes "pluginOperations claudePlugin ''claude'' desired current = Inr ops \<or>
      pluginOperations copilotPlugin ''copilot'' desired current = Inr ops \<or>
      OperationsForSkillDependencies root desired = Inr ops"
    and "p \<in> set ops"
  shows "ValidateOperation p = None"
proof -
  have plugin: "ValidateOperation p = None" if who: "adapter = claudePlugin \<and> executable = ''claude'' \<or>
      adapter = copilotPlugin \<and> executable = ''copilot''"
    and ops: "pluginOperations adapter executable desired current = Inr ops" for adapter executable
  proof -
    have "\<exists>d kind. d \<in> set (current @ desired) \<and> kind \<in> {''install'', ''update'', ''uninstall''} \<and>
        p = pluginOperation adapter executable d kind"
      using assms(2) [unfolded pluginOperations_set(2) [OF ops]]
    proof (elim UnE imageE CollectE conjE)
      fix d assume d: "p = pluginOperation adapter executable d (desiredKind (bySource current) d)"
        "desiredKind (bySource current) d \<noteq> []" "d \<in> set desired"
      then show ?thesis using desiredKind_cases [OF d(2)]
        by (intro exI [of _ d] exI [of _ "desiredKind (bySource current) d"]) simp
    next
      fix d assume "p = pluginOperation adapter executable d ''uninstall''" "d \<in> set current"
      then show ?thesis by (intro exI [of _ d] exI [of _ "''uninstall''"]) simp
    qed
    then obtain d kind where dk: "d \<in> set (current @ desired)" "kind \<in> {''install'', ''update'', ''uninstall''}"
      "p = pluginOperation adapter executable d kind" by blast
    show ?thesis
      unfolding dk(3) by (rule pluginOperation_trusted [OF bspec [OF pluginOperations_set(1) [OF ops] dk(1)] dk(2) who])
  qed
  have skill: "ValidateOperation p = None" if ops: "OperationsForSkillDependencies root desired = Inr ops"
  proof -
    obtain qs where q: "fold_res (\<lambda>d ops. if de_adapter d \<noteq> skillDependencies then Inr ops
        else map_sum id (\<lambda>p. ops @ [p]) (skillOperation root d)) desired [] = Inr qs" "set ops = set qs"
      using ops unfolding OperationsForSkillDependencies_def by (auto simp: map_sum_def split: sum.splits)
    from skillOperations_set [OF q(1)] assms(2) q(2)
    obtain d where "skillOperation root d = Inr p" "de_adapter d = skillDependencies" by auto
    then show ?thesis by (rule skillOperation_trusted)
  qed
  from assms(1) show ?thesis
  proof (elim disjE)
    assume "pluginOperations claudePlugin ''claude'' desired current = Inr ops"
    then show ?thesis by (rule plugin [rotated]) simp
  next
    assume "pluginOperations copilotPlugin ''copilot'' desired current = Inr ops"
    then show ?thesis by (rule plugin [rotated]) simp
  next
    assume "OperationsForSkillDependencies root desired = Inr ops"
    then show ?thesis by (rule skill)
  qed
qed

definition demo_declaration :: "string \<Rightarrow> install_decl" where
  "demo_declaration source =
     \<lparr>de_id = source, de_adapter = claudePlugin, de_source = source, de_version = ''1'', de_enabled = True, de_settings = fmempty\<rparr>"

lemma planned_operations_are_trusted_witness:
  "\<exists>p. op_args p = [''plugin'', ''install'', ''a@m'', ''--scope'', ''user''] \<and> ValidateOperation p = None"
proof -
  let ?p = "pluginOperation claudePlugin ''claude'' (demo_declaration ''a@m'') ''install''"
  have r: "pluginOperations claudePlugin ''claude'' [demo_declaration ''a@m''] [] = Inr [?p]" by code_simp
  have "ValidateOperation ?p = None" by (rule planned_operations_are_trusted [OF disjI1 [OF r]]) simp
  moreover have "op_args ?p = [''plugin'', ''install'', ''a@m'', ''--scope'', ''user'']" by code_simp
  ultimately show ?thesis by blast
qed

end
