(* ===== verification/Fault_IO.thy ===== *)
theory Fault_IO
  imports Go_Prelude
begin

text \<open>
  Disk operations that may fail and processes that may die.  A world is a disk, the schedule of
  what happens to the coming operations, and whether the process has died.  Every operation of a
  component consumes one entry of the schedule (an exhausted schedule means that everything
  works): it works, it fails with an error, or the process dies at it.  The list a fault carries
  is what a recursive removal had already deleted when it stopped; an operation that is atomic
  ignores it.  Once the process is dead nothing changes the disk any more, so the disk of the
  final world is the one the next process finds.  The second half is a small program logic for
  crashes: \<open>crash_valid\<close> says what holds after a normal return, after an error and when the
  process dies, for schedules in which operations only work or die.
\<close>

datatype fault = Works | Fails "string list" | Dies "string list"

record 'd world =
  w_disk :: 'd
  w_faults :: "fault list"
  w_dead :: bool

type_synonym ('d, 'e, 'a) io = "'d world \<Rightarrow> ('e + 'a) \<times> 'd world"

definition tick :: "'e \<Rightarrow> ('d \<Rightarrow> string list \<Rightarrow> 'd) \<Rightarrow> ('d \<Rightarrow> ('e + 'a) \<times> 'd) \<Rightarrow> ('d, 'e, 'a) io" where
  "tick e partial f w =
     (if w_dead w then (Inl e, w)
      else case w_faults w of
        [] \<Rightarrow> (case f (w_disk w) of (r, d) \<Rightarrow> (r, w\<lparr>w_disk := d\<rparr>))
      | Works # fs \<Rightarrow> (case f (w_disk w) of (r, d) \<Rightarrow> (r, w\<lparr>w_disk := d, w_faults := fs\<rparr>))
      | Fails ns # fs \<Rightarrow> (Inl e, w\<lparr>w_disk := partial (w_disk w) ns, w_faults := fs\<rparr>)
      | Dies ns # fs \<Rightarrow>
          (Inl e, w\<lparr>w_disk := partial (w_disk w) ns, w_faults := fs, w_dead := True\<rparr>))"

definition ret :: "'a \<Rightarrow> ('d, 'e, 'a) io" where
  "ret a w = (Inr a, w)"

definition raise :: "'e \<Rightarrow> ('d, 'e, 'a) io" where
  "raise e w = (Inl e, w)"

definition andThen :: "('d, 'e, 'a) io \<Rightarrow> ('a \<Rightarrow> ('d, 'e, 'b) io) \<Rightarrow> ('d, 'e, 'b) io" where
  "andThen m f w = (case m w of (Inl e, w') \<Rightarrow> (Inl e, w') | (Inr a, w') \<Rightarrow> f a w')"

text \<open>\<open>attempt\<close> hands an error to the continuation as a value: \<open>v, err := m()\<close>.\<close>

definition attempt :: "('d, 'e, 'a) io \<Rightarrow> ('e + 'a \<Rightarrow> ('d, 'e, 'b) io) \<Rightarrow> ('d, 'e, 'b) io" where
  "attempt m f w = (case m w of (r, w') \<Rightarrow> f r w')"

fun forEach :: "('a \<Rightarrow> 's \<Rightarrow> ('d, 'e, 's) io) \<Rightarrow> 'a list \<Rightarrow> 's \<Rightarrow> ('d, 'e, 's) io" where
  "forEach f [] s = ret s"
| "forEach f (x # xs) s = andThen (f x s) (forEach f xs)"

definition boot :: "'d \<Rightarrow> fault list \<Rightarrow> 'd world" where
  "boot d fs = \<lparr>w_disk = d, w_faults = fs, w_dead = False\<rparr>"

text \<open>Running without any fault.\<close>

definition run :: "('d, 'e, 'a) io \<Rightarrow> 'd \<Rightarrow> ('e + 'a) \<times> 'd" where
  "run m d = (case m (boot d []) of (r, w) \<Rightarrow> (r, w_disk w))"

section \<open>Lawful programs\<close>

text \<open>
  Every program over these operations leaves the world alone once the process is dead, uses up
  its schedule from the front, and does not die without a fault.
\<close>

definition lawful :: "('d, 'e, 'a) io \<Rightarrow> bool" where
  "lawful m \<longleftrightarrow> (\<forall>w. (w_dead w \<longrightarrow> snd (m w) = w) \<and> suffix (w_faults (snd (m w))) (w_faults w) \<and>
                (w_faults w = [] \<longrightarrow> w_dead (snd (m w)) = w_dead w))"

named_theorems lawful_intros \<open>programs that respect death and the schedule\<close>

lemma lawfulD:
  assumes "lawful m" "m w = (r, w')"
  shows "w_dead w \<Longrightarrow> w' = w" "suffix (w_faults w') (w_faults w)"
    "w_faults w = [] \<Longrightarrow> w_dead w' = w_dead w"
  using assms unfolding lawful_def by (metis snd_conv)+

lemma lawfulI:
  assumes "\<And>w r w'. m w = (r, w') \<Longrightarrow>
    (w_dead w \<longrightarrow> w' = w) \<and> suffix (w_faults w') (w_faults w) \<and> (w_faults w = [] \<longrightarrow> w_dead w' = w_dead w)"
  shows "lawful m"
  unfolding lawful_def using assms by (metis prod.collapse)

lemma lawful_tick [lawful_intros]: "lawful (tick e p f)"
  by (auto simp: lawful_def tick_def suffix_def split: list.split fault.split prod.split)

lemma lawful_ret [lawful_intros]: "lawful (ret a)"
  by (simp add: lawful_def ret_def)

lemma lawful_raise [lawful_intros]: "lawful (raise e)"
  by (simp add: lawful_def raise_def)

lemma lawful_attempt [lawful_intros]:
  assumes m: "lawful m" and f: "\<And>r. lawful (f r)"
  shows "lawful (attempt m f)"
proof (rule lawfulI)
  fix w r w' assume run: "attempt m f w = (r, w')"
  obtain r0 w0 where m0: "m w = (r0, w0)" by (cases "m w")
  with run have f0: "f r0 w0 = (r, w')" by (simp add: attempt_def)
  note lawfulD [OF m m0] lawfulD [OF f f0]
  then show "(w_dead w \<longrightarrow> w' = w) \<and> suffix (w_faults w') (w_faults w) \<and>
    (w_faults w = [] \<longrightarrow> w_dead w' = w_dead w)"
    by (metis suffix_bot.extremum_uniqueI suffix_order.trans)
qed

lemma andThen_attempt:
  "andThen m f = attempt m (\<lambda>r. case r of Inl e \<Rightarrow> raise e | Inr a \<Rightarrow> f a)"
  by (auto simp: fun_eq_iff andThen_def attempt_def raise_def split: prod.split sum.split)

lemma lawful_andThen [lawful_intros]:
  "lawful m \<Longrightarrow> (\<And>a. lawful (f a)) \<Longrightarrow> lawful (andThen m f)"
  unfolding andThen_attempt by (intro lawful_attempt) (auto intro: lawful_raise split: sum.split)

lemma lawful_forEach [lawful_intros]: "(\<And>x s. lawful (f x s)) \<Longrightarrow> lawful (forEach f xs s)"
  by (induction xs arbitrary: s) (auto intro!: lawful_intros)

lemma lawful_if [lawful_intros]: "lawful m \<Longrightarrow> lawful n \<Longrightarrow> lawful (if b then m else n)"
  by simp

section \<open>Programs that only read\<close>

definition reader :: "('d, 'e, 'a) io \<Rightarrow> bool" where
  "reader m \<longleftrightarrow> (\<forall>w. w_disk (snd (m w)) = w_disk w)"

named_theorems reader_intros \<open>programs that leave the disk alone\<close>

lemma reader_ret [reader_intros]: "reader (ret a)"
  by (simp add: reader_def ret_def)

lemma reader_raise [reader_intros]: "reader (raise e)"
  by (simp add: reader_def raise_def)

lemma reader_andThen [reader_intros]:
  "reader m \<Longrightarrow> (\<And>a. reader (f a)) \<Longrightarrow> reader (andThen m f)"
  by (auto simp: reader_def andThen_def split: prod.split sum.split) (metis snd_conv)+

lemma reader_attempt [reader_intros]:
  "reader m \<Longrightarrow> (\<And>r. reader (f r)) \<Longrightarrow> reader (attempt m f)"
  by (auto simp: reader_def attempt_def split: prod.split) (metis snd_conv)

lemma reader_forEach [reader_intros]: "(\<And>x s. reader (f x s)) \<Longrightarrow> reader (forEach f xs s)"
  by (induction xs arbitrary: s) (auto intro!: reader_intros)

lemma reader_if [reader_intros]: "reader m \<Longrightarrow> reader n \<Longrightarrow> reader (if b then m else n)"
  by simp

text \<open>An operation that reads: its result is a function of the disk, or a fault.\<close>

definition read_tick :: "'e \<Rightarrow> ('d \<Rightarrow> 'e + 'a) \<Rightarrow> ('d, 'e, 'a) io" where
  "read_tick e f = tick e (\<lambda>d _. d) (\<lambda>d. (f d, d))"

lemma reader_read_tick [reader_intros]: "reader (read_tick e f)"
  by (auto simp: reader_def read_tick_def tick_def split: list.split fault.split)

lemma lawful_read_tick [lawful_intros]: "lawful (read_tick e f)"
  by (simp add: read_tick_def lawful_intros)

section \<open>Crash conditions\<close>

definition crash_only :: "'d world \<Rightarrow> bool" where
  "crash_only w \<longleftrightarrow> list_all (\<lambda>f. case f of Fails _ \<Rightarrow> False | _ \<Rightarrow> True) (w_faults w)"

definition crash_valid ::
  "('d \<Rightarrow> bool) \<Rightarrow> ('d, 'e, 'a) io \<Rightarrow> ('a \<Rightarrow> 'd \<Rightarrow> bool) \<Rightarrow> ('e \<Rightarrow> 'd \<Rightarrow> bool) \<Rightarrow> ('d \<Rightarrow> bool) \<Rightarrow> bool"
where
  "crash_valid P m Q E C \<longleftrightarrow>
     (\<forall>w. \<not> w_dead w \<and> crash_only w \<and> P (w_disk w) \<longrightarrow>
        (case m w of (r, w') \<Rightarrow>
           crash_only w' \<and>
           (if w_dead w' then C (w_disk w')
            else case r of Inl e \<Rightarrow> E e (w_disk w') | Inr a \<Rightarrow> Q a (w_disk w'))))"

lemma crash_validD:
  assumes "crash_valid P m Q E C" "\<not> w_dead w" "crash_only w" "P (w_disk w)" "m w = (r, w')"
  shows "crash_only w'"
    "w_dead w' \<Longrightarrow> C (w_disk w')"
    "\<not> w_dead w' \<Longrightarrow> r = Inl e \<Longrightarrow> E e (w_disk w')"
    "\<not> w_dead w' \<Longrightarrow> r = Inr a \<Longrightarrow> Q a (w_disk w')"
  using assms unfolding crash_valid_def by fastforce+

lemma crash_tick:
  assumes "\<And>d r d'. P d \<Longrightarrow> f d = (r, d') \<Longrightarrow> (case r of Inl e \<Rightarrow> E e d' | Inr a \<Rightarrow> Q a d')"
    and "\<And>d ns. P d \<Longrightarrow> C (partial d ns)"
  shows "crash_valid P (tick e partial f) Q E C"
  unfolding crash_valid_def tick_def crash_only_def
  by (auto split: list.split fault.split prod.split sum.split dest: assms)

lemma crash_andThen:
  assumes "crash_valid P m R E C" and "\<And>a. crash_valid (R a) (f a) Q E C"
    and "\<And>a. lawful (f a)"
  shows "crash_valid P (andThen m f) Q E C"
  unfolding crash_valid_def
proof (intro allI impI)
  fix w assume w: "\<not> w_dead w \<and> crash_only w \<and> P (w_disk w)"
  obtain r w' where m: "m w = (r, w')" by (cases "m w")
  note D = crash_validD [OF assms(1) _ _ _ m]
  show "case andThen m f w of (r, w') \<Rightarrow> crash_only w' \<and>
          (if w_dead w' then C (w_disk w')
           else case r of Inl e \<Rightarrow> E e (w_disk w') | Inr a \<Rightarrow> Q a (w_disk w'))"
  proof (cases r)
    case (Inl e)
    then show ?thesis using D w m by (simp add: andThen_def)
  next
    case (Inr a)
    obtain r'' w'' where f: "f a w' = (r'', w'')" by (cases "f a w'")
    show ?thesis
    proof (cases "w_dead w'")
      case True
      then have "w'' = w'" using lawfulD(1) [OF assms(3) f True] by simp
      then show ?thesis using D w m f Inr True by (simp add: andThen_def)
    next
      case False
      then have "R a (w_disk w')" "crash_only w'" using D w Inr by auto
      then show ?thesis using assms(2) [of a] Inr m False unfolding crash_valid_def andThen_def by auto
    qed
  qed
qed

lemma crash_attempt:
  assumes "crash_valid P m R F C" and "\<And>a. crash_valid (R a) (f (Inr a)) Q E C"
    and "\<And>e. crash_valid (F e) (f (Inl e)) Q E C"
    and "\<And>r. lawful (f r)"
  shows "crash_valid P (attempt m f) Q E C"
  unfolding crash_valid_def
proof (intro allI impI)
  fix w assume w: "\<not> w_dead w \<and> crash_only w \<and> P (w_disk w)"
  obtain r w' where m: "m w = (r, w')" by (cases "m w")
  note D = crash_validD [OF assms(1) _ _ _ m]
  obtain r'' w'' where f: "f r w' = (r'', w'')" by (cases "f r w'")
  show "case attempt m f w of (r, w') \<Rightarrow> crash_only w' \<and>
          (if w_dead w' then C (w_disk w')
           else case r of Inl e \<Rightarrow> E e (w_disk w') | Inr a \<Rightarrow> Q a (w_disk w'))"
  proof (cases "w_dead w'")
    case True
    have "w'' = w'" using lawfulD(1) [OF assms(4) f True] .
    then show ?thesis using D w m f True by (simp add: attempt_def)
  next
    case False
    then have ok: "crash_only w'" "case r of Inl e \<Rightarrow> F e (w_disk w') | Inr a \<Rightarrow> R a (w_disk w')"
      using D w by (auto split: sum.split)
    show ?thesis
    proof (cases r)
      case (Inl e)
      with ok have "F e (w_disk w')" by simp
      from crash_validD [OF assms(3) False ok(1) this, of r'' w''] f Inl m
      show ?thesis by (auto simp: attempt_def split: sum.split)
    next
      case (Inr a)
      with ok have "R a (w_disk w')" by simp
      from crash_validD [OF assms(2) False ok(1) this, of r'' w''] f Inr m
      show ?thesis by (auto simp: attempt_def split: sum.split)
    qed
  qed
qed

lemma lawful_crash_only: "lawful m \<Longrightarrow> m w = (r, w') \<Longrightarrow> crash_only w \<Longrightarrow> crash_only w'"
  by (drule (1) lawfulD(2)) (auto simp: crash_only_def suffix_def)

text \<open>A reader keeps whatever holds of the disk.\<close>

lemma crash_reader:
  assumes "lawful m" "reader m"
  shows "crash_valid P m (\<lambda>_. P) (\<lambda>_. P) P"
  unfolding crash_valid_def
proof (intro allI impI)
  fix w assume w: "\<not> w_dead w \<and> crash_only w \<and> P (w_disk w)"
  obtain r w' where m: "m w = (r, w')" by (cases "m w")
  have "w_disk w' = w_disk w" using assms(2) m unfolding reader_def by (metis snd_conv)
  then show "case m w of (r, w') \<Rightarrow> crash_only w' \<and>
      (if w_dead w' then P (w_disk w')
       else case r of Inl e \<Rightarrow> P (w_disk w') | Inr a \<Rightarrow> P (w_disk w'))"
    using w m lawful_crash_only [OF assms(1) m] by (simp split: sum.split)
qed

lemma crash_ret: "(\<And>d. P d \<Longrightarrow> Q a d) \<Longrightarrow> crash_valid P (ret a) Q E C"
  by (simp add: crash_valid_def ret_def)

lemma crash_raise: "(\<And>d. P d \<Longrightarrow> E e d) \<Longrightarrow> crash_valid P (raise e) Q E C"
  by (simp add: crash_valid_def raise_def)

lemma crash_weaken:
  assumes "crash_valid P' m Q' E' C'" "\<And>d. P d \<Longrightarrow> P' d" "\<And>a d. Q' a d \<Longrightarrow> Q a d"
    "\<And>e d. E' e d \<Longrightarrow> E e d" "\<And>d. C' d \<Longrightarrow> C d"
  shows "crash_valid P m Q E C"
  using assms unfolding crash_valid_def by (fastforce split: prod.split sum.split)

lemma crash_pre_False: "(\<And>d. \<not> P d) \<Longrightarrow> crash_valid P m Q E C"
  by (simp add: crash_valid_def)

lemma crash_if:
  assumes "b \<Longrightarrow> crash_valid P m Q E C" "\<not> b \<Longrightarrow> crash_valid P n Q E C"
  shows "crash_valid P (if b then m else n) Q E C"
  using assms by simp

text \<open>A loop keeps an invariant that depends on what is still to be done.\<close>

lemma crash_forEach:
  assumes "\<And>x xs s. crash_valid (I (x # xs) s) (f x s) (I xs) E C" "\<And>x s. lawful (f x s)"
  shows "crash_valid (I xs s) (forEach f xs s) (I []) E C"
proof (induction xs arbitrary: s)
  case Nil
  then show ?case by (simp add: crash_ret)
next
  case (Cons x xs)
  show ?case by (simp, rule crash_andThen [OF assms(1) Cons.IH]) (intro lawful_intros assms(2))
qed

text \<open>
  What a program without faults computes: \<open>crash_run\<close> reads a crash triple off a run that works
  throughout, and \<open>run\<close> unfolds over the combinators.
\<close>

lemma run_tick [simp]: "run (tick e p f) d = f d"
  by (simp add: run_def tick_def boot_def split: prod.split)

lemma run_read_tick [simp]: "run (read_tick e f) d = (f d, d)"
  by (simp add: read_tick_def)

lemma run_ret [simp]: "run (ret a) d = (Inr a, d)"
  by (simp add: run_def ret_def boot_def)

lemma run_raise [simp]: "run (raise a) d = (Inl a, d)"
  by (simp add: run_def raise_def boot_def)

lemma lawful_run: "lawful m \<Longrightarrow> m (boot d []) = (fst (run m d), boot (snd (run m d)) [])"
proof -
  assume l: "lawful m"
  obtain r w where m: "m (boot d []) = (r, w)" by (cases "m (boot d [])")
  have "w_faults w = []" "\<not> w_dead w"
    using lawfulD(2,3) [OF l m] by (auto simp: boot_def)
  then have "w = boot (w_disk w) []" by (simp add: boot_def)
  then show ?thesis using m by (simp add: run_def)
qed

lemma run_andThen:
  "lawful m \<Longrightarrow> run (andThen m f) d =
     (case run m d of (Inl e, d') \<Rightarrow> (Inl e, d') | (Inr a, d') \<Rightarrow> run (f a) d')"
  by (simp add: run_def [of "andThen m f"] andThen_def lawful_run split: prod.split sum.split)
    (auto simp: run_def boot_def)

lemma run_attempt:
  "lawful m \<Longrightarrow> run (attempt m f) d = (case run m d of (r, d') \<Rightarrow> run (f r) d')"
  by (simp add: run_def [of "attempt m f"] attempt_def lawful_run split: prod.split)
    (auto simp: run_def boot_def)

section \<open>Any schedule at all\<close>

text \<open>
  \<open>fault_valid P m Q E\<close>: from a disk with \<open>P\<close>, whatever the schedule, a normal return leaves \<open>Q\<close>
  and everything else (an error, a failed operation, the death of the process) leaves \<open>E\<close>.
\<close>

definition fault_valid ::
  "('d \<Rightarrow> bool) \<Rightarrow> ('d, 'e, 'a) io \<Rightarrow> ('a \<Rightarrow> 'd \<Rightarrow> bool) \<Rightarrow> ('d \<Rightarrow> bool) \<Rightarrow> bool"
where
  "fault_valid P m Q E \<longleftrightarrow>
     (\<forall>w. P (w_disk w) \<longrightarrow>
        (case m w of (Inl _, w') \<Rightarrow> E (w_disk w') | (Inr a, w') \<Rightarrow> Q a (w_disk w')))"

lemma fault_validD:
  assumes "fault_valid P m Q E" "P (w_disk w)" "m w = (r, w')"
  shows "r = Inr a \<Longrightarrow> Q a (w_disk w')" "r = Inl e \<Longrightarrow> E (w_disk w')"
  using assms unfolding fault_valid_def by (fastforce dest: spec [of _ w])+

lemma fault_tick:
  assumes "\<And>d r d'. P d \<Longrightarrow> f d = (r, d') \<Longrightarrow> (case r of Inl _ \<Rightarrow> E d' | Inr a \<Rightarrow> Q a d')"
    and "\<And>d. P d \<Longrightarrow> E d" and "\<And>d ns. P d \<Longrightarrow> E (partial d ns)"
  shows "fault_valid P (tick e partial f) Q E"
  unfolding fault_valid_def tick_def
  by (auto split: list.split fault.split prod.split sum.split dest: assms)

lemma fault_read_tick:
  assumes "\<And>d a. P d \<Longrightarrow> f d = Inr a \<Longrightarrow> Q a d" "\<And>d. P d \<Longrightarrow> E d"
  shows "fault_valid P (read_tick e f) Q E"
  unfolding read_tick_def by (rule fault_tick) (use assms in \<open>auto split: sum.split\<close>)

lemma fault_ret: "(\<And>d. P d \<Longrightarrow> Q a d) \<Longrightarrow> fault_valid P (ret a) Q E"
  by (simp add: fault_valid_def ret_def)

lemma fault_raise: "(\<And>d. P d \<Longrightarrow> E d) \<Longrightarrow> fault_valid P (raise e) Q E"
  by (simp add: fault_valid_def raise_def)

lemma fault_attempt:
  assumes "fault_valid P m R F" "\<And>a. fault_valid (R a) (f (Inr a)) Q E" "\<And>e. fault_valid F (f (Inl e)) Q E"
  shows "fault_valid P (attempt m f) Q E"
  unfolding fault_valid_def
proof (intro allI impI)
  fix w :: "'a world" assume P: "P (w_disk w)"
  obtain r w' where m: "m w = (r, w')" by (cases "m w")
  obtain r'' w'' where f: "f r w' = (r'', w'')" by (cases "f r w'")
  note D = fault_validD [OF assms(1) P m]
  have "case r'' of Inl _ \<Rightarrow> E (w_disk w'') | Inr a \<Rightarrow> Q a (w_disk w'')"
  proof (cases r)
    case (Inl e)
    show ?thesis using fault_validD [OF assms(3) D(2) [OF Inl] f [unfolded Inl]] by (simp split: sum.split)
  next
    case (Inr a)
    show ?thesis using fault_validD [OF assms(2) D(1) [OF Inr] f [unfolded Inr]] by (simp split: sum.split)
  qed
  then show "case attempt m f w of (Inl _, w') \<Rightarrow> E (w_disk w') | (Inr a, w') \<Rightarrow> Q a (w_disk w')"
    using m f by (simp add: attempt_def split: sum.splits)
qed

lemma fault_raise_any: "fault_valid E (raise e) Q E"
  by (simp add: fault_valid_def raise_def)

lemma fault_andThen:
  assumes "fault_valid P m R E" "\<And>a. fault_valid (R a) (f a) Q E"
  shows "fault_valid P (andThen m f) Q E"
  unfolding andThen_attempt
  by (rule fault_attempt [OF assms(1)]) (use assms(2) in \<open>simp_all add: fault_raise_any\<close>)

lemma fault_if:
  assumes "b \<Longrightarrow> fault_valid P m Q E" "\<not> b \<Longrightarrow> fault_valid P n Q E"
  shows "fault_valid P (if b then m else n) Q E"
  using assms by simp

lemma fault_weaken:
  assumes "fault_valid P' m Q' E'" "\<And>d. P d \<Longrightarrow> P' d" "\<And>a d. Q' a d \<Longrightarrow> Q a d" "\<And>d. E' d \<Longrightarrow> E d"
  shows "fault_valid P m Q E"
  using assms unfolding fault_valid_def by (fastforce split: prod.split sum.split)

lemma fault_pre_False: "(\<And>d. \<not> P d) \<Longrightarrow> fault_valid P m Q E"
  by (simp add: fault_valid_def)

text \<open>What the precondition says apart from the disk can be assumed.\<close>

lemma fault_given:
  assumes "A \<Longrightarrow> fault_valid P m Q E" "\<And>d. P' d \<Longrightarrow> A \<and> P d"
  shows "fault_valid P' m Q E"
proof (cases A)
  case True
  show ?thesis by (rule fault_weaken [OF assms(1) [OF True]]) (use assms(2) in auto)
next
  case False
  then show ?thesis by (intro fault_pre_False) (use assms(2) in auto)
qed

lemma fault_forEach:
  assumes "\<And>x xs s. fault_valid (I (x # xs) s) (f x s) (I xs) E"
  shows "fault_valid (I xs s) (forEach f xs s) (I []) E"
proof (induction xs arbitrary: s)
  case Nil
  then show ?case by (simp add: fault_ret)
next
  case (Cons x xs)
  show ?case by (simp, rule fault_andThen [OF assms Cons.IH])
qed

lemma fault_run:
  assumes "fault_valid P m Q E" "P d" "run m d = (Inr a, d')"
  shows "Q a d'"
proof -
  obtain r w where m: "m (boot d []) = (r, w)" by (cases "m (boot d [])")
  have "P (w_disk (boot d []))" using assms(2) by (simp add: boot_def)
  from fault_validD(1) [OF assms(1) this m] assms(3) m show ?thesis by (simp add: run_def)
qed

section \<open>Metadata files\<close>

text \<open>What a JSON file holds: a value, or bytes that do not decode.\<close>

datatype 'a stored = Corrupt | Stored 'a

text \<open>Programs that keep a property of the disk, whatever fails.\<close>

abbreviation keeps :: "('d \<Rightarrow> bool) \<Rightarrow> ('d, 'e, 'a) io \<Rightarrow> bool" where
  "keeps I m \<equiv> fault_valid I m (\<lambda>_. I) I"

named_theorems keeps_intros \<open>programs that keep a property of the disk\<close>

lemma keeps_read_tick [keeps_intros]: "keeps I (read_tick e f)"
  by (rule fault_read_tick) simp_all

lemma keeps_ret [keeps_intros]: "keeps I (ret a)"
  by (rule fault_ret)

lemma keeps_raise [keeps_intros]: "keeps I (raise e)"
  by (rule fault_raise)

lemma keeps_andThen [keeps_intros]: "keeps I m \<Longrightarrow> (\<And>a. keeps I (f a)) \<Longrightarrow> keeps I (andThen m f)"
  by (rule fault_andThen)

lemma keeps_attempt [keeps_intros]: "keeps I m \<Longrightarrow> (\<And>r. keeps I (f r)) \<Longrightarrow> keeps I (attempt m f)"
  by (rule fault_attempt)

lemma keeps_forEach [keeps_intros]: "(\<And>x s. keeps I (f x s)) \<Longrightarrow> keeps I (forEach f xs s)"
  by (induction xs arbitrary: s) (auto intro!: keeps_intros)

lemma keeps_if [keeps_intros]: "(b \<Longrightarrow> keeps I m) \<Longrightarrow> (\<not> b \<Longrightarrow> keeps I n) \<Longrightarrow> keeps I (if b then m else n)"
  by simp

lemma keeps_tick:
  "(\<And>d r d'. I d \<Longrightarrow> f d = (r, d') \<Longrightarrow> I d') \<Longrightarrow> (\<And>d ns. I d \<Longrightarrow> I (partial d ns)) \<Longrightarrow> keeps I (tick e partial f)"
  by (rule fault_tick) (auto split: sum.split)

lemma keeps_final:
  assumes "keeps I m" "I d" "m (boot d fs) = (r, w)"
  shows "I (w_disk w)"
proof -
  have "I (w_disk (boot d fs))" using assms(2) by (simp add: boot_def)
  from fault_validD [OF assms(1) this assms(3)] show ?thesis by (cases r) auto
qed

end
