(* ===== verification/Reconcile_Plan.thy ===== *)
theory Reconcile_Plan
  imports Repo_Namespace
begin

text \<open>
  Three-way reconciliation (internal/syncengine/reconcile.go), the guarded plan and the first
  synchronization strategies (internal/syncengine/planning.go), and the snapshot helpers of
  internal/syncengine/resources.go.  Snapshots (internal/state/state.go) are finite maps from
  repository paths to file metadata; the host is a Unix system, so an absolute path starts with a
  slash and \<open>filepath.ToSlash\<close> is the identity.
\<close>

section \<open>Snapshots and actions\<close>

record file_meta =
  fm_hash :: string
  fm_mod_time :: int
  fm_size :: int

type_synonym snapshot = "(string, file_meta) fmap"

datatype action_type = PushToRemote | PullToLocal | DeleteRemote | DeleteLocal | RemoveRemote | MergeBoth

datatype action = Action (act_type: action_type) (act_path: string)

section \<open>reconcile.go\<close>

definition sideChanged :: "file_meta option \<Rightarrow> file_meta option \<Rightarrow> bool" where
  "sideChanged base side =
     (case base of
        None \<Rightarrow> side \<noteq> None
      | Some b \<Rightarrow> (case side of None \<Rightarrow> True | Some s \<Rightarrow> fm_hash b \<noteq> fm_hash s))"

definition resolveConflict :: "string \<Rightarrow> file_meta option \<Rightarrow> file_meta option \<Rightarrow> action option" where
  "resolveConflict p l r =
     (case (l, r) of
        (Some lm, Some rm) \<Rightarrow> if fm_hash lm = fm_hash rm then None else Some (Action MergeBoth p)
      | (Some _, None) \<Rightarrow> Some (Action MergeBoth p)
      | (None, Some _) \<Rightarrow> Some (Action MergeBoth p)
      | (None, None) \<Rightarrow> None)"

definition unionKeys :: "snapshot list \<Rightarrow> string list" where
  "unionKeys snaps = sort_unique (concat (map fm_keys snaps))"

text \<open>The body of the loop of \<open>ReconcileWithBlocked\<close>: the action, if any, for one path.\<close>

definition reconcilePath ::
  "snapshot \<Rightarrow> snapshot \<Rightarrow> snapshot \<Rightarrow> string list \<Rightarrow> string \<Rightarrow> action option" where
  "reconcilePath base local remote blocked p =
     (let b = fmlookup base p; l = fmlookup local p; r = fmlookup remote p in
      if p \<in> set blocked then (if r \<noteq> None then Some (Action RemoveRemote p) else None)
      else let localChanged = sideChanged b l; remoteChanged = sideChanged b r in
      if \<not> localChanged \<and> \<not> remoteChanged then None
      else if localChanged \<and> \<not> remoteChanged then
        Some (if l \<noteq> None then Action PushToRemote p else Action DeleteRemote p)
      else if remoteChanged \<and> \<not> localChanged then
        Some (if r \<noteq> None then Action PullToLocal p else Action DeleteLocal p)
      else resolveConflict p l r)"

definition ReconcileWithBlocked ::
  "snapshot \<Rightarrow> snapshot \<Rightarrow> snapshot \<Rightarrow> string list \<Rightarrow> action list" where
  "ReconcileWithBlocked base local remote blocked =
     List.map_filter (reconcilePath base local remote blocked) (unionKeys [base, local, remote])"

definition Reconcile :: "snapshot \<Rightarrow> snapshot \<Rightarrow> snapshot \<Rightarrow> action list" where
  "Reconcile base local remote = ReconcileWithBlocked base local remote []"

section \<open>First synchronization strategies\<close>

definition ApplyFirstSyncStrategy :: "action list \<Rightarrow> snapshot \<Rightarrow> snapshot \<Rightarrow> string \<Rightarrow> action list" where
  "ApplyFirstSyncStrategy actions local remote mode =
     (if mode = ''use-cloud'' then
        map (\<lambda>a. case act_type a of
               PushToRemote \<Rightarrow> Action DeleteLocal (act_path a)
             | MergeBoth \<Rightarrow> (if fmlookup remote (act_path a) \<noteq> None
                             then Action PullToLocal (act_path a) else Action DeleteLocal (act_path a))
             | _ \<Rightarrow> a) actions
      else if mode = ''use-local'' then
        map (\<lambda>a. case act_type a of
               PullToLocal \<Rightarrow> Action DeleteRemote (act_path a)
             | MergeBoth \<Rightarrow> (if fmlookup local (act_path a) \<noteq> None
                             then Action PushToRemote (act_path a) else Action DeleteRemote (act_path a))
             | _ \<Rightarrow> a) actions
      else actions)"

section \<open>Ownership of repository paths\<close>

definition portablePrefix :: string where
  "portablePrefix = ''agents/_portable/''"

definition isInternalPortablePath :: "string \<Rightarrow> bool" where
  "isInternalPortablePath repoRel =
     (let parts = split_on CHR ''/'' repoRel in
      if length parts = 5 \<and> parts ! 0 = ''agents'' \<and> parts ! 1 = ''_portable'' \<and> parts ! 2 = ''config''
         \<and> parts ! 3 = ''install'' \<and> parts ! 4 \<noteq> [] then True
      else if length parts = 6 \<and> parts ! 0 = ''agents'' \<and> parts ! 1 = ''_portable'' \<and> parts ! 2 = ''config''
         \<and> parts ! 3 = ''conflicts'' \<and> parts ! 4 \<noteq> [] then
        parts ! 5 = ''record.json'' \<or> parts ! 5 = ''base'' \<or> parts ! 5 = ''local'' \<or> parts ! 5 = ''remote''
      else False)"

definition specForRef :: "(string, spec) fmap \<Rightarrow> repo_ref \<Rightarrow> spec option" where
  "specForRef specs ref =
     fmlookup specs (if ref_common ref then ''common/'' @ ref_id ref
                     else ref_provider ref @ ''/'' @ ref_id ref)"

definition refMatchesSpec :: "repo_ref \<Rightarrow> spec \<Rightarrow> bool" where
  "refMatchesSpec ref s \<longleftrightarrow>
     Owns s (ref_relative ref) \<and> ref_category ref = sp_category s
     \<and> ref_portable ref = (sp_layout s = LayoutPortable)"

datatype owner_error = OwnerPath path_error | NoOwner string

definition specForRepoPath :: "(string, spec) fmap \<Rightarrow> string \<Rightarrow> owner_error + spec" where
  "specForRepoPath specs repoRel =
     (case ParseRepoPath repoRel of
        Inl e \<Rightarrow> Inl (OwnerPath e)
      | Inr ref \<Rightarrow>
          (case specForRef specs ref of
             None \<Rightarrow> Inl (NoOwner repoRel)
           | Some s \<Rightarrow> if refMatchesSpec ref s then Inr s else Inl (NoOwner repoRel)))"

text \<open>
  \<open>SplitRemoteSnapshot\<close> sorts the files of the repository into owned files, files of resources
  this machine does not manage, and malformed portable paths.  The Go loop ranges over a map; the
  two maps it fills do not depend on the order, and the blocked issues are listed in key order.
\<close>

datatype remote_class = Owned | Untouched | BlockedPath path_error

definition classifyRemote :: "(string, spec) fmap \<Rightarrow> string \<Rightarrow> remote_class" where
  "classifyRemote specs repoRel =
     (if isInternalPortablePath repoRel then Owned
      else case ParseRepoPath repoRel of
        Inl e \<Rightarrow> if prefix portablePrefix repoRel then BlockedPath e else Untouched
      | Inr ref \<Rightarrow>
          (case specForRef specs ref of
             None \<Rightarrow> Untouched
           | Some s \<Rightarrow> if refMatchesSpec ref s then Owned else Untouched))"

definition SplitRemoteSnapshot ::
  "snapshot \<Rightarrow> (string, spec) fmap \<Rightarrow> snapshot \<times> snapshot \<times> issue list" where
  "SplitRemoteSnapshot remote specs =
     (fmfilter (\<lambda>p. classifyRemote specs p = Owned) remote,
      fmfilter (\<lambda>p. classifyRemote specs p = Untouched) remote,
      List.map_filter
        (\<lambda>p. case classifyRemote specs p of
               BlockedPath e \<Rightarrow> Some \<lparr>iss_resource_key = [], iss_path = p, iss_code = ''remote-path-invalid'',
                                   iss_message = MsgPath e, iss_bytes = 0\<rparr>
             | _ \<Rightarrow> None)
        (fm_keys remote))"

section \<open>Prefixes and blocked paths\<close>

definition pathHasPrefix :: "string \<Rightarrow> string \<Rightarrow> bool" where
  "pathHasPrefix repoRel pre =
     (let pre' = trim_suffix ''/'' pre in repoRel = pre' \<or> prefix (pre' @ ''/'') repoRel)"

definition withoutPrefixes :: "snapshot \<Rightarrow> string list \<Rightarrow> snapshot" where
  "withoutPrefixes snap pres = fmfilter (\<lambda>p. \<not> list_ex (pathHasPrefix p) pres) snap"

definition sentinel :: string where
  "sentinel = ''__synchub_resource_root__''"

definition resourceRepoPrefix :: "spec \<Rightarrow> string" where
  "resourceRepoPrefix s =
     (case RepoPath s sentinel of Inl _ \<Rightarrow> [] | Inr repoRel \<Rightarrow> trim_suffix sentinel repoRel)"

definition isAbs :: "string \<Rightarrow> bool" where
  "isAbs p = prefix ''/'' p"

definition skippedPrefix :: "(string, spec) fmap \<Rightarrow> issue \<Rightarrow> string option" where
  "skippedPrefix specs iss =
     (case fmlookup specs (iss_resource_key iss) of
        None \<Rightarrow> None
      | Some s \<Rightarrow>
          (let pre = (if iss_path iss \<noteq> [] \<and> \<not> isAbs (iss_path iss) then
                        (case RepoPath s (iss_path iss) of Inr repoRel \<Rightarrow> repoRel | Inl _ \<Rightarrow> resourceRepoPrefix s)
                      else resourceRepoPrefix s)
           in if pre \<noteq> [] then Some pre else None))"

definition skippedRepoPrefixes :: "issue list \<Rightarrow> (string, spec) fmap \<Rightarrow> string list" where
  "skippedRepoPrefixes issues specs = sort_unique (List.map_filter (skippedPrefix specs) issues)"

definition blockedPathOf :: "(string, spec) fmap \<Rightarrow> issue \<Rightarrow> string option" where
  "blockedPathOf specs iss =
     (if prefix ''agents/'' (iss_path iss) then Some (iss_path iss)
      else case fmlookup specs (iss_resource_key iss) of
        None \<Rightarrow> None
      | Some s \<Rightarrow>
          if iss_path iss = [] \<or> isAbs (iss_path iss) then None
          else (case RepoPath s (iss_path iss) of Inr repoRel \<Rightarrow> Some repoRel | Inl _ \<Rightarrow> None))"

definition blockedRepoPaths :: "issue list \<Rightarrow> (string, spec) fmap \<Rightarrow> string list" where
  "blockedRepoPaths issues specs = sort_unique (List.map_filter (blockedPathOf specs) issues)"

definition preserveSnapshot :: "snapshot \<Rightarrow> snapshot \<Rightarrow> string list \<Rightarrow> snapshot" where
  "preserveSnapshot previous current preserve =
     fold (\<lambda>p next. fm_set p (fmlookup previous p) next) preserve current"

section \<open>The guarded plan\<close>

record resource_action_plan =
  pl_base :: snapshot
  pl_local :: snapshot
  pl_remote :: snapshot
  pl_skip_prefixes :: "string list"
  pl_blocked_paths :: "string list"
  pl_actions :: "action list"

definition prepareResourcePlan ::
  "snapshot \<Rightarrow> snapshot \<Rightarrow> snapshot \<Rightarrow> snapshot \<Rightarrow> (string, spec) fmap \<Rightarrow> issue list \<Rightarrow> issue list
     \<Rightarrow> resource_action_plan" where
  "prepareResourcePlan base local remoteSnapshot validRemote specs skipped blocked =
     (let baseOwned = fst (SplitRemoteSnapshot base specs);
          local1 = local ++\<^sub>f fmfilter isInternalPortablePath validRemote;
          skipPrefixes = skippedRepoPrefixes skipped specs;
          local2 = withoutPrefixes local1 skipPrefixes;
          baseOwned1 = withoutPrefixes baseOwned skipPrefixes;
          validRemote1 = withoutPrefixes validRemote skipPrefixes;
          blockedPaths = blockedRepoPaths blocked specs;
          validRemote2 = validRemote1 ++\<^sub>f fmfilter (\<lambda>p. p \<in> set blockedPaths) remoteSnapshot
      in \<lparr>pl_base = baseOwned1, pl_local = local2, pl_remote = validRemote2,
          pl_skip_prefixes = skipPrefixes, pl_blocked_paths = blockedPaths,
          pl_actions = ReconcileWithBlocked baseOwned1 local2 validRemote2 blockedPaths\<rparr>)"

definition PreviewResourceActions ::
  "snapshot \<Rightarrow> snapshot \<Rightarrow> snapshot \<Rightarrow> snapshot \<Rightarrow> (string, spec) fmap \<Rightarrow> issue list \<Rightarrow> issue list
     \<Rightarrow> string \<Rightarrow> action list \<times> string list" where
  "PreviewResourceActions base local remoteSnapshot validRemote specs skipped blocked firstSyncMode =
     (let plan = prepareResourcePlan base local remoteSnapshot validRemote specs skipped blocked
      in (ApplyFirstSyncStrategy (pl_actions plan) (pl_local plan) (pl_remote plan) firstSyncMode,
          pl_blocked_paths plan))"

definition PrepareResourceActions ::
  "snapshot \<Rightarrow> snapshot \<Rightarrow> snapshot \<Rightarrow> snapshot \<Rightarrow> (string, spec) fmap \<Rightarrow> issue list \<Rightarrow> issue list
     \<Rightarrow> action list \<times> string list" where
  "PrepareResourceActions base local remoteSnapshot validRemote specs skipped blocked =
     PreviewResourceActions base local remoteSnapshot validRemote specs skipped blocked []"

section \<open>One action per path\<close>

lemma reconcilePath_act_path: "reconcilePath b l r bl p = Some a \<Longrightarrow> act_path a = p"
  by (auto simp: reconcilePath_def resolveConflict_def Let_def split: if_splits option.splits)

lemma set_unionKeys [simp]:
  "set (unionKeys [base, local, remote]) = fset (fmdom base) \<union> fset (fmdom local) \<union> fset (fmdom remote)"
  by (auto simp: unionKeys_def)

lemma reconcilePath_outside:
  "p \<notin> set (unionKeys [base, local, remote]) \<Longrightarrow> reconcilePath base local remote blocked p = None"
  by (auto simp: fm_simps reconcilePath_def sideChanged_def Let_def)

lemma map_filter_act_path:
  assumes "\<And>p a. f p = Some a \<Longrightarrow> act_path a = p"
  shows "map act_path (List.map_filter f ps) = filter (\<lambda>p. f p \<noteq> None) ps"
  using assms by (induction ps) (auto simp: List.map_filter_simps split: option.splits)

lemma Reconcile_actions_iff:
  "a \<in> set (ReconcileWithBlocked base local remote blocked) \<longleftrightarrow>
     reconcilePath base local remote blocked (act_path a) = Some a"
proof -
  have "a \<in> set (ReconcileWithBlocked base local remote blocked) \<longleftrightarrow>
      (\<exists>p \<in> set (unionKeys [base, local, remote]). reconcilePath base local remote blocked p = Some a)"
    unfolding ReconcileWithBlocked_def by (force simp: List.map_filter_def)
  then show ?thesis
    using reconcilePath_outside reconcilePath_act_path by (metis option.distinct(1))
qed

lemma map_act_path_Reconcile:
  "map act_path (ReconcileWithBlocked base local remote blocked) =
     filter (\<lambda>p. reconcilePath base local remote blocked p \<noteq> None) (unionKeys [base, local, remote])"
  unfolding ReconcileWithBlocked_def by (rule map_filter_act_path) (rule reconcilePath_act_path)

lemma distinct_action_paths: "distinct (map act_path (ReconcileWithBlocked base local remote blocked))"
  unfolding map_act_path_Reconcile unionKeys_def by (rule distinct_filter) simp

lemma sorted_action_paths: "sorted (map act_path (ReconcileWithBlocked base local remote blocked))"
  unfolding map_act_path_Reconcile unionKeys_def by (rule sorted_wrt_filter) simp

section \<open>The effect of a plan\<close>

text \<open>
  The abstract effect of an action on the two sides: what the engine's handlers do to the set of
  files and their contents.  A merge is left to the merge component and changes nothing here.
\<close>

fun effectAt :: "action_type \<Rightarrow> file_meta option \<times> file_meta option \<Rightarrow> file_meta option \<times> file_meta option" where
  "effectAt PushToRemote (l, r) = (l, l)"
| "effectAt PullToLocal (l, r) = (r, r)"
| "effectAt DeleteRemote (l, r) = (l, None)"
| "effectAt DeleteLocal (l, r) = (None, r)"
| "effectAt RemoveRemote (l, r) = (l, None)"
| "effectAt MergeBoth (l, r) = (l, r)"

definition effect :: "action \<Rightarrow> snapshot \<times> snapshot \<Rightarrow> snapshot \<times> snapshot" where
  "effect a lr =
     (let p = act_path a; e = effectAt (act_type a) (fmlookup (fst lr) p, fmlookup (snd lr) p)
      in (fm_set p (fst e) (fst lr), fm_set p (snd e) (snd lr)))"

definition at :: "snapshot \<times> snapshot \<Rightarrow> string \<Rightarrow> file_meta option \<times> file_meta option" where
  "at lr p = (fmlookup (fst lr) p, fmlookup (snd lr) p)"

lemma at_effect: "at (effect a lr) p = (if act_path a = p then effectAt (act_type a) (at lr p) else at lr p)"
  by (auto simp: at_def effect_def Let_def)

lemma at_fold_effect_other:
  "p \<notin> act_path ` set as \<Longrightarrow> at (fold effect as lr) p = at lr p"
  by (induction as arbitrary: lr) (auto simp: at_effect)

lemma at_fold_effect:
  assumes "distinct (map act_path as)" "a \<in> set as"
  shows "at (fold effect as lr) (act_path a) = effectAt (act_type a) (at lr (act_path a))"
  using assms
proof (induction as arbitrary: lr)
  case Nil
  then show ?case by simp
next
  case (Cons x xs)
  show ?case
  proof (cases "a = x")
    case True
    have "act_path x \<notin> act_path ` set xs" using Cons.prems(1) by auto
    with True show ?thesis by (simp add: at_fold_effect_other at_effect)
  next
    case False
    with Cons.prems have mem: "a \<in> set xs" by auto
    then have "act_path x \<noteq> act_path a" using Cons.prems(1) by auto
    then show ?thesis using Cons.IH [OF _ mem] Cons.prems(1) by (simp add: at_effect)
  qed
qed

lemma at_after_plan:
  "at (fold effect (ReconcileWithBlocked base local remote blocked) (local, remote)) p =
     (case reconcilePath base local remote blocked p of
        None \<Rightarrow> (fmlookup local p, fmlookup remote p)
      | Some a \<Rightarrow> effectAt (act_type a) (fmlookup local p, fmlookup remote p))"
proof (cases "reconcilePath base local remote blocked p")
  case None
  then have "p \<notin> act_path ` set (ReconcileWithBlocked base local remote blocked)"
    by (auto simp: Reconcile_actions_iff)
  from at_fold_effect_other [OF this, of "(local, remote)"] None show ?thesis by (simp add: at_def)
next
  case (Some a)
  then have p: "act_path a = p" by (rule reconcilePath_act_path)
  with Some have "a \<in> set (ReconcileWithBlocked base local remote blocked)"
    by (simp add: Reconcile_actions_iff)
  from at_fold_effect [OF distinct_action_paths this] Some p show ?thesis by (simp add: at_def)
qed

text \<open>Two sides agree on a path when both lack it or both hold it with the same hash.\<close>

definition agree :: "file_meta option \<Rightarrow> file_meta option \<Rightarrow> bool" where
  "agree x y \<longleftrightarrow> map_option fm_hash x = map_option fm_hash y"

lemma sideChanged_agree: "sideChanged b s \<longleftrightarrow> \<not> agree b s"
  by (auto simp: sideChanged_def agree_def split: option.splits)

lemma resolveConflict_None: "resolveConflict p l r = None \<longleftrightarrow> agree l r"
  by (auto simp: resolveConflict_def agree_def split: option.splits)

lemma resolveConflict_Some: "resolveConflict p l r = Some a \<Longrightarrow> a = Action MergeBoth p \<and> \<not> agree l r"
  by (auto simp: resolveConflict_def agree_def split: option.splits if_splits)

lemma agree_refl [simp]: "agree x x"
  by (simp add: agree_def)

lemma agree_sym: "agree x y \<Longrightarrow> agree y x"
  by (simp add: agree_def)

lemma agree_trans: "agree x y \<Longrightarrow> agree y z \<Longrightarrow> agree x z"
  by (simp add: agree_def)

text \<open>
  The specification of the decision for one path, stated on agreement alone: nothing to do when
  the sides already agree, otherwise the side that still agrees with the base takes the other
  side's state, and two diverging edits are merged.
\<close>

definition three_way_decision ::
  "string \<Rightarrow> file_meta option \<Rightarrow> file_meta option \<Rightarrow> file_meta option \<Rightarrow> action option" where
  "three_way_decision p b l r =
     (if agree l r then None
      else if agree b r then Some (Action (if l = None then DeleteRemote else PushToRemote) p)
      else if agree b l then Some (Action (if r = None then DeleteLocal else PullToLocal) p)
      else Some (Action MergeBoth p))"

lemma reconcilePath_spec:
  "reconcilePath base local remote blocked p =
     (if p \<in> set blocked then (if fmlookup remote p = None then None else Some (Action RemoveRemote p))
      else three_way_decision p (fmlookup base p) (fmlookup local p) (fmlookup remote p))"
proof -
  let ?b = "fmlookup base p" and ?l = "fmlookup local p" and ?r = "fmlookup remote p"
  have res: "resolveConflict p ?l ?r = (if agree ?l ?r then None else Some (Action MergeBoth p))"
    using resolveConflict_None [of p ?l ?r] resolveConflict_Some [of p ?l ?r]
    by (cases "resolveConflict p ?l ?r") auto
  show ?thesis
    by (auto simp: reconcilePath_def three_way_decision_def Let_def sideChanged_agree res
        intro: agree_sym agree_trans)
qed

lemma not_agree_None: "\<not> agree x y \<Longrightarrow> x = None \<Longrightarrow> y \<noteq> None"
  by (auto simp: agree_def)

lemma agree_None: "agree x y \<Longrightarrow> x = None \<longleftrightarrow> y = None"
  by (auto simp: agree_def)

section \<open>Strategies, prefixes and preserved paths\<close>

definition strategy_map :: "snapshot \<Rightarrow> snapshot \<Rightarrow> string \<Rightarrow> action \<Rightarrow> action" where
  "strategy_map local remote mode a = hd (ApplyFirstSyncStrategy [a] local remote mode)"

lemma ApplyFirstSyncStrategy_map:
  "ApplyFirstSyncStrategy as local remote mode = map (strategy_map local remote mode) as"
  by (auto simp: strategy_map_def ApplyFirstSyncStrategy_def intro: map_idI [symmetric])

lemma strategy_map_path [simp]: "act_path (strategy_map local remote mode a) = act_path a"
  by (cases a) (auto simp: strategy_map_def ApplyFirstSyncStrategy_def split: action_type.split)

lemma at_after_strategy:
  "at (fold effect (ApplyFirstSyncStrategy (ReconcileWithBlocked base local remote blocked) local remote mode)
        (local, remote)) p =
     (case reconcilePath base local remote blocked p of
        None \<Rightarrow> (fmlookup local p, fmlookup remote p)
      | Some a \<Rightarrow> effectAt (act_type (strategy_map local remote mode a)) (fmlookup local p, fmlookup remote p))"
proof -
  let ?plan = "ReconcileWithBlocked base local remote blocked"
  let ?as = "map (strategy_map local remote mode) ?plan"
  have paths: "map act_path ?as = map act_path ?plan" by simp
  have distinct: "distinct (map act_path ?as)" unfolding paths by (rule distinct_action_paths)
  show ?thesis
  proof (cases "reconcilePath base local remote blocked p")
    case None
    then have "p \<notin> act_path ` set ?plan" by (auto simp: Reconcile_actions_iff)
    then have "p \<notin> act_path ` set ?as" by auto
    from at_fold_effect_other [OF this, of "(local, remote)"] None show ?thesis
      by (simp add: at_def ApplyFirstSyncStrategy_map)
  next
    case (Some a)
    then have p: "act_path a = p" by (rule reconcilePath_act_path)
    with Some have "a \<in> set ?plan" by (simp add: Reconcile_actions_iff)
    then have "strategy_map local remote mode a \<in> set ?as" by simp
    from at_fold_effect [OF distinct this, of "(local, remote)"] Some p show ?thesis
      by (simp add: at_def ApplyFirstSyncStrategy_map)
  qed
qed

lemma fmlookup_withoutPrefixes [simp]:
  "fmlookup (withoutPrefixes snap pres) p = (if list_ex (pathHasPrefix p) pres then None else fmlookup snap p)"
  by (simp add: withoutPrefixes_def)

lemma fmlookup_preserveSnapshot:
  "fmlookup (preserveSnapshot prev cur ps) p = (if p \<in> set ps then fmlookup prev p else fmlookup cur p)"
  unfolding preserveSnapshot_def by (induction ps arbitrary: cur) auto

lemma fmlookup_SplitRemoteSnapshot:
  "fmlookup (fst (SplitRemoteSnapshot remote specs)) p =
     (if classifyRemote specs p = Owned then fmlookup remote p else None)"
  by (simp add: SplitRemoteSnapshot_def)

text \<open>The decision of the guarded plan for one path.\<close>

lemma prepareResourcePlan_fields:
  fixes base local remoteSnapshot validRemote specs skipped blocked
  defines "plan \<equiv> prepareResourcePlan base local remoteSnapshot validRemote specs skipped blocked"
  shows "pl_actions plan =
      ReconcileWithBlocked (pl_base plan) (pl_local plan) (pl_remote plan) (blockedRepoPaths blocked specs)"
    and "pl_blocked_paths plan = blockedRepoPaths blocked specs"
    and "list_ex (pathHasPrefix p) (skippedRepoPrefixes skipped specs) \<Longrightarrow>
      p \<notin> set (blockedRepoPaths blocked specs) \<Longrightarrow>
      fmlookup (pl_base plan) p = None \<and> fmlookup (pl_local plan) p = None \<and> fmlookup (pl_remote plan) p = None"
    and "isInternalPortablePath p \<Longrightarrow> fmlookup local p = None \<Longrightarrow>
      p \<notin> set (blockedRepoPaths blocked specs) \<Longrightarrow> fmlookup (pl_local plan) p = fmlookup (pl_remote plan) p"
  by (auto simp: plan_def prepareResourcePlan_def Let_def fmlookup_add fmlookup_dom_iff)

section \<open>Properties\<close>

text \<open>
  C17. The optimised decision code equals the specification: the action list holds exactly one
  action for every path whose decision is not "nothing to do", strictly sorted by path, a blocked
  path being only ever removed from the repository.
\<close>

theorem reconcile_meets_specification:
  "sorted (map act_path (ReconcileWithBlocked base local remote blocked))
   \<and> distinct (map act_path (ReconcileWithBlocked base local remote blocked))
   \<and> set (ReconcileWithBlocked base local remote blocked) =
       {a. (if act_path a \<in> set blocked
            then fmlookup remote (act_path a) \<noteq> None \<and> act_type a = RemoveRemote
            else three_way_decision (act_path a) (fmlookup base (act_path a))
                   (fmlookup local (act_path a)) (fmlookup remote (act_path a)) = Some a)}"
proof -
  have "a \<in> set (ReconcileWithBlocked base local remote blocked) \<longleftrightarrow>
       (if act_path a \<in> set blocked
        then fmlookup remote (act_path a) \<noteq> None \<and> act_type a = RemoveRemote
        else three_way_decision (act_path a) (fmlookup base (act_path a))
               (fmlookup local (act_path a)) (fmlookup remote (act_path a)) = Some a)" for a
    by (cases a) (auto simp: Reconcile_actions_iff reconcilePath_spec)
  then show ?thesis using sorted_action_paths distinct_action_paths by blast
qed

text \<open>
  C22. No lost update: a local file is pulled over or deleted only if it is unchanged since the
  base, and a repository file is pushed over or moved to the trash only if it is unchanged since the base.
\<close>

theorem reconcile_loses_no_update:
  "\<forall>a \<in> set (ReconcileWithBlocked base local remote blocked).
     (act_type a \<in> {PullToLocal, DeleteLocal} \<longrightarrow>
        agree (fmlookup base (act_path a)) (fmlookup local (act_path a)))
   \<and> (act_type a \<in> {PushToRemote, DeleteRemote} \<longrightarrow>
        agree (fmlookup base (act_path a)) (fmlookup remote (act_path a)))"
proof
  fix a
  assume "a \<in> set (ReconcileWithBlocked base local remote blocked)"
  then have "reconcilePath base local remote blocked (act_path a) = Some a"
    by (simp add: Reconcile_actions_iff)
  then show "(act_type a \<in> {PullToLocal, DeleteLocal} \<longrightarrow>
        agree (fmlookup base (act_path a)) (fmlookup local (act_path a)))
   \<and> (act_type a \<in> {PushToRemote, DeleteRemote} \<longrightarrow>
        agree (fmlookup base (act_path a)) (fmlookup remote (act_path a)))"
    by (cases a) (auto simp: reconcilePath_spec three_way_decision_def split: if_splits)
qed

definition example_meta :: "string \<Rightarrow> file_meta" where
  "example_meta h = \<lparr>fm_hash = h, fm_mod_time = 0, fm_size = 1\<rparr>"

definition example_snapshot :: "string \<Rightarrow> string \<Rightarrow> snapshot" where
  "example_snapshot p h = fmap_of_list [(p, example_meta h)]"

theorem reconcile_loses_no_update_witness:
  "Action PullToLocal ''a'' \<in> set (ReconcileWithBlocked (example_snapshot ''a'' ''1'')
      (example_snapshot ''a'' ''1'') (example_snapshot ''a'' ''2'') [])
   \<and> agree (fmlookup (example_snapshot ''a'' ''1'') ''a'') (fmlookup (example_snapshot ''a'' ''1'') ''a'')"
proof -
  have mem: "Action PullToLocal ''a'' \<in> set (ReconcileWithBlocked (example_snapshot ''a'' ''1'')
      (example_snapshot ''a'' ''1'') (example_snapshot ''a'' ''2'') [])"
    by (simp add: Reconcile_actions_iff reconcilePath_spec three_way_decision_def agree_def
        example_snapshot_def example_meta_def)
  show ?thesis
    using mem bspec [OF reconcile_loses_no_update mem] by simp
qed

text \<open>
  C23. Convergence and idempotence: once the plan has been carried out, the two sides agree on
  every path that was neither blocked nor handed to the merger, and reconciling again from the
  state reached, with the new repository as the base, asks for nothing more on those paths.
\<close>

theorem reconcile_converges:
  assumes "(l', r') = fold effect (ReconcileWithBlocked base local remote blocked) (local, remote)"
    and "p \<notin> set blocked" and "Action MergeBoth p \<notin> set (ReconcileWithBlocked base local remote blocked)"
  shows "agree (fmlookup l' p) (fmlookup r' p)
     \<and> p \<notin> act_path ` set (ReconcileWithBlocked r' l' r' blocked)"
proof -
  let ?d = "reconcilePath base local remote blocked p"
  have after: "at (l', r') p = (case ?d of None \<Rightarrow> (fmlookup local p, fmlookup remote p)
      | Some a \<Rightarrow> effectAt (act_type a) (fmlookup local p, fmlookup remote p))"
    unfolding assms(1) by (rule at_after_plan)
  have no_merge: "?d \<noteq> Some (Action MergeBoth p)" using assms(3) by (simp add: Reconcile_actions_iff)
  have agree: "agree (fmlookup l' p) (fmlookup r' p)"
    using after no_merge assms(2)
    by (auto simp: at_def reconcilePath_spec three_way_decision_def split: if_splits)
  then have "reconcilePath r' l' r' blocked p = None"
    using assms(2) by (simp add: reconcilePath_spec three_way_decision_def)
  then show ?thesis using agree by (auto simp: Reconcile_actions_iff)
qed

theorem reconcile_converges_witness:
  "ReconcileWithBlocked (example_snapshot ''a'' ''1'') (example_snapshot ''a'' ''1'')
      (example_snapshot ''a'' ''2'') [] = [Action PullToLocal ''a'']
   \<and> ''a'' \<notin> act_path ` set (ReconcileWithBlocked (example_snapshot ''a'' ''2'')
      (example_snapshot ''a'' ''2'') (example_snapshot ''a'' ''2'') [])"
proof -
  let ?one = "example_snapshot ''a'' ''1''" and ?two = "example_snapshot ''a'' ''2''"
  have plan: "ReconcileWithBlocked ?one ?one ?two [] = [Action PullToLocal ''a'']"
    by (simp add: ReconcileWithBlocked_def unionKeys_def reconcilePath_spec three_way_decision_def agree_def
        example_snapshot_def example_meta_def List.map_filter_simps sort_unique_def
        sorted_list_of_fset.rep_eq)
  have run: "(?two, ?two) = fold effect (ReconcileWithBlocked ?one ?one ?two []) (?one, ?two)"
    unfolding plan by (simp add: effect_def Let_def fm_set_def example_snapshot_def)
  have noblock: "''a'' \<notin> set []" by simp
  have nomerge: "Action MergeBoth ''a'' \<notin> set (ReconcileWithBlocked ?one ?one ?two [])"
    by (simp add: Reconcile_actions_iff reconcilePath_spec three_way_decision_def agree_def
        example_snapshot_def example_meta_def)
  from reconcile_converges [OF run noblock nomerge] plan show ?thesis by blast
qed

text \<open>
  The direction of a first synchronization: starting with an empty base, "use-cloud" leaves
  every unblocked repository file as it was and makes the local side agree with it, "use-local"
  leaves every local file as it was and makes the repository agree with it.
\<close>

lemma first_sync_direction:
  assumes "(l', r') = fold effect
      (ApplyFirstSyncStrategy (ReconcileWithBlocked fmempty local remote blocked) local remote mode)
      (local, remote)"
    and "p \<notin> set blocked"
  shows "(mode = ''use-cloud'' \<longrightarrow>
            fmlookup r' p = fmlookup remote p \<and> agree (fmlookup l' p) (fmlookup remote p))
       \<and> (mode = ''use-local'' \<longrightarrow>
            fmlookup l' p = fmlookup local p \<and> agree (fmlookup r' p) (fmlookup local p))"
proof -
  have after: "at (l', r') p =
     (case reconcilePath fmempty local remote blocked p of
        None \<Rightarrow> (fmlookup local p, fmlookup remote p)
      | Some a \<Rightarrow> effectAt (act_type (strategy_map local remote mode a)) (fmlookup local p, fmlookup remote p))"
    unfolding assms(1) by (rule at_after_strategy)
  show ?thesis
    using after assms(2)
    by (auto simp: at_def reconcilePath_spec three_way_decision_def strategy_map_def
        ApplyFirstSyncStrategy_def split: if_splits dest: agree_sym agree_None)
qed

theorem first_sync_direction_witness:
  "\<exists>l' r'. (l', r') = fold effect
      (ApplyFirstSyncStrategy (ReconcileWithBlocked fmempty (example_snapshot ''a'' ''1'')
         (example_snapshot ''a'' ''2'') []) (example_snapshot ''a'' ''1'') (example_snapshot ''a'' ''2'')
         ''use-cloud'') (example_snapshot ''a'' ''1'', example_snapshot ''a'' ''2'')
    \<and> fmlookup r' ''a'' = Some (example_meta ''2'') \<and> agree (fmlookup l' ''a'') (Some (example_meta ''2''))"
proof -
  let ?one = "example_snapshot ''a'' ''1''" and ?two = "example_snapshot ''a'' ''2''"
  obtain l' r' where run: "(l', r') = fold effect
      (ApplyFirstSyncStrategy (ReconcileWithBlocked fmempty ?one ?two []) ?one ?two ''use-cloud'') (?one, ?two)"
    by (metis surj_pair)
  have "''a'' \<notin> set []" by simp
  from first_sync_direction [OF run this] run show ?thesis
    by (auto simp: example_snapshot_def)
qed

text \<open>
  The guards of the plan: below the prefix of a skipped resource nothing happens, the engine's
  own records (conflict bundles, install metadata) are never pushed, pulled or deleted as
  resources, and for a blocked path the only action is its removal from the repository.
\<close>

lemma plan_respects_guards:
  assumes plan: "plan = prepareResourcePlan base local remoteSnapshot validRemote specs skipped blocked"
    and mem: "a \<in> set (pl_actions plan)"
  shows "(act_path a \<in> set (blockedRepoPaths blocked specs) \<longrightarrow> act_type a = RemoveRemote)
    \<and> (act_path a \<notin> set (blockedRepoPaths blocked specs) \<longrightarrow>
        act_type a \<noteq> RemoveRemote
        \<and> \<not> list_ex (pathHasPrefix (act_path a)) (skippedRepoPrefixes skipped specs)
        \<and> (isInternalPortablePath (act_path a) \<longrightarrow> fmlookup local (act_path a) \<noteq> None))"
proof (cases "act_path a \<in> set (blockedRepoPaths blocked specs)")
  case True
  with mem show ?thesis
    unfolding plan prepareResourcePlan_fields(1)
    by (auto simp: Reconcile_actions_iff reconcilePath_spec split: if_splits)
       (metis action.sel(1))+
next
  case False
  let ?p = "act_path a"
  have d: "three_way_decision ?p (fmlookup (pl_base plan) ?p) (fmlookup (pl_local plan) ?p)
      (fmlookup (pl_remote plan) ?p) = Some a"
    using mem False unfolding plan prepareResourcePlan_fields(1)
    by (simp add: Reconcile_actions_iff reconcilePath_spec)
  have "act_type a \<noteq> RemoveRemote" and differ: "\<not> agree (fmlookup (pl_local plan) ?p) (fmlookup (pl_remote plan) ?p)"
    using d by (cases a; auto simp: three_way_decision_def split: if_splits)+
  moreover have "\<not> list_ex (pathHasPrefix ?p) (skippedRepoPrefixes skipped specs)"
    using prepareResourcePlan_fields(3) [OF _ False] differ agree_refl plan by metis
  moreover have "isInternalPortablePath ?p \<longrightarrow> fmlookup local ?p \<noteq> None"
    using prepareResourcePlan_fields(4) [OF _ _ False] differ agree_refl plan by metis
  ultimately show ?thesis using False by blast
qed

theorem plan_respects_guards_witness:
  "Action RemoveRemote ''agents/x/config/a'' \<in> set (pl_actions (prepareResourcePlan fmempty fmempty
      (example_snapshot ''agents/x/config/a'' ''1'') fmempty fmempty []
      [\<lparr>iss_resource_key = [], iss_path = ''agents/x/config/a'', iss_code = ''c'',
        iss_message = Msg [], iss_bytes = 0\<rparr>]))
   \<and> act_type (Action RemoveRemote ''agents/x/config/a'') = RemoveRemote"
proof -
  let ?issue = "\<lparr>iss_resource_key = [], iss_path = ''agents/x/config/a'', iss_code = ''c'',
      iss_message = Msg [], iss_bytes = 0\<rparr>"
  have blocked: "''agents/x/config/a'' \<in> set (blockedRepoPaths [?issue] fmempty)"
    by (simp add: blockedRepoPaths_def blockedPathOf_def)
  have mem: "Action RemoveRemote ''agents/x/config/a'' \<in> set (pl_actions (prepareResourcePlan fmempty fmempty
      (example_snapshot ''agents/x/config/a'' ''1'') fmempty fmempty [] [?issue]))"
    unfolding prepareResourcePlan_fields(1) using blocked
    by (simp add: Reconcile_actions_iff reconcilePath_spec prepareResourcePlan_def Let_def example_snapshot_def)
  from plan_respects_guards [OF refl mem] blocked mem show ?thesis by simp
qed

end
