(* ===== verification/Install_Executor.thy ===== *)
theory Install_Executor
  imports Install_Plan Fault_IO Reconcile_Plan
begin

text \<open>
  Running install plans (internal/installplan: store.go, executor.go, manager.go, inventory.go): the
  store of approvals, of applied operations and of the pending plan, the executor, and the manager
  that builds a plan from the manifests and hands it over.  The disk records the commands that were
  started, in order; what a command answers is a parameter that may depend on all earlier ones.
  Writing a JSON file is one atomic step (a rename); a payload copy that stops midway is not kept.
\<close>

section \<open>State\<close>

record command =
  cm_executable :: string
  cm_args :: "string list"
  cm_workingDir :: string

record run_result =
  rr_stderr :: string
  rr_error :: "string option"

datatype payload = PayloadLink | Payload (payload_files: "(string \<times> string) list") (inner_link: bool)

record install_disk =
  id_pending :: "plan stored option"
  id_approvals :: "(string, bool) fmap stored option"
  id_applied :: "(string, bool) fmap stored option"
  id_repo :: "(string, string) fmap"
  id_skills :: "skill_tree list"
  id_payloads :: "(string, payload) fmap"
  id_backups :: "(string \<times> string \<times> (string \<times> string) list) list"
  id_commands :: "command list"

datatype trailing = AtEnd | AnotherValue | Garbage

record install_env =
  ie_sha :: "string \<Rightarrow> string"
  ie_marshalPlan :: "install_decl list \<Rightarrow> operation list \<Rightarrow> string option"
  ie_decode :: "string \<Rightarrow> (install_decl list \<times> trailing) option"
  ie_encode :: "install_decl list \<Rightarrow> string option"
  ie_runner :: "command list \<Rightarrow> command \<Rightarrow> run_result"

type_synonym 'a install_io = "(install_disk, install_error, 'a) io"

section \<open>Store\<close>

definition approvalKey :: "install_env \<Rightarrow> operation \<Rightarrow> string" where
  "approvalKey env p = ie_sha env (op_adapter p @ NUL # op_source p)"

definition appliedKey :: "install_env \<Rightarrow> operation \<Rightarrow> string" where
  "appliedKey env p = ie_sha env (operationIdentity p)"

definition loadSet :: "string \<Rightarrow> (install_disk \<Rightarrow> (string, bool) fmap stored option) \<Rightarrow> (string, bool) fmap install_io" where
  "loadSet name field = read_tick StoreFault (\<lambda>d.
     case field d of None \<Rightarrow> Inr fmempty | Some Corrupt \<Rightarrow> Inl (StoreCorrupt name) | Some (Stored m) \<Rightarrow> Inr m)"

definition atomically :: "(install_disk \<Rightarrow> install_disk) \<Rightarrow> unit install_io" where
  "atomically f = tick StoreFault (\<lambda>d _. d) (\<lambda>d. (Inr (), f d))"

definition flag :: "(string, bool) fmap \<Rightarrow> string \<Rightarrow> bool" where
  "flag m k = (case fmlookup m k of None \<Rightarrow> False | Some b \<Rightarrow> b)"

definition SavePending :: "plan \<Rightarrow> unit install_io" where
  "SavePending pl = atomically (\<lambda>d. d\<lparr>id_pending := Some (Stored pl)\<rparr>)"

definition Pending :: "plan option install_io" where
  "Pending = read_tick StoreFault (\<lambda>d.
     case id_pending d of None \<Rightarrow> Inr None | Some Corrupt \<Rightarrow> Inl (StoreCorrupt ''pending.json'') | Some (Stored pl) \<Rightarrow> Inr (Some pl))"

definition Approve :: "install_env \<Rightarrow> operation \<Rightarrow> unit install_io" where
  "Approve env p =
     (if op_adapter p = [] \<or> op_source p = [] then raise IncompleteApproval
      else case rejectShellSyntax (op_source p) of Some e \<Rightarrow> raise e | None \<Rightarrow>
        andThen (loadSet ''approvals.json'' id_approvals) (\<lambda>approvals.
          atomically (\<lambda>d. d\<lparr>id_approvals := Some (Stored (fmupd (approvalKey env p) True approvals))\<rparr>)))"

definition approvalStatus :: "install_env \<Rightarrow> operation \<Rightarrow> bool install_io" where
  "approvalStatus env p =
     andThen (loadSet ''approvals.json'' id_approvals) (\<lambda>approvals. ret (flag approvals (approvalKey env p)))"

definition IsApproved :: "install_env \<Rightarrow> operation \<Rightarrow> bool install_io" where
  "IsApproved env p = attempt (approvalStatus env p) (\<lambda>r. ret (case r of Inl _ \<Rightarrow> False | Inr b \<Rightarrow> b))"

definition ClearPending :: "string \<Rightarrow> unit install_io" where
  "ClearPending i =
     andThen Pending (\<lambda>p. case p of
       None \<Rightarrow> ret ()
     | Some pl \<Rightarrow> if pl_id pl \<noteq> i then ret () else atomically (\<lambda>d. d\<lparr>id_pending := None\<rparr>))"

definition MarkApplied :: "install_env \<Rightarrow> operation \<Rightarrow> unit install_io" where
  "MarkApplied env p =
     andThen (loadSet ''applied.json'' id_applied) (\<lambda>applied.
       atomically (\<lambda>d. d\<lparr>id_applied := Some (Stored (fmupd (appliedKey env p) True applied))\<rparr>))"

definition IsApplied :: "install_env \<Rightarrow> operation \<Rightarrow> bool install_io" where
  "IsApplied env p =
     andThen (loadSet ''applied.json'' id_applied) (\<lambda>applied. ret (flag applied (appliedKey env p)))"

section \<open>Executor\<close>

definition commandOf :: "operation \<Rightarrow> command" where
  "commandOf p = \<lparr>cm_executable = op_executable p, cm_args = op_args p, cm_workingDir = op_workingDir p\<rparr>"

text \<open>Starting a command: even when the process dies during it, the command was started.\<close>

definition runCommand :: "install_env \<Rightarrow> operation \<Rightarrow> run_result install_io" where
  "runCommand env p =
     (let started = (\<lambda>d. d\<lparr>id_commands := id_commands d @ [commandOf p]\<rparr>)
      in tick StoreFault (\<lambda>d _. started d)
           (\<lambda>d. (Inr (ie_runner env (id_commands d) (commandOf p)), started d)))"

record exec_result =
  ex_executed :: "operation list"
  ex_pending :: "operation list"
  ex_errors :: "(string, string) fmap"

definition runMessage :: "install_error + run_result \<Rightarrow> string option" where
  "runMessage r =
     (case r of
        Inl _ \<Rightarrow> Some ''run failed''
      | Inr res \<Rightarrow>
          (case rr_error res of
             None \<Rightarrow> None
           | Some message \<Rightarrow>
               let stderr = trim_space (rr_stderr res)
               in Some (if stderr \<noteq> [] then message @ '': '' @ stderr else message)))"

definition executeStep ::
  "install_env \<Rightarrow> (operation \<Rightarrow> unit install_io) \<Rightarrow> operation \<Rightarrow> exec_result \<Rightarrow> exec_result install_io" where
  "executeStep env beforeRun p res =
     andThen (IsApplied env p) (\<lambda>applied.
       if applied then ret res
       else andThen (approvalStatus env p) (\<lambda>approved.
         if \<not> approved then ret (res\<lparr>ex_pending := ex_pending res @ [p]\<rparr>)
         else andThen (beforeRun p) (\<lambda>_.
           attempt (runCommand env p) (\<lambda>r.
             case runMessage r of
               Some message \<Rightarrow>
                 ret (res\<lparr>ex_pending := ex_pending res @ [p], ex_errors := fmupd (op_id p) message (ex_errors res)\<rparr>)
             | None \<Rightarrow> andThen (MarkApplied env p) (\<lambda>_. ret (res\<lparr>ex_executed := ex_executed res @ [p]\<rparr>))))))"

definition finishExecution :: "plan \<Rightarrow> exec_result \<Rightarrow> exec_result install_io" where
  "finishExecution pl res =
     (if ex_pending res = []
      then andThen (if pl_id pl \<noteq> [] then ClearPending (pl_id pl) else ret ()) (\<lambda>_. ret res)
      else andThen (SavePending (pl\<lparr>pl_operations := ex_pending res, pl_approved := False, pl_errors := ex_errors res\<rparr>))
             (\<lambda>_. ret res))"

definition Execute :: "install_env \<Rightarrow> (operation \<Rightarrow> unit install_io) \<Rightarrow> plan \<Rightarrow> exec_result install_io" where
  "Execute env beforeRun pl =
     (case find (\<lambda>p. ValidateOperation p \<noteq> None) (pl_operations pl) of
        Some p \<Rightarrow> raise (the (ValidateOperation p))
      | None \<Rightarrow>
          andThen (forEach (executeStep env beforeRun) (pl_operations pl)
                     \<lparr>ex_executed = [], ex_pending = [], ex_errors = fmempty\<rparr>)
            (finishExecution pl))"

section \<open>Manager\<close>

definition adapterOperations :: "string \<Rightarrow> (install_decl list \<Rightarrow> install_decl list \<Rightarrow> install_error + operation list) option" where
  "adapterOperations name =
     (if name = claudePlugin then Some (pluginOperations claudePlugin ''claude'')
      else if name = copilotPlugin then Some (pluginOperations copilotPlugin ''copilot'')
      else None)"

definition parseDeclarations :: "install_env \<Rightarrow> string \<Rightarrow> install_error + install_decl list" where
  "parseDeclarations env data =
     (if data = [] then Inr []
      else case ie_decode env data of
        Some (ds, AtEnd) \<Rightarrow>
          (case find (\<lambda>d. validateDeclaration d \<noteq> None) ds of
             Some d \<Rightarrow> Inl (the (validateDeclaration d)) | None \<Rightarrow> Inr ds)
      | _ \<Rightarrow> Inl BadManifest)"

definition validateManifestAdapter :: "string \<Rightarrow> install_decl list \<Rightarrow> install_error option" where
  "validateManifestAdapter adapter ds =
     (case find (\<lambda>d. de_adapter d \<noteq> adapter) ds of
        Some d \<Rightarrow> Some (WrongAdapter (de_id d) (de_adapter d)) | None \<Rightarrow> None)"

definition ValidateDeclarations :: "install_env \<Rightarrow> string \<Rightarrow> string \<Rightarrow> install_error + install_decl list" where
  "ValidateDeclarations env adapter data =
     (case parseDeclarations env data of Inl e \<Rightarrow> Inl e | Inr ds \<Rightarrow>
      case validateManifestAdapter adapter ds of Some e \<Rightarrow> Inl e | None \<Rightarrow> Inr ds)"

definition lift :: "install_error + 'a \<Rightarrow> 'a install_io" where
  "lift r = (case r of Inl e \<Rightarrow> raise e | Inr a \<Rightarrow> ret a)"

definition readDeclarations :: "install_env \<Rightarrow> spec \<Rightarrow> install_decl list install_io" where
  "readDeclarations env s =
     (case RepoPath s ''manifest.json'' of
        Inl e \<Rightarrow> raise (NamespaceError e)
      | Inr repoRel \<Rightarrow>
          andThen (read_tick StoreFault (\<lambda>d. Inr (fmlookup (id_repo d) repoRel))) (\<lambda>content.
            case content of None \<Rightarrow> ret [] | Some data \<Rightarrow> lift (parseDeclarations env data)))"

definition skillDependencyManifest :: string where
  "skillDependencyManifest = ''agents/_portable/config/install/skill-dependencies.json''"

definition updateSkillManifest :: "install_env \<Rightarrow> install_decl list install_io" where
  "updateSkillManifest env =
     andThen (read_tick StoreFault (\<lambda>d. Inr (DiscoverSkillDependencies (ie_sha env) (id_skills d)))) (\<lambda>ds.
       if ds = [] then
         andThen (atomically (\<lambda>d. d\<lparr>id_repo := fmdrop skillDependencyManifest (id_repo d)\<rparr>)) (\<lambda>_. ret [])
       else case ie_encode env ds of
         None \<Rightarrow> raise MarshalError
       | Some data \<Rightarrow>
           andThen (atomically (\<lambda>d. d\<lparr>id_repo := fmupd skillDependencyManifest (data @ [CHR 0x0A]) (id_repo d)\<rparr>))
             (\<lambda>_. ret ds))"

definition sharedSkillSpec :: "(string, spec) fmap \<Rightarrow> spec option" where
  "sharedSkillSpec specs =
     (let skill = (\<lambda>k. case fmlookup specs k of Some s \<Rightarrow> sp_category s = CategorySkills | None \<Rightarrow> False)
      in if skill ''common/common-skills'' then fmlookup specs ''common/common-skills''
         else case find skill (fm_keys specs) of None \<Rightarrow> None | Some k \<Rightarrow> fmlookup specs k)"

definition payloadName :: "operation \<Rightarrow> string" where
  "payloadName p = takeWhile (\<lambda>c. c \<noteq> CHR ''@'') (op_source p)"

definition backupPlugin :: "spec \<Rightarrow> operation \<Rightarrow> unit install_io" where
  "backupPlugin s p =
     (let name = payloadName p
      in if name = [] \<or> name = ''.'' \<or> name = ''..'' \<or> CHR ''/'' \<in> set name \<or> CHR 0x5C \<in> set name
         then raise (UnsafePayload (op_source p))
         else andThen (read_tick StoreFault (\<lambda>d. Inr (fmlookup (id_payloads d) (path_join [sp_root s, name])))) (\<lambda>found.
           case found of
             None \<Rightarrow> ret ()
           | Some PayloadLink \<Rightarrow> raise (UnsafePayload name)
           | Some (Payload files link) \<Rightarrow>
               if link then raise (UnsafePayload name)
               else atomically (\<lambda>d. d\<lparr>id_backups := id_backups d @ [(op_adapter p, name, files)]\<rparr>)))"

definition beforeRun :: "(string, spec) fmap \<Rightarrow> operation \<Rightarrow> unit install_io" where
  "beforeRun installSpecs p =
     (if op_kind p \<noteq> ''uninstall'' then ret ()
      else case fmlookup installSpecs (op_adapter p) of None \<Rightarrow> ret () | Some s \<Rightarrow> backupPlugin s p)"

definition planResource ::
  "install_env \<Rightarrow> (string \<rightharpoonup> string) \<Rightarrow> spec \<Rightarrow>
     install_decl list \<times> operation list \<times> (string, spec) fmap \<Rightarrow>
     (install_decl list \<times> operation list \<times> (string, spec) fmap) install_io" where
  "planResource env currentManifests s = (\<lambda>(declarations, operations, installSpecs).
     if sp_strategy s \<noteq> StrategyInstallManifest then ret (declarations, operations, installSpecs)
     else case adapterOperations (sp_installer s) of
       None \<Rightarrow> raise (NoAdapter (sp_installer s))
     | Some adapter \<Rightarrow>
         andThen (readDeclarations env s) (\<lambda>desired.
         andThen (lift (parseDeclarations env (case currentManifests (sp_key s) of None \<Rightarrow> [] | Some c \<Rightarrow> c))) (\<lambda>current.
           case validateManifestAdapter (sp_installer s) desired of Some e \<Rightarrow> raise e | None \<Rightarrow>
           case validateManifestAdapter (sp_installer s) current of Some e \<Rightarrow> raise e | None \<Rightarrow>
           andThen (lift (adapter desired current)) (\<lambda>planned.
             ret (declarations @ desired, operations @ planned, fmupd (sp_installer s) s installSpecs)))))"

fun allApproved :: "install_env \<Rightarrow> operation list \<Rightarrow> bool install_io" where
  "allApproved env [] = ret True"
| "allApproved env (p # ps) =
     andThen (approvalStatus env p) (\<lambda>approved. if approved then allApproved env ps else ret False)"

text \<open>The root of a skill resource as segments.\<close>

definition rootSegments :: "string \<Rightarrow> string list" where
  "rootSegments root = rev (foldl (clean_step True) [] (split_on CHR ''/'' root))"

record reconcile_result =
  rc_executed :: nat
  rc_pending :: nat
  rc_errors :: "(string, string) fmap"

definition executePlan :: "install_env \<Rightarrow> (string, spec) fmap \<Rightarrow> plan \<Rightarrow> reconcile_result install_io" where
  "executePlan env installSpecs pl =
     (if pl_operations pl = [] then
        andThen Pending (\<lambda>pending.
        andThen (case pending of None \<Rightarrow> ret () | Some old \<Rightarrow> ClearPending (pl_id old)) (\<lambda>_.
          ret \<lparr>rc_executed = 0, rc_pending = 0, rc_errors = fmempty\<rparr>))
      else
        andThen (allApproved env (pl_operations pl)) (\<lambda>approved.
        andThen (SavePending (pl\<lparr>pl_approved := approved\<rparr>)) (\<lambda>_.
        andThen (Execute env (beforeRun installSpecs) (pl\<lparr>pl_approved := approved\<rparr>)) (\<lambda>res.
          ret \<lparr>rc_executed = length (ex_executed res), rc_pending = length (ex_pending res),
               rc_errors = ex_errors res\<rparr>))))"

definition ReconcileInstalls ::
  "install_env \<Rightarrow> (string, spec) fmap \<Rightarrow> (string \<rightharpoonup> string) \<Rightarrow> reconcile_result install_io" where
  "ReconcileInstalls env specs currentManifests =
     andThen (forEach (\<lambda>k. planResource env currentManifests (the (fmlookup specs k))) (fm_keys specs) ([], [], fmempty))
       (\<lambda>(declarations, operations, installSpecs).
     andThen (case sharedSkillSpec specs of
                None \<Rightarrow> ret (declarations, operations)
              | Some skillSpec \<Rightarrow>
                  andThen (updateSkillManifest env) (\<lambda>ds.
                  andThen (lift (OperationsForSkillDependencies (rootSegments (sp_root skillSpec)) ds)) (\<lambda>ops.
                    ret (declarations @ ds, operations @ ops)))) (\<lambda>(declarations, operations).
     andThen (lift (NewPlan (ie_sha env) (ie_marshalPlan env) declarations operations)) (\<lambda>pl.
       executePlan env installSpecs pl)))"

section \<open>What the executor may start\<close>

definition approvedOn :: "install_env \<Rightarrow> install_disk \<Rightarrow> operation \<Rightarrow> bool" where
  "approvedOn env d p = (case id_approvals d of Some (Stored m) \<Rightarrow> flag m (approvalKey env p) | _ \<Rightarrow> False)"

definition appliedOn :: "install_env \<Rightarrow> install_disk \<Rightarrow> operation \<Rightarrow> bool" where
  "appliedOn env d p = (case id_applied d of Some (Stored m) \<Rightarrow> flag m (appliedKey env p) | _ \<Rightarrow> False)"

definition backedUp :: "(string, spec) fmap \<Rightarrow> install_disk \<Rightarrow> operation \<Rightarrow> bool" where
  "backedUp installSpecs d p \<longleftrightarrow>
     (op_kind p = ''uninstall'' \<longrightarrow>
        (case fmlookup installSpecs (op_adapter p) of
           None \<Rightarrow> True
         | Some s \<Rightarrow>
             (case fmlookup (id_payloads d) (path_join [sp_root s, payloadName p]) of
                None \<Rightarrow> True
              | Some pay \<Rightarrow> pay \<noteq> PayloadLink \<and> (op_adapter p, payloadName p, payload_files pay) \<in> set (id_backups d))))"

text \<open>The disk differs from the first one by commands that were trusted, approved and backed up.\<close>

definition onlyApproved :: "install_env \<Rightarrow> (string, spec) fmap \<Rightarrow> install_disk \<Rightarrow> install_disk \<Rightarrow> bool" where
  "onlyApproved env installSpecs d0 d \<longleftrightarrow>
     id_approvals d = id_approvals d0 \<and> id_payloads d = id_payloads d0 \<and> prefix (id_backups d0) (id_backups d) \<and>
     (\<exists>cs. id_commands d = id_commands d0 @ cs \<and>
        (\<forall>c \<in> set cs. \<exists>p. c = commandOf p \<and> ValidateOperation p = None \<and> approvedOn env d0 p \<and> backedUp installSpecs d p))"

named_theorems install_frames \<open>updates that the invariants of the executor do not see\<close>

lemma backedUp_frame [install_frames]:
  "backedUp sp (d\<lparr>id_pending := x\<rparr>) p = backedUp sp d p" "backedUp sp (d\<lparr>id_applied := y\<rparr>) p = backedUp sp d p"
  "backedUp sp (d\<lparr>id_repo := z\<rparr>) p = backedUp sp d p" "backedUp sp (d\<lparr>id_commands := c\<rparr>) p = backedUp sp d p"
  by (simp_all add: backedUp_def split: option.split)

lemma backedUp_more: "backedUp sp d p \<Longrightarrow> backedUp sp (d\<lparr>id_backups := id_backups d @ bs\<rparr>) p"
  by (auto simp: backedUp_def split: option.splits)

lemma onlyApproved_frame [install_frames]:
  "onlyApproved env sp d0 (d\<lparr>id_pending := x\<rparr>) = onlyApproved env sp d0 d"
  "onlyApproved env sp d0 (d\<lparr>id_applied := y\<rparr>) = onlyApproved env sp d0 d"
  "onlyApproved env sp d0 (d\<lparr>id_repo := z\<rparr>) = onlyApproved env sp d0 d"
  by (simp_all add: onlyApproved_def install_frames)

lemma onlyApproved_refl: "onlyApproved env sp d d"
  by (simp add: onlyApproved_def)

lemma onlyApproved_backup:
  assumes "onlyApproved env sp d0 d"
  shows "onlyApproved env sp d0 (d\<lparr>id_backups := id_backups d @ bs\<rparr>)"
proof -
  obtain cs where cs: "id_commands d = id_commands d0 @ cs"
    "\<forall>c \<in> set cs. \<exists>p. c = commandOf p \<and> ValidateOperation p = None \<and> approvedOn env d0 p \<and> backedUp sp d p"
    using assms by (auto simp: onlyApproved_def)
  have "\<forall>c \<in> set cs. \<exists>p. c = commandOf p \<and> ValidateOperation p = None \<and> approvedOn env d0 p \<and>
      backedUp sp (d\<lparr>id_backups := id_backups d @ bs\<rparr>) p"
    using cs(2) backedUp_more by meson
  then show ?thesis using assms cs(1) unfolding onlyApproved_def by (auto simp: prefix_def)
qed

lemma onlyApproved_command:
  assumes "onlyApproved env sp d0 d" "ValidateOperation p = None" "approvedOn env d0 p" "backedUp sp d p"
  shows "onlyApproved env sp d0 (d\<lparr>id_commands := id_commands d @ [commandOf p]\<rparr>)"
proof -
  obtain cs where cs: "id_commands d = id_commands d0 @ cs"
    "\<forall>c \<in> set cs. \<exists>p. c = commandOf p \<and> ValidateOperation p = None \<and> approvedOn env d0 p \<and> backedUp sp d p"
    using assms(1) by (auto simp: onlyApproved_def)
  then have "\<forall>c \<in> set (cs @ [commandOf p]). \<exists>p. c = commandOf p \<and> ValidateOperation p = None \<and>
      approvedOn env d0 p \<and> backedUp sp d p"
    using assms(2-4) by auto
  then show ?thesis using assms(1) cs(1) unfolding onlyApproved_def by (auto simp: install_frames)
qed

lemma keeps_loadSet [keeps_intros]: "keeps I (loadSet name field)"
  by (simp add: loadSet_def keeps_intros)

lemma keeps_atomically: "(\<And>d. I d \<Longrightarrow> I (f d)) \<Longrightarrow> keeps I (atomically f)"
  unfolding atomically_def by (rule keeps_tick) auto

lemma keeps_lift [keeps_intros]: "keeps I (lift r)"
  by (cases r) (simp_all add: lift_def keeps_intros)

lemma keeps_Pending [keeps_intros]: "keeps I Pending"
  by (simp add: Pending_def keeps_intros)

lemma approvalStatus_valid:
  "fault_valid (onlyApproved env sp d0) (approvalStatus env p)
     (\<lambda>b d. onlyApproved env sp d0 d \<and> (b \<longrightarrow> approvedOn env d0 p)) (onlyApproved env sp d0)"
  unfolding approvalStatus_def loadSet_def
  by (rule fault_andThen [OF fault_read_tick
        [where Q = "\<lambda>m d. onlyApproved env sp d0 d \<and> (flag m (approvalKey env p) \<longrightarrow> approvedOn env d0 p)"]])
    (auto simp: approvedOn_def onlyApproved_def flag_def intro!: fault_ret split: option.splits stored.splits)

lemma beforeRun_valid:
  "fault_valid (onlyApproved env sp d0) (beforeRun sp p)
     (\<lambda>_ d. onlyApproved env sp d0 d \<and> backedUp sp d p) (onlyApproved env sp d0)"
proof (cases "op_kind p = ''uninstall''")
  case False
  then show ?thesis by (auto simp: beforeRun_def backedUp_def intro: fault_ret)
next
  case True
  show ?thesis
  proof (cases "fmlookup sp (op_adapter p)")
    case None
    then show ?thesis using True by (auto simp: beforeRun_def backedUp_def intro: fault_ret)
  next
    case (Some s)
    let ?key = "path_join [sp_root s, payloadName p]" and ?I = "onlyApproved env sp d0"
    have "fault_valid ?I (backupPlugin s p) (\<lambda>_ d. ?I d \<and> backedUp sp d p) ?I"
      unfolding backupPlugin_def Let_def
    proof (rule fault_if)
      show "fault_valid ?I (raise (UnsafePayload (op_source p))) (\<lambda>_ d. ?I d \<and> backedUp sp d p) ?I"
        by (rule fault_raise)
      show "fault_valid ?I (andThen (read_tick StoreFault (\<lambda>d. Inr (fmlookup (id_payloads d) ?key))) (\<lambda>found.
           case found of
             None \<Rightarrow> ret ()
           | Some PayloadLink \<Rightarrow> raise (UnsafePayload (payloadName p))
           | Some (Payload files link) \<Rightarrow>
               if link then raise (UnsafePayload (payloadName p))
               else atomically (\<lambda>d. d\<lparr>id_backups := id_backups d @ [(op_adapter p, payloadName p, files)]\<rparr>)))
          (\<lambda>_ d. ?I d \<and> backedUp sp d p) ?I"
      proof (rule fault_andThen [where R = "\<lambda>found d. ?I d \<and> fmlookup (id_payloads d) ?key = found"])
        show "fault_valid ?I (read_tick StoreFault (\<lambda>d. Inr (fmlookup (id_payloads d) ?key)))
            (\<lambda>found d. ?I d \<and> fmlookup (id_payloads d) ?key = found) ?I"
          by (rule fault_read_tick) auto
        fix found
        show "fault_valid (\<lambda>d. ?I d \<and> fmlookup (id_payloads d) ?key = found)
            (case found of
               None \<Rightarrow> ret ()
             | Some PayloadLink \<Rightarrow> raise (UnsafePayload (payloadName p))
             | Some (Payload files link) \<Rightarrow>
                 if link then raise (UnsafePayload (payloadName p))
                 else atomically (\<lambda>d. d\<lparr>id_backups := id_backups d @ [(op_adapter p, payloadName p, files)]\<rparr>))
            (\<lambda>_ d. ?I d \<and> backedUp sp d p) ?I"
        proof (cases found)
          case None
          then show ?thesis using True Some by (auto simp: backedUp_def intro!: fault_ret)
        next
          case (Some pay)
          show ?thesis
          proof (cases pay)
            case PayloadLink
            then show ?thesis using Some by (auto intro!: fault_raise)
          next
            case (Payload files link)
            then show ?thesis using Some True \<open>fmlookup sp (op_adapter p) = Some s\<close>
              by (auto simp: atomically_def backedUp_def intro!: fault_raise fault_tick onlyApproved_backup split: sum.split)
          qed
        qed
      qed
    qed
    then show ?thesis using True Some by (simp add: beforeRun_def)
  qed
qed

lemma runCommand_valid:
  assumes "ValidateOperation p = None" "approvedOn env d0 p"
  shows "fault_valid (\<lambda>d. onlyApproved env sp d0 d \<and> backedUp sp d p) (runCommand env p)
     (\<lambda>_. onlyApproved env sp d0) (onlyApproved env sp d0)"
  unfolding runCommand_def Let_def
  by (rule fault_tick) (auto intro: onlyApproved_command assms)

lemma keeps_MarkApplied:
  assumes "\<And>d m. I d \<Longrightarrow> I (d\<lparr>id_applied := m\<rparr>)"
  shows "keeps I (MarkApplied env p)"
  unfolding MarkApplied_def by (intro keeps_intros keeps_atomically assms)

lemma executeStep_keeps:
  assumes "ValidateOperation p = None"
  shows "keeps (onlyApproved env sp d0) (executeStep env (beforeRun sp) p res)"
proof -
  let ?I = "onlyApproved env sp d0"
  have mark: "keeps ?I (MarkApplied env p)" by (rule keeps_MarkApplied) (simp add: install_frames)
  have run: "keeps ?I (andThen (beforeRun sp p) (\<lambda>_. attempt (runCommand env p) (\<lambda>r.
             case runMessage r of
               Some message \<Rightarrow>
                 ret (res\<lparr>ex_pending := ex_pending res @ [p], ex_errors := fmupd (op_id p) message (ex_errors res)\<rparr>)
             | None \<Rightarrow> andThen (MarkApplied env p) (\<lambda>_. ret (res\<lparr>ex_executed := ex_executed res @ [p]\<rparr>)))))"
    if "approvedOn env d0 p"
    by (rule fault_andThen [OF beforeRun_valid], rule fault_attempt [OF runCommand_valid [OF assms that]])
      (auto split: option.split intro!: keeps_intros mark)
  have approved: "keeps ?I (andThen (approvalStatus env p) (\<lambda>approved.
         if \<not> approved then ret (res\<lparr>ex_pending := ex_pending res @ [p]\<rparr>)
         else andThen (beforeRun sp p) (\<lambda>_. attempt (runCommand env p) (\<lambda>r.
             case runMessage r of
               Some message \<Rightarrow>
                 ret (res\<lparr>ex_pending := ex_pending res @ [p], ex_errors := fmupd (op_id p) message (ex_errors res)\<rparr>)
             | None \<Rightarrow> andThen (MarkApplied env p) (\<lambda>_. ret (res\<lparr>ex_executed := ex_executed res @ [p]\<rparr>))))))"
  proof (rule fault_andThen [OF approvalStatus_valid], rule fault_if)
    fix b assume "\<not> b"
    then show "fault_valid (\<lambda>d. ?I d \<and> (b \<longrightarrow> approvedOn env d0 p)) (ret (res\<lparr>ex_pending := ex_pending res @ [p]\<rparr>)) (\<lambda>_. ?I) ?I"
      by (auto intro: fault_ret)
  next
    fix b assume b: "\<not> \<not> b"
    show "fault_valid (\<lambda>d. ?I d \<and> (b \<longrightarrow> approvedOn env d0 p))
        (andThen (beforeRun sp p) (\<lambda>_. attempt (runCommand env p) (\<lambda>r.
             case runMessage r of
               Some message \<Rightarrow>
                 ret (res\<lparr>ex_pending := ex_pending res @ [p], ex_errors := fmupd (op_id p) message (ex_errors res)\<rparr>)
             | None \<Rightarrow> andThen (MarkApplied env p) (\<lambda>_. ret (res\<lparr>ex_executed := ex_executed res @ [p]\<rparr>))))) (\<lambda>_. ?I) ?I"
    proof (cases "approvedOn env d0 p")
      case True
      then show ?thesis using b by (simp add: run)
    next
      case False
      then show ?thesis using b by (intro fault_pre_False) simp
    qed
  qed
  show ?thesis unfolding executeStep_def
    by (rule fault_andThen [where R = "\<lambda>_. ?I"]) (auto simp: IsApplied_def intro!: keeps_intros approved)
qed

lemma keeps_ClearPending:
  assumes "\<And>d m. I d \<Longrightarrow> I (d\<lparr>id_pending := m\<rparr>)"
  shows "keeps I (ClearPending i)"
  unfolding ClearPending_def by (auto intro!: keeps_intros keeps_atomically assms split: option.split)

lemma keeps_finish:
  assumes "\<And>d m. I d \<Longrightarrow> I (d\<lparr>id_pending := m\<rparr>)"
  shows "keeps I (finishExecution pl res)"
  unfolding finishExecution_def SavePending_def
  by (auto intro!: keeps_intros keeps_atomically keeps_ClearPending assms)

lemma keeps_forEach_on:
  assumes "\<And>x s. x \<in> set xs \<Longrightarrow> keeps I (f x s)"
  shows "keeps I (forEach f xs s)"
  using assms
proof (induction xs arbitrary: s)
  case (Cons x xs)
  show ?case unfolding forEach.simps
    by (rule keeps_andThen) (use Cons in auto)
qed (simp add: keeps_intros)

lemma Execute_keeps: "keeps (onlyApproved env sp d0) (Execute env (beforeRun sp) pl)"
proof (cases "find (\<lambda>p. ValidateOperation p \<noteq> None) (pl_operations pl)")
  case None
  have loop: "keeps (onlyApproved env sp d0) (forEach (executeStep env (beforeRun sp)) (pl_operations pl) s)" for s
    by (rule keeps_forEach_on, rule executeStep_keeps) (use None in \<open>simp add: find_None_iff\<close>)
  show ?thesis unfolding Execute_def None option.case
    by (rule keeps_andThen [OF loop keeps_finish]) (simp add: install_frames)
qed (simp add: Execute_def keeps_intros)

lemma keeps_allApproved [keeps_intros]: "keeps I (allApproved env ps)"
  by (induction ps) (auto simp: approvalStatus_def intro!: keeps_intros)

lemma executePlan_keeps: "keeps (onlyApproved env sp d0) (executePlan env sp pl)"
  unfolding executePlan_def SavePending_def
  by (auto simp: install_frames intro!: keeps_intros Execute_keeps keeps_atomically keeps_ClearPending split: option.split)

text \<open>Planning reads manifests and rewrites the skill manifest; it starts nothing.\<close>

definition sameCommands :: "install_disk \<Rightarrow> install_disk \<Rightarrow> bool" where
  "sameCommands d0 d \<longleftrightarrow> id_approvals d = id_approvals d0 \<and> id_payloads d = id_payloads d0 \<and>
     id_backups d = id_backups d0 \<and> id_commands d = id_commands d0"

lemma sameCommands_onlyApproved: "sameCommands d0 d \<Longrightarrow> onlyApproved env sp d0 d"
  by (simp add: sameCommands_def onlyApproved_def)

lemma planResource_keeps: "keeps I (planResource env manifests s st)"
  by (cases st) (auto simp: planResource_def readDeclarations_def intro!: keeps_intros split: option.split sum.split)

lemma updateSkillManifest_keeps: "keeps (sameCommands d0) (updateSkillManifest env)"
  unfolding updateSkillManifest_def
  by (auto simp: sameCommands_def intro!: keeps_intros keeps_atomically split: option.split)

text \<open>What is still to do, what is applied and what is pending cover the plan.\<close>

definition accounted :: "install_env \<Rightarrow> operation list \<Rightarrow> operation list \<Rightarrow> exec_result \<Rightarrow> install_disk \<Rightarrow> bool" where
  "accounted env all rem res d \<longleftrightarrow> (\<forall>p \<in> set all. p \<in> set rem \<or> appliedOn env d p \<or> p \<in> set (ex_pending res))"

lemma accounted_frame [install_frames]:
  "accounted env all rem res (d\<lparr>id_backups := b\<rparr>) = accounted env all rem res d"
  "accounted env all rem res (d\<lparr>id_commands := c\<rparr>) = accounted env all rem res d"
  "accounted env all rem res (d\<lparr>id_pending := q\<rparr>) = accounted env all rem res d"
  by (simp_all add: accounted_def appliedOn_def)

lemma keeps_beforeRun:
  assumes "\<And>d b. I d \<Longrightarrow> I (d\<lparr>id_backups := b\<rparr>)"
  shows "keeps I (beforeRun sp p)"
  unfolding beforeRun_def backupPlugin_def Let_def
  by (auto intro!: keeps_intros keeps_atomically assms split: option.split payload.split)

lemma keeps_runCommand:
  assumes "\<And>d c. I d \<Longrightarrow> I (d\<lparr>id_commands := c\<rparr>)"
  shows "keeps I (runCommand env p)"
  unfolding runCommand_def Let_def by (rule keeps_tick) (auto intro: assms)

lemma flag_upd: "flag (fmupd k True m) j \<longleftrightarrow> j = k \<or> flag m j"
  by (simp add: flag_def)

lemma MarkApplied_accounts:
  "fault_valid (accounted env all (x # xs) res) (MarkApplied env x) (\<lambda>_. accounted env all xs res) (\<lambda>_. True)"
proof -
  let ?R = "\<lambda>m d. accounted env all (x # xs) res d \<and> (\<forall>p. appliedOn env d p \<longrightarrow> flag m (appliedKey env p))"
  have read: "fault_valid (accounted env all (x # xs) res) (loadSet ''applied.json'' id_applied) ?R (\<lambda>_. True)"
    unfolding loadSet_def
    by (rule fault_read_tick) (auto simp: appliedOn_def flag_def split: option.splits stored.splits)
  have wr: "fault_valid (?R m) (atomically (\<lambda>d. d\<lparr>id_applied := Some (Stored (fmupd (appliedKey env x) True m))\<rparr>))
      (\<lambda>_. accounted env all xs res) (\<lambda>_. True)" for m
  proof -
    let ?f = "\<lambda>d. d\<lparr>id_applied := Some (Stored (fmupd (appliedKey env x) True m))\<rparr>"
    have "appliedOn env (?f d) p \<longleftrightarrow> appliedKey env p = appliedKey env x \<or> flag m (appliedKey env p)" for d p
      by (simp add: appliedOn_def flag_upd)
    then have "accounted env all xs res (?f d)" if "?R m d" for d
      using that unfolding accounted_def by (metis set_ConsD)
    then show ?thesis unfolding atomically_def by (intro fault_tick) auto
  qed
  show ?thesis unfolding MarkApplied_def by (rule fault_andThen [OF read wr])
qed

lemma accounted_skip:
  "accounted env all (x # xs) res d \<Longrightarrow> appliedOn env d x \<Longrightarrow> accounted env all xs res d"
  "accounted env all (x # xs) res d \<Longrightarrow> x \<in> set ps \<Longrightarrow> set (ex_pending res) \<subseteq> set ps \<Longrightarrow>
     accounted env all xs (res\<lparr>ex_pending := ps\<rparr>) d"
  "accounted env all xs (res\<lparr>ex_executed := es\<rparr>) d = accounted env all xs res d"
  "accounted env all xs (res\<lparr>ex_pending := ps, ex_errors := er\<rparr>) d = accounted env all xs (res\<lparr>ex_pending := ps\<rparr>) d"
  by (auto simp: accounted_def)

lemma executeStep_accounts:
  "fault_valid (accounted env all (x # xs) res) (executeStep env (beforeRun sp) x res) (accounted env all xs) (\<lambda>_. True)"
proof -
  let ?I = "accounted env all (x # xs) res" and ?T = "\<lambda>_. True"
  have pend: "?I d \<Longrightarrow> accounted env all xs (res\<lparr>ex_pending := ex_pending res @ [x]\<rparr>) d" for d
    by (rule accounted_skip(2)) auto
  have applied: "fault_valid ?I (IsApplied env x) (\<lambda>b d. ?I d \<and> (b \<longrightarrow> appliedOn env d x)) ?T"
    unfolding IsApplied_def loadSet_def
    by (rule fault_andThen [OF fault_read_tick [where Q = "\<lambda>m d. ?I d \<and> (flag m (appliedKey env x) \<longrightarrow> appliedOn env d x)"]])
      (auto simp: appliedOn_def flag_def intro!: fault_ret split: option.splits stored.splits)
  have approval: "fault_valid ?I (approvalStatus env x) (\<lambda>_. ?I) ?T"
    by (rule fault_weaken [of ?I _ "\<lambda>_. ?I" ?I]) (auto simp: approvalStatus_def intro!: keeps_intros)
  have bef: "fault_valid ?I (beforeRun sp x) (\<lambda>_. ?I) ?T"
    by (rule fault_weaken [OF keeps_beforeRun [of ?I]]) (auto simp: install_frames)
  have command: "fault_valid ?I (runCommand env x) (\<lambda>_. ?I) ?I"
    by (rule keeps_runCommand) (simp add: install_frames)
  have marked: "fault_valid ?I (andThen (MarkApplied env x) (\<lambda>_. ret (res\<lparr>ex_executed := ex_executed res @ [x]\<rparr>)))
      (accounted env all xs) ?T"
    by (rule fault_andThen [OF MarkApplied_accounts]) (auto simp: accounted_skip intro: fault_ret)
  show ?thesis unfolding executeStep_def
    by (rule fault_andThen [OF applied], rule fault_if, force intro: fault_ret accounted_skip(1),
        rule fault_weaken [of ?I _ "accounted env all xs" ?T], rule fault_andThen [OF approval], rule fault_if,
        force intro: fault_ret pend, rule fault_andThen [OF bef], rule fault_attempt [OF command])
      (auto simp: accounted_skip(4) split: option.split intro!: fault_ret pend marked)
qed

lemma finish_accounts:
  "fault_valid (accounted env all [] res) (finishExecution pl res)
     (\<lambda>res' d. res' = res \<and> accounted env all [] res d \<and> (ex_pending res \<noteq> [] \<longrightarrow>
        id_pending d = Some (Stored (pl\<lparr>pl_operations := ex_pending res, pl_approved := False, pl_errors := ex_errors res\<rparr>))))
     (\<lambda>_. True)"
proof (cases "ex_pending res = []")
  case True
  have "fault_valid (accounted env all [] res) (if pl_id pl \<noteq> [] then ClearPending (pl_id pl) else ret ())
      (\<lambda>_. accounted env all [] res) (\<lambda>_. True)"
    by (rule fault_weaken [of "accounted env all [] res" _ "\<lambda>_. accounted env all [] res" "accounted env all [] res"])
      (auto simp: install_frames intro!: keeps_intros keeps_ClearPending)
  then show ?thesis unfolding finishExecution_def using True by (auto intro: fault_andThen fault_ret)
next
  case False
  have "fault_valid (accounted env all [] res)
      (SavePending (pl\<lparr>pl_operations := ex_pending res, pl_approved := False, pl_errors := ex_errors res\<rparr>))
      (\<lambda>_ d. accounted env all [] res d \<and>
        id_pending d = Some (Stored (pl\<lparr>pl_operations := ex_pending res, pl_approved := False, pl_errors := ex_errors res\<rparr>)))
      (\<lambda>_. True)"
    unfolding SavePending_def atomically_def by (rule fault_tick) (auto simp: install_frames)
  then show ?thesis unfolding finishExecution_def using False by (auto intro: fault_andThen fault_ret)
qed

lemma Execute_accounts:
  "fault_valid (\<lambda>_. True) (Execute env (beforeRun sp) pl)
     (\<lambda>res d. accounted env (pl_operations pl) [] res d \<and> (ex_pending res \<noteq> [] \<longrightarrow>
        id_pending d = Some (Stored (pl\<lparr>pl_operations := ex_pending res, pl_approved := False, pl_errors := ex_errors res\<rparr>))))
     (\<lambda>_. True)"
proof (cases "find (\<lambda>p. ValidateOperation p \<noteq> None) (pl_operations pl)")
  case None
  let ?s = "\<lparr>ex_executed = [], ex_pending = [], ex_errors = fmempty\<rparr>"
  have loop: "fault_valid (accounted env (pl_operations pl) (pl_operations pl) ?s)
      (forEach (executeStep env (beforeRun sp)) (pl_operations pl) ?s) (accounted env (pl_operations pl) []) (\<lambda>_. True)"
    by (rule fault_forEach [OF executeStep_accounts])
  have "fault_valid (\<lambda>_. True) (forEach (executeStep env (beforeRun sp)) (pl_operations pl) ?s)
      (accounted env (pl_operations pl) []) (\<lambda>_. True)"
    by (rule fault_weaken [OF loop]) (auto simp: accounted_def)
  then show ?thesis unfolding Execute_def None option.case
    by (rule fault_andThen) (rule fault_weaken [OF finish_accounts], auto)
qed (simp add: Execute_def fault_raise)

section \<open>Properties\<close>

text \<open> C5. Whatever fails and wherever the process dies, reconciling the installs starts no command but those of
  operations that pass the whitelist and whose adapter and source the user had approved before. \<close>

theorem only_approved_commands_start:
  assumes "ReconcileInstalls env specs manifests (boot d faults) = (r, w)"
  shows "\<exists>cs. id_commands (w_disk w) = id_commands d @ cs \<and>
    (\<forall>c \<in> set cs. \<exists>p. c = commandOf p \<and> ValidateOperation p = None \<and> approvedOn env d p)"
proof -
  let ?J = "sameCommands d" and ?E = "\<lambda>d'. \<exists>sp. onlyApproved env sp d d'"
  have JE: "?J d' \<Longrightarrow> ?E d'" for d' using sameCommands_onlyApproved by blast
  have plan: "fault_valid ?J (executePlan env sp pl) (\<lambda>_. ?E) ?E" for sp pl
    by (rule fault_weaken [OF executePlan_keeps [of env sp d]]) (auto intro: sameCommands_onlyApproved)
  have valid: "fault_valid ?J (ReconcileInstalls env specs manifests) (\<lambda>_. ?E) ?E"
    unfolding ReconcileInstalls_def
    by (rule fault_andThen [where R = "\<lambda>_. ?J"], rule fault_weaken [of ?J _ "\<lambda>_. ?J" ?J])
      (auto intro!: keeps_forEach planResource_keeps JE fault_andThen [where R = "\<lambda>_. ?J"] plan keeps_intros
          updateSkillManifest_keeps fault_weaken [of ?J _ "\<lambda>_. ?J" ?J]
        split: option.split prod.split)
  have "?J (w_disk (boot d faults))" by (simp add: boot_def sameCommands_def)
  from fault_validD [OF valid this assms] have "?E (w_disk w)" by (cases r) auto
  then show ?thesis unfolding onlyApproved_def by blast
qed

text \<open>An uninstall command starts only after its plugin payload, when there is one, has been copied to the local
  trash, and never for a payload that is a symbolic link.\<close>

lemma uninstall_is_backed_up:
  assumes "Execute env (beforeRun installSpecs) pl (boot d faults) = (r, w)"
  shows "\<exists>cs. id_commands (w_disk w) = id_commands d @ cs \<and>
    (\<forall>c \<in> set cs. \<exists>p. c = commandOf p \<and>
       (\<forall>s pay. op_kind p = ''uninstall'' \<and> fmlookup installSpecs (op_adapter p) = Some s \<and>
          fmlookup (id_payloads d) (path_join [sp_root s, payloadName p]) = Some pay \<longrightarrow>
          pay \<noteq> PayloadLink \<and> (op_adapter p, payloadName p, payload_files pay) \<in> set (id_backups (w_disk w))))"
proof -
  have "onlyApproved env installSpecs d (w_disk w)"
    by (rule keeps_final [OF Execute_keeps onlyApproved_refl assms])
  then show ?thesis by (fastforce simp: onlyApproved_def backedUp_def)
qed

text \<open>Nothing is lost: when execution returns, every operation of the plan is recorded as applied or is
  reported as pending, and a non-empty remainder is the pending plan on disk, no longer approved.\<close>

lemma executor_accounts_for_every_operation:
  assumes "Execute env (beforeRun installSpecs) pl (boot d faults) = (Inr res, w)"
  shows "(\<forall>p \<in> set (pl_operations pl). appliedOn env (w_disk w) p \<or> p \<in> set (ex_pending res)) \<and>
    (ex_pending res \<noteq> [] \<longrightarrow> id_pending (w_disk w) = Some (Stored (pl\<lparr>pl_operations := ex_pending res,
       pl_approved := False, pl_errors := ex_errors res\<rparr>)))"
proof -
  from fault_validD(1) [OF Execute_accounts _ assms] have
    "accounted env (pl_operations pl) [] res (w_disk w)" "ex_pending res \<noteq> [] \<longrightarrow>
      id_pending (w_disk w) = Some (Stored (pl\<lparr>pl_operations := ex_pending res, pl_approved := False, pl_errors := ex_errors res\<rparr>))"
    by simp_all
  then show ?thesis by (auto simp: accounted_def)
qed

text \<open>A small installation: hashing is the identity, every command succeeds.\<close>

definition demo_install_env :: install_env where
  "demo_install_env = \<lparr>ie_sha = id, ie_marshalPlan = (\<lambda>_ _. Some ''plan''),
     ie_decode = (\<lambda>data. Some (if data = ''m'' then [demo_declaration ''a@m''] else [], AtEnd)),
     ie_encode = (\<lambda>_. Some ''d''), ie_runner = (\<lambda>_ _. \<lparr>rr_stderr = [], rr_error = None\<rparr>)\<rparr>"

definition demo_operation :: "string \<Rightarrow> operation" where
  "demo_operation kind = pluginOperation claudePlugin ''claude'' (demo_declaration ''a@m'') kind"

definition demo_plan :: "string \<Rightarrow> plan" where
  "demo_plan kind = \<lparr>pl_id = ''plan'', pl_operations = [demo_operation kind], pl_approved = True, pl_errors = fmempty\<rparr>"

definition demo_plugin_spec :: spec where
  "demo_plugin_spec = example_spec\<lparr>sp_strategy := StrategyInstallManifest, sp_installer := claudePlugin,
     sp_layout := LayoutPortable, sp_provider := ''claude'', sp_category := CategoryPlugins, sp_id := ''plugins'',
     sp_shared_as := [], sp_key := ''k'', sp_root := ''/r''\<rparr>"

definition demo_install_disk :: install_disk where
  "demo_install_disk = \<lparr>id_pending = None,
     id_approvals = Some (Stored (fmap_of_list [(approvalKey demo_install_env (demo_operation ''install''), True)])),
     id_applied = None,
     id_repo = fmap_of_list [(''agents/_portable/config/providers/claude/plugins/plugins/manifest.json'', ''m'')],
     id_skills = [], id_payloads = fmap_of_list [(''/r/a'', Payload [(''f'', ''x'')] False)],
     id_backups = [], id_commands = []\<rparr>"

lemma only_approved_commands_start_witness:
  "\<exists>p. cm_args (commandOf p) = [''plugin'', ''install'', ''a@m'', ''--scope'', ''user''] \<and> ValidateOperation p = None \<and>
     approvedOn demo_install_env demo_install_disk p"
proof -
  let ?m = "ReconcileInstalls demo_install_env (fmap_of_list [(''k'', demo_plugin_spec)]) (\<lambda>_. None) (boot demo_install_disk [])"
  have log: "id_commands (w_disk (snd ?m)) = id_commands demo_install_disk @ [commandOf (demo_operation ''install'')]"
    by code_simp
  obtain r w where m: "?m = (r, w)" by (cases ?m)
  from only_approved_commands_start [OF m] log m
  obtain p where "commandOf (demo_operation ''install'') = commandOf p" "ValidateOperation p = None"
    "approvedOn demo_install_env demo_install_disk p" by auto
  moreover have "cm_args (commandOf (demo_operation ''install'')) = [''plugin'', ''install'', ''a@m'', ''--scope'', ''user'']"
    by code_simp
  ultimately show ?thesis by metis
qed

lemma uninstall_is_backed_up_witness:
  "\<exists>p. cm_args (commandOf p) = [''plugin'', ''uninstall'', ''a@m'', ''--scope'', ''user'', ''--keep-data'']"
proof -
  let ?sp = "fmap_of_list [(claudePlugin, demo_plugin_spec)]"
  let ?m = "Execute demo_install_env (beforeRun ?sp) (demo_plan ''uninstall'') (boot demo_install_disk [])"
  have log: "id_commands (w_disk (snd ?m)) = id_commands demo_install_disk @ [commandOf (demo_operation ''uninstall'')]"
    by code_simp
  obtain r w where m: "?m = (r, w)" by (cases ?m)
  from uninstall_is_backed_up [OF m] log m
  obtain p where "commandOf (demo_operation ''uninstall'') = commandOf p" by auto
  moreover have "cm_args (commandOf (demo_operation ''uninstall'')) =
      [''plugin'', ''uninstall'', ''a@m'', ''--scope'', ''user'', ''--keep-data'']" by code_simp
  ultimately show ?thesis by metis
qed

lemma executor_accounts_for_every_operation_witness:
  "\<exists>w res. Execute demo_install_env (beforeRun fmempty) (demo_plan ''install'') (boot demo_install_disk []) = (Inr res, w) \<and>
     appliedOn demo_install_env (w_disk w) (demo_operation ''install'')"
proof -
  let ?m = "Execute demo_install_env (beforeRun fmempty) (demo_plan ''install'') (boot demo_install_disk [])"
  have fine: "(case fst ?m of Inl _ \<Rightarrow> False | Inr res \<Rightarrow> ex_pending res = [])" by code_simp
  obtain res w where m: "?m = (Inr res, w)" using fine by (cases "?m"; cases "fst ?m") auto
  have "demo_operation ''install'' \<in> set (pl_operations (demo_plan ''install''))" by (simp add: demo_plan_def)
  with executor_accounts_for_every_operation [OF m] fine m show ?thesis by auto
qed

text \<open>An applied operation is remembered for good: after a plugin was installed and uninstalled, planning its
  installation again gives the operation recorded the first time, and the executor skips it, runs
  nothing and reports nothing pending.\<close>

lemma reinstall_is_skipped:
  "let bf = beforeRun fmempty;
       afterInstall = snd (run (Execute demo_install_env bf (demo_plan ''install'')) demo_install_disk);
       afterUninstall = snd (run (Execute demo_install_env bf (demo_plan ''uninstall'')) afterInstall);
       again = run (Execute demo_install_env bf (demo_plan ''install'')) afterUninstall
   in length (id_commands afterInstall) = 1 \<and> length (id_commands afterUninstall) = 2 \<and>
      id_commands (snd again) = id_commands afterUninstall \<and>
      fst again = Inr \<lparr>ex_executed = [], ex_pending = [], ex_errors = fmempty\<rparr>"
  by code_simp

end
