(* ===== verification/Conflict_Store.thy ===== *)
theory Conflict_Store
  imports Fault_IO "HOL-Library.Product_Lexorder"
begin

text \<open>
  The conflict store of \<open>internal/conflict\<close> (store.go and resolution.go): conflict bundles kept
  twice, under the local state directory and in the repository working tree, and the resolution
  batch, a transaction over the canonical files with a write-ahead journal.  The disk is typed:
  a bundle directory holds \<open>record.json\<close> and its variants, the metadata files hold a batch, a
  view or a journal, and any JSON file may be corrupt.  Temporary files are invisible (the code
  skips names that start with \<open>.tmp-\<close> and renames them into place), so writing one is an
  operation that may fail and changes nothing that is read.  The mutexes make every operation
  here one critical section; the retry loop of \<open>VisibleConflicts\<close> only waits for the lock.
  SHA-256 and the JSON encoder that feed the revision are parameters, as is the secret scanner.
\<close>

section \<open>Data\<close>

record conflict_record =
  cr_id :: string
  cr_resourceKey :: string
  cr_repoRel :: string
  cr_createdAt :: int

text \<open>Times count nanoseconds from Go's zero time, so \<open>IsZero\<close> is equality with 0.\<close>

datatype conflict_error =
    Fault
  | NotExist
  | InvalidSegment string
  | MissingResourceKey string
  | InvalidRepoPath string
  | InvalidCanonical string string
  | ScanRejected string string
  | AlreadyExists string
  | DoesNotExist string
  | ParseFailed string
  | WrongRecord string string
  | NotRegularDirectory string
  | CopiesDiffer string
  | UnsupportedChoice string
  | NotAllSelected
  | DuplicateSelection string
  | NotVisible string
  | StaleRevision string
  | ContentNotAllowed string
  | ContentRequired string
  | ResolutionActive
  | InvalidStatus string string
  | RecoveredInterrupted
  | Wrapped string conflict_error
  | Joined "conflict_error list"

type_synonym variants = "(string \<times> string) list"

record conflict_bundle =
  bd_record :: "conflict_record stored option"
  bd_variants :: "(string, string) fmap"

datatype dirent = Dir conflict_bundle | RegularFile

record selection =
  sel_id :: string
  sel_revision :: string
  sel_choice :: string
  sel_content :: "string option"

record batch =
  ba_id :: string
  ba_createdAt :: int
  ba_status :: string
  ba_error :: "conflict_error option"
  ba_selections :: "selection list"

record visible_conflict =
  vc_record :: conflict_record
  vc_revision :: string

record journal_entry =
  je_path :: string
  je_exists :: bool
  je_data :: string

record journal =
  jo_batchID :: string
  jo_entries :: "journal_entry list"

record disk =
  dk_local :: "(string, dirent) fmap"
  dk_repo :: "(string, dirent) fmap"
  dk_files :: "(string, string) fmap"
  dk_pending :: "batch stored option"
  dk_failed :: "batch stored option"
  dk_view :: "visible_conflict list stored option"
  dk_journal :: "journal stored option"

text \<open>What a store is built with, and the functions outside the package.\<close>

record store_env =
  ev_repoDir :: string
  ev_scanner :: "(conflict_record \<Rightarrow> string \<Rightarrow> string \<Rightarrow> bool) option"
  ev_now :: int
  ev_digest :: "string \<Rightarrow> string"
  ev_marshalPayload :: "conflict_record \<Rightarrow> string \<Rightarrow> string \<Rightarrow> string \<Rightarrow> string"
  ev_marshalSelections :: "selection list \<Rightarrow> string"

type_synonym 'a store_io = "(disk, conflict_error, 'a) io"

definition errors_join :: "conflict_error option list \<Rightarrow> conflict_error option" where
  "errors_join es =
     (case concat (map (\<lambda>e. case e of None \<Rightarrow> [] | Some x \<Rightarrow> [x]) es) of
        [] \<Rightarrow> None | xs \<Rightarrow> Some (Joined xs))"

section \<open>Validation\<close>

definition validateSegment :: "string \<Rightarrow> conflict_error option" where
  "validateSegment value =
     (if trim_space value = [] \<or> value = ''.'' \<or> value = ''..'' \<or>
         CHR ''/'' \<in> set value \<or> CHR 0x5C \<in> set value
      then Some (InvalidSegment value) else None)"

definition validateRepoPath :: "string \<Rightarrow> conflict_error option" where
  "validateRepoPath value =
     (if trim_space value = [] \<or> CHR 0x5C \<in> set value \<or> prefix ''/'' value \<or>
         path_clean value \<noteq> value
      then Some (InvalidRepoPath value)
      else if list_ex (\<lambda>s. s = [] \<or> s = ''.'' \<or> s = ''..'') (split_on CHR ''/'' value)
      then Some (InvalidRepoPath value) else None)"

definition validateRecord :: "conflict_record \<Rightarrow> conflict_error option" where
  "validateRecord r =
     (case validateSegment (cr_id r) of
        Some e \<Rightarrow> Some e
      | None \<Rightarrow>
          if trim_space (cr_resourceKey r) = [] then Some (MissingResourceKey (cr_id r))
          else case validateRepoPath (cr_repoRel r) of
            Some e \<Rightarrow> Some e
          | None \<Rightarrow>
              if \<not> prefix ''agents/'' (cr_repoRel r) \<or>
                 prefix ''agents/_portable/config/conflicts/'' (cr_repoRel r)
              then Some (InvalidCanonical (cr_id r) (cr_repoRel r)) else None)"

definition scan :: "store_env \<Rightarrow> conflict_record \<Rightarrow> string \<Rightarrow> string \<Rightarrow> conflict_error option" where
  "scan env r variant data =
     (case ev_scanner env of
        None \<Rightarrow> None
      | Some rejects \<Rightarrow> if rejects r variant data then Some (ScanRejected (cr_id r) variant) else None)"

definition check :: "conflict_error option \<Rightarrow> unit store_io" where
  "check e = (case e of None \<Rightarrow> ret () | Some x \<Rightarrow> raise x)"

section \<open>Single disk operations\<close>

datatype root = LocalRoot | RepoRoot

fun entriesOf :: "root \<Rightarrow> disk \<Rightarrow> (string, dirent) fmap" where
  "entriesOf LocalRoot d = dk_local d"
| "entriesOf RepoRoot d = dk_repo d"

fun setEntries :: "root \<Rightarrow> ((string, dirent) fmap \<Rightarrow> (string, dirent) fmap) \<Rightarrow> disk \<Rightarrow> disk" where
  "setEntries LocalRoot f d = d\<lparr>dk_local := f (dk_local d)\<rparr>"
| "setEntries RepoRoot f d = d\<lparr>dk_repo := f (dk_repo d)\<rparr>"

text \<open>\<open>os.ReadDir\<close>, then the directories whose name does not start with \<open>.tmp-\<close>.\<close>

definition bundleNames :: "(string, dirent) fmap \<Rightarrow> string list" where
  "bundleNames m =
     filter (\<lambda>n. \<not> prefix ''.tmp-'' n \<and> (case fmlookup m n of Some (Dir _) \<Rightarrow> True | _ \<Rightarrow> False)) (fm_keys m)"

definition readDir :: "root \<Rightarrow> string list store_io" where
  "readDir r = read_tick Fault (\<lambda>d. Inr (bundleNames (entriesOf r d)))"

definition statEntry :: "root \<Rightarrow> string \<Rightarrow> dirent option store_io" where
  "statEntry r i = read_tick Fault (\<lambda>d. Inr (fmlookup (entriesOf r d) i))"

definition readRecordFile :: "root \<Rightarrow> string \<Rightarrow> conflict_record stored store_io" where
  "readRecordFile r i = read_tick Fault (\<lambda>d.
     case fmlookup (entriesOf r d) i of
       None \<Rightarrow> Inl NotExist
     | Some RegularFile \<Rightarrow> Inl Fault
     | Some (Dir b) \<Rightarrow> (case bd_record b of None \<Rightarrow> Inl NotExist | Some s \<Rightarrow> Inr s))"

definition readVariant :: "root \<Rightarrow> string \<Rightarrow> string \<Rightarrow> string store_io" where
  "readVariant r i v = read_tick Fault (\<lambda>d.
     case fmlookup (entriesOf r d) i of
       None \<Rightarrow> Inl NotExist
     | Some RegularFile \<Rightarrow> Inl Fault
     | Some (Dir b) \<Rightarrow> (case fmlookup (bd_variants b) v of None \<Rightarrow> Inl NotExist | Some s \<Rightarrow> Inr s))"

definition strip_bundle :: "string list \<Rightarrow> conflict_bundle \<Rightarrow> conflict_bundle" where
  "strip_bundle ns b =
     \<lparr>bd_record = (if ''record.json'' \<in> set ns then None else bd_record b),
      bd_variants = fmdrop_set (set ns) (bd_variants b)\<rparr>"

definition partial_remove :: "string \<Rightarrow> string list \<Rightarrow> (string, dirent) fmap \<Rightarrow> (string, dirent) fmap" where
  "partial_remove i ns m =
     (case fmlookup m i of Some (Dir b) \<Rightarrow> fmupd i (Dir (strip_bundle ns b)) m | _ \<Rightarrow> m)"

definition removeAll :: "root \<Rightarrow> string \<Rightarrow> unit store_io" where
  "removeAll r i = tick Fault (\<lambda>d ns. setEntries r (partial_remove i ns) d)
     (\<lambda>d. (Inr (), setEntries r (fmdrop i) d))"

text \<open>An operation that either happens or does not: a rename, a removal of one file.\<close>

definition atomic :: "(disk \<Rightarrow> disk) \<Rightarrow> unit store_io" where
  "atomic f = tick Fault (\<lambda>d _. d) (\<lambda>d. (Inr (), f d))"

definition mkBundle :: "conflict_record \<Rightarrow> variants \<Rightarrow> conflict_bundle" where
  "mkBundle r vs = \<lparr>bd_record = Some (Stored r), bd_variants = fmap_of_list vs\<rparr>"

definition writeTempBundle :: "root \<Rightarrow> conflict_record \<Rightarrow> variants \<Rightarrow> conflict_bundle store_io" where
  "writeTempBundle r rec vs = read_tick Fault (\<lambda>_. Inr (mkBundle rec vs))"

definition renameBundle :: "root \<Rightarrow> string \<Rightarrow> conflict_bundle \<Rightarrow> unit store_io" where
  "renameBundle r i b = atomic (setEntries r (fmupd i (Dir b)))"

definition readCanonical :: "string \<Rightarrow> string option store_io" where
  "readCanonical p = read_tick Fault (\<lambda>d. Inr (fmlookup (dk_files d) p))"

definition writeAtomic :: "string \<Rightarrow> string \<Rightarrow> unit store_io" where
  "writeAtomic p data = atomic (\<lambda>d. d\<lparr>dk_files := fmupd p data (dk_files d)\<rparr>)"

definition removeFile :: "string \<Rightarrow> unit store_io" where
  "removeFile p = tick Fault (\<lambda>d _. d) (\<lambda>d.
     if fmlookup (dk_files d) p = None then (Inl NotExist, d)
     else (Inr (), d\<lparr>dk_files := fmdrop p (dk_files d)\<rparr>))"

datatype metadata = PendingJson | FailedJson | ViewJson | JournalJson

fun metaExists :: "metadata \<Rightarrow> disk \<Rightarrow> bool" where
  "metaExists PendingJson d \<longleftrightarrow> dk_pending d \<noteq> None"
| "metaExists FailedJson d \<longleftrightarrow> dk_failed d \<noteq> None"
| "metaExists ViewJson d \<longleftrightarrow> dk_view d \<noteq> None"
| "metaExists JournalJson d \<longleftrightarrow> dk_journal d \<noteq> None"

fun metaClear :: "metadata \<Rightarrow> disk \<Rightarrow> disk" where
  "metaClear PendingJson d = d\<lparr>dk_pending := None\<rparr>"
| "metaClear FailedJson d = d\<lparr>dk_failed := None\<rparr>"
| "metaClear ViewJson d = d\<lparr>dk_view := None\<rparr>"
| "metaClear JournalJson d = d\<lparr>dk_journal := None\<rparr>"

definition removeMeta :: "metadata \<Rightarrow> unit store_io" where
  "removeMeta m = tick Fault (\<lambda>d _. d) (\<lambda>d.
     if metaExists m d then (Inr (), metaClear m d) else (Inl NotExist, d))"

text \<open>The error of an operation, with \<open>ErrNotExist\<close> accepted.\<close>

definition errorOf :: "conflict_error + 'a \<Rightarrow> conflict_error option" where
  "errorOf r = (case r of Inl NotExist \<Rightarrow> None | Inl e \<Rightarrow> Some e | Inr _ \<Rightarrow> None)"

definition clearMeta :: "metadata \<Rightarrow> conflict_error option \<Rightarrow> conflict_error option store_io" where
  "clearMeta m joined = attempt (removeMeta m) (\<lambda>r. ret (errors_join [joined, errorOf r]))"

definition clearResolutionMetadata :: "metadata list \<Rightarrow> conflict_error option store_io" where
  "clearResolutionMetadata ms = forEach clearMeta ms None"

section \<open>Bundles\<close>

definition readBundleRecord :: "root \<Rightarrow> string \<Rightarrow> conflict_record store_io" where
  "readBundleRecord r i =
     andThen (check (validateSegment i)) (\<lambda>_.
     andThen (readRecordFile r i) (\<lambda>s.
       case s of
         Corrupt \<Rightarrow> raise (ParseFailed i)
       | Stored rec \<Rightarrow>
           andThen (check (validateRecord rec)) (\<lambda>_.
             if cr_id rec \<noteq> i then raise (WrongRecord i (cr_id rec)) else ret rec)))"

text \<open>\<open>readRecord\<close> differs from the record part of \<open>readBundle\<close> only in how it reports absence.\<close>

definition readRecord :: "string \<Rightarrow> conflict_record store_io" where
  "readRecord i =
     attempt (readBundleRecord LocalRoot i) (\<lambda>r.
       case r of Inl NotExist \<Rightarrow> raise (DoesNotExist i) | Inl e \<Rightarrow> raise e | Inr rec \<Rightarrow> ret rec)"

definition readScanned :: "store_env \<Rightarrow> root \<Rightarrow> string \<Rightarrow> conflict_record \<Rightarrow> string \<Rightarrow> variants \<Rightarrow> variants store_io" where
  "readScanned env r i rec v vs =
     andThen (readVariant r i v) (\<lambda>data.
     andThen (check (scan env rec v data)) (\<lambda>_. ret (vs @ [(v, data)])))"

definition readBundle :: "store_env \<Rightarrow> root \<Rightarrow> string \<Rightarrow> (conflict_record \<times> variants) store_io" where
  "readBundle env r i =
     andThen (readBundleRecord r i) (\<lambda>rec.
     andThen (forEach (readScanned env r i rec) [''base'', ''local'', ''remote''] []) (\<lambda>vs.
       ret (rec, vs)))"

definition assertAbsent :: "string \<Rightarrow> root \<Rightarrow> unit \<Rightarrow> unit store_io" where
  "assertAbsent i r _ =
     andThen (statEntry r i) (\<lambda>s. if s \<noteq> None then raise (AlreadyExists i) else ret ())"

definition publishBoth :: "string \<Rightarrow> conflict_bundle \<Rightarrow> conflict_bundle \<Rightarrow> unit store_io" where
  "publishBoth i lt rt =
     attempt (renameBundle LocalRoot i lt) (\<lambda>x.
       case x of
         Inl e \<Rightarrow> raise (Wrapped ''publish local conflict bundle'' e)
       | Inr _ \<Rightarrow>
           attempt (renameBundle RepoRoot i rt) (\<lambda>y.
             case y of
               Inr _ \<Rightarrow> ret ()
             | Inl e \<Rightarrow> attempt (removeAll LocalRoot i) (\<lambda>z.
                 raise (Joined ([Wrapped ''publish repository conflict bundle'' e] @
                   (case z of Inl e' \<Rightarrow> [e'] | Inr _ \<Rightarrow> []))))))"

definition Create :: "store_env \<Rightarrow> conflict_record \<Rightarrow> string \<Rightarrow> string \<Rightarrow> string \<Rightarrow> unit store_io" where
  "Create env rec0 base local remote =
     (let rec = (if cr_createdAt rec0 = 0 then rec0\<lparr>cr_createdAt := ev_now env\<rparr> else rec0);
          i = cr_id rec;
          vs = [(''base'', base), (''local'', local), (''remote'', remote)]
      in andThen (check (validateRecord rec)) (\<lambda>_.
         andThen (forEach (\<lambda>(v, data) _. check (scan env rec v data)) vs ()) (\<lambda>_.
         andThen (forEach (assertAbsent i) [LocalRoot, RepoRoot] ()) (\<lambda>_.
         andThen (writeTempBundle LocalRoot rec vs) (\<lambda>lt.
         andThen (writeTempBundle RepoRoot rec vs) (\<lambda>rt.
           publishBoth i lt rt))))))"

definition listUnlocked :: "conflict_record list store_io" where
  "listUnlocked =
     andThen (readDir LocalRoot) (\<lambda>names.
     andThen (forEach (\<lambda>i rs. andThen (readRecord i) (\<lambda>rec. ret (rs @ [rec]))) names []) (\<lambda>rs.
       ret (sort_key (\<lambda>r. (cr_createdAt r, cr_id r)) rs)))"

text \<open>One directory entry of the repository, then one of the local store.\<close>

definition mirrorIn :: "store_env \<Rightarrow> string list \<Rightarrow> string \<Rightarrow> string list \<Rightarrow> string list store_io" where
  "mirrorIn env preserve i ids =
     (if i \<in> set preserve then ret ids
      else
        andThen (readBundle env RepoRoot i) (\<lambda>(rec, vs).
        andThen (statEntry LocalRoot i) (\<lambda>info.
          case info of
            Some RegularFile \<Rightarrow> raise (NotRegularDirectory i)
          | Some (Dir _) \<Rightarrow>
              andThen (readBundle env LocalRoot i) (\<lambda>(lrec, lvs).
                if lrec \<noteq> rec \<or> lvs \<noteq> vs then raise (CopiesDiffer i) else ret (ids @ [i]))
          | None \<Rightarrow>
              andThen (writeTempBundle LocalRoot rec vs) (\<lambda>b.
              attempt (renameBundle LocalRoot i b) (\<lambda>x.
                case x of
                  Inl e \<Rightarrow> raise (Wrapped ''publish mirrored local conflict bundle'' e)
                | Inr _ \<Rightarrow> ret (ids @ [i]))))))"

definition mirrorOut :: "string list \<Rightarrow> string list \<Rightarrow> string \<Rightarrow> unit \<Rightarrow> unit store_io" where
  "mirrorOut preserve ids i _ =
     (if i \<in> set preserve \<or> i \<in> set ids then ret () else removeAll LocalRoot i)"

definition MirrorFromRepo :: "store_env \<Rightarrow> string list \<Rightarrow> unit store_io" where
  "MirrorFromRepo env preserve =
     andThen (readDir RepoRoot) (\<lambda>names.
     andThen (forEach (mirrorIn env preserve) names []) (\<lambda>ids.
     andThen (readDir LocalRoot) (\<lambda>locals.
       forEach (mirrorOut preserve ids) locals ())))"

definition canonicalPath :: "store_env \<Rightarrow> conflict_record \<Rightarrow> string" where
  "canonicalPath env rec = path_join [ev_repoDir env, cr_repoRel rec]"

definition Resolve :: "store_env \<Rightarrow> string \<Rightarrow> string \<Rightarrow> unit store_io" where
  "Resolve env i merged =
     andThen (check (validateSegment i)) (\<lambda>_.
     andThen (readRecord i) (\<lambda>rec.
     andThen (check (scan env rec ''merged'' merged)) (\<lambda>_.
     attempt (writeAtomic (canonicalPath env rec) merged) (\<lambda>w.
       case w of
         Inl e \<Rightarrow> raise (Wrapped ''write resolved conflict'' e)
       | Inr _ \<Rightarrow>
           attempt (removeAll LocalRoot i) (\<lambda>l.
           attempt (removeAll RepoRoot i) (\<lambda>r.
             check (errors_join [errorOf l, errorOf r])))))))"

definition ResolveVariant :: "store_env \<Rightarrow> string \<Rightarrow> string \<Rightarrow> unit store_io" where
  "ResolveVariant env i v =
     (if v \<noteq> ''local'' \<and> v \<noteq> ''remote'' then raise (UnsupportedChoice v)
      else
        andThen (check (validateSegment i)) (\<lambda>_.
        andThen (readRecord i) (\<lambda>_.
        attempt (readVariant LocalRoot i v) (\<lambda>x.
          case x of
            Inl e \<Rightarrow> raise (Wrapped ''read conflict variant'' e)
          | Inr data \<Rightarrow> Resolve env i data))))"

section \<open>Revisions and the queue\<close>

definition hashOf :: "store_env \<Rightarrow> variants \<Rightarrow> string \<Rightarrow> string" where
  "hashOf env vs name = (case map_of vs name of None \<Rightarrow> [] | Some data \<Rightarrow> ev_digest env data)"

definition Revision :: "store_env \<Rightarrow> string \<Rightarrow> string store_io" where
  "Revision env i =
     andThen (readBundle env LocalRoot i) (\<lambda>(rec, vs).
       ret (ev_digest env (ev_marshalPayload env rec
              (hashOf env vs ''base'') (hashOf env vs ''local'') (hashOf env vs ''remote''))))"

definition listVisible :: "store_env \<Rightarrow> visible_conflict list store_io" where
  "listVisible env =
     andThen listUnlocked (\<lambda>records.
       forEach (\<lambda>rec vis. andThen (Revision env (cr_id rec)) (\<lambda>rev.
         ret (vis @ [\<lparr>vc_record = rec, vc_revision = rev\<rparr>]))) records [])"

definition readBatch :: "metadata \<Rightarrow> batch option store_io" where
  "readBatch m = read_tick Fault (\<lambda>d.
     case (if m = PendingJson then dk_pending d else dk_failed d) of
       None \<Rightarrow> Inr None
     | Some Corrupt \<Rightarrow> Inl (ParseFailed (if m = PendingJson then ''pending.json'' else ''failed.json''))
     | Some (Stored b) \<Rightarrow> Inr (Some b))"

text \<open>\<open>omitempty\<close>: empty content does not survive the JSON file as a non-nil slice.\<close>

definition json_selection :: "selection \<Rightarrow> selection" where
  "json_selection s = (if sel_content s = Some [] then s\<lparr>sel_content := None\<rparr> else s)"

definition json_batch :: "batch \<Rightarrow> batch stored" where
  "json_batch b = Stored (b\<lparr>ba_selections := map json_selection (ba_selections b)\<rparr>)"

fun checkSelections :: "store_env \<Rightarrow> (string \<rightharpoonup> visible_conflict) \<Rightarrow> string list \<Rightarrow> selection list \<Rightarrow> conflict_error option" where
  "checkSelections env byID seen [] = None"
| "checkSelections env byID seen (s # ss) =
     (case validateSegment (sel_id s) of
        Some e \<Rightarrow> Some e
      | None \<Rightarrow>
          if sel_id s \<in> set seen then Some (DuplicateSelection (sel_id s))
          else case byID (sel_id s) of
            None \<Rightarrow> Some (NotVisible (sel_id s))
          | Some c \<Rightarrow>
              if sel_revision s \<noteq> vc_revision c then Some (StaleRevision (sel_id s))
              else
                (case (if sel_choice s = ''local'' \<or> sel_choice s = ''remote'' then
                         (if sel_content s \<noteq> None \<and> sel_content s \<noteq> Some []
                          then Some (ContentNotAllowed (sel_choice s)) else None)
                       else if sel_choice s = ''merged'' then
                         (case sel_content s of
                            None \<Rightarrow> Some (ContentRequired (sel_id s))
                          | Some data \<Rightarrow> scan env (vc_record c) ''merged'' data)
                       else Some (UnsupportedChoice (sel_choice s))) of
                   Some e \<Rightarrow> Some e
                 | None \<Rightarrow> checkSelections env byID (sel_id s # seen) ss))"

definition QueueBatch :: "store_env \<Rightarrow> selection list \<Rightarrow> batch store_io" where
  "QueueBatch env selections =
     andThen (listVisible env) (\<lambda>visible.
       if length selections \<noteq> length visible then raise NotAllSelected
       else
         andThen (check (checkSelections env
                    (map_of (map (\<lambda>v. (cr_id (vc_record v), v)) (rev visible))) [] selections)) (\<lambda>_.
         let ordered = sort_key sel_id selections;
             b = \<lparr>ba_id = ev_digest env (ev_marshalSelections env ordered), ba_createdAt = ev_now env,
                  ba_status = ''queued'', ba_error = None, ba_selections = ordered\<rparr>
         in andThen (readBatch PendingJson) (\<lambda>pending.
              if pending \<noteq> None then raise ResolutionActive
              else
                andThen (atomic (\<lambda>d. d\<lparr>dk_pending := Some (json_batch b)\<rparr>)) (\<lambda>_.
                attempt (removeMeta FailedJson) (\<lambda>_. ret b)))))"

definition ResolutionStatus :: "batch option store_io" where
  "ResolutionStatus =
     andThen (readBatch PendingJson) (\<lambda>b. if b \<noteq> None then ret b else readBatch FailedJson)"

definition readView :: "visible_conflict list store_io" where
  "readView = read_tick Fault (\<lambda>d.
     case dk_view d of
       None \<Rightarrow> Inl NotExist
     | Some Corrupt \<Rightarrow> Inl (ParseFailed ''applying-view.json'')
     | Some (Stored v) \<Rightarrow> Inr v)"

text \<open>
  The body of the waiting loop once the read lock is held.  Go returns the view, the status and
  the error together; the error of the listing is replaced by the error of reading
  \<open>failed.json\<close> when no batch is pending.
\<close>

definition VisibleConflicts ::
  "store_env \<Rightarrow> (visible_conflict list \<times> batch option \<times> conflict_error option) store_io"
where
  "VisibleConflicts env =
     attempt (readBatch PendingJson) (\<lambda>p.
       case p of
         Inl e \<Rightarrow> ret ([], None, Some e)
       | Inr pending \<Rightarrow>
           (case pending of
              Some b \<Rightarrow>
                if ba_status b = ''applying'' then
                  attempt readView (\<lambda>v.
                    case v of Inl e \<Rightarrow> ret ([], pending, Some e) | Inr view \<Rightarrow> ret (view, pending, None))
                else
                  attempt (listVisible env) (\<lambda>v.
                    case v of Inl e \<Rightarrow> ret ([], pending, Some e) | Inr vis \<Rightarrow> ret (vis, pending, None))
            | None \<Rightarrow>
                attempt (listVisible env) (\<lambda>v.
                attempt (readBatch FailedJson) (\<lambda>s.
                  ret (case v of Inl _ \<Rightarrow> [] | Inr vis \<Rightarrow> vis,
                       case s of Inl _ \<Rightarrow> None | Inr st \<Rightarrow> st,
                       case s of Inl e \<Rightarrow> Some e | Inr _ \<Rightarrow> None)))))"

section \<open>The resolution transaction\<close>

definition rollbackEntry :: "journal_entry \<Rightarrow> conflict_error option \<Rightarrow> conflict_error option store_io" where
  "rollbackEntry e joined =
     attempt (if je_exists e then writeAtomic (je_path e) (je_data e) else removeFile (je_path e))
       (\<lambda>r. ret (errors_join [joined, errorOf r]))"

definition rollbackEntries :: "journal_entry list \<Rightarrow> conflict_error option store_io" where
  "rollbackEntries es = forEach rollbackEntry (rev es) None"

definition optionOf :: "conflict_error + 'a \<Rightarrow> conflict_error option" where
  "optionOf r = (case r of Inl e \<Rightarrow> Some e | Inr _ \<Rightarrow> None)"

definition writeFailed :: "batch \<Rightarrow> unit store_io" where
  "writeFailed b = atomic (\<lambda>d. d\<lparr>dk_failed := Some (json_batch b)\<rparr>)"

definition failBatch :: "batch \<Rightarrow> journal_entry list \<Rightarrow> conflict_error \<Rightarrow> 'a store_io" where
  "failBatch b es cause =
     andThen (rollbackEntries es) (\<lambda>rollbackErr.
     attempt (writeFailed (b\<lparr>ba_status := ''failed'', ba_error := errors_join [Some cause, rollbackErr]\<rparr>)) (\<lambda>w.
     andThen (clearResolutionMetadata [PendingJson, ViewJson, JournalJson]) (\<lambda>clearErr.
       raise (case errors_join [Some cause, rollbackErr, optionOf w, clearErr] of
                Some e \<Rightarrow> e | None \<Rightarrow> cause))))"

text \<open>The part of the loop body before the journal is touched: what is to be written, over what.\<close>

definition loadChoice ::
  "store_env \<Rightarrow> selection \<Rightarrow> (conflict_record \<times> string \<times> string option) store_io"
where
  "loadChoice env s =
     andThen (readRecord (sel_id s)) (\<lambda>rec.
     andThen (Revision env (sel_id s)) (\<lambda>current.
       if current \<noteq> sel_revision s then raise (StaleRevision (sel_id s))
       else
         andThen (if sel_choice s = ''merged'' then ret (case sel_content s of None \<Rightarrow> [] | Some c \<Rightarrow> c)
                  else readVariant LocalRoot (sel_id s) (sel_choice s)) (\<lambda>data.
         andThen (check (scan env rec (sel_choice s) data)) (\<lambda>_.
         andThen (readCanonical (canonicalPath env rec)) (\<lambda>original.
           ret (rec, data, original))))))"

definition journalEntry :: "string \<Rightarrow> string option \<Rightarrow> journal_entry" where
  "journalEntry p original =
     \<lparr>je_path = p, je_exists = (original \<noteq> None), je_data = (case original of None \<Rightarrow> [] | Some x \<Rightarrow> x)\<rparr>"

definition writeJournal :: "batch \<Rightarrow> journal_entry list \<Rightarrow> unit store_io" where
  "writeJournal b es = atomic (\<lambda>d. d\<lparr>dk_journal := Some (Stored \<lparr>jo_batchID = ba_id b, jo_entries = es\<rparr>)\<rparr>)"

type_synonym applied = "(conflict_record \<times> string) list"

definition applySelection ::
  "store_env \<Rightarrow> batch \<Rightarrow> selection \<Rightarrow> journal_entry list \<times> applied \<Rightarrow> (journal_entry list \<times> applied) store_io"
where
  "applySelection env b s = (\<lambda>(es, applied).
     attempt (loadChoice env s) (\<lambda>x.
       case x of
         Inl e \<Rightarrow> failBatch b es (Wrapped ''load'' e)
       | Inr (rec, data, original) \<Rightarrow>
           let es' = es @ [journalEntry (canonicalPath env rec) original]
           in attempt (writeJournal b es') (\<lambda>j.
                case j of
                  Inl e \<Rightarrow> failBatch b es' (Wrapped ''journal canonical'' e)
                | Inr _ \<Rightarrow>
                    attempt (writeAtomic (canonicalPath env rec) data) (\<lambda>w.
                      case w of
                        Inl e \<Rightarrow> failBatch b es' (Wrapped ''write resolved conflict'' e)
                      | Inr _ \<Rightarrow> ret (es', applied @ [(rec, sel_choice s)])))))"

definition removeBundles :: "batch \<Rightarrow> journal_entry list \<Rightarrow> selection \<Rightarrow> unit \<Rightarrow> unit store_io" where
  "removeBundles b es s _ =
     attempt (removeAll LocalRoot (sel_id s)) (\<lambda>l.
       case l of
         Inl e \<Rightarrow> failBatch b es (Wrapped ''remove local conflict'' e)
       | Inr _ \<Rightarrow>
           attempt (removeAll RepoRoot (sel_id s)) (\<lambda>r.
             case r of
               Inl e \<Rightarrow> failBatch b es (Wrapped ''remove repository conflict'' e)
             | Inr _ \<Rightarrow> ret ()))"

text \<open>The applied resolutions, and the error of clearing the metadata that Go returns beside them.\<close>

definition runBatch :: "store_env \<Rightarrow> batch \<Rightarrow> (applied \<times> conflict_error option) store_io" where
  "runBatch env b =
     andThen (forEach (applySelection env b) (ba_selections b) ([], [])) (\<lambda>(es, applied).
     andThen (forEach (removeBundles b es) (ba_selections b) ()) (\<lambda>_.
     attempt (removeMeta PendingJson) (\<lambda>p.
       case p of
         Inl e \<Rightarrow> failBatch b es (Wrapped ''clear pending resolution batch'' e)
       | Inr _ \<Rightarrow>
           andThen (clearResolutionMetadata [FailedJson, ViewJson, JournalJson]) (\<lambda>clearErr.
             ret (applied, clearErr)))))"

definition ApplyPendingBatch :: "store_env \<Rightarrow> (applied \<times> conflict_error option) store_io" where
  "ApplyPendingBatch env =
     andThen (readBatch PendingJson) (\<lambda>p.
       case p of
         None \<Rightarrow> ret ([], None)
       | Some b \<Rightarrow>
           if ba_status b \<noteq> ''queued'' then raise (InvalidStatus (ba_id b) (ba_status b))
           else
             andThen (listVisible env) (\<lambda>view.
             andThen (atomic (\<lambda>d. d\<lparr>dk_view := Some (Stored view)\<rparr>)) (\<lambda>_.
             let b' = b\<lparr>ba_status := ''applying''\<rparr>
             in andThen (atomic (\<lambda>d. d\<lparr>dk_pending := Some (json_batch b')\<rparr>)) (\<lambda>_.
                  runBatch env b'))))"

definition readJournal :: "journal stored store_io" where
  "readJournal = read_tick Fault (\<lambda>d. case dk_journal d of None \<Rightarrow> Inl NotExist | Some s \<Rightarrow> Inr s)"

definition RecoverTransactions :: "unit store_io" where
  "RecoverTransactions =
     andThen (readBatch PendingJson) (\<lambda>p.
       case p of
         None \<Rightarrow> ret ()
       | Some b \<Rightarrow>
           if ba_status b \<noteq> ''applying'' then ret ()
           else
             attempt readJournal (\<lambda>j.
               case j of
                 Inl e \<Rightarrow>
                   attempt (writeFailed (b\<lparr>ba_status := ''failed'', ba_error := Some (Wrapped ''read journal'' e)\<rparr>)) (\<lambda>w.
                   andThen (clearResolutionMetadata [PendingJson, ViewJson, JournalJson]) (\<lambda>clearErr.
                     check (errors_join [Some (Wrapped ''read journal'' e), optionOf w, clearErr])))
               | Inr Corrupt \<Rightarrow> raise (ParseFailed ''transaction.json'')
               | Inr (Stored jo) \<Rightarrow>
                   andThen (rollbackEntries (jo_entries jo)) (\<lambda>rollbackErr.
                   andThen (check rollbackErr) (\<lambda>_.
                   andThen (writeFailed (b\<lparr>ba_status := ''failed'', ba_error := Some RecoveredInterrupted\<rparr>)) (\<lambda>_.
                   andThen (clearResolutionMetadata [PendingJson, ViewJson, JournalJson]) check)))))"

section \<open>Lawfulness\<close>

lemmas single_ops = readDir_def statEntry_def readRecordFile_def readVariant_def removeAll_def
  atomic_def writeTempBundle_def renameBundle_def readCanonical_def writeAtomic_def removeFile_def
  removeMeta_def readBatch_def readView_def readJournal_def writeFailed_def writeJournal_def

lemma lawful_check [lawful_intros]: "lawful (check e)"
  by (auto simp: check_def intro: lawful_intros split: option.split)

lemma lawful_single_ops [lawful_intros]:
  "lawful (readDir r)" "lawful (statEntry r i)" "lawful (readRecordFile r i)" "lawful (readVariant r i v)"
  "lawful (removeAll r i)" "lawful (atomic f)" "lawful (writeTempBundle r rec vs)"
  "lawful (renameBundle r i b)" "lawful (readCanonical p)" "lawful (writeAtomic p x)"
  "lawful (removeFile p)" "lawful (removeMeta m)" "lawful (readBatch m)" "lawful readView"
  "lawful readJournal" "lawful (writeFailed ba)" "lawful (writeJournal ba es)"
  by (simp_all add: single_ops lawful_intros)

lemma lawful_readBundleRecord [lawful_intros]: "lawful (readBundleRecord r i)"
  by (auto simp: readBundleRecord_def intro!: lawful_intros split: stored.split)

lemma lawful_readRecord [lawful_intros]: "lawful (readRecord i)"
  by (auto simp: readRecord_def intro!: lawful_intros split: sum.split conflict_error.split)

lemma lawful_readBundle [lawful_intros]: "lawful (readBundle env r i)"
  by (auto simp: readBundle_def readScanned_def intro!: lawful_intros)

lemma lawful_Revision [lawful_intros]: "lawful (Revision env i)"
  by (auto simp: Revision_def intro!: lawful_intros split: prod.split)

lemma lawful_create_steps [lawful_intros]: "lawful (assertAbsent i r u)" "lawful (publishBoth i lt rt)"
  by (auto simp: assertAbsent_def publishBoth_def intro!: lawful_intros split: sum.split)

lemma lawful_listUnlocked [lawful_intros]: "lawful listUnlocked"
  by (auto simp: listUnlocked_def intro!: lawful_intros)

lemma lawful_listVisible [lawful_intros]: "lawful (listVisible env)"
  by (auto simp: listVisible_def intro!: lawful_intros)

lemma lawful_clear [lawful_intros]: "lawful (clearResolutionMetadata ms)"
  by (auto simp: clearResolutionMetadata_def clearMeta_def intro!: lawful_intros)

lemma lawful_rollback [lawful_intros]: "lawful (rollbackEntry e j)" "lawful (rollbackEntries es)"
  by (auto simp: rollbackEntries_def rollbackEntry_def intro!: lawful_intros)

lemma lawful_failBatch [lawful_intros]: "lawful (failBatch b es e)"
  by (auto simp: failBatch_def intro!: lawful_intros)

lemma lawful_loadChoice [lawful_intros]: "lawful (loadChoice env s)"
  by (auto simp: loadChoice_def intro!: lawful_intros split: option.split)

lemma lawful_applySelection [lawful_intros]: "lawful (applySelection env b s x)"
  by (auto simp: applySelection_def Let_def intro!: lawful_intros split: sum.split prod.split)

lemma lawful_removeBundles [lawful_intros]: "lawful (removeBundles b es s u)"
  by (auto simp: removeBundles_def intro!: lawful_intros split: sum.split)

lemma lawful_runBatch [lawful_intros]: "lawful (runBatch env b)"
  by (auto simp: runBatch_def intro!: lawful_intros split: sum.split prod.split)

lemma lawful_ApplyPendingBatch [lawful_intros]: "lawful (ApplyPendingBatch env)"
  by (auto simp: ApplyPendingBatch_def Let_def intro!: lawful_intros split: option.split)

lemma lawful_RecoverTransactions [lawful_intros]: "lawful RecoverTransactions"
  by (auto simp: RecoverTransactions_def intro!: lawful_intros split: option.split sum.split stored.split)

section \<open>Operations that only read\<close>

lemma reader_check [reader_intros]: "reader (check e)"
  by (auto simp: check_def intro: reader_intros split: option.split)

lemma reader_single_ops [reader_intros]:
  "reader (readDir r)" "reader (statEntry r i)" "reader (readRecordFile r i)" "reader (readVariant r i v)"
  "reader (writeTempBundle r rec vs)" "reader (readCanonical p)" "reader (readBatch m)"
  "reader readView" "reader readJournal"
  by (simp_all add: single_ops reader_intros)

lemma reader_readBundleRecord [reader_intros]: "reader (readBundleRecord r i)"
  by (auto simp: readBundleRecord_def intro!: reader_intros split: stored.split)

lemma reader_readRecord [reader_intros]: "reader (readRecord i)"
  by (auto simp: readRecord_def intro!: reader_intros split: sum.split conflict_error.split)

lemma reader_readBundle [reader_intros]: "reader (readBundle env r i)"
  by (auto simp: readBundle_def readScanned_def intro!: reader_intros)

lemma reader_Revision [reader_intros]: "reader (Revision env i)"
  by (auto simp: Revision_def intro!: reader_intros split: prod.split)

lemma reader_listUnlocked [reader_intros]: "reader listUnlocked"
  by (auto simp: listUnlocked_def intro!: reader_intros)

lemma reader_listVisible [reader_intros]: "reader (listVisible env)"
  by (auto simp: listVisible_def intro!: reader_intros)

lemma reader_loadChoice [reader_intros]: "reader (loadChoice env s)"
  by (auto simp: loadChoice_def intro!: reader_intros split: option.split)

section \<open>Undoing a journal\<close>

definition entryValue :: "journal_entry \<Rightarrow> string option" where
  "entryValue e = (if je_exists e then Some (je_data e) else None)"

definition undo :: "journal_entry \<Rightarrow> (string, string) fmap \<Rightarrow> (string, string) fmap" where
  "undo e = fm_set (je_path e) (entryValue e)"

text \<open>
  A journal covers the original files when its first entry for a path holds the original and
  every path it does not mention is untouched.
\<close>

definition covers :: "(string, string) fmap \<Rightarrow> journal_entry list \<Rightarrow> (string, string) fmap \<Rightarrow> bool" where
  "covers orig es files \<longleftrightarrow>
     (\<forall>p. case find (\<lambda>e. je_path e = p) es of
            Some e \<Rightarrow> entryValue e = fmlookup orig p
          | None \<Rightarrow> fmlookup files p = fmlookup orig p)"

lemma find_append: "find P (xs @ ys) = (case find P xs of None \<Rightarrow> find P ys | Some x \<Rightarrow> Some x)"
  by (induction xs) auto

lemma entryValue_journalEntry [simp]: "entryValue (journalEntry p v) = v" "je_path (journalEntry p v) = p"
  by (auto simp: entryValue_def journalEntry_def split: option.split)

lemma covers_Nil [simp]: "covers orig [] files \<longleftrightarrow> files = orig"
  by (auto simp: covers_def intro: fmap_ext)

lemma coversD:
  assumes "covers orig es files"
  shows "find (\<lambda>e. je_path e = p) es = Some e \<Longrightarrow> entryValue e = fmlookup orig p"
    "find (\<lambda>e. je_path e = p) es = None \<Longrightarrow> fmlookup files p = fmlookup orig p"
  using assms [unfolded covers_def, THEN spec, of p] by simp_all

lemma covers_append:
  assumes "covers orig es files"
  shows "covers orig (es @ [journalEntry p (fmlookup files p)]) files"
  unfolding covers_def find_append
  by (auto simp: coversD [OF assms] split: option.split)

lemma covers_update:
  assumes "covers orig es files" "p \<in> je_path ` set es"
  shows "covers orig es (fm_set p v files)"
proof -
  have "find (\<lambda>e. je_path e = p) es \<noteq> None" using assms(2) by (auto simp: find_None_iff)
  then show ?thesis unfolding covers_def by (auto simp: coversD [OF assms(1)] split: option.split)
qed

lemma covers_upd:
  "covers orig es files \<Longrightarrow> p \<in> je_path ` set es \<Longrightarrow> covers orig es (fmupd p x files)"
  using covers_update [of orig es files p "Some x"] by (simp add: fm_set_def)

lemma undo_all:
  "fmlookup (foldr undo es files) p =
     (case find (\<lambda>e. je_path e = p) es of Some e \<Rightarrow> entryValue e | None \<Rightarrow> fmlookup files p)"
  by (induction es) (auto simp: undo_def split: option.split)

lemma covers_undo: "covers orig es files \<Longrightarrow> foldr undo es files = orig"
  by (intro fmap_ext) (auto simp: undo_all coversD split: option.split)

section \<open>States a crash may leave\<close>

definition applying :: "disk \<Rightarrow> bool" where
  "applying d \<longleftrightarrow>
     (case dk_pending d of Some (Stored b) \<Rightarrow> ba_status b = ''applying'' | _ \<Rightarrow> False)"

definition journalled :: "journal_entry list \<Rightarrow> disk \<Rightarrow> bool" where
  "journalled es d \<longleftrightarrow>
     (case dk_journal d of
        None \<Rightarrow> es = [] | Some Corrupt \<Rightarrow> False | Some (Stored jo) \<Rightarrow> jo_entries jo = es)"

definition midway :: "(string, string) fmap \<Rightarrow> journal_entry list \<Rightarrow> disk \<Rightarrow> bool" where
  "midway orig es d \<longleftrightarrow> applying d \<and> journalled es d \<and> covers orig es (dk_files d)"

definition settled :: "(string, string) fmap \<Rightarrow> disk \<Rightarrow> bool" where
  "settled files d \<longleftrightarrow> dk_files d = files \<and> dk_pending d = None"

definition recoverable :: "(string, string) fmap \<Rightarrow> (string, string) fmap \<Rightarrow> disk \<Rightarrow> bool" where
  "recoverable orig fin d \<longleftrightarrow>
     (\<exists>es. midway orig es d) \<or> settled orig d \<or> settled fin d \<or>
     (dk_files d = orig \<and> (\<exists>b. dk_pending d = Some (Stored b) \<and> ba_status b = ''queued''))"

lemma midway_recoverable [intro]: "midway orig es d \<Longrightarrow> recoverable orig fin d"
  by (auto simp: recoverable_def)

lemma midway_meta [simp]:
  "midway orig es (d\<lparr>dk_failed := x\<rparr>) = midway orig es d"
  "midway orig es (d\<lparr>dk_view := y\<rparr>) = midway orig es d"
  "midway orig es (d\<lparr>dk_local := l\<rparr>) = midway orig es d"
  "midway orig es (d\<lparr>dk_repo := r\<rparr>) = midway orig es d"
  by (simp_all add: midway_def applying_def journalled_def)

lemma midway_setEntries [simp]:
  "midway orig es (setEntries r f d) = midway orig es d" "dk_files (setEntries r f d) = dk_files d"
  by (cases r; simp)+

lemma midway_applying: "midway orig es d \<Longrightarrow> \<exists>b. dk_pending d = Some (Stored b) \<and> ba_status b = ''applying''"
  by (auto simp: midway_def applying_def split: option.splits stored.splits)

lemma midway_write:
  "midway orig es d \<Longrightarrow> p \<in> je_path ` set es \<Longrightarrow> midway orig es (d\<lparr>dk_files := fm_set p v (dk_files d)\<rparr>)"
  by (simp add: midway_def applying_def journalled_def covers_update)

section \<open>Crash triples of the single steps\<close>

lemma errors_join_None [simp]: "errors_join [None, None] = None" "errors_join [None, None, None] = None"
  by (simp_all add: errors_join_def)

lemma crash_atomic:
  "(\<And>d. P d \<Longrightarrow> Q () (f d)) \<Longrightarrow> (\<And>d. P d \<Longrightarrow> C d) \<Longrightarrow> crash_valid P (atomic f) Q E C"
  unfolding atomic_def by (rule crash_tick) auto

lemma crash_check:
  assumes "\<And>d. P d \<Longrightarrow> e = None \<Longrightarrow> Q () d" "\<And>d x. P d \<Longrightarrow> e = Some x \<Longrightarrow> E x d"
  shows "crash_valid P (check e) Q E C"
  using assms by (cases e) (auto simp: check_def intro: crash_ret crash_raise)

lemma metaClear_absent: "\<not> metaExists m d \<Longrightarrow> metaClear m d = d"
  by (cases m) simp_all

lemma crash_clearMeta:
  assumes "\<And>d. P d \<Longrightarrow> C d" "\<And>d. P d \<Longrightarrow> Q (metaClear m d)"
  shows "crash_valid P (clearMeta m None) (\<lambda>j d. j = None \<and> Q d) E C"
  unfolding clearMeta_def
proof (rule crash_attempt [where R = "\<lambda>_. Q" and F = "\<lambda>e d. e = NotExist \<and> Q d"])
  show "crash_valid P (removeMeta m) (\<lambda>_. Q) (\<lambda>e d. e = NotExist \<and> Q d) C"
    unfolding removeMeta_def
    by (rule crash_tick) (use metaClear_absent assms in \<open>fastforce split: if_splits sum.split\<close>)+
qed (auto intro!: lawful_intros crash_ret simp: errorOf_def crash_valid_def ret_def)

lemma crash_clear3:
  assumes "\<And>d. P d \<Longrightarrow> C d" "\<And>d. P d \<Longrightarrow> C (metaClear a d)"
    "\<And>d. P d \<Longrightarrow> C (metaClear b (metaClear a d))"
    "\<And>d. P d \<Longrightarrow> Q (metaClear c (metaClear b (metaClear a d)))"
  shows "crash_valid P (clearResolutionMetadata [a, b, c]) (\<lambda>j d. j = None \<and> Q d) E C"
proof -
  define P1 where "P1 = (\<lambda>d. \<exists>d0. P d0 \<and> d = metaClear a d0)"
  define P2 where "P2 = (\<lambda>d. \<exists>d0. P d0 \<and> d = metaClear b (metaClear a d0))"
  have 1: "crash_valid P (clearMeta a None) (\<lambda>j d. j = None \<and> P1 d) E C"
    by (rule crash_clearMeta) (auto simp: P1_def assms)
  have 2: "crash_valid P1 (clearMeta b None) (\<lambda>j d. j = None \<and> P2 d) E C"
    by (rule crash_clearMeta) (auto simp: P1_def P2_def assms)
  have 3: "crash_valid P2 (clearMeta c None) (\<lambda>j d. j = None \<and> Q d) E C"
    by (rule crash_clearMeta) (auto simp: P2_def assms)
  have l: "lawful (clearMeta m j)" for m j by (auto simp: clearMeta_def intro!: lawful_intros)
  have lift: "crash_valid (\<lambda>d. j = None \<and> P' d) m Q' E C" if "j = None \<Longrightarrow> crash_valid P' m Q' E C"
    for j :: "conflict_error option" and P' and m :: "'b store_io" and Q' E
    using that by (cases j) (auto simp: crash_valid_def)
  show ?thesis unfolding clearResolutionMetadata_def forEach.simps
    by (rule crash_andThen [OF 1], rule lift, simp, rule crash_andThen [OF 2], rule lift, simp,
        rule crash_andThen [OF 3], rule crash_ret) (auto intro!: lawful_intros l)
qed

lemma crash_rollbackEntry:
  assumes "e \<in> set es"
  shows "crash_valid (\<lambda>d. midway orig es d \<and> foldl (\<lambda>f e. undo e f) (dk_files d) (e # xs) = orig)
    (rollbackEntry e None)
    (\<lambda>j d. j = None \<and> midway orig es d \<and> foldl (\<lambda>f e. undo e f) (dk_files d) xs = orig)
    (\<lambda>_ _. False) (\<lambda>d. midway orig es d)"
    (is "crash_valid ?P _ ?Q _ ?C")
proof -
  let ?m = "if je_exists e then writeAtomic (je_path e) (je_data e) else removeFile (je_path e)"
  let ?R = "\<lambda>d. midway orig es d \<and> foldl (\<lambda>f e. undo e f) (dk_files d) xs = orig"
  have p: "je_path e \<in> je_path ` set es" using assms by simp
  have drop: "fmdrop (je_path e) fs = fm_set (je_path e) None fs"
    "fmlookup fs (je_path e) = None \<Longrightarrow> fm_set (je_path e) None fs = fs"
    for fs :: "(string, string) fmap"
    by (simp add: fm_set_def, intro fmap_ext, auto)
  have upd: "fmupd (je_path e) x fs = fm_set (je_path e) (Some x) fs" for x and fs :: "(string, string) fmap"
    by (simp add: fm_set_def)
  have 1: "crash_valid ?P ?m (\<lambda>_. ?R) (\<lambda>e d. e = NotExist \<and> ?R d) ?C"
  proof (rule crash_if)
    assume "je_exists e"
    then show "crash_valid ?P (writeAtomic (je_path e) (je_data e)) (\<lambda>_. ?R) (\<lambda>e d. e = NotExist \<and> ?R d) ?C"
      unfolding writeAtomic_def
      by (intro crash_weaken [OF crash_atomic [where P = ?P and Q = "\<lambda>_. ?R" and C = ?C]])
        (auto simp: undo_def entryValue_def upd intro: midway_write [OF _ p])
  next
    assume ne: "\<not> je_exists e"
    show "crash_valid ?P (removeFile (je_path e)) (\<lambda>_. ?R) (\<lambda>e d. e = NotExist \<and> ?R d) ?C"
      unfolding removeFile_def
      by (rule crash_tick)
        (use ne in \<open>auto simp: undo_def entryValue_def drop midway_write [OF _ p] split: if_splits\<close>)
  qed
  show ?thesis unfolding rollbackEntry_def
    by (rule crash_attempt [OF 1])
      (auto intro!: lawful_intros crash_ret simp: errorOf_def crash_valid_def ret_def)
qed

lemma crash_rollback:
  "crash_valid (midway orig es) (rollbackEntries es)
     (\<lambda>j d. j = None \<and> midway orig es d \<and> dk_files d = orig) (\<lambda>_ _. False) (midway orig es)"
proof -
  let ?I = "\<lambda>xs (j :: conflict_error option) d. j = None \<and> set xs \<subseteq> set es \<and> midway orig es d \<and>
    foldl (\<lambda>f e. undo e f) (dk_files d) xs = orig"
  have step: "crash_valid (?I (x # xs) j) (rollbackEntry x j) (?I xs) (\<lambda>_ _. False) (midway orig es)"
    for x xs j
  proof (cases "j = None \<and> set (x # xs) \<subseteq> set es")
    case True
    then show ?thesis
      using crash_weaken [OF crash_rollbackEntry [of x es orig xs]] by auto
  qed (auto intro: crash_pre_False)
  have "crash_valid (?I (rev es) None) (rollbackEntries es) (?I []) (\<lambda>_ _. False) (midway orig es)"
    unfolding rollbackEntries_def by (rule crash_forEach [OF step]) (intro lawful_intros)
  then show ?thesis
    by (rule crash_weaken) (auto simp: midway_def foldl_conv_foldr covers_undo)
qed

lemma crash_failBatch:
  "crash_valid (midway orig es) (failBatch b es e) (\<lambda>_ _. False) (\<lambda>_. settled orig) (recoverable orig fin)"
proof -
  let ?M = "\<lambda>d. midway orig es d \<and> dk_files d = orig" and ?C = "recoverable orig fin"
  have wf: "crash_valid ?M (writeFailed b') (\<lambda>_. ?M) (\<lambda>_ _. False) ?C" for b'
    unfolding writeFailed_def by (rule crash_atomic) (auto simp: recoverable_def)
  have cl: "crash_valid ?M (clearResolutionMetadata [PendingJson, ViewJson, JournalJson])
      (\<lambda>j d. j = None \<and> settled orig d) (\<lambda>_. settled orig) ?C"
    by (rule crash_clear3) (auto simp: recoverable_def settled_def)
  have last: "crash_valid ?M (attempt (writeFailed b') (\<lambda>w.
       andThen (clearResolutionMetadata [PendingJson, ViewJson, JournalJson]) (\<lambda>clearErr.
         raise (f w clearErr)))) (\<lambda>_ _. False) (\<lambda>_. settled orig) ?C" for f b'
    by (rule crash_attempt [OF wf], rule crash_andThen [OF cl], rule crash_raise)
      (auto intro!: lawful_intros intro: crash_pre_False)
  have tail: "crash_valid (\<lambda>d. j = None \<and> ?M d) (attempt (writeFailed (b' j)) (\<lambda>w.
       andThen (clearResolutionMetadata [PendingJson, ViewJson, JournalJson]) (\<lambda>clearErr.
         raise (f j w clearErr)))) (\<lambda>_ _. False) (\<lambda>_. settled orig) ?C"
    for f b' and j :: "conflict_error option"
    using last [of "b' None" "f None"] by (cases j) (auto intro: crash_pre_False)
  have rb: "crash_valid (midway orig es) (rollbackEntries es) (\<lambda>j d. j = None \<and> ?M d) (\<lambda>_. settled orig) ?C"
    by (rule crash_weaken [OF crash_rollback]) auto
  show ?thesis unfolding failBatch_def
    by (rule crash_andThen [OF rb], rule tail) (auto intro!: lawful_intros)
qed

section \<open>What a selection resolves to\<close>

definition recordAt :: "(string, dirent) fmap \<Rightarrow> string \<Rightarrow> conflict_record option" where
  "recordAt m i =
     (case fmlookup m i of
        Some (Dir b) \<Rightarrow> (case bd_record b of Some (Stored rec) \<Rightarrow> Some rec | _ \<Rightarrow> None)
      | _ \<Rightarrow> None)"

definition variantAt :: "(string, dirent) fmap \<Rightarrow> string \<Rightarrow> string \<Rightarrow> string option" where
  "variantAt m i v = (case fmlookup m i of Some (Dir b) \<Rightarrow> fmlookup (bd_variants b) v | _ \<Rightarrow> None)"

definition choiceData :: "(string, dirent) fmap \<Rightarrow> selection \<Rightarrow> string option" where
  "choiceData m s =
     (if sel_choice s = ''merged'' then Some (case sel_content s of None \<Rightarrow> [] | Some c \<Rightarrow> c)
      else variantAt m (sel_id s) (sel_choice s))"

definition resolve_one ::
  "store_env \<Rightarrow> (string, dirent) fmap \<Rightarrow> (string, string) fmap \<Rightarrow> selection \<Rightarrow> (string, string) fmap"
where
  "resolve_one env m files s =
     (case (recordAt m (sel_id s), choiceData m s) of
        (Some rec, Some data) \<Rightarrow> fmupd (canonicalPath env rec) data files
      | _ \<Rightarrow> files)"

definition resolved_files ::
  "store_env \<Rightarrow> (string, dirent) fmap \<Rightarrow> (string, string) fmap \<Rightarrow> selection list \<Rightarrow> (string, string) fmap"
where
  "resolved_files env m files ss = foldl (resolve_one env m) files ss"

lemma crash_read_tick:
  assumes "\<And>d. P d \<Longrightarrow> (case f d of Inl e \<Rightarrow> E e d | Inr a \<Rightarrow> Q a d)" "\<And>d. P d \<Longrightarrow> C d"
  shows "crash_valid P (read_tick e f) Q E C"
  unfolding read_tick_def by (rule crash_tick) (use assms in auto)

lemma crash_readRecordFile:
  "crash_valid P (readRecordFile LocalRoot i)
     (\<lambda>s d. P d \<and> (\<forall>rec. s = Stored rec \<longrightarrow> recordAt (dk_local d) i = Some rec)) (\<lambda>_. P) P"
  unfolding readRecordFile_def
  by (rule crash_read_tick) (auto simp: recordAt_def split: option.split dirent.split)

lemma crash_readRecord:
  "crash_valid P (readRecord i)
     (\<lambda>rec d. P d \<and> recordAt (dk_local d) i = Some rec \<and> validateRecord rec = None) (\<lambda>_. P) P"
proof -
  let ?Q = "\<lambda>rec d. P d \<and> recordAt (dk_local d) i = Some rec \<and> validateRecord rec = None"
  have b: "crash_valid P (readBundleRecord LocalRoot i) ?Q (\<lambda>_. P) P"
    unfolding readBundleRecord_def
  proof (rule crash_andThen [where R = "\<lambda>_. P"], rule crash_check, assumption, assumption,
      rule crash_andThen [OF crash_readRecordFile])
    fix s
    show "crash_valid (\<lambda>d. P d \<and> (\<forall>rec. s = Stored rec \<longrightarrow> recordAt (dk_local d) i = Some rec))
      (case s of Corrupt \<Rightarrow> raise (ParseFailed i)
       | Stored rec \<Rightarrow> andThen (check (validateRecord rec))
           (\<lambda>_. if cr_id rec \<noteq> i then raise (WrongRecord i (cr_id rec)) else ret rec)) ?Q (\<lambda>_. P) P"
    proof (cases s)
      case Corrupt
      then show ?thesis by (auto intro: crash_raise)
    next
      case (Stored rec)
      have "crash_valid (\<lambda>d. P d \<and> recordAt (dk_local d) i = Some rec) (andThen (check (validateRecord rec))
           (\<lambda>_. if cr_id rec \<noteq> i then raise (WrongRecord i (cr_id rec)) else ret rec)) ?Q (\<lambda>_. P) P"
        by (rule crash_andThen [where R = "\<lambda>_. ?Q rec"], rule crash_check)
          (auto intro!: crash_if crash_raise crash_ret lawful_intros)
      then show ?thesis using Stored by simp
    qed
  qed (auto intro!: lawful_intros split: stored.split)
  show ?thesis unfolding readRecord_def
    by (rule crash_attempt [OF b])
      (auto intro!: lawful_intros crash_ret crash_raise split: sum.split conflict_error.split)
qed

lemma crash_loadChoice:
  "crash_valid P (loadChoice env s)
     (\<lambda>(rec, data, original) d. P d \<and> recordAt (dk_local d) (sel_id s) = Some rec \<and>
        choiceData (dk_local d) s = Some data \<and> original = fmlookup (dk_files d) (canonicalPath env rec))
     (\<lambda>_. P) P"
proof -
  let ?R = "\<lambda>rec d. P d \<and> recordAt (dk_local d) (sel_id s) = Some rec"
  let ?D = "\<lambda>rec data d. ?R rec d \<and> choiceData (dk_local d) s = Some data"
  have r: "crash_valid P (readRecord (sel_id s)) ?R (\<lambda>_. P) P"
    by (rule crash_weaken [OF crash_readRecord]) auto
  have v: "crash_valid (?R rec) (Revision env (sel_id s)) (\<lambda>_. ?R rec) (\<lambda>_. P) P" for rec
    by (rule crash_weaken [OF crash_reader [of _ "?R rec"]]) (auto intro!: lawful_intros reader_intros)
  have c: "crash_valid (?R rec)
      (if sel_choice s = ''merged'' then ret (case sel_content s of None \<Rightarrow> [] | Some c \<Rightarrow> c)
       else readVariant LocalRoot (sel_id s) (sel_choice s)) (?D rec) (\<lambda>_. P) P" for rec
    by (rule crash_if, rule crash_ret, simp add: choiceData_def, unfold readVariant_def, rule crash_read_tick)
      (auto simp: choiceData_def variantAt_def split: option.split dirent.split)
  have k: "crash_valid (?D rec data) (check e) (\<lambda>_. ?D rec data) (\<lambda>_. P) P" for rec data e
    by (rule crash_check) auto
  have o: "crash_valid (?D rec data) (readCanonical p)
     (\<lambda>original d. ?D rec data d \<and> original = fmlookup (dk_files d) p) (\<lambda>_. P) P" for rec data p
    unfolding readCanonical_def by (rule crash_read_tick) auto
  show ?thesis unfolding loadChoice_def
    by (rule crash_andThen [OF r], rule crash_andThen [OF v], rule crash_if, rule crash_raise, blast,
        rule crash_andThen [OF c], rule crash_andThen [OF k], rule crash_andThen [OF o], rule crash_ret)
      (auto intro!: lawful_intros)
qed

definition applied_of :: "(string, dirent) fmap \<Rightarrow> selection list \<Rightarrow> applied" where
  "applied_of m ss =
     concat (map (\<lambda>s. case recordAt m (sel_id s) of None \<Rightarrow> [] | Some r \<Rightarrow> [(r, sel_choice s)]) ss)"

section \<open>The transaction under crashes\<close>

text \<open>What holds before the remaining selections \<open>ss\<close> are written.\<close>

definition batch_inv ::
  "store_env \<Rightarrow> (string, dirent) fmap \<Rightarrow> (string, string) fmap \<Rightarrow> (string, string) fmap \<Rightarrow> applied \<Rightarrow>
   selection list \<Rightarrow> journal_entry list \<times> applied \<Rightarrow> disk \<Rightarrow> bool"
where
  "batch_inv env m orig fin al ss x d \<longleftrightarrow>
     midway orig (fst x) d \<and> dk_local d = m \<and> resolved_files env m (dk_files d) ss = fin \<and>
     snd x @ applied_of m ss = al"

lemma midway_journal:
  assumes "midway orig es d"
  shows "midway orig (es @ [journalEntry p (fmlookup (dk_files d) p)])
    (d\<lparr>dk_journal := Some (Stored \<lparr>jo_batchID = i,
        jo_entries = es @ [journalEntry p (fmlookup (dk_files d) p)]\<rparr>)\<rparr>)"
  using assms by (simp add: midway_def applying_def journalled_def covers_append)

lemma crash_applySelection_pair:
  "crash_valid (batch_inv env m orig fin al (s # ss) (es, ap)) (applySelection env b s (es, ap))
     (batch_inv env m orig fin al ss) (\<lambda>_. settled orig) (recoverable orig fin)"
proof -
  let ?I = "batch_inv env m orig fin al (s # ss) (es, ap)" and ?C = "recoverable orig fin"
  let ?L = "\<lambda>(rec, data, original) d. ?I d \<and> recordAt (dk_local d) (sel_id s) = Some rec \<and>
        choiceData (dk_local d) s = Some data \<and> original = fmlookup (dk_files d) (canonicalPath env rec)"
  have fail: "crash_valid P (failBatch b es' e) Q (\<lambda>_. settled orig) ?C"
    if "\<And>d. P d \<Longrightarrow> midway orig es' d" for P es' e Q
    by (rule crash_weaken [OF crash_failBatch]) (auto dest: that)
  have load: "crash_valid ?I (loadChoice env s) ?L (\<lambda>_. ?I) ?C"
    by (rule crash_weaken [OF crash_loadChoice [of ?I]]) (auto simp: batch_inv_def)
  have body: "crash_valid (?L (rec, data, original))
     (attempt (writeJournal b (es @ [journalEntry (canonicalPath env rec) original])) (\<lambda>j.
        case j of
          Inl e \<Rightarrow> failBatch b (es @ [journalEntry (canonicalPath env rec) original]) (Wrapped ''journal canonical'' e)
        | Inr _ \<Rightarrow>
            attempt (writeAtomic (canonicalPath env rec) data) (\<lambda>w.
              case w of
                Inl e \<Rightarrow> failBatch b (es @ [journalEntry (canonicalPath env rec) original]) (Wrapped ''write resolved conflict'' e)
              | Inr _ \<Rightarrow> ret (es @ [journalEntry (canonicalPath env rec) original], ap @ [(rec, sel_choice s)]))))
     (batch_inv env m orig fin al ss) (\<lambda>_. settled orig) ?C" for rec data original
  proof -
    let ?p = "canonicalPath env rec"
    let ?es = "es @ [journalEntry ?p original]"
    let ?J = "\<lambda>d. midway orig ?es d \<and> dk_local d = m \<and>
       resolved_files env m (fmupd ?p data (dk_files d)) ss = fin \<and> (ap @ [(rec, sel_choice s)]) @ applied_of m ss = al"
    have j: "crash_valid (?L (rec, data, original)) (writeJournal b ?es) (\<lambda>_. ?J) (\<lambda>_ _. False) ?C"
      unfolding writeJournal_def
      by (rule crash_atomic)
        (auto simp: batch_inv_def midway_journal resolved_files_def resolve_one_def applied_of_def)
    have "midway orig ?es (d\<lparr>dk_files := fmupd ?p data (dk_files d)\<rparr>)" if "midway orig ?es d" for d
      using midway_write [OF that, of ?p "Some data"] by (simp add: fm_set_def)
    then have w: "crash_valid ?J (writeAtomic ?p data)
        (\<lambda>_. batch_inv env m orig fin al ss (?es, ap @ [(rec, sel_choice s)])) (\<lambda>_ _. False) ?C"
      unfolding writeAtomic_def by (intro crash_atomic) (auto simp: batch_inv_def)
    show ?thesis
      by (rule crash_attempt [OF j], simp only: sum.case, rule crash_attempt [OF w], simp only: sum.case,
        rule crash_ret)
        (auto intro!: lawful_intros intro: crash_pre_False split: sum.split)
  qed
  show ?thesis unfolding applySelection_def prod.case Let_def
  proof (rule crash_attempt [OF load])
    fix a :: "conflict_record \<times> string \<times> string option"
    obtain rec data original where a: "a = (rec, data, original)" by (cases a)
    show "crash_valid (?L a)
      (case Inr a of
         Inl e \<Rightarrow> failBatch b es (Wrapped ''load'' e)
       | Inr (rec, data, original) \<Rightarrow>
           attempt (writeJournal b (es @ [journalEntry (canonicalPath env rec) original])) (\<lambda>j.
             case j of
               Inl e \<Rightarrow> failBatch b (es @ [journalEntry (canonicalPath env rec) original]) (Wrapped ''journal canonical'' e)
             | Inr _ \<Rightarrow>
                 attempt (writeAtomic (canonicalPath env rec) data) (\<lambda>w.
                   case w of
                     Inl e \<Rightarrow> failBatch b (es @ [journalEntry (canonicalPath env rec) original]) (Wrapped ''write resolved conflict'' e)
                   | Inr _ \<Rightarrow> ret (es @ [journalEntry (canonicalPath env rec) original], ap @ [(rec, sel_choice s)]))))
      (batch_inv env m orig fin al ss) (\<lambda>_. settled orig) ?C"
      unfolding a sum.case prod.case by (rule body [unfolded prod.case])
  qed (auto intro!: lawful_intros fail split: sum.split prod.split simp: batch_inv_def)
qed

lemma crash_applySelection:
  "crash_valid (batch_inv env m orig fin al (s # ss) x) (applySelection env b s x)
     (batch_inv env m orig fin al ss) (\<lambda>_. settled orig) (recoverable orig fin)"
  by (cases x) (simp add: crash_applySelection_pair)

lemma crash_removeBundles:
  "crash_valid (\<lambda>d. midway orig es d \<and> dk_files d = fin) (removeBundles b es s u)
     (\<lambda>_ d. midway orig es d \<and> dk_files d = fin) (\<lambda>_ _. False) (recoverable orig fin)"
proof -
  let ?P = "\<lambda>d. midway orig es d \<and> dk_files d = fin"
  have r: "crash_valid ?P (removeAll r i) (\<lambda>_. ?P) (\<lambda>_ _. False) (recoverable orig fin)" for r i
    unfolding removeAll_def by (rule crash_tick) auto
  show ?thesis unfolding removeBundles_def
    by (rule crash_attempt [OF r], simp only: sum.case, rule crash_attempt [OF r], simp only: sum.case,
        rule crash_ret)
      (auto intro!: lawful_intros intro: crash_pre_False split: sum.split)
qed

text \<open>A finished batch leaves the resolved files and no metadata.\<close>

definition clean_meta :: "disk \<Rightarrow> bool" where
  "clean_meta d \<longleftrightarrow> dk_pending d = None \<and> dk_failed d = None \<and> dk_view d = None \<and> dk_journal d = None"

lemma crash_runBatch:
  "crash_valid (batch_inv env m orig fin al (ba_selections b) ([], [])) (runBatch env b)
     (\<lambda>(ap, e) d. ap = al \<and> e = None \<and> dk_files d = fin \<and> clean_meta d)
     (\<lambda>_. settled orig) (recoverable orig fin)"
proof -
  let ?C = "recoverable orig fin"
  let ?F = "\<lambda>es d. midway orig es d \<and> dk_files d = fin"
  let ?S = "\<lambda>d. dk_files d = fin \<and> dk_pending d = None"
  have loop: "crash_valid (batch_inv env m orig fin al (ba_selections b) ([], []))
      (forEach (applySelection env b) (ba_selections b) ([], []))
      (batch_inv env m orig fin al []) (\<lambda>_. settled orig) ?C"
    by (rule crash_forEach [OF crash_applySelection]) (intro lawful_intros)
  have rm: "crash_valid (?F es) (forEach (removeBundles b es) ss ()) (\<lambda>_. ?F es) (\<lambda>_. settled orig) ?C"
    for es ss
    by (rule crash_forEach [where I = "\<lambda>_ _. ?F es"])
      (auto intro: crash_weaken [OF crash_removeBundles] lawful_intros)
  have pend: "crash_valid (?F es) (removeMeta PendingJson) (\<lambda>_. ?S) (\<lambda>_ _. False) ?C" for es
    unfolding removeMeta_def
    by (rule crash_tick) (auto dest: midway_applying split: if_splits)
  have cl: "crash_valid ?S (clearResolutionMetadata [FailedJson, ViewJson, JournalJson])
      (\<lambda>j d. j = None \<and> dk_files d = fin \<and> clean_meta d) (\<lambda>_. settled orig) ?C"
    by (rule crash_clear3) (auto simp: recoverable_def settled_def clean_meta_def)
  have tail: "crash_valid (?F es) (attempt (removeMeta PendingJson) (\<lambda>p.
       case p of Inl e \<Rightarrow> failBatch b es (Wrapped ''clear pending resolution batch'' e)
       | Inr _ \<Rightarrow> andThen (clearResolutionMetadata [FailedJson, ViewJson, JournalJson]) (\<lambda>clearErr.
           ret (al, clearErr))))
      (\<lambda>(ap, e) d. ap = al \<and> e = None \<and> dk_files d = fin \<and> clean_meta d) (\<lambda>_. settled orig) ?C" for es
    by (rule crash_attempt [OF pend], simp only: sum.case, rule crash_andThen [OF cl], rule crash_ret)
      (auto intro!: lawful_intros intro: crash_pre_False split: sum.split)
  show ?thesis unfolding runBatch_def
  proof (rule crash_andThen [OF loop], clarify)
    fix es ap
    show "crash_valid (batch_inv env m orig fin al [] (es, ap))
      (andThen (forEach (removeBundles b es) (ba_selections b) ()) (\<lambda>_.
         attempt (removeMeta PendingJson) (\<lambda>p.
           case p of Inl e \<Rightarrow> failBatch b es (Wrapped ''clear pending resolution batch'' e)
           | Inr _ \<Rightarrow> andThen (clearResolutionMetadata [FailedJson, ViewJson, JournalJson]) (\<lambda>clearErr.
               ret (ap, clearErr)))))
      (\<lambda>(ap, e) d. ap = al \<and> e = None \<and> dk_files d = fin \<and> clean_meta d) (\<lambda>_. settled orig) ?C"
    proof (cases "ap = al")
      case True
      have "crash_valid (?F es) (andThen (forEach (removeBundles b es) (ba_selections b) ()) (\<lambda>_.
         attempt (removeMeta PendingJson) (\<lambda>p.
           case p of Inl e \<Rightarrow> failBatch b es (Wrapped ''clear pending resolution batch'' e)
           | Inr _ \<Rightarrow> andThen (clearResolutionMetadata [FailedJson, ViewJson, JournalJson]) (\<lambda>clearErr.
               ret (al, clearErr)))))
        (\<lambda>(ap, e) d. ap = al \<and> e = None \<and> dk_files d = fin \<and> clean_meta d) (\<lambda>_. settled orig) ?C"
        by (rule crash_andThen [OF rm], rule tail) (auto intro!: lawful_intros split: sum.split)
      then show ?thesis unfolding True
        by (rule crash_weaken) (auto simp: batch_inv_def resolved_files_def)
    qed (auto intro: crash_pre_False simp: batch_inv_def applied_of_def)
  qed (auto intro!: lawful_intros split: sum.split)
qed

text \<open>Recovery is itself safe under crashes: it may be started again from whatever it left.\<close>

definition recovered :: "(string, string) fmap \<Rightarrow> (string, string) fmap \<Rightarrow> disk \<Rightarrow> bool" where
  "recovered orig fin d \<longleftrightarrow> (dk_files d = orig \<or> dk_files d = fin) \<and> \<not> applying d"

lemma settled_recovered: "settled orig d \<Longrightarrow> recovered orig fin d"
  by (simp add: recovered_def settled_def applying_def)

lemma recoverable_cases:
  assumes "recoverable orig fin d"
  shows "dk_pending d = None \<Longrightarrow> recovered orig fin d"
    "dk_pending d = Some (Stored b) \<Longrightarrow> ba_status b \<noteq> ''applying'' \<Longrightarrow> recovered orig fin d"
    "dk_pending d = Some (Stored b) \<Longrightarrow> ba_status b = ''applying'' \<Longrightarrow> \<exists>es. midway orig es d"
    "dk_pending d \<noteq> Some Corrupt"
  using assms
  by (auto simp: recoverable_def recovered_def settled_def midway_def applying_def)

lemma midway_journal_cases:
  assumes "midway orig es d"
  shows "dk_journal d = None \<Longrightarrow> midway orig [] d"
    "dk_journal d = Some (Stored jo) \<Longrightarrow> midway orig (jo_entries jo) d"
    "dk_journal d \<noteq> Some Corrupt"
  using assms by (auto simp: midway_def journalled_def)

lemma andThen_check_None [simp]: "andThen (check None) f = f ()"
  by (auto simp: fun_eq_iff andThen_def check_def ret_def)

lemma crash_finish_recovery:
  "crash_valid (\<lambda>d. midway orig es d \<and> dk_files d = orig)
     (clearResolutionMetadata [PendingJson, ViewJson, JournalJson])
     (\<lambda>j d. j = None \<and> settled orig d) E (recoverable orig fin)"
  by (rule crash_clear3) (auto simp: recoverable_def settled_def)

lemma crash_writeFailed:
  "crash_valid (\<lambda>d. midway orig es d \<and> dk_files d = orig) (writeFailed b)
     (\<lambda>_ d. midway orig es d \<and> dk_files d = orig) E (recoverable orig fin)"
  unfolding writeFailed_def by (rule crash_atomic) (auto simp: recoverable_def)

lemma crash_RecoverTransactions:
  "crash_valid (recoverable orig fin) RecoverTransactions (\<lambda>_. recovered orig fin)
     (\<lambda>_. recovered orig fin) (recoverable orig fin)"
proof -
  let ?C = "recoverable orig fin" and ?D = "\<lambda>_. recovered orig fin"
  let ?M = "\<lambda>es d. midway orig es d \<and> dk_files d = orig"
  have pend: "crash_valid ?C (readBatch PendingJson)
      (\<lambda>p d. ?C d \<and> dk_pending d = map_option Stored p) ?D ?C"
    unfolding readBatch_def
    by (rule crash_read_tick) (auto split: option.split stored.split dest: recoverable_cases(4))
  have jour: "crash_valid (\<lambda>d. \<exists>es. midway orig es d) readJournal
      (\<lambda>s d. \<exists>jo. s = Stored jo \<and> midway orig (jo_entries jo) d) (\<lambda>_. ?M []) ?C"
    unfolding readJournal_def
  proof (rule crash_read_tick)
    fix d assume "\<exists>es. midway orig es d"
    then obtain es where m: "midway orig es d" by blast
    note midway_journal_cases [OF m]
    then show "case (case dk_journal d of None \<Rightarrow> Inl NotExist | Some s \<Rightarrow> Inr s) of
      Inl e \<Rightarrow> ?M [] d | Inr s \<Rightarrow> \<exists>jo. s = Stored jo \<and> midway orig (jo_entries jo) d"
      by (cases "dk_journal d"; cases "the (dk_journal d)") (auto simp: midway_def)
  qed auto
  have wf: "crash_valid (?M es) (writeFailed b) (\<lambda>_. ?M es) (\<lambda>_ _. False) ?C" for es b
    by (rule crash_writeFailed)
  have none: "crash_valid (?M [])
      (attempt (writeFailed b) (\<lambda>w. andThen (clearResolutionMetadata [PendingJson, ViewJson, JournalJson])
         (\<lambda>c. check (f w c)))) ?D ?D ?C" for b f
    by (rule crash_attempt [OF wf], rule crash_andThen [OF crash_finish_recovery], rule crash_check)
      (auto intro!: lawful_intros intro: crash_pre_False settled_recovered)
  have some: "crash_valid (midway orig es)
      (andThen (rollbackEntries es) (\<lambda>r. andThen (check r) (\<lambda>_. andThen (writeFailed b) (\<lambda>_.
         andThen (clearResolutionMetadata [PendingJson, ViewJson, JournalJson]) check)))) ?D ?D ?C" for es b
  proof (rule crash_andThen [where R = "\<lambda>j d. j = None \<and> ?M es d"])
    show "crash_valid (midway orig es) (rollbackEntries es) (\<lambda>j d. j = None \<and> ?M es d) ?D ?C"
      by (rule crash_weaken [OF crash_rollback]) auto
    have "crash_valid (?M es) (andThen (writeFailed b) (\<lambda>_.
         andThen (clearResolutionMetadata [PendingJson, ViewJson, JournalJson]) check)) ?D ?D ?C"
      by (rule crash_andThen [OF crash_writeFailed], rule crash_andThen [OF crash_finish_recovery],
          rule crash_check) (auto intro!: lawful_intros intro: settled_recovered)
    then have "crash_valid (?M es) (andThen (check None) (\<lambda>_. andThen (writeFailed b) (\<lambda>_.
         andThen (clearResolutionMetadata [PendingJson, ViewJson, JournalJson]) check))) ?D ?D ?C"
      by simp
    then show "crash_valid (\<lambda>d. j = None \<and> ?M es d) (andThen (check j) (\<lambda>_. andThen (writeFailed b) (\<lambda>_.
         andThen (clearResolutionMetadata [PendingJson, ViewJson, JournalJson]) check))) ?D ?D ?C" for j
      by (cases j) (auto intro: crash_pre_False)
  qed (auto intro!: lawful_intros)
  have app: "crash_valid (\<lambda>d. \<exists>es. midway orig es d)
     (attempt readJournal (\<lambda>j. case j of
         Inl e \<Rightarrow> attempt (writeFailed (b1 e)) (\<lambda>w.
             andThen (clearResolutionMetadata [PendingJson, ViewJson, JournalJson]) (\<lambda>c. check (f e w c)))
       | Inr Corrupt \<Rightarrow> raise (ParseFailed ''transaction.json'')
       | Inr (Stored jo) \<Rightarrow> andThen (rollbackEntries (jo_entries jo)) (\<lambda>r. andThen (check r) (\<lambda>_.
           andThen (writeFailed b2) (\<lambda>_.
             andThen (clearResolutionMetadata [PendingJson, ViewJson, JournalJson]) check))))) ?D ?D ?C"
    for b1 b2 f
  proof (rule crash_attempt [OF jour])
    fix s
    show "crash_valid (\<lambda>d. \<exists>jo. s = Stored jo \<and> midway orig (jo_entries jo) d)
     (case Inr s of
         Inl e \<Rightarrow> attempt (writeFailed (b1 e)) (\<lambda>w.
             andThen (clearResolutionMetadata [PendingJson, ViewJson, JournalJson]) (\<lambda>c. check (f e w c)))
       | Inr Corrupt \<Rightarrow> raise (ParseFailed ''transaction.json'')
       | Inr (Stored jo) \<Rightarrow> andThen (rollbackEntries (jo_entries jo)) (\<lambda>r. andThen (check r) (\<lambda>_.
           andThen (writeFailed b2) (\<lambda>_.
             andThen (clearResolutionMetadata [PendingJson, ViewJson, JournalJson]) check)))) ?D ?D ?C"
      using some by (cases s) (auto intro: crash_pre_False)
  qed (use none in \<open>auto intro!: lawful_intros split: sum.split stored.split\<close>)
  show ?thesis unfolding RecoverTransactions_def
  proof (rule crash_andThen [OF pend])
    fix p
    let ?P = "\<lambda>d. ?C d \<and> dk_pending d = map_option Stored p"
    have "crash_valid ?P (ret ()) ?D ?D ?C" if "\<forall>b. p = Some b \<longrightarrow> ba_status b \<noteq> ''applying''"
      by (rule crash_ret) (use that in \<open>cases p; auto dest: recoverable_cases(1,2)\<close>)
    moreover have "crash_valid ?P m ?D ?D ?C"
      if "p = Some b" "ba_status b = ''applying''" "crash_valid (\<lambda>d. \<exists>es. midway orig es d) m ?D ?D ?C"
      for b and m :: "unit store_io"
      by (rule crash_weaken [OF that(3)]) (use that in \<open>auto dest: recoverable_cases(3)\<close>)
    ultimately show "crash_valid ?P (case p of None \<Rightarrow> ret () | Some b \<Rightarrow>
       if ba_status b \<noteq> ''applying'' then ret ()
       else attempt readJournal (\<lambda>j. case j of
         Inl e \<Rightarrow> attempt (writeFailed (b\<lparr>ba_status := ''failed'', ba_error := Some (Wrapped ''read journal'' e)\<rparr>)) (\<lambda>w.
             andThen (clearResolutionMetadata [PendingJson, ViewJson, JournalJson]) (\<lambda>clearErr.
               check (errors_join [Some (Wrapped ''read journal'' e), optionOf w, clearErr])))
       | Inr Corrupt \<Rightarrow> raise (ParseFailed ''transaction.json'')
       | Inr (Stored jo) \<Rightarrow> andThen (rollbackEntries (jo_entries jo)) (\<lambda>rollbackErr. andThen (check rollbackErr) (\<lambda>_.
           andThen (writeFailed (b\<lparr>ba_status := ''failed'', ba_error := Some RecoveredInterrupted\<rparr>)) (\<lambda>_.
             andThen (clearResolutionMetadata [PendingJson, ViewJson, JournalJson]) check))))) ?D ?D ?C"
      using app by (cases p) auto
  qed (auto intro!: lawful_intros split: option.split sum.split stored.split)
qed

text \<open>The process is started again and again, each time with its own schedule of crashes.\<close>

definition restart :: "disk \<Rightarrow> fault list \<Rightarrow> disk" where
  "restart d fs = w_disk (snd (RecoverTransactions (boot d fs)))"

definition only_crashes :: "fault list \<Rightarrow> bool" where
  "only_crashes fs \<longleftrightarrow> list_all (\<lambda>f. case f of Fails _ \<Rightarrow> False | _ \<Rightarrow> True) fs"

lemma crash_only_boot [simp]: "crash_only (boot d fs) = only_crashes fs" "\<not> w_dead (boot d fs)"
    "w_disk (boot d fs) = d"
  by (simp_all add: crash_only_def only_crashes_def boot_def)

lemma recovered_recoverable_eq:
  assumes "recoverable orig fin d" "only_crashes fs" "RecoverTransactions (boot d fs) = (r, w)"
  shows "w_dead w \<Longrightarrow> recoverable orig fin (w_disk w)" "\<not> w_dead w \<Longrightarrow> recovered orig fin (w_disk w)"
proof -
  note D = crash_validD [OF crash_RecoverTransactions [of orig fin] _ _ _ assms(3)]
  show "w_dead w \<Longrightarrow> recoverable orig fin (w_disk w)" using D assms by simp
  show "\<not> w_dead w \<Longrightarrow> recovered orig fin (w_disk w)" using D assms by (cases r) simp_all
qed

definition may_recover :: "(string, string) fmap \<Rightarrow> (string, string) fmap \<Rightarrow> disk \<Rightarrow> bool" where
  "may_recover orig fin d \<longleftrightarrow> recoverable orig fin d \<or> recovered orig fin d"

lemma recover_idle:
  assumes "\<not> applying d" "RecoverTransactions (boot d fs) = (r, w)"
  shows "w_disk w = d"
  using assms unfolding RecoverTransactions_def andThen_def readBatch_def read_tick_def tick_def applying_def
  by (auto simp: boot_def ret_def split: list.splits fault.splits option.splits stored.splits prod.splits if_splits)

lemma may_recover_restart:
  assumes "may_recover orig fin d" "only_crashes fs"
  shows "may_recover orig fin (restart d fs)"
proof -
  obtain r w where run: "RecoverTransactions (boot d fs) = (r, w)" by (cases "RecoverTransactions (boot d fs)")
  show ?thesis
  proof (cases "recoverable orig fin d")
    case True
    with recovered_recoverable_eq [OF _ assms(2) run] run show ?thesis
      by (cases "w_dead w") (auto simp: may_recover_def restart_def)
  next
    case False
    with assms(1) have r: "recovered orig fin d" by (simp add: may_recover_def)
    then have "w_disk w = d" using recover_idle [OF _ run] by (simp add: recovered_def)
    with r run show ?thesis by (simp add: may_recover_def restart_def)
  qed
qed

lemma may_recover_restarts:
  "may_recover orig fin d \<Longrightarrow> list_all only_crashes gss \<Longrightarrow> may_recover orig fin (foldl restart d gss)"
  by (induction gss arbitrary: d) (auto intro: may_recover_restart)

lemma may_recover_finish:
  assumes "may_recover orig fin d"
  shows "recovered orig fin (restart d [])"
proof -
  obtain r w where run: "RecoverTransactions (boot d []) = (r, w)" by (cases "RecoverTransactions (boot d [])")
  have alive: "\<not> w_dead w" using lawfulD(3) [OF lawful_RecoverTransactions run] by (simp add: boot_def)
  show ?thesis
  proof (cases "recoverable orig fin d")
    case True
    with recovered_recoverable_eq(2) [OF _ _ run alive] run show ?thesis
      by (simp add: restart_def only_crashes_def)
  next
    case False
    with assms have r: "recovered orig fin d" by (simp add: may_recover_def)
    then have "w_disk w = d" using recover_idle [OF _ run] by (simp add: recovered_def)
    with r run show ?thesis by (simp add: restart_def)
  qed
qed

definition queued_on :: "disk \<Rightarrow> batch \<Rightarrow> bool" where
  "queued_on d b \<longleftrightarrow> dk_pending d = Some (Stored b) \<and> ba_status b = ''queued''"

lemma json_selections_same:
  "resolved_files env m fs (map json_selection ss) = resolved_files env m fs ss"
  "applied_of m (map json_selection ss) = applied_of m ss"
proof -
  have "resolve_one env m f (json_selection s) = resolve_one env m f s" for f s
    by (auto simp: resolve_one_def json_selection_def choiceData_def split: option.split)
  then have one: "(\<lambda>f s. resolve_one env m f (json_selection s)) = resolve_one env m" by (intro ext)
  show "resolved_files env m fs (map json_selection ss) = resolved_files env m fs ss"
    by (simp add: resolved_files_def foldl_map one)
  show "applied_of m (map json_selection ss) = applied_of m ss"
    by (auto simp: applied_of_def json_selection_def comp_def intro!: arg_cong [where f = concat] split: option.split)
qed

lemma crash_ApplyPendingBatch:
  assumes "fin = resolved_files env m orig (ba_selections b)" "al = applied_of m (ba_selections b)"
  shows "crash_valid (\<lambda>d. queued_on d b \<and> dk_journal d = None \<and> dk_files d = orig \<and> dk_local d = m) (ApplyPendingBatch env)
     (\<lambda>(ap, e) d. ap = al \<and> e = None \<and> dk_files d = fin \<and> clean_meta d)
     (\<lambda>_ d. dk_files d = orig \<and> \<not> applying d) (recoverable orig fin)"
proof -
  let ?P = "\<lambda>d. queued_on d b \<and> dk_journal d = None \<and> dk_files d = orig \<and> dk_local d = m"
  let ?E = "\<lambda>_ d. dk_files d = orig \<and> \<not> applying d" and ?C = "recoverable orig fin"
  let ?Q = "\<lambda>(ap, e) d. ap = al \<and> e = None \<and> dk_files d = fin \<and> clean_meta d"
  let ?b = "b\<lparr>ba_status := ''applying''\<rparr>"
  have PE: "?P d \<Longrightarrow> dk_files d = orig \<and> \<not> applying d" and PC: "?P d \<Longrightarrow> ?C d" for d
    by (auto simp: queued_on_def applying_def recoverable_def)
  have pend: "crash_valid ?P (readBatch PendingJson) (\<lambda>p d. p = Some b \<and> ?P d) ?E ?C"
    unfolding readBatch_def by (rule crash_read_tick) (auto simp: queued_on_def recoverable_def)
  have view: "crash_valid ?P (listVisible env) (\<lambda>_. ?P) ?E ?C"
    by (rule crash_weaken [OF crash_reader [of _ ?P]])
      (auto intro!: lawful_intros reader_intros simp: queued_on_def applying_def recoverable_def)
  have pub: "crash_valid ?P (atomic (\<lambda>d. d\<lparr>dk_view := Some (Stored v)\<rparr>)) (\<lambda>_. ?P) ?E ?C" for v
    by (rule crash_atomic) (use PC in \<open>auto simp: queued_on_def\<close>)
  have mark: "crash_valid ?P (atomic (\<lambda>d. d\<lparr>dk_pending := Some (json_batch ?b)\<rparr>))
      (\<lambda>_. batch_inv env m orig fin al (ba_selections ?b) ([], [])) ?E ?C"
    by (rule crash_atomic)
      (use PC in \<open>auto simp: queued_on_def batch_inv_def midway_def applying_def journalled_def
         json_batch_def assms\<close>)
  have run: "crash_valid (batch_inv env m orig fin al (ba_selections ?b) ([], [])) (runBatch env ?b) ?Q ?E ?C"
    by (rule crash_weaken [OF crash_runBatch]) (auto simp: settled_def applying_def)
  have main: "crash_valid ?P
     (andThen (listVisible env) (\<lambda>view. andThen (atomic (\<lambda>d. d\<lparr>dk_view := Some (Stored view)\<rparr>)) (\<lambda>_.
        andThen (atomic (\<lambda>d. d\<lparr>dk_pending := Some (json_batch ?b)\<rparr>)) (\<lambda>_. runBatch env ?b)))) ?Q ?E ?C"
    by (rule crash_andThen [OF view], rule crash_andThen [OF pub], rule crash_andThen [OF mark], rule run)
      (auto intro!: lawful_intros)
  show ?thesis unfolding ApplyPendingBatch_def Let_def
  proof (rule crash_andThen [OF pend])
    fix p
    show "crash_valid (\<lambda>d. p = Some b \<and> ?P d) (case p of None \<Rightarrow> ret ([], None) | Some b \<Rightarrow>
        if ba_status b \<noteq> ''queued'' then raise (InvalidStatus (ba_id b) (ba_status b))
        else andThen (listVisible env) (\<lambda>view. andThen (atomic (\<lambda>d. d\<lparr>dk_view := Some (Stored view)\<rparr>)) (\<lambda>_.
          andThen (atomic (\<lambda>d. d\<lparr>dk_pending := Some (json_batch (b\<lparr>ba_status := ''applying''\<rparr>))\<rparr>)) (\<lambda>_.
            runBatch env (b\<lparr>ba_status := ''applying''\<rparr>))))) ?Q ?E ?C"
    proof (cases "p = Some b \<and> ba_status b = ''queued''")
      case True
      then show ?thesis using main by simp
    qed (auto intro: crash_pre_False simp: queued_on_def)
  qed (auto intro!: lawful_intros split: option.split)
qed

section \<open>A concrete store\<close>

definition demo_env :: store_env where
  "demo_env = \<lparr>ev_repoDir = ''/r'', ev_scanner = None, ev_now = 5, ev_digest = (\<lambda>s. s),
     ev_marshalPayload = (\<lambda>r a b c. cr_id r @ a @ b @ c), ev_marshalSelections = (\<lambda>ss. concat (map sel_id ss))\<rparr>"

definition demo_record :: "string \<Rightarrow> conflict_record" where
  "demo_record i = \<lparr>cr_id = i, cr_resourceKey = ''k'', cr_repoRel = ''agents/'' @ i, cr_createdAt = 1\<rparr>"

definition demo_bundle :: "string \<Rightarrow> dirent" where
  "demo_bundle i = Dir (mkBundle (demo_record i) [(''base'', ''b''), (''local'', ''l''), (''remote'', ''m'')])"

definition demo_selection :: "string \<Rightarrow> selection" where
  "demo_selection i = \<lparr>sel_id = i, sel_revision = i @ ''blm'', sel_choice = ''local'', sel_content = None\<rparr>"

definition demo_batch :: "string list \<Rightarrow> batch" where
  "demo_batch is = \<lparr>ba_id = ''q'', ba_createdAt = 5, ba_status = ''queued'', ba_error = None,
     ba_selections = map demo_selection is\<rparr>"

definition demo_disk :: "string list \<Rightarrow> disk" where
  "demo_disk is = \<lparr>dk_local = fmap_of_list (map (\<lambda>i. (i, demo_bundle i)) is),
     dk_repo = fmap_of_list (map (\<lambda>i. (i, demo_bundle i)) is),
     dk_files = fmap_of_list (map (\<lambda>i. (''/r/agents/'' @ i, ''m'')) is),
     dk_pending = Some (Stored (demo_batch is)), dk_failed = None, dk_view = None, dk_journal = None\<rparr>"

definition crash_at :: "nat \<Rightarrow> fault list" where
  "crash_at n = replicate n Works @ [Dies []]"

lemma only_crashes_at [simp]: "only_crashes (crash_at n)" "only_crashes []"
  by (auto simp: only_crashes_def crash_at_def list_all_iff)

section \<open>Properties of the transaction\<close>

text \<open> C3. A queued batch that starts without a journal left by an interrupted one is applied atomically: however often
  the process dies while the batch is applied, and again while an earlier crash is being recovered, the canonical
  files end up either all as they were or all as the batch resolves them, once one recovery runs to its end;
  nothing is left half applied.  (A stale journal does break this: see \<open>recovery_gaps\<close>.) \<close>

theorem resolution_batch_is_atomic:
  assumes "queued_on d b" and "dk_journal d = None" and "only_crashes fs" and "ApplyPendingBatch env (boot d fs) = (r, w)"
    and "list_all only_crashes gss"
  shows "dk_files (restart (foldl restart (w_disk w) gss) []) = dk_files d \<or>
    dk_files (restart (foldl restart (w_disk w) gss) []) =
      resolved_files env (dk_local d) (dk_files d) (ba_selections b)"
proof -
  let ?fin = "resolved_files env (dk_local d) (dk_files d) (ba_selections b)"
  note D = crash_validD [OF crash_ApplyPendingBatch [OF refl refl, of b "dk_files d" "dk_local d" env] _ _ _ assms(4)]
  have "may_recover (dk_files d) ?fin (w_disk w)"
  proof (cases "w_dead w")
    case True
    then show ?thesis using D(2) assms by (simp add: may_recover_def)
  next
    case False
    then show ?thesis using D(3,4) assms
      by (cases r) (auto simp: may_recover_def recovered_def clean_meta_def applying_def)
  qed
  from may_recover_finish [OF may_recover_restarts [OF this assms(5)]]
  show ?thesis by (simp add: recovered_def)
qed

lemma resolution_batch_is_atomic_witness:
  "(let w = snd (ApplyPendingBatch demo_env (boot (demo_disk [''a'', ''b'']) (crash_at 31)))
    in w_dead w \<and> fmlookup (dk_files (w_disk w)) ''/r/agents/a'' = Some ''l'' \<and>
       fmlookup (dk_files (w_disk w)) ''/r/agents/b'' = Some ''m'') \<and>
   dk_files (restart (foldl restart (w_disk (snd (ApplyPendingBatch demo_env
     (boot (demo_disk [''a'', ''b'']) (crash_at 31))))) [crash_at 2]) []) \<in>
   {dk_files (demo_disk [''a'', ''b'']),
    resolved_files demo_env (dk_local (demo_disk [''a'', ''b''])) (dk_files (demo_disk [''a'', ''b'']))
      (ba_selections (demo_batch [''a'', ''b'']))}"
proof
  show "let w = snd (ApplyPendingBatch demo_env (boot (demo_disk [''a'', ''b'']) (crash_at 31)))
    in w_dead w \<and> fmlookup (dk_files (w_disk w)) ''/r/agents/a'' = Some ''l'' \<and>
       fmlookup (dk_files (w_disk w)) ''/r/agents/b'' = Some ''m''"
    by code_simp
  have "queued_on (demo_disk [''a'', ''b'']) (demo_batch [''a'', ''b''])" "dk_journal (demo_disk [''a'', ''b'']) = None"
    by (simp_all add: queued_on_def demo_disk_def demo_batch_def)
  from resolution_batch_is_atomic [OF this only_crashes_at(1) prod.collapse [symmetric],
      of "[crash_at 2]" demo_env 31]
  show "dk_files (restart (foldl restart (w_disk (snd (ApplyPendingBatch demo_env
     (boot (demo_disk [''a'', ''b'']) (crash_at 31))))) [crash_at 2]) []) \<in>
   {dk_files (demo_disk [''a'', ''b'']),
    resolved_files demo_env (dk_local (demo_disk [''a'', ''b''])) (dk_files (demo_disk [''a'', ''b'']))
      (ba_selections (demo_batch [''a'', ''b'']))}" by simp
qed

text \<open>When the process survives, applying a queued batch either reports exactly the resolutions
  of its selections, with their content in the canonical files and no metadata left, or reports an
  error and leaves every canonical file as it was.\<close>

lemma resolution_batch_outcome:
  assumes "queued_on d b" and "dk_journal d = None" and "only_crashes fs" and "ApplyPendingBatch env (boot d fs) = (r, w)"
    and "\<not> w_dead w"
  shows "case r of
      Inr (ap, e) \<Rightarrow> ap = applied_of (dk_local d) (ba_selections b) \<and> e = None \<and> clean_meta (w_disk w) \<and>
        dk_files (w_disk w) = resolved_files env (dk_local d) (dk_files d) (ba_selections b)
    | Inl _ \<Rightarrow> dk_files (w_disk w) = dk_files d \<and> \<not> applying (w_disk w)"
proof -
  note D = crash_validD [OF crash_ApplyPendingBatch [OF refl refl, of b "dk_files d" "dk_local d" env] _ _ _ assms(4)]
  show ?thesis using D(3,4) assms by (cases r) auto
qed

lemma resolution_batch_outcome_witness:
  "dk_files (snd (run (ApplyPendingBatch demo_env) (demo_disk [''a'']))) =
     resolved_files demo_env (dk_local (demo_disk [''a''])) (dk_files (demo_disk [''a'']))
       (ba_selections (demo_batch [''a'']))"
proof -
  have q: "queued_on (demo_disk [''a'']) (demo_batch [''a''])" "dk_journal (demo_disk [''a'']) = None"
    by (simp_all add: queued_on_def demo_disk_def demo_batch_def)
  obtain r w where a: "ApplyPendingBatch demo_env (boot (demo_disk [''a'']) []) = (r, w)"
    by (cases "ApplyPendingBatch demo_env (boot (demo_disk [''a'']) [])")
  have al: "\<not> w_dead w" using lawfulD(3) [OF lawful_ApplyPendingBatch a] by (simp add: boot_def)
  have "\<not> isl (fst (ApplyPendingBatch demo_env (boot (demo_disk [''a'']) [])))" by code_simp
  then show ?thesis using resolution_batch_outcome [OF q only_crashes_at(2) a al] a
    by (cases r) (auto simp: run_def)
qed

text \<open>Runs outside that guarantee, evaluated on the concrete store.\<close>

definition bundles_lost :: bool where
  "bundles_lost \<longleftrightarrow>
     (let d = restart (w_disk (snd (ApplyPendingBatch demo_env (boot (demo_disk [''a'', ''b'']) (crash_at 36))))) []
      in fmlookup (dk_files d) ''/r/agents/a'' = Some ''m'' \<and> fm_keys (dk_local d) = [] \<and> fm_keys (dk_repo d) = [])"

definition half_applied :: bool where
  "half_applied \<longleftrightarrow>
     (let w = snd (ApplyPendingBatch demo_env (boot (demo_disk [''a'', ''b''])
            (replicate 31 Works @ [Fails [], Works, Fails []])))
      in fmlookup (dk_files (w_disk w)) ''/r/agents/a'' = Some ''l'' \<and>
         fmlookup (dk_files (w_disk w)) ''/r/agents/b'' = Some ''m'' \<and>
         dk_pending (w_disk w) = None \<and> dk_journal (w_disk w) = None)"

definition stale_journal_disk :: disk where
  "stale_journal_disk = (demo_disk [''b''])\<lparr>
     dk_journal := Some (Stored \<lparr>jo_batchID = ''p'', jo_entries = [journalEntry ''/r/agents/a'' (Some ''m'')]\<rparr>),
     dk_files := fmap_of_list [(''/r/agents/a'', ''l''), (''/r/agents/b'', ''m'')]\<rparr>"

definition committed_file_reverted :: bool where
  "committed_file_reverted \<longleftrightarrow>
     (let w = snd (ApplyPendingBatch demo_env (boot stale_journal_disk (crash_at 9)))
      in fmlookup (dk_files (w_disk w)) ''/r/agents/a'' = Some ''l'' \<and>
         fmlookup (dk_files (restart (w_disk w) [])) ''/r/agents/a'' = Some ''m'')"

lemma bundles_lost_run: "bundles_lost" by code_simp

lemma half_applied_run: "half_applied" by code_simp

lemma committed_file_reverted_run: "committed_file_reverted" by code_simp

text \<open>Three runs the guarantee does not reach: a crash between removing the bundles and removing
  \<open>pending.json\<close> rolls the files back but not the bundles; an I/O error followed by a second one
  during the roll back leaves the batch half applied with its journal deleted; and a journal left
  over by a crash after a commit is taken for that of the next batch, so that recovery reverts a
  file the earlier batch had committed.\<close>

lemma recovery_gaps: "bundles_lost \<and> half_applied \<and> committed_file_reverted"
  using bundles_lost_run half_applied_run committed_file_reverted_run by (intro conjI)

text \<open>When no batch is pending, an error of the listing is dropped: with a corrupt conflict record
  the caller is told that there are no conflicts, and no error.\<close>

lemma visible_conflicts_hides_listing_error:
  "let d = (demo_disk [''a''])\<lparr>dk_pending := None,
       dk_local := fmap_of_list [(''a'', Dir \<lparr>bd_record = Some Corrupt, bd_variants = fmempty\<rparr>)]\<rparr>
   in isl (fst (run (listVisible demo_env) d)) \<and>
      fst (run (VisibleConflicts demo_env) d) = Inr ([], None, None)"
  by code_simp

section \<open>Queueing\<close>

lemma reader_run: "lawful m \<Longrightarrow> reader m \<Longrightarrow> snd (run m d) = d"
  using lawful_run [of m d] unfolding reader_def run_def boot_def
  by (auto split: prod.split) (metis snd_conv world.select_convs(1))

text \<open>What the choices of one selection may be.\<close>

definition selection_ok :: "store_env \<Rightarrow> visible_conflict \<Rightarrow> selection \<Rightarrow> bool" where
  "selection_ok env c s \<longleftrightarrow>
     sel_revision s = vc_revision c \<and>
     (sel_choice s \<in> {''local'', ''remote''} \<and> sel_content s \<in> {None, Some []} \<or>
      sel_choice s = ''merged'' \<and> (\<exists>data. sel_content s = Some data \<and> scan env (vc_record c) ''merged'' data = None))"

lemma checkSelections_None:
  "checkSelections env byID seen ss = None \<Longrightarrow>
     distinct (map sel_id ss) \<and> set seen \<inter> set (map sel_id ss) = {} \<and>
     (\<forall>s\<in>set ss. \<exists>c. byID (sel_id s) = Some c \<and> selection_ok env c s)"
proof (induction ss arbitrary: seen)
  case Nil
  then show ?case by simp
next
  case (Cons s ss)
  from Cons.prems obtain c where c: "sel_id s \<notin> set seen" "byID (sel_id s) = Some c" "selection_ok env c s"
    and rest: "checkSelections env byID (sel_id s # seen) ss = None"
    by (auto simp: selection_ok_def split: option.splits if_splits)
  from Cons.IH [OF rest] c show ?case by auto
qed

lemma map_of_visible:
  "map_of (map (\<lambda>v. (cr_id (vc_record v), v)) vs) i = Some c \<Longrightarrow> c \<in> set vs \<and> cr_id (vc_record c) = i"
  by (drule map_of_SomeD) auto

lemma run_check [simp]: "run (check e) d = (case e of None \<Rightarrow> Inr () | Some x \<Rightarrow> Inl x, d)"
  by (simp add: check_def split: option.split)

lemma run_atomic [simp]: "run (atomic f) d = (Inr (), f d)"
  by (simp add: atomic_def)

lemma run_readPending:
  "run (readBatch PendingJson) d =
     (case dk_pending d of None \<Rightarrow> Inr None | Some Corrupt \<Rightarrow> Inl (ParseFailed ''pending.json'')
      | Some (Stored b) \<Rightarrow> Inr (Some b), d)"
  by (simp add: readBatch_def split: option.split stored.split)

lemma run_removeFailed: "snd (run (removeMeta FailedJson) d) = d\<lparr>dk_failed := None\<rparr>"
  by (cases d) (simp add: removeMeta_def)

text \<open>QueueBatch stores a batch only when none is pending and the selections are exactly one per
  visible conflict: distinct, at the revision the user saw, with a permitted choice, merged content
  having passed the secret scan; it touches no canonical file and no bundle.\<close>

lemma queue_accepts_only_fresh_complete_selections:
  assumes "run (QueueBatch env sels) d = (Inr b, d')"
  shows "\<exists>vis. run (listVisible env) d = (Inr vis, d) \<and> length sels = length vis \<and>
    distinct (map sel_id sels) \<and>
    (\<forall>s\<in>set sels. \<exists>c\<in>set vis. cr_id (vc_record c) = sel_id s \<and> selection_ok env c s) \<and>
    dk_pending d = None \<and> ba_status b = ''queued'' \<and> ba_selections b = sort_key sel_id sels \<and>
    d' = d\<lparr>dk_pending := Some (json_batch b), dk_failed := None\<rparr>"
proof -
  have lv: "snd (run (listVisible env) d) = d"
    by (rule reader_run) (intro lawful_intros reader_listVisible)+
  note q = assms [unfolded QueueBatch_def]
  obtain vis where vis: "run (listVisible env) d = (Inr vis, d)"
    using q lv by (cases "run (listVisible env) d"; cases "fst (run (listVisible env) d)")
      (auto simp: run_andThen lawful_listVisible)
  let ?by = "map_of (map (\<lambda>v. (cr_id (vc_record v), v)) (rev vis))"
  have len: "length sels = length vis"
    by (rule ccontr) (use q in \<open>simp add: run_andThen lawful_listVisible vis\<close>)
  note q1 = q [simplified run_andThen [OF lawful_listVisible] vis sum.case prod.case len, simplified]
  have ck: "checkSelections env ?by [] sels = None"
    using q1 by (cases "checkSelections env ?by [] sels") (simp_all add: run_andThen lawful_check)
  note q2 = q1 [simplified run_andThen [OF lawful_check] run_check ck option.case sum.case prod.case Let_def]
  have pend: "dk_pending d = None"
    using q2 by (auto simp: run_andThen lawful_single_ops run_readPending
        split: option.splits stored.splits if_splits)
  have b: "ba_status b = ''queued''" "ba_selections b = sort_key sel_id sels"
    and d': "d' = d\<lparr>dk_pending := Some (json_batch b), dk_failed := None\<rparr>"
    using q2 run_removeFailed [of "d\<lparr>dk_pending := Some (json_batch b)\<rparr>"]
    by (auto simp: run_andThen run_attempt lawful_single_ops pend run_readPending split: prod.splits)
  note ok = checkSelections_None [OF ck]
  have "distinct (map sel_id sels)" using ok by (rule conjunct1)
  moreover have "\<exists>c\<in>set vis. cr_id (vc_record c) = sel_id s \<and> selection_ok env c s" if s: "s \<in> set sels" for s
  proof -
    obtain c where c: "?by (sel_id s) = Some c" "selection_ok env c s"
      using ok [THEN conjunct2, THEN conjunct2, rule_format, OF s] by (elim exE conjE)
    have "c \<in> set (rev vis) \<and> cr_id (vc_record c) = sel_id s" by (rule map_of_visible [OF c(1)])
    then show ?thesis using c(2) by (intro bexI [of _ c]) simp_all
  qed
  ultimately show ?thesis using vis len pend b d' by (intro exI [of _ vis] conjI ballI) assumption+
qed

lemma queue_accepts_only_fresh_complete_selections_witness:
  "\<exists>b d'. run (QueueBatch demo_env [demo_selection ''a'']) ((demo_disk [''a''])\<lparr>dk_pending := None\<rparr>) = (Inr b, d') \<and>
     dk_pending d' = Some (json_batch b)"
proof -
  let ?q = "run (QueueBatch demo_env [demo_selection ''a'']) ((demo_disk [''a''])\<lparr>dk_pending := None\<rparr>)"
  have "\<not> isl (fst ?q)" by code_simp
  then obtain b d' where q: "?q = (Inr b, d')" by (cases ?q; cases "fst ?q") auto
  from queue_accepts_only_fresh_complete_selections [OF q] q show ?thesis by auto
qed

section \<open>Where a canonical file may lie\<close>

lemma validateRepoPath_plain:
  assumes "validateRepoPath p = None"
  shows "\<forall>s\<in>set (split_on CHR ''/'' p). plain_segment s"
  using assms
  by (auto simp: validateRepoPath_def plain_segment_def list_ex_iff dest: split_on_segments split: if_splits)

lemma path_join_absolute:
  assumes "rs \<noteq> []" "\<forall>s\<in>set rs. plain_segment s" "ss \<noteq> []" "\<forall>s\<in>set ss. plain_segment s"
  shows "path_join [CHR ''/'' # join_with CHR ''/'' rs, join_with CHR ''/'' ss] =
    (CHR ''/'' # join_with CHR ''/'' rs) @ CHR ''/'' # join_with CHR ''/'' ss"
proof -
  have ne: "join_with CHR ''/'' ss \<noteq> []" using assms(3,4) by (auto simp: join_with_eq_Nil)
  have "path_clean (CHR ''/'' # join_with CHR ''/'' (rs @ ss)) = CHR ''/'' # join_with CHR ''/'' (rs @ ss)"
    by (rule path_clean_absolute_plain) (use assms in auto)
  then show ?thesis using ne assms by (simp add: path_join_def join_with_append)
qed

text \<open>A record that validates names a canonical file strictly inside the \<open>agents\<close> directory of the
  repository and outside the directory of the conflict bundles, whatever its text is: no segment of
  the path climbs out.\<close>

lemma canonical_file_inside_repository:
  assumes "validateRecord rec = None" and "ev_repoDir env = CHR ''/'' # join_with CHR ''/'' rs"
    and "rs \<noteq> []" and "\<forall>s\<in>set rs. plain_segment s"
  shows "\<exists>segs. segs \<noteq> [] \<and> (\<forall>s\<in>set segs. plain_segment s) \<and>
    canonicalPath env rec = ev_repoDir env @ ''/agents/'' @ join_with CHR ''/'' segs \<and>
    \<not> prefix (ev_repoDir env @ ''/agents/_portable/config/conflicts/'') (canonicalPath env rec)"
proof -
  let ?p = "cr_repoRel rec"
  have ok: "validateRepoPath ?p = None" "prefix ''agents/'' ?p"
    "\<not> prefix ''agents/_portable/config/conflicts/'' ?p"
    using assms(1) by (auto simp: validateRecord_def split: option.splits if_splits)
  let ?ss = "split_on CHR ''/'' ?p"
  obtain q where q: "?p = ''agents'' @ CHR ''/'' # q" using ok(2) by (auto simp: prefix_def)
  have ss: "?ss = ''agents'' # split_on CHR ''/'' q"
    unfolding q by (rule split_on_append_sep) simp
  note plain = validateRepoPath_plain [OF ok(1)]
  have "canonicalPath env rec = path_join [CHR ''/'' # join_with CHR ''/'' rs, join_with CHR ''/'' ?ss]"
    by (simp add: canonicalPath_def assms(2))
  also have "\<dots> = ev_repoDir env @ CHR ''/'' # ?p"
    using path_join_absolute [OF assms(3,4) _ plain] assms(2) by simp
  finally have c: "canonicalPath env rec = ev_repoDir env @ CHR ''/'' # ?p" .
  have "\<not> prefix (ev_repoDir env @ ''/agents/_portable/config/conflicts/'') (canonicalPath env rec)"
    using ok(3) by (simp add: c)
  moreover have "canonicalPath env rec = ev_repoDir env @ ''/agents/'' @ join_with CHR ''/'' (split_on CHR ''/'' q)"
    by (simp add: c q)
  moreover have "\<forall>s\<in>set (split_on CHR ''/'' q). plain_segment s" using plain ss by simp
  ultimately show ?thesis by (metis split_on_nonempty)
qed

lemma canonical_file_inside_repository_witness:
  "validateRecord (demo_record ''a'') = None \<and>
   (\<exists>segs. canonicalPath demo_env (demo_record ''a'') = ''/r/agents/'' @ join_with CHR ''/'' segs)"
proof
  show v: "validateRecord (demo_record ''a'') = None" by code_simp
  have "ev_repoDir demo_env = CHR ''/'' # join_with CHR ''/'' [''r'']" by (simp add: demo_env_def)
  from canonical_file_inside_repository [OF v this]
  show "\<exists>segs. canonicalPath demo_env (demo_record ''a'') = ''/r/agents/'' @ join_with CHR ''/'' segs"
    by (auto simp: plain_segment_def demo_env_def)
qed

section \<open>Creating a conflict\<close>

definition conflict_variants :: "string \<Rightarrow> string \<Rightarrow> string \<Rightarrow> variants" where
  "conflict_variants base local remote = [(''base'', base), (''local'', local), (''remote'', remote)]"

definition stamped :: "store_env \<Rightarrow> conflict_record \<Rightarrow> conflict_record" where
  "stamped env rec = (if cr_createdAt rec = 0 then rec\<lparr>cr_createdAt := ev_now env\<rparr> else rec)"

definition with_local :: "string \<Rightarrow> conflict_bundle \<Rightarrow> disk \<Rightarrow> disk" where
  "with_local i b d = setEntries LocalRoot (fmupd i (Dir b)) d"

definition with_both :: "string \<Rightarrow> conflict_bundle \<Rightarrow> disk \<Rightarrow> disk" where
  "with_both i b d = setEntries RepoRoot (fmupd i (Dir b)) (with_local i b d)"

lemma crash_Create:
  defines "bn \<equiv> \<lambda>env rec base local remote. mkBundle (stamped env rec) (conflict_variants base local remote)"
  shows "crash_valid (\<lambda>d. d = d0) (Create env rec base local remote)
    (\<lambda>_ d. fmlookup (dk_local d0) (cr_id rec) = None \<and> fmlookup (dk_repo d0) (cr_id rec) = None \<and>
       d = with_both (cr_id rec) (bn env rec base local remote) d0)
    (\<lambda>_ d. d = d0)
    (\<lambda>d. d = d0 \<or> fmlookup (dk_local d0) (cr_id rec) = None \<and> fmlookup (dk_repo d0) (cr_id rec) = None \<and>
       d = with_local (cr_id rec) (bn env rec base local remote) d0)"
    (is "crash_valid ?P _ ?Q ?E ?C")
proof -
  let ?rec = "stamped env rec" and ?i = "cr_id rec" and ?vs = "conflict_variants base local remote"
  let ?b = "mkBundle ?rec ?vs"
  have id: "cr_id ?rec = ?i" by (simp add: stamped_def)
  let ?A = "\<lambda>d. d = d0 \<and> fmlookup (dk_local d0) ?i = None \<and> fmlookup (dk_repo d0) ?i = None"
  have ck: "crash_valid ?P (check e) (\<lambda>_. ?P) ?E ?C" for e
    by (rule crash_check) auto
  have scans: "crash_valid ?P (forEach (\<lambda>(v, data) _. check (scan env ?rec v data)) ?vs ()) (\<lambda>_. ?P) ?E ?C"
    by (rule crash_forEach [where I = "\<lambda>_ _. ?P"]) (auto intro: ck lawful_intros split: prod.split)
  let ?S = "\<lambda>rs (_ :: unit) d. d = d0 \<and> (\<forall>r. r \<notin> set rs \<longrightarrow> fmlookup (entriesOf r d0) ?i = None)"
  have stat: "crash_valid (?S (r # rs) u) (assertAbsent ?i r u) (?S rs) ?E ?C" for r rs u
    unfolding assertAbsent_def
    by (rule crash_andThen [where R = "\<lambda>s d. ?S (r # rs) u d \<and> s = fmlookup (entriesOf r d0) ?i"],
        unfold statEntry_def, rule crash_read_tick)
      (auto intro!: crash_if crash_raise crash_ret lawful_intros, metis)
  have all_roots: "(\<forall>r. P r) \<longleftrightarrow> P LocalRoot \<and> P RepoRoot" for P
    by (metis root.exhaust)
  have all: "?S [] u d \<Longrightarrow> ?A d" "d = d0 \<Longrightarrow> ?S [LocalRoot, RepoRoot] u d" for u d
    by (simp_all add: all_roots)
  have stats: "crash_valid ?P (forEach (assertAbsent ?i) [LocalRoot, RepoRoot] ()) (\<lambda>_. ?A) ?E ?C"
  proof -
    have "crash_valid (?S [LocalRoot, RepoRoot] ()) (forEach (assertAbsent ?i) [LocalRoot, RepoRoot] ())
        (?S []) ?E ?C"
      by (rule crash_forEach [where I = ?S, OF stat]) (rule lawful_create_steps)
    then show ?thesis
      by (rule crash_weaken) (erule all(2), erule all(1), assumption+)
  qed
  have tmp: "crash_valid ?A (writeTempBundle r ?rec ?vs) (\<lambda>b d. b = ?b \<and> ?A d) ?E ?C" for r
    unfolding writeTempBundle_def by (rule crash_read_tick) auto
  have loc: "crash_valid ?A (renameBundle LocalRoot ?i ?b)
      (\<lambda>_ d. ?A d0 \<and> d = with_local ?i ?b d0) (\<lambda>_ _. False) ?C"
    unfolding renameBundle_def by (rule crash_atomic) (auto simp: with_local_def)
  have rep: "crash_valid (\<lambda>d. ?A d0 \<and> d = with_local ?i ?b d0) (renameBundle RepoRoot ?i ?b)
      ?Q (\<lambda>_ _. False) ?C"
    unfolding renameBundle_def by (rule crash_atomic) (auto simp: with_both_def bn_def)
  have last: "crash_valid ?A (publishBoth ?i ?b ?b) ?Q ?E ?C"
    unfolding publishBoth_def
    by (rule crash_attempt [OF loc], simp only: sum.case, rule crash_attempt [OF rep], simp only: sum.case,
        rule crash_ret) (auto intro!: lawful_intros intro: crash_pre_False split: sum.split)
  have pub: "crash_valid (\<lambda>d. rt = ?b \<and> ?A d) (publishBoth ?i ?b rt) ?Q ?E ?C" for rt
    using last by (cases "rt = ?b") (auto intro: crash_pre_False)
  have "crash_valid ?A (andThen (writeTempBundle RepoRoot ?rec ?vs) (publishBoth ?i ?b)) ?Q ?E ?C"
    by (rule crash_andThen [OF tmp], rule pub) (intro lawful_intros)
  then have tail: "crash_valid (\<lambda>d. lt = ?b \<and> ?A d)
      (andThen (writeTempBundle RepoRoot ?rec ?vs) (publishBoth ?i lt)) ?Q ?E ?C" for lt
    by (cases "lt = ?b") (auto intro: crash_pre_False)
  show ?thesis unfolding Create_def Let_def stamped_def [symmetric] conflict_variants_def [symmetric] id
    by (rule crash_andThen [OF ck], rule crash_andThen [OF scans], rule crash_andThen [OF stats],
        rule crash_andThen [OF tmp], rule tail) (auto intro!: lawful_intros split: prod.split)
qed

text \<open>Creating a conflict never overwrites one: it succeeds only when neither copy existed and then
  publishes the same bundle in both places, an error leaves the disk as it was, and a crash leaves
  either nothing or the local copy alone, which the next mirroring removes.\<close>

lemma create_publishes_both_or_nothing:
  assumes "only_crashes fs" and "Create env rec base local remote (boot d fs) = (r, w)"
  defines "bn \<equiv> mkBundle (stamped env rec) (conflict_variants base local remote)"
  shows "w_disk w = d \<or>
    fmlookup (dk_local d) (cr_id rec) = None \<and> fmlookup (dk_repo d) (cr_id rec) = None \<and>
    (if w_dead w then w_disk w \<in> {with_local (cr_id rec) bn d, with_both (cr_id rec) bn d}
     else r = Inr () \<and> w_disk w = with_both (cr_id rec) bn d)"
proof -
  note D = crash_validD [OF crash_Create [of d env rec base local remote] _ _ _ assms(2)]
  show ?thesis using D assms(1) by (cases r; cases "w_dead w") (auto simp: bn_def)
qed

lemma create_publishes_both_or_nothing_witness:
  "w_disk (snd (Create demo_env (demo_record ''z'') ''b'' ''l'' ''m'' (boot (demo_disk [''a'']) (crash_at 7)))) =
     demo_disk [''a''] \<or>
   fmlookup (dk_local (demo_disk [''a''])) ''z'' = None"
  using create_publishes_both_or_nothing
    [OF only_crashes_at(1) prod.collapse [symmetric], of demo_env "demo_record ''z''" "''b''" "''l''" "''m''"
      "demo_disk [''a'']" 7]
  by (auto simp: demo_record_def)

section \<open>Mirroring the repository's conflicts\<close>

text \<open>A bundle as \<open>readBundle\<close> sees it.\<close>

definition bundleAt :: "(string, dirent) fmap \<Rightarrow> string \<Rightarrow> (conflict_record \<times> string \<times> string \<times> string) option" where
  "bundleAt m i =
     (case (recordAt m i, variantAt m i ''base'', variantAt m i ''local'', variantAt m i ''remote'') of
        (Some r, Some a, Some b, Some c) \<Rightarrow> Some (r, a, b, c) | _ \<Rightarrow> None)"

lemma bundleAt_cong: "fmlookup m i = fmlookup m' i \<Longrightarrow> bundleAt m i = bundleAt m' i"
  by (simp add: bundleAt_def recordAt_def variantAt_def)

lemma run_readVariant:
  "run (readVariant r i v) d = (x, d') \<Longrightarrow>
     d' = d \<and> (\<forall>data. x = Inr data \<longrightarrow> variantAt (entriesOf r d) i v = Some data)"
  by (auto simp: readVariant_def variantAt_def split: option.splits dirent.splits)

lemma run_readRecordFile:
  "run (readRecordFile r i) d = (x, d') \<Longrightarrow>
     d' = d \<and> (\<forall>rec. x = Inr (Stored rec) \<longrightarrow> recordAt (entriesOf r d) i = Some rec)"
  by (auto simp: readRecordFile_def recordAt_def split: option.splits dirent.splits)

lemma run_readBundleRecord:
  assumes "run (readBundleRecord r i) d = (Inr rec, d')"
  shows "d' = d \<and> recordAt (entriesOf r d) i = Some rec \<and> cr_id rec = i \<and> validateRecord rec = None"
proof -
  obtain s d1 where s: "run (readRecordFile r i) d = (s, d1)" by (cases "run (readRecordFile r i) d")
  from run_readRecordFile [OF s] s assms show ?thesis
    by (auto simp: readBundleRecord_def run_andThen lawful_intros
        split: option.splits sum.splits stored.splits if_splits)
qed

lemma run_readScanned:
  assumes "run (readScanned env r i rec v vs) d = (Inr vs', d')"
  shows "\<exists>data. d' = d \<and> vs' = vs @ [(v, data)] \<and> variantAt (entriesOf r d) i v = Some data"
proof -
  obtain x d1 where x: "run (readVariant r i v) d = (x, d1)" by (cases "run (readVariant r i v) d")
  from run_readVariant [OF x] x assms show ?thesis
    by (auto simp: readScanned_def run_andThen lawful_intros split: option.splits sum.splits)
qed

lemma run_readBundle:
  assumes "run (readBundle env r i) d = (Inr (rec, vs), d')"
  shows "\<exists>a b c. d' = d \<and> vs = conflict_variants a b c \<and> bundleAt (entriesOf r d) i = Some (rec, a, b, c)"
proof -
  have sc: "lawful (readScanned env r i rc v w)" for rc v w
    by (auto simp: readScanned_def intro!: lawful_intros)
  obtain v1 d1 v2 d2 v3 where st: "run (readBundleRecord r i) d = (Inr rec, d1)"
    "run (readScanned env r i rec ''base'' []) d1 = (Inr v1, d2)"
    "\<exists>d3. run (readScanned env r i rec ''local'' v1) d2 = (Inr v2, d3) \<and>
       run (readScanned env r i rec ''remote'' v2) d3 = (Inr v3, d') \<and> vs = v3"
    using assms
    by (auto simp: readBundle_def run_andThen lawful_intros sc split: sum.splits prod.splits)
  from run_readBundleRecord [OF st(1)] run_readScanned [OF st(2)] st(3)
  show ?thesis
    by (auto dest!: run_readScanned simp: conflict_variants_def bundleAt_def)
qed

lemma run_statEntry [simp]: "run (statEntry r i) d = (Inr (fmlookup (entriesOf r d) i), d)"
  by (simp add: statEntry_def)

lemma run_readDir [simp]: "run (readDir r) d = (Inr (bundleNames (entriesOf r d)), d)"
  by (simp add: readDir_def)

lemma run_renameBundle [simp]: "run (renameBundle r i b) d = (Inr (), setEntries r (fmupd i (Dir b)) d)"
  by (simp add: renameBundle_def)

lemma run_removeAll [simp]: "run (removeAll r i) d = (Inr (), setEntries r (fmdrop i) d)"
  by (simp add: removeAll_def)

lemma run_writeTempBundle [simp]: "run (writeTempBundle r rec vs) d = (Inr (mkBundle rec vs), d)"
  by (simp add: writeTempBundle_def)

lemma bundleAt_mkBundle:
  "bundleAt (fmupd i (Dir (mkBundle rec (conflict_variants a b c))) m) i = Some (rec, a, b, c)"
  by (simp add: bundleAt_def recordAt_def variantAt_def mkBundle_def conflict_variants_def fmlookup_of_list)

lemma run_mirrorIn:
  assumes "run (mirrorIn env pr i ids) d = (Inr ids', d')"
  shows "dk_repo d' = dk_repo d \<and> dk_files d' = dk_files d \<and>
    (\<forall>j. j \<noteq> i \<or> j \<in> set pr \<longrightarrow> fmlookup (dk_local d') j = fmlookup (dk_local d) j) \<and>
    (if i \<in> set pr then ids' = ids
     else ids' = ids @ [i] \<and> bundleAt (dk_repo d) i \<noteq> None \<and>
       bundleAt (dk_local d') i = bundleAt (dk_repo d) i)"
proof (cases "i \<in> set pr")
  case True
  with assms show ?thesis by (simp add: mirrorIn_def)
next
  case False
  obtain x d1 where x: "run (readBundle env RepoRoot i) d = (x, d1)" by (cases "run (readBundle env RepoRoot i) d")
  obtain rec vs where r: "x = Inr (rec, vs)"
    using assms x False by (cases x) (auto simp: mirrorIn_def run_andThen lawful_intros)
  from run_readBundle [OF x [unfolded r]] obtain a b c where repo: "d1 = d" "vs = conflict_variants a b c"
    "bundleAt (dk_repo d) i = Some (rec, a, b, c)" by auto
  show ?thesis
  proof (cases "fmlookup (dk_local d) i")
    case None
    then have "d' = d\<lparr>dk_local := fmupd i (Dir (mkBundle rec vs)) (dk_local d)\<rparr>" "ids' = ids @ [i]"
      using assms x False by (auto simp: mirrorIn_def run_andThen run_attempt lawful_intros r repo(1))
    then show ?thesis using False repo by (simp add: bundleAt_mkBundle)
  next
    case (Some e)
    then obtain lb where lb: "e = Dir lb"
      using assms x False by (cases e) (auto simp: mirrorIn_def run_andThen lawful_intros r repo(1))
    obtain y d2 where y: "run (readBundle env LocalRoot i) d = (y, d2)" by (cases "run (readBundle env LocalRoot i) d")
    have yr: "y = Inr (rec, vs) \<and> ids' = ids @ [i] \<and> d' = d2"
      using assms x y False Some lb
      by (cases y) (auto simp: mirrorIn_def run_andThen lawful_intros r repo(1) split: if_splits)
    from run_readBundle [OF y [unfolded yr [THEN conjunct1]]] yr repo False show ?thesis
      by (auto simp: conflict_variants_def)
  qed
qed

lemma run_mirrorIn_all:
  assumes "run (forEach (mirrorIn env pr) names ids) d = (Inr ids', d')" "distinct names"
  shows "dk_repo d' = dk_repo d \<and> dk_files d' = dk_files d \<and>
    ids' = ids @ filter (\<lambda>i. i \<notin> set pr) names \<and>
    (\<forall>j. j \<notin> set names \<or> j \<in> set pr \<longrightarrow> fmlookup (dk_local d') j = fmlookup (dk_local d) j) \<and>
    (\<forall>j\<in>set names - set pr. bundleAt (dk_repo d) j \<noteq> None \<and> bundleAt (dk_local d') j = bundleAt (dk_repo d) j)"
  using assms
proof (induction names arbitrary: ids d)
  case Nil
  then show ?case by simp
next
  case (Cons i names)
  have lm: "lawful (mirrorIn env pr i ids)"
    by (auto simp: mirrorIn_def intro!: lawful_intros split: option.split dirent.split sum.split prod.split)
  obtain x d1 where x: "run (mirrorIn env pr i ids) d = (x, d1)" by (cases "run (mirrorIn env pr i ids) d")
  obtain ids1 where r: "x = Inr ids1" and rest: "run (forEach (mirrorIn env pr) names ids1) d1 = (Inr ids', d')"
    using Cons.prems(1) x by (cases x) (auto simp: run_andThen lm)
  note one = run_mirrorIn [OF x [unfolded r]]
  note IH = Cons.IH [OF rest]
  have di: "distinct names" "i \<notin> set names" using Cons.prems(2) by auto
  have keep: "bundleAt (dk_local d') i = bundleAt (dk_local d1) i"
    by (rule bundleAt_cong) (use IH di in simp)
  from one IH di keep show ?case by (auto split: if_splits)
qed

lemma run_mirrorOut:
  "run (mirrorOut pr ids i u) d =
     (Inr (), if i \<in> set pr \<or> i \<in> set ids then d else setEntries LocalRoot (fmdrop i) d)"
  by (simp add: mirrorOut_def)

lemma run_mirrorOut_all:
  "run (forEach (mirrorOut pr ids) names u) d = (r, d') \<Longrightarrow>
    dk_repo d' = dk_repo d \<and> dk_files d' = dk_files d \<and>
    dk_local d' = fmfilter (\<lambda>j. j \<notin> set names \<or> j \<in> set pr \<or> j \<in> set ids) (dk_local d)"
proof (induction names arbitrary: u d)
  case Nil
  then show ?case by simp
next
  case (Cons i names)
  have lm: "lawful (mirrorOut pr ids i v)" for v by (auto simp: mirrorOut_def intro!: lawful_intros)
  show ?case
  proof (cases "i \<in> set pr \<or> i \<in> set ids")
    case True
    then have "run (forEach (mirrorOut pr ids) names ()) d = (r, d')"
      using Cons.prems by (simp add: run_andThen lm run_mirrorOut)
    from Cons.IH [OF this] True show ?thesis by (auto intro!: fmap_ext)
  next
    case False
    then have "run (forEach (mirrorOut pr ids) names ()) (setEntries LocalRoot (fmdrop i) d) = (r, d')"
      using Cons.prems by (simp add: run_andThen lm run_mirrorOut)
    from Cons.IH [OF this] False show ?thesis by (auto intro!: fmap_ext)
  qed
qed

lemma set_bundleNames:
  "i \<in> set (bundleNames m) \<longleftrightarrow> \<not> prefix ''.tmp-'' i \<and> (\<exists>b. fmlookup m i = Some (Dir b))"
  by (auto simp: bundleNames_def fm_simps split: option.splits dirent.splits)

lemma bundleAt_Dir: "bundleAt m i = Some x \<Longrightarrow> \<exists>b. fmlookup m i = Some (Dir b)"
  by (auto simp: bundleAt_def recordAt_def split: option.splits dirent.splits)

text \<open>After mirroring succeeds the local store holds exactly the conflicts of the repository, with
  the same record and the same three variants, except for the preserved ids, whose local bundles
  are untouched; the repository and the canonical files never change.\<close>

lemma mirror_makes_local_equal_repository:
  assumes "run (MirrorFromRepo env pr) d = (Inr u, d')"
  shows "dk_repo d' = dk_repo d \<and> dk_files d' = dk_files d \<and>
    (\<forall>i. if i \<in> set pr then fmlookup (dk_local d') i = fmlookup (dk_local d) i
         else (i \<in> set (bundleNames (dk_local d')) \<longleftrightarrow> i \<in> set (bundleNames (dk_repo d))) \<and>
           (i \<in> set (bundleNames (dk_repo d)) \<longrightarrow>
              bundleAt (dk_repo d) i \<noteq> None \<and> bundleAt (dk_local d') i = bundleAt (dk_repo d) i))"
proof -
  let ?names = "bundleNames (dk_repo d)"
  have lm: "lawful (forEach (mirrorIn env pr) ?names [])"
    by (rule lawful_forEach)
      (auto simp: mirrorIn_def intro!: lawful_intros split: option.split dirent.split sum.split prod.split)
  obtain x d1 where x: "run (forEach (mirrorIn env pr) ?names []) d = (x, d1)"
    by (cases "run (forEach (mirrorIn env pr) ?names []) d")
  obtain ids where r: "x = Inr ids"
    and out: "run (forEach (mirrorOut pr ids) (bundleNames (dk_local d1)) ()) d1 = (Inr u, d')"
    using assms x lm by (cases x) (auto simp: MirrorFromRepo_def run_andThen lawful_intros)
  have dn: "distinct ?names" by (simp add: bundleNames_def)
  note A = run_mirrorIn_all [OF x [unfolded r] dn] and B = run_mirrorOut_all [OF out]
  have ids: "set ids = set ?names - set pr" using A by auto
  have look: "fmlookup (dk_local d') i =
      (if i \<notin> set (bundleNames (dk_local d1)) \<or> i \<in> set pr \<or> i \<in> set ids then fmlookup (dk_local d1) i else None)"
    for i using B by simp
  have "if i \<in> set pr then fmlookup (dk_local d') i = fmlookup (dk_local d) i
         else (i \<in> set (bundleNames (dk_local d')) \<longleftrightarrow> i \<in> set ?names) \<and>
           (i \<in> set ?names \<longrightarrow> bundleAt (dk_repo d) i \<noteq> None \<and> bundleAt (dk_local d') i = bundleAt (dk_repo d) i)" for i
  proof (cases "i \<in> set pr")
    case True
    then show ?thesis using look A by simp
  next
    case notpr: False
    show ?thesis
    proof (cases "i \<in> set ?names")
      case True
      with notpr ids have l: "fmlookup (dk_local d') i = fmlookup (dk_local d1) i" by (simp add: look)
      have e: "bundleAt (dk_repo d) i \<noteq> None" "bundleAt (dk_local d1) i = bundleAt (dk_repo d) i"
        using A True notpr by auto
      then obtain b where "fmlookup (dk_local d1) i = Some (Dir b)" by (metis bundleAt_Dir not_None_eq)
      then have "i \<in> set (bundleNames (dk_local d'))" using True l by (simp add: set_bundleNames)
      then show ?thesis using True notpr e bundleAt_cong [OF l] by simp
    next
      case False
      then have "i \<notin> set (bundleNames (dk_local d'))"
        using notpr ids look [of i] by (auto simp: set_bundleNames split: if_splits)
      then show ?thesis using False notpr by simp
    qed
  qed
  moreover have "dk_repo d' = dk_repo d" "dk_files d' = dk_files d"
    using A [THEN conjunct1] A [THEN conjunct2, THEN conjunct1] B by simp_all
  ultimately show ?thesis by (intro conjI allI) assumption+
qed

lemma mirror_makes_local_equal_repository_witness:
  "\<exists>u d'. run (MirrorFromRepo demo_env [''p'']) ((demo_disk [''a''])\<lparr>dk_local :=
       fmap_of_list [(''p'', demo_bundle ''p''), (''old'', demo_bundle ''old'')]\<rparr>) = (Inr u, d') \<and>
     fmlookup (dk_local d') ''p'' = Some (demo_bundle ''p'') \<and> ''old'' \<notin> set (bundleNames (dk_local d'))"
proof -
  let ?d = "(demo_disk [''a''])\<lparr>dk_local := fmap_of_list [(''p'', demo_bundle ''p''), (''old'', demo_bundle ''old'')]\<rparr>"
  let ?q = "run (MirrorFromRepo demo_env [''p'']) ?d"
  have "\<not> isl (fst ?q)" by code_simp
  then obtain u d' where q: "?q = (Inr u, d')" by (cases ?q; cases "fst ?q") auto
  note P = mirror_makes_local_equal_repository [OF q, THEN conjunct2, THEN conjunct2, rule_format]
  have "fmlookup (dk_local d') ''p'' = Some (demo_bundle ''p'')"
    using P [of "''p''"] by (simp add: fmlookup_of_list)
  moreover have "''old'' \<notin> set (bundleNames (dk_local d'))"
    using P [of "''old''"] by (simp add: set_bundleNames demo_disk_def fmlookup_of_list)
  ultimately show ?thesis using q by blast
qed

end
