(* ===== verification/Remote_Guards.thy ===== *)
theory Remote_Guards
  imports Install_Executor Portable_Config Conflict_Store
begin

text \<open>
  What the engine accepts from the repository (internal/syncengine/resources.go): every file that an
  enabled resource owns passes its content policy, the secret scanner, the install declarations and
  the portable projection before it may reach the machine, and the program's own metadata (conflict
  bundles, install metadata) is checked as well.  The working tree is a map from cleaned absolute
  paths to what \<open>Lstat\<close> says, where a link holds what \<open>Stat\<close> and \<open>ReadFile\<close> reach through it; the JSON
  decoder of conflict records is a parameter.
\<close>

section \<open>Environment\<close>

datatype repo_node = RepoFile string | RepoUnreadable | RepoLink "repo_node option"

type_synonym worktree = "(string, repo_node) fmap"

record guard_env =
  gv_repoDir :: string
  gv_install :: install_env
  gv_codecs :: codecs
  gv_registry :: "registry option"
  gv_goos :: string
  gv_userHome :: string
  gv_decodeRecord :: "string \<Rightarrow> conflict_record option"

definition nodeAt :: "guard_env \<Rightarrow> worktree \<Rightarrow> string \<Rightarrow> repo_node option" where
  "nodeAt env wt repoRel = fmlookup wt (path_join [gv_repoDir env, repoRel])"

definition reached :: "repo_node \<Rightarrow> repo_node option" where
  "reached nd = (case nd of RepoLink target \<Rightarrow> target | _ \<Rightarrow> Some nd)"

text \<open>What \<open>Stat\<close> and \<open>ReadFile\<close> find, which follow a link.\<close>

definition followedAt :: "guard_env \<Rightarrow> worktree \<Rightarrow> string \<Rightarrow> repo_node option" where
  "followedAt env wt repoRel = Option.bind (nodeAt env wt repoRel) reached"

definition remoteIssue :: "string \<Rightarrow> string \<Rightarrow> string \<Rightarrow> string \<Rightarrow> issue" where
  "remoteIssue key repoRel code err =
     \<lparr>iss_resource_key = key, iss_path = repoRel, iss_code = code, iss_message = Msg err, iss_bytes = 0\<rparr>"

definition documentsEqual :: "codecs \<Rightarrow> string \<Rightarrow> string \<Rightarrow> string \<Rightarrow> bool" where
  "documentsEqual cs rel left right =
     (case (Parse cs rel left, Parse cs rel right) of
        (Inr (_, l), Inr (_, r)) \<Rightarrow> l = r
      | _ \<Rightarrow> left = right)"

definition scanWith :: "guard_env \<Rightarrow> scanner \<Rightarrow> string \<Rightarrow> string \<Rightarrow> scan_error + bool" where
  "scanWith env sc rel data = Scan (globMatch (gv_codecs env)) (unmarshalJSON (gv_codecs env)) sc rel data"

text \<open>Checks that return an error give \<open>Some\<close> of its text.\<close>

definition scanInternalData :: "guard_env \<Rightarrow> string \<Rightarrow> string \<Rightarrow> string option" where
  "scanInternalData env repoRel data =
     (case scanWith env (NewScanner [] [''apiKey'', ''token'', ''secret'', ''password'', ''oauth'', ''refresh_token'']) repoRel data of
        Inl _ \<Rightarrow> Some ''scan failed''
      | Inr blocked \<Rightarrow> if blocked then Some ''secret-looking data detected'' else None)"

definition ConflictScanner :: "guard_env \<Rightarrow> (string, spec) fmap \<Rightarrow> conflict_record \<Rightarrow> string \<Rightarrow> string \<Rightarrow> string option" where
  "ConflictScanner env specs rec variant data =
     (if trim_space data = [] then None
      else case ParseRepoPath (cr_repoRel rec) of
        Inl _ \<Rightarrow> Some ''invalid repository path''
      | Inr ref \<Rightarrow>
          let scanPath = path_join [''conflict'', variant, ref_relative ref]
          in case specForRef specs ref of
               None \<Rightarrow> scanInternalData env scanPath data
             | Some s \<Rightarrow>
                 if \<not> refMatchesSpec ref s then scanInternalData env scanPath data
                 else case (case sp_validate_content s of None \<Rightarrow> None | Some validate \<Rightarrow> validate (ref_relative ref) data) of
                   Some e \<Rightarrow> Some e
                 | None \<Rightarrow>
                     (case scanWith env (NewScanner (sp_exclude s) (sp_key_patterns s)) scanPath data of
                        Inl _ \<Rightarrow> Some ''scan failed''
                      | Inr blocked \<Rightarrow> if blocked then Some ''secret-looking data detected'' else None))"

definition refKey :: "repo_ref \<Rightarrow> string" where
  "refKey ref = (if ref_common ref then ''common/'' @ ref_id ref else ref_provider ref @ ''/'' @ ref_id ref)"

definition checkConflictBundle ::
  "guard_env \<Rightarrow> worktree \<Rightarrow> (string, spec) fmap \<Rightarrow> string list \<Rightarrow> string \<Rightarrow> string \<Rightarrow> string option" where
  "checkConflictBundle env wt specs parts repoRel data =
     (let bundle = (\<lambda>name. followedAt env wt (join_with CHR ''/'' [''agents'', ''_portable'', ''config'', ''conflicts'', parts ! 4, name]))
      in case bundle ''record.json'' of
           Some (RepoFile recordData) \<Rightarrow>
             (case gv_decodeRecord env recordData of
                None \<Rightarrow> Some ''parse conflict record''
              | Some rec \<Rightarrow>
                  if cr_id rec \<noteq> parts ! 4 \<or> cr_resourceKey rec = [] then Some ''conflict record identity''
                  else case ParseRepoPath (cr_repoRel rec) of
                    Inl _ \<Rightarrow> Some ''validate conflict canonical path''
                  | Inr ref \<Rightarrow>
                      if cr_resourceKey rec \<noteq> refKey ref then Some ''conflict record resource key''
                      else if list_ex (\<lambda>v. bundle v = None) [''base'', ''local'', ''remote''] then Some ''validate conflict variant''
                      else if parts ! 5 = ''record.json'' then scanInternalData env repoRel data
                      else case specForRef specs ref of
                        None \<Rightarrow> scanInternalData env repoRel data
                      | Some s \<Rightarrow>
                          if \<not> refMatchesSpec ref s then scanInternalData env repoRel data
                          else ConflictScanner env specs rec (parts ! 5) data)
         | _ \<Rightarrow> Some ''read conflict record'')"

definition validateInternalRemote :: "guard_env \<Rightarrow> worktree \<Rightarrow> string \<Rightarrow> (string, spec) fmap \<Rightarrow> string option" where
  "validateInternalRemote env wt repoRel specs =
     (case nodeAt env wt repoRel of
        None \<Rightarrow> Some ''not found''
      | Some (RepoLink _) \<Rightarrow> Some ''repository symbolic links are not valid internal metadata''
      | Some RepoUnreadable \<Rightarrow> Some ''read failed''
      | Some (RepoFile data) \<Rightarrow>
          let parts = split_on CHR ''/'' repoRel
          in if length parts = 5 \<and> parts ! 3 = ''install'' then
               (if parts ! 4 \<noteq> ''skill-dependencies.json'' then Some ''invalid install metadata path''
                else case ValidateDeclarations (gv_install env) ''skill-dependencies'' data of
                  Inl _ \<Rightarrow> Some ''validate Skill dependency declarations''
                | Inr _ \<Rightarrow> scanInternalData env repoRel data)
             else if length parts \<noteq> 6 \<or> parts ! 3 \<noteq> ''conflicts'' then Some ''invalid internal portable path''
             else checkConflictBundle env wt specs parts repoRel data)"

section \<open>Validation of the owned remote files\<close>

definition checkContent :: "guard_env \<Rightarrow> spec \<Rightarrow> repo_ref \<Rightarrow> string \<Rightarrow> string \<Rightarrow> issue option" where
  "checkContent env s ref repoRel data =
     (let issue = remoteIssue (sp_key s) repoRel
      in case (case sp_validate_content s of None \<Rightarrow> None | Some validate \<Rightarrow> validate (ref_relative ref) data) of
           Some e \<Rightarrow> Some (issue ''remote-content-policy'' e)
         | None \<Rightarrow>
             (case scanWith env (NewScanner (sp_exclude s) (sp_key_patterns s)) (ref_relative ref) data of
                Inl _ \<Rightarrow> Some (issue ''remote-scan-failed'' ''invalid JSONL record'')
              | Inr True \<Rightarrow>
                  Some ((issue ''remote-secret-detected'' ''remote portable artifact contains secret-looking data'')
                          \<lparr>iss_bytes := int (length data)\<rparr>)
              | Inr False \<Rightarrow>
                  if sp_strategy s = StrategyInstallManifest \<and> ref_relative ref \<noteq> ''manifest.json''
                  then Some (issue ''remote-install-manifest-invalid'' ''install resources may contain only manifest.json'')
                  else if sp_strategy s = StrategyInstallManifest \<and>
                          isl (ValidateDeclarations (gv_install env) (sp_installer s) data)
                  then Some (issue ''remote-install-manifest-invalid'' ''invalid declarations'')
                  else if sp_transformer s = [] then None
                  else case gv_registry env of
                    None \<Rightarrow> Some (issue ''remote-projector-unavailable'' ''remote resource requires a configuration projector'')
                  | Some r \<Rightarrow>
                      (case Project (gv_codecs env) r (sp_transformer s) (ref_relative ref) (gv_goos env) (gv_userHome env) data of
                         Inl _ \<Rightarrow> Some (issue ''remote-projection-invalid'' ''projection failed'')
                       | Inr projected \<Rightarrow>
                           if documentsEqual (gv_codecs env) (ref_relative ref) data projected then None
                           else Some (issue ''remote-nonportable-fields''
                                        ''remote structured artifact contains fields excluded by its portable policy''))))"

definition validateRemote :: "guard_env \<Rightarrow> worktree \<Rightarrow> (string, spec) fmap \<Rightarrow> string \<Rightarrow> issue option" where
  "validateRemote env wt specs repoRel =
     (if isInternalPortablePath repoRel then
        map_option (remoteIssue [] repoRel ''remote-internal-invalid'') (validateInternalRemote env wt repoRel specs)
      else case ParseRepoPath repoRel of
        Inl _ \<Rightarrow> Some (remoteIssue [] repoRel ''remote-path-invalid'' ''invalid repository path'')
      | Inr ref \<Rightarrow>
          (case specForRef specs ref of
             None \<Rightarrow> Some (remoteIssue [] repoRel ''remote-resource-unknown''
                            ''remote file does not belong to an enabled resource'')
           | Some s \<Rightarrow>
               if \<not> refMatchesSpec ref s
               then Some (remoteIssue [] repoRel ''remote-resource-unknown''
                            ''remote file does not belong to an enabled resource'')
               else case nodeAt env wt repoRel of
                 None \<Rightarrow> Some (remoteIssue (sp_key s) repoRel ''remote-read-failed'' ''not found'')
               | Some (RepoLink _) \<Rightarrow> Some (remoteIssue (sp_key s) repoRel ''remote-link-blocked''
                            ''repository symbolic links are not portable resources'')
               | Some RepoUnreadable \<Rightarrow> Some (remoteIssue (sp_key s) repoRel ''remote-read-failed'' ''read failed'')
               | Some (RepoFile data) \<Rightarrow> checkContent env s ref repoRel data))"

text \<open>The loop over the owned files, in sorted order.\<close>

definition ValidateRemoteResources ::
  "guard_env \<Rightarrow> worktree \<Rightarrow> (string, spec) fmap \<Rightarrow> snapshot \<Rightarrow> snapshot \<times> issue list" where
  "ValidateRemoteResources env wt specs owned =
     fold (\<lambda>repoRel (valid, blocked).
             case validateRemote env wt specs repoRel of
               Some issue \<Rightarrow> (valid, blocked @ [issue])
             | None \<Rightarrow> (fmupd repoRel (the (fmlookup owned repoRel)) valid, blocked))
          (fm_keys owned) (fmempty, [])"

definition conflictIDsForIssues :: "issue list \<Rightarrow> string list" where
  "conflictIDsForIssues issues =
     sort_unique (concat (map (\<lambda>issue.
       let parts = split_on CHR ''/'' (iss_path issue)
       in if length parts \<ge> 5 \<and> parts ! 0 = ''agents'' \<and> parts ! 1 = ''_portable'' \<and> parts ! 2 = ''config'' \<and>
             parts ! 3 = ''conflicts'' \<and> parts ! 4 \<noteq> [] then [parts ! 4] else []) issues))"

text \<open>SHA-256 in hexadecimal is a parameter.\<close>

definition conflictID :: "(string \<Rightarrow> string) \<Rightarrow> string \<Rightarrow> string list \<Rightarrow> string" where
  "conflictID sha repoRel variants = take 24 (sha (repoRel @ concat (map (\<lambda>v. CHR 0x00 # v) variants)))"

definition conflictExists :: "string \<Rightarrow> bool store_io" where
  "conflictExists repoRel =
     andThen listUnlocked (\<lambda>records. ret (list_ex (\<lambda>r. cr_repoRel r = repoRel) records))"

section \<open>What the checks establish\<close>

definition internalScanner :: scanner where
  "internalScanner = NewScanner [] [''apiKey'', ''token'', ''secret'', ''password'', ''oauth'', ''refresh_token'']"

text \<open>No key of the decoded document is one the scanner suspects.\<close>

definition keyClean :: "guard_env \<Rightarrow> scanner \<Rightarrow> string \<Rightarrow> bool" where
  "keyClean env sc data \<longleftrightarrow> (\<forall>v k. unmarshalJSON (gv_codecs env) data = Some v \<and> key_occurs k v \<longrightarrow> \<not> keyMatches sc k)"

definition ownedFileGuarded :: "guard_env \<Rightarrow> (string, spec) fmap \<Rightarrow> string \<Rightarrow> string \<Rightarrow> bool" where
  "ownedFileGuarded env specs q data \<longleftrightarrow>
     (\<exists>ref s. ParseRepoPath q = Inr ref \<and> specForRef specs ref = Some s \<and> refMatchesSpec ref s \<and>
        keyClean env (NewScanner (sp_exclude s) (sp_key_patterns s)) data \<and>
        (sp_strategy s = StrategyInstallManifest \<longrightarrow> ref_relative ref = ''manifest.json'' \<and>
           \<not> isl (ValidateDeclarations (gv_install env) (sp_installer s) data)) \<and>
        (sp_transformer s \<noteq> [] \<longrightarrow> (\<exists>r projected. gv_registry env = Some r \<and>
           Project (gv_codecs env) r (sp_transformer s) (ref_relative ref) (gv_goos env) (gv_userHome env) data = Inr projected \<and>
           documentsEqual (gv_codecs env) (ref_relative ref) data projected)))"

definition installFileGuarded :: "guard_env \<Rightarrow> string \<Rightarrow> string \<Rightarrow> bool" where
  "installFileGuarded env q data \<longleftrightarrow>
     split_on CHR ''/'' q ! 4 = ''skill-dependencies.json'' \<and>
     \<not> isl (ValidateDeclarations (gv_install env) ''skill-dependencies'' data) \<and> keyClean env internalScanner data"

definition bundleAt :: "guard_env \<Rightarrow> worktree \<Rightarrow> string \<Rightarrow> string \<Rightarrow> repo_node option" where
  "bundleAt env wt i name =
     followedAt env wt (join_with CHR ''/'' [''agents'', ''_portable'', ''config'', ''conflicts'', i, name])"

definition bundleFileGuarded :: "guard_env \<Rightarrow> worktree \<Rightarrow> (string, spec) fmap \<Rightarrow> string \<Rightarrow> string \<Rightarrow> bool" where
  "bundleFileGuarded env wt specs q data \<longleftrightarrow>
     (let i = split_on CHR ''/'' q ! 4; name = split_on CHR ''/'' q ! 5
      in \<exists>recordData rec ref. bundleAt env wt i ''record.json'' = Some (RepoFile recordData) \<and>
           gv_decodeRecord env recordData = Some rec \<and> cr_id rec = i \<and>
           ParseRepoPath (cr_repoRel rec) = Inr ref \<and> cr_resourceKey rec = refKey ref \<and>
           (\<forall>v\<in>{''base'', ''local'', ''remote''}. bundleAt env wt i v \<noteq> None) \<and>
           (case specForRef specs ref of
              Some s \<Rightarrow>
                if name \<noteq> ''record.json'' \<and> refMatchesSpec ref s
                then trim_space data = [] \<or> keyClean env (NewScanner (sp_exclude s) (sp_key_patterns s)) data
                else keyClean env internalScanner data
            | None \<Rightarrow> keyClean env internalScanner data))"

section \<open>Facts\<close>

lemma validate_loop:
  "fmlookup (fst (fold (\<lambda>p (valid, blocked). case v p of Some i \<Rightarrow> (valid, blocked @ [i])
           | None \<Rightarrow> (fmupd p (the (fmlookup m p)) valid, blocked)) ks acc)) q =
         (if q \<in> set ks \<and> v q = None then Some (the (fmlookup m q)) else fmlookup (fst acc) q)"
  "snd (fold (\<lambda>p (valid, blocked). case v p of Some i \<Rightarrow> (valid, blocked @ [i])
           | None \<Rightarrow> (fmupd p (the (fmlookup m p)) valid, blocked)) ks acc) =
         snd acc @ concat (map (\<lambda>p. case v p of None \<Rightarrow> [] | Some i \<Rightarrow> [i]) ks)"
  by (induction ks arbitrary: acc) (auto split: option.split prod.split)

lemma ValidateRemoteResources_valid:
  "fmlookup (fst (ValidateRemoteResources env wt specs owned)) q =
     (if validateRemote env wt specs q = None then fmlookup owned q else None)"
  unfolding ValidateRemoteResources_def
  by (subst validate_loop(1)) (auto simp: fmlookup_dom_iff)

lemma ValidateRemoteResources_blocked:
  "snd (ValidateRemoteResources env wt specs owned) =
     concat (map (\<lambda>p. case validateRemote env wt specs p of None \<Rightarrow> [] | Some i \<Rightarrow> [i]) (fm_keys owned))"
  unfolding ValidateRemoteResources_def by (subst validate_loop(2)) auto

lemma checkContent_None:
  assumes "checkContent env s ref repoRel data = None"
  shows "scanWith env (NewScanner (sp_exclude s) (sp_key_patterns s)) (ref_relative ref) data = Inr False"
    "sp_strategy s = StrategyInstallManifest \<Longrightarrow>
       ref_relative ref = ''manifest.json'' \<and> \<not> isl (ValidateDeclarations (gv_install env) (sp_installer s) data)"
    "sp_transformer s \<noteq> [] \<Longrightarrow> \<exists>r projected. gv_registry env = Some r \<and>
       Project (gv_codecs env) r (sp_transformer s) (ref_relative ref) (gv_goos env) (gv_userHome env) data = Inr projected \<and>
       documentsEqual (gv_codecs env) (ref_relative ref) data projected"
  using assms unfolding checkContent_def Let_def
  by (auto split: option.splits sum.splits bool.splits if_splits)

lemma validateRemote_path: "validateRemote env wt specs q = Some i \<Longrightarrow> iss_path i = q"
  by (auto simp: validateRemote_def checkContent_def remoteIssue_def Let_def
      split: if_splits option.splits sum.splits repo_node.splits bool.splits)

lemma scan_lets_through:
  assumes "scanWith env sc rel data = Inr False" "unmarshalJSON (gv_codecs env) data = Some v" "key_occurs k v"
  shows "\<not> keyMatches sc k"
proof -
  have "\<not> walk_keys sc v"
    using assms(1,2) by (auto simp: scanWith_def Scan_def HasSecretContent_def split: if_splits)
  then show ?thesis using assms(3) walk_keys_iff by blast
qed

lemma scanInternal_None: "scanInternalData env rel data = None \<Longrightarrow> keyClean env internalScanner data"
  unfolding keyClean_def scanInternalData_def internalScanner_def
  using scan_lets_through by (auto split: sum.splits if_splits)

lemma ConflictScanner_None:
  assumes "ConflictScanner env specs rec variant data = None" "ParseRepoPath (cr_repoRel rec) = Inr ref"
    "specForRef specs ref = Some s" "refMatchesSpec ref s"
  shows "trim_space data = [] \<or> keyClean env (NewScanner (sp_exclude s) (sp_key_patterns s)) data"
proof (cases "trim_space data = []")
  case False
  then have "scanWith env (NewScanner (sp_exclude s) (sp_key_patterns s)) (path_join [''conflict'', variant, ref_relative ref]) data = Inr False"
    using assms by (auto simp: ConflictScanner_def Let_def split: option.splits sum.splits if_splits)
  then show ?thesis unfolding keyClean_def using scan_lets_through by blast
qed simp

lemma conflictBundle_None:
  assumes parts: "parts = split_on CHR ''/'' q" and none: "checkConflictBundle env wt specs parts q data = None"
  shows "bundleFileGuarded env wt specs q data"
proof -
  let ?b = "bundleAt env wt (parts ! 4)"
  note check = none [unfolded checkConflictBundle_def Let_def, folded bundleAt_def]
  obtain recordData where rd: "?b ''record.json'' = Some (RepoFile recordData)"
    using check by (simp split: option.splits repo_node.splits)
  note check = check [unfolded rd option.case repo_node.case]
  obtain rec where rec: "gv_decodeRecord env recordData = Some rec" using check by (cases "gv_decodeRecord env recordData") simp_all
  note check = check [unfolded rec option.case]
  have id: "cr_id rec = parts ! 4" using check by (simp split: if_splits)
  obtain ref where ref: "ParseRepoPath (cr_repoRel rec) = Inr ref"
    using check by (cases "ParseRepoPath (cr_repoRel rec)") (simp_all split: if_splits)
  have key: "cr_resourceKey rec = refKey ref" and vs: "?b ''base'' \<noteq> None" "?b ''local'' \<noteq> None" "?b ''remote'' \<noteq> None"
    and scan: "(if parts ! 5 = ''record.json'' then scanInternalData env q data
       else case specForRef specs ref of None \<Rightarrow> scanInternalData env q data
         | Some s \<Rightarrow> if \<not> refMatchesSpec ref s then scanInternalData env q data
                   else ConflictScanner env specs rec (parts ! 5) data) = None"
    using check ref by (auto split: if_splits)
  have "case specForRef specs ref of
        Some s \<Rightarrow>
          if parts ! 5 \<noteq> ''record.json'' \<and> refMatchesSpec ref s
          then trim_space data = [] \<or> keyClean env (NewScanner (sp_exclude s) (sp_key_patterns s)) data
          else keyClean env internalScanner data
      | None \<Rightarrow> keyClean env internalScanner data"
  proof (cases "specForRef specs ref")
    case None
    then show ?thesis using scan scanInternal_None [of env q data] by (simp split: if_splits)
  next
    case (Some s)
    then show ?thesis
      using scan scanInternal_None [of env q data] ConflictScanner_None [OF _ ref Some, of env "parts ! 5" data]
      by (cases "parts ! 5 = ''record.json''"; cases "refMatchesSpec ref s") simp_all
  qed
  then show ?thesis unfolding bundleFileGuarded_def Let_def parts [symmetric]
    using rd rec id ref key vs by blast
qed

lemma validateInternalRemote_None:
  assumes "validateInternalRemote env wt q specs = None" "isInternalPortablePath q"
  shows "\<exists>data. nodeAt env wt q = Some (RepoFile data) \<and> (installFileGuarded env q data \<or> bundleFileGuarded env wt specs q data)"
proof -
  let ?parts = "split_on CHR ''/'' q"
  obtain data where node: "nodeAt env wt q = Some (RepoFile data)"
    and rest: "(if length ?parts = 5 \<and> ?parts ! 3 = ''install'' then
         (if ?parts ! 4 \<noteq> ''skill-dependencies.json'' then Some ''invalid install metadata path''
          else case ValidateDeclarations (gv_install env) ''skill-dependencies'' data of
            Inl _ \<Rightarrow> Some ''validate Skill dependency declarations''
          | Inr _ \<Rightarrow> scanInternalData env q data)
       else if length ?parts \<noteq> 6 \<or> ?parts ! 3 \<noteq> ''conflicts'' then Some ''invalid internal portable path''
       else checkConflictBundle env wt specs ?parts q data) = None"
    using assms(1) by (auto simp: validateInternalRemote_def Let_def split: option.splits repo_node.splits)
  show ?thesis
  proof (cases "length ?parts = 5 \<and> ?parts ! 3 = ''install''")
    case True
    then have "installFileGuarded env q data"
      using rest assms(2) scanInternal_None
      by (auto simp: installFileGuarded_def split: if_splits sum.splits)
    then show ?thesis using node by blast
  next
    case False
    then have parts: "length ?parts = 6" "?parts ! 3 = ''conflicts''" and check: "checkConflictBundle env wt specs ?parts q data = None"
      using rest by (simp_all split: if_splits)
    then show ?thesis using node conflictBundle_None [OF refl check] by blast
  qed
qed

section \<open>Properties\<close>

text \<open> C13. What the engine takes from the repository is guarded: a file it accepts is a regular file, and it is of one of
  three sorts.  A file of a resource belongs to an enabled resource that owns its path, decodes to a document without
  a key the resource's scanner suspects, and, where it applies, is a manifest of trusted declarations and equals its
  own portable projection.  The program's own install metadata holds valid dependency declarations and no suspect key.
  A file of a conflict bundle lies in a bundle whose record carries the bundle's name and the key of the resource it is
  about, with all three versions there, and has no key that the scanner of that resource (or, without an enabled
  owner, the built-in one) suspects. \<close>

theorem accepted_remote_files_are_guarded:
  assumes "fmlookup (fst (ValidateRemoteResources env wt specs owned)) q = Some meta"
  shows "\<exists>data. nodeAt env wt q = Some (RepoFile data) \<and>
    (if isInternalPortablePath q then installFileGuarded env q data \<or> bundleFileGuarded env wt specs q data
     else ownedFileGuarded env specs q data)"
proof -
  have none: "validateRemote env wt specs q = None"
    using assms by (auto simp: ValidateRemoteResources_valid split: if_splits)
  show ?thesis
  proof (cases "isInternalPortablePath q")
    case True
    then show ?thesis using none validateInternalRemote_None by (auto simp: validateRemote_def)
  next
    case False
    obtain ref where ref: "ParseRepoPath q = Inr ref"
      using none False by (cases "ParseRepoPath q") (simp_all add: validateRemote_def)
    obtain s where s: "specForRef specs ref = Some s"
      using none False ref by (cases "specForRef specs ref") (simp_all add: validateRemote_def)
    have owns: "refMatchesSpec ref s"
      using none False ref s by (simp add: validateRemote_def split: if_splits)
    obtain data where data: "nodeAt env wt q = Some (RepoFile data)" "checkContent env s ref q data = None"
      using none False ref s owns by (auto simp: validateRemote_def split: option.splits repo_node.splits)
    note c = checkContent_None [OF data(2)]
    have "ownedFileGuarded env specs q data"
      using ref s owns scan_lets_through [OF c(1)] c(2,3)
      unfolding ownedFileGuarded_def keyClean_def by (intro exI [of _ ref] exI [of _ s]) blast
    then show ?thesis using False data(1) by auto
  qed
qed

text \<open>Validation accounts for every owned file: each is either accepted with the metadata it had, or named
  by an issue, and never both.\<close>

lemma remote_validation_is_complete:
  assumes "fmlookup owned q = Some meta"
  shows "(fmlookup (fst (ValidateRemoteResources env wt specs owned)) q = Some meta) \<noteq>
    (\<exists>i. i \<in> set (snd (ValidateRemoteResources env wt specs owned)) \<and> iss_path i = q)"
proof (cases "validateRemote env wt specs q")
  case None
  have "iss_path i \<noteq> q" if mem: "i \<in> set (snd (ValidateRemoteResources env wt specs owned))" for i
  proof
    assume "iss_path i = q"
    moreover obtain p where "validateRemote env wt specs p = Some i"
      using mem by (auto simp: ValidateRemoteResources_blocked split: option.splits)
    ultimately show False using validateRemote_path None by (metis option.distinct(1))
  qed
  then show ?thesis using None assms by (auto simp: ValidateRemoteResources_valid)
next
  case (Some i)
  have "q \<in> set (fm_keys owned)" using assms by (simp add: fmlookup_dom_iff)
  then have "i \<in> set (snd (ValidateRemoteResources env wt specs owned))"
    using Some by (force simp: ValidateRemoteResources_blocked)
  then show ?thesis using Some validateRemote_path [OF Some] by (auto simp: ValidateRemoteResources_valid)
qed

definition demo_guard_env :: guard_env where
  "demo_guard_env = \<lparr>gv_repoDir = ''/repo'', gv_install = demo_install_env, gv_codecs = demo_codecs, gv_registry = None,
     gv_goos = ''linux'', gv_userHome = ''/home/a'', gv_decodeRecord = (\<lambda>_. None)\<rparr>"

definition demo_guard_spec :: spec where
  "demo_guard_spec = example_spec\<lparr>sp_strategy := StrategyFileTree, sp_layout := LayoutLegacy, sp_provider := ''claude'',
     sp_category := CategoryConfig, sp_id := ''legacy-config'', sp_key := ''claude/legacy-config'', sp_shared_as := [],
     sp_exclude := [], sp_key_patterns := [''token''], sp_reserved := [], sp_transformer := [], sp_validate_content := None\<rparr>"

definition demo_worktree :: worktree where
  "demo_worktree = fmap_of_list [(''/repo/agents/claude/config/a.md'', RepoFile ''text''),
     (''/repo/agents/claude/config/b.md'', RepoLink None)]"

definition demo_owned :: snapshot where
  "demo_owned = fmap_of_list [(''agents/claude/config/a.md'', example_meta ''1''), (''agents/claude/config/b.md'', example_meta ''2'')]"

lemma accepted_remote_files_are_guarded_witness:
  "\<exists>data. nodeAt demo_guard_env demo_worktree ''agents/claude/config/a.md'' = Some (RepoFile data) \<and>
     ownedFileGuarded demo_guard_env (fmap_of_list [(''claude/legacy-config'', demo_guard_spec)]) ''agents/claude/config/a.md'' data"
proof -
  let ?specs = "fmap_of_list [(''claude/legacy-config'', demo_guard_spec)]"
  have v: "fmlookup (fst (ValidateRemoteResources demo_guard_env demo_worktree ?specs demo_owned)) ''agents/claude/config/a.md''
      = Some (example_meta ''1'')" and n: "\<not> isInternalPortablePath ''agents/claude/config/a.md''" by code_simp+
  from accepted_remote_files_are_guarded [OF v] n show ?thesis by auto
qed

lemma remote_validation_is_complete_witness:
  "\<exists>i. i \<in> set (snd (ValidateRemoteResources demo_guard_env demo_worktree
      (fmap_of_list [(''claude/legacy-config'', demo_guard_spec)]) demo_owned)) \<and> iss_path i = ''agents/claude/config/b.md''"
proof -
  let ?v = "ValidateRemoteResources demo_guard_env demo_worktree (fmap_of_list [(''claude/legacy-config'', demo_guard_spec)]) demo_owned"
  have o: "fmlookup demo_owned ''agents/claude/config/b.md'' = Some (example_meta ''2'')"
    and n: "fmlookup (fst ?v) ''agents/claude/config/b.md'' \<noteq> Some (example_meta ''2'')" by code_simp+
  from remote_validation_is_complete [OF o] n show ?thesis by blast
qed

end
