(* ===== verification/Trash.thy ===== *)
theory Trash
  imports Remote_Guards Safe_Paths "HOL-Library.Word"
begin

text \<open>
  The soft-delete trash of the repository (internal/syncengine/cleanup.go, and SoftDeleteRemote and
  recordTrash of resource_apply.go): deleted files move to \<open>.trash/files\<close>, an index records when,
  and files past the grace period are removed for good.  Files are keyed by their path in the
  repository; links in the working tree are treated in Safe_Paths, and here the tree has none.  Go
  visits the keys of a map in no fixed order; the model visits them in theirs.
  \<open>os.WriteFile\<close> is not atomic: a crash in it leaves a damaged index.
\<close>

section \<open>State\<close>

text \<open>
  The index file holds a map, no bytes at all, JSON \<open>null\<close> (which decodes to a nil map) or bytes
  that do not decode.
\<close>

datatype trash_index = IndexMap "(string, int) fmap" | IndexEmpty | IndexNull | IndexCorrupt

record trash_disk =
  td_files :: "(string, string) fmap"
  td_trash :: "(string, string) fmap"
  td_index :: "trash_index option"

datatype trash_error = TrashFault | TrashNotFound | IndexUnreadable | NilMapPanic | BadPath path_guard_error

type_synonym 'a trash_io = "(trash_disk, trash_error, 'a) io"

section \<open>Soft deletion\<close>

definition guardPath :: "string \<Rightarrow> trash_error + string" where
  "guardPath repoRel = map_sum BadPath (join_with CHR ''/'') (safeJoin [] repoRel)"

definition recordTrash :: "int \<Rightarrow> string \<Rightarrow> unit trash_io" where
  "recordTrash now repoRel =
     andThen (read_tick TrashFault (\<lambda>d.
        case td_index d of
          None \<Rightarrow> Inr fmempty
        | Some (IndexMap m) \<Rightarrow> Inr m
        | Some IndexNull \<Rightarrow> Inl NilMapPanic
        | Some _ \<Rightarrow> Inl IndexUnreadable)) (\<lambda>index.
       tick TrashFault (\<lambda>d _. d) (\<lambda>d. (Inr (), d\<lparr>td_index := Some (IndexMap (fmupd repoRel now index))\<rparr>)))"

text \<open>\<open>os.Rename\<close> replaces an older copy in the trash; when it fails the file is copied and removed.\<close>

definition renameToTrash :: "string \<Rightarrow> unit trash_io" where
  "renameToTrash p = tick TrashFault (\<lambda>d _. d) (\<lambda>d.
     case fmlookup (td_files d) p of
       None \<Rightarrow> (Inl TrashNotFound, d)
     | Some c \<Rightarrow> (Inr (), d\<lparr>td_files := fmdrop p (td_files d), td_trash := fmupd p c (td_trash d)\<rparr>))"

definition readWorking :: "string \<Rightarrow> string trash_io" where
  "readWorking p = read_tick TrashFault (\<lambda>d.
     case fmlookup (td_files d) p of None \<Rightarrow> Inl TrashNotFound | Some c \<Rightarrow> Inr c)"

definition writeTrash :: "string \<Rightarrow> string \<Rightarrow> unit trash_io" where
  "writeTrash p c = tick TrashFault (\<lambda>d _. d) (\<lambda>d. (Inr (), d\<lparr>td_trash := fmupd p c (td_trash d)\<rparr>))"

definition removeWorking :: "string \<Rightarrow> unit trash_io" where
  "removeWorking p = tick TrashFault (\<lambda>d _. d) (\<lambda>d.
     if fmlookup (td_files d) p = None then (Inl TrashNotFound, d) else (Inr (), d\<lparr>td_files := fmdrop p (td_files d)\<rparr>))"

text \<open>\<open>os.MkdirAll\<close> of the parent in the trash leaves no trace among the files.\<close>

definition makeTrashParent :: "unit trash_io" where
  "makeTrashParent = tick TrashFault (\<lambda>d _. d) (\<lambda>d. (Inr (), d))"

definition moveToTrash :: "string \<Rightarrow> unit trash_io" where
  "moveToTrash p =
     attempt (renameToTrash p) (\<lambda>r. case r of
       Inr _ \<Rightarrow> ret ()
     | Inl e \<Rightarrow> andThen (readWorking p) (\<lambda>c. andThen (writeTrash p c) (\<lambda>_. removeWorking p)))"

definition SoftDeleteRemote :: "int \<Rightarrow> string \<Rightarrow> unit trash_io" where
  "SoftDeleteRemote now repoRel =
     (case guardPath repoRel of
        Inl e \<Rightarrow> raise e
      | Inr p \<Rightarrow>
          andThen (read_tick TrashFault (\<lambda>d. Inr (fmlookup (td_files d) p))) (\<lambda>found.
            if found = None then ret ()
            else andThen makeTrashParent (\<lambda>_. andThen (moveToTrash p) (\<lambda>_. recordTrash now repoRel))))"

section \<open>Purging\<close>

text \<open>On Unix \<open>filepath.VolumeName\<close> is empty.\<close>

definition safeTrashPath :: "string \<Rightarrow> bool" where
  "safeTrashPath repoRel \<longleftrightarrow>
     \<not> (repoRel = [] \<or> CHR 0x5C \<in> set repoRel \<or> path_clean repoRel \<noteq> repoRel \<or> prefix ''/'' repoRel) \<and>
     (let parts = split_on CHR ''/'' repoRel in \<not> (length parts < 4 \<or> parts ! 0 \<noteq> ''agents''))"

text \<open>
  \<open>now.Add(-time.Duration(graceDays) * 24 * time.Hour).Unix()\<close>: the duration is a 64-bit count of
  nanoseconds that wraps, the time itself has a wider range, and \<open>Unix\<close> rounds down to seconds.
\<close>

definition graceDuration :: "int \<Rightarrow> 64 word" where
  "graceDuration graceDays = - word_of_int graceDays * 24 * word_of_int (3600 * 10 ^ 9)"

definition cutoffAt :: "int \<Rightarrow> int \<Rightarrow> int" where
  "cutoffAt now graceDays = (now + sint (graceDuration graceDays)) div 10 ^ 9"

definition readIndex :: "(string, int) fmap option trash_io" where
  "readIndex = read_tick TrashFault (\<lambda>d.
     case td_index d of
       None \<Rightarrow> Inr None
     | Some (IndexMap m) \<Rightarrow> Inr (Some m)
     | Some IndexEmpty \<Rightarrow> Inr (Some fmempty)
     | Some IndexNull \<Rightarrow> Inr (Some fmempty)
     | Some IndexCorrupt \<Rightarrow> Inl IndexUnreadable)"

definition removeTrashFile :: "string \<Rightarrow> unit trash_io" where
  "removeTrashFile p = tick TrashFault (\<lambda>d _. d) (\<lambda>d. (Inr (), d\<lparr>td_trash := fmdrop p (td_trash d)\<rparr>))"

definition writeIndex :: "(string, int) fmap \<Rightarrow> unit trash_io" where
  "writeIndex m = tick TrashFault (\<lambda>d ns. if ns = [] then d else d\<lparr>td_index := Some IndexCorrupt\<rparr>)
     (\<lambda>d. (Inr (), d\<lparr>td_index := Some (IndexMap m)\<rparr>))"

definition purgeEntry :: "string \<Rightarrow> string list \<Rightarrow> string list trash_io" where
  "purgeEntry repoRel purged =
     (if \<not> safeTrashPath repoRel then ret (purged @ [repoRel])
      else andThen (removeTrashFile repoRel) (\<lambda>_. ret (purged @ [repoRel])))"

definition expiredKeys :: "int \<Rightarrow> (string, int) fmap \<Rightarrow> string list" where
  "expiredKeys cutoff idx = filter (\<lambda>k. the (fmlookup idx k) \<le> cutoff) (fm_keys idx)"

definition CleanupTrash :: "int \<Rightarrow> int \<Rightarrow> string list trash_io" where
  "CleanupTrash now graceDays =
     andThen readIndex (\<lambda>index.
       case index of
         None \<Rightarrow> ret []
       | Some idx \<Rightarrow>
           andThen (forEach purgeEntry (expiredKeys (cutoffAt now graceDays) idx) []) (\<lambda>purged.
             if purged = [] then ret []
             else andThen (writeIndex (fold fmdrop purged idx)) (\<lambda>_. ret (sort purged))))"

text \<open>A file of the trash that no provider allows any more, or that its scanner blocks.\<close>

definition resourcePathAllowed :: "glob \<Rightarrow> spec \<Rightarrow> string \<Rightarrow> bool" where
  "resourcePathAllowed glob s relative \<longleftrightarrow>
     sp_strategy s = StrategyInstallManifest \<or>
     list_ex (\<lambda>pat. glob (replace_char CHR 0x5C CHR ''/'' pat) relative = Some True) (sp_include s)"

definition trashWorktree :: "guard_env \<Rightarrow> trash_disk \<Rightarrow> worktree" where
  "trashWorktree env d = fmap_of_list (map (\<lambda>(p, c). (path_join [gv_repoDir env, p], RepoFile c)) (fm_entries (td_trash d)))"

definition trashBlocked :: "guard_env \<Rightarrow> (string, spec) fmap \<Rightarrow> (string, int) fmap \<Rightarrow> trash_disk \<Rightarrow> string \<Rightarrow> bool" where
  "trashBlocked env specs idx d repoRel =
     (let unindexed = (fmlookup idx repoRel = None)
      in if isInternalPortablePath repoRel then
           unindexed \<or> validateInternalRemote env (trashWorktree env d) repoRel specs \<noteq> None
         else case ParseRepoPath repoRel of
           Inl _ \<Rightarrow> unindexed \<or> prefix portablePrefix repoRel
         | Inr ref \<Rightarrow>
             (case specForRef specs ref of
                None \<Rightarrow> unindexed
              | Some s \<Rightarrow>
                  let content = the (fmlookup (td_trash d) repoRel);
                      glob = globMatch (gv_codecs env);
                      allowed = resourcePathAllowed glob s (ref_relative ref) \<and>
                        Check glob DefaultFilterPolicy (ref_relative ref) (int (length content)) (sp_strategy s) = None
                  in unindexed \<or> \<not> refMatchesSpec ref s \<or> \<not> allowed \<or>
                     ShouldBlock glob (unmarshalJSON (gv_codecs env)) (NewScanner (sp_exclude s) (sp_key_patterns s))
                       (ref_relative ref) content))"

definition purgeBlockedEntry ::
  "guard_env \<Rightarrow> (string, spec) fmap \<Rightarrow> string \<Rightarrow> (string, int) fmap \<times> string list \<Rightarrow>
     ((string, int) fmap \<times> string list) trash_io" where
  "purgeBlockedEntry env specs repoRel = (\<lambda>(idx, purged).
     if \<not> safeTrashPath repoRel then ret (idx, purged)
     else andThen (read_tick TrashFault (\<lambda>d. Inr (trashBlocked env specs idx d repoRel))) (\<lambda>blocked.
       if \<not> blocked then ret (idx, purged)
       else andThen (removeTrashFile repoRel) (\<lambda>_. ret (fmdrop repoRel idx, purged @ [repoRel]))))"

definition PurgeBlockedTrash :: "guard_env \<Rightarrow> (string, spec) fmap \<Rightarrow> string list trash_io" where
  "PurgeBlockedTrash env specs =
     andThen readIndex (\<lambda>index.
       let idx = (case index of None \<Rightarrow> fmempty | Some m \<Rightarrow> m)
       in andThen (read_tick TrashFault (\<lambda>d. Inr (fm_keys (td_trash d)))) (\<lambda>found.
          andThen (forEach (purgeBlockedEntry env specs) found (idx, [])) (\<lambda>(idx, purged).
            let stale = filter (\<lambda>k. k \<notin> set found \<and> \<not> safeTrashPath k) (fm_keys idx);
                purged = purged @ stale
            in if purged = [] then ret []
               else andThen (writeIndex (fold fmdrop stale idx)) (\<lambda>_. ret (sort purged)))))"

section \<open>Facts\<close>

lemma fault_moveToTrash:
  "fault_valid (\<lambda>d'. d' = d \<and> fmlookup (td_files d) p = Some c) (moveToTrash p)
     (\<lambda>_ d'. td_index d' = td_index d \<and> td_files d' = fmdrop p (td_files d) \<and> td_trash d' = fmupd p c (td_trash d))
     (\<lambda>d'. td_index d' = td_index d \<and> fmlookup (td_files d') p = Some c \<and> td_files d' = td_files d \<and>
        (td_trash d' = td_trash d \<or> td_trash d' = fmupd p c (td_trash d)))"
  (is "fault_valid ?P _ ?Q ?E")
proof -
  let ?R = "\<lambda>c' d'. d' = d \<and> fmlookup (td_files d) p = Some c \<and> c' = c"
  let ?W = "\<lambda>d'. td_index d' = td_index d \<and> td_files d' = td_files d \<and> fmlookup (td_files d) p = Some c \<and>
              td_trash d' = fmupd p c (td_trash d)"
  have rename: "fault_valid ?P (renameToTrash p) ?Q ?P"
    unfolding renameToTrash_def by (rule fault_tick) (auto split: option.splits)
  have read: "fault_valid ?P (readWorking p) ?R ?E"
    unfolding readWorking_def by (rule fault_read_tick) (auto split: option.splits)
  have put: "fault_valid (?R c') (writeTrash p c') (\<lambda>_. ?W) ?E" for c'
    unfolding writeTrash_def by (rule fault_tick) auto
  have drop: "fault_valid ?W (removeWorking p) ?Q ?E"
    unfolding removeWorking_def by (rule fault_tick) (auto split: if_splits)
  have copy: "fault_valid ?P (andThen (readWorking p) (\<lambda>c. andThen (writeTrash p c) (\<lambda>_. removeWorking p))) ?Q ?E"
    by (intro fault_andThen [OF read] fault_andThen [OF put] drop)
  show ?thesis unfolding moveToTrash_def
    by (rule fault_attempt [OF rename, where Q = ?Q]) (simp_all add: fault_ret copy)
qed

lemma fault_recordTrash:
  assumes "\<And>d d'. I d \<Longrightarrow> td_files d' = td_files d \<Longrightarrow> td_trash d' = td_trash d \<Longrightarrow> I d'"
  shows "fault_valid I (recordTrash now repoRel)
    (\<lambda>_ d'. I d' \<and> (\<exists>m. td_index d' = Some (IndexMap m) \<and> fmlookup m repoRel = Some now)) I"
proof -
  have "fault_valid I (tick TrashFault (\<lambda>d _. d) (\<lambda>d. (Inr (), d\<lparr>td_index := Some (IndexMap (fmupd repoRel now index))\<rparr>)))
     (\<lambda>_ d'. I d' \<and> (\<exists>m. td_index d' = Some (IndexMap m) \<and> fmlookup m repoRel = Some now)) I" for index :: "(string, int) fmap"
    by (rule fault_tick) (auto, rule assms, assumption, simp_all)
  then show ?thesis unfolding recordTrash_def
    by (rule fault_andThen [OF keeps_read_tick])
qed

lemma fm_keys_filter: "set (expiredKeys cutoff idx) = {k. \<exists>t. fmlookup idx k = Some t \<and> t \<le> cutoff}"
  by (force simp: expiredKeys_def fmlookup_dom_iff)

lemma expiredKeys_sorted: "sorted (expiredKeys cutoff idx)" "distinct (expiredKeys cutoff idx)"
  by (simp_all add: expiredKeys_def sorted_wrt_filter)

definition drop_safe :: "string list \<Rightarrow> trash_disk \<Rightarrow> trash_disk" where
  "drop_safe ks d = d\<lparr>td_trash := fmfilter (\<lambda>k. \<not> (k \<in> set ks \<and> safeTrashPath k)) (td_trash d)\<rparr>"

lemma run_purge_loop: "run (forEach purgeEntry ks purged) d = (Inr (purged @ ks), drop_safe ks d)"
proof (induction ks arbitrary: purged d)
  case Nil
  then show ?case by (simp add: drop_safe_def)
next
  case (Cons k ks)
  have step: "run (purgeEntry k purged) d = (Inr (purged @ [k]), drop_safe [k] d)"
    by (cases "safeTrashPath k")
      (auto simp: purgeEntry_def run_andThen removeTrashFile_def lawful_intros drop_safe_def fmfilter_alt_defs
        intro!: trash_disk.equality fmap_ext)
  have "lawful (purgeEntry k purged)" by (auto simp: purgeEntry_def removeTrashFile_def intro!: lawful_intros)
  moreover have "drop_safe ks (drop_safe [k] d) = drop_safe (k # ks) d"
  proof -
    have "fmfilter (\<lambda>x. \<not> (x \<in> set ks \<and> safeTrashPath x)) (fmfilter (\<lambda>x. \<not> (x \<in> set [k] \<and> safeTrashPath x)) m) =
        fmfilter (\<lambda>x. \<not> (x \<in> set (k # ks) \<and> safeTrashPath x)) m" for m :: "(string, string) fmap"
      by (rule fmap_ext) auto
    then show ?thesis by (cases d) (simp only: drop_safe_def trash_disk.simps)
  qed
  ultimately show ?case by (simp add: run_andThen step Cons.IH)
qed

lemma lookup_fold_fmdrop: "fmlookup (fold fmdrop ks m) k = (if k \<in> set ks then None else fmlookup m k)"
  by (induction ks arbitrary: m) auto

lemma run_writeIndex: "run (writeIndex m) d = (Inr (), d\<lparr>td_index := Some (IndexMap m)\<rparr>)"
  by (simp add: writeIndex_def)

lemma run_CleanupTrash:
  assumes "td_index d = Some (IndexMap idx)" and ks: "ks = expiredKeys (cutoffAt now graceDays) idx"
  shows "run (CleanupTrash now graceDays) d =
    (Inr ks, (drop_safe ks d)\<lparr>td_index := Some (IndexMap (fold fmdrop ks idx))\<rparr>)"
proof -
  have lawful: "lawful readIndex" "lawful (forEach purgeEntry ks [])" "lawful (writeIndex m)" for m
    by (auto simp: readIndex_def writeIndex_def purgeEntry_def removeTrashFile_def intro!: lawful_intros)
  have empty: "drop_safe [] d = d" "d\<lparr>td_index := Some (IndexMap idx)\<rparr> = d"
    using assms(1) by (simp_all add: drop_safe_def)
  have sorted: "sort ks = ks" using expiredKeys_sorted(1) ks by (simp add: sort_key_id_if_sorted)
  have "run readIndex d = (Inr (Some idx), d)" by (simp add: readIndex_def assms(1))
  then have "run (CleanupTrash now graceDays) d =
      run (if ks = [] then ret [] else andThen (writeIndex (fold fmdrop ks idx)) (\<lambda>_. ret (sort ks))) (drop_safe ks d)"
    by (simp add: CleanupTrash_def run_andThen lawful run_purge_loop ks [symmetric] del: if_split)
  then show ?thesis
    using empty by (auto simp: run_andThen lawful sorted run_writeIndex)
qed

section \<open>Properties\<close>

text \<open>A period of at most 106751 days fits the 64-bit duration; one day more wraps.\<close>

lemma cutoffAt_in_range:
  assumes "0 \<le> graceDays" "graceDays \<le> 106751"
  shows "cutoffAt now graceDays = now div 10 ^ 9 - graceDays * 86400"
proof -
  have "graceDuration graceDays = word_of_int (- (graceDays * 86400000000000))"
    by (simp add: graceDuration_def)
  then have "sint (graceDuration graceDays) = signed_take_bit 63 (- (graceDays * 86400000000000))"
    by (simp only: sint_sbintrunc') simp
  also have "\<dots> = - (graceDays * 86400000000000)"
    using assms by (intro signed_take_bit_int_eq_self) auto
  finally show ?thesis
    using div_mult_self2 [of "10 ^ 9" now "- (graceDays * 86400)"] by (simp add: cutoffAt_def algebra_simps)
qed

text \<open>Cleaning the trash without faults removes exactly the files whose recorded deletion is at least the grace
  period old (for periods up to 106751 days): it returns their keys in order, deletes their backing
  files when the key is a safe path, forgets them in the index, and leaves everything else as it was.\<close>

lemma cleanup_purges_exactly_expired:
  assumes "td_index d = Some (IndexMap idx)" and "0 \<le> graceDays" "graceDays \<le> 106751"
  shows "\<exists>ks idx' d'. run (CleanupTrash now graceDays) d = (Inr ks, d') \<and> sorted ks \<and> distinct ks \<and>
    set ks = {k. \<exists>t. fmlookup idx k = Some t \<and> t + graceDays * 86400 \<le> now div 10 ^ 9} \<and>
    td_index d' = Some (IndexMap idx') \<and>
    fmlookup idx' = (\<lambda>k. if k \<in> set ks then None else fmlookup idx k) \<and>
    fmlookup (td_trash d') = (\<lambda>k. if k \<in> set ks \<and> safeTrashPath k then None else fmlookup (td_trash d) k) \<and>
    td_files d' = td_files d"
proof -
  let ?ks = "expiredKeys (cutoffAt now graceDays) idx"
  have "set ?ks = {k. \<exists>t. fmlookup idx k = Some t \<and> t + graceDays * 86400 \<le> now div 10 ^ 9}"
    unfolding fm_keys_filter cutoffAt_in_range [OF assms(2,3)] by (simp add: le_diff_eq)
  then show ?thesis
    using run_CleanupTrash [OF assms(1) refl, of now graceDays]
    by (intro exI [of _ ?ks] exI [of _ "fold fmdrop ?ks idx"])
      (auto simp: expiredKeys_sorted fun_eq_iff lookup_fold_fmdrop drop_safe_def)
qed

text \<open>The grace period wraps: with 106752 days (292 years), which the configuration accepts, the 64-bit
  duration turns negative, the cutoff lies in the future, and cleaning purges every file of the
  trash, the ones deleted this second included.\<close>

lemma huge_grace_purges_everything:
  assumes "td_index d = Some (IndexMap idx)" and "\<forall>k t. fmlookup idx k = Some t \<longrightarrow> t \<le> now div 10 ^ 9"
  shows "fst (run (CleanupTrash now 106752) d) = Inr (fm_keys idx)"
proof -
  have w: "sint (graceDuration 106752) = 9223371273709551616" by (simp add: graceDuration_def)
  have "t \<le> cutoffAt now 106752" if k: "fmlookup idx k = Some t" for k t
    using assms(2) k by (force simp: cutoffAt_def w)
  then have "expiredKeys (cutoffAt now 106752) idx = fm_keys idx"
    by (auto simp: expiredKeys_def filter_id_conv fmlookup_dom_iff)
  then show ?thesis using run_CleanupTrash [OF assms(1) refl, of now 106752] by simp
qed

text \<open> C31. Soft deletion never loses a file: whatever fails and whenever the process dies, its content is still in
  the working tree or in the trash and no other file moves; a normal return means it is in the trash,
  gone from the working tree, and recorded with the time of the deletion. \<close>

theorem soft_delete_loses_nothing:
  assumes "guardPath repoRel = Inr p" and "fmlookup (td_files d) p = Some c"
    and "SoftDeleteRemote now repoRel (boot d fs) = (r, w)"
  shows "(fmlookup (td_files (w_disk w)) p = Some c \<or> fmlookup (td_trash (w_disk w)) p = Some c) \<and>
    (\<forall>q. q \<noteq> p \<longrightarrow> fmlookup (td_files (w_disk w)) q = fmlookup (td_files d) q \<and>
                   fmlookup (td_trash (w_disk w)) q = fmlookup (td_trash d) q) \<and>
    (r = Inr () \<longrightarrow> fmlookup (td_files (w_disk w)) p = None \<and> fmlookup (td_trash (w_disk w)) p = Some c \<and>
       (\<exists>m. td_index (w_disk w) = Some (IndexMap m) \<and> fmlookup m repoRel = Some now))"
proof -
  let ?I = "\<lambda>d'. (fmlookup (td_files d') p = Some c \<or> fmlookup (td_trash d') p = Some c) \<and>
    (\<forall>q. q \<noteq> p \<longrightarrow> fmlookup (td_files d') q = fmlookup (td_files d) q \<and> fmlookup (td_trash d') q = fmlookup (td_trash d) q)"
  let ?M = "\<lambda>d'. td_files d' = fmdrop p (td_files d) \<and> td_trash d' = fmupd p c (td_trash d)"
  let ?Q = "\<lambda>_ d'. ?M d' \<and> (\<exists>m. td_index d' = Some (IndexMap m) \<and> fmlookup m repoRel = Some now)"
  let ?P = "\<lambda>d'. d' = d \<and> fmlookup (td_files d) p = Some c"
  have ends: "\<And>d'. ?P d' \<Longrightarrow> ?I d'" "\<And>d'. ?M d' \<Longrightarrow> ?I d'" by auto
  have found: "fault_valid ?P (read_tick TrashFault (\<lambda>d. Inr (fmlookup (td_files d) p))) (\<lambda>f d'. f = Some c \<and> ?P d') ?I"
    by (rule fault_read_tick) auto
  have mk: "fault_valid ?P makeTrashParent (\<lambda>_. ?P) ?I"
    unfolding makeTrashParent_def by (rule fault_tick) auto
  have move: "fault_valid ?P (moveToTrash p) (\<lambda>_. ?M) ?I"
    by (rule fault_weaken [OF fault_moveToTrash]) auto
  have rec: "fault_valid ?M (recordTrash now repoRel) ?Q ?I"
    by (rule fault_weaken [OF fault_recordTrash [of ?M]]) auto
  have "fault_valid (\<lambda>d'. f = Some c \<and> ?P d') (if f = None then ret ()
            else andThen makeTrashParent (\<lambda>_. andThen (moveToTrash p) (\<lambda>_. recordTrash now repoRel))) ?Q ?I" for f
    by (rule fault_if, rule fault_pre_False, simp,
        rule fault_weaken [OF fault_andThen [OF mk fault_andThen [OF move rec]]]) simp_all
  then have "fault_valid ?P (andThen (read_tick TrashFault (\<lambda>d. Inr (fmlookup (td_files d) p))) (\<lambda>found.
            if found = None then ret ()
            else andThen makeTrashParent (\<lambda>_. andThen (moveToTrash p) (\<lambda>_. recordTrash now repoRel)))) ?Q ?I"
    by (rule fault_andThen [OF found])
  then have V: "fault_valid ?P (SoftDeleteRemote now repoRel) ?Q ?I" by (simp add: SoftDeleteRemote_def assms(1))
  have start: "?P (w_disk (boot d fs))" using assms(2) by (simp add: boot_def)
  show ?thesis
  proof (cases r)
    case (Inl e)
    then show ?thesis using fault_validD(2) [OF V start assms(3) Inl] by simp
  next
    case (Inr u)
    from fault_validD(1) [OF V start assms(3) Inr] show ?thesis by auto
  qed
qed

definition demo_trash :: trash_disk where
  "demo_trash = \<lparr>td_files = fmap_of_list [(''agents/claude/skills/s/a.md'', ''text'')],
     td_trash = fmap_of_list [(''agents/claude/skills/s/old.md'', ''old'')],
     td_index = Some (IndexMap (fmap_of_list [(''agents/claude/skills/s/old.md'', 100)]))\<rparr>"

lemma cleanup_purges_exactly_expired_witness:
  "\<exists>ks d'. run (CleanupTrash (3000000 * 10 ^ 9) 30) demo_trash = (Inr ks, d') \<and>
     set ks = {k. \<exists>t. fmlookup (fmap_of_list [(''agents/claude/skills/s/old.md'', 100)]) k = Some t \<and> t + 30 * 86400 \<le> (3000000::int)}"
proof -
  have i: "td_index demo_trash = Some (IndexMap (fmap_of_list [(''agents/claude/skills/s/old.md'', 100)]))"
    by (simp add: demo_trash_def)
  show ?thesis using cleanup_purges_exactly_expired [OF i, of 30 "3000000 * 10 ^ 9"] by fastforce
qed

lemma huge_grace_purges_everything_witness:
  "fst (run (CleanupTrash (100 * 10 ^ 9) 106752) demo_trash) = Inr [''agents/claude/skills/s/old.md'']"
proof -
  have i: "td_index demo_trash = Some (IndexMap (fmap_of_list [(''agents/claude/skills/s/old.md'', 100)]))"
    by (simp add: demo_trash_def)
  have k: "fm_keys (fmap_of_list [(''agents/claude/skills/s/old.md'', 100::int)]) = [''agents/claude/skills/s/old.md'']" by code_simp
  show ?thesis unfolding k [symmetric] by (rule huge_grace_purges_everything [OF i]) (simp add: fmlookup_of_list)
qed

lemma soft_delete_loses_nothing_witness:
  "\<exists>r w. SoftDeleteRemote 7 ''agents/claude/skills/s/a.md'' (boot demo_trash [Works, Works, Fails [], Works, Works, Dies []]) = (r, w) \<and>
     fmlookup (td_trash (w_disk w)) ''agents/claude/skills/s/a.md'' = Some ''text'' \<and>
     fmlookup (td_trash (w_disk w)) ''agents/claude/skills/s/old.md'' = Some ''old''"
proof -
  let ?p = "''agents/claude/skills/s/a.md''" and ?fs = "[Works, Works, Fails [], Works, Works, Dies []]"
  have g: "guardPath ?p = Inr ?p" by code_simp
  have f: "fmlookup (td_files demo_trash) ?p = Some ''text''" by code_simp
  obtain r w where run: "SoftDeleteRemote 7 ?p (boot demo_trash ?fs) = (r, w)" by fastforce
  have t: "fmlookup (td_trash (w_disk (snd (SoftDeleteRemote 7 ?p (boot demo_trash ?fs))))) ?p = Some ''text''" by code_simp
  have "fmlookup (td_trash (w_disk w)) ''agents/claude/skills/s/old.md'' = fmlookup (td_trash demo_trash) ''agents/claude/skills/s/old.md''"
    using soft_delete_loses_nothing [OF g f run] by auto
  then show ?thesis using run t by (auto simp: demo_trash_def fmlookup_of_list)
qed

end
