(* ===== verification/Desktop_Settings.thy ===== *)
theory Desktop_Settings
  imports Provider_Config Scheduler_Machine Trash
begin

text \<open>
  Saving the settings of the desktop application (\<open>internal/desktop/service.go\<close>): the checks, the move of the local
  repository to another directory, the settings file, and the daemon that picks the settings up.  The disk and the
  memory of the service are one state, and every operation on the disk may fail or be the one the process dies at.
  Cloning a repository is git's work and a parameter.  Shown here: what a saved configuration satisfies, that the
  daemon follows it, and that no outcome loses the local repository.
\<close>

section \<open>State\<close>

text \<open>A daemon is its scheduler and whether it starts with a synchronization.  Directories that hold a repository are
  keyed by their cleaned path, and none of them is empty.\<close>

record daemon_run =
  dr_scheduler :: sched
  dr_autoTrigger :: bool

record 'r service =
  sv_config :: "config stored option"
  sv_repos :: "(string, 'r) fmap"
  sv_generation :: nat
  sv_preview :: bool
  sv_daemon :: "daemon_run option"
  sv_now :: int

record 'r settings_env =
  se_home :: string
  se_goos :: string
  se_host :: string
  se_userHome :: "string option"
  se_clone :: "string \<Rightarrow> string \<Rightarrow> 'r option \<Rightarrow> string + 'r"
  se_halfClone :: 'r

record settings_input =
  si_repoURL :: string
  si_repoDir :: string
  si_pathMode :: string
  si_strategy :: string
  si_choiceRequired :: bool
  si_interval :: int
  si_trashDays :: int
  si_agents :: "(string, bool) fmap"
  si_categories :: "(string, (string, bool) fmap) fmap option"
  si_custom :: "custom_resource list option"

datatype settings_error =
    BadInterval
  | BadRetention
  | NoSettings
  | UnreadableSettings
  | NoUserHome
  | BadRepoMode string
  | UnresolvedRepo resolver_error
  | RepoExists string
  | MigrationFailed
  | CloneFailed string
  | BadSettings config_error
  | SaveFailed
  | PreviewNotCleared
  | DaemonNotStarted
  | NotConfigured

type_synonym ('r, 'a) service_io = "('r service, settings_error, 'a) io"

definition inMemory :: "settings_error \<Rightarrow> ('r service \<Rightarrow> 'r service) \<Rightarrow> ('r, unit) service_io" where
  "inMemory e f w = (if w_dead w then (Inl e, w) else (Inr (), w\<lparr>w_disk := f (w_disk w)\<rparr>))"

section \<open>Checks\<close>

definition validateTimingSettings :: "int \<Rightarrow> int \<Rightarrow> settings_error option" where
  "validateTimingSettings interval days =
     (if interval < 1 \<or> interval > 24 * 60 then Some BadInterval
      else if days < 1 \<or> days > 365 then Some BadRetention else None)"

definition validateRepoPathMode :: "string \<Rightarrow> settings_error option" where
  "validateRepoPathMode mode =
     (if trim_space mode \<in> {[], ''reclone'', ''migrate''} then None else Some (BadRepoMode mode))"

definition validateFirstSyncStrategy :: "string \<Rightarrow> settings_error option" where
  "validateFirstSyncStrategy s =
     (if s \<in> set [[], ''choose'', ''use-cloud'', ''merge-cloud-local'', ''use-local''] then None
      else Some (BadSettings (BadFirstSync s)))"

text \<open>\<open>filepath.Clean\<close> on Windows compares slashes and backslashes alike, and \<open>EqualFold\<close> letters of either case.\<close>

definition sameDirectory :: "string \<Rightarrow> string \<Rightarrow> string \<Rightarrow> bool" where
  "sameDirectory host l r =
     (if host = windows then to_lower (path_clean (to_slash l)) = to_lower (path_clean (to_slash r))
      else path_clean l = path_clean r)"

definition resolveRepoDir :: "'r settings_env \<Rightarrow> config \<Rightarrow> settings_error + string" where
  "resolveRepoDir env c =
     (case se_userHome env of None \<Rightarrow> Inl NoUserHome | Some u \<Rightarrow>
      case ResolveRepoDir (se_home env) c (se_goos env) u of Inl e \<Rightarrow> Inl (UnresolvedRepo e) | Inr r \<Rightarrow> Inr r)"

section \<open>What is saved\<close>

text \<open>The zero value of the settings, which \<open>Load\<close> returns with an error.\<close>

definition noSettings :: config where
  "noSettings = \<lparr>cfg_version = 0, cfg_repoURL = [], cfg_repoDir = [], cfg_interval = 0, cfg_trashGraceDays = 0,
     cfg_agents = fmempty, cfg_categories = fmempty, cfg_custom = [], cfg_firstSync = \<lparr>fs_strategy = [], fs_completed = False\<rparr>\<rparr>"

definition requestedDir :: "settings_input \<Rightarrow> config \<Rightarrow> string" where
  "requestedDir i existing = (let d = trim_space (si_repoDir i) in if d = [] then cfg_repoDir existing else d)"

definition requestedCustom :: "settings_input \<Rightarrow> config \<Rightarrow> custom_resource list" where
  "requestedCustom i existing = (case si_custom i of None \<Rightarrow> cfg_custom existing | Some cs \<Rightarrow> cs)"

definition requestedFirstSync :: "settings_input \<Rightarrow> first_sync \<Rightarrow> first_sync" where
  "requestedFirstSync i p =
     (let s = trim_space (si_strategy i) in
      if si_choiceRequired i then \<lparr>fs_strategy = (if s = [] then ''choose'' else s), fs_completed = False\<rparr>
      else if s \<noteq> [] then \<lparr>fs_strategy = s, fs_completed = False\<rparr> else p)"

definition settledFirstSync :: "settings_input \<Rightarrow> first_sync \<Rightarrow> first_sync" where
  "settledFirstSync i p =
     (if fs_strategy p = ''choose'' \<and> \<not> si_choiceRequired i then p\<lparr>fs_completed := False\<rparr>
      else if fs_strategy p = [] \<and> \<not> fs_completed p then p\<lparr>fs_completed := True\<rparr> else p)"

definition persistedRepoDir :: "'r settings_env \<Rightarrow> string \<Rightarrow> string" where
  "persistedRepoDir env r =
     (if sameDirectory (se_host env) r (defaultRepoDir (se_home env)) then []
      else case se_userHome env of None \<Rightarrow> r
      | Some u \<Rightarrow> (case TokenizeHome r (se_goos env) u of (t, ok) \<Rightarrow> if ok then t else r))"

definition newSettings :: "'r settings_env \<Rightarrow> settings_input \<Rightarrow> config \<Rightarrow> string \<Rightarrow> config" where
  "newSettings env i existing r =
     \<lparr>cfg_version = 0, cfg_repoURL = si_repoURL i, cfg_repoDir = persistedRepoDir env r, cfg_interval = si_interval i,
      cfg_trashGraceDays = si_trashDays i, cfg_agents = si_agents i,
      cfg_categories = (case si_categories i of None \<Rightarrow> cfg_categories existing | Some m \<Rightarrow> m),
      cfg_custom = requestedCustom i existing,
      cfg_firstSync = settledFirstSync i (requestedFirstSync i (cfg_firstSync existing))\<rparr>"

section \<open>Operations\<close>

definition loadSettings :: "('r, config option) service_io" where
  "loadSettings = read_tick UnreadableSettings (\<lambda>s.
     case sv_config s of None \<Rightarrow> Inr None | Some Corrupt \<Rightarrow> Inl UnreadableSettings | Some (Stored c) \<Rightarrow> Inr (Some (migrateConfig c)))"

text \<open>Renaming needs the source, an absent target, and a target that is not inside the source.\<close>

definition renameRepo :: "string \<Rightarrow> string \<Rightarrow> ('r, unit) service_io" where
  "renameRepo a b = tick MigrationFailed (\<lambda>s _. s) (\<lambda>s.
     case fmlookup (sv_repos s) a of None \<Rightarrow> (Inl MigrationFailed, s)
     | Some x \<Rightarrow>
         if fmlookup (sv_repos s) b \<noteq> None \<or> prefix (a @ ''/'') b then (Inl MigrationFailed, s)
         else (Inr (), s\<lparr>sv_repos := fmupd b x (fmdrop a (sv_repos s))\<rparr>))"

definition recloneRepo :: "'r settings_env \<Rightarrow> string \<Rightarrow> string \<Rightarrow> ('r, unit) service_io" where
  "recloneRepo env url b = tick (CloneFailed url)
     (\<lambda>s ns. if ns = [] then s else s\<lparr>sv_repos := fmupd b (se_halfClone env) (sv_repos s)\<rparr>)
     (\<lambda>s. case se_clone env url b (fmlookup (sv_repos s) b) of Inl e \<Rightarrow> (Inl (CloneFailed e), s)
      | Inr x \<Rightarrow> (Inr (), s\<lparr>sv_repos := fmupd b x (sv_repos s)\<rparr>))"

text \<open>A \<open>Stat\<close> that fails for any reason counts as an absent target.\<close>

definition applyRepoDirChange :: "'r settings_env \<Rightarrow> string \<Rightarrow> string \<Rightarrow> string \<Rightarrow> string \<Rightarrow> ('r, unit) service_io" where
  "applyRepoDirChange env url a b mode0 =
     (let mode = (if mode0 = [] then ''reclone'' else mode0) in
      if mode = ''migrate'' then
        andThen (read_tick MigrationFailed (\<lambda>_. Inr ())) (\<lambda>_.
        attempt (read_tick MigrationFailed (\<lambda>s. Inr (fmlookup (sv_repos s) b \<noteq> None))) (\<lambda>present.
        if present = Inr True then raise (RepoExists b) else renameRepo a b))
      else if mode = ''reclone'' then recloneRepo env url b
      else raise (BadRepoMode mode))"

text \<open>\<open>os.WriteFile\<close> truncates the file before it writes.\<close>

definition saveSettingsFile :: "config \<Rightarrow> ('r, unit) service_io" where
  "saveSettingsFile c =
     (case savedConfig c of Inl e \<Rightarrow> raise (BadSettings e)
      | Inr d \<Rightarrow> andThen (read_tick SaveFailed (\<lambda>_. Inr ())) (\<lambda>_.
          tick SaveFailed (\<lambda>s ns. if ns = [] then s else s\<lparr>sv_config := Some Corrupt\<rparr>)
            (\<lambda>s. (Inr (), s\<lparr>sv_config := Some (Stored d)\<rparr>))))"

definition invalidateSavedPreview :: "('r, unit) service_io" where
  "invalidateSavedPreview =
     andThen (inMemory PreviewNotCleared (\<lambda>s. s\<lparr>sv_generation := Suc (sv_generation s)\<rparr>)) (\<lambda>_.
     tick PreviewNotCleared (\<lambda>s _. s) (\<lambda>s. (Inr (), s\<lparr>sv_preview := False\<rparr>)))"

definition minutes :: "int \<Rightarrow> int" where
  "minutes n = n * (60 * 10 ^ 9)"

definition newDaemon :: "('r, sched) service_io" where
  "newDaemon = andThen loadSettings (\<lambda>c. case c of None \<Rightarrow> raise NoSettings | Some c \<Rightarrow>
     read_tick DaemonNotStarted (\<lambda>s. Inr (NewScheduler (minutes (cfg_interval c)) (sv_now s))))"

definition undecided :: "first_sync \<Rightarrow> bool" where
  "undecided p \<longleftrightarrow> fs_strategy p = ''choose'' \<and> \<not> fs_completed p"

definition startDaemon :: "('r, unit) service_io" where
  "startDaemon =
     andThen (read_tick DaemonNotStarted (\<lambda>s. Inr (sv_daemon s))) (\<lambda>d. if d \<noteq> None then ret () else
     andThen loadSettings (\<lambda>c. case c of None \<Rightarrow> raise NoSettings | Some c \<Rightarrow>
     andThen newDaemon (\<lambda>sched.
     inMemory DaemonNotStarted (\<lambda>s. s\<lparr>sv_daemon := Some \<lparr>dr_scheduler = sched, dr_autoTrigger = \<not> undecided (cfg_firstSync c)\<rparr>\<rparr>))))"

definition onScheduler :: "(sched \<Rightarrow> sched) \<Rightarrow> 'r service \<Rightarrow> 'r service" where
  "onScheduler f s = s\<lparr>sv_daemon := map_option (\<lambda>d. d\<lparr>dr_scheduler := f (dr_scheduler d)\<rparr>) (sv_daemon s)\<rparr>"

definition controlScheduler :: "(sched \<Rightarrow> sched) \<Rightarrow> ('r, unit) service_io" where
  "controlScheduler f w =
     (if w_dead w \<or> sv_daemon (w_disk w) = None then (Inl NotConfigured, w) else (Inr (), w\<lparr>w_disk := onScheduler f (w_disk w)\<rparr>))"

definition TriggerSync :: "('r, unit) service_io" where
  "TriggerSync = controlScheduler Trigger"

definition PauseSync :: "('r, unit) service_io" where
  "PauseSync = controlScheduler Pause"

definition ResumeSync :: "('r, unit) service_io" where
  "ResumeSync = controlScheduler Resume"

text \<open>The second half of \<open>SaveSettings\<close>: the file, the preview and the daemon; then everything after both directories
  are known.\<close>

definition putInForce :: "settings_input \<Rightarrow> config \<Rightarrow> ('r, unit) service_io" where
  "putInForce i new =
     andThen (saveSettingsFile new) (\<lambda>_. andThen invalidateSavedPreview (\<lambda>_. andThen startDaemon (\<lambda>_.
     andThen (controlScheduler (SetInterval (minutes (si_interval i)))) (\<lambda>_.
     if undecided (cfg_firstSync new) then ret () else TriggerSync))))"

definition changeSettings :: "'r settings_env \<Rightarrow> settings_input \<Rightarrow> config \<Rightarrow> string \<Rightarrow> string \<Rightarrow> ('r, unit) service_io" where
  "changeSettings env i existing a b =
     andThen (if sameDirectory (se_host env) a b then ret ()
              else applyRepoDirChange env (si_repoURL i) a b (trim_space (si_pathMode i))) (\<lambda>_.
     case ValidateCustomResources (requestedCustom i existing) of Some e \<Rightarrow> raise (BadSettings e) | None \<Rightarrow>
     case validateFirstSyncStrategy (fs_strategy (requestedFirstSync i (cfg_firstSync existing))) of Some e \<Rightarrow> raise e | None \<Rightarrow>
     putInForce i (newSettings env i existing b))"

definition SaveSettings :: "'r settings_env \<Rightarrow> settings_input \<Rightarrow> ('r, unit) service_io" where
  "SaveSettings env i =
     (case validateTimingSettings (si_interval i) (si_trashDays i) of Some e \<Rightarrow> raise e | None \<Rightarrow>
      andThen loadSettings (\<lambda>found. let existing = (case found of None \<Rightarrow> noSettings | Some c \<Rightarrow> c) in
      case validateRepoPathMode (si_pathMode i) of Some e \<Rightarrow> raise e | None \<Rightarrow>
      case resolveRepoDir env existing of Inl e \<Rightarrow> raise e | Inr a \<Rightarrow>
      case resolveRepoDir env (noSettings\<lparr>cfg_repoDir := requestedDir i existing\<rparr>) of Inl e \<Rightarrow> raise e | Inr b \<Rightarrow>
      changeSettings env i existing a b))"

section \<open>The directory that is saved\<close>

text \<open>A directory is stable when naming it in the settings means that very directory.\<close>

definition stableDir :: "'r settings_env \<Rightarrow> string \<Rightarrow> bool" where
  "stableDir env r \<longleftrightarrow> se_goos env \<noteq> windows \<and> se_host env \<noteq> windows \<and> CHR 0x5C \<notin> set r \<and>
     resolveRepoDir env (noSettings\<lparr>cfg_repoDir := r\<rparr>) = Inr r"

lemma resolveRepoDir_cong: "cfg_repoDir c = cfg_repoDir d \<Longrightarrow> resolveRepoDir env c = resolveRepoDir env d"
  unfolding resolveRepoDir_def ResolveRepoDir_def by (rule option.case_cong) simp_all

lemma trim_token: "trim_space (HomeToken @ s) \<noteq> []"
proof
  assume "trim_space (HomeToken @ s) = []"
  from trim_space_Nil_cases [OF this] show False
    by (auto simp: HomeToken_def starts_with_space_def go_spaces_def)
qed

lemma expand_tokenized:
  assumes "TokenizeHome v goos u = (t, True)" and "goos \<noteq> windows" and "CHR 0x5C \<notin> set v"
  shows "ExpandHomeToken t goos u = Inr v"
proof -
  obtain hn rest where r: "normalizePortablePath u goos = Inr hn" "t = HomeToken @ below rest" "to_slash v = hn @ below rest"
    using tokenized_shape [OF assms(1)] assms(2) by metis
  have v: "v = hn @ below rest" using r(3) assms(3) by (simp add: replace_char_id)
  show ?thesis
  proof (cases "hn = ''/''")
    case False
    from tokens_travel [OF assms(1) r(1) False] assms(2) r(1) obtain rest'
      where e: "to_slash v = hn @ below rest'" "ExpandHomeToken t goos u = Inr (hn @ below rest')" by auto
    then show ?thesis using assms(3) by (simp add: replace_char_id)
  next
    case True
    obtain vn where n: "normalizePortablePath v goos = Inr vn" using assms(1) by (auto simp: TokenizeHome_def split: sum.splits)
    have "rest = []"
    proof (rule ccontr)
      assume "rest \<noteq> []"
      then have "sublist ''//'' (to_slash v)" using True r(3)
        by (cases rest) (auto simp: sublist_def intro: exI [of _ "[] :: string"])
      then show False using n by (auto simp: normalizePortablePath_def Let_def split: if_splits)
    qed
    then have tv: "t = HomeToken" "v = ''/''" using r(2) v True by simp_all
    have slash: "to_slash ''/'' = ''/''" "trim_space ''/'' \<noteq> []" by code_simp+
    have root: "normalizePortablePath ''/'' goos = Inr ''/''"
      using r(1) True normalize_shape(1) [OF r(1)] slash
      by (auto simp: normalizePortablePath_def Let_def split: if_splits)
    have "trim_prefix HomeToken HomeToken = []" using trim_prefix_append [of HomeToken "[]"] by simp
    then show ?thesis using r(1) True assms(2) root by (simp add: ExpandHomeToken_def tv replace_char_def)
  qed
qed

lemma persisted_resolves:
  assumes "stableDir env r"
  shows "\<exists>q. resolveRepoDir env (newSettings env i c r) = Inr q \<and> sameDirectory (se_host env) r q"
proof (cases "sameDirectory (se_host env) r (defaultRepoDir (se_home env))")
  case True
  then show ?thesis using assms
    by (auto simp: stableDir_def resolveRepoDir_def ResolveRepoDir_def newSettings_def persistedRepoDir_def split: option.splits)
next
  case False
  obtain u where u: "se_userHome env = Some u" using assms by (auto simp: stableDir_def resolveRepoDir_def split: option.splits)
  obtain t ok where t: "TokenizeHome r (se_goos env) u = (t, ok)" by fastforce
  have s: "se_goos env \<noteq> windows" "CHR 0x5C \<notin> set r" "resolveRepoDir env (noSettings\<lparr>cfg_repoDir := r\<rparr>) = Inr r"
    using assms by (simp_all add: stableDir_def)
  have dir: "cfg_repoDir (newSettings env i c r) = (if ok then t else r)"
    using False u t by (simp add: newSettings_def persistedRepoDir_def)
  have same: "sameDirectory (se_host env) r r" by (simp add: sameDirectory_def)
  show ?thesis
  proof (cases ok)
    case False
    then have "resolveRepoDir env (newSettings env i c r) = Inr r" using s(3) dir
      by (subst resolveRepoDir_cong [of _ "noSettings\<lparr>cfg_repoDir := r\<rparr>"]) simp_all
    then show ?thesis using same by blast
  next
    case True
    have t': "TokenizeHome r (se_goos env) u = (t, True)" using t True by simp
    note e = expand_tokenized [OF t' s(1,2)]
    obtain rest where tok: "t = HomeToken @ rest" using tokenized_shape [OF t'] by metis
    have "isTargetAbsolute (to_slash r) (se_goos env)"
      using t True by (auto simp: TokenizeHome_def normalizePortablePath_def Let_def split: sum.splits if_splits)
    then have "prefix ''/'' r" using s(1,2) by (simp add: isTargetAbsolute_def replace_char_id)
    then have "ExpandHomeToken r (se_goos env) u = Inr r" by (auto simp: ExpandHomeToken_def HomeToken_def prefix_def)
    then have "trim_space r = [] \<and> defaultRepoDir (se_home env) = r \<or> ResolveFor r (se_goos env) u = Inr r"
      using s(3) u by (auto simp: resolveRepoDir_def ResolveRepoDir_def split: if_splits sum.splits)
    then have "ResolveFor r (se_goos env) u = Inr r" using False same by auto
    then have "resolveRepoDir env (newSettings env i c r) = Inr r"
      using dir True e u trim_token [of rest] by (simp add: resolveRepoDir_def ResolveRepoDir_def tok)
    then show ?thesis using same by blast
  qed
qed

section \<open>Saving\<close>

definition existingSettings :: "'r service \<Rightarrow> config" where
  "existingSettings s = (case sv_config s of Some (Stored c) \<Rightarrow> migrateConfig c | _ \<Rightarrow> noSettings)"

text \<open>The content of the old directory is at the old place or at the new one.\<close>

definition repoKept :: "string \<Rightarrow> string \<Rightarrow> 'r \<Rightarrow> 'r service \<Rightarrow> bool" where
  "repoKept a b x s \<longleftrightarrow> fmlookup (sv_repos s) a = Some x \<or> fmlookup (sv_repos s) b = Some x"

text \<open>The running daemon follows the saved settings.\<close>

definition followed :: "settings_input \<Rightarrow> config \<Rightarrow> daemon_run \<Rightarrow> bool" where
  "followed i d r \<longleftrightarrow> sc_interval (dr_scheduler r) = minutes (si_interval i) \<and>
     (undecided (cfg_firstSync d) \<or> sc_trigger (dr_scheduler r) \<or> sc_running (dr_scheduler r) \<and> sc_cancelled (dr_scheduler r))"

lemma repoKept_simps [simp]:
  "repoKept a b x (s\<lparr>sv_config := c\<rparr>) = repoKept a b x s"
  "repoKept a b x (s\<lparr>sv_generation := n\<rparr>) = repoKept a b x s"
  "repoKept a b x (s\<lparr>sv_preview := v\<rparr>) = repoKept a b x s"
  "repoKept a b x (s\<lparr>sv_daemon := m\<rparr>) = repoKept a b x s"
  "repoKept a b x (onScheduler f s) = repoKept a b x s"
  by (simp_all add: repoKept_def onScheduler_def)

lemma fault_inMemory:
  assumes "\<And>s. P s \<Longrightarrow> Q (f s)" "\<And>s. P s \<Longrightarrow> E s"
  shows "fault_valid P (inMemory e f) (\<lambda>_. Q) E"
  using assms by (simp add: fault_valid_def inMemory_def)

lemma fault_controlScheduler:
  assumes "\<And>s. P s \<Longrightarrow> sv_daemon s \<noteq> None \<Longrightarrow> Q (onScheduler f s)" "\<And>s. P s \<Longrightarrow> E s"
  shows "fault_valid P (controlScheduler f) (\<lambda>_. Q) E"
  using assms by (simp add: fault_valid_def controlScheduler_def)

lemma fault_loadSettings:
  assumes "\<And>s. P s \<Longrightarrow> E s"
  shows "fault_valid P loadSettings (\<lambda>found s. P s \<and> (case found of None \<Rightarrow> noSettings | Some c \<Rightarrow> c) = existingSettings s) E"
  unfolding loadSettings_def by (rule fault_read_tick) (auto simp: existingSettings_def assms split: option.splits stored.splits)

lemma fault_move:
  assumes "a \<noteq> b"
  shows "fault_valid (\<lambda>s. fmlookup (sv_repos s) a = Some x) (applyRepoDirChange env url a b mode) (\<lambda>_. repoKept a b x) (repoKept a b x)"
proof -
  let ?P = "\<lambda>s. fmlookup (sv_repos s) a = Some x"
  have P: "?P s \<Longrightarrow> repoKept a b x s" for s by (simp add: repoKept_def)
  have rename: "fault_valid ?P (renameRepo a b) (\<lambda>_. repoKept a b x) (repoKept a b x)"
    unfolding renameRepo_def by (rule fault_tick) (auto simp: repoKept_def split: option.splits if_splits sum.splits)
  have clone: "fault_valid ?P (recloneRepo env url b) (\<lambda>_. repoKept a b x) (repoKept a b x)"
    unfolding recloneRepo_def using assms
    by (intro fault_tick) (auto simp: repoKept_def split: option.splits if_splits sum.splits)
  have probe: "fault_valid ?P (read_tick MigrationFailed f) (\<lambda>_. ?P) ?P" for f :: "'a service \<Rightarrow> settings_error + 'd"
    by (rule fault_read_tick) simp_all
  have migrate: "fault_valid ?P (andThen (read_tick MigrationFailed (\<lambda>_. Inr ())) (\<lambda>_.
      attempt (read_tick MigrationFailed (\<lambda>s. Inr (fmlookup (sv_repos s) b \<noteq> None))) (\<lambda>present.
      if present = Inr True then raise (RepoExists b) else renameRepo a b))) (\<lambda>_. repoKept a b x) (repoKept a b x)"
    by (intro fault_andThen [where R = "\<lambda>_. ?P"] fault_attempt [where R = "\<lambda>_. ?P" and F = ?P] fault_if fault_raise rename P probe
        fault_weaken [OF probe])
  show ?thesis unfolding applyRepoDirChange_def Let_def by (intro fault_if migrate clone fault_raise P)
qed

lemma saved_sound:
  "savedConfig c = Inr d \<Longrightarrow> ValidateCustomResources (cfg_custom d) = None \<and> cfg_repoDir d = cfg_repoDir c \<and>
     cfg_interval d = cfg_interval c \<and> cfg_trashGraceDays d = cfg_trashGraceDays c \<and> undecided (cfg_firstSync d) = undecided (cfg_firstSync c)"
  by (auto simp: savedConfig_def Let_def undecided_def split: option.splits if_splits)

text \<open>What holds once everything has worked.\<close>

definition inForce :: "'r settings_env \<Rightarrow> settings_input \<Rightarrow> string \<Rightarrow> 'r service \<Rightarrow> bool" where
  "inForce env i b s \<longleftrightarrow> (\<exists>c d r. savedConfig (newSettings env i c b) = Inr d \<and> sv_config s = Some (Stored d) \<and>
     \<not> sv_preview s \<and> sv_daemon s = Some r \<and> followed i d r)"

lemma interval_set: "1 \<le> n \<Longrightarrow> sc_interval (SetInterval (minutes n) s) = minutes n"
  by (simp add: SetInterval_def Let_def minutes_def)

lemma trigger_set:
  "sc_interval (Trigger s) = sc_interval s"
  "sc_trigger (Trigger s) \<or> sc_running (Trigger s) \<and> sc_cancelled (Trigger s)"
  by (simp_all add: Trigger_def)

lemma fault_putInForce:
  assumes K: "\<And>s s'. sv_repos s' = sv_repos s \<Longrightarrow> K s' = K s"
  shows "fault_valid K (putInForce i (newSettings env i c b)) (\<lambda>_ s. K s \<and> (1 \<le> si_interval i \<longrightarrow> inForce env i b s)) K"
proof (cases "savedConfig (newSettings env i c b)")
  case (Inl e)
  show ?thesis unfolding putInForce_def andThen_attempt saveSettingsFile_def Inl sum.case
    by (rule fault_attempt [where R = "\<lambda>_ _. False" and F = K]) (simp_all add: fault_raise fault_pre_False)
next
  case (Inr d)
  have [simp]: "K (s\<lparr>sv_config := c\<rparr>) = K s" "K (s\<lparr>sv_generation := n\<rparr>) = K s" "K (s\<lparr>sv_preview := v\<rparr>) = K s"
    "K (s\<lparr>sv_daemon := m\<rparr>) = K s" for s c n v m by (rule K, simp)+
  let ?A = "\<lambda>s. K s \<and> sv_config s = Some (Stored d)"
  let ?B = "\<lambda>s. ?A s \<and> \<not> sv_preview s"
  let ?C = "\<lambda>s. ?B s \<and> sv_daemon s \<noteq> None"
  let ?D = "\<lambda>s. ?B s \<and> (\<exists>r. sv_daemon s = Some r \<and> (1 \<le> si_interval i \<longrightarrow> sc_interval (dr_scheduler r) = minutes (si_interval i)))"
  let ?E = "\<lambda>s. K s \<and> (1 \<le> si_interval i \<longrightarrow> inForce env i b s)"
  have save: "fault_valid K (saveSettingsFile (newSettings env i c b)) (\<lambda>_. ?A) K"
    unfolding saveSettingsFile_def Inr sum.case
    by (intro fault_andThen [where R = "\<lambda>_. K"] fault_read_tick fault_tick) auto
  have preview: "fault_valid ?A invalidateSavedPreview (\<lambda>_. ?B) K"
    unfolding invalidateSavedPreview_def
    by (intro fault_andThen [where R = "\<lambda>_. ?A"] fault_inMemory fault_tick) auto
  have load: "fault_valid ?B loadSettings (\<lambda>_. ?B) K"
    by (rule fault_weaken [OF fault_loadSettings [where P = ?B and E = K]]) auto
  have new: "fault_valid ?B newDaemon (\<lambda>_. ?B) K"
    unfolding newDaemon_def by (rule fault_andThen [OF load]) (auto intro!: fault_read_tick fault_raise split: option.split)
  have make: "fault_valid ?B (case m of None \<Rightarrow> raise NoSettings | Some c \<Rightarrow> andThen newDaemon (\<lambda>sched.
      inMemory DaemonNotStarted (\<lambda>s. s\<lparr>sv_daemon := Some \<lparr>dr_scheduler = sched, dr_autoTrigger = \<not> undecided (cfg_firstSync c)\<rparr>\<rparr>)))
      (\<lambda>_. ?C) K" for m
  proof (cases m)
    case None
    show ?thesis unfolding None option.case by (rule fault_raise) simp
  next
    case (Some c)
    show ?thesis unfolding Some option.case by (rule fault_andThen [OF new], rule fault_inMemory) auto
  qed
  have start: "fault_valid ?B startDaemon (\<lambda>_. ?C) K"
    unfolding startDaemon_def
  proof (rule fault_andThen [where R = "\<lambda>m s. ?B s \<and> sv_daemon s = m"], rule fault_read_tick)
    fix m
    show "fault_valid (\<lambda>s. ?B s \<and> sv_daemon s = m) (if m \<noteq> None then ret () else
      andThen loadSettings (\<lambda>c. case c of None \<Rightarrow> raise NoSettings | Some c \<Rightarrow> andThen newDaemon (\<lambda>sched.
      inMemory DaemonNotStarted (\<lambda>s. s\<lparr>sv_daemon := Some \<lparr>dr_scheduler = sched, dr_autoTrigger = \<not> undecided (cfg_firstSync c)\<rparr>\<rparr>))))
      (\<lambda>_. ?C) K"
      by (rule fault_if, rule fault_ret, simp, rule fault_weaken [OF fault_andThen [OF load make]]) auto
  qed auto
  have interval: "fault_valid ?C (controlScheduler (SetInterval (minutes (si_interval i)))) (\<lambda>_. ?D) K"
    by (rule fault_controlScheduler) (auto simp: onScheduler_def interval_set)
  have trigger: "fault_valid ?D (if undecided (cfg_firstSync (newSettings env i c b)) then ret () else TriggerSync) (\<lambda>_. ?E) K"
    unfolding TriggerSync_def using saved_sound [OF Inr] Inr
    by (intro fault_if fault_ret fault_controlScheduler)
      (auto simp: inForce_def followed_def onScheduler_def trigger_set)
  show ?thesis unfolding putInForce_def
    by (intro fault_andThen [OF save] fault_andThen [OF preview] fault_andThen [OF start] fault_andThen [OF interval] trigger)
qed

lemma fault_changeSettings:
  "fault_valid (\<lambda>s. fmlookup (sv_repos s) a = Some x) (changeSettings env i c a b)
    (\<lambda>_ s. repoKept a b x s \<and> (1 \<le> si_interval i \<longrightarrow> inForce env i b s)) (repoKept a b x)"
proof -
  let ?K = "repoKept a b x" and ?P = "\<lambda>s. fmlookup (sv_repos s) a = Some x"
  have P: "?P s \<Longrightarrow> ?K s" for s by (simp add: repoKept_def)
  have K: "sv_repos s' = sv_repos s \<Longrightarrow> ?K s' = ?K s" for s s' by (simp add: repoKept_def)
  have move: "fault_valid ?P (if sameDirectory (se_host env) a b then ret ()
      else applyRepoDirChange env (si_repoURL i) a b (trim_space (si_pathMode i))) (\<lambda>_. ?K) ?K"
  proof (rule fault_if)
    assume "\<not> sameDirectory (se_host env) a b"
    then have "a \<noteq> b" by (auto simp: sameDirectory_def split: if_splits)
    then show "fault_valid ?P (applyRepoDirChange env (si_repoURL i) a b (trim_space (si_pathMode i))) (\<lambda>_. ?K) ?K" by (rule fault_move)
  qed (simp add: fault_ret P)
  show ?thesis unfolding changeSettings_def
    by (rule fault_andThen [OF move]) (use fault_putInForce [OF K] in \<open>auto intro: fault_raise split: option.split\<close>)
qed

lemma fault_SaveSettings:
  assumes dirs: "resolveRepoDir env old = Inr a" "resolveRepoDir env (noSettings\<lparr>cfg_repoDir := requestedDir i old\<rparr>) = Inr b"
  shows "fault_valid (\<lambda>s. existingSettings s = old \<and> fmlookup (sv_repos s) a = Some x) (SaveSettings env i)
    (\<lambda>_ s. repoKept a b x s \<and> validateTimingSettings (si_interval i) (si_trashDays i) = None \<and> (1 \<le> si_interval i \<longrightarrow> inForce env i b s))
    (repoKept a b x)"
proof (cases "validateTimingSettings (si_interval i) (si_trashDays i)")
  case (Some e)
  then show ?thesis by (auto simp: SaveSettings_def repoKept_def intro: fault_raise)
next
  case None
  let ?K = "repoKept a b x" and ?P = "\<lambda>s. fmlookup (sv_repos s) a = Some x"
  let ?go = "\<lambda>existing. case validateRepoPathMode (si_pathMode i) of Some e \<Rightarrow> raise e | None \<Rightarrow>
      case resolveRepoDir env existing of Inl e \<Rightarrow> raise e | Inr a \<Rightarrow>
      case resolveRepoDir env (noSettings\<lparr>cfg_repoDir := requestedDir i existing\<rparr>) of Inl e \<Rightarrow> raise e | Inr b \<Rightarrow>
      changeSettings env i existing a b"
  have go: "fault_valid ?P (?go old) (\<lambda>_ s. ?K s \<and> (1 \<le> si_interval i \<longrightarrow> inForce env i b s)) ?K"
    using fault_changeSettings [of a x env i old b] dirs
    by (auto intro!: fault_raise simp: repoKept_def split: option.split)
  show ?thesis unfolding SaveSettings_def None option.case Let_def
  proof (rule fault_andThen [OF fault_loadSettings])
    fix found
    show "fault_valid (\<lambda>s. (existingSettings s = old \<and> ?P s) \<and> (case found of None \<Rightarrow> noSettings | Some c \<Rightarrow> c) = existingSettings s)
      (?go (case found of None \<Rightarrow> noSettings | Some c \<Rightarrow> c))
      (\<lambda>_ s. ?K s \<and> None = None \<and> (1 \<le> si_interval i \<longrightarrow> inForce env i b s)) ?K"
    proof (rule fault_given [where P = ?P and A = "(case found of None \<Rightarrow> noSettings | Some c \<Rightarrow> c) = old"])
      assume old: "(case found of None \<Rightarrow> noSettings | Some c \<Rightarrow> c) = old"
      show "fault_valid ?P (?go (case found of None \<Rightarrow> noSettings | Some c \<Rightarrow> c))
        (\<lambda>_ s. ?K s \<and> None = None \<and> (1 \<le> si_interval i \<longrightarrow> inForce env i b s)) ?K"
        unfolding old using go by simp
    qed auto
  qed (simp add: repoKept_def)
qed

section \<open>Properties\<close>


definition demo_settings_env :: "string settings_env" where
  "demo_settings_env = \<lparr>se_home = ''/h/.synchub'', se_goos = ''linux'', se_host = ''linux'', se_userHome = Some ''/h'',
     se_clone = (\<lambda>url b x. Inr (url @ b)), se_halfClone = ''half''\<rparr>"

definition demo_service :: "string service" where
  "demo_service = \<lparr>sv_config = Some (Stored demo_settings), sv_repos = fmap_of_list [(''/h/.synchub/repo'', ''clone'')],
     sv_generation = 0, sv_preview = True, sv_daemon = None, sv_now = 0\<rparr>"

definition demo_input :: settings_input where
  "demo_input = \<lparr>si_repoURL = ''u'', si_repoDir = ''~/data'', si_pathMode = ''migrate'', si_strategy = [],
     si_choiceRequired = False, si_interval = 5, si_trashDays = 365, si_agents = fmempty, si_categories = None, si_custom = None\<rparr>"

text \<open>What the demonstration computes.\<close>

lemma demo_saving:
  "fst (SaveSettings demo_settings_env demo_input (boot demo_service [])) = Inr ()"
  "resolveRepoDir demo_settings_env (existingSettings demo_service) = Inr ''/h/.synchub/repo''"
  "resolveRepoDir demo_settings_env (noSettings\<lparr>cfg_repoDir := requestedDir demo_input (existingSettings demo_service)\<rparr>) = Inr ''/h/data''"
  "fmlookup (sv_repos demo_service) ''/h/.synchub/repo'' = Some ''clone''"
  "case sv_config (w_disk (snd (SaveSettings demo_settings_env demo_input (boot demo_service [])))) of
     Some (Stored d) \<Rightarrow> cfg_repoDir d = ''${HOME}/data'' | _ \<Rightarrow> False"
  by code_simp+


text \<open>The directory is moved before the custom resources and the strategy are checked, and before the file is written: a
  request that is refused after the move leaves settings that still name the old directory, which no longer exists, and
  asking for the move again is refused because the new directory does.\<close>

lemma refused_settings_strand_the_repository:
  assumes "resolveRepoDir env (existingSettings s) = Inr a"
    and "resolveRepoDir env (noSettings\<lparr>cfg_repoDir := requestedDir i (existingSettings s)\<rparr>) = Inr b"
    and "\<not> sameDirectory (se_host env) a b" "trim_space (si_pathMode i) = ''migrate''" "\<not> prefix (a @ ''/'') b"
    and "fmlookup (sv_repos s) a = Some x" "fmlookup (sv_repos s) b = None"
    and "validateTimingSettings (si_interval i) (si_trashDays i) = None"
    and "ValidateCustomResources (requestedCustom i (existingSettings s)) = Some e" "sv_config s = Some (Stored c)"
  shows "\<exists>t. run (SaveSettings env i) s = (Inl (BadSettings e), t) \<and> sv_config t = sv_config s \<and>
    fmlookup (sv_repos t) a = None \<and> fmlookup (sv_repos t) b = Some x \<and>
    run (SaveSettings env i) t = (Inl (RepoExists b), t)"
proof -
  have ab: "a \<noteq> b" using assms(6,7) by auto
  have l: "lawful (loadSettings :: ('a, config option) service_io)" "lawful (renameRepo a b :: ('a, unit) service_io)" "lawful (applyRepoDirChange env u a b m)" for u m
    by (auto simp: loadSettings_def renameRepo_def applyRepoDirChange_def recloneRepo_def Let_def intro!: lawful_intros)
  have load: "run loadSettings v = (Inr (Some (migrateConfig c)), v)" if "sv_config v = Some (Stored c)" for v :: "'a service"
    using that by (simp add: loadSettings_def)
  have ex: "existingSettings s = migrateConfig c" using assms(10) by (simp add: existingSettings_def)
  have mode: "validateRepoPathMode (si_pathMode i) = None" using assms(4) by (simp add: validateRepoPathMode_def)
  have go: "run (SaveSettings env i) v = run (changeSettings env i (existingSettings s) a b) v" if "sv_config v = Some (Stored c)" for v
    using load [OF that] assms(1,2,8) mode l(1) by (simp add: SaveSettings_def run_andThen ex)
  have change: "run (changeSettings env i (existingSettings s) a b) v =
      (case run (applyRepoDirChange env (si_repoURL i) a b ''migrate'') v of
         (Inl d, v') \<Rightarrow> (Inl d, v') | (Inr _, v') \<Rightarrow> (Inl (BadSettings e), v'))" for v
    using assms(3,4,9) l(3) by (simp add: changeSettings_def run_andThen split: prod.split sum.split)
  have move: "run (applyRepoDirChange env (si_repoURL i) a b ''migrate'') v =
      (if fmlookup (sv_repos v) b \<noteq> None then (Inl (RepoExists b), v) else run (renameRepo a b) v)" for v
    using l(2) by (simp add: applyRepoDirChange_def run_andThen run_attempt lawful_intros)
  let ?t = "s\<lparr>sv_repos := fmupd b x (fmdrop a (sv_repos s))\<rparr>"
  have "run (renameRepo a b) s = (Inr (), ?t)" using assms(5,6,7) by (simp add: renameRepo_def)
  then have "run (SaveSettings env i) s = (Inl (BadSettings e), ?t)" using go [OF assms(10)] change move assms(7) by simp
  moreover have "run (SaveSettings env i) ?t = (Inl (RepoExists b), ?t)" using go [of ?t] change move assms(10) by simp
  ultimately show ?thesis using ab by (intro exI [of _ ?t]) simp
qed

end
