(* ===== verification/Base_Store.thy ===== *)
theory Base_Store
  imports Fault_IO
begin

text \<open>
  The store of merge bases of \<open>internal/state\<close> (base.go and state.go): an index from repository
  paths to content hashes and a directory of objects named by their hash, both written atomically,
  the objects first.  SHA-256 is the parameter \<open>sha\<close>.  The operations run under an arbitrary
  schedule of failures and crashes.
\<close>

section \<open>Data\<close>

datatype base_error =
    IOFault
  | InvalidBasePath string
  | InvalidObjectHash string
  | BadIndex
  | ObjectMissing string string
  | IntegrityFailed string string
  | CaptureFailed string

datatype index_file = BadJson | IndexFile "(string, string) fmap"

record base_disk =
  bs_index :: "index_file option"
  bs_objects :: "(string, string) fmap"
  bs_repo :: "(string, string) fmap"

type_synonym 'a base_io = "(base_disk, base_error, 'a) io"

section \<open>Validation\<close>

definition isDrivePath :: "string \<Rightarrow> bool" where
  "isDrivePath value \<longleftrightarrow>
     length value \<ge> 3 \<and> is_drive_letter (value ! 0) \<and> value ! 1 = CHR '':'' \<and> value ! 2 = CHR ''/''"

definition validateBaseRepoPath :: "string \<Rightarrow> base_error option" where
  "validateBaseRepoPath p =
     (if trim_space p = [] \<or> CHR 0x5C \<in> set p \<or> prefix ''/'' p \<or> isDrivePath p \<or> path_clean p \<noteq> p
      then Some (InvalidBasePath p)
      else if list_ex (\<lambda>s. s = [] \<or> s = ''.'' \<or> s = ''..'') (split_on CHR ''/'' p)
      then Some (InvalidBasePath p) else None)"

definition is_hex_digit :: "char \<Rightarrow> bool" where
  "is_hex_digit c \<longleftrightarrow> (CHR ''0'' \<le> c \<and> c \<le> CHR ''9'') \<or> (CHR ''a'' \<le> c \<and> c \<le> CHR ''f'') \<or>
     (CHR ''A'' \<le> c \<and> c \<le> CHR ''F'')"

definition validateObjectHash :: "string \<Rightarrow> base_error option" where
  "validateObjectHash h = (if length h \<noteq> 64 \<or> \<not> list_all is_hex_digit h then Some (InvalidObjectHash h) else None)"

definition guard :: "base_error option \<Rightarrow> unit base_io" where
  "guard e = (case e of None \<Rightarrow> ret () | Some x \<Rightarrow> raise x)"

section \<open>Operations\<close>

definition index_valid :: "(string, string) fmap \<Rightarrow> bool" where
  "index_valid m \<longleftrightarrow>
     list_all (\<lambda>p. validateBaseRepoPath p = None \<and>
       (case fmlookup m p of Some h \<Rightarrow> validateObjectHash h = None | None \<Rightarrow> True)) (fm_keys m)"

definition loadIndex :: "(string, string) fmap base_io" where
  "loadIndex = read_tick IOFault (\<lambda>d.
     case bs_index d of
       None \<Rightarrow> Inr fmempty
     | Some BadJson \<Rightarrow> Inl BadIndex
     | Some (IndexFile m) \<Rightarrow> if index_valid m then Inr m else Inl BadIndex)"

definition saveIndex :: "(string, string) fmap \<Rightarrow> unit base_io" where
  "saveIndex m = tick IOFault (\<lambda>d _. d) (\<lambda>d. (Inr (), d\<lparr>bs_index := Some (IndexFile m)\<rparr>))"

definition putObject :: "(string \<Rightarrow> string) \<Rightarrow> string \<Rightarrow> string base_io" where
  "putObject sha data =
     (let h = sha data
      in andThen (read_tick IOFault (\<lambda>d. Inr (fmlookup (bs_objects d) h))) (\<lambda>existing.
           if existing \<noteq> None then ret h
           else andThen (tick IOFault (\<lambda>d _. d) (\<lambda>d. (Inr (), d\<lparr>bs_objects := fmupd h data (bs_objects d)\<rparr>)))
             (\<lambda>_. ret h)))"

definition BasePut :: "(string \<Rightarrow> string) \<Rightarrow> string \<Rightarrow> string \<Rightarrow> unit base_io" where
  "BasePut sha p data =
     andThen (guard (validateBaseRepoPath p)) (\<lambda>_.
     andThen loadIndex (\<lambda>index.
     andThen (putObject sha data) (\<lambda>h. saveIndex (fmupd p h index))))"

definition readObject :: "string \<Rightarrow> string \<Rightarrow> string base_io" where
  "readObject p h = read_tick IOFault (\<lambda>d.
     case fmlookup (bs_objects d) h of None \<Rightarrow> Inl (ObjectMissing h p) | Some data \<Rightarrow> Inr data)"

definition BaseGet :: "(string \<Rightarrow> string) \<Rightarrow> string \<Rightarrow> string option base_io" where
  "BaseGet sha p =
     andThen (guard (validateBaseRepoPath p)) (\<lambda>_.
     andThen loadIndex (\<lambda>index.
       case fmlookup index p of
         None \<Rightarrow> ret None
       | Some h \<Rightarrow>
           andThen (guard (validateObjectHash h)) (\<lambda>_.
           andThen (readObject p h) (\<lambda>data.
             if sha data \<noteq> h then raise (IntegrityFailed h p) else ret (Some data)))))"

definition BaseDelete :: "string \<Rightarrow> unit base_io" where
  "BaseDelete p =
     andThen (guard (validateBaseRepoPath p)) (\<lambda>_.
     andThen loadIndex (\<lambda>index.
       if fmlookup index p = None then ret () else saveIndex (fmdrop p index)))"

definition readRepoFile :: "string \<Rightarrow> string base_io" where
  "readRepoFile p = read_tick IOFault (\<lambda>d.
     case fmlookup (bs_repo d) p of None \<Rightarrow> Inl (CaptureFailed p) | Some x \<Rightarrow> Inr x)"

definition captureRead :: "string \<Rightarrow> (string \<times> string) list \<Rightarrow> (string \<times> string) list base_io" where
  "captureRead p content = andThen (readRepoFile p) (\<lambda>data. ret (content @ [(p, data)]))"

definition captureObject ::
  "(string \<Rightarrow> string) \<Rightarrow> string \<times> string \<Rightarrow> (string, string) fmap \<Rightarrow> (string, string) fmap base_io"
where
  "captureObject sha = (\<lambda>(p, data) index. andThen (putObject sha data) (\<lambda>h. ret (fmupd p h index)))"

text \<open>\<open>snapshot\<close> is given by its paths: its metadata is not read.\<close>

definition CaptureRepoPreserving :: "(string \<Rightarrow> string) \<Rightarrow> string list \<Rightarrow> string list \<Rightarrow> unit base_io" where
  "CaptureRepoPreserving sha snap preserve =
     andThen (forEach (\<lambda>p _. guard (validateBaseRepoPath p)) snap ()) (\<lambda>_.
     let paths = sort_unique (filter (\<lambda>p. p \<notin> set preserve) snap)
     in andThen (forEach captureRead paths []) (\<lambda>content.
        andThen loadIndex (\<lambda>index.
        andThen (forEach (captureObject sha) content index) (\<lambda>index'.
          saveIndex (fmfilter (\<lambda>p. p \<in> set preserve \<or> p \<in> set snap) index')))))"

section \<open>Soundness of the store\<close>

definition the_index :: "base_disk \<Rightarrow> (string, string) fmap" where
  "the_index d = (case bs_index d of Some (IndexFile m) \<Rightarrow> m | _ \<Rightarrow> fmempty)"

definition readable :: "base_disk \<Rightarrow> bool" where
  "readable d \<longleftrightarrow> (case bs_index d of None \<Rightarrow> True | Some BadJson \<Rightarrow> False | Some (IndexFile m) \<Rightarrow> index_valid m)"

text \<open>Objects hold what their name says, and every index entry has its object.\<close>

definition objects_ok :: "(string \<Rightarrow> string) \<Rightarrow> base_disk \<Rightarrow> bool" where
  "objects_ok sha d \<longleftrightarrow> (\<forall>h data. fmlookup (bs_objects d) h = Some data \<longrightarrow> sha data = h)"

definition sound :: "(string \<Rightarrow> string) \<Rightarrow> base_disk \<Rightarrow> bool" where
  "sound sha d \<longleftrightarrow> readable d \<and> objects_ok sha d \<and>
     (\<forall>p h. fmlookup (the_index d) p = Some h \<longrightarrow> fmlookup (bs_objects d) h \<noteq> None)"

definition hex_digest :: "(string \<Rightarrow> string) \<Rightarrow> bool" where
  "hex_digest sha \<longleftrightarrow> (\<forall>data. validateObjectHash (sha data) = None)"

text \<open>The abstract store: what is recorded for a path.\<close>

definition base_at :: "base_disk \<Rightarrow> string \<Rightarrow> string option" where
  "base_at d p = Option.bind (fmlookup (the_index d) p) (fmlookup (bs_objects d))"

lemma index_valid_iff:
  "index_valid m \<longleftrightarrow> (\<forall>p h. fmlookup m p = Some h \<longrightarrow> validateBaseRepoPath p = None \<and> validateObjectHash h = None)"
  by (auto simp: index_valid_def list_all_iff fm_simps split: option.split)

lemma readable_the_index: "readable d \<Longrightarrow> index_valid (the_index d)"
  by (auto simp: readable_def the_index_def index_valid_iff split: option.splits index_file.splits)

lemma fault_guard:
  assumes "\<And>d. P d \<Longrightarrow> e = None \<Longrightarrow> Q () d" "\<And>d. P d \<Longrightarrow> E d"
  shows "fault_valid P (guard e) Q E"
  using assms by (cases e) (auto simp: guard_def intro: fault_ret fault_raise)

lemma fault_loadIndex:
  assumes "\<And>d. P d \<Longrightarrow> E d"
  shows "fault_valid P loadIndex (\<lambda>m d. P d \<and> m = the_index d \<and> readable d \<and> index_valid m) E"
  unfolding loadIndex_def
  by (rule fault_read_tick)
    (auto simp: assms the_index_def readable_def index_valid_iff split: option.splits index_file.splits if_splits)

text \<open>Adding an object keeps everything that was there.\<close>

definition extends :: "(string \<Rightarrow> string) \<Rightarrow> base_disk \<Rightarrow> base_disk \<Rightarrow> bool" where
  "extends sha d d' \<longleftrightarrow> bs_index d' = bs_index d \<and> bs_repo d' = bs_repo d \<and>
     (\<forall>h x. fmlookup (bs_objects d) h = Some x \<longrightarrow> fmlookup (bs_objects d') h = Some x) \<and>
     (objects_ok sha d \<longrightarrow> objects_ok sha d')"

lemma extends_refl [simp]: "extends sha d d"
  by (simp add: extends_def)

lemma extends_trans: "extends sha a b \<Longrightarrow> extends sha b c \<Longrightarrow> extends sha a c"
  by (simp add: extends_def)

lemma extendsD:
  assumes "extends sha d d'"
  shows "bs_index d' = bs_index d" "bs_repo d' = bs_repo d"
    "fmlookup (bs_objects d) h = Some x \<Longrightarrow> fmlookup (bs_objects d') h = Some x"
    "objects_ok sha d \<Longrightarrow> objects_ok sha d'"
  using assms unfolding extends_def by simp_all

lemma extends_upd:
  assumes e: "extends sha d d'" and n: "fmlookup (bs_objects d') (sha data) = None"
  shows "extends sha d (d'\<lparr>bs_objects := fmupd (sha data) data (bs_objects d')\<rparr>)"
  unfolding extends_def
proof (intro conjI allI impI)
  fix h x assume "fmlookup (bs_objects d) h = Some x"
  from extendsD(3) [OF e this] n
  show "fmlookup (bs_objects (d'\<lparr>bs_objects := fmupd (sha data) data (bs_objects d')\<rparr>)) h = Some x"
    by (cases "h = sha data") simp_all
next
  assume "objects_ok sha d"
  from extendsD(4) [OF e this] show "objects_ok sha (d'\<lparr>bs_objects := fmupd (sha data) data (bs_objects d')\<rparr>)"
    by (simp add: objects_ok_def)
qed (simp_all add: extendsD [OF e])

lemma the_index_extends: "extends sha d d' \<Longrightarrow> the_index d' = the_index d"
  by (simp add: extends_def the_index_def)

lemma readable_extends: "extends sha d d' \<Longrightarrow> readable d' = readable d"
  by (simp add: extends_def readable_def)

lemma sound_extends:
  assumes s: "sound sha d" and e: "extends sha d d'"
  shows "sound sha d'"
  unfolding sound_def
proof (intro conjI allI impI)
  show "readable d'" "objects_ok sha d'"
    using s readable_extends [OF e] extendsD(4) [OF e] by (simp_all add: sound_def)
  fix p h assume "fmlookup (the_index d') p = Some h"
  then obtain x where "fmlookup (bs_objects d) h = Some x"
    using s the_index_extends [OF e] by (auto simp: sound_def)
  from extendsD(3) [OF e this] show "fmlookup (bs_objects d') h \<noteq> None" by simp
qed

lemma base_at_extends:
  assumes "sound sha d" "extends sha d d'"
  shows "base_at d' p = base_at d p"
proof (cases "fmlookup (the_index d) p")
  case None
  then show ?thesis by (simp add: base_at_def the_index_extends [OF assms(2)])
next
  case (Some h)
  with assms(1) obtain x where "fmlookup (bs_objects d) h = Some x" by (auto simp: sound_def)
  with Some assms(2) show ?thesis
    by (simp add: base_at_def the_index_extends [OF assms(2)] extends_def)
qed

text \<open>
  A digest cannot be injective on all byte strings.  \<open>fits sha U d\<close> says that everything stored
  comes from a set \<open>U\<close> of contents on which it is.
\<close>

definition known :: "base_disk \<Rightarrow> string set" where
  "known d = {x. \<exists>h. fmlookup (bs_objects d) h = Some x}"

definition fits :: "(string \<Rightarrow> string) \<Rightarrow> string set \<Rightarrow> base_disk \<Rightarrow> bool" where
  "fits sha U d \<longleftrightarrow> sound sha d \<and> known d \<subseteq> U \<and> inj_on sha U \<and> hex_digest sha"

lemma known_upd: "known (d\<lparr>bs_objects := fmupd h x (bs_objects d)\<rparr>) \<subseteq> insert x (known d)"
  by (auto simp: known_def split: if_splits)

lemma known_simps [simp]: "known (d\<lparr>bs_index := i\<rparr>) = known d"
  by (simp add: known_def)

lemma object_unique:
  assumes "objects_ok sha d" "inj_on sha U" "known d \<subseteq> U" "x \<in> U" "fmlookup (bs_objects d) (sha x) = Some y"
  shows "y = x"
proof -
  have "sha y = sha x" "y \<in> U" using assms by (auto simp: objects_ok_def known_def)
  then show ?thesis using assms(2,4) by (auto dest: inj_onD)
qed

lemma fault_putObject:
  assumes ok: "objects_ok sha d0" "inj_on sha U" "data \<in> U"
  shows "fault_valid (\<lambda>d. extends sha d0 d \<and> known d \<subseteq> U) (putObject sha data)
     (\<lambda>h d. extends sha d0 d \<and> known d \<subseteq> U \<and> h = sha data \<and> fmlookup (bs_objects d) (sha data) = Some data)
     (\<lambda>d. extends sha d0 d \<and> known d \<subseteq> U)"
    (is "fault_valid ?P _ ?Q ?E")
  unfolding putObject_def Let_def
proof (rule fault_andThen [where R = "\<lambda>e d. ?P d \<and> e = fmlookup (bs_objects d) (sha data)"], rule fault_read_tick)
  fix e
  let ?w = "tick IOFault (\<lambda>d _. d) (\<lambda>d. (Inr (), d\<lparr>bs_objects := fmupd (sha data) data (bs_objects d)\<rparr>)) :: unit base_io"
  have "fault_valid (\<lambda>d. ?P d \<and> fmlookup (bs_objects d) (sha data) = None) ?w (\<lambda>_ d. ?Q (sha data) d) ?E"
    by (rule fault_tick) (use ok(3) known_upd in \<open>fastforce simp: extends_upd\<close>)+
  then have new: "fault_valid (\<lambda>d. ?P d \<and> fmlookup (bs_objects d) (sha data) = None)
     (andThen ?w (\<lambda>_. ret (sha data))) ?Q ?E"
    by (rule fault_andThen) (rule fault_ret, assumption)
  have old: "fault_valid (\<lambda>d. ?P d \<and> fmlookup (bs_objects d) (sha data) = Some x) (ret (sha data)) ?Q ?E" for x
    by (rule fault_ret) (use object_unique [OF extendsD(4) [OF _ ok(1)] ok(2) _ ok(3)] in auto)
  show "fault_valid (\<lambda>d. ?P d \<and> e = fmlookup (bs_objects d) (sha data))
     (if e \<noteq> None then ret (sha data) else andThen ?w (\<lambda>_. ret (sha data))) ?Q ?E"
  proof (cases e)
    case None
    show ?thesis using fault_weaken [OF new, of "\<lambda>d. ?P d \<and> e = fmlookup (bs_objects d) (sha data)" ?Q ?E] None
      by simp
  next
    case (Some x)
    show ?thesis using fault_weaken [OF old [of x], of "\<lambda>d. ?P d \<and> e = fmlookup (bs_objects d) (sha data)" ?Q ?E] Some
      by simp
  qed
qed auto

section \<open>Every operation keeps the store sound\<close>

text \<open>The state an interrupted or failed operation leaves: sound, with the same content.\<close>

definition untouched :: "(string \<Rightarrow> string) \<Rightarrow> string set \<Rightarrow> base_disk \<Rightarrow> base_disk \<Rightarrow> bool" where
  "untouched sha U d0 d \<longleftrightarrow> fits sha U d \<and> bs_repo d = bs_repo d0 \<and> base_at d = base_at d0"

lemma untouched_extends:
  assumes "fits sha U d0" "extends sha d0 d" "known d \<subseteq> U"
  shows "untouched sha U d0 d"
  using assms base_at_extends [of sha d0 d] sound_extends [of sha d0 d]
  by (auto simp: untouched_def fits_def extendsD fun_eq_iff)

lemma untouched_self [simp]: "fits sha U d \<Longrightarrow> untouched sha U d d"
  by (simp add: untouched_def)

definition with_index :: "(string, string) fmap \<Rightarrow> base_disk \<Rightarrow> base_disk" where
  "with_index m d = d\<lparr>bs_index := Some (IndexFile m)\<rparr>"

lemma with_index_simps [simp]:
  "the_index (with_index m d) = m" "bs_objects (with_index m d) = bs_objects d"
  "bs_repo (with_index m d) = bs_repo d" "readable (with_index m d) = index_valid m"
  "objects_ok sha (with_index m d) = objects_ok sha d" "known (with_index m d) = known d"
  by (simp_all add: with_index_def the_index_def readable_def objects_ok_def)

lemma fault_saveIndex:
  assumes "\<And>d. P d \<Longrightarrow> Q () (with_index m d)" "\<And>d. P d \<Longrightarrow> E d"
  shows "fault_valid P (saveIndex m) Q E"
  unfolding saveIndex_def by (rule fault_tick) (use assms in \<open>auto simp: with_index_def\<close>)

lemma index_valid_upd:
  "index_valid m \<Longrightarrow> validateBaseRepoPath p = None \<Longrightarrow> hex_digest sha \<Longrightarrow> index_valid (fmupd p (sha x) m)"
  by (auto simp: index_valid_iff hex_digest_def)

lemma index_valid_sub:
  "index_valid m \<Longrightarrow> (\<And>p h. fmlookup m' p = Some h \<Longrightarrow> fmlookup m p = Some h) \<Longrightarrow> index_valid m'"
  by (auto simp: index_valid_iff)

lemma fits_put:
  assumes "fits sha U d0" "extends sha d0 d" "known d \<subseteq> U" "fmlookup (bs_objects d) (sha x) = Some x"
    "validateBaseRepoPath p = None"
  shows "fits sha U (with_index (fmupd p (sha x) (the_index d)) d) \<and>
    base_at (with_index (fmupd p (sha x) (the_index d)) d) = (base_at d0)(p := Some x)"
proof -
  have s: "sound sha d" using assms sound_extends by (auto simp: fits_def)
  have "index_valid (fmupd p (sha x) (the_index d))"
    by (rule index_valid_upd) (use s assms in \<open>auto simp: sound_def fits_def readable_the_index\<close>)
  then have "fits sha U (with_index (fmupd p (sha x) (the_index d)) d)"
    using assms s by (auto simp: fits_def sound_def)
  moreover have "base_at (with_index (fmupd p (sha x) (the_index d)) d) q = ((base_at d0)(p := Some x)) q" for q
    using assms(4) base_at_extends [of sha d0 d q] assms(1,2) by (auto simp: base_at_def fits_def)
  ultimately show ?thesis by auto
qed

lemma fits_restrict:
  assumes "fits sha U d"
  shows "fits sha U (with_index (fmfilter K (the_index d)) d) \<and>
    base_at (with_index (fmfilter K (the_index d)) d) = (\<lambda>q. if K q then base_at d q else None)"
proof -
  have "index_valid (fmfilter K (the_index d))"
    by (rule index_valid_sub [where m = "the_index d"])
      (use assms in \<open>auto simp: fits_def sound_def readable_the_index split: if_splits\<close>)
  then show ?thesis using assms by (auto simp: fits_def sound_def base_at_def split: if_splits)
qed

lemma fault_BasePut:
  assumes "x \<in> U"
  shows "fault_valid (\<lambda>d. d = d0 \<and> fits sha U d0) (BasePut sha p x)
    (\<lambda>_ d. fits sha U d \<and> bs_repo d = bs_repo d0 \<and> base_at d = (base_at d0)(p := Some x)) (untouched sha U d0)"
proof -
  let ?P = "\<lambda>d. d = d0 \<and> fits sha U d0"
  have PE: "?P d \<Longrightarrow> untouched sha U d0 d" for d by (auto simp: untouched_def)
  let ?V = "validateBaseRepoPath p = None"
  let ?I = "\<lambda>m d. ?P d \<and> ?V \<and> m = the_index d0"
  let ?O = "\<lambda>m h d. fits sha U d0 \<and> ?V \<and> m = the_index d0 \<and> extends sha d0 d \<and> known d \<subseteq> U \<and> h = sha x \<and>
     fmlookup (bs_objects d) (sha x) = Some x"
  have load: "fault_valid (\<lambda>d. ?P d \<and> ?V) loadIndex ?I (untouched sha U d0)"
    by (rule fault_weaken [OF fault_loadIndex [of "\<lambda>d. ?P d \<and> ?V" "untouched sha U d0"]]) (auto intro: untouched_self)
  have obj: "fault_valid (?I m) (putObject sha x) (?O m) (untouched sha U d0)" for m
  proof (cases "fits sha U d0 \<and> ?V \<and> m = the_index d0")
    case True
    then have "objects_ok sha d0" "inj_on sha U" by (auto simp: fits_def sound_def)
    from fault_putObject [OF this assms] show ?thesis
      by (rule fault_weaken) (use True in \<open>auto simp: fits_def intro: untouched_extends\<close>)
  qed (auto intro: fault_pre_False)
  show ?thesis unfolding BasePut_def
    by (rule fault_andThen [OF fault_guard [where Q = "\<lambda>_ d. ?P d \<and> ?V"]], blast, erule PE,
        rule fault_andThen [OF load], rule fault_andThen [OF obj], rule fault_saveIndex)
      (use fits_put in \<open>fastforce simp: extendsD the_index_extends\<close>,
       use untouched_extends in blast)
qed

lemma fault_BaseDelete:
  "fault_valid (\<lambda>d. d = d0 \<and> fits sha U d0) (BaseDelete p)
    (\<lambda>_ d. fits sha U d \<and> bs_repo d = bs_repo d0 \<and> base_at d = (base_at d0)(p := None)) (untouched sha U d0)"
proof -
  let ?P = "\<lambda>d. d = d0 \<and> fits sha U d0"
  have PE: "?P d \<Longrightarrow> untouched sha U d0 d" for d by (auto simp: untouched_def)
  have load: "fault_valid ?P loadIndex (\<lambda>m d. ?P d \<and> m = the_index d0) (untouched sha U d0)"
    by (rule fault_weaken [OF fault_loadIndex [of ?P "untouched sha U d0"]]) (auto intro: untouched_self)
  have none: "fmlookup (the_index d0) p = None \<Longrightarrow> base_at d0 = (base_at d0)(p := None)"
    by (auto simp: base_at_def)
  have dr: "fmdrop p m = fmfilter (\<lambda>q. q \<noteq> p) m" for m :: "(string, string) fmap"
    by (intro fmap_ext) auto
  have some: "fits sha U d0 \<Longrightarrow> fits sha U (with_index (fmdrop p (the_index d0)) d0) \<and>
     base_at (with_index (fmdrop p (the_index d0)) d0) = (base_at d0)(p := None)"
    using fits_restrict [of sha U d0 "\<lambda>q. q \<noteq> p"] by (auto simp: dr fun_eq_iff)
  show ?thesis unfolding BaseDelete_def
    by (rule fault_andThen [OF fault_guard [where Q = "\<lambda>_. ?P"]], blast, erule PE,
        rule fault_andThen [OF load], rule fault_if, rule fault_ret, use none in auto, rule fault_saveIndex)
      (use some PE in auto)
qed

section \<open>Capturing the repository\<close>

definition repo_text :: "base_disk \<Rightarrow> string \<Rightarrow> string" where
  "repo_text d p = (case fmlookup (bs_repo d) p of None \<Rightarrow> [] | Some x \<Rightarrow> x)"

definition repo_content :: "base_disk \<Rightarrow> string list \<Rightarrow> (string \<times> string) list" where
  "repo_content d ps = map (\<lambda>p. (p, repo_text d p)) ps"

lemma fault_captureReads:
  assumes "\<And>d. d = d0 \<and> G \<Longrightarrow> E d"
  shows "fault_valid (\<lambda>d. d = d0 \<and> G) (forEach captureRead ps [])
    (\<lambda>c d. d = d0 \<and> G \<and> c = repo_content d0 ps \<and> (\<forall>p\<in>set ps. fmlookup (bs_repo d0) p = Some (repo_text d0 p))) E"
proof -
  let ?I = "\<lambda>xs c d. d = d0 \<and> G \<and> c @ repo_content d0 xs = repo_content d0 ps \<and>
    (\<forall>p\<in>set ps. p \<in> set xs \<or> fmlookup (bs_repo d0) p = Some (repo_text d0 p))"
  have step: "fault_valid (?I (x # xs) c) (captureRead x c) (?I xs) E" for x xs c
    unfolding captureRead_def readRepoFile_def
    by (rule fault_andThen [where R = "\<lambda>data d. ?I (x # xs) c d \<and> fmlookup (bs_repo d0) x = Some data"],
        rule fault_read_tick)
      (use assms in \<open>auto intro!: fault_ret simp: repo_content_def repo_text_def split: option.splits\<close>)
  have "fault_valid (?I ps []) (forEach captureRead ps []) (?I []) E"
    by (rule fault_forEach [OF step])
  then show ?thesis by (rule fault_weaken) (auto simp: repo_content_def)
qed

definition put_hashes :: "(string \<Rightarrow> string) \<Rightarrow> (string \<times> string) list \<Rightarrow> (string, string) fmap \<Rightarrow> (string, string) fmap" where
  "put_hashes sha c m = foldl (\<lambda>m (p, x). fmupd p (sha x) m) m c"

lemma lookup_put_hashes:
  "fmlookup (put_hashes sha (map (\<lambda>p. (p, f p)) ps) m) q =
     (if q \<in> set ps then Some (sha (f q)) else fmlookup m q)"
  by (induction ps arbitrary: m) (auto simp: put_hashes_def)

lemma fault_captureObjects:
  assumes ok: "objects_ok sha d0" "inj_on sha U" and c: "snd ` set c \<subseteq> U"
  shows "fault_valid (\<lambda>d. extends sha d0 d \<and> known d \<subseteq> U) (forEach (captureObject sha) c m)
    (\<lambda>m' d. extends sha d0 d \<and> known d \<subseteq> U \<and> m' = put_hashes sha c m \<and>
       (\<forall>x\<in>snd ` set c. fmlookup (bs_objects d) (sha x) = Some x))
    (\<lambda>d. extends sha d0 d \<and> known d \<subseteq> U)"
proof -
  let ?E = "\<lambda>d. extends sha d0 d \<and> known d \<subseteq> U"
  let ?D = "\<lambda>xs d. \<forall>x\<in>snd ` set c. x \<in> snd ` set xs \<or> fmlookup (bs_objects d) (sha x) = Some x"
  let ?I = "\<lambda>xs i d. ?E d \<and> set xs \<subseteq> set c \<and> put_hashes sha xs i = put_hashes sha c m \<and> ?D xs d"
  have step: "fault_valid (?I ((p, x) # xs) i) (captureObject sha (p, x) i) (?I xs) ?E" for p x xs i
  proof (cases "set ((p, x) # xs) \<subseteq> set c \<and> put_hashes sha ((p, x) # xs) i = put_hashes sha c m")
    case True
    then have xU: "x \<in> U" using c by auto
    have keep: "fault_valid (\<lambda>d. ?E d \<and> ?D ((p, x) # xs) d) (putObject sha x)
       (\<lambda>h d. ?E d \<and> h = sha x \<and> ?D xs d) ?E"
      unfolding fault_valid_def
    proof (intro allI impI)
      fix w :: "base_disk world" assume P: "?E (w_disk w) \<and> ?D ((p, x) # xs) (w_disk w)"
      obtain r w' where run: "putObject sha x w = (r, w')" by (cases "putObject sha x w")
      have rel: "objects_ok sha (w_disk w)" "extends sha (w_disk w) (w_disk w) \<and> known (w_disk w) \<subseteq> U"
        using P extendsD(4) [OF _ ok(1)] by auto
      note A = fault_validD [OF fault_putObject [OF rel(1) ok(2) xU] rel(2) run]
      show "case putObject sha x w of (Inl _, w') \<Rightarrow> ?E (w_disk w')
        | (Inr h, w') \<Rightarrow> ?E (w_disk w') \<and> h = sha x \<and> ?D xs (w_disk w')"
      proof (cases r)
        case (Inl e)
        then show ?thesis using A(2) [OF Inl] P run extends_trans by auto
      next
        case (Inr h)
        have e: "extends sha (w_disk w) (w_disk w')" using A(1) [OF Inr] by simp
        have "?D xs (w_disk w')"
        proof (intro ballI)
          fix y assume "y \<in> snd ` set c"
          with P have "y \<in> snd ` set ((p, x) # xs) \<or> fmlookup (bs_objects (w_disk w)) (sha y) = Some y" by blast
          then show "y \<in> snd ` set xs \<or> fmlookup (bs_objects (w_disk w')) (sha y) = Some y"
            using A(1) [OF Inr] extendsD(3) [OF e] by auto
        qed
        then show ?thesis using A(1) [OF Inr] P run Inr extends_trans by auto
      qed
    qed
    have "fault_valid (\<lambda>d. ?E d \<and> ?D ((p, x) # xs) d) (captureObject sha (p, x) i) (?I xs) ?E"
      unfolding captureObject_def prod.case
      by (rule fault_andThen [OF keep], rule fault_ret) (use True in \<open>auto simp: put_hashes_def\<close>)
    then show ?thesis by (rule fault_weaken) auto
  qed (auto intro: fault_pre_False)
  have "fault_valid (?I c m) (forEach (captureObject sha) c m) (?I []) ?E"
  proof (rule fault_forEach)
    fix x xs s show "fault_valid (?I (x # xs) s) (captureObject sha x s) (?I xs) ?E"
      using step by (cases x) simp
  qed
  then show ?thesis by (rule fault_weaken) (auto simp: put_hashes_def)
qed

text \<open>What a capture records for a path.\<close>

definition captured :: "base_disk \<Rightarrow> string list \<Rightarrow> string list \<Rightarrow> string \<Rightarrow> string option" where
  "captured d snap preserve p =
     (if p \<in> set preserve then base_at d p
      else if p \<in> set snap then fmlookup (bs_repo d) p else None)"

lemma fits_capture:
  assumes f: "fits sha U d0" and e: "extends sha d0 d" "known d \<subseteq> U"
    and v: "\<forall>p\<in>set snap. validateBaseRepoPath p = None"
    and ps: "set ps = set snap - set preserve"
    and rd: "\<forall>p\<in>set ps. fmlookup (bs_repo d0) p = Some (repo_text d0 p)"
    and ob: "\<forall>x\<in>snd ` set (repo_content d0 ps). fmlookup (bs_objects d) (sha x) = Some x"
  defines "m \<equiv> fmfilter (\<lambda>p. p \<in> set preserve \<or> p \<in> set snap) (put_hashes sha (repo_content d0 ps) (the_index d0))"
  shows "fits sha U (with_index m d) \<and> base_at (with_index m d) = captured d0 snap preserve"
proof -
  have s: "sound sha d" "index_valid (the_index d0)"
    using f sound_extends [OF _ e(1)] by (simp_all add: fits_def sound_def readable_the_index)
  have look: "fmlookup m q =
      (if q \<in> set ps then Some (sha (repo_text d0 q))
       else if q \<in> set preserve \<or> q \<in> set snap then fmlookup (the_index d0) q else None)" for q
    using ps by (auto simp: m_def repo_content_def lookup_put_hashes)
  have obp: "fmlookup (bs_objects d) (sha (repo_text d0 q)) = Some (repo_text d0 q)" if "q \<in> set ps" for q
    using ob that by (auto simp: repo_content_def)
  have "index_valid m"
    using s(2) v ps f by (auto simp: index_valid_iff look fits_def hex_digest_def split: if_splits)
  moreover have "fmlookup (bs_objects d) h \<noteq> None" if "fmlookup m q = Some h" for q h
  proof (cases "q \<in> set ps")
    case True
    then show ?thesis using that obp [OF True] by (simp add: look)
  next
    case False
    with that have "fmlookup (the_index d) q = Some h"
      by (auto simp: look the_index_extends [OF e(1)] split: if_splits)
    then show ?thesis using s(1) by (auto simp: sound_def)
  qed
  ultimately have "fits sha U (with_index m d)" using f s(1) e by (auto simp: fits_def sound_def)
  moreover have "base_at (with_index m d) q = captured d0 snap preserve q" for q
  proof (cases "q \<in> set ps")
    case True
    then show ?thesis using obp [OF True] rd ps by (auto simp: base_at_def captured_def look)
  next
    case False
    have "Option.bind (fmlookup (the_index d0) q) (fmlookup (bs_objects d)) = base_at d0 q"
      using base_at_extends [OF _ e(1), of q] f by (simp add: base_at_def fits_def the_index_extends [OF e(1)])
    then show ?thesis using False ps by (auto simp: base_at_def captured_def look)
  qed
  ultimately show ?thesis by auto
qed

lemma fault_Capture:
  assumes U: "\<forall>p\<in>set snap. \<forall>x. fmlookup (bs_repo d0) p = Some x \<longrightarrow> x \<in> U"
  shows "fault_valid (\<lambda>d. d = d0 \<and> fits sha U d0) (CaptureRepoPreserving sha snap preserve)
    (\<lambda>_ d. fits sha U d \<and> bs_repo d = bs_repo d0 \<and> base_at d = captured d0 snap preserve) (untouched sha U d0)"
proof -
  let ?P = "\<lambda>d. d = d0 \<and> fits sha U d0" and ?E = "untouched sha U d0"
  let ?ps = "sort_unique (filter (\<lambda>p. p \<notin> set preserve) snap)"
  let ?c = "repo_content d0 ?ps"
  let ?V = "\<forall>p\<in>set snap. validateBaseRepoPath p = None"
  let ?R = "\<forall>p\<in>set ?ps. fmlookup (bs_repo d0) p = Some (repo_text d0 p)"
  have PE: "?P d \<Longrightarrow> ?E d" for d by auto
  let ?I = "\<lambda>xs (_ :: unit) d. ?P d \<and> (\<forall>p\<in>set snap. p \<in> set xs \<or> validateBaseRepoPath p = None)"
  have gstep: "fault_valid (?I (x # xs) u) (guard (validateBaseRepoPath x)) (?I xs) ?E" for x xs u
    by (rule fault_guard) (use PE in auto)
  have guards: "fault_valid ?P (forEach (\<lambda>p _. guard (validateBaseRepoPath p)) snap ()) (\<lambda>_ d. ?P d \<and> ?V) ?E"
    by (rule fault_weaken [OF fault_forEach [where I = ?I, OF gstep]]) auto
  have reads: "fault_valid (\<lambda>d. ?P d \<and> ?V) (forEach captureRead ?ps [])
      (\<lambda>c d. ?P d \<and> ?V \<and> c = ?c \<and> ?R) ?E"
    using fault_captureReads [of d0 "fits sha U d0 \<and> ?V" ?E ?ps] by (rule fault_weaken) auto
  have load: "fault_valid (\<lambda>d. ?P d \<and> ?V \<and> c = ?c \<and> ?R) loadIndex
      (\<lambda>m d. ?P d \<and> ?V \<and> c = ?c \<and> ?R \<and> m = the_index d0) ?E" for c
    by (rule fault_weaken [OF fault_loadIndex [of "\<lambda>d. ?P d \<and> ?V \<and> c = ?c \<and> ?R" ?E]]) auto
  have objs: "fault_valid (\<lambda>d. ?P d \<and> ?V \<and> c = ?c \<and> ?R \<and> m = the_index d0) (forEach (captureObject sha) c m)
      (\<lambda>m' d. fits sha U d0 \<and> ?V \<and> ?R \<and> extends sha d0 d \<and> known d \<subseteq> U \<and> m' = put_hashes sha ?c (the_index d0) \<and>
         (\<forall>x\<in>snd ` set ?c. fmlookup (bs_objects d) (sha x) = Some x)) ?E" for c m
  proof (cases "fits sha U d0 \<and> ?V \<and> c = ?c \<and> ?R \<and> m = the_index d0")
    case True
    then have ok: "objects_ok sha d0" "inj_on sha U" by (auto simp: fits_def sound_def)
    have "snd ` set c \<subseteq> U"
      using True U by (auto simp: repo_content_def)
    from fault_captureObjects [OF ok this, of m] show ?thesis
      by (rule fault_weaken) (use True in \<open>auto simp: fits_def intro: untouched_extends\<close>)
  qed (auto intro: fault_pre_False)
  have set_ps: "set ?ps = set snap - set preserve" by auto
  let ?K = "\<lambda>p. p \<in> set preserve \<or> p \<in> set snap"
  have save: "fault_valid (\<lambda>d. fits sha U d0 \<and> ?V \<and> ?R \<and> extends sha d0 d \<and> known d \<subseteq> U \<and>
       m' = put_hashes sha ?c (the_index d0) \<and> (\<forall>x\<in>snd ` set ?c. fmlookup (bs_objects d) (sha x) = Some x))
     (saveIndex (fmfilter ?K m'))
     (\<lambda>_ d. fits sha U d \<and> bs_repo d = bs_repo d0 \<and> base_at d = captured d0 snap preserve) ?E" for m'
  proof (rule fault_saveIndex)
    fix d assume H: "fits sha U d0 \<and> ?V \<and> ?R \<and> extends sha d0 d \<and> known d \<subseteq> U \<and>
       m' = put_hashes sha ?c (the_index d0) \<and> (\<forall>x\<in>snd ` set ?c. fmlookup (bs_objects d) (sha x) = Some x)"
    then have f: "fits sha U d0" and v: "?V" and r: "?R" and e: "extends sha d0 d" and k: "known d \<subseteq> U"
      and m: "m' = put_hashes sha ?c (the_index d0)"
      and o: "\<forall>x\<in>snd ` set ?c. fmlookup (bs_objects d) (sha x) = Some x" by simp_all
    from fits_capture [OF f e k v set_ps r o]
    show "fits sha U (with_index (fmfilter ?K m') d) \<and> bs_repo (with_index (fmfilter ?K m') d) = bs_repo d0 \<and>
      base_at (with_index (fmfilter ?K m') d) = captured d0 snap preserve"
      unfolding m [symmetric] by (simp only: with_index_simps extendsD(2) [OF e] simp_thms)
    show "?E d" by (rule untouched_extends [OF f e k])
  qed
  show ?thesis unfolding CaptureRepoPreserving_def Let_def
    by (rule fault_andThen [OF guards], rule fault_andThen [OF reads], rule fault_andThen [OF load],
        rule fault_andThen [OF objs], rule save)
qed

section \<open>Runs without faults\<close>

lemma run_guard [simp]: "run (guard e) d = (case e of None \<Rightarrow> Inr () | Some x \<Rightarrow> Inl x, d)"
  by (simp add: guard_def split: option.split)

lemma lawful_base [lawful_intros]:
  "lawful (guard e)" "lawful loadIndex" "lawful (saveIndex m)" "lawful (putObject sha x)" "lawful (readObject p h)"
  by (auto simp: guard_def loadIndex_def saveIndex_def putObject_def readObject_def Let_def
      intro!: lawful_intros split: option.split)

lemma run_loadIndex: "readable d \<Longrightarrow> run loadIndex d = (Inr (the_index d), d)"
  by (auto simp: loadIndex_def readable_def the_index_def split: option.splits index_file.splits)

lemma run_putObject:
  "run (putObject sha x) d =
     (Inr (sha x), if fmlookup (bs_objects d) (sha x) \<noteq> None then d
                   else d\<lparr>bs_objects := fmupd (sha x) x (bs_objects d)\<rparr>)"
  by (simp add: putObject_def Let_def run_andThen lawful_intros)

lemma run_saveIndex: "run (saveIndex m) d = (Inr (), with_index m d)"
  by (simp add: saveIndex_def with_index_def)

lemma run_BasePut_ok:
  assumes "readable d" "validateBaseRepoPath p = None"
  shows "fst (run (BasePut sha p x) d) = Inr ()"
  by (simp add: BasePut_def run_andThen lawful_intros assms run_loadIndex run_putObject run_saveIndex)

lemma run_BaseDelete_ok:
  assumes "readable d" "validateBaseRepoPath p = None"
  shows "fst (run (BaseDelete p) d) = Inr ()"
  by (simp add: BaseDelete_def run_andThen lawful_intros assms run_loadIndex run_saveIndex)

lemma fits_readable: "fits sha U d \<Longrightarrow> readable d"
  by (simp add: fits_def sound_def)

lemma run_BaseGet:
  assumes "fits sha U d" "validateBaseRepoPath p = None"
  shows "run (BaseGet sha p) d = (Inr (base_at d p), d)"
proof (cases "fmlookup (the_index d) p")
  case None
  then show ?thesis
    using run_loadIndex [OF fits_readable [OF assms(1)]] assms(2)
    by (simp add: BaseGet_def run_andThen lawful_intros base_at_def)
next
  case (Some h)
  then have "fmlookup (bs_objects d) h \<noteq> None" using assms(1) unfolding fits_def sound_def by blast
  then obtain x where x: "fmlookup (bs_objects d) h = Some x" by blast
  have "sha x = h" using x assms(1) by (simp add: fits_def sound_def objects_ok_def)
  moreover have "validateObjectHash h = None"
    using Some readable_the_index [OF fits_readable [OF assms(1)]] by (simp add: index_valid_iff)
  ultimately show ?thesis
    using run_loadIndex [OF fits_readable [OF assms(1)]] assms(2) Some x
    by (simp add: BaseGet_def run_andThen lawful_intros base_at_def readObject_def)
qed

section \<open>The interface its clients use\<close>

definition replay :: "('k \<Rightarrow> 'v \<Rightarrow> 's \<Rightarrow> 's) \<Rightarrow> ('k \<Rightarrow> 's \<Rightarrow> 's) \<Rightarrow> ('k \<times> 'v option) list \<Rightarrow> 's \<Rightarrow> 's" where
  "replay put del ops s = foldl (\<lambda>s (k, v). case v of Some x \<Rightarrow> put k x s | None \<Rightarrow> del k s) s ops"

definition replay_map :: "('k \<times> 'v option) list \<Rightarrow> ('k \<Rightarrow> 'v option) \<Rightarrow> 'k \<Rightarrow> 'v option" where
  "replay_map ops m = foldl (\<lambda>m (k, v). m(k := v)) m ops"

locale keyed_store =
  fixes inv :: "'s \<Rightarrow> bool" and key_ok :: "'k \<Rightarrow> bool" and val_ok :: "'v \<Rightarrow> bool"
    and get :: "'s \<Rightarrow> 'k \<Rightarrow> 'v option" and put :: "'k \<Rightarrow> 'v \<Rightarrow> 's \<Rightarrow> 's" and del :: "'k \<Rightarrow> 's \<Rightarrow> 's"
  assumes put_inv: "inv s \<Longrightarrow> key_ok k \<Longrightarrow> val_ok v \<Longrightarrow> inv (put k v s)"
    and put_get: "inv s \<Longrightarrow> key_ok k \<Longrightarrow> val_ok v \<Longrightarrow> get (put k v s) = (get s)(k := Some v)"
    and del_inv: "inv s \<Longrightarrow> key_ok k \<Longrightarrow> inv (del k s)"
    and del_get: "inv s \<Longrightarrow> key_ok k \<Longrightarrow> get (del k s) = (get s)(k := None)"
begin

definition op_ok :: "'k \<times> 'v option \<Rightarrow> bool" where
  "op_ok = (\<lambda>(k, v). key_ok k \<and> (\<forall>x. v = Some x \<longrightarrow> val_ok x))"

lemma replay_refines:
  "inv s \<Longrightarrow> \<forall>x\<in>set ops. op_ok x \<Longrightarrow>
     inv (replay put del ops s) \<and> get (replay put del ops s) = replay_map ops (get s)"
proof (induction ops arbitrary: s)
  case Nil
  then show ?case by (simp add: replay_def replay_map_def)
next
  case (Cons x ops)
  obtain k v where x: "x = (k, v)" by (cases x)
  let ?s = "case v of Some y \<Rightarrow> put k y s | None \<Rightarrow> del k s"
  have "inv ?s \<and> get ?s = (get s)(k := v)"
    using Cons.prems x by (auto simp: op_ok_def put_inv put_get del_inv del_get split: option.split)
  moreover have "\<forall>x\<in>set ops. op_ok x" using Cons.prems(2) by simp
  ultimately show ?case using Cons.IH [of ?s] by (simp add: x replay_def replay_map_def fun_upd_def)
qed

end

definition put_run :: "(string \<Rightarrow> string) \<Rightarrow> string \<Rightarrow> string \<Rightarrow> base_disk \<Rightarrow> base_disk" where
  "put_run sha p x d = snd (run (BasePut sha p x) d)"

definition del_run :: "string \<Rightarrow> base_disk \<Rightarrow> base_disk" where
  "del_run p d = snd (run (BaseDelete p) d)"

lemma put_run_effect:
  assumes "fits sha U d" "validateBaseRepoPath p = None" "x \<in> U"
  shows "fits sha U (put_run sha p x d) \<and> base_at (put_run sha p x d) = (base_at d)(p := Some x)"
proof -
  have "run (BasePut sha p x) d = (Inr (), put_run sha p x d)"
    using run_BasePut_ok [OF fits_readable [OF assms(1)] assms(2), of sha x]
    by (simp add: put_run_def prod_eq_iff)
  from fault_run [OF fault_BasePut [OF assms(3), of d sha p] _ this] assms(1) show ?thesis by simp
qed

lemma del_run_effect:
  assumes "fits sha U d" "validateBaseRepoPath p = None"
  shows "fits sha U (del_run p d) \<and> base_at (del_run p d) = (base_at d)(p := None)"
proof -
  have "run (BaseDelete p) d = (Inr (), del_run p d)"
    using run_BaseDelete_ok [OF fits_readable [OF assms(1)] assms(2)]
    by (simp add: del_run_def prod_eq_iff)
  from fault_run [OF fault_BaseDelete [of d sha U p] _ this] assms(1) show ?thesis by simp
qed

interpretation base: keyed_store "fits sha U" "\<lambda>p. validateBaseRepoPath p = None" "\<lambda>x. x \<in> U"
    base_at "put_run sha" del_run for sha U
  by unfold_locales (simp_all add: put_run_effect del_run_effect)

section \<open>A concrete digest and store\<close>

definition toy_sha :: "string \<Rightarrow> string" where
  "toy_sha s = replicate 63 (CHR ''0'') @ [if s = ''x'' then CHR ''1'' else CHR ''2'']"

definition toy_disk :: base_disk where
  "toy_disk = \<lparr>bs_index = None, bs_objects = fmempty, bs_repo = fmap_of_list [(''agents/a'', ''x''), (''agents/b'', ''y'')]\<rparr>"

lemma fits_toy: "fits toy_sha {''x'', ''y''} toy_disk"
  by (auto simp: fits_def sound_def readable_def objects_ok_def toy_disk_def known_def hex_digest_def toy_sha_def
      validateObjectHash_def the_index_def is_hex_digit_def list_all_iff)

section \<open>Properties\<close>

datatype base_op = PutOp string string | DeleteOp string | CaptureOp "string list" "string list"

fun perform :: "(string \<Rightarrow> string) \<Rightarrow> base_op \<Rightarrow> unit base_io" where
  "perform sha (PutOp p x) = BasePut sha p x"
| "perform sha (DeleteOp p) = BaseDelete p"
| "perform sha (CaptureOp snap preserve) = CaptureRepoPreserving sha snap preserve"

text \<open>What the operation means, on the map from paths to recorded contents.\<close>

fun base_effect :: "base_op \<Rightarrow> base_disk \<Rightarrow> string \<Rightarrow> string option" where
  "base_effect (PutOp p x) d = (base_at d)(p := Some x)"
| "base_effect (DeleteOp p) d = (base_at d)(p := None)"
| "base_effect (CaptureOp snap preserve) d = captured d snap preserve"

fun op_contents :: "base_op \<Rightarrow> base_disk \<Rightarrow> string set" where
  "op_contents (PutOp p x) d = {x}"
| "op_contents (DeleteOp p) d = {}"
| "op_contents (CaptureOp snap preserve) d = {x. \<exists>p\<in>set snap. fmlookup (bs_repo d) p = Some x}"

text \<open> C38. Whatever operations fail and whenever the process dies, each update of the base store is all
  or nothing: after a normal return the recorded contents are exactly what the operation means
  (for a capture: the repository's content on the snapshot, the old base on preserved paths,
  nothing elsewhere), after an error or a crash they are unchanged, and in every case the store is
  sound, so that each index entry has an object with the right digest. \<close>

theorem base_store_survives_faults:
  assumes "fits sha U d" and "op_contents bop d \<subseteq> U" and "perform sha bop (boot d fs) = (r, w)"
  shows "fits sha U (w_disk w) \<and>
    base_at (w_disk w) = (case r of Inr _ \<Rightarrow> base_effect bop d | Inl _ \<Rightarrow> base_at d)"
proof -
  have "fault_valid (\<lambda>d'. d' = d \<and> fits sha U d) (perform sha bop)
      (\<lambda>_ d'. fits sha U d' \<and> bs_repo d' = bs_repo d \<and> base_at d' = base_effect bop d) (untouched sha U d)"
    using assms(2) by (cases bop) (auto intro!: fault_BasePut fault_BaseDelete fault_Capture)
  from fault_validD [OF this _ assms(3)] assms(1) show ?thesis
    by (cases r) (auto simp: boot_def untouched_def)
qed

lemma base_store_survives_faults_witness:
  "base_at (w_disk (snd (perform toy_sha (CaptureOp [''agents/a'', ''agents/b''] [])
      (boot toy_disk [Works, Works, Works, Works, Works, Dies []])))) \<in>
     {base_at toy_disk, captured toy_disk [''agents/a'', ''agents/b''] []}"
proof -
  let ?op = "CaptureOp [''agents/a'', ''agents/b''] []" and ?fs = "[Works, Works, Works, Works, Works, Dies []]"
  have "op_contents ?op toy_disk \<subseteq> {''x'', ''y''}" by (auto simp: toy_disk_def split: if_splits)
  from base_store_survives_faults [OF fits_toy this prod.collapse [symmetric], of ?fs] show ?thesis
    by (auto split: sum.splits)
qed

text \<open> C40. The store refines a map: after any sequence of Put and Delete with valid paths, Get returns
  the last value put for the path since its last deletion, or nothing. \<close>

theorem base_store_refines_map:
  assumes "fits sha U d" and "\<forall>(p, v)\<in>set ops. validateBaseRepoPath p = None \<and> (\<forall>x. v = Some x \<longrightarrow> x \<in> U)"
    and "validateBaseRepoPath q = None"
  shows "run (BaseGet sha q) (replay (put_run sha) del_run ops d) =
    (Inr (replay_map ops (base_at d) q), replay (put_run sha) del_run ops d)"
proof -
  have "\<forall>x\<in>set ops. base.op_ok U x" using assms(2) by (auto simp: base.op_ok_def)
  note R = base.replay_refines [OF assms(1) this]
  show ?thesis using run_BaseGet [OF R [THEN conjunct1] assms(3)] by (simp only: R)
qed

lemma base_store_refines_map_witness:
  "fst (run (BaseGet toy_sha ''agents/a'') (replay (put_run toy_sha) del_run
      [(''agents/a'', Some ''y''), (''agents/b'', Some ''x''), (''agents/a'', Some ''x''), (''agents/b'', None)] toy_disk)) =
     Inr (Some ''x'')"
proof -
  have v: "validateBaseRepoPath ''agents/a'' = None" "validateBaseRepoPath ''agents/b'' = None" by code_simp+
  have "base_at toy_disk ''agents/a'' = None" by (simp add: base_at_def the_index_def toy_disk_def)
  then show ?thesis
    using base_store_refines_map [OF fits_toy _ v(1), of "[(''agents/a'', Some ''y''), (''agents/b'', Some ''x''),
      (''agents/a'', Some ''x''), (''agents/b'', None)]"] v
    by (simp add: replay_map_def)
qed

text \<open>Get never returns bytes whose digest is not the one the index records for the path, on any
  disk and under any schedule: a damaged object is an error, not data.\<close>

lemma base_get_checks_integrity:
  assumes "BaseGet sha p (boot d fs) = (Inr (Some data), w)"
  shows "fmlookup (the_index d) p = Some (sha data) \<and> w_disk w = d"
proof -
  let ?D = "\<lambda>d'. d' = d" and ?T = "\<lambda>_ :: base_disk. True"
  let ?Q = "\<lambda>r d'. d' = d \<and> (\<forall>x. r = Some x \<longrightarrow> fmlookup (the_index d) p = Some (sha x))"
  let ?I = "\<lambda>m d'. d' = d \<and> m = the_index d"
  have load: "fault_valid ?D loadIndex ?I ?T"
    by (rule fault_weaken [OF fault_loadIndex [of ?D ?T]]) auto
  have rest: "fault_valid (?I m) (case fmlookup m p of None \<Rightarrow> ret None
     | Some h \<Rightarrow> andThen (guard (validateObjectHash h)) (\<lambda>_. andThen (readObject p h) (\<lambda>data.
         if sha data \<noteq> h then raise (IntegrityFailed h p) else ret (Some data)))) ?Q ?T" for m
  proof (cases "fmlookup m p")
    case None
    then show ?thesis by (auto intro: fault_ret)
  next
    case (Some h)
    have read: "fault_valid (?I m) (readObject p h) (\<lambda>_. ?I m) ?T"
      unfolding readObject_def by (rule fault_read_tick) auto
    have "fault_valid (?I m) (andThen (guard (validateObjectHash h)) (\<lambda>_. andThen (readObject p h) (\<lambda>data.
         if sha data \<noteq> h then raise (IntegrityFailed h p) else ret (Some data)))) ?Q ?T"
      by (rule fault_andThen [OF fault_guard [where Q = "\<lambda>_. ?I m"]], assumption, simp,
          rule fault_andThen [OF read], rule fault_if, rule fault_raise, simp, rule fault_ret)
        (use Some in auto)
    then show ?thesis using Some by simp
  qed
  have "fault_valid ?D (BaseGet sha p) ?Q ?T"
    unfolding BaseGet_def
    by (rule fault_andThen [OF fault_guard [where Q = "\<lambda>_. ?D"]], assumption, simp,
        rule fault_andThen [OF load rest])
  from fault_validD(1) [OF this _ assms, of "Some data"] show ?thesis by (simp add: boot_def)
qed

lemma base_get_checks_integrity_witness:
  "\<exists>w. BaseGet toy_sha ''agents/a'' (boot (put_run toy_sha ''agents/a'' ''x'' toy_disk) []) = (Inr (Some ''x''), w) \<and>
     fmlookup (the_index (put_run toy_sha ''agents/a'' ''x'' toy_disk)) ''agents/a'' = Some (toy_sha ''x'')"
proof -
  let ?d = "put_run toy_sha ''agents/a'' ''x'' toy_disk"
  have "fst (BaseGet toy_sha ''agents/a'' (boot ?d [])) = Inr (Some ''x'')" by code_simp
  then obtain w where w: "BaseGet toy_sha ''agents/a'' (boot ?d []) = (Inr (Some ''x''), w)"
    by (metis prod.collapse)
  from base_get_checks_integrity [OF w] w show ?thesis by blast
qed

text \<open>A damaged object is never repaired: Put of the very bytes it should hold finds a file of
  that name, keeps it, and the following Get still fails its integrity check.\<close>

lemma base_put_keeps_damaged_object:
  assumes "readable d" and "validateBaseRepoPath p = None" and "validateObjectHash (sha x) = None"
    and "fmlookup (bs_objects d) (sha x) = Some y" and "sha y \<noteq> sha x"
  shows "\<exists>d'. run (BasePut sha p x) d = (Inr (), d') \<and>
    fst (run (BaseGet sha p) d') = Inl (IntegrityFailed (sha x) p)"
proof -
  let ?d = "with_index (fmupd p (sha x) (the_index d)) d"
  have put: "run (BasePut sha p x) d = (Inr (), ?d)"
    by (simp add: BasePut_def run_andThen lawful_intros assms run_loadIndex run_putObject run_saveIndex)
  have "index_valid (fmupd p (sha x) (the_index d))"
    using readable_the_index [OF assms(1)] assms(2,3) by (auto simp: index_valid_iff)
  then have "run loadIndex ?d = (Inr (fmupd p (sha x) (the_index d)), ?d)"
    using run_loadIndex [of ?d] by simp
  then have "fst (run (BaseGet sha p) ?d) = Inl (IntegrityFailed (sha x) p)"
    by (simp add: BaseGet_def run_andThen lawful_intros assms readObject_def)
  with put show ?thesis by blast
qed

lemma base_put_keeps_damaged_object_witness:
  "\<exists>d'. run (BasePut toy_sha ''agents/a'' ''x'')
       (toy_disk\<lparr>bs_objects := fmap_of_list [(toy_sha ''x'', ''damaged'')]\<rparr>) = (Inr (), d') \<and>
     fst (run (BaseGet toy_sha ''agents/a'') d') = Inl (IntegrityFailed (toy_sha ''x'') ''agents/a'')"
proof -
  have "validateBaseRepoPath ''agents/a'' = None" "validateObjectHash (toy_sha ''x'') = None" by code_simp+
  moreover have "readable (toy_disk\<lparr>bs_objects := fmap_of_list [(toy_sha ''x'', ''damaged'')]\<rparr>)"
    by (simp add: readable_def toy_disk_def)
  ultimately show ?thesis
    by (intro base_put_keeps_damaged_object [where y = "''damaged''"]) (simp_all add: fmlookup_of_list toy_sha_def)
qed

end
