(* ===== verification/Go_Text.thy ===== *)
theory Go_Text
  imports Base_Store
begin

text \<open>
  Texts of the Go standard library that only a few components use: unsigned decimal numbers
  (strconv), \<open>strings.Fields\<close>, hexadecimal digests and \<open>url.PathEscape\<close>, with the round trip of
  the numbers.
\<close>

section \<open>Decimal numbers\<close>

definition is_digit :: "char \<Rightarrow> bool" where
  "is_digit c \<longleftrightarrow> CHR ''0'' \<le> c \<and> c \<le> CHR ''9''"

definition digit_char :: "nat \<Rightarrow> char" where
  "digit_char n = char_of (48 + n)"

definition digit_val :: "char \<Rightarrow> nat" where
  "digit_val c = of_char c - 48"

fun show_nat :: "nat \<Rightarrow> string" where
  "show_nat n = (if n < 10 then [digit_char n] else show_nat (n div 10) @ [digit_char (n mod 10)])"

declare show_nat.simps [simp del]

definition decimal :: "string \<Rightarrow> nat" where
  "decimal s = foldl (\<lambda>n c. 10 * n + digit_val c) 0 s"

text \<open>\<open>strconv.ParseUint(s, 10, bits)\<close>.\<close>

definition parseUint :: "nat \<Rightarrow> string \<Rightarrow> nat option" where
  "parseUint bits s =
     (if s = [] \<or> \<not> list_all is_digit s then None
      else if int (decimal s) < 2 ^ bits then Some (decimal s) else None)"

lemma digit_char_facts:
  assumes "n < 10"
  shows "is_digit (digit_char n)" "digit_val (digit_char n) = n"
proof -
  have "n \<in> {0, 1, 2, 3, 4, 5, 6, 7, 8, 9}" using assms by auto
  then have "is_digit (digit_char n) \<and> digit_val (digit_char n) = n"
    by (auto simp: is_digit_def digit_char_def digit_val_def less_eq_char_def)
  then show "is_digit (digit_char n)" "digit_val (digit_char n) = n" by auto
qed

lemma show_nat_nonempty [simp]: "show_nat n \<noteq> []"
  by (subst show_nat.simps) simp

lemma show_nat_digits: "list_all is_digit (show_nat n)"
proof (induction n rule: show_nat.induct)
  case (1 n)
  then show ?case by (subst show_nat.simps) (simp add: digit_char_facts)
qed

lemma decimal_show_nat [simp]: "decimal (show_nat n) = n"
proof (induction n rule: show_nat.induct)
  case (1 n)
  show ?case
  proof (cases "n < 10")
    case True
    then show ?thesis by (subst show_nat.simps) (simp add: decimal_def digit_char_facts)
  next
    case False
    then have "decimal (show_nat n) = 10 * decimal (show_nat (n div 10)) + n mod 10"
      by (subst show_nat.simps) (simp add: decimal_def digit_char_facts)
    then show ?thesis using 1 False by simp
  qed
qed

lemma parseUint_show_nat [simp]: "n < 2 ^ bits \<Longrightarrow> parseUint bits (show_nat n) = Some n"
  using show_nat_digits [of n] by (simp add: parseUint_def flip: of_nat_less_iff)

lemma parseUint_bound: "parseUint bits s = Some n \<Longrightarrow> n < 2 ^ bits"
  by (auto simp: parseUint_def simp flip: of_nat_less_iff split: if_splits)

section \<open>Digests, fields and escapes\<close>

text \<open>\<open>hex.DecodeString\<close> succeeds with 32 bytes.\<close>

definition sha256Hex :: "string \<Rightarrow> bool" where
  "sha256Hex s \<longleftrightarrow> length s = 64 \<and> list_all is_hex_digit s"

fun word_split :: "string \<Rightarrow> string \<times> string" where
  "word_split [] = ([], [])"
| "word_split (c # cs) =
     (if starts_with_space (c # cs) then ([], c # cs)
      else case word_split cs of (w, rest) \<Rightarrow> (c # w, rest))"

lemma word_split_rest: "\<not> starts_with_space s \<Longrightarrow> s \<noteq> [] \<Longrightarrow> length (snd (word_split s)) < length s"
proof (induction s)
  case (Cons c cs)
  have "length (snd (word_split cs)) \<le> length cs" by (induction cs) (auto split: prod.split)
  then show ?case using Cons.prems by (auto split: prod.split)
qed simp

lemma trim_prefixes_length: "length (trim_prefixes ws s) \<le> length s"
proof (induction ws s rule: trim_prefixes.induct)
  case (1 ws s)
  then show ?case
    by (subst trim_prefixes.simps) (force split: option.split intro: order_trans)
qed

text \<open>\<open>strings.Fields\<close>.\<close>

function go_fields :: "string \<Rightarrow> string list" where
  "go_fields s =
     (let t = trim_prefixes go_spaces s
      in if t = [] then [] else case word_split t of (w, rest) \<Rightarrow> w # go_fields rest)"
  by pat_completeness auto
termination
proof (relation "measure length", goal_cases)
  case 1
  show ?case by simp
next
  case (2 s t w rest)
  have "\<not> starts_with_space t"
    using trim_prefixes_fixed [of _ go_spaces s] 2(1) go_spaces_nonempty
    by (auto simp: starts_with_space_def list_ex_iff)
  then have "length rest < length t" using word_split_rest [of t] 2 by (metis snd_conv)
  then show ?case using trim_prefixes_length [of go_spaces s] 2(1) by simp
qed

declare go_fields.simps [simp del]

text \<open>\<open>url.PathEscape\<close>, byte by byte.\<close>

definition hex_char :: "nat \<Rightarrow> char" where
  "hex_char n = (if n < 10 then digit_char n else char_of (55 + n))"

definition path_unreserved :: "char \<Rightarrow> bool" where
  "path_unreserved c \<longleftrightarrow> is_digit c \<or> is_drive_letter c \<or> c \<in> set ''-_.~$&+:=@''"

definition PathEscape :: "string \<Rightarrow> string" where
  "PathEscape = concat \<circ> map (\<lambda>c. if path_unreserved c then [c]
     else [CHR ''%'', hex_char (of_char c div 16), hex_char (of_char c mod 16)])"

lemma PathEscape_id: "list_all path_unreserved s \<Longrightarrow> PathEscape s = s"
  by (induction s) (auto simp: PathEscape_def)

end
