(* ===== verification/Fault_Logic.thy ===== *)
theory Fault_Logic
  imports Fault_IO
begin

text \<open>
  A program logic for operations that fail or die, whatever the schedule: \<open>outcome_valid P m Q E C\<close> says
  that from a disk with \<open>P\<close> a living process reaches \<open>Q\<close> on a normal return and \<open>E\<close> on an error, and
  that the disk satisfies \<open>C\<close> when it dies on the way.
\<close>

definition outcome_valid ::
  "('d \<Rightarrow> bool) \<Rightarrow> ('d, 'e, 'a) io \<Rightarrow> ('a \<Rightarrow> 'd \<Rightarrow> bool) \<Rightarrow> ('e \<Rightarrow> 'd \<Rightarrow> bool) \<Rightarrow> ('d \<Rightarrow> bool) \<Rightarrow> bool"
where
  "outcome_valid P m Q E C \<longleftrightarrow>
     (\<forall>w. \<not> w_dead w \<and> P (w_disk w) \<longrightarrow>
        (case m w of (r, w') \<Rightarrow>
           if w_dead w' then C (w_disk w')
           else case r of Inl e \<Rightarrow> E e (w_disk w') | Inr a \<Rightarrow> Q a (w_disk w')))"

lemma outcome_validD:
  assumes "outcome_valid P m Q E C" "\<not> w_dead w" "P (w_disk w)" "m w = (r, w')"
  shows "w_dead w' \<Longrightarrow> C (w_disk w')"
    "\<not> w_dead w' \<Longrightarrow> r = Inl e \<Longrightarrow> E e (w_disk w')"
    "\<not> w_dead w' \<Longrightarrow> r = Inr a \<Longrightarrow> Q a (w_disk w')"
  using assms unfolding outcome_valid_def by fastforce+

lemma outcome_tick:
  assumes "\<And>d r d'. P d \<Longrightarrow> f d = (r, d') \<Longrightarrow> (case r of Inl e \<Rightarrow> E e d' | Inr a \<Rightarrow> Q a d')"
    and "\<And>d ns. P d \<Longrightarrow> E e (partial d ns)" "\<And>d ns. P d \<Longrightarrow> C (partial d ns)"
  shows "outcome_valid P (tick e partial f) Q E C"
  unfolding outcome_valid_def tick_def
  by (auto split: list.split fault.split prod.split sum.split dest: assms)

lemma outcome_read_tick:
  assumes "\<And>d a. P d \<Longrightarrow> f d = Inr a \<Longrightarrow> Q a d" "\<And>d e'. P d \<Longrightarrow> E e' d" "\<And>d. P d \<Longrightarrow> C d"
  shows "outcome_valid P (read_tick e f) Q E C"
  unfolding read_tick_def by (rule outcome_tick) (use assms in \<open>auto split: sum.split\<close>)

lemma outcome_attempt:
  assumes "outcome_valid P m R F C" and "\<And>a. outcome_valid (R a) (f (Inr a)) Q E C"
    and "\<And>e. outcome_valid (F e) (f (Inl e)) Q E C" and "\<And>r. lawful (f r)"
  shows "outcome_valid P (attempt m f) Q E C"
  unfolding outcome_valid_def
proof (intro allI impI)
  fix w :: "'a world" assume w: "\<not> w_dead w \<and> P (w_disk w)"
  obtain r w' where m: "m w = (r, w')" by (cases "m w")
  obtain r'' w'' where f: "f r w' = (r'', w'')" by (cases "f r w'")
  have D: "if w_dead w' then C (w_disk w') else case r of Inl e \<Rightarrow> F e (w_disk w') | Inr a \<Rightarrow> R a (w_disk w')"
    using assms(1) w m unfolding outcome_valid_def by fastforce
  have "if w_dead w'' then C (w_disk w'') else case r'' of Inl e \<Rightarrow> E e (w_disk w'') | Inr a \<Rightarrow> Q a (w_disk w'')"
  proof (cases "w_dead w'")
    case True
    then have "w'' = w'" using lawfulD(1) [OF assms(4) f] by simp
    then show ?thesis using D True by simp
  next
    case False
    show ?thesis
    proof (cases r)
      case (Inl e)
      then show ?thesis using assms(3) [of e] D False f unfolding outcome_valid_def by fastforce
    next
      case (Inr a)
      then show ?thesis using assms(2) [of a] D False f unfolding outcome_valid_def by fastforce
    qed
  qed
  then show "case attempt m f w of (r, w') \<Rightarrow> if w_dead w' then C (w_disk w')
      else case r of Inl e \<Rightarrow> E e (w_disk w') | Inr a \<Rightarrow> Q a (w_disk w')"
    using m f by (simp add: attempt_def)
qed

lemma outcome_ret: "(\<And>d. P d \<Longrightarrow> Q a d) \<Longrightarrow> outcome_valid P (ret a) Q E C"
  by (simp add: outcome_valid_def ret_def)

lemma outcome_raise: "(\<And>d. P d \<Longrightarrow> E e d) \<Longrightarrow> outcome_valid P (raise e) Q E C"
  by (simp add: outcome_valid_def raise_def)

lemma outcome_andThen:
  assumes "outcome_valid P m R E C" "\<And>a. outcome_valid (R a) (f a) Q E C" "\<And>a. lawful (f a)"
  shows "outcome_valid P (andThen m f) Q E C"
  unfolding andThen_attempt
  by (rule outcome_attempt [OF assms(1)])
    (use assms(2,3) in \<open>auto intro: outcome_raise lawful_raise split: sum.split\<close>)

lemma outcome_if:
  assumes "b \<Longrightarrow> outcome_valid P m Q E C" "\<not> b \<Longrightarrow> outcome_valid P n Q E C"
  shows "outcome_valid P (if b then m else n) Q E C"
  using assms by simp

lemma outcome_weaken:
  assumes "outcome_valid P' m Q' E' C'" "\<And>d. P d \<Longrightarrow> P' d" "\<And>a d. Q' a d \<Longrightarrow> Q a d"
    "\<And>e d. E' e d \<Longrightarrow> E e d" "\<And>d. C' d \<Longrightarrow> C d"
  shows "outcome_valid P m Q E C"
  using assms unfolding outcome_valid_def by (fastforce split: prod.split sum.split if_splits)

text \<open>What the precondition says can be taken apart, one disk at a time.\<close>

lemma outcome_at:
  assumes "\<And>x. P x \<Longrightarrow> outcome_valid (\<lambda>d. d = x) m Q E C"
  shows "outcome_valid P m Q E C"
  using assms unfolding outcome_valid_def by fastforce

lemma outcome_forEach:
  assumes "\<And>x xs s. outcome_valid (I (x # xs) s) (f x s) (I xs) E C" "\<And>x s. lawful (f x s)"
  shows "outcome_valid (I xs s) (forEach f xs s) (I []) E C"
proof (induction xs arbitrary: s)
  case Nil
  then show ?case by (simp add: outcome_ret)
next
  case (Cons x xs)
  show ?case by (simp, rule outcome_andThen [OF assms(1) Cons.IH]) (intro lawful_intros assms(2))
qed

lemma outcome_forEach_in:
  assumes "\<And>x xs s. set (x # xs) \<subseteq> A \<Longrightarrow> outcome_valid (I (x # xs) s) (f x s) (I xs) E C" "\<And>x s. lawful (f x s)"
  shows "set xs \<subseteq> A \<Longrightarrow> outcome_valid (I xs s) (forEach f xs s) (I []) E C"
proof (induction xs arbitrary: s)
  case Nil
  then show ?case by (simp add: outcome_ret)
next
  case (Cons x xs)
  then have "set xs \<subseteq> A" by simp
  then show ?case by (simp, rule outcome_andThen [OF assms(1) [OF Cons.prems] Cons.IH]) (intro lawful_intros assms(2))
qed

end
