(* ===== verification/Credential_Store.thy ===== *)
theory Credential_Store
  imports Go_Text Fault_Logic
begin

text \<open>
  The credentials SyncHub keeps (\<open>internal/auth/keyring.go\<close>, \<open>credential.go\<close>, \<open>internal/cli/credential.go\<close>): the tokens
  of the GitHub accounts in the keyring of the system, under the current and under a legacy service name, and the
  credential helper git calls with a request on its standard input.  The keyring is a map from services and users to
  tokens whose operations may fail; what the helper writes to its output is part of the state.  Shown here: what a
  token is ever written for, and that forgetting an account is all or nothing.
\<close>

section \<open>State\<close>

record account =
  ac_id :: int
  ac_login :: string
  ac_scopes :: "string list"

record vault =
  va_keyring :: "(string \<times> string, string) fmap"
  va_account :: "account stored option"
  va_output :: string

datatype cred_error =
    NotFound
  | KeyringError
  | AccountRequired
  | TokenRequired
  | ReadBeforeReset
  | DeleteFailed bool
  | LineTooLong
  | ControlCharacter
  | NotAField
  | DuplicateField string
  | NotGitHub
  | NoAccount
  | UnsupportedOperation string
  | OutputFailed
  | BadMetadata

type_synonym 'a vault_io = "(vault, cred_error, 'a) io"

definition keyringService :: string where
  "keyringService = ''io.github.qinqingxu.synchub/github-oauth''"

definition legacyKeyringService :: string where
  "legacyKeyringService = ''io.github.qinqingxu.acsync/github-oauth''"

definition accountKey :: "int \<Rightarrow> string" where
  "accountKey i = (if i < 0 then CHR ''-'' # show_nat (nat (- i)) else show_nat (nat i))"

section \<open>The keyring\<close>

definition keyringSet :: "string \<Rightarrow> string \<Rightarrow> string \<Rightarrow> unit vault_io" where
  "keyringSet service user token = tick KeyringError (\<lambda>s _. s)
     (\<lambda>s. (Inr (), s\<lparr>va_keyring := fmupd (service, user) token (va_keyring s)\<rparr>))"

definition keyringGet :: "string \<Rightarrow> string \<Rightarrow> string vault_io" where
  "keyringGet service user = read_tick KeyringError (\<lambda>s.
     case fmlookup (va_keyring s) (service, user) of None \<Rightarrow> Inl NotFound | Some token \<Rightarrow> Inr token)"

definition keyringDelete :: "string \<Rightarrow> string \<Rightarrow> unit vault_io" where
  "keyringDelete service user = tick KeyringError (\<lambda>s _. s) (\<lambda>s.
     if fmlookup (va_keyring s) (service, user) = None then (Inl NotFound, s)
     else (Inr (), s\<lparr>va_keyring := fmdrop (service, user) (va_keyring s)\<rparr>))"

definition SaveToken :: "account \<Rightarrow> string \<Rightarrow> unit vault_io" where
  "SaveToken account token =
     (if ac_id account = 0 \<or> token = [] then raise TokenRequired
      else keyringSet keyringService (accountKey (ac_id account)) token)"

definition Token :: "int \<Rightarrow> string vault_io" where
  "Token i =
     (if i = 0 then raise AccountRequired
      else attempt (keyringGet keyringService (accountKey i)) (\<lambda>r. case r of
        Inr token \<Rightarrow> ret token
      | Inl e \<Rightarrow> if e \<noteq> NotFound then raise e else keyringGet legacyKeyringService (accountKey i)))"

definition DeleteToken :: "int \<Rightarrow> unit vault_io" where
  "DeleteToken i = (if i = 0 then raise AccountRequired else keyringDelete keyringService (accountKey i))"

text \<open>\<open>Forget\<close>: the credentials that exist are read first; when one of them cannot be deleted all of them are put back.\<close>

definition readExisting :: "string \<Rightarrow> string \<Rightarrow> (string \<times> string) list \<Rightarrow> (string \<times> string) list vault_io" where
  "readExisting key service existing =
     attempt (keyringGet service key) (\<lambda>r. case r of
       Inl e \<Rightarrow> if e = NotFound then ret existing else raise ReadBeforeReset
     | Inr token \<Rightarrow> ret (existing @ [(service, token)]))"

definition putBack :: "string \<Rightarrow> string \<times> string \<Rightarrow> bool \<Rightarrow> bool vault_io" where
  "putBack key = (\<lambda>(service, token) restored.
     attempt (keyringSet service key token) (\<lambda>r. case r of Inl _ \<Rightarrow> ret False | Inr _ \<Rightarrow> ret restored))"

definition deleteExisting :: "string \<Rightarrow> (string \<times> string) list \<Rightarrow> string \<times> string \<Rightarrow> unit \<Rightarrow> unit vault_io" where
  "deleteExisting key existing = (\<lambda>(service, _) _.
     attempt (keyringDelete service key) (\<lambda>r. case r of
       Inr _ \<Rightarrow> ret ()
     | Inl e \<Rightarrow> if e = NotFound then ret ()
         else andThen (forEach (putBack key) existing True) (\<lambda>restored. raise (DeleteFailed restored))))"

definition Forget :: "int \<Rightarrow> unit vault_io" where
  "Forget i =
     (if i = 0 then raise AccountRequired
      else let key = accountKey i in
        andThen (forEach (readExisting key) [keyringService, legacyKeyringService] []) (\<lambda>existing.
        forEach (deleteExisting key existing) existing ()))"

section \<open>The request\<close>

text \<open>\<open>bufio.ScanLines\<close>: the lines without their end, a carriage return before it dropped; the buffer holds a line and its end.\<close>

definition maxCredentialLine :: nat where
  "maxCredentialLine = 16 * 1024"

definition requestLines :: "string \<Rightarrow> string list" where
  "requestLines input =
     (let parts = split_on (CHR 0x0A) input in if last parts = [] then butlast parts else parts)"

definition dropCR :: "string \<Rightarrow> string" where
  "dropCR line = trim_suffix [CHR 0x0D] line"

definition cutField :: "string \<Rightarrow> (string \<times> string) option" where
  "cutField line = (case dropWhile (\<lambda>c. c \<noteq> CHR ''='') line of [] \<Rightarrow> None
     | _ # rest \<Rightarrow> Some (takeWhile (\<lambda>c. c \<noteq> CHR ''='') line, rest))"

fun readFields :: "string list \<Rightarrow> (string, string) fmap \<Rightarrow> cred_error + (string, string) fmap" where
  "readFields [] values = Inr values"
| "readFields (raw # rest) values =
     (if length raw \<ge> maxCredentialLine then Inl LineTooLong
      else let line = dropCR raw in
        if line = [] then Inr values
        else if CHR 0x0D \<in> set line \<or> CHR 0x00 \<in> set line then Inl ControlCharacter
        else case cutField line of
          None \<Rightarrow> Inl NotAField
        | Some (key, value) \<Rightarrow>
            if key = [] then Inl NotAField
            else if fmlookup values key \<noteq> None then Inl (DuplicateField key)
            else readFields rest (fmupd key value values))"

definition readCredentialInput :: "string \<Rightarrow> cred_error + (string, string) fmap" where
  "readCredentialInput input = readFields (requestLines input) fmempty"

definition field :: "string \<Rightarrow> (string, string) fmap \<Rightarrow> string" where
  "field key values = (case fmlookup values key of None \<Rightarrow> [] | Some v \<Rightarrow> v)"

definition forGitHub :: "(string, string) fmap \<Rightarrow> bool" where
  "forGitHub values \<longleftrightarrow> field ''protocol'' values = ''https'' \<and> field ''host'' values \<in> {''github.com'', ''github.com:443''}"

section \<open>The helper\<close>

abbreviation newline :: string where "newline \<equiv> [CHR 0x0A]"

definition quitReply :: string where
  "quitReply = ''quit=1'' @ newline @ newline"

definition tokenReply :: "string \<Rightarrow> string \<Rightarrow> string" where
  "tokenReply login token = ''username='' @ login @ newline @ ''password='' @ token @ newline @ newline"

text \<open>A write that fails may have written a part.\<close>

definition writeOutput :: "string \<Rightarrow> unit vault_io" where
  "writeOutput text = tick OutputFailed (\<lambda>s ns. s\<lparr>va_output := va_output s @ take (length ns) text\<rparr>)
     (\<lambda>s. (Inr (), s\<lparr>va_output := va_output s @ text\<rparr>))"

definition RunHandler :: "account \<Rightarrow> string \<Rightarrow> string \<Rightarrow> unit vault_io" where
  "RunHandler account operation input =
     (case readCredentialInput input of Inl e \<Rightarrow> raise e
      | Inr values \<Rightarrow>
          if \<not> forGitHub values then raise NotGitHub
          else if ac_id account = 0 \<or> ac_login account = [] then raise NoAccount
          else if operation = ''get'' then
            attempt (Token (ac_id account)) (\<lambda>r. case r of
              Inl e \<Rightarrow> if e = NotFound then writeOutput quitReply else raise e
            | Inr token \<Rightarrow> writeOutput (tokenReply (ac_login account) token))
          else if operation = ''store'' then ret ()
          else if operation = ''erase'' then
            (if field ''password'' values = [] then ret ()
             else attempt (Token (ac_id account)) (\<lambda>r. case r of
               Inl e \<Rightarrow> if e = NotFound then ret () else raise e
             | Inr token \<Rightarrow> if field ''password'' values = token then DeleteToken (ac_id account) else ret ()))
          else raise (UnsupportedOperation operation))"

definition SaveMetadata :: "account \<Rightarrow> unit vault_io" where
  "SaveMetadata a = andThen (read_tick BadMetadata (\<lambda>_. Inr ())) (\<lambda>_.
     tick BadMetadata (\<lambda>s ns. if ns = [] then s else s\<lparr>va_account := Some Corrupt\<rparr>) (\<lambda>s. (Inr (), s\<lparr>va_account := Some (Stored a)\<rparr>)))"

definition LoadMetadata :: "account option vault_io" where
  "LoadMetadata = read_tick BadMetadata (\<lambda>s. case va_account s of
     None \<Rightarrow> Inr None | Some Corrupt \<Rightarrow> Inl BadMetadata
   | Some (Stored a) \<Rightarrow> if ac_id a = 0 then Inl NotFound else Inr (Some a))"

text \<open>\<open>None\<close> is the error of a missing file.\<close>

definition RunCredential :: "string \<Rightarrow> string \<Rightarrow> unit vault_io" where
  "RunCredential operation input =
     attempt LoadMetadata (\<lambda>r. case r of
       Inr (Some a) \<Rightarrow> RunHandler a operation input
     | Inr None \<Rightarrow> if operation = ''get'' then writeOutput quitReply else raise NotFound
     | Inl e \<Rightarrow> if operation = ''get'' \<and> e = NotFound then writeOutput quitReply else raise e)"

section \<open>What the helper does\<close>

text \<open>The token \<open>Token\<close> finds: the current one, or else the legacy one.\<close>

definition storedToken :: "vault \<Rightarrow> int \<Rightarrow> string option" where
  "storedToken s i = (case fmlookup (va_keyring s) (keyringService, accountKey i) of
     Some t \<Rightarrow> Some t | None \<Rightarrow> fmlookup (va_keyring s) (legacyKeyringService, accountKey i))"

text \<open>What a call may have written, and what it may have deleted.\<close>

definition repliedWell :: "string \<Rightarrow> string \<Rightarrow> vault \<Rightarrow> string \<Rightarrow> bool" where
  "repliedWell operation input s text \<longleftrightarrow> operation = ''get'' \<and>
     (text = quitReply \<or> (\<exists>a values token. va_account s = Some (Stored a) \<and> readCredentialInput input = Inr values \<and>
        forGitHub values \<and> storedToken s (ac_id a) = Some token \<and> text = tokenReply (ac_login a) token))"

definition erasedWell :: "string \<Rightarrow> string \<Rightarrow> vault \<Rightarrow> vault \<Rightarrow> bool" where
  "erasedWell operation input s t \<longleftrightarrow> operation = ''erase'' \<and>
     (\<exists>a values. va_account s = Some (Stored a) \<and> readCredentialInput input = Inr values \<and> forGitHub values \<and>
        storedToken s (ac_id a) = Some (field ''password'' values) \<and>
        va_keyring t = fmdrop (keyringService, accountKey (ac_id a)) (va_keyring s))"

definition helperOk :: "string \<Rightarrow> string \<Rightarrow> vault \<Rightarrow> vault \<Rightarrow> bool" where
  "helperOk operation input s t \<longleftrightarrow> va_account t = va_account s \<and>
     (\<exists>n text. va_output t = va_output s @ take n text \<and> (take n text \<noteq> [] \<longrightarrow> repliedWell operation input s text)) \<and>
     (va_keyring t \<noteq> va_keyring s \<longrightarrow> erasedWell operation input s t)"

lemma helperOk_refl: "helperOk operation input s s"
  by (auto simp: helperOk_def intro: exI [of _ 0])

lemma fault_stays:
  "fault_valid (\<lambda>s. s = s0) (raise e) (\<lambda>_. helperOk operation input s0) (helperOk operation input s0)"
  "fault_valid (\<lambda>s. s = s0) (ret ()) (\<lambda>_. helperOk operation input s0) (helperOk operation input s0)"
  by (rule fault_raise, simp add: helperOk_refl, rule fault_ret, simp add: helperOk_refl)

lemma fault_keyringGet:
  "fault_valid (\<lambda>s. s = s0) (keyringGet service key) (\<lambda>t s. s = s0 \<and> fmlookup (va_keyring s0) (service, key) = Some t) (\<lambda>s. s = s0)"
  unfolding keyringGet_def by (rule fault_read_tick) (auto split: option.splits)

lemma fault_writeOutput:
  assumes "repliedWell operation input s0 text"
  shows "fault_valid (\<lambda>s. s = s0) (writeOutput text) (\<lambda>_. helperOk operation input s0) (helperOk operation input s0)"
  unfolding writeOutput_def
proof (rule fault_tick)
  show "helperOk operation input s0 (d\<lparr>va_output := va_output d @ take (length ns) text\<rparr>)" if "d = s0" for d and ns :: "string list"
    using that assms by (auto simp: helperOk_def)
  fix d r d'
  assume "d = s0" "(Inr (), d\<lparr>va_output := va_output d @ text\<rparr>) = (r, d')"
  then show "case r of Inl _ \<Rightarrow> helperOk operation input s0 d' | Inr _ \<Rightarrow> helperOk operation input s0 d'"
    using assms by (auto simp: helperOk_def intro!: exI [of _ "length text"] exI [of _ "text"])
qed (simp add: helperOk_refl)

text \<open>\<open>Token\<close> with the state it leaves, for both of its outcomes.\<close>

lemma fault_Token:
  "fault_valid (\<lambda>s. s = s0) (Token i) (\<lambda>t s. s = s0 \<and> storedToken s0 i = Some t) (\<lambda>s. s = s0)"
proof -
  let ?k = "accountKey i"
  let ?cur = "fmlookup (va_keyring s0) (keyringService, ?k)"
  have "Token i w = (Inr t, w') \<Longrightarrow> w_disk w = s0 \<Longrightarrow> w_disk w' = s0 \<and> storedToken s0 i = Some t" for w w' t
    by (auto simp: Token_def raise_def attempt_def keyringGet_def read_tick_def tick_def ret_def storedToken_def
        split: if_splits option.splits list.splits fault.splits prod.splits sum.splits)
  moreover have "Token i w = (Inl e, w') \<Longrightarrow> w_disk w = s0 \<Longrightarrow> w_disk w' = s0" for w w' e
    by (auto simp: Token_def raise_def attempt_def keyringGet_def read_tick_def tick_def ret_def
        split: if_splits option.splits list.splits fault.splits prod.splits sum.splits)
  ultimately show ?thesis unfolding fault_valid_def by (auto split: prod.split sum.split)
qed

lemma fault_DeleteToken:
  assumes "\<And>t. va_account t = va_account s0 \<Longrightarrow> va_output t = va_output s0 \<Longrightarrow>
      va_keyring t = fmdrop (keyringService, accountKey i) (va_keyring s0) \<Longrightarrow> Q t" and "Q s0"
  shows "fault_valid (\<lambda>s. s = s0) (DeleteToken i) (\<lambda>_. Q) Q"
  unfolding DeleteToken_def keyringDelete_def
  by (intro fault_if fault_raise fault_tick) (auto simp: assms split: if_splits sum.split)

lemma fault_RunHandler:
  assumes a: "va_account s0 = Some (Stored a)"
  shows "fault_valid (\<lambda>s. s = s0) (RunHandler a operation input) (\<lambda>_. helperOk operation input s0) (helperOk operation input s0)"
proof (cases "readCredentialInput input")
  case (Inl e)
  then show ?thesis by (simp add: RunHandler_def fault_stays)
next
  case (Inr vs)
  let ?ok = "helperOk operation input s0"
  let ?reply = "\<lambda>r. case r of
      Inl e \<Rightarrow> if e = NotFound then writeOutput quitReply else raise e
    | Inr token \<Rightarrow> writeOutput (tokenReply (ac_login a) token)"
  let ?erase = "\<lambda>r. case r of Inl e \<Rightarrow> if e = NotFound then ret () else raise e
    | Inr token \<Rightarrow> if field ''password'' vs = token then DeleteToken (ac_id a) else ret ()"
  note R = helperOk_refl [of operation input s0]
  have get: "fault_valid (\<lambda>s. s = s0) (attempt (Token (ac_id a)) ?reply) (\<lambda>_. ?ok) ?ok"
    if "operation = ''get''" "forGitHub vs"
  proof (rule fault_attempt [OF fault_Token])
    fix token
    show "fault_valid (\<lambda>s. s = s0 \<and> storedToken s0 (ac_id a) = Some token) (?reply (Inr token)) (\<lambda>_. ?ok) ?ok"
      unfolding sum.case
    proof (rule fault_given [where P = "\<lambda>s. s = s0"])
      assume "storedToken s0 (ac_id a) = Some token"
      then have "repliedWell operation input s0 (tokenReply (ac_login a) token)"
        using that a Inr unfolding repliedWell_def by blast
      then show "fault_valid (\<lambda>s. s = s0) (writeOutput (tokenReply (ac_login a) token)) (\<lambda>_. ?ok) ?ok" by (rule fault_writeOutput)
    qed simp
  next
    fix e
    show "fault_valid (\<lambda>s. s = s0) (?reply (Inl e)) (\<lambda>_. ?ok) ?ok"
      using that fault_writeOutput [of operation input s0 quitReply] by (simp add: repliedWell_def fault_stays)
  qed
  have erase: "fault_valid (\<lambda>s. s = s0) (attempt (Token (ac_id a)) ?erase) (\<lambda>_. ?ok) ?ok"
    if "operation = ''erase''" "forGitHub vs"
  proof (rule fault_attempt [OF fault_Token])
    fix token
    show "fault_valid (\<lambda>s. s = s0 \<and> storedToken s0 (ac_id a) = Some token) (?erase (Inr token)) (\<lambda>_. ?ok) ?ok"
      unfolding sum.case
    proof (rule fault_given [where P = "\<lambda>s. s = s0"])
      assume t: "storedToken s0 (ac_id a) = Some token"
      show "fault_valid (\<lambda>s. s = s0) (if field ''password'' vs = token then DeleteToken (ac_id a) else ret ()) (\<lambda>_. ?ok) ?ok"
      proof (intro fault_if fault_ret fault_DeleteToken)
        fix t' :: vault assume p: "field ''password'' vs = token" and "va_account t' = va_account s0" "va_output t' = va_output s0"
          and "va_keyring t' = fmdrop (keyringService, accountKey (ac_id a)) (va_keyring s0)"
        moreover from this have "erasedWell operation input s0 t'" using that a Inr t p unfolding erasedWell_def by blast
        ultimately show "?ok t'" by (auto simp: helperOk_def intro: exI [of _ 0])
      qed (simp_all add: R)
    qed simp
  qed (simp add: fault_stays)
  show ?thesis using get erase by (simp add: RunHandler_def Inr fault_stays)
qed

lemma fault_RunCredential:
  "fault_valid (\<lambda>s. s = s0) (RunCredential operation input) (\<lambda>_. helperOk operation input s0) (helperOk operation input s0)"
proof -
  let ?ok = "helperOk operation input s0"
  have load: "fault_valid (\<lambda>s. s = s0) LoadMetadata
      (\<lambda>a s. s = s0 \<and> (case a of None \<Rightarrow> True | Some a \<Rightarrow> va_account s0 = Some (Stored a))) (\<lambda>s. s = s0)"
    unfolding LoadMetadata_def by (rule fault_read_tick) (auto split: option.splits stored.splits if_splits)
  have quit: "fault_valid (\<lambda>s. s = s0) (writeOutput quitReply) (\<lambda>_. ?ok) ?ok" if "operation = ''get''"
    using that by (intro fault_writeOutput) (simp add: repliedWell_def)
  show ?thesis unfolding RunCredential_def
  proof (rule fault_attempt [OF load])
    fix a
    let ?run = "\<lambda>r. case r of Inr (Some a) \<Rightarrow> RunHandler a operation input
      | Inr None \<Rightarrow> if operation = ''get'' then writeOutput quitReply else raise NotFound
      | Inl e \<Rightarrow> if operation = ''get'' \<and> e = NotFound then writeOutput quitReply else raise e"
    show "fault_valid (\<lambda>s. s = s0 \<and> (case a of None \<Rightarrow> True | Some a \<Rightarrow> va_account s0 = Some (Stored a)))
        (?run (Inr a)) (\<lambda>_. ?ok) ?ok"
    proof (cases a)
      case None
      then show ?thesis using quit by (simp add: fault_stays)
    next
      case (Some b)
      show ?thesis unfolding Some sum.case option.case
        by (rule fault_given [where A = "va_account s0 = Some (Stored b)" and P = "\<lambda>s. s = s0"], rule fault_RunHandler) simp_all
    qed
    show "fault_valid (\<lambda>s. s = s0) (?run (Inl e)) (\<lambda>_. ?ok) ?ok" for e using quit by (simp add: fault_stays)
  qed
qed

text \<open> C8. The credential helper answers only for GitHub: whatever the request and whatever fails, all it writes is a part of
  the reply to a \<open>get\<close>, either the refusal or, for a well-formed request for GitHub over HTTPS, the login and the stored
  token of the active account; and the keyring changes only for an \<open>erase\<close> of such a request whose password is that
  very token, which removes the account's current entry and nothing else. \<close>

theorem helper_answers_only_for_github:
  assumes "RunCredential operation input (boot s fs) = (r, w)"
  shows "(\<exists>n text. va_output (w_disk w) = va_output s @ take n text \<and>
      (take n text \<noteq> [] \<longrightarrow> operation = ''get'' \<and> (text = quitReply \<or>
         (\<exists>a fields token. va_account s = Some (Stored a) \<and> readCredentialInput input = Inr fields \<and> forGitHub fields \<and>
            storedToken s (ac_id a) = Some token \<and> text = tokenReply (ac_login a) token)))) \<and>
    (va_keyring (w_disk w) = va_keyring s \<or> operation = ''erase'' \<and>
      (\<exists>a fields. va_account s = Some (Stored a) \<and> readCredentialInput input = Inr fields \<and> forGitHub fields \<and>
         storedToken s (ac_id a) = Some (field ''password'' fields) \<and>
         va_keyring (w_disk w) = fmdrop (keyringService, accountKey (ac_id a)) (va_keyring s)))"
proof -
  have "w_disk (boot s fs) = s" by (simp add: boot_def)
  note D = fault_validD [OF fault_RunCredential this assms]
  have "helperOk operation input s (w_disk w)" using D by (cases r) auto
  then show ?thesis unfolding helperOk_def repliedWell_def erasedWell_def by blast
qed

section \<open>Forgetting an account\<close>

text \<open>Everything but the two entries of the account is as it was.\<close>

definition othersKept :: "string \<Rightarrow> vault \<Rightarrow> vault \<Rightarrow> bool" where
  "othersKept key s t \<longleftrightarrow> (\<forall>service user. user \<noteq> key \<or> service \<notin> {keyringService, legacyKeyringService} \<longrightarrow>
     fmlookup (va_keyring t) (service, user) = fmlookup (va_keyring s) (service, user))"

text \<open>The entries that were read are exactly the account's.\<close>

definition readAll :: "string \<Rightarrow> vault \<Rightarrow> (string \<times> string) list \<Rightarrow> bool" where
  "readAll key s E \<longleftrightarrow> (\<forall>service token. (service, token) \<in> set E \<longleftrightarrow>
     service \<in> {keyringService, legacyKeyringService} \<and> fmlookup (va_keyring s) (service, key) = Some token)"

definition dropsOnly :: "string \<Rightarrow> vault \<Rightarrow> vault \<Rightarrow> bool" where
  "dropsOnly key s t \<longleftrightarrow> othersKept key s t \<and>
     (\<forall>service. fmlookup (va_keyring t) (service, key) \<in> {None, fmlookup (va_keyring s) (service, key)})"

definition deleting :: "string \<Rightarrow> vault \<Rightarrow> (string \<times> string) list \<Rightarrow> (string \<times> string) list \<Rightarrow> vault \<Rightarrow> bool" where
  "deleting key s E rest t \<longleftrightarrow> dropsOnly key s t \<and>
     (\<forall>p\<in>set E. p \<notin> set rest \<longrightarrow> fmlookup (va_keyring t) (fst p, key) = None)"

definition restoring :: "string \<Rightarrow> vault \<Rightarrow> (string \<times> string) list \<Rightarrow> (string \<times> string) list \<Rightarrow> bool \<Rightarrow> vault \<Rightarrow> bool" where
  "restoring key s E rest restored t \<longleftrightarrow> dropsOnly key s t \<and>
     (restored \<longrightarrow> (\<forall>p\<in>set E. p \<notin> set rest \<longrightarrow> fmlookup (va_keyring t) (fst p, key) = Some (snd p)))"

lemma lawful_vault [lawful_intros]:
  "lawful (keyringSet a b c)" "lawful (keyringGet a b)" "lawful (keyringDelete a b)"
  "lawful (readExisting k v E)" "lawful (putBack k p q)" "lawful (deleteExisting k E p u)"
  by (auto simp: keyringSet_def keyringGet_def keyringDelete_def readExisting_def putBack_def deleteExisting_def
      intro!: lawful_intros split: sum.split prod.split)

lemma dropsOnly_refl: "dropsOnly key s s"
  by (simp add: dropsOnly_def othersKept_def)

lemma dropsOnly_put:
  assumes "dropsOnly key s d" "service \<in> {keyringService, legacyKeyringService}" "fmlookup (va_keyring s) (service, key) = Some token"
  shows "dropsOnly key s (d\<lparr>va_keyring := fmupd (service, key) token (va_keyring d)\<rparr>)"
  unfolding dropsOnly_def
proof
  show "othersKept key s (d\<lparr>va_keyring := fmupd (service, key) token (va_keyring d)\<rparr>)"
    using assms by (auto simp: dropsOnly_def othersKept_def)
  show "\<forall>sv. fmlookup (va_keyring (d\<lparr>va_keyring := fmupd (service, key) token (va_keyring d)\<rparr>)) (sv, key) \<in>
      {None, fmlookup (va_keyring s) (sv, key)}"
  proof
    fix sv
    have "fmlookup (va_keyring d) (sv, key) \<in> {None, fmlookup (va_keyring s) (sv, key)}" using assms(1) by (simp add: dropsOnly_def)
    then show "fmlookup (va_keyring (d\<lparr>va_keyring := fmupd (service, key) token (va_keyring d)\<rparr>)) (sv, key) \<in>
      {None, fmlookup (va_keyring s) (sv, key)}" using assms(3) by (cases "sv = service") simp_all
  qed
qed

lemma dropsOnly_drop:
  assumes "dropsOnly key s d" "service \<in> {keyringService, legacyKeyringService}"
  shows "dropsOnly key s (d\<lparr>va_keyring := fmdrop (service, key) (va_keyring d)\<rparr>)"
  using assms by (auto simp: dropsOnly_def othersKept_def)

lemma restored_all:
  assumes "readAll key s E" "restoring key s E [] True t"
  shows "va_keyring t = va_keyring s"
proof (rule fmap_ext)
  fix k :: "string \<times> string"
  obtain service user where k: "k = (service, user)" by (cases k)
  show "fmlookup (va_keyring t) k = fmlookup (va_keyring s) k"
  proof (cases "user = key \<and> service \<in> {keyringService, legacyKeyringService}")
    case False
    then show ?thesis using assms(2) k by (auto simp: restoring_def dropsOnly_def othersKept_def)
  next
    case True
    show ?thesis
    proof (cases "fmlookup (va_keyring s) k")
      case None
      then show ?thesis using assms(2) True k by (auto simp: restoring_def dropsOnly_def)
    next
      case (Some token)
      then have "(service, token) \<in> set E" using assms(1) True k by (auto simp: readAll_def)
      then show ?thesis using assms(2) Some True k by (force simp: restoring_def)
    qed
  qed
qed

lemma outcome_putBack:
  assumes "readAll key s E" "x \<in> set E"
  shows "outcome_valid (restoring key s E (x # xs) b) (putBack key x b) (restoring key s E xs) Q (dropsOnly key s)"
proof -
  obtain service token where x: "x = (service, token)" by (cases x)
  have sv: "service \<in> {keyringService, legacyKeyringService}" "fmlookup (va_keyring s) (service, key) = Some token"
    using assms x by (auto simp: readAll_def)
  have "outcome_valid (restoring key s E (x # xs) b) (keyringSet service key token)
      (\<lambda>_. restoring key s E xs b) (\<lambda>_. restoring key s E xs False) (dropsOnly key s)"
    unfolding keyringSet_def
  proof (rule outcome_tick)
    fix d r d'
    assume R: "restoring key s E (x # xs) b d" and d': "(Inr (), d\<lparr>va_keyring := fmupd (service, key) token (va_keyring d)\<rparr>) = (r, d')"
    have "dropsOnly key s d'" using dropsOnly_put [of key s d service token] R d' sv by (auto simp: restoring_def)
    moreover have "fmlookup (va_keyring d') (fst p, key) = Some (snd p)" if "b" "p \<in> set E" "p \<notin> set xs" for p
    proof (cases "fst p = service")
      case True
      then have "snd p = token" using assms(1) that(2) sv(2) by (cases p) (simp add: readAll_def)
      then show ?thesis using d' True by auto
    next
      case False
      then have "p \<notin> set (x # xs)" using that(3) x by auto
      then show ?thesis using R d' False that by (auto simp: restoring_def)
    qed
    ultimately have "restoring key s E xs b d'" by (simp add: restoring_def)
    then show "case r of Inl _ \<Rightarrow> restoring key s E xs False d' | Inr _ \<Rightarrow> restoring key s E xs b d'" using d' by auto
  qed (simp_all add: restoring_def)
  then show ?thesis unfolding putBack_def x prod.case
    by (rule outcome_attempt) (auto intro!: outcome_ret lawful_intros split: sum.split)
qed

lemma outcome_deleteExisting:
  assumes "readAll key s E" "x \<in> set E"
  shows "outcome_valid (deleting key s E (x # xs)) (deleteExisting key E x u) (\<lambda>_. deleting key s E xs)
    (\<lambda>e t. dropsOnly key s t \<and> (e = DeleteFailed False \<or> e = DeleteFailed True \<and> va_keyring t = va_keyring s)) (dropsOnly key s)"
proof -
  obtain service token where x: "x = (service, token)" by (cases x)
  let ?Q = "\<lambda>e t. dropsOnly key s t \<and> (e = DeleteFailed False \<or> e = DeleteFailed True \<and> va_keyring t = va_keyring s)"
  have sv: "service \<in> {keyringService, legacyKeyringService}" using assms x by (auto simp: readAll_def)
  have undo: "outcome_valid (dropsOnly key s) (forEach (putBack key) E True) (\<lambda>b. restoring key s E [] b) ?Q (dropsOnly key s)"
  proof (rule outcome_weaken)
    show "outcome_valid (restoring key s E E True) (forEach (putBack key) E True) (restoring key s E []) ?Q (dropsOnly key s)"
      by (rule outcome_forEach_in [OF _ _ subset_refl]) (auto intro!: outcome_putBack [OF assms(1)] lawful_intros)
  qed (auto simp: restoring_def)
  have delete: "outcome_valid (deleting key s E (x # xs)) (keyringDelete service key) (\<lambda>_. deleting key s E xs)
      (\<lambda>e t. dropsOnly key s t \<and> (e = NotFound \<longrightarrow> deleting key s E xs t)) (dropsOnly key s)"
    unfolding keyringDelete_def
  proof (rule outcome_tick)
    fix d r d'
    assume D: "deleting key s E (x # xs) d"
      and d': "(if fmlookup (va_keyring d) (service, key) = None then (Inl NotFound, d)
                else (Inr (), d\<lparr>va_keyring := fmdrop (service, key) (va_keyring d)\<rparr>)) = (r, d')"
    have "dropsOnly key s d'" using dropsOnly_drop [of key s d service] D d' sv by (auto simp: deleting_def split: if_splits)
    moreover have "fmlookup (va_keyring d') (fst p, key) = None" if "p \<in> set E" "p \<notin> set xs" for p
    proof (cases "p = x")
      case True
      then show ?thesis using d' x by (auto split: if_splits)
    next
      case False
      then have "fmlookup (va_keyring d) (fst p, key) = None" using D that by (simp add: deleting_def)
      then show ?thesis using d' by (auto split: if_splits)
    qed
    ultimately have "deleting key s E xs d'" by (simp add: deleting_def)
    then show "case r of Inl e \<Rightarrow> dropsOnly key s d' \<and> (e = NotFound \<longrightarrow> deleting key s E xs d') | Inr _ \<Rightarrow> deleting key s E xs d'"
      using d' by (auto simp: deleting_def split: if_splits)
  qed (simp_all add: deleting_def)
  show ?thesis unfolding deleteExisting_def x prod.case
  proof (rule outcome_attempt [OF delete [unfolded x]])
    fix e
    show "outcome_valid (\<lambda>t. dropsOnly key s t \<and> (e = NotFound \<longrightarrow> deleting key s E xs t))
      (case Inl e of Inr _ \<Rightarrow> ret () | Inl e \<Rightarrow> if e = NotFound then ret ()
         else andThen (forEach (putBack key) E True) (\<lambda>restored. raise (DeleteFailed restored)))
      (\<lambda>_. deleting key s E xs) ?Q (dropsOnly key s)"
      unfolding sum.case
    proof (rule outcome_if)
      show "outcome_valid (\<lambda>t. dropsOnly key s t \<and> (e = NotFound \<longrightarrow> deleting key s E xs t))
        (andThen (forEach (putBack key) E True) (\<lambda>restored. raise (DeleteFailed restored)))
        (\<lambda>_. deleting key s E xs) ?Q (dropsOnly key s)"
      proof (rule outcome_andThen)
        show "outcome_valid (\<lambda>t. dropsOnly key s t \<and> (e = NotFound \<longrightarrow> deleting key s E xs t)) (forEach (putBack key) E True)
          (restoring key s E []) ?Q (dropsOnly key s)"
          by (rule outcome_weaken [OF undo]) auto
        show "outcome_valid (restoring key s E [] b) (raise (DeleteFailed b)) (\<lambda>_. deleting key s E xs) ?Q (dropsOnly key s)" for b
          using restored_all [OF assms(1)] by (cases b) (auto intro!: outcome_raise simp: restoring_def)
      qed (rule lawful_raise)
    qed (rule outcome_ret, simp)
  qed (auto intro!: outcome_ret lawful_intros split: sum.split)
qed

lemma outcome_Forget:
  "outcome_valid (\<lambda>t. t = s) (Forget i)
    (\<lambda>_ t. dropsOnly (accountKey i) s t \<and> storedToken t i = None \<and> fmlookup (va_keyring t) (legacyKeyringService, accountKey i) = None)
    (\<lambda>e t. dropsOnly (accountKey i) s t \<and> (e = DeleteFailed False \<or> va_keyring t = va_keyring s)) (dropsOnly (accountKey i) s)"
proof -
  let ?key = "accountKey i" and ?same = "\<lambda>t. t = s"
  let ?E = "\<lambda>e t. dropsOnly ?key s t \<and> (e = DeleteFailed False \<or> va_keyring t = va_keyring s)"
  let ?Q = "\<lambda>_ t. dropsOnly ?key s t \<and> storedToken t i = None \<and> fmlookup (va_keyring t) (legacyKeyringService, ?key) = None"
  note R = dropsOnly_refl [of ?key s]
  let ?found = "\<lambda>rest E t. t = s \<and> (\<forall>service token. (service, token) \<in> set E \<longleftrightarrow>
      service \<in> {keyringService, legacyKeyringService} - set rest \<and> fmlookup (va_keyring s) (service, ?key) = Some token)"
  have one: "outcome_valid (?found (v # rest) E) (readExisting ?key v E) (?found rest) ?E (dropsOnly ?key s)"
    if "v \<in> {keyringService, legacyKeyringService}" "v \<notin> set rest" for v rest E
    unfolding readExisting_def
  proof (rule outcome_attempt)
    show "outcome_valid (?found (v # rest) E) (keyringGet v ?key)
      (\<lambda>token t. ?found (v # rest) E t \<and> fmlookup (va_keyring s) (v, ?key) = Some token)
      (\<lambda>e t. ?found (v # rest) E t \<and> (e = NotFound \<longrightarrow> fmlookup (va_keyring s) (v, ?key) = None)) (dropsOnly ?key s)"
      unfolding keyringGet_def read_tick_def
      by (rule outcome_tick) (auto simp: R split: option.splits sum.split)
    show "outcome_valid (\<lambda>t. ?found (v # rest) E t \<and> fmlookup (va_keyring s) (v, ?key) = Some token)
      (case Inr token of Inl e \<Rightarrow> if e = NotFound then ret E else raise ReadBeforeReset | Inr token \<Rightarrow> ret (E @ [(v, token)]))
      (?found rest) ?E (dropsOnly ?key s)" for token
      unfolding sum.case by (rule outcome_ret) (use that in auto)
    show "outcome_valid (\<lambda>t. ?found (v # rest) E t \<and> (e = NotFound \<longrightarrow> fmlookup (va_keyring s) (v, ?key) = None))
      (case Inl e of Inl e \<Rightarrow> if e = NotFound then ret E else raise ReadBeforeReset | Inr token \<Rightarrow> ret (E @ [(v, token)]))
      (?found rest) ?E (dropsOnly ?key s)" for e
      unfolding sum.case
      by (rule outcome_if; rule outcome_ret outcome_raise) (use that R in auto)
  qed (auto intro!: lawful_intros split: sum.split)
  have services: "keyringService \<noteq> legacyKeyringService" by (simp add: keyringService_def legacyKeyringService_def)
  have read: "outcome_valid ?same (forEach (readExisting ?key) [keyringService, legacyKeyringService] []) (?found []) ?E (dropsOnly ?key s)"
    unfolding forEach.simps
  proof (rule outcome_andThen)
    show "outcome_valid ?same (readExisting ?key keyringService []) (?found [legacyKeyringService]) ?E (dropsOnly ?key s)"
      by (rule outcome_weaken [OF one [of keyringService "[legacyKeyringService]"]]) (use services in auto)
    show "outcome_valid (?found [legacyKeyringService] E) (andThen (readExisting ?key legacyKeyringService E) ret) (?found []) ?E (dropsOnly ?key s)" for E
      by (rule outcome_andThen [OF one outcome_ret]) (auto intro: lawful_ret)
  qed (auto intro!: lawful_intros)
  have drop: "outcome_valid (?found [] E) (forEach (deleteExisting ?key E) E ()) ?Q ?E (dropsOnly ?key s)" for E
  proof (cases "readAll ?key s E")
    case False
    then show ?thesis by (auto simp: outcome_valid_def readAll_def)
  next
    case True
    have "outcome_valid (deleting ?key s E E) (forEach (deleteExisting ?key E) E ()) (\<lambda>_. deleting ?key s E [])
      (\<lambda>e t. dropsOnly ?key s t \<and> (e = DeleteFailed False \<or> e = DeleteFailed True \<and> va_keyring t = va_keyring s)) (dropsOnly ?key s)"
      by (rule outcome_forEach_in [OF _ _ subset_refl]) (auto intro!: outcome_deleteExisting [OF True] lawful_intros)
    then show ?thesis
    proof (rule outcome_weaken)
      show "deleting ?key s E E t" if "?found [] E t" for t using that R by (simp add: deleting_def)
      fix a t assume D: "deleting ?key s E [] t"
      have "fmlookup (va_keyring t) (v, ?key) = None" if "v \<in> {keyringService, legacyKeyringService}" for v
      proof (cases "fmlookup (va_keyring s) (v, ?key)")
        case None
        then show ?thesis using D by (auto simp: deleting_def dropsOnly_def)
      next
        case (Some token)
        then have "(v, token) \<in> set E" using True that by (auto simp: readAll_def)
        then show ?thesis using D by (auto simp: deleting_def)
      qed
      then show "?Q a t" using D by (simp add: deleting_def storedToken_def)
    qed auto
  qed
  show ?thesis unfolding Forget_def Let_def
    by (intro outcome_if outcome_raise outcome_andThen [OF read drop]) (auto intro!: lawful_intros dropsOnly_refl)
qed

text \<open> C9. Forgetting an account is all or nothing: when it reports success neither credential of the account is left;
  when it reports an error both are as they were, unless the error itself says that one could not be put back; and
  whatever fails and whenever the process dies, the credentials of other accounts and other services are untouched and
  no credential of the account is changed other than by being removed. \<close>

theorem forgetting_is_all_or_nothing:
  assumes "Forget i (boot s fs) = (r, w)"
  shows "(\<forall>service user. user \<noteq> accountKey i \<or> service \<notin> {keyringService, legacyKeyringService} \<longrightarrow>
      fmlookup (va_keyring (w_disk w)) (service, user) = fmlookup (va_keyring s) (service, user)) \<and>
    (\<forall>service. fmlookup (va_keyring (w_disk w)) (service, accountKey i) \<in>
      {None, fmlookup (va_keyring s) (service, accountKey i)}) \<and>
    (\<not> w_dead w \<longrightarrow> (case r of
       Inr _ \<Rightarrow> storedToken (w_disk w) i = None \<and> fmlookup (va_keyring (w_disk w)) (legacyKeyringService, accountKey i) = None
     | Inl e \<Rightarrow> e = DeleteFailed False \<or> va_keyring (w_disk w) = va_keyring s))"
proof -
  have start: "\<not> w_dead (boot s fs)" "w_disk (boot s fs) = s" by (simp_all add: boot_def)
  note D = outcome_validD [OF outcome_Forget start(1) start(2) assms]
  have "dropsOnly (accountKey i) s (w_disk w)" using D by (cases r; cases "w_dead w") auto
  then show ?thesis using D unfolding dropsOnly_def othersKept_def by (auto split: sum.split)
qed

text \<open>Two accounts never share an entry.\<close>

lemma accountKey_inj: "accountKey i = accountKey j \<Longrightarrow> i = j"
proof -
  assume eq: "accountKey i = accountKey j"
  have sign: "show_nat n \<noteq> CHR ''-'' # s" for n s
  proof
    assume "show_nat n = CHR ''-'' # s"
    then show False using show_nat_digits [of n] by (simp add: is_digit_def del: show_nat.simps)
  qed
  have inj: "m = n" if "show_nat m = show_nat n" for m n using decimal_show_nat [of m] decimal_show_nat [of n] that by metis
  show "i = j"
  proof (cases "i < 0"; cases "j < 0")
    assume "i < 0" "j < 0"
    then show ?thesis using eq inj [of "nat (- i)" "nat (- j)"] by (simp add: accountKey_def del: show_nat.simps)
  next
    assume "i < 0" "\<not> j < 0"
    then show ?thesis using eq sign [of "nat j"] by (metis accountKey_def)
  next
    assume "\<not> i < 0" "j < 0"
    then show ?thesis using eq sign [of "nat i"] by (simp add: accountKey_def del: show_nat.simps)
  next
    assume "\<not> i < 0" "\<not> j < 0"
    then show ?thesis using eq inj [of "nat i" "nat j"] by (simp add: accountKey_def del: show_nat.simps)
  qed
qed

section \<open>Demonstrations\<close>

definition demo_vault :: vault where
  "demo_vault = \<lparr>va_keyring = fmap_of_list [((keyringService, ''7''), ''t7''), ((legacyKeyringService, ''7''), ''old''), ((keyringService, ''8''), ''t8'')],
     va_account = Some (Stored \<lparr>ac_id = 7, ac_login = ''ann'', ac_scopes = []\<rparr>), va_output = []\<rparr>"

definition demo_request :: string where
  "demo_request = ''protocol=https'' @ newline @ ''host=github.com'' @ newline @ newline"

lemma demo_get:
  "va_output (w_disk (snd (RunCredential ''get'' demo_request (boot demo_vault [])))) = tokenReply ''ann'' ''t7''"
  by code_simp

lemma demo_forget:
  "fst (Forget 7 (boot demo_vault [Works, Works, Works, Fails [], Works, Works])) = Inl (DeleteFailed True)"
  "\<not> w_dead (snd (Forget 7 (boot demo_vault [Works, Works, Works, Fails [], Works, Works])))"
  by code_simp+

theorem helper_answers_only_for_github_witness:
  "\<exists>r w. RunCredential ''get'' demo_request (boot demo_vault []) = (r, w) \<and> va_output (w_disk w) = tokenReply ''ann'' ''t7'' \<and>
     va_keyring (w_disk w) = va_keyring demo_vault"
proof -
  obtain r w where run: "RunCredential ''get'' demo_request (boot demo_vault []) = (r, w)" by fastforce
  show ?thesis using helper_answers_only_for_github [OF run] demo_get run by auto
qed

theorem forgetting_is_all_or_nothing_witness:
  "\<exists>w. Forget 7 (boot demo_vault [Works, Works, Works, Fails [], Works, Works]) = (Inl (DeleteFailed True), w) \<and>
     va_keyring (w_disk w) = va_keyring demo_vault"
proof -
  obtain w where run: "Forget 7 (boot demo_vault [Works, Works, Works, Fails [], Works, Works]) = (Inl (DeleteFailed True), w)"
    using demo_forget(1) by (cases "Forget 7 (boot demo_vault [Works, Works, Works, Fails [], Works, Works])") auto
  then have "\<not> w_dead w" using demo_forget(2) by simp
  then show ?thesis using forgetting_is_all_or_nothing [OF run] run by simp
qed

text \<open>A token that only the legacy service holds cannot be erased: \<open>Token\<close> finds it, \<open>DeleteToken\<close> looks at the current service
  only, so git's request to erase a rejected token fails and the next \<open>get\<close> hands out the same token.\<close>

lemma rejected_legacy_token_stays:
  assumes "va_account s = Some (Stored a)" "ac_id a \<noteq> 0" "ac_login a \<noteq> []" "readCredentialInput input = Inr req" "forGitHub req"
    and "fmlookup (va_keyring s) (keyringService, accountKey (ac_id a)) = None"
    and "fmlookup (va_keyring s) (legacyKeyringService, accountKey (ac_id a)) = Some (field ''password'' req)"
    and "field ''password'' req \<noteq> []"
  shows "run (RunCredential ''erase'' input) s = (Inl NotFound, s)"
    and "run (RunCredential ''get'' input) s =
      (Inr (), s\<lparr>va_output := va_output s @ tokenReply (ac_login a) (field ''password'' req)\<rparr>)"
proof -
  have l: "lawful LoadMetadata" "lawful (Token i)" for i
    by (auto simp: LoadMetadata_def Token_def intro!: lawful_intros split: sum.split)
  have load: "run LoadMetadata s = (Inr (Some a), s)" using assms(1,2) by (simp add: LoadMetadata_def)
  have token: "run (Token (ac_id a)) s = (Inr (field ''password'' req), s)"
    using assms(2,6,7) by (simp add: Token_def run_attempt lawful_vault keyringGet_def lawful_intros)
  have delete: "run (DeleteToken (ac_id a)) s = (Inl NotFound, s)"
    using assms(2,6) by (simp add: DeleteToken_def keyringDelete_def)
  show "run (RunCredential ''erase'' input) s = (Inl NotFound, s)"
    using assms load token delete l by (simp add: RunCredential_def RunHandler_def run_attempt)
  show "run (RunCredential ''get'' input) s =
      (Inr (), s\<lparr>va_output := va_output s @ tokenReply (ac_login a) (field ''password'' req)\<rparr>)"
    using assms load token l by (simp add: RunCredential_def RunHandler_def run_attempt writeOutput_def)
qed

end
