(* ===== verification/Device_Login.thy ===== *)
theory Device_Login
  imports Credential_Store "HOL-Library.Word"
begin

text \<open>
  Logging in to GitHub with the device flow (\<open>internal/auth/oauth.go\<close>): the code is requested once, then the token is
  polled for until GitHub grants or refuses it, or the code expires.  What GitHub answers, when a sleep is cancelled and
  how much later than asked it wakes up are given for every round.  Shown here: the number of polls is bounded by the
  lifetime of the code, and only a token with the scope \<open>repo\<close> and a valid profile is handed out.  The interval
  between polls is not wrapped at 64 bits: it grows by five seconds with a poll that takes at least the interval, so it
  stays far below 292 years for the lifetime of a code.
\<close>

section \<open>State\<close>

text \<open>Times and durations are nanoseconds; a code that is empty means that no login is in progress.\<close>

record oauth_client =
  oc_clientID :: string
  oc_deviceCode :: string
  oc_interval :: int
  oc_deadline :: int

record device_response =
  dv_deviceCode :: string
  dv_userCode :: string
  dv_uri :: string
  dv_expiresIn :: int
  dv_interval :: int

record device_start =
  st_userCode :: string
  st_uri :: string
  st_expiresIn :: int

record token_response =
  tk_access :: string
  tk_type :: string
  tk_scope :: string
  tk_error :: string

datatype oauth_error =
    NoClientID
  | InvalidDeviceResponse
  | NotStarted
  | OAuthExpired
  | OAuthDenied
  | NoRepoScope
  | InvalidToken
  | InvalidProfile
  | SleepCancelled
  | RequestFailed string
  | AuthorizationFailed string

record poll_round =
  po_slept :: bool
  po_late :: nat
  po_answer :: "oauth_error + token_response"
  po_profile :: "oauth_error + account"

section \<open>Operations\<close>

text \<open>\<open>time.Duration(n) * time.Second\<close>, in 64 bits.\<close>

definition durationSeconds :: "int \<Rightarrow> int" where
  "durationSeconds n = sint (word_of_int (n * 10 ^ 9) :: 64 word)"

definition clearDeviceCode :: "oauth_client \<Rightarrow> oauth_client" where
  "clearDeviceCode c = c\<lparr>oc_deviceCode := [], oc_deadline := 0\<rparr>"

definition StartLogin :: "int \<Rightarrow> (oauth_error + device_response) \<Rightarrow> oauth_client \<Rightarrow> (oauth_error + device_start) \<times> oauth_client" where
  "StartLogin now answer c =
     (if oc_clientID c = [] then (Inl NoClientID, c)
      else case answer of Inl e \<Rightarrow> (Inl e, c)
      | Inr r \<Rightarrow>
          if dv_deviceCode r = [] \<or> dv_userCode r = [] \<or> dv_uri r \<noteq> ''https://github.com/login/device'' \<or> dv_expiresIn r \<le> 0
          then (Inl InvalidDeviceResponse, c)
          else
            let interval0 = durationSeconds (dv_interval r);
                interval = (if interval0 \<le> 0 then durationSeconds 5 else interval0);
                expiresIn = durationSeconds (dv_expiresIn r)
            in (Inr \<lparr>st_userCode = dv_userCode r, st_uri = dv_uri r, st_expiresIn = expiresIn\<rparr>,
                c\<lparr>oc_deviceCode := dv_deviceCode r, oc_interval := interval, oc_deadline := now + expiresIn\<rparr>))"

definition splitScopes :: "string \<Rightarrow> string list" where
  "splitScopes v = filter (\<lambda>s. s \<noteq> []) (split_on CHR '','' (replace_char CHR '' '' CHR '','' v))"

definition containsScope :: "string list \<Rightarrow> string \<Rightarrow> bool" where
  "containsScope scopes wanted = list_ex (\<lambda>s. s = wanted) scopes"

definition pollToken :: "oauth_error + token_response \<Rightarrow> oauth_error + string \<times> string list \<times> string" where
  "pollToken answer =
     (case answer of Inl e \<Rightarrow> Inl e
      | Inr r \<Rightarrow>
          if tk_error r = [] \<and> (tk_access r = [] \<or> to_lower (tk_type r) \<noteq> ''bearer'') then Inl InvalidToken
          else Inr (tk_access r, splitScopes (tk_scope r), tk_error r))"

definition fetchAccount :: "oauth_error + account \<Rightarrow> string list \<Rightarrow> oauth_error + account" where
  "fetchAccount answer scopes =
     (case answer of Inl e \<Rightarrow> Inl e
      | Inr a \<Rightarrow> if ac_id a = 0 \<or> ac_login a = [] then Inl InvalidProfile else Inr (a\<lparr>ac_scopes := scopes\<rparr>))"

text \<open>One answer: the end of the login, or the interval to go on with.\<close>

definition judge :: "poll_round \<Rightarrow> int \<Rightarrow> oauth_client \<Rightarrow> (oauth_error + account \<times> string) \<times> oauth_client + int" where
  "judge r interval c =
     (case pollToken (po_answer r) of Inl e \<Rightarrow> Inl (Inl e, c)
      | Inr (token, scopes, e) \<Rightarrow>
          if e = [] then
            (if \<not> containsScope scopes ''repo'' then Inl (Inl NoRepoScope, clearDeviceCode c)
             else case fetchAccount (po_profile r) scopes of Inl e \<Rightarrow> Inl (Inl e, c)
             | Inr a \<Rightarrow> Inl (Inr (a, token), clearDeviceCode c))
          else if e = ''authorization_pending'' then Inr interval
          else if e = ''slow_down'' then Inr (interval + durationSeconds 5)
          else if e = ''expired_token'' then Inl (Inl OAuthExpired, clearDeviceCode c)
          else if e = ''access_denied'' then Inl (Inl OAuthDenied, clearDeviceCode c)
          else Inl (Inl (AuthorizationFailed e), clearDeviceCode c))"

lemma five_seconds: "durationSeconds 5 = 5000000000"
  by (simp add: durationSeconds_def)

text \<open>The loop of \<open>Wait\<close>; the last component counts the polls.  A started login has a positive interval
  (\<open>started_interval\<close>), so the guard on it is never taken: it is what makes the definition total.\<close>

function waitLoop ::
  "(nat \<Rightarrow> poll_round) \<Rightarrow> nat \<Rightarrow> int \<Rightarrow> int \<Rightarrow> int \<Rightarrow> oauth_client \<Rightarrow> (oauth_error + account \<times> string) \<times> oauth_client \<times> nat"
where
  "waitLoop env k now interval deadline c =
     (if deadline \<le> now \<or> interval \<le> 0 then (Inl OAuthExpired, clearDeviceCode c, k)
      else if \<not> po_slept (env k) then (Inl SleepCancelled, c, k)
      else case judge (env k) interval c of
        Inl (r, c') \<Rightarrow> (r, c', Suc k)
      | Inr interval' \<Rightarrow> waitLoop env (Suc k) (now + interval + int (po_late (env k))) interval' deadline c)"
  by pat_completeness auto

termination
  by (relation "measure (\<lambda>(env, k, now, interval, deadline, c). nat (deadline - now))") auto

declare waitLoop.simps [simp del]

definition WaitLogin :: "(nat \<Rightarrow> poll_round) \<Rightarrow> int \<Rightarrow> oauth_client \<Rightarrow> (oauth_error + account \<times> string) \<times> oauth_client \<times> nat" where
  "WaitLogin env now c =
     (if oc_deviceCode c = [] then (Inl NotStarted, c, 0) else waitLoop env 0 now (oc_interval c) (oc_deadline c) c)"

definition CancelLogin :: "oauth_client \<Rightarrow> oauth_client" where
  "CancelLogin = clearDeviceCode"

section \<open>Properties\<close>

lemma started_interval:
  "StartLogin now answer c = (Inr d, c') \<Longrightarrow> 0 < oc_interval c' \<and> oc_deviceCode c' \<noteq> []"
  by (auto simp: StartLogin_def Let_def five_seconds split: if_splits sum.splits)

lemma judge_interval: "judge r interval c = Inr i' \<Longrightarrow> interval \<le> i'"
  by (auto simp: judge_def five_seconds split: sum.splits if_splits prod.splits)

lemma waitLoop_polls:
  assumes "0 < i" "i \<le> interval" "waitLoop env k now interval deadline c = (r, c', n)"
  shows "int (n - k) * i \<le> max 0 (deadline - now) + (i - 1) \<and> k \<le> n"
  using assms
proof (induction env k now interval deadline c arbitrary: i rule: waitLoop.induct)
  case (1 env k now interval deadline c)
  show ?case
  proof (cases "(deadline \<le> now \<or> interval \<le> 0) \<or> \<not> po_slept (env k)")
    case True
    then have "n = k" using "1.prems"(3) by (simp add: waitLoop.simps [of env k now] split: if_splits)
    then show ?thesis using "1.prems"(1) by simp
  next
    case False
    then have go: "deadline > now" "\<not> (deadline \<le> now \<or> interval \<le> 0)" "\<not> \<not> po_slept (env k)" by auto
    show ?thesis
    proof (cases "judge (env k) interval c")
      case (Inl rc)
      then have "n = Suc k" using "1.prems"(3) go by (cases rc) (simp add: waitLoop.simps [of env k now])
      then show ?thesis using go(1) "1.prems"(1) by simp
    next
      case (Inr i')
      let ?now = "now + interval + int (po_late (env k))"
      have w: "waitLoop env (Suc k) ?now i' deadline c = (r, c', n)"
        using "1.prems"(3) go Inr by (simp add: waitLoop.simps [of env k now])
      have "i \<le> i'" using judge_interval [OF Inr] "1.prems"(2) by simp
      from "1.IH" [OF go(2,3) Inr "1.prems"(1) this w]
      have IH: "int (n - Suc k) * i \<le> max 0 (deadline - ?now) + (i - 1)" "Suc k \<le> n" by auto
      have "int (n - k) * i = int (n - Suc k) * i + i" using IH(2) by (simp add: of_nat_diff algebra_simps)
      moreover have "int (n - Suc k) * i + i \<le> max 0 (deadline - now) + (i - 1)"
      proof (cases "?now \<le> deadline")
        case True
        then show ?thesis using IH(1) "1.prems"(2) by simp
      next
        case False
        then have "int (n - Suc k) * i < 1 * i" using IH(1) by simp
        then have "int (n - Suc k) < 1" using "1.prems"(1) by (simp only: mult_less_cancel_right_pos)
        then show ?thesis using go(1) by simp
      qed
      ultimately show ?thesis using IH(2) by simp
    qed
  qed
qed

text \<open>What a granted login has seen.\<close>

definition granted :: "poll_round \<Rightarrow> account \<Rightarrow> string \<Rightarrow> bool" where
  "granted r a token \<longleftrightarrow> (\<exists>p q. po_answer r = Inr p \<and> tk_error p = [] \<and> tk_access p = token \<and> token \<noteq> [] \<and>
     ''repo'' \<in> set (splitScopes (tk_scope p)) \<and> po_profile r = Inr q \<and> ac_id q \<noteq> 0 \<and> ac_login q \<noteq> [] \<and>
     a = q\<lparr>ac_scopes := splitScopes (tk_scope p)\<rparr>)"

lemma judge_granted: "judge r i c = Inl (Inr (a, token), c') \<Longrightarrow> granted r a token \<and> c' = clearDeviceCode c"
  by (auto simp: judge_def granted_def pollToken_def fetchAccount_def containsScope_def list_ex_iff
      split: sum.splits if_splits prod.splits)

lemma waitLoop_granted:
  assumes "waitLoop env k now interval deadline c = (Inr (a, token), c', n)"
  shows "\<exists>m. n = Suc m \<and> granted (env m) a token \<and> c' = clearDeviceCode c"
  using assms
proof (induction env k now interval deadline c rule: waitLoop.induct)
  case (1 env k now interval deadline c)
  note unf = waitLoop.simps [of env k now interval deadline c]
  have go: "\<not> (deadline \<le> now \<or> interval \<le> 0)" "\<not> \<not> po_slept (env k)" using "1.prems" unf by (auto split: if_splits)
  show ?case
  proof (cases "judge (env k) interval c")
    case (Inl rc)
    then show ?thesis using "1.prems" go unf judge_granted [of "env k" interval c a token c'] by (cases rc) auto
  next
    case (Inr i')
    then show ?thesis using "1.IH" [OF go Inr] "1.prems" go unf by simp
  qed
qed

text \<open> C19. The device login comes to an end and grants only what was asked for: after a start at one time, waiting from
  any later one polls at most once per interval of the code's lifetime (one more when it does not divide), whatever GitHub
  answers and however often it asks to slow down; and a login that succeeds ends with the very poll whose
  answer carried the token, with the scope \<open>repo\<close> and the profile of a real account, and leaves no code behind. \<close>

theorem device_login_is_bounded_and_scoped:
  assumes "StartLogin start answer c0 = (Inr d, c)" and "WaitLogin env now c = (r, c', n)" and "start \<le> now"
  shows "int n * oc_interval c \<le> max 0 (st_expiresIn d) + (oc_interval c - 1) \<and> 0 < oc_interval c \<and>
    (\<forall>a token. r = Inr (a, token) \<longrightarrow> (\<exists>m. n = Suc m \<and> granted (env m) a token) \<and> oc_deviceCode c' = [])"
proof -
  note s = started_interval [OF assms(1)]
  have d: "oc_deadline c = start + st_expiresIn d" using assms(1) by (auto simp: StartLogin_def Let_def split: if_splits sum.splits)
  have w: "waitLoop env 0 now (oc_interval c) (oc_deadline c) c = (r, c', n)" using assms(2) s by (simp add: WaitLogin_def)
  have "int n * oc_interval c \<le> max 0 (oc_deadline c - now) + (oc_interval c - 1)"
    using waitLoop_polls [OF _ order_refl w] s by simp
  then have "int n * oc_interval c \<le> max 0 (st_expiresIn d) + (oc_interval c - 1)" using d assms(3) by linarith
  then show ?thesis using s waitLoop_granted [of env 0 now "oc_interval c" "oc_deadline c" c] w by (force simp: clearDeviceCode_def)
qed

definition demo_rounds :: "nat \<Rightarrow> poll_round" where
  "demo_rounds k = \<lparr>po_slept = True, po_late = 0,
     po_answer = Inr (if k = 0 then \<lparr>tk_access = [], tk_type = [], tk_scope = [], tk_error = ''slow_down''\<rparr>
       else \<lparr>tk_access = ''t'', tk_type = ''Bearer'', tk_scope = ''gist, repo'', tk_error = []\<rparr>),
     po_profile = Inr \<lparr>ac_id = 7, ac_login = ''ann'', ac_scopes = []\<rparr>\<rparr>"

definition demo_login :: "(oauth_error + device_start) \<times> oauth_client" where
  "demo_login = StartLogin 100 (Inr \<lparr>dv_deviceCode = ''d'', dv_userCode = ''u'', dv_uri = ''https://github.com/login/device'',
     dv_expiresIn = 900, dv_interval = 5\<rparr>) \<lparr>oc_clientID = ''id'', oc_deviceCode = [], oc_interval = 0, oc_deadline = 0\<rparr>"

lemma demo_login_granted:
  "fst (WaitLogin demo_rounds 200 (snd demo_login)) = Inr (\<lparr>ac_id = 7, ac_login = ''ann'', ac_scopes = [''gist'', ''repo'']\<rparr>, ''t'')"
  "snd (snd (WaitLogin demo_rounds 200 (snd demo_login))) = 2"
  "case fst demo_login of Inr d \<Rightarrow> st_expiresIn d = 900000000000 | Inl _ \<Rightarrow> False"
  by code_simp+

theorem device_login_is_bounded_and_scoped_witness:
  "\<exists>c'. WaitLogin demo_rounds 200 (snd demo_login) =
       (Inr (\<lparr>ac_id = 7, ac_login = ''ann'', ac_scopes = [''gist'', ''repo'']\<rparr>, ''t''), c', 2) \<and>
     granted (demo_rounds 1) \<lparr>ac_id = 7, ac_login = ''ann'', ac_scopes = [''gist'', ''repo'']\<rparr> ''t'' \<and> oc_deviceCode c' = []"
proof -
  obtain d where "fst demo_login = Inr d" using demo_login_granted(3) by (cases "fst demo_login") auto
  then have s: "demo_login = (Inr d, snd demo_login)" by (simp add: prod_eq_iff)
  obtain c' where w: "WaitLogin demo_rounds 200 (snd demo_login) =
      (Inr (\<lparr>ac_id = 7, ac_login = ''ann'', ac_scopes = [''gist'', ''repo'']\<rparr>, ''t''), c', 2)"
    using demo_login_granted(1,2) by (metis prod.collapse)
  show ?thesis using device_login_is_bounded_and_scoped [OF s [unfolded demo_login_def] w [unfolded demo_login_def]] w
    by (auto simp: demo_login_def)
qed

end
