(* ===== verification/Resource_Applier.thy ===== *)
theory Resource_Applier
  imports Safe_Paths Portable_Config Base_Store Reconcile_Plan
begin

text \<open>
  Applying changes to the repository and to the folders of the agents (the ResourceApplier of
  internal/syncengine/resource_apply.go) over a file system with symbolic links on which any
  operation may fail and the process may die.  Paths are lists of segments; a lookup that fails
  counts as a missing file, so a file in the place of a directory and a loop of links are not told
  apart from a missing path.  A temporary file is not visible, and permissions are not modelled.
\<close>

section \<open>State\<close>

record alias_record =
  al_canonical :: "string list"
  al_mode :: string

text \<open>\<open>aliases.json\<close> holds a map, JSON \<open>null\<close> (a nil map) or bytes that do not decode.\<close>

datatype alias_file = AliasMap "(string list, alias_record) fmap" | AliasNull | AliasCorrupt

record apply_disk =
  ad_fs :: fsys
  ad_aliases :: "alias_file option"
  ad_base :: base_disk

record artifact =
  ar_repoRel :: string
  ar_key :: string
  ar_relative :: string
  ar_stage :: "string list"
  ar_targets :: "string list"
  ar_hash :: string
  ar_size :: int
  ar_modTime :: int

text \<open>The number of links a lookup follows, the digest and the time stamp are parameters.\<close>

record apply_env =
  ap_links :: nat
  ap_repoDir :: "string list"
  ap_home :: string
  ap_goos :: string
  ap_userHome :: string
  ap_codecs :: codecs
  ap_registry :: "registry option"
  ap_hasBase :: bool
  ap_sha :: "string \<Rightarrow> string"
  ap_stamp :: string

datatype apply_error =
    ApplyFault
  | PathGuard path_guard_error
  | BadRepoPath path_error
  | NotInResource string
  | ManagedByLibrary string
  | NoTargets string
  | ContentRejected string
  | RootRejected string
  | NoCodec string
  | RestoreFailed codec_error
  | BaseUnreadable base_error
  | AliasNotDirectory "string list"
  | AliasOutside "string list"
  | AliasUnresolved "string list"
  | HomeRequired
  | AliasesUnreadable
  | NilAliasPanic
  | StageMissing string
  | StageChanged string
  | SourceMissing string
  | NotADirectory
  | Occupied

type_synonym 'a apply_io = "(apply_disk, apply_error, 'a) io"

section \<open>Operations on the file system\<close>

text \<open>An absolute path as segments, and back.\<close>

definition pathSegments :: "string \<Rightarrow> string list" where
  "pathSegments p = rev (foldl (clean_step True) [] (split_on CHR ''/'' p))"

definition pathString :: "string list \<Rightarrow> string" where
  "pathString p = CHR ''/'' # join_with CHR ''/'' p"

definition isDirAt :: "fsys \<Rightarrow> string list \<Rightarrow> bool" where
  "isDirAt fs c \<longleftrightarrow> c = [] \<or> fmlookup fs c = Some DirNode"

text \<open>\<open>os.MkdirAll\<close>: the directories made so far stay when it fails.\<close>

fun mkdirs :: "nat \<Rightarrow> fsys \<Rightarrow> string list \<Rightarrow> string list \<Rightarrow> bool \<times> fsys" where
  "mkdirs n fs here [] = (True, fs)"
| "mkdirs n fs here (s # rest) =
     (case walk n fs [] (here @ [s]) of
        Some c \<Rightarrow> if isDirAt fs c then mkdirs n fs (here @ [s]) rest else (False, fs)
      | None \<Rightarrow>
          if lstat n fs (here @ [s]) \<noteq> None then (False, fs)
          else (case walk n fs [] here of
              None \<Rightarrow> (False, fs)
            | Some c \<Rightarrow> mkdirs n (fmupd (c @ [s]) DirNode fs) (here @ [s]) rest))"

definition readFile :: "nat \<Rightarrow> fsys \<Rightarrow> string list \<Rightarrow> string option" where
  "readFile n fs p =
     (case walk n fs [] p of
        None \<Rightarrow> None
      | Some c \<Rightarrow> (case fmlookup fs c of Some (FileNode x) \<Rightarrow> Some x | _ \<Rightarrow> None))"

text \<open>The rename of a finished temporary file onto its name.\<close>

definition placeFile :: "nat \<Rightarrow> fsys \<Rightarrow> string list \<Rightarrow> string \<Rightarrow> fsys option" where
  "placeFile n fs p data =
     (case walk n fs [] (butlast p) of
        None \<Rightarrow> None
      | Some c \<Rightarrow>
          if \<not> isDirAt fs c \<or> isDirAt fs (c @ [last p]) then None
          else Some (fmupd (c @ [last p]) (FileNode data) fs))"

text \<open>\<open>os.Remove\<close>: a missing entry is no error for the callers, a directory must be empty.\<close>

definition removeNode :: "nat \<Rightarrow> fsys \<Rightarrow> string list \<Rightarrow> fsys option" where
  "removeNode n fs p =
     (case walk n fs [] (butlast p) of
        None \<Rightarrow> Some fs
      | Some c \<Rightarrow>
          if isDirAt fs (c @ [last p]) \<and> list_ex (\<lambda>q. strict_prefix (c @ [last p]) q) (fm_keys fs) then None
          else Some (fmdrop (c @ [last p]) fs))"

text \<open>\<open>os.Rename\<close> moves a node with everything below it; a directory in its place is an error.\<close>

definition moveTree :: "fsys \<Rightarrow> string list \<Rightarrow> string list \<Rightarrow> fsys" where
  "moveTree fs src dst =
     fold (\<lambda>q out. fmupd (dst @ drop (length src) q) (the (fmlookup fs q)) out)
       (filter (prefix src) (fm_keys fs)) (fmfilter (\<lambda>q. \<not> prefix src q) fs)"

definition renameNode :: "nat \<Rightarrow> fsys \<Rightarrow> string list \<Rightarrow> string list \<Rightarrow> fsys option" where
  "renameNode n fs source dest =
     (case (walk n fs [] (butlast source), walk n fs [] (butlast dest)) of
        (Some c, Some e) \<Rightarrow>
          let src = c @ [last source]; dst = e @ [last dest]
          in if fmlookup fs src = None \<or> isDirAt fs dst \<or> prefix src dst \<or> prefix dst src then None
             else Some (moveTree fs src dst)
      | _ \<Rightarrow> None)"

definition fsOp :: "apply_error \<Rightarrow> (fsys \<Rightarrow> fsys option) \<Rightarrow> unit apply_io" where
  "fsOp e f = tick ApplyFault (\<lambda>d _. d)
     (\<lambda>d. case f (ad_fs d) of None \<Rightarrow> (Inl e, d) | Some fs \<Rightarrow> (Inr (), d\<lparr>ad_fs := fs\<rparr>))"

text \<open>A failed \<open>MkdirAll\<close> may have made as many of the directories as the fault tells.\<close>

definition mkdirAll :: "apply_env \<Rightarrow> string list \<Rightarrow> unit apply_io" where
  "mkdirAll env p = tick ApplyFault
     (\<lambda>d ns. d\<lparr>ad_fs := snd (mkdirs (ap_links env) (ad_fs d) [] (take (length ns) p))\<rparr>)
     (\<lambda>d. case mkdirs (ap_links env) (ad_fs d) [] p of
        (ok, fs) \<Rightarrow> (if ok then Inr () else Inl NotADirectory, d\<lparr>ad_fs := fs\<rparr>))"

definition writeFileAtomic :: "apply_env \<Rightarrow> string list \<Rightarrow> string \<Rightarrow> unit apply_io" where
  "writeFileAtomic env p data =
     andThen (mkdirAll env (butlast p)) (\<lambda>_. fsOp Occupied (\<lambda>fs. placeFile (ap_links env) fs p data))"

definition writableJoin :: "apply_env \<Rightarrow> string list \<Rightarrow> string \<Rightarrow> string list apply_io" where
  "writableJoin env root relative =
     read_tick ApplyFault (\<lambda>d. map_sum PathGuard id (safeWritableJoin (ap_links env) (ad_fs d) root relative))"

definition deletableJoin :: "apply_env \<Rightarrow> string list \<Rightarrow> string \<Rightarrow> string list apply_io" where
  "deletableJoin env root relative =
     read_tick ApplyFault (\<lambda>d. map_sum PathGuard id (safeDeletableJoin (ap_links env) (ad_fs d) root relative))"

section \<open>Aliases of shared resources\<close>

definition symlink :: "apply_env \<Rightarrow> string list \<Rightarrow> string list \<Rightarrow> unit apply_io" where
  "symlink env primary alias = fsOp Occupied (\<lambda>fs.
     case walk (ap_links env) fs [] (butlast alias) of
       None \<Rightarrow> None
     | Some c \<Rightarrow> if \<not> isDirAt fs c \<or> fmlookup fs (c @ [last alias]) \<noteq> None then None
                 else Some (fmupd (c @ [last alias]) (LinkNode True primary) fs))"

text \<open>On Unix \<open>samePath\<close> compares the cleaned paths.\<close>

definition samePath :: "string list \<Rightarrow> string list \<Rightarrow> bool" where
  "samePath left right \<longleftrightarrow> left = right"

definition resolveAlias :: "apply_env \<Rightarrow> string list \<Rightarrow> string list \<Rightarrow> unit apply_io" where
  "resolveAlias env primary alias =
     andThen (read_tick ApplyFault (\<lambda>d. case evalSymlinks (ap_links env) (ad_fs d) alias of
        None \<Rightarrow> Inl (AliasUnresolved alias) | Some t \<Rightarrow> Inr t)) (\<lambda>resolved.
       if samePath resolved primary then ret () else raise (AliasOutside alias))"

definition ensureAlias :: "apply_env \<Rightarrow> string list \<Rightarrow> string list \<Rightarrow> string apply_io" where
  "ensureAlias env primary alias =
     andThen (read_tick ApplyFault (\<lambda>d. Inr (lstat (ap_links env) (ad_fs d) alias))) (\<lambda>info.
       case info of
         Some (LinkNode _ _) \<Rightarrow> andThen (resolveAlias env primary alias) (\<lambda>_. ret ''symlink'')
       | Some DirNode \<Rightarrow> ret ''managed-copy''
       | Some (FileNode _) \<Rightarrow> raise (AliasNotDirectory alias)
       | None \<Rightarrow>
           andThen (mkdirAll env (butlast alias)) (\<lambda>_.
           attempt (symlink env primary alias) (\<lambda>r.
             case r of
               Inr _ \<Rightarrow> ret ''symlink''
             | Inl _ \<Rightarrow> andThen (mkdirAll env alias) (\<lambda>_. ret ''managed-copy''))))"

definition saveAlias :: "apply_env \<Rightarrow> string list \<Rightarrow> alias_record \<Rightarrow> unit apply_io" where
  "saveAlias env alias rec =
     (if trim_space (ap_home env) = [] then raise HomeRequired
      else andThen (read_tick ApplyFault (\<lambda>d.
             case ad_aliases d of
               None \<Rightarrow> Inr fmempty
             | Some (AliasMap m) \<Rightarrow> Inr m
             | Some AliasNull \<Rightarrow> Inl NilAliasPanic
             | Some AliasCorrupt \<Rightarrow> Inl AliasesUnreadable)) (\<lambda>records.
           tick ApplyFault (\<lambda>d _. d) (\<lambda>d. (Inr (), d\<lparr>ad_aliases := Some (AliasMap (fmupd alias rec records))\<rparr>))))"

definition copyOnlyAlias :: "apply_env \<Rightarrow> string list \<Rightarrow> string \<Rightarrow> string list list \<Rightarrow> string list list apply_io" where
  "copyOnlyAlias env primary rawAlias targets =
     (let alias = pathSegments rawAlias
      in andThen (read_tick ApplyFault (\<lambda>d. Inr (lstat (ap_links env) (ad_fs d) alias))) (\<lambda>info.
           case info of
             Some (LinkNode _ _) \<Rightarrow> andThen (resolveAlias env primary alias) (\<lambda>_. ret targets)
           | Some (FileNode _) \<Rightarrow> raise (AliasNotDirectory alias)
           | _ \<Rightarrow> ret (targets @ [alias])))"

definition rejectedRoot :: "spec \<Rightarrow> string \<Rightarrow> string option" where
  "rejectedRoot s root = (case sp_validate_root s of None \<Rightarrow> None | Some validate \<Rightarrow> validate root)"

definition copyOnlyTargets :: "apply_env \<Rightarrow> spec \<Rightarrow> string list list apply_io" where
  "copyOnlyTargets env s =
     (case find (\<lambda>t. rejectedRoot s t \<noteq> None) (sp_targets s) of
        Some t \<Rightarrow> raise (RootRejected t)
      | None \<Rightarrow>
          let primary = pathSegments (hd (sp_targets s))
          in forEach (copyOnlyAlias env primary) (tl (sp_targets s)) [primary])"

definition materializeAlias ::
  "apply_env \<Rightarrow> string list \<Rightarrow> string \<Rightarrow> string list list \<Rightarrow> string list list apply_io" where
  "materializeAlias env primary rawAlias targets =
     (let alias = pathSegments rawAlias
      in andThen (ensureAlias env primary alias) (\<lambda>mode.
           andThen (saveAlias env alias \<lparr>al_canonical = primary, al_mode = mode\<rparr>) (\<lambda>_.
             ret (if mode = ''managed-copy'' then targets @ [alias] else targets))))"

definition materializeTargets :: "apply_env \<Rightarrow> spec \<Rightarrow> string list list apply_io" where
  "materializeTargets env s =
     (if sp_targets s = [] then raise (NoTargets (sp_key s))
      else if sp_copy_only s then copyOnlyTargets env s
      else if sp_shared_as s = [] \<and> sp_provider s \<noteq> ''common'' then ret (map pathSegments (sp_targets s))
      else let primary = pathSegments (hd (sp_targets s))
           in andThen (mkdirAll env primary) (\<lambda>_.
                forEach (materializeAlias env primary) (tl (sp_targets s)) [primary]))"

section \<open>Pushing and restoring\<close>

definition PushArtifact :: "apply_env \<Rightarrow> artifact \<Rightarrow> unit apply_io" where
  "PushArtifact env a =
     andThen (read_tick ApplyFault (\<lambda>d. case readFile (ap_links env) (ad_fs d) (ar_stage a) of
        None \<Rightarrow> Inl (StageMissing (ar_repoRel a)) | Some x \<Rightarrow> Inr x)) (\<lambda>data.
       if ar_hash a \<noteq> [] \<and> ap_sha env data \<noteq> ar_hash a then raise (StageChanged (ar_repoRel a))
       else andThen (writableJoin env (ap_repoDir env) (ar_repoRel a)) (\<lambda>target. writeFileAtomic env target data))"

definition loadBase :: "apply_env \<Rightarrow> spec \<Rightarrow> string \<Rightarrow> string apply_io" where
  "loadBase env s repoRel =
     (if sp_strategy s = StrategyStructuredMerge \<and> ap_hasBase env
      then read_tick ApplyFault (\<lambda>d.
             case fst (run (BaseGet (ap_sha env) repoRel) (ad_base d)) of
               Inl e \<Rightarrow> Inl (BaseUnreadable e)
             | Inr None \<Rightarrow> Inr []
             | Inr (Some base) \<Rightarrow> Inr base)
      else ret [])"

definition restoredData :: "apply_env \<Rightarrow> spec \<Rightarrow> string \<Rightarrow> string \<Rightarrow> string \<Rightarrow> string list \<Rightarrow> string apply_io" where
  "restoredData env s relative base remote target =
     (if sp_strategy s \<noteq> StrategyStructuredMerge then ret remote
      else case ap_registry env of
        None \<Rightarrow> raise (NoCodec (sp_key s))
      | Some r \<Rightarrow>
          read_tick ApplyFault (\<lambda>d.
            let localData = (case readFile (ap_links env) (ad_fs d) target of None \<Rightarrow> [] | Some x \<Rightarrow> x)
            in map_sum RestoreFailed id
                 (RestoreConfig (ap_codecs env) r (sp_transformer s) relative (ap_goos env) (ap_userHome env) localData base remote)))"

definition restoreTarget :: "apply_env \<Rightarrow> spec \<Rightarrow> string \<Rightarrow> string \<Rightarrow> string \<Rightarrow> string list \<Rightarrow> unit \<Rightarrow> unit apply_io" where
  "restoreTarget env s relative base remote root _ =
     (case rejectedRoot s (path_join [pathString root, relative]) of
        Some e \<Rightarrow> raise (RootRejected e)
      | None \<Rightarrow>
          andThen (writableJoin env root relative) (\<lambda>target.
          andThen (restoredData env s relative base remote target) (\<lambda>data.
            writeFileAtomic env target data)))"

definition restoreBytes :: "apply_env \<Rightarrow> spec \<Rightarrow> string \<Rightarrow> string \<Rightarrow> string \<Rightarrow> unit apply_io" where
  "restoreBytes env s repoRel relative remote =
     (case (case sp_validate_content s of None \<Rightarrow> None | Some validate \<Rightarrow> validate relative remote) of
        Some e \<Rightarrow> raise (ContentRejected e)
      | None \<Rightarrow>
          andThen (materializeTargets env s) (\<lambda>targets.
          andThen (loadBase env s repoRel) (\<lambda>base.
            forEach (restoreTarget env s relative base remote) targets ())))"

definition RestoreBytes :: "apply_env \<Rightarrow> spec \<Rightarrow> string \<Rightarrow> string \<Rightarrow> unit apply_io" where
  "RestoreBytes env s relative data =
     (if \<not> Owns s relative then raise (ManagedByLibrary relative)
      else case safeJoin [] relative of
        Inl e \<Rightarrow> raise (PathGuard e)
      | Inr _ \<Rightarrow>
          (case RepoPath s relative of
             Inl e \<Rightarrow> raise (BadRepoPath e)
           | Inr repoRel \<Rightarrow> restoreBytes env s repoRel relative data))"

definition RestoreResource :: "apply_env \<Rightarrow> spec \<Rightarrow> string \<Rightarrow> unit apply_io" where
  "RestoreResource env s repoRel =
     (case ParseRepoPath repoRel of
        Inl e \<Rightarrow> raise (BadRepoPath e)
      | Inr ref \<Rightarrow>
          if \<not> refMatchesSpec ref s then raise (NotInResource repoRel)
          else case safeJoin (ap_repoDir env) repoRel of
            Inl e \<Rightarrow> raise (PathGuard e)
          | Inr source \<Rightarrow>
              andThen (read_tick ApplyFault (\<lambda>d. case readFile (ap_links env) (ad_fs d) source of
                 None \<Rightarrow> Inl (SourceMissing repoRel) | Some x \<Rightarrow> Inr x)) (\<lambda>remote.
                restoreBytes env s repoRel (ref_relative ref) remote))"

section \<open>Deleting\<close>

definition deleteAlias :: "apply_env \<Rightarrow> string \<Rightarrow> string list list \<Rightarrow> string list list apply_io" where
  "deleteAlias env rawAlias targets =
     (let alias = pathSegments rawAlias
      in andThen (read_tick ApplyFault (\<lambda>d. Inr (lstat (ap_links env) (ad_fs d) alias))) (\<lambda>info.
           case info of
             None \<Rightarrow> ret targets
           | Some (LinkNode _ _) \<Rightarrow> ret targets
           | Some (FileNode _) \<Rightarrow> raise (AliasNotDirectory alias)
           | Some DirNode \<Rightarrow> ret (targets @ [alias])))"

definition targetsForDelete :: "apply_env \<Rightarrow> spec \<Rightarrow> string list list apply_io" where
  "targetsForDelete env s =
     (if sp_targets s = [] then raise (NoTargets (sp_key s))
      else if sp_copy_only s then copyOnlyTargets env s
      else if sp_shared_as s = [] \<and> sp_provider s \<noteq> ''common'' then ret (map pathSegments (sp_targets s))
      else forEach (deleteAlias env) (tl (sp_targets s)) [pathSegments (hd (sp_targets s))])"

fun itoa :: "nat \<Rightarrow> string" where
  "itoa n = (if n < 10 then [] else itoa (n div 10)) @ [char_of (48 + n mod 10)]"

declare itoa.simps [simp del]

text \<open>The directory the removed file moves to: one per second, resource and target.\<close>

definition recoveryRoot :: "apply_env \<Rightarrow> spec \<Rightarrow> nat \<Rightarrow> string list" where
  "recoveryRoot env s index =
     pathSegments (ap_home env) @ [''local-trash'', ap_stamp env] @ cleaned_segments (sp_key s) @
       (if index > 0 then [''target-'' @ itoa (index + 1)] else [])"

definition recoverBeforeDelete :: "apply_env \<Rightarrow> spec \<Rightarrow> string \<Rightarrow> string list \<Rightarrow> nat \<Rightarrow> unit apply_io" where
  "recoverBeforeDelete env s relative target index =
     andThen (read_tick ApplyFault (\<lambda>d. Inr (walk (ap_links env) (ad_fs d) [] target))) (\<lambda>found.
       if found = None then ret ()
       else case safeJoin (recoveryRoot env s index) relative of
         Inl e \<Rightarrow> raise (PathGuard e)
       | Inr recovery \<Rightarrow>
           andThen (mkdirAll env (butlast recovery)) (\<lambda>_.
             fsOp Occupied (\<lambda>fs. renameNode (ap_links env) fs target recovery)))"

text \<open>The loop stops at the root or at the first directory that is not empty.\<close>

function removeEmptyParents :: "apply_env \<Rightarrow> string list \<Rightarrow> string list \<Rightarrow> unit apply_io" where
  "removeEmptyParents env current root =
     (if current = root \<or> current = [] then ret ()
      else attempt (fsOp Occupied (\<lambda>fs. removeNode (ap_links env) fs current)) (\<lambda>r.
        case r of Inl _ \<Rightarrow> ret () | Inr _ \<Rightarrow> removeEmptyParents env (butlast current) root))"
  by pat_completeness auto
termination by (relation "measure (\<lambda>(env, current, root). length current)") auto

declare removeEmptyParents.simps [simp del]

definition deleteTarget :: "apply_env \<Rightarrow> spec \<Rightarrow> string \<Rightarrow> string list \<Rightarrow> nat \<Rightarrow> nat apply_io" where
  "deleteTarget env s relative root index =
     (case rejectedRoot s (path_join [pathString root, relative]) of
        Some e \<Rightarrow> raise (RootRejected e)
      | None \<Rightarrow>
          andThen (deletableJoin env root relative) (\<lambda>target.
            if sp_category s = CategorySkills \<or> sp_category s = CategoryPlugins
            then andThen (recoverBeforeDelete env s relative target index) (\<lambda>_. ret (Suc index))
            else andThen (fsOp Occupied (\<lambda>fs. removeNode (ap_links env) fs target)) (\<lambda>_.
                   andThen (removeEmptyParents env (butlast target) root) (\<lambda>_. ret (Suc index)))))"

definition DeleteResource :: "apply_env \<Rightarrow> spec \<Rightarrow> string \<Rightarrow> unit apply_io" where
  "DeleteResource env s repoRel =
     (case ParseRepoPath repoRel of
        Inl e \<Rightarrow> raise (BadRepoPath e)
      | Inr ref \<Rightarrow>
          if \<not> refMatchesSpec ref s then raise (NotInResource repoRel)
          else andThen (targetsForDelete env s) (\<lambda>targets.
                 andThen (forEach (deleteTarget env s (ref_relative ref)) targets 0) (\<lambda>_. ret ())))"

section \<open>Facts\<close>

text \<open>\<open>MkdirAll\<close> adds directories and touches nothing else.\<close>

definition only_dirs_added :: "fsys \<Rightarrow> fsys \<Rightarrow> bool" where
  "only_dirs_added fs fs' \<longleftrightarrow> (\<forall>q. fmlookup fs' q = fmlookup fs q \<or> (fmlookup fs q = None \<and> fmlookup fs' q = Some DirNode))"

lemma only_dirs_refl [simp]: "only_dirs_added fs fs"
  by (simp add: only_dirs_added_def)

lemma only_dirs_trans: "only_dirs_added a b \<Longrightarrow> only_dirs_added b c \<Longrightarrow> only_dirs_added a c"
  unfolding only_dirs_added_def by metis

lemma only_dirs_files:
  "only_dirs_added fs fs' \<Longrightarrow> fmlookup fs' q = Some (FileNode x) \<longleftrightarrow> fmlookup fs q = Some (FileNode x)"
  unfolding only_dirs_added_def by (metis node.distinct(1) option.inject option.distinct(1))

lemma mkdirs_only_dirs: "only_dirs_added fs (snd (mkdirs n fs here p))"
proof (induction n fs here p rule: mkdirs.induct)
  case (1 n fs here)
  then show ?case by simp
next
  case (2 n fs here s rest)
  show ?case
  proof (cases "walk n fs [] (here @ [s])")
    case (Some c)
    then show ?thesis using 2(2) [OF Some] by simp
  next
    case None
    show ?thesis
    proof (cases "lstat n fs (here @ [s]) \<noteq> None \<or> walk n fs [] here = None")
      case True
      then show ?thesis using None by auto
    next
      case False
      then obtain c where c: "walk n fs [] here = Some c" by auto
      with False have "fmlookup fs (c @ [s]) = None" by (simp add: lstat_def)
      then have "only_dirs_added fs (fmupd (c @ [s]) DirNode fs)" by (simp add: only_dirs_added_def)
      from only_dirs_trans [OF this] 2(1) [OF None _ c] show ?thesis using None False c by simp
    qed
  qed
qed

lemma walk_snoc_file:
  "walk n fs here q = Some c \<Longrightarrow> isDirAt fs c \<Longrightarrow> s \<noteq> ''..'' \<Longrightarrow> fmlookup fs (c @ [s]) = Some (FileNode x) \<Longrightarrow>
     walk n fs here (q @ [s]) = Some (c @ [s])"
  by (induction n fs here q rule: walk.induct)
    (auto simp: isDirAt_def split: if_splits option.splits node.splits nat.splits)

text \<open>Replacing the content of a file does not change where a directory is found.\<close>

lemma walk_upd_file:
  "walk n fs here q = Some c \<Longrightarrow> isDirAt fs c \<Longrightarrow> fmlookup fs p = None \<or> (\<exists>y. fmlookup fs p = Some (FileNode y)) \<Longrightarrow>
     walk n (fmupd p (FileNode x) fs) here q = Some c"
  by (induction n fs here q rule: walk.induct)
    (auto simp: isDirAt_def split: if_splits option.splits node.splits nat.splits)

lemma placeFile_effect:
  assumes "placeFile n fs p data = Some fs'"
  shows "\<exists>c. walk n fs [] (butlast p) = Some c \<and> isDirAt fs c \<and> \<not> isDirAt fs (c @ [last p]) \<and>
    fs' = fmupd (c @ [last p]) (FileNode data) fs"
  using assms by (auto simp: placeFile_def split: option.splits if_splits)

lemma moveTree_fold:
  assumes "distinct qs" "\<forall>q\<in>set qs. prefix src q"
  shows "fmlookup (fold (\<lambda>q out. fmupd (dst @ drop (length src) q) (f q) out) qs m) k =
    (if \<exists>q\<in>set qs. k = dst @ drop (length src) q then Some (f (src @ drop (length dst) k)) else fmlookup m k)"
  using assms by (induction qs arbitrary: m) (auto simp: prefix_def)

lemma moveTree_moved:
  assumes "prefix src q" "fmlookup fs q = Some v"
  shows "fmlookup (moveTree fs src dst) (dst @ drop (length src) q) = Some v"
proof -
  have "q \<in> set (filter (prefix src) (fm_keys fs))" using assms by (simp add: fmlookup_dom_iff)
  moreover have "src @ drop (length src) q = q" using assms(1) by (auto simp: prefix_def)
  ultimately show ?thesis
    unfolding moveTree_def by (subst moveTree_fold) (use assms in auto)
qed

lemma moveTree_kept:
  assumes "\<not> prefix src q" "\<not> prefix dst q"
  shows "fmlookup (moveTree fs src dst) q = fmlookup fs q"
proof -
  have "q \<noteq> dst @ r" for r using assms(2) by (auto simp: prefix_def)
  then show ?thesis
    unfolding moveTree_def by (subst moveTree_fold) (use assms in auto)
qed

section \<open>Well-formed file systems\<close>

text \<open>Every node lies in a directory.\<close>

definition well_formed :: "fsys \<Rightarrow> bool" where
  "well_formed fs \<longleftrightarrow> (\<forall>c s. fmlookup fs (c @ [s]) \<noteq> None \<longrightarrow> isDirAt fs c)"

lemma walk_mono:
  "only_dirs_added fs fs' \<Longrightarrow> walk n fs here q = Some c \<Longrightarrow> walk n fs' here q = Some c"
proof (induction n fs here q rule: walk.induct)
  case (1 n fs here)
  then show ?case by simp
next
  case (2 n fs here s rest)
  show ?case
  proof (cases "s = ''..''")
    case True
    then show ?thesis using "2.IH"(1) "2.prems" by simp
  next
    case False
    obtain nd where nd: "fmlookup fs (here @ [s]) = Some nd" using "2.prems"(2) False by (auto split: option.splits)
    then have nd': "fmlookup fs' (here @ [s]) = Some nd" using "2.prems"(1) unfolding only_dirs_added_def by (metis option.distinct(1))
    show ?thesis
    proof (cases nd)
      case (FileNode x)
      then show ?thesis using "2.prems"(2) False nd nd' by (simp split: if_splits)
    next
      case DirNode
      then show ?thesis using "2.IH"(2) [OF False nd DirNode "2.prems"(1)] "2.prems"(2) False nd nd' by simp
    next
      case (LinkNode a segs)
      then show ?thesis using "2.IH"(3) [OF False nd LinkNode _ "2.prems"(1)] "2.prems"(2) False nd nd'
        by (cases n) simp_all
    qed
  qed
qed

lemma walk_snoc_dir:
  "walk n fs here q = Some c \<Longrightarrow> isDirAt fs c \<Longrightarrow> s \<noteq> ''..'' \<Longrightarrow> fmlookup fs (c @ [s]) = Some DirNode \<Longrightarrow>
     walk n fs here (q @ [s]) = Some (c @ [s])"
  by (induction n fs here q rule: walk.induct)
    (auto simp: isDirAt_def split: if_splits option.splits node.splits nat.splits)

lemma walk_through:
  "walk n fs here q = Some c \<Longrightarrow> isDirAt fs c \<Longrightarrow> walk n fs here (q @ r) = Some e \<Longrightarrow> r \<noteq> [] \<Longrightarrow>
     \<exists>m. walk m fs c r = Some e"
proof (induction n fs here q rule: walk.induct)
  case (1 n fs here)
  then show ?case by auto
next
  case (2 n fs here s rest)
  then show ?case
    by (auto simp: isDirAt_def split: if_splits option.splits node.splits nat.splits)
qed

lemma well_formed_add:
  assumes "well_formed fs" "isDirAt fs c" "fmlookup fs (c @ [s]) = None"
  shows "well_formed (fmupd (c @ [s]) DirNode fs)"
  using assms unfolding well_formed_def isDirAt_def by (auto split: if_splits)

text \<open>After \<open>MkdirAll\<close>, a path leads where it led before, or to a directory that is new.\<close>

lemma mkdirs_leads:
  assumes "mkdirs n fs here p = (True, fs')" "well_formed fs" "walk n fs [] here = Some h" "isDirAt fs h"
    "\<forall>s\<in>set p. s \<noteq> ''..''" "walk n fs' [] (here @ p) = Some c"
  shows "walk n fs [] (here @ p) = Some c \<or> (fmlookup fs c = None \<and> c \<noteq> [])"
  using assms
proof (induction n fs here p arbitrary: h rule: mkdirs.induct)
  case (1 n fs here)
  then show ?case by simp
next
  case (2 n fs here s rest)
  show ?case
  proof (cases "walk n fs [] (here @ [s])")
    case (Some e)
    then have "isDirAt fs e" using "2.prems"(1) by (simp split: if_splits)
    with "2.IH"(2) [OF Some] Some "2.prems" show ?thesis by simp
  next
    case None
    let ?fs = "fmupd (h @ [s]) DirNode fs"
    have l: "lstat n fs (here @ [s]) = None" using "2.prems"(1) None by (auto split: if_splits)
    then have new: "fmlookup fs (h @ [s]) = None" using "2.prems"(3) by (simp add: lstat_def)
    have s: "s \<noteq> ''..''" using "2.prems"(5) by simp
    have add: "only_dirs_added fs ?fs" using new by (simp add: only_dirs_added_def)
    have dir: "isDirAt ?fs h" using "2.prems"(4) by (auto simp: isDirAt_def)
    have walk: "walk n ?fs [] (here @ [s]) = Some (h @ [s])"
      using walk_snoc_dir [OF walk_mono [OF add "2.prems"(3)] dir s] by simp
    have wf: "well_formed ?fs" by (rule well_formed_add [OF "2.prems"(2,4) new])
    have "\<not> isDirAt fs (h @ [s])" using new by (simp add: isDirAt_def)
    then have "fmlookup fs ((h @ [s]) @ [t]) = None" for t using "2.prems"(2) unfolding well_formed_def by blast
    then have empty: "fmlookup ?fs (h @ [s] @ [t]) = None" for t by simp
    have rest: "mkdirs n ?fs (here @ [s]) rest = (True, fs')" using "2.prems"(1,3) None l by simp
    have "walk n ?fs [] ((here @ [s]) @ rest) = Some c \<or> (fmlookup ?fs c = None \<and> c \<noteq> [])"
      using "2.IH"(1) [OF None _ "2.prems"(3) rest wf walk] l "2.prems"(5,6) by (simp add: isDirAt_def)
    then show ?thesis
    proof
      assume w: "walk n ?fs [] ((here @ [s]) @ rest) = Some c"
      show ?thesis
      proof (cases rest)
        case Nil
        then have "c = h @ [s]" using w walk by simp
        then show ?thesis using new by simp
      next
        case (Cons t ts)
        obtain m where "walk m ?fs (h @ [s]) rest = Some c"
          using walk_through [OF walk _ w] Cons by (auto simp: isDirAt_def)
        then have False using Cons empty [of t] "2.prems"(5) by simp
        then show ?thesis ..
      qed
    next
      assume "fmlookup ?fs c = None \<and> c \<noteq> []"
      then show ?thesis by (simp split: if_splits)
    qed
  qed
qed

lemma pathSegments_plain: "\<forall>s\<in>set (pathSegments p). plain_segment s"
proof -
  have "\<forall>s\<in>set (split_on CHR ''/'' p). CHR ''/'' \<notin> set s" by (auto dest: split_on_segments)
  from foldl_clean_rooted [OF _ this, of "[]"] show ?thesis by (simp add: pathSegments_def)
qed

lemma walk_prefix_lstat:
  assumes "walk n fs [] (p @ q) = Some c" "\<forall>s\<in>set p. s \<noteq> ''..''"
  shows "lstat n fs p \<noteq> None"
proof (cases "p = []")
  case True
  then show ?thesis by (simp add: lstat_def)
next
  case False
  obtain e where e: "walk n fs [] p = Some e"
    using assms(1) walk_append [of n fs "[]" p q c] by (cases "q = []") auto
  have p: "butlast p @ [last p] = p" using False by simp
  obtain m at' where w: "walk n fs [] (butlast p) = Some at'" "walk m fs at' [last p] = Some e"
    using walk_append [of n fs "[]" "butlast p" "[last p]" e] e p by auto
  have "last p \<noteq> ''..''" using assms(2) False by simp
  then show ?thesis using w False by (auto simp: lstat_def split: option.splits)
qed

text \<open>A file written where the guard allows replaces no link.\<close>

lemma guarded_target_no_link:
  assumes guard: "safeWritableJoin n fs root relative = Inr target" and root: "\<forall>s\<in>set root. plain_segment s"
    and wf: "well_formed fs" and mk: "mkdirs n fs [] (butlast target) = (True, fs')"
    and c: "walk n fs' [] (butlast target) = Some c"
  shows "fmlookup fs' (c @ [last target]) \<noteq> Some (LinkNode a segs)"
proof
  assume link': "fmlookup fs' (c @ [last target]) = Some (LinkNode a segs)"
  have "only_dirs_added fs fs'" using mkdirs_only_dirs [of fs n "[]" "butlast target"] mk by simp
  then have link: "fmlookup fs (c @ [last target]) = Some (LinkNode a segs)"
    using link' unfolding only_dirs_added_def by (metis node.distinct(5) option.inject)
  then have dir: "isDirAt fs c" using wf unfolding well_formed_def by (metis option.distinct(1))
  obtain t where t: "safeJoin root relative = Inr t" and tt: "t = target"
    using guard checkAncestor_result
    by (auto simp: safeWritableJoin_def split: sum.splits if_splits option.splits node.splits)
  have j: "safeJoin root relative = Inr target" using t tt by simp
  have dots: "\<forall>s\<in>set target. s \<noteq> ''..''" by (rule safeJoin_no_dots [OF j root])
  obtain ss where ss: "ss \<noteq> []" "target = root @ ss" using safeJoin_result [OF j] by auto
  have blast: "\<forall>s\<in>set (butlast target). s \<noteq> ''..''" using dots by (auto dest: in_set_butlastD)
  have "walk n fs [] (butlast target) = Some c \<or> (fmlookup fs c = None \<and> c \<noteq> [])"
    using mkdirs_leads [OF mk wf _ _ blast, of "[]" c] c by (simp add: isDirAt_def)
  then have w: "walk n fs [] (butlast target) = Some c" using dir by (auto simp: isDirAt_def)
  have ls: "lstat n fs target = Some (LinkNode a segs)" using w link ss by (simp add: lstat_def)
  have "butlast target = root @ butlast ss" using ss by (simp add: butlast_append)
  then have "lstat n fs root \<noteq> None"
    using walk_prefix_lstat [of n fs root "butlast ss" c] w root by (auto simp: plain_segment_def)
  then show False using guard t tt ls by (auto simp: safeWritableJoin_def split: option.splits)
qed

section \<open>What a restore leaves\<close>

definition same_files :: "fsys \<Rightarrow> fsys \<Rightarrow> bool" where
  "same_files fs fs' \<longleftrightarrow> (\<forall>q x. fmlookup fs' q = Some (FileNode x) \<longleftrightarrow> fmlookup fs q = Some (FileNode x))"

lemma same_files_refl [simp]: "same_files fs fs"
  by (simp add: same_files_def)

lemma same_files_mkdirs [simp]: "same_files fs (snd (mkdirs n fs here p))"
  unfolding same_files_def using only_dirs_files [OF mkdirs_only_dirs] by blast

definition placed :: "nat \<Rightarrow> fsys \<Rightarrow> string list \<Rightarrow> string \<Rightarrow> fsys \<Rightarrow> bool" where
  "placed n fs p data fs' \<longleftrightarrow>
     (\<exists>fs1 c. mkdirs n fs [] (butlast p) = (True, fs1) \<and> walk n fs1 [] (butlast p) = Some c \<and> isDirAt fs1 c \<and>
        \<not> isDirAt fs1 (c @ [last p]) \<and> fs' = fmupd (c @ [last p]) (FileNode data) fs1)"

lemma fault_mkdirAll:
  "fault_valid (\<lambda>d'. ad_fs d' = fs) (mkdirAll env p)
     (\<lambda>_ d'. mkdirs (ap_links env) fs [] p = (True, ad_fs d')) (\<lambda>d'. same_files fs (ad_fs d'))"
proof -
  have "same_files fs fs'" if m: "mkdirs (ap_links env) fs [] p = (ok, fs')" for ok fs'
    using same_files_mkdirs [of fs "ap_links env" "[]" p] m by simp
  then show ?thesis unfolding mkdirAll_def
    by (intro fault_tick) (auto split: prod.splits if_splits sum.split)
qed

lemma fault_writeFileAtomic:
  "fault_valid (\<lambda>d'. ad_fs d' = fs) (writeFileAtomic env p data)
     (\<lambda>_ d'. placed (ap_links env) fs p data (ad_fs d')) (\<lambda>d'. same_files fs (ad_fs d'))"
proof -
  have "fault_valid (\<lambda>d'. mkdirs (ap_links env) fs [] (butlast p) = (True, ad_fs d'))
      (fsOp Occupied (\<lambda>fs. placeFile (ap_links env) fs p data))
      (\<lambda>_ d'. placed (ap_links env) fs p data (ad_fs d')) (\<lambda>d'. same_files fs (ad_fs d'))"
  proof -
    have keep: "same_files fs (ad_fs d')" if "mkdirs (ap_links env) fs [] (butlast p) = (True, ad_fs d')" for d'
      using same_files_mkdirs [of fs "ap_links env" "[]" "butlast p"] that by simp
    show ?thesis unfolding fsOp_def
      by (rule fault_tick) (auto simp: placed_def keep split: option.splits sum.split dest!: placeFile_effect)
  qed
  then show ?thesis unfolding writeFileAtomic_def by (rule fault_andThen [OF fault_mkdirAll])
qed

text \<open>A placed file can be read, and no other file has changed.\<close>

lemma placed_others:
  assumes "placed n fs p data fs'"
  shows "\<exists>loc. \<forall>q. q \<noteq> loc \<longrightarrow> (\<forall>x. fmlookup fs' q = Some (FileNode x) \<longleftrightarrow> fmlookup fs q = Some (FileNode x))"
proof -
  obtain fs1 c where *: "mkdirs n fs [] (butlast p) = (True, fs1)" "fs' = fmupd (c @ [last p]) (FileNode data) fs1"
    using assms unfolding placed_def by blast
  have "only_dirs_added fs fs1" using mkdirs_only_dirs [of fs n "[]" "butlast p"] *(1) by simp
  then show ?thesis using *(2) only_dirs_files by (intro exI [of _ "c @ [last p]"]) auto
qed

lemma placed_read:
  assumes guard: "safeWritableJoin n fs root relative = Inr target" and root: "\<forall>s\<in>set root. plain_segment s"
    and wf: "well_formed fs" and placed: "placed n fs target data fs'"
  shows "readFile n fs' target = Some data"
proof -
  obtain fs1 c where *: "mkdirs n fs [] (butlast target) = (True, fs1)" "walk n fs1 [] (butlast target) = Some c"
    "isDirAt fs1 c" "\<not> isDirAt fs1 (c @ [last target])" "fs' = fmupd (c @ [last target]) (FileNode data) fs1"
    using placed unfolding placed_def by blast
  have no_link: "\<forall>a segs. fmlookup fs1 (c @ [last target]) \<noteq> Some (LinkNode a segs)"
    using guarded_target_no_link [OF guard root wf *(1,2)] by blast
  have old: "fmlookup fs1 (c @ [last target]) = None \<or> (\<exists>y. fmlookup fs1 (c @ [last target]) = Some (FileNode y))"
  proof (cases "fmlookup fs1 (c @ [last target])")
    case (Some nd)
    then show ?thesis using no_link *(4) by (cases nd) (auto simp: isDirAt_def)
  qed simp
  have w: "walk n fs' [] (butlast target) = Some c" using walk_upd_file [OF *(2,3) old] *(5) by simp
  obtain ss where ss: "ss \<noteq> []" "target = root @ ss" "\<forall>s\<in>set ss. plain_segment s"
    using guard safeJoin_result checkAncestor_result
    by (auto simp: safeWritableJoin_def split: sum.splits if_splits option.splits node.splits) (metis safeJoin_result)+
  then have t: "butlast target @ [last target] = target" by (intro append_butlast_last_id) simp
  have "last target \<noteq> ''..''" using ss by (simp add: plain_segment_def)
  moreover have "isDirAt fs' c" using *(3,4,5) by (auto simp: isDirAt_def)
  ultimately have "walk n fs' [] target = Some (c @ [last target])"
    using walk_snoc_file [OF w, of "last target" data] *(5) t by simp
  then show ?thesis using *(5) by (simp add: readFile_def)
qed

text \<open>The content a restore computes for a target: the file itself, or its merge into the local document.\<close>

definition restored_content ::
  "apply_env \<Rightarrow> spec \<Rightarrow> string \<Rightarrow> string \<Rightarrow> apply_disk \<Rightarrow> string list \<Rightarrow> string \<Rightarrow> string \<Rightarrow> bool" where
  "restored_content env s repoRel relative d target remote data \<longleftrightarrow>
     (if sp_strategy s \<noteq> StrategyStructuredMerge then data = remote
      else \<exists>r base. ap_registry env = Some r \<and>
        (if ap_hasBase env
         then \<exists>b. fst (run (BaseGet (ap_sha env) repoRel) (ad_base d)) = Inr b \<and> base = (case b of None \<Rightarrow> [] | Some x \<Rightarrow> x)
         else base = []) \<and>
        RestoreConfig (ap_codecs env) r (sp_transformer s) relative (ap_goos env) (ap_userHome env)
          (case readFile (ap_links env) (ad_fs d) target of None \<Rightarrow> [] | Some x \<Rightarrow> x) base remote = Inr data)"

definition base_loaded :: "apply_env \<Rightarrow> spec \<Rightarrow> string \<Rightarrow> apply_disk \<Rightarrow> string \<Rightarrow> bool" where
  "base_loaded env s repoRel d base \<longleftrightarrow>
     (if sp_strategy s = StrategyStructuredMerge \<and> ap_hasBase env
      then \<exists>b. fst (run (BaseGet (ap_sha env) repoRel) (ad_base d)) = Inr b \<and> base = (case b of None \<Rightarrow> [] | Some x \<Rightarrow> x)
      else base = [])"

lemma fault_restoreTarget:
  assumes "base_loaded env s repoRel d base"
  shows "fault_valid (\<lambda>d'. d' = d) (restoreTarget env s relative base remote root u)
    (\<lambda>_ d'. \<exists>target data. safeWritableJoin (ap_links env) (ad_fs d) root relative = Inr target \<and>
       restored_content env s repoRel relative d target remote data \<and>
       placed (ap_links env) (ad_fs d) target data (ad_fs d')) (\<lambda>d'. same_files (ad_fs d) (ad_fs d'))"
    (is "fault_valid _ _ ?Q ?E")
proof (cases "rejectedRoot s (path_join [pathString root, relative])")
  case (Some e)
  then show ?thesis by (simp add: restoreTarget_def) (rule fault_raise, simp)
next
  case None
  let ?T = "\<lambda>target d'. d' = d \<and> safeWritableJoin (ap_links env) (ad_fs d) root relative = Inr target"
  let ?C = "\<lambda>target data d'. ?T target d' \<and> restored_content env s repoRel relative d target remote data"
  have join: "fault_valid (\<lambda>d'. d' = d) (writableJoin env root relative) ?T ?E"
    unfolding writableJoin_def by (rule fault_read_tick) (auto simp: map_sum_def split: sum.splits)
  have data: "fault_valid (?T target) (restoredData env s relative base remote target) (?C target) ?E" for target
  proof (cases "sp_strategy s = StrategyStructuredMerge")
    case False
    then show ?thesis by (simp add: restoredData_def restored_content_def) (rule fault_ret, simp)
  next
    case True
    show ?thesis
    proof (cases "ap_registry env")
      case None
      then show ?thesis using True by (simp add: restoredData_def) (rule fault_raise, simp)
    next
      case (Some r)
      have "fault_valid (?T target) (read_tick ApplyFault (\<lambda>d. map_sum RestoreFailed id
              (RestoreConfig (ap_codecs env) r (sp_transformer s) relative (ap_goos env) (ap_userHome env)
                 (case readFile (ap_links env) (ad_fs d) target of None \<Rightarrow> [] | Some x \<Rightarrow> x) base remote))) (?C target) ?E"
        by (rule fault_read_tick)
          (use assms True Some in \<open>auto simp: restored_content_def base_loaded_def map_sum_def split: sum.splits\<close>)
      then show ?thesis using True Some by (simp add: restoredData_def Let_def)
    qed
  qed
  have put: "fault_valid (?C target data) (writeFileAtomic env target data) ?Q ?E" for target data
    by (rule fault_given [where A = "safeWritableJoin (ap_links env) (ad_fs d) root relative = Inr target \<and>
            restored_content env s repoRel relative d target remote data" and P = "\<lambda>d'. d' = d"],
        rule fault_weaken [OF fault_writeFileAtomic [of "ad_fs d"]]) auto
  show ?thesis unfolding restoreTarget_def None option.case
    by (rule fault_andThen [OF join fault_andThen [OF data put]])
qed

lemma fault_loadBase:
  "fault_valid (\<lambda>d'. d' = d) (loadBase env s repoRel) (\<lambda>base d'. d' = d \<and> base_loaded env s repoRel d base) (\<lambda>d'. d' = d)"
proof (cases "sp_strategy s = StrategyStructuredMerge \<and> ap_hasBase env")
  case True
  then show ?thesis unfolding loadBase_def
    by (simp, intro fault_read_tick) (auto simp: base_loaded_def split: sum.splits option.splits)
next
  case False
  then show ?thesis unfolding loadBase_def by (simp only: if_False) (rule fault_ret, auto simp: base_loaded_def)
qed

text \<open>A resource that is neither shared nor a copy, with one target.\<close>

definition plain_target :: "spec \<Rightarrow> string \<Rightarrow> bool" where
  "plain_target s t \<longleftrightarrow> sp_targets s = [t] \<and> \<not> sp_copy_only s \<and> sp_shared_as s = [] \<and> sp_provider s \<noteq> ''common''"

lemma fault_restoreBytes:
  assumes t: "plain_target s t"
  shows "fault_valid (\<lambda>d'. d' = d) (restoreBytes env s repoRel relative remote)
    (\<lambda>_ d'. \<exists>target data. safeWritableJoin (ap_links env) (ad_fs d) (pathSegments t) relative = Inr target \<and>
       restored_content env s repoRel relative d target remote data \<and>
       placed (ap_links env) (ad_fs d) target data (ad_fs d')) (\<lambda>d'. same_files (ad_fs d) (ad_fs d'))"
    (is "fault_valid _ _ ?Q ?E")
proof -
  let ?L = "\<lambda>base d'. d' = d \<and> base_loaded env s repoRel d base"
  have base: "fault_valid (\<lambda>d'. d' = d) (loadBase env s repoRel) ?L ?E"
    by (rule fault_weaken [OF fault_loadBase]) auto
  have each: "fault_valid (?L base) (forEach (restoreTarget env s relative base remote) [pathSegments t] ()) ?Q ?E" for base
  proof (cases "base_loaded env s repoRel d base")
    case True
    have "fault_valid (?L base) (restoreTarget env s relative base remote (pathSegments t) ()) ?Q ?E"
      by (rule fault_weaken [OF fault_restoreTarget [OF True]]) auto
    then show ?thesis by (simp, rule fault_andThen) (simp add: fault_ret)
  qed (simp add: fault_pre_False)
  have targets: "materializeTargets env s = ret [pathSegments t]"
    using t by (simp add: materializeTargets_def plain_target_def)
  have "fault_valid (\<lambda>d'. d' = d) (andThen (materializeTargets env s) (\<lambda>targets.
          andThen (loadBase env s repoRel) (\<lambda>base. forEach (restoreTarget env s relative base remote) targets ()))) ?Q ?E"
    unfolding targets
    by (rule fault_andThen [where R = "\<lambda>ts d'. d' = d \<and> ts = [pathSegments t]"], simp add: fault_ret)
      (use fault_andThen [OF base each] in \<open>auto intro!: fault_weaken [of "\<lambda>d'. d' = d" _ ?Q ?E] simp: fault_valid_def\<close>)
  then show ?thesis unfolding restoreBytes_def
    by (auto split: option.split intro: fault_raise simp: fault_raise)
qed

section \<open>Restoring to any number of targets\<close>

text \<open>Every file keeps its content or has one that \<open>N\<close> allows, and no file vanishes.\<close>

definition wholeFiles :: "(string \<Rightarrow> bool) \<Rightarrow> fsys \<Rightarrow> fsys \<Rightarrow> bool" where
  "wholeFiles N fs fs' \<longleftrightarrow>
     (\<forall>q y. fmlookup fs' q = Some (FileNode y) \<longrightarrow> fmlookup fs q = Some (FileNode y) \<or> N y) \<and>
     (\<forall>q x. fmlookup fs q = Some (FileNode x) \<longrightarrow> (\<exists>y. fmlookup fs' q = Some (FileNode y)))"

text \<open>The contents a restore may write: the repository file, or its merge into a local document.\<close>

definition newContent :: "apply_env \<Rightarrow> spec \<Rightarrow> string \<Rightarrow> string \<Rightarrow> apply_disk \<Rightarrow> string \<Rightarrow> string \<Rightarrow> bool" where
  "newContent env s repoRel relative d remote data \<longleftrightarrow>
     (if sp_strategy s \<noteq> StrategyStructuredMerge then data = remote
      else \<exists>r base localData. ap_registry env = Some r \<and> base_loaded env s repoRel d base \<and>
        RestoreConfig (ap_codecs env) r (sp_transformer s) relative (ap_goos env) (ap_userHome env) localData base remote = Inr data)"

lemma wholeFiles_refl [simp]: "wholeFiles N fs fs"
  by (simp add: wholeFiles_def)

lemma wholeFiles_steps:
  assumes "wholeFiles N fs fs1"
  shows "only_dirs_added fs1 fs2 \<Longrightarrow> wholeFiles N fs fs2"
    "N data \<Longrightarrow> \<not> isDirAt fs1 p \<Longrightarrow> wholeFiles N fs (fmupd p (FileNode data) fs1)"
    "fmlookup fs1 p = None \<Longrightarrow> wholeFiles N fs (fmupd p (LinkNode ab segs) fs1)"
  using assms only_dirs_files [of fs1 fs2] unfolding wholeFiles_def by (auto split: if_splits)

definition restoring :: "(string \<Rightarrow> bool) \<Rightarrow> apply_disk \<Rightarrow> apply_disk \<Rightarrow> bool" where
  "restoring N d d' \<longleftrightarrow> wholeFiles N (ad_fs d) (ad_fs d') \<and> ad_base d' = ad_base d"

lemma keeps_restoring_fsOp:
  assumes "\<And>fs fs'. wholeFiles N (ad_fs d) fs \<Longrightarrow> f fs = Some fs' \<Longrightarrow> wholeFiles N (ad_fs d) fs'"
  shows "keeps (restoring N d) (fsOp e f)"
  unfolding fsOp_def by (rule keeps_tick) (use assms in \<open>auto simp: restoring_def split: option.splits\<close>)

lemma keeps_restoring_mkdirAll: "keeps (restoring N d) (mkdirAll env p)"
proof -
  have "wholeFiles N (ad_fs d) (snd (mkdirs n fs [] q))" if "wholeFiles N (ad_fs d) fs" for n fs q
    using wholeFiles_steps(1) [OF that mkdirs_only_dirs] .
  then show ?thesis unfolding mkdirAll_def
    by (intro keeps_tick) (auto simp: restoring_def split: prod.splits, (metis snd_conv)+)
qed

lemma keeps_restoring_write:
  assumes "N data"
  shows "keeps (restoring N d) (writeFileAtomic env p data)"
  unfolding writeFileAtomic_def
  by (intro keeps_intros keeps_restoring_mkdirAll keeps_restoring_fsOp)
    (auto dest!: placeFile_effect intro: wholeFiles_steps(2) assms)

lemma keeps_restoring_materialize: "keeps (restoring N d) (materializeTargets env s)"
proof -
  have link: "keeps (restoring N d) (symlink env primary al)" for primary al
    unfolding symlink_def
    by (rule keeps_restoring_fsOp) (auto intro: wholeFiles_steps(3) split: option.splits if_splits)
  have resolve: "keeps (restoring N d) (resolveAlias env primary al)" for primary al
    unfolding resolveAlias_def by (intro keeps_intros)
  have ensure: "keeps (restoring N d) (ensureAlias env primary al)" for primary al
    unfolding ensureAlias_def
    by (intro keeps_intros) (auto intro!: keeps_intros resolve link keeps_restoring_mkdirAll split: option.split node.split sum.split)
  have save: "keeps (restoring N d) (saveAlias env al rec)" for al rec
    unfolding saveAlias_def by (intro keeps_intros keeps_tick) (auto simp: restoring_def)
  have copy: "keeps (restoring N d) (copyOnlyAlias env primary raw ts)" for primary raw ts
    unfolding copyOnlyAlias_def Let_def
    by (intro keeps_intros) (auto intro!: keeps_intros resolve split: option.split node.split)
  have mat: "keeps (restoring N d) (materializeAlias env primary raw ts)" for primary raw ts
    unfolding materializeAlias_def Let_def by (intro keeps_intros ensure save)
  show ?thesis unfolding materializeTargets_def copyOnlyTargets_def Let_def
    by (auto intro!: keeps_intros copy mat keeps_restoring_mkdirAll split: option.split)
qed

lemma base_loaded_cong: "ad_base d' = ad_base d \<Longrightarrow> base_loaded env s repoRel d' = base_loaded env s repoRel d"
  by (rule ext) (simp add: base_loaded_def)

lemma keeps_restoring_target:
  assumes "base_loaded env s repoRel d base"
  shows "keeps (restoring (newContent env s repoRel relative d remote) d) (restoreTarget env s relative base remote root u)"
proof -
  let ?N = "newContent env s repoRel relative d remote" and ?I = "restoring (newContent env s repoRel relative d remote) d"
  have data: "fault_valid ?I (restoredData env s relative base remote target) (\<lambda>x d'. ?I d' \<and> ?N x) ?I" for target
  proof (cases "sp_strategy s = StrategyStructuredMerge")
    case False
    then show ?thesis by (simp add: restoredData_def) (rule fault_ret, simp add: newContent_def)
  next
    case True
    show ?thesis
    proof (cases "ap_registry env")
      case None
      then show ?thesis using True by (simp add: restoredData_def) (rule fault_raise, simp)
    next
      case (Some reg)
      have "fault_valid ?I (read_tick ApplyFault (\<lambda>d. map_sum RestoreFailed id
              (RestoreConfig (ap_codecs env) reg (sp_transformer s) relative (ap_goos env) (ap_userHome env)
                 (case readFile (ap_links env) (ad_fs d) target of None \<Rightarrow> [] | Some x \<Rightarrow> x) base remote))) (\<lambda>x d'. ?I d' \<and> ?N x) ?I"
        by (rule fault_read_tick)
          (use assms True Some in \<open>auto simp: newContent_def map_sum_def split: sum.splits\<close>)
      then show ?thesis using True Some by (simp add: restoredData_def Let_def)
    qed
  qed
  have put: "fault_valid (\<lambda>d'. ?I d' \<and> ?N x) (writeFileAtomic env target x) (\<lambda>_. ?I) ?I" for target x
    by (rule fault_given [where A = "?N x" and P = ?I]) (auto intro: keeps_restoring_write)
  have join: "keeps ?I (writableJoin env root relative)" unfolding writableJoin_def by (rule keeps_read_tick)
  show ?thesis unfolding restoreTarget_def
    by (cases "rejectedRoot s (path_join [pathString root, relative])")
      (simp_all add: keeps_raise fault_andThen [OF join fault_andThen [OF data put]])
qed

lemma keeps_restoring_bytes:
  "keeps (restoring (newContent env s repoRel relative d remote) d) (restoreBytes env s repoRel relative remote)"
proof -
  let ?I = "restoring (newContent env s repoRel relative d remote) d"
  have load: "fault_valid ?I (loadBase env s repoRel) (\<lambda>b d'. ?I d' \<and> base_loaded env s repoRel d b) ?I"
  proof (cases "sp_strategy s = StrategyStructuredMerge \<and> ap_hasBase env")
    case True
    then show ?thesis unfolding loadBase_def
      by (simp, intro fault_read_tick) (auto simp: base_loaded_def restoring_def split: sum.splits option.splits)
  next
    case False
    then show ?thesis unfolding loadBase_def by (simp only: if_False) (rule fault_ret, auto simp: base_loaded_def)
  qed
  have each: "fault_valid (\<lambda>d'. ?I d' \<and> base_loaded env s repoRel d b) (forEach (restoreTarget env s relative b remote) ts ())
      (\<lambda>_. ?I) ?I" for b ts
    by (rule fault_given [where A = "base_loaded env s repoRel d b" and P = ?I])
      (auto intro!: keeps_forEach keeps_restoring_target)
  show ?thesis unfolding restoreBytes_def
    by (auto intro!: keeps_intros fault_andThen [OF keeps_restoring_materialize fault_andThen [OF load each]] split: option.split)
qed

section \<open>What a deletion leaves\<close>

lemma moveTree_gone:
  assumes "prefix src q" "\<not> prefix dst q"
  shows "fmlookup (moveTree fs src dst) q = None"
proof -
  have "q \<noteq> dst @ r" for r using assms(2) by (auto simp: prefix_def)
  then show ?thesis
    unfolding moveTree_def by (subst moveTree_fold) (use assms in auto)
qed

text \<open>Where the recovery copy of a file goes.\<close>

definition recovery_at :: "apply_env \<Rightarrow> spec \<Rightarrow> nat \<Rightarrow> string \<Rightarrow> fsys \<Rightarrow> string list \<Rightarrow> bool" where
  "recovery_at env s index relative fs place \<longleftrightarrow>
     (\<exists>recovery fs1 c. safeJoin (recoveryRoot env s index) relative = Inr recovery \<and>
        mkdirs (ap_links env) fs [] (butlast recovery) = (True, fs1) \<and>
        walk (ap_links env) fs1 [] (butlast recovery) = Some c \<and> place = c @ [last recovery])"

definition nothing_lost :: "apply_env \<Rightarrow> spec \<Rightarrow> nat \<Rightarrow> string \<Rightarrow> fsys \<Rightarrow> fsys \<Rightarrow> bool" where
  "nothing_lost env s index relative fs fs' \<longleftrightarrow>
     (\<forall>q x. fmlookup fs q = Some (FileNode x) \<longrightarrow>
        (\<exists>q'. fmlookup fs' q' = Some (FileNode x)) \<or> (\<exists>place. recovery_at env s index relative fs place \<and> prefix place q))"

lemma same_files_nothing_lost: "same_files fs fs' \<Longrightarrow> nothing_lost env s index relative fs fs'"
  unfolding same_files_def nothing_lost_def by blast

text \<open>The file at the target is at the recovery place, and no longer at the target.\<close>

definition moved_away :: "apply_env \<Rightarrow> spec \<Rightarrow> nat \<Rightarrow> string \<Rightarrow> string list \<Rightarrow> fsys \<Rightarrow> fsys \<Rightarrow> bool" where
  "moved_away env s index relative target fs fs' \<longleftrightarrow>
     (\<forall>c x. walk (ap_links env) fs [] (butlast target) = Some c \<and> fmlookup fs (c @ [last target]) = Some (FileNode x) \<longrightarrow>
        fmlookup fs' (c @ [last target]) = None \<and>
        (\<exists>place. recovery_at env s index relative fs place \<and> fmlookup fs' place = Some (FileNode x)))"

lemma rename_to_recovery:
  assumes mk: "mkdirs (ap_links env) fs [] (butlast recovery) = (True, fs1)"
    and join: "safeJoin (recoveryRoot env s index) relative = Inr recovery"
    and ren: "renameNode (ap_links env) fs1 target recovery = Some fs'"
  shows "nothing_lost env s index relative fs fs' \<and> moved_away env s index relative target fs fs'"
proof -
  obtain c e where c: "walk (ap_links env) fs1 [] (butlast target) = Some c"
    and e: "walk (ap_links env) fs1 [] (butlast recovery) = Some e"
    and apart: "\<not> prefix (c @ [last target]) (e @ [last recovery])" "\<not> prefix (e @ [last recovery]) (c @ [last target])"
    and fs': "fs' = moveTree fs1 (c @ [last target]) (e @ [last recovery])"
    using ren by (auto simp: renameNode_def Let_def split: option.splits if_splits)
  let ?src = "c @ [last target]" and ?dst = "e @ [last recovery]"
  have dirs: "only_dirs_added fs fs1" using mkdirs_only_dirs [of fs "ap_links env" "[]" "butlast recovery"] mk by simp
  have place: "recovery_at env s index relative fs ?dst"
    unfolding recovery_at_def using mk join e by blast
  have "(\<exists>q'. fmlookup fs' q' = Some (FileNode x)) \<or> prefix ?dst q" if q: "fmlookup fs q = Some (FileNode x)" for q x
  proof -
    have q1: "fmlookup fs1 q = Some (FileNode x)" using only_dirs_files [OF dirs] q by simp
    show ?thesis
    proof (cases "prefix ?src q")
      case True
      then show ?thesis using moveTree_moved [OF True q1] fs' by blast
    next
      case False
      then show ?thesis using moveTree_kept [OF False, of ?dst fs1] q1 fs' by fastforce
    qed
  qed
  then have "nothing_lost env s index relative fs fs'" unfolding nothing_lost_def using place by blast
  moreover have "moved_away env s index relative target fs fs'"
    unfolding moved_away_def
  proof (intro allI impI, elim conjE)
    fix c' x assume w: "walk (ap_links env) fs [] (butlast target) = Some c'" and x: "fmlookup fs (c' @ [last target]) = Some (FileNode x)"
    have "c' = c" using walk_mono [OF dirs w] c by simp
    then have x1: "fmlookup fs1 ?src = Some (FileNode x)" using only_dirs_files [OF dirs] x by simp
    have "fmlookup fs' ?dst = Some (FileNode x)" using moveTree_moved [OF _ x1, of ?src ?dst] fs' by simp
    moreover have "fmlookup fs' ?src = None" using moveTree_gone [of ?src ?src ?dst fs1] apart(2) fs' by simp
    ultimately show "fmlookup fs' (c' @ [last target]) = None \<and>
        (\<exists>place. recovery_at env s index relative fs place \<and> fmlookup fs' place = Some (FileNode x))"
      using place \<open>c' = c\<close> by blast
  qed
  ultimately show ?thesis ..
qed

lemma fault_recover:
  assumes wf: "well_formed (ad_fs d)" and last: "last target \<noteq> ''..''" "target \<noteq> []"
  shows "fault_valid (\<lambda>d'. d' = d) (recoverBeforeDelete env s relative target index)
    (\<lambda>_ d'. nothing_lost env s index relative (ad_fs d) (ad_fs d') \<and> moved_away env s index relative target (ad_fs d) (ad_fs d'))
    (\<lambda>d'. nothing_lost env s index relative (ad_fs d) (ad_fs d'))" (is "fault_valid _ _ ?Q ?E")
proof -
  let ?n = "ap_links env"
  have found: "fault_valid (\<lambda>d'. d' = d) (read_tick ApplyFault (\<lambda>d. Inr (walk ?n (ad_fs d) [] target)))
      (\<lambda>f d'. f = walk ?n (ad_fs d) [] target \<and> d' = d) ?E"
    by (rule fault_read_tick) (auto simp: same_files_nothing_lost)
  have rest: "fault_valid (\<lambda>d'. f = walk ?n (ad_fs d) [] target \<and> d' = d)
      (if f = None then ret () else case safeJoin (recoveryRoot env s index) relative of Inl e \<Rightarrow> raise (PathGuard e)
       | Inr recovery \<Rightarrow> andThen (mkdirAll env (butlast recovery)) (\<lambda>_. fsOp Occupied (\<lambda>fs. renameNode ?n fs target recovery))) ?Q ?E" for f
  proof (rule fault_if)
    assume "f = None"
    moreover have "moved_away env s index relative target (ad_fs d) (ad_fs d)" if none: "walk ?n (ad_fs d) [] target = None"
      unfolding moved_away_def
    proof (intro allI impI, elim conjE)
      fix c x assume w: "walk ?n (ad_fs d) [] (butlast target) = Some c" and x: "fmlookup (ad_fs d) (c @ [last target]) = Some (FileNode x)"
      have "isDirAt (ad_fs d) c" using wf x unfolding well_formed_def by blast
      from walk_snoc_file [OF w this last(1) x] none last(2) show "fmlookup (ad_fs d) (c @ [last target]) = None \<and>
        (\<exists>place. recovery_at env s index relative (ad_fs d) place \<and> fmlookup (ad_fs d) place = Some (FileNode x))" by simp
    qed
    ultimately show "fault_valid (\<lambda>d'. f = walk ?n (ad_fs d) [] target \<and> d' = d) (ret ()) ?Q ?E"
      by (intro fault_ret) (auto simp: same_files_nothing_lost)
  next
    show "fault_valid (\<lambda>d'. f = walk ?n (ad_fs d) [] target \<and> d' = d)
      (case safeJoin (recoveryRoot env s index) relative of Inl e \<Rightarrow> raise (PathGuard e)
       | Inr recovery \<Rightarrow> andThen (mkdirAll env (butlast recovery)) (\<lambda>_. fsOp Occupied (\<lambda>fs. renameNode ?n fs target recovery))) ?Q ?E"
    proof (cases "safeJoin (recoveryRoot env s index) relative")
      case (Inl e)
      then show ?thesis by simp (rule fault_raise, auto simp: same_files_nothing_lost)
    next
      case (Inr recovery)
      let ?M = "\<lambda>d'. mkdirs ?n (ad_fs d) [] (butlast recovery) = (True, ad_fs d')"
      have mk: "fault_valid (\<lambda>d'. f = walk ?n (ad_fs d) [] target \<and> d' = d) (mkdirAll env (butlast recovery)) (\<lambda>_. ?M) ?E"
        by (rule fault_weaken [OF fault_mkdirAll]) (auto simp: same_files_nothing_lost)
      have keep: "?E d'" if m: "?M d'" for d'
        using same_files_nothing_lost [OF same_files_mkdirs [of "ad_fs d" ?n "[]" "butlast recovery"]] m by simp
      have ren: "fault_valid ?M (fsOp Occupied (\<lambda>fs. renameNode ?n fs target recovery)) (\<lambda>_. ?Q ()) ?E"
        unfolding fsOp_def
        by (rule fault_tick)
          (auto simp: keep rename_to_recovery [OF _ Inr] split: option.splits sum.split)
      show ?thesis using fault_andThen [OF mk ren] by (simp add: Inr)
    qed
  qed
  show ?thesis unfolding recoverBeforeDelete_def by (rule fault_andThen [OF found rest])
qed

section \<open>Concrete file systems\<close>

definition add_file :: "string list \<times> string \<Rightarrow> fsys \<Rightarrow> fsys" where
  "add_file = (\<lambda>(p, x) fs. fmupd p (FileNode x) (fold (\<lambda>k. fmupd (take k p) DirNode) [1..<length p] fs))"

definition fs_of :: "(string list \<times> string) list \<Rightarrow> fsys" where
  "fs_of files = fold add_file files fmempty"

lemma well_formed_code: "list_all (\<lambda>q. q = [] \<or> isDirAt fs (butlast q)) (fm_keys fs) \<Longrightarrow> well_formed fs"
  unfolding well_formed_def list_all_iff by (fastforce simp: fmlookup_dom_iff dest: bspec)

definition demo_apply_env :: apply_env where
  "demo_apply_env = \<lparr>ap_links = 10, ap_repoDir = [''repo''], ap_home = ''/hub'', ap_goos = ''linux'', ap_userHome = ''/h'',
     ap_codecs = demo_codecs, ap_registry = None, ap_hasBase = False, ap_sha = id, ap_stamp = ''20240101T000000Z''\<rparr>"

definition demo_skill_spec :: spec where
  "demo_skill_spec = example_spec\<lparr>sp_key := ''claude/skills'', sp_id := ''skills'', sp_category := CategorySkills,
     sp_strategy := StrategyFileTree, sp_targets := [''/h/skills''], sp_transformer := [], sp_reserved := []\<rparr>"

definition demo_skill_path :: string where
  "demo_skill_path = ''agents/_portable/config/providers/claude/skills/skills/a.md''"

definition demo_apply_disk :: apply_disk where
  "demo_apply_disk = \<lparr>ad_fs = fs_of [(''repo'' # split_on CHR ''/'' demo_skill_path, ''new''), ([''h'', ''skills'', ''a.md''], ''old'')],
     ad_aliases = None, ad_base = toy_disk\<rparr>"

lemma demo_apply_well_formed: "well_formed (ad_fs demo_apply_disk)"
  by (rule well_formed_code) code_simp

text \<open>One target: all or nothing.\<close>

lemma restore_single_target:
  assumes "well_formed (ad_fs d)" and "plain_target s t" and "RestoreResource env s repoRel (boot d fs) = (r, w)"
  shows "(\<exists>loc. \<forall>q. q \<noteq> loc \<or> r \<noteq> Inr () \<longrightarrow>
            (\<forall>x. fmlookup (ad_fs (w_disk w)) q = Some (FileNode x) \<longleftrightarrow> fmlookup (ad_fs d) q = Some (FileNode x))) \<and>
    (r = Inr () \<longrightarrow> (\<exists>ref source remote target data. ParseRepoPath repoRel = Inr ref \<and>
       safeJoin (ap_repoDir env) repoRel = Inr source \<and> readFile (ap_links env) (ad_fs d) source = Some remote \<and>
       safeJoin (pathSegments t) (ref_relative ref) = Inr target \<and>
       readFile (ap_links env) (ad_fs (w_disk w)) target = Some data \<and>
       restored_content env s repoRel (ref_relative ref) d target remote data))"
proof -
  let ?n = "ap_links env" and ?E = "\<lambda>d'. same_files (ad_fs d) (ad_fs d')"
  let ?Q = "\<lambda>_ d'. \<exists>ref source remote target data. ParseRepoPath repoRel = Inr ref \<and>
       safeJoin (ap_repoDir env) repoRel = Inr source \<and> readFile ?n (ad_fs d) source = Some remote \<and>
       safeWritableJoin ?n (ad_fs d) (pathSegments t) (ref_relative ref) = Inr target \<and>
       restored_content env s repoRel (ref_relative ref) d target remote data \<and> placed ?n (ad_fs d) target data (ad_fs d')"
  have V: "fault_valid (\<lambda>d'. d' = d) (RestoreResource env s repoRel) ?Q ?E"
  proof (cases "\<exists>ref source. ParseRepoPath repoRel = Inr ref \<and> refMatchesSpec ref s \<and> safeJoin (ap_repoDir env) repoRel = Inr source")
    case False
    then show ?thesis
      by (auto simp: RestoreResource_def split: sum.split intro!: fault_raise)
  next
    case True
    then obtain ref source where p: "ParseRepoPath repoRel = Inr ref" "refMatchesSpec ref s" "safeJoin (ap_repoDir env) repoRel = Inr source"
      by blast
    let ?R = "\<lambda>remote d'. readFile ?n (ad_fs d) source = Some remote \<and> d' = d"
    have read: "fault_valid (\<lambda>d'. d' = d) (read_tick ApplyFault (\<lambda>d. case readFile ?n (ad_fs d) source of
                 None \<Rightarrow> Inl (SourceMissing repoRel) | Some x \<Rightarrow> Inr x)) ?R ?E"
      by (rule fault_read_tick) (auto split: option.splits)
    have put: "fault_valid (?R remote) (restoreBytes env s repoRel (ref_relative ref) remote) ?Q ?E" for remote
      by (rule fault_given [where A = "readFile ?n (ad_fs d) source = Some remote" and P = "\<lambda>d'. d' = d"],
          rule fault_weaken [OF fault_restoreBytes [OF assms(2), of d]]) (use p in auto)
    show ?thesis using fault_andThen [OF read put] p by (simp add: RestoreResource_def)
  qed
  have start: "w_disk (boot d fs) = d" by (simp add: boot_def)
  show ?thesis
  proof (cases r)
    case (Inl e)
    from fault_validD(2) [OF V start assms(3) Inl] show ?thesis using Inl by (simp add: same_files_def)
  next
    case (Inr u)
    from fault_validD(1) [OF V start assms(3) Inr] obtain ref source remote target data where
      *: "ParseRepoPath repoRel = Inr ref" "safeJoin (ap_repoDir env) repoRel = Inr source"
      "readFile ?n (ad_fs d) source = Some remote"
      and g: "safeWritableJoin ?n (ad_fs d) (pathSegments t) (ref_relative ref) = Inr target"
      and c: "restored_content env s repoRel (ref_relative ref) d target remote data"
      and pl: "placed ?n (ad_fs d) target data (ad_fs (w_disk w))" by blast
    have "safeJoin (pathSegments t) (ref_relative ref) = Inr target"
      using g checkAncestor_result by (auto simp: safeWritableJoin_def split: sum.splits if_splits option.splits node.splits)
    note target = this placed_read [OF g pathSegments_plain assms(1) pl]
    show ?thesis
    proof (intro conjI impI)
      show "\<exists>loc. \<forall>q. q \<noteq> loc \<or> r \<noteq> Inr () \<longrightarrow>
          (\<forall>x. fmlookup (ad_fs (w_disk w)) q = Some (FileNode x) \<longleftrightarrow> fmlookup (ad_fs d) q = Some (FileNode x))"
        using placed_others [OF pl] Inr by simp
      show "\<exists>ref source remote target data. ParseRepoPath repoRel = Inr ref \<and>
          safeJoin (ap_repoDir env) repoRel = Inr source \<and> readFile ?n (ad_fs d) source = Some remote \<and>
          safeJoin (pathSegments t) (ref_relative ref) = Inr target \<and>
          readFile ?n (ad_fs (w_disk w)) target = Some data \<and>
          restored_content env s repoRel (ref_relative ref) d target remote data"
        by (intro exI conjI) (rule * target c)+
    qed
  qed
qed

text \<open>Any number of targets: whole files.\<close>

lemma restore_whole_files:
  assumes "RestoreResource env s repoRel (boot d fs) = (r, w)"
  shows "wholeFiles (\<lambda>y. \<exists>ref source remote. ParseRepoPath repoRel = Inr ref \<and> safeJoin (ap_repoDir env) repoRel = Inr source \<and>
       readFile (ap_links env) (ad_fs d) source = Some remote \<and>
       newContent env s repoRel (ref_relative ref) d remote y) (ad_fs d) (ad_fs (w_disk w))"
proof -
  let ?N = "\<lambda>y. \<exists>ref source remote. ParseRepoPath repoRel = Inr ref \<and> safeJoin (ap_repoDir env) repoRel = Inr source \<and>
       readFile (ap_links env) (ad_fs d) source = Some remote \<and> newContent env s repoRel (ref_relative ref) d remote y"
  let ?E = "\<lambda>d'. wholeFiles ?N (ad_fs d) (ad_fs d')"
  have "fault_valid (\<lambda>d'. d' = d) (RestoreResource env s repoRel) (\<lambda>_. ?E) ?E"
  proof (cases "\<exists>ref source. ParseRepoPath repoRel = Inr ref \<and> refMatchesSpec ref s \<and> safeJoin (ap_repoDir env) repoRel = Inr source")
    case False
    then show ?thesis by (auto simp: RestoreResource_def split: sum.split intro!: fault_raise)
  next
    case True
    then obtain ref source where p: "ParseRepoPath repoRel = Inr ref" "refMatchesSpec ref s" "safeJoin (ap_repoDir env) repoRel = Inr source"
      by blast
    let ?R = "\<lambda>remote d'. readFile (ap_links env) (ad_fs d) source = Some remote \<and> d' = d"
    have read: "fault_valid (\<lambda>d'. d' = d) (read_tick ApplyFault (\<lambda>d. case readFile (ap_links env) (ad_fs d) source of
                 None \<Rightarrow> Inl (SourceMissing repoRel) | Some x \<Rightarrow> Inr x)) ?R ?E"
      by (rule fault_read_tick) (auto split: option.splits)
    have put: "fault_valid (?R remote) (restoreBytes env s repoRel (ref_relative ref) remote) (\<lambda>_. ?E) ?E" for remote
    proof (rule fault_given [where A = "readFile (ap_links env) (ad_fs d) source = Some remote" and P = "\<lambda>d'. d' = d"])
      assume "readFile (ap_links env) (ad_fs d) source = Some remote"
      then have "?E d'" if "restoring (newContent env s repoRel (ref_relative ref) d remote) d d'" for d'
        using that p unfolding restoring_def wholeFiles_def by (metis (no_types, lifting))
      then show "fault_valid (\<lambda>d'. d' = d) (restoreBytes env s repoRel (ref_relative ref) remote) (\<lambda>_. ?E) ?E"
        by (intro fault_weaken [OF keeps_restoring_bytes [of env s repoRel "ref_relative ref" d remote]]) (auto simp: restoring_def)
    qed simp
    show ?thesis using fault_andThen [OF read put] p by (simp add: RestoreResource_def)
  qed
  from fault_validD [OF this _ assms] show ?thesis by (cases r) (auto simp: boot_def)
qed

section \<open>Properties\<close>

text \<open> C11. Restoring writes whole files.  Whatever fails and whenever the process dies, and however many targets the
  resource has, shared, aliased or copied: every file of the machine keeps its content or holds a complete new one,
  the repository file (or, for a structured resource, its merge into a local document), and no file vanishes.  For a
  resource with a single target that is neither shared nor copy-only the restore is all or nothing: at most one
  file changes, and none unless the restore reports success; then the target reads back as the repository file, or
  as its merge into the local document for a structured resource. \<close>

theorem restore_is_all_or_nothing:
  assumes "well_formed (ad_fs d)" and "RestoreResource env s repoRel (boot d fs) = (r, w)"
  shows "wholeFiles (\<lambda>y. \<exists>ref source remote. ParseRepoPath repoRel = Inr ref \<and> safeJoin (ap_repoDir env) repoRel = Inr source \<and>
       readFile (ap_links env) (ad_fs d) source = Some remote \<and>
       newContent env s repoRel (ref_relative ref) d remote y) (ad_fs d) (ad_fs (w_disk w)) \<and>
    (\<forall>t. sp_targets s = [t] \<and> \<not> sp_copy_only s \<and> sp_shared_as s = [] \<and> sp_provider s \<noteq> ''common'' \<longrightarrow>
     (\<exists>loc. \<forall>q. q \<noteq> loc \<or> r \<noteq> Inr () \<longrightarrow>
            (\<forall>x. fmlookup (ad_fs (w_disk w)) q = Some (FileNode x) \<longleftrightarrow> fmlookup (ad_fs d) q = Some (FileNode x))) \<and>
     (r = Inr () \<longrightarrow> (\<exists>ref source remote target data. ParseRepoPath repoRel = Inr ref \<and>
       safeJoin (ap_repoDir env) repoRel = Inr source \<and> readFile (ap_links env) (ad_fs d) source = Some remote \<and>
       safeJoin (pathSegments t) (ref_relative ref) = Inr target \<and>
       readFile (ap_links env) (ad_fs (w_disk w)) target = Some data \<and>
       restored_content env s repoRel (ref_relative ref) d target remote data)))"
  using restore_whole_files [OF assms(2)] restore_single_target [OF assms(1) _ assms(2)]
  unfolding plain_target_def by blast

lemma restore_is_all_or_nothing_witness:
  "\<exists>w target. RestoreResource demo_apply_env demo_skill_spec demo_skill_path (boot demo_apply_disk []) = (Inr (), w) \<and>
     safeJoin [''h'', ''skills''] ''a.md'' = Inr target \<and> readFile 10 (ad_fs (w_disk w)) target = Some ''new''"
proof -
  have r: "fst (RestoreResource demo_apply_env demo_skill_spec demo_skill_path (boot demo_apply_disk [])) = Inr ()" by code_simp
  then obtain w where w: "RestoreResource demo_apply_env demo_skill_spec demo_skill_path (boot demo_apply_disk []) = (Inr (), w)"
    by (metis prod.collapse)
  have t: "sp_targets demo_skill_spec = [''/h/skills''] \<and> \<not> sp_copy_only demo_skill_spec \<and>
      sp_shared_as demo_skill_spec = [] \<and> sp_provider demo_skill_spec \<noteq> ''common''" by code_simp
  have p: "(case ParseRepoPath demo_skill_path of Inr ref \<Rightarrow> ref_relative ref = ''a.md'' | _ \<Rightarrow> False)"
    and source: "(case safeJoin [''repo''] demo_skill_path of Inr source \<Rightarrow> readFile 10 (ad_fs demo_apply_disk) source = Some ''new'' | _ \<Rightarrow> False)"
    and env: "ap_links demo_apply_env = 10" "ap_repoDir demo_apply_env = [''repo'']"
    and strategy: "sp_strategy demo_skill_spec \<noteq> StrategyStructuredMerge"
    and seg: "pathSegments ''/h/skills'' = [''h'', ''skills'']" by code_simp+
  from conjunct2 [OF restore_is_all_or_nothing [OF demo_apply_well_formed w], THEN spec, THEN mp, OF t] obtain ref source remote target data where
    "ParseRepoPath demo_skill_path = Inr ref" "safeJoin [''repo''] demo_skill_path = Inr source"
    "readFile 10 (ad_fs demo_apply_disk) source = Some remote" "safeJoin [''h'', ''skills''] (ref_relative ref) = Inr target"
    "readFile 10 (ad_fs (w_disk w)) target = Some data"
    "restored_content demo_apply_env demo_skill_spec demo_skill_path (ref_relative ref) demo_apply_disk target remote data"
    unfolding env seg by blast
  then show ?thesis
    using w p source strategy by (intro exI [of _ w] exI [of _ target]) (simp add: restored_content_def)
qed

text \<open>The turn of one target.\<close>

lemma fault_deleteTarget:
  assumes "well_formed (ad_fs d)" and "sp_category s = CategorySkills \<or> sp_category s = CategoryPlugins"
  shows "fault_valid (\<lambda>d'. d' = d) (deleteTarget env s rel (pathSegments t) i)
    (\<lambda>n d'. nothing_lost env s i rel (ad_fs d) (ad_fs d') \<and> n = Suc i \<and>
       (\<exists>target. safeJoin (pathSegments t) rel = Inr target \<and> moved_away env s i rel target (ad_fs d) (ad_fs d')))
    (\<lambda>d'. nothing_lost env s i rel (ad_fs d) (ad_fs d'))"
proof -
  let ?E = "\<lambda>d'. nothing_lost env s i rel (ad_fs d) (ad_fs d')"
  let ?M = "\<lambda>d'. \<exists>target. safeJoin (pathSegments t) rel = Inr target \<and> moved_away env s i rel target (ad_fs d) (ad_fs d')"
  have refl: "?E d" by (simp add: same_files_nothing_lost)
  let ?T = "\<lambda>target d'. safeJoin (pathSegments t) rel = Inr target \<and> d' = d"
  have join: "fault_valid (\<lambda>d'. d' = d) (deletableJoin env (pathSegments t) rel) ?T ?E"
    unfolding deletableJoin_def
    by (rule fault_read_tick)
      (use refl checkAncestor_result in \<open>auto simp: safeDeletableJoin_def map_sum_def split: sum.splits if_splits option.splits\<close>)
  have rec: "fault_valid (?T target) (recoverBeforeDelete env s rel target i) (\<lambda>_ d'. ?E d' \<and> ?M d') ?E" for target
  proof (rule fault_given [where A = "safeJoin (pathSegments t) rel = Inr target" and P = "\<lambda>d'. d' = d"])
    assume j: "safeJoin (pathSegments t) rel = Inr target"
    have "target \<noteq> []" using safeJoin_result [OF j] by auto
    moreover have "last target \<noteq> ''..''" using safeJoin_no_dots [OF j pathSegments_plain] calculation by simp
    ultimately show "fault_valid (\<lambda>d'. d' = d) (recoverBeforeDelete env s rel target i) (\<lambda>_ d'. ?E d' \<and> ?M d') ?E"
      using j by (intro fault_weaken [OF fault_recover [OF assms(1), of target env s rel i]]) auto
  qed simp
  show ?thesis
  proof (cases "rejectedRoot s (path_join [pathString (pathSegments t), rel])")
    case (Some e)
    then show ?thesis by (simp add: deleteTarget_def) (rule fault_raise, simp add: refl)
  next
    case None
    have "fault_valid (?T target) (andThen (recoverBeforeDelete env s rel target i) (\<lambda>_. ret (Suc i)))
        (\<lambda>n d'. ?E d' \<and> n = Suc i \<and> ?M d') ?E" for target
      by (rule fault_andThen [OF rec]) (rule fault_ret, simp)
    from fault_andThen [OF join this] show ?thesis using None assms(2) by (simp add: deleteTarget_def)
  qed
qed

text \<open>With one target, shared and copied resources included, that is the whole deletion.\<close>

lemma delete_single_target:
  assumes "sp_targets s = [t]" and "ParseRepoPath repoRel = Inr ref" and "DeleteResource env s repoRel (boot d fs) = (r, w)"
    and "well_formed (ad_fs d)" and "sp_category s = CategorySkills \<or> sp_category s = CategoryPlugins"
  shows "nothing_lost env s 0 (ref_relative ref) (ad_fs d) (ad_fs (w_disk w)) \<and>
    (r = Inr () \<longrightarrow> (\<exists>target. safeJoin (pathSegments t) (ref_relative ref) = Inr target \<and>
       moved_away env s 0 (ref_relative ref) target (ad_fs d) (ad_fs (w_disk w))))"
proof -
  let ?rel = "ref_relative ref"
  let ?E = "\<lambda>d'. nothing_lost env s 0 ?rel (ad_fs d) (ad_fs d')"
  let ?Q = "\<lambda>_ d'. ?E d' \<and> (\<exists>target. safeJoin (pathSegments t) ?rel = Inr target \<and>
       moved_away env s 0 ?rel target (ad_fs d) (ad_fs d'))"
  have refl: "?E d" by (simp add: same_files_nothing_lost)
  note one = fault_deleteTarget [OF assms(4,5), of env ?rel t 0]
  have ret_bind: "andThen (ret a) f = f a" for a :: "string list list" and f :: "string list list \<Rightarrow> unit apply_io"
    by (simp add: fun_eq_iff andThen_def ret_def)
  have raised: "andThen (raise e) f = raise e" for e and f :: "string list list \<Rightarrow> unit apply_io"
    by (simp add: fun_eq_iff andThen_def raise_def)
  have loop: "fault_valid (\<lambda>d'. d' = d) (andThen (forEach (deleteTarget env s ?rel) [pathSegments t] 0) (\<lambda>_. ret ())) ?Q ?E"
  proof (rule fault_andThen [where R = ?Q])
    show "fault_valid (\<lambda>d'. d' = d) (forEach (deleteTarget env s ?rel) [pathSegments t] 0) ?Q ?E"
      by (simp, rule fault_andThen [OF one]) (auto intro: fault_ret)
  qed (rule fault_ret)
  have targets: "targetsForDelete env s = ret [pathSegments t] \<or> (\<exists>e. targetsForDelete env s = raise e)"
    using assms(1) by (auto simp: targetsForDelete_def copyOnlyTargets_def Let_def split: option.split)
  have V: "fault_valid (\<lambda>d'. d' = d) (DeleteResource env s repoRel) ?Q ?E"
    using targets loop refl by (auto simp: DeleteResource_def assms(2) ret_bind raised intro: fault_raise)
  from fault_validD [OF V _ assms(3)] show ?thesis by (cases r) (auto simp: boot_def)
qed



text \<open>A machine whose home directory is reached through a link, as \<open>/home\<close> leading to \<open>/data\<close>.\<close>

definition linked_home_disk :: apply_disk where
  "linked_home_disk = \<lparr>ad_fs = fmupd [''home''] (LinkNode True [''data'']) (fs_of
       [([''repo'', ''agents'', ''_portable'', ''config'', ''common'', ''skills'', ''skills'', ''a.md''], ''new''),
        ([''data'', ''u'', ''x''], [])]),
     ad_aliases = None, ad_base = toy_disk\<rparr>"

definition shared_skill_spec :: spec where
  "shared_skill_spec = demo_skill_spec\<lparr>sp_key := ''common/skills'', sp_provider := ''common'',
     sp_targets := [''/home/u/.agents'', ''/home/u/.claude'']\<rparr>"

text \<open>A shared resource can be restored only once behind a link: when the home directory is reached through
  a symbolic link, the first restore makes the alias and succeeds; the second compares the resolved
  alias with the unresolved primary directory, finds them different and fails, although the alias
  is the one it made.\<close>

lemma alias_breaks_behind_link:
  "case run (RestoreResource demo_apply_env shared_skill_spec ''agents/_portable/config/common/skills/skills/a.md'') linked_home_disk of
     (r1, d1) \<Rightarrow> r1 = Inr () \<and> readFile 10 (ad_fs d1) [''home'', ''u'', ''.claude'', ''a.md''] = Some ''new'' \<and>
       fst (run (RestoreResource demo_apply_env shared_skill_spec ''agents/_portable/config/common/skills/skills/a.md'') d1) =
         Inl (AliasOutside [''home'', ''u'', ''.claude''])"
  by code_simp

end
