(* ===== verification/Sync_Disk.thy ===== *)
theory Sync_Disk
  imports Resource_Applier Conflict_Store Trash Install_Executor Remote_Guards Library_Guard
begin

text \<open>
  The state a synchronization round works on, put together from the states of its parts, and the
  way an operation of a part runs on the whole.  The machine's file system holds the repository's
  working tree; the conflict store, the trash, the base store, the install manager and the remote
  validation each see their part of it through a view that is read off the working tree before one
  of their operations and written back after it.  Git's committed tree, the saved snapshot
  (internal/state/state.go) and the log of the network operations complete the state.  The texts of
  JSON files (conflict records, the index of the trash) are made and read by parameters.
\<close>

section \<open>The whole state\<close>

type_synonym work_tree = "(string, node) fmap"

datatype net_op = Pulling | Pushing | Fetching | Resetting

record sync_disk =
  sy_apply :: apply_disk
  sy_conflict :: disk
  sy_install :: install_disk
  sy_state :: "snapshot stored option"
  sy_head :: work_tree
  sy_net :: "net_op list"

text \<open>
  Git, beside the number of the network operation: what the command reports, the committed tree and
  the working tree it leaves.
\<close>

record git_env =
  gi_config :: "nat \<Rightarrow> string option"
  gi_pull :: "nat \<Rightarrow> work_tree \<Rightarrow> work_tree \<Rightarrow> string option \<times> work_tree \<times> work_tree"
  gi_push :: "nat \<Rightarrow> work_tree \<Rightarrow> string option"
  gi_fetch :: "nat \<Rightarrow> string option"
  gi_reset :: "nat \<Rightarrow> work_tree \<Rightarrow> work_tree \<Rightarrow> string option \<times> work_tree \<times> work_tree"

record text_env =
  te_recordText :: "conflict_record stored \<Rightarrow> string"
  te_readRecord :: "string \<Rightarrow> conflict_record stored"
  te_indexText :: "trash_index \<Rightarrow> string"
  te_readIndex :: "string \<Rightarrow> trash_index"
  te_modTime :: "string \<Rightarrow> int"

section \<open>The working tree\<close>

definition relOf :: "apply_env \<Rightarrow> string list \<Rightarrow> string option" where
  "relOf env p =
     (let rel = drop (length (ap_repoDir env)) p
      in if prefix (ap_repoDir env) p \<and> rel \<noteq> [] \<and> hd rel \<noteq> ''.git'' then Some (join_with CHR ''/'' rel) else None)"

definition segsOf :: "apply_env \<Rightarrow> string \<Rightarrow> string list" where
  "segsOf env rel = ap_repoDir env @ split_on CHR ''/'' rel"

text \<open>Git knows files and links, not directories.\<close>

definition workTree :: "apply_env \<Rightarrow> fsys \<Rightarrow> work_tree" where
  "workTree env fs =
     fmap_of_list (List.map_filter (\<lambda>(p, nd). if nd = DirNode then None else map_option (\<lambda>rel. (rel, nd)) (relOf env p)) (fm_entries fs))"

text \<open>A node with the directories above it.\<close>

definition addNode :: "string list \<Rightarrow> node \<Rightarrow> fsys \<Rightarrow> fsys" where
  "addNode p nd fs =
     fmupd p nd (fold (\<lambda>k m. if fmlookup m (take k p) = None then fmupd (take k p) DirNode m else m) [1..<length p] fs)"

definition putWork :: "apply_env \<Rightarrow> work_tree \<Rightarrow> fsys \<Rightarrow> fsys" where
  "putWork env t fs =
     (let old = workTree env fs;
          kept = fmfilter (\<lambda>p. case relOf env p of
                   None \<Rightarrow> True | Some rel \<Rightarrow> fmlookup fs p = Some DirNode \<or> fmlookup t rel \<noteq> None) fs
      in fold (\<lambda>(rel, nd) m. if fmlookup old rel = Some nd then m else addNode (segsOf env rel) nd m) (fm_entries t) kept)"

definition texts :: "work_tree \<Rightarrow> (string, string) fmap" where
  "texts t = fmap_of_list (List.map_filter (\<lambda>(rel, nd). case nd of FileNode x \<Rightarrow> Some (rel, x) | _ \<Rightarrow> None) (fm_entries t))"

definition putTexts :: "(string, string) fmap \<Rightarrow> work_tree \<Rightarrow> work_tree" where
  "putTexts new t =
     fmfilter (\<lambda>rel. (case fmlookup t rel of Some (FileNode _) \<Rightarrow> False | _ \<Rightarrow> True)) t ++\<^sub>f fmmap FileNode new"

section \<open>Conflict bundles and trash in the working tree\<close>

definition conflictDir :: string where
  "conflictDir = ''agents/_portable/config/conflicts/''"

definition trashDir :: string where
  "trashDir = ''.trash/files/''"

definition trashIndexPath :: string where
  "trashIndexPath = ''.trash/index.json''"

text \<open>The entry of the conflict directory a file belongs to, and its name in it.\<close>

definition bundlePart :: "string \<Rightarrow> (string \<times> string) option" where
  "bundlePart rel =
     (if prefix conflictDir rel then
        (case split_on CHR ''/'' (drop (length conflictDir) rel) of
           i # rest \<Rightarrow> Some (i, join_with CHR ''/'' rest) | [] \<Rightarrow> None)
      else None)"

definition bundleOf :: "text_env \<Rightarrow> (string \<times> string) list \<Rightarrow> dirent" where
  "bundleOf te files =
     (if map_of files [] \<noteq> None then RegularFile
      else Dir \<lparr>bd_record = map_option (te_readRecord te) (map_of files ''record.json''),
                bd_variants = fmap_of_list (filter (\<lambda>(v, _). v \<noteq> ''record.json'') files)\<rparr>)"

definition bundleFilesOf :: "string \<Rightarrow> (string, string) fmap \<Rightarrow> (string \<times> string) list" where
  "bundleFilesOf i t =
     List.map_filter (\<lambda>(rel, x). case bundlePart rel of Some (j, v) \<Rightarrow> if j = i then Some (v, x) else None | None \<Rightarrow> None)
       (fm_entries t)"

definition bundlesOf :: "text_env \<Rightarrow> (string, string) fmap \<Rightarrow> (string, dirent) fmap" where
  "bundlesOf te t =
     fmap_of_list (map (\<lambda>i. (i, bundleOf te (bundleFilesOf i t)))
       (sort_unique (List.map_filter (\<lambda>rel. map_option fst (bundlePart rel)) (fm_keys t))))"

definition bundleTexts :: "text_env \<Rightarrow> string \<Rightarrow> dirent \<Rightarrow> (string \<times> string) list" where
  "bundleTexts te i e =
     (case e of
        RegularFile \<Rightarrow> [(conflictDir @ i, [])]
      | Dir b \<Rightarrow>
          (case bd_record b of None \<Rightarrow> [] | Some st \<Rightarrow> [(conflictDir @ i @ ''/record.json'', te_recordText te st)]) @
          map (\<lambda>(v, x). (conflictDir @ i @ CHR ''/'' # v, x)) (fm_entries (bd_variants b)))"

text \<open>Only the bundles that changed are written.\<close>

definition putBundles :: "text_env \<Rightarrow> (string, dirent) fmap \<Rightarrow> (string, string) fmap \<Rightarrow> (string, string) fmap" where
  "putBundles te new t =
     (let old = bundlesOf te t
      in fmfilter (\<lambda>rel. case bundlePart rel of None \<Rightarrow> True | Some (i, _) \<Rightarrow> fmlookup new i = fmlookup old i) t ++\<^sub>f
         fmap_of_list (concat (map (\<lambda>(i, e). if fmlookup old i = Some e then [] else bundleTexts te i e) (fm_entries new))))"

definition mapKeys :: "(string \<Rightarrow> string option) \<Rightarrow> (string, string) fmap \<Rightarrow> (string, string) fmap" where
  "mapKeys f m = fmap_of_list (List.map_filter (\<lambda>(k, x). map_option (\<lambda>k'. (k', x)) (f k)) (fm_entries m))"

section \<open>Views\<close>

definition workOf :: "apply_env \<Rightarrow> sync_disk \<Rightarrow> work_tree" where
  "workOf env s = workTree env (ad_fs (sy_apply s))"

definition setWork :: "apply_env \<Rightarrow> work_tree \<Rightarrow> sync_disk \<Rightarrow> sync_disk" where
  "setWork env t s = s\<lparr>sy_apply := (sy_apply s)\<lparr>ad_fs := putWork env t (ad_fs (sy_apply s))\<rparr>\<rparr>"

definition fullPath :: "apply_env \<Rightarrow> string \<Rightarrow> string" where
  "fullPath env rel = path_join [pathString (ap_repoDir env), rel]"

definition underRepo :: "apply_env \<Rightarrow> string \<Rightarrow> string option" where
  "underRepo env p =
     (let root = pathString (ap_repoDir env) @ ''/'' in if prefix root p then Some (drop (length root) p) else None)"

definition getConflict :: "apply_env \<Rightarrow> text_env \<Rightarrow> sync_disk \<Rightarrow> disk" where
  "getConflict env te s =
     (let t = texts (workOf env s)
      in (sy_conflict s)\<lparr>dk_repo := bundlesOf te t, dk_files := mapKeys (\<lambda>rel. Some (fullPath env rel)) t\<rparr>)"

definition putConflict :: "apply_env \<Rightarrow> text_env \<Rightarrow> disk \<Rightarrow> sync_disk \<Rightarrow> sync_disk" where
  "putConflict env te d s =
     setWork env (putTexts (putBundles te (dk_repo d) (mapKeys (underRepo env) (dk_files d))) (workOf env s))
       (s\<lparr>sy_conflict := d\<lparr>dk_repo := fmempty, dk_files := fmempty\<rparr>\<rparr>)"

definition getTrash :: "apply_env \<Rightarrow> text_env \<Rightarrow> sync_disk \<Rightarrow> trash_disk" where
  "getTrash env te s =
     (let t = texts (workOf env s)
      in \<lparr>td_files = fmfilter (\<lambda>rel. \<not> prefix ''.trash/'' rel) t,
          td_trash = mapKeys (\<lambda>rel. if prefix trashDir rel then Some (drop (length trashDir) rel) else None) t,
          td_index = map_option (te_readIndex te) (fmlookup t trashIndexPath)\<rparr>)"

definition putTrash :: "apply_env \<Rightarrow> text_env \<Rightarrow> trash_disk \<Rightarrow> sync_disk \<Rightarrow> sync_disk" where
  "putTrash env te d s =
     setWork env (putTexts
       (fmfilter (\<lambda>rel. prefix ''.trash/'' rel \<and> \<not> prefix trashDir rel) (texts (workOf env s)) ++\<^sub>f td_files d ++\<^sub>f
        mapKeys (\<lambda>p. Some (trashDir @ p)) (td_trash d) ++\<^sub>f
        (case td_index d of None \<Rightarrow> fmempty | Some i \<Rightarrow> fmap_of_list [(trashIndexPath, te_indexText te i)])) (workOf env s)) s"

definition getInstall :: "apply_env \<Rightarrow> sync_disk \<Rightarrow> install_disk" where
  "getInstall env s = (sy_install s)\<lparr>id_repo := texts (workOf env s)\<rparr>"

definition putInstall :: "apply_env \<Rightarrow> install_disk \<Rightarrow> sync_disk \<Rightarrow> sync_disk" where
  "putInstall env d s =
     setWork env (putTexts (id_repo d) (workOf env s)) (s\<lparr>sy_install := d\<lparr>id_repo := fmempty\<rparr>\<rparr>)"

text \<open>The base store reads the working tree, through links, and changes only its own files.\<close>

definition textsThrough :: "apply_env \<Rightarrow> sync_disk \<Rightarrow> (string, string) fmap" where
  "textsThrough env s =
     fmap_of_list (List.map_filter (\<lambda>(rel, nd). case nd of
         FileNode x \<Rightarrow> Some (rel, x)
       | _ \<Rightarrow> map_option (Pair rel) (readFile (ap_links env) (ad_fs (sy_apply s)) (segsOf env rel))) (fm_entries (workOf env s)))"

definition getBase :: "apply_env \<Rightarrow> sync_disk \<Rightarrow> base_disk" where
  "getBase env s = (ad_base (sy_apply s))\<lparr>bs_repo := textsThrough env s\<rparr>"

definition putBase :: "base_disk \<Rightarrow> sync_disk \<Rightarrow> sync_disk" where
  "putBase d s = s\<lparr>sy_apply := (sy_apply s)\<lparr>ad_base := d\<lparr>bs_repo := fmempty\<rparr>\<rparr>\<rparr>"

definition putApply :: "apply_disk \<Rightarrow> sync_disk \<Rightarrow> sync_disk" where
  "putApply d s = s\<lparr>sy_apply := d\<rparr>"

text \<open>What \<open>Lstat\<close> and \<open>ReadFile\<close> find at the full paths of the working tree; a link is followed on the machine's file system.\<close>

definition linkReach :: "apply_env \<Rightarrow> fsys \<Rightarrow> string list \<Rightarrow> repo_node option" where
  "linkReach env fs p =
     (case walk (ap_links env) fs [] p of
        None \<Rightarrow> None
      | Some q \<Rightarrow> map_option (\<lambda>nd. case nd of FileNode x \<Rightarrow> RepoFile x | _ \<Rightarrow> RepoUnreadable) (fmlookup fs q))"

definition guardTree :: "apply_env \<Rightarrow> sync_disk \<Rightarrow> worktree" where
  "guardTree env s =
     fmap_of_list (map (\<lambda>(rel, nd). (fullPath env rel, case nd of
         FileNode x \<Rightarrow> RepoFile x
       | _ \<Rightarrow> RepoLink (linkReach env (ad_fs (sy_apply s)) (segsOf env rel)))) (fm_entries (workOf env s)))"

section \<open>Running an operation of a part on the whole\<close>

text \<open>A part that is left alone leaves the whole alone.\<close>

definition zoom :: "('s \<Rightarrow> 'd) \<Rightarrow> ('d \<Rightarrow> 's \<Rightarrow> 's) \<Rightarrow> ('e \<Rightarrow> 'f) \<Rightarrow> ('d, 'e, 'a) io \<Rightarrow> ('s, 'f, 'a) io" where
  "zoom get put h m w =
     (case m \<lparr>w_disk = get (w_disk w), w_faults = w_faults w, w_dead = w_dead w\<rparr> of
        (r, v) \<Rightarrow> (map_sum h id r,
          \<lparr>w_disk = (if w_disk v = get (w_disk w) then w_disk w else put (w_disk v) (w_disk w)),
           w_faults = w_faults v, w_dead = w_dead v\<rparr>))"

lemma lawful_zoom [lawful_intros]:
  assumes "lawful m"
  shows "lawful (zoom get put h m)"
proof (rule lawfulI)
  fix w r w' assume z: "zoom get put h m w = (r, w')"
  let ?w = "\<lparr>w_disk = get (w_disk w), w_faults = w_faults w, w_dead = w_dead w\<rparr>"
  obtain r0 v where m: "m ?w = (r0, v)" by (cases "m ?w")
  have w': "w' = \<lparr>w_disk = (if w_disk v = get (w_disk w) then w_disk w else put (w_disk v) (w_disk w)),
           w_faults = w_faults v, w_dead = w_dead v\<rparr>"
    using z m by (simp add: zoom_def)
  note D = lawfulD [OF assms m]
  have dead: "w_dead w \<Longrightarrow> w' = w"
  proof -
    assume "w_dead w"
    then have "v = ?w" using D(1) by simp
    then show "w' = w" using w' by simp
  qed
  show "(w_dead w \<longrightarrow> w' = w) \<and> suffix (w_faults w') (w_faults w) \<and> (w_faults w = [] \<longrightarrow> w_dead w' = w_dead w)"
    using dead D(2,3) w' by simp
qed

lemma reader_zoom [reader_intros]: "reader m \<Longrightarrow> reader (zoom get put h m)"
  by (auto simp: reader_def zoom_def split: prod.split) (metis snd_conv world.select_convs(1))+

text \<open>A triple of the part becomes one of the whole.\<close>

lemma fault_zoom:
  assumes "\<And>s. P s \<Longrightarrow> fault_valid (\<lambda>d. d = get s) m (\<lambda>a d. Q a (if d = get s then s else put d s)) (\<lambda>d. E (if d = get s then s else put d s))"
  shows "fault_valid P (zoom get put h m) Q E"
  unfolding fault_valid_def
proof (intro allI impI)
  fix w :: "'a world" assume P: "P (w_disk w)"
  let ?s = "w_disk w"
  let ?w = "\<lparr>w_disk = get ?s, w_faults = w_faults w, w_dead = w_dead w\<rparr>"
  obtain r v where m: "m ?w = (r, v)" by (cases "m ?w")
  have start: "w_disk ?w = get ?s" by simp
  note D = fault_validD [OF assms [OF P] start m]
  show "case zoom get put h m w of (Inl _, w') \<Rightarrow> E (w_disk w') | (Inr a, w') \<Rightarrow> Q a (w_disk w')"
    using D m by (cases r) (simp_all add: zoom_def)
qed

text \<open>
  What an operation of a part cannot touch: an observation of the whole that writing the part back
  never changes.
\<close>

locale framed =
  fixes get :: "'s \<Rightarrow> 'd" and put :: "'d \<Rightarrow> 's \<Rightarrow> 's" and obs :: "'s \<Rightarrow> 'o"
  assumes put_obs: "obs (put d s) = obs s"
begin

lemma keeps_zoom: "keeps (\<lambda>s. I (obs s)) (zoom get put h m)"
proof (rule fault_zoom)
  fix s assume I: "I (obs s)"
  show "fault_valid (\<lambda>d. d = get s) m (\<lambda>_ d. I (obs (if d = get s then s else put d s)))
     (\<lambda>d. I (obs (if d = get s then s else put d s)))"
    using I by (auto simp: fault_valid_def put_obs split: prod.split sum.split)
qed

end

text \<open>
  The bookkeeping of a round: the saved snapshot and what the base store holds.  None of the other
  parts can change it.
\<close>

definition books :: "sync_disk \<Rightarrow> snapshot stored option \<times> base_disk" where
  "books s = (sy_state s, ad_base (sy_apply s))"

lemma books_setWork [simp]: "books (setWork env t s) = books s"
  by (simp add: books_def setWork_def)

lemma books_simps [simp]:
  "books (s\<lparr>sy_conflict := c\<rparr>) = books s" "books (s\<lparr>sy_install := i\<rparr>) = books s"
  "books (s\<lparr>sy_head := h\<rparr>) = books s" "books (s\<lparr>sy_net := n\<rparr>) = books s"
  by (simp_all add: books_def)

interpretation conflict_frame: framed "getConflict env te" "putConflict env te" books for env te
  by unfold_locales (simp add: putConflict_def)

interpretation trash_frame: framed "getTrash env te" "putTrash env te" books for env te
  by unfold_locales (simp add: putTrash_def)

interpretation install_frame: framed "getInstall env" "putInstall env" books for env
  by unfold_locales (simp add: putInstall_def)

text \<open>The number of network operations is no part's business.\<close>

interpretation conflict_net: framed "getConflict env te" "putConflict env te" sy_net for env te
  by unfold_locales (simp add: putConflict_def setWork_def)

interpretation trash_net: framed "getTrash env te" "putTrash env te" sy_net for env te
  by unfold_locales (simp add: putTrash_def setWork_def)

interpretation install_net: framed "getInstall env" "putInstall env" sy_net for env
  by unfold_locales (simp add: putInstall_def setWork_def)

interpretation base_net: framed "getBase env" putBase sy_net for env
  by unfold_locales (simp add: putBase_def)

interpretation apply_net: framed sy_apply putApply sy_net
  by unfold_locales (simp add: putApply_def)

interpretation apply_state: framed sy_apply putApply sy_state
  by unfold_locales (simp add: putApply_def)

end
