(* ===== verification/Collector.thy ===== *)
theory Collector
  imports Resource_Applier
begin

text \<open>
  Collecting the machine's resources (internal/resourcecollect/collector.go and links.go): roots are
  resolved and coalesced, directories are walked through links that stay inside the root or are
  approved, every file passes the filter, the projection, the content policy and the secret scanner,
  and what passes is staged with its digest.  The walk reads the file system as it is when the stage has
  been made, because the stage is not part of any resource; every read and write may fail, and the
  stage is removed when the collection fails.  A cancelled context shows at its next check, as a failed
  operation of the schedule.  The inventory of installed plugins, file times and the renderer of error
  texts are parameters.
\<close>

section \<open>Data\<close>

record collected =
  co_snapshot :: snapshot
  co_artifacts :: "(string, artifact) fmap"
  co_blocked :: "issue list"
  co_skipped :: "issue list"
  co_stageRoot :: "string list"

datatype inventory_error = InventoryFailed string | InventoryCancelled

datatype collect_cause =
    SystemError string
  | EmptyRootPath
  | ProjectionFailed codec_error
  | PolicyRejected string
  | ScanFailed scan_error
  | BadPathError path_error
  | InventoryError string

datatype collect_error =
    CollectFault
  | Cancelled
  | RootPolicy string
  | NoStage
  | StageBlocked
  | InventoryStopped
  | AndThenAlso collect_error collect_error

record collect_env =
  cl_links :: nat
  cl_stageParent :: "string list"
  cl_tempName :: "fsys \<Rightarrow> string"
  cl_cwd :: "string list"
  cl_goos :: string
  cl_userHome :: string
  cl_codecs :: codecs
  cl_projector :: "registry option"
  cl_inventory :: "(spec \<Rightarrow> inventory_error + (string, string) fmap) option"
  cl_filter :: filter_policy
  cl_approved :: "(string list \<Rightarrow> bool) option"
  cl_sha :: "string \<Rightarrow> string"
  cl_modTime :: "string list \<Rightarrow> int"
  cl_cancellable :: bool
  cl_errorText :: "collect_cause \<Rightarrow> string"

type_synonym 'a collect_io = "(apply_disk, collect_error, 'a) io"

definition newCollector :: "collect_env \<Rightarrow> collect_env" where
  "newCollector env = (if maxFileSize (cl_filter env) = 0 then env\<lparr>cl_filter := DefaultFilterPolicy\<rparr> else env)"

section \<open>Operations\<close>

text \<open>\<open>ctx.Err()\<close>: the background context is never cancelled.\<close>

definition ctxErr :: "collect_env \<Rightarrow> unit collect_io" where
  "ctxErr env = (if cl_cancellable env then tick Cancelled (\<lambda>d _. d) (\<lambda>d. (Inr (), d)) else ret ())"

text \<open>A read that may fail.\<close>

definition reading :: "'a \<Rightarrow> 'a collect_io" where
  "reading x = read_tick CollectFault (\<lambda>_. Inr x)"

definition currentFiles :: "fsys collect_io" where
  "currentFiles w = (Inr (ad_fs (w_disk w)), w)"

definition mkdirTemp :: "collect_env \<Rightarrow> string list collect_io" where
  "mkdirTemp env = tick CollectFault (\<lambda>d _. d) (\<lambda>d.
     let name = ''synchub-resources-'' @ cl_tempName env (ad_fs d) in
     case walk (cl_links env) (ad_fs d) [] (cl_stageParent env) of
       None \<Rightarrow> (Inl NoStage, d)
     | Some c \<Rightarrow>
         if \<not> isDirAt (ad_fs d) c \<or> fmlookup (ad_fs d) (c @ [name]) \<noteq> None then (Inl NoStage, d)
         else (Inr (cl_stageParent env @ [name]), d\<lparr>ad_fs := fmupd (c @ [name]) DirNode (ad_fs d)\<rparr>))"

definition belowNode :: "nat \<Rightarrow> fsys \<Rightarrow> string list \<Rightarrow> string list \<Rightarrow> bool" where
  "belowNode n fs p q = (case walk n fs [] (butlast p) of None \<Rightarrow> False | Some c \<Rightarrow> prefix (c @ [last p]) q)"

definition removeAllAt :: "collect_env \<Rightarrow> string list \<Rightarrow> unit collect_io" where
  "removeAllAt env p = tick CollectFault
     (\<lambda>d ns. d\<lparr>ad_fs := fmfilter (\<lambda>q. \<not> (belowNode (cl_links env) (ad_fs d) p q \<and> join_with CHR ''/'' q \<in> set ns)) (ad_fs d)\<rparr>)
     (\<lambda>d. (Inr (), d\<lparr>ad_fs := fmfilter (\<lambda>q. \<not> belowNode (cl_links env) (ad_fs d) p q) (ad_fs d)\<rparr>))"

definition CloseCollected :: "collect_env \<Rightarrow> collected \<Rightarrow> unit collect_io" where
  "CloseCollected env c = (if co_stageRoot c = [] then ret () else removeAllAt env (co_stageRoot c))"

section \<open>Issues\<close>

definition collectIssue :: "collect_env \<Rightarrow> spec \<Rightarrow> string \<Rightarrow> string \<Rightarrow> collect_cause \<Rightarrow> issue" where
  "collectIssue env s p code e =
     \<lparr>iss_resource_key = sp_key s, iss_path = p, iss_code = code, iss_message = Msg (cl_errorText env e), iss_bytes = 0\<rparr>"

definition policyIssue :: "spec \<Rightarrow> string \<Rightarrow> string \<Rightarrow> string \<Rightarrow> int \<Rightarrow> issue" where
  "policyIssue s p code message bytes =
     \<lparr>iss_resource_key = sp_key s, iss_path = p, iss_code = code, iss_message = Msg message, iss_bytes = bytes\<rparr>"

definition blockedIssue :: "spec \<Rightarrow> string \<Rightarrow> int \<Rightarrow> issue" where
  "blockedIssue s rel bytes = policyIssue s rel ''secret-detected'' ''portable artifact contains secret-looking data'' bytes"

definition skipping :: "issue \<Rightarrow> collected \<Rightarrow> collected" where
  "skipping i res = res\<lparr>co_skipped := co_skipped res @ [i]\<rparr>"

definition blocking :: "issue \<Rightarrow> collected \<Rightarrow> collected" where
  "blocking i res = res\<lparr>co_blocked := co_blocked res @ [i]\<rparr>"

section \<open>Roots\<close>

definition absPath :: "collect_env \<Rightarrow> string \<Rightarrow> string list" where
  "absPath env p =
     (if prefix ''/'' p then pathSegments p else rev (foldl (clean_step True) (rev (cl_cwd env)) (split_on CHR ''/'' p)))"

text \<open>Following every link of a path: a component can be missing, or the path cannot be resolved at all.\<close>

datatype resolved = Found "string list" | Missing | Unresolved

function resolve :: "nat \<Rightarrow> fsys \<Rightarrow> string list \<Rightarrow> string list \<Rightarrow> resolved" where
  "resolve n fs here [] = Found here"
| "resolve n fs here (s # rest) =
     (if s = ''..'' then resolve n fs (butlast here) rest
      else case fmlookup fs (here @ [s]) of
        None \<Rightarrow> Missing
      | Some DirNode \<Rightarrow> resolve n fs (here @ [s]) rest
      | Some (FileNode _) \<Rightarrow> if rest = [] then Found (here @ [s]) else Unresolved
      | Some (LinkNode absolute segs) \<Rightarrow>
          (case n of 0 \<Rightarrow> Unresolved | Suc m \<Rightarrow> resolve m fs (if absolute then [] else here) (segs @ rest)))"
  by pat_completeness auto
termination by (relation "measures [\<lambda>(n, fs, here, p). n, \<lambda>(n, fs, here, p). length p]") auto

record root_info =
  ri_canonical :: "string list"
  ri_original :: "string list"
  ri_identity :: string

datatype root_error = EmptyRootError | RootMissing | RootUnresolved

definition ResolveRoot :: "collect_env \<Rightarrow> fsys \<Rightarrow> string \<Rightarrow> root_error + root_info" where
  "ResolveRoot env fs root =
     (if trim_space root = [] then Inl EmptyRootError
      else let original = absPath env root in
        case resolve (cl_links env) fs [] original of
          Missing \<Rightarrow> Inl RootMissing
        | Unresolved \<Rightarrow> Inl RootUnresolved
        | Found c \<Rightarrow> Inr \<lparr>ri_canonical = c, ri_original = original, ri_identity = cl_sha env (pathString c)\<rparr>)"

fun appendUniquePaths :: "string list \<Rightarrow> string list \<Rightarrow> string list" where
  "appendUniquePaths vals [] = vals"
| "appendUniquePaths vals (x # xs) =
     appendUniquePaths (if path_clean x \<in> set (map path_clean vals) then vals else vals @ [x]) xs"

text \<open>The specification under its key, and what its root says.\<close>

definition sharedSpec :: "spec \<Rightarrow> spec" where
  "sharedSpec s = (if sp_shared_as s \<noteq> [] then s\<lparr>sp_key := ''common/'' @ sp_shared_as s, sp_provider := ''common''\<rparr> else s)"

definition rootedSpec :: "spec \<Rightarrow> root_info \<Rightarrow> spec" where
  "rootedSpec s info =
     s\<lparr>sp_root := pathString (ri_canonical info),
       sp_targets := (if sp_targets s = [] then [pathString (ri_original info)] else sp_targets s)\<rparr>"

definition addSpec :: "spec \<Rightarrow> spec list \<Rightarrow> spec list" where
  "addSpec s out =
     (if sp_key s \<in> set (map sp_key out)
      then map (\<lambda>e. if sp_key e = sp_key s then e\<lparr>sp_targets := appendUniquePaths (sp_targets e) (sp_targets s)\<rparr> else e) out
      else out @ [s])"

definition validateRootOf :: "spec \<Rightarrow> string \<Rightarrow> unit collect_io" where
  "validateRootOf s p =
     (case sp_validate_root s of
        None \<Rightarrow> ret ()
      | Some v \<Rightarrow> (case v p of None \<Rightarrow> ret () | Some e \<Rightarrow> raise (RootPolicy e)))"

definition coalesceStep :: "collect_env \<Rightarrow> fsys \<Rightarrow> spec \<Rightarrow> spec list \<times> issue list \<Rightarrow> (spec list \<times> issue list) collect_io" where
  "coalesceStep env fs s0 = (\<lambda>(out, issues).
     andThen (ctxErr env) (\<lambda>_.
     let s = sharedSpec s0 in
     andThen (validateRootOf s (sp_root s)) (\<lambda>_.
     attempt (reading (ResolveRoot env fs (sp_root s))) (\<lambda>r.
       let skip = (\<lambda>code e. ret (out, issues @ [collectIssue env s (sp_root s) code e])) in
       case r of
         Inl _ \<Rightarrow> skip ''root-unavailable'' (SystemError ''resolve'')
       | Inr (Inl RootMissing) \<Rightarrow> if sp_optional_root s then ret (out, issues) else skip ''root-missing'' (SystemError ''resolve'')
       | Inr (Inl RootUnresolved) \<Rightarrow> skip ''root-unavailable'' (SystemError ''resolve'')
       | Inr (Inl EmptyRootError) \<Rightarrow> skip ''root-unavailable'' EmptyRootPath
       | Inr (Inr info) \<Rightarrow> ret (addSpec (rootedSpec s info) out, issues)))))"

definition coalesce :: "collect_env \<Rightarrow> fsys \<Rightarrow> spec list \<Rightarrow> (spec list \<times> issue list) collect_io" where
  "coalesce env fs specs = forEach (coalesceStep env fs) specs ([], [])"

section \<open>Staging\<close>

definition stagePathOf :: "string list \<Rightarrow> string \<Rightarrow> string list" where
  "stagePathOf root repoRel = rev (foldl (clean_step True) (rev root) (split_on CHR ''/'' repoRel))"

text \<open>\<open>MkdirAll\<close> climbs to a directory that exists: the stage root, for a path below it.\<close>

definition stageDirs :: "collect_env \<Rightarrow> string list \<Rightarrow> string list \<Rightarrow> unit collect_io" where
  "stageDirs env root dir =
     (let here = (if prefix root dir then root else []); rest = drop (length here) dir in
      tick CollectFault
       (\<lambda>d ns. d\<lparr>ad_fs := snd (mkdirs (cl_links env) (ad_fs d) here (take (length ns) rest))\<rparr>)
       (\<lambda>d. case mkdirs (cl_links env) (ad_fs d) here rest of
          (ok, fs) \<Rightarrow> (if ok then Inr () else Inl StageBlocked, d\<lparr>ad_fs := fs\<rparr>)))"

text \<open>\<open>os.WriteFile\<close> is not atomic: a failed one may leave a file with some other content.\<close>

definition stageWrite :: "collect_env \<Rightarrow> string list \<Rightarrow> string \<Rightarrow> unit collect_io" where
  "stageWrite env p data = tick CollectFault
     (\<lambda>d ns. case placeFile (cl_links env) (ad_fs d) p (concat ns) of
        Some fs \<Rightarrow> if ns = [] then d else d\<lparr>ad_fs := fs\<rparr> | None \<Rightarrow> d)
     (\<lambda>d. case placeFile (cl_links env) (ad_fs d) p data of
        None \<Rightarrow> (Inl StageBlocked, d) | Some fs \<Rightarrow> (Inr (), d\<lparr>ad_fs := fs\<rparr>))"

definition stage :: "collect_env \<Rightarrow> spec \<Rightarrow> string \<Rightarrow> string \<Rightarrow> int \<Rightarrow> collected \<Rightarrow> collected collect_io" where
  "stage env s rel data modTime res =
     andThen (ctxErr env) (\<lambda>_.
     case RepoPath s rel of
       Inl e \<Rightarrow> ret (skipping (collectIssue env s rel ''repo-path-invalid'' (BadPathError e)) res)
     | Inr repoRel \<Rightarrow>
         let root = co_stageRoot res; p = stagePathOf root repoRel in
         andThen (stageDirs env root (butlast p)) (\<lambda>_.
         andThen (ctxErr env) (\<lambda>_.
         andThen (stageWrite env p data) (\<lambda>_.
         andThen (ctxErr env) (\<lambda>_.
         andThen (ctxErr env) (\<lambda>_.
           ret (res\<lparr>co_snapshot := fmupd repoRel
                      \<lparr>fm_hash = cl_sha env data, fm_mod_time = modTime, fm_size = int (length data)\<rparr> (co_snapshot res),
                    co_artifacts := fmupd repoRel
                      \<lparr>ar_repoRel = repoRel, ar_key = sp_key s, ar_relative = rel, ar_stage = p, ar_targets = sp_targets s,
                         ar_hash = cl_sha env data, ar_size = int (length data), ar_modTime = modTime\<rparr> (co_artifacts res)\<rparr>)))))))"

section \<open>One file\<close>

definition matchesAny :: "glob \<Rightarrow> string list \<Rightarrow> string \<Rightarrow> bool" where
  "matchesAny glob patterns rel = list_ex (\<lambda>g. glob (replace_char CHR 0x5C CHR ''/'' g) rel = Some True) patterns"

definition scannerOf :: "spec \<Rightarrow> scanner" where
  "scannerOf s = NewScanner (sp_exclude s) (sp_key_patterns s)"

definition contentError :: "spec \<Rightarrow> string \<Rightarrow> string \<Rightarrow> string option" where
  "contentError s rel data = (case sp_validate_content s of None \<Rightarrow> None | Some v \<Rightarrow> v rel data)"

text \<open>The projection of a configuration file; \<open>None\<close> when there is no projector.\<close>

definition projected :: "collect_env \<Rightarrow> spec \<Rightarrow> string \<Rightarrow> string \<Rightarrow> (codec_error + string) option" where
  "projected env s rel x =
     (if sp_transformer s = [] then Some (Inr x)
      else map_option (\<lambda>reg. Project (cl_codecs env) reg (sp_transformer s) rel (cl_goos env) (cl_userHome env) x) (cl_projector env))"

definition ctxIf :: "bool \<Rightarrow> collect_env \<Rightarrow> unit collect_io" where
  "ctxIf b env = (if b then ctxErr env else ret ())"

text \<open>What follows the projection.\<close>

definition admit :: "collect_env \<Rightarrow> spec \<Rightarrow> string \<Rightarrow> string \<Rightarrow> int \<Rightarrow> collected \<Rightarrow> collected collect_io" where
  "admit env s rel data modTime res =
     (let glob = globMatch (cl_codecs env); n = int (length data) in
      case Check glob (cl_filter env) rel n (sp_strategy s) of
        Some code \<Rightarrow> ret (skipping (policyIssue s rel code ''projected artifact excluded by portable resource policy'' n) res)
      | None \<Rightarrow>
        (case contentError s rel data of
          Some e \<Rightarrow> ret (blocking (collectIssue env s rel ''content-policy'' (PolicyRejected e)) res)
        | None \<Rightarrow>
          (case Scan glob (unmarshalJSON (cl_codecs env)) (scannerOf s) rel data of
            Inl e \<Rightarrow> ret (blocking (collectIssue env s rel ''scan-failed'' (ScanFailed e)) res)
          | Inr blocked \<Rightarrow>
              andThen (ctxErr env) (\<lambda>_.
              if blocked then ret (blocking (blockedIssue s rel n) res)
              else andThen (ctxErr env) (\<lambda>_. stage env s rel data modTime res)))))"

definition collectFile :: "collect_env \<Rightarrow> spec \<Rightarrow> string \<Rightarrow> string \<Rightarrow> int \<Rightarrow> collected \<Rightarrow> collected collect_io" where
  "collectFile env s rel x modTime res =
     (let glob = globMatch (cl_codecs env) in
      andThen (ctxErr env) (\<lambda>_.
      if \<not> matchesAny glob (sp_include s) rel \<or> IsExcluded glob (scannerOf s) rel then ret res
      else case Check glob (cl_filter env) rel (int (length x)) (sp_strategy s) of
        Some code \<Rightarrow> ret (skipping (policyIssue s rel code ''file excluded by portable resource policy'' (int (length x))) res)
      | None \<Rightarrow>
          andThen (ctxErr env) (\<lambda>_.
          attempt (reading x) (\<lambda>r. case r of
            Inl _ \<Rightarrow> ret (skipping (collectIssue env s rel ''read-failed'' (SystemError ''read'')) res)
          | Inr content \<Rightarrow>
              andThen (ctxErr env) (\<lambda>_.
              case projected env s rel content of
                None \<Rightarrow> ret (skipping (policyIssue s rel ''projector-unavailable'' ''resource requires a configuration projector'' 0) res)
              | Some out \<Rightarrow>
                  andThen (ctxIf (sp_transformer s \<noteq> []) env) (\<lambda>_.
                  case out of
                    Inl e \<Rightarrow> ret (blocking (collectIssue env s rel ''projection-failed'' (ProjectionFailed e)) res)
                  | Inr data \<Rightarrow>
                      andThen (ctxIf (sp_transformer s \<noteq> []) env) (\<lambda>_. admit env s rel data modTime res)))))))"

section \<open>Directories and links\<close>

definition dirEntries :: "fsys \<Rightarrow> string list \<Rightarrow> string list" where
  "dirEntries fs p =
     sort_unique (List.map_filter (\<lambda>q. if q \<noteq> [] \<and> butlast q = p then Some (last q) else None) (fm_keys fs))"

definition skipDirectoryPath :: "collect_env \<Rightarrow> spec \<Rightarrow> string \<Rightarrow> issue list option" where
  "skipDirectoryPath env s rel =
     (let glob = globMatch (cl_codecs env) in
      if IsExcluded glob (scannerOf s) rel \<or> IsExcluded glob (scannerOf s) (path_join [rel, ''.synchub-entry'']) then Some []
      else map_option (\<lambda>code. [policyIssue s rel code ''directory excluded by portable resource policy'' 0])
        (CheckDirectory glob (cl_filter env) rel))"

definition approvedLink :: "collect_env \<Rightarrow> string list \<Rightarrow> bool" where
  "approvedLink env t = (case cl_approved env of None \<Rightarrow> False | Some ok \<Rightarrow> ok t)"

datatype link_outcome =
    LinkBroken
  | LinkUnapproved
  | LinkFile "string list" string
  | LinkCycle
  | LinkDirectory "string list"

definition linkOutcome :: "collect_env \<Rightarrow> fsys \<Rightarrow> spec \<Rightarrow> string list \<Rightarrow> string list list \<Rightarrow> link_outcome" where
  "linkOutcome env fs s p ancestors =
     (case walk (cl_links env) fs [] p of
        None \<Rightarrow> LinkBroken
      | Some t \<Rightarrow>
          if \<not> pathWithinRoot (pathSegments (sp_root s)) t \<and> \<not> approvedLink env t then LinkUnapproved
          else case fmlookup fs t of
            Some (FileNode x) \<Rightarrow> LinkFile t x
          | _ \<Rightarrow> if t \<in> set ancestors then LinkCycle else if isDirAt fs t then LinkDirectory t else LinkBroken)"

lemma attempt_cong [fundef_cong]: "m = m' \<Longrightarrow> (\<And>r. f r = f' r) \<Longrightarrow> attempt m f = attempt m' f'"
  by (drule ext, simp)

lemma andThen_cong [fundef_cong]: "m = m' \<Longrightarrow> (\<And>r. f r = f' r) \<Longrightarrow> andThen m f = andThen m' f'"
  by (drule ext, simp)

lemma forEach_cong [fundef_cong]:
  "xs = ys \<Longrightarrow> s = t \<Longrightarrow> (\<And>x s. x \<in> set ys \<Longrightarrow> f x s = g x s) \<Longrightarrow> forEach f xs s = forEach g ys t"
proof (induction ys arbitrary: xs s t)
  case (Cons y ys)
  have "f y t = g y t" and "forEach f ys s' = forEach g ys s'" for s'
    using Cons by auto
  then show ?case by (simp add: Cons.prems(1,2) cong: andThen_cong)
qed simp

text \<open>How many directories may still be entered through a link, and how deep a path can still get.\<close>

definition openDirs :: "fsys \<Rightarrow> string list list \<Rightarrow> nat" where
  "openDirs fs ancestors = card {d \<in> set ([] # fm_keys fs). isDirAt fs d \<and> d \<notin> set ancestors}"

definition depthLeft :: "fsys \<Rightarrow> string list \<Rightarrow> nat" where
  "depthLeft fs p = Suc (fold max (map length (fm_keys fs)) 0) - length p"

lemma fold_max_ge: "(x::nat) \<in> set xs \<or> x \<le> a \<Longrightarrow> x \<le> fold max xs a"
proof (induction xs arbitrary: a)
  case (Cons y ys)
  have "x \<in> set ys \<or> x \<le> max y a" using Cons.prems by auto
  from Cons.IH [OF this] show ?case by simp
qed simp

lemma depthLeft_child:
  assumes "fmlookup fs (p @ [s]) \<noteq> None"
  shows "depthLeft fs (p @ [s]) < depthLeft fs p"
proof -
  have "length (p @ [s]) \<in> set (map length (fm_keys fs))" using assms by (force simp: fm_simps fmlookup_dom_iff)
  then have "length (p @ [s]) \<le> fold max (map length (fm_keys fs)) 0" by (intro fold_max_ge disjI1)
  then show ?thesis by (simp add: depthLeft_def)
qed

lemma openDirs_mono: "set a \<subseteq> set b \<Longrightarrow> openDirs fs b \<le> openDirs fs a"
  unfolding openDirs_def by (rule card_mono) auto

lemma openDirs_enter:
  assumes "isDirAt fs t" "t \<notin> set ancestors"
  shows "openDirs fs (t # ancestors) < openDirs fs ancestors"
  unfolding openDirs_def
proof (rule psubset_card_mono)
  have "t \<in> set ([] # fm_keys fs)" using assms(1) by (auto simp: isDirAt_def fm_simps fmlookup_dom_iff)
  then show "{d \<in> set ([] # fm_keys fs). isDirAt fs d \<and> d \<notin> set (t # ancestors)}
      \<subset> {d \<in> set ([] # fm_keys fs). isDirAt fs d \<and> d \<notin> set ancestors}"
    using assms by (intro psubsetI) auto
qed simp

lemma dirEntries_child: "s \<in> set (dirEntries fs p) \<Longrightarrow> fmlookup fs (p @ [s]) \<noteq> None"
proof -
  assume "s \<in> set (dirEntries fs p)"
  then obtain q where "q \<in> set (fm_keys fs)" "q \<noteq> []" "butlast q = p" "last q = s"
    by (auto simp: dirEntries_def List.map_filter_def split: if_splits)
  then show ?thesis by (auto simp: fm_simps fmlookup_dom_iff)
qed

lemma walk_smaller:
  assumes "s \<in> set (dirEntries fs dir)"
  shows "openDirs fs ((dir @ [s]) # anc) < openDirs fs anc \<or>
    (openDirs fs ((dir @ [s]) # anc) = openDirs fs anc \<and> depthLeft fs (dir @ [s]) < depthLeft fs dir)"
proof -
  have "openDirs fs ((dir @ [s]) # anc) \<le> openDirs fs anc" by (rule openDirs_mono) auto
  then show ?thesis using depthLeft_child [OF dirEntries_child [OF assms]] by auto
qed

text \<open>
  Walking a directory.  A real directory goes deeper into the tree; a link is followed only to a
  directory that is not being walked already, so the walk ends.
\<close>

definition collectEntry ::
  "collect_env \<Rightarrow> fsys \<Rightarrow> spec \<Rightarrow> string list \<Rightarrow> string \<Rightarrow> string list list \<Rightarrow>
     (string list \<Rightarrow> string \<Rightarrow> collected \<Rightarrow> collected collect_io) \<Rightarrow> string \<Rightarrow> collected \<Rightarrow> collected collect_io" where
  "collectEntry env fs s dir logical ancestors descend entry res =
     andThen (ctxErr env) (\<lambda>_.
     let p = dir @ [entry]; rel = path_join [logical, entry] in
     if \<not> Owns s rel then ret res
     else andThen (validateRootOf s (pathString p)) (\<lambda>_.
       case fmlookup fs p of
         None \<Rightarrow> ret res
       | Some (LinkNode _ _) \<Rightarrow>
           (case skipDirectoryPath env s rel of
              Some issues \<Rightarrow> ret (fold skipping issues res)
            | None \<Rightarrow>
                andThen (ctxErr env) (\<lambda>_.
                attempt (reading (linkOutcome env fs s p ancestors)) (\<lambda>r.
                  if r = Inl CollectFault \<or> linkOutcome env fs s p ancestors = LinkBroken
                  then ret (skipping (collectIssue env s rel ''link-unavailable'' (SystemError ''evalsymlinks'')) res)
                  else if linkOutcome env fs s p ancestors = LinkUnapproved
                  then ret (skipping (policyIssue s rel ''unapproved-link''
                              ''symbolic link resolves outside the approved resource root'' 0) res)
                  else andThen (ctxErr env) (\<lambda>_.
                    attempt (reading ()) (\<lambda>r.
                      if r = Inl CollectFault
                      then ret (skipping (collectIssue env s rel ''link-unavailable'' (SystemError ''stat'')) res)
                      else case linkOutcome env fs s p ancestors of
                        LinkFile t x \<Rightarrow> collectFile env s rel x (cl_modTime env t) res
                      | LinkDirectory t \<Rightarrow> descend t rel res
                      | _ \<Rightarrow> ret (skipping (policyIssue s rel ''link-cycle'' ''symbolic link creates a directory cycle'' 0) res))))))
       | Some DirNode \<Rightarrow>
           (case skipDirectoryPath env s rel of
              Some issues \<Rightarrow> ret (fold skipping issues res)
            | None \<Rightarrow> descend p rel res)
       | Some (FileNode x) \<Rightarrow>
           andThen (ctxErr env) (\<lambda>_.
           attempt (reading ()) (\<lambda>r.
             if r = Inl CollectFault
             then ret (skipping (collectIssue env s rel ''stat-failed'' (SystemError ''lstat'')) res)
             else collectFile env s rel x (cl_modTime env p) res))))"

text \<open>The directories an entry leads to.\<close>

definition enters :: "collect_env \<Rightarrow> fsys \<Rightarrow> spec \<Rightarrow> string list \<Rightarrow> string list list \<Rightarrow> string \<Rightarrow> string list \<Rightarrow> bool" where
  "enters env fs s dir ancestors entry t \<longleftrightarrow>
     (t = dir @ [entry] \<and> fmlookup fs t = Some DirNode) \<or> linkOutcome env fs s (dir @ [entry]) ancestors = LinkDirectory t"

lemma enters_smaller:
  assumes "entry \<in> set (dirEntries fs dir)" "enters env fs s dir anc entry t"
  shows "openDirs fs (t # anc) < openDirs fs anc \<or>
    (openDirs fs (t # anc) = openDirs fs anc \<and> depthLeft fs t < depthLeft fs dir)"
proof (cases "t = dir @ [entry]")
  case True
  then show ?thesis using walk_smaller [OF assms(1)] by simp
next
  case False
  then have "isDirAt fs t \<and> t \<notin> set anc" using assms(2)
    by (auto simp: enters_def linkOutcome_def split: option.splits node.splits if_splits)
  then show ?thesis using openDirs_enter by blast
qed

lemma collectEntry_cong [fundef_cong]:
  assumes "env = env'" "fs = fs'" "s = s'" "dir = dir'" "logical = logical'" "anc = anc'" "entry = entry'" "res = res'"
    and "\<And>t rel st. enters env' fs' s' dir' anc' entry' t \<Longrightarrow> d t rel st = d' t rel st"
  shows "collectEntry env fs s dir logical anc d entry res = collectEntry env' fs' s' dir' logical' anc' d' entry' res'"
  using assms unfolding collectEntry_def Let_def enters_def
  by (auto intro!: andThen_cong attempt_cong split: option.split node.split link_outcome.split)

function walkDirectory ::
  "collect_env \<Rightarrow> fsys \<Rightarrow> spec \<Rightarrow> string list \<Rightarrow> string \<Rightarrow> string list list \<Rightarrow> collected \<Rightarrow> collected collect_io" where
  "walkDirectory env fs s dir logical ancestors res =
     andThen (ctxErr env) (\<lambda>_.
     attempt (reading (isDirAt fs dir)) (\<lambda>r.
       if r \<noteq> Inr True then ret (skipping (collectIssue env s logical ''walk-failed'' (SystemError ''readdir'')) res)
       else forEach (collectEntry env fs s dir logical ancestors
              (\<lambda>t rel res. walkDirectory env fs s t rel (t # ancestors) res)) (dirEntries fs dir) res))"
  by pat_completeness auto
termination
proof (relation "measures [\<lambda>(env, fs, s, dir, logical, ancestors, res). openDirs fs ancestors,
    \<lambda>(env, fs, s, dir, logical, ancestors, res). depthLeft fs dir]", goal_cases)
  case 1
  show ?case by simp
next
  case prems: 2
  then show ?case using enters_smaller [OF prems(2,3)] by simp
qed

declare walkDirectory.simps [simp del]

section \<open>The collection\<close>

definition inventoryFile :: "collect_env \<Rightarrow> spec \<Rightarrow> string \<times> string \<Rightarrow> collected \<Rightarrow> collected collect_io" where
  "inventoryFile env s = (\<lambda>(rel, data) res.
     let glob = globMatch (cl_codecs env); n = int (length data) in
     andThen (ctxErr env) (\<lambda>_.
     case Check glob (cl_filter env) rel n (sp_strategy s) of
       Some code \<Rightarrow> ret (skipping (policyIssue s rel code ''inventory file excluded by portable resource policy'' n) res)
     | None \<Rightarrow>
       (case Scan glob (unmarshalJSON (cl_codecs env)) (scannerOf s) rel data of
          Inl e \<Rightarrow> ret (blocking (collectIssue env s rel ''scan-failed'' (ScanFailed e)) res)
        | Inr blocked \<Rightarrow>
            andThen (ctxErr env) (\<lambda>_.
            if blocked then ret (blocking (blockedIssue s rel n) res)
            else stage env s rel data 0 res))))"

definition collectInventory :: "collect_env \<Rightarrow> spec \<Rightarrow> collected \<Rightarrow> collected collect_io" where
  "collectInventory env s res =
     andThen (ctxErr env) (\<lambda>_.
     case cl_inventory env of
       None \<Rightarrow> ret (skipping (policyIssue s [] ''installer-unavailable'' ''resource inventory adapter is unavailable'' 0) res)
     | Some inventory \<Rightarrow>
         (case inventory s of
            Inl e \<Rightarrow>
              andThen (ctxErr env) (\<lambda>_. case e of
                InventoryCancelled \<Rightarrow> raise InventoryStopped
              | InventoryFailed x \<Rightarrow> ret (skipping (collectIssue env s [] ''inventory-failed'' (InventoryError x)) res))
          | Inr files \<Rightarrow> andThen (ctxErr env) (\<lambda>_. forEach (inventoryFile env s) (fm_entries files) res)))"

definition collectSpec :: "collect_env \<Rightarrow> fsys \<Rightarrow> spec \<Rightarrow> collected \<Rightarrow> collected collect_io" where
  "collectSpec env fs s res =
     andThen (ctxErr env) (\<lambda>_.
       if sp_strategy s = StrategyInstallManifest then collectInventory env s res
       else let root = pathSegments (sp_root s) in walkDirectory env fs s root [] [root] res)"

text \<open>Everything after the stage has been made.\<close>

definition collectAll :: "collect_env \<Rightarrow> string list \<Rightarrow> spec list \<Rightarrow> collected collect_io" where
  "collectAll env stageRoot specs =
     andThen currentFiles (\<lambda>fs.
     andThen (coalesce env fs specs) (\<lambda>(coalesced, issues).
       forEach (\<lambda>s res. andThen (ctxErr env) (\<lambda>_. collectSpec env fs s res)) coalesced
         \<lparr>co_snapshot = fmempty, co_artifacts = fmempty, co_blocked = [], co_skipped = issues, co_stageRoot = stageRoot\<rparr>))"

definition Collect :: "collect_env \<Rightarrow> spec list \<Rightarrow> collected collect_io" where
  "Collect env0 specs =
     (let env = newCollector env0 in
      andThen (ctxErr env) (\<lambda>_.
      andThen (mkdirTemp env) (\<lambda>stageRoot.
      attempt (collectAll env stageRoot specs) (\<lambda>r. case r of
        Inr res \<Rightarrow> ret res
      | Inl e \<Rightarrow>
          attempt (removeAllAt env stageRoot) (\<lambda>q. case q of
            Inr _ \<Rightarrow> raise e
          | Inl f \<Rightarrow> raise (AndThenAlso e f))))))"

end
