(* ===== verification/Sync_Engine.thy ===== *)
theory Sync_Engine
  imports Sync_Disk Collector
begin

text \<open>
  One synchronization round (internal/syncengine/engine.go): recovery of an interrupted resolution,
  pull, remote view, collection, queued resolutions, the plan, its actions, install plans, commit and
  push with bounded retries, and the bookkeeping of the merge base.  Git, the clock and
  the renderers of error texts are parameters; progress reports to the user interface are left out.
  An error of a part keeps the name of the step it interrupts.  A round gives its result and the
  error of closing the collector's stage after it, as Go returns both; any other error comes alone.
\<close>

section \<open>Environment\<close>

datatype part_error =
    OfConflict conflict_error
  | OfApply apply_error
  | OfTrash trash_error
  | OfInstall install_error
  | OfBase base_error
  | OfLibrary library_error
  | OfOwner owner_error
  | OfPath path_error
  | OfGuard path_guard_error
  | OfMerge merge_error
  | OfParse string
  | OfGit string
  | OfCollector collect_error
  | Unreadable
  | AgentsRootLink

datatype sync_error =
    EngineFault
  | Incomplete string
  | During string part_error
  | NoArtifact string
  | MalformedPaths
  | ErrorList "sync_error list"

type_synonym 'a sync_io = "(sync_disk, sync_error, 'a) io"

record engine_env =
  en_hasGit :: bool
  en_repoDir :: string
  en_statePath :: string
  en_inventory :: bool
  en_hasInstallManager :: bool
  en_hasInstallStore :: bool
  en_apply :: apply_env
  en_conflicts :: "store_env option"
  en_newStore :: store_env
  en_guard :: guard_env
  en_install :: install_env
  en_texts :: text_env
  en_git :: git_env
  en_textMerger :: "(string \<Rightarrow> string \<Rightarrow> string \<Rightarrow> merge_error + string merge_result) option"
  en_mergeFile :: git_merge_file
  en_collector :: collect_env
  en_errorText :: "part_error \<Rightarrow> string"
  en_now :: int
  en_firstSyncMode :: string
  en_firstSyncRun :: bool
  en_pushRetries :: int

record sync_result =
  sr_actions :: "action list"
  sr_blocked :: "string list"
  sr_issues :: "issue list"
  sr_skippedIssues :: "issue list"
  sr_blockedIssues :: "issue list"
  sr_pushed :: bool
  sr_restored :: nat
  sr_reinstalled :: nat
  sr_skipped :: nat
  sr_conflicts :: nat
  sr_pendingInstalls :: nat
  sr_needsAttention :: bool

text \<open>What a round returns: the result, and an error beside it.\<close>

type_synonym outcome = "sync_result \<times> sync_error option"

type_synonym specs = "(string, spec) fmap"

section \<open>Operations of the parts\<close>

definition onConflicts :: "engine_env \<Rightarrow> string \<Rightarrow> 'a store_io \<Rightarrow> 'a sync_io" where
  "onConflicts env step = zoom (getConflict (en_apply env) (en_texts env)) (putConflict (en_apply env) (en_texts env)) (During step \<circ> OfConflict)"

definition onApply :: "string \<Rightarrow> 'a apply_io \<Rightarrow> 'a sync_io" where
  "onApply step = zoom sy_apply putApply (During step \<circ> OfApply)"

definition onCollector :: "string \<Rightarrow> 'a collect_io \<Rightarrow> 'a sync_io" where
  "onCollector step = zoom sy_apply putApply (During step \<circ> OfCollector)"

definition onTrash :: "engine_env \<Rightarrow> string \<Rightarrow> 'a trash_io \<Rightarrow> 'a sync_io" where
  "onTrash env step = zoom (getTrash (en_apply env) (en_texts env)) (putTrash (en_apply env) (en_texts env)) (During step \<circ> OfTrash)"

definition onInstall :: "engine_env \<Rightarrow> string \<Rightarrow> 'a install_io \<Rightarrow> 'a sync_io" where
  "onInstall env step = zoom (getInstall (en_apply env)) (putInstall (en_apply env)) (During step \<circ> OfInstall)"

definition onBase :: "engine_env \<Rightarrow> string \<Rightarrow> 'a base_io \<Rightarrow> 'a sync_io" where
  "onBase env step = zoom (getBase (en_apply env)) putBase (During step \<circ> OfBase)"

text \<open>The store built from the engine when none is given scans with the resources at hand.\<close>

definition storeEnv :: "engine_env \<Rightarrow> specs \<Rightarrow> store_env" where
  "storeEnv env specs =
     (case en_conflicts env of
        Some st \<Rightarrow> st
      | None \<Rightarrow> (en_newStore env)\<lparr>ev_scanner := Some (\<lambda>rec variant data. ConflictScanner (en_guard env) specs rec variant data \<noteq> None)\<rparr>)"

definition textMerge :: "engine_env \<Rightarrow> string \<Rightarrow> string \<Rightarrow> string \<Rightarrow> merge_error + string merge_result" where
  "textMerge env = (case en_textMerger env of Some m \<Rightarrow> m | None \<Rightarrow> GitTextMerge (en_mergeFile env))"

subsection \<open>The saved snapshot\<close>

text \<open>A missing or empty file and JSON \<open>null\<close> give the empty snapshot.\<close>

definition LoadState :: "snapshot sync_io" where
  "LoadState = read_tick EngineFault (\<lambda>s.
     case sy_state s of None \<Rightarrow> Inr fmempty | Some Corrupt \<Rightarrow> Inl (During ''load state'' Unreadable) | Some (Stored m) \<Rightarrow> Inr m)"

definition SaveState :: "snapshot \<Rightarrow> unit sync_io" where
  "SaveState m = tick EngineFault (\<lambda>s _. s) (\<lambda>s. (Inr (), s\<lparr>sy_state := Some (Stored m)\<rparr>))"

definition linkText :: "bool \<Rightarrow> string list \<Rightarrow> string" where
  "linkText rooted target = (if rooted then pathString target else join_with CHR ''/'' target)"

definition fileMeta :: "engine_env \<Rightarrow> string \<Rightarrow> node \<Rightarrow> file_meta" where
  "fileMeta env rel nd =
     (let x = (case nd of FileNode x \<Rightarrow> x | LinkNode rooted target \<Rightarrow> linkText rooted target | DirNode \<Rightarrow> [])
      in \<lparr>fm_hash = ap_sha (en_apply env) x, fm_mod_time = te_modTime (en_texts env) rel, fm_size = int (length x)\<rparr>)"

definition snapshotOf :: "engine_env \<Rightarrow> work_tree \<Rightarrow> snapshot" where
  "snapshotOf env t = fmmap_keys (fileMeta env) (fmfilter (prefix ''agents/'') t)"

definition SnapshotRepo :: "engine_env \<Rightarrow> snapshot sync_io" where
  "SnapshotRepo env = read_tick EngineFault (\<lambda>s.
     case fmlookup (workOf (en_apply env) s) ''agents'' of
       Some (LinkNode _ _) \<Rightarrow> Inl (During ''snapshot repo'' AgentsRootLink)
     | _ \<Rightarrow> Inr (snapshotOf env (workOf (en_apply env) s)))"

subsection \<open>Git\<close>

definition gitReport :: "string \<Rightarrow> string option \<Rightarrow> sync_error + unit" where
  "gitReport step e = (case e of None \<Rightarrow> Inr () | Some x \<Rightarrow> Inl (During step (OfGit x)))"

definition SetLocalConfig :: "engine_env \<Rightarrow> unit sync_io" where
  "SetLocalConfig env = read_tick EngineFault (\<lambda>s. gitReport ''configure repository line endings'' (gi_config (en_git env) (length (sy_net s))))"

text \<open>An operation that moves the committed tree and the working tree.\<close>

definition moveTrees ::
  "engine_env \<Rightarrow> net_op \<Rightarrow> string \<Rightarrow> (nat \<Rightarrow> work_tree \<Rightarrow> work_tree \<Rightarrow> string option \<times> work_tree \<times> work_tree) \<Rightarrow> unit sync_io" where
  "moveTrees env op step f = tick EngineFault (\<lambda>s _. s\<lparr>sy_net := sy_net s @ [op]\<rparr>) (\<lambda>s.
     case f (length (sy_net s)) (sy_head s) (workOf (en_apply env) s) of
       (e, head, work) \<Rightarrow> (gitReport step e, setWork (en_apply env) work (s\<lparr>sy_head := head, sy_net := sy_net s @ [op]\<rparr>)))"

definition PullRebase :: "engine_env \<Rightarrow> unit sync_io" where
  "PullRebase env = moveTrees env Pulling ''pull'' (gi_pull (en_git env))"

definition ResetKeepUpstream :: "engine_env \<Rightarrow> unit sync_io" where
  "ResetKeepUpstream env = moveTrees env Resetting ''restore repository after rejected push'' (gi_reset (en_git env))"

definition AddAll :: "unit sync_io" where
  "AddAll = read_tick EngineFault (\<lambda>_. Inr ())"

text \<open>Without ignore rules the status is clean when the working tree is the committed one.\<close>

definition HasChanges :: "engine_env \<Rightarrow> bool sync_io" where
  "HasChanges env = read_tick EngineFault (\<lambda>s. Inr (workOf (en_apply env) s \<noteq> sy_head s))"

definition Commit :: "engine_env \<Rightarrow> unit sync_io" where
  "Commit env = tick EngineFault (\<lambda>s _. s) (\<lambda>s. (Inr (), s\<lparr>sy_head := workOf (en_apply env) s\<rparr>))"

definition network :: "net_op \<Rightarrow> string \<Rightarrow> (nat \<Rightarrow> work_tree \<Rightarrow> string option) \<Rightarrow> unit sync_io" where
  "network op step f = tick EngineFault (\<lambda>s _. s\<lparr>sy_net := sy_net s @ [op]\<rparr>)
     (\<lambda>s. (gitReport step (f (length (sy_net s)) (sy_head s)), s\<lparr>sy_net := sy_net s @ [op]\<rparr>))"

definition Push :: "engine_env \<Rightarrow> unit sync_io" where
  "Push env = network Pushing ''push'' (gi_push (en_git env))"

definition FetchOrigin :: "engine_env \<Rightarrow> unit sync_io" where
  "FetchOrigin env = network Fetching ''fetch after rejected push'' (\<lambda>n _. gi_fetch (en_git env) n)"

section \<open>Views and preparations\<close>

record remote_view =
  rv_snapshot :: snapshot
  rv_owned :: snapshot
  rv_valid :: snapshot
  rv_ownershipBlocked :: "issue list"
  rv_validationBlocked :: "issue list"

definition validateEngine :: "engine_env \<Rightarrow> specs \<Rightarrow> sync_error option" where
  "validateEngine env specs =
     (if \<not> en_hasGit env then Some (Incomplete ''sync engine requires a git client'')
      else if trim_space (en_repoDir env) = [] then Some (Incomplete ''sync engine requires a repository directory'')
      else if trim_space (en_statePath env) = [] then Some (Incomplete ''sync engine requires a state path'')
      else if en_hasInstallManager env \<and> \<not> en_hasInstallStore env
      then Some (Incomplete ''sync engine install manager requires a store'')
      else if list_ex (\<lambda>(_, s). sp_strategy s = StrategyInstallManifest) (fm_entries specs) then
        (if \<not> en_inventory env then Some (Incomplete ''sync engine requires inventory for install resources'')
         else if \<not> en_hasInstallManager env
         then Some (Incomplete ''sync engine requires an install manager for install resources'') else None)
      else None)"

definition requireValid :: "sync_error option \<Rightarrow> unit sync_io" where
  "requireValid e = (case e of None \<Rightarrow> ret () | Some x \<Rightarrow> raise x)"

text \<open>The link check of the library, on the file system the round finds.\<close>

definition libraryLinks :: "engine_env \<Rightarrow> fsys \<Rightarrow> string \<Rightarrow> string option" where
  "libraryLinks env fs root =
     map_option (\<lambda>e. en_errorText env (OfLibrary e))
       (noLinksFrom (ap_links (en_apply env)) fs (pathSegments (ap_userHome (en_apply env))) (pathSegments root) (pathSegments root))"

definition libraryContent :: "engine_env \<Rightarrow> string \<Rightarrow> string \<Rightarrow> string option" where
  "libraryContent env rel data =
     map_option (\<lambda>e. en_errorText env (OfLibrary e))
       (validateLibraryContent (globMatch (ap_codecs (en_apply env))) (unmarshalJSON (ap_codecs (en_apply env))) rel data)"

text \<open>\<open>loadRemote\<close> also protects the library's outputs in the engine's resources, in place.\<close>

definition loadRemote :: "engine_env \<Rightarrow> specs \<Rightarrow> (specs \<times> remote_view) sync_io" where
  "loadRemote env specs =
     andThen (SnapshotRepo env) (\<lambda>snapshot.
     andThen (read_tick EngineFault (\<lambda>s.
        map_sum (\<lambda>e. During ''protect remote library sources'' (OfLibrary e)) id
          (ProtectRemoteSpecs (libraryLinks env (ad_fs (sy_apply s))) (libraryContent env) (ap_userHome (en_apply env)) (fm_keys snapshot) specs)))
       (\<lambda>specs'.
     read_tick EngineFault (\<lambda>s.
        case SplitRemoteSnapshot snapshot specs' of
          (owned, _, ownershipBlocked) \<Rightarrow>
            (case ValidateRemoteResources (en_guard env) (guardTree (en_apply env) s) specs' owned of
               (valid, validationBlocked) \<Rightarrow>
                 Inr (specs', \<lparr>rv_snapshot = snapshot, rv_owned = owned, rv_valid = valid,
                               rv_ownershipBlocked = ownershipBlocked, rv_validationBlocked = validationBlocked\<rparr>)))))"

definition sortedResourceSpecs :: "specs \<Rightarrow> spec list" where
  "sortedResourceSpecs specs = map (\<lambda>k. the (fmlookup specs k)) (fm_keys specs)"

definition applyIssue :: "engine_env \<Rightarrow> string \<Rightarrow> string \<Rightarrow> string \<Rightarrow> string \<Rightarrow> issue" where
  "applyIssue env key repoRel code message =
     \<lparr>iss_resource_key = key, iss_path = repoRel, iss_code = code, iss_message = Msg message, iss_bytes = 0\<rparr>"

text \<open>The text of an error of a part, with the names of the steps around it.\<close>

fun errorText :: "engine_env \<Rightarrow> sync_error \<Rightarrow> string" where
  "errorText env (During step e) = (if step = [] then en_errorText env e else step @ '': '' @ en_errorText env e)"
| "errorText env (Incomplete x) = x"
| "errorText env (NoArtifact p) = ''no staged artifact for '' @ p"
| "errorText env MalformedPaths = ''updated repository contains malformed portable paths''"
| "errorText env EngineFault = ''input/output error''"
| "errorText env (ErrorList es) = join_with CHR 0x0A (map (errorText env) es)"

definition makeStageParent :: "engine_env \<Rightarrow> unit sync_io" where
  "makeStageParent env =
     onApply ''create resource stage parent'' (mkdirAll (en_apply env) (ap_repoDir (en_apply env) @ [''.git'', ''synchub-stage'']))"

text \<open>The collector of a round: options of the engine, the default filter and the background context.\<close>

definition collectorOf :: "engine_env \<Rightarrow> collect_env" where
  "collectorOf env =
     (en_collector env)\<lparr>cl_links := ap_links (en_apply env),
       cl_stageParent := ap_repoDir (en_apply env) @ [''.git'', ''synchub-stage''],
       cl_goos := ap_goos (en_apply env), cl_userHome := ap_userHome (en_apply env), cl_codecs := ap_codecs (en_apply env),
       cl_projector := Some (case ap_registry (en_apply env) of Some r \<Rightarrow> r | None \<Rightarrow> BuiltinRegistry),
       cl_filter := \<lparr>maxFileSize = 0, generatedGlobs = [], executableExtensions = []\<rparr>,
       cl_sha := ap_sha (en_apply env), cl_cancellable := False\<rparr>"

definition collectResources :: "engine_env \<Rightarrow> string \<Rightarrow> specs \<Rightarrow> collected sync_io" where
  "collectResources env step specs = onCollector step (Collect (collectorOf env) (sortedResourceSpecs specs))"

definition closeStage :: "engine_env \<Rightarrow> string \<Rightarrow> collected \<Rightarrow> unit sync_io" where
  "closeStage env step c = onCollector step (CloseCollected (collectorOf env) c)"

text \<open>\<open>defer\<close>: the stage is closed on every path, and a failure of that is joined to the error, beside the result.\<close>

definition joinErr :: "sync_error option \<Rightarrow> sync_error \<Rightarrow> sync_error" where
  "joinErr e f = (case e of None \<Rightarrow> f | Some e' \<Rightarrow> ErrorList [e', f])"

definition closing :: "engine_env \<Rightarrow> collected \<Rightarrow> outcome sync_io \<Rightarrow> outcome sync_io" where
  "closing env c m =
     attempt m (\<lambda>r. attempt (closeStage env ''close'' c) (\<lambda>q.
       case (r, q) of
         (Inr a, Inr _) \<Rightarrow> ret a
       | (Inl e, Inr _) \<Rightarrow> raise e
       | (Inr (a, e), Inl f) \<Rightarrow> ret (a, Some (joinErr e f))
       | (Inl e, Inl f) \<Rightarrow> raise (ErrorList [e, f])))"

section \<open>Queued resolutions\<close>

definition heldBy :: "string list \<Rightarrow> conflict_record \<Rightarrow> bool" where
  "heldBy pres rec = list_ex (pathHasPrefix (cr_repoRel rec)) pres"

definition preflightResolutionBatch ::
  "engine_env \<Rightarrow> specs \<Rightarrow> batch \<Rightarrow> collected \<Rightarrow> (issue list \<times> string list) sync_io" where
  "preflightResolutionBatch env specs pending c =
     (let pres = skippedRepoPrefixes (co_skipped c) specs @ blockedRepoPaths (co_blocked c) specs
      in if pres = [] then ret ([], [])
         else andThen (onConflicts env ''preflight conflict batch'' listUnlocked) (\<lambda>records.
           let chosen = filter (\<lambda>r. cr_id r \<in> set (map sel_id (ba_selections pending))) records
           in ret (map (\<lambda>r. applyIssue env (cr_resourceKey r) (cr_repoRel r) ''resolution-preflight-blocked''
                       ''queued conflict batch is waiting because this local resource is blocked or skipped; address its collection issue before applying the batch'')
                     (filter (heldBy pres) chosen),
                   map cr_repoRel chosen)))"

definition restoreResolution ::
  "engine_env \<Rightarrow> specs \<Rightarrow> conflict_record \<times> string \<Rightarrow> (bool \<times> issue option) sync_io" where
  "restoreResolution env specs = (\<lambda>(rec, choice).
     let failed = (\<lambda>key message. (False, Some (applyIssue env key (cr_repoRel rec) ''resolution-restore-failed'' message)))
     in if choice = ''local'' then ret (True, None)
        else case specForRepoPath specs (cr_repoRel rec) of
          Inl e \<Rightarrow> ret (failed (cr_resourceKey rec) (en_errorText env (OfOwner e)))
        | Inr s \<Rightarrow>
            if sp_strategy s = StrategyInstallManifest then ret (False, None)
            else attempt (onApply [] (RestoreResource (en_apply env) s (cr_repoRel rec))) (\<lambda>r.
              case r of Inl e \<Rightarrow> ret (failed (sp_key s) (errorText env e)) | Inr _ \<Rightarrow> ret (True, None)))"

text \<open>What the resolution phase hands to the rest of the round.\<close>

record resolution_state =
  rs_specs :: specs
  rs_remote :: remote_view
  rs_planBase :: snapshot
  rs_issues :: "issue list"
  rs_held :: "string list"

definition adoptResolution ::
  "engine_env \<Rightarrow> conflict_record \<times> string \<Rightarrow> resolution_state \<Rightarrow> resolution_state sync_io" where
  "adoptResolution env res st =
     andThen (restoreResolution env (rs_specs st) res) (\<lambda>(adoptBase, issue).
       let repoRel = cr_repoRel (fst res)
       in case issue of
            Some i \<Rightarrow> ret (st\<lparr>rs_issues := rs_issues st @ [i], rs_held := rs_held st @ [repoRel]\<rparr>)
          | None \<Rightarrow>
              if adoptBase then
                (case fmlookup (rv_valid (rs_remote st)) repoRel of
                   Some m \<Rightarrow> ret (st\<lparr>rs_planBase := fmupd repoRel m (rs_planBase st)\<rparr>)
                 | None \<Rightarrow> ret st)
              else ret st)"

text \<open>The phase; a second collection comes back beside the state.\<close>

definition resolutionPhase ::
  "engine_env \<Rightarrow> collected \<Rightarrow> resolution_state \<Rightarrow> (resolution_state \<times> collected option) sync_io" where
  "resolutionPhase env c st =
     andThen (onConflicts env ''load pending conflict batch'' (readBatch PendingJson)) (\<lambda>pending.
       case pending of
         None \<Rightarrow> ret (st, None)
       | Some b \<Rightarrow>
           if ba_status b \<noteq> ''queued'' then ret (st, None)
           else andThen (preflightResolutionBatch env (rs_specs st) b c) (\<lambda>(issues, held).
             if issues \<noteq> [] then ret (st\<lparr>rs_issues := issues, rs_held := held\<rparr>, None)
             else andThen (onConflicts env ''apply pending conflict batch'' (ApplyPendingBatch (storeEnv env (rs_specs st)))) (\<lambda>(applied, clearErr).
               case clearErr of
                 Some e \<Rightarrow> raise (During ''apply pending conflict batch'' (OfConflict e))
               | None \<Rightarrow>
                   if applied = [] then ret (st, None)
                   else andThen (loadRemote env (rs_specs st)) (\<lambda>(specs, remote).
                     andThen (forEach (adoptResolution env) applied (st\<lparr>rs_specs := specs, rs_remote := remote\<rparr>)) (\<lambda>st'.
                     andThen (collectResources env ''recollect resolved resources'' specs) (\<lambda>refreshed.
                       ret (st', Some refreshed)))))))"

section \<open>Merging one resource\<close>

text \<open>A file that may be missing; what is there but is no file cannot be read.\<close>

definition readOptional :: "engine_env \<Rightarrow> string \<Rightarrow> string list \<Rightarrow> string option sync_io" where
  "readOptional env step p = read_tick EngineFault (\<lambda>s.
     let fs = ad_fs (sy_apply s) in
     case walk (ap_links (en_apply env)) fs [] p of
       None \<Rightarrow> Inr None
     | Some q \<Rightarrow>
         (case fmlookup fs q of
            None \<Rightarrow> Inr None | Some (FileNode x) \<Rightarrow> Inr (Some x) | Some _ \<Rightarrow> Inl (During step Unreadable)))"

definition readStaged :: "engine_env \<Rightarrow> string \<Rightarrow> artifact \<Rightarrow> string sync_io" where
  "readStaged env step a = read_tick EngineFault (\<lambda>s.
     case readFile (ap_links (en_apply env)) (ad_fs (sy_apply s)) (ar_stage a) of
       None \<Rightarrow> Inl (During step Unreadable) | Some x \<Rightarrow> Inr x)"

definition relativeOf :: "string \<Rightarrow> part_error + string" where
  "relativeOf repoRel = map_sum OfPath ref_relative (ParseRepoPath repoRel)"

text \<open>The three-way merge a resource gets, by its strategy and by which of the versions exist.\<close>

definition mergeVersions ::
  "engine_env \<Rightarrow> spec \<Rightarrow> string \<Rightarrow> string option \<Rightarrow> string option \<Rightarrow> string option \<Rightarrow> part_error + string merge_result" where
  "mergeVersions env s repoRel base local remote =
     (let cs = ap_codecs (en_apply env);
          structured = (\<lambda>rel b l r. map_sum OfMerge id (StructuredDocument (Parse cs) (encodeDocument cs) rel b l r))
      in case (base, local, remote) of
        (Some b, Some l, Some r) \<Rightarrow>
          if sp_strategy s = StrategyStructuredMerge then
            (case relativeOf repoRel of Inl e \<Rightarrow> Inl e | Inr rel \<Rightarrow> structured rel b l r)
          else if sp_strategy s = StrategyTextTree then map_sum OfMerge id (textMerge env b l r)
          else Inr (Binary b l r)
      | (None, Some l, Some r) \<Rightarrow>
          if sp_strategy s \<noteq> StrategyStructuredMerge then Inr Conflict
          else (case relativeOf repoRel of
              Inl e \<Rightarrow> Inl e
            | Inr rel \<Rightarrow>
                (case Parse cs rel r of
                   Inl e \<Rightarrow> Inl (OfParse e)
                 | Inr (format, _) \<Rightarrow>
                     (case encodeDocument cs format fmempty of Inl e \<Rightarrow> Inl (OfParse e) | Inr emptyBase \<Rightarrow> structured rel emptyBase l r)))
      | _ \<Rightarrow> Inr Conflict)"

definition orEmpty :: "string option \<Rightarrow> string" where
  "orEmpty x = (case x of None \<Rightarrow> [] | Some y \<Rightarrow> y)"

definition createConflict ::
  "engine_env \<Rightarrow> specs \<Rightarrow> spec \<Rightarrow> string \<Rightarrow> string option \<Rightarrow> string option \<Rightarrow> string option \<Rightarrow> bool sync_io" where
  "createConflict env specs s repoRel base local remote =
     andThen (onConflicts env [] (conflictExists repoRel)) (\<lambda>exists.
       if exists then ret True
       else andThen (onConflicts env ''create conflict'' (Create (storeEnv env specs)
              \<lparr>cr_id = conflictID (ap_sha (en_apply env)) repoRel [orEmpty base, orEmpty local, orEmpty remote],
               cr_resourceKey = sp_key s, cr_repoRel = repoRel, cr_createdAt = en_now env\<rparr>
              (orEmpty base) (orEmpty local) (orEmpty remote))) (\<lambda>_. ret True))"

text \<open>True says that the merge ended in a conflict.\<close>

definition mergeResource ::
  "engine_env \<Rightarrow> specs \<Rightarrow> spec \<Rightarrow> string \<Rightarrow> string option \<Rightarrow> (string, artifact) fmap \<Rightarrow> bool sync_io" where
  "mergeResource env specs s repoRel base artifacts =
     andThen (case fmlookup artifacts repoRel of
        None \<Rightarrow> ret None
      | Some a \<Rightarrow> andThen (readStaged env ''read staged merge input'' a) (\<lambda>x. ret (Some x))) (\<lambda>local.
     case safeJoin (ap_repoDir (en_apply env)) repoRel of
       Inl e \<Rightarrow> raise (During [] (OfGuard e))
     | Inr remotePath \<Rightarrow>
         andThen (readOptional env ''read remote merge input'' remotePath) (\<lambda>remote.
           case mergeVersions env s repoRel base local remote of
             Inl e \<Rightarrow> raise (During ''merge resource'' e)
           | Inr Conflict \<Rightarrow> createConflict env specs s repoRel base local remote
           | Inr (Merged data) \<Rightarrow>
               andThen (onApply [] (writeFileAtomic (en_apply env) remotePath data)) (\<lambda>_.
                 if sp_strategy s = StrategyInstallManifest then ret False
                 else case relativeOf repoRel of
                   Inl e \<Rightarrow> raise (During [] e)
                 | Inr rel \<Rightarrow>
                     andThen (onApply ''restore merged resource'' (RestoreBytes (en_apply env) s rel data)) (\<lambda>_. ret False))))"

section \<open>Carrying out the actions\<close>

record loop_state =
  ls_issues :: "issue list"
  ls_restored :: nat
  ls_conflicts :: nat
  ls_preserve :: "string list"

definition keepBase :: "string \<Rightarrow> loop_state \<Rightarrow> loop_state" where
  "keepBase repoRel st = st\<lparr>ls_preserve := ls_preserve st @ [repoRel]\<rparr>"

text \<open>A failure of one resource is an issue, and its merge base stays what it was.\<close>

definition failedResource :: "engine_env \<Rightarrow> string \<Rightarrow> string \<Rightarrow> string \<Rightarrow> sync_error \<Rightarrow> loop_state \<Rightarrow> loop_state" where
  "failedResource env key repoRel code e st =
     keepBase repoRel (st\<lparr>ls_issues := ls_issues st @ [applyIssue env key repoRel code (errorText env e)]\<rparr>)"

definition pendingInstallForAdapter :: "plan option \<Rightarrow> string \<Rightarrow> bool" where
  "pendingInstallForAdapter pl adapter =
     (case pl of
        None \<Rightarrow> False
      | Some p \<Rightarrow> list_ex (\<lambda>q. op_adapter q = adapter \<and> (op_kind q = ''install'' \<or> op_kind q = ''update'')) (pl_operations p))"

definition restored :: "loop_state \<Rightarrow> loop_state" where
  "restored st = st\<lparr>ls_restored := Suc (ls_restored st)\<rparr>"

definition doMerge :: "engine_env \<Rightarrow> specs \<Rightarrow> collected \<Rightarrow> spec \<Rightarrow> string \<Rightarrow> loop_state \<Rightarrow> loop_state sync_io" where
  "doMerge env specs c s repoRel st =
     andThen (onBase env ''load merge base'' (BaseGet (ap_sha (en_apply env)) repoRel)) (\<lambda>base.
     attempt (mergeResource env specs s repoRel base (co_artifacts c)) (\<lambda>r.
       case r of
         Inl e \<Rightarrow> ret (failedResource env (sp_key s) repoRel ''merge-failed'' e st)
       | Inr True \<Rightarrow> ret (keepBase repoRel (st\<lparr>ls_conflicts := Suc (ls_conflicts st)\<rparr>))
       | Inr False \<Rightarrow> ret (restored st)))"

definition doPush :: "engine_env \<Rightarrow> collected \<Rightarrow> string \<Rightarrow> loop_state \<Rightarrow> loop_state sync_io" where
  "doPush env c repoRel st =
     (case fmlookup (co_artifacts c) repoRel of
        None \<Rightarrow> raise (NoArtifact repoRel)
      | Some a \<Rightarrow> andThen (onApply ''push resource'' (PushArtifact (en_apply env) a)) (\<lambda>_. ret st))"

definition doPull :: "engine_env \<Rightarrow> spec \<Rightarrow> string \<Rightarrow> loop_state \<Rightarrow> loop_state sync_io" where
  "doPull env s repoRel st =
     (if sp_strategy s = StrategyInstallManifest then ret st
      else attempt (onApply [] (RestoreResource (en_apply env) s repoRel)) (\<lambda>r.
        case r of
          Inl e \<Rightarrow> ret (failedResource env (sp_key s) repoRel ''restore-failed'' e st)
        | Inr _ \<Rightarrow> ret (restored st)))"

definition doDelete :: "engine_env \<Rightarrow> spec \<Rightarrow> string \<Rightarrow> string \<Rightarrow> loop_state \<Rightarrow> loop_state sync_io" where
  "doDelete env s repoRel code st =
     (if sp_strategy s = StrategyInstallManifest then ret st
      else attempt (onApply [] (DeleteResource (en_apply env) s repoRel)) (\<lambda>r.
        case r of
          Inl e \<Rightarrow> ret (failedResource env (sp_key s) repoRel code e st)
        | Inr _ \<Rightarrow> ret st))"

definition doDeleteRemote :: "engine_env \<Rightarrow> spec \<Rightarrow> string \<Rightarrow> loop_state \<Rightarrow> loop_state sync_io" where
  "doDeleteRemote env s repoRel st =
     andThen (onTrash env ''delete remote resource'' (SoftDeleteRemote (en_now env) repoRel)) (\<lambda>_.
       doDelete env s repoRel ''delete-local-alias-failed'' st)"

definition doRemoveRemote :: "engine_env \<Rightarrow> string \<Rightarrow> loop_state \<Rightarrow> loop_state sync_io" where
  "doRemoveRemote env repoRel st =
     andThen (onApply ''remove blocked remote resource''
        (andThen (deletableJoin (en_apply env) (ap_repoDir (en_apply env)) repoRel) (\<lambda>target.
           fsOp Occupied (\<lambda>fs. removeNode (ap_links (en_apply env)) fs target)))) (\<lambda>_. ret st)"

text \<open>What the loop reads and does not change.\<close>

record loop_context =
  lx_specs :: specs
  lx_collected :: collected
  lx_held :: "string list"
  lx_conflictPaths :: "string list"
  lx_pendingPlan :: "plan option"

definition performAction :: "engine_env \<Rightarrow> loop_context \<Rightarrow> spec \<Rightarrow> action \<Rightarrow> loop_state \<Rightarrow> loop_state sync_io" where
  "performAction env x s a st =
     (let p = act_path a in
      case act_type a of
        MergeBoth \<Rightarrow> doMerge env (lx_specs x) (lx_collected x) s p st
      | PushToRemote \<Rightarrow> doPush env (lx_collected x) p st
      | PullToLocal \<Rightarrow> doPull env s p st
      | DeleteRemote \<Rightarrow>
          if sp_strategy s = StrategyInstallManifest \<and> pendingInstallForAdapter (lx_pendingPlan x) (sp_installer s)
          then ret (keepBase p st) else doDeleteRemote env s p st
      | DeleteLocal \<Rightarrow> doDelete env s p ''delete-local-failed'' st
      | RemoveRemote \<Rightarrow> doRemoveRemote env p st)"

definition actionStep :: "engine_env \<Rightarrow> loop_context \<Rightarrow> action \<Rightarrow> loop_state \<Rightarrow> loop_state sync_io" where
  "actionStep env x a st =
     (let p = act_path a in
      if p \<in> set (lx_held x) then ret st
      else if p \<in> set (lx_conflictPaths x) \<and> act_type a \<noteq> MergeBoth \<and> act_type a \<noteq> RemoveRemote then ret (keepBase p st)
      else case specForRepoPath (lx_specs x) p of
        Inl e \<Rightarrow> if act_type a \<noteq> RemoveRemote then raise (During [] (OfOwner e)) else doRemoveRemote env p st
      | Inr s \<Rightarrow> performAction env x s a st)"

section \<open>The round\<close>

definition markUnavailable :: "specs \<Rightarrow> snapshot list \<Rightarrow> issue \<Rightarrow> issue" where
  "markUnavailable specs snapshots iss =
     (if iss_code iss \<noteq> ''root-missing'' then iss
      else
        let pre = (case fmlookup specs (iss_resource_key iss) of None \<Rightarrow> [] | Some s \<Rightarrow> resourceRepoPrefix s)
        in if pre = [] \<or> list_ex (\<lambda>m. list_ex (\<lambda>p. pathHasPrefix p pre) (fm_keys m)) snapshots
           then iss\<lparr>iss_code := ''root-unavailable''\<rparr> else iss)"

definition underPrefixes :: "string list \<Rightarrow> snapshot list \<Rightarrow> string list" where
  "underPrefixes pres snapshots = concat (map (\<lambda>pre. concat (map (\<lambda>m. filter (\<lambda>p. pathHasPrefix p pre) (fm_keys m)) snapshots)) pres)"

definition stagedManifest :: "engine_env \<Rightarrow> specs \<Rightarrow> string \<times> artifact \<Rightarrow> (string, string) fmap \<Rightarrow> (string, string) fmap sync_io" where
  "stagedManifest env specs = (\<lambda>(repoRel, a) manifests.
     case specForRepoPath specs repoRel of
       Inl _ \<Rightarrow> ret manifests
     | Inr s \<Rightarrow>
         if sp_strategy s \<noteq> StrategyInstallManifest \<or> ar_relative a \<noteq> ''manifest.json'' then ret manifests
         else andThen (readStaged env ''read staged install manifest'' a) (\<lambda>x. ret (fmupd (sp_key s) x manifests)))"

definition currentInstallManifests :: "engine_env \<Rightarrow> specs \<Rightarrow> (string, artifact) fmap \<Rightarrow> (string, string) fmap sync_io" where
  "currentInstallManifests env specs artifacts = forEach (stagedManifest env specs) (fm_entries artifacts) fmempty"

definition installPhase :: "engine_env \<Rightarrow> specs \<Rightarrow> collected \<Rightarrow> sync_result \<Rightarrow> sync_result sync_io" where
  "installPhase env specs c res =
     (if \<not> en_hasInstallManager env then ret res
      else andThen (currentInstallManifests env specs (co_artifacts c)) (\<lambda>manifests.
        andThen (onInstall env ''reconcile install plans'' (ReconcileInstalls (en_install env) specs (fmlookup manifests))) (\<lambda>out.
          ret (res\<lparr>sr_reinstalled := sr_reinstalled res + rc_executed out,
                   sr_pendingInstalls := sr_pendingInstalls res + rc_pending out,
                   sr_issues := sr_issues res @
                     map (\<lambda>(operation, message). applyIssue env operation [] ''install-failed'' message) (fm_entries (rc_errors out))\<rparr>))))"

text \<open>The push; a rejected one starts the round again from the upstream, as long as attempts are left.\<close>

definition rejectedPush :: "engine_env \<Rightarrow> sync_error \<Rightarrow> 'a sync_io option \<Rightarrow> 'a sync_io" where
  "rejectedPush env e retry =
     (case retry of
        None \<Rightarrow> raise e
      | Some again \<Rightarrow>
          attempt (FetchOrigin env) (\<lambda>f. case f of
            Inl fe \<Rightarrow> raise (ErrorList [e, fe])
          | Inr _ \<Rightarrow>
              attempt (ResetKeepUpstream env) (\<lambda>q. case q of
                Inl qe \<Rightarrow> raise (ErrorList [e, qe])
              | Inr _ \<Rightarrow> again)))"

text \<open>The merge base of the next round.\<close>

definition ownedNow :: "specs \<Rightarrow> snapshot \<Rightarrow> snapshot" where
  "ownedNow specs snap = fmfilter (\<lambda>p. \<not> isInternalPortablePath p) (fst (SplitRemoteSnapshot snap specs))"

definition recordBase :: "engine_env \<Rightarrow> specs \<Rightarrow> snapshot \<Rightarrow> snapshot \<Rightarrow> string list \<Rightarrow> unit sync_io" where
  "recordBase env specs baseSnapshot baseOwned preserve =
     andThen (SnapshotRepo env) (\<lambda>current.
       case SplitRemoteSnapshot current specs of
         (_, _, blocked) \<Rightarrow>
           if blocked \<noteq> [] then raise MalformedPaths
           else let owned = ownedNow specs current in
             andThen (SaveState (preserveSnapshot baseOwned owned preserve)) (\<lambda>_.
             attempt (onBase env ''capture base'' (CaptureRepoPreserving (ap_sha (en_apply env)) (fm_keys owned) preserve)) (\<lambda>r.
               case r of
                 Inr _ \<Rightarrow> ret ()
               | Inl e \<Rightarrow>
                   attempt (SaveState baseSnapshot) (\<lambda>q. case q of
                     Inr _ \<Rightarrow> raise (ErrorList [e])
                   | Inl f \<Rightarrow> raise (ErrorList [e, f])))))"

definition finishRound ::
  "engine_env \<Rightarrow> snapshot \<Rightarrow> resolution_state \<Rightarrow> snapshot \<Rightarrow> string list \<Rightarrow> sync_result \<Rightarrow> outcome sync_io option \<Rightarrow> outcome sync_io" where
  "finishRound env baseSnapshot st baseOwned preserve res retry =
     andThen AddAll (\<lambda>_.
     andThen (HasChanges env) (\<lambda>changed.
     let done = (\<lambda>res. andThen (recordBase env (rs_specs st) baseSnapshot baseOwned preserve) (\<lambda>_.
           ret (res\<lparr>sr_needsAttention := sr_issues res \<noteq> [] \<or> sr_conflicts res > 0 \<or> sr_pendingInstalls res > 0\<rparr>, None)))
     in if \<not> changed then done res
        else andThen (Commit env) (\<lambda>_.
          attempt (Push env) (\<lambda>r. case r of
            Inl e \<Rightarrow> rejectedPush env e retry
          | Inr _ \<Rightarrow> done (res\<lparr>sr_pushed := True\<rparr>)))))"

text \<open>The plan of a round.\<close>

definition skippedIssues :: "snapshot \<Rightarrow> resolution_state \<Rightarrow> collected \<Rightarrow> issue list" where
  "skippedIssues baseSnapshot st c = map (markUnavailable (rs_specs st) [baseSnapshot, rv_owned (rs_remote st)]) (co_skipped c)"

definition blockedIssues :: "resolution_state \<Rightarrow> collected \<Rightarrow> issue list" where
  "blockedIssues st c = co_blocked c @ rv_ownershipBlocked (rs_remote st) @ rv_validationBlocked (rs_remote st)"

definition roundPlan :: "snapshot \<Rightarrow> resolution_state \<Rightarrow> collected \<Rightarrow> resource_action_plan" where
  "roundPlan baseSnapshot st c =
     prepareResourcePlan (rs_planBase st) (co_snapshot c) (rv_snapshot (rs_remote st)) (rv_valid (rs_remote st)) (rs_specs st)
       (skippedIssues baseSnapshot st c) (blockedIssues st c)"

definition roundActions :: "engine_env \<Rightarrow> resource_action_plan \<Rightarrow> action list" where
  "roundActions env plan =
     (if en_firstSyncRun env then ApplyFirstSyncStrategy (pl_actions plan) (pl_local plan) (pl_remote plan) (en_firstSyncMode env)
      else pl_actions plan)"

definition initialResult :: "snapshot \<Rightarrow> resolution_state \<Rightarrow> collected \<Rightarrow> action list \<Rightarrow> string list \<Rightarrow> sync_result" where
  "initialResult baseSnapshot st c actions blockedPaths =
     \<lparr>sr_actions = actions, sr_blocked = blockedPaths,
      sr_issues = co_blocked c @ skippedIssues baseSnapshot st c @ rv_ownershipBlocked (rs_remote st) @
                  rv_validationBlocked (rs_remote st) @ rs_issues st,
      sr_skippedIssues = skippedIssues baseSnapshot st c, sr_blockedIssues = blockedIssues st c, sr_pushed = False,
      sr_restored = 0, sr_reinstalled = 0, sr_skipped = length (co_skipped c), sr_conflicts = 0,
      sr_pendingInstalls = 0, sr_needsAttention = False\<rparr>"

definition initialPreserve :: "snapshot \<Rightarrow> resolution_state \<Rightarrow> resource_action_plan \<Rightarrow> conflict_record list \<Rightarrow> string list" where
  "initialPreserve baseSnapshot st plan existing =
     map cr_repoRel existing @ underPrefixes (pl_skip_prefixes plan) [pl_base plan, rv_owned (rs_remote st)] @ rs_held st"

definition planAndApply ::
  "engine_env \<Rightarrow> snapshot \<Rightarrow> resolution_state \<Rightarrow> collected \<Rightarrow> (specs \<Rightarrow> outcome sync_io) option \<Rightarrow> outcome sync_io" where
  "planAndApply env baseSnapshot st c retry =
     (let plan = roundPlan baseSnapshot st c; actions = roundActions env plan
      in andThen (onConflicts env ''list conflicts'' listUnlocked) (\<lambda>existing.
         andThen (if en_hasInstallManager env then onInstall env ''load pending install plan'' Pending else ret None) (\<lambda>pending.
         andThen (forEach (actionStep env
              \<lparr>lx_specs = rs_specs st, lx_collected = c, lx_held = rs_held st,
               lx_conflictPaths = map cr_repoRel existing, lx_pendingPlan = pending\<rparr>) actions
              \<lparr>ls_issues = [], ls_restored = 0, ls_conflicts = length existing,
               ls_preserve = initialPreserve baseSnapshot st plan existing\<rparr>) (\<lambda>ls.
         andThen (onConflicts env ''list updated conflicts'' listUnlocked) (\<lambda>records.
         let res = initialResult baseSnapshot st c actions (pl_blocked_paths plan);
             res' = res\<lparr>sr_issues := sr_issues res @ ls_issues ls, sr_restored := ls_restored ls, sr_conflicts := length records\<rparr>
         in andThen (installPhase env (rs_specs st) c res') (\<lambda>res''.
              finishRound env baseSnapshot st (pl_base plan) (ls_preserve ls @ map cr_repoRel records) res''
                (map_option (\<lambda>again. again (rs_specs st)) retry)))))))"

definition round :: "engine_env \<Rightarrow> specs \<Rightarrow> (specs \<Rightarrow> outcome sync_io) option \<Rightarrow> outcome sync_io" where
  "round env specs0 retry =
     andThen (requireValid (validateEngine env specs0)) (\<lambda>_.
     andThen (SetLocalConfig env) (\<lambda>_.
     andThen (onConflicts env ''recover conflict transaction'' RecoverTransactions) (\<lambda>_.
     andThen (PullRebase env) (\<lambda>_.
     andThen LoadState (\<lambda>baseSnapshot.
     andThen (loadRemote env specs0) (\<lambda>(specs, remote).
     andThen (onConflicts env ''mirror conflicts'' (MirrorFromRepo (storeEnv env specs)
        (conflictIDsForIssues (rv_ownershipBlocked remote @ rv_validationBlocked remote)))) (\<lambda>_.
     andThen (makeStageParent env) (\<lambda>_.
     andThen (collectResources env ''collect resources'' specs) (\<lambda>c.
     attempt (resolutionPhase env c
        \<lparr>rs_specs = specs, rs_remote = remote, rs_planBase = baseSnapshot, rs_issues = [], rs_held = []\<rparr>) (\<lambda>r.
       case r of
         Inl e \<Rightarrow> closing env c (raise e)
       | Inr (st, None) \<Rightarrow> closing env c (planAndApply env baseSnapshot st c retry)
       | Inr (st, Some refreshed) \<Rightarrow>
           attempt (closeStage env ''close pre-resolution resource stage'' c) (\<lambda>q.
             closing env refreshed (case q of
               Inl e \<Rightarrow> raise e
             | Inr _ \<Rightarrow> planAndApply env baseSnapshot st refreshed retry))))))))))))"

text \<open>\<open>syncOnce\<close> ends because every retry has one attempt less.\<close>

fun syncOnce :: "engine_env \<Rightarrow> nat \<Rightarrow> specs \<Rightarrow> outcome sync_io" where
  "syncOnce env 0 specs = round env specs None"
| "syncOnce env (Suc n) specs = round env specs (if n = 0 then None else Some (syncOnce env n))"

definition attemptsOf :: "int \<Rightarrow> nat" where
  "attemptsOf retries = (if retries \<le> 0 then 3 else nat retries)"

definition SyncOnce :: "engine_env \<Rightarrow> specs \<Rightarrow> outcome sync_io" where
  "SyncOnce env specs = syncOnce env (attemptsOf (en_pushRetries env)) specs"

end
