(* ===== verification/Sync_Notices.thy ===== *)
theory Sync_Notices
  imports Sync_Engine Go_Text "HOL-Library.Multiset"
begin

text \<open>
  What the desktop says about a cycle (internal/desktop/sync_notices.go, the parts of
  internal/desktop/service.go that record cycles and progress, and the cycle of internal/daemon/daemon.go):
  the notices of a cycle, their acknowledgement and the need for attention.  Times are numbers, 0 the zero
  time.  The JSON text of a notice and the digest of a list of them are arguments.
\<close>

section \<open>Cycles\<close>

record cycle_result =
  cy_actions :: int
  cy_blocked :: int
  cy_pushed :: bool
  cy_purged :: int
  cy_restored :: int
  cy_reinstalled :: int
  cy_skipped :: int
  cy_conflicts :: int
  cy_pendingInstalls :: int
  cy_needsAttention :: bool
  cy_error :: string
  cy_finishedAt :: int
  cy_version :: int
  cy_issues :: "issue list"
  cy_skippedIssues :: "issue list"
  cy_blockedIssues :: "issue list"

definition noCycle :: cycle_result where
  "noCycle = \<lparr>cy_actions = 0, cy_blocked = 0, cy_pushed = False, cy_purged = 0, cy_restored = 0, cy_reinstalled = 0, cy_skipped = 0,
     cy_conflicts = 0, cy_pendingInstalls = 0, cy_needsAttention = False, cy_error = [], cy_finishedAt = 0, cy_version = 0,
     cy_issues = [], cy_skippedIssues = [], cy_blockedIssues = []\<rparr>"

text \<open>One cycle of the daemon, from what the synchronization and the clean-up of the trash return.\<close>

definition syncJob :: "string + sync_result \<Rightarrow> string + nat \<Rightarrow> int \<Rightarrow> cycle_result" where
  "syncJob synced purged now =
     (case synced of
        Inl e \<Rightarrow> noCycle\<lparr>cy_error := e, cy_finishedAt := now\<rparr>
      | Inr r \<Rightarrow>
          let c = \<lparr>cy_actions = int (length (sr_actions r)), cy_blocked = int (length (sr_blocked r)), cy_pushed = sr_pushed r,
                cy_purged = 0, cy_restored = int (sr_restored r), cy_reinstalled = int (sr_reinstalled r), cy_skipped = int (sr_skipped r),
                cy_conflicts = int (sr_conflicts r), cy_pendingInstalls = int (sr_pendingInstalls r),
                cy_needsAttention = sr_needsAttention r, cy_error = [], cy_finishedAt = now, cy_version = 1,
                cy_issues = sr_issues r, cy_skippedIssues = sr_skippedIssues r, cy_blockedIssues = sr_blockedIssues r\<rparr>
          in case purged of Inl e \<Rightarrow> c\<lparr>cy_error := e\<rparr> | Inr n \<Rightarrow> c\<lparr>cy_purged := int n\<rparr>)"

section \<open>Notices\<close>

record notice_issue =
  ni_resource_key :: string
  ni_path :: string
  ni_code :: string
  ni_message :: issue_message
  ni_bytes :: int
  ni_kind :: string
  ni_reviewable :: bool

record notice_review =
  nr_version :: int
  nr_fingerprint :: string

record sync_notices =
  nt_version :: int
  nt_finishedAt :: int
  nt_skipped :: int
  nt_blocked :: int
  nt_details :: bool
  nt_issues :: "notice_issue list"
  nt_fingerprint :: string
  nt_reviewed :: bool

record notice_env =
  ne_json :: "notice_issue \<Rightarrow> string"
  ne_digest :: "int \<Rightarrow> int \<Rightarrow> int \<Rightarrow> string list \<Rightarrow> string"

definition routineNotice :: "string \<Rightarrow> bool" where
  "routineNotice code \<longleftrightarrow> code \<in> set [''generated-content'', ''platform-binary'', ''file-too-large'', ''root-missing'',
     ''secret-detected'', ''remote-secret-detected'', ''remote-nonportable-fields'']"

definition reviewableNotice :: "string \<Rightarrow> bool" where
  "reviewableNotice code \<longleftrightarrow> code \<in> set [''invalid-path'', ''repo-path-invalid'', ''unapproved-link'', ''link-cycle'',
     ''remote-path-invalid'', ''remote-internal-invalid'', ''remote-resource-unknown'', ''remote-link-blocked'',
     ''remote-install-manifest-invalid'']"

definition noticeOf :: "string \<Rightarrow> issue \<Rightarrow> notice_issue" where
  "noticeOf kind x =
     \<lparr>ni_resource_key = iss_resource_key x, ni_path = iss_path x, ni_code = iss_code x, ni_message = iss_message x,
      ni_bytes = iss_bytes x, ni_kind = kind, ni_reviewable = (kind \<noteq> ''error'' \<and> reviewableNotice (iss_code x))\<rparr>"

definition appendIssue :: "string \<Rightarrow> issue \<Rightarrow> (issue \<Rightarrow> int) \<times> sync_notices \<Rightarrow> (issue \<Rightarrow> int) \<times> sync_notices" where
  "appendIssue kind x = (\<lambda>(remaining, n).
     let remaining' = remaining(x := remaining x - 1) in
     if kind \<noteq> ''error'' \<and> routineNotice (iss_code x) then
       (remaining', if kind = ''skipped'' then n\<lparr>nt_skipped := max 0 (nt_skipped n - 1)\<rparr>
                    else if kind = ''blocked'' then n\<lparr>nt_blocked := max 0 (nt_blocked n - 1)\<rparr> else n)
     else (remaining', n\<lparr>nt_issues := nt_issues n @ [noticeOf kind x]\<rparr>))"

definition appendError :: "issue \<Rightarrow> (issue \<Rightarrow> int) \<times> sync_notices \<Rightarrow> (issue \<Rightarrow> int) \<times> sync_notices" where
  "appendError x s = (if fst s x > 0 then appendIssue ''error'' x s else s)"

definition fingerprintOf :: "notice_env \<Rightarrow> sync_notices \<Rightarrow> string" where
  "fingerprintOf env n =
     ne_digest env (nt_version n) (nt_skipped n) (nt_blocked n) (sort (map (\<lambda>i. ne_json env (i\<lparr>ni_bytes := 0\<rparr>)) (nt_issues n)))"

definition cycleNotices :: "notice_env \<Rightarrow> cycle_result \<Rightarrow> notice_review \<Rightarrow> sync_notices" where
  "cycleNotices env cycle review =
     (let start = \<lparr>nt_version = cy_version cycle, nt_finishedAt = cy_finishedAt cycle, nt_skipped = cy_skipped cycle,
            nt_blocked = cy_blocked cycle, nt_details = (cy_version cycle = 1), nt_issues = [], nt_fingerprint = [], nt_reviewed = False\<rparr>
      in if cy_version cycle \<noteq> 1 then start
         else let s0 = (\<lambda>x. int (count_list (cy_issues cycle) x), start);
                  s1 = fold (appendIssue ''skipped'') (cy_skippedIssues cycle) s0;
                  s2 = fold (appendIssue ''blocked'') (cy_blockedIssues cycle) s1;
                  n = snd (fold appendError (cy_issues cycle) s2);
                  fingerprint = fingerprintOf env n
              in n\<lparr>nt_fingerprint := fingerprint, nt_reviewed := (nr_version review = 1 \<and> nr_fingerprint review = fingerprint)\<rparr>)"

definition cycleNeedsAttention :: "notice_env \<Rightarrow> cycle_result \<Rightarrow> notice_review \<Rightarrow> bool" where
  "cycleNeedsAttention env cycle review \<longleftrightarrow>
     (if cy_error cycle \<noteq> [] \<or> cy_conflicts cycle > 0 \<or> cy_pendingInstalls cycle > 0 then True
      else let n = cycleNotices env cycle review in
        if \<not> nt_details n then cy_needsAttention cycle \<or> cy_blocked cycle > 0 \<or> cy_skipped cycle > 0
        else if list_ex (\<lambda>i. \<not> ni_reviewable i \<or> \<not> nt_reviewed n) (nt_issues n) then True
        else if nt_issues n = [] then nt_blocked n > 0 \<or> nt_skipped n > 0 \<or>
          (cy_needsAttention cycle \<and> cy_issues cycle = [] \<and> cy_skippedIssues cycle = [] \<and> cy_blockedIssues cycle = [])
        else False)"

section \<open>Progress and state\<close>

record progress =
  pg_revision :: nat
  pg_stage :: string
  pg_label :: string
  pg_percentage :: int
  pg_completed :: int
  pg_total :: int
  pg_blocked :: int
  pg_pushed :: bool
  pg_restored :: int
  pg_reinstalled :: int
  pg_skipped :: int
  pg_conflicts :: int
  pg_pendingInstalls :: int
  pg_needsAttention :: bool

definition noProgress :: progress where
  "noProgress = \<lparr>pg_revision = 0, pg_stage = [], pg_label = [], pg_percentage = 0, pg_completed = 0, pg_total = 0, pg_blocked = 0,
     pg_pushed = False, pg_restored = 0, pg_reinstalled = 0, pg_skipped = 0, pg_conflicts = 0, pg_pendingInstalls = 0, pg_needsAttention = False\<rparr>"

definition cycleProgress :: "cycle_result \<Rightarrow> progress" where
  "cycleProgress c =
     (if cy_finishedAt c = 0 then noProgress
      else \<lparr>pg_revision = 0, pg_stage = ''complete'', pg_label = ''Synchronization complete'', pg_percentage = 100,
        pg_completed = cy_actions c, pg_total = cy_actions c, pg_blocked = cy_blocked c, pg_pushed = cy_pushed c,
        pg_restored = cy_restored c, pg_reinstalled = cy_reinstalled c, pg_skipped = cy_skipped c, pg_conflicts = cy_conflicts c,
        pg_pendingInstalls = cy_pendingInstalls c, pg_needsAttention = (cy_needsAttention c \<or> cy_error c \<noteq> [])\<rparr>)"

record desk =
  dk_configured :: bool
  dk_last :: cycle_result
  dk_progress :: progress
  dk_successful :: cycle_result
  dk_review :: notice_review
  dk_revision :: nat

definition appendCycleError :: "string \<Rightarrow> string \<Rightarrow> string" where
  "appendCycleError existing err = (if existing = [] then err else existing @ CHR 0x0A # err)"

text \<open>\<open>recordCycle\<close>: the errors, if any, with which the two summaries fail to be saved.  The second component is what the
  observers of the cycle are told.\<close>

definition recordCycle :: "notice_env \<Rightarrow> string option \<Rightarrow> string option \<Rightarrow> cycle_result \<Rightarrow> desk \<Rightarrow> desk \<times> cycle_result" where
  "recordCycle env successErr cycleErr result d =
     (let good = (cy_error result = []);
          r1 = (case successErr of
              Some e \<Rightarrow> if good then result\<lparr>cy_error := appendCycleError (cy_error result) e, cy_needsAttention := True\<rparr> else result
            | None \<Rightarrow> result);
          success = (if good \<and> successErr = None then result else dk_successful d);
          r2 = (case cycleErr of
              Some e \<Rightarrow> r1\<lparr>cy_error := appendCycleError (cy_error r1) e, cy_needsAttention := True\<rparr>
            | None \<Rightarrow> r1)
      in (d\<lparr>dk_last := r2, dk_successful := success, dk_progress := (if cy_error r2 = [] then cycleProgress r2 else dk_progress d)\<rparr>,
          r2\<lparr>cy_needsAttention := cycleNeedsAttention env r2 (dk_review d)\<rparr>))"

definition recordProgress :: "notice_env \<Rightarrow> progress \<Rightarrow> desk \<Rightarrow> desk" where
  "recordProgress env update d =
     (let rev = Suc (dk_revision d);
          attention = cycleNeedsAttention env (dk_last d) (dk_review d);
          p = update\<lparr>pg_revision := rev\<rparr>;
          p' = (if pg_stage update = ''complete''
                then p\<lparr>pg_needsAttention := attention, pg_label := (if attention then pg_label p else ''Synchronization complete'')\<rparr>
                else p)
      in d\<lparr>dk_revision := rev, dk_progress := p'\<rparr>)"

datatype acknowledge_error = DeskNotConfigured | DetailsUnavailable | NoticesChanged | NothingToAcknowledge | AcknowledgeNotSaved

definition AcknowledgeSyncNotices :: "notice_env \<Rightarrow> bool \<Rightarrow> string \<Rightarrow> desk \<Rightarrow> acknowledge_error + desk" where
  "AcknowledgeSyncNotices env savedOk fingerprint d =
     (if \<not> dk_configured d then Inl DeskNotConfigured
      else let n = cycleNotices env (dk_successful d) (dk_review d) in
      if \<not> nt_details n then Inl DetailsUnavailable
      else if fingerprint = [] \<or> fingerprint \<noteq> nt_fingerprint n then Inl NoticesChanged
      else if \<not> list_ex ni_reviewable (nt_issues n) then Inl NothingToAcknowledge
      else if \<not> savedOk then Inl AcknowledgeNotSaved
      else Inr (d\<lparr>dk_review := \<lparr>nr_version = 1, nr_fingerprint = fingerprint\<rparr>\<rparr>))"

text \<open>The acknowledgement on disk: none, or what was decoded.\<close>

definition loadNoticeReview :: "notice_review option \<Rightarrow> notice_review option" where
  "loadNoticeReview stored =
     (case stored of
        None \<Rightarrow> Some \<lparr>nr_version = 0, nr_fingerprint = []\<rparr>
      | Some r \<Rightarrow> if nr_version r \<noteq> 1 \<or> \<not> sha256Hex (nr_fingerprint r) then None else Some r)"

definition terminalAttention :: "string \<Rightarrow> bool \<Rightarrow> string" where
  "terminalAttention state attention = (if attention \<and> (state = ''idle'' \<or> state = ''done'') then ''error'' else state)"

text \<open>The part of \<open>Snapshot\<close> that decides on attention.\<close>

definition snapshotAttention :: "notice_env \<Rightarrow> desk \<Rightarrow> bool \<Rightarrow> nat \<Rightarrow> string option \<Rightarrow> string \<Rightarrow> string \<times> progress" where
  "snapshotAttention env d pendingPlan conflicts resolution state =
     (let attention = (cycleNeedsAttention env (dk_last d) (dk_review d) \<or> pendingPlan \<or> conflicts > 0 \<or>
            (case resolution of None \<Rightarrow> False | Some status \<Rightarrow> status \<noteq> ''completed''));
          p = dk_progress d
      in (terminalAttention state attention,
          if pg_stage p = ''complete'' \<or> pg_stage p = [] then
            p\<lparr>pg_needsAttention := attention,
              pg_label := (if attention then ''Synchronization needs attention''
                           else if pg_stage p = ''complete'' then ''Synchronization complete'' else pg_label p)\<rparr>
          else p\<lparr>pg_needsAttention := (pg_needsAttention p \<or> attention)\<rparr>))"

section \<open>What is listed\<close>

definition listed :: "string \<Rightarrow> issue list \<Rightarrow> notice_issue list" where
  "listed kind xs = map (noticeOf kind) (filter (\<lambda>x. \<not> routineNotice (iss_code x)) xs)"

lemma fold_appendIssue:
  assumes "kind \<noteq> ''error''"
  shows "fst (fold (appendIssue kind) xs (rem, n)) = (\<lambda>x. rem x - int (count_list xs x)) \<and>
    nt_issues (snd (fold (appendIssue kind) xs (rem, n))) = nt_issues n @ listed kind xs \<and>
    nt_version (snd (fold (appendIssue kind) xs (rem, n))) = nt_version n \<and> nt_details (snd (fold (appendIssue kind) xs (rem, n))) = nt_details n"
proof (induction xs arbitrary: rem n)
  case Nil
  then show ?case by (simp add: listed_def)
next
  case (Cons x xs)
  obtain rem' n' where step: "appendIssue kind x (rem, n) = (rem', n')" by (cases "appendIssue kind x (rem, n)")
  have n': "nt_version n' = nt_version n" "nt_details n' = nt_details n"
      "nt_issues n' = nt_issues n @ (if routineNotice (iss_code x) then [] else [noticeOf kind x])"
    using step assms by (auto simp: appendIssue_def Let_def split: if_splits)
  have rem': "rem' z = (if z = x then rem x - 1 else rem z)" for z
    using step by (auto simp: appendIssue_def Let_def split: if_splits)
  have "(\<lambda>z. rem' z - int (count_list xs z)) = (\<lambda>z. rem z - int (count_list (x # xs) z))"
    by (rule ext) (simp add: rem')
  then show ?case using Cons.IH [of rem' n'] n' by (simp add: step listed_def)
qed

fun pickErrors :: "(issue \<Rightarrow> int) \<Rightarrow> issue list \<Rightarrow> issue list" where
  "pickErrors rem [] = []"
| "pickErrors rem (x # xs) = (if rem x > 0 then x # pickErrors (rem(x := rem x - 1)) xs else pickErrors rem xs)"

lemma fold_appendError:
  "nt_issues (snd (fold appendError xs (rem, n))) = nt_issues n @ map (noticeOf ''error'') (pickErrors rem xs) \<and>
    nt_version (snd (fold appendError xs (rem, n))) = nt_version n \<and> nt_details (snd (fold appendError xs (rem, n))) = nt_details n"
proof (induction xs arbitrary: rem n)
  case (Cons x xs)
  show ?case
  proof (cases "rem x > 0")
    case True
    obtain rem' where rem': "rem' = rem(x := rem x - 1)" by blast
    have "appendError x (rem, n) = (rem', n\<lparr>nt_issues := nt_issues n @ [noticeOf ''error'' x]\<rparr>)"
      using True by (simp add: appendError_def appendIssue_def rem')
    then show ?thesis
      using Cons.IH [of rem' "n\<lparr>nt_issues := nt_issues n @ [noticeOf ''error'' x]\<rparr>"] True by (simp add: rem' [symmetric])
  next
    case False
    then show ?thesis using Cons.IH [of rem n] by (simp add: appendError_def)
  qed
qed simp

lemma count_pickErrors: "int (count (mset (pickErrors rem xs)) x) = min (int (count_list xs x)) (max 0 (rem x))"
proof (induction xs arbitrary: rem)
  case (Cons y xs)
  obtain rem' where rem': "rem' = rem(y := rem y - 1)" by blast
  have at: "rem' x = (if x = y then rem x - 1 else rem x)" by (simp add: rem')
  show ?case
    using Cons.IH [of rem'] Cons.IH [of rem] at by (auto simp: rem' [symmetric] min_def max_def simp del: fun_upd_apply split: if_splits)
qed simp

text \<open>The errors of a cycle are its issues without the skipped and the blocked ones.\<close>

definition cycleErrors :: "cycle_result \<Rightarrow> issue list" where
  "cycleErrors c = pickErrors (\<lambda>x. int (count_list (cy_issues c) x) - int (count_list (cy_skippedIssues c) x) - int (count_list (cy_blockedIssues c) x))
     (cy_issues c)"

lemma mset_cycleErrors: "mset (cycleErrors c) = mset (cy_issues c) - mset (cy_skippedIssues c) - mset (cy_blockedIssues c)"
proof (rule multiset_eqI)
  fix x
  have "int (count (mset (cycleErrors c)) x) = max 0 (int (count_list (cy_issues c) x) - int (count_list (cy_skippedIssues c) x) - int (count_list (cy_blockedIssues c) x))"
    unfolding cycleErrors_def count_pickErrors by auto
  also have "\<dots> = int (count_list (cy_issues c) x - count_list (cy_skippedIssues c) x - count_list (cy_blockedIssues c) x)"
    by (simp add: of_nat_diff max_def)
  finally show "count (mset (cycleErrors c)) x = count (mset (cy_issues c) - mset (cy_skippedIssues c) - mset (cy_blockedIssues c)) x"
    by (simp add: count_mset)
qed

lemma cycleNotices_listed:
  assumes "cy_version c = 1"
  shows "nt_issues (cycleNotices env c review) =
      listed ''skipped'' (cy_skippedIssues c) @ listed ''blocked'' (cy_blockedIssues c) @ map (noticeOf ''error'') (cycleErrors c) \<and>
    nt_details (cycleNotices env c review) \<and> nt_version (cycleNotices env c review) = 1"
proof -
  let ?start = "\<lparr>nt_version = cy_version c, nt_finishedAt = cy_finishedAt c, nt_skipped = cy_skipped c, nt_blocked = cy_blocked c,
      nt_details = (cy_version c = 1), nt_issues = [], nt_fingerprint = [], nt_reviewed = False\<rparr>"
  obtain r1 n1 where s1: "fold (appendIssue ''skipped'') (cy_skippedIssues c) (\<lambda>x. int (count_list (cy_issues c) x), ?start) = (r1, n1)"
    by (cases "fold (appendIssue ''skipped'') (cy_skippedIssues c) (\<lambda>x. int (count_list (cy_issues c) x), ?start)")
  obtain r2 n2 where s2: "fold (appendIssue ''blocked'') (cy_blockedIssues c) (r1, n1) = (r2, n2)"
    by (cases "fold (appendIssue ''blocked'') (cy_blockedIssues c) (r1, n1)")
  have 1: "r1 = (\<lambda>x. int (count_list (cy_issues c) x) - int (count_list (cy_skippedIssues c) x))" "nt_issues n1 = listed ''skipped'' (cy_skippedIssues c)"
      "nt_version n1 = 1" "nt_details n1"
    using fold_appendIssue [of "''skipped''" "cy_skippedIssues c" "\<lambda>x. int (count_list (cy_issues c) x)" ?start, unfolded s1] assms by simp_all
  have 2: "r2 = (\<lambda>x. r1 x - int (count_list (cy_blockedIssues c) x))" "nt_issues n2 = nt_issues n1 @ listed ''blocked'' (cy_blockedIssues c)"
      "nt_version n2 = 1" "nt_details n2"
    using fold_appendIssue [of "''blocked''" "cy_blockedIssues c" r1 n1, unfolded s2] 1 by simp_all
  have "pickErrors r2 (cy_issues c) = cycleErrors c" by (simp add: cycleErrors_def 1(1) 2(1))
  then show ?thesis
    using fold_appendError [of "cy_issues c" r2 n2] 1 2 assms unfolding cycleNotices_def Let_def s1 s2 by simp
qed

lemma cycleNotices_fingerprint:
  assumes "cy_version c = 1"
  shows "nt_fingerprint (cycleNotices env c review) = fingerprintOf env (cycleNotices env c review)"
    and "nt_reviewed (cycleNotices env c review) \<longleftrightarrow> nr_version review = 1 \<and> nr_fingerprint review = nt_fingerprint (cycleNotices env c review)"
  using assms by (simp_all add: cycleNotices_def Let_def fingerprintOf_def)

section \<open>Properties\<close>

text \<open> C21. The notices of a cycle account for everything that went wrong: the error notices are exactly the issues of the
  cycle that are neither skipped nor blocked ones, counted with multiplicity, they cannot be reviewed away, and every
  skipped or blocked issue is listed unless it is one of the routine exclusions. \<close>

theorem notices_account_for_every_issue:
  assumes "cy_version c = 1"
  shows "\<exists>errors. nt_issues (cycleNotices env c review) =
        map (noticeOf ''skipped'') (filter (\<lambda>x. \<not> routineNotice (iss_code x)) (cy_skippedIssues c)) @
        map (noticeOf ''blocked'') (filter (\<lambda>x. \<not> routineNotice (iss_code x)) (cy_blockedIssues c)) @ map (noticeOf ''error'') errors \<and>
      mset errors = mset (cy_issues c) - mset (cy_skippedIssues c) - mset (cy_blockedIssues c) \<and>
      (errors \<noteq> [] \<longrightarrow> cycleNeedsAttention env c review)"
proof (intro exI conjI impI)
  note l = cycleNotices_listed [OF assms, of env review]
  show "nt_issues (cycleNotices env c review) =
        map (noticeOf ''skipped'') (filter (\<lambda>x. \<not> routineNotice (iss_code x)) (cy_skippedIssues c)) @
        map (noticeOf ''blocked'') (filter (\<lambda>x. \<not> routineNotice (iss_code x)) (cy_blockedIssues c)) @ map (noticeOf ''error'') (cycleErrors c)"
    using l by (simp add: listed_def)
  show "mset (cycleErrors c) = mset (cy_issues c) - mset (cy_skippedIssues c) - mset (cy_blockedIssues c)" by (rule mset_cycleErrors)
  assume "cycleErrors c \<noteq> []"
  then have "list_ex (\<lambda>i. \<not> ni_reviewable i) (nt_issues (cycleNotices env c review))"
    using l by (cases "cycleErrors c") (auto simp: noticeOf_def)
  then have "list_ex (\<lambda>i. \<not> ni_reviewable i \<or> \<not> nt_reviewed (cycleNotices env c review)) (nt_issues (cycleNotices env c review))"
    by (auto simp: list_ex_iff)
  then show "cycleNeedsAttention env c review" using l by (simp add: cycleNeedsAttention_def Let_def)
qed

definition demo_notice_env :: notice_env where
  "demo_notice_env = \<lparr>ne_json = ni_path, ne_digest = (\<lambda>_ _ _ xs. CHR ''#'' # concat xs)\<rparr>"

definition demo_issue :: "string \<Rightarrow> string \<Rightarrow> issue" where
  "demo_issue path code = \<lparr>iss_resource_key = ''demo/rules'', iss_path = path, iss_code = code, iss_message = Msg code, iss_bytes = 3\<rparr>"

definition demo_cycle :: cycle_result where
  "demo_cycle = noCycle\<lparr>cy_version := 1, cy_skipped := 1, cy_blocked := 1,
     cy_issues := [demo_issue ''a'' ''invalid-path'', demo_issue ''b'' ''secret-detected''],
     cy_skippedIssues := [demo_issue ''a'' ''invalid-path''], cy_blockedIssues := [demo_issue ''b'' ''secret-detected'']\<rparr>"

lemma notices_listed_demo:
  "nt_issues (cycleNotices env demo_cycle review) = [noticeOf ''skipped'' (demo_issue ''a'' ''invalid-path'')]"
proof -
  have v: "cy_version demo_cycle = 1" by (simp add: demo_cycle_def)
  have "mset (cycleErrors demo_cycle) = {#}" unfolding mset_cycleErrors by (simp add: demo_cycle_def noCycle_def)
  then show ?thesis using cycleNotices_listed [OF v, of env review]
    by (simp add: demo_cycle_def noCycle_def demo_issue_def listed_def routineNotice_def)
qed

theorem notices_account_for_every_issue_witness:
  "\<exists>errors. nt_issues (cycleNotices demo_notice_env demo_cycle \<lparr>nr_version = 0, nr_fingerprint = []\<rparr>) = [noticeOf ''skipped'' (demo_issue ''a'' ''invalid-path'')] @ map (noticeOf ''error'') errors \<and>
     mset errors = {#}"
proof -
  have v: "cy_version demo_cycle = 1" by (simp add: demo_cycle_def)
  show ?thesis using notices_account_for_every_issue [OF v, of demo_notice_env "\<lparr>nr_version = 0, nr_fingerprint = []\<rparr>"]
    by (simp add: demo_cycle_def noCycle_def demo_issue_def routineNotice_def)
qed

text \<open>The encoding and the digest do not confuse two particular lists of notices.\<close>

definition unsized :: "sync_notices \<Rightarrow> notice_issue list" where
  "unsized n = map (\<lambda>i. i\<lparr>ni_bytes := 0\<rparr>) (nt_issues n)"

definition digestInput :: "notice_env \<Rightarrow> sync_notices \<Rightarrow> int \<times> int \<times> int \<times> string list" where
  "digestInput env n = (nt_version n, nt_skipped n, nt_blocked n, sort (map (ne_json env) (unsized n)))"

lemma fingerprint_input: "fingerprintOf env n = (\<lambda>(v, s, b, xs). ne_digest env v s b xs) (digestInput env n)"
  by (simp add: fingerprintOf_def digestInput_def unsized_def comp_def)

definition collisionFree :: "notice_env \<Rightarrow> sync_notices \<Rightarrow> sync_notices \<Rightarrow> bool" where
  "collisionFree env n m \<longleftrightarrow>
     (fingerprintOf env n = fingerprintOf env m \<longrightarrow> digestInput env n = digestInput env m) \<and>
     inj_on (ne_json env) (set (unsized n) \<union> set (unsized m))"

text \<open> C20. An acknowledgement silences nothing but what was shown: unless the digest or the encoding collides, once the
  notices of the last successful cycle have been acknowledged, any cycle that does not call for attention succeeded, has
  no conflict and no pending installation, and the notices it lists are all reviewable ones and, sizes apart, exactly the
  acknowledged ones, with the same counts. \<close>

theorem acknowledged_notices_are_the_shown_ones:
  assumes "collisionFree env (cycleNotices env c (dk_review d')) (cycleNotices env (dk_successful d) (dk_review d))"
    and "AcknowledgeSyncNotices env savedOk fingerprint d = Inr d'"
    and "\<not> cycleNeedsAttention env c (dk_review d')" and "cy_version c = 1"
  shows "cy_error c = [] \<and> cy_conflicts c \<le> 0 \<and> cy_pendingInstalls c \<le> 0 \<and>
    (nt_issues (cycleNotices env c (dk_review d')) = [] \<or>
     list_all ni_reviewable (nt_issues (cycleNotices env c (dk_review d'))) \<and>
     mset (map (\<lambda>i. i\<lparr>ni_bytes := 0\<rparr>) (nt_issues (cycleNotices env c (dk_review d')))) =
       mset (map (\<lambda>i. i\<lparr>ni_bytes := 0\<rparr>) (nt_issues (cycleNotices env (dk_successful d) (dk_review d)))) \<and>
     nt_skipped (cycleNotices env c (dk_review d')) = nt_skipped (cycleNotices env (dk_successful d) (dk_review d)) \<and>
     nt_blocked (cycleNotices env c (dk_review d')) = nt_blocked (cycleNotices env (dk_successful d) (dk_review d)))"
proof -
  let ?n = "cycleNotices env c (dk_review d')" and ?m = "cycleNotices env (dk_successful d) (dk_review d)"
  have quiet: "cy_error c = []" "\<not> cy_conflicts c > 0" "\<not> cy_pendingInstalls c > 0"
      "\<not> list_ex (\<lambda>i. \<not> ni_reviewable i \<or> \<not> nt_reviewed ?n) (nt_issues ?n)"
    using assms(3) cycleNotices_listed [OF assms(4), of env "dk_review d'"]
    by (auto simp: cycleNeedsAttention_def Let_def split: if_splits)
  have ack: "nt_details ?m" "dk_review d' = \<lparr>nr_version = 1, nr_fingerprint = nt_fingerprint ?m\<rparr>"
    using assms(2) by (auto simp: AcknowledgeSyncNotices_def Let_def split: if_splits)
  have "cy_version (dk_successful d) = 1"
    using ack(1) by (rule contrapos_pp) (simp add: cycleNotices_def)
  note m = cycleNotices_fingerprint(1) [OF this, of env "dk_review d"]
  have "mset (map (\<lambda>i. i\<lparr>ni_bytes := 0\<rparr>) (nt_issues ?n)) = mset (map (\<lambda>i. i\<lparr>ni_bytes := 0\<rparr>) (nt_issues ?m)) \<and>
      nt_skipped ?n = nt_skipped ?m \<and> nt_blocked ?n = nt_blocked ?m \<and> list_all ni_reviewable (nt_issues ?n)" if "nt_issues ?n \<noteq> []"
  proof -
    have "nt_reviewed ?n" and rev: "list_all ni_reviewable (nt_issues ?n)"
      using quiet(4) that by (cases "nt_issues ?n"; auto simp: list_ex_iff list_all_iff)+
    then have "nt_fingerprint ?n = nt_fingerprint ?m" using cycleNotices_fingerprint(2) [OF assms(4)] ack(2) by simp
    then have "fingerprintOf env ?n = fingerprintOf env ?m" using m cycleNotices_fingerprint(1) [OF assms(4)] by simp
    then have "digestInput env ?n = digestInput env ?m" using assms(1) by (simp add: collisionFree_def)
    then have same: "nt_skipped ?n = nt_skipped ?m \<and> nt_blocked ?n = nt_blocked ?m \<and>
        sort (map (ne_json env) (unsized ?n)) = sort (map (ne_json env) (unsized ?m))"
      by (simp add: digestInput_def)
    then have "image_mset (ne_json env) (mset (unsized ?n)) = image_mset (ne_json env) (mset (unsized ?m))"
      by (metis mset_map mset_sort)
    then have "mset (unsized ?n) = mset (unsized ?m)"
      by (rule multiset.inj_map_strong [rotated]) (use assms(1) in \<open>auto simp: collisionFree_def inj_on_def\<close>)
    then show ?thesis using same rev by (simp add: unsized_def)
  qed
  then show ?thesis using quiet by auto
qed

definition demo_desk :: desk where
  "demo_desk = \<lparr>dk_configured = True, dk_last = demo_cycle, dk_progress = noProgress, dk_successful = demo_cycle,
     dk_review = \<lparr>nr_version = 0, nr_fingerprint = []\<rparr>, dk_revision = 0\<rparr>"

lemma demo_acknowledged:
  "cycleNeedsAttention demo_notice_env demo_cycle (dk_review demo_desk)"
  "AcknowledgeSyncNotices demo_notice_env True ''#a'' demo_desk = Inr (demo_desk\<lparr>dk_review := \<lparr>nr_version = 1, nr_fingerprint = ''#a''\<rparr>\<rparr>)"
  "\<not> cycleNeedsAttention demo_notice_env demo_cycle \<lparr>nr_version = 1, nr_fingerprint = ''#a''\<rparr>"
  by code_simp+

theorem acknowledged_notices_are_the_shown_ones_witness:
  "\<exists>d'. AcknowledgeSyncNotices demo_notice_env True ''#a'' demo_desk = Inr d' \<and>
     list_all ni_reviewable (nt_issues (cycleNotices demo_notice_env demo_cycle (dk_review d')))"
proof -
  let ?d = "demo_desk\<lparr>dk_review := \<lparr>nr_version = 1, nr_fingerprint = ''#a''\<rparr>\<rparr>"
  have issues: "unsized (cycleNotices demo_notice_env demo_cycle r) = [(noticeOf ''skipped'' (demo_issue ''a'' ''invalid-path''))\<lparr>ni_bytes := 0\<rparr>]" for r
    using notices_listed_demo [of demo_notice_env r] by (simp add: unsized_def)
  have same: "digestInput demo_notice_env (cycleNotices demo_notice_env demo_cycle r) =
      digestInput demo_notice_env (cycleNotices demo_notice_env demo_cycle r')" for r r'
    unfolding digestInput_def issues by (simp add: cycleNotices_def Let_def)
  have free: "collisionFree demo_notice_env (cycleNotices demo_notice_env demo_cycle (dk_review ?d))
      (cycleNotices demo_notice_env (dk_successful demo_desk) (dk_review demo_desk))"
    using same by (simp add: collisionFree_def issues demo_desk_def)
  have quiet: "\<not> cycleNeedsAttention demo_notice_env demo_cycle (dk_review ?d)" using demo_acknowledged(3) by simp
  have v: "cy_version demo_cycle = 1" by (simp add: demo_cycle_def)
  from acknowledged_notices_are_the_shown_ones [OF free demo_acknowledged(2) quiet v] show ?thesis
    using demo_acknowledged(2) by auto
qed

end
