(* ===== verification/Preview_Coordinator.thy ===== *)
theory Preview_Coordinator
  imports Go_Prelude
begin

text \<open>
  The resource preview (internal/desktop/preview_coordinator.go and the preview part of
  internal/desktop/resources.go): callers that arrive while a collection is in flight share it, the last
  caller to give up cancels it, and what it collects is saved only if the settings have not been saved in the
  meantime.  The state machine interleaves the critical sections of all callers, of the collecting goroutines
  and of \<open>SaveSettings\<close>.  A preview is represented by the version of the settings it was collected from.
\<close>

section \<open>State\<close>

datatype preview_result = Preview nat | CollectFailed | PreviewCancelled | PreviewInvalidated | SaveFailed

text \<open>Where a collecting goroutine stands: before it has read the generation, before it has loaded the settings, while it
  collects, before it commits, before it publishes its result, and after that.\<close>

datatype collect_pc =
    Begun
  | GenerationRead nat
  | Collecting nat nat
  | Committing nat nat
  | Publishing preview_result
  | Finished

record preview_call =
  pc_waiters :: nat
  pc_completed :: bool
  pc_cancelled :: bool
  pc_result :: preview_result
  pc_at :: collect_pc

record coordinator =
  co_calls :: "preview_call list"
  co_inflight :: "nat option"
  co_waiting :: "(nat \<times> nat) list"
  co_answers :: "(nat \<times> nat \<times> preview_result) list"
  co_generation :: nat
  co_settings :: nat
  co_invalidated :: nat
  co_saved :: "nat option"

text \<open>\<open>co_invalidated\<close> remembers the version of the settings at the last invalidation.\<close>

datatype preview_event =
    Arrive nat
  | ReadGeneration nat
  | LoadSettings nat
  | Collected nat bool
  | Commit nat bool
  | Publish nat
  | Answer nat nat
  | GiveUp nat nat
  | StoreSettings
  | Invalidate bool

definition newCall :: preview_call where
  "newCall = \<lparr>pc_waiters = 1, pc_completed = False, pc_cancelled = False, pc_result = CollectFailed, pc_at = Begun\<rparr>"

definition newCoordinator :: coordinator where
  "newCoordinator = \<lparr>co_calls = [], co_inflight = None, co_waiting = [], co_answers = [], co_generation = 0,
     co_settings = 0, co_invalidated = 0, co_saved = None\<rparr>"

definition onCall :: "nat \<Rightarrow> (preview_call \<Rightarrow> preview_call) \<Rightarrow> coordinator \<Rightarrow> coordinator" where
  "onCall i f s = s\<lparr>co_calls := (co_calls s)[i := f (co_calls s ! i)]\<rparr>"

section \<open>Operations\<close>

text \<open>\<open>refresh\<close> up to its wait.\<close>

definition refresh :: "nat \<Rightarrow> coordinator \<Rightarrow> coordinator" where
  "refresh w s =
     (case co_inflight s of
        None \<Rightarrow> s\<lparr>co_calls := co_calls s @ [newCall], co_inflight := Some (length (co_calls s)),
                  co_waiting := (w, length (co_calls s)) # co_waiting s\<rparr>
      | Some i \<Rightarrow> (onCall i (\<lambda>c. c\<lparr>pc_waiters := Suc (pc_waiters c)\<rparr>) s)\<lparr>co_waiting := (w, i) # co_waiting s\<rparr>)"

definition releaseCall :: "nat \<Rightarrow> coordinator \<Rightarrow> coordinator" where
  "releaseCall i s =
     (let c = co_calls s ! i; n = pc_waiters c - 1; abandon = (n = 0 \<and> \<not> pc_completed c) in
      (onCall i (\<lambda>c. c\<lparr>pc_waiters := n, pc_cancelled := (pc_cancelled c \<or> abandon)\<rparr>) s)
        \<lparr>co_inflight := (if abandon \<and> co_inflight s = Some i then None else co_inflight s)\<rparr>)"

text \<open>\<open>refreshPreview\<close>: the context is looked at after the collection, which may itself fail.\<close>

definition collectedPreview :: "bool \<Rightarrow> preview_call \<Rightarrow> nat \<Rightarrow> nat \<Rightarrow> preview_call" where
  "collectedPreview ok c gen v =
     c\<lparr>pc_at := (if \<not> ok then Publishing CollectFailed else if pc_cancelled c then Publishing PreviewCancelled else Committing gen v)\<rparr>"

definition commitPreview :: "nat \<Rightarrow> bool \<Rightarrow> nat \<Rightarrow> nat \<Rightarrow> coordinator \<Rightarrow> coordinator" where
  "commitPreview i ok gen v s =
     (if gen \<noteq> co_generation s then onCall i (\<lambda>c. c\<lparr>pc_at := Publishing PreviewInvalidated\<rparr>) s
      else if \<not> ok then onCall i (\<lambda>c. c\<lparr>pc_at := Publishing SaveFailed\<rparr>) s
      else (onCall i (\<lambda>c. c\<lparr>pc_at := Publishing (Preview v)\<rparr>) s)\<lparr>co_saved := Some v\<rparr>)"

text \<open>\<open>run\<close> after the collection.\<close>

definition publish :: "nat \<Rightarrow> preview_result \<Rightarrow> coordinator \<Rightarrow> coordinator" where
  "publish i r s =
     (onCall i (\<lambda>c. c\<lparr>pc_result := r, pc_completed := True, pc_at := Finished\<rparr>) s)
       \<lparr>co_inflight := (if co_inflight s = Some i then None else co_inflight s)\<rparr>"

text \<open>\<open>invalidatePreview\<close>; removing the saved preview may fail.\<close>

definition invalidatePreview :: "bool \<Rightarrow> coordinator \<Rightarrow> coordinator" where
  "invalidatePreview ok s =
     s\<lparr>co_generation := Suc (co_generation s), co_saved := (if ok then None else co_saved s),
       co_invalidated := (if ok then co_settings s else co_invalidated s)\<rparr>"

definition preview_step :: "preview_event \<Rightarrow> coordinator \<Rightarrow> coordinator option" where
  "preview_step e s =
     (case e of
        Arrive w \<Rightarrow> if w \<in> fst ` set (co_waiting s) then None else Some (refresh w s)
      | ReadGeneration i \<Rightarrow>
          if i < length (co_calls s) \<and> pc_at (co_calls s ! i) = Begun
          then Some (onCall i (\<lambda>c. c\<lparr>pc_at := GenerationRead (co_generation s)\<rparr>) s) else None
      | LoadSettings i \<Rightarrow>
          if i < length (co_calls s)
          then (case pc_at (co_calls s ! i) of
              GenerationRead g \<Rightarrow> Some (onCall i (\<lambda>c. c\<lparr>pc_at := Collecting g (co_settings s)\<rparr>) s)
            | _ \<Rightarrow> None) else None
      | Collected i ok \<Rightarrow>
          if i < length (co_calls s)
          then (case pc_at (co_calls s ! i) of
              Collecting g v \<Rightarrow> Some (onCall i (\<lambda>c. collectedPreview ok c g v) s)
            | _ \<Rightarrow> None) else None
      | Commit i ok \<Rightarrow>
          if i < length (co_calls s)
          then (case pc_at (co_calls s ! i) of Committing g v \<Rightarrow> Some (commitPreview i ok g v s) | _ \<Rightarrow> None) else None
      | Publish i \<Rightarrow>
          if i < length (co_calls s)
          then (case pc_at (co_calls s ! i) of Publishing r \<Rightarrow> Some (publish i r s) | _ \<Rightarrow> None) else None
      | Answer w i \<Rightarrow>
          if (w, i) \<in> set (co_waiting s) \<and> i < length (co_calls s) \<and> pc_completed (co_calls s ! i)
          then Some ((releaseCall i s)\<lparr>co_waiting := remove1 (w, i) (co_waiting s),
              co_answers := (w, i, pc_result (co_calls s ! i)) # co_answers s\<rparr>) else None
      | GiveUp w i \<Rightarrow>
          if (w, i) \<in> set (co_waiting s)
          then Some ((releaseCall i s)\<lparr>co_waiting := remove1 (w, i) (co_waiting s)\<rparr>) else None
      | StoreSettings \<Rightarrow> Some (s\<lparr>co_settings := Suc (co_settings s)\<rparr>)
      | Invalidate ok \<Rightarrow> Some (invalidatePreview ok s))"

inductive preview_reachable :: "coordinator \<Rightarrow> bool" where
  start: "preview_reachable newCoordinator"
| step: "preview_reachable s \<Longrightarrow> preview_step e s = Some s' \<Longrightarrow> preview_reachable s'"

fun preview_run :: "preview_event list \<Rightarrow> coordinator \<Rightarrow> coordinator option" where
  "preview_run [] s = Some s"
| "preview_run (e # es) s = (case preview_step e s of None \<Rightarrow> None | Some s' \<Rightarrow> preview_run es s')"

section \<open>Invariants\<close>

text \<open>A collection fails as cancelled only when every caller had given up.\<close>

definition cancel_inv :: "coordinator \<Rightarrow> bool" where
  "cancel_inv s \<longleftrightarrow>
     (\<forall>i<length (co_calls s).
        (pc_at (co_calls s ! i) = Publishing PreviewCancelled \<longrightarrow> pc_cancelled (co_calls s ! i)) \<and>
        (pc_completed (co_calls s ! i) \<and> pc_result (co_calls s ! i) = PreviewCancelled \<longrightarrow> pc_cancelled (co_calls s ! i)))"

definition waitersOn :: "nat \<Rightarrow> coordinator \<Rightarrow> nat" where
  "waitersOn i s = length (filter (\<lambda>x. snd x = i) (co_waiting s))"

text \<open>The counters count, the call in flight is alive and wanted, and every call that is neither completed nor cancelled is
  the one in flight.\<close>

definition call_ok :: "nat option \<Rightarrow> nat \<Rightarrow> nat \<Rightarrow> preview_call \<Rightarrow> bool" where
  "call_ok inflight n i c \<longleftrightarrow>
     pc_waiters c = n \<and> (pc_completed c \<longleftrightarrow> pc_at c = Finished) \<and> (pc_cancelled c \<longrightarrow> n = 0) \<and>
     (\<not> pc_completed c \<and> \<not> pc_cancelled c \<longrightarrow> inflight = Some i \<and> 0 < n)"

definition flight_inv :: "coordinator \<Rightarrow> bool" where
  "flight_inv s \<longleftrightarrow>
     (\<forall>x\<in>set (co_waiting s). snd x < length (co_calls s)) \<and>
     (\<forall>i<length (co_calls s). call_ok (co_inflight s) (waitersOn i s) i (co_calls s ! i)) \<and>
     (\<forall>i. co_inflight s = Some i \<longrightarrow> i < length (co_calls s) \<and> \<not> pc_completed (co_calls s ! i) \<and> \<not> pc_cancelled (co_calls s ! i))"

text \<open>What is delivered comes from a call nobody had cancelled.\<close>

definition answer_inv :: "coordinator \<Rightarrow> bool" where
  "answer_inv s \<longleftrightarrow>
     (\<forall>(w, i, r)\<in>set (co_answers s). i < length (co_calls s) \<and> pc_completed (co_calls s ! i) \<and>
        \<not> pc_cancelled (co_calls s ! i) \<and> r = pc_result (co_calls s ! i))"

definition fresh_at :: "coordinator \<Rightarrow> collect_pc \<Rightarrow> bool" where
  "fresh_at s p \<longleftrightarrow>
     (case p of
        GenerationRead g \<Rightarrow> g \<le> co_generation s
      | Collecting g v \<Rightarrow> g \<le> co_generation s \<and> v \<le> co_settings s \<and> (g = co_generation s \<longrightarrow> co_invalidated s \<le> v)
      | Committing g v \<Rightarrow> g \<le> co_generation s \<and> v \<le> co_settings s \<and> (g = co_generation s \<longrightarrow> co_invalidated s \<le> v)
      | _ \<Rightarrow> True)"

text \<open>No saved preview is older than the last invalidation.\<close>

definition saved_inv :: "coordinator \<Rightarrow> bool" where
  "saved_inv s \<longleftrightarrow>
     co_invalidated s \<le> co_settings s \<and> (\<forall>i<length (co_calls s). fresh_at s (pc_at (co_calls s ! i))) \<and>
     (\<forall>v. co_saved s = Some v \<longrightarrow> co_invalidated s \<le> v \<and> v \<le> co_settings s)"

lemma onCall_simps [simp]:
  "co_calls (onCall i f s) = (co_calls s)[i := f (co_calls s ! i)]" "co_inflight (onCall i f s) = co_inflight s"
  "co_waiting (onCall i f s) = co_waiting s" "co_answers (onCall i f s) = co_answers s" "co_generation (onCall i f s) = co_generation s"
  "co_settings (onCall i f s) = co_settings s" "co_invalidated (onCall i f s) = co_invalidated s" "co_saved (onCall i f s) = co_saved s"
  by (simp_all add: onCall_def)

lemma waitersOn_simps [simp]:
  "waitersOn i (s\<lparr>co_calls := cs\<rparr>) = waitersOn i s" "waitersOn i (s\<lparr>co_inflight := x\<rparr>) = waitersOn i s"
  "waitersOn i (s\<lparr>co_answers := a\<rparr>) = waitersOn i s" "waitersOn i (onCall j f s) = waitersOn i s"
  "waitersOn i (s\<lparr>co_waiting := ws\<rparr>) = length (filter (\<lambda>x. snd x = i) ws)"
  by (simp_all add: waitersOn_def onCall_def)

lemma waitersOn_remove:
  "(w, i) \<in> set (co_waiting s) \<Longrightarrow>
     length (filter (\<lambda>x. snd x = j) (remove1 (w, i) (co_waiting s))) = (if j = i then waitersOn i s - 1 else waitersOn j s)"
  by (auto simp: waitersOn_def filter_remove1 length_remove1)

lemma waitersOn_pos: "(w, i) \<in> set (co_waiting s) \<Longrightarrow> 0 < waitersOn i s"
  by (force simp: waitersOn_def length_pos_if_in_set filter_empty_conv)

lemma flightI:
  assumes "\<And>x. x \<in> set (co_waiting s) \<Longrightarrow> snd x < length (co_calls s)"
    and "\<And>i. i < length (co_calls s) \<Longrightarrow> call_ok (co_inflight s) (waitersOn i s) i (co_calls s ! i)"
    and "\<And>i. co_inflight s = Some i \<Longrightarrow> i < length (co_calls s) \<and> \<not> pc_completed (co_calls s ! i) \<and> \<not> pc_cancelled (co_calls s ! i)"
  shows "flight_inv s"
  using assms unfolding flight_inv_def by blast

lemma flightD:
  assumes "flight_inv s"
  shows "x \<in> set (co_waiting s) \<Longrightarrow> snd x < length (co_calls s)"
    and "i < length (co_calls s) \<Longrightarrow> call_ok (co_inflight s) (waitersOn i s) i (co_calls s ! i)"
    and "co_inflight s = Some i \<Longrightarrow> i < length (co_calls s) \<and> \<not> pc_completed (co_calls s ! i) \<and> \<not> pc_cancelled (co_calls s ! i)"
  using assms unfolding flight_inv_def by blast+

lemma flight_refresh:
  assumes inv: "flight_inv s"
  shows "flight_inv (refresh w s)"
proof (cases "co_inflight s")
  case None
  let ?n = "length (co_calls s)"
  have zero: "waitersOn ?n s = 0" using flightD(1) [OF inv] by (force simp: waitersOn_def filter_empty_conv)
  have r: "refresh w s = s\<lparr>co_calls := co_calls s @ [newCall], co_inflight := Some ?n, co_waiting := (w, ?n) # co_waiting s\<rparr>"
    by (simp add: refresh_def None)
  show ?thesis unfolding r
  proof (rule flightI)
    fix i assume "i < length (co_calls (s\<lparr>co_calls := co_calls s @ [newCall], co_inflight := Some ?n, co_waiting := (w, ?n) # co_waiting s\<rparr>))"
    then show "call_ok (co_inflight (s\<lparr>co_calls := co_calls s @ [newCall], co_inflight := Some ?n, co_waiting := (w, ?n) # co_waiting s\<rparr>))
        (waitersOn i (s\<lparr>co_calls := co_calls s @ [newCall], co_inflight := Some ?n, co_waiting := (w, ?n) # co_waiting s\<rparr>)) i
        (co_calls (s\<lparr>co_calls := co_calls s @ [newCall], co_inflight := Some ?n, co_waiting := (w, ?n) # co_waiting s\<rparr>) ! i)"
      using flightD(2) [OF inv, of i] zero None
      by (cases "i = ?n") (auto simp: call_ok_def newCall_def waitersOn_def nth_append)
  qed (use flightD(1) [OF inv] in \<open>auto simp: newCall_def less_Suc_eq\<close>)
next
  case (Some i)
  have i: "i < length (co_calls s)" "\<not> pc_completed (co_calls s ! i)" "\<not> pc_cancelled (co_calls s ! i)"
    using flightD(3) [OF inv Some] by auto
  have r: "refresh w s = (onCall i (\<lambda>c. c\<lparr>pc_waiters := Suc (pc_waiters c)\<rparr>) s)\<lparr>co_waiting := (w, i) # co_waiting s\<rparr>"
    by (simp add: refresh_def Some)
  show ?thesis unfolding r
  proof (rule flightI)
    fix j assume "j < length (co_calls ((onCall i (\<lambda>c. c\<lparr>pc_waiters := Suc (pc_waiters c)\<rparr>) s)\<lparr>co_waiting := (w, i) # co_waiting s\<rparr>))"
    then show "call_ok (co_inflight ((onCall i (\<lambda>c. c\<lparr>pc_waiters := Suc (pc_waiters c)\<rparr>) s)\<lparr>co_waiting := (w, i) # co_waiting s\<rparr>))
        (waitersOn j ((onCall i (\<lambda>c. c\<lparr>pc_waiters := Suc (pc_waiters c)\<rparr>) s)\<lparr>co_waiting := (w, i) # co_waiting s\<rparr>)) j
        (co_calls ((onCall i (\<lambda>c. c\<lparr>pc_waiters := Suc (pc_waiters c)\<rparr>) s)\<lparr>co_waiting := (w, i) # co_waiting s\<rparr>) ! j)"
      using flightD(2) [OF inv, of j] i Some by (cases "j = i") (auto simp: call_ok_def waitersOn_def)
  qed (use flightD(1) [OF inv] i Some in auto)
qed

lemma flight_release:
  assumes inv: "flight_inv s" and w: "(w, i) \<in> set (co_waiting s)"
  shows "flight_inv ((releaseCall i s)\<lparr>co_waiting := remove1 (w, i) (co_waiting s)\<rparr>)"
proof -
  let ?c = "co_calls s ! i"
  have i: "i < length (co_calls s)" using flightD(1) [OF inv w] by simp
  have pos: "0 < waitersOn i s" by (rule waitersOn_pos [OF w])
  have c: "call_ok (co_inflight s) (waitersOn i s) i ?c" by (rule flightD(2) [OF inv i])
  let ?s = "(releaseCall i s)\<lparr>co_waiting := remove1 (w, i) (co_waiting s)\<rparr>"
  show ?thesis
  proof (rule flightI)
    show "snd x < length (co_calls ?s)" if "x \<in> set (co_waiting ?s)" for x
      using that flightD(1) [OF inv, of x] set_remove1_subset [of "(w, i)" "co_waiting s"] by (auto simp: releaseCall_def Let_def)
    show "call_ok (co_inflight ?s) (waitersOn j ?s) j (co_calls ?s ! j)" if "j < length (co_calls ?s)" for j
    proof (cases "j = i")
      case True
      then show ?thesis using c i pos waitersOn_remove [OF w, of j] by (auto simp: releaseCall_def Let_def call_ok_def)
    next
      case False
      have j: "call_ok (co_inflight s) (waitersOn j s) j (co_calls s ! j)" using flightD(2) [OF inv] that by (simp add: releaseCall_def Let_def)
      then show ?thesis using c False waitersOn_remove [OF w, of j] pos by (auto simp: releaseCall_def Let_def call_ok_def)
    qed
    show "j < length (co_calls ?s) \<and> \<not> pc_completed (co_calls ?s ! j) \<and> \<not> pc_cancelled (co_calls ?s ! j)" if "co_inflight ?s = Some j" for j
    proof (cases "j = i")
      case True
      then show ?thesis using that flightD(3) [OF inv, of j] by (auto simp: releaseCall_def Let_def split: if_splits)
    next
      case False
      then show ?thesis using that flightD(3) [OF inv, of j] by (auto simp: releaseCall_def Let_def split: if_splits)
    qed
  qed
qed

lemma flight_at:
  assumes inv: "flight_inv s" and i: "i < length (co_calls s)" "pc_at (co_calls s ! i) \<noteq> Finished" and p: "p \<noteq> Finished"
  shows "flight_inv (onCall i (\<lambda>c. c\<lparr>pc_at := p\<rparr>) s)"
proof (rule flightI)
  show "call_ok (co_inflight (onCall i (\<lambda>c. c\<lparr>pc_at := p\<rparr>) s)) (waitersOn j (onCall i (\<lambda>c. c\<lparr>pc_at := p\<rparr>) s)) j
      (co_calls (onCall i (\<lambda>c. c\<lparr>pc_at := p\<rparr>) s) ! j)" if "j < length (co_calls (onCall i (\<lambda>c. c\<lparr>pc_at := p\<rparr>) s))" for j
    using flightD(2) [OF inv, of j] that i p by (cases "j = i") (simp_all add: call_ok_def)
  show "j < length (co_calls (onCall i (\<lambda>c. c\<lparr>pc_at := p\<rparr>) s)) \<and> \<not> pc_completed (co_calls (onCall i (\<lambda>c. c\<lparr>pc_at := p\<rparr>) s) ! j) \<and>
      \<not> pc_cancelled (co_calls (onCall i (\<lambda>c. c\<lparr>pc_at := p\<rparr>) s) ! j)" if "co_inflight (onCall i (\<lambda>c. c\<lparr>pc_at := p\<rparr>) s) = Some j" for j
    using flightD(3) [OF inv, of j] that i by (cases "j = i") simp_all
qed (use flightD(1) [OF inv] in simp)

lemma flight_publish:
  assumes inv: "flight_inv s" and i: "i < length (co_calls s)" "pc_at (co_calls s ! i) \<noteq> Finished"
  shows "flight_inv (publish i r s)"
proof (rule flightI)
  show "call_ok (co_inflight (publish i r s)) (waitersOn j (publish i r s)) j (co_calls (publish i r s) ! j)"
    if "j < length (co_calls (publish i r s))" for j
    using flightD(2) [OF inv, of j] that i by (cases "j = i") (auto simp: call_ok_def publish_def)
  show "j < length (co_calls (publish i r s)) \<and> \<not> pc_completed (co_calls (publish i r s) ! j) \<and> \<not> pc_cancelled (co_calls (publish i r s) ! j)"
    if "co_inflight (publish i r s) = Some j" for j
    using flightD(3) [OF inv, of j] that i by (cases "j = i") (auto simp: publish_def split: if_splits)
qed (use flightD(1) [OF inv] in \<open>simp add: publish_def\<close>)

lemma flight_fields [simp]:
  "flight_inv (s\<lparr>co_answers := a\<rparr>) = flight_inv s" "flight_inv (s\<lparr>co_settings := n\<rparr>) = flight_inv s"
  "flight_inv (s\<lparr>co_saved := v\<rparr>) = flight_inv s" "flight_inv (invalidatePreview ok s) = flight_inv s"
  by (simp_all add: flight_inv_def invalidatePreview_def waitersOn_def)

lemma releaseCall_answers: "(releaseCall i s)\<lparr>co_waiting := ws, co_answers := a\<rparr> = (releaseCall i s)\<lparr>co_waiting := ws\<rparr>\<lparr>co_answers := a\<rparr>"
  by simp

lemma onCall_at: "onCall i (\<lambda>c. c\<lparr>pc_at := g c\<rparr>) s = onCall i (\<lambda>c. c\<lparr>pc_at := g (co_calls s ! i)\<rparr>) s"
  by (simp add: onCall_def)

lemma flight_step:
  assumes "flight_inv s" "preview_step e s = Some s'"
  shows "flight_inv s'"
proof (cases e)
  case (Answer w i)
  then have "(w, i) \<in> set (co_waiting s)"
    and s': "s' = (releaseCall i s)\<lparr>co_waiting := remove1 (w, i) (co_waiting s)\<rparr>\<lparr>co_answers := (w, i, pc_result (co_calls s ! i)) # co_answers s\<rparr>"
    using assms(2) by (auto simp: preview_step_def split: if_splits)
  then show ?thesis unfolding s' flight_fields by (intro flight_release [OF assms(1)])
next
  case (Collected i ok)
  then obtain g v where "i < length (co_calls s)" "pc_at (co_calls s ! i) = Collecting g v"
    and s': "s' = onCall i (\<lambda>c. collectedPreview ok c g v) s"
    using assms(2) by (auto simp: preview_step_def split: if_splits collect_pc.splits)
  then show ?thesis unfolding s' collectedPreview_def by (subst onCall_at) (intro flight_at [OF assms(1)], auto)
next
  case (Commit i ok)
  then show ?thesis using assms flight_at [OF assms(1), of i]
    by (auto simp: preview_step_def commitPreview_def split: if_splits collect_pc.splits)
qed (use assms in \<open>auto simp: preview_step_def split: if_splits collect_pc.splits
    intro: flight_refresh flight_release flight_at flight_publish\<close>)

text \<open>What a step leaves of a call: one that is completed keeps its result, and nobody cancels it any more.\<close>

definition settledCall :: "preview_call \<Rightarrow> preview_call \<Rightarrow> bool" where
  "settledCall c c' \<longleftrightarrow> (pc_completed c \<longrightarrow> pc_completed c' \<and> pc_result c' = pc_result c \<and> pc_cancelled c' = pc_cancelled c)"

lemma nth_updated: "j < length xs \<Longrightarrow> xs[i := x] ! j = (if i = j then x else xs ! j)"
  by (cases "i = j") simp_all

lemma settled_step:
  assumes "flight_inv s" "preview_step e s = Some s'" "i < length (co_calls s)"
  shows "i < length (co_calls s') \<and> settledCall (co_calls s ! i) (co_calls s' ! i)"
proof -
  have fin: "pc_completed (co_calls s ! i) \<longleftrightarrow> pc_at (co_calls s ! i) = Finished"
    using flightD(2) [OF assms(1,3)] by (simp add: call_ok_def)
  show ?thesis
  proof (cases e)
    case (Publish j)
    then show ?thesis using assms(2,3) fin
      by (cases "j = i") (auto simp: preview_step_def publish_def settledCall_def split: if_splits collect_pc.splits)
  qed (use assms(2,3) in \<open>auto simp: preview_step_def refresh_def releaseCall_def collectedPreview_def commitPreview_def invalidatePreview_def Let_def
      settledCall_def nth_append nth_updated split: if_splits collect_pc.splits option.splits\<close>)
qed

lemma answer_step:
  assumes "flight_inv s" "answer_inv s" "preview_step e s = Some s'"
  shows "answer_inv s'"
proof -
  have old: "i < length (co_calls s') \<and> pc_completed (co_calls s' ! i) \<and> \<not> pc_cancelled (co_calls s' ! i) \<and> r = pc_result (co_calls s' ! i)"
    if "(w, i, r) \<in> set (co_answers s)" for w i r
    using assms(2) that settled_step [OF assms(1,3), of i] unfolding answer_inv_def settledCall_def by fastforce
  show ?thesis
  proof (cases e)
    case (Answer w i)
    then have a: "(w, i) \<in> set (co_waiting s)" "i < length (co_calls s)" "pc_completed (co_calls s ! i)"
      "co_answers s' = (w, i, pc_result (co_calls s ! i)) # co_answers s"
      using assms(3) by (auto simp: preview_step_def split: if_splits)
    have "\<not> pc_cancelled (co_calls s ! i)"
      using flightD(2) [OF assms(1) a(2)] waitersOn_pos [OF a(1)] by (simp add: call_ok_def)
    then show ?thesis using old a settled_step [OF assms(1,3) a(2)] by (auto simp: answer_inv_def settledCall_def)
  next
    case (Arrive w)
    then have "co_answers s' = co_answers s" using assms(3) by (auto simp: preview_step_def refresh_def split: if_splits option.splits)
    then show ?thesis using old by (auto simp: answer_inv_def)
  next
    case (Commit i ok)
    then have "co_answers s' = co_answers s"
      using assms(3) by (auto simp: preview_step_def commitPreview_def split: if_splits collect_pc.splits)
    then show ?thesis using old by (auto simp: answer_inv_def)
  qed (use assms(3) old in \<open>auto simp: preview_step_def answer_inv_def releaseCall_def publish_def invalidatePreview_def Let_def
      split: if_splits collect_pc.splits\<close>)
qed

lemma fresh_at_fields [simp]:
  "fresh_at (onCall i f s) = fresh_at s" "fresh_at (s\<lparr>co_inflight := x\<rparr>) = fresh_at s" "fresh_at (s\<lparr>co_waiting := ws\<rparr>) = fresh_at s"
  "fresh_at (s\<lparr>co_saved := v\<rparr>) = fresh_at s" "fresh_at (s\<lparr>co_answers := a\<rparr>) = fresh_at s" "fresh_at (s\<lparr>co_calls := cs\<rparr>) = fresh_at s"
  by (rule ext, simp add: fresh_at_def split: collect_pc.split)+

lemma saved_fields [simp]:
  "saved_inv (s\<lparr>co_inflight := x\<rparr>) = saved_inv s" "saved_inv (s\<lparr>co_waiting := ws\<rparr>) = saved_inv s"
  "saved_inv (s\<lparr>co_answers := a\<rparr>) = saved_inv s"
  by (simp_all add: saved_inv_def)

lemma saved_onCall:
  assumes "saved_inv s" "i < length (co_calls s) \<Longrightarrow> fresh_at s (pc_at (f (co_calls s ! i)))"
  shows "saved_inv (onCall i f s)"
  using assms unfolding saved_inv_def by (auto simp: nth_updated)

lemma fresh_kept: "saved_inv s \<Longrightarrow> i < length (co_calls s) \<Longrightarrow> fresh_at s (pc_at (co_calls s ! i))"
  by (simp add: saved_inv_def)

lemma saved_step:
  assumes inv: "saved_inv s" and step: "preview_step e s = Some s'"
  shows "saved_inv s'"
proof (cases e)
  case (Arrive w)
  have "fresh_at s (pc_at ((co_calls s @ [newCall]) ! i))" if "i < Suc (length (co_calls s))" for i
    using fresh_kept [OF inv] that by (cases "i = length (co_calls s)") (auto simp: nth_append newCall_def fresh_at_def)
  then have "saved_inv (s\<lparr>co_calls := co_calls s @ [newCall]\<rparr>)" using inv by (simp add: saved_inv_def)
  then show ?thesis using step Arrive inv saved_onCall [OF inv] fresh_kept [OF inv]
    by (auto simp: preview_step_def refresh_def saved_inv_def nth_updated split: if_splits option.splits)
next
  case (LoadSettings i)
  then obtain g where g: "i < length (co_calls s)" "pc_at (co_calls s ! i) = GenerationRead g"
    and s': "s' = onCall i (\<lambda>c. c\<lparr>pc_at := Collecting g (co_settings s)\<rparr>) s"
    using step by (auto simp: preview_step_def split: if_splits collect_pc.splits)
  show ?thesis unfolding s' by (rule saved_onCall [OF inv]) (use fresh_kept [OF inv g(1)] g inv in \<open>simp add: fresh_at_def saved_inv_def\<close>)
next
  case (Collected i ok)
  then obtain g v where g: "i < length (co_calls s)" "pc_at (co_calls s ! i) = Collecting g v" and s': "s' = onCall i (\<lambda>c. collectedPreview ok c g v) s"
    using step by (auto simp: preview_step_def split: if_splits collect_pc.splits)
  show ?thesis unfolding s' by (rule saved_onCall [OF inv]) (use fresh_kept [OF inv g(1)] g in \<open>simp add: fresh_at_def collectedPreview_def\<close>)
next
  case (Commit i ok)
  then obtain g v where g: "i < length (co_calls s)" "pc_at (co_calls s ! i) = Committing g v" and s': "s' = commitPreview i ok g v s"
    using step by (auto simp: preview_step_def split: if_splits collect_pc.splits)
  have published: "saved_inv (onCall i (\<lambda>c. c\<lparr>pc_at := Publishing r\<rparr>) s)" for r
    by (rule saved_onCall [OF inv]) (simp add: fresh_at_def)
  have "saved_inv ((onCall i (\<lambda>c. c\<lparr>pc_at := Publishing (Preview v)\<rparr>) s)\<lparr>co_saved := Some v\<rparr>)" if "g = co_generation s"
    using published [of "Preview v"] fresh_kept [OF inv g(1)] g(2) that unfolding saved_inv_def by (simp add: fresh_at_def)
  then show ?thesis using published unfolding s' commitPreview_def by simp
next
  case (Invalidate ok)
  have "fresh_at (invalidatePreview ok s) p" if "fresh_at s p" for p
    using that by (cases p) (auto simp: fresh_at_def invalidatePreview_def)
  then show ?thesis using inv step Invalidate by (cases ok) (auto simp: preview_step_def saved_inv_def invalidatePreview_def)
next
  case StoreSettings
  have "fresh_at (s\<lparr>co_settings := Suc (co_settings s)\<rparr>) p" if "fresh_at s p" for p
    using that by (cases p) (auto simp: fresh_at_def)
  then show ?thesis using inv step StoreSettings by (auto simp: preview_step_def saved_inv_def)
next
  case (ReadGeneration i)
  then show ?thesis using step saved_onCall [OF inv] by (auto simp: preview_step_def fresh_at_def split: if_splits)
next
  case (Publish i)
  then show ?thesis using step saved_onCall [OF inv] by (auto simp: preview_step_def publish_def fresh_at_def split: if_splits collect_pc.splits)
next
  case (Answer w i)
  then show ?thesis using step saved_onCall [OF inv] fresh_kept [OF inv] by (auto simp: preview_step_def releaseCall_def Let_def split: if_splits)
next
  case (GiveUp w i)
  then show ?thesis using step saved_onCall [OF inv] fresh_kept [OF inv] by (auto simp: preview_step_def releaseCall_def Let_def split: if_splits)
qed

lemma cancel_step:
  assumes "cancel_inv s" "flight_inv s" "preview_step e s = Some s'"
  shows "cancel_inv s'"
proof -
  have fin: "pc_completed (co_calls s ! i) \<longleftrightarrow> pc_at (co_calls s ! i) = Finished" if "i < length (co_calls s)" for i
    using flightD(2) [OF assms(2) that] by (simp add: call_ok_def)
  show ?thesis
    using assms(1,3) fin
    by (cases e) (auto simp: preview_step_def cancel_inv_def refresh_def releaseCall_def publish_def collectedPreview_def commitPreview_def
      invalidatePreview_def Let_def newCall_def nth_append nth_updated less_Suc_eq split: if_splits collect_pc.splits option.splits)
qed

lemma reachable_invs: "preview_reachable s \<Longrightarrow> flight_inv s \<and> answer_inv s \<and> saved_inv s \<and> cancel_inv s"
proof (induction rule: preview_reachable.induct)
  case start
  show ?case
    by (simp add: flight_inv_def answer_inv_def saved_inv_def cancel_inv_def newCoordinator_def)
next
  case (step s e s')
  then show ?case using flight_step answer_step saved_step cancel_step by blast
qed

section \<open>Everybody can be answered\<close>

definition answerable :: "nat \<Rightarrow> nat \<Rightarrow> coordinator \<Rightarrow> bool" where
  "answerable w i s \<longleftrightarrow> (\<exists>es s' r. preview_run es s = Some s' \<and> (w, i, r) \<in> set (co_answers s'))"

lemma answerable_step: "preview_step e s = Some s' \<Longrightarrow> answerable w i s' \<Longrightarrow> answerable w i s"
  unfolding answerable_def by (metis option.simps(5) preview_run.simps(2))

definition waitsAt :: "nat \<Rightarrow> nat \<Rightarrow> coordinator \<Rightarrow> bool" where
  "waitsAt w i s \<longleftrightarrow> (w, i) \<in> set (co_waiting s) \<and> i < length (co_calls s)"

lemma waitsAt_onCall [simp]: "waitsAt w i (onCall i f s) = waitsAt w i s" "waitsAt w i (s\<lparr>co_inflight := x\<rparr>) = waitsAt w i s"
    "waitsAt w i (s\<lparr>co_saved := v\<rparr>) = waitsAt w i s"
  by (simp_all add: waitsAt_def)

lemma answerable_completed:
  assumes "waitsAt w i s" "pc_completed (co_calls s ! i)"
  shows "answerable w i s"
  unfolding answerable_def
  by (rule exI [of _ "[Answer w i]"]) (use assms in \<open>auto simp: preview_step_def waitsAt_def\<close>)

lemma answerable_publishing:
  assumes "waitsAt w i s" "pc_at (co_calls s ! i) = Publishing r"
  shows "answerable w i s"
proof (rule answerable_step)
  show "preview_step (Publish i) s = Some (publish i r s)" using assms by (simp add: preview_step_def waitsAt_def)
  show "answerable w i (publish i r s)"
    by (rule answerable_completed) (use assms in \<open>auto simp: publish_def waitsAt_def\<close>)
qed

lemma answerable_collecting:
  assumes "waitsAt w i s" "pc_at (co_calls s ! i) = Collecting g v"
  shows "answerable w i s"
proof (rule answerable_step)
  show "preview_step (Collected i False) s = Some (onCall i (\<lambda>c. collectedPreview False c g v) s)"
    using assms by (simp add: preview_step_def waitsAt_def)
  show "answerable w i (onCall i (\<lambda>c. collectedPreview False c g v) s)"
    by (rule answerable_publishing [where r = CollectFailed]) (use assms in \<open>auto simp: collectedPreview_def waitsAt_def\<close>)
qed

lemma answerable_begun:
  assumes "waitsAt w i s" "pc_at (co_calls s ! i) = GenerationRead g"
  shows "answerable w i s"
proof (rule answerable_step)
  show "preview_step (LoadSettings i) s = Some (onCall i (\<lambda>c. c\<lparr>pc_at := Collecting g (co_settings s)\<rparr>) s)"
    using assms by (simp add: preview_step_def waitsAt_def)
  show "answerable w i (onCall i (\<lambda>c. c\<lparr>pc_at := Collecting g (co_settings s)\<rparr>) s)"
    by (rule answerable_collecting) (use assms in \<open>auto simp: waitsAt_def\<close>)
qed

lemma answerable_waiting:
  assumes "flight_inv s" "waitsAt w i s"
  shows "answerable w i s"
proof (cases "pc_at (co_calls s ! i)")
  case Begun
  show ?thesis
  proof (rule answerable_step)
    show "preview_step (ReadGeneration i) s = Some (onCall i (\<lambda>c. c\<lparr>pc_at := GenerationRead (co_generation s)\<rparr>) s)"
      using assms(2) Begun by (simp add: preview_step_def waitsAt_def)
    show "answerable w i (onCall i (\<lambda>c. c\<lparr>pc_at := GenerationRead (co_generation s)\<rparr>) s)"
      by (rule answerable_begun) (use assms(2) in \<open>auto simp: waitsAt_def\<close>)
  qed
next
  case (Committing g v)
  show ?thesis
  proof (rule answerable_step)
    show "preview_step (Commit i False) s = Some (commitPreview i False g v s)"
      using assms(2) Committing by (simp add: preview_step_def waitsAt_def)
    show "answerable w i (commitPreview i False g v s)"
      by (rule answerable_publishing [where r = "if g = co_generation s then SaveFailed else PreviewInvalidated"])
        (use assms(2) in \<open>auto simp: commitPreview_def waitsAt_def\<close>)
  qed
next
  case Finished
  then have "pc_completed (co_calls s ! i)" using flightD(2) [OF assms(1)] assms(2) by (simp add: waitsAt_def call_ok_def)
  then show ?thesis by (rule answerable_completed [OF assms(2)])
qed (use assms answerable_begun answerable_collecting answerable_publishing in auto)

section \<open>Properties\<close>

definition demo_preview_events :: "preview_event list" where
  "demo_preview_events = [Arrive 1, ReadGeneration 0, LoadSettings 0, Arrive 2, GiveUp 1 0, StoreSettings, Collected 0 True,
     Invalidate True, Commit 0 True, Publish 0, Answer 2 0, Arrive 3, ReadGeneration 1, LoadSettings 1, Collected 1 True, Commit 1 True]"

lemma preview_run_reachable: "preview_reachable s \<Longrightarrow> preview_run es s = Some s' \<Longrightarrow> preview_reachable s'"
  by (induction es arbitrary: s) (auto split: option.splits intro: preview_reachable.step)

lemma demo_preview_run:
  "(case preview_run demo_preview_events newCoordinator of None \<Rightarrow> ([], [], None)
    | Some s \<Rightarrow> (co_answers s, co_waiting s, co_saved s)) = ([(2, 0, PreviewInvalidated)], [(3, 1)], Some 1)"
  by code_simp

text \<open> C18. In every reachable state of the preview coordinator at most one collection is running that nobody has cancelled, no
  caller is ever given the cancellation of a collection that he had not given up himself, and every caller who waits can
  still be answered. \<close>

theorem shared_previews_answer_everyone:
  assumes "preview_reachable s"
  shows "(i < length (co_calls s) \<and> j < length (co_calls s) \<and> \<not> pc_completed (co_calls s ! i) \<and> \<not> pc_cancelled (co_calls s ! i) \<and>
      \<not> pc_completed (co_calls s ! j) \<and> \<not> pc_cancelled (co_calls s ! j) \<longrightarrow> i = j) \<and>
    ((w, i, r) \<in> set (co_answers s) \<longrightarrow> r \<noteq> PreviewCancelled) \<and>
    ((w, i) \<in> set (co_waiting s) \<longrightarrow>
      (\<exists>es s' r. preview_run es s = Some s' \<and> (w, i, r) \<in> set (co_answers s')))"
proof (intro conjI impI)
  have inv: "flight_inv s" "answer_inv s" "cancel_inv s" using reachable_invs [OF assms] by auto
  show "i = j" if "i < length (co_calls s) \<and> j < length (co_calls s) \<and> \<not> pc_completed (co_calls s ! i) \<and> \<not> pc_cancelled (co_calls s ! i) \<and>
      \<not> pc_completed (co_calls s ! j) \<and> \<not> pc_cancelled (co_calls s ! j)"
    using that flightD(2) [OF inv(1), of i] flightD(2) [OF inv(1), of j] by (simp add: call_ok_def)
  show "r \<noteq> PreviewCancelled" if "(w, i, r) \<in> set (co_answers s)"
    using that inv(2,3) unfolding answer_inv_def cancel_inv_def by fastforce
  show "\<exists>es s' r. preview_run es s = Some s' \<and> (w, i, r) \<in> set (co_answers s')" if "(w, i) \<in> set (co_waiting s)"
    using answerable_waiting [OF inv(1), of w i] flightD(1) [OF inv(1) that] that by (simp add: waitsAt_def answerable_def)
qed

theorem shared_previews_answer_everyone_witness:
  "\<exists>s. preview_run demo_preview_events newCoordinator = Some s \<and>
     (\<exists>es s' r. preview_run es s = Some s' \<and> (3, 1, r) \<in> set (co_answers s'))"
proof -
  obtain s where s: "preview_run demo_preview_events newCoordinator = Some s" "(3, 1) \<in> set (co_waiting s)"
    using demo_preview_run by (cases "preview_run demo_preview_events newCoordinator") auto
  show ?thesis
    using shared_previews_answer_everyone [OF preview_run_reachable [OF preview_reachable.start s(1)], of 0 0 3 PreviewCancelled]
      shared_previews_answer_everyone [OF preview_run_reachable [OF preview_reachable.start s(1)], of 1 1 3 PreviewCancelled] s by blast
qed

text \<open>A saved preview is never older than the last change of the settings that has invalidated previews: a collection that
  read the settings before that change is refused when it commits, however long it took.\<close>

lemma saved_previews_are_current:
  assumes "preview_reachable s" and "co_saved s = Some v"
  shows "co_invalidated s \<le> v \<and> v \<le> co_settings s"
  using reachable_invs [OF assms(1)] assms(2) by (simp add: saved_inv_def)

theorem saved_previews_are_current_witness:
  "\<exists>s. preview_run demo_preview_events newCoordinator = Some s \<and> co_saved s = Some 1 \<and> co_invalidated s \<le> 1 \<and> 1 \<le> co_settings s"
proof -
  obtain s where s: "preview_run demo_preview_events newCoordinator = Some s" "co_saved s = Some 1"
    using demo_preview_run by (cases "preview_run demo_preview_events newCoordinator") auto
  show ?thesis using saved_previews_are_current [OF preview_run_reachable [OF preview_reachable.start s(1)] s(2)] s by auto
qed

end
