(* ===== verification/Desktop_Reset.thy ===== *)
theory Desktop_Reset
  imports Fault_IO Provider_Config Safe_Paths
begin

text \<open>
  Removing the local setup (internal/desktop/reset.go): the checks, the stop of the running
  synchronization, the moves of the repository and of SyncHub's own files into staging directories, the
  removal of the credential, and the rollback.  Every operation can fail or be the last one of the process.
  A path is the list of its segments; the file system holds every node by its path, so a rename moves a
  whole tree.  The local variables that the rollback shares with the loop (\<open>moved\<close>, \<open>repoStaging\<close>,
  \<open>restoreDaemon\<close>) are fields of the state.  Errors that the rollback joins to its cause are not kept.
\<close>

section \<open>State\<close>

datatype reset_error =
    NotConfirmed | ResetCancelled | ResetIO | ResetConfig | ResetRepo resolver_error | RepoChanged | SyncRunning
  | UnsafeRepo | RepoInsideHome | OverlapsRetained string | ResetLink | ResetProviders | ResetSpecs build_error
  | OverlapsResource string | RepoNotADirectory | NotAClone | OriginUnknown | OriginDiffers | UnexpectedEntry string
  | ResetMetadata | StopTimeout | CloseFailed | StageFailed "string list" | CredentialFailed | CleanupFailed
  | RestoreFailed

record daemon_view =
  dm_job :: bool
  dm_paused :: bool
  dm_stopped :: bool
  dm_auto :: bool

record reset_state =
  rs_fs :: fsys
  rs_keyring :: "int list"
  rs_daemon :: "daemon_view option"
  rs_running :: bool
  rs_generation :: nat
  rs_summary :: bool
  rs_moved :: "(string list \<times> string list) list"
  rs_cloneStaging :: "string list option"
  rs_restore :: bool

record reset_env =
  re_home :: string
  re_goos :: string
  re_userHome :: string
  re_decode :: "string \<Rightarrow> config option"
  re_activeID :: "string \<Rightarrow> int option"
  re_providers :: "provider_def list option"
  re_library :: library_view
  re_origin :: "string list \<Rightarrow> string option option"
  re_stagingSuffix :: string
  re_cloneSuffix :: string

type_synonym 'a reset_io = "(reset_state, reset_error, 'a) io"

text \<open>Changes of memory: they cannot fail, and a dead process makes none.\<close>

definition memory :: "(reset_state \<Rightarrow> reset_state) \<Rightarrow> unit reset_io" where
  "memory f w = (if w_dead w then (Inl ResetIO, w) else (Inr (), w\<lparr>w_disk := f (w_disk w)\<rparr>))"

definition peek :: "(reset_state \<Rightarrow> 'a) \<Rightarrow> 'a reset_io" where
  "peek f w = (if w_dead w then (Inl ResetIO, w) else (Inr (f (w_disk w)), w))"

section \<open>File operations\<close>

definition below_root :: "string list \<Rightarrow> fsys \<Rightarrow> bool" where
  "below_root p fs = fBex (fmdom fs) (prefix p)"

definition relocate :: "string list \<Rightarrow> string list \<Rightarrow> string list \<Rightarrow> string list" where
  "relocate a b p = (if prefix a p then b @ drop (length a) p else p)"

definition relocateTree :: "string list \<Rightarrow> string list \<Rightarrow> fsys \<Rightarrow> fsys" where
  "relocateTree a b fs = fmap_of_list (map (\<lambda>p. (relocate a b p, the (fmlookup fs p))) (fm_keys fs))"

text \<open>The destinations used here are fresh; a rename onto something that exists is an error.\<close>

definition renamePath :: "string list \<Rightarrow> string list \<Rightarrow> unit reset_io" where
  "renamePath a b = tick ResetIO (\<lambda>s _. s) (\<lambda>s.
     if fmlookup (rs_fs s) a = None \<or> below_root b (rs_fs s) then (Inl ResetIO, s)
     else (Inr (), s\<lparr>rs_fs := relocateTree a b (rs_fs s)\<rparr>))"

definition isFile :: "fsys \<Rightarrow> string list \<Rightarrow> bool" where
  "isFile fs p = (case fmlookup fs p of Some (FileNode _) \<Rightarrow> True | _ \<Rightarrow> False)"

text \<open>\<open>os.Lstat\<close>: below a file there is an error.  A link among the parents is refused by the checks.\<close>

definition lstatPath :: "string list \<Rightarrow> node option reset_io" where
  "lstatPath p = read_tick ResetIO (\<lambda>s.
     if list_ex (isFile (rs_fs s)) (butlast (prefixes p)) then Inl ResetIO else Inr (fmlookup (rs_fs s) p))"

definition addDir :: "string list \<Rightarrow> fsys \<Rightarrow> fsys" where
  "addDir p fs = (if fmlookup fs p = None then fmupd p DirNode fs else fs)"

definition makeDirs :: "string list \<Rightarrow> unit reset_io" where
  "makeDirs p = tick ResetIO (\<lambda>s _. s) (\<lambda>s.
     if list_ex (isFile (rs_fs s)) (prefixes p) then (Inl ResetIO, s)
     else (Inr (), s\<lparr>rs_fs := fold addDir (prefixes p) (rs_fs s)\<rparr>))"

text \<open>\<open>os.MkdirTemp\<close> makes a directory of a name that is not taken.\<close>

definition makeTemp :: "string list \<Rightarrow> unit reset_io" where
  "makeTemp p = tick ResetIO (\<lambda>s _. s) (\<lambda>s.
     if below_root p (rs_fs s) then (Inl ResetIO, s) else (Inr (), s\<lparr>rs_fs := fmupd p DirNode (rs_fs s)\<rparr>))"

definition removeDir :: "string list \<Rightarrow> unit reset_io" where
  "removeDir p = tick ResetIO (\<lambda>s _. s) (\<lambda>s.
     if fmlookup (rs_fs s) p = None \<or> fBex (fmdom (rs_fs s)) (strict_prefix p) then (Inl ResetIO, s)
     else (Inr (), s\<lparr>rs_fs := fmdrop p (rs_fs s)\<rparr>))"

text \<open>\<open>os.RemoveAll\<close>; one that fails half-way has removed some of the nodes.\<close>

definition removeTree :: "string list \<Rightarrow> unit reset_io" where
  "removeTree p = tick CleanupFailed
     (\<lambda>s ns. s\<lparr>rs_fs := fmfilter (\<lambda>q. \<not> (prefix p q \<and> below q \<in> set ns)) (rs_fs s)\<rparr>)
     (\<lambda>s. (Inr (), s\<lparr>rs_fs := fmfilter (\<lambda>q. \<not> prefix p q) (rs_fs s)\<rparr>))"

section \<open>Checks\<close>

definition homeSegs :: "reset_env \<Rightarrow> string list" where
  "homeSegs env = absSegments (re_home env)"

definition sameCleanPath :: "string \<Rightarrow> string \<Rightarrow> bool" where
  "sameCleanPath l r \<longleftrightarrow> path_clean l = path_clean r"

definition resetArtifacts :: "string list" where
  "resetArtifacts = [''config.yaml'', ''state.json'', ''base'', ''conflicts'', ''conflict-resolution'',
     ''install'', ''desktop'', ''auth.json'', ''aliases.json'']"

definition retainedDirs :: "string list" where
  "retainedDirs = [''providers'', ''logs'', ''updates'', ''recovery'']"

definition resetContains :: "string list \<Rightarrow> string list \<Rightarrow> bool" where
  "resetContains parent child = pathWithinRoot parent child"

definition overlaps :: "string list \<Rightarrow> string list \<Rightarrow> bool" where
  "overlaps p q \<longleftrightarrow> resetContains p q \<or> resetContains q p"

definition isLink :: "fsys \<Rightarrow> string list \<Rightarrow> bool" where
  "isLink fs p = (case fmlookup fs p of Some (LinkNode _ _) \<Rightarrow> True | _ \<Rightarrow> False)"

text \<open>The path or one of its parents is a link, or lies below a file.\<close>

definition rejectResetLinks :: "fsys \<Rightarrow> string list \<Rightarrow> reset_error option" where
  "rejectResetLinks fs p =
     (if list_ex (isFile fs) (butlast (prefixes p)) then Some ResetIO
      else if list_ex (isLink fs) (prefixes p) then Some ResetLink else None)"

definition zeroConfig :: config where
  "zeroConfig = \<lparr>cfg_version = 0, cfg_repoURL = [], cfg_repoDir = [], cfg_interval = 0, cfg_trashGraceDays = 0,
     cfg_agents = fmempty, cfg_categories = fmempty, cfg_custom = [], cfg_firstSync = \<lparr>fs_strategy = [], fs_completed = False\<rparr>\<rparr>"

text \<open>\<open>config.Load\<close> as far as the reset looks at it: no settings at all are not an error here.\<close>

definition resetConfig :: "reset_env \<Rightarrow> string \<Rightarrow> fsys \<Rightarrow> reset_error + config" where
  "resetConfig env onboarding fs =
     (case fmlookup fs (homeSegs env @ [''config.yaml'']) of
        None \<Rightarrow> Inr (zeroConfig\<lparr>cfg_repoURL := onboarding\<rparr>)
      | Some (FileNode b) \<Rightarrow> (case re_decode env b of None \<Rightarrow> Inl ResetConfig | Some c \<Rightarrow> Inr (migrateConfig c))
      | Some _ \<Rightarrow> Inl ResetConfig)"

definition resetRepo :: "reset_env \<Rightarrow> config \<Rightarrow> reset_error + string" where
  "resetRepo env cfg = map_sum ResetRepo id (ResolveRepoDir (re_home env) cfg (re_goos env) (re_userHome env))"

definition specSources :: "(string, spec) fmap \<Rightarrow> string list" where
  "specSources specs = filter (\<lambda>p. p \<noteq> [])
     (concat (map (\<lambda>k. case fmlookup specs k of None \<Rightarrow> [] | Some s \<Rightarrow> sp_root s # sp_targets s) (fm_keys specs)))"

definition touchesResource :: "reset_env \<Rightarrow> string list \<Rightarrow> string \<Rightarrow> bool" where
  "touchesResource env repo source \<longleftrightarrow>
     resetContains repo (absSegments source) \<or>
     \<not> sameCleanPath source (re_userHome env) \<and> resetContains (absSegments source) repo"

definition checkResources :: "reset_env \<Rightarrow> config \<Rightarrow> string list \<Rightarrow> reset_error option" where
  "checkResources env cfg repo =
     (case re_providers env of None \<Rightarrow> Some ResetProviders | Some ps \<Rightarrow>
      case BuildResourceSpecs ((DefaultConfig (map pv_name ps))\<lparr>cfg_custom := cfg_custom cfg\<rparr>) ps (re_goos env) (re_userHome env)
          (re_library env) of
        Inl e \<Rightarrow> Some (ResetSpecs e)
      | Inr specs \<Rightarrow> map_option OverlapsResource (List.find (touchesResource env repo) (specSources specs)))"

definition entryNames :: "fsys \<Rightarrow> string list \<Rightarrow> string list" where
  "entryNames fs p = sort_unique (map (\<lambda>q. q ! length p) (filter (strict_prefix p) (fm_keys fs)))"

definition allowedEntries :: "string list" where
  "allowedEntries = [''.git'', ''.gitattributes'', ''manifest.json'', ''agents'', ''.trash'']"

definition checkClone :: "reset_env \<Rightarrow> config \<Rightarrow> fsys \<Rightarrow> string list \<Rightarrow> reset_error option" where
  "checkClone env cfg fs repo =
     (case fmlookup fs repo of
        None \<Rightarrow> None
      | Some DirNode \<Rightarrow>
          let names = entryNames fs repo in
          if names = [] then None
          else if fmlookup fs (repo @ [''.git'']) \<noteq> Some DirNode then Some NotAClone
          else let origin = (if repo = homeSegs env @ [''repo''] then None else
              case re_origin env repo of
                None \<Rightarrow> Some OriginUnknown
              | Some o' \<Rightarrow> if o' = None \<or> cfg_repoURL cfg = [] \<or> o' \<noteq> Some (cfg_repoURL cfg) then Some OriginDiffers else None) in
          if origin \<noteq> None then origin
          else (case List.find (\<lambda>n. n \<notin> set allowedEntries) names of
            Some n \<Rightarrow> Some (UnexpectedEntry n)
          | None \<Rightarrow> if list_ex (\<lambda>q. prefix repo q \<and> isLink fs q) (fm_keys fs) then Some ResetLink else None)
      | Some _ \<Rightarrow> Some RepoNotADirectory)"

definition validateResetClone :: "reset_env \<Rightarrow> config \<Rightarrow> fsys \<Rightarrow> string list \<Rightarrow> reset_error option" where
  "validateResetClone env cfg fs repo =
     (let home = homeSegs env in
      if repo = [] \<or> repo = absSegments (re_userHome env) \<or> resetContains repo home then Some UnsafeRepo
      else if resetContains home repo \<and> repo \<noteq> home @ [''repo''] then Some RepoInsideHome
      else case List.find (\<lambda>name. overlaps repo (home @ [name])) retainedDirs of
        Some name \<Rightarrow> Some (OverlapsRetained name)
      | None \<Rightarrow>
      case rejectResetLinks fs repo of Some e \<Rightarrow> Some e | None \<Rightarrow>
      case checkResources env cfg repo of Some e \<Rightarrow> Some e | None \<Rightarrow>
      checkClone env cfg fs repo)"

section \<open>Removing and putting back\<close>

definition stagingDir :: "reset_env \<Rightarrow> string list" where
  "stagingDir env = homeSegs env @ [''.reset-'' @ re_stagingSuffix env]"

definition cloneStaging :: "reset_env \<Rightarrow> string list \<Rightarrow> string list" where
  "cloneStaging env repo = butlast repo @ [''.synchub-reset-'' @ re_cloneSuffix env]"

definition indexNames :: "string list" where
  "indexNames = [''00'', ''01'', ''02'', ''03'', ''04'', ''05'', ''06'', ''07'', ''08'', ''09'']"

definition resetTargets :: "reset_env \<Rightarrow> string list \<Rightarrow> (string \<times> string list) list" where
  "resetTargets env repo = zip indexNames (repo # map (\<lambda>n. homeSegs env @ [n]) resetArtifacts)"

fun undoMoves :: "(string list \<times> string list) list \<Rightarrow> unit reset_io" where
  "undoMoves [] = ret ()"
| "undoMoves ((a, b) # ms) =
     attempt (renamePath b a) (\<lambda>r. case r of
       Inl _ \<Rightarrow> andThen (memory (\<lambda>s. s\<lparr>rs_restore := False\<rparr>)) (\<lambda>_. undoMoves ms)
     | Inr _ \<Rightarrow> undoMoves ms)"

definition rollback :: "reset_env \<Rightarrow> reset_error \<Rightarrow> unit reset_io" where
  "rollback env cause =
     andThen (memory (\<lambda>s. s\<lparr>rs_restore := True\<rparr>)) (\<lambda>_.
     andThen (peek rs_moved) (\<lambda>moved.
     andThen (undoMoves (rev moved)) (\<lambda>_.
     andThen (peek rs_cloneStaging) (\<lambda>clone.
     attempt (removeDir (stagingDir env)) (\<lambda>_.
     attempt (case clone of None \<Rightarrow> ret () | Some p \<Rightarrow> removeDir p) (\<lambda>_.
     raise cause))))))"

definition moveTarget :: "reset_env \<Rightarrow> string list \<Rightarrow> string list \<Rightarrow> unit reset_io" where
  "moveTarget env a b =
     attempt (renamePath a b) (\<lambda>r. case r of
       Inl _ \<Rightarrow> rollback env (StageFailed a)
     | Inr _ \<Rightarrow> memory (\<lambda>s. s\<lparr>rs_moved := rs_moved s @ [(a, b)], rs_restore := False\<rparr>))"

definition stageTarget :: "reset_env \<Rightarrow> string list \<Rightarrow> string \<times> string list \<Rightarrow> unit reset_io" where
  "stageTarget env repo = (\<lambda>(index, target).
     attempt (lstatPath target) (\<lambda>r. case r of
       Inl e \<Rightarrow> rollback env e
     | Inr None \<Rightarrow> ret ()
     | Inr (Some _) \<Rightarrow>
         if index = ''00'' then
           attempt (makeTemp (cloneStaging env repo)) (\<lambda>r. case r of
             Inl e \<Rightarrow> rollback env e
           | Inr _ \<Rightarrow> andThen (memory (\<lambda>s. s\<lparr>rs_cloneStaging := Some (cloneStaging env repo)\<rparr>))
               (\<lambda>_. moveTarget env target (cloneStaging env repo @ [''clone''])))
         else moveTarget env target (stagingDir env @ [index])))"

text \<open>The keyring reports a credential that is not there as not found, which is not a failure; a deletion that
  failed may have gone half-way.\<close>

definition forgetCredential :: "int \<Rightarrow> unit reset_io" where
  "forgetCredential i = tick CredentialFailed
     (\<lambda>s ns. if ns = [] then s else s\<lparr>rs_keyring := removeAll i (rs_keyring s)\<rparr>)
     (\<lambda>s. (Inr (), s\<lparr>rs_keyring := removeAll i (rs_keyring s)\<rparr>))"

definition dropCredential :: "reset_env \<Rightarrow> int \<Rightarrow> unit reset_io" where
  "dropCredential env active =
     (if active = 0 then ret ()
      else andThen (memory (\<lambda>s. s\<lparr>rs_restore := False\<rparr>)) (\<lambda>_.
        attempt (forgetCredential active) (\<lambda>r. case r of Inl _ \<Rightarrow> rollback env CredentialFailed | Inr _ \<Rightarrow> ret ())))"

definition cleanUp :: "reset_env \<Rightarrow> unit reset_io" where
  "cleanUp env =
     andThen (peek rs_cloneStaging) (\<lambda>clone.
     andThen (case clone of None \<Rightarrow> ret () | Some p \<Rightarrow> removeTree p) (\<lambda>_.
     andThen (removeTree (stagingDir env)) (\<lambda>_.
     memory (\<lambda>s. s\<lparr>rs_summary := False\<rparr>))))"

definition removeSetup :: "reset_env \<Rightarrow> string list \<Rightarrow> int \<Rightarrow> unit reset_io" where
  "removeSetup env repo active =
     andThen (memory (\<lambda>s. s\<lparr>rs_generation := Suc (rs_generation s), rs_moved := [], rs_cloneStaging := None, rs_restore := True\<rparr>)) (\<lambda>_.
     andThen (makeDirs (homeSegs env)) (\<lambda>_.
     andThen (makeTemp (stagingDir env)) (\<lambda>_.
     andThen (forEach (\<lambda>t _. stageTarget env repo t) (resetTargets env repo) ()) (\<lambda>_.
     andThen (dropCredential env active) (\<lambda>_.
     cleanUp env)))))"

section \<open>The reset\<close>

definition startConfigured :: "reset_env \<Rightarrow> unit reset_io" where
  "startConfigured env = tick RestoreFailed (\<lambda>s _. s) (\<lambda>s.
     if rs_daemon s \<noteq> None then (Inr (), s)
     else case fmlookup (rs_fs s) (homeSegs env @ [''config.yaml'']) of
       Some (FileNode b) \<Rightarrow> (case re_decode env b of
           None \<Rightarrow> (Inl RestoreFailed, s)
         | Some c \<Rightarrow> let fs = cfg_firstSync (migrateConfig c) in
             (Inr (), s\<lparr>rs_daemon := Some \<lparr>dm_job = False, dm_paused = False, dm_stopped = False,
                dm_auto = (\<not> (fs_strategy fs = ''choose'' \<and> \<not> fs_completed fs))\<rparr>\<rparr>))
     | _ \<Rightarrow> (Inl RestoreFailed, s))"

definition pauseDaemon :: "bool \<Rightarrow> reset_state \<Rightarrow> reset_state" where
  "pauseDaemon p s = s\<lparr>rs_daemon := map_option (\<lambda>v. v\<lparr>dm_paused := p\<rparr>) (rs_daemon s)\<rparr>"

text \<open>The loop that runs the daemon is cancelled first; then it is waited for.  A daemon that no loop has picked up yet is closed.\<close>

definition stopDaemon :: "reset_state \<Rightarrow> reset_state" where
  "stopDaemon s = s\<lparr>rs_daemon := map_option (\<lambda>v. v\<lparr>dm_stopped := True\<rparr>) (rs_daemon s)\<rparr>"

definition stopRun :: "unit reset_io" where
  "stopRun =
     andThen (peek id) (\<lambda>s.
       if rs_running s then tick StopTimeout (\<lambda>s _. stopDaemon s) (\<lambda>s. (Inr (), (stopDaemon s)\<lparr>rs_running := False\<rparr>))
       else if rs_daemon s \<noteq> None then tick CloseFailed (\<lambda>s _. s) (\<lambda>s. (Inr (), s))
       else ret ())"

text \<open>The account whose credential the profile remembers, 0 if there is none.\<close>

definition activeAccount :: "reset_env \<Rightarrow> fsys \<Rightarrow> reset_error + int" where
  "activeAccount env fs =
     (case fmlookup fs (homeSegs env @ [''auth.json'']) of
        None \<Rightarrow> Inr 0
      | Some (FileNode b) \<Rightarrow> (case re_activeID env b of None \<Rightarrow> Inl ResetMetadata | Some i \<Rightarrow> Inr i)
      | Some _ \<Rightarrow> Inl ResetMetadata)"

definition resetChecks :: "reset_env \<Rightarrow> config \<Rightarrow> string list \<Rightarrow> int reset_io" where
  "resetChecks env cfg repo =
     andThen (read_tick ResetIO (\<lambda>s. case validateResetClone env cfg (rs_fs s) repo of Some e \<Rightarrow> Inl e | None \<Rightarrow> Inr ())) (\<lambda>_.
     andThen (read_tick ResetMetadata (\<lambda>s. activeAccount env (rs_fs s))) (\<lambda>active.
     andThen (forEach (\<lambda>n _. read_tick ResetIO (\<lambda>s. case rejectResetLinks (rs_fs s) (homeSegs env @ [n]) of
         Some e \<Rightarrow> Inl e | None \<Rightarrow> Inr ())) resetArtifacts ()) (\<lambda>_.
     ret active)))"

definition restoreAfter :: "reset_env \<Rightarrow> daemon_view option \<Rightarrow> reset_error \<Rightarrow> unit reset_io" where
  "restoreAfter env d e =
     andThen (peek rs_restore) (\<lambda>restore.
       case d of
         None \<Rightarrow> raise e
       | Some v \<Rightarrow>
           if \<not> restore then raise e
           else andThen (startConfigured env) (\<lambda>_.
             andThen (memory (\<lambda>s. s\<lparr>rs_daemon := map_option (\<lambda>n. n\<lparr>dm_auto := False, dm_paused := dm_paused v\<rparr>) (rs_daemon s)\<rparr>)) (\<lambda>_.
             raise e)))"

definition stopAndRemove :: "reset_env \<Rightarrow> daemon_view option \<Rightarrow> string list \<Rightarrow> int \<Rightarrow> unit reset_io" where
  "stopAndRemove env d repo active =
     andThen stopRun (\<lambda>_.
     andThen (memory (\<lambda>s. s\<lparr>rs_daemon := None\<rparr>)) (\<lambda>_.
     attempt (removeSetup env repo active) (\<lambda>r. case r of
       Inl e \<Rightarrow> restoreAfter env d e
     | Inr _ \<Rightarrow> ret ())))"

definition checkedReset :: "reset_env \<Rightarrow> daemon_view option \<Rightarrow> config \<Rightarrow> string list \<Rightarrow> unit reset_io" where
  "checkedReset env d cfg repo =
     attempt (resetChecks env cfg repo) (\<lambda>r. case r of
       Inl e \<Rightarrow> (case d of
           None \<Rightarrow> raise e
         | Some v \<Rightarrow> if dm_paused v then raise e else andThen (memory (pauseDaemon False)) (\<lambda>_. raise e))
     | Inr active \<Rightarrow> stopAndRemove env d repo active)"

definition resetLocalSetup :: "reset_env \<Rightarrow> bool \<Rightarrow> string \<Rightarrow> string \<Rightarrow> string \<Rightarrow> unit reset_io" where
  "resetLocalSetup env cancelled confirmation confirmedRepo onboardingRepo =
     (if confirmation \<noteq> ''RESET'' then raise NotConfirmed
      else if cancelled then raise ResetCancelled
      else andThen (read_tick ResetIO (\<lambda>s. resetConfig env onboardingRepo (rs_fs s))) (\<lambda>cfg.
      case resetRepo env cfg of Inl e \<Rightarrow> raise e | Inr repo \<Rightarrow>
      if \<not> sameCleanPath repo confirmedRepo then raise RepoChanged
      else andThen (peek rs_daemon) (\<lambda>d.
        case d of
          None \<Rightarrow> checkedReset env d cfg (absSegments repo)
        | Some v \<Rightarrow>
            if dm_job v then raise SyncRunning
            else andThen (memory (pauseDaemon True)) (\<lambda>_. checkedReset env d cfg (absSegments repo)))))"

end
