(* ===== verification/Reset_Promises.thy ===== *)
theory Reset_Promises
  imports Desktop_Reset Fault_Logic
begin

text \<open>
  What a reset promises, whatever fails and wherever the process dies: nothing but the repository and
  SyncHub's own files is touched; until every one of them has been staged and the credential is gone, each
  of their nodes is at its place or at its staging place; and synchronization only starts again when
  everything is back.
\<close>

section \<open>Moving trees\<close>

definition unrelated :: "string list \<Rightarrow> string list \<Rightarrow> bool" where
  "unrelated p q \<longleftrightarrow> \<not> prefix p q \<and> \<not> prefix q p"

lemma unrelated_commute: "unrelated p q \<longleftrightarrow> unrelated q p"
  by (auto simp: unrelated_def)

lemma unrelated_below: "unrelated p q \<Longrightarrow> \<not> prefix p (q @ x)"
  unfolding unrelated_def by (metis prefixI prefix_same_cases)

lemma below_root_iff: "below_root p fs \<longleftrightarrow> (\<exists>q n. prefix p q \<and> fmlookup fs q = Some n)"
  by (auto simp: below_root_def fmlookup_dom_iff)

lemma below_root_append: "below_root (p @ q) fs \<Longrightarrow> below_root p fs"
  unfolding below_root_iff by (meson append_prefixD)

lemma relocate_inj:
  assumes "\<not> below_root b fs" "fmlookup fs p \<noteq> None" "fmlookup fs q \<noteq> None" "relocate a b p = relocate a b q"
  shows "p = q"
proof -
  have "\<not> prefix b p" "\<not> prefix b q" using assms(1-3) by (auto simp: below_root_iff)
  then show ?thesis using assms(4) by (auto simp: relocate_def prefix_def split: if_splits)
qed

lemma map_of_moved:
  assumes "\<not> below_root b fs"
  shows "fmlookup (relocateTree a b fs) q = Some n \<longleftrightarrow> (\<exists>p. fmlookup fs p = Some n \<and> q = relocate a b p)"
proof -
  let ?xs = "map (\<lambda>p. (relocate a b p, the (fmlookup fs p))) (fm_keys fs)"
  have "inj_on (relocate a b) (set (fm_keys fs))"
    by (rule inj_onI) (use relocate_inj [OF assms] in \<open>auto simp: fmlookup_dom_iff\<close>)
  then have "distinct (map fst ?xs)" by (simp add: distinct_map comp_def)
  then have "fmlookup (relocateTree a b fs) q = Some n \<longleftrightarrow> (q, n) \<in> set ?xs"
    by (simp add: relocateTree_def fmlookup_of_list)
  also have "\<dots> \<longleftrightarrow> (\<exists>p. fmlookup fs p = Some n \<and> q = relocate a b p)"
    by (auto simp: fmlookup_dom_iff image_iff)
  finally show ?thesis .
qed

lemma moved_node: "\<not> below_root b fs \<Longrightarrow> fmlookup fs p = Some n \<Longrightarrow> fmlookup (relocateTree a b fs) (relocate a b p) = Some n"
  by (auto simp: map_of_moved)

lemma moved_away:
  assumes "\<not> below_root b fs" "unrelated a b" "t = a \<or> unrelated t b \<and> fmlookup fs t = None"
  shows "fmlookup (relocateTree a b fs) t = None"
proof (cases "fmlookup (relocateTree a b fs) t")
  case (Some n)
  then obtain p where p: "fmlookup fs p = Some n" "t = relocate a b p" using assms(1) by (auto simp: map_of_moved)
  then show ?thesis using assms(2,3) by (cases "prefix a p") (auto simp: relocate_def unrelated_def, metis prefixI)
qed simp

section \<open>Where the nodes are\<close>

definition placedAt :: "(string list \<times> string list) list \<Rightarrow> string list \<Rightarrow> string list" where
  "placedAt K p = (case List.find (\<lambda>(a, b). prefix a p) K of None \<Rightarrow> p | Some (a, b) \<Rightarrow> b @ drop (length a) p)"

definition kept :: "fsys \<Rightarrow> (string list \<times> string list) list \<Rightarrow> fsys \<Rightarrow> bool" where
  "kept fs0 K fs \<longleftrightarrow> (\<forall>p n. fmlookup fs0 p = Some n \<longrightarrow> fmlookup fs (placedAt K p) = Some n)"

definition separate :: "fsys \<Rightarrow> (string list \<times> string list) list \<Rightarrow> bool" where
  "separate fs0 K \<longleftrightarrow>
     distinct K \<and> (\<forall>x\<in>set K. \<not> below_root (snd x) fs0 \<and>
       (\<forall>y\<in>set K. unrelated (fst x) (snd y) \<and> (x \<noteq> y \<longrightarrow> unrelated (fst x) (fst y) \<and> unrelated (snd x) (snd y))))"

lemma placed_Nil [simp]: "placedAt [] p = p"
  by (simp add: placedAt_def)

lemma find_append_case: "List.find P (xs @ ys) = (case List.find P xs of None \<Rightarrow> List.find P ys | r \<Rightarrow> r)"
  by (induction xs) auto

lemma placed_cases:
  obtains "placedAt K p = p" "\<forall>x\<in>set K. \<not> prefix (fst x) p" "List.find (\<lambda>(a, b). prefix a p) K = None"
  | a b where "(a, b) \<in> set K" "prefix a p" "placedAt K p = b @ drop (length a) p" "List.find (\<lambda>(a, b). prefix a p) K = Some (a, b)"
proof (cases "List.find (\<lambda>(a, b). prefix a p) K")
  case None
  then have "\<forall>x\<in>set K. \<not> prefix (fst x) p" by (force simp: find_None_iff)
  then show ?thesis using that(1) None by (simp add: placedAt_def)
next
  case (Some x)
  then have "x \<in> set K \<and> prefix (fst x) p" by (auto simp: find_Some_iff) (metis nth_mem)
  then show ?thesis using that(2) [of "fst x" "snd x"] Some by (cases x) (auto simp: placedAt_def)
qed

lemma placed_add:
  assumes "\<forall>x\<in>set K. unrelated a (snd x)"
  shows "relocate a b (placedAt K p) = placedAt (K @ [(a, b)]) p"
proof (cases rule: placed_cases [of K p])
  case 1
  then show ?thesis by (simp add: placedAt_def find_append_case relocate_def)
next
  case (2 a1 b1)
  then have "\<not> prefix a (b1 @ drop (length a1) p)" using assms unrelated_below by force
  then show ?thesis using 2 by (simp add: placedAt_def find_append_case relocate_def)
qed

lemma placed_undo:
  assumes sep: "separate fs0 (K1 @ (a, b) # K2)" and p: "fmlookup fs0 p = Some n"
  shows "relocate b a (placedAt (K1 @ (a, b) # K2) p) = placedAt (K1 @ K2) p"
proof -
  have other: "unrelated b (snd x) \<and> unrelated a (fst x)" if "x \<in> set K1 \<union> set K2" for x
  proof -
    have "x \<in> set (K1 @ (a, b) # K2)" "(a, b) \<in> set (K1 @ (a, b) # K2)" "x \<noteq> (a, b)"
      using sep that by (auto simp: separate_def)
    then have "unrelated (fst x) (fst (a, b)) \<and> unrelated (snd x) (snd (a, b))" using sep unfolding separate_def by blast
    then show ?thesis by (simp add: unrelated_commute)
  qed
  have fresh: "\<not> prefix b p" using sep p by (auto simp: separate_def below_root_iff)
  have elsewhere: "relocate b a (b1 @ x) = b1 @ x" if "(a1, b1) \<in> set K1 \<union> set K2" for a1 b1 x
    using other [OF that] unrelated_below by (force simp: relocate_def)
  show ?thesis
  proof (cases rule: placed_cases [of K1 p])
    case one: 1
    show ?thesis
    proof (cases "prefix a p")
      case True
      have "\<not> prefix (fst x) p" if "x \<in> set K2" for x
        using other [of x] that True by (auto simp: unrelated_def dest: prefix_same_cases)
      then have "List.find (\<lambda>(a, b). prefix a p) K2 = None" by (auto simp: find_None_iff)
      then show ?thesis using one True by (auto simp: placedAt_def find_append_case relocate_def prefix_def)
    next
      case False
      show ?thesis
      proof (cases rule: placed_cases [of K2 p])
        case 1
        then show ?thesis using one False fresh by (simp add: placedAt_def find_append_case relocate_def)
      next
        case (2 a1 b1)
        then show ?thesis using one False elsewhere [of a1 b1] by (simp add: placedAt_def find_append_case)
      qed
    qed
  next
    case (2 a1 b1)
    then show ?thesis using elsewhere [of a1 b1] by (simp add: placedAt_def find_append_case)
  qed
qed

lemma kept_add:
  assumes "kept fs0 K fs" "\<not> below_root b fs" "\<forall>x\<in>set K. unrelated a (snd x)"
  shows "kept fs0 (K @ [(a, b)]) (relocateTree a b fs)"
  using assms(1) moved_node [OF assms(2)] unfolding kept_def placed_add [OF assms(3), symmetric] by blast

lemma kept_undo:
  assumes "kept fs0 (K1 @ (a, b) # K2) fs" "\<not> below_root a fs" "separate fs0 (K1 @ (a, b) # K2)"
  shows "kept fs0 (K1 @ K2) (relocateTree b a fs)"
  unfolding kept_def
proof (intro allI impI)
  fix p n assume p: "fmlookup fs0 p = Some n"
  then have "fmlookup fs (placedAt (K1 @ (a, b) # K2) p) = Some n" using assms(1) by (simp add: kept_def)
  from moved_node [OF assms(2) this, of b] show "fmlookup (relocateTree b a fs) (placedAt (K1 @ K2) p) = Some n"
    by (simp add: placed_undo [OF assms(3) p])
qed

lemma separate_remove: "separate fs0 (K1 @ x # K2) \<Longrightarrow> separate fs0 (K1 @ K2)"
  by (auto simp: separate_def)

section \<open>The plan\<close>

definition stagedAt :: "reset_env \<Rightarrow> string list \<Rightarrow> string \<Rightarrow> string list" where
  "stagedAt env repo i = (if i = ''00'' then cloneStaging env repo @ [''clone''] else stagingDir env @ [i])"

definition validRepo :: "reset_env \<Rightarrow> string list \<Rightarrow> bool" where
  "validRepo env repo \<longleftrightarrow>
     repo \<noteq> [] \<and> \<not> prefix repo (homeSegs env) \<and> (prefix (homeSegs env) repo \<longrightarrow> repo = homeSegs env @ [''repo''])"

text \<open>The staging directory of the repository was free when it was made.\<close>

definition freeClone :: "reset_env \<Rightarrow> string list \<Rightarrow> bool" where
  "freeClone env repo \<longleftrightarrow> cloneStaging env repo \<noteq> repo \<and> \<not> prefix (cloneStaging env repo) (homeSegs env)"

lemma zip_partner:
  assumes "distinct xs" "distinct ys" "(x, y) \<in> set (zip xs ys)" "(x', y') \<in> set (zip xs ys)"
  shows "x = x' \<longleftrightarrow> y = y'"
  using assms by (auto simp: in_set_zip nth_eq_iff_index_eq)

lemma artifact_names: "distinct indexNames" "distinct resetArtifacts" "''repo'' \<notin> set resetArtifacts" "''00'' \<in> set indexNames"
    "length indexNames = Suc (length resetArtifacts)" "\<forall>n\<in>set resetArtifacts. hd n \<noteq> CHR ''.''"
    "\<forall>i\<in>set indexNames. i \<noteq> []"
  by code_simp+

lemma resetTargets_cases:
  assumes "(i, t) \<in> set (resetTargets env repo)"
  obtains "i = ''00''" "t = repo"
  | n where "i \<noteq> ''00''" "n \<in> set resetArtifacts" "t = homeSegs env @ [n]" "(i, n) \<in> set (zip (tl indexNames) resetArtifacts)"
proof -
  have split: "resetTargets env repo =
      (''00'', repo) # zip (tl indexNames) (map (\<lambda>n. homeSegs env @ [n]) resetArtifacts)"
    by (simp add: resetTargets_def indexNames_def)
  have "''00'' \<notin> set (tl indexNames)" by code_simp
  then show ?thesis using assms that
    unfolding split by (auto simp: zip_map2 dest: set_zip_leftD set_zip_rightD)
qed

lemma staging_names: "n \<in> set resetArtifacts \<Longrightarrow> n \<noteq> ''.reset-'' @ x" "n \<in> set resetArtifacts \<Longrightarrow> n \<noteq> ''.synchub-reset-'' @ x"
    "''repo'' \<noteq> ''.reset-'' @ x" "''.reset-'' @ x \<noteq> ''.synchub-reset-'' @ y"
  using artifact_names(6) by auto

text \<open>Targets and staging places never overlap.\<close>

lemma home_repo: "validRepo env repo \<Longrightarrow> prefix (homeSegs env) (butlast repo) \<Longrightarrow> butlast repo = homeSegs env"
  unfolding validRepo_def by (metis butlast_snoc prefix_order.trans prefixeq_butlast)

lemma unrelated_siblings: "n \<noteq> m \<Longrightarrow> unrelated (h @ n # xs) (h @ m # ys)"
  by (simp add: unrelated_def)

lemma unrelated_repo_home:
  assumes "validRepo env repo" "n \<noteq> ''repo''"
  shows "unrelated repo (homeSegs env @ n # xs)"
proof -
  have "repo = homeSegs env @ [''repo'']" if "prefix repo (homeSegs env @ n # xs) \<or> prefix (homeSegs env @ n # xs) repo"
    using that assms(1) unfolding validRepo_def by (metis append_prefixD prefixI prefix_same_cases)
  then show ?thesis using assms(2) by (auto simp: unrelated_def)
qed

lemma unrelated_home_clone:
  assumes valid: "validRepo env repo" and free: "freeClone env repo" and n: "n \<noteq> ''.synchub-reset-'' @ re_cloneSuffix env"
  shows "unrelated (homeSegs env @ n # xs) (cloneStaging env repo @ ys)"
proof -
  have "cloneStaging env repo = homeSegs env @ [''.synchub-reset-'' @ re_cloneSuffix env]"
    if "prefix (homeSegs env @ n # xs) (cloneStaging env repo @ ys) \<or> prefix (cloneStaging env repo @ ys) (homeSegs env @ n # xs)"
  proof -
    have "prefix (homeSegs env) (cloneStaging env repo) \<or> prefix (cloneStaging env repo) (homeSegs env)"
      using that by (meson append_prefixD prefixI prefix_same_cases)
    then have "prefix (homeSegs env) (cloneStaging env repo)" "cloneStaging env repo \<noteq> homeSegs env"
      using free by (auto simp: freeClone_def)
    then have "prefix (homeSegs env) (butlast repo)" by (auto simp: cloneStaging_def)
    then show ?thesis using home_repo [OF valid] by (simp add: cloneStaging_def)
  qed
  then show ?thesis using n by (auto simp: unrelated_def)
qed

lemma unrelated_repo_clone:
  assumes "validRepo env repo" "freeClone env repo"
  shows "unrelated repo (cloneStaging env repo @ ys)"
proof -
  have "length (cloneStaging env repo) = length repo" using assms(1) by (simp add: cloneStaging_def validRepo_def)
  then show ?thesis using assms(2) unfolding unrelated_def freeClone_def
    by (metis append_eq_append_conv prefix_def prefix_length_prefix prefix_order.antisym prefix_order.refl append_prefixD order_refl)
qed

lemmas plan_unrelated_simps = unrelated_siblings unrelated_repo_home unrelated_home_clone unrelated_repo_clone staging_names

lemma target_unrelated:
  assumes valid: "validRepo env repo" and i: "(i, t) \<in> set (resetTargets env repo)" and free: "k = ''00'' \<longrightarrow> freeClone env repo"
  shows "unrelated t (stagedAt env repo k)"
proof -
  have "unrelated (homeSegs env @ [n]) (stagedAt env repo k)" if "n \<in> set resetArtifacts" for n
    using that staging_names free valid
    by (cases "k = ''00''") (simp_all add: stagedAt_def stagingDir_def unrelated_siblings unrelated_home_clone)
  moreover have "unrelated repo (stagedAt env repo k)"
    using free valid staging_names(3) by (cases "k = ''00''") (simp_all add: stagedAt_def stagingDir_def unrelated_repo_home unrelated_repo_clone)
  ultimately show ?thesis using resetTargets_cases [OF i] by metis
qed

lemma targets_unrelated:
  assumes valid: "validRepo env repo" and i: "(i, t) \<in> set (resetTargets env repo)" and j: "(j, u) \<in> set (resetTargets env repo)"
    and "i \<noteq> j"
  shows "unrelated t u"
proof (use i in \<open>cases rule: resetTargets_cases\<close>)
  case one: 1
  show ?thesis using j by (cases rule: resetTargets_cases) (use assms(4) one valid artifact_names(3) in \<open>auto intro!: unrelated_repo_home\<close>)
next
  case one: (2 n)
  show ?thesis
  proof (use j in \<open>cases rule: resetTargets_cases\<close>)
    case 1
    then show ?thesis using one valid artifact_names(3) unfolding unrelated_commute [of t u] by (auto intro!: unrelated_repo_home)
  next
    case (2 m)
    have "distinct (tl indexNames)" by code_simp
    then show ?thesis using zip_partner [OF _ artifact_names(2) one(4) 2(4)] assms(4) one 2 by (auto simp: unrelated_siblings)
  qed
qed

lemma places_unrelated:
  assumes valid: "validRepo env repo" and free: "i = ''00'' \<or> j = ''00'' \<longrightarrow> freeClone env repo" and "i \<noteq> j"
  shows "unrelated (stagedAt env repo i) (stagedAt env repo j)"
proof -
  have clone: "unrelated (stagedAt env repo ''00'') (stagedAt env repo k)" if "freeClone env repo" "k \<noteq> ''00''" for k
    using that valid staging_names(4) unrelated_home_clone
    by (simp add: stagedAt_def stagingDir_def unrelated_commute [of "cloneStaging env repo @ _"])
  show ?thesis
    using assms(3) clone [of j] clone [of i] free unrelated_commute [of "stagedAt env repo i"]
    by (cases "i = ''00''"; cases "j = ''00''") (auto simp: stagedAt_def unrelated_siblings unrelated_def)
qed

section \<open>While targets are staged\<close>

definition planOf :: "reset_env \<Rightarrow> string list \<Rightarrow> (string \<times> string list) list \<Rightarrow> (string list \<times> string list) set" where
  "planOf env repo ts = (\<lambda>(i, t). (t, stagedAt env repo i)) ` {(i, t) \<in> set ts. i = ''00'' \<longrightarrow> freeClone env repo}"

lemma planOf_mono: "planOf env repo ts \<subseteq> planOf env repo (ts @ us)"
  by (auto simp: planOf_def)

lemma planOf_mem: "(i, t) \<in> set ts \<Longrightarrow> (i = ''00'' \<longrightarrow> freeClone env repo) \<Longrightarrow> (t, stagedAt env repo i) \<in> planOf env repo ts"
  unfolding planOf_def by (rule rev_image_eqI [of "(i, t)"]) simp_all

text \<open>Where every original node is, for some of the targets staged.\<close>

definition stagedNodes :: "reset_env \<Rightarrow> string list \<Rightarrow> fsys \<Rightarrow> (string list \<times> string list) list \<Rightarrow> fsys \<Rightarrow> bool" where
  "stagedNodes env repo fs0 K fs \<longleftrightarrow>
     kept fs0 K fs \<and> separate fs0 K \<and> set K \<subseteq> planOf env repo (resetTargets env repo)"

text \<open>No original node lies in a staging directory.\<close>

definition dirsFree :: "reset_env \<Rightarrow> string list \<Rightarrow> fsys \<Rightarrow> reset_state \<Rightarrow> bool" where
  "dirsFree env repo fs0 s \<longleftrightarrow> \<not> below_root (stagingDir env) fs0 \<and>
     (\<forall>p. rs_cloneStaging s = Some p \<longrightarrow> p = cloneStaging env repo \<and> freeClone env repo \<and> \<not> below_root p fs0)"

definition stagedSafe :: "reset_env \<Rightarrow> string list \<Rightarrow> fsys \<Rightarrow> reset_state \<Rightarrow> bool" where
  "stagedSafe env repo fs0 s \<longleftrightarrow>
     (\<exists>K. stagedNodes env repo fs0 K (rs_fs s) \<and> (rs_restore s \<longrightarrow> K = [])) \<and> rs_daemon s = None \<and> dirsFree env repo fs0 s"

definition stagedCrash :: "reset_env \<Rightarrow> string list \<Rightarrow> fsys \<Rightarrow> reset_state \<Rightarrow> bool" where
  "stagedCrash env repo fs0 s \<longleftrightarrow> (\<exists>K. stagedNodes env repo fs0 K (rs_fs s))"

definition goneAll :: "(string \<times> string list) list \<Rightarrow> fsys \<Rightarrow> bool" where
  "goneAll ts fs \<longleftrightarrow> (\<forall>(i, t)\<in>set ts. fmlookup fs t = None)"

definition stagedMoved :: "reset_env \<Rightarrow> string list \<Rightarrow> fsys \<Rightarrow> reset_state \<Rightarrow> bool" where
  "stagedMoved env repo fs0 s \<longleftrightarrow>
     stagedNodes env repo fs0 (rs_moved s) (rs_fs s) \<and> rs_daemon s = None \<and> dirsFree env repo fs0 s"

definition staging :: "reset_env \<Rightarrow> string list \<Rightarrow> fsys \<Rightarrow> (string \<times> string list) list \<Rightarrow> reset_state \<Rightarrow> bool" where
  "staging env repo fs0 rest s \<longleftrightarrow>
     (\<exists>before. resetTargets env repo = before @ rest \<and> goneAll before (rs_fs s) \<and> set (rs_moved s) \<subseteq> planOf env repo before) \<and>
     stagedMoved env repo fs0 s \<and> (rs_moved s = [] \<longrightarrow> fmlookup (rs_fs s) (homeSegs env) \<noteq> None) \<and>
     (rs_restore s \<longrightarrow> rs_moved s = [])"

lemma lawful_memory [lawful_intros]: "lawful (memory f)"
  by (auto simp: lawful_def memory_def)

lemma lawful_peek [lawful_intros]: "lawful (peek f)"
  by (auto simp: lawful_def peek_def)

lemma lawful_operations [lawful_intros]:
  "lawful (renamePath a b)" "lawful (lstatPath a)" "lawful (makeDirs a)" "lawful (makeTemp a)" "lawful (removeDir a)"
  "lawful (removeTree a)" "lawful (forgetCredential i)" "lawful (startConfigured env)"
  by (simp_all add: renamePath_def lstatPath_def makeDirs_def makeTemp_def removeDir_def removeTree_def forgetCredential_def
      startConfigured_def lawful_intros)

lemma lawful_undo [lawful_intros]: "lawful (undoMoves ms)"
  by (induction ms rule: undoMoves.induct) (auto intro!: lawful_intros split: sum.split)

lemma lawful_resetRollback [lawful_intros]: "lawful (rollback env e)"
  unfolding rollback_def by (auto intro!: lawful_intros split: option.split)

lemma lawful_moveTarget [lawful_intros]: "lawful (moveTarget env a b)"
  unfolding moveTarget_def by (auto intro!: lawful_intros split: sum.split)

lemma lawful_stageTarget [lawful_intros]: "lawful (stageTarget env repo x)"
  unfolding stageTarget_def by (auto intro!: lawful_intros split: sum.split option.split prod.split)

lemma lawful_dropCredential [lawful_intros]: "lawful (dropCredential env i)"
  unfolding dropCredential_def by (auto intro!: lawful_intros split: sum.split)

lemma lawful_cleanUp [lawful_intros]: "lawful (cleanUp env)"
  unfolding cleanUp_def by (auto intro!: lawful_intros split: option.split)

lemma lawful_removeSetup [lawful_intros]: "lawful (removeSetup env repo i)"
  unfolding removeSetup_def by (auto intro!: lawful_intros)

lemma outcome_memory:
  "(\<And>s. P s \<Longrightarrow> Q () (f s)) \<Longrightarrow> outcome_valid P (memory f) Q E C"
  by (simp add: outcome_valid_def memory_def)

lemma outcome_peek: "(\<And>s. P s \<Longrightarrow> Q (f s) s) \<Longrightarrow> outcome_valid P (peek f) Q E C"
  by (simp add: outcome_valid_def peek_def)

lemma staged_undo:
  assumes "stagedNodes env repo fs0 (K1 @ (a, b) # K2) fs" "\<not> below_root a fs"
  shows "stagedNodes env repo fs0 (K1 @ K2) (relocateTree b a fs)"
  using assms kept_undo separate_remove unfolding stagedNodes_def by (auto simp del: split_paired_All)

lemmas staged_undo_last = staged_undo [of _ _ _ _ _ _ "[]", simplified]

lemma dirsFree_update [simp]:
  "dirsFree env repo fs0 (s\<lparr>rs_fs := x\<rparr>) = dirsFree env repo fs0 s" "dirsFree env repo fs0 (s\<lparr>rs_restore := b\<rparr>) = dirsFree env repo fs0 s"
  "dirsFree env repo fs0 (s\<lparr>rs_moved := ms\<rparr>) = dirsFree env repo fs0 s" "dirsFree env repo fs0 (s\<lparr>rs_keyring := k\<rparr>) = dirsFree env repo fs0 s"
  by (simp_all add: dirsFree_def)

lemma outcome_undo:
  "outcome_valid (\<lambda>s. stagedNodes env repo fs0 (rev ms @ L) (rs_fs s) \<and> (rs_restore s \<longrightarrow> L = []) \<and> rs_daemon s = None \<and> dirsFree env repo fs0 s)
     (undoMoves ms) (\<lambda>_. stagedSafe env repo fs0) E (stagedCrash env repo fs0)"
proof (induction ms arbitrary: L)
  case Nil
  show ?case by (auto intro!: outcome_ret simp: stagedSafe_def)
next
  case (Cons x ms)
  obtain a b where x: "x = (a, b)" by (cases x)
  show ?case unfolding x undoMoves.simps
  proof (rule outcome_attempt)
    show "outcome_valid (\<lambda>s. stagedNodes env repo fs0 (rev ((a, b) # ms) @ L) (rs_fs s) \<and> (rs_restore s \<longrightarrow> L = []) \<and> rs_daemon s = None \<and> dirsFree env repo fs0 s)
        (renamePath b a)
        (\<lambda>_ s. stagedNodes env repo fs0 (rev ms @ L) (rs_fs s) \<and> (rs_restore s \<longrightarrow> L = []) \<and> rs_daemon s = None \<and> dirsFree env repo fs0 s)
        (\<lambda>_ s. stagedNodes env repo fs0 (rev ms @ (a, b) # L) (rs_fs s) \<and> rs_daemon s = None \<and> dirsFree env repo fs0 s) (stagedCrash env repo fs0)"
      unfolding renamePath_def
      by (rule outcome_tick) (auto simp: stagedCrash_def split: if_splits intro: staged_undo staged_undo_last)
    show "outcome_valid (\<lambda>s. stagedNodes env repo fs0 (rev ms @ (a, b) # L) (rs_fs s) \<and> rs_daemon s = None \<and> dirsFree env repo fs0 s)
        (case Inl e of Inl _ \<Rightarrow> andThen (memory (\<lambda>s. s\<lparr>rs_restore := False\<rparr>)) (\<lambda>_. undoMoves ms) | Inr _ \<Rightarrow> undoMoves ms)
        (\<lambda>_. stagedSafe env repo fs0) E (stagedCrash env repo fs0)" for e :: reset_error
      unfolding sum.case
      by (rule outcome_andThen [OF outcome_memory Cons.IH [of "(a, b) # L"]]) (auto intro: lawful_intros)
  qed (auto intro!: lawful_intros Cons.IH split: sum.split)
qed

lemma unrelated_dirs:
  "validRepo env repo \<Longrightarrow> freeClone env repo \<Longrightarrow> unrelated (stagingDir env @ xs) (cloneStaging env repo @ ys)"
  using unrelated_home_clone [of env repo "''.reset-'' @ re_stagingSuffix env" xs ys] staging_names(4) by (simp add: stagingDir_def)

text \<open>A staging directory that is empty holds nothing of the setup.\<close>

lemma staged_rmdir:
  assumes valid: "validRepo env repo" and st: "stagedNodes env repo fs0 K fs"
    and q: "q = stagingDir env \<or> q = cloneStaging env repo \<and> freeClone env repo" "\<not> below_root q fs0"
  shows "stagedNodes env repo fs0 K (fmdrop q fs)"
proof -
  have "placedAt K p \<noteq> q" if p: "fmlookup fs0 p = Some n" for p n
  proof (cases rule: placed_cases [of K p])
    case 1
    then show ?thesis using p q(2) by (auto simp: below_root_iff)
  next
    case (2 a b)
    then obtain i where i: "b = stagedAt env repo i" "i = ''00'' \<longrightarrow> freeClone env repo"
      using st by (auto simp: stagedNodes_def planOf_def)
    have "\<not> prefix b q"
    proof (cases "i = ''00''")
      case True
      then show ?thesis using i q(1) unrelated_dirs [OF valid, of "[]"] by (auto simp: stagedAt_def unrelated_def)
    next
      case False
      then show ?thesis using i q(1) unrelated_dirs [OF valid, of "[i]" "[]"] by (auto simp: stagedAt_def unrelated_def)
    qed
    then show ?thesis using 2 by auto
  qed
  then show ?thesis using st by (auto simp: stagedNodes_def kept_def)
qed

lemma outcome_removeDir:
  assumes "validRepo env repo" "q = stagingDir env \<or> q = cloneStaging env repo \<and> freeClone env repo" "\<not> below_root q fs0"
  shows "outcome_valid (stagedSafe env repo fs0) (removeDir q) (\<lambda>_. stagedSafe env repo fs0) (\<lambda>_. stagedSafe env repo fs0) (stagedCrash env repo fs0)"
  unfolding removeDir_def
  by (rule outcome_tick) (auto simp: stagedSafe_def stagedCrash_def split: if_splits intro: staged_rmdir [OF assms(1) _ assms(2,3)])

lemma outcome_removeDirs:
  assumes "validRepo env repo"
  shows "outcome_valid (\<lambda>s. stagedSafe env repo fs0 s \<and> rs_cloneStaging s = clone)
    (attempt (removeDir (stagingDir env)) (\<lambda>_. attempt (case clone of None \<Rightarrow> ret () | Some p \<Rightarrow> removeDir p) (\<lambda>_. raise e)))
    Q (\<lambda>_. stagedSafe env repo fs0) (stagedCrash env repo fs0)"
proof (cases "\<exists>s. stagedSafe env repo fs0 s \<and> rs_cloneStaging s = clone")
  case True
  then have free: "\<not> below_root (stagingDir env) fs0"
    "\<And>p. clone = Some p \<Longrightarrow> p = cloneStaging env repo \<and> freeClone env repo \<and> \<not> below_root p fs0"
    by (auto simp: stagedSafe_def dirsFree_def)
  let ?S = "stagedSafe env repo fs0"
  have second: "outcome_valid ?S (case clone of None \<Rightarrow> ret () | Some p \<Rightarrow> removeDir p) (\<lambda>_. ?S) (\<lambda>_. ?S) (stagedCrash env repo fs0)"
    using free(2) by (cases clone) (auto intro!: outcome_ret outcome_removeDir [OF assms])
  show ?thesis
    by (rule outcome_weaken [OF outcome_attempt [OF outcome_removeDir [OF assms disjI1 [OF refl] free(1)]
          outcome_attempt [OF second outcome_raise outcome_raise] outcome_attempt [OF second outcome_raise outcome_raise]]])
      (auto intro!: lawful_intros split: option.split)
next
  case False
  then show ?thesis by (auto simp: outcome_valid_def)
qed

lemma outcome_rollback:
  assumes "validRepo env repo"
  shows "outcome_valid (stagedMoved env repo fs0) (rollback env e) Q (\<lambda>_. stagedSafe env repo fs0) (stagedCrash env repo fs0)"
proof -
  let ?S = "stagedSafe env repo fs0" and ?C = "stagedCrash env repo fs0"
  let ?M = "\<lambda>moved s. stagedNodes env repo fs0 moved (rs_fs s) \<and> rs_daemon s = None \<and> dirsFree env repo fs0 s"
  have undoing: "outcome_valid (?M moved) (undoMoves (rev moved)) (\<lambda>_. ?S) E ?C" for moved and E :: "reset_error \<Rightarrow> reset_state \<Rightarrow> bool"
    by (rule outcome_weaken [OF outcome_undo [where L = "[]"]]) simp_all
  have peeking: "outcome_valid ?S (peek rs_cloneStaging) (\<lambda>clone s. ?S s \<and> rs_cloneStaging s = clone) E ?C" for E :: "reset_error \<Rightarrow> reset_state \<Rightarrow> bool"
    by (rule outcome_peek) simp
  have first: "outcome_valid (stagedMoved env repo fs0) (peek rs_moved) ?M E ?C" for E :: "reset_error \<Rightarrow> reset_state \<Rightarrow> bool"
    by (rule outcome_peek) (simp add: stagedMoved_def)
  have mark: "outcome_valid (stagedMoved env repo fs0) (memory (\<lambda>s. s\<lparr>rs_restore := True\<rparr>)) (\<lambda>_. stagedMoved env repo fs0) E ?C"
    for E :: "reset_error \<Rightarrow> reset_state \<Rightarrow> bool"
    by (rule outcome_memory) (simp add: stagedMoved_def)
  show ?thesis unfolding rollback_def
    by (rule outcome_andThen [OF mark outcome_andThen [OF first outcome_andThen [OF undoing outcome_andThen [OF peeking outcome_removeDirs [OF assms]]]]])
      (auto intro!: lawful_intros split: option.split)
qed

lemma resetTargets_distinct: "resetTargets env repo = before @ (i, t) # rest \<Longrightarrow> (j, u) \<in> set before \<Longrightarrow> j \<noteq> i"
proof -
  assume split: "resetTargets env repo = before @ (i, t) # rest" and j: "(j, u) \<in> set before"
  have "distinct (map fst (resetTargets env repo))"
    using artifact_names(1,5) by (simp add: resetTargets_def map_fst_zip_take distinct_take)
  then show ?thesis using j by (force simp: split)
qed

lemma first_target: "resetTargets env repo = before @ (''00'', t) # rest \<Longrightarrow> before = [] \<and> t = repo"
proof -
  assume split: "resetTargets env repo = before @ (''00'', t) # rest"
  have hd: "hd (before @ (''00'', t) # rest) = (''00'', repo)"
    unfolding split [symmetric] by (simp add: resetTargets_def indexNames_def)
  show ?thesis
  proof (cases before)
    case (Cons x xs)
    then show ?thesis using hd resetTargets_distinct [OF split, of "''00''" repo] by simp
  qed (use hd in simp)
qed

lemma staged_add:
  assumes valid: "validRepo env repo" and split: "resetTargets env repo = before @ (i, t) # rest"
    and K: "set K \<subseteq> planOf env repo before" and st: "stagedNodes env repo fs0 K fs" and free: "i = ''00'' \<longrightarrow> freeClone env repo"
    and fresh: "\<not> below_root (stagedAt env repo i) fs" "\<not> below_root (stagedAt env repo i) fs0"
  shows "stagedNodes env repo fs0 (K @ [(t, stagedAt env repo i)]) (relocateTree t (stagedAt env repo i) fs)"
proof -
  let ?b = "stagedAt env repo i"
  have mem: "(i, t) \<in> set (resetTargets env repo)" by (simp add: split)
  have old: "unrelated t (snd x) \<and> unrelated (fst x) ?b \<and> unrelated t (fst x) \<and> unrelated (snd x) ?b" if x: "x \<in> set K" for x
  proof -
    obtain j u where x: "x = (u, stagedAt env repo j)" "(j, u) \<in> set before" "j = ''00'' \<longrightarrow> freeClone env repo"
      using subsetD [OF K x] by (auto simp: planOf_def)
    have j: "(j, u) \<in> set (resetTargets env repo)" "i \<noteq> j" using x(2) resetTargets_distinct [OF split x(2)] by (auto simp: split)
    show ?thesis
      using target_unrelated [OF valid mem] target_unrelated [OF valid j(1)] targets_unrelated [OF valid mem j] places_unrelated [OF valid, of j i]
        j(2) free x(1,3) by auto
  qed
  have self: "unrelated t ?b" by (rule target_unrelated [OF valid mem free])
  have "kept fs0 (K @ [(t, ?b)]) (relocateTree t ?b fs)" using st old by (intro kept_add [OF _ fresh(1)]) (auto simp: stagedNodes_def)
  moreover have "separate fs0 (K @ [(t, ?b)])"
  proof -
    have "(t, ?b) \<notin> set K" using old [of "(t, ?b)"] by (auto simp: unrelated_def)
    then show ?thesis using st self fresh(2) old unfolding stagedNodes_def separate_def by (auto simp: unrelated_commute)
  qed
  moreover have "set (K @ [(t, ?b)]) \<subseteq> planOf env repo (resetTargets env repo)"
    using st planOf_mem [of i t "resetTargets env repo" env repo] mem free by (simp add: stagedNodes_def)
  ultimately show ?thesis by (simp add: stagedNodes_def)
qed

lemma staging_move:
  assumes valid: "validRepo env repo" and st: "staging env repo fs0 ((i, t) # rest) s"
    and free: "i = ''00'' \<longrightarrow> rs_cloneStaging s = Some (cloneStaging env repo)" and fresh: "\<not> below_root (stagedAt env repo i) (rs_fs s)"
  shows "staging env repo fs0 rest (s\<lparr>rs_fs := relocateTree t (stagedAt env repo i) (rs_fs s),
    rs_moved := rs_moved s @ [(t, stagedAt env repo i)], rs_restore := False\<rparr>)"
proof -
  obtain before where split: "resetTargets env repo = before @ (i, t) # rest" and gone: "goneAll before (rs_fs s)"
    and K: "set (rs_moved s) \<subseteq> planOf env repo before" using st by (auto simp: staging_def)
  have free': "i = ''00'' \<longrightarrow> freeClone env repo" "\<not> below_root (stagedAt env repo i) fs0"
  proof -
    have dirs: "dirsFree env repo fs0 s" using st by (simp add: staging_def stagedMoved_def)
    show "i = ''00'' \<longrightarrow> freeClone env repo" using dirs free unfolding dirsFree_def by blast
    show "\<not> below_root (stagedAt env repo i) fs0"
    proof (cases "i = ''00''")
      case True
      then have "\<not> below_root (cloneStaging env repo) fs0" using dirs free unfolding dirsFree_def by blast
      then show ?thesis using True below_root_append by (simp add: stagedAt_def) blast
    next
      case False
      then show ?thesis using dirs below_root_append by (simp add: stagedAt_def dirsFree_def) blast
    qed
  qed
  have mem: "(i, t) \<in> set (resetTargets env repo)" by (simp add: split)
  have away: "unrelated u (stagedAt env repo i)" if "(j, u) \<in> set before" for j u
    by (rule target_unrelated [OF valid, of j u, OF _ free'(1)]) (use that in \<open>simp add: split\<close>)
  have self: "unrelated t (stagedAt env repo i)" by (rule target_unrelated [OF valid mem free'(1)])
  have "goneAll (before @ [(i, t)]) (relocateTree t (stagedAt env repo i) (rs_fs s))"
    unfolding goneAll_def
  proof (clarify)
    fix j u assume u: "(j, u) \<in> set (before @ [(i, t)])"
    then have "u = t \<or> unrelated u (stagedAt env repo i) \<and> fmlookup (rs_fs s) u = None"
      using away gone by (auto simp: goneAll_def)
    then show "fmlookup (relocateTree t (stagedAt env repo i) (rs_fs s)) u = None" by (rule moved_away [OF fresh self])
  qed
  moreover have "set (rs_moved s @ [(t, stagedAt env repo i)]) \<subseteq> planOf env repo (before @ [(i, t)])"
    using K planOf_mem [of i t "before @ [(i, t)]" env repo] free'(1) planOf_mono [of env repo before "[(i, t)]"] by simp
  moreover have "stagedNodes env repo fs0 (rs_moved s @ [(t, stagedAt env repo i)]) (relocateTree t (stagedAt env repo i) (rs_fs s))"
    by (rule staged_add [OF valid split K _ free'(1) fresh free'(2)]) (use st in \<open>simp add: staging_def stagedMoved_def\<close>)
  ultimately show ?thesis using st split
    by (auto simp: staging_def stagedMoved_def intro!: exI [of _ "before @ [(i, t)]"])
qed

lemma outcome_moveTarget:
  assumes valid: "validRepo env repo" and b: "b = stagedAt env repo i"
  shows "outcome_valid (\<lambda>s. staging env repo fs0 ((i, t) # rest) s \<and> (i = ''00'' \<longrightarrow> rs_cloneStaging s = Some (cloneStaging env repo)))
    (moveTarget env t b) (\<lambda>_. staging env repo fs0 rest) (\<lambda>_. stagedSafe env repo fs0) (stagedCrash env repo fs0)"
  unfolding moveTarget_def
proof (rule outcome_attempt [where F = "\<lambda>_. stagedMoved env repo fs0"
      and R = "\<lambda>_ s. staging env repo fs0 rest (s\<lparr>rs_moved := rs_moved s @ [(t, b)], rs_restore := False\<rparr>)"])
  show "outcome_valid (\<lambda>s. staging env repo fs0 ((i, t) # rest) s \<and> (i = ''00'' \<longrightarrow> rs_cloneStaging s = Some (cloneStaging env repo)))
      (renamePath t b) (\<lambda>_ s. staging env repo fs0 rest (s\<lparr>rs_moved := rs_moved s @ [(t, b)], rs_restore := False\<rparr>))
      (\<lambda>_. stagedMoved env repo fs0) (stagedCrash env repo fs0)"
    unfolding renamePath_def
  proof (rule outcome_tick)
    fix s and r :: "reset_error + unit" and s'
    assume P: "staging env repo fs0 ((i, t) # rest) s \<and> (i = ''00'' \<longrightarrow> rs_cloneStaging s = Some (cloneStaging env repo))"
      and run: "(if fmlookup (rs_fs s) t = None \<or> below_root b (rs_fs s) then (Inl ResetIO, s)
        else (Inr (), s\<lparr>rs_fs := relocateTree t b (rs_fs s)\<rparr>)) = (r, s')"
    show "case r of Inl e \<Rightarrow> stagedMoved env repo fs0 s' | Inr a \<Rightarrow> staging env repo fs0 rest (s'\<lparr>rs_moved := rs_moved s' @ [(t, b)], rs_restore := False\<rparr>)"
    proof (cases "fmlookup (rs_fs s) t = None \<or> below_root b (rs_fs s)")
      case True
      then show ?thesis using P run by (auto simp: staging_def)
    next
      case False
      then show ?thesis using staging_move [OF valid conjunct1 [OF P] conjunct2 [OF P]] run b by auto
    qed
  qed (auto simp: staging_def stagedMoved_def stagedCrash_def)
qed (auto intro!: outcome_memory outcome_rollback [OF valid] lawful_intros split: sum.split)

lemma staging_skip:
  assumes "staging env repo fs0 ((i, t) # rest) s" "fmlookup (rs_fs s) t = None"
  shows "staging env repo fs0 rest s"
proof -
  obtain before where split: "resetTargets env repo = before @ (i, t) # rest" and gone: "goneAll before (rs_fs s)"
    and K: "set (rs_moved s) \<subseteq> planOf env repo before" using assms(1) by (auto simp: staging_def)
  have "goneAll (before @ [(i, t)]) (rs_fs s)" using gone assms(2) by (auto simp: goneAll_def)
  moreover have "set (rs_moved s) \<subseteq> planOf env repo (before @ [(i, t)])" using K planOf_mono by blast
  ultimately show ?thesis using assms(1) split unfolding staging_def
    by (intro conjI exI [of _ "before @ [(i, t)]"]) simp_all
qed

text \<open>The staging directory of the repository is made before anything has moved.\<close>

lemma staging_clone:
  assumes valid: "validRepo env repo" and st: "staging env repo fs0 ((''00'', t) # rest) s"
    and exists: "fmlookup (rs_fs s) t \<noteq> None" and fresh: "\<not> below_root (cloneStaging env repo) (rs_fs s)"
  shows "staging env repo fs0 ((''00'', t) # rest)
    (s\<lparr>rs_fs := fmupd (cloneStaging env repo) DirNode (rs_fs s), rs_cloneStaging := Some (cloneStaging env repo)\<rparr>)"
proof -
  let ?c = "cloneStaging env repo"
  obtain before where split: "resetTargets env repo = before @ (''00'', t) # rest"
    and K: "set (rs_moved s) \<subseteq> planOf env repo before" using st by (auto simp: staging_def)
  have first: "before = []" "t = repo" using first_target [OF split] by auto
  then have K0: "rs_moved s = []" using K by (auto simp: planOf_def)
  have kept: "fmlookup fs0 p = Some n \<Longrightarrow> fmlookup (rs_fs s) p = Some n" for p n
    using st K0 by (simp add: staging_def stagedMoved_def stagedNodes_def kept_def)
  have free: "freeClone env repo" "\<not> below_root ?c fs0"
  proof -
    have "fmlookup (rs_fs s) (homeSegs env) \<noteq> None" using st K0 by (simp add: staging_def)
    then show "freeClone env repo" using fresh exists first unfolding freeClone_def below_root_iff by auto
    show "\<not> below_root ?c fs0" using fresh kept unfolding below_root_iff by blast
  qed
  have "fmlookup (rs_fs s) ?c = None" using fresh unfolding below_root_iff by auto
  then have "stagedNodes env repo fs0 [] (fmupd ?c DirNode (rs_fs s))"
    using st K0 kept by (auto simp: staging_def stagedMoved_def stagedNodes_def kept_def separate_def)
  then show ?thesis using st split first K0 free
    by (auto simp: staging_def stagedMoved_def dirsFree_def goneAll_def)
qed

lemma outcome_stageTarget:
  assumes valid: "validRepo env repo"
  shows "outcome_valid (staging env repo fs0 (x # rest)) (stageTarget env repo x) (\<lambda>_. staging env repo fs0 rest)
    (\<lambda>_. stagedSafe env repo fs0) (stagedCrash env repo fs0)"
proof -
  obtain i t where x: "x = (i, t)" by (cases x)
  let ?I = "staging env repo fs0 ((i, t) # rest)" and ?C = "stagedCrash env repo fs0" and ?S = "stagedSafe env repo fs0"
  let ?c = "cloneStaging env repo"
  have moved: "?I s \<Longrightarrow> stagedMoved env repo fs0 s" "?I s \<Longrightarrow> ?C s" for s
    by (auto simp: staging_def stagedMoved_def stagedCrash_def)
  have rolls: "outcome_valid ?I (rollback env e) Q (\<lambda>_. ?S) ?C" for e and Q :: "unit \<Rightarrow> reset_state \<Rightarrow> bool"
    by (rule outcome_weaken [OF outcome_rollback [OF valid, of fs0]]) (use moved in simp_all)
  have stat: "outcome_valid ?I (lstatPath t) (\<lambda>a s. ?I s \<and> fmlookup (rs_fs s) t = a) (\<lambda>_. ?I) ?C"
    unfolding lstatPath_def by (rule outcome_read_tick) (auto split: if_splits simp: moved)
  have make: "outcome_valid (\<lambda>s. ?I s \<and> fmlookup (rs_fs s) t \<noteq> None) (makeTemp ?c)
      (\<lambda>_ s. ?I (s\<lparr>rs_cloneStaging := Some ?c\<rparr>)) (\<lambda>_. ?I) ?C" if "i = ''00''"
    unfolding makeTemp_def
    by (rule outcome_tick) (use staging_clone [OF valid] that in \<open>auto split: if_splits simp: moved\<close>)
  have clone: "outcome_valid (\<lambda>s. ?I s \<and> fmlookup (rs_fs s) t \<noteq> None)
      (attempt (makeTemp ?c) (\<lambda>r. case r of Inl e \<Rightarrow> rollback env e
        | Inr _ \<Rightarrow> andThen (memory (\<lambda>s. s\<lparr>rs_cloneStaging := Some ?c\<rparr>)) (\<lambda>_. moveTarget env t (?c @ [''clone'']))))
      (\<lambda>_. staging env repo fs0 rest) (\<lambda>_. ?S) ?C" if i: "i = ''00''"
  proof (rule outcome_attempt [OF make [OF i]])
    show "outcome_valid (\<lambda>s. ?I (s\<lparr>rs_cloneStaging := Some ?c\<rparr>))
        (case Inr a of Inl e \<Rightarrow> rollback env e
          | Inr _ \<Rightarrow> andThen (memory (\<lambda>s. s\<lparr>rs_cloneStaging := Some ?c\<rparr>)) (\<lambda>_. moveTarget env t (?c @ [''clone''])))
        (\<lambda>_. staging env repo fs0 rest) (\<lambda>_. ?S) ?C" for a :: unit
      unfolding sum.case
      by (rule outcome_andThen [OF outcome_memory outcome_moveTarget [OF valid, of _ i]])
        (auto intro!: lawful_intros simp: stagedAt_def i)
  qed (auto intro!: rolls lawful_intros split: sum.split)
  have plain: "outcome_valid ?I (moveTarget env t (stagingDir env @ [i])) (\<lambda>_. staging env repo fs0 rest) (\<lambda>_. ?S) ?C" if "i \<noteq> ''00''"
    by (rule outcome_weaken [OF outcome_moveTarget [OF valid, of _ i fs0 t rest]])
      (use that in \<open>simp_all add: stagedAt_def\<close>)
  show ?thesis unfolding x stageTarget_def prod.case
  proof (rule outcome_attempt [OF stat])
    show "outcome_valid (\<lambda>s. ?I s \<and> fmlookup (rs_fs s) t = a) (case Inr a of Inl e \<Rightarrow> rollback env e | Inr None \<Rightarrow> ret ()
        | Inr (Some _) \<Rightarrow> if i = ''00'' then attempt (makeTemp ?c) (\<lambda>r. case r of Inl e \<Rightarrow> rollback env e
            | Inr _ \<Rightarrow> andThen (memory (\<lambda>s. s\<lparr>rs_cloneStaging := Some ?c\<rparr>)) (\<lambda>_. moveTarget env t (?c @ [''clone''])))
          else moveTarget env t (stagingDir env @ [i])) (\<lambda>_. staging env repo fs0 rest) (\<lambda>_. ?S) ?C" for a
    proof (cases a)
      case None
      show ?thesis unfolding None sum.case option.case
        by (rule outcome_ret, elim conjE, rule staging_skip)
    next
      case (Some n)
      show ?thesis unfolding Some sum.case option.case
        by (rule outcome_if; rule outcome_weaken [OF clone] outcome_weaken [OF plain]) auto
    qed
  qed (auto intro!: rolls lawful_intros split: sum.split option.split)
qed

lemma outcome_stageAll:
  assumes "validRepo env repo"
  shows "outcome_valid (staging env repo fs0 (resetTargets env repo)) (forEach (\<lambda>t _. stageTarget env repo t) (resetTargets env repo) ())
    (\<lambda>_. staging env repo fs0 []) (\<lambda>_. stagedSafe env repo fs0) (stagedCrash env repo fs0)"
  by (rule outcome_forEach [where I = "\<lambda>ts _. staging env repo fs0 ts"]) (auto intro: outcome_stageTarget [OF assms] lawful_intros)

section \<open>After the point of no return\<close>

definition forgotten :: "int \<Rightarrow> reset_state \<Rightarrow> bool" where
  "forgotten active s \<longleftrightarrow> (active \<noteq> 0 \<longrightarrow> active \<notin> set (rs_keyring s))"

text \<open>Everything is out of its place and the credential is gone; what was never staged is untouched.\<close>

definition cleaned :: "reset_env \<Rightarrow> string list \<Rightarrow> fsys \<Rightarrow> int \<Rightarrow> (string list \<times> string list) list \<Rightarrow> reset_state \<Rightarrow> bool" where
  "cleaned env repo fs0 active K s \<longleftrightarrow>
     goneAll (resetTargets env repo) (rs_fs s) \<and> forgotten active s \<and> set K \<subseteq> planOf env repo (resetTargets env repo) \<and>
     (\<forall>p n. fmlookup fs0 p = Some n \<longrightarrow> placedAt K p = p \<longrightarrow> fmlookup (rs_fs s) p = Some n)"

definition cleaning :: "reset_env \<Rightarrow> string list \<Rightarrow> fsys \<Rightarrow> int \<Rightarrow> reset_state \<Rightarrow> bool" where
  "cleaning env repo fs0 active s \<longleftrightarrow>
     (\<exists>K. cleaned env repo fs0 active K s \<and> (rs_restore s \<longrightarrow> K = [])) \<and> rs_daemon s = None \<and> dirsFree env repo fs0 s"

definition removedOrKept :: "reset_env \<Rightarrow> string list \<Rightarrow> fsys \<Rightarrow> int \<Rightarrow> reset_state \<Rightarrow> bool" where
  "removedOrKept env repo fs0 active s \<longleftrightarrow> stagedSafe env repo fs0 s \<or> cleaning env repo fs0 active s"

definition removedOrCrash :: "reset_env \<Rightarrow> string list \<Rightarrow> fsys \<Rightarrow> int \<Rightarrow> reset_state \<Rightarrow> bool" where
  "removedOrCrash env repo fs0 active s \<longleftrightarrow> stagedCrash env repo fs0 s \<or> (\<exists>K. cleaned env repo fs0 active K s)"

lemma outcome_dropCredential:
  assumes "validRepo env repo"
  shows "outcome_valid (staging env repo fs0 []) (dropCredential env active) (\<lambda>_ s. staging env repo fs0 [] s \<and> forgotten active s)
    (\<lambda>_. stagedSafe env repo fs0) (stagedCrash env repo fs0)"
proof (cases "active = 0")
  case True
  then show ?thesis by (simp add: dropCredential_def outcome_ret forgotten_def)
next
  case False
  have keyring: "staging env repo fs0 [] (s\<lparr>rs_keyring := k\<rparr>) = staging env repo fs0 [] s" for s k
    by (simp add: staging_def stagedMoved_def)
  have crash: "staging env repo fs0 [] s \<Longrightarrow> stagedMoved env repo fs0 s \<and> stagedCrash env repo fs0 s" for s
    by (auto simp: staging_def stagedMoved_def stagedCrash_def)
  have "outcome_valid (staging env repo fs0 []) (forgetCredential active) (\<lambda>_ s. staging env repo fs0 [] s \<and> forgotten active s)
      (\<lambda>_. stagedMoved env repo fs0) (stagedCrash env repo fs0)"
    unfolding forgetCredential_def
    by (rule outcome_tick) (auto simp: forgotten_def keyring dest: crash split: if_splits
        simp: stagedMoved_def stagedCrash_def)
  then have body: "outcome_valid (staging env repo fs0 []) (attempt (forgetCredential active)
        (\<lambda>r. case r of Inl _ \<Rightarrow> rollback env CredentialFailed | Inr _ \<Rightarrow> ret ()))
      (\<lambda>_ s. staging env repo fs0 [] s \<and> forgotten active s) (\<lambda>_. stagedSafe env repo fs0) (stagedCrash env repo fs0)"
    by (rule outcome_attempt) (auto intro!: outcome_ret outcome_rollback [OF assms] lawful_intros split: sum.split)
  have "outcome_valid (staging env repo fs0 []) (memory (\<lambda>s. s\<lparr>rs_restore := False\<rparr>)) (\<lambda>_. staging env repo fs0 [])
      (\<lambda>_. stagedSafe env repo fs0) (stagedCrash env repo fs0)"
    by (rule outcome_memory) (simp add: staging_def stagedMoved_def)
  then have "outcome_valid (staging env repo fs0 []) (andThen (memory (\<lambda>s. s\<lparr>rs_restore := False\<rparr>))
      (\<lambda>_. attempt (forgetCredential active) (\<lambda>r. case r of Inl _ \<Rightarrow> rollback env CredentialFailed | Inr _ \<Rightarrow> ret ())))
      (\<lambda>_ s. staging env repo fs0 [] s \<and> forgotten active s) (\<lambda>_. stagedSafe env repo fs0) (stagedCrash env repo fs0)"
    by (rule outcome_andThen [OF _ body]) (auto intro!: lawful_intros split: sum.split)
  then show ?thesis using False by (simp only: dropCredential_def if_False)
qed

lemma goneAll_filter: "goneAll ts fs \<Longrightarrow> goneAll ts (fmfilter P fs)"
  by (auto simp: goneAll_def)

lemma cleaned_filter:
  assumes "cleaned env repo fs0 active K s" "\<not> below_root q fs0" "\<And>p. \<not> P p \<Longrightarrow> prefix q p"
  shows "cleaned env repo fs0 active K (s\<lparr>rs_fs := fmfilter P (rs_fs s)\<rparr>)"
  using assms goneAll_filter unfolding cleaned_def below_root_iff forgotten_def by auto

lemma outcome_removeTree:
  assumes "\<not> below_root q fs0"
  shows "outcome_valid (cleaning env repo fs0 active) (removeTree q) (\<lambda>_. cleaning env repo fs0 active)
    (\<lambda>_. cleaning env repo fs0 active) (removedOrCrash env repo fs0 active)"
  unfolding removeTree_def
proof (rule outcome_tick)
  fix s assume s: "cleaning env repo fs0 active s"
  then obtain K where K: "cleaned env repo fs0 active K s" "rs_restore s \<longrightarrow> K = []" by (auto simp: cleaning_def)
  have filter: "cleaned env repo fs0 active K (s\<lparr>rs_fs := fmfilter P (rs_fs s)\<rparr>)" if "\<And>p. \<not> P p \<Longrightarrow> prefix q p" for P
    by (rule cleaned_filter [OF K(1) assms that])
  have keep: "cleaning env repo fs0 active (s\<lparr>rs_fs := fmfilter P (rs_fs s)\<rparr>)" if "\<And>p. \<not> P p \<Longrightarrow> prefix q p" for P
    using filter [OF that] K(2) s unfolding cleaning_def by auto
  show "cleaning env repo fs0 active (s\<lparr>rs_fs := fmfilter (\<lambda>p. \<not> (prefix q p \<and> below p \<in> set ns)) (rs_fs s)\<rparr>)" for ns
    by (rule keep) simp
  show "removedOrCrash env repo fs0 active (s\<lparr>rs_fs := fmfilter (\<lambda>p. \<not> (prefix q p \<and> below p \<in> set ns)) (rs_fs s)\<rparr>)" for ns
    unfolding removedOrCrash_def by (intro disjI2 exI [of _ K] filter) simp
  show "case r of Inl e \<Rightarrow> cleaning env repo fs0 active s' | Inr a \<Rightarrow> cleaning env repo fs0 active s'"
    if "(Inr (), s\<lparr>rs_fs := fmfilter (\<lambda>p. \<not> prefix q p) (rs_fs s)\<rparr>) = (r, s')" for r :: "reset_error + unit" and s'
    using that keep [of "\<lambda>p. \<not> prefix q p"] by auto
qed

lemma outcome_cleanUp:
  "outcome_valid (\<lambda>s. staging env repo fs0 [] s \<and> forgotten active s) (cleanUp env)
     (\<lambda>_ s. cleaning env repo fs0 active s \<and> \<not> rs_summary s) (\<lambda>_. cleaning env repo fs0 active) (removedOrCrash env repo fs0 active)"
proof -
  let ?I = "cleaning env repo fs0 active" and ?C = "removedOrCrash env repo fs0 active"
  have start: "?I s" if s: "staging env repo fs0 [] s \<and> forgotten active s" for s
  proof -
    have "cleaned env repo fs0 active (rs_moved s) s"
      using s unfolding staging_def stagedMoved_def stagedNodes_def cleaned_def kept_def by (auto, metis+)
    then show ?thesis using s unfolding cleaning_def staging_def stagedMoved_def by auto
  qed
  have peeking: "outcome_valid (\<lambda>s. staging env repo fs0 [] s \<and> forgotten active s) (peek rs_cloneStaging)
      (\<lambda>clone s. ?I s \<and> rs_cloneStaging s = clone) E ?C" for E :: "reset_error \<Rightarrow> reset_state \<Rightarrow> bool"
    by (rule outcome_peek) (use start in blast)
  have rest: "outcome_valid (\<lambda>s. ?I s \<and> rs_cloneStaging s = clone)
      (andThen (case clone of None \<Rightarrow> ret () | Some p \<Rightarrow> removeTree p) (\<lambda>_.
       andThen (removeTree (stagingDir env)) (\<lambda>_. memory (\<lambda>s. s\<lparr>rs_summary := False\<rparr>))))
      (\<lambda>_ s. ?I s \<and> \<not> rs_summary s) (\<lambda>_. ?I) ?C" for clone
  proof (cases "\<exists>s. ?I s \<and> rs_cloneStaging s = clone")
    case True
    then have free: "\<not> below_root (stagingDir env) fs0" "\<And>p. clone = Some p \<Longrightarrow> \<not> below_root p fs0"
      by (auto simp: cleaning_def dirsFree_def)
    have first: "outcome_valid (\<lambda>s. ?I s \<and> rs_cloneStaging s = clone) (case clone of None \<Rightarrow> ret () | Some p \<Rightarrow> removeTree p) (\<lambda>_. ?I) (\<lambda>_. ?I) ?C"
      by (cases clone) (auto intro!: outcome_ret outcome_weaken [OF outcome_removeTree [OF free(2)]])
    show ?thesis
      by (rule outcome_andThen [OF first outcome_andThen [OF outcome_removeTree [OF free(1)] outcome_memory]])
        (auto intro!: lawful_intros simp: cleaning_def cleaned_def forgotten_def dirsFree_def)
  next
    case False
    then show ?thesis by (auto simp: outcome_valid_def)
  qed
  show ?thesis unfolding cleanUp_def
    by (rule outcome_andThen [OF peeking rest]) (auto intro!: lawful_intros split: option.split)
qed

section \<open>The whole reset\<close>

text \<open>A reset that has started: the daemon has been stopped, the file system is as it was.\<close>

definition untouchedStart :: "fsys \<Rightarrow> reset_state \<Rightarrow> bool" where
  "untouchedStart fs0 s \<longleftrightarrow> rs_fs s = fs0 \<and> rs_daemon s = None"

lemma addDirs_keep: "fmlookup fs p = Some n \<Longrightarrow> fmlookup (fold addDir ps fs) p = Some n"
  by (induction ps arbitrary: fs) (auto simp: addDir_def)

lemma addDirs_made: "p \<in> set ps \<Longrightarrow> fmlookup (fold addDir ps fs) p \<noteq> None"
proof (induction ps arbitrary: fs)
  case (Cons q ps)
  have "fmlookup (addDir q fs) q \<noteq> None" by (simp add: addDir_def)
  then show ?case using Cons addDirs_keep [of "addDir q fs" q _ ps] by auto
qed simp

definition grownFrom :: "fsys \<Rightarrow> fsys \<Rightarrow> bool" where
  "grownFrom fs0 fs \<longleftrightarrow> (\<forall>p n. fmlookup fs0 p = Some n \<longrightarrow> fmlookup fs p = Some n)"

definition beginning :: "fsys \<Rightarrow> reset_state \<Rightarrow> bool" where
  "beginning fs0 s \<longleftrightarrow> grownFrom fs0 (rs_fs s) \<and> rs_daemon s = None \<and> rs_moved s = [] \<and> rs_cloneStaging s = None \<and> rs_restore s"

lemma grown_staged: "grownFrom fs0 fs \<Longrightarrow> stagedNodes env repo fs0 [] fs"
  by (simp add: stagedNodes_def kept_def separate_def grownFrom_def)

text \<open>Either everything is somewhere, or the reset is complete; the daemon runs only if everything is at its place.\<close>

definition resetOutcome :: "reset_env \<Rightarrow> string list \<Rightarrow> fsys \<Rightarrow> int \<Rightarrow> reset_state \<Rightarrow> bool" where
  "resetOutcome env repo fs0 active s \<longleftrightarrow>
     removedOrCrash env repo fs0 active s \<and> (rs_daemon s \<noteq> None \<longrightarrow> grownFrom fs0 (rs_fs s))"

definition restorable :: "reset_env \<Rightarrow> string list \<Rightarrow> fsys \<Rightarrow> int \<Rightarrow> reset_state \<Rightarrow> bool" where
  "restorable env repo fs0 active s \<longleftrightarrow>
     removedOrCrash env repo fs0 active s \<and> rs_daemon s = None \<and> (rs_restore s \<longrightarrow> grownFrom fs0 (rs_fs s))"

lemma beginning_restorable: "beginning fs0 s \<Longrightarrow> restorable env repo fs0 active s"
  using grown_staged unfolding beginning_def restorable_def removedOrCrash_def stagedCrash_def by blast

lemma safe_restorable: "stagedSafe env repo fs0 s \<Longrightarrow> restorable env repo fs0 active s"
  unfolding stagedSafe_def restorable_def removedOrCrash_def stagedCrash_def
  by (auto simp: stagedNodes_def kept_def grownFrom_def)

lemma cleaning_restorable: "cleaning env repo fs0 active s \<Longrightarrow> restorable env repo fs0 active s"
  unfolding cleaning_def restorable_def removedOrCrash_def by (auto simp: cleaned_def grownFrom_def)

lemma outcome_removeSetup:
  assumes "validRepo env repo"
  shows "outcome_valid (untouchedStart fs0) (removeSetup env repo active) (\<lambda>_ s. cleaning env repo fs0 active s \<and> \<not> rs_summary s)
    (\<lambda>_. restorable env repo fs0 active) (removedOrCrash env repo fs0 active)"
proof -
  let ?E = "\<lambda>_. restorable env repo fs0 active" and ?C = "removedOrCrash env repo fs0 active"
  have crash: "beginning fs0 s \<Longrightarrow> ?C s" for s using beginning_restorable [of fs0 s env repo active] by (simp add: restorable_def)
  have one: "outcome_valid (untouchedStart fs0)
      (memory (\<lambda>s. s\<lparr>rs_generation := Suc (rs_generation s), rs_moved := [], rs_cloneStaging := None, rs_restore := True\<rparr>))
      (\<lambda>_. beginning fs0) ?E ?C"
    by (rule outcome_memory) (simp add: untouchedStart_def beginning_def grownFrom_def)
  have two: "outcome_valid (beginning fs0) (makeDirs (homeSegs env))
      (\<lambda>_ s. beginning fs0 s \<and> fmlookup (rs_fs s) (homeSegs env) \<noteq> None) ?E ?C"
    unfolding makeDirs_def
  proof (rule outcome_tick)
    fix s s' :: reset_state and r :: "reset_error + unit"
    assume s: "beginning fs0 s" and run: "(if list_ex (isFile (rs_fs s)) (prefixes (homeSegs env)) then (Inl ResetIO, s)
        else (Inr (), s\<lparr>rs_fs := fold addDir (prefixes (homeSegs env)) (rs_fs s)\<rparr>)) = (r, s')"
    have "beginning fs0 (s\<lparr>rs_fs := fold addDir (prefixes (homeSegs env)) (rs_fs s)\<rparr>)"
      using s addDirs_keep by (simp add: beginning_def grownFrom_def)
    moreover have "fmlookup (fold addDir (prefixes (homeSegs env)) (rs_fs s)) (homeSegs env) \<noteq> None" by (rule addDirs_made) simp
    ultimately show "case r of Inl e \<Rightarrow> ?E e s' | Inr a \<Rightarrow> beginning fs0 s' \<and> fmlookup (rs_fs s') (homeSegs env) \<noteq> None"
      using s run beginning_restorable by (auto split: if_splits)
  qed (use beginning_restorable crash in auto)
  have three: "outcome_valid (\<lambda>s. beginning fs0 s \<and> fmlookup (rs_fs s) (homeSegs env) \<noteq> None) (makeTemp (stagingDir env))
      (\<lambda>_. staging env repo fs0 (resetTargets env repo)) ?E ?C"
    unfolding makeTemp_def
  proof (rule outcome_tick)
    fix s s' :: reset_state and r :: "reset_error + unit"
    let ?fs = "fmupd (stagingDir env) DirNode (rs_fs s)"
    assume s: "beginning fs0 s \<and> fmlookup (rs_fs s) (homeSegs env) \<noteq> None"
      and run: "(if below_root (stagingDir env) (rs_fs s) then (Inl ResetIO, s) else (Inr (), s\<lparr>rs_fs := ?fs\<rparr>)) = (r, s')"
    show "case r of Inl e \<Rightarrow> ?E e s' | Inr a \<Rightarrow> staging env repo fs0 (resetTargets env repo) s'"
    proof (cases "below_root (stagingDir env) (rs_fs s)")
      case True
      then show ?thesis using s run beginning_restorable by auto
    next
      case False
      have fresh: "\<not> below_root (stagingDir env) fs0" "fmlookup (rs_fs s) (stagingDir env) = None"
        using False s unfolding below_root_iff beginning_def grownFrom_def by (blast, auto)
      then have "grownFrom fs0 ?fs" using s by (auto simp: beginning_def grownFrom_def)
      then have "stagedNodes env repo fs0 [] ?fs" by (rule grown_staged)
      then show ?thesis using False s run fresh
        by (auto simp: staging_def stagedMoved_def dirsFree_def beginning_def goneAll_def)
    qed
  qed (use beginning_restorable crash in auto)
  have weak: "outcome_valid P m Q F D \<Longrightarrow> (\<And>e s. F e s \<Longrightarrow> restorable env repo fs0 active s) \<Longrightarrow> (\<And>s. D s \<Longrightarrow> ?C s) \<Longrightarrow>
      outcome_valid P m Q ?E ?C" for P Q F D and m :: "unit reset_io"
    by (rule outcome_weaken)
  have four: "outcome_valid (staging env repo fs0 (resetTargets env repo)) (forEach (\<lambda>t _. stageTarget env repo t) (resetTargets env repo) ())
      (\<lambda>_. staging env repo fs0 []) ?E ?C"
    by (rule weak [OF outcome_stageAll [OF assms]]) (use safe_restorable in \<open>auto simp: removedOrCrash_def\<close>)
  have five: "outcome_valid (staging env repo fs0 []) (dropCredential env active) (\<lambda>_ s. staging env repo fs0 [] s \<and> forgotten active s) ?E ?C"
    by (rule weak [OF outcome_dropCredential [OF assms]]) (use safe_restorable in \<open>auto simp: removedOrCrash_def\<close>)
  have six: "outcome_valid (\<lambda>s. staging env repo fs0 [] s \<and> forgotten active s) (cleanUp env)
      (\<lambda>_ s. cleaning env repo fs0 active s \<and> \<not> rs_summary s) ?E ?C"
    by (rule weak [OF outcome_cleanUp]) (use cleaning_restorable in auto)
  show ?thesis unfolding removeSetup_def
    by (rule outcome_andThen [OF one outcome_andThen [OF two outcome_andThen [OF three outcome_andThen [OF four outcome_andThen [OF five six]]]]])
      (auto intro!: lawful_intros)
qed

lemma within_prefix: "prefix r c \<Longrightarrow> ''..'' \<notin> set c \<Longrightarrow> pathWithinRoot r c"
proof -
  assume "prefix r c" and dots: "''..'' \<notin> set c"
  then obtain x where c: "c = r @ x" by (auto simp: prefix_def)
  have "strip_common r (r @ x) = ([], x)" by (induction r) auto
  then show ?thesis using dots unfolding c by (cases x) (auto simp: pathWithinRoot_def rel_segments_def)
qed

lemma validateResetClone_repo:
  assumes "validateResetClone env cfg fs (absSegments repo) = None"
  shows "validRepo env (absSegments repo)"
proof -
  have plain: "''..'' \<notin> set (absSegments p)" for p using absSegments_plain [of p] by (auto simp: plain_segment_def)
  have within: "prefix r (absSegments p) \<Longrightarrow> resetContains r (absSegments p)" for r p
    unfolding resetContains_def by (rule within_prefix [OF _ plain])
  show ?thesis using assms within unfolding validateResetClone_def validRepo_def homeSegs_def Let_def
    by (auto split: if_splits)
qed

lemma crash_memory [simp]: "removedOrCrash env repo fs0 active (s\<lparr>rs_daemon := d\<rparr>) = removedOrCrash env repo fs0 active s"
  by (simp add: removedOrCrash_def stagedCrash_def cleaned_def forgotten_def)

lemma lawful_stopRun [lawful_intros]: "lawful stopRun"
  unfolding stopRun_def by (auto intro!: lawful_intros)

lemma lawful_restoreAfter [lawful_intros]: "lawful (restoreAfter env d e)"
  unfolding restoreAfter_def by (auto intro!: lawful_intros split: option.split)

lemma lawful_stopAndRemove [lawful_intros]: "lawful (stopAndRemove env d repo active)"
  unfolding stopAndRemove_def by (auto intro!: lawful_intros split: sum.split)

lemma lawful_resetChecks [lawful_intros]: "lawful (resetChecks env cfg repo)"
  unfolding resetChecks_def by (auto intro!: lawful_intros)

lemma lawful_checkedReset [lawful_intros]: "lawful (checkedReset env d cfg repo)"
  unfolding checkedReset_def by (auto intro!: lawful_intros split: sum.split option.split)

lemma same_outcome: "rs_fs s = fs0 \<Longrightarrow> resetOutcome env repo fs0 active s"
  using grown_staged [of fs0 fs0 env repo] unfolding resetOutcome_def removedOrCrash_def stagedCrash_def grownFrom_def by auto

lemma outcome_restoreAfter:
  "outcome_valid (restorable env repo fs0 active) (restoreAfter env d e) Q (\<lambda>_. resetOutcome env repo fs0 active) (removedOrCrash env repo fs0 active)"
proof -
  let ?E = "\<lambda>_. resetOutcome env repo fs0 active" and ?C = "removedOrCrash env repo fs0 active"
  let ?G = "\<lambda>s. removedOrCrash env repo fs0 active s \<and> grownFrom fs0 (rs_fs s)"
  have quiet: "restorable env repo fs0 active s \<Longrightarrow> resetOutcome env repo fs0 active s" for s
    by (simp add: restorable_def resetOutcome_def)
  have start: "outcome_valid ?G (startConfigured env) (\<lambda>_. ?G) ?E ?C"
    unfolding startConfigured_def
    by (rule outcome_tick) (auto simp: resetOutcome_def Let_def split: if_splits option.splits node.splits)
  have tail: "outcome_valid ?G (andThen (startConfigured env) (\<lambda>_. andThen (memory (\<lambda>s. s\<lparr>rs_daemon := map_option (f :: daemon_view \<Rightarrow> daemon_view) (rs_daemon s)\<rparr>))
      (\<lambda>_. raise e))) Q ?E ?C" for f
    by (rule outcome_andThen [OF start outcome_andThen [OF outcome_memory [where Q = "\<lambda>_. ?G"] outcome_raise]])
      (auto intro!: lawful_intros simp: resetOutcome_def)
  show ?thesis unfolding restoreAfter_def
  proof (rule outcome_andThen [OF outcome_peek [where Q = "\<lambda>r s. restorable env repo fs0 active s \<and> rs_restore s = r"]])
    show "outcome_valid (\<lambda>s. restorable env repo fs0 active s \<and> rs_restore s = r)
        (case d of None \<Rightarrow> raise e | Some v \<Rightarrow> if \<not> r then raise e else andThen (startConfigured env)
          (\<lambda>_. andThen (memory (\<lambda>s. s\<lparr>rs_daemon := map_option (\<lambda>n. n\<lparr>dm_auto := False, dm_paused := dm_paused v\<rparr>) (rs_daemon s)\<rparr>)) (\<lambda>_. raise e)))
        Q ?E ?C" for r
      by (cases d; cases r; simp) (auto intro!: outcome_raise quiet outcome_weaken [OF tail] simp: restorable_def)
  qed (auto intro!: lawful_intros split: option.split)
qed

lemma outcome_stopRun:
  "outcome_valid (\<lambda>s. rs_fs s = fs0) stopRun (\<lambda>_ s. rs_fs s = fs0) (\<lambda>_ s. rs_fs s = fs0) (\<lambda>s. rs_fs s = fs0)"
  unfolding stopRun_def
  by (rule outcome_andThen [OF outcome_peek [where Q = "\<lambda>_ s. rs_fs s = fs0"]])
    (auto intro!: outcome_if outcome_tick outcome_ret lawful_intros simp: stopDaemon_def)

lemma outcome_stopAndRemove:
  assumes "validRepo env repo"
  shows "outcome_valid (\<lambda>s. rs_fs s = fs0) (stopAndRemove env d repo active) (\<lambda>_ s. cleaning env repo fs0 active s \<and> \<not> rs_summary s)
    (\<lambda>_. resetOutcome env repo fs0 active) (removedOrCrash env repo fs0 active)"
proof -
  let ?E = "\<lambda>_. resetOutcome env repo fs0 active" and ?C = "removedOrCrash env repo fs0 active"
  have crash: "rs_fs s = fs0 \<Longrightarrow> ?C s" for s using same_outcome [of s fs0 env repo active] by (simp add: resetOutcome_def)
  have stop: "outcome_valid (\<lambda>s. rs_fs s = fs0) stopRun (\<lambda>_ s. rs_fs s = fs0) ?E ?C"
    by (rule outcome_weaken [OF outcome_stopRun]) (use same_outcome crash in auto)
  have clear: "outcome_valid (\<lambda>s. rs_fs s = fs0) (memory (\<lambda>s. s\<lparr>rs_daemon := None\<rparr>)) (\<lambda>_. untouchedStart fs0) ?E ?C"
    by (rule outcome_memory) (simp add: untouchedStart_def)
  have rest: "outcome_valid (untouchedStart fs0) (attempt (removeSetup env repo active) (\<lambda>r. case r of Inl e \<Rightarrow> restoreAfter env d e | Inr _ \<Rightarrow> ret ()))
      (\<lambda>_ s. cleaning env repo fs0 active s \<and> \<not> rs_summary s) ?E ?C"
    by (rule outcome_attempt [OF outcome_removeSetup [OF assms]])
      (auto intro!: outcome_ret outcome_restoreAfter lawful_intros split: sum.split)
  show ?thesis unfolding stopAndRemove_def
    by (rule outcome_andThen [OF stop outcome_andThen [OF clear rest]]) (auto intro!: lawful_intros split: sum.split)
qed

lemma outcome_resetChecks:
  "outcome_valid (\<lambda>s. rs_fs s = fs0) (resetChecks env cfg repo)
     (\<lambda>active s. rs_fs s = fs0 \<and> validateResetClone env cfg fs0 repo = None \<and> activeAccount env fs0 = Inr active)
     (\<lambda>_ s. rs_fs s = fs0) (\<lambda>s. rs_fs s = fs0)"
proof -
  let ?P = "\<lambda>s. rs_fs s = fs0" and ?V = "validateResetClone env cfg fs0 repo = None"
  have one: "outcome_valid ?P (read_tick ResetIO (\<lambda>s. case validateResetClone env cfg (rs_fs s) repo of Some e \<Rightarrow> Inl e | None \<Rightarrow> Inr ()))
      (\<lambda>_ s. ?P s \<and> ?V) (\<lambda>_. ?P) ?P"
    by (rule outcome_read_tick) (auto split: option.splits)
  have two: "outcome_valid (\<lambda>s. ?P s \<and> ?V) (read_tick ResetMetadata (\<lambda>s. activeAccount env (rs_fs s)))
      (\<lambda>active s. ?P s \<and> ?V \<and> activeAccount env fs0 = Inr active) (\<lambda>_. ?P) ?P"
    by (rule outcome_read_tick) auto
  have three: "outcome_valid (\<lambda>s. ?P s \<and> ?V \<and> activeAccount env fs0 = Inr active)
      (forEach (\<lambda>n _. read_tick ResetIO (\<lambda>s. case rejectResetLinks (rs_fs s) (homeSegs env @ [n]) of Some e \<Rightarrow> Inl e | None \<Rightarrow> Inr ())) ns u)
      (\<lambda>_ s. ?P s \<and> ?V \<and> activeAccount env fs0 = Inr active) (\<lambda>_. ?P) ?P" for active ns u
    by (rule outcome_forEach [where I = "\<lambda>_ _ s. ?P s \<and> ?V \<and> activeAccount env fs0 = Inr active"])
      (auto intro!: outcome_read_tick lawful_intros)
  show ?thesis unfolding resetChecks_def
    by (rule outcome_andThen [OF one outcome_andThen [OF two outcome_andThen [OF three outcome_ret]]]) (auto intro!: lawful_intros)
qed

definition resetResult :: "reset_env \<Rightarrow> string list \<Rightarrow> fsys \<Rightarrow> reset_state \<Rightarrow> bool" where
  "resetResult env repo fs0 s \<longleftrightarrow>
     (\<exists>K. stagedNodes env repo fs0 K (rs_fs s)) \<or> (\<exists>active K. activeAccount env fs0 = Inr active \<and> cleaned env repo fs0 active K s)"

lemma resetResult_same: "rs_fs s = fs0 \<Longrightarrow> resetResult env repo fs0 s"
  using grown_staged [of fs0 fs0 env repo] unfolding resetResult_def grownFrom_def by auto

definition resetFailure :: "reset_env \<Rightarrow> string list \<Rightarrow> fsys \<Rightarrow> reset_state \<Rightarrow> bool" where
  "resetFailure env repo fs0 s \<longleftrightarrow> resetResult env repo fs0 s \<and> (rs_daemon s \<noteq> None \<longrightarrow> grownFrom fs0 (rs_fs s))"

lemma resetFailure_same: "rs_fs s = fs0 \<Longrightarrow> resetFailure env repo fs0 s"
  using resetResult_same [of s fs0 env repo] by (simp add: resetFailure_def grownFrom_def)

definition resetSuccess :: "reset_env \<Rightarrow> string list \<Rightarrow> fsys \<Rightarrow> reset_state \<Rightarrow> bool" where
  "resetSuccess env repo fs0 s \<longleftrightarrow>
     (\<exists>active K. activeAccount env fs0 = Inr active \<and> cleaned env repo fs0 active K s) \<and> rs_daemon s = None \<and> \<not> rs_summary s"

lemma outcome_checkedReset:
  "outcome_valid (\<lambda>s. rs_fs s = fs0) (checkedReset env d cfg (absSegments repo)) (\<lambda>_. resetSuccess env (absSegments repo) fs0)
    (\<lambda>_. resetFailure env (absSegments repo) fs0) (resetResult env (absSegments repo) fs0)"
proof -
  let ?repo = "absSegments repo"
  let ?P = "\<lambda>s. rs_fs s = fs0"
  let ?Q = "\<lambda>active s. ?P s \<and> validateResetClone env cfg fs0 ?repo = None \<and> activeAccount env fs0 = Inr active"
  have checks: "outcome_valid ?P (resetChecks env cfg ?repo) ?Q (\<lambda>_. ?P) (resetResult env ?repo fs0)"
    by (rule outcome_weaken [OF outcome_resetChecks]) (use resetResult_same in auto)
  have go: "outcome_valid (?Q active) (stopAndRemove env d ?repo active) (\<lambda>_. resetSuccess env ?repo fs0)
      (\<lambda>_. resetFailure env ?repo fs0) (resetResult env ?repo fs0)" for active
  proof (cases "validateResetClone env cfg fs0 ?repo = None \<and> activeAccount env fs0 = Inr active")
    case True
    have result: "removedOrCrash env ?repo fs0 active s \<Longrightarrow> resetResult env ?repo fs0 s" for s
      using True unfolding removedOrCrash_def stagedCrash_def resetResult_def by blast
    show ?thesis
      by (rule outcome_weaken [OF outcome_stopAndRemove [OF validateResetClone_repo [OF conjunct1 [OF True]], of fs0]])
        (use True result in \<open>auto simp: resetSuccess_def resetFailure_def resetOutcome_def cleaning_def\<close>)
  next
    case False
    then show ?thesis by (auto simp: outcome_valid_def)
  qed
  have no: "outcome_valid ?P (case d of None \<Rightarrow> raise e | Some v \<Rightarrow> if dm_paused v then raise e
        else andThen (memory (pauseDaemon False)) (\<lambda>_. raise e)) (\<lambda>_ :: unit. resetSuccess env ?repo fs0)
      (\<lambda>_. resetFailure env ?repo fs0) (resetResult env ?repo fs0)" for e
    by (cases d) (auto intro!: outcome_raise outcome_andThen [OF outcome_memory [where Q = "\<lambda>_. ?P"]] lawful_intros
        simp: resetFailure_same pauseDaemon_def)
  show ?thesis unfolding checkedReset_def
    by (rule outcome_attempt [OF checks]) (use go no in \<open>auto intro!: lawful_intros split: sum.split option.split\<close>)
qed

lemma outcome_resetLocalSetup:
  assumes "resetConfig env onboarding fs0 = Inr cfg" "resetRepo env cfg = Inr repo"
  shows "outcome_valid (\<lambda>s. rs_fs s = fs0) (resetLocalSetup env cancelled confirmation confirmed onboarding)
    (\<lambda>_. resetSuccess env (absSegments repo) fs0) (\<lambda>_. resetFailure env (absSegments repo) fs0) (resetResult env (absSegments repo) fs0)"
proof -
  let ?repo = "absSegments repo" and ?P = "\<lambda>s. rs_fs s = fs0"
  let ?S = "\<lambda>_ :: unit. resetSuccess env (absSegments repo) fs0" and ?F = "\<lambda>_ :: reset_error. resetFailure env (absSegments repo) fs0"
  let ?C = "resetResult env (absSegments repo) fs0"
  have raising: "outcome_valid ?P (raise e) ?S ?F ?C" for e
    by (rule outcome_raise) (rule resetFailure_same)
  have run: "outcome_valid ?P (andThen (peek rs_daemon) (\<lambda>d. case d of None \<Rightarrow> checkedReset env d cfg ?repo
      | Some v \<Rightarrow> if dm_job v then raise SyncRunning else andThen (memory (pauseDaemon True)) (\<lambda>_. checkedReset env d cfg ?repo))) ?S ?F ?C"
  proof (rule outcome_andThen [OF outcome_peek [where Q = "\<lambda>_. ?P"]])
    show "outcome_valid ?P (case d of None \<Rightarrow> checkedReset env d cfg ?repo
      | Some v \<Rightarrow> if dm_job v then raise SyncRunning else andThen (memory (pauseDaemon True)) (\<lambda>_. checkedReset env d cfg ?repo)) ?S ?F ?C" for d
      by (cases d) (auto intro!: outcome_checkedReset raising outcome_andThen [OF outcome_memory [where Q = "\<lambda>_. ?P"]] lawful_intros
          simp: pauseDaemon_def)
  qed (auto intro!: lawful_intros split: option.split)
  have load: "outcome_valid ?P (read_tick ResetIO (\<lambda>s. resetConfig env onboarding (rs_fs s))) (\<lambda>c s. ?P s \<and> c = cfg) ?F ?C"
    by (rule outcome_read_tick) (auto simp: assms(1) resetFailure_same resetResult_same)
  have rest: "outcome_valid (\<lambda>s. ?P s \<and> c = cfg) (case resetRepo env c of Inl e \<Rightarrow> raise e | Inr repo \<Rightarrow>
      if \<not> sameCleanPath repo confirmed then raise RepoChanged
      else andThen (peek rs_daemon) (\<lambda>d. case d of None \<Rightarrow> checkedReset env d c (absSegments repo)
        | Some v \<Rightarrow> if dm_job v then raise SyncRunning else andThen (memory (pauseDaemon True)) (\<lambda>_. checkedReset env d c (absSegments repo)))) ?S ?F ?C" for c
  proof (cases "c = cfg")
    case True
    show ?thesis using raising run unfolding True assms(2) sum.case by simp
  qed (simp add: outcome_valid_def)
  have loaded: "outcome_valid ?P (andThen (read_tick ResetIO (\<lambda>s. resetConfig env onboarding (rs_fs s))) (\<lambda>c.
      case resetRepo env c of Inl e \<Rightarrow> raise e | Inr repo \<Rightarrow>
      if \<not> sameCleanPath repo confirmed then raise RepoChanged
      else andThen (peek rs_daemon) (\<lambda>d. case d of None \<Rightarrow> checkedReset env d c (absSegments repo)
        | Some v \<Rightarrow> if dm_job v then raise SyncRunning else andThen (memory (pauseDaemon True)) (\<lambda>_. checkedReset env d c (absSegments repo))))) ?S ?F ?C"
    by (rule outcome_andThen [OF load rest]) (auto intro!: lawful_intros split: sum.split option.split)
  show ?thesis unfolding resetLocalSetup_def by (intro outcome_if raising loaded)
qed

section \<open>Properties\<close>

text \<open>What a reader of the repository can check: where a node is, and whether the setup is gone.\<close>

definition nothingLost :: "reset_env \<Rightarrow> string list \<Rightarrow> fsys \<Rightarrow> fsys \<Rightarrow> bool" where
  "nothingLost env repo fs0 fs \<longleftrightarrow>
     (\<forall>p n. fmlookup fs0 p = Some n \<longrightarrow> fmlookup fs p = Some n \<or>
        (\<exists>(i, t)\<in>set (resetTargets env repo). prefix t p \<and> fmlookup fs (stagedAt env repo i @ drop (length t) p) = Some n))"

definition setupGone :: "reset_env \<Rightarrow> string list \<Rightarrow> fsys \<Rightarrow> reset_state \<Rightarrow> bool" where
  "setupGone env repo fs0 s \<longleftrightarrow>
     goneAll (resetTargets env repo) (rs_fs s) \<and> (\<exists>active. activeAccount env fs0 = Inr active \<and> forgotten active s)"

definition othersKept :: "reset_env \<Rightarrow> string list \<Rightarrow> fsys \<Rightarrow> fsys \<Rightarrow> bool" where
  "othersKept env repo fs0 fs \<longleftrightarrow>
     (\<forall>p n. fmlookup fs0 p = Some n \<longrightarrow> (\<forall>(i, t)\<in>set (resetTargets env repo). \<not> prefix t p) \<longrightarrow> fmlookup fs p = Some n)"

lemma placed_other:
  assumes "set K \<subseteq> planOf env repo (resetTargets env repo)" "\<forall>(i, t)\<in>set (resetTargets env repo). \<not> prefix t p"
  shows "placedAt K p = p"
proof (cases rule: placed_cases [of K p])
  case (2 a b)
  then show ?thesis using assms by (fastforce simp: planOf_def)
qed

lemma staged_lost: "stagedNodes env repo fs0 K fs \<Longrightarrow> nothingLost env repo fs0 fs \<and> othersKept env repo fs0 fs"
proof
  assume st: "stagedNodes env repo fs0 K fs"
  show "nothingLost env repo fs0 fs" unfolding nothingLost_def
  proof (intro allI impI)
    fix p n assume "fmlookup fs0 p = Some n"
    then have at: "fmlookup fs (placedAt K p) = Some n" using st by (simp add: stagedNodes_def kept_def)
    show "fmlookup fs p = Some n \<or>
        (\<exists>(i, t)\<in>set (resetTargets env repo). prefix t p \<and> fmlookup fs (stagedAt env repo i @ drop (length t) p) = Some n)"
    proof (cases rule: placed_cases [of K p])
      case 1
      then show ?thesis using at by simp
    next
      case (2 a b)
      then have "(a, b) \<in> planOf env repo (resetTargets env repo)" using st by (auto simp: stagedNodes_def)
      then obtain i where "(i, a) \<in> set (resetTargets env repo)" "b = stagedAt env repo i" by (auto simp: planOf_def)
      then show ?thesis using at 2 by auto
    qed
  qed
  show "othersKept env repo fs0 fs" unfolding othersKept_def
    using st placed_other [of K env repo] by (auto simp: stagedNodes_def kept_def) (metis (no_types, lifting))
qed

lemma cleaned_gone: "cleaned env repo fs0 active K s \<Longrightarrow> activeAccount env fs0 = Inr active \<Longrightarrow>
    setupGone env repo fs0 s \<and> othersKept env repo fs0 (rs_fs s)"
  using placed_other [of K env repo] unfolding cleaned_def setupGone_def othersKept_def by blast

definition demo_reset_env :: reset_env where
  "demo_reset_env = \<lparr>re_home = ''/h/.synchub'', re_goos = ''linux'', re_userHome = ''/h'',
     re_decode = (\<lambda>b. if b = ''cfg'' then Some (DefaultConfig [''demo'']) else None),
     re_activeID = (\<lambda>b. if b = ''seven'' then Some 7 else None), re_providers = Some [demo_provider],
     re_library = demo_library_view, re_origin = (\<lambda>_. None), re_stagingSuffix = ''1'', re_cloneSuffix = ''2''\<rparr>"

definition demo_reset_fs :: fsys where
  "demo_reset_fs = fmap_of_list
     [([], DirNode), ([''h''], DirNode), ([''h'', ''notes''], FileNode ''mine''), ([''h'', ''.synchub''], DirNode),
      ([''h'', ''.synchub'', ''config.yaml''], FileNode ''cfg''), ([''h'', ''.synchub'', ''auth.json''], FileNode ''seven''),
      ([''h'', ''.synchub'', ''logs''], DirNode), ([''h'', ''.synchub'', ''repo''], DirNode),
      ([''h'', ''.synchub'', ''repo'', ''.git''], DirNode), ([''h'', ''.synchub'', ''repo'', ''manifest.json''], FileNode ''{}'')]"

definition demo_reset :: reset_state where
  "demo_reset = \<lparr>rs_fs = demo_reset_fs, rs_keyring = [7, 8],
     rs_daemon = Some \<lparr>dm_job = False, dm_paused = False, dm_stopped = False, dm_auto = True\<rparr>, rs_running = True,
     rs_generation = 0, rs_summary = True, rs_moved = [], rs_cloneStaging = None, rs_restore = True\<rparr>"

definition demo_reset_run :: "fault list \<Rightarrow> (reset_error + unit) \<times> reset_state world" where
  "demo_reset_run faults = resetLocalSetup demo_reset_env False ''RESET'' ''/h/.synchub/repo'' [] (boot demo_reset faults)"

text \<open>The rename of the account file fails after the repository and the settings have been moved.\<close>

lemma demo_rollback:
  "(case demo_reset_run (replicate 27 Works @ [Fails []]) of (r, w) \<Rightarrow>
      (r, w_dead w, fm_keys (rs_fs (w_disk w)) = fm_keys demo_reset_fs, rs_keyring (w_disk w), rs_daemon (w_disk w))) =
   (Inl (StageFailed [''h'', ''.synchub'', ''auth.json'']), False, True, [7, 8],
    Some \<lparr>dm_job = False, dm_paused = False, dm_stopped = False, dm_auto = False\<rparr>)"
  by code_simp

lemma demo_reset_repo:
  "resetConfig demo_reset_env [] demo_reset_fs = Inr (DefaultConfig [''demo''])"
  "resetRepo demo_reset_env (DefaultConfig [''demo'']) = Inr ''/h/.synchub/repo''"
  by code_simp+

text \<open> C4. A reset is a transaction, whatever operation fails and wherever the process dies: a node that is neither in the
  repository nor one of SyncHub's own files stays as it is; each of the others is at its place or at its place in a staging
  directory, until all of them have left their places and the credential is gone; a reset that reports success has got
  there, with the daemon stopped and the remembered results cleared; and synchronization runs after a failed reset only
  when every node is back at its place. \<close>

theorem reset_is_a_transaction:
  assumes "resetConfig env onboarding (rs_fs s) = Inr cfg" "resetRepo env cfg = Inr repo"
    and "resetLocalSetup env cancelled confirmation confirmed onboarding (boot s faults) = (r, w)"
  shows "othersKept env (absSegments repo) (rs_fs s) (rs_fs (w_disk w)) \<and>
    (nothingLost env (absSegments repo) (rs_fs s) (rs_fs (w_disk w)) \<or> setupGone env (absSegments repo) (rs_fs s) (w_disk w)) \<and>
    (\<not> w_dead w \<and> r = Inr () \<longrightarrow>
       setupGone env (absSegments repo) (rs_fs s) (w_disk w) \<and> rs_daemon (w_disk w) = None \<and> \<not> rs_summary (w_disk w)) \<and>
    (\<not> w_dead w \<and> r \<noteq> Inr () \<and> rs_daemon (w_disk w) \<noteq> None \<longrightarrow> grownFrom (rs_fs s) (rs_fs (w_disk w)))"
proof -
  let ?repo = "absSegments repo"
  have start: "\<not> w_dead (boot s faults)" "rs_fs (w_disk (boot s faults)) = rs_fs s" by (simp_all add: boot_def)
  note D = outcome_validD [OF outcome_resetLocalSetup [OF assms(1,2)] start assms(3)]
  have success: "\<not> w_dead w \<Longrightarrow> r = Inr () \<Longrightarrow> resetSuccess env ?repo (rs_fs s) (w_disk w)" by (rule D(3))
  have failure: "\<not> w_dead w \<Longrightarrow> r = Inl e \<Longrightarrow> resetFailure env ?repo (rs_fs s) (w_disk w)" for e by (rule D(2))
  have result: "resetResult env ?repo (rs_fs s) (w_disk w)"
  proof (cases "w_dead w")
    case False
    then show ?thesis using success failure by (cases r) (auto simp: resetSuccess_def resetFailure_def resetResult_def)
  qed (rule D(1))
  then have kept: "othersKept env ?repo (rs_fs s) (rs_fs (w_disk w)) \<and>
      (nothingLost env ?repo (rs_fs s) (rs_fs (w_disk w)) \<or> setupGone env ?repo (rs_fs s) (w_disk w))"
    unfolding resetResult_def using staged_lost cleaned_gone by blast
  have "setupGone env ?repo (rs_fs s) (w_disk w) \<and> rs_daemon (w_disk w) = None \<and> \<not> rs_summary (w_disk w)"
    if "\<not> w_dead w \<and> r = Inr ()"
    using success that cleaned_gone unfolding resetSuccess_def by blast
  moreover have "grownFrom (rs_fs s) (rs_fs (w_disk w))" if "\<not> w_dead w \<and> r \<noteq> Inr () \<and> rs_daemon (w_disk w) \<noteq> None"
    using failure that unfolding resetFailure_def by (cases r) auto
  ultimately show ?thesis using kept by blast
qed

theorem reset_is_a_transaction_witness:
  "\<exists>w. demo_reset_run (replicate 27 Works @ [Fails []]) = (Inl (StageFailed [''h'', ''.synchub'', ''auth.json'']), w) \<and>
     othersKept demo_reset_env [''h'', ''.synchub'', ''repo''] demo_reset_fs (rs_fs (w_disk w)) \<and>
     grownFrom demo_reset_fs (rs_fs (w_disk w))"
proof -
  obtain w where w: "demo_reset_run (replicate 27 Works @ [Fails []]) = (Inl (StageFailed [''h'', ''.synchub'', ''auth.json'']), w)"
      "\<not> w_dead w" "rs_daemon (w_disk w) \<noteq> None"
    using demo_rollback by (cases "demo_reset_run (replicate 27 Works @ [Fails []])") auto
  have segs: "absSegments ''/h/.synchub/repo'' = [''h'', ''.synchub'', ''repo'']" by code_simp
  have fs: "rs_fs demo_reset = demo_reset_fs" by (simp add: demo_reset_def)
  note T = reset_is_a_transaction [of demo_reset_env "[]" demo_reset, unfolded fs, OF demo_reset_repo w(1) [unfolded demo_reset_run_def], unfolded segs]
  show ?thesis using w T by blast
qed

text \<open>
  A reset that times out waiting for the synchronization loop has already paused and cancelled it; the daemon stays
  registered, so starting it again does nothing although nothing was removed.
\<close>

lemma stop_timeout_strands_synchronization:
  "(case demo_reset_run (replicate 12 Works @ [Fails []]) of (r, w) \<Rightarrow>
      (r, w_dead w, fm_keys (rs_fs (w_disk w)) = fm_keys demo_reset_fs, rs_daemon (w_disk w),
       rs_daemon (snd (run (startConfigured demo_reset_env) (w_disk w))))) =
   (Inl StopTimeout, False, True,
    Some \<lparr>dm_job = False, dm_paused = True, dm_stopped = True, dm_auto = True\<rparr>,
    Some \<lparr>dm_job = False, dm_paused = True, dm_stopped = True, dm_auto = True\<rparr>)"
  by code_simp

end
