(* ===== verification/Update_Release.thy ===== *)
theory Update_Release
  imports Go_Text "HOL-Library.Word"
begin

text \<open>
  Finding and downloading a release (internal/updater/release.go): stable versions, the assets of a
  release and their checksums, the request loop with its retries, the download of the installer into
  the cache and its verification.  The network is a list of what it does to the coming requests; file
  operations fail and processes die as the schedule of the world says, a cancelled context shows at its
  next check.  The JSON decoder, SHA-256, the names of temporary files and the renderer of errors are
  parameters.
\<close>

section \<open>Versions\<close>

type_synonym version = "64 word \<times> 64 word \<times> 64 word"

definition parsePart :: "string \<Rightarrow> 64 word option" where
  "parsePart part =
     (if part = [] \<or> length part > 1 \<and> hd part = CHR ''0'' then None
      else map_option of_nat (parseUint 64 part))"

definition parseVersion :: "string \<Rightarrow> version option" where
  "parseVersion text =
     (case split_on CHR ''.'' (trim_prefix ''v'' text) of
        [a, b, c] \<Rightarrow> (case (parsePart a, parsePart b, parsePart c) of
            (Some x, Some y, Some z) \<Rightarrow> Some (x, y, z) | _ \<Rightarrow> None)
      | _ \<Rightarrow> None)"

fun newerThan :: "version \<Rightarrow> version \<Rightarrow> bool" where
  "newerThan (a, b, c) (x, y, z) = (if a \<noteq> x then a > x else if b \<noteq> y then b > y else c > z)"

section \<open>Releases\<close>

record asset =
  as_name :: string
  as_url :: string
  as_size :: int

record release =
  rl_tag :: string
  rl_draft :: bool
  rl_prerelease :: bool
  rl_assets :: "asset list"

definition RepositoryURL :: string where
  "RepositoryURL = ''https://github.com/jelllove/SyncHub-for-Agents''"

definition releaseAPI :: string where
  "releaseAPI = ''https://api.github.com/repos/jelllove/SyncHub-for-Agents/releases/latest''"

definition InstallerName :: string where
  "InstallerName = ''SyncHub-for-Agents-Setup-x64.exe''"

definition ChecksumsName :: string where
  "ChecksumsName = ''SHA256SUMS.txt''"

definition maxInstaller :: int where
  "maxInstaller = 268435456"

datatype update_error =
    UpdateFault
  | RequestCancelled
  | NetworkError
  | HTTPStatus nat
  | GaveUp update_error
  | BodyBroken
  | BodyTooLarge
  | BadRelease
  | NotStable
  | BadVersion string
  | DuplicateAsset string
  | MissingAsset string string
  | UnexpectedURL string
  | BadAssetSize string
  | BadChecksums
  | NoChecksum
  | SizeDiffers
  | DigestDiffers
  | BadExpectedChecksum
  | CacheTampered

definition assetURL :: "string \<Rightarrow> string \<Rightarrow> string" where
  "assetURL tag name = RepositoryURL @ ''/releases/download/'' @ PathEscape tag @ ''/'' @ name"

fun pickAsset :: "string \<Rightarrow> asset list \<Rightarrow> asset option \<Rightarrow> update_error + asset option" where
  "pickAsset name [] found = Inr found"
| "pickAsset name (a # rest) found =
     (if as_name a \<noteq> name then pickAsset name rest found
      else if found \<noteq> None then Inl (DuplicateAsset name)
      else pickAsset name rest (Some a))"

definition findAsset :: "release \<Rightarrow> string \<Rightarrow> update_error + asset" where
  "findAsset r name =
     (case pickAsset name (rl_assets r) None of
        Inl e \<Rightarrow> Inl e
      | Inr None \<Rightarrow> Inl (MissingAsset (rl_tag r) name)
      | Inr (Some a) \<Rightarrow>
          if as_url a \<noteq> assetURL (rl_tag r) name then Inl (UnexpectedURL name)
          else if as_size a \<le> 0 \<or> as_size a > maxInstaller then Inl (BadAssetSize name)
          else Inr a)"

definition checksumLine :: "string \<Rightarrow> string \<Rightarrow> update_error + string" where
  "checksumLine line checksum =
     (case go_fields line of
        [digest, name] \<Rightarrow>
          if trim_prefix ''*'' name \<noteq> InstallerName then Inr checksum
          else if \<not> sha256Hex digest \<or> checksum \<noteq> [] then Inl BadChecksums
          else Inr (to_lower digest)
      | _ \<Rightarrow> Inr checksum)"

definition installerChecksum :: "string \<Rightarrow> update_error + string" where
  "installerChecksum data =
     (case fold_res checksumLine (split_on CHR 0x0A data) [] of
        Inl e \<Rightarrow> Inl e
      | Inr checksum \<Rightarrow> if checksum = [] then Inl NoChecksum else Inr checksum)"

section \<open>The network\<close>

text \<open>A reply carries its body and whether reading it breaks off at its end.\<close>

datatype reply =
    Reply nat string bool
  | Unreachable bool

record update_disk =
  ud_files :: "(string, string) fmap"
  ud_net :: "reply list"
  ud_fetched :: "(string \<times> string) list"

record update_env =
  ue_sha :: "string \<Rightarrow> string"
  ue_decode :: "string \<Rightarrow> release option"
  ue_tempName :: "string \<Rightarrow> update_disk \<Rightarrow> string"
  ue_errorText :: "update_error \<Rightarrow> string"

type_synonym 'a update_io = "(update_disk, update_error, 'a) io"

definition ctxOk :: "unit update_io" where
  "ctxOk = tick RequestCancelled (\<lambda>d _. d) (\<lambda>d. (Inr (), d))"

text \<open>One request; a network that has nothing more to say is unreachable.\<close>

definition request :: "string \<Rightarrow> reply update_io" where
  "request url = tick NetworkError (\<lambda>d _. d) (\<lambda>d. case ud_net d of
     [] \<Rightarrow> (Inr (Unreachable False), d)
   | r # rest \<Rightarrow> (Inr r, d\<lparr>ud_net := rest,
       ud_fetched := (case r of Reply code x _ \<Rightarrow> if code = 200 then (url, x) # ud_fetched d else ud_fetched d | Unreachable _ \<Rightarrow> ud_fetched d)\<rparr>))"

definition retryStatus :: "nat \<Rightarrow> bool" where
  "retryStatus code \<longleftrightarrow> code \<in> set [500, 502, 503, 504]"

text \<open>The parts of a parsed URL that decide whether a redirect is followed.\<close>

record url_parts =
  ur_scheme :: string
  ur_user :: bool
  ur_port :: string
  ur_host :: string

definition trustedDownloadURL :: "url_parts \<Rightarrow> bool" where
  "trustedDownloadURL u \<longleftrightarrow>
     ur_scheme u = ''https'' \<and> \<not> ur_user u \<and> ur_port u = [] \<and>
     ur_host u \<in> set [''api.github.com'', ''github.com'', ''release-assets.githubusercontent.com'',
       ''objects.githubusercontent.com'']"

definition checkRedirect :: "url_parts list \<Rightarrow> url_parts \<Rightarrow> bool" where
  "checkRedirect via u \<longleftrightarrow> length via < 5 \<and> trustedDownloadURL u"

text \<open>
  \<open>getFrom k\<close> has \<open>k\<close> attempts left.  The text of the last error is wrapped when the attempts are used up.
\<close>

fun getFrom :: "nat \<Rightarrow> string \<Rightarrow> (string \<times> bool) update_io" where
  "getFrom 0 url = raise NetworkError"
| "getFrom (Suc k) url =
     andThen ctxOk (\<lambda>_.
     attempt (request url) (\<lambda>r.
     let failed = (\<lambda>retry e.
           andThen ctxOk (\<lambda>_.
             if \<not> retry then raise e
             else if k = 0 then raise (GaveUp e)
             else andThen ctxOk (\<lambda>_. getFrom k url)))
     in case r of
          Inl e \<Rightarrow> failed False e
        | Inr (Unreachable retry) \<Rightarrow> failed retry NetworkError
        | Inr (Reply code x broken) \<Rightarrow>
            if code = 200 then ret (x, broken) else failed (retryStatus code) (HTTPStatus code)))"

definition getURL :: "string \<Rightarrow> (string \<times> bool) update_io" where
  "getURL url = getFrom 3 url"

text \<open>At most \<open>n\<close> bytes of a body.\<close>

definition readUpTo :: "int \<Rightarrow> string \<times> bool \<Rightarrow> string option" where
  "readUpTo n = (\<lambda>(x, broken).
     if int (length x) < n then if broken then None else Some x else Some (take (nat n) x))"

definition readLimited :: "int \<Rightarrow> string \<times> bool \<Rightarrow> update_error + string" where
  "readLimited limit b =
     (case readUpTo (limit + 1) b of
        None \<Rightarrow> Inl BodyBroken
      | Some x \<Rightarrow> if int (length x) > limit then Inl BodyTooLarge else Inr x)"

definition given :: "update_error + 'a \<Rightarrow> 'a update_io" where
  "given r = (case r of Inl e \<Rightarrow> raise e | Inr a \<Rightarrow> ret a)"

definition latestRelease :: "update_env \<Rightarrow> release update_io" where
  "latestRelease env =
     andThen (getURL releaseAPI) (\<lambda>body.
     andThen (given (readLimited 1048576 body)) (\<lambda>x.
       case ue_decode env x of
         None \<Rightarrow> raise BadRelease
       | Some r \<Rightarrow>
           if rl_draft r \<or> rl_prerelease r then raise NotStable
           else if parseVersion (rl_tag r) = None then raise (BadVersion (rl_tag r))
           else ret r))"

section \<open>The download\<close>

record pending =
  pn_path :: string
  pn_checksum :: string
  pn_version :: string

definition fileOp :: "unit update_io" where
  "fileOp = tick UpdateFault (\<lambda>d _. d) (\<lambda>d. (Inr (), d))"

definition createTemp :: "update_env \<Rightarrow> string \<Rightarrow> string update_io" where
  "createTemp env dir = tick UpdateFault (\<lambda>d _. d) (\<lambda>d.
     let p = dir @ ''/installer-'' @ ue_tempName env dir d @ ''.exe'' in
     if fmlookup (ud_files d) p \<noteq> None then (Inl UpdateFault, d)
     else (Inr p, d\<lparr>ud_files := fmupd p [] (ud_files d)\<rparr>))"

text \<open>Writing the installer; what a failed write leaves is any text.\<close>

definition writeInstaller :: "string \<Rightarrow> string \<Rightarrow> unit update_io" where
  "writeInstaller p x = tick UpdateFault
     (\<lambda>d ns. d\<lparr>ud_files := fmupd p (concat ns) (ud_files d)\<rparr>)
     (\<lambda>d. (Inr (), d\<lparr>ud_files := fmupd p x (ud_files d)\<rparr>))"

definition removeInstaller :: "string \<Rightarrow> unit update_io" where
  "removeInstaller p = tick UpdateFault (\<lambda>d _. d) (\<lambda>d. (Inr (), d\<lparr>ud_files := fmdrop p (ud_files d)\<rparr>))"

text \<open>Copying a body into the new file and checking what arrived.\<close>

definition fillInstaller :: "update_env \<Rightarrow> string \<Rightarrow> int \<Rightarrow> string \<Rightarrow> string \<times> bool \<Rightarrow> unit update_io" where
  "fillInstaller env p expected checksum body =
     (let limit = expected + 1 in
      andThen (writeInstaller p (take (nat limit) (fst body))) (\<lambda>_.
        case readUpTo limit body of
          None \<Rightarrow> raise BodyBroken
        | Some x \<Rightarrow>
            if int (length x) \<noteq> expected then raise SizeDiffers
            else if ue_sha env x \<noteq> checksum then raise DigestDiffers
            else andThen fileOp (\<lambda>_. fileOp)))"

definition download :: "update_env \<Rightarrow> release \<Rightarrow> string \<Rightarrow> pending update_io" where
  "download env r dir =
     andThen (given (findAsset r InstallerName)) (\<lambda>installer.
     andThen (given (findAsset r ChecksumsName)) (\<lambda>sums.
     andThen (getURL (as_url sums)) (\<lambda>sumsBody.
     andThen (given (readLimited 65536 sumsBody)) (\<lambda>data.
     andThen (given (installerChecksum data)) (\<lambda>checksum.
     andThen fileOp (\<lambda>_.
     andThen (getURL (as_url installer)) (\<lambda>body.
     andThen (createTemp env dir) (\<lambda>p.
     attempt (fillInstaller env p (as_size installer) checksum body) (\<lambda>q. case q of
        Inl e \<Rightarrow> attempt (removeInstaller p) (\<lambda>_. raise e)
      | Inr _ \<Rightarrow> ret \<lparr>pn_path = p, pn_checksum = checksum, pn_version = rl_tag r\<rparr>)))))))))"

definition verifyInstaller :: "update_env \<Rightarrow> string \<Rightarrow> string \<Rightarrow> unit update_io" where
  "verifyInstaller env p checksum =
     (if \<not> sha256Hex checksum then raise BadExpectedChecksum
      else andThen (read_tick UpdateFault (\<lambda>d. case fmlookup (ud_files d) p of
              None \<Rightarrow> Inl UpdateFault | Some x \<Rightarrow> Inr x)) (\<lambda>x.
        if x = [] \<or> int (length x) > maxInstaller \<or> ue_sha env x \<noteq> to_lower checksum then raise CacheTampered
        else ret ()))"

end
