(* ===== verification/Update_Manager.thy ===== *)
theory Update_Manager
  imports Update_Release
begin

text \<open>
  The update manager (internal/updater/manager.go): its status, the installer it has staged, and the
  operations of the desktop on it.  A check stages a verified installer; only a restart that was asked
  for or a quit with automatic updates launches it, after the application has stopped.  The settings
  and the result file hold their decoded JSON; the time and the launcher of the platform are parameters.
\<close>

section \<open>State\<close>

record status =
  st_currentVersion :: string
  st_latestVersion :: string
  st_phase :: string
  st_automatic :: bool
  st_supported :: bool
  st_releaseURL :: string
  st_error :: string
  st_lastChecked :: string

record manager =
  mg_status :: status
  mg_pending :: "pending option"
  mg_restart :: bool
  mg_disk :: update_disk
  mg_settings :: "bool option stored option"
  mg_result :: "string option stored option"
  mg_launched :: "(pending \<times> bool) list"

record manager_env =
  me_release :: update_env
  me_directory :: string
  me_now :: string
  me_launch :: "pending \<Rightarrow> bool \<Rightarrow> string option"

type_synonym 'a manager_io = "(manager, string, 'a) io"

text \<open>The manager's own fields change without any file operation.\<close>

definition adjust :: "(manager \<Rightarrow> manager) \<Rightarrow> status manager_io" where
  "adjust f w = (if w_dead w then (Inl ''stopped'', w) else (Inr (mg_status (f (w_disk w))), w\<lparr>w_disk := f (w_disk w)\<rparr>))"

definition observe :: "(manager \<Rightarrow> 'a) \<Rightarrow> 'a manager_io" where
  "observe f w = (if w_dead w then (Inl ''stopped'', w) else (Inr (f (w_disk w)), w))"

definition change :: "(status \<Rightarrow> status) \<Rightarrow> status manager_io" where
  "change f = adjust (\<lambda>m. m\<lparr>mg_status := f (mg_status m)\<rparr>)"

definition failed :: "string \<Rightarrow> status manager_io" where
  "failed e = andThen (change (\<lambda>s. s\<lparr>st_phase := ''error'', st_error := e\<rparr>)) (\<lambda>_. raise e)"

text \<open>The release client works on the files and the network of the manager.\<close>

definition onRelease :: "manager_env \<Rightarrow> 'a update_io \<Rightarrow> 'a manager_io" where
  "onRelease env m w =
     (case m (boot (mg_disk (w_disk w)) (w_faults w)\<lparr>w_dead := w_dead w\<rparr>) of
        (r, v) \<Rightarrow> (case r of Inl e \<Rightarrow> Inl (ue_errorText (me_release env) e) | Inr a \<Rightarrow> Inr a,
          w\<lparr>w_disk := (w_disk w)\<lparr>mg_disk := w_disk v\<rparr>, w_faults := w_faults v, w_dead := w_dead v\<rparr>))"

section \<open>Operations\<close>

text \<open>\<open>loadJSON\<close> leaves the default alone when the file or the field is missing.\<close>

definition loadField :: "'a \<Rightarrow> 'a option stored option \<Rightarrow> string + 'a" where
  "loadField dflt f =
     (case f of None \<Rightarrow> Inr dflt
      | Some Corrupt \<Rightarrow> Inl ''invalid JSON''
      | Some (Stored None) \<Rightarrow> Inr dflt
      | Some (Stored (Some v)) \<Rightarrow> Inr v)"

definition initialStatus :: "string \<Rightarrow> string \<Rightarrow> string \<Rightarrow> bool \<Rightarrow> string \<Rightarrow> status" where
  "initialStatus current goos arch automatic previous =
     \<lparr>st_currentVersion = current, st_latestVersion = [],
      st_phase = (if previous \<noteq> [] then ''error'' else ''idle''), st_automatic = automatic,
      st_supported = (goos = ''windows'' \<and> arch = ''amd64''),
      st_releaseURL = RepositoryURL @ ''/releases/latest'',
      st_error = (if previous \<noteq> [] then ''Previous update failed: '' @ previous else []),
      st_lastChecked = []\<rparr>"

definition NewManager ::
  "string \<Rightarrow> string \<Rightarrow> string \<Rightarrow> bool option stored option \<Rightarrow> string option stored option \<Rightarrow> update_disk \<Rightarrow> string + manager" where
  "NewManager current goos arch settings previous d =
     (case loadField True settings of
        Inl e \<Rightarrow> Inl (''load update preferences: '' @ e)
      | Inr automatic \<Rightarrow>
          (case loadField [] previous of
             Inl e \<Rightarrow> Inl (''load previous update result: '' @ e)
           | Inr err \<Rightarrow> Inr \<lparr>mg_status = initialStatus current goos arch automatic err,
               mg_pending = None, mg_restart = False, mg_disk = d, mg_settings = settings,
               mg_result = previous, mg_launched = []\<rparr>))"

definition SetAutomatic :: "bool \<Rightarrow> status manager_io" where
  "SetAutomatic enabled =
     attempt (tick ''fault'' (\<lambda>m _. m) (\<lambda>m. (Inr (), m\<lparr>mg_settings := Some (Stored (Some enabled))\<rparr>))) (\<lambda>r. case r of
       Inl e \<Rightarrow> raise (''save update preferences: '' @ e)
     | Inr _ \<Rightarrow> change (\<lambda>s. s\<lparr>st_automatic := enabled\<rparr>))"

definition setPhase :: "string \<Rightarrow> status manager_io" where
  "setPhase phase = change (\<lambda>s. s\<lparr>st_phase := phase\<rparr>)"

definition fetchInstaller :: "manager_env \<Rightarrow> release \<Rightarrow> status manager_io" where
  "fetchInstaller env r =
     andThen (observe mg_pending) (\<lambda>previous.
     andThen (setPhase ''downloading'') (\<lambda>_.
     attempt (onRelease env (download (me_release env) r (me_directory env))) (\<lambda>q. case q of
       Inl e \<Rightarrow> failed e
     | Inr p \<Rightarrow>
         andThen (adjust (\<lambda>m. m\<lparr>mg_pending := Some p\<rparr>)) (\<lambda>_.
         attempt (case previous of None \<Rightarrow> ret () | Some old \<Rightarrow> onRelease env (removeInstaller (pn_path old))) (\<lambda>_.
           setPhase ''ready'')))))"

definition stageUpdate :: "manager_env \<Rightarrow> release \<Rightarrow> status manager_io" where
  "stageUpdate env r =
     andThen (observe mg_pending) (\<lambda>pending. case pending of
       None \<Rightarrow> fetchInstaller env r
     | Some p \<Rightarrow>
         if pn_version p \<noteq> rl_tag r then fetchInstaller env r
         else attempt (onRelease env (verifyInstaller (me_release env) (pn_path p) (pn_checksum p))) (\<lambda>q. case q of
           Inr _ \<Rightarrow> setPhase ''ready''
         | Inl _ \<Rightarrow> fetchInstaller env r))"

text \<open>What a check does once it has the latest release, and once it knows its own version.\<close>

definition compareRelease :: "manager_env \<Rightarrow> version \<Rightarrow> release \<Rightarrow> status manager_io" where
  "compareRelease env current r =
     (case parseVersion (rl_tag r) of
        None \<Rightarrow> failed ''invalid version''
      | Some latest \<Rightarrow>
          andThen (change (\<lambda>s. s\<lparr>st_latestVersion := rl_tag r, st_lastChecked := me_now env,
            st_releaseURL := RepositoryURL @ ''/releases/tag/'' @ rl_tag r\<rparr>)) (\<lambda>s.
          if \<not> newerThan latest current then setPhase ''upToDate''
          else if \<not> st_supported s then setPhase ''available''
          else stageUpdate env r))"

definition checkRelease :: "manager_env \<Rightarrow> version \<Rightarrow> status manager_io" where
  "checkRelease env current =
     andThen (change (\<lambda>s. s\<lparr>st_phase := ''checking'', st_error := []\<rparr>)) (\<lambda>_.
     attempt (onRelease env (latestRelease (me_release env))) (\<lambda>q. case q of
       Inl e \<Rightarrow> failed e
     | Inr r \<Rightarrow> compareRelease env current r))"

text \<open>\<open>free\<close> is what \<open>TryLock\<close> says of the lock that all the slow operations share.\<close>

definition CheckUpdate :: "manager_env \<Rightarrow> bool \<Rightarrow> status manager_io" where
  "CheckUpdate env free =
     (if \<not> free then raise ''an update check is already in progress''
      else andThen (observe id) (\<lambda>m.
        if mg_restart m then ret (mg_status m)
        else case parseVersion (st_currentVersion (mg_status m)) of
          None \<Rightarrow> failed ''automatic updates are disabled for development builds''
        | Some current \<Rightarrow> checkRelease env current))"

definition RequestRestart :: "manager_env \<Rightarrow> bool \<Rightarrow> status manager_io" where
  "RequestRestart env free =
     (if \<not> free then raise ''wait for the update check to finish before restarting''
      else andThen (observe id) (\<lambda>m.
        case mg_pending m of
          None \<Rightarrow> raise ''no verified update is ready to install''
        | Some p \<Rightarrow>
            if \<not> st_supported (mg_status m) \<or> st_phase (mg_status m) \<noteq> ''ready''
            then raise ''no verified update is ready to install''
            else andThen (onRelease env (verifyInstaller (me_release env) (pn_path p) (pn_checksum p))) (\<lambda>_.
              adjust (\<lambda>m. m\<lparr>mg_restart := True\<rparr>))))"

definition ApplyOnExit :: "manager_env \<Rightarrow> unit manager_io" where
  "ApplyOnExit env =
     andThen (observe id) (\<lambda>m. let s = mg_status m in
     case mg_pending m of
       None \<Rightarrow> ret ()
     | Some p \<Rightarrow>
         if st_phase s \<noteq> ''ready'' \<or> (\<not> st_automatic s \<and> \<not> mg_restart m) then
           andThen (onRelease env (removeInstaller (pn_path p))) (\<lambda>_.
           andThen (adjust (\<lambda>m. m\<lparr>mg_pending := None\<rparr>)) (\<lambda>_. ret ()))
         else andThen (adjust (\<lambda>d. d\<lparr>mg_launched := (p, mg_restart m) # mg_launched d\<rparr>)) (\<lambda>_.
           case me_launch env p (mg_restart m) of
             None \<Rightarrow> ret ()
           | Some e \<Rightarrow>
               andThen (change (\<lambda>s. s\<lparr>st_phase := ''error'', st_error := e\<rparr>)) (\<lambda>_.
               attempt (tick ''fault'' (\<lambda>m _. m) (\<lambda>m. (Inr (), m\<lparr>mg_result := Some (Stored (Some e))\<rparr>))) (\<lambda>_.
                 raise e))))"

text \<open>
  The background loop: it does nothing in a development build, checks at its start unless the previous
  update failed, and then on every tick of its timer and whenever automatic updates are switched on.
\<close>

definition scheduledCheck :: "manager_env \<Rightarrow> bool \<Rightarrow> unit manager_io" where
  "scheduledCheck env free =
     andThen (observe mg_status) (\<lambda>s.
       if \<not> st_automatic s then ret () else attempt (CheckUpdate env free) (\<lambda>_. ret ()))"

definition startLoop :: "manager_env \<Rightarrow> bool \<Rightarrow> bool manager_io" where
  "startLoop env free =
     andThen (observe mg_status) (\<lambda>s.
       if parseVersion (st_currentVersion s) = None then ret False
       else andThen (if st_phase s \<noteq> ''error'' then scheduledCheck env free else ret ()) (\<lambda>_. ret True))"

text \<open>
  Cleaning up copies of the helper: an entry of the cache has a name, a modification time and may be
  something else than a regular file.  Every removal is tried.
\<close>

record cache_entry =
  ce_name :: string
  ce_regular :: bool
  ce_modTime :: int

definition isStaleHelper :: "int \<Rightarrow> cache_entry \<Rightarrow> bool" where
  "isStaleHelper now e \<longleftrightarrow>
     prefix ''updater-helper-'' (ce_name e) \<and> suffix ''.exe'' (ce_name e) \<and>
     ce_regular e \<and> ce_modTime e < now - 86400"

definition CleanupStaleHelpers :: "string \<Rightarrow> int \<Rightarrow> cache_entry list \<Rightarrow> update_error list update_io" where
  "CleanupStaleHelpers dir now entries =
     forEach (\<lambda>e failures. attempt (removeInstaller (dir @ ''/'' @ ce_name e)) (\<lambda>r. case r of
         Inl x \<Rightarrow> ret (failures @ [x])
       | Inr _ \<Rightarrow> ret failures)) (filter (isStaleHelper now) entries) []"

text \<open>
  What the desktop does with the manager while it runs, and what anything else on the machine does to
  the files of the cache.
\<close>

datatype manager_event =
    Automatic bool
  | Checked bool
  | LoopStarts bool
  | Ticks bool
  | RestartRequested bool
  | FilesChanged "(string, string) fmap"

definition manager_step :: "manager_env \<Rightarrow> manager_event \<Rightarrow> manager manager_io" where
  "manager_step env e =
     andThen (case e of
        Automatic b \<Rightarrow> attempt (SetAutomatic b) (\<lambda>_. ret ())
      | Checked free \<Rightarrow> attempt (CheckUpdate env free) (\<lambda>_. ret ())
      | LoopStarts free \<Rightarrow> attempt (startLoop env free) (\<lambda>_. ret ())
      | Ticks free \<Rightarrow> scheduledCheck env free
      | RestartRequested free \<Rightarrow> attempt (RequestRestart env free) (\<lambda>_. ret ())
      | FilesChanged fs \<Rightarrow> attempt (adjust (\<lambda>m. m\<lparr>mg_disk := (mg_disk m)\<lparr>ud_files := fs\<rparr>\<rparr>)) (\<lambda>_. ret ()))
       (\<lambda>_. observe id)"

definition session :: "manager_env \<Rightarrow> manager_event list \<Rightarrow> manager \<Rightarrow> manager manager_io" where
  "session env = forEach (\<lambda>e _. manager_step env e)"

end
