(* ===== verification/Update_Launch.thy ===== *)
theory Update_Launch
  imports Update_Manager
begin

text \<open>
  What the updater guarantees: a download leaves a verified installer or nothing new, and only a
  newer release that its published checksum vouches for is ever handed to the installer.  The proofs
  carry the log of fetched replies and the manager's invariant through every operation with the
  rules of the fault logic.
\<close>

section \<open>The release client\<close>

definition fetched :: "update_disk \<Rightarrow> (string \<times> string) set" where
  "fetched d = set (ud_fetched d)"

text \<open>The files are \<open>fs\<close>, and nothing in \<open>F\<close> has been forgotten.\<close>

definition stands :: "(string, string) fmap \<Rightarrow> (string \<times> string) set \<Rightarrow> update_disk \<Rightarrow> bool" where
  "stands fs F d \<longleftrightarrow> ud_files d = fs \<and> F \<subseteq> fetched d"

named_theorems stands_intros \<open>operations that change no file\<close>

lemma stands_quiet [stands_intros]:
  "fault_valid (stands fs F) ctxOk (\<lambda>_. stands fs F) (stands fs F)"
  "fault_valid (stands fs F) fileOp (\<lambda>_. stands fs F) (stands fs F)"
  "fault_valid (stands fs F) (given r) (\<lambda>a d. r = Inr a \<and> stands fs F d) (stands fs F)"
  unfolding ctxOk_def fileOp_def given_def
  by (auto intro!: fault_tick fault_ret fault_raise split: sum.split)

lemma stands_request:
  "fault_valid (stands fs F) (request url)
     (\<lambda>r d. stands fs F d \<and> (\<forall>x b. r = Reply 200 x b \<longrightarrow> (url, x) \<in> fetched d)) (stands fs F)"
  unfolding request_def
  by (rule fault_tick) (auto simp: stands_def fetched_def split: list.splits reply.splits if_splits)

lemma stands_getFrom:
  "fault_valid (stands fs F) (getFrom k url) (\<lambda>b. stands fs (insert (url, fst b) F)) (stands fs F)"
proof (induction k)
  case 0
  show ?case by (simp add: fault_raise)
next
  case (Suc k)
  have retry: "fault_valid (stands fs F) (andThen ctxOk (\<lambda>_. if \<not> again then raise e else if k = 0 then raise (GaveUp e)
      else andThen ctxOk (\<lambda>_. getFrom k url))) (\<lambda>b. stands fs (insert (url, fst b) F)) (stands fs F)" for again e
    by (intro fault_andThen [OF stands_quiet(1)] fault_if fault_raise Suc)
  have next_try: "fault_valid (\<lambda>d. stands fs F d \<and> (\<forall>x b. r = Reply 200 x b \<longrightarrow> (url, x) \<in> fetched d))
      (case Inr r of Inl e \<Rightarrow> failed False e | Inr (Unreachable again) \<Rightarrow> failed again NetworkError
       | Inr (Reply code x broken) \<Rightarrow> if code = 200 then ret (x, broken) else failed (retryStatus code) (HTTPStatus code))
      (\<lambda>b. stands fs (insert (url, fst b) F)) (stands fs F)"
    if "failed = (\<lambda>again e. andThen ctxOk (\<lambda>_. if \<not> again then raise e else if k = 0 then raise (GaveUp e)
      else andThen ctxOk (\<lambda>_. getFrom k url)))" for r failed
  proof (cases r)
    case (Reply code x b)
    show ?thesis
    proof (cases "code = 200")
      case True
      then show ?thesis by (simp add: Reply, intro fault_ret) (simp add: stands_def)
    next
      case False
      then show ?thesis using fault_weaken [OF retry] by (simp add: Reply that)
    qed
  next
    case (Unreachable again)
    then show ?thesis using fault_weaken [OF retry] by (simp add: that)
  qed
  show ?case
    unfolding getFrom.simps Let_def
    by (rule fault_andThen [OF stands_quiet(1)], rule fault_attempt [OF stands_request next_try [OF refl]])
      (use retry [of False] in simp)
qed

lemmas stands_getURL [stands_intros] = stands_getFrom [of _ _ 3, folded getURL_def]

text \<open>The published checksum of a release.\<close>

definition published :: "update_disk \<Rightarrow> string \<Rightarrow> string \<Rightarrow> bool" where
  "published d tag checksum \<longleftrightarrow>
     (\<exists>x. (assetURL tag ChecksumsName, x) \<in> fetched d \<and> installerChecksum x = Inr checksum)"

definition verifiedFile :: "update_env \<Rightarrow> update_disk \<Rightarrow> pending \<Rightarrow> bool" where
  "verifiedFile env d p \<longleftrightarrow>
     (\<exists>x. fmlookup (ud_files d) (pn_path p) = Some x \<and> ue_sha env x = pn_checksum p)"

lemma pickAsset_some: "pickAsset name xs found = Inr (Some a) \<Longrightarrow> found = Some a \<or> (a \<in> set xs \<and> as_name a = name)"
  by (induction name xs found rule: pickAsset.induct) (auto split: if_splits)

lemma findAsset_url: "findAsset r name = Inr a \<Longrightarrow> as_url a = assetURL (rl_tag r) name \<and> 0 < as_size a \<and> as_size a \<le> maxInstaller"
  by (auto simp: findAsset_def split: sum.splits option.splits if_splits)

lemma readLimited_whole: "readLimited n b = Inr x \<Longrightarrow> x = fst b"
  by (cases b) (auto simp: readLimited_def readUpTo_def split: option.splits if_splits)

text \<open>What the disk looks like when the new file may have been written.\<close>

definition beside :: "string \<Rightarrow> (string, string) fmap \<Rightarrow> (string \<times> string) set \<Rightarrow> update_disk \<Rightarrow> bool" where
  "beside p fs F d \<longleftrightarrow> fmlookup fs p = None \<and> fmdrop p (ud_files d) = fs \<and> F \<subseteq> fetched d"

lemma beside_write: "beside p fs F d \<Longrightarrow> beside p fs F (d\<lparr>ud_files := fmupd p x (ud_files d)\<rparr>)"
  by (auto simp: beside_def fetched_def fmdrop_fmupd_same)

lemma fmdrop_fresh: "fmlookup fs p = None \<Longrightarrow> fmdrop p fs = fs"
  by (rule fmap_ext) auto

lemma createTemp_beside:
  "fault_valid (stands fs F) (createTemp env dir) (\<lambda>p. beside p fs F) (stands fs F)"
  unfolding createTemp_def
  by (rule fault_tick) (auto simp: stands_def beside_def fetched_def Let_def fmdrop_fresh fmdrop_fmupd_same split: if_splits)

lemma fillInstaller_beside:
  "fault_valid (beside p fs F) (fillInstaller env p n checksum b)
     (\<lambda>_ d. beside p fs F d \<and> (\<exists>x. fmlookup (ud_files d) p = Some x \<and> int (length x) = n \<and> ue_sha env x = checksum)) (beside p fs F)"
proof -
  let ?x = "take (nat (n + 1)) (fst b)"
  let ?holds = "\<lambda>d. beside p fs F d \<and> fmlookup (ud_files d) p = Some ?x"
  have filled: "fault_valid (beside p fs F) (writeInstaller p ?x) (\<lambda>_. ?holds) (beside p fs F)"
    unfolding writeInstaller_def by (rule fault_tick) (auto simp: beside_write)
  have quiet: "fault_valid ?holds fileOp (\<lambda>_. ?holds) ?holds"
    unfolding fileOp_def by (rule fault_tick) auto
  have sync: "fault_valid ?holds (andThen fileOp (\<lambda>_. fileOp)) (\<lambda>_. ?holds) (beside p fs F)"
    by (rule fault_weaken [OF fault_andThen [OF quiet quiet]]) auto
  have check: "fault_valid ?holds (case readUpTo (n + 1) b of None \<Rightarrow> raise BodyBroken
      | Some x \<Rightarrow> if int (length x) \<noteq> n then raise SizeDiffers else if ue_sha env x \<noteq> checksum then raise DigestDiffers
        else andThen fileOp (\<lambda>_. fileOp))
     (\<lambda>_ d. beside p fs F d \<and> (\<exists>x. fmlookup (ud_files d) p = Some x \<and> int (length x) = n \<and> ue_sha env x = checksum)) (beside p fs F)"
  proof (cases "readUpTo (n + 1) b")
    case None
    then show ?thesis by (auto intro: fault_raise)
  next
    case (Some x)
    then have "x = ?x" by (cases b) (auto simp: readUpTo_def split: if_splits)
    then show ?thesis unfolding Some by (auto intro!: fault_raise fault_weaken [OF sync])
  qed
  show ?thesis unfolding fillInstaller_def Let_def by (rule fault_andThen [OF filled check])
qed

lemma removeInstaller_beside:
  "fault_valid (beside p fs F) (removeInstaller p) (\<lambda>_. stands fs F) (beside p fs F)"
  unfolding removeInstaller_def
  by (rule fault_tick) (auto simp: stands_def beside_def fetched_def)

text \<open>Whether the temporary file had been made when a download failed.\<close>

definition leftover :: "(string, string) fmap \<Rightarrow> (string \<times> string) set \<Rightarrow> update_disk \<Rightarrow> bool" where
  "leftover fs F d \<longleftrightarrow> stands fs F d \<or> (\<exists>p. beside p fs F d)"

lemma download_verified:
  "fault_valid (stands fs F) (download env r dir)
     (\<lambda>p d. beside (pn_path p) fs F d \<and> verifiedFile env d p \<and> pn_version p = rl_tag r \<and> published d (rl_tag r) (pn_checksum p))
     (leftover fs F)"
proof -
  have stands_left: "stands fs G d \<Longrightarrow> F \<subseteq> G \<Longrightarrow> leftover fs F d" for G d
    by (auto simp: leftover_def stands_def)
  have beside_left: "beside p fs G d \<Longrightarrow> F \<subseteq> G \<Longrightarrow> leftover fs F d" for G p d
    unfolding leftover_def beside_def by blast
  have weak: "fault_valid P m Q (stands fs G) \<Longrightarrow> F \<subseteq> G \<Longrightarrow> fault_valid P m Q (leftover fs F)" for P G and m :: "'b update_io" and Q
    by (erule fault_weaken) (auto intro: stands_left)
  let ?sums = "assetURL (rl_tag r) ChecksumsName"
  have last: "fault_valid (beside p fs G) (attempt (fillInstaller env p n checksum b) (\<lambda>q. case q of
        Inl e \<Rightarrow> attempt (removeInstaller p) (\<lambda>_. raise e)
      | Inr _ \<Rightarrow> ret \<lparr>pn_path = p, pn_checksum = checksum, pn_version = rl_tag r\<rparr>))
      (\<lambda>p d. beside (pn_path p) fs F d \<and> verifiedFile env d p \<and> pn_version p = rl_tag r \<and> published d (rl_tag r) (pn_checksum p))
      (leftover fs F)"
    if G: "F \<subseteq> G" "(?sums, data) \<in> G" "installerChecksum data = Inr checksum" for p G n checksum b data
  proof (rule fault_attempt [OF fillInstaller_beside])
    show "fault_valid (\<lambda>d. beside p fs G d \<and> (\<exists>x. fmlookup (ud_files d) p = Some x \<and> int (length x) = n \<and> ue_sha env x = checksum))
        (case Inr a of Inl e \<Rightarrow> attempt (removeInstaller p) (\<lambda>_. raise e)
          | Inr _ \<Rightarrow> ret \<lparr>pn_path = p, pn_checksum = checksum, pn_version = rl_tag r\<rparr>)
        (\<lambda>p d. beside (pn_path p) fs F d \<and> verifiedFile env d p \<and> pn_version p = rl_tag r \<and> published d (rl_tag r) (pn_checksum p))
        (leftover fs F)" for a :: unit
      using G by (auto intro!: fault_ret simp: beside_def verifiedFile_def published_def)
    show "fault_valid (beside p fs G) (case Inl e of Inl e \<Rightarrow> attempt (removeInstaller p) (\<lambda>_. raise e)
          | Inr _ \<Rightarrow> ret \<lparr>pn_path = p, pn_checksum = checksum, pn_version = rl_tag r\<rparr>)
        (\<lambda>p d. beside (pn_path p) fs F d \<and> verifiedFile env d p \<and> pn_version p = rl_tag r \<and> published d (rl_tag r) (pn_checksum p))
        (leftover fs F)" for e
      using beside_left [OF _ G(1)] stands_left [OF _ G(1)]
      by (auto intro!: fault_attempt [OF removeInstaller_beside] fault_raise)
  qed
  show ?thesis
    unfolding download_def
    apply (rule fault_andThen [OF weak [OF stands_quiet(3) order_refl]])
    apply (rule fault_andThen [where R = "\<lambda>a d. findAsset r ChecksumsName = Inr a \<and> stands fs F d"])
     apply (rule fault_weaken [OF stands_quiet(3) [of fs F]]; simp add: leftover_def)
    apply (rule fault_given [where P = "stands fs F"])
     prefer 2 apply assumption
    apply (rule fault_andThen [OF weak [OF stands_getURL order_refl]])
    apply (rule fault_andThen [OF weak [OF stands_quiet(3) subset_insertI]])
    apply (rule fault_given [where P = "stands fs (insert (as_url _, fst _) F)"])
     prefer 2 apply assumption
    apply (rule fault_andThen [OF weak [OF stands_quiet(3) subset_insertI]])
    apply (rule fault_given [where P = "stands fs (insert (as_url _, fst _) F)"])
     prefer 2 apply assumption
    apply (rule fault_andThen [OF weak [OF stands_quiet(2) subset_insertI]])
    apply (rule fault_andThen [OF weak [OF stands_getURL subset_insertI]])
    apply (rule fault_andThen [OF weak [OF createTemp_beside]])
     apply blast
    apply (rule last)
      apply blast
     apply (auto dest!: findAsset_url readLimited_whole)
    done
qed

text \<open>The client never forgets what it fetched, whatever the files.\<close>

definition remembers :: "(string \<times> string) set \<Rightarrow> update_disk \<Rightarrow> bool" where
  "remembers F d \<longleftrightarrow> F \<subseteq> fetched d"

definition growing :: "'a update_io \<Rightarrow> ('a \<Rightarrow> update_disk \<Rightarrow> bool) \<Rightarrow> bool" where
  "growing m Q \<longleftrightarrow> (\<forall>F. fault_valid (remembers F) m (\<lambda>a d. remembers F d \<and> Q a d) (remembers F))"

lemma growingI:
  assumes "\<And>fs F. fault_valid (stands fs F) m (\<lambda>a d. remembers F d \<and> Q a d) (remembers F)"
  shows "growing m Q"
  unfolding growing_def fault_valid_def
proof (intro allI impI)
  fix F and w :: "update_disk world" assume "remembers F (w_disk w)"
  then have "stands (ud_files (w_disk w)) F (w_disk w)" by (simp add: stands_def remembers_def)
  then show "case m w of (Inl _, w') \<Rightarrow> remembers F (w_disk w') | (Inr a, w') \<Rightarrow> remembers F (w_disk w') \<and> Q a (w_disk w')"
    using assms [of "ud_files (w_disk w)" F, unfolded fault_valid_def, rule_format, of w] by simp
qed

lemma stands_remembers: "stands fs G d \<Longrightarrow> F \<subseteq> G \<Longrightarrow> remembers F d"
  by (auto simp: stands_def remembers_def)

lemma growing_download:
  "growing (download env r dir) (\<lambda>p d. pn_version p = rl_tag r \<and> published d (rl_tag r) (pn_checksum p))"
  by (rule growingI, rule fault_weaken [OF download_verified])
    (auto simp: leftover_def stands_def beside_def remembers_def)

lemma growing_removeInstaller: "growing (removeInstaller p) (\<lambda>_ _. True)"
  unfolding growing_def removeInstaller_def by (auto intro!: fault_tick simp: remembers_def fetched_def)

lemma growing_verifyInstaller: "growing (verifyInstaller env p checksum) (\<lambda>_ _. True)"
  unfolding growing_def verifyInstaller_def
  by (auto intro!: fault_if fault_raise fault_andThen [where R = "\<lambda>_. remembers _"] fault_read_tick fault_ret)

lemma growing_latestRelease: "growing (latestRelease env) (\<lambda>r _. parseVersion (rl_tag r) \<noteq> None)"
proof (rule growingI)
  fix fs F
  let ?Q = "\<lambda>r d. remembers F d \<and> parseVersion (rl_tag r) \<noteq> None"
  have weak: "fault_valid P m Q (stands fs G) \<Longrightarrow> F \<subseteq> G \<Longrightarrow> fault_valid P m Q (remembers F)"
    for P G and m :: "'b update_io" and Q
    by (erule fault_weaken) (auto intro: stands_remembers)
  have decoded: "fault_valid (stands fs G) (case x of None \<Rightarrow> raise BadRelease
      | Some r \<Rightarrow> if rl_draft r \<or> rl_prerelease r then raise NotStable
          else if parseVersion (rl_tag r) = None then raise (BadVersion (rl_tag r)) else ret r) ?Q (remembers F)"
    if "F \<subseteq> G" for x G
  proof (cases x)
    case None
    show ?thesis unfolding None option.case by (rule fault_raise) (rule stands_remembers [OF _ that])
  next
    case (Some r)
    show ?thesis unfolding Some option.case
      by (intro fault_if fault_raise fault_ret) (simp_all add: stands_remembers [OF _ that])
  qed
  show "fault_valid (stands fs F) (latestRelease env) ?Q (remembers F)"
    unfolding latestRelease_def
    by (rule fault_andThen [OF weak [OF stands_getURL order_refl]],
        rule fault_andThen [OF weak [OF stands_quiet(3) subset_insertI]],
        rule fault_weaken [OF decoded [OF subset_insertI]]) auto
qed

section \<open>The manager\<close>

definition newerVersion :: "string \<Rightarrow> string \<Rightarrow> bool" where
  "newerVersion current tag \<longleftrightarrow>
     (case (parseVersion current, parseVersion tag) of (Some c, Some v) \<Rightarrow> newerThan v c | _ \<Rightarrow> False)"

definition trusted :: "string \<Rightarrow> update_disk \<Rightarrow> pending \<Rightarrow> bool" where
  "trusted current d p \<longleftrightarrow> newerVersion current (pn_version p) \<and> published d (pn_version p) (pn_checksum p)"

definition staged :: "string \<Rightarrow> bool \<Rightarrow> manager \<Rightarrow> bool" where
  "staged current supported m \<longleftrightarrow>
     st_currentVersion (mg_status m) = current \<and> st_supported (mg_status m) = supported \<and> mg_launched m = [] \<and>
     (case mg_pending m of None \<Rightarrow> \<not> mg_restart m | Some p \<Rightarrow> supported \<and> trusted current (mg_disk m) p) \<and>
     (mg_restart m \<longrightarrow> st_phase (mg_status m) = ''ready'')"

lemma trusted_remembers: "trusted c d p \<Longrightarrow> remembers (fetched d) d' \<Longrightarrow> trusted c d' p"
  by (auto simp: trusted_def published_def remembers_def)

lemma fault_at:
  assumes "\<And>x. P x \<Longrightarrow> fault_valid (\<lambda>d. d = x) m Q E"
  shows "fault_valid P m Q E"
  unfolding fault_valid_def
proof (intro allI impI)
  fix w :: "'a world" assume "P (w_disk w)"
  from assms [OF this, unfolded fault_valid_def, rule_format, of w]
  show "case m w of (Inl _, w') \<Rightarrow> E (w_disk w') | (Inr a, w') \<Rightarrow> Q a (w_disk w')" by simp
qed

text \<open>A call of the client keeps everything but the files and the network.\<close>

lemma onRelease_same:
  assumes "growing m Q"
  shows "fault_valid (\<lambda>d. d = x) (onRelease env m)
    (\<lambda>a d. (\<exists>y. d = x\<lparr>mg_disk := y\<rparr> \<and> remembers (fetched (mg_disk x)) y \<and> Q a y))
    (\<lambda>d. (\<exists>y. d = x\<lparr>mg_disk := y\<rparr> \<and> remembers (fetched (mg_disk x)) y))"
  unfolding fault_valid_def
proof (intro allI impI)
  fix w :: "manager world" assume w: "w_disk w = x"
  let ?b = "boot (mg_disk (w_disk w)) (w_faults w)\<lparr>w_dead := w_dead w\<rparr>"
  obtain r v where m: "m ?b = (r, v)" by (cases "m ?b")
  have "fault_valid (remembers (fetched (mg_disk x))) m (\<lambda>a d. remembers (fetched (mg_disk x)) d \<and> Q a d) (remembers (fetched (mg_disk x)))"
    using assms by (simp add: growing_def)
  note D = fault_validD [OF this _ m]
  have "remembers (fetched (mg_disk x)) (w_disk ?b)" by (simp add: remembers_def boot_def w)
  note D = D [OF this]
  show "case onRelease env m w of
      (Inl _, w') \<Rightarrow> \<exists>y. w_disk w' = x\<lparr>mg_disk := y\<rparr> \<and> remembers (fetched (mg_disk x)) y
    | (Inr a, w') \<Rightarrow> \<exists>y. w_disk w' = x\<lparr>mg_disk := y\<rparr> \<and> remembers (fetched (mg_disk x)) y \<and> Q a y"
    using D m w by (cases r) (simp_all add: onRelease_def, blast+)
qed

lemma onRelease_keeps:
  assumes "growing m Q" and "\<And>x y. J x \<Longrightarrow> remembers (fetched (mg_disk x)) y \<Longrightarrow> J (x\<lparr>mg_disk := y\<rparr>)"
  shows "fault_valid J (onRelease env m) (\<lambda>a x. J x \<and> Q a (mg_disk x)) J"
  by (rule fault_at, rule fault_weaken [OF onRelease_same [OF assms(1)]]) (auto intro: assms(2))

lemma adjust_step: "(\<And>m. J m \<Longrightarrow> K (mg_status (f m)) (f m)) \<Longrightarrow> (\<And>m. J m \<Longrightarrow> E m) \<Longrightarrow> fault_valid J (adjust f) K E"
  by (simp add: fault_valid_def adjust_def)

lemma observe_step: "(\<And>m. J m \<Longrightarrow> E m) \<Longrightarrow> fault_valid J (observe f) (\<lambda>a m. a = f m \<and> J m) E"
  by (simp add: fault_valid_def observe_def)

text \<open>While a check runs, no restart has been asked for.\<close>

definition unasked :: "string \<Rightarrow> bool \<Rightarrow> manager \<Rightarrow> bool" where
  "unasked current supported m \<longleftrightarrow> staged current supported m \<and> \<not> mg_restart m"

lemma staged_disk: "staged c s x \<Longrightarrow> remembers (fetched (mg_disk x)) y \<Longrightarrow> staged c s (x\<lparr>mg_disk := y\<rparr>)"
  by (auto simp: staged_def intro: trusted_remembers split: option.splits)

lemma unasked_disk: "unasked c s x \<Longrightarrow> remembers (fetched (mg_disk x)) y \<Longrightarrow> unasked c s (x\<lparr>mg_disk := y\<rparr>)"
  by (simp add: unasked_def staged_disk)

lemma unasked_onRelease:
  "growing m Q \<Longrightarrow>
     fault_valid (unasked c s) (onRelease env m) (\<lambda>a x. unasked c s x \<and> Q a (mg_disk x)) (unasked c s)"
  by (rule onRelease_keeps) (auto intro: unasked_disk)

lemma unasked_change:
  assumes "\<And>x. st_currentVersion (f x) = st_currentVersion x" "\<And>x. st_supported (f x) = st_supported x"
  shows "fault_valid (unasked c s) (change f) (\<lambda>a m. unasked c s m \<and> st_supported a = s) (unasked c s)"
  unfolding change_def by (rule adjust_step) (auto simp: unasked_def staged_def assms split: option.splits)

lemma unasked_failed: "fault_valid (unasked c s) (failed e) (\<lambda>_. unasked c s) (unasked c s)"
  unfolding failed_def by (rule fault_andThen [OF unasked_change]) (auto intro: fault_raise)

lemma unasked_setPhase: "fault_valid (unasked c s) (setPhase e) (\<lambda>_. unasked c s) (unasked c s)"
  unfolding setPhase_def by (rule fault_weaken [OF unasked_change]) auto

lemma unasked_fetch:
  assumes "s" "newerVersion c (rl_tag r)"
  shows "fault_valid (unasked c s) (fetchInstaller env r) (\<lambda>_. unasked c s) (unasked c s)"
proof -
  have take: "fault_valid (\<lambda>m. unasked c s m \<and> pn_version p = rl_tag r \<and> published (mg_disk m) (rl_tag r) (pn_checksum p))
      (adjust (\<lambda>m. m\<lparr>mg_pending := Some p\<rparr>)) (\<lambda>_. unasked c s) (unasked c s)" for p
    by (rule adjust_step) (use assms in \<open>auto simp: unasked_def staged_def trusted_def\<close>)
  have old: "fault_valid (unasked c s) (case previous of None \<Rightarrow> ret () | Some old \<Rightarrow> onRelease env (removeInstaller (pn_path old)))
      (\<lambda>_. unasked c s) (unasked c s)" for previous
    using fault_weaken [OF unasked_onRelease [OF growing_removeInstaller]]
    by (cases previous) (auto intro: fault_ret)
  have after: "fault_valid (\<lambda>m. unasked c s m \<and> pn_version p = rl_tag r \<and> published (mg_disk m) (rl_tag r) (pn_checksum p))
      (andThen (adjust (\<lambda>m. m\<lparr>mg_pending := Some p\<rparr>)) (\<lambda>_.
         attempt (case previous of None \<Rightarrow> ret () | Some old \<Rightarrow> onRelease env (removeInstaller (pn_path old))) (\<lambda>_.
           setPhase ''ready''))) (\<lambda>_. unasked c s) (unasked c s)" for p previous
    by (rule fault_andThen [OF take fault_attempt [OF old unasked_setPhase unasked_setPhase]])
  have observed: "fault_valid (unasked c s) (observe mg_pending) (\<lambda>_. unasked c s) (unasked c s)"
    by (rule fault_weaken [OF observe_step]) auto
  have got: "fault_valid (unasked c s) (onRelease env (download (me_release env) r (me_directory env)))
      (\<lambda>p m. unasked c s m \<and> pn_version p = rl_tag r \<and> published (mg_disk m) (rl_tag r) (pn_checksum p)) (unasked c s)"
    by (rule unasked_onRelease [OF growing_download])
  show ?thesis
    unfolding fetchInstaller_def
    by (rule fault_andThen [OF observed], rule fault_andThen [OF unasked_setPhase], rule fault_attempt [OF got])
      (simp_all add: after unasked_failed)
qed

lemma unasked_stage:
  assumes "s" "newerVersion c (rl_tag r)"
  shows "fault_valid (unasked c s) (stageUpdate env r) (\<lambda>_. unasked c s) (unasked c s)"
proof -
  have observed: "fault_valid (unasked c s) (observe mg_pending) (\<lambda>_. unasked c s) (unasked c s)"
    by (rule fault_weaken [OF observe_step]) auto
  have kept: "fault_valid (unasked c s) (onRelease env (verifyInstaller (me_release env) p k)) (\<lambda>_. unasked c s) (unasked c s)" for p k
    by (rule fault_weaken [OF unasked_onRelease [OF growing_verifyInstaller]]) auto
  show ?thesis
    unfolding stageUpdate_def
    by (rule fault_andThen [OF observed])
      (auto intro!: unasked_fetch [OF assms] fault_attempt [OF kept] unasked_setPhase split: option.split)
qed

lemma unasked_staged: "unasked c s m \<Longrightarrow> staged c s m"
  by (simp add: unasked_def)

lemma unasked_compareRelease:
  assumes "parseVersion c = Some current"
  shows "fault_valid (unasked c s) (compareRelease env current r) (\<lambda>_. unasked c s) (unasked c s)"
proof (cases "parseVersion (rl_tag r)")
  case None
  then show ?thesis by (simp add: compareRelease_def unasked_failed)
next
  case (Some latest)
  have chosen: "fault_valid (\<lambda>m. unasked c s m \<and> st_supported a = s)
      (if \<not> newerThan latest current then setPhase ''upToDate''
       else if \<not> st_supported a then setPhase ''available'' else stageUpdate env r) (\<lambda>_. unasked c s) (unasked c s)" for a
    by (intro fault_if; rule fault_given [where P = "unasked c s" and A = "st_supported a = s"])
      (auto intro!: unasked_setPhase unasked_stage simp: newerVersion_def assms Some)
  show ?thesis unfolding compareRelease_def Some option.case
    by (rule fault_andThen [OF unasked_change chosen]) simp_all
qed

lemma unasked_checkRelease:
  assumes "parseVersion c = Some current"
  shows "fault_valid (unasked c s) (checkRelease env current) (\<lambda>_. unasked c s) (unasked c s)"
proof -
  have "fault_valid (unasked c s) (change (\<lambda>s. s\<lparr>st_phase := ''checking'', st_error := []\<rparr>)) (\<lambda>_. unasked c s) (unasked c s)"
    by (rule fault_weaken [OF unasked_change]) auto
  moreover have "fault_valid (unasked c s) (onRelease env (latestRelease (me_release env))) (\<lambda>_. unasked c s) (unasked c s)"
    by (rule fault_weaken [OF unasked_onRelease [OF growing_latestRelease]]) auto
  ultimately show ?thesis unfolding checkRelease_def
    by (rule fault_andThen [OF _ fault_attempt]) (simp_all add: unasked_failed unasked_compareRelease [OF assms])
qed

text \<open>A step that starts by reading the whole state.\<close>

lemma fault_observe:
  assumes "\<And>x. J x \<Longrightarrow> fault_valid (\<lambda>m. m = x) (f x) K E" "\<And>x. J x \<Longrightarrow> E x"
  shows "fault_valid J (andThen (observe id) f) K E"
proof (rule fault_at, rule fault_andThen [where R = "\<lambda>a m. a = x \<and> m = x" for x])
  fix x assume J: "J x"
  show "fault_valid (\<lambda>d. d = x) (observe id) (\<lambda>a m. a = x \<and> m = x) E"
    by (rule fault_weaken [OF observe_step [where J = "\<lambda>d. d = x" and E = E]]) (use assms(2) J in auto)
  show "fault_valid (\<lambda>m. a = x \<and> m = x) (f a) K E" for a
    by (rule fault_given [where A = "a = x" and P = "\<lambda>m. m = x"]) (use assms(1) J in auto)
qed

lemma staged_Check: "fault_valid (staged c s) (CheckUpdate env free) (\<lambda>_. staged c s) (staged c s)"
  unfolding CheckUpdate_def
proof (intro fault_if fault_raise fault_observe)
  show "fault_valid (\<lambda>m. m = x) (ret (mg_status x)) (\<lambda>_. staged c s) (staged c s)" if "staged c s x" for x
    using that by (auto intro: fault_ret)
  show "fault_valid (\<lambda>m. m = x) (case parseVersion (st_currentVersion (mg_status x)) of
      None \<Rightarrow> failed ''automatic updates are disabled for development builds''
    | Some current \<Rightarrow> checkRelease env current) (\<lambda>_. staged c s) (staged c s)"
    if "staged c s x" "\<not> mg_restart x" for x
  proof -
    have x: "unasked c s x" "st_currentVersion (mg_status x) = c" using that by (auto simp: unasked_def staged_def)
    have "fault_valid (unasked c s) (case parseVersion c of
        None \<Rightarrow> failed ''automatic updates are disabled for development builds''
      | Some current \<Rightarrow> checkRelease env current) (\<lambda>_. unasked c s) (unasked c s)"
      by (auto simp: unasked_failed unasked_checkRelease split: option.split)
    then show ?thesis unfolding x(2) by (rule fault_weaken) (use x(1) in \<open>auto dest: unasked_staged\<close>)
  qed
qed simp_all

lemma staged_RequestRestart: "fault_valid (staged c s) (RequestRestart env free) (\<lambda>_. staged c s) (staged c s)"
  unfolding RequestRestart_def
proof (intro fault_if fault_raise fault_observe)
  fix x assume x: "staged c s x"
  let ?J = "\<lambda>m. staged c s m \<and> mg_pending m = mg_pending x \<and> st_phase (mg_status m) = st_phase (mg_status x)"
  show "fault_valid (\<lambda>m. m = x) (case mg_pending x of None \<Rightarrow> raise ''no verified update is ready to install''
    | Some p \<Rightarrow>
        if \<not> st_supported (mg_status x) \<or> st_phase (mg_status x) \<noteq> ''ready'' then raise ''no verified update is ready to install''
        else andThen (onRelease env (verifyInstaller (me_release env) (pn_path p) (pn_checksum p))) (\<lambda>_.
          adjust (\<lambda>m. m\<lparr>mg_restart := True\<rparr>))) (\<lambda>_. staged c s) (staged c s)"
  proof (cases "mg_pending x")
    case None
    then show ?thesis using x by (auto intro: fault_raise)
  next
    case (Some p)
    have kept: "fault_valid ?J (onRelease env (verifyInstaller (me_release env) (pn_path p) (pn_checksum p))) (\<lambda>_. ?J) ?J"
      by (rule fault_weaken [OF onRelease_keeps [OF growing_verifyInstaller, of ?J]]) (auto intro: staged_disk)
    have asked: "fault_valid ?J (adjust (\<lambda>m. m\<lparr>mg_restart := True\<rparr>)) (\<lambda>_. staged c s) (staged c s)"
      if "st_phase (mg_status x) = ''ready''"
      by (rule adjust_step) (use that Some in \<open>auto simp: staged_def\<close>)
    have asking: "fault_valid ?J (andThen (onRelease env (verifyInstaller (me_release env) (pn_path p) (pn_checksum p)))
        (\<lambda>_. adjust (\<lambda>m. m\<lparr>mg_restart := True\<rparr>))) (\<lambda>_. staged c s) (staged c s)"
      if "st_phase (mg_status x) = ''ready''"
      by (rule fault_andThen [OF fault_weaken [OF kept] asked]) (use that in auto)
    show ?thesis
      unfolding Some option.case by (intro fault_if fault_raise) (use x in \<open>auto intro!: fault_weaken [OF asking]\<close>)
  qed
qed simp_all

lemma staged_SetAutomatic: "fault_valid (staged c s) (SetAutomatic b) (\<lambda>_. staged c s) (staged c s)"
proof -
  have saved: "fault_valid (staged c s) (tick ''fault'' (\<lambda>m _. m) (\<lambda>m. (Inr (), m\<lparr>mg_settings := Some (Stored (Some b))\<rparr>)))
      (\<lambda>_. staged c s) (staged c s)"
    by (rule fault_tick) (auto simp: staged_def split: option.splits)
  have changed: "fault_valid (staged c s) (change (\<lambda>s. s\<lparr>st_automatic := b\<rparr>)) (\<lambda>_. staged c s) (staged c s)"
    unfolding change_def by (rule adjust_step) (auto simp: staged_def split: option.splits)
  show ?thesis unfolding SetAutomatic_def
    by (rule fault_attempt [OF saved]) (use changed in \<open>auto intro: fault_raise\<close>)
qed

lemma staged_step: "fault_valid (staged c s) (manager_step env e) (\<lambda>_. staged c s) (staged c s)"
proof -
  have files: "fault_valid (staged c s) (adjust (\<lambda>m. m\<lparr>mg_disk := (mg_disk m)\<lparr>ud_files := fs\<rparr>\<rparr>)) (\<lambda>_. staged c s) (staged c s)" for fs
    by (rule adjust_step) (auto simp: staged_def trusted_def published_def fetched_def split: option.splits)
  have quiet: "fault_valid (staged c s) (attempt m (\<lambda>_. ret ())) (\<lambda>_. staged c s) (staged c s)"
    if "fault_valid (staged c s) m (\<lambda>_. staged c s) (staged c s)" for m :: "'b manager_io"
    by (rule fault_attempt [OF that]) (auto intro: fault_ret)
  have seen: "fault_valid (staged c s) (observe f) (\<lambda>_. staged c s) (staged c s)" for f :: "manager \<Rightarrow> 'b"
    by (rule fault_weaken [OF observe_step]) auto
  have scheduled: "fault_valid (staged c s) (scheduledCheck env free) (\<lambda>_. staged c s) (staged c s)" for free
    unfolding scheduledCheck_def by (rule fault_andThen [OF seen]) (auto intro: fault_ret quiet staged_Check)
  have started: "fault_valid (staged c s) (startLoop env free) (\<lambda>_. staged c s) (staged c s)" for free
    unfolding startLoop_def
    by (rule fault_andThen [OF seen], intro fault_if fault_andThen [OF _ fault_ret] fault_ret) (simp_all add: scheduled fault_ret)
  show ?thesis unfolding manager_step_def
    by (rule fault_andThen [OF _ seen])
      (cases e; simp add: quiet scheduled started staged_SetAutomatic staged_Check staged_RequestRestart files)
qed

lemma staged_session: "fault_valid (staged c s) (session env evs m) (\<lambda>_. staged c s) (staged c s)"
  unfolding session_def by (rule keeps_forEach) (rule staged_step)

lemma staged_New:
  "NewManager current goos arch settings previous d = Inr m \<Longrightarrow> staged current (goos = ''windows'' \<and> arch = ''amd64'') m"
  by (auto simp: NewManager_def staged_def initialStatus_def split: sum.splits)

text \<open>What the exit of the application hands to the installer.\<close>

definition launchedWell :: "string \<Rightarrow> bool \<Rightarrow> manager \<Rightarrow> bool" where
  "launchedWell c s m \<longleftrightarrow>
     (\<forall>(p, restart)\<in>set (mg_launched m). s \<and> trusted c (mg_disk m) p \<and> (restart \<or> st_automatic (mg_status m)))"

lemma launched_ApplyOnExit: "fault_valid (staged c s) (ApplyOnExit env) (\<lambda>_. launchedWell c s) (launchedWell c s)"
  unfolding ApplyOnExit_def
proof (rule fault_observe)
  fix x assume x: "staged c s x"
  let ?J = "\<lambda>m. mg_launched m = []"
  have quiet: "?J m \<Longrightarrow> launchedWell c s m" for m by (simp add: launchedWell_def)
  have J: "?J x" using x by (simp add: staged_def)
  show "fault_valid (\<lambda>m. m = x) (let s = mg_status x in case mg_pending x of None \<Rightarrow> ret () | Some p \<Rightarrow>
      if st_phase s \<noteq> ''ready'' \<or> (\<not> st_automatic s \<and> \<not> mg_restart x) then
        andThen (onRelease env (removeInstaller (pn_path p))) (\<lambda>_. andThen (adjust (\<lambda>m. m\<lparr>mg_pending := None\<rparr>)) (\<lambda>_. ret ()))
      else andThen (adjust (\<lambda>d. d\<lparr>mg_launched := (p, mg_restart x) # mg_launched d\<rparr>)) (\<lambda>_.
        case me_launch env p (mg_restart x) of None \<Rightarrow> ret ()
        | Some e \<Rightarrow> andThen (change (\<lambda>s. s\<lparr>st_phase := ''error'', st_error := e\<rparr>)) (\<lambda>_.
            attempt (tick ''fault'' (\<lambda>m _. m) (\<lambda>m. (Inr (), m\<lparr>mg_result := Some (Stored (Some e))\<rparr>))) (\<lambda>_. raise e))))
    (\<lambda>_. launchedWell c s) (launchedWell c s)"
  proof (cases "mg_pending x")
    case None
    then show ?thesis using quiet J by (auto intro: fault_ret)
  next
    case (Some p)
    have removed: "fault_valid ?J (onRelease env (removeInstaller (pn_path p))) (\<lambda>_. ?J) ?J"
      by (rule fault_weaken [OF onRelease_keeps [OF growing_removeInstaller, of ?J]]) auto
    have forgotten: "fault_valid ?J (andThen (adjust (\<lambda>m. m\<lparr>mg_pending := None\<rparr>)) (\<lambda>_. ret ())) (\<lambda>_. ?J) ?J"
      by (rule fault_andThen [OF adjust_step, of ?J "\<lambda>_. ?J"]) (auto intro: fault_ret)
    have dropped: "fault_valid ?J (andThen (onRelease env (removeInstaller (pn_path p))) (\<lambda>_.
        andThen (adjust (\<lambda>m. m\<lparr>mg_pending := None\<rparr>)) (\<lambda>_. ret ()))) (\<lambda>_. ?J) ?J"
      by (rule fault_andThen [OF removed forgotten])
    let ?L = "launchedWell c s"
    have note_launch: "fault_valid (\<lambda>m. m = x) (adjust (\<lambda>d. d\<lparr>mg_launched := (p, mg_restart x) # mg_launched d\<rparr>)) (\<lambda>_. ?L) ?L"
      if "st_automatic (mg_status x) \<or> mg_restart x"
      by (rule adjust_step) (use x Some that in \<open>auto simp: launchedWell_def staged_def\<close>)
    have changed: "fault_valid ?L (change (\<lambda>s. s\<lparr>st_phase := ''error'', st_error := e\<rparr>)) (\<lambda>_. ?L) ?L" for e
      unfolding change_def by (rule adjust_step) (auto simp: launchedWell_def)
    have saved: "fault_valid ?L (tick ''fault'' (\<lambda>m _. m) (\<lambda>m. (Inr (), m\<lparr>mg_result := Some (Stored (Some e))\<rparr>))) (\<lambda>_. ?L) ?L" for e
      by (rule fault_tick) (auto simp: launchedWell_def)
    have after: "fault_valid ?L (case me_launch env p (mg_restart x) of None \<Rightarrow> ret ()
        | Some e \<Rightarrow> andThen (change (\<lambda>s. s\<lparr>st_phase := ''error'', st_error := e\<rparr>)) (\<lambda>_.
            attempt (tick ''fault'' (\<lambda>m _. m) (\<lambda>m. (Inr (), m\<lparr>mg_result := Some (Stored (Some e))\<rparr>))) (\<lambda>_. raise e))) (\<lambda>_. ?L) ?L"
      by (cases "me_launch env p (mg_restart x)")
        (auto intro!: fault_ret fault_andThen [OF changed] fault_attempt [OF saved] fault_raise)
    show ?thesis
      unfolding Let_def Some option.case
    proof (intro fault_if)
      show "fault_valid (\<lambda>m. m = x) (andThen (onRelease env (removeInstaller (pn_path p))) (\<lambda>_.
          andThen (adjust (\<lambda>m. m\<lparr>mg_pending := None\<rparr>)) (\<lambda>_. ret ()))) (\<lambda>_. ?L) ?L"
        by (rule fault_weaken [OF dropped]) (auto simp: J quiet)
    qed (auto intro!: fault_andThen [OF note_launch after])
  qed
qed (simp add: staged_def launchedWell_def)

section \<open>Examples\<close>

definition demo_digest :: string where
  "demo_digest = replicate 64 CHR ''a''"

definition demo_release :: release where
  "demo_release = \<lparr>rl_tag = ''v1.2.0'', rl_draft = False, rl_prerelease = False, rl_assets =
     [\<lparr>as_name = InstallerName, as_url = assetURL ''v1.2.0'' InstallerName, as_size = 3\<rparr>,
      \<lparr>as_name = ChecksumsName, as_url = assetURL ''v1.2.0'' ChecksumsName, as_size = 99\<rparr>]\<rparr>"

definition demo_update_env :: update_env where
  "demo_update_env = \<lparr>ue_sha = (\<lambda>x. if x = ''exe'' then demo_digest else replicate 64 CHR ''b''),
     ue_decode = (\<lambda>x. if x = ''release'' then Some demo_release else None),
     ue_tempName = (\<lambda>_ _. ''1''), ue_errorText = (\<lambda>_. ''error'')\<rparr>"

definition demo_net :: update_disk where
  "demo_net = \<lparr>ud_files = fmempty, ud_net = [Unreachable True, Reply 200 ''release'' False,
     Reply 200 (demo_digest @ ''  '' @ InstallerName) False, Reply 200 ''exe'' False], ud_fetched = []\<rparr>"

definition demo_manager_env :: manager_env where
  "demo_manager_env = \<lparr>me_release = demo_update_env, me_directory = ''/updates'', me_now = ''now'', me_launch = (\<lambda>_ _. None)\<rparr>"

definition demo_manager :: manager where
  "demo_manager = \<lparr>mg_status = initialStatus ''1.0.0'' ''windows'' ''amd64'' False [],
     mg_pending = None, mg_restart = False, mg_disk = demo_net, mg_settings = Some (Stored (Some False)),
     mg_result = None, mg_launched = []\<rparr>"

definition demo_session :: "(string + manager) \<times> manager world" where
  "demo_session = session demo_manager_env [Checked True, RestartRequested True, Checked True] demo_manager (boot demo_manager [])"

definition demo_exit :: "(string + unit) \<times> manager world" where
  "demo_exit = ApplyOnExit demo_manager_env (snd demo_session)"

definition demo_pending :: pending where
  "demo_pending = \<lparr>pn_path = ''/updates/installer-1.exe'', pn_checksum = demo_digest, pn_version = ''v1.2.0''\<rparr>"

lemma demo_new: "NewManager ''1.0.0'' ''windows'' ''amd64'' (Some (Stored (Some False))) None demo_net = Inr demo_manager"
  by (simp add: NewManager_def loadField_def demo_manager_def)

lemma demo_restarting: "mg_restart (w_disk (snd demo_session)) \<and> \<not> w_dead (snd demo_session)"
  by code_simp

lemma demo_launched: "mg_launched (w_disk (snd demo_exit)) = [(demo_pending, True)]"
  by code_simp

section \<open>Properties\<close>

text \<open> C12. Whatever happens while the application runs (checks, changed settings, restart requests, failing
  operations, files of the cache replaced by anything else), what its exit hands to the installer is on a supported
  platform, of a release newer than the running version, with the checksum that the checksum file fetched for exactly
  that release publishes, and only with automatic updates or after a restart was asked for. \<close>

theorem launched_updates_are_published:
  assumes "NewManager current goos arch settings previous d = Inr m" and "session env evs m (boot m fs) = (r, w)"
    and "ApplyOnExit env w = (q, v)" and "(p, restart) \<in> set (mg_launched (w_disk v))"
  shows "goos = ''windows'' \<and> arch = ''amd64'' \<and> newerVersion current (pn_version p) \<and>
    published (mg_disk (w_disk v)) (pn_version p) (pn_checksum p) \<and>
    (restart \<or> st_automatic (mg_status (w_disk v)))"
proof -
  let ?s = "goos = ''windows'' \<and> arch = ''amd64''"
  have "staged current ?s (w_disk (boot m fs))" using staged_New [OF assms(1)] by (simp add: boot_def)
  then have "staged current ?s (w_disk w)"
    using fault_validD [OF staged_session _ assms(2)] by (cases r) auto
  then have "launchedWell current ?s (w_disk v)"
    using fault_validD [OF launched_ApplyOnExit _ assms(3)] by (cases q) auto
  then show ?thesis using assms(4) by (auto simp: launchedWell_def trusted_def)
qed

lemma launched_updates_are_published_witness:
  "newerVersion ''1.0.0'' (pn_version demo_pending) \<and>
   published (mg_disk (w_disk (snd demo_exit))) (pn_version demo_pending) (pn_checksum demo_pending)"
proof -
  have "session demo_manager_env [Checked True, RestartRequested True, Checked True] demo_manager (boot demo_manager []) =
      (fst demo_session, snd demo_session)" by (simp add: demo_session_def)
  moreover have "ApplyOnExit demo_manager_env (snd demo_session) = (fst demo_exit, snd demo_exit)" by (simp add: demo_exit_def)
  moreover have "(demo_pending, True) \<in> set (mg_launched (w_disk (snd demo_exit)))" by (simp add: demo_launched)
  ultimately show ?thesis using launched_updates_are_published [OF demo_new] by blast
qed

text \<open> C33. A restart that was asked for is carried out: if the process lives until the end, its exit hands exactly the
  staged update to the installer and asks it to start the application again, even when checks, settings and files
  changed after the request. \<close>

theorem requested_restart_is_carried_out:
  assumes "NewManager current goos arch settings previous d = Inr m" and "session env evs m (boot m fs) = (r, w)"
    and "mg_restart (w_disk w)" and "\<not> w_dead w" and "ApplyOnExit env w = (q, v)"
  shows "\<exists>p. mg_pending (w_disk w) = Some p \<and> mg_launched (w_disk v) = [(p, True)]"
proof -
  let ?s = "goos = ''windows'' \<and> arch = ''amd64''"
  have "staged current ?s (w_disk (boot m fs))" using staged_New [OF assms(1)] by (simp add: boot_def)
  then have st: "staged current ?s (w_disk w)"
    using fault_validD [OF staged_session _ assms(2)] by (cases r) auto
  then obtain p where p: "mg_pending (w_disk w) = Some p" "st_phase (mg_status (w_disk w)) = ''ready''" "mg_launched (w_disk w) = []"
    using assms(3) by (auto simp: staged_def split: option.splits)
  show ?thesis
    using assms(3-5) p
    by (auto simp: ApplyOnExit_def Let_def andThen_def attempt_def observe_def adjust_def change_def ret_def raise_def tick_def
        split: option.splits prod.splits sum.splits list.splits fault.splits if_splits)
qed

lemma requested_restart_is_carried_out_witness:
  "\<exists>p. mg_pending (w_disk (snd demo_session)) = Some p \<and> mg_launched (w_disk (snd demo_exit)) = [(p, True)]"
proof -
  have "session demo_manager_env [Checked True, RestartRequested True, Checked True] demo_manager (boot demo_manager []) =
      (fst demo_session, snd demo_session)" by (simp add: demo_session_def)
  moreover have "ApplyOnExit demo_manager_env (snd demo_session) = (fst demo_exit, snd demo_exit)" by (simp add: demo_exit_def)
  ultimately show ?thesis
    using requested_restart_is_carried_out [OF demo_new] demo_restarting by blast
qed

text \<open>A download leaves a verified installer or nothing to install: on success there is one new file, its content has
  the digest the release's checksum file publishes, and every other file is as before; after an error, whichever operation
  failed, at most one new file is left over and no existing file has changed.\<close>

lemma downloads_are_verified:
  assumes "download env rel dir (boot d fs) = (res, w)"
  shows "case res of
      Inr p \<Rightarrow> fmlookup (ud_files d) (pn_path p) = None \<and> fmdrop (pn_path p) (ud_files (w_disk w)) = ud_files d \<and>
        verifiedFile env (w_disk w) p \<and> pn_version p = rl_tag rel \<and> published (w_disk w) (rl_tag rel) (pn_checksum p)
    | Inl _ \<Rightarrow> ud_files (w_disk w) = ud_files d \<or>
        (\<exists>q. fmlookup (ud_files d) q = None \<and> fmdrop q (ud_files (w_disk w)) = ud_files d)"
proof -
  have "stands (ud_files d) {} (w_disk (boot d fs))" by (simp add: stands_def boot_def)
  note D = fault_validD [OF download_verified this assms]
  show ?thesis
  proof (cases res)
    case (Inl e)
    then show ?thesis using D(2) by (auto simp: leftover_def stands_def beside_def)
  next
    case (Inr p)
    then show ?thesis using D(1) by (simp add: beside_def)
  qed
qed

definition demo_download :: "(update_error + pending) \<times> update_disk world" where
  "demo_download = download demo_update_env demo_release ''/updates'' (boot (demo_net\<lparr>ud_net := drop 2 (ud_net demo_net)\<rparr>) [])"

lemma demo_download_succeeds: "fst demo_download = Inr demo_pending"
  by code_simp

lemma downloads_are_verified_witness:
  "verifiedFile demo_update_env (w_disk (snd demo_download)) demo_pending \<and>
   published (w_disk (snd demo_download)) ''v1.2.0'' demo_digest"
proof -
  have "download demo_update_env demo_release ''/updates'' (boot (demo_net\<lparr>ud_net := drop 2 (ud_net demo_net)\<rparr>) []) =
      (Inr demo_pending, snd demo_download)"
    using demo_download_succeeds by (simp add: demo_download_def prod_eq_iff)
  from downloads_are_verified [OF this] show ?thesis by (simp add: demo_release_def demo_pending_def)
qed

end
