(* ===== verification/Update_Helper.thy ===== *)
theory Update_Helper
  imports Go_Text
begin

text \<open>
  The command line of the update helper (internal/updater/helper.go, helper_windows.go): the options
  a launcher passes to the copied executable, how they are written and read back, and what they must
  satisfy before anything is installed.  The path functions of the platform and its argument quoting
  are parameters; an instance for slash-separated paths is given.
\<close>

section \<open>Options\<close>

record file_paths =
  fp_abs :: "string \<Rightarrow> bool"
  fp_clean :: "string \<Rightarrow> string"
  fp_base :: "string \<Rightarrow> string"
  fp_dir :: "string \<Rightarrow> string"
  fp_ext :: "string \<Rightarrow> string"
  fp_volume :: "string \<Rightarrow> string"
  fp_separator :: char
  fp_fold :: "string \<Rightarrow> string"

record helper_options =
  ho_parentPID :: nat
  ho_installer :: string
  ho_checksum :: string
  ho_executable :: string
  ho_restart :: bool
  ho_resultPath :: string
  ho_handoffDir :: string

datatype helper_error =
    BadArguments
  | BadProcessID
  | BadRestartFlag
  | BadHelperPath string
  | WrongExecutable
  | NotAnExecutable
  | FilesystemRoot
  | BadHelperChecksum
  | BadHandoff
  | OverlappingPaths

definition equalFold :: "file_paths \<Rightarrow> string \<Rightarrow> string \<Rightarrow> bool" where
  "equalFold fp a b \<longleftrightarrow> fp_fold fp a = fp_fold fp b"

definition helperFlag :: string where
  "helperFlag = ''--apply-update''"

definition helperKeys :: "string list" where
  "helperKeys = [''--parent-pid'', ''--installer'', ''--sha256'', ''--executable'', ''--restart'', ''--result'', ''--handoff'']"

definition formatBool :: "bool \<Rightarrow> string" where
  "formatBool b = (if b then ''true'' else ''false'')"

definition helperArgs :: "helper_options \<Rightarrow> string list" where
  "helperArgs opt =
     [helperFlag,
      ''--parent-pid'', show_nat (ho_parentPID opt),
      ''--installer'', ho_installer opt,
      ''--sha256'', ho_checksum opt,
      ''--executable'', ho_executable opt,
      ''--restart'', formatBool (ho_restart opt),
      ''--result'', ho_resultPath opt,
      ''--handoff'', ho_handoffDir opt]"

section \<open>Validation\<close>

definition validateHelperPath :: "file_paths \<Rightarrow> string \<Rightarrow> string \<Rightarrow> helper_error option" where
  "validateHelperPath fp name p =
     (if \<not> fp_abs fp p \<or> list_ex (\<lambda>c. c \<in> set [CHR 0x22, CHR 0x0D, CHR 0x0A, CHR 0x00]) p then Some (BadHelperPath name)
      else if fp_clean fp p \<noteq> p then Some (BadHelperPath name)
      else None)"

fun firstError :: "'e option list \<Rightarrow> 'e option" where
  "firstError [] = None"
| "firstError (None # rest) = firstError rest"
| "firstError (Some e # rest) = Some e"

definition unless :: "bool \<Rightarrow> 'e \<Rightarrow> 'e option" where
  "unless ok e = (if ok then None else Some e)"

definition helperPathsOverlap :: "file_paths \<Rightarrow> helper_options \<Rightarrow> bool" where
  "helperPathsOverlap fp opt \<longleftrightarrow>
     equalFold fp (ho_resultPath opt) (ho_installer opt) \<or> equalFold fp (ho_resultPath opt) (ho_executable opt) \<or>
     equalFold fp (ho_installer opt) (ho_executable opt) \<or>
     equalFold fp (fp_dir fp (ho_installer opt)) (fp_dir fp (ho_executable opt)) \<or>
     equalFold fp (fp_dir fp (ho_resultPath opt)) (ho_handoffDir opt)"

definition validateOptions :: "file_paths \<Rightarrow> helper_options \<Rightarrow> helper_error option" where
  "validateOptions fp opt = firstError
     [validateHelperPath fp ''installer'' (ho_installer opt),
      validateHelperPath fp ''executable'' (ho_executable opt),
      validateHelperPath fp ''result'' (ho_resultPath opt),
      validateHelperPath fp ''handoff'' (ho_handoffDir opt),
      unless (equalFold fp (fp_base fp (ho_executable opt)) ''SyncHub.exe'') WrongExecutable,
      unless (equalFold fp (fp_ext fp (ho_installer opt)) ''.exe'') NotAnExecutable,
      unless (fp_dir fp (ho_executable opt) \<noteq> fp_volume fp (ho_executable opt) @ [fp_separator fp]) FilesystemRoot,
      unless (sha256Hex (ho_checksum opt)) BadHelperChecksum,
      unless (equalFold fp (fp_dir fp (ho_handoffDir opt)) (fp_dir fp (ho_installer opt)) \<and>
        prefix ''handoff-'' (fp_base fp (ho_handoffDir opt))) BadHandoff,
      unless (\<not> helperPathsOverlap fp opt) OverlappingPaths]"

text \<open>The options in their order, each after its flag.\<close>

definition keysMatch :: "string list \<Rightarrow> bool" where
  "keysMatch args \<longleftrightarrow> list_all2 (\<lambda>i key. args ! (1 + i * 2) = key) [0, 1, 2, 3, 4, 5, 6] helperKeys"

definition parseHelperArgs :: "file_paths \<Rightarrow> string list \<Rightarrow> helper_error + helper_options" where
  "parseHelperArgs fp args =
     (if length args \<noteq> 15 \<or> args ! 0 \<noteq> helperFlag then Inl BadArguments
      else if \<not> keysMatch args then Inl BadArguments
      else case parseUint 32 (args ! 2) of
        None \<Rightarrow> Inl BadProcessID
      | Some pid \<Rightarrow>
          if pid = 0 then Inl BadProcessID
          else if args ! 10 \<noteq> ''true'' \<and> args ! 10 \<noteq> ''false'' then Inl BadRestartFlag
          else let opt = \<lparr>ho_parentPID = pid, ho_installer = args ! 4, ho_checksum = args ! 6,
                        ho_executable = args ! 8, ho_restart = (args ! 10 = ''true''),
                        ho_resultPath = args ! 12, ho_handoffDir = args ! 14\<rparr>
               in case validateOptions fp opt of Some e \<Rightarrow> Inl e | None \<Rightarrow> Inr opt)"

text \<open>Only a command that starts with the flag is a helper's; a malformed one still is.\<close>

definition RunHelper :: "file_paths \<Rightarrow> string list \<Rightarrow> bool \<times> (helper_error + helper_options) option" where
  "RunHelper fp args =
     (case args of
        [] \<Rightarrow> (False, None)
      | a # _ \<Rightarrow> if a \<noteq> helperFlag then (False, None) else (True, Some (parseHelperArgs fp args)))"

section \<open>The installer's command line\<close>

definition suits_installer :: "file_paths \<Rightarrow> string \<Rightarrow> bool" where
  "suits_installer fp p \<longleftrightarrow>
     (let volume = fp_volume fp p in
      length volume = 2 \<and> volume ! 1 = CHR '':'' \<and> CHR '':'' \<notin> set (drop (length volume) p) \<and>
      \<not> suffix '' '' p \<and> \<not> suffix ''.'' p)"

definition helperInstallerCommandLine :: "file_paths \<Rightarrow> (string \<Rightarrow> string) \<Rightarrow> string \<Rightarrow> string \<Rightarrow> helper_error + string" where
  "helperInstallerCommandLine fp escape installer directory =
     (case firstError [validateHelperPath fp ''installer'' installer,
          unless (suits_installer fp installer) (BadHelperPath ''installer''),
          validateHelperPath fp ''installation directory'' directory,
          unless (suits_installer fp directory) (BadHelperPath ''installation directory'')] of
        Some e \<Rightarrow> Inl e
      | None \<Rightarrow> Inr (escape installer @ '' /S /D='' @ directory))"

section \<open>Lemmas\<close>

lemma firstError_None: "firstError es = None \<longleftrightarrow> list_all (\<lambda>e. e = None) es"
  by (induction es rule: firstError.induct) auto

lemma unless_None [simp]: "unless ok e = None \<longleftrightarrow> ok"
  by (simp add: unless_def)

lemma formatBool_simps [simp]:
  "formatBool b = ''true'' \<longleftrightarrow> b" "formatBool b = ''false'' \<longleftrightarrow> \<not> b"
  by (auto simp: formatBool_def)

lemma helperArgs_nth:
  "length (helperArgs opt) = 15" "helperArgs opt ! 0 = helperFlag" "keysMatch (helperArgs opt)"
  "helperArgs opt ! 2 = show_nat (ho_parentPID opt)" "helperArgs opt ! 4 = ho_installer opt" "helperArgs opt ! 6 = ho_checksum opt"
  "helperArgs opt ! 8 = ho_executable opt" "helperArgs opt ! 10 = formatBool (ho_restart opt)"
  "helperArgs opt ! 12 = ho_resultPath opt" "helperArgs opt ! 14 = ho_handoffDir opt"
  by (simp_all add: helperArgs_def keysMatch_def helperKeys_def)

lemma parse_helperArgs:
  assumes "ho_parentPID opt < 2 ^ 32"
  shows "parseHelperArgs fp (helperArgs opt) =
    (if ho_parentPID opt = 0 then Inl BadProcessID
     else case validateOptions fp opt of Some e \<Rightarrow> Inl e | None \<Rightarrow> Inr opt)"
  using assms parseUint_show_nat [of "ho_parentPID opt" 32]
  by (cases opt) (simp add: parseHelperArgs_def helperArgs_nth Let_def del: parseUint_show_nat split: option.split)

lemma parse_valid:
  assumes "parseHelperArgs fp args = Inr p"
  shows "validateOptions fp p = None \<and> ho_parentPID p \<noteq> 0"
proof -
  define opt where "opt pid = \<lparr>ho_parentPID = pid, ho_installer = args ! 4, ho_checksum = args ! 6,
                        ho_executable = args ! 8, ho_restart = (args ! 10 = ''true''),
                        ho_resultPath = args ! 12, ho_handoffDir = args ! 14\<rparr>" for pid
  show ?thesis
    using assms unfolding parseHelperArgs_def Let_def opt_def [symmetric]
    by (auto simp: opt_def split: option.splits if_splits)
qed

lemma validateOptions_sound:
  assumes "validateOptions fp p = None"
  shows "list_all (\<lambda>f. fp_abs fp f \<and> fp_clean fp f = f \<and> CHR 0x22 \<notin> set f \<and> CHR 0x0A \<notin> set f)
        [ho_installer p, ho_executable p, ho_resultPath p, ho_handoffDir p] \<and>
      \<not> equalFold fp (fp_dir fp (ho_installer p)) (fp_dir fp (ho_executable p)) \<and> sha256Hex (ho_checksum p) \<and>
      equalFold fp (fp_dir fp (ho_handoffDir p)) (fp_dir fp (ho_installer p))"
proof -
  have clean: "fp_abs fp f \<and> fp_clean fp f = f \<and> CHR 0x22 \<notin> set f \<and> CHR 0x0A \<notin> set f"
    if "validateHelperPath fp name f = None" for name f
    using that by (auto simp: validateHelperPath_def list_ex_iff split: if_splits)
  show ?thesis
    using assms by (simp add: validateOptions_def firstError_None helperPathsOverlap_def) (metis clean)
qed

section \<open>An example\<close>

text \<open>Slash-separated paths without volumes, with the case folding of ASCII.\<close>

definition slash_dir :: "string \<Rightarrow> string" where
  "slash_dir p = path_clean (rev (dropWhile (\<lambda>c. c \<noteq> CHR ''/'') (rev p)))"

definition slash_base :: "string \<Rightarrow> string" where
  "slash_base p = last (split_on CHR ''/'' p)"

definition slash_paths :: file_paths where
  "slash_paths = \<lparr>fp_abs = prefix ''/'', fp_clean = path_clean, fp_base = slash_base, fp_dir = slash_dir,
     fp_ext = path_ext, fp_volume = (\<lambda>_. []), fp_separator = CHR ''/'', fp_fold = to_lower\<rparr>"

definition demo_options :: helper_options where
  "demo_options = \<lparr>ho_parentPID = 42, ho_installer = ''/u/cache/installer-1.exe'', ho_checksum = replicate 64 CHR ''a'',
     ho_executable = ''/apps/SyncHub.exe'', ho_restart = True, ho_resultPath = ''/u/result.json'',
     ho_handoffDir = ''/u/cache/handoff-1''\<rparr>"

lemma demo_options_valid: "validateOptions slash_paths demo_options = None"
  by code_simp

section \<open>Properties\<close>

text \<open>The helper reads back exactly the options its launcher wrote: it accepts the launcher's arguments if and
  only if they are valid and name a process, with every option unchanged; and whatever it accepts, from whomever, names
  absolute clean paths without quotes or line breaks, an installer and an executable in different directories, a digest
  of 64 hexadecimal digits, and a handoff directory beside the installer.\<close>

lemma helper_options_roundtrip:
  assumes "ho_parentPID opt < 2 ^ 32"
  shows "(parseHelperArgs fp (helperArgs opt) = Inr q \<longleftrightarrow> q = opt \<and> ho_parentPID opt \<noteq> 0 \<and> validateOptions fp opt = None) \<and>
    (parseHelperArgs fp args = Inr p \<longrightarrow>
      list_all (\<lambda>f. fp_abs fp f \<and> fp_clean fp f = f \<and> CHR 0x22 \<notin> set f \<and> CHR 0x0A \<notin> set f)
        [ho_installer p, ho_executable p, ho_resultPath p, ho_handoffDir p] \<and>
      \<not> equalFold fp (fp_dir fp (ho_installer p)) (fp_dir fp (ho_executable p)) \<and> sha256Hex (ho_checksum p) \<and>
      equalFold fp (fp_dir fp (ho_handoffDir p)) (fp_dir fp (ho_installer p)) \<and> ho_parentPID p \<noteq> 0)"
proof (intro conjI [OF _ impI])
  show "parseHelperArgs fp (helperArgs opt) = Inr q \<longleftrightarrow> q = opt \<and> ho_parentPID opt \<noteq> 0 \<and> validateOptions fp opt = None"
    by (auto simp: parse_helperArgs [OF assms] split: option.splits)
  assume "parseHelperArgs fp args = Inr p"
  then show "list_all (\<lambda>f. fp_abs fp f \<and> fp_clean fp f = f \<and> CHR 0x22 \<notin> set f \<and> CHR 0x0A \<notin> set f)
        [ho_installer p, ho_executable p, ho_resultPath p, ho_handoffDir p] \<and>
      \<not> equalFold fp (fp_dir fp (ho_installer p)) (fp_dir fp (ho_executable p)) \<and> sha256Hex (ho_checksum p) \<and>
      equalFold fp (fp_dir fp (ho_handoffDir p)) (fp_dir fp (ho_installer p)) \<and> ho_parentPID p \<noteq> 0"
    using parse_valid validateOptions_sound by blast
qed

lemma helper_options_roundtrip_witness:
  "parseHelperArgs slash_paths (helperArgs demo_options) = Inr demo_options \<and>
   \<not> equalFold slash_paths ''/u/cache'' ''/apps''"
proof -
  have dirs: "fp_dir slash_paths (ho_installer demo_options) = ''/u/cache'' \<and> fp_dir slash_paths (ho_executable demo_options) = ''/apps''"
    by code_simp
  have "ho_parentPID demo_options < 2 ^ 32" "ho_parentPID demo_options \<noteq> 0" by (simp_all add: demo_options_def)
  then show ?thesis
    using helper_options_roundtrip [of demo_options slash_paths demo_options "helperArgs demo_options" demo_options]
      demo_options_valid dirs by simp
qed

end
