(* ===== verification/Update_Handoff.thy ===== *)
theory Update_Handoff
  imports Update_Release Update_Helper
begin

text \<open>
  Handing an update over (internal/updater/helper.go and helper_windows.go): the application starts a
  copy of itself as helper, waits until the helper reports that it is ready, acknowledges, and exits; the
  helper waits for that acknowledgement and for the exit, verifies the installer again, and installs.
  The two processes share the handoff directory.  They interleave at single operations: an event is one
  step of either side with the outcome of its operation, the exit of the application, the death of the
  helper, or somebody else changing the installer.
\<close>

section \<open>State\<close>

text \<open>Where the launcher and the helper are; a text is the error they carry.\<close>

datatype launcher_at =
    Preparing
  | AwaitingReady
  | Acknowledging
  | Launched
  | LaunchFailed string

datatype helper_at =
    NotStarted
  | CheckingArguments
  | OpeningParent
  | VerifyingBefore
  | CheckingWritable
  | SignallingReady
  | AwaitingProceed
  | AwaitingParent
  | ClosingParent
  | AwaitingUnlock
  | VerifyingAfter
  | Installing
  | RemovingInstaller
  | SavingResult
  | Relaunching
  | SavingFailure string bool
  | ReportingFailure string
  | CleaningUp "string option"
  | HelperExited "string option"

record handoff =
  hf_directory :: bool
  hf_readyFile :: "string option"
  hf_proceedFile :: bool
  hf_installer :: "string option"
  hf_parentRuns :: bool
  hf_launcher :: launcher_at
  hf_helper :: helper_at
  hf_result :: "string option"
  hf_installed :: "string option"
  hf_relaunched :: bool
  hf_tampered :: bool

datatype outcome = Fine | TimesOut | Broken string

datatype handoff_event =
    Starts outcome
  | SeesHelperExit bool
  | ReadsReady outcome bool
  | Acknowledges outcome bool
  | HelperSteps outcome
  | HelperDies
  | ApplicationExits
  | InstallerChanges "string option"

section \<open>The launcher\<close>

text \<open>
  \<open>verifyInstaller\<close> on the shared file; \<open>os.RemoveAll\<close> of the handoff directory may fail, which nobody
  looks at.
\<close>

definition installerOk :: "(string \<Rightarrow> string) \<Rightarrow> string \<Rightarrow> string option \<Rightarrow> bool" where
  "installerOk sha checksum f =
     (case f of None \<Rightarrow> False
      | Some x \<Rightarrow> sha256Hex checksum \<and> x \<noteq> [] \<and> int (length x) \<le> maxInstaller \<and> sha x = to_lower checksum)"

definition removeHandoff :: "bool \<Rightarrow> handoff \<Rightarrow> handoff" where
  "removeHandoff works s =
     (if works then s\<lparr>hf_directory := False, hf_readyFile := None, hf_proceedFile := False\<rparr> else s)"

definition launchFails :: "string \<Rightarrow> bool \<Rightarrow> handoff \<Rightarrow> handoff" where
  "launchFails e works s = (removeHandoff works s)\<lparr>hf_launcher := LaunchFailed e\<rparr>"

text \<open>Everything before the helper runs; the outcome stands for the checks of the machine.\<close>

definition startHelper ::
  "file_paths \<Rightarrow> (string \<Rightarrow> string) \<Rightarrow> (string \<Rightarrow> string) \<Rightarrow> helper_options \<Rightarrow> outcome \<Rightarrow> handoff \<Rightarrow> handoff" where
  "startHelper fp escape sha opt r s =
     (if validateOptions fp opt \<noteq> None \<or>
         (case helperInstallerCommandLine fp escape (ho_installer opt) (fp_dir fp (ho_executable opt)) of Inl _ \<Rightarrow> True | Inr _ \<Rightarrow> False) \<or>
         \<not> installerOk sha (ho_checksum opt) (hf_installer s)
      then s\<lparr>hf_launcher := LaunchFailed ''invalid''\<rparr>
      else case r of
        Fine \<Rightarrow> s\<lparr>hf_directory := True, hf_readyFile := None, hf_proceedFile := False,
                   hf_launcher := AwaitingReady, hf_helper := CheckingArguments\<rparr>
      | TimesOut \<Rightarrow> s\<lparr>hf_launcher := LaunchFailed ''start''\<rparr>
      | Broken e \<Rightarrow> s\<lparr>hf_launcher := LaunchFailed e\<rparr>)"

text \<open>One round of \<open>waitHelperReady\<close>: the answer is absent, an error, or the empty error.\<close>

definition readReady :: "outcome \<Rightarrow> bool \<Rightarrow> handoff \<Rightarrow> handoff" where
  "readReady r works s =
     (case r of
        TimesOut \<Rightarrow> launchFails ''timed out waiting for updater helper readiness'' works s
      | Broken e \<Rightarrow> launchFails e works s
      | Fine \<Rightarrow> (case hf_readyFile s of
           None \<Rightarrow> s
         | Some e \<Rightarrow> if e \<noteq> [] then launchFails e works s else s\<lparr>hf_launcher := Acknowledging\<rparr>))"

definition acknowledge :: "outcome \<Rightarrow> bool \<Rightarrow> handoff \<Rightarrow> handoff" where
  "acknowledge r works s =
     (if r = Fine \<and> hf_directory s then s\<lparr>hf_proceedFile := True, hf_launcher := Launched\<rparr>
      else launchFails ''acknowledge updater handoff'' works s)"

section \<open>The helper\<close>

text \<open>
  An error goes through the deferred calls: the result is saved, the launcher is told if it does not
  know yet, and the handoff directory is removed.
\<close>

definition fails :: "string \<Rightarrow> bool \<Rightarrow> handoff \<Rightarrow> handoff" where
  "fails e ready s = s\<lparr>hf_helper := SavingFailure e ready\<rparr>"

definition continues :: "string \<Rightarrow> outcome \<Rightarrow> bool \<Rightarrow> helper_at \<Rightarrow> handoff \<Rightarrow> handoff" where
  "continues what r ready pc s =
     (case r of
        Fine \<Rightarrow> s\<lparr>hf_helper := pc\<rparr>
      | TimesOut \<Rightarrow> fails (what @ '': timed out'') ready s
      | Broken e \<Rightarrow> fails (what @ '': '' @ e) ready s)"

text \<open>\<open>waitHelperProceed\<close>, one round; the acknowledgement is read before the directory is looked at.\<close>

definition awaitProceed :: "outcome \<Rightarrow> handoff \<Rightarrow> handoff" where
  "awaitProceed r s =
     (if r = Fine \<and> \<not> hf_proceedFile s
      then if hf_directory s then s else fails ''updater handoff was cancelled'' True s
      else continues ''read updater acknowledgement'' r True AwaitingParent s)"

definition helperStep :: "(string \<Rightarrow> string) \<Rightarrow> helper_options \<Rightarrow> outcome \<Rightarrow> handoff \<Rightarrow> handoff" where
  "helperStep sha opt r s =
     (case hf_helper s of
        NotStarted \<Rightarrow> s
      | CheckingArguments \<Rightarrow>
          (case r of Fine \<Rightarrow> s\<lparr>hf_helper := OpeningParent\<rparr>
           | TimesOut \<Rightarrow> s\<lparr>hf_helper := HelperExited (Some ''invalid'')\<rparr>
           | Broken e \<Rightarrow> s\<lparr>hf_helper := HelperExited (Some e)\<rparr>)
      | OpeningParent \<Rightarrow>
          if r = Fine \<and> \<not> hf_parentRuns s then fails ''parent process has already exited'' False s
          else continues ''open updater parent process'' r False VerifyingBefore s
      | VerifyingBefore \<Rightarrow>
          if r = Fine \<and> \<not> installerOk sha (ho_checksum opt) (hf_installer s) then fails ''verify'' False s
          else continues ''verify cached installer before handoff'' r False CheckingWritable s
      | CheckingWritable \<Rightarrow> continues ''installation directory is not writable'' r False SignallingReady s
      | SignallingReady \<Rightarrow>
          if r = Fine \<and> hf_directory s then s\<lparr>hf_readyFile := Some [], hf_helper := AwaitingProceed\<rparr>
          else fails ''signal updater readiness'' False s
      | AwaitingProceed \<Rightarrow> awaitProceed r s
      | AwaitingParent \<Rightarrow> if r = Fine \<and> hf_parentRuns s then s else continues ''wait for SyncHub to exit'' r True ClosingParent s
      | ClosingParent \<Rightarrow> continues ''close exited SyncHub process handle'' r True AwaitingUnlock s
      | AwaitingUnlock \<Rightarrow> continues ''wait for SyncHub executable to become writable'' r True VerifyingAfter s
      | VerifyingAfter \<Rightarrow>
          if r = Fine \<and> \<not> installerOk sha (ho_checksum opt) (hf_installer s) then fails ''verify'' True s
          else continues ''verify cached installer after exit'' r True Installing s
      | Installing \<Rightarrow> continues ''install update'' r True RemovingInstaller (s\<lparr>hf_installed := hf_installer s\<rparr>)
      | RemovingInstaller \<Rightarrow> s\<lparr>hf_installer := (if r = Fine then None else hf_installer s), hf_helper := SavingResult\<rparr>
      | SavingResult \<Rightarrow>
          continues ''save update result'' r True (if ho_restart opt then Relaunching else CleaningUp None)
            (if r = Fine then s\<lparr>hf_result := Some []\<rparr> else s)
      | Relaunching \<Rightarrow> continues ''restart SyncHub after update'' r True (CleaningUp None) (if r = Fine then s\<lparr>hf_relaunched := True\<rparr> else s)
      | SavingFailure e ready \<Rightarrow>
          (if r = Fine then s\<lparr>hf_result := Some e\<rparr> else s)
            \<lparr>hf_helper := (if ready then CleaningUp (Some e) else ReportingFailure e)\<rparr>
      | ReportingFailure e \<Rightarrow>
          (if r = Fine \<and> hf_directory s then s\<lparr>hf_readyFile := Some e\<rparr> else s)\<lparr>hf_helper := CleaningUp (Some e)\<rparr>
      | CleaningUp e \<Rightarrow> (removeHandoff (r = Fine) s)\<lparr>hf_helper := HelperExited e\<rparr>
      | HelperExited _ \<Rightarrow> s)"

section \<open>Interleaving\<close>

definition helperRuns :: "helper_at \<Rightarrow> bool" where
  "helperRuns pc = (case pc of NotStarted \<Rightarrow> False | HelperExited _ \<Rightarrow> False | _ \<Rightarrow> True)"

text \<open>
  The launcher moves only while the application runs, and the application exits at any time: it may
  crash in the middle of the handoff.  Changing the installer between the second verification and the
  start of the installer leaves a mark.
\<close>

definition handoffStep ::
  "file_paths \<Rightarrow> (string \<Rightarrow> string) \<Rightarrow> (string \<Rightarrow> string) \<Rightarrow> helper_options \<Rightarrow> handoff_event \<Rightarrow> handoff \<Rightarrow> handoff" where
  "handoffStep fp escape sha opt ev s =
     (case ev of
        Starts r \<Rightarrow> if hf_parentRuns s \<and> hf_launcher s = Preparing then startHelper fp escape sha opt r s else s
      | SeesHelperExit works \<Rightarrow>
          if hf_parentRuns s \<and> hf_launcher s = AwaitingReady \<and> \<not> helperRuns (hf_helper s)
          then launchFails ''updater helper exited before handoff'' works s else s
      | ReadsReady r works \<Rightarrow> if hf_parentRuns s \<and> hf_launcher s = AwaitingReady then readReady r works s else s
      | Acknowledges r works \<Rightarrow> if hf_parentRuns s \<and> hf_launcher s = Acknowledging then acknowledge r works s else s
      | HelperSteps r \<Rightarrow> helperStep sha opt r s
      | HelperDies \<Rightarrow> if helperRuns (hf_helper s) then s\<lparr>hf_helper := HelperExited (Some ''killed'')\<rparr> else s
      | ApplicationExits \<Rightarrow> s\<lparr>hf_parentRuns := False\<rparr>
      | InstallerChanges f \<Rightarrow> s\<lparr>hf_installer := f, hf_tampered := (hf_tampered s \<or> hf_helper s = Installing)\<rparr>)"

definition handoffRun ::
  "file_paths \<Rightarrow> (string \<Rightarrow> string) \<Rightarrow> (string \<Rightarrow> string) \<Rightarrow> helper_options \<Rightarrow> handoff_event list \<Rightarrow> handoff \<Rightarrow> handoff" where
  "handoffRun fp escape sha opt evs s = fold (handoffStep fp escape sha opt) evs s"

definition freshHandoff :: "string option \<Rightarrow> handoff" where
  "freshHandoff f = \<lparr>hf_directory = False, hf_readyFile = None, hf_proceedFile = False, hf_installer = f,
     hf_parentRuns = True, hf_launcher = Preparing, hf_helper = NotStarted, hf_result = None,
     hf_installed = None, hf_relaunched = False, hf_tampered = False\<rparr>"

section \<open>The invariant\<close>

text \<open>How far the helper has come.\<close>

definition hasSignalled :: "helper_at \<Rightarrow> bool" where
  "hasSignalled pc = (case pc of
     NotStarted \<Rightarrow> False | CheckingArguments \<Rightarrow> False | OpeningParent \<Rightarrow> False | VerifyingBefore \<Rightarrow> False
   | CheckingWritable \<Rightarrow> False | SignallingReady \<Rightarrow> False | SavingFailure _ ready \<Rightarrow> ready | ReportingFailure _ \<Rightarrow> False
   | _ \<Rightarrow> True)"

definition mayProceed :: "helper_at \<Rightarrow> bool" where
  "mayProceed pc \<longleftrightarrow> pc \<in> {AwaitingParent, ClosingParent, AwaitingUnlock, VerifyingAfter, Installing,
     RemovingInstaller, SavingResult, Relaunching}"

definition afterExit :: "helper_at \<Rightarrow> bool" where
  "afterExit pc \<longleftrightarrow> mayProceed pc \<and> pc \<noteq> AwaitingParent"

definition handoffOk :: "(string \<Rightarrow> string) \<Rightarrow> helper_options \<Rightarrow> handoff \<Rightarrow> bool" where
  "handoffOk sha opt s \<longleftrightarrow>
     (hf_launcher s = Preparing \<longrightarrow> hf_helper s = NotStarted) \<and>
     (hf_proceedFile s \<longrightarrow> hf_launcher s = Launched) \<and>
     (hf_readyFile s = Some [] \<or> hf_launcher s = Acknowledging \<or> hf_launcher s = Launched \<longrightarrow> hasSignalled (hf_helper s)) \<and>
     (mayProceed (hf_helper s) \<longrightarrow> hf_launcher s = Launched) \<and>
     (afterExit (hf_helper s) \<longrightarrow> \<not> hf_parentRuns s) \<and>
     (hf_helper s = Installing \<and> \<not> hf_tampered s \<longrightarrow> installerOk sha (ho_checksum opt) (hf_installer s)) \<and>
     (case hf_helper s of SavingFailure e _ \<Rightarrow> e \<noteq> [] | ReportingFailure e \<Rightarrow> e \<noteq> [] | _ \<Rightarrow> True) \<and>
     (hf_installed s \<noteq> None \<longrightarrow> hf_launcher s = Launched \<and> \<not> hf_parentRuns s \<and>
        (hf_tampered s \<or> installerOk sha (ho_checksum opt) (hf_installed s))) \<and>
     (hf_relaunched s \<longrightarrow> hf_launcher s = Launched \<and> \<not> hf_parentRuns s \<and> hf_result s = Some [] \<and>
        (hf_helper s = CleaningUp None \<or> (\<exists>e. hf_helper s = HelperExited e))) \<and>
     (hf_helper s = Relaunching \<or> hf_helper s = CleaningUp None \<or> hf_helper s = HelperExited None \<longrightarrow> hf_result s = Some [])"

lemmas handoff_defs = startHelper_def launchFails_def removeHandoff_def readReady_def acknowledge_def
  fails_def continues_def awaitProceed_def hasSignalled_def mayProceed_def afterExit_def helperRuns_def

lemma ok_helperStep: "handoffOk sha opt s \<Longrightarrow> handoffOk sha opt (helperStep sha opt r s)"
  by (cases "hf_helper s"; cases r) (auto simp: handoffOk_def helperStep_def handoff_defs split: if_splits)

lemma ok_launchFails:
  assumes "handoffOk sha opt s" "hf_launcher s \<noteq> Launched"
  shows "handoffOk sha opt (launchFails e works s)"
proof -
  have "\<not> mayProceed (hf_helper s)" "hf_installed s = None" "\<not> hf_relaunched s"
    using assms by (auto simp: handoffOk_def)
  then show ?thesis using assms by (auto simp: handoffOk_def launchFails_def removeHandoff_def)
qed

lemma ok_startHelper:
  assumes "handoffOk sha opt s" "hf_launcher s = Preparing"
  shows "handoffOk sha opt (startHelper fp escape sha opt r s)"
proof -
  have "hf_helper s = NotStarted" "hf_installed s = None" "\<not> hf_relaunched s"
    using assms by (auto simp: handoffOk_def)
  then have failed: "handoffOk sha opt (s\<lparr>hf_launcher := LaunchFailed e\<rparr>)" for e
    using assms by (auto simp: handoffOk_def hasSignalled_def mayProceed_def)
  have started: "handoffOk sha opt (s\<lparr>hf_directory := True, hf_readyFile := None, hf_proceedFile := False,
      hf_launcher := AwaitingReady, hf_helper := CheckingArguments\<rparr>)"
    using \<open>hf_installed s = None\<close> \<open>\<not> hf_relaunched s\<close> by (simp add: handoffOk_def hasSignalled_def mayProceed_def afterExit_def)
  show ?thesis unfolding startHelper_def using failed started by (cases r) simp_all
qed

lemma ok_readReady:
  assumes "handoffOk sha opt s" "hf_launcher s = AwaitingReady"
  shows "handoffOk sha opt (readReady r works s)"
proof -
  have failed: "handoffOk sha opt (launchFails e works s)" for e using assms by (intro ok_launchFails) simp_all
  have "handoffOk sha opt (s\<lparr>hf_launcher := Acknowledging\<rparr>)" if "hf_readyFile s = Some []"
    using assms that unfolding handoffOk_def by simp
  then show ?thesis using failed assms(1) by (cases r) (simp_all add: readReady_def split: option.split)
qed

lemma ok_acknowledge:
  assumes "handoffOk sha opt s" "hf_launcher s = Acknowledging"
  shows "handoffOk sha opt (acknowledge r works s)"
proof -
  have "handoffOk sha opt (launchFails e works s)" for e using assms by (intro ok_launchFails) simp_all
  moreover have "handoffOk sha opt (s\<lparr>hf_proceedFile := True, hf_launcher := Launched\<rparr>)"
    using assms unfolding handoffOk_def by simp
  ultimately show ?thesis by (simp add: acknowledge_def)
qed

lemma ok_handoffStep: "handoffOk sha opt s \<Longrightarrow> handoffOk sha opt (handoffStep fp escape sha opt ev s)"
proof (cases ev)
  case HelperDies
  assume "handoffOk sha opt s"
  moreover have "hasSignalled (HelperExited d)" "\<not> mayProceed (HelperExited d)" "\<not> afterExit (HelperExited d)"
    "\<not> helperRuns NotStarted" for d
    by (simp_all add: hasSignalled_def mayProceed_def afterExit_def helperRuns_def)
  ultimately show ?thesis unfolding handoffStep_def HelperDies handoffOk_def by (simp, metis)
next
  case ApplicationExits
  assume "handoffOk sha opt s"
  then show ?thesis unfolding handoffStep_def ApplicationExits by (simp add: handoffOk_def)
next
  case (InstallerChanges f)
  assume "handoffOk sha opt s"
  then show ?thesis unfolding handoffStep_def InstallerChanges handoffOk_def
    by (cases "hf_helper s = Installing") simp_all
qed (simp_all add: handoffStep_def ok_helperStep ok_launchFails ok_startHelper ok_readReady ok_acknowledge)

lemma ok_handoffRun: "handoffOk sha opt s \<Longrightarrow> handoffOk sha opt (handoffRun fp escape sha opt evs s)"
  unfolding handoffRun_def by (induction evs arbitrary: s) (simp_all add: ok_handoffStep)

lemma ok_freshHandoff: "handoffOk sha opt (freshHandoff f)"
  by (simp add: handoffOk_def freshHandoff_def hasSignalled_def mayProceed_def afterExit_def)

lemma handoffOkD:
  assumes "handoffOk sha opt s"
  shows "hf_installed s = Some x \<Longrightarrow> hf_launcher s = Launched \<and> \<not> hf_parentRuns s \<and>
      (hf_tampered s \<or> installerOk sha (ho_checksum opt) (Some x))"
    "hf_relaunched s \<Longrightarrow> hf_launcher s = Launched \<and> \<not> hf_parentRuns s \<and> hf_result s = Some []"
    "hf_launcher s = Launched \<Longrightarrow> hasSignalled (hf_helper s)"
    "hf_helper s = HelperExited None \<Longrightarrow> hf_result s = Some []"
  using assms unfolding handoffOk_def by simp_all

section \<open>What the helper did before the launcher went on\<close>

text \<open>A successful step of the helper in a state that satisfies \<open>P\<close>, among the events of a run.\<close>

definition stepped :: "(handoff_event list \<Rightarrow> handoff \<Rightarrow> bool) \<Rightarrow> (handoff_event list \<Rightarrow> handoff) \<Rightarrow> handoff_event list \<Rightarrow> bool" where
  "stepped P ex evs \<longleftrightarrow> (\<exists>xs ys. evs = xs @ HelperSteps Fine # ys \<and> P xs (ex xs))"

definition openedParent :: "(handoff_event list \<Rightarrow> handoff) \<Rightarrow> handoff_event list \<Rightarrow> bool" where
  "openedParent = stepped (\<lambda>_ v. hf_helper v = OpeningParent \<and> hf_parentRuns v)"

definition verifiedFirst ::
  "(string \<Rightarrow> string) \<Rightarrow> helper_options \<Rightarrow> (handoff_event list \<Rightarrow> handoff) \<Rightarrow> handoff_event list \<Rightarrow> bool" where
  "verifiedFirst sha opt ex = stepped (\<lambda>xs v. hf_helper v = VerifyingBefore \<and>
     installerOk sha (ho_checksum opt) (hf_installer v) \<and> openedParent ex xs) ex"

text \<open>The helper said that it is ready, and before that had verified the installer, and before that opened the process.\<close>

definition signalledReady ::
  "(string \<Rightarrow> string) \<Rightarrow> helper_options \<Rightarrow> (handoff_event list \<Rightarrow> handoff) \<Rightarrow> handoff_event list \<Rightarrow> bool" where
  "signalledReady sha opt ex = stepped (\<lambda>xs v. hf_helper v = SignallingReady \<and> hf_directory v \<and>
     verifiedFirst sha opt ex xs) ex"

lemma stepped_more: "stepped P ex evs \<Longrightarrow> stepped P ex (evs @ [ev])"
  unfolding stepped_def by force

lemma stepped_now: "P evs (ex evs) \<Longrightarrow> stepped P ex (evs @ [HelperSteps Fine])"
  unfolding stepped_def by blast

definition traced :: "(string \<Rightarrow> string) \<Rightarrow> helper_options \<Rightarrow> (handoff_event list \<Rightarrow> handoff) \<Rightarrow> handoff_event list \<Rightarrow> handoff \<Rightarrow> bool" where
  "traced sha opt ex evs s \<longleftrightarrow>
     (hf_helper s \<in> {VerifyingBefore, CheckingWritable, SignallingReady} \<longrightarrow> openedParent ex evs) \<and>
     (hf_helper s \<in> {CheckingWritable, SignallingReady} \<longrightarrow> verifiedFirst sha opt ex evs) \<and>
     (hf_readyFile s = Some [] \<or> hf_launcher s = Acknowledging \<or> hf_launcher s = Launched \<longrightarrow> signalledReady sha opt ex evs)"

lemma witnessed_more:
  "openedParent ex evs \<Longrightarrow> openedParent ex (evs @ [ev])" "verifiedFirst sha opt ex evs \<Longrightarrow> verifiedFirst sha opt ex (evs @ [ev])"
  "signalledReady sha opt ex evs \<Longrightarrow> signalledReady sha opt ex (evs @ [ev])"
  by (simp_all add: openedParent_def verifiedFirst_def signalledReady_def stepped_more)

lemma traced_more:
  assumes "traced sha opt ex evs s" "hf_helper s' = hf_helper s \<or> hf_helper s' \<notin> {VerifyingBefore, CheckingWritable, SignallingReady}"
    "hf_readyFile s' = Some [] \<or> hf_launcher s' = Acknowledging \<or> hf_launcher s' = Launched \<Longrightarrow>
     hf_readyFile s = Some [] \<or> hf_launcher s = Acknowledging \<or> hf_launcher s = Launched"
  shows "traced sha opt ex (evs @ [ev]) s'"
  unfolding traced_def
proof (intro conjI impI)
  show "openedParent ex (evs @ [ev])" if "hf_helper s' \<in> {VerifyingBefore, CheckingWritable, SignallingReady}"
    using assms(1,2) that by (intro witnessed_more) (auto simp: traced_def)
  show "verifiedFirst sha opt ex (evs @ [ev])" if "hf_helper s' \<in> {CheckingWritable, SignallingReady}"
    using assms(1,2) that by (intro witnessed_more) (auto simp: traced_def)
  show "signalledReady sha opt ex (evs @ [ev])" if "hf_readyFile s' = Some [] \<or> hf_launcher s' = Acknowledging \<or> hf_launcher s' = Launched"
    using assms(1) assms(3) [OF that] by (intro witnessed_more) (simp add: traced_def)
qed

text \<open>Where a step of the helper can come from.\<close>

lemma helperStep_from:
  "hf_launcher (helperStep sha opt r s) = hf_launcher s"
  "hf_helper (helperStep sha opt r s) = VerifyingBefore \<Longrightarrow> hf_helper s = OpeningParent \<and> r = Fine \<and> hf_parentRuns s"
  "hf_helper (helperStep sha opt r s) = CheckingWritable \<Longrightarrow>
     hf_helper s = VerifyingBefore \<and> r = Fine \<and> installerOk sha (ho_checksum opt) (hf_installer s)"
  "hf_helper (helperStep sha opt r s) = SignallingReady \<Longrightarrow> hf_helper s = CheckingWritable \<and> r = Fine"
  "handoffOk sha opt s \<Longrightarrow> hf_readyFile (helperStep sha opt r s) = Some [] \<Longrightarrow>
     hf_readyFile s = Some [] \<or> (hf_helper s = SignallingReady \<and> r = Fine \<and> hf_directory s)"
proof -
  have "hf_launcher (helperStep sha opt r s) = hf_launcher s \<and>
    (hf_helper (helperStep sha opt r s) = VerifyingBefore \<longrightarrow> hf_helper s = OpeningParent \<and> r = Fine \<and> hf_parentRuns s) \<and>
    (hf_helper (helperStep sha opt r s) = CheckingWritable \<longrightarrow>
       hf_helper s = VerifyingBefore \<and> r = Fine \<and> installerOk sha (ho_checksum opt) (hf_installer s)) \<and>
    (hf_helper (helperStep sha opt r s) = SignallingReady \<longrightarrow> hf_helper s = CheckingWritable \<and> r = Fine)"
    by (cases "hf_helper s"; cases r) (simp_all add: helperStep_def continues_def fails_def awaitProceed_def removeHandoff_def)
  then show "hf_launcher (helperStep sha opt r s) = hf_launcher s"
    "hf_helper (helperStep sha opt r s) = VerifyingBefore \<Longrightarrow> hf_helper s = OpeningParent \<and> r = Fine \<and> hf_parentRuns s"
    "hf_helper (helperStep sha opt r s) = CheckingWritable \<Longrightarrow>
       hf_helper s = VerifyingBefore \<and> r = Fine \<and> installerOk sha (ho_checksum opt) (hf_installer s)"
    "hf_helper (helperStep sha opt r s) = SignallingReady \<Longrightarrow> hf_helper s = CheckingWritable \<and> r = Fine" by blast+
  show "hf_readyFile s = Some [] \<or> (hf_helper s = SignallingReady \<and> r = Fine \<and> hf_directory s)"
    if "handoffOk sha opt s" "hf_readyFile (helperStep sha opt r s) = Some []"
  proof (cases "hf_helper s")
    case (ReportingFailure e)
    then have "e \<noteq> []" using that(1) by (simp add: handoffOk_def)
    then show ?thesis using that(2) ReportingFailure by (simp add: helperStep_def split: if_splits)
  qed (use that(2) in \<open>cases r; simp add: helperStep_def continues_def fails_def awaitProceed_def removeHandoff_def split: if_splits\<close>)+
qed

lemma traced_helperStep:
  assumes ok: "handoffOk sha opt s" and t: "traced sha opt ex evs s" and now: "ex evs = s"
  shows "traced sha opt ex (evs @ [HelperSteps r]) (helperStep sha opt r s)"
  unfolding traced_def
proof (intro conjI impI)
  let ?s = "helperStep sha opt r s"
  have verified: "verifiedFirst sha opt ex (evs @ [HelperSteps r])" if "hf_helper ?s \<in> {CheckingWritable, SignallingReady}"
  proof (cases "hf_helper ?s = CheckingWritable")
    case True
    note f = helperStep_from(3) [OF True]
    then have "openedParent ex evs" using t by (simp add: traced_def)
    then show ?thesis using f now unfolding verifiedFirst_def by (auto intro: stepped_now)
  next
    case False
    then have "hf_helper s = CheckingWritable" using that helperStep_from(4) by blast
    then show ?thesis using t by (intro witnessed_more) (simp add: traced_def)
  qed
  then show "hf_helper ?s \<in> {CheckingWritable, SignallingReady} \<Longrightarrow> verifiedFirst sha opt ex (evs @ [HelperSteps r])" .
  show "openedParent ex (evs @ [HelperSteps r])" if "hf_helper ?s \<in> {VerifyingBefore, CheckingWritable, SignallingReady}"
  proof (cases "hf_helper ?s = VerifyingBefore")
    case True
    then show ?thesis using helperStep_from(2) [OF True] now unfolding openedParent_def by (auto intro: stepped_now)
  next
    case False
    then have "hf_helper s = VerifyingBefore \<or> hf_helper s = CheckingWritable"
      using that helperStep_from(3,4) by blast
    then show ?thesis using t by (intro witnessed_more) (auto simp: traced_def)
  qed
  show "signalledReady sha opt ex (evs @ [HelperSteps r])"
    if "hf_readyFile ?s = Some [] \<or> hf_launcher ?s = Acknowledging \<or> hf_launcher ?s = Launched"
  proof (cases "hf_readyFile s = Some [] \<or> hf_launcher s = Acknowledging \<or> hf_launcher s = Launched")
    case True
    then show ?thesis using t by (intro witnessed_more) (simp add: traced_def)
  next
    case False
    then have f: "hf_helper s = SignallingReady \<and> r = Fine \<and> hf_directory s"
      using that helperStep_from(1,5) ok by metis
    then have "verifiedFirst sha opt ex evs" using t by (simp add: traced_def)
    then show ?thesis using f now unfolding signalledReady_def by (auto intro: stepped_now)
  qed
qed

lemma traced_handoffStep:
  assumes ok: "handoffOk sha opt s" and t: "traced sha opt ex evs s" and now: "ex evs = s"
  shows "traced sha opt ex (evs @ [ev]) (handoffStep fp escape sha opt ev s)"
proof (cases ev)
  case (HelperSteps r)
  then show ?thesis using traced_helperStep [OF assms] by (simp add: handoffStep_def)
next
  case (Starts r)
  show ?thesis
  proof (rule traced_more [OF t])
    show "hf_helper (handoffStep fp escape sha opt ev s) = hf_helper s \<or>
        hf_helper (handoffStep fp escape sha opt ev s) \<notin> {VerifyingBefore, CheckingWritable, SignallingReady}"
      by (cases r) (simp_all add: Starts handoffStep_def startHelper_def)
    show "hf_readyFile s = Some [] \<or> hf_launcher s = Acknowledging \<or> hf_launcher s = Launched"
      if "hf_readyFile (handoffStep fp escape sha opt ev s) = Some [] \<or> hf_launcher (handoffStep fp escape sha opt ev s) = Acknowledging \<or>
          hf_launcher (handoffStep fp escape sha opt ev s) = Launched"
      using that by (cases r) (simp_all add: Starts handoffStep_def startHelper_def split: if_splits)
  qed
next
  case (ReadsReady r works)
  show ?thesis
  proof (rule traced_more [OF t])
    show "hf_helper (handoffStep fp escape sha opt ev s) = hf_helper s \<or>
        hf_helper (handoffStep fp escape sha opt ev s) \<notin> {VerifyingBefore, CheckingWritable, SignallingReady}"
      by (cases r) (simp_all add: ReadsReady handoffStep_def readReady_def launchFails_def removeHandoff_def split: option.split)
    show "hf_readyFile s = Some [] \<or> hf_launcher s = Acknowledging \<or> hf_launcher s = Launched"
      if "hf_readyFile (handoffStep fp escape sha opt ev s) = Some [] \<or> hf_launcher (handoffStep fp escape sha opt ev s) = Acknowledging \<or>
          hf_launcher (handoffStep fp escape sha opt ev s) = Launched"
      using that by (cases r) (auto simp: ReadsReady handoffStep_def readReady_def launchFails_def removeHandoff_def split: option.splits if_splits)
  qed
next
  case (Acknowledges r works)
  show ?thesis by (rule traced_more [OF t])
    (simp_all add: Acknowledges handoffStep_def acknowledge_def launchFails_def removeHandoff_def split: if_splits)
next
  case (SeesHelperExit works)
  show ?thesis by (rule traced_more [OF t])
    (simp_all add: SeesHelperExit handoffStep_def launchFails_def removeHandoff_def split: if_splits)
qed (rule traced_more [OF t]; simp add: handoffStep_def split: if_splits)+

lemma traced_handoffRun:
  "traced sha opt (\<lambda>xs. handoffRun fp escape sha opt xs (freshHandoff f)) evs (handoffRun fp escape sha opt evs (freshHandoff f))"
proof (induction evs rule: rev_induct)
  case Nil
  then show ?case by (simp add: traced_def handoffRun_def freshHandoff_def)
next
  case (snoc ev evs)
  have "handoffRun fp escape sha opt (evs @ [ev]) (freshHandoff f) =
      handoffStep fp escape sha opt ev (handoffRun fp escape sha opt evs (freshHandoff f))"
    by (simp add: handoffRun_def)
  then show ?case using traced_handoffStep [OF ok_handoffRun [OF ok_freshHandoff] snoc refl, of ev] by simp
qed

section \<open>Properties\<close>

text \<open> C6. However the two processes interleave, fail, time out or die: an installer is started only if the launch
  reported success to the application and the application has exited, and then, unless somebody replaced the file
  between the second verification and the start, only with the expected digest; so a launch that reported an error never
  becomes an installation, not even later.  A launch succeeds only after the helper, in this order, opened the running
  application's process and verified the installer, and then signalled that it is ready, all without an error, and the
  application is started again only after the result was saved. \<close>

theorem failed_handoff_never_installs:
  assumes "handoffRun fp escape sha opt evs (freshHandoff f) = s"
  shows "(hf_launcher s = LaunchFailed e \<longrightarrow> hf_installed s = None \<and> \<not> hf_relaunched s) \<and>
    (hf_installed s = Some x \<longrightarrow> hf_launcher s = Launched \<and> \<not> hf_parentRuns s \<and>
       (hf_tampered s \<or> sha x = to_lower (ho_checksum opt))) \<and>
    (hf_launcher s = Launched \<longrightarrow> signalledReady sha opt (\<lambda>xs. handoffRun fp escape sha opt xs (freshHandoff f)) evs) \<and>
    (hf_relaunched s \<longrightarrow> \<not> hf_parentRuns s \<and> hf_result s = Some []) \<and>
    (hf_helper s = HelperExited None \<longrightarrow> hf_result s = Some [])"
proof -
  have ok: "handoffOk sha opt s" using ok_handoffRun [OF ok_freshHandoff] assms by blast
  note D = handoffOkD [OF ok]
  show ?thesis
  proof (intro conjI impI)
    show "hf_tampered s \<or> sha x = to_lower (ho_checksum opt)" if "hf_installed s = Some x"
      using D(1) [OF that] by (auto simp: installerOk_def)
    show "hf_installed s = None" if "hf_launcher s = LaunchFailed e"
      using D(1) that by (cases "hf_installed s") auto
    show "signalledReady sha opt (\<lambda>xs. handoffRun fp escape sha opt xs (freshHandoff f)) evs" if "hf_launcher s = Launched"
      using traced_handoffRun [of sha opt fp escape f evs] that assms unfolding traced_def by simp
  qed (use D in auto)
qed

text \<open>An undisturbed handoff.\<close>

definition demo_handoff_events :: "handoff_event list" where
  "demo_handoff_events = [Starts Fine, HelperSteps Fine, HelperSteps Fine, HelperSteps Fine, HelperSteps Fine, ReadsReady Fine True,
     HelperSteps Fine, ReadsReady Fine True, Acknowledges Fine True, HelperSteps Fine, HelperSteps Fine, ApplicationExits,
     HelperSteps Fine, HelperSteps Fine, HelperSteps Fine, HelperSteps Fine, HelperSteps Fine, HelperSteps Fine,
     HelperSteps Fine, HelperSteps Fine, HelperSteps Fine]"

definition drive_paths :: file_paths where
  "drive_paths = slash_paths\<lparr>fp_volume := take 2, fp_abs := \<lambda>p. drop 2 p \<noteq> [] \<and> p ! 2 = CHR ''/'',
     fp_clean := \<lambda>p. take 2 p @ path_clean (drop 2 p), fp_dir := \<lambda>p. take 2 p @ slash_dir (drop 2 p)\<rparr>"

definition demo_drive_options :: helper_options where
  "demo_drive_options = \<lparr>ho_parentPID = 42, ho_installer = ''C:/u/cache/installer-1.exe'', ho_checksum = replicate 64 CHR ''a'',
     ho_executable = ''C:/apps/SyncHub.exe'', ho_restart = True, ho_resultPath = ''C:/u/result.json'',
     ho_handoffDir = ''C:/u/cache/handoff-1''\<rparr>"

definition demo_handoff :: handoff where
  "demo_handoff = handoffRun drive_paths id (\<lambda>_. replicate 64 CHR ''a'') demo_drive_options demo_handoff_events (freshHandoff (Some ''exe''))"

lemma demo_handoff_ends:
  "hf_launcher demo_handoff = Launched \<and> hf_installed demo_handoff = Some ''exe'' \<and> hf_relaunched demo_handoff \<and>
   hf_helper demo_handoff = HelperExited None \<and> \<not> hf_tampered demo_handoff"
  by code_simp

lemma failed_handoff_never_installs_witness:
  "\<not> hf_parentRuns demo_handoff \<and> hf_result demo_handoff = Some [] \<and>
     signalledReady (\<lambda>_. replicate 64 CHR ''a'') demo_drive_options
       (\<lambda>xs. handoffRun drive_paths id (\<lambda>_. replicate 64 CHR ''a'') demo_drive_options xs (freshHandoff (Some ''exe'')))
       demo_handoff_events"
  using failed_handoff_never_installs [OF demo_handoff_def [symmetric]] demo_handoff_ends by blast

end
