(* ===== verification/Collected.thy ===== *)
theory Collected
  imports Collector
begin

text \<open>
  What a collection guarantees: where the staged files come from and which checks they have passed,
  that the stage holds exactly the bytes that were scanned, and that nothing outside the stage changes.
\<close>

section \<open>What a program can return\<close>

definition gives :: "('a \<Rightarrow> bool) \<Rightarrow> ('d, 'e, 'a) io \<Rightarrow> bool" where
  "gives I m \<longleftrightarrow> (\<forall>w a w'. m w = (Inr a, w') \<longrightarrow> I a)"

named_theorems gives_intros \<open>programs that return only good values\<close>

lemma gives_ret [gives_intros]: "I a \<Longrightarrow> gives I (ret a)"
  by (simp add: gives_def ret_def)

lemma gives_raise [gives_intros]: "gives I (raise e)"
  by (simp add: gives_def raise_def)

lemma gives_andThen: "(\<And>x. gives I (f x)) \<Longrightarrow> gives I (andThen m f)"
  by (auto simp: gives_def andThen_def split: prod.splits sum.splits)

lemma gives_step: "gives J m \<Longrightarrow> (\<And>x. J x \<Longrightarrow> gives I (f x)) \<Longrightarrow> gives I (andThen m f)"
  unfolding gives_def andThen_def by (auto split: prod.splits sum.splits) blast

lemma gives_attempt: "(\<And>x. gives I (f x)) \<Longrightarrow> gives I (attempt m f)"
  by (auto simp: gives_def attempt_def split: prod.splits)

lemma gives_try: "gives J m \<Longrightarrow> (\<And>x. J x \<Longrightarrow> gives I (f (Inr x))) \<Longrightarrow> (\<And>e. gives I (f (Inl e))) \<Longrightarrow> gives I (attempt m f)"
  unfolding gives_def attempt_def
  by (auto split: prod.splits) (metis old.sum.exhaust)

lemma gives_reading: "gives (\<lambda>y. y = x) (reading x)"
  by (auto simp: gives_def reading_def read_tick_def tick_def split: if_splits list.splits fault.splits)

lemma gives_if: "(b \<Longrightarrow> gives I m) \<Longrightarrow> (\<not> b \<Longrightarrow> gives I n) \<Longrightarrow> gives I (if b then m else n)"
  by simp

lemma gives_forEach:
  "I s \<Longrightarrow> (\<And>x s. x \<in> set xs \<Longrightarrow> I s \<Longrightarrow> gives I (f x s)) \<Longrightarrow> gives I (forEach f xs s)"
  by (induction xs arbitrary: s) (auto intro!: gives_ret intro: gives_step)

section \<open>Provenance\<close>

definition vetted :: "collect_env \<Rightarrow> spec \<Rightarrow> string \<Rightarrow> string \<Rightarrow> bool" where
  "vetted env s rel data \<longleftrightarrow>
     Check (globMatch (cl_codecs env)) (cl_filter env) rel (int (length data)) (sp_strategy s) = None \<and>
     Scan (globMatch (cl_codecs env)) (unmarshalJSON (cl_codecs env)) (scannerOf s) rel data = Inr False"

definition trustedPlace :: "collect_env \<Rightarrow> spec \<Rightarrow> string list \<Rightarrow> bool" where
  "trustedPlace env s q \<longleftrightarrow> prefix (pathSegments (sp_root s)) q \<or> (\<exists>t. approvedLink env t \<and> prefix t q)"

definition fromMachine :: "collect_env \<Rightarrow> fsys \<Rightarrow> spec \<Rightarrow> string \<Rightarrow> string \<Rightarrow> bool" where
  "fromMachine env fs s rel data \<longleftrightarrow>
     (\<exists>q x. fmlookup fs q = Some (FileNode x) \<and> trustedPlace env s q \<and> Owns s rel \<and>
        matchesAny (globMatch (cl_codecs env)) (sp_include s) rel \<and>
        projected env s rel x = Some (Inr data) \<and> contentError s rel data = None)"

definition fromInventory :: "collect_env \<Rightarrow> spec \<Rightarrow> string \<Rightarrow> string \<Rightarrow> bool" where
  "fromInventory env s rel data \<longleftrightarrow>
     (\<exists>inventory files. cl_inventory env = Some inventory \<and> inventory s = Inr files \<and> fmlookup files rel = Some data)"

definition origin :: "collect_env \<Rightarrow> fsys \<Rightarrow> spec \<Rightarrow> string \<Rightarrow> string \<Rightarrow> bool" where
  "origin env fs s rel data \<longleftrightarrow>
     vetted env s rel data \<and>
     (if sp_strategy s = StrategyInstallManifest then fromInventory env s rel data else fromMachine env fs s rel data)"

definition well_collected :: "collect_env \<Rightarrow> fsys \<Rightarrow> spec set \<Rightarrow> collected \<Rightarrow> bool" where
  "well_collected env fs S res \<longleftrightarrow>
     (\<forall>p. fmlookup (co_snapshot res) p = None \<longleftrightarrow> fmlookup (co_artifacts res) p = None) \<and>
     (\<forall>p a. fmlookup (co_artifacts res) p = Some a \<longrightarrow>
        (\<exists>s data m. s \<in> S \<and> RepoPath s (ar_relative a) = Inr p \<and> ar_repoRel a = p \<and>
           ar_key a = sp_key s \<and> ar_targets a = sp_targets s \<and> ar_hash a = cl_sha env data \<and>
           origin env fs s (ar_relative a) data \<and>
           fmlookup (co_snapshot res) p = Some m \<and> fm_hash m = cl_sha env data \<and> fm_size m = int (length data)))"

lemma well_collected_more [simp]:
  "well_collected env fs S (skipping i res) = well_collected env fs S res"
  "well_collected env fs S (blocking i res) = well_collected env fs S res"
  by (simp_all add: well_collected_def skipping_def blocking_def)

lemma well_collected_skips [simp]: "well_collected env fs S (fold skipping is res) = well_collected env fs S res"
  by (induction "is" arbitrary: res) simp_all

lemma well_collected_staged:
  assumes "well_collected env fs S res" "s \<in> S" "origin env fs s rel data" "RepoPath s rel = Inr p"
  shows "well_collected env fs S (res\<lparr>
     co_snapshot := fmupd p \<lparr>fm_hash = cl_sha env data, fm_mod_time = t, fm_size = int (length data)\<rparr> (co_snapshot res),
     co_artifacts := fmupd p \<lparr>ar_repoRel = p, ar_key = sp_key s, ar_relative = rel, ar_stage = q, ar_targets = sp_targets s, ar_hash = cl_sha env data, ar_size = n, ar_modTime = t'\<rparr> (co_artifacts res)\<rparr>)"
  using assms unfolding well_collected_def by auto

lemma trustedPlace_entry: "trustedPlace env s dir \<Longrightarrow> trustedPlace env s (dir @ [e])"
  by (auto simp: trustedPlace_def)

lemma linkOutcome_trusted:
  "linkOutcome env fs s p anc = LinkFile t x \<Longrightarrow> trustedPlace env s t \<and> fmlookup fs t = Some (FileNode x)"
  "linkOutcome env fs s p anc = LinkDirectory t \<Longrightarrow> trustedPlace env s t"
  by (auto simp: linkOutcome_def trustedPlace_def dest: pathWithinRoot_prefix split: option.splits node.splits if_splits)

section \<open>Carrying an invariant through a collection\<close>

text \<open>
  An invariant of the result and the disk that staging an admitted file keeps is kept by the whole
  collection; an operation that fails leaves \<open>E\<close>.
\<close>

lemma andThen_ret: "andThen (ret x) f = f x"
  by (simp add: fun_eq_iff andThen_def ret_def)

locale collecting =
  fixes env :: collect_env and fs :: fsys and S :: "spec set"
    and I :: "collected \<Rightarrow> apply_disk \<Rightarrow> bool" and E :: "apply_disk \<Rightarrow> bool"
  assumes noted: "I (skipping i res) d = I res d" "I (blocking i res) d = I res d"
    and stopped: "I res d \<Longrightarrow> E d"
    and staged: "s \<in> S \<Longrightarrow> origin env fs s rel data \<Longrightarrow> fault_valid (I res) (stage env s rel data t res) I E"
begin

abbreviation carries :: "collected \<Rightarrow> collected collect_io \<Rightarrow> bool" where
  "carries res m \<equiv> fault_valid (I res) m I E"

lemma noted_all: "I (fold skipping is res) d = I res d"
  by (induction "is" arbitrary: res) (simp_all add: noted)

lemma done_res: "carries res (ret res)" "carries res (ret (skipping i res))" "carries res (ret (blocking i res))"
  "carries res (ret (fold skipping is res))" "carries res (raise e)"
  by (auto intro!: fault_ret fault_raise simp: noted noted_all stopped)

lemma then_ctx: "carries res (f ()) \<Longrightarrow> carries res (andThen (ctxErr env) f)"
  unfolding ctxErr_def
  by (rule fault_andThen [where R = "\<lambda>_. I res"])
    (auto intro!: fault_if fault_tick fault_ret dest: stopped)

lemma then_ctxIf: "carries res (f ()) \<Longrightarrow> carries res (andThen (ctxIf b env) f)"
  using then_ctx [of res f] by (cases b) (simp_all add: ctxIf_def andThen_ret)

lemma then_root: "carries res (f ()) \<Longrightarrow> carries res (andThen (validateRootOf s p) f)"
  unfolding validateRootOf_def
  by (rule fault_andThen [where R = "\<lambda>_. I res"]) (auto intro!: fault_ret fault_raise dest: stopped split: option.split)

lemma try_reading: "carries res (f (Inr x)) \<Longrightarrow> carries res (f (Inl CollectFault)) \<Longrightarrow> carries res (attempt (reading x) f)"
  unfolding fault_valid_def attempt_def reading_def read_tick_def tick_def
  by (auto split: list.splits fault.splits)

lemma carries_forEach:
  assumes "\<And>x st. x \<in> set xs \<Longrightarrow> carries st (f x st)"
  shows "carries res (forEach f xs res)"
  using assms by (induction xs arbitrary: res) (auto intro!: fault_ret fault_andThen [where R = I])

lemmas carry = then_ctx then_ctxIf then_root try_reading

lemma carries_admit:
  assumes "s \<in> S" "sp_strategy s \<noteq> StrategyInstallManifest"
    "contentError s rel data = None \<Longrightarrow> fromMachine env fs s rel data"
  shows "carries res (admit env s rel data t res)"
  using assms unfolding admit_def Let_def
  by (auto intro!: done_res carry staged split: option.split sum.split simp: origin_def vetted_def)

lemma carries_collectFile:
  assumes "s \<in> S" "sp_strategy s \<noteq> StrategyInstallManifest" "Owns s rel"
    "fmlookup fs q = Some (FileNode x)" "trustedPlace env s q"
  shows "carries res (collectFile env s rel x t res)"
proof (cases "matchesAny (globMatch (cl_codecs env)) (sp_include s) rel")
  case False
  then show ?thesis by (auto simp: collectFile_def Let_def intro!: carry done_res)
next
  case True
  have "carries res (admit env s rel data t res)" if "projected env s rel x = Some (Inr data)" for data
    by (rule carries_admit [OF assms(1,2)]) (use assms(3-5) that True in \<open>auto simp: fromMachine_def\<close>)
  then show ?thesis unfolding collectFile_def Let_def
    by (auto intro!: carry done_res split: option.split sum.split)
qed

lemma carries_walkEntry:
  assumes S: "s \<in> S" "sp_strategy s \<noteq> StrategyInstallManifest" and dir: "trustedPlace env s dir"
    and descend: "\<And>t rel. enters env fs s dir anc entry t \<Longrightarrow> trustedPlace env s t \<Longrightarrow> carries res (d t rel res)"
  shows "carries res (collectEntry env fs s dir logical anc d entry res)"
proof (cases "Owns s (path_join [logical, entry])")
  case False
  then show ?thesis by (simp add: collectEntry_def Let_def carry done_res)
next
  case own: True
  let ?p = "dir @ [entry]" and ?rel = "path_join [logical, entry]"
  have place: "trustedPlace env s ?p" by (rule trustedPlace_entry [OF dir])
  show ?thesis
  proof (cases "fmlookup fs ?p")
    case None
    then show ?thesis by (simp add: collectEntry_def Let_def own carry done_res)
  next
    case (Some nd)
    show ?thesis
    proof (cases nd)
      case (FileNode x)
      then show ?thesis using Some own
        by (auto simp: collectEntry_def Let_def intro!: carry done_res carries_collectFile [OF S own _ place])
    next
      case DirNode
      then have "carries res (d ?p ?rel res)" using Some by (intro descend [OF _ place]) (simp add: enters_def)
      then show ?thesis using Some own DirNode
        by (auto simp: collectEntry_def Let_def intro!: carry done_res split: option.split)
    next
      case (LinkNode ab segs)
      have dir: "carries res (d t ?rel res)" if "linkOutcome env fs s ?p anc = LinkDirectory t" for t
        using that by (intro descend [OF _ linkOutcome_trusted(2) [OF that]]) (simp add: enters_def)
      have leaf: "carries res (collectFile env s ?rel x u res)" if "linkOutcome env fs s ?p anc = LinkFile t x" for t x u
        using linkOutcome_trusted(1) [OF that] carries_collectFile [OF S own] by blast
      show ?thesis using Some own LinkNode dir leaf
        by (cases "linkOutcome env fs s ?p anc")
          (auto simp: collectEntry_def Let_def intro!: carry done_res split: option.split)
    qed
  qed
qed

lemma carries_walkDirectory:
  assumes "env' = env" "fs' = fs" "s \<in> S" "sp_strategy s \<noteq> StrategyInstallManifest" "trustedPlace env s dir"
  shows "carries res (walkDirectory env' fs' s dir logical anc res)"
  using assms
proof (induction env' fs' s dir logical anc res rule: walkDirectory.induct)
  case (1 env' fs' s dir logical anc res)
  have step: "carries st (collectEntry env fs s dir logical anc
      (\<lambda>t rel res. walkDirectory env fs s t rel (t # anc) res) entry st)"
    if "entry \<in> set (dirEntries fs dir)" for entry st
    by (rule carries_walkEntry [OF "1.prems"(3-5)]) (use "1.IH" "1.prems" that in auto)
  have loop: "carries res (forEach (collectEntry env fs s dir logical anc
      (\<lambda>t rel res. walkDirectory env fs s t rel (t # anc) res)) (dirEntries fs dir) res)"
    by (rule carries_forEach [OF step])
  show ?case unfolding "1.prems"(1,2)
    by (subst walkDirectory.simps, rule then_ctx, rule try_reading) (auto intro: loop done_res)
qed

lemma carries_collectSpec:
  assumes "s \<in> S"
  shows "carries res (collectSpec env fs s res)"
proof (cases "sp_strategy s = StrategyInstallManifest")
  case False
  have "trustedPlace env s (pathSegments (sp_root s))" by (simp add: trustedPlace_def)
  then show ?thesis using carries_walkDirectory [OF refl refl assms False] False
    by (simp add: collectSpec_def Let_def then_ctx)
next
  case True
  have inv: "carries st (inventoryFile env s (rel, data) st)" if "fromInventory env s rel data" for st rel data
    using that assms True unfolding inventoryFile_def Let_def prod.case
    by (auto intro!: carry done_res staged split: option.split sum.split simp: origin_def vetted_def)
  have each: "carries st (inventoryFile env s e st)"
    if "cl_inventory env = Some inventory" "inventory s = Inr files" "e \<in> set (fm_entries files)" for inventory files e st
  proof -
    obtain rel data where e: "e = (rel, data)" by (cases e)
    have "fmlookup files rel = Some data" using that(3) by (auto simp: e fm_entries_def fm_simps)
    then show ?thesis using inv that by (simp add: e fromInventory_def)
  qed
  show ?thesis using True each
    by (auto simp: collectSpec_def collectInventory_def intro!: carry done_res carries_forEach
        split: option.split sum.split inventory_error.split)
qed

lemma carries_specs:
  assumes "set specs \<subseteq> S"
  shows "carries res (forEach (\<lambda>s res. andThen (ctxErr env) (\<lambda>_. collectSpec env fs s res)) specs res)"
  by (rule carries_forEach) (use assms in \<open>auto intro!: then_ctx carries_collectSpec\<close>)

end

section \<open>Coalescing\<close>

text \<open>What coalescing makes of the specifications.\<close>

definition rooted :: "collect_env \<Rightarrow> fsys \<Rightarrow> spec list \<Rightarrow> spec \<Rightarrow> bool" where
  "rooted env fs specs s \<longleftrightarrow>
     (\<exists>s0 info ts. s0 \<in> set specs \<and> ResolveRoot env fs (sp_root s0) = Inr info \<and>
        s = (rootedSpec (sharedSpec s0) info)\<lparr>sp_targets := ts\<rparr>)"

lemma sharedSpec_root [simp]: "sp_root (sharedSpec s) = sp_root s"
  by (simp add: sharedSpec_def)

lemma rooted_addSpec:
  assumes "\<forall>s\<in>set out. rooted env fs specs s" "s0 \<in> set specs" "ResolveRoot env fs (sp_root s0) = Inr info"
  shows "\<forall>s\<in>set (addSpec (rootedSpec (sharedSpec s0) info) out). rooted env fs specs s"
proof -
  let ?n = "rootedSpec (sharedSpec s0) info"
  have "?n = ?n\<lparr>sp_targets := sp_targets ?n\<rparr>" by simp
  then have "rooted env fs specs ?n" using assms(2,3) unfolding rooted_def by blast
  moreover have "rooted env fs specs (e\<lparr>sp_targets := ts\<rparr>)" if "rooted env fs specs e" for e ts
    using that unfolding rooted_def by force
  ultimately show ?thesis using assms(1) by (auto simp: addSpec_def)
qed

lemma gives_coalesce: "gives (\<lambda>(out, _). \<forall>s\<in>set out. rooted env fs specs s) (coalesce env fs specs)"
  unfolding coalesce_def
proof (rule gives_forEach, simp)
  fix s0 and st :: "spec list \<times> issue list" assume s0: "s0 \<in> set specs" and st: "case st of (out, _) \<Rightarrow> \<forall>s\<in>set out. rooted env fs specs s"
  obtain out issues where [simp]: "st = (out, issues)" by (cases st)
  show "gives (\<lambda>(out, _). \<forall>s\<in>set out. rooted env fs specs s) (coalesceStep env fs s0 st)"
    unfolding coalesceStep_def Let_def
    by (auto intro!: gives_andThen gives_try [OF gives_reading] gives_ret dest: rooted_addSpec [OF _ s0]
        split: sum.split root_error.split) (use st rooted_addSpec [OF _ s0] in auto)
qed

lemma ctxErr_disk: "ctxErr env w = (r, w') \<Longrightarrow> w_disk w' = w_disk w"
  by (auto simp: ctxErr_def ret_def tick_def split: if_splits list.splits fault.splits)

lemma mkdirTemp_disk:
  "mkdirTemp env w = (Inr root, w') \<Longrightarrow> \<exists>p. fmlookup (ad_fs (w_disk w)) p = None \<and>
     w_disk w' = (w_disk w)\<lparr>ad_fs := fmupd p DirNode (ad_fs (w_disk w))\<rparr>"
  by (auto simp: mkdirTemp_def tick_def Let_def split: if_splits list.splits fault.splits option.splits)

section \<open>The stage on the disk\<close>

text \<open>The disk as it was, except below the stage.\<close>

definition outside_same :: "apply_disk \<Rightarrow> string list \<Rightarrow> apply_disk \<Rightarrow> bool" where
  "outside_same d0 c d \<longleftrightarrow> ad_base d = ad_base d0 \<and> ad_aliases d = ad_aliases d0 \<and>
     (\<forall>q. \<not> prefix c q \<longrightarrow> fmlookup (ad_fs d) q = fmlookup (ad_fs d0) q)"

definition noLinksBelow :: "string list \<Rightarrow> fsys \<Rightarrow> bool" where
  "noLinksBelow c fs \<longleftrightarrow> (\<forall>q ab segs. prefix c q \<longrightarrow> fmlookup fs q \<noteq> Some (LinkNode ab segs))"

definition stageDir :: "collect_env \<Rightarrow> string list \<Rightarrow> string list \<Rightarrow> apply_disk \<Rightarrow> bool" where
  "stageDir env root c d \<longleftrightarrow>
     root \<noteq> [] \<and> last root \<noteq> ''..'' \<and> c \<noteq> [] \<and> last c = last root \<and>
     walk (cl_links env) (ad_fs d) [] (butlast root) = Some (butlast c) \<and> isDirAt (ad_fs d) (butlast c) \<and>
     fmlookup (ad_fs d) c = Some DirNode \<and> noLinksBelow c (ad_fs d)"

text \<open>What the operations of the stage do to the file system.\<close>

definition grown :: "string list \<Rightarrow> fsys \<Rightarrow> fsys \<Rightarrow> bool" where
  "grown c fs fs' \<longleftrightarrow>
     (\<forall>q. fmlookup fs' q = fmlookup fs q \<or>
        (prefix c q \<and> q \<noteq> c \<and> ((\<exists>x. fmlookup fs' q = Some (FileNode x) \<and> \<not> isDirAt fs q) \<or> (fmlookup fs q = None \<and> fmlookup fs' q = Some DirNode))))"

lemma grown_refl [simp]: "grown c fs fs"
  by (simp add: grown_def)

lemma grown_dir: "grown c fs fs' \<Longrightarrow> noLinksBelow c fs \<Longrightarrow> fmlookup fs q = Some nd \<Longrightarrow> (\<And>x. nd \<noteq> FileNode x) \<Longrightarrow> fmlookup fs' q = Some nd"
  unfolding grown_def noLinksBelow_def isDirAt_def by (cases nd) (metis option.distinct(1))+

lemma walk_grown:
  "\<forall>q nd. fmlookup fs q = Some nd \<and> (\<forall>x. nd \<noteq> FileNode x) \<longrightarrow> fmlookup fs' q = Some nd \<Longrightarrow>
     walk n fs here p = Some c \<Longrightarrow> isDirAt fs c \<Longrightarrow> walk n fs' here p = Some c"
proof (induction n fs here p rule: walk.induct)
  case (1 n fs here)
  then show ?case by simp
next
  case (2 n fs here s rest)
  show ?case
  proof (cases "s = ''..''")
    case True
    then show ?thesis using "2.IH"(1) "2.prems" by simp
  next
    case False
    obtain nd where nd: "fmlookup fs (here @ [s]) = Some nd" using "2.prems"(2) False by (auto split: option.splits)
    show ?thesis
    proof (cases nd)
      case (FileNode x)
      then show ?thesis using "2.prems"(2,3) False nd by (simp add: isDirAt_def split: if_splits)
    next
      case DirNode
      then have "fmlookup fs' (here @ [s]) = Some DirNode" using "2.prems"(1) nd by simp
      then show ?thesis using "2.IH"(2) [OF False nd DirNode "2.prems"(1)] "2.prems"(2,3) False nd DirNode by simp
    next
      case (LinkNode ab segs)
      then have "fmlookup fs' (here @ [s]) = Some (LinkNode ab segs)" using "2.prems"(1) nd by simp
      then show ?thesis using "2.IH"(3) [OF False nd LinkNode _ "2.prems"(1)] "2.prems"(2,3) False nd LinkNode
        by (cases n) simp_all
    qed
  qed
qed

lemma stageDir_root:
  assumes "stageDir env root c d"
  shows "walk (cl_links env) (ad_fs d) [] root = Some c \<and> isDirAt (ad_fs d) c"
proof -
  have r: "butlast root @ [last root] = root" and c: "butlast c @ [last root] = c"
    using assms append_butlast_last_id [of c] by (auto simp: stageDir_def)
  have dir: "fmlookup (ad_fs d) (butlast c @ [last root]) = Some DirNode" unfolding c using assms by (simp add: stageDir_def)
  have "walk (cl_links env) (ad_fs d) [] (butlast root @ [last root]) = Some (butlast c @ [last root])"
    by (rule walk_snoc_dir [OF _ _ _ dir]) (use assms in \<open>auto simp: stageDir_def\<close>)
  then show ?thesis using dir unfolding r c by (simp add: isDirAt_def)
qed

lemma stage_grown:
  assumes g: "grown c (ad_fs d) fs'" and d: "stageDir env root c d" and u: "outside_same d0 c d"
  shows "stageDir env root c (d\<lparr>ad_fs := fs'\<rparr>)" "outside_same d0 c (d\<lparr>ad_fs := fs'\<rparr>)"
proof -
  have n: "noLinksBelow c (ad_fs d)" using d by (simp add: stageDir_def)
  note keep = grown_dir [OF g n]
  have "walk (cl_links env) fs' [] (butlast root) = Some (butlast c)"
    using walk_grown [of "ad_fs d" fs' "cl_links env" "[]" "butlast root" "butlast c"] keep d by (auto simp: stageDir_def)
  moreover have "isDirAt fs' (butlast c)" using keep d by (auto simp: stageDir_def isDirAt_def)
  moreover have "fmlookup fs' c = Some DirNode" using keep d by (auto simp: stageDir_def)
  moreover have "noLinksBelow c fs'" using n g unfolding noLinksBelow_def grown_def
    by (metis node.distinct(3) node.distinct(5) option.inject)
  ultimately show "stageDir env root c (d\<lparr>ad_fs := fs'\<rparr>)" using d by (simp add: stageDir_def)
  show "outside_same d0 c (d\<lparr>ad_fs := fs'\<rparr>)" using g u unfolding outside_same_def grown_def by (simp, metis)
qed

lemma grown_trans:
  assumes "grown c fs1 fs2" "grown c fs2 fs3"
  shows "grown c fs1 fs3"
  unfolding grown_def
proof
  fix q
  have one: "fmlookup fs2 q = fmlookup fs1 q \<or> (prefix c q \<and> q \<noteq> c \<and>
      ((\<exists>x. fmlookup fs2 q = Some (FileNode x) \<and> \<not> isDirAt fs1 q) \<or> (fmlookup fs1 q = None \<and> fmlookup fs2 q = Some DirNode)))"
    and two: "fmlookup fs3 q = fmlookup fs2 q \<or> (prefix c q \<and> q \<noteq> c \<and>
      ((\<exists>x. fmlookup fs3 q = Some (FileNode x) \<and> \<not> isDirAt fs2 q) \<or> (fmlookup fs2 q = None \<and> fmlookup fs3 q = Some DirNode)))"
    using assms unfolding grown_def by blast+
  have "isDirAt fs1 q \<Longrightarrow> isDirAt fs2 q" "fmlookup fs2 q = None \<Longrightarrow> fmlookup fs1 q = None"
    using one by (auto simp: isDirAt_def)
  then show "fmlookup fs3 q = fmlookup fs1 q \<or> (prefix c q \<and> q \<noteq> c \<and>
      ((\<exists>x. fmlookup fs3 q = Some (FileNode x) \<and> \<not> isDirAt fs1 q) \<or> (fmlookup fs1 q = None \<and> fmlookup fs3 q = Some DirNode)))"
    using one two by auto
qed

lemma mkdirs_grown:
  assumes "walk n fs [] here = Some h" "isDirAt fs h" "prefix c h" "noLinksBelow c fs" "\<forall>s\<in>set rest. s \<noteq> ''..''"
  shows "grown c fs (snd (mkdirs n fs here rest))"
  using assms
proof (induction n fs here rest arbitrary: h rule: mkdirs.induct)
  case (1 n fs here)
  then show ?case by simp
next
  case (2 n fs here s rest)
  have s: "s \<noteq> ''..''" using "2.prems"(5) by simp
  show ?case
  proof (cases "walk n fs [] (here @ [s])")
    case (Some e)
    obtain m where m: "walk m fs h [s] = Some e" using walk_through [OF "2.prems"(1,2) Some] by auto
    have "\<And>ab segs. fmlookup fs (h @ [s]) \<noteq> Some (LinkNode ab segs)"
      using "2.prems"(3,4) by (auto simp: noLinksBelow_def)
    then have e: "e = h @ [s]" using m s by (auto split: option.splits node.splits nat.splits)
    have "grown c fs (snd (mkdirs n fs (here @ [s]) rest))" if "isDirAt fs e"
      using "2.IH"(2) [OF Some that Some that _ "2.prems"(4)] "2.prems"(3,5) e by simp
    then show ?thesis using Some by simp
  next
    case None
    let ?fs = "fmupd (h @ [s]) DirNode fs"
    show ?thesis
    proof (cases "lstat n fs (here @ [s]) \<noteq> None")
      case True
      then show ?thesis using None by simp
    next
      case False
      then have new: "fmlookup fs (h @ [s]) = None" using "2.prems"(1) by (simp add: lstat_def)
      have g: "grown c fs ?fs" using new "2.prems"(3) by (auto simp: grown_def prefix_def)
      have dirs: "isDirAt ?fs h" "noLinksBelow c ?fs" using "2.prems"(2,4) by (auto simp: isDirAt_def noLinksBelow_def)
      have "only_dirs_added fs ?fs" using new by (simp add: only_dirs_added_def)
      then have "walk n ?fs [] (here @ [s]) = Some (h @ [s])"
        using walk_snoc_dir [OF walk_mono [OF _ "2.prems"(1)] dirs(1) s] by simp
      from "2.IH"(1) [OF None _ "2.prems"(1) this _ _ dirs(2)] False "2.prems"(3,5)
      have "grown c ?fs (snd (mkdirs n ?fs (here @ [s]) rest))" by (auto simp: isDirAt_def prefix_def)
      from grown_trans [OF g this] show ?thesis using None False "2.prems"(1) by simp
    qed
  qed
qed

section \<open>Staging keeps the invariant\<close>

lemma RepoPath_plain:
  assumes "spec_wf s" "RepoPath s rel = Inr p"
  shows "\<forall>x\<in>set (split_on CHR ''/'' p). plain_segment x" "length (split_on CHR ''/'' p) > 1"
proof -
  obtain ss where ss: "\<forall>x\<in>set ss. plain_segment x \<and> CHR 0x5C \<notin> set x"
    and p: "p = path_join (''agents'' # ss @ [rel])" and rel: "validateRepoRelative rel = None"
    by (rule RepoPath_shape [OF assms]) blast
  have "split_on CHR ''/'' p = ''agents'' # ss @ split_on CHR ''/'' rel"
    using validateRepoRelative_agents(2) [OF ss rel] p by simp
  moreover have "plain_segment ''agents''" by (simp add: plain_segment_def)
  ultimately show "\<forall>x\<in>set (split_on CHR ''/'' p). plain_segment x" "length (split_on CHR ''/'' p) > 1"
    using ss rel by (auto simp: validateRepoRelative_None)
qed

lemma stagePathOf_plain:
  assumes "\<forall>x\<in>set (split_on CHR ''/'' p). plain_segment x"
  shows "stagePathOf root p = root @ split_on CHR ''/'' p"
  using foldl_clean_plain [OF assms] by (simp add: stagePathOf_def)

lemma walk_below:
  assumes "walk n fs [] root = Some c" "isDirAt fs c" "noLinksBelow c fs" "\<forall>s\<in>set ss. s \<noteq> ''..''"
    and "walk n fs [] (root @ ss) = Some e"
  shows "e = c @ ss"
proof (cases "ss = []")
  case False
  have plain: "walk m fs h ss' = Some e \<Longrightarrow> prefix c h \<Longrightarrow> \<forall>s\<in>set ss'. s \<noteq> ''..'' \<Longrightarrow> e = h @ ss'" for m h ss'
  proof (induction ss' arbitrary: h)
    case (Cons x xs)
    have p: "prefix c (h @ [x])" using Cons.prems(2) by (rule prefix_prefix)
    then have "\<And>ab segs. fmlookup fs (h @ [x]) \<noteq> Some (LinkNode ab segs)" using assms(3) by (auto simp: noLinksBelow_def)
    then show ?case using Cons.prems(1,3) Cons.IH [OF _ p] by (auto split: option.splits node.splits if_splits)
  qed simp
  obtain m where "walk m fs c ss = Some e" using walk_through [OF assms(1,2,5) False] by blast
  from plain [OF this _ assms(4)] show ?thesis by simp
qed (use assms in simp)

definition staged_files :: "collect_env \<Rightarrow> string list \<Rightarrow> string list \<Rightarrow> collected \<Rightarrow> apply_disk \<Rightarrow> bool" where
  "staged_files env root c res d \<longleftrightarrow>
     (\<forall>p a. fmlookup (co_artifacts res) p = Some a \<longrightarrow> ar_stage a = root @ split_on CHR ''/'' p \<and>
        (\<exists>data. ar_hash a = cl_sha env data \<and> fmlookup (ad_fs d) (c @ split_on CHR ''/'' p) = Some (FileNode data)))"

definition collecting_ok ::
  "collect_env \<Rightarrow> fsys \<Rightarrow> spec set \<Rightarrow> apply_disk \<Rightarrow> string list \<Rightarrow> string list \<Rightarrow> collected \<Rightarrow> apply_disk \<Rightarrow> bool" where
  "collecting_ok env fs S d0 root c res d \<longleftrightarrow>
     well_collected env fs S res \<and> co_stageRoot res = root \<and> outside_same d0 c d \<and> stageDir env root c d \<and> staged_files env root c res d"

definition stage_only :: "collect_env \<Rightarrow> apply_disk \<Rightarrow> string list \<Rightarrow> string list \<Rightarrow> apply_disk \<Rightarrow> bool" where
  "stage_only env d0 root c d \<longleftrightarrow> outside_same d0 c d \<and> stageDir env root c d"

lemma split_on_inj: "split_on c s = split_on c t \<Longrightarrow> s = t"
  by (metis join_split)

lemma staged_grown:
  assumes "staged_files env root c res d" "grown c (ad_fs d) fs'"
    and "\<And>p. fmlookup (co_artifacts res) p \<noteq> None \<Longrightarrow> fmlookup fs' (c @ split_on CHR ''/'' p) = fmlookup (ad_fs d) (c @ split_on CHR ''/'' p)"
  shows "staged_files env root c res (d\<lparr>ad_fs := fs'\<rparr>)"
  using assms(1,3) unfolding staged_files_def by fastforce

lemma fault_stageDirs:
  assumes p: "\<forall>x\<in>set ss. plain_segment x"
  shows "fault_valid (collecting_ok env fs S d0 root c res) (stageDirs env root (root @ ss))
     (\<lambda>_. collecting_ok env fs S d0 root c res) (stage_only env d0 root c)"
proof -
  have plain: "\<forall>s\<in>set (take k ss). s \<noteq> ''..''" for k using p by (auto simp: plain_segment_def dest: in_set_takeD)
  have step: "collecting_ok env fs S d0 root c res (d\<lparr>ad_fs := snd (mkdirs (cl_links env) (ad_fs d) root (take k ss))\<rparr>)"
    if ok: "collecting_ok env fs S d0 root c res d" for d k
  proof -
    have d: "stageDir env root c d" and u: "outside_same d0 c d" and f: "staged_files env root c res d"
      using ok by (simp_all add: collecting_ok_def)
    let ?fs = "snd (mkdirs (cl_links env) (ad_fs d) root (take k ss))"
    have g: "grown c (ad_fs d) ?fs"
      by (rule mkdirs_grown [OF _ _ _ _ plain]) (use stageDir_root [OF d] d in \<open>auto simp: stageDir_def\<close>)
    have "only_dirs_added (ad_fs d) ?fs" by (rule mkdirs_only_dirs)
    then have "staged_files env root c res (d\<lparr>ad_fs := ?fs\<rparr>)" using f
      unfolding staged_files_def by (simp add: only_dirs_files)
    then show ?thesis using ok stage_grown [OF g d u] by (simp add: collecting_ok_def)
  qed
  have all: "collecting_ok env fs S d0 root c res (d\<lparr>ad_fs := snd (mkdirs (cl_links env) (ad_fs d) root ss)\<rparr>)"
    if "collecting_ok env fs S d0 root c res d" for d
    using step [OF that, of "length ss"] by simp
  have only: "collecting_ok env fs S d0 root c res d \<Longrightarrow> stage_only env d0 root c d" for d
    by (simp add: collecting_ok_def stage_only_def)
  show ?thesis unfolding stageDirs_def Let_def
  proof (rule fault_tick)
    fix d r d' assume ok: "collecting_ok env fs S d0 root c res d"
      and run: "(case mkdirs (cl_links env) (ad_fs d) (if prefix root (root @ ss) then root else [])
          (drop (length (if prefix root (root @ ss) then root else [])) (root @ ss)) of
          (ok, fs) \<Rightarrow> (if ok then Inr () else Inl StageBlocked, d\<lparr>ad_fs := fs\<rparr>)) = (r, d')"
    have "d' = d\<lparr>ad_fs := snd (mkdirs (cl_links env) (ad_fs d) root ss)\<rparr>" using run by (simp split: prod.splits)
    then have "collecting_ok env fs S d0 root c res d'" using all [OF ok] by simp
    then show "case r of Inl _ \<Rightarrow> stage_only env d0 root c d' | Inr _ \<Rightarrow> collecting_ok env fs S d0 root c res d'"
      using only by (cases r) simp_all
  qed (use only step in auto)
qed

text \<open>Writing one staged file, and recording it.\<close>

definition artifactOf :: "collect_env \<Rightarrow> spec \<Rightarrow> int \<Rightarrow> string list \<Rightarrow> string \<Rightarrow> string \<Rightarrow> string \<Rightarrow> artifact" where
  "artifactOf env s t root p rel data =
     \<lparr>ar_repoRel = p, ar_key = sp_key s, ar_relative = rel, ar_stage = root @ split_on CHR ''/'' p, ar_targets = sp_targets s,
       ar_hash = cl_sha env data, ar_size = int (length data), ar_modTime = t\<rparr>"

definition recordedFile :: "collect_env \<Rightarrow> spec \<Rightarrow> string list \<Rightarrow> string \<Rightarrow> string \<Rightarrow> string \<Rightarrow> int \<Rightarrow> collected \<Rightarrow> collected" where
  "recordedFile env s root p rel data t res =
     res\<lparr>co_snapshot := fmupd p \<lparr>fm_hash = cl_sha env data, fm_mod_time = t, fm_size = int (length data)\<rparr> (co_snapshot res),
         co_artifacts := fmupd p (artifactOf env s t root p rel data) (co_artifacts res)\<rparr>"

lemma fault_stageWrite:
  assumes s: "s \<in> S" "origin env fs s rel data" "RepoPath s rel = Inr p" "\<forall>x\<in>set (split_on CHR ''/'' p). plain_segment x"
  shows "fault_valid (collecting_ok env fs S d0 root c res) (stageWrite env (root @ split_on CHR ''/'' p) data)
     (\<lambda>_. collecting_ok env fs S d0 root c (recordedFile env s root p rel data t res)) (stage_only env d0 root c)"
proof -
  let ?ss = "split_on CHR ''/'' p"
  have ne: "?ss \<noteq> []" by simp
  have plain: "\<forall>x\<in>set (butlast ?ss). x \<noteq> ''..''" using s(4) by (auto simp: plain_segment_def dest: in_set_butlastD)
  have place: "fs' = fmupd (c @ ?ss) (FileNode x) (ad_fs d) \<and> \<not> isDirAt (ad_fs d) (c @ ?ss)"
    if d: "stageDir env root c d" and run: "placeFile (cl_links env) (ad_fs d) (root @ ?ss) x = Some fs'" for d x fs'
  proof -
    have "butlast (root @ ?ss) = root @ butlast ?ss" "last (root @ ?ss) = last ?ss" using ne by (simp_all add: butlast_append)
    with run obtain e where e: "walk (cl_links env) (ad_fs d) [] (root @ butlast ?ss) = Some e"
        "\<not> isDirAt (ad_fs d) (e @ [last ?ss])" "fs' = fmupd (e @ [last ?ss]) (FileNode x) (ad_fs d)"
      by (auto simp: placeFile_def split: option.splits if_splits)
    have "e = c @ butlast ?ss"
      by (rule walk_below [OF _ _ _ plain e(1)]) (use stageDir_root [OF d] d in \<open>auto simp: stageDir_def\<close>)
    then show ?thesis using e ne by (simp add: append_butlast_last_id)
  qed
  have g: "grown c (ad_fs d) (fmupd (c @ ?ss) (FileNode x) (ad_fs d))" if "\<not> isDirAt (ad_fs d) (c @ ?ss)" for d x
    using that ne by (auto simp: grown_def)
  have only: "stage_only env d0 root c (d\<lparr>ad_fs := fs'\<rparr>)"
    if ok: "collecting_ok env fs S d0 root c res d" and run: "placeFile (cl_links env) (ad_fs d) (root @ ?ss) x = Some fs'" for d x fs'
  proof -
    have d: "stageDir env root c d" and u: "outside_same d0 c d" using ok by (simp_all add: collecting_ok_def)
    show ?thesis using stage_grown [OF g d u] place [OF d run] by (simp add: stage_only_def)
  qed
  have good: "collecting_ok env fs S d0 root c (recordedFile env s root p rel data t res) (d\<lparr>ad_fs := fs'\<rparr>)"
    if ok: "collecting_ok env fs S d0 root c res d" and run: "placeFile (cl_links env) (ad_fs d) (root @ ?ss) data = Some fs'" for d fs'
  proof -
    have d: "stageDir env root c d" and u: "outside_same d0 c d" and f: "staged_files env root c res d"
      and w: "well_collected env fs S res" and r: "co_stageRoot res = root"
      using ok by (simp_all add: collecting_ok_def)
    have fs': "fs' = fmupd (c @ ?ss) (FileNode data) (ad_fs d)" "\<not> isDirAt (ad_fs d) (c @ ?ss)" using place [OF d run] by auto
    have other: "q = p" if "split_on CHR ''/'' q = ?ss" for q using split_on_inj that by blast
    have "staged_files env root c (recordedFile env s root p rel data t res) (d\<lparr>ad_fs := fs'\<rparr>)"
      unfolding staged_files_def
    proof (intro allI impI)
      fix q a assume a: "fmlookup (co_artifacts (recordedFile env s root p rel data t res)) q = Some a"
      show "ar_stage a = root @ split_on CHR ''/'' q \<and>
        (\<exists>data. ar_hash a = cl_sha env data \<and> fmlookup (ad_fs (d\<lparr>ad_fs := fs'\<rparr>)) (c @ split_on CHR ''/'' q) = Some (FileNode data))"
      proof (cases "q = p")
        case True
        then show ?thesis using a by (auto simp: recordedFile_def artifactOf_def fs'(1))
      next
        case False
        then have "split_on CHR ''/'' q \<noteq> ?ss" using other by blast
        then show ?thesis using a False f unfolding staged_files_def by (simp add: recordedFile_def fs'(1))
      qed
    qed
    moreover have "well_collected env fs S (recordedFile env s root p rel data t res)"
      using well_collected_staged [OF w s(1-3)] by (simp add: recordedFile_def artifactOf_def)
    ultimately show ?thesis using stage_grown [OF g [OF fs'(2)] d u] fs'(1) r
      by (simp add: collecting_ok_def recordedFile_def)
  qed
  have start: "stage_only env d0 root c d" if "collecting_ok env fs S d0 root c res d" for d
    using that by (simp add: collecting_ok_def stage_only_def)
  show ?thesis unfolding stageWrite_def
    by (rule fault_tick) (auto split: option.splits if_splits intro: start only good)
qed

lemma fault_stage:
  assumes s: "s \<in> S" "spec_wf s" "origin env fs s rel data"
  shows "fault_valid (collecting_ok env fs S d0 root c res) (stage env s rel data t res)
     (collecting_ok env fs S d0 root c) (stage_only env d0 root c)"
proof -
  let ?I = "collecting_ok env fs S d0 root c" and ?E = "stage_only env d0 root c"
  have stop: "?I r d \<Longrightarrow> ?E d" for r d by (simp add: collecting_ok_def stage_only_def)
  have ctx: "fault_valid (?I r) (ctxErr env) (\<lambda>_. ?I r) ?E" for r
    unfolding ctxErr_def by (auto intro!: fault_if fault_tick fault_ret dest: stop)
  show ?thesis
  proof (cases "RepoPath s rel")
    case (Inl e)
    then show ?thesis unfolding stage_def
      by (auto intro!: fault_andThen [OF ctx] fault_ret simp: collecting_ok_def staged_files_def skipping_def well_collected_def)
  next
    case (Inr p)
    note plain = RepoPath_plain [OF s(2) Inr]
    have path: "stagePathOf root p = root @ split_on CHR ''/'' p" by (rule stagePathOf_plain [OF plain(1)])
    have dir: "butlast (root @ split_on CHR ''/'' p) = root @ butlast (split_on CHR ''/'' p)"
      using plain(2) by (simp add: butlast_append)
    have plain': "\<forall>x\<in>set (butlast (split_on CHR ''/'' p)). plain_segment x" using plain(1) by (auto dest: in_set_butlastD)
    have rec: "res\<lparr>co_snapshot := fmupd p \<lparr>fm_hash = cl_sha env data, fm_mod_time = t, fm_size = int (length data)\<rparr> (co_snapshot res),
         co_artifacts := fmupd p \<lparr>ar_repoRel = p, ar_key = sp_key s, ar_relative = rel, ar_stage = root @ split_on CHR ''/'' p, ar_targets = sp_targets s,
       ar_hash = cl_sha env data, ar_size = int (length data), ar_modTime = t\<rparr>
           (co_artifacts res)\<rparr> = recordedFile env s root p rel data t res"
      by (simp add: recordedFile_def artifactOf_def)
    have root: "co_stageRoot res = root" if "?I res d" for d using that by (simp add: collecting_ok_def)
    show ?thesis
    proof (rule fault_given [where A = "co_stageRoot res = root" and P = "?I res"])
      assume r: "co_stageRoot res = root"
      show "fault_valid (?I res) (stage env s rel data t res) ?I ?E"
        unfolding stage_def Let_def Inr sum.case r path dir rec
        by (rule fault_andThen [OF ctx], rule fault_andThen [OF fault_stageDirs [OF plain']], rule fault_andThen [OF ctx],
            rule fault_andThen [OF fault_stageWrite [OF s(1,3) Inr plain(1)]], rule fault_andThen [OF ctx],
            rule fault_andThen [OF ctx], rule fault_ret)
    qed (use root in auto)
  qed
qed

interpretation stage_run: collecting env fs "{s \<in> S. spec_wf s}" "collecting_ok env fs S d0 root c" "stage_only env d0 root c"
  for env fs S d0 root c
  by unfold_locales
    (auto simp: collecting_ok_def stage_only_def staged_files_def skipping_def blocking_def well_collected_def intro: fault_stage)

section \<open>The whole collection\<close>

lemma spec_wf_rooted:
  assumes "\<forall>s\<in>set specs. spec_wf s" "rooted env fs specs s"
  shows "spec_wf s"
  using assms by (auto simp: rooted_def rootedSpec_def sharedSpec_def spec_wf_def split: if_splits)

lemma fault_gives: "gives J m \<Longrightarrow> fault_valid P m Q E \<Longrightarrow> fault_valid P m (\<lambda>a d. Q a d \<and> J a) E"
  unfolding fault_valid_def gives_def by (auto split: prod.splits sum.splits) blast+

lemma keeps_ctxErr [keeps_intros]: "keeps I (ctxErr env)"
  unfolding ctxErr_def by (auto intro!: keeps_intros keeps_tick)

lemma keeps_coalesce: "keeps I (coalesce env fs specs)"
  unfolding coalesce_def coalesceStep_def validateRootOf_def reading_def Let_def split_beta
  by (auto intro!: keeps_intros split: sum.split option.split root_error.split)

lemma fault_collectAll:
  assumes wf: "\<forall>s\<in>set specs. spec_wf s" and dm: "stage_only env d0 root c dm"
  shows "fault_valid (\<lambda>d. d = dm) (collectAll env root specs)
    (collecting_ok env (ad_fs dm) {s. rooted env (ad_fs dm) specs s} d0 root c) (stage_only env d0 root c)"
proof -
  let ?fs = "ad_fs dm" and ?S = "{s. rooted env (ad_fs dm) specs s}"
  let ?I = "collecting_ok env ?fs ?S d0 root c" and ?E = "stage_only env d0 root c"
  have look: "fault_valid (\<lambda>d. d = dm) currentFiles (\<lambda>fs d. d = dm \<and> fs = ?fs) ?E"
    by (simp add: fault_valid_def currentFiles_def)
  have co: "fault_valid (\<lambda>d. d = dm) (coalesce env ?fs specs) (\<lambda>x d. d = dm \<and> (case x of (out, _) \<Rightarrow> \<forall>s\<in>set out. rooted env ?fs specs s)) ?E"
    by (rule fault_gives [OF gives_coalesce], rule fault_weaken [OF keeps_coalesce [of "\<lambda>d. d = dm"]]) (use dm in auto)
  have loop: "fault_valid (\<lambda>d. d = dm \<and> (case x of (out, _) \<Rightarrow> \<forall>s\<in>set out. rooted env ?fs specs s))
      (case x of (coalesced, issues) \<Rightarrow> forEach (\<lambda>s res. andThen (ctxErr env) (\<lambda>_. collectSpec env ?fs s res)) coalesced
         \<lparr>co_snapshot = fmempty, co_artifacts = fmempty, co_blocked = [], co_skipped = issues, co_stageRoot = root\<rparr>) ?I ?E"
    for x :: "spec list \<times> issue list"
  proof (cases x)
    case (Pair out issues)
    show ?thesis unfolding Pair prod.case
    proof (rule fault_given [where A = "\<forall>s\<in>set out. rooted env ?fs specs s" and P = "\<lambda>d. d = dm"])
      assume "\<forall>s\<in>set out. rooted env ?fs specs s"
      then have "set out \<subseteq> {s \<in> ?S. spec_wf s}" using spec_wf_rooted [OF wf] by auto
      from fault_weaken [OF stage_run.carries_specs [OF this]]
      show "fault_valid (\<lambda>d. d = dm) (forEach (\<lambda>s res. andThen (ctxErr env) (\<lambda>_. collectSpec env ?fs s res)) out
         \<lparr>co_snapshot = fmempty, co_artifacts = fmempty, co_blocked = [], co_skipped = issues, co_stageRoot = root\<rparr>) ?I ?E"
        by this (use dm in \<open>auto simp: collecting_ok_def stage_only_def staged_files_def well_collected_def\<close>)
    qed auto
  qed
  have rest: "fault_valid (\<lambda>d. d = dm \<and> fs = ?fs) (andThen (coalesce env fs specs) (\<lambda>(coalesced, issues).
       forEach (\<lambda>s res. andThen (ctxErr env) (\<lambda>_. collectSpec env fs s res)) coalesced
         \<lparr>co_snapshot = fmempty, co_artifacts = fmempty, co_blocked = [], co_skipped = issues, co_stageRoot = root\<rparr>)) ?I ?E" for fs
    by (rule fault_given [where A = "fs = ?fs" and P = "\<lambda>d. d = dm"]) (auto intro: fault_andThen [OF co loop])
  show ?thesis unfolding collectAll_def by (rule fault_andThen [OF look rest])
qed

lemma nothing_below:
  assumes "well_formed fs" "fmlookup fs c = None" "c \<noteq> []"
  shows "fmlookup fs (c @ r) = None"
proof (induction r rule: rev_induct)
  case (snoc s r)
  show ?case
  proof (rule ccontr)
    assume "fmlookup fs (c @ r @ [s]) \<noteq> None"
    then have "isDirAt fs (c @ r)" using assms(1) unfolding well_formed_def by (metis append_assoc)
    then show False using snoc assms(3) by (simp add: isDirAt_def)
  qed
qed (simp add: assms(2))

text \<open>The directory a collection makes for its stage: new, under a name of its own, in the stage parent.\<close>

definition newStage :: "collect_env \<Rightarrow> apply_disk \<Rightarrow> string list \<Rightarrow> bool" where
  "newStage env d c \<longleftrightarrow>
     (\<exists>h. walk (cl_links env) (ad_fs d) [] (cl_stageParent env) = Some h \<and> isDirAt (ad_fs d) h \<and>
        c = h @ [''synchub-resources-'' @ cl_tempName env (ad_fs d)] \<and> fmlookup (ad_fs d) c = None)"

text \<open>The file system the collection reads.\<close>

definition stagedSystem :: "apply_disk \<Rightarrow> string list \<Rightarrow> fsys" where
  "stagedSystem d c = fmupd c DirNode (ad_fs d)"

lemma newStage_fresh: "newStage env d c \<Longrightarrow> fmlookup (ad_fs d) c = None"
  by (auto simp: newStage_def)

lemma mkdirTemp_run:
  assumes "mkdirTemp env w = (r, w')" "well_formed (ad_fs (w_disk w))"
  shows "case r of Inl e \<Rightarrow> w_disk w' = w_disk w \<and> (\<forall>x y. e \<noteq> AndThenAlso x y)
    | Inr root \<Rightarrow> \<exists>c. newStage env (w_disk w) c \<and>
        w_disk w' = (w_disk w)\<lparr>ad_fs := fmupd c DirNode (ad_fs (w_disk w))\<rparr> \<and> stage_only env (w_disk w) root c (w_disk w')"
proof -
  let ?fs = "ad_fs (w_disk w)" and ?name = "''synchub-resources-'' @ cl_tempName env (ad_fs (w_disk w))"
  have made: "stage_only env (w_disk w) (cl_stageParent env @ [?name]) (h @ [?name])
      ((w_disk w)\<lparr>ad_fs := fmupd (h @ [?name]) DirNode ?fs\<rparr>)"
    if h: "walk (cl_links env) ?fs [] (cl_stageParent env) = Some h" "isDirAt ?fs h" "fmlookup ?fs (h @ [?name]) = None" for h
  proof -
    let ?fs' = "fmupd (h @ [?name]) DirNode ?fs"
    have below: "fmlookup ?fs (h @ ?name # r) = None" for r using nothing_below [OF assms(2) h(3)] by simp
    have "only_dirs_added ?fs ?fs'" using h(3) by (simp add: only_dirs_added_def)
    then have "walk (cl_links env) ?fs' [] (cl_stageParent env) = Some h" by (rule walk_mono [OF _ h(1)])
    moreover have "isDirAt ?fs' h" using h(2) by (auto simp: isDirAt_def)
    moreover have "noLinksBelow (h @ [?name]) ?fs'" using below by (auto simp: noLinksBelow_def prefix_def)
    ultimately have "stageDir env (cl_stageParent env @ [?name]) (h @ [?name]) ((w_disk w)\<lparr>ad_fs := ?fs'\<rparr>)"
      by (simp add: stageDir_def)
    then show ?thesis by (auto simp: stage_only_def outside_same_def)
  qed
  show ?thesis using assms(1) made unfolding mkdirTemp_def tick_def Let_def newStage_def
    by (auto split: if_splits list.splits fault.splits option.splits prod.splits sum.splits)
qed

text \<open>Removing the stage gives the file system back.\<close>

lemma removeAll_run:
  assumes "removeAllAt env root w = (r, w')" "stage_only env d root c (w_disk w)" "well_formed (ad_fs d)" "fmlookup (ad_fs d) c = None"
  shows "outside_same d c (w_disk w') \<and> (\<forall>u. r = Inr u \<longrightarrow> w_disk w' = d)"
proof -
  let ?d = "w_disk w"
  have below: "belowNode (cl_links env) (ad_fs ?d) root q \<longleftrightarrow> prefix c q" for q
    using assms(2) append_butlast_last_id [of c] by (auto simp: stage_only_def stageDir_def belowNode_def)
  have u: "outside_same d c ?d" using assms(2) by (simp add: stage_only_def)
  have c: "c \<noteq> []" using assms(2) by (simp add: stage_only_def stageDir_def)
  have part: "outside_same d c (?d\<lparr>ad_fs := fmfilter (\<lambda>q. \<not> (prefix c q \<and> X q)) (ad_fs ?d)\<rparr>)" for X
    using u by (simp add: outside_same_def)
  have "ad_fs d = fmfilter (\<lambda>q. \<not> prefix c q) (ad_fs ?d)"
  proof (rule fmap_ext)
    fix q
    show "fmlookup (ad_fs d) q = fmlookup (fmfilter (\<lambda>q. \<not> prefix c q) (ad_fs ?d)) q"
      using u nothing_below [OF assms(3,4) c] by (auto simp: outside_same_def prefix_def)
  qed
  then have restored: "?d\<lparr>ad_fs := fmfilter (\<lambda>q. \<not> prefix c q) (ad_fs ?d)\<rparr> = d"
    using u by (simp add: outside_same_def)
  have all: "outside_same d c d" by (simp add: outside_same_def)
  show ?thesis using assms(1) part u restored all unfolding removeAllAt_def tick_def below
    by (auto split: if_splits list.splits fault.splits)
qed

lemma Collect_run:
  assumes wf: "well_formed (ad_fs d)" "\<forall>s\<in>set specs. spec_wf s" and run: "Collect env0 specs (boot d fl) = (r, w)"
  defines "env \<equiv> newCollector env0"
  shows "case r of
      Inr res \<Rightarrow> \<exists>c. newStage env d c \<and> collecting_ok env (stagedSystem d c)
        {s. rooted env (stagedSystem d c) specs s} d (co_stageRoot res) c res (w_disk w)
    | Inl e \<Rightarrow> w_disk w = d \<and> (\<forall>x y. e \<noteq> AndThenAlso x y) \<or>
        (\<exists>c. newStage env d c \<and> outside_same d c (w_disk w) \<and> (\<exists>x y. e = AndThenAlso x y))"
proof -
  obtain r1 w1 where ctx: "ctxErr env (boot d fl) = (r1, w1)" by (cases "ctxErr env (boot d fl)")
  have d1: "w_disk w1 = d" and e1: "r1 = Inl e \<Longrightarrow> e = Cancelled" for e
    using ctxErr_disk [OF ctx] ctx by (auto simp: boot_def ctxErr_def tick_def ret_def split: if_splits list.splits fault.splits)
  show ?thesis
  proof (cases r1)
    case (Inl e)
    then show ?thesis using run ctx d1 e1 by (auto simp: Collect_def Let_def env_def [symmetric] andThen_def)
  next
    case (Inr u)
    obtain r2 w2 where tmp: "mkdirTemp env w1 = (r2, w2)" by (cases "mkdirTemp env w1")
    note T = mkdirTemp_run [OF tmp, unfolded d1, OF wf(1)]
    show ?thesis
    proof (cases r2)
      case (Inl e)
      then show ?thesis using run ctx Inr tmp T by (auto simp: Collect_def Let_def env_def [symmetric] andThen_def)
    next
      case (Inr root)
      then obtain c where new: "newStage env d c" and w2: "w_disk w2 = d\<lparr>ad_fs := fmupd c DirNode (ad_fs d)\<rparr>"
        and only: "stage_only env d root c (w_disk w2)" using T by auto
      note c = newStage_fresh [OF new]
      obtain r3 w3 where all: "collectAll env root specs w2 = (r3, w3)" by (cases "collectAll env root specs w2")
      note A = fault_validD [OF fault_collectAll [OF wf(2) only] refl all]
      show ?thesis
      proof (cases r3)
        case res: (Inr res)
        then have "r = Inr res \<and> w = w3" using run ctx \<open>r1 = Inr u\<close> tmp Inr all
          by (simp add: Collect_def Let_def env_def [symmetric] andThen_def attempt_def ret_def)
        moreover have "co_stageRoot res = root" using A(1) [OF res] by (simp add: collecting_ok_def)
        ultimately show ?thesis using A(1) [OF res] new w2 by (auto simp: stagedSystem_def)
      next
        case err: (Inl e)
        obtain r4 w4 where rm: "removeAllAt env root w3 = (r4, w4)" by (cases "removeAllAt env root w3")
        note R = removeAll_run [OF rm A(2) [OF err] wf(1) c]
        have out: "r = (case r4 of Inr _ \<Rightarrow> Inl e | Inl f \<Rightarrow> Inl (AndThenAlso e f)) \<and> w = w4"
          using run ctx \<open>r1 = Inr u\<close> tmp Inr all err rm
          by (cases r4) (auto simp: Collect_def Let_def env_def [symmetric] andThen_def attempt_def raise_def)
        show ?thesis
        proof (cases "\<exists>x y. r = Inl (AndThenAlso x y)")
          case True
          then show ?thesis using out R new by auto
        next
          case False
          then show ?thesis using out R new by (cases r4) auto
        qed
      qed
    qed
  qed
qed

section \<open>Properties\<close>


text \<open> C16. Collecting leaves the machine alone: whatever fails, everything outside the collection's stage directory, a
  new directory with a temporary name in the stage parent, stays as it was; a collection that succeeds has staged in
  it exactly the bytes whose digests its artifacts carry, and one that fails without reporting a failed clean-up leaves
  no trace at all. \<close>

theorem collecting_leaves_the_machine_alone:
  assumes "well_formed (ad_fs d)" and "\<forall>s\<in>set specs. spec_wf s" and "Collect env specs (boot d fl) = (r, w)"
  shows "case r of
      Inr res \<Rightarrow> \<exists>c. newStage (newCollector env) d c \<and> outside_same d c (w_disk w) \<and>
        staged_files (newCollector env) (co_stageRoot res) c res (w_disk w)
    | Inl e \<Rightarrow> w_disk w = d \<and> (\<forall>x y. e \<noteq> AndThenAlso x y) \<or>
        (\<exists>c. newStage (newCollector env) d c \<and> outside_same d c (w_disk w) \<and> (\<exists>x y. e = AndThenAlso x y))"
  using Collect_run [OF assms] by (cases r) (auto simp: collecting_ok_def)

definition demo_collect_env :: collect_env where
  "demo_collect_env = \<lparr>cl_links = 10, cl_stageParent = [''tmp''], cl_tempName = (\<lambda>_. ''1''), cl_cwd = [], cl_goos = ''linux'',
     cl_userHome = ''/h'', cl_codecs = demo_codecs, cl_projector = None, cl_inventory = None,
     cl_filter = \<lparr>maxFileSize = 10, generatedGlobs = [], executableExtensions = []\<rparr>, cl_approved = None, cl_sha = toy_sha,
     cl_modTime = (\<lambda>_. 7), cl_cancellable = True, cl_errorText = (\<lambda>_. ''failed'')\<rparr>"

definition demo_collect_spec :: spec where
  "demo_collect_spec = demo_skill_spec\<lparr>sp_root := ''/h/skills'', sp_include := [''**''], sp_exclude := [], sp_key_patterns := [''token''],
     sp_shared_as := [], sp_validate_root := None, sp_validate_content := None, sp_layout := LayoutPortable, sp_provider := ''claude''\<rparr>"

definition demo_machine :: apply_disk where
  "demo_machine = \<lparr>ad_fs = fmupd [''tmp''] DirNode (fs_of [([''h'', ''skills'', ''a.md''], ''x'')]), ad_aliases = None, ad_base = toy_disk\<rparr>"

lemma demo_machine_well_formed: "well_formed (ad_fs demo_machine)"
  by (rule well_formed_code) code_simp

lemma demo_specs_wf: "\<forall>s\<in>set [demo_collect_spec]. spec_wf s"
  by (simp add: spec_wf_def demo_collect_spec_def demo_skill_spec_def example_spec_def known_category_def)


lemma collecting_leaves_the_machine_alone_witness:
  "\<exists>e w. Collect demo_collect_env [demo_collect_spec] (boot demo_machine (replicate 6 Works @ [Fails []])) = (Inl e, w) \<and>
     w_disk w = demo_machine"
proof -
  let ?run = "Collect demo_collect_env [demo_collect_spec] (boot demo_machine (replicate 6 Works @ [Fails []]))"
  have failed: "(case fst ?run of Inl Cancelled \<Rightarrow> True | _ \<Rightarrow> False)" by code_simp
  then obtain w where run: "?run = (Inl Cancelled, w)" by (cases ?run) (auto split: sum.splits collect_error.splits)
  from collecting_leaves_the_machine_alone [OF demo_machine_well_formed demo_specs_wf run] run show ?thesis by auto
qed

end
