(* ===== verification/Sync_Frames.thy ===== *)
theory Sync_Frames
  imports Sync_Engine Collected
begin

text \<open>
  What the steps of a round leave alone: the operations of the applier, the collector, the conflict
  store, the trash, the install manager and Git do not touch the books of the engine (the saved
  snapshot and the base store); and what the capture at the end of a round writes into the base
  store's index.
\<close>

section \<open>Parts that keep the books\<close>

text \<open>Every operation of the resource applier leaves the base store alone.\<close>

named_theorems applier_keeps \<open>operations of the applier that keep the base store\<close>

lemma keeps_fsOp [applier_keeps]: "keeps (\<lambda>d. ad_base d = b) (fsOp e f)"
  unfolding fsOp_def by (rule keeps_tick) (auto split: option.splits)

lemma keeps_mkdirAll [applier_keeps]: "keeps (\<lambda>d. ad_base d = b) (mkdirAll env p)"
  unfolding mkdirAll_def by (rule keeps_tick) (auto split: prod.splits)

lemma keeps_writeFileAtomic [applier_keeps]: "keeps (\<lambda>d. ad_base d = b) (writeFileAtomic env p x)"
  unfolding writeFileAtomic_def by (intro keeps_intros applier_keeps)

lemma keeps_joins [applier_keeps]:
  "keeps (\<lambda>d. ad_base d = b) (writableJoin env root p)" "keeps (\<lambda>d. ad_base d = b) (deletableJoin env root p)"
  unfolding writableJoin_def deletableJoin_def by (rule keeps_intros)+

lemma keeps_resolveAlias [applier_keeps]: "keeps (\<lambda>d. ad_base d = b) (resolveAlias env p a)"
  unfolding resolveAlias_def by (intro keeps_intros)

lemma keeps_ensureAlias [applier_keeps]: "keeps (\<lambda>d. ad_base d = b) (ensureAlias env p a)"
  unfolding ensureAlias_def symlink_def
  by (auto intro!: keeps_intros applier_keeps split: option.split node.split sum.split)

lemma keeps_saveAlias [applier_keeps]: "keeps (\<lambda>d. ad_base d = b) (saveAlias env a rec)"
  unfolding saveAlias_def by (auto intro!: keeps_intros keeps_tick)

lemma keeps_aliasTargets [applier_keeps]:
  "keeps (\<lambda>d. ad_base d = b) (copyOnlyAlias env p a ts)" "keeps (\<lambda>d. ad_base d = b) (materializeAlias env p a ts)"
  "keeps (\<lambda>d. ad_base d = b) (deleteAlias env a ts)"
  by (auto simp: copyOnlyAlias_def materializeAlias_def deleteAlias_def Let_def intro!: keeps_intros applier_keeps
      split: option.split node.split)

lemma keeps_targets [applier_keeps]:
  "keeps (\<lambda>d. ad_base d = b) (copyOnlyTargets env s)"
  "keeps (\<lambda>d. ad_base d = b) (materializeTargets env s)"
  "keeps (\<lambda>d. ad_base d = b) (targetsForDelete env s)"
proof -
  show copy: "keeps (\<lambda>d. ad_base d = b) (copyOnlyTargets env s)"
    by (auto simp: copyOnlyTargets_def Let_def intro!: keeps_intros applier_keeps split: option.split)
  show "keeps (\<lambda>d. ad_base d = b) (materializeTargets env s)"
    using copy by (auto simp: materializeTargets_def Let_def intro!: keeps_intros applier_keeps)
  show "keeps (\<lambda>d. ad_base d = b) (targetsForDelete env s)"
    using copy by (auto simp: targetsForDelete_def intro!: keeps_intros applier_keeps)
qed

lemma keeps_PushArtifact [applier_keeps]: "keeps (\<lambda>d. ad_base d = b) (PushArtifact env a)"
  unfolding PushArtifact_def by (intro keeps_intros applier_keeps)

lemma keeps_restoredData [applier_keeps]: "keeps (\<lambda>d. ad_base d = b) (restoredData env s rel base remote target)"
  by (cases "ap_registry env") (auto simp: restoredData_def intro!: keeps_intros)

lemma keeps_restoreTarget [applier_keeps]: "keeps (\<lambda>d. ad_base d = b) (restoreTarget env s rel base remote root u)"
  by (auto simp: restoreTarget_def intro!: keeps_intros applier_keeps split: option.split)

lemma keeps_restoreBytes [applier_keeps]: "keeps (\<lambda>d. ad_base d = b) (restoreBytes env s p rel remote)"
  by (auto simp: restoreBytes_def loadBase_def intro!: keeps_intros applier_keeps split: option.split)

lemma keeps_RestoreBytes [applier_keeps]: "keeps (\<lambda>d. ad_base d = b) (RestoreBytes env s rel x)"
  by (auto simp: RestoreBytes_def intro!: keeps_intros applier_keeps split: sum.split)

lemma keeps_RestoreResource [applier_keeps]: "keeps (\<lambda>d. ad_base d = b) (RestoreResource env s p)"
  by (auto simp: RestoreResource_def intro!: keeps_intros applier_keeps split: sum.split)

lemma keeps_removeEmptyParents [applier_keeps]: "keeps (\<lambda>d. ad_base d = b) (removeEmptyParents env p root)"
proof (induction env p root rule: removeEmptyParents.induct)
  case (1 env current root)
  show ?case
  proof (cases "current = root \<or> current = []")
    case False
    then show ?thesis
      by (subst removeEmptyParents.simps)
        (auto intro!: keeps_intros applier_keeps 1 split: sum.split)
  qed (simp add: removeEmptyParents.simps keeps_ret)
qed

lemma keeps_deleteTarget [applier_keeps]: "keeps (\<lambda>d. ad_base d = b) (deleteTarget env s rel root i)"
  by (auto simp: deleteTarget_def recoverBeforeDelete_def intro!: keeps_intros applier_keeps split: option.split sum.split)

lemma keeps_DeleteResource [applier_keeps]: "keeps (\<lambda>d. ad_base d = b) (DeleteResource env s p)"
  by (auto simp: DeleteResource_def intro!: keeps_intros applier_keeps split: sum.split)

text \<open>So do the collector and the removal of its stage: the base store is another invariant of a collection.\<close>

lemma keeps_stage [applier_keeps]: "keeps (\<lambda>d. ad_base d = b) (stage env s rel data t res)"
  unfolding stage_def stageDirs_def stageWrite_def Let_def
  by (auto intro!: keeps_intros keeps_tick split: sum.split prod.splits option.splits if_splits)

interpretation base_kept: collecting env fs UNIV "\<lambda>_ d. ad_base d = b" "\<lambda>d. ad_base d = b" for env fs b
  by unfold_locales (auto intro: keeps_stage)

lemma keeps_removeAllAt [applier_keeps]: "keeps (\<lambda>d. ad_base d = b) (removeAllAt env p)"
  unfolding removeAllAt_def by (rule keeps_tick) auto

lemma keeps_Collect [applier_keeps]: "keeps (\<lambda>d. ad_base d = b) (Collect env specs)"
proof -
  have "keeps (\<lambda>d. ad_base d = b) (mkdirTemp env)" for env
    unfolding mkdirTemp_def Let_def by (rule keeps_tick) (auto split: option.splits if_splits)
  moreover have "keeps (\<lambda>d. ad_base d = b) currentFiles" by (simp add: fault_valid_def currentFiles_def)
  moreover have "keeps (\<lambda>d. ad_base d = b) (collectSpec env fs s res)" for env fs s res
    by (rule base_kept.carries_collectSpec) simp
  ultimately show ?thesis unfolding Collect_def collectAll_def Let_def
    by (auto intro!: keeps_intros applier_keeps keeps_coalesce split: sum.split)
qed

lemma keeps_CloseCollected [applier_keeps]: "keeps (\<lambda>d. ad_base d = b) (CloseCollected env c)"
  unfolding CloseCollected_def by (auto intro!: keeps_intros applier_keeps)

named_theorems round_keeps \<open>steps of a round that keep the books\<close>

lemma keeps_apply_zoom:
  assumes "\<And>b. keeps (\<lambda>d. ad_base d = b) m"
  shows "keeps (\<lambda>s. books s = x) (zoom sy_apply putApply h m)"
proof (rule fault_zoom)
  fix s assume s: "books s = x"
  show "fault_valid (\<lambda>d. d = sy_apply s) m (\<lambda>_ d. books (if d = sy_apply s then s else putApply d s) = x)
     (\<lambda>d. books (if d = sy_apply s then s else putApply d s) = x)"
    by (rule fault_weaken [OF assms [of "ad_base (sy_apply s)"]]) (use s in \<open>auto simp: books_def putApply_def\<close>)
qed

lemma keeps_onApply [round_keeps]:
  "(\<And>b. keeps (\<lambda>d. ad_base d = b) m) \<Longrightarrow> keeps (\<lambda>s. books s = x) (onApply step m)"
  unfolding onApply_def by (rule keeps_apply_zoom)

lemma keeps_collector [round_keeps]:
  "keeps (\<lambda>s. books s = x) (collectResources env step specs)" "keeps (\<lambda>s. books s = x) (closeStage env step c)"
  unfolding collectResources_def closeStage_def onCollector_def by (auto intro!: keeps_apply_zoom applier_keeps)

lemma keeps_onParts [round_keeps]:
  "keeps (\<lambda>s. books s = x) (onConflicts env step m)" "keeps (\<lambda>s. books s = x) (onTrash env step n)"
  "keeps (\<lambda>s. books s = x) (onInstall env step q)"
  unfolding onConflicts_def onTrash_def onInstall_def
  by (rule conflict_frame.keeps_zoom, rule trash_frame.keeps_zoom, rule install_frame.keeps_zoom)

lemma keeps_reader: "reader m \<Longrightarrow> keeps I m"
  by (auto simp: fault_valid_def reader_def split: prod.split sum.split) (metis snd_conv)+

lemma reader_BaseGet [reader_intros]: "reader (BaseGet sha p)"
  by (auto simp: BaseGet_def guard_def loadIndex_def readObject_def Let_def intro!: reader_intros split: option.split)

lemma keeps_BaseGet [round_keeps]: "keeps I (onBase env step (BaseGet sha p))"
  unfolding onBase_def by (intro keeps_reader reader_zoom reader_BaseGet)

lemma keeps_reads [round_keeps]:
  "keeps I (SnapshotRepo env)" "keeps I LoadState" "keeps I (SetLocalConfig env)" "keeps I AddAll" "keeps I (HasChanges env)"
  "keeps I (readOptional env step p)" "keeps I (readStaged env step a)"
  unfolding SnapshotRepo_def LoadState_def SetLocalConfig_def AddAll_def HasChanges_def readOptional_def readStaged_def
  by (rule keeps_read_tick)+

lemma keeps_moveTrees [round_keeps]: "keeps (\<lambda>s. books s = x) (moveTrees env op step f)"
  unfolding moveTrees_def by (rule keeps_tick) (auto split: prod.splits)

lemma keeps_git [round_keeps]:
  "keeps (\<lambda>s. books s = x) (PullRebase env)" "keeps (\<lambda>s. books s = x) (ResetKeepUpstream env)"
  "keeps (\<lambda>s. books s = x) (Commit env)" "keeps (\<lambda>s. books s = x) (Push env)" "keeps (\<lambda>s. books s = x) (FetchOrigin env)"
  unfolding PullRebase_def ResetKeepUpstream_def Commit_def Push_def FetchOrigin_def network_def
  by (auto intro!: round_keeps keeps_tick)

lemma keeps_loadRemote [round_keeps]: "keeps I (loadRemote env specs)"
  unfolding loadRemote_def by (auto intro!: keeps_intros round_keeps)

lemma keeps_requireValid [round_keeps]: "keeps I (requireValid e)"
  by (auto simp: requireValid_def intro!: keeps_intros split: option.split)

lemma keeps_makeStageParent [round_keeps]: "keeps (\<lambda>s. books s = x) (makeStageParent env)"
  unfolding makeStageParent_def by (intro round_keeps applier_keeps)

lemma keeps_resolutions [round_keeps]:
  "keeps (\<lambda>s. books s = x) (preflightResolutionBatch env specs b c)"
  "keeps (\<lambda>s. books s = x) (restoreResolution env specs res)"
  by (auto simp: preflightResolutionBatch_def restoreResolution_def Let_def split_beta
      intro!: keeps_intros round_keeps applier_keeps split: sum.split)

lemma keeps_adoptResolution [round_keeps]: "keeps (\<lambda>s. books s = x) (adoptResolution env res st)"
  unfolding adoptResolution_def
  by (auto simp: Let_def intro!: keeps_intros round_keeps split: option.split prod.split)

lemma keeps_resolutionPhase: "keeps (\<lambda>s. books s = x) (resolutionPhase env c st)"
  unfolding resolutionPhase_def
  by (auto intro!: keeps_intros round_keeps keeps_collector split: option.split prod.split)

lemma keeps_createConflict [round_keeps]: "keeps (\<lambda>s. books s = x) (createConflict env specs s p base local remote)"
  unfolding createConflict_def by (auto intro!: keeps_intros round_keeps)

lemma keeps_mergeResource [round_keeps]: "keeps (\<lambda>s. books s = x) (mergeResource env specs s p base artifacts)"
  unfolding mergeResource_def
  by (auto intro!: keeps_intros round_keeps applier_keeps split: option.split sum.split merge_result.split)

lemma keeps_doSteps [round_keeps]:
  "keeps (\<lambda>s. books s = x) (doMerge env specs c s p st)" "keeps (\<lambda>s. books s = x) (doPush env c p st)"
  "keeps (\<lambda>s. books s = x) (doPull env s p st)" "keeps (\<lambda>s. books s = x) (doDelete env s p code st)"
  "keeps (\<lambda>s. books s = x) (doRemoveRemote env p st)"
  by (auto simp: doMerge_def doPush_def doPull_def doDelete_def doRemoveRemote_def
      intro!: keeps_intros round_keeps applier_keeps split: option.split sum.split bool.split)

lemma keeps_actionStep [round_keeps]: "keeps (\<lambda>s. books s = x) (actionStep env y a st)"
  by (auto simp: actionStep_def performAction_def doDeleteRemote_def Let_def
      intro!: keeps_intros round_keeps split: sum.split action_type.split)

lemma keeps_installPhase [round_keeps]: "keeps (\<lambda>s. books s = x) (installPhase env specs c res)"
proof -
  have "keeps (\<lambda>s. books s = x) (stagedManifest env specs y m)" for y m
    by (auto simp: stagedManifest_def split_beta intro!: keeps_intros round_keeps split: sum.split)
  then show ?thesis unfolding installPhase_def currentInstallManifests_def
    by (intro keeps_intros round_keeps)
qed

section \<open>What a capture records\<close>

text \<open>The index a capture leaves, whatever the digest is.\<close>

lemma fault_capture_index:
  "fault_valid (\<lambda>d. d = d0) (CaptureRepoPreserving sha snap preserve)
    (\<lambda>_ d. \<exists>idx. bs_index d = Some (IndexFile idx) \<and>
       (\<forall>p. fmlookup idx p = (if p \<in> set preserve then fmlookup (the_index d0) p
          else if p \<in> set snap then Some (sha (repo_text d0 p)) else None)))
    (\<lambda>d. bs_index d = bs_index d0)"
proof -
  let ?ps = "sort_unique (filter (\<lambda>p. p \<notin> set preserve) snap)"
  let ?c = "repo_content d0 ?ps"
  let ?E = "\<lambda>d. bs_index d = bs_index d0"
  let ?K = "\<lambda>p. p \<in> set preserve \<or> p \<in> set snap"
  have guards: "fault_valid (\<lambda>d. d = d0) (forEach (\<lambda>p _. guard (validateBaseRepoPath p)) snap ()) (\<lambda>_ d. d = d0) ?E"
    by (rule fault_weaken [OF fault_forEach [where I = "\<lambda>_ _ d. d = d0"]]) (rule fault_guard, auto)
  have reads: "fault_valid (\<lambda>d. d = d0) (forEach captureRead ?ps []) (\<lambda>c d. d = d0 \<and> c = ?c) ?E"
    by (rule fault_weaken [OF fault_captureReads [of d0 True ?E ?ps]]) auto
  have load: "fault_valid (\<lambda>d. d = d0 \<and> c = ?c) loadIndex (\<lambda>m d. d = d0 \<and> c = ?c \<and> m = the_index d0) ?E" for c
    by (rule fault_weaken [OF fault_loadIndex [of "\<lambda>d. d = d0 \<and> c = ?c" ?E]]) auto
  have put: "fault_valid ?E (putObject sha x) (\<lambda>h d. ?E d \<and> h = sha x) ?E" for x
    unfolding putObject_def Let_def
    by (rule fault_andThen [where R = "\<lambda>_. ?E"], rule fault_read_tick, simp, simp)
      (intro fault_if fault_ret fault_andThen [where R = "\<lambda>_. ?E"] fault_tick, auto)
  have objs: "fault_valid (\<lambda>d. ?E d \<and> put_hashes sha xs m = put_hashes sha c0 m0) (forEach (captureObject sha) xs m)
      (\<lambda>m' d. ?E d \<and> m' = put_hashes sha c0 m0) ?E" for xs m c0 m0
  proof -
    have "fault_valid (\<lambda>d. ?E d \<and> put_hashes sha (y # ys) i = put_hashes sha c0 m0) (captureObject sha y i)
        (\<lambda>i' d. ?E d \<and> put_hashes sha ys i' = put_hashes sha c0 m0) ?E" for y ys i
    proof (cases y)
      case (Pair p x)
      show ?thesis
        by (rule fault_given [where A = "put_hashes sha (y # ys) i = put_hashes sha c0 m0" and P = ?E])
          (auto simp: Pair captureObject_def put_hashes_def intro!: fault_andThen [OF put] fault_ret)
    qed
    from fault_forEach [where I = "\<lambda>xs i d. ?E d \<and> put_hashes sha xs i = put_hashes sha c0 m0", OF this]
    show ?thesis by (rule fault_weaken) (auto simp: put_hashes_def)
  qed
  have save: "fault_valid (\<lambda>d. ?E d \<and> m' = put_hashes sha ?c (the_index d0)) (saveIndex (fmfilter ?K m'))
    (\<lambda>_ d. \<exists>idx. bs_index d = Some (IndexFile idx) \<and>
       (\<forall>p. fmlookup idx p = (if p \<in> set preserve then fmlookup (the_index d0) p
          else if p \<in> set snap then Some (sha (repo_text d0 p)) else None))) ?E" for m'
    by (rule fault_saveIndex) (auto simp: with_index_def repo_content_def lookup_put_hashes)
  have objs': "fault_valid (\<lambda>d. d = d0 \<and> c = ?c \<and> m = the_index d0) (forEach (captureObject sha) c m)
      (\<lambda>m' d. ?E d \<and> m' = put_hashes sha ?c (the_index d0)) ?E" for c m
    by (rule fault_weaken [OF objs [of c m ?c "the_index d0"]]) auto
  show ?thesis unfolding CaptureRepoPreserving_def Let_def
    by (rule fault_andThen [OF guards], rule fault_andThen [OF reads], rule fault_andThen [OF load],
        rule fault_andThen [OF objs'], rule save)
qed

text \<open>The files of the working tree as the base store reads them.\<close>

lemma lookup_entries:
  "fmlookup (fmap_of_list (List.map_filter (\<lambda>(k, v). map_option (Pair k) (h k v)) (fm_entries m))) p =
     Option.bind (fmlookup m p) (h p)"
proof -
  have keys: "distinct (map fst (fm_entries m))" and ent: "\<And>k v. (k, v) \<in> set (fm_entries m) \<longleftrightarrow> fmlookup m k = Some v"
    by (auto simp: fm_entries_def fm_simps comp_def)
  have "map_of (List.map_filter (\<lambda>(k, v). map_option (Pair k) (h k v)) xs) p = Option.bind (map_of xs p) (h p)"
    if "distinct (map fst xs)" for xs
    using that
  proof (induction xs)
    case (Cons y ys)
    obtain k v where y: "y = (k, v)" by (cases y)
    have none: "p \<notin> fst ` set ys \<Longrightarrow> map_of ys p = None" by (simp add: map_of_eq_None_iff)
    show ?case using Cons none by (cases "h k v") (auto simp: y List.map_filter_simps)
  qed (simp add: List.map_filter_simps)
  from this [OF keys] show ?thesis
    using keys ent by (simp add: fmlookup_of_list) (metis map_of_eq_Some_iff option.exhaust)
qed

lemma lookup_textsThrough:
  "fmlookup (textsThrough env s) p =
     (case fmlookup (workOf env s) p of
        None \<Rightarrow> None
      | Some (FileNode x) \<Rightarrow> Some x
      | Some _ \<Rightarrow> readFile (ap_links env) (ad_fs (sy_apply s)) (segsOf env p))"
proof -
  let ?h = "\<lambda>rel nd. case nd of FileNode x \<Rightarrow> Some x | _ \<Rightarrow> readFile (ap_links env) (ad_fs (sy_apply s)) (segsOf env rel)"
  have "(\<lambda>(rel, nd). case nd of FileNode x \<Rightarrow> Some (rel, x)
       | _ \<Rightarrow> map_option (Pair rel) (readFile (ap_links env) (ad_fs (sy_apply s)) (segsOf env rel))) =
     (\<lambda>(rel, nd). map_option (Pair rel) (?h rel nd))"
    by (auto simp: fun_eq_iff split: node.split)
  then show ?thesis unfolding textsThrough_def
    by (simp only: lookup_entries) (auto split: option.split node.split)
qed

end
