(* ===== verification/Sync_Accounts.thy ===== *)
theory Sync_Accounts
  imports Sync_Frames
begin

text \<open>
  The paths that keep their old merge base in a round's loop: each is accounted for by an open conflict,
  by an issue of the loop or by a reason known before it.  No step of the loop takes a conflict away.
\<close>

text \<open>Two facts about one run.\<close>

lemma fault_both:
  assumes "fault_valid P m Q E" "fault_valid P' m Q' E'"
  shows "fault_valid (\<lambda>d. P d \<and> P' d) m (\<lambda>a d. Q a d \<and> Q' a d) (\<lambda>d. E d \<and> E' d)"
  using assms unfolding fault_valid_def by (fastforce split: prod.splits sum.splits)

section \<open>Conflicts do not go away in a round's loop\<close>

text \<open>The paths that the conflict bundles of the local store are about.\<close>

definition pathsOf :: "(string, dirent) fmap \<Rightarrow> string list \<Rightarrow> string set" where
  "pathsOf m names = {p. \<exists>i\<in>set names. \<exists>b rec. fmlookup m i = Some (Dir b) \<and> bd_record b = Some (Stored rec) \<and> p = cr_repoRel rec}"

definition conflictPaths :: "(string, dirent) fmap \<Rightarrow> string set" where
  "conflictPaths m = pathsOf m (bundleNames m)"

definition bundlesIn :: "sync_disk \<Rightarrow> (string, dirent) fmap" where
  "bundlesIn s = dk_local (sy_conflict s)"

definition conflicted :: "sync_disk \<Rightarrow> string \<Rightarrow> bool" where
  "conflicted s p \<longleftrightarrow> p \<in> conflictPaths (bundlesIn s)"

lemma fault_readRecord:
  "fault_valid (\<lambda>d. dk_local d = m) (readRecord i)
     (\<lambda>rec d. dk_local d = m \<and> (\<exists>b. fmlookup m i = Some (Dir b) \<and> bd_record b = Some (Stored rec))) (\<lambda>d. dk_local d = m)"
proof -
  let ?P = "\<lambda>d. dk_local d = m" and ?R = "\<lambda>rec. \<exists>b. fmlookup m i = Some (Dir b) \<and> bd_record b = Some (Stored rec)"
  have check: "fault_valid H (check e) (\<lambda>_. H) H" for H and e :: "conflict_error option"
    by (rule keeps_reader [OF reader_check])
  have read: "fault_valid ?P (readRecordFile LocalRoot i)
      (\<lambda>st d. ?P d \<and> (\<forall>rec. st = Stored rec \<longrightarrow> ?R rec)) ?P"
    unfolding readRecordFile_def by (rule fault_read_tick) (auto split: option.splits dirent.splits)
  have rest: "fault_valid (\<lambda>d. ?P d \<and> (\<forall>rec. st = Stored rec \<longrightarrow> ?R rec))
      (case st of Corrupt \<Rightarrow> raise (ParseFailed i)
       | Stored rec \<Rightarrow> andThen (check (validateRecord rec)) (\<lambda>_.
             if cr_id rec \<noteq> i then raise (WrongRecord i (cr_id rec)) else ret rec)) (\<lambda>rec d. ?P d \<and> ?R rec) ?P" for st
  proof (cases st)
    case (Stored rec)
    show ?thesis unfolding Stored stored.case
      by (rule fault_andThen [OF fault_weaken [OF check]], assumption, assumption, simp)
        (intro fault_if fault_raise fault_ret, auto)
  qed (auto intro: fault_raise)
  have "fault_valid ?P (readBundleRecord LocalRoot i) (\<lambda>rec d. ?P d \<and> ?R rec) ?P"
    unfolding readBundleRecord_def by (rule fault_andThen [OF check fault_andThen [OF read rest]])
  then show ?thesis unfolding readRecord_def
    by (rule fault_attempt) (auto intro!: fault_ret fault_raise split: conflict_error.split)
qed

text \<open>The listing has one record for every bundle.\<close>

lemma fault_listUnlocked:
  "fault_valid (\<lambda>d. dk_local d = m) listUnlocked
     (\<lambda>rs d. dk_local d = m \<and> set (map cr_repoRel rs) = conflictPaths m) (\<lambda>d. dk_local d = m)"
proof -
  let ?P = "\<lambda>d. dk_local d = m" and ?ns = "bundleNames m"
  have dir: "fault_valid ?P (readDir LocalRoot) (\<lambda>names d. ?P d \<and> names = ?ns) ?P"
    unfolding readDir_def by (rule fault_read_tick) auto
  have more: "pathsOf m (i # xs) = insert (cr_repoRel rec) (pathsOf m xs)"
    if "\<exists>b. fmlookup m i = Some (Dir b) \<and> bd_record b = Some (Stored rec)" for i xs rec
    using that by (auto simp: pathsOf_def)
  have step: "fault_valid (\<lambda>d. ?P d \<and> set (map cr_repoRel rs) \<union> pathsOf m (i # xs) = conflictPaths m)
      (andThen (readRecord i) (\<lambda>rec. ret (rs @ [rec])))
      (\<lambda>rs' d. ?P d \<and> set (map cr_repoRel rs') \<union> pathsOf m xs = conflictPaths m) ?P" for rs i xs
  proof (rule fault_given [where A = "set (map cr_repoRel rs) \<union> pathsOf m (i # xs) = conflictPaths m" and P = ?P])
    assume c: "set (map cr_repoRel rs) \<union> pathsOf m (i # xs) = conflictPaths m"
    show "fault_valid ?P (andThen (readRecord i) (\<lambda>rec. ret (rs @ [rec])))
      (\<lambda>rs' d. ?P d \<and> set (map cr_repoRel rs') \<union> pathsOf m xs = conflictPaths m) ?P"
      by (rule fault_andThen [OF fault_readRecord], rule fault_ret) (use c more in auto)
  qed simp
  have loop: "fault_valid ?P (forEach (\<lambda>i rs. andThen (readRecord i) (\<lambda>rec. ret (rs @ [rec]))) ?ns [])
      (\<lambda>rs d. ?P d \<and> set (map cr_repoRel rs) = conflictPaths m) ?P"
    by (rule fault_weaken [OF fault_forEach
          [where I = "\<lambda>xs rs d. ?P d \<and> set (map cr_repoRel rs) \<union> pathsOf m xs = conflictPaths m", OF step]])
      (auto simp: conflictPaths_def pathsOf_def)
  have rest: "fault_valid (\<lambda>d. ?P d \<and> names = ?ns)
      (andThen (forEach (\<lambda>i rs. andThen (readRecord i) (\<lambda>rec. ret (rs @ [rec]))) names [])
        (\<lambda>rs. ret (sort_key (\<lambda>r. (cr_createdAt r, cr_id r)) rs)))
      (\<lambda>rs d. ?P d \<and> set (map cr_repoRel rs) = conflictPaths m) ?P" for names
    by (rule fault_given [where A = "names = ?ns" and P = ?P]) (simp, rule fault_andThen [OF loop], rule fault_ret, simp, simp)
  show ?thesis unfolding listUnlocked_def by (rule fault_andThen [OF dir rest])
qed

lemma conflictPaths_other:
  assumes "fmlookup m i = None" "\<And>j. j \<noteq> i \<Longrightarrow> fmlookup m' j = fmlookup m j"
  shows "conflictPaths m \<subseteq> conflictPaths m'"
proof
  fix p assume "p \<in> conflictPaths m"
  then obtain j b rec where j: "j \<in> set (bundleNames m)" "fmlookup m j = Some (Dir b)" "bd_record b = Some (Stored rec)" "p = cr_repoRel rec"
    by (auto simp: conflictPaths_def pathsOf_def)
  then have "j \<noteq> i" using assms(1) by auto
  then have same: "fmlookup m' j = fmlookup m j" by (rule assms(2))
  then have "j \<in> set (bundleNames m')" using j(1,2) by (auto simp: bundleNames_def fm_simps fmlookup_dom_iff)
  then show "p \<in> conflictPaths m'" using j same by (auto simp: conflictPaths_def pathsOf_def)
qed

text \<open>A bundle is created where none was; what fails takes only that one away again.\<close>

lemma fault_publishBoth:
  assumes "\<not> prefix ''.tmp-'' i"
  shows "fault_valid (\<lambda>d. d = d0 \<and> fmlookup (dk_local d0) i = None) (publishBoth i (mkBundle rec vs) rt)
     (\<lambda>_ d. insert (cr_repoRel rec) (conflictPaths (dk_local d0)) \<subseteq> conflictPaths (dk_local d))
     (\<lambda>d. conflictPaths (dk_local d0) \<subseteq> conflictPaths (dk_local d))"
proof -
  let ?b = "mkBundle rec vs"
  let ?A = "\<lambda>d. \<forall>j. j \<noteq> i \<longrightarrow> fmlookup (dk_local d) j = fmlookup (dk_local d0) j"
  let ?L = "\<lambda>d. ?A d \<and> fmlookup (dk_local d) i = Some (Dir ?b)"
  let ?Q = "\<lambda>d. insert (cr_repoRel rec) (conflictPaths (dk_local d0)) \<subseteq> conflictPaths (dk_local d)"
  let ?E = "\<lambda>d. conflictPaths (dk_local d0) \<subseteq> conflictPaths (dk_local d)"
  have l: "fault_valid (\<lambda>d. d = d0) (renameBundle LocalRoot i ?b) (\<lambda>_. ?L) (\<lambda>d. d = d0)"
    unfolding renameBundle_def atomic_def by (rule fault_tick) auto
  have r: "fault_valid ?L (renameBundle RepoRoot i rt) (\<lambda>_. ?L) ?L"
    unfolding renameBundle_def atomic_def by (rule fault_tick) auto
  have x: "fault_valid ?L (removeAll LocalRoot i) (\<lambda>_. ?A) ?A"
    unfolding removeAll_def by (rule fault_tick) (auto simp: partial_remove_def split: option.split dirent.split)
  show ?thesis
  proof (rule fault_given [where A = "fmlookup (dk_local d0) i = None" and P = "\<lambda>d. d = d0"])
    assume none: "fmlookup (dk_local d0) i = None"
    have other: "?E d" if "?A d" for d using conflictPaths_other [OF none] that by blast
    have new: "?Q d" if "?L d" for d
    proof -
      have "i \<in> set (bundleNames (dk_local d))"
        using that assms by (auto simp: bundleNames_def fm_simps fmlookup_dom_iff)
      then have "cr_repoRel rec \<in> conflictPaths (dk_local d)"
        using that unfolding conflictPaths_def pathsOf_def mkBundle_def
        by (intro CollectI bexI [of _ i] exI [of _ ?b] exI [of _ rec]) (simp_all add: mkBundle_def)
      then show ?thesis using other that by blast
    qed
    have undo: "fault_valid ?L (attempt (removeAll LocalRoot i) (\<lambda>z.
        raise (Joined ([Wrapped ''publish repository conflict bundle'' e] @ (case z of Inl e' \<Rightarrow> [e'] | Inr _ \<Rightarrow> [])))))
        (\<lambda>_. ?Q) ?E" for e
      by (rule fault_attempt [OF x]) (use other in \<open>auto intro!: fault_raise\<close>)
    have second: "fault_valid ?L (attempt (renameBundle RepoRoot i rt) (\<lambda>y. case y of
          Inr _ \<Rightarrow> ret ()
        | Inl e \<Rightarrow> attempt (removeAll LocalRoot i) (\<lambda>z.
            raise (Joined ([Wrapped ''publish repository conflict bundle'' e] @ (case z of Inl e' \<Rightarrow> [e'] | Inr _ \<Rightarrow> []))))))
        (\<lambda>_. ?Q) ?E"
      by (rule fault_attempt [OF r]) (simp_all only: sum.case undo, rule fault_ret, erule new)
    show "fault_valid (\<lambda>d. d = d0) (publishBoth i ?b rt) (\<lambda>_. ?Q) ?E"
      unfolding publishBoth_def by (rule fault_attempt [OF l]) (simp_all only: sum.case, rule second, rule fault_raise, simp)
  qed simp
qed

lemma conflictID_not_temporary:
  assumes "hex_digest sha"
  shows "\<not> prefix ''.tmp-'' (conflictID sha p vs)"
proof -
  let ?h = "sha (p @ concat (map (\<lambda>v. CHR 0x00 # v) vs))"
  have "validateObjectHash ?h = None" using assms by (simp add: hex_digest_def)
  then have "length ?h = 64" "list_all is_hex_digit ?h" by (auto simp: validateObjectHash_def split: if_splits)
  then obtain c cs where h: "?h = c # cs" and c: "is_hex_digit c" by (cases ?h) auto
  have "\<not> is_hex_digit CHR ''.''" by code_simp
  then show ?thesis using c unfolding conflictID_def h by auto
qed

lemma fault_Create_conflicts:
  assumes "\<not> prefix ''.tmp-'' (cr_id rec)"
  shows "fault_valid (\<lambda>d. d = d0) (Create env rec base local remote) 
     (\<lambda>_ d. insert (cr_repoRel rec) (conflictPaths (dk_local d0)) \<subseteq> conflictPaths (dk_local d))
     (\<lambda>d. conflictPaths (dk_local d0) \<subseteq> conflictPaths (dk_local d))"
proof -
  let ?E = "\<lambda>d. conflictPaths (dk_local d0) \<subseteq> conflictPaths (dk_local d)"
  let ?Q = "\<lambda>d. insert (cr_repoRel rec) (conflictPaths (dk_local d0)) \<subseteq> conflictPaths (dk_local d)"
  let ?i = "cr_id rec"
  have same: "fault_valid (\<lambda>d. d = d0) m (\<lambda>_ d. d = d0) ?E" if "reader m" for m :: "'x store_io"
    by (rule fault_weaken [OF keeps_reader [OF that, of "\<lambda>d. d = d0"]]) auto
  have absent: "fault_valid (\<lambda>d. d = d0) (assertAbsent i LocalRoot u) (\<lambda>_ d. d = d0 \<and> fmlookup (dk_local d0) i = None) ?E" for i u
    unfolding assertAbsent_def
    by (rule fault_andThen [where R = "\<lambda>x d. d = d0 \<and> x = fmlookup (dk_local d0) i"], unfold statEntry_def,
        rule fault_read_tick) (auto intro!: fault_if fault_ret fault_raise)
  have absent2: "fault_valid (\<lambda>d. d = d0 \<and> fmlookup (dk_local d0) i = None) (assertAbsent i RepoRoot u)
      (\<lambda>_ d. d = d0 \<and> fmlookup (dk_local d0) i = None) ?E" for i u
    by (rule fault_given [where A = "fmlookup (dk_local d0) i = None" and P = "\<lambda>d. d = d0"])
      (auto simp: assertAbsent_def intro!: fault_weaken [OF same] reader_intros)
  have both: "fault_valid (\<lambda>d. d = d0) (forEach (assertAbsent i) [LocalRoot, RepoRoot] ())
      (\<lambda>_ d. d = d0 \<and> fmlookup (dk_local d0) i = None) ?E" for i
    by (subst forEach.simps, rule fault_andThen [OF absent], subst forEach.simps, rule fault_andThen [OF absent2],
        subst forEach.simps, rule fault_ret)
  have temp: "fault_valid (\<lambda>d. d = d0 \<and> fmlookup (dk_local d0) i = None) (writeTempBundle r rc vs)
      (\<lambda>b d. (d = d0 \<and> fmlookup (dk_local d0) i = None) \<and> b = mkBundle rc vs) ?E" for i r rc vs
    unfolding writeTempBundle_def by (rule fault_read_tick) auto
  have publish: "fault_valid (\<lambda>d. (d = d0 \<and> fmlookup (dk_local d0) ?i = None) \<and> lt = mkBundle rc vs) (publishBoth ?i lt rt)
      (\<lambda>_. ?Q) ?E" if "cr_repoRel rc = cr_repoRel rec" for lt rt rc vs
    by (rule fault_given [where A = "lt = mkBundle rc vs" and P = "\<lambda>d. d = d0 \<and> fmlookup (dk_local d0) ?i = None"])
      (use that fault_publishBoth [OF assms, of d0 rc vs rt] in auto)
  have tail: "fault_valid (\<lambda>d. (d = d0 \<and> fmlookup (dk_local d0) ?i = None) \<and> lt = mkBundle rc vs)
      (andThen (writeTempBundle RepoRoot rc vs) (\<lambda>rt. publishBoth ?i lt rt)) (\<lambda>_. ?Q) ?E" if "cr_repoRel rc = cr_repoRel rec" for lt rc vs
    by (rule fault_andThen [where R = "\<lambda>_ d. (d = d0 \<and> fmlookup (dk_local d0) ?i = None) \<and> lt = mkBundle rc vs"],
        unfold writeTempBundle_def, rule fault_read_tick, simp, force, rule publish, rule that)
  have r1: "reader (forEach (\<lambda>(v, data) _. check (scan env rc v data)) vs ())" for rc vs
    by (rule reader_forEach) (auto intro: reader_intros)
  have id: "cr_id (stamped env rec) = ?i" by (simp add: stamped_def)
  show ?thesis unfolding Create_def Let_def stamped_def [symmetric] id
    by (rule fault_andThen [OF same [OF reader_check]], rule fault_andThen [OF same [OF r1]],
        rule fault_andThen [OF both], rule fault_andThen [OF temp], rule tail) (simp add: stamped_def)
qed

lemma framed_bundles [simp]:
  "bundlesIn (setWork env t s) = bundlesIn s" "bundlesIn (putApply d s) = bundlesIn s"
  "bundlesIn (putTrash env te td s) = bundlesIn s" "bundlesIn (putBase b s) = bundlesIn s"
  "bundlesIn (putInstall env i s) = bundlesIn s" "bundlesIn (putConflict env te c s) = dk_local c"
  "bundlesIn (s\<lparr>sy_head := h\<rparr>) = bundlesIn s" "bundlesIn (s\<lparr>sy_net := n\<rparr>) = bundlesIn s" "bundlesIn (s\<lparr>sy_state := st\<rparr>) = bundlesIn s"
  by (simp_all add: bundlesIn_def setWork_def putApply_def putTrash_def putBase_def putInstall_def putConflict_def)

interpretation apply_bundles: framed sy_apply putApply bundlesIn
  by unfold_locales simp

interpretation trash_bundles: framed "getTrash env te" "putTrash env te" bundlesIn for env te
  by unfold_locales simp

interpretation install_bundles: framed "getInstall env" "putInstall env" bundlesIn for env
  by unfold_locales simp

interpretation base_bundles: framed "getBase env" putBase bundlesIn for env
  by unfold_locales simp

lemma getConflict_local [simp]: "dk_local (getConflict env te s) = bundlesIn s"
  by (simp add: getConflict_def bundlesIn_def Let_def)

text \<open>Steps of the loop, and what they know of the conflicts afterwards.\<close>

named_theorems conflict_keeps \<open>steps of a round that keep the conflicts there are\<close>

lemma keeps_bundles [conflict_keeps]:
  "keeps (\<lambda>s. I (bundlesIn s)) (onApply step m1)" "keeps (\<lambda>s. I (bundlesIn s)) (onTrash env step m2)"
  "keeps (\<lambda>s. I (bundlesIn s)) (onInstall env step m3)" "keeps (\<lambda>s. I (bundlesIn s)) (onBase env step m4)"
  "keeps (\<lambda>s. I (bundlesIn s)) (onCollector step m5)"
  unfolding onApply_def onTrash_def onInstall_def onBase_def onCollector_def
  by (rule apply_bundles.keeps_zoom trash_bundles.keeps_zoom install_bundles.keeps_zoom base_bundles.keeps_zoom)+

lemma reader_conflictExists [reader_intros]: "reader (conflictExists p)"
  by (auto simp: conflictExists_def intro!: reader_intros)

text \<open>What listing tells, on the whole disk.\<close>

lemma fault_list_conflicts:
  "fault_valid H (onConflicts env step listUnlocked) (\<lambda>rs s. H s \<and> set (map cr_repoRel rs) = conflictPaths (bundlesIn s)) H"
  unfolding onConflicts_def
proof (rule fault_zoom)
  fix s assume H: "H s"
  let ?g = "getConflict (en_apply env) (en_texts env) s"
  have "fault_valid (\<lambda>d. dk_local d = bundlesIn s \<and> d = ?g) listUnlocked
     (\<lambda>rs d. (dk_local d = bundlesIn s \<and> set (map cr_repoRel rs) = conflictPaths (bundlesIn s)) \<and> d = ?g)
     (\<lambda>d. dk_local d = bundlesIn s \<and> d = ?g)"
    by (rule fault_both [OF fault_listUnlocked keeps_reader [OF reader_listUnlocked]])
  then show "fault_valid (\<lambda>d. d = ?g) listUnlocked
     (\<lambda>rs d. H (if d = ?g then s else putConflict (en_apply env) (en_texts env) d s) \<and>
        set (map cr_repoRel rs) = conflictPaths (bundlesIn (if d = ?g then s else putConflict (en_apply env) (en_texts env) d s)))
     (\<lambda>d. H (if d = ?g then s else putConflict (en_apply env) (en_texts env) d s))"
    by (rule fault_weaken) (use H in auto)
qed

lemma fault_exists: "fault_valid H (onConflicts env step (conflictExists p)) (\<lambda>b s. H s \<and> (b \<longrightarrow> conflicted s p)) H"
  unfolding onConflicts_def
proof (rule fault_zoom)
  fix s assume H: "H s"
  let ?g = "getConflict (en_apply env) (en_texts env) s"
  have "fault_valid (\<lambda>d. dk_local d = bundlesIn s \<and> d = ?g) (conflictExists p)
     (\<lambda>b d. (b \<longrightarrow> p \<in> conflictPaths (bundlesIn s)) \<and> d = ?g) (\<lambda>d. True \<and> d = ?g)"
  proof (rule fault_both [OF _ keeps_reader [OF reader_conflictExists]])
    show "fault_valid (\<lambda>d. dk_local d = bundlesIn s) (conflictExists p) (\<lambda>b d. b \<longrightarrow> p \<in> conflictPaths (bundlesIn s)) (\<lambda>_. True)"
      unfolding conflictExists_def
      by (rule fault_andThen [OF fault_weaken [OF fault_listUnlocked [of "bundlesIn s"]]], assumption, assumption, simp)
        (rule fault_ret, auto simp: list_ex_iff)
  qed
  then show "fault_valid (\<lambda>d. d = ?g) (conflictExists p)
     (\<lambda>b d. H (if d = ?g then s else putConflict (en_apply env) (en_texts env) d s) \<and>
        (b \<longrightarrow> conflicted (if d = ?g then s else putConflict (en_apply env) (en_texts env) d s) p))
     (\<lambda>d. H (if d = ?g then s else putConflict (en_apply env) (en_texts env) d s))"
    by (rule fault_weaken) (use H in \<open>auto simp: conflicted_def\<close>)
qed

text \<open>What more conflicts cannot hurt.\<close>

definition grows :: "(sync_disk \<Rightarrow> bool) \<Rightarrow> bool" where
  "grows H \<longleftrightarrow> (\<forall>s s'. H s \<and> conflictPaths (bundlesIn s) \<subseteq> conflictPaths (bundlesIn s') \<longrightarrow> H s')"

lemma fault_createConflict:
  assumes "hex_digest (ap_sha (en_apply env))" and H: "grows H"
  shows "fault_valid H (createConflict env specs s p base local remote) (\<lambda>b s. b \<and> H s \<and> conflicted s p) H"
proof -
  let ?rec = "\<lparr>cr_id = conflictID (ap_sha (en_apply env)) p [orEmpty base, orEmpty local, orEmpty remote],
               cr_resourceKey = sp_key s, cr_repoRel = p, cr_createdAt = en_now env\<rparr>"
  have tmp: "\<not> prefix ''.tmp-'' (cr_id ?rec)" using conflictID_not_temporary [OF assms(1)] by simp
  have c: "fault_valid H (onConflicts env ''create conflict'' (Create st ?rec b l r)) (\<lambda>_ s. H s \<and> conflicted s p) H" for st b l r
    unfolding onConflicts_def
  proof (rule fault_zoom)
    fix s assume h: "H s"
    let ?g = "getConflict (en_apply env) (en_texts env) s" and ?put = "\<lambda>d. putConflict (en_apply env) (en_texts env) d s"
    have grown: "H (if d = ?g then s else ?put d)" if "conflictPaths (bundlesIn s) \<subseteq> conflictPaths (dk_local d)" for d :: disk
    proof (cases "d = ?g")
      case False
      have "H (?put d)" by (rule H [unfolded grows_def, rule_format, of s]) (use h that in simp)
      then show ?thesis using False by simp
    qed (simp add: h)
    show "fault_valid (\<lambda>d. d = ?g) (Create st ?rec b l r)
       (\<lambda>_ d. H (if d = ?g then s else ?put d) \<and> conflicted (if d = ?g then s else ?put d) p)
       (\<lambda>d. H (if d = ?g then s else ?put d))"
    proof (rule fault_weaken [OF fault_Create_conflicts [OF tmp, of ?g st b l r]])
      fix d :: disk assume more: "insert (cr_repoRel ?rec) (conflictPaths (dk_local ?g)) \<subseteq> conflictPaths (dk_local d)"
      then have "H (if d = ?g then s else ?put d)" by (intro grown) simp
      moreover have "conflicted (if d = ?g then s else ?put d) p"
        using more by (cases "d = ?g") (simp_all add: conflicted_def)
      ultimately show "H (if d = ?g then s else ?put d) \<and> conflicted (if d = ?g then s else ?put d) p" ..
    next
      fix d :: disk assume "conflictPaths (dk_local ?g) \<subseteq> conflictPaths (dk_local d)"
      then show "H (if d = ?g then s else ?put d)" by (intro grown) simp
    qed
  qed
  show ?thesis unfolding createConflict_def
    by (rule fault_andThen [OF fault_exists])
      (intro fault_if fault_ret fault_andThen [OF fault_weaken [OF c]], auto)
qed

section \<open>The loop over the actions\<close>

text \<open>
  A path keeps its old base only together with something the user is told: an issue that names it, a
  conflict about it, or what \<open>A\<close> stands for (reasons known before the loop).  The conflicts \<open>C\<close> there
  were before the loop are still there.
\<close>

definition accounted_for :: "(string \<Rightarrow> bool) \<Rightarrow> string set \<Rightarrow> loop_state \<Rightarrow> sync_disk \<Rightarrow> bool" where
  "accounted_for A C st s \<longleftrightarrow> C \<subseteq> conflictPaths (bundlesIn s) \<and>
     (\<forall>p\<in>set (ls_preserve st). A p \<or> conflicted s p \<or> (\<exists>i\<in>set (ls_issues st). iss_path i = p))"

lemma accounted_steps [simp]:
  "accounted_for A C (restored st) s = accounted_for A C st s"
  "accounted_for A C st s \<Longrightarrow> accounted_for A C (failedResource env key p code e st) s"
  "accounted_for A C st s \<Longrightarrow> A p \<or> conflicted s p \<Longrightarrow> accounted_for A C (keepBase p st) s"
  "accounted_for A C (st\<lparr>ls_conflicts := n\<rparr>) s = accounted_for A C st s"
  by (auto simp: accounted_for_def failedResource_def keepBase_def restored_def applyIssue_def)

lemma grows_accounted: "grows (accounted_for A C st)"
  unfolding grows_def accounted_for_def conflicted_def by blast

lemma fault_accounted:
  "fault_valid (accounted_for A C st) (onApply step m1) (\<lambda>_. accounted_for A C st) (accounted_for A C st)"
  "fault_valid (accounted_for A C st) (onTrash env step m2) (\<lambda>_. accounted_for A C st) (accounted_for A C st)"
  unfolding accounted_for_def conflicted_def
  by (rule keeps_bundles [where I = "\<lambda>b. C \<subseteq> conflictPaths b \<and>
      (\<forall>p\<in>set (ls_preserve st). A p \<or> p \<in> conflictPaths b \<or> (\<exists>i\<in>set (ls_issues st). iss_path i = p))"])+

lemmas fault_accounted_onApply = fault_accounted(1)

lemma applied_step:
  "fault_valid (accounted_for A C st) (onApply step m) (\<lambda>_. accounted_for A C st) (\<lambda>_. True)"
  by (rule fault_weaken [OF fault_accounted(1)]) auto

lemma fault_doPull: "fault_valid (accounted_for A C st) (doPull env s p st) (accounted_for A C) (\<lambda>_. True)"
  unfolding doPull_def
  by (intro fault_if fault_ret, simp, rule fault_attempt [OF fault_accounted_onApply])
    (auto intro!: fault_ret)

lemma fault_doDelete: "fault_valid (accounted_for A C st) (doDelete env s p code st) (accounted_for A C) (\<lambda>_. True)"
  unfolding doDelete_def
  by (intro fault_if fault_ret, simp, rule fault_attempt [OF fault_accounted_onApply])
    (auto intro!: fault_ret)

lemma fault_doPush: "fault_valid (accounted_for A C st) (doPush env c p st) (accounted_for A C) (\<lambda>_. True)"
  unfolding doPush_def
  by (cases "fmlookup (co_artifacts c) p")
    (auto intro!: fault_raise fault_andThen [OF applied_step] fault_ret)

lemma fault_doRemoveRemote: "fault_valid (accounted_for A C st) (doRemoveRemote env p st) (accounted_for A C) (\<lambda>_. True)"
  unfolding doRemoveRemote_def
  by (rule fault_andThen [OF applied_step]) (auto intro!: fault_ret)

lemma fault_doDeleteRemote: "fault_valid (accounted_for A C st) (doDeleteRemote env s p st) (accounted_for A C) (\<lambda>_. True)"
  unfolding doDeleteRemote_def
proof (rule fault_andThen [OF _ fault_doDelete])
  show "fault_valid (accounted_for A C st) (onTrash env ''delete remote resource'' (SoftDeleteRemote (en_now env) p))
      (\<lambda>_. accounted_for A C st) (\<lambda>_. True)"
    by (rule fault_weaken [OF fault_accounted(2)]) auto
qed

lemma fault_mergeResource:
  assumes "hex_digest (ap_sha (en_apply env))"
  shows "fault_valid (accounted_for A C st) (mergeResource env specs s p base artifacts)
     (\<lambda>b s. accounted_for A C st s \<and> (b \<longrightarrow> conflicted s p)) (accounted_for A C st)"
proof -
  let ?I = "accounted_for A C st"
  have create: "fault_valid ?I (createConflict env specs s p base local remote)
      (\<lambda>b s. ?I s \<and> (b \<longrightarrow> conflicted s p)) ?I" for local remote
    by (rule fault_weaken [OF fault_createConflict [OF assms grows_accounted]]) auto
  have read_step: "fault_valid ?I (readStaged env step a) (\<lambda>_. ?I) ?I" for step a
    by (rule fault_weaken [OF keeps_reads(7) [of ?I]]) auto
  have staged: "fault_valid ?I (case fmlookup artifacts p of None \<Rightarrow> ret None
      | Some a \<Rightarrow> andThen (readStaged env step a) (\<lambda>x. ret (Some x))) (\<lambda>_. ?I) ?I" for step
    by (cases "fmlookup artifacts p")
      (auto intro!: fault_ret fault_andThen [OF read_step])
  have written: "fault_valid ?I (andThen (onApply [] (writeFileAtomic (en_apply env) remotePath data)) (\<lambda>_.
       if sp_strategy s = StrategyInstallManifest then ret False
       else case relativeOf p of
         Inl e \<Rightarrow> raise (During [] e)
       | Inr rel \<Rightarrow> andThen (onApply ''restore merged resource'' (RestoreBytes (en_apply env) s rel data)) (\<lambda>_. ret False)))
      (\<lambda>b s. ?I s \<and> (b \<longrightarrow> conflicted s p)) ?I" for remotePath data
  proof (rule fault_andThen [OF fault_accounted_onApply])
    show "fault_valid ?I (if sp_strategy s = StrategyInstallManifest then ret False
       else case relativeOf p of
         Inl e \<Rightarrow> raise (During [] e)
       | Inr rel \<Rightarrow> andThen (onApply ''restore merged resource'' (RestoreBytes (en_apply env) s rel data)) (\<lambda>_. ret False))
      (\<lambda>b s. ?I s \<and> (b \<longrightarrow> conflicted s p)) ?I"
      by (cases "relativeOf p")
        (auto intro!: fault_if fault_ret fault_raise fault_andThen [OF fault_accounted_onApply])
  qed
  have rest: "fault_valid ?I (case mergeVersions env s p base local remote of
       Inl e \<Rightarrow> raise (During ''merge resource'' e)
     | Inr Conflict \<Rightarrow> createConflict env specs s p base local remote
     | Inr (Merged data) \<Rightarrow>
         andThen (onApply [] (writeFileAtomic (en_apply env) remotePath data)) (\<lambda>_.
           if sp_strategy s = StrategyInstallManifest then ret False
           else case relativeOf p of
             Inl e \<Rightarrow> raise (During [] e)
           | Inr rel \<Rightarrow> andThen (onApply ''restore merged resource'' (RestoreBytes (en_apply env) s rel data)) (\<lambda>_. ret False)))
      (\<lambda>b s. ?I s \<and> (b \<longrightarrow> conflicted s p)) ?I" for local remote remotePath
    using create written by (auto intro!: fault_raise split: sum.split merge_result.split)
  show ?thesis unfolding mergeResource_def
  proof (rule fault_andThen [OF staged])
    fix local
    show "fault_valid ?I (case safeJoin (ap_repoDir (en_apply env)) p of
       Inl e \<Rightarrow> raise (During [] (OfGuard e))
     | Inr remotePath \<Rightarrow>
         andThen (readOptional env ''read remote merge input'' remotePath) (\<lambda>remote.
           case mergeVersions env s p base local remote of
             Inl e \<Rightarrow> raise (During ''merge resource'' e)
           | Inr Conflict \<Rightarrow> createConflict env specs s p base local remote
           | Inr (Merged data) \<Rightarrow>
               andThen (onApply [] (writeFileAtomic (en_apply env) remotePath data)) (\<lambda>_.
                 if sp_strategy s = StrategyInstallManifest then ret False
                 else case relativeOf p of
                   Inl e \<Rightarrow> raise (During [] e)
                 | Inr rel \<Rightarrow>
                     andThen (onApply ''restore merged resource'' (RestoreBytes (en_apply env) s rel data)) (\<lambda>_. ret False))))
      (\<lambda>b s. ?I s \<and> (b \<longrightarrow> conflicted s p)) ?I"
    proof (cases "safeJoin (ap_repoDir (en_apply env)) p")
      case (Inr remotePath)
      show ?thesis unfolding Inr sum.case
        by (rule fault_andThen [OF fault_weaken [OF keeps_reads(6) [of "?I"]] rest]) auto
    qed (auto intro!: fault_raise)
  qed
qed

lemma fault_doMerge:
  assumes "hex_digest (ap_sha (en_apply env))"
  shows "fault_valid (accounted_for A C st) (doMerge env specs c s p st) (accounted_for A C) (\<lambda>_. True)"
  unfolding doMerge_def
proof (rule fault_andThen)
  show "fault_valid (accounted_for A C st) (onBase env ''load merge base'' (BaseGet (ap_sha (en_apply env)) p))
      (\<lambda>_. accounted_for A C st) (\<lambda>_. True)"
    by (rule fault_weaken [OF keeps_BaseGet [of "accounted_for A C st"]]) auto
  fix base
  show "fault_valid (accounted_for A C st) (attempt (mergeResource env specs s p base (co_artifacts c)) (\<lambda>r. case r of
         Inl e \<Rightarrow> ret (failedResource env (sp_key s) p ''merge-failed'' e st)
       | Inr True \<Rightarrow> ret (keepBase p (st\<lparr>ls_conflicts := Suc (ls_conflicts st)\<rparr>))
       | Inr False \<Rightarrow> ret (restored st))) (accounted_for A C) (\<lambda>_. True)"
    by (rule fault_attempt [OF fault_mergeResource [OF assms]])
      (auto intro!: fault_ret split: bool.split)
qed

text \<open>The path of an install manifest.\<close>

definition manifestAt :: "specs \<Rightarrow> string \<Rightarrow> bool" where
  "manifestAt specs p \<longleftrightarrow> (\<exists>s. specForRepoPath specs p = Inr s \<and> sp_strategy s = StrategyInstallManifest)"

text \<open>
  What the loop is given: the known conflicts, the actions, and a pending install plan as a reason to keep
  a manifest that one of them removes.
\<close>

definition loopReady :: "(string \<Rightarrow> bool) \<Rightarrow> string set \<Rightarrow> action list \<Rightarrow> loop_context \<Rightarrow> bool" where
  "loopReady A C as x \<longleftrightarrow> set (lx_conflictPaths x) \<subseteq> C \<and>
     (lx_pendingPlan x \<noteq> None \<longrightarrow> (\<forall>p. manifestAt (lx_specs x) p \<and> Action DeleteRemote p \<in> set as \<longrightarrow> A p))"

lemma fault_actionStep:
  assumes "hex_digest (ap_sha (en_apply env))" and x: "loopReady A C as x" and a: "a \<in> set as"
  shows "fault_valid (accounted_for A C st) (actionStep env x a st) (accounted_for A C) (\<lambda>_. True)"
proof -
  have step: "fault_valid (accounted_for A C st) (performAction env x s a st) (accounted_for A C) (\<lambda>_. True)"
    if s: "specForRepoPath (lx_specs x) (act_path a) = Inr s" for s
  proof (cases "act_type a")
    case DeleteRemote
    have keep: "fault_valid (accounted_for A C st) (ret (keepBase (act_path a) st)) (accounted_for A C) (\<lambda>_. True)"
      if "sp_strategy s = StrategyInstallManifest" "pendingInstallForAdapter (lx_pendingPlan x) i" for i
    proof -
      have "Action DeleteRemote (act_path a) = a" using DeleteRemote action.collapse [of a] by simp
      then have "Action DeleteRemote (act_path a) \<in> set as" using a by simp
      then have "A (act_path a)" using x s that by (auto simp: loopReady_def manifestAt_def pendingInstallForAdapter_def split: option.splits)
      then show ?thesis by (intro fault_ret) simp
    qed
    show ?thesis unfolding performAction_def DeleteRemote Let_def action_type.case
      by (rule fault_if) (blast intro: keep, rule fault_doDeleteRemote)
  qed (simp_all add: performAction_def fault_doMerge [OF assms(1)] fault_doPush fault_doPull fault_doDelete fault_doRemoveRemote)
  have keep: "fault_valid (accounted_for A C st) (ret (keepBase p st)) (accounted_for A C) (\<lambda>_. True)" if "p \<in> set (lx_conflictPaths x)" for p
  proof (rule fault_ret)
    fix s assume "accounted_for A C st s"
    moreover from this have "conflicted s p" using x that by (auto simp: loopReady_def accounted_for_def conflicted_def)
    ultimately show "accounted_for A C (keepBase p st) s" by simp
  qed
  show ?thesis
  proof (cases "specForRepoPath (lx_specs x) (act_path a)")
    case (Inl e)
    then show ?thesis unfolding actionStep_def Let_def
      by (auto intro!: fault_if fault_ret fault_raise keep fault_doRemoveRemote)
  next
    case (Inr s)
    then show ?thesis unfolding actionStep_def Let_def by (auto intro!: fault_if fault_ret keep step)
  qed
qed

lemma fault_actions:
  assumes "hex_digest (ap_sha (en_apply env))" and "loopReady A C as x"
  shows "fault_valid (accounted_for A C st) (forEach (actionStep env x) as st) (accounted_for A C) (\<lambda>_. True)"
proof -
  have "fault_valid (\<lambda>s. accounted_for A C st s \<and> set (a # xs) \<subseteq> set as) (actionStep env x a st)
      (\<lambda>st' s. accounted_for A C st' s \<and> set xs \<subseteq> set as) (\<lambda>_. True)" for a xs st
    by (rule fault_given [where A = "set (a # xs) \<subseteq> set as" and P = "accounted_for A C st"],
        rule fault_weaken [OF fault_actionStep [OF assms]]) auto
  from fault_forEach [where I = "\<lambda>xs st s. accounted_for A C st s \<and> set xs \<subseteq> set as", OF this, of st as]
  show ?thesis by (rule fault_weaken) auto
qed

end
