(* ===== verification/Sync_Rounds.thy ===== *)
theory Sync_Rounds
  imports Sync_Accounts
begin

text \<open>
  What a whole synchronization round records as the merge base of the next one, whatever fails in it:
  what is saved describes the commit, and every path that keeps its old base is one the result tells about.
\<close>

section \<open>Recording the merge base\<close>

text \<open>
  What the two books hold after a round: outside \<open>P\<close> the saved snapshot is what the resources own of the
  commit, and the base store has the same paths with the content of the commit; a path of \<open>P\<close> keeps its
  old entry in the base store.
\<close>

definition booked :: "engine_env \<Rightarrow> specs \<Rightarrow> string list \<Rightarrow> base_disk \<Rightarrow> sync_disk \<Rightarrow> bool" where
  "booked env specs P b s \<longleftrightarrow>
     (\<exists>m idx. sy_state s = Some (Stored m) \<and> bs_index (ad_base (sy_apply s)) = Some (IndexFile idx) \<and>
       (\<forall>p. if p \<in> set P then fmlookup idx p = fmlookup (the_index b) p
            else fmlookup m p = fmlookup (ownedNow specs (snapshotOf env (sy_head s))) p \<and>
              (case fmlookup m p of
                None \<Rightarrow> fmlookup idx p = None
              | Some x \<Rightarrow> \<exists>nd. fmlookup (sy_head s) p = Some nd \<and> x = fileMeta env p nd \<and>
                  (\<forall>t. nd = FileNode t \<longrightarrow> fmlookup idx p = Some (fm_hash x)))))"

lemma booked_cong:
  "sy_state s = sy_state s' \<Longrightarrow> ad_base (sy_apply s) = ad_base (sy_apply s') \<Longrightarrow> sy_head s = sy_head s' \<Longrightarrow>
     booked env specs P b s = booked env specs P b s'"
  by (simp only: booked_def)

lemma lookup_ownedNow_snapshot:
  "fmlookup (ownedNow specs (snapshotOf env t)) p = Some x \<Longrightarrow> \<exists>nd. fmlookup t p = Some nd \<and> x = fileMeta env p nd"
  by (auto simp: ownedNow_def SplitRemoteSnapshot_def snapshotOf_def split: if_splits)

lemma fault_recordBase:
  "fault_valid (\<lambda>s. books s = x \<and> sy_head s = workOf (en_apply env) s) (recordBase env specs baseSnapshot baseOwned P)
     (\<lambda>_ s. booked env specs P (snd x) s) (\<lambda>s. bs_index (ad_base (sy_apply s)) = bs_index (snd x))"
proof -
  let ?E = "\<lambda>s. bs_index (ad_base (sy_apply s)) = bs_index (snd x)"
  let ?W = "\<lambda>s. sy_head s = workOf (en_apply env) s"
  let ?o = "\<lambda>cur. ownedNow specs cur"
  let ?N = "\<lambda>cur. preserveSnapshot baseOwned (?o cur) P"
  have snap: "fault_valid (\<lambda>s. books s = x \<and> ?W s) (SnapshotRepo env)
      (\<lambda>cur s. books s = x \<and> ?W s \<and> cur = snapshotOf env (sy_head s)) ?E"
    unfolding SnapshotRepo_def
    by (rule fault_read_tick) (auto simp: books_def split: option.splits node.splits)
  have save: "fault_valid (\<lambda>s. books s = x \<and> ?W s \<and> cur = snapshotOf env (sy_head s)) (SaveState (?N cur))
      (\<lambda>_ s. sy_state s = Some (Stored (?N cur)) \<and> ad_base (sy_apply s) = snd x \<and> ?W s \<and> cur = snapshotOf env (sy_head s)) ?E" for cur
    unfolding SaveState_def by (rule fault_tick) (auto simp: books_def workOf_def)
  have capture: "fault_valid
      (\<lambda>s. sy_state s = Some (Stored (?N cur)) \<and> ad_base (sy_apply s) = snd x \<and> ?W s \<and> cur = snapshotOf env (sy_head s))
      (onBase env ''capture base'' (CaptureRepoPreserving (ap_sha (en_apply env)) (fm_keys (?o cur)) P))
      (\<lambda>_ s. booked env specs P (snd x) s) ?E" for cur
    unfolding onBase_def
  proof (rule fault_zoom)
    fix s assume s: "sy_state s = Some (Stored (?N cur)) \<and> ad_base (sy_apply s) = snd x \<and> ?W s \<and> cur = snapshotOf env (sy_head s)"
    let ?g = "getBase (en_apply env) s"
    have g: "bs_index ?g = bs_index (snd x)" "the_index ?g = the_index (snd x)"
      using s by (simp_all add: getBase_def the_index_def)
    have repo: "repo_text ?g p = t" if "fmlookup (sy_head s) p = Some (FileNode t)" for p t
      using that s by (simp add: repo_text_def getBase_def lookup_textsThrough)
    have idx: "booked env specs P (snd x) s'"
      if i: "bs_index (ad_base (sy_apply s')) = Some (IndexFile idx)"
        "\<forall>p. fmlookup idx p = (if p \<in> set P then fmlookup (the_index ?g) p
          else if p \<in> set (fm_keys (?o cur)) then Some (ap_sha (en_apply env) (repo_text ?g p)) else None)"
        and s': "sy_state s' = sy_state s" "sy_head s' = sy_head s" for s' idx
      unfolding booked_def
    proof (intro exI conjI allI)
      show "sy_state s' = Some (Stored (?N cur))" using s s' by simp
      show "bs_index (ad_base (sy_apply s')) = Some (IndexFile idx)" by (rule i(1))
      fix p
      show "if p \<in> set P then fmlookup idx p = fmlookup (the_index (snd x)) p
            else fmlookup (?N cur) p = fmlookup (?o (snapshotOf env (sy_head s'))) p \<and>
              (case fmlookup (?N cur) p of
                None \<Rightarrow> fmlookup idx p = None
              | Some y \<Rightarrow> \<exists>nd. fmlookup (sy_head s') p = Some nd \<and> y = fileMeta env p nd \<and>
                  (\<forall>t. nd = FileNode t \<longrightarrow> fmlookup idx p = Some (fm_hash y)))"
      proof (cases "p \<in> set P")
        case True
        then show ?thesis using i(2) g by simp
      next
        case False
        have cur: "cur = snapshotOf env (sy_head s')" using s s' by simp
        show ?thesis
        proof (cases "fmlookup (?o cur) p")
          case None
          then have "p \<notin> set (fm_keys (?o cur))" by (simp add: fm_simps fmlookup_dom_iff)
          then show ?thesis using False None i(2) cur by (simp add: fmlookup_preserveSnapshot)
        next
          case (Some y)
          then obtain nd where nd: "fmlookup (sy_head s) p = Some nd" "y = fileMeta env p nd"
            using lookup_ownedNow_snapshot [of specs env "sy_head s" p y] s by auto
          have "p \<in> set (fm_keys (?o cur))" using Some by (simp add: fm_simps fmlookup_dom_iff)
          then show ?thesis using False Some nd i(2) repo s' cur
            by (auto simp: fmlookup_preserveSnapshot fileMeta_def)
        qed
      qed
    qed
    show "fault_valid (\<lambda>d :: base_disk. d = ?g) (CaptureRepoPreserving (ap_sha (en_apply env)) (fm_keys (?o cur)) P)
       (\<lambda>_ d. booked env specs P (snd x) (if d = ?g then s else putBase d s)) (\<lambda>d. ?E (if d = ?g then s else putBase d s))"
    proof (rule fault_weaken [OF fault_capture_index [of ?g "ap_sha (en_apply env)" "fm_keys (?o cur)" P]])
      fix d :: base_disk assume "\<exists>idx. bs_index d = Some (IndexFile idx) \<and>
         (\<forall>p. fmlookup idx p = (if p \<in> set P then fmlookup (the_index ?g) p
          else if p \<in> set (fm_keys (?o cur)) then Some (ap_sha (en_apply env) (repo_text ?g p)) else None))"
      then obtain idx where j: "bs_index d = Some (IndexFile idx)"
        "\<forall>p. fmlookup idx p = (if p \<in> set P then fmlookup (the_index ?g) p
          else if p \<in> set (fm_keys (?o cur)) then Some (ap_sha (en_apply env) (repo_text ?g p)) else None)" by blast
      show "booked env specs P (snd x) (if d = ?g then s else putBase d s)"
        by (rule idx [OF _ j(2)]) (use j(1) in \<open>auto simp: putBase_def getBase_def\<close>)
    next
      fix d :: base_disk assume "bs_index d = bs_index ?g"
      then show "?E (if d = ?g then s else putBase d s)" using g s by (auto simp: putBase_def)
    qed simp
  qed
  have undo: "fault_valid ?E (SaveState baseSnapshot) (\<lambda>_. ?E) ?E"
    unfolding SaveState_def by (rule fault_tick) auto
  have rest: "fault_valid (\<lambda>s. books s = x \<and> ?W s \<and> cur = snapshotOf env (sy_head s))
      (case SplitRemoteSnapshot cur specs of (_, _, blocked) \<Rightarrow>
         if blocked \<noteq> [] then raise MalformedPaths
         else let owned = ?o cur in
           andThen (SaveState (preserveSnapshot baseOwned owned P)) (\<lambda>_.
           attempt (onBase env ''capture base'' (CaptureRepoPreserving (ap_sha (en_apply env)) (fm_keys owned) P)) (\<lambda>r.
             case r of
               Inr _ \<Rightarrow> ret ()
             | Inl e \<Rightarrow>
                 attempt (SaveState baseSnapshot) (\<lambda>q. case q of
                   Inr _ \<Rightarrow> raise (ErrorList [e]) | Inl f \<Rightarrow> raise (ErrorList [e, f])))))
      (\<lambda>_ s. booked env specs P (snd x) s) ?E" for cur
  proof (cases "SplitRemoteSnapshot cur specs")
    case (fields a b blocked)
    have fin: "fault_valid ?E (attempt (SaveState baseSnapshot) (\<lambda>q. case q of
          Inr _ \<Rightarrow> raise (ErrorList [e]) | Inl f \<Rightarrow> raise (ErrorList [e, f]))) (\<lambda>_ s. booked env specs P (snd x) s) ?E" for e
      by (rule fault_attempt [OF undo]) (auto intro!: fault_raise)
    have keep: "fault_valid (\<lambda>s. sy_state s = Some (Stored (?N cur)) \<and> ad_base (sy_apply s) = snd x \<and> ?W s \<and> cur = snapshotOf env (sy_head s))
        (attempt (onBase env ''capture base'' (CaptureRepoPreserving (ap_sha (en_apply env)) (fm_keys (?o cur)) P)) (\<lambda>r.
             case r of
               Inr _ \<Rightarrow> ret ()
             | Inl e \<Rightarrow>
                 attempt (SaveState baseSnapshot) (\<lambda>q. case q of
                   Inr _ \<Rightarrow> raise (ErrorList [e]) | Inl f \<Rightarrow> raise (ErrorList [e, f]))))
        (\<lambda>_ s. booked env specs P (snd x) s) ?E"
      by (rule fault_attempt [OF capture]) (simp_all add: fault_ret fin)
    show ?thesis unfolding fields prod.case Let_def
      by (rule fault_if, rule fault_raise, force simp: books_def) (rule fault_andThen [OF save keep])
  qed
  show ?thesis unfolding recordBase_def by (rule fault_andThen [OF snap rest])
qed

section \<open>Protecting resources\<close>

text \<open>What protecting the library's outputs leaves of a resource: it may own fewer paths.\<close>

definition sheltered :: "spec \<Rightarrow> spec \<Rightarrow> bool" where
  "sheltered s s' \<longleftrightarrow> sp_key s' = sp_key s \<and> sp_provider s' = sp_provider s \<and> sp_id s' = sp_id s \<and>
     sp_category s' = sp_category s \<and> sp_strategy s' = sp_strategy s \<and> sp_layout s' = sp_layout s \<and>
     sp_shared_as s' = sp_shared_as s \<and> set (sp_reserved s) \<subseteq> set (sp_reserved s')"

definition shelters :: "specs \<Rightarrow> specs \<Rightarrow> bool" where
  "shelters specs specs' \<longleftrightarrow>
     (\<forall>k. (fmlookup specs k = None \<longleftrightarrow> fmlookup specs' k = None) \<and>
        (\<forall>s s'. fmlookup specs k = Some s \<and> fmlookup specs' k = Some s' \<longrightarrow> sheltered s s'))"

lemma sheltered_refl [simp]: "sheltered s s"
  by (simp add: sheltered_def)

lemma shelters_refl [simp]: "shelters specs specs"
  by (auto simp: shelters_def)

lemma sheltered_trans: "sheltered s u \<Longrightarrow> sheltered u v \<Longrightarrow> sheltered s v"
  by (auto simp: sheltered_def)

lemma shelters_None: "shelters specs specs' \<Longrightarrow> fmlookup specs' k = None \<longleftrightarrow> fmlookup specs k = None"
  unfolding shelters_def by blast

lemma shelters_Some: "shelters specs specs' \<Longrightarrow> fmlookup specs k = Some s \<Longrightarrow> \<exists>s'. fmlookup specs' k = Some s' \<and> sheltered s s'"
  unfolding shelters_def by (metis option.exhaust)

lemma shelters_trans:
  assumes ab: "shelters a b" and bc: "shelters b c"
  shows "shelters a c"
  unfolding shelters_def
proof (intro allI conjI impI)
  fix k
  show "fmlookup a k = None \<longleftrightarrow> fmlookup c k = None" using shelters_None [OF ab] shelters_None [OF bc] by simp
  fix s s' assume s: "fmlookup a k = Some s \<and> fmlookup c k = Some s'"
  obtain u where u: "fmlookup b k = Some u" "sheltered s u" using shelters_Some [OF ab] s by blast
  obtain v where "fmlookup c k = Some v" "sheltered u v" using shelters_Some [OF bc u(1)] by blast
  then show "sheltered s s'" using s u by (auto intro: sheltered_trans)
qed

lemma sheltered_protect: "sheltered s (protectSpec targets s)"
proof -
  have step: "sheltered s (reserve root t u)" if "sheltered s u" for u root t
    using that reserve_mono [of u root t]
    by (auto simp: sheltered_def reserve_def reserveAll_def Let_def split: option.splits)
  have steps: "sheltered s (fold (reserve root) ts u)" if "sheltered s u" for u root ts
    using that by (induction ts arbitrary: u) (auto intro: step)
  have all: "sheltered s (fold (\<lambda>root. fold (reserve root) ts) roots u)" if "sheltered s u" for u roots ts
    using that by (induction roots arbitrary: u) (auto intro: steps)
  have copy: "sheltered s (s\<lparr>sp_copy_only := b\<rparr>)" for b by (simp add: sheltered_def)
  have "sheltered s (if sp_shared_as s = ''common-skills'' then s\<lparr>sp_copy_only := True\<rparr> else s)" using copy by simp
  then show ?thesis unfolding protectSpec_def Let_def using copy all by (simp only: if_split) blast
qed

lemma shelters_configure: "shelters specs (configureSources links content specs)"
proof -
  let ?f = "\<lambda>k m. case fmlookup m k of
        None \<Rightarrow> m
      | Some s \<Rightarrow> fmupd k (s\<lparr>sp_optional_root := True, sp_copy_only := True, sp_validate_root := Some links,
                            sp_validate_content := Some content\<rparr>) m"
  have one: "shelters m (?f k m)" for k m by (cases "fmlookup m k") (auto simp: shelters_def sheltered_def)
  show ?thesis unfolding configureSources_def fold_simps by (rule shelters_trans [OF one one])
qed

lemma shelters_Protect:
  assumes "ProtectRemoteSpecs links content home remote specs = Inr specs'"
  shows "shelters specs specs'"
proof -
  let ?c = "configureSources links content specs"
  have "shelters ?c (fmmap (protectSpec targets) ?c)" for targets
    by (auto simp: shelters_def intro: sheltered_protect)
  then have "shelters ?c specs'"
    using assms by (auto simp: ProtectRemoteSpecs_def protect_def Let_def map_sum_def split: list.splits if_splits sum.splits)
  then show ?thesis by (rule shelters_trans [OF shelters_configure])
qed

text \<open>The resources a round works with: the configured ones, with the outputs of the library set aside.\<close>

definition setsAside :: "engine_env \<Rightarrow> specs \<Rightarrow> specs \<Rightarrow> bool" where
  "setsAside env a b \<longleftrightarrow> (\<exists>links content remote. ProtectRemoteSpecs links content (ap_userHome (en_apply env)) remote a = Inr b)"

definition outputsAside :: "engine_env \<Rightarrow> specs \<Rightarrow> specs \<Rightarrow> bool" where
  "outputsAside env = (setsAside env)\<^sup>*\<^sup>*"

lemma outputsAside_refl [simp]: "outputsAside env specs specs"
  by (simp add: outputsAside_def)

lemma outputsAside_trans: "outputsAside env a b \<Longrightarrow> outputsAside env b c \<Longrightarrow> outputsAside env a c"
  unfolding outputsAside_def by (rule rtranclp_trans)

lemma outputsAside_Protect:
  "ProtectRemoteSpecs links content (ap_userHome (en_apply env)) remote specs = Inr specs' \<Longrightarrow> outputsAside env specs specs'"
  unfolding outputsAside_def by (rule r_into_rtranclp) (auto simp: setsAside_def)

lemma outputsAside_shelters: "outputsAside env specs specs' \<Longrightarrow> shelters specs specs'"
  unfolding outputsAside_def
  by (induction rule: rtranclp_induct) (auto simp: setsAside_def intro: shelters_trans shelters_Protect)

lemma RepoPath_sheltered: "sheltered s s' \<Longrightarrow> RepoPath s' = RepoPath s"
  by (rule ext) (simp add: sheltered_def RepoPath_def cong: option.case_cong)

lemma skippedPrefix_shelters:
  assumes "shelters specs specs'"
  shows "skippedPrefix specs' i = skippedPrefix specs i"
proof (cases "fmlookup specs (iss_resource_key i)")
  case None
  then show ?thesis using shelters_None [OF assms, of "iss_resource_key i"] by (simp add: skippedPrefix_def)
next
  case (Some s)
  then obtain s' where s': "fmlookup specs' (iss_resource_key i) = Some s'" "sheltered s s'"
    using shelters_Some [OF assms] by blast
  then have "RepoPath s' = RepoPath s" "resourceRepoPrefix s' = resourceRepoPrefix s"
    by (simp_all add: RepoPath_sheltered resourceRepoPrefix_def)
  then show ?thesis by (simp only: skippedPrefix_def Some s'(1) option.case)
qed

lemma owns_from_subset: "set rs \<subseteq> set rs' \<Longrightarrow> owns_from p rs' \<Longrightarrow> owns_from p rs"
proof -
  have "owns_from p qs \<longleftrightarrow> (\<forall>r\<in>set qs. canonical_case r \<noteq> [] \<and> p \<noteq> canonical_case r \<and> \<not> prefix (canonical_case r @ ''/'') p)" for qs
    by (induction qs) (auto simp: Let_def)
  then show "set rs \<subseteq> set rs' \<Longrightarrow> owns_from p rs' \<Longrightarrow> owns_from p rs" by blast
qed

lemma manifestAt_shelters:
  assumes "shelters specs specs'" "manifestAt specs' p"
  shows "manifestAt specs p"
proof -
  from assms(2) obtain ref s' where ref: "ParseRepoPath p = Inr ref" "specForRef specs' ref = Some s'" "refMatchesSpec ref s'"
      "sp_strategy s' = StrategyInstallManifest"
    by (auto simp: manifestAt_def specForRepoPath_def split: sum.splits option.splits if_splits)
  then obtain s where s: "specForRef specs ref = Some s" "sheltered s s'"
    using assms(1) unfolding specForRef_def shelters_def by (metis option.exhaust)
  then have "refMatchesSpec ref s" "sp_strategy s = StrategyInstallManifest"
    using ref owns_from_subset [of "sp_reserved s" "sp_reserved s'"] by (auto simp: sheltered_def refMatchesSpec_def Owns_def)
  then show ?thesis using ref s by (simp add: manifestAt_def specForRepoPath_def)
qed

section \<open>A whole round\<close>

text \<open>
  Why a path may keep its old merge base, as the user is told: a conflict about it is open, an issue of
  the result names it, it lies below a resource that the result reports as skipped, or it is an
  install manifest whose planned removal waits for an install plan.
\<close>

definition skippedAt :: "specs \<Rightarrow> issue list \<Rightarrow> string \<Rightarrow> bool" where
  "skippedAt specs issues p \<longleftrightarrow> (\<exists>i\<in>set issues. \<exists>pre. skippedPrefix specs i = Some pre \<and> pathHasPrefix p pre)"

definition waitingManifest :: "engine_env \<Rightarrow> specs \<Rightarrow> action list \<Rightarrow> string \<Rightarrow> bool" where
  "waitingManifest env specs as p \<longleftrightarrow> en_hasInstallManager env \<and> manifestAt specs p \<and> Action DeleteRemote p \<in> set as"

definition excused :: "engine_env \<Rightarrow> specs \<Rightarrow> sync_result \<Rightarrow> sync_disk \<Rightarrow> string \<Rightarrow> bool" where
  "excused env specs r s p \<longleftrightarrow>
     conflicted s p \<or> (\<exists>i\<in>set (sr_issues r). iss_path i = p) \<or> skippedAt specs (sr_skippedIssues r) p \<or>
     waitingManifest env specs (sr_actions r) p"

text \<open>The books after a round, and after one that stopped somewhere.\<close>

definition goodRound :: "engine_env \<Rightarrow> specs \<Rightarrow> base_disk \<Rightarrow> outcome \<Rightarrow> sync_disk \<Rightarrow> bool" where
  "goodRound env specs b res s \<longleftrightarrow>
     (\<exists>specs' P. outputsAside env specs specs' \<and> booked env specs' P b s \<and> (\<forall>p\<in>set P. excused env specs (fst res) s p) \<and>
        (\<not> sr_needsAttention (fst res) \<longrightarrow> (\<forall>p\<in>set P. waitingManifest env specs (sr_actions (fst res)) p)))"

definition stoppedRound :: "base_disk \<Rightarrow> sync_disk \<Rightarrow> bool" where
  "stoppedRound b s \<longleftrightarrow> bs_index (ad_base (sy_apply s)) = bs_index b"

lemma books_stopped: "books s = x \<Longrightarrow> stoppedRound (snd x) s"
  by (auto simp: books_def stoppedRound_def)

lemma stoppedRound_refl [simp]: "stoppedRound (snd (books s)) s"
  by (simp add: books_stopped)

lemma goodRound_aside:
  assumes aside: "outputsAside env specs specs'" and good: "goodRound env specs' b res s"
  shows "goodRound env specs b res s"
proof -
  note sh = outputsAside_shelters [OF aside]
  obtain specs'' P where P: "outputsAside env specs' specs''" "booked env specs'' P b s" "\<forall>p\<in>set P. excused env specs' (fst res) s p"
      "\<not> sr_needsAttention (fst res) \<longrightarrow> (\<forall>p\<in>set P. waitingManifest env specs' (sr_actions (fst res)) p)"
    using good unfolding goodRound_def by blast
  have wait: "waitingManifest env specs' as p \<Longrightarrow> waitingManifest env specs as p" for as p
    using manifestAt_shelters [OF sh] by (auto simp: waitingManifest_def)
  have "excused env specs' r s p \<Longrightarrow> excused env specs r s p" for r p
    using skippedPrefix_shelters [OF sh] wait by (auto simp: excused_def skippedAt_def)
  then show ?thesis unfolding goodRound_def using outputsAside_trans [OF aside P(1)] P(2-4) wait by blast
qed

lemma fault_rejectedPush:
  assumes "\<And>m. retry = Some m \<Longrightarrow> fault_valid (\<lambda>s. books s = x) m Q (stoppedRound (snd x))"
  shows "fault_valid (\<lambda>s. books s = x) (rejectedPush env e retry) Q (stoppedRound (snd x))"
proof (cases retry)
  case None
  then show ?thesis by (simp add: rejectedPush_def) (rule fault_raise, erule books_stopped)
next
  case (Some m)
  have fail: "fault_valid (\<lambda>s. books s = x) (raise e') Q (stoppedRound (snd x))" for e'
    by (rule fault_raise, erule books_stopped)
  have reset: "fault_valid (\<lambda>s. books s = x) (attempt (ResetKeepUpstream env) (\<lambda>q. case q of
       Inl qe \<Rightarrow> raise (ErrorList [e, qe]) | Inr _ \<Rightarrow> m)) Q (stoppedRound (snd x))"
    by (rule fault_attempt [OF keeps_git(2) [of x env]]) (simp_all add: fail assms [OF Some])
  show ?thesis unfolding rejectedPush_def Some option.case
    by (rule fault_attempt [OF keeps_git(5) [of x env]]) (simp_all add: fail reset)
qed

text \<open>The end of a round, when the paths that keep their base are accounted for by its result.\<close>

definition toldBy :: "engine_env \<Rightarrow> specs \<Rightarrow> string list \<Rightarrow> sync_result \<Rightarrow> string set \<Rightarrow> bool" where
  "toldBy env specs P res K \<longleftrightarrow>
     (\<forall>p\<in>set P. p \<in> K \<or> (\<exists>i\<in>set (sr_issues res). iss_path i = p) \<or> skippedAt specs (sr_skippedIssues res) p \<or>
       waitingManifest env specs (sr_actions res) p) \<and>
     (K \<noteq> {} \<longrightarrow> sr_conflicts res > 0) \<and> set (sr_skippedIssues res) \<subseteq> set (sr_issues res)"

lemma fault_finishRound:
  assumes retry: "\<And>m. retry = Some m \<Longrightarrow>
      fault_valid (\<lambda>s. books s = x) m (goodRound env (rs_specs st) (snd x)) (stoppedRound (snd x))"
    and told: "toldBy env (rs_specs st) P res (conflictPaths bs)"
  shows "fault_valid (\<lambda>s. books s = x \<and> bundlesIn s = bs) (finishRound env baseSnapshot st baseOwned P res retry)
     (goodRound env (rs_specs st) (snd x)) (stoppedRound (snd x))"
proof -
  let ?B = "\<lambda>s. books s = x \<and> bundlesIn s = bs" and ?Q = "goodRound env (rs_specs st) (snd x)" and ?E = "stoppedRound (snd x)"
  let ?W = "\<lambda>s. sy_head s = workOf (en_apply env) s"
  let ?rec = "recordBase env (rs_specs st) baseSnapshot baseOwned P"
  have keepb: "fault_valid (\<lambda>s. bundlesIn s = bs) ?rec (\<lambda>_ s. bundlesIn s = bs) (\<lambda>_. True)"
  proof -
    have "keeps (\<lambda>s. bundlesIn s = bs) ?rec"
      unfolding recordBase_def Let_def SaveState_def
      by (auto intro!: keeps_intros round_keeps keeps_tick conflict_keeps(4) [where I = "\<lambda>b. b = bs"] split: prod.split sum.split)
    then show ?thesis by (rule fault_weaken) auto
  qed
  have fin: "fault_valid (\<lambda>s. ?B s \<and> ?W s) (andThen ?rec (\<lambda>_.
           ret (res'\<lparr>sr_needsAttention := sr_issues res' \<noteq> [] \<or> sr_conflicts res' > 0 \<or> sr_pendingInstalls res' > 0\<rparr>, None))) ?Q ?E"
    if same: "sr_issues res' = sr_issues res" "sr_conflicts res' = sr_conflicts res" "sr_skippedIssues res' = sr_skippedIssues res"
      "sr_actions res' = sr_actions res" for res'
  proof (rule fault_andThen)
    show "fault_valid (\<lambda>s. ?B s \<and> ?W s) ?rec (\<lambda>_ s. booked env (rs_specs st) P (snd x) s \<and> bundlesIn s = bs) ?E"
      by (rule fault_weaken [OF fault_both [OF fault_recordBase [of x env "rs_specs st" baseSnapshot baseOwned P] keepb]])
        (auto simp: stoppedRound_def)
    fix u
    show "fault_valid (\<lambda>s. booked env (rs_specs st) P (snd x) s \<and> bundlesIn s = bs)
       (ret (res'\<lparr>sr_needsAttention := sr_issues res' \<noteq> [] \<or> sr_conflicts res' > 0 \<or> sr_pendingInstalls res' > 0\<rparr>, None)) ?Q ?E"
    proof (rule fault_ret)
      fix s assume s: "booked env (rs_specs st) P (snd x) s \<and> bundlesIn s = bs"
      have "\<forall>p\<in>set P. waitingManifest env (rs_specs st) (sr_actions res) p" if "sr_issues res = []" "sr_conflicts res = 0"
        using told that by (auto simp: toldBy_def skippedAt_def)
      then show "?Q (res'\<lparr>sr_needsAttention := sr_issues res' \<noteq> [] \<or> sr_conflicts res' > 0 \<or> sr_pendingInstalls res' > 0\<rparr>, None) s"
        unfolding goodRound_def using s told same
        by (intro exI [of _ "rs_specs st"] exI [of _ P]) (auto simp: toldBy_def excused_def conflicted_def)
    qed
  qed
  have add: "fault_valid ?B AddAll (\<lambda>_. ?B) ?E"
    by (rule fault_weaken [OF keeps_reads(4) [of ?B]]) (auto intro: books_stopped)
  have status: "fault_valid ?B (HasChanges env) (\<lambda>c s. ?B s \<and> (\<not> c \<longrightarrow> ?W s)) ?E"
    unfolding HasChanges_def by (rule fault_read_tick) (auto intro: books_stopped)
  have commit: "fault_valid ?B (Commit env) (\<lambda>_ s. ?B s \<and> ?W s) ?E"
    unfolding Commit_def by (rule fault_tick) (auto intro: books_stopped simp: workOf_def)
  have push: "keeps (\<lambda>s. ?B s \<and> ?W s) (Push env)"
    unfolding Push_def network_def by (rule keeps_tick) (auto simp: workOf_def)
  have reject: "fault_valid (\<lambda>s. ?B s \<and> ?W s) (rejectedPush env e retry) ?Q ?E" for e
    by (rule fault_weaken [OF fault_rejectedPush [OF retry]]) auto
  let ?res = "res\<lparr>sr_pushed := True\<rparr>"
  have pushed: "fault_valid (\<lambda>s. ?B s \<and> ?W s) (attempt (Push env) (\<lambda>r. case r of
       Inl e \<Rightarrow> rejectedPush env e retry
     | Inr _ \<Rightarrow> andThen ?rec (\<lambda>_.
           ret (?res\<lparr>sr_needsAttention := sr_issues ?res \<noteq> [] \<or> sr_conflicts ?res > 0 \<or> sr_pendingInstalls ?res > 0\<rparr>, None)))) ?Q ?E"
    by (rule fault_attempt [OF push]) (simp_all only: sum.case reject, rule fin, simp_all)
  show ?thesis unfolding finishRound_def Let_def
  proof (rule fault_andThen [OF add], rule fault_andThen [OF status], rule fault_if)
    fix c assume "\<not> c"
    then show "fault_valid (\<lambda>s. ?B s \<and> (\<not> c \<longrightarrow> ?W s)) (andThen ?rec (\<lambda>_.
           ret (res\<lparr>sr_needsAttention := sr_issues res \<noteq> [] \<or> sr_conflicts res > 0 \<or> sr_pendingInstalls res > 0\<rparr>, None))) ?Q ?E"
      by (intro fault_weaken [OF fin]) auto
  next
    fix c assume "\<not> \<not> c"
    show "fault_valid (\<lambda>s. ?B s \<and> (\<not> c \<longrightarrow> ?W s)) (andThen (Commit env) (\<lambda>_. attempt (Push env) (\<lambda>r. case r of
       Inl e \<Rightarrow> rejectedPush env e retry
     | Inr _ \<Rightarrow> andThen ?rec (\<lambda>_.
           ret (?res\<lparr>sr_needsAttention := sr_issues ?res \<noteq> [] \<or> sr_conflicts ?res > 0 \<or> sr_pendingInstalls ?res > 0\<rparr>, None))))) ?Q ?E"
      by (rule fault_andThen [OF fault_weaken [OF commit] pushed]) auto
  qed
qed

section \<open>From the plan to the end of a round\<close>

lemma skippedAt_prefixes:
  assumes "pre \<in> set (pl_skip_prefixes (roundPlan bs st c))" "pathHasPrefix p pre"
  shows "skippedAt (rs_specs st) (skippedIssues bs st c) p"
  using assms unfolding skippedAt_def
  by (auto simp: roundPlan_def prepareResourcePlan_def Let_def skippedRepoPrefixes_def List.map_filter_def intro!: bexI exI)

lemma underPrefixes_prefix: "p \<in> set (underPrefixes pres ms) \<Longrightarrow> \<exists>pre\<in>set pres. pathHasPrefix p pre"
  by (auto simp: underPrefixes_def)

text \<open>The paths that are held back for a queued resolution are told about.\<close>

definition told :: "resolution_state \<Rightarrow> (string, dirent) fmap \<Rightarrow> bool" where
  "told st b \<longleftrightarrow> (\<forall>p\<in>set (rs_held st). p \<in> conflictPaths b \<or> (\<exists>i\<in>set (rs_issues st). iss_path i = p))"

text \<open>What is known before the loop, as reasons of its own.\<close>

definition knownReason :: "engine_env \<Rightarrow> snapshot \<Rightarrow> resolution_state \<Rightarrow> collected \<Rightarrow> string \<Rightarrow> bool" where
  "knownReason env bs st c p \<longleftrightarrow>
     (\<exists>i\<in>set (rs_issues st). iss_path i = p) \<or> skippedAt (rs_specs st) (skippedIssues bs st c) p \<or>
     waitingManifest env (rs_specs st) (roundActions env (roundPlan bs st c)) p"

lemma accounted_initially:
  assumes "told st (bundlesIn s)" "set (map cr_repoRel existing) = conflictPaths (bundlesIn s)"
    and "ls_preserve ls = initialPreserve bs st (roundPlan bs st c) existing"
  shows "accounted_for (knownReason env bs st c) (conflictPaths (bundlesIn s)) ls s"
  unfolding accounted_for_def assms(3) initialPreserve_def set_append assms(2)
proof (intro conjI ballI)
  fix p assume "p \<in> conflictPaths (bundlesIn s) \<union> (set (underPrefixes (pl_skip_prefixes (roundPlan bs st c))
      [pl_base (roundPlan bs st c), rv_owned (rs_remote st)]) \<union> set (rs_held st))"
  then consider "p \<in> conflictPaths (bundlesIn s)"
    | "p \<in> set (underPrefixes (pl_skip_prefixes (roundPlan bs st c)) [pl_base (roundPlan bs st c), rv_owned (rs_remote st)])"
    | "p \<in> set (rs_held st)" by blast
  then show "knownReason env bs st c p \<or> conflicted s p \<or> (\<exists>i\<in>set (ls_issues ls). iss_path i = p)"
  proof cases
    case 1
    then show ?thesis by (simp add: conflicted_def)
  next
    case 2
    then show ?thesis using underPrefixes_prefix skippedAt_prefixes unfolding knownReason_def by blast
  next
    case 3
    then show ?thesis using assms(1) unfolding told_def knownReason_def conflicted_def by blast
  qed
qed simp

text \<open>The install plans add issues only, and touch neither the books nor the conflicts.\<close>

lemma fault_installPhase:
  "fault_valid (\<lambda>s. books s = x \<and> bundlesIn s = b) (installPhase env specs c res)
     (\<lambda>res' s. (books s = x \<and> bundlesIn s = b) \<and> (sr_actions res' = sr_actions res \<and> sr_conflicts res' = sr_conflicts res \<and>
        sr_skippedIssues res' = sr_skippedIssues res \<and> set (sr_issues res) \<subseteq> set (sr_issues res'))) (stoppedRound (snd x))"
proof -
  have staged: "keeps I (stagedManifest env specs y m)" for I y m
    by (auto simp: stagedManifest_def split_beta intro!: keeps_intros keeps_reads split: sum.split)
  have bundles: "keeps (\<lambda>s. bundlesIn s = b) (installPhase env specs c res)"
    unfolding installPhase_def currentInstallManifests_def
    by (intro keeps_intros staged conflict_keeps(3) [where I = "\<lambda>m. m = b"])
  have more: "fault_valid (\<lambda>_. True) (installPhase env specs c res) (\<lambda>res' _. sr_actions res' = sr_actions res \<and> sr_conflicts res' = sr_conflicts res \<and>
        sr_skippedIssues res' = sr_skippedIssues res \<and> set (sr_issues res) \<subseteq> set (sr_issues res')) (\<lambda>_. True)"
  proof -
    have any: "fault_valid (\<lambda>_. True) m (\<lambda>_ _. True) (\<lambda>_. True)" for m :: "'y sync_io"
      by (simp add: fault_valid_def split: prod.split sum.split)
    show ?thesis unfolding installPhase_def
      by (intro fault_if fault_ret fault_andThen [OF any]) auto
  qed
  show ?thesis
    by (rule fault_weaken [OF fault_both [OF fault_both [OF keeps_installPhase bundles] more]]) (auto intro: books_stopped)
qed

lemma fault_pinned: "(\<And>b. fault_valid (\<lambda>s. P s \<and> f s = b) m Q E) \<Longrightarrow> fault_valid P m Q E"
  unfolding fault_valid_def by simp

lemma toldBy_end:
  assumes acc: "accounted_for (knownReason env bs st c) C ls s" and rs: "set (map cr_repoRel rs) = conflictPaths (bundlesIn s)"
    and res: "sr_actions res = roundActions env (roundPlan bs st c)" "sr_conflicts res = length rs" "sr_skippedIssues res = skippedIssues bs st c"
      "set (rs_issues st) \<union> set (ls_issues ls) \<union> set (skippedIssues bs st c) \<subseteq> set (sr_issues res)"
  shows "toldBy env (rs_specs st) (ls_preserve ls @ map cr_repoRel rs) res (conflictPaths (bundlesIn s))"
proof -
  have "p \<in> conflictPaths (bundlesIn s) \<or> (\<exists>i\<in>set (sr_issues res). iss_path i = p) \<or> skippedAt (rs_specs st) (sr_skippedIssues res) p \<or>
      waitingManifest env (rs_specs st) (sr_actions res) p" if "p \<in> set (ls_preserve ls)" for p
    using acc res(1,3,4) that unfolding accounted_for_def knownReason_def conflicted_def by (metis UnCI subset_iff)
  moreover have "sr_conflicts res > 0" if "conflictPaths (bundlesIn s) \<noteq> {}" using rs that res(2) by auto
  ultimately show ?thesis using res(3,4) rs unfolding toldBy_def set_append by auto
qed

lemma fault_pending:
  "fault_valid (\<lambda>s. books s = x \<and> I (bundlesIn s))
     (if en_hasInstallManager env then onInstall env step Pending else ret None)
     (\<lambda>p s. (books s = x \<and> I (bundlesIn s)) \<and> (p \<noteq> None \<longrightarrow> en_hasInstallManager env)) (stoppedRound (snd x))"
proof -
  let ?I = "\<lambda>s. books s = x \<and> I (bundlesIn s)"
  have "keeps ?I (onInstall env step Pending)"
    by (rule fault_both [OF keeps_onParts(3) conflict_keeps(3)])
  from fault_weaken [OF this, where P = ?I and E = "stoppedRound (snd x)"
      and Q = "\<lambda>p s. ?I s \<and> (p \<noteq> None \<longrightarrow> en_hasInstallManager env)"]
  show ?thesis
    by (cases "en_hasInstallManager env") (simp_all add: books_stopped fault_ret)
qed

lemma fault_planAndApply:
  assumes sha: "hex_digest (ap_sha (en_apply env))"
    and retry: "\<And>m. retry = Some m \<Longrightarrow>
      fault_valid (\<lambda>s. books s = x) (m (rs_specs st)) (goodRound env (rs_specs st) (snd x)) (stoppedRound (snd x))"
  shows "fault_valid (\<lambda>s. books s = x \<and> told st (bundlesIn s)) (planAndApply env bs st c retry)
     (goodRound env (rs_specs st) (snd x)) (stoppedRound (snd x))"
proof -
  let ?E = "stoppedRound (snd x)" and ?Q = "goodRound env (rs_specs st) (snd x)"
  let ?plan = "roundPlan bs st c" and ?A = "knownReason env bs st c"
  let ?actions = "roundActions env ?plan"
  let ?res = "initialResult bs st c ?actions (pl_blocked_paths ?plan)"
  let ?x = "\<lambda>existing pending. \<lparr>lx_specs = rs_specs st, lx_collected = c, lx_held = rs_held st,
               lx_conflictPaths = map cr_repoRel existing, lx_pendingPlan = pending\<rparr>"
  let ?st = "\<lambda>existing. \<lparr>ls_issues = [], ls_restored = 0, ls_conflicts = length existing,
               ls_preserve = initialPreserve bs st ?plan existing\<rparr>"
  let ?r = "\<lambda>ls records. ?res\<lparr>sr_issues := sr_issues ?res @ ls_issues ls, sr_restored := ls_restored ls, sr_conflicts := length records\<rparr>"
  let ?P = "\<lambda>b s. books s = x \<and> told st (bundlesIn s) \<and> bundlesIn s = b"
  let ?L = "\<lambda>b ls s. books s = x \<and> accounted_for ?A (conflictPaths b) ls s"
  have E: "books s = x \<Longrightarrow> ?E s" for s by (rule books_stopped)
  have list1: "fault_valid (?P b) (onConflicts env step listUnlocked)
      (\<lambda>ex s. books s = x \<and> told st (bundlesIn s) \<and> bundlesIn s = b \<and> set (map cr_repoRel ex) = conflictPaths b) ?E" for b step
    by (rule fault_weaken [OF fault_list_conflicts [of "?P b"]]) (auto intro: E)
  have pending: "fault_valid (\<lambda>s. books s = x \<and> told st (bundlesIn s) \<and> bundlesIn s = b \<and> set (map cr_repoRel ex) = conflictPaths b)
      (if en_hasInstallManager env then onInstall env step Pending else ret None)
      (\<lambda>p s. ?L b (?st ex) s \<and> set (map cr_repoRel ex) = conflictPaths b \<and> (p \<noteq> None \<longrightarrow> en_hasInstallManager env)) ?E" for b ex step
    by (rule fault_weaken [OF fault_pending [where I = "\<lambda>m. told st m \<and> m = b \<and> set (map cr_repoRel ex) = conflictPaths b"]])
      (auto intro!: accounted_initially [of st, where existing = ex])
  have loop: "fault_valid (\<lambda>s. ?L b (?st ex) s \<and> set (map cr_repoRel ex) = conflictPaths b \<and> (p \<noteq> None \<longrightarrow> en_hasInstallManager env))
      (forEach (actionStep env (?x ex p)) ?actions (?st ex)) (?L b) ?E" for b ex p
  proof (rule fault_given [where A = "set (map cr_repoRel ex) = conflictPaths b \<and> (p \<noteq> None \<longrightarrow> en_hasInstallManager env)" and P = "?L b (?st ex)"])
    assume a: "set (map cr_repoRel ex) = conflictPaths b \<and> (p \<noteq> None \<longrightarrow> en_hasInstallManager env)"
    then have ready: "loopReady ?A (conflictPaths b) ?actions (?x ex p)"
      by (auto simp: loopReady_def knownReason_def waitingManifest_def)
    have "keeps (\<lambda>s. books s = x) (forEach (actionStep env (?x ex p)) ?actions (?st ex))"
      by (rule fault_forEach [where I = "\<lambda>_ _ s. books s = x"]) (rule keeps_actionStep)
    from fault_both [OF this fault_actions [OF sha ready]]
    show "fault_valid (?L b (?st ex)) (forEach (actionStep env (?x ex p)) ?actions (?st ex)) (?L b) ?E"
      by (rule fault_weaken) (auto intro: E)
  qed auto
  have list2: "fault_valid (?L b ls) (onConflicts env step listUnlocked)
      (\<lambda>rs s. ?L b ls s \<and> set (map cr_repoRel rs) = conflictPaths (bundlesIn s)) ?E" for b ls step
    by (rule fault_weaken [OF fault_list_conflicts [of "?L b ls"]]) (auto intro: E)
  have rest: "fault_valid (\<lambda>s. ?L b ls s \<and> set (map cr_repoRel rs) = conflictPaths (bundlesIn s))
      (andThen (installPhase env (rs_specs st) c (?r ls rs)) (\<lambda>res''.
        finishRound env bs st (pl_base ?plan) (ls_preserve ls @ map cr_repoRel rs) res''
          (map_option (\<lambda>again. again (rs_specs st)) retry))) ?Q ?E" for b ls rs
  proof (rule fault_pinned [where f = "\<lambda>s. s"])
    fix s0
    let ?b = "bundlesIn s0" and ?Z = "accounted_for ?A (conflictPaths b) ls s0 \<and> set (map cr_repoRel rs) = conflictPaths (bundlesIn s0)"
    show "fault_valid (\<lambda>s. (?L b ls s \<and> set (map cr_repoRel rs) = conflictPaths (bundlesIn s)) \<and> s = s0)
      (andThen (installPhase env (rs_specs st) c (?r ls rs)) (\<lambda>res''.
        finishRound env bs st (pl_base ?plan) (ls_preserve ls @ map cr_repoRel rs) res''
          (map_option (\<lambda>again. again (rs_specs st)) retry))) ?Q ?E"
    proof (rule fault_given [where A = ?Z and P = "\<lambda>s. books s = x \<and> bundlesIn s = ?b"])
      assume z: ?Z
      show "fault_valid (\<lambda>s. books s = x \<and> bundlesIn s = ?b)
        (andThen (installPhase env (rs_specs st) c (?r ls rs)) (\<lambda>res''.
          finishRound env bs st (pl_base ?plan) (ls_preserve ls @ map cr_repoRel rs) res''
            (map_option (\<lambda>again. again (rs_specs st)) retry))) ?Q ?E"
      proof (rule fault_andThen [OF fault_installPhase])
        fix res :: sync_result
        let ?S = "sr_actions res = sr_actions (?r ls rs) \<and> sr_conflicts res = sr_conflicts (?r ls rs) \<and> sr_skippedIssues res = sr_skippedIssues (?r ls rs) \<and>
           set (sr_issues (?r ls rs)) \<subseteq> set (sr_issues res)"
        show "fault_valid (\<lambda>s. (books s = x \<and> bundlesIn s = ?b) \<and> ?S)
          (finishRound env bs st (pl_base ?plan) (ls_preserve ls @ map cr_repoRel rs) res
            (map_option (\<lambda>again. again (rs_specs st)) retry)) ?Q ?E"
        proof (rule fault_given [where A = ?S and P = "\<lambda>s. books s = x \<and> bundlesIn s = ?b"])
          assume S: ?S
          have told: "toldBy env (rs_specs st) (ls_preserve ls @ map cr_repoRel rs) res (conflictPaths ?b)"
            by (rule toldBy_end [of env bs st c "conflictPaths b" ls]) (use z S in \<open>auto simp: initialResult_def\<close>)
          show "fault_valid (\<lambda>s. books s = x \<and> bundlesIn s = ?b)
            (finishRound env bs st (pl_base ?plan) (ls_preserve ls @ map cr_repoRel rs) res
              (map_option (\<lambda>again. again (rs_specs st)) retry)) ?Q ?E"
            by (rule fault_finishRound [OF _ told]) (use retry in \<open>auto simp del: split_paired_Ex\<close>)
        qed auto
      qed
    qed auto
  qed
  show ?thesis
  proof (rule fault_pinned [where f = bundlesIn])
    fix b
    have pre: "(\<lambda>s. (books s = x \<and> told st (bundlesIn s)) \<and> bundlesIn s = b) = ?P b" by auto
    show "fault_valid (\<lambda>s. (books s = x \<and> told st (bundlesIn s)) \<and> bundlesIn s = b) (planAndApply env bs st c retry) ?Q ?E"
      unfolding pre planAndApply_def Let_def
      by (rule fault_andThen [OF list1 [of b]], rule fault_andThen [OF pending], rule fault_andThen [OF loop],
          rule fault_andThen [OF list2], rule rest)
  qed
qed

section \<open>Queued resolutions\<close>

lemma fault_any: "fault_valid P m (\<lambda>_ _. True) (\<lambda>_. True)"
  by (simp add: fault_valid_def split: prod.split sum.split)

text \<open>A path that is held after its resolution could not be restored has an issue that names it.\<close>

lemma fault_restoreResolution:
  "fault_valid (\<lambda>s. bundlesIn s = b) (restoreResolution env specs res)
     (\<lambda>(_, iss) s. bundlesIn s = b \<and> (\<forall>i. iss = Some i \<longrightarrow> iss_path i = cr_repoRel (fst res))) (\<lambda>_. True)"
proof -
  obtain rec choice where res: "res = (rec, choice)" by (cases res)
  let ?Q = "\<lambda>(_ :: bool, iss) s. bundlesIn s = b \<and> (\<forall>i. iss = Some i \<longrightarrow> iss_path i = cr_repoRel rec)"
  have path: "iss_path (applyIssue env k p code m) = p" for k p code m by (simp add: applyIssue_def)
  have step: "fault_valid (\<lambda>s. bundlesIn s = b) (onApply [] m) (\<lambda>_ s. bundlesIn s = b) (\<lambda>s. bundlesIn s = b)" for m :: "'y apply_io"
    by (rule conflict_keeps(1) [where I = "\<lambda>m. m = b"])
  have restore: "fault_valid (\<lambda>s. bundlesIn s = b) (attempt (onApply [] (RestoreResource (en_apply env) s p)) (\<lambda>r. case r of
       Inl e \<Rightarrow> ret (False, Some (applyIssue env (sp_key s) (cr_repoRel rec) code (errorText env e)))
     | Inr _ \<Rightarrow> ret (True, None))) ?Q (\<lambda>_. True)" for s p code
    by (rule fault_attempt [OF step]) (simp_all add: fault_ret path)
  show ?thesis unfolding restoreResolution_def res prod.case Let_def fst_conv
    by (cases "specForRepoPath specs (cr_repoRel rec)"; simp only: sum.case; intro fault_if fault_ret restore; simp add: path)
qed

lemma told_adds:
  "told st b \<Longrightarrow> iss_path i = p \<Longrightarrow> told (st\<lparr>rs_issues := rs_issues st @ [i], rs_held := rs_held st @ [p]\<rparr>) b"
  "told (st\<lparr>rs_planBase := m\<rparr>) b = told st b"
  unfolding told_def by auto

lemma fault_adopt:
  "fault_valid (\<lambda>s. told st (bundlesIn s) \<and> rs_specs st = specs) (adoptResolution env res st)
     (\<lambda>st' s. told st' (bundlesIn s) \<and> rs_specs st' = specs) (\<lambda>_. True)"
proof (rule fault_pinned [where f = bundlesIn])
  fix b
  show "fault_valid (\<lambda>s. (told st (bundlesIn s) \<and> rs_specs st = specs) \<and> bundlesIn s = b) (adoptResolution env res st)
     (\<lambda>st' s. told st' (bundlesIn s) \<and> rs_specs st' = specs) (\<lambda>_. True)"
  proof (rule fault_given [where A = "told st b \<and> rs_specs st = specs" and P = "\<lambda>s. bundlesIn s = b"])
    assume t: "told st b \<and> rs_specs st = specs"
    show "fault_valid (\<lambda>s. bundlesIn s = b) (adoptResolution env res st)
       (\<lambda>st' s. told st' (bundlesIn s) \<and> rs_specs st' = specs) (\<lambda>_. True)"
      unfolding adoptResolution_def
    proof (rule fault_andThen [OF fault_restoreResolution])
      fix r :: "bool \<times> issue option"
      show "fault_valid (case r of (_, iss) \<Rightarrow> \<lambda>s. bundlesIn s = b \<and> (\<forall>i. iss = Some i \<longrightarrow> iss_path i = cr_repoRel (fst res)))
        (case r of (adoptBase, issue) \<Rightarrow>
           let repoRel = cr_repoRel (fst res)
           in case issue of
                Some i \<Rightarrow> ret (st\<lparr>rs_issues := rs_issues st @ [i], rs_held := rs_held st @ [repoRel]\<rparr>)
              | None \<Rightarrow>
                  if adoptBase then
                    (case fmlookup (rv_valid (rs_remote st)) repoRel of
                       Some m \<Rightarrow> ret (st\<lparr>rs_planBase := fmupd repoRel m (rs_planBase st)\<rparr>)
                     | None \<Rightarrow> ret st)
                  else ret st)
        (\<lambda>st' s. told st' (bundlesIn s) \<and> rs_specs st' = specs) (\<lambda>_. True)"
      proof (cases r)
        case (Pair adopted iss)
        show ?thesis
        proof (cases iss)
          case None
          then show ?thesis using t
            by (cases "fmlookup (rv_valid (rs_remote st)) (cr_repoRel (fst res))") (auto simp: Pair Let_def told_adds intro!: fault_ret fault_if)
        next
          case (Some i)
          show ?thesis unfolding Pair Some prod.case Let_def option.case
            by (rule fault_ret) (use t in \<open>auto simp: told_adds\<close>)
        qed
      qed
    qed
  qed auto
qed

lemma fault_preflight:
  "fault_valid (\<lambda>_. True) (preflightResolutionBatch env specs pending c)
     (\<lambda>(_, held) s. set held \<subseteq> conflictPaths (bundlesIn s)) (\<lambda>_. True)"
  unfolding preflightResolutionBatch_def Let_def
  by (rule fault_if, rule fault_ret, simp,
      rule fault_andThen [OF fault_weaken [OF fault_list_conflicts [of "\<lambda>_. True"]]], assumption, assumption, simp,
      rule fault_ret, auto)

lemma fault_loadRemote: "fault_valid (\<lambda>_. True) (loadRemote env specs) (\<lambda>(specs', _) _. outputsAside env specs specs') (\<lambda>_. True)"
proof -
  have protects: "fault_valid (\<lambda>_. True) (read_tick EngineFault (\<lambda>s.
        map_sum (\<lambda>e. During ''protect remote library sources'' (OfLibrary e)) id
          (ProtectRemoteSpecs (libraryLinks env (ad_fs (sy_apply s))) (libraryContent env) (ap_userHome (en_apply env)) (fm_keys snapshot) specs)))
      (\<lambda>specs' _. outputsAside env specs specs') (\<lambda>_. True)" for snapshot
  proof (rule fault_read_tick)
    have right: "map_sum h id y = Inr a \<Longrightarrow> y = Inr a" for h and y :: "library_error + specs" and a by (cases y) simp_all
    show "outputsAside env specs a" if "map_sum h id (ProtectRemoteSpecs l ct (ap_userHome (en_apply env)) ks specs) = Inr a"
      for h :: "library_error \<Rightarrow> sync_error" and l ct ks a
      by (rule outputsAside_Protect [OF right [OF that]])
  qed simp
  have view: "fault_valid (\<lambda>_. outputsAside env specs specs') (read_tick EngineFault (\<lambda>s.
        case SplitRemoteSnapshot snapshot specs' of
          (owned, _, ownershipBlocked) \<Rightarrow>
            (case ValidateRemoteResources (en_guard env) (guardTree (en_apply env) s) specs' owned of
               (valid, validationBlocked) \<Rightarrow>
                 Inr (specs', \<lparr>rv_snapshot = snapshot, rv_owned = owned, rv_valid = valid,
                               rv_ownershipBlocked = ownershipBlocked, rv_validationBlocked = validationBlocked\<rparr>))))
      (\<lambda>(specs', _) _. outputsAside env specs specs') (\<lambda>_. True)" for snapshot specs'
    by (rule fault_read_tick) (auto split: prod.splits)
  show ?thesis unfolding loadRemote_def
    by (rule fault_andThen [OF fault_any fault_andThen [OF protects view]])
qed

text \<open>The phase leaves a state that tells about every path it holds back.\<close>

lemma fault_resolutionPhase:
  assumes "rs_held st = []"
  shows "fault_valid (\<lambda>_. True) (resolutionPhase env c st)
     (\<lambda>(st', _) s. told st' (bundlesIn s) \<and> outputsAside env (rs_specs st) (rs_specs st')) (\<lambda>_. True)"
proof -
  let ?Q = "\<lambda>(st', _ :: collected option) s. told st' (bundlesIn s) \<and> outputsAside env (rs_specs st) (rs_specs st')"
  have t: "told st b" for b using assms by (simp add: told_def)
  have same: "fault_valid P (ret (st, None)) ?Q (\<lambda>_. True)" for P
    by (rule fault_ret) (simp add: t)
  have recollect: "fault_valid (\<lambda>s. told st' (bundlesIn s) \<and> rs_specs st' = specs) (andThen (collectResources env step specs)
      (\<lambda>refreshed. ret (st', Some refreshed))) ?Q (\<lambda>_. True)" if "outputsAside env (rs_specs st) specs" for st' specs step
  proof (rule fault_andThen)
    show "fault_valid (\<lambda>s. told st' (bundlesIn s) \<and> rs_specs st' = specs) (collectResources env step specs)
        (\<lambda>_ s. told st' (bundlesIn s) \<and> rs_specs st' = specs) (\<lambda>_. True)"
      unfolding collectResources_def
      by (rule fault_weaken [OF conflict_keeps(5) [where I = "\<lambda>m. told st' m \<and> rs_specs st' = specs"]]) auto
  qed (use that in \<open>auto intro!: fault_ret\<close>)
  have adopt: "fault_valid (\<lambda>_. outputsAside env (rs_specs st) specs) (andThen (forEach (adoptResolution env) res
        (st\<lparr>rs_specs := specs, rs_remote := remote\<rparr>)) (\<lambda>st'.
       andThen (collectResources env step specs) (\<lambda>refreshed. ret (st', Some refreshed)))) ?Q (\<lambda>_. True)"
    for res specs remote step
  proof (rule fault_given [where A = "outputsAside env (rs_specs st) specs" and P = "\<lambda>_. True"])
    assume sh: "outputsAside env (rs_specs st) specs"
    have loop: "fault_valid (\<lambda>_. True) (forEach (adoptResolution env) res (st\<lparr>rs_specs := specs, rs_remote := remote\<rparr>))
        (\<lambda>st' s. told st' (bundlesIn s) \<and> rs_specs st' = specs) (\<lambda>_. True)"
      by (rule fault_weaken [OF fault_forEach [where I = "\<lambda>_ st' s. told st' (bundlesIn s) \<and> rs_specs st' = specs", OF fault_adopt]])
        (use t in \<open>auto simp: told_def\<close>)
    show "fault_valid (\<lambda>_. True) (andThen (forEach (adoptResolution env) res (st\<lparr>rs_specs := specs, rs_remote := remote\<rparr>)) (\<lambda>st'.
       andThen (collectResources env step specs) (\<lambda>refreshed. ret (st', Some refreshed)))) ?Q (\<lambda>_. True)"
      by (rule fault_andThen [OF loop recollect [OF sh]])
  qed auto
  have load: "fault_valid (case y of (specs', _) \<Rightarrow> \<lambda>_. outputsAside env (rs_specs st) specs') (case y of (specs, remote) \<Rightarrow>
       andThen (forEach (adoptResolution env) applied (st\<lparr>rs_specs := specs, rs_remote := remote\<rparr>)) (\<lambda>st'.
       andThen (collectResources env step specs) (\<lambda>refreshed. ret (st', Some refreshed)))) ?Q (\<lambda>_. True)" for y applied step
    by (cases y) (simp only: prod.case adopt)
  have batch: "fault_valid (\<lambda>_. True) (case y of (applied, clearErr) \<Rightarrow>
       case clearErr of
         Some e \<Rightarrow> raise (During ''apply pending conflict batch'' (OfConflict e))
       | None \<Rightarrow>
           if applied = [] then ret (st, None)
           else andThen (loadRemote env (rs_specs st)) (\<lambda>(specs, remote).
             andThen (forEach (adoptResolution env) applied (st\<lparr>rs_specs := specs, rs_remote := remote\<rparr>)) (\<lambda>st'.
             andThen (collectResources env ''recollect resolved resources'' specs) (\<lambda>refreshed.
               ret (st', Some refreshed))))) ?Q (\<lambda>_. True)" for y
  proof (cases y)
    case (Pair applied clearErr)
    show ?thesis unfolding Pair prod.case
      by (cases clearErr; simp only: option.case; intro fault_if same fault_andThen [OF fault_loadRemote load] fault_raise; simp)
  qed
  have choice: "fault_valid (case y of (_, held) \<Rightarrow> \<lambda>s. set held \<subseteq> conflictPaths (bundlesIn s)) (case y of (issues, held) \<Rightarrow>
             if issues \<noteq> [] then ret (st\<lparr>rs_issues := issues, rs_held := held\<rparr>, None)
             else andThen (onConflicts env ''apply pending conflict batch'' (ApplyPendingBatch (storeEnv env (rs_specs st)))) (\<lambda>(applied, clearErr).
               case clearErr of
                 Some e \<Rightarrow> raise (During ''apply pending conflict batch'' (OfConflict e))
               | None \<Rightarrow>
                   if applied = [] then ret (st, None)
                   else andThen (loadRemote env (rs_specs st)) (\<lambda>(specs, remote).
                     andThen (forEach (adoptResolution env) applied (st\<lparr>rs_specs := specs, rs_remote := remote\<rparr>)) (\<lambda>st'.
                     andThen (collectResources env ''recollect resolved resources'' specs) (\<lambda>refreshed.
                       ret (st', Some refreshed)))))) ?Q (\<lambda>_. True)" for y
  proof (cases y)
    case (Pair issues held)
    show ?thesis unfolding Pair prod.case
      by (rule fault_if, rule fault_ret, force simp: told_def, rule fault_andThen [OF fault_any batch])
  qed
  show ?thesis unfolding resolutionPhase_def
  proof (rule fault_andThen [OF fault_any])
    fix pending :: "batch option"
    show "fault_valid (\<lambda>_. True) (case pending of
         None \<Rightarrow> ret (st, None)
       | Some b \<Rightarrow>
           if ba_status b \<noteq> ''queued'' then ret (st, None)
           else andThen (preflightResolutionBatch env (rs_specs st) b c) (\<lambda>(issues, held).
             if issues \<noteq> [] then ret (st\<lparr>rs_issues := issues, rs_held := held\<rparr>, None)
             else andThen (onConflicts env ''apply pending conflict batch'' (ApplyPendingBatch (storeEnv env (rs_specs st)))) (\<lambda>(applied, clearErr).
               case clearErr of
                 Some e \<Rightarrow> raise (During ''apply pending conflict batch'' (OfConflict e))
               | None \<Rightarrow>
                   if applied = [] then ret (st, None)
                   else andThen (loadRemote env (rs_specs st)) (\<lambda>(specs, remote).
                     andThen (forEach (adoptResolution env) applied (st\<lparr>rs_specs := specs, rs_remote := remote\<rparr>)) (\<lambda>st'.
                     andThen (collectResources env ''recollect resolved resources'' specs) (\<lambda>refreshed.
                       ret (st', Some refreshed))))))) ?Q (\<lambda>_. True)"
      by (cases pending; simp only: option.case) (intro same, intro fault_if same fault_andThen [OF fault_preflight choice])
  qed
qed

section \<open>Rounds and retries\<close>

text \<open>Closing the stage changes nothing a round has recorded, and its failure leaves the result in place.\<close>

lemma keeps_closeStage:
  assumes "\<And>d s. ad_base d = ad_base (sy_apply s) \<Longrightarrow> J (putApply d s) = J s"
  shows "keeps J (closeStage env step c)"
  unfolding closeStage_def onCollector_def
proof (rule fault_zoom)
  fix s assume J: "J s"
  have "keeps (\<lambda>d. ad_base d = ad_base (sy_apply s)) (CloseCollected (collectorOf env) c)" by (rule keeps_CloseCollected)
  then show "fault_valid (\<lambda>d. d = sy_apply s) (CloseCollected (collectorOf env) c) (\<lambda>_ d. J (if d = sy_apply s then s else putApply d s))
     (\<lambda>d. J (if d = sy_apply s then s else putApply d s))"
    by (rule fault_weaken) (use J assms in auto)
qed

lemma recorded_putApply:
  assumes "ad_base d = ad_base (sy_apply s)"
  shows "goodRound env specs b r (putApply d s) = goodRound env specs b r s" "stoppedRound b (putApply d s) = stoppedRound b s"
proof -
  have "booked env specs' P b (putApply d s) = booked env specs' P b s" for specs' P
    by (rule booked_cong) (use assms in \<open>simp_all add: putApply_def\<close>)
  then show "goodRound env specs b r (putApply d s) = goodRound env specs b r s" "stoppedRound b (putApply d s) = stoppedRound b s"
    using assms by (simp_all add: goodRound_def stoppedRound_def excused_def conflicted_def putApply_def bundlesIn_def)
qed

lemma goodRound_error: "goodRound env specs b (r, e) s \<Longrightarrow> goodRound env specs b (r, e') s"
  by (simp add: goodRound_def)

lemma fault_closing:
  assumes m: "fault_valid P m (goodRound env specs b) (stoppedRound b)"
  shows "fault_valid P (closing env c m) (goodRound env specs b) (stoppedRound b)"
proof -
  have good: "keeps (goodRound env specs b a) (closeStage env step c)" and stop: "keeps (stoppedRound b) (closeStage env step c)" for a step
    by (rule keeps_closeStage, erule recorded_putApply)+
  show ?thesis unfolding closing_def
  proof (rule fault_attempt [OF m])
    fix a :: outcome
    obtain r e where a: "a = (r, e)" by (cases a)
    show "fault_valid (goodRound env specs b a) (attempt (closeStage env ''close'' c) (\<lambda>q. case (Inr a, q) of
         (Inr a, Inr _) \<Rightarrow> ret a | (Inl e, Inr _) \<Rightarrow> raise e | (Inr (a, e), Inl f) \<Rightarrow> ret (a, Some (joinErr e f))
       | (Inl e, Inl f) \<Rightarrow> raise (ErrorList [e, f]))) (goodRound env specs b) (stoppedRound b)"
      unfolding a by (rule fault_attempt [OF good]) (auto intro!: fault_ret elim: goodRound_error)
  next
    fix e show "fault_valid (stoppedRound b) (attempt (closeStage env ''close'' c) (\<lambda>q. case (Inl e, q) of
         (Inr a, Inr _) \<Rightarrow> ret a | (Inl e, Inr _) \<Rightarrow> raise e | (Inr (a, e), Inl f) \<Rightarrow> ret (a, Some (joinErr e f))
       | (Inl e, Inl f) \<Rightarrow> raise (ErrorList [e, f]))) (goodRound env specs b) (stoppedRound b)"
      by (rule fault_attempt [OF stop]) (auto intro!: fault_raise)
  qed
qed

lemma fault_round:
  assumes sha: "hex_digest (ap_sha (en_apply env))"
    and retry: "\<And>m specs. retry = Some m \<Longrightarrow> fault_valid (\<lambda>s. books s = x) (m specs) (goodRound env specs (snd x)) (stoppedRound (snd x))"
  shows "fault_valid (\<lambda>s. books s = x) (round env specs0 retry) (goodRound env specs0 (snd x)) (stoppedRound (snd x))"
proof -
  let ?B = "\<lambda>s. books s = x" and ?Q = "goodRound env specs0 (snd x)" and ?E = "stoppedRound (snd x)"
  let ?T = "\<lambda>st s. ?B s \<and> told st (bundlesIn s)"
  have pass: "fault_valid ?B m (\<lambda>_. ?B) ?E" if "keeps ?B m" for m :: "'y sync_io"
    by (rule fault_weaken [OF that]) (auto intro: books_stopped)
  have plan: "fault_valid (?T st) (planAndApply env bs st c retry) ?Q ?E" if "outputsAside env specs0 (rs_specs st)" for st bs c
    by (rule fault_weaken [OF fault_planAndApply [OF sha, of retry x st bs c]])
      (use retry goodRound_aside [OF that] in auto)
  have fail: "fault_valid P (raise e) ?Q ?E" if "\<And>s. P s \<Longrightarrow> ?B s" for P e
    by (rule fault_raise) (auto intro: books_stopped that)
  have close: "fault_valid (?T st) (closeStage env step c) (\<lambda>_. ?T st) (?T st)" for st step c
    unfolding closeStage_def
    by (rule fault_both [OF keeps_collector(2) [unfolded closeStage_def] conflict_keeps(5) [where I = "told st"]])
  have planned: "fault_valid (?T st) (closing env c (planAndApply env bs st c' retry)) ?Q ?E" if "outputsAside env specs0 (rs_specs st)" for st bs c c'
    by (rule fault_closing [OF plan [OF that]])
  have failed: "fault_valid P (closing env c (raise e)) ?Q ?E" if "\<And>s. P s \<Longrightarrow> ?B s" for P c e
    by (rule fault_closing [OF fail], erule that)
  have rest: "fault_valid ?B (attempt (resolutionPhase env c st) (\<lambda>r. case r of
         Inl e \<Rightarrow> closing env c (raise e)
       | Inr (st, None) \<Rightarrow> closing env c (planAndApply env bs st c retry)
       | Inr (st, Some refreshed) \<Rightarrow>
           attempt (closeStage env step c) (\<lambda>q.
             closing env refreshed (case q of Inl e \<Rightarrow> raise e | Inr _ \<Rightarrow> planAndApply env bs st refreshed retry)))) ?Q ?E"
    if st: "rs_held st = []" "outputsAside env specs0 (rs_specs st)" for bs c st step
  proof (rule fault_attempt)
    show "fault_valid ?B (resolutionPhase env c st) (\<lambda>y. case y of (st', _) \<Rightarrow> \<lambda>s. ?T st' s \<and> outputsAside env specs0 (rs_specs st')) ?B"
      by (rule fault_weaken [OF fault_both [OF keeps_resolutionPhase [of x] fault_resolutionPhase [OF st(1)]]])
        (use outputsAside_trans [OF st(2)] in \<open>auto split: prod.splits\<close>)
  next
    show "fault_valid (case y of (st', _) \<Rightarrow> \<lambda>s. ?T st' s \<and> outputsAside env specs0 (rs_specs st')) (case Inr y of
         Inl e \<Rightarrow> closing env c (raise e)
       | Inr (st, None) \<Rightarrow> closing env c (planAndApply env bs st c retry)
       | Inr (st, Some refreshed) \<Rightarrow>
           attempt (closeStage env step c) (\<lambda>q.
             closing env refreshed (case q of Inl e \<Rightarrow> raise e | Inr _ \<Rightarrow> planAndApply env bs st refreshed retry))) ?Q ?E"
      for y :: "resolution_state \<times> collected option"
    proof (cases y)
      case (Pair st' refreshed)
      show ?thesis unfolding Pair prod.case sum.case
      proof (rule fault_given [where A = "outputsAside env specs0 (rs_specs st')" and P = "?T st'"])
        assume sh: "outputsAside env specs0 (rs_specs st')"
        show "fault_valid (?T st') (case refreshed of
           None \<Rightarrow> closing env c (planAndApply env bs st' c retry)
         | Some refreshed \<Rightarrow>
             attempt (closeStage env step c) (\<lambda>q.
               closing env refreshed (case q of Inl e \<Rightarrow> raise e | Inr _ \<Rightarrow> planAndApply env bs st' refreshed retry))) ?Q ?E"
        proof (cases refreshed)
          case None
          then show ?thesis by (simp add: planned [OF sh])
        next
          case (Some c')
          show ?thesis unfolding Some option.case
            by (rule fault_attempt [OF close]) (simp_all add: planned [OF sh], rule failed, simp)
        qed
      qed simp
    qed
  qed (simp, rule failed, simp)
  have view: "fault_valid (\<lambda>s. ?B s \<and> (case y of (specs', _) \<Rightarrow> \<lambda>_. outputsAside env specs0 specs') s) (case y of (specs, remote) \<Rightarrow>
       andThen (onConflicts env ''mirror conflicts'' (MirrorFromRepo (storeEnv env specs)
          (conflictIDsForIssues (rv_ownershipBlocked remote @ rv_validationBlocked remote)))) (\<lambda>_.
       andThen (makeStageParent env) (\<lambda>_.
       andThen (collectResources env ''collect resources'' specs) (\<lambda>c.
       attempt (resolutionPhase env c
          \<lparr>rs_specs = specs, rs_remote = remote, rs_planBase = bs, rs_issues = [], rs_held = []\<rparr>) (\<lambda>r. case r of
         Inl e \<Rightarrow> closing env c (raise e)
       | Inr (st, None) \<Rightarrow> closing env c (planAndApply env bs st c retry)
       | Inr (st, Some refreshed) \<Rightarrow>
           attempt (closeStage env ''close pre-resolution resource stage'' c) (\<lambda>q.
             closing env refreshed (case q of Inl e \<Rightarrow> raise e | Inr _ \<Rightarrow> planAndApply env bs st refreshed retry))))))) ?Q ?E" for y bs
  proof (cases y)
    case (Pair specs remote)
    show ?thesis unfolding Pair prod.case
      by (rule fault_given [where A = "outputsAside env specs0 specs" and P = ?B],
          rule fault_andThen [OF pass [OF keeps_onParts(1)]], rule fault_andThen [OF pass [OF keeps_makeStageParent]],
          rule fault_andThen [OF pass [OF keeps_collector(1)]], rule rest) simp_all
  qed
  have remote: "fault_valid ?B (loadRemote env specs0) (\<lambda>y s. ?B s \<and> (case y of (specs', _) \<Rightarrow> \<lambda>_. outputsAside env specs0 specs') s) ?E"
    by (rule fault_weaken [OF fault_both [OF keeps_loadRemote [of ?B] fault_loadRemote]]) (auto intro: books_stopped)
  show ?thesis unfolding round_def
    by (rule fault_andThen [OF pass [OF keeps_requireValid]], rule fault_andThen [OF pass [OF keeps_reads(3)]],
        rule fault_andThen [OF pass [OF keeps_onParts(1)]], rule fault_andThen [OF pass [OF keeps_git(1)]],
        rule fault_andThen [OF pass [OF keeps_reads(2)]], rule fault_andThen [OF remote], rule view)
qed

lemma fault_syncOnce:
  assumes "hex_digest (ap_sha (en_apply env))"
  shows "fault_valid (\<lambda>s. books s = x) (syncOnce env n specs) (goodRound env specs (snd x)) (stoppedRound (snd x))"
proof (induction n arbitrary: specs)
  case 0
  show ?case by (simp, rule fault_round [OF assms]) simp
next
  case (Suc n)
  show ?case by (simp only: syncOnce.simps, rule fault_round [OF assms]) (use Suc in \<open>auto split: if_splits\<close>)
qed

end
