(* ===== verification/Sync_Bounds.thy ===== *)
theory Sync_Bounds
  imports Sync_Rounds
begin

text \<open>
  What a synchronization asks Git to do with the remote, and in which order: pull, push, and after a
  rejected push fetch and reset.  Nothing else in a round does, and a rejected push costs one attempt.
\<close>

section \<open>The trace of network operations\<close>

text \<open>All operations of a synchronization with this many attempts, when every push is rejected.\<close>

fun schedule :: "nat \<Rightarrow> net_op list" where
  "schedule 0 = []"
| "schedule (Suc 0) = [Pulling, Pushing]"
| "schedule (Suc (Suc n)) = [Pulling, Pushing, Fetching, Resetting] @ schedule (Suc n)"

text \<open>The operations of a program are an initial part of \<open>S\<close>, whatever fails.\<close>

definition talks :: "net_op list \<Rightarrow> 'a sync_io \<Rightarrow> bool" where
  "talks S m \<longleftrightarrow> (\<forall>w. \<exists>ops. sy_net (w_disk (snd (m w))) = sy_net (w_disk w) @ ops \<and> prefix ops S)"

text \<open>One operation: it is on record, or the process was dead before it and what follows sees an error.\<close>

definition speaks :: "net_op \<Rightarrow> 'a sync_io \<Rightarrow> bool" where
  "speaks op m \<longleftrightarrow> (\<forall>w. if w_dead w then isl (fst (m w)) \<and> snd (m w) = w
     else sy_net (w_disk (snd (m w))) = sy_net (w_disk w) @ [op])"

named_theorems free \<open>steps of a round that do not use the network\<close>

lemma talks_keeps:
  assumes "\<And>k. keeps (\<lambda>s. sy_net s = k) m"
  shows "talks S m"
  unfolding talks_def
proof
  fix w
  obtain r w' where m: "m w = (r, w')" by (cases "m w")
  from fault_validD [OF assms [of "sy_net (w_disk w)"] refl m] have "sy_net (w_disk w') = sy_net (w_disk w)"
    by (cases r) simp_all
  then show "\<exists>ops. sy_net (w_disk (snd (m w))) = sy_net (w_disk w) @ ops \<and> prefix ops S"
    by (intro exI [of _ "[]"]) (simp add: m)
qed

lemma talks_ret: "talks S (ret x)" and talks_raise: "talks S (raise e)"
  by (simp_all add: talks_def ret_def raise_def)

text \<open>Steps that say nothing, before and after.\<close>

lemma talks_try:
  assumes m: "\<And>k. keeps (\<lambda>s. sy_net s = k) m" and f: "\<And>r. talks S (f r)"
  shows "talks S (attempt m f)"
  unfolding talks_def
proof
  fix w
  obtain r w' where w': "m w = (r, w')" by (cases "m w")
  from fault_validD [OF m [of "sy_net (w_disk w)"] refl w'] have "sy_net (w_disk w') = sy_net (w_disk w)"
    by (cases r) simp_all
  then show "\<exists>ops. sy_net (w_disk (snd (attempt m f w))) = sy_net (w_disk w) @ ops \<and> prefix ops S"
    using f [of r, unfolded talks_def, rule_format, of w'] by (simp add: attempt_def w')
qed

lemma talks_then:
  assumes m: "talks S m" and f: "\<And>r k. keeps (\<lambda>s. sy_net s = k) (f r)"
  shows "talks S (attempt m f)"
  unfolding talks_def
proof
  fix w
  obtain r w' where w': "m w = (r, w')" by (cases "m w")
  obtain r' w'' where w'': "f r w' = (r', w'')" by (cases "f r w'")
  from fault_validD [OF f [of "sy_net (w_disk w')" r] refl w''] have "sy_net (w_disk w'') = sy_net (w_disk w')"
    by (cases r') simp_all
  then show "\<exists>ops. sy_net (w_disk (snd (attempt m f w))) = sy_net (w_disk w) @ ops \<and> prefix ops S"
    using m [unfolded talks_def, rule_format, of w] by (simp add: attempt_def w' w'')
qed

lemma talks_sum: "(\<And>x. talks S (f x)) \<Longrightarrow> (\<And>y. talks S (g y)) \<Longrightarrow> talks S (case r of Inl x \<Rightarrow> f x | Inr y \<Rightarrow> g y)"
  by (cases r) simp_all

lemma talks_next: "(\<And>k. keeps (\<lambda>s. sy_net s = k) m) \<Longrightarrow> (\<And>x. talks S (f x)) \<Longrightarrow> talks S (andThen m f)"
  unfolding andThen_attempt by (rule talks_try) (auto intro: talks_raise split: sum.split)

text \<open>One operation and what follows it, when a dead process says nothing any more.\<close>

definition silent_dead :: "'a sync_io \<Rightarrow> bool" where
  "silent_dead m \<longleftrightarrow> (\<forall>w. w_dead w \<longrightarrow> sy_net (w_disk (snd (m w))) = sy_net (w_disk w))"

lemma silent_raise: "silent_dead (raise e)"
  by (simp add: silent_dead_def raise_def)

lemma talks_first:
  assumes m: "speaks op m" and f: "\<And>r. talks S (f r)" and dead: "\<And>e. silent_dead (f (Inl e))"
  shows "talks (op # S) (attempt m f)" "silent_dead (attempt m f)"
proof -
  have quiet: "sy_net (w_disk (snd (attempt m f w))) = sy_net (w_disk w)" if "w_dead w" for w
  proof -
    from m that have "isl (fst (m w))" "snd (m w) = w" by (simp_all add: speaks_def)
    then obtain e where "m w = (Inl e, w)" by (metis isl_def prod.collapse)
    then show ?thesis using dead [of e] that by (simp add: attempt_def silent_dead_def)
  qed
  then show "silent_dead (attempt m f)" by (simp add: silent_dead_def)
  show "talks (op # S) (attempt m f)"
    unfolding talks_def
  proof
    fix w
    show "\<exists>ops. sy_net (w_disk (snd (attempt m f w))) = sy_net (w_disk w) @ ops \<and> prefix ops (op # S)"
    proof (cases "w_dead w")
      case True
      then show ?thesis using quiet by (intro exI [of _ "[]"]) simp
    next
      case False
      obtain r w' where w': "m w = (r, w')" by (cases "m w")
      have net: "sy_net (w_disk w') = sy_net (w_disk w) @ [op]"
        using m [unfolded speaks_def, rule_format, of w] False w' by simp
      obtain ops where "sy_net (w_disk (snd (f r w'))) = sy_net (w_disk w') @ ops" "prefix ops S"
        using f [of r] unfolding talks_def by blast
      then show ?thesis using net by (intro exI [of _ "op # ops"]) (simp add: attempt_def w')
    qed
  qed
qed

lemma speaks_tick:
  assumes "\<And>s. sy_net (snd (f s)) = sy_net s @ [op]" "\<And>s ns. sy_net (p s ns) = sy_net s @ [op]"
  shows "speaks op (tick e p f)"
  unfolding speaks_def
proof
  fix w
  show "if w_dead w then isl (fst (tick e p f w)) \<and> snd (tick e p f w) = w
     else sy_net (w_disk (snd (tick e p f w))) = sy_net (w_disk w) @ [op]"
    using assms(1) [of "w_disk w"] assms(2)
    by (cases "f (w_disk w)") (auto simp: tick_def split: list.split fault.split)
qed

lemma speaks_git:
  "speaks Pulling (PullRebase env)" "speaks Resetting (ResetKeepUpstream env)"
  "speaks Pushing (Push env)" "speaks Fetching (FetchOrigin env)"
  unfolding PullRebase_def ResetKeepUpstream_def moveTrees_def Push_def FetchOrigin_def network_def
  by (rule speaks_tick; simp add: setWork_def split: prod.split)+

section \<open>Steps that do not use the network\<close>

lemma net_zooms [free]:
  "keeps (\<lambda>s. sy_net s = k) (onConflicts env step m1)" "keeps (\<lambda>s. sy_net s = k) (onTrash env step m2)"
  "keeps (\<lambda>s. sy_net s = k) (onInstall env step m3)" "keeps (\<lambda>s. sy_net s = k) (onBase env step m4)"
  "keeps (\<lambda>s. sy_net s = k) (onApply step m5)" "keeps (\<lambda>s. sy_net s = k) (onCollector step m6)"
  unfolding onConflicts_def onTrash_def onInstall_def onBase_def onApply_def onCollector_def
  by (rule conflict_net.keeps_zoom trash_net.keeps_zoom install_net.keeps_zoom base_net.keeps_zoom apply_net.keeps_zoom)+

lemma net_plain [free]:
  "keeps (\<lambda>s. sy_net s = k) (SaveState m)" "keeps (\<lambda>s. sy_net s = k) (Commit env)"
  "keeps (\<lambda>s. sy_net s = k) (makeStageParent env)" "keeps (\<lambda>s. sy_net s = k) (collectResources env step specs)"
  "keeps (\<lambda>s. sy_net s = k) (closeStage env step c)"
  unfolding SaveState_def Commit_def makeStageParent_def collectResources_def closeStage_def
  by (auto intro!: keeps_tick free)

lemmas net_reads [free] = keeps_reads keeps_loadRemote keeps_requireValid

lemma net_recordBase [free]: "keeps (\<lambda>s. sy_net s = k) (recordBase env specs bs bo pres)"
  unfolding recordBase_def Let_def by (auto intro!: keeps_intros free split: prod.split sum.split)

lemma net_resolutions [free]:
  "keeps (\<lambda>s. sy_net s = k) (preflightResolutionBatch env specs b c)"
  "keeps (\<lambda>s. sy_net s = k) (restoreResolution env specs res)"
  by (auto simp: preflightResolutionBatch_def restoreResolution_def Let_def split_beta
      intro!: keeps_intros free split: sum.split)

lemma net_adopt [free]: "keeps (\<lambda>s. sy_net s = k) (adoptResolution env res st)"
  unfolding adoptResolution_def by (auto simp: Let_def intro!: keeps_intros free split: option.split prod.split)

lemma net_resolutionPhase [free]: "keeps (\<lambda>s. sy_net s = k) (resolutionPhase env c st)"
  unfolding resolutionPhase_def by (auto intro!: keeps_intros free split: option.split prod.split)

lemma net_mergeResource [free]: "keeps (\<lambda>s. sy_net s = k) (mergeResource env specs s p base artifacts)"
proof -
  have "keeps (\<lambda>s. sy_net s = k) (createConflict env specs s p b l r)" for b l r
    unfolding createConflict_def by (auto intro!: keeps_intros free)
  then show ?thesis unfolding mergeResource_def
    by (auto intro!: keeps_intros free split: option.split sum.split merge_result.split)
qed

lemma net_doSteps [free]:
  "keeps (\<lambda>s. sy_net s = k) (doMerge env specs c s p st)" "keeps (\<lambda>s. sy_net s = k) (doPush env c p st)"
  "keeps (\<lambda>s. sy_net s = k) (doPull env s p st)" "keeps (\<lambda>s. sy_net s = k) (doDelete env s p code st)"
  "keeps (\<lambda>s. sy_net s = k) (doRemoveRemote env p st)"
  by (auto simp: doMerge_def doPush_def doPull_def doDelete_def doRemoveRemote_def
      intro!: keeps_intros free split: option.split sum.split bool.split)

lemma net_actionStep [free]: "keeps (\<lambda>s. sy_net s = k) (actionStep env y a st)"
  by (auto simp: actionStep_def performAction_def doDeleteRemote_def Let_def
      intro!: keeps_intros free split: sum.split action_type.split)

lemma net_installPhase [free]: "keeps (\<lambda>s. sy_net s = k) (installPhase env specs c res)"
proof -
  have "keeps (\<lambda>s. sy_net s = k) (stagedManifest env specs y m)" for y m
    by (auto simp: stagedManifest_def split_beta intro!: keeps_intros free split: sum.split)
  then show ?thesis unfolding installPhase_def currentInstallManifests_def
    by (intro keeps_intros free)
qed

section \<open>A round and its retries\<close>

lemma talks_rejectedPush:
  assumes "\<And>m. retry = Some m \<Longrightarrow> talks S m"
  shows "talks (if retry = None then [] else [Fetching, Resetting] @ S) (rejectedPush env e retry)"
    and "silent_dead (rejectedPush env e retry)"
proof -
  show "talks (if retry = None then [] else [Fetching, Resetting] @ S) (rejectedPush env e retry)"
  proof (cases retry)
    case None
    then show ?thesis by (simp add: rejectedPush_def talks_raise)
  next
    case (Some m)
    let ?reset = "attempt (ResetKeepUpstream env) (\<lambda>q. case q of Inl qe \<Rightarrow> raise (ErrorList [e, qe]) | Inr _ \<Rightarrow> m)"
    have "talks (Resetting # S) ?reset"
      by (rule talks_first(1) [OF speaks_git(2)]) (simp_all add: silent_raise, intro talks_sum talks_raise assms Some)
    then have "talks (Fetching # Resetting # S) (rejectedPush env e retry)" unfolding rejectedPush_def Some option.case
      by (intro talks_first(1) [OF speaks_git(4)] talks_sum talks_raise) (simp_all add: silent_raise)
    then show ?thesis by (simp add: Some)
  qed
  show "silent_dead (rejectedPush env e retry)"
  proof (cases retry)
    case (Some m)
    have "speaks Fetching (FetchOrigin env)" by (rule speaks_git(4))
    then show ?thesis unfolding rejectedPush_def Some option.case silent_dead_def speaks_def attempt_def raise_def
      by (auto split: prod.split sum.split) (metis fst_conv snd_conv sum.disc(2))+
  qed (simp add: rejectedPush_def silent_raise)
qed

lemma talks_finishRound:
  assumes "\<And>m. retry = Some m \<Longrightarrow> talks S m"
  shows "talks (Pushing # (if retry = None then [] else [Fetching, Resetting] @ S)) (finishRound env bs st bo pres res retry)"
proof -
  let ?S = "if retry = None then [] else [Fetching, Resetting] @ S"
  have rec: "talks T (andThen (recordBase env specs bs bo pres) (\<lambda>_. ret r))" for T specs r
    by (intro talks_next free talks_ret)
  have push: "talks (Pushing # ?S) (attempt (Push env) (\<lambda>r. case r of
      Inl e \<Rightarrow> rejectedPush env e retry | Inr _ \<Rightarrow> andThen (recordBase env (rs_specs st) bs bo pres) (\<lambda>_. ret x)))" for x
    by (rule talks_first(1) [OF speaks_git(3)])
      (intro talks_sum talks_rejectedPush(1) rec, erule assms, simp add: talks_rejectedPush(2) [OF assms])
  show ?thesis unfolding finishRound_def Let_def
    by (intro talks_next free) (auto simp only: if_split intro!: rec push talks_next free)
qed

lemma talks_planAndApply:
  assumes "\<And>m specs. retry = Some m \<Longrightarrow> talks S (m specs)"
  shows "talks (Pushing # (if retry = None then [] else [Fetching, Resetting] @ S)) (planAndApply env bs st col retry)"
proof -
  have fin: "talks (Pushing # (if retry = None then [] else [Fetching, Resetting] @ S))
      (finishRound env bs st bo pres res (map_option (\<lambda>again. again (rs_specs st)) retry))" for bo pres res
    using talks_finishRound [of "map_option (\<lambda>again. again (rs_specs st)) retry" S env bs st bo pres res] assms by auto
  have pend: "keeps (\<lambda>s. sy_net s = k) (if b then onInstall env step m else ret None)" for k b step and m :: "plan option install_io"
    by (auto intro!: keeps_intros free)
  show ?thesis unfolding planAndApply_def Let_def
    by (intro talks_next pend fin; intro keeps_intros free)
qed

lemma talks_round:
  assumes "\<And>m specs. retry = Some m \<Longrightarrow> talks S (m specs)"
  shows "talks ([Pulling, Pushing] @ (if retry = None then [] else [Fetching, Resetting] @ S)) (round env specs retry)"
proof -
  let ?S = "Pushing # (if retry = None then [] else [Fetching, Resetting] @ S)"
  have closing: "talks T (closing env col m)" if "talks T m" for T col and m :: "outcome sync_io"
    unfolding closing_def by (rule talks_then [OF that]) (auto intro!: keeps_intros free split: sum.split prod.split)
  have plan: "talks ?S (planAndApply env bs st col retry)" for bs st col
    by (rule talks_planAndApply, rule assms)
  have failed: "talks ?S (closing env col (raise e))" for col e
    by (rule closing [OF talks_raise])
  have reclosed: "talks ?S (attempt (closeStage env step col) (\<lambda>q.
        closing env col' (case q of Inl e \<Rightarrow> raise e | Inr _ \<Rightarrow> planAndApply env bs st col' retry)))" for step col col' bs st
    by (rule talks_try, intro free, rule closing, rule talks_sum, rule talks_raise, rule plan)
  have phase: "talks ?S (attempt (resolutionPhase env col st) (\<lambda>r. case r of
         Inl e \<Rightarrow> closing env col (raise e)
       | Inr (st, None) \<Rightarrow> closing env col (planAndApply env bs st col retry)
       | Inr (st, Some refreshed) \<Rightarrow>
           attempt (closeStage env step col) (\<lambda>q.
             closing env refreshed (case q of Inl e \<Rightarrow> raise e | Inr _ \<Rightarrow> planAndApply env bs st refreshed retry))))" for col st bs step
  proof (rule talks_try, intro free, rule talks_sum, rule failed)
    fix y :: "resolution_state \<times> collected option"
    show "talks ?S (case y of (st, None) \<Rightarrow> closing env col (planAndApply env bs st col retry)
       | (st, Some refreshed) \<Rightarrow>
           attempt (closeStage env step col) (\<lambda>q.
             closing env refreshed (case q of Inl e \<Rightarrow> raise e | Inr _ \<Rightarrow> planAndApply env bs st refreshed retry)))"
      by (cases y; cases "snd y") (simp_all only: prod.case option.case closing [OF plan] reclosed prod.sel)
  qed
  have rest: "talks ?S (case y of (specs, remote) \<Rightarrow> M specs remote)"
    if "\<And>specs remote. talks ?S (M specs remote)" for y :: "specs \<times> remote_view" and M :: "specs \<Rightarrow> remote_view \<Rightarrow> outcome sync_io"
    using that by (cases y) simp
  have pull: "talks (Pulling # ?S) (andThen (PullRebase env) M)" if "\<And>x. talks ?S (M x)" for M :: "unit \<Rightarrow> outcome sync_io"
    unfolding andThen_attempt
    by (rule talks_first(1) [OF speaks_git(1)], rule talks_sum [OF talks_raise that]) (simp add: silent_raise)
  have eq: "[Pulling, Pushing] @ (if retry = None then [] else [Fetching, Resetting] @ S) = Pulling # ?S" by simp
  show ?thesis unfolding round_def eq
    by (intro talks_next pull rest phase; intro free)
qed

lemma talks_syncOnce: "talks (schedule (Suc n)) (syncOnce env (Suc n) specs)"
proof (induction n arbitrary: specs)
  case 0
  show ?case using talks_round [of None "[]" env specs] by simp
next
  case (Suc n)
  have again: "talks (schedule (Suc n)) (m specs)" if "Some (syncOnce env (Suc n)) = Some m" for m specs using that Suc by auto
  have "talks ([Pulling, Pushing] @ [Fetching, Resetting] @ schedule (Suc n)) (round env specs (Some (syncOnce env (Suc n))))"
    using talks_round [of "Some (syncOnce env (Suc n))" "schedule (Suc n)" env specs] again by auto
  then show ?case by (simp only: syncOnce.simps(2) [of env "Suc n"] nat.simps if_False) simp
qed

lemma count_schedule:
  "count_list (schedule n) Pulling = n" "count_list (schedule n) Pushing = n"
  "count_list (schedule n) Fetching = n - 1" "count_list (schedule n) Resetting = n - 1"
  by (induction n rule: schedule.induct) simp_all

lemma count_prefix: "prefix xs ys \<Longrightarrow> count_list xs x \<le> count_list ys x"
  by (auto simp: prefix_def)

text \<open> C2. Whatever fails and whenever the process dies, the network operations of a synchronization are an initial
  part of this sequence: pull and push in each attempt, and fetch and reset between two attempts.  With the configured
  number of attempts it so pulls and pushes at most that often, and fetches and resets at most once less. \<close>

theorem retries_are_bounded:
  "\<exists>ops. sy_net (w_disk (snd (SyncOnce env specs (boot d fs)))) = sy_net d @ ops \<and>
     prefix ops (schedule (attemptsOf (en_pushRetries env))) \<and>
     count_list ops Pulling \<le> attemptsOf (en_pushRetries env) \<and> count_list ops Pushing \<le> attemptsOf (en_pushRetries env) \<and>
     count_list ops Fetching < attemptsOf (en_pushRetries env) \<and> count_list ops Resetting < attemptsOf (en_pushRetries env)"
proof -
  let ?n = "attemptsOf (en_pushRetries env)"
  have n: "?n = Suc (?n - 1)" by (auto simp: attemptsOf_def)
  have "talks (schedule ?n) (SyncOnce env specs)" using talks_syncOnce [of "?n - 1" env specs] n unfolding SyncOnce_def by metis
  then obtain ops where ops: "sy_net (w_disk (snd (SyncOnce env specs (boot d fs)))) = sy_net d @ ops" "prefix ops (schedule ?n)"
    unfolding talks_def by (metis boot_def world.select_convs(1))
  have "count_list ops x \<le> count_list (schedule ?n) x" for x by (rule count_prefix [OF ops(2)])
  from this [of Pulling] this [of Pushing] this [of Fetching] this [of Resetting] show ?thesis
    using ops n by (intro exI [of _ ops]) (simp add: count_schedule)
qed

end
