(* ===== verification/Sync_Promises.thy ===== *)
theory Sync_Promises
  imports Sync_Bounds
begin

text \<open>
  What a synchronization promises as a whole, whatever fails in it: what it records as the merge base
  of the next one.  Two ways in which its bookkeeping loses what it should keep come last.
\<close>

interpretation base_head: framed "getBase env" putBase sy_head for env
  by unfold_locales (simp add: putBase_def)

section \<open>Properties\<close>

text \<open> C1. The books of a synchronization follow the commit, whatever fails and whenever the process dies.  When it
  returns a result (also one with an error of cleaning up beside it), the saved snapshot is what the resources own of
  the committed tree, the library's outputs set aside, and the base store has the same paths, each file with the
  content of the commit.  A path that keeps its old merge base instead is one the user is told of: a conflict about it
  is open, an issue of the result names it, it lies below a resource the result reports as skipped, or it is an install
  manifest that the round planned to remove while the install manager was there; a result that needs no attention
  leaves only such manifests.  When it returns an error alone, the index of the base store is the old one. \<close>

theorem books_follow_the_commit:
  assumes "hex_digest (ap_sha (en_apply env))" and "SyncOnce env specs (boot d fs) = (res, w)"
  shows "case res of
      Inr (r, _) \<Rightarrow> \<exists>specs' P. outputsAside env specs specs' \<and> booked env specs' P (ad_base (sy_apply d)) (w_disk w) \<and>
        (\<forall>p\<in>set P. excused env specs r (w_disk w) p) \<and>
        (\<not> sr_needsAttention r \<longrightarrow> (\<forall>p\<in>set P. waitingManifest env specs (sr_actions r) p))
    | Inl _ \<Rightarrow> bs_index (ad_base (sy_apply (w_disk w))) = bs_index (ad_base (sy_apply d))"
proof -
  have start: "books (w_disk (boot d fs)) = books d" by (simp add: boot_def)
  note D = fault_validD [OF fault_syncOnce [OF assms(1), of "books d"] start assms(2) [unfolded SyncOnce_def]]
  show ?thesis
  proof (cases res)
    case (Inl e)
    then show ?thesis using D(2) by (simp add: stoppedRound_def books_def)
  next
    case (Inr out)
    obtain r e where out: "out = (r, e)" by (cases out)
    show ?thesis using D(1) [OF Inr] unfolding Inr out sum.case prod.case goodRound_def
      by (simp add: books_def)
  qed
qed

definition demo_stage :: "string list" where
  "demo_stage = [''repo'', ''.git'', ''synchub-stage'', ''a.md'']"

definition demo_collected :: collected where
  "demo_collected = \<lparr>co_snapshot = fmap_of_list [(demo_skill_path, example_meta (toy_sha ''x''))],
     co_artifacts = fmap_of_list [(demo_skill_path,
       \<lparr>ar_repoRel = demo_skill_path, ar_key = ''claude/skills'', ar_relative = ''a.md'', ar_stage = demo_stage,
         ar_targets = [''/h/skills''], ar_hash = toy_sha ''x'', ar_size = 1, ar_modTime = 7\<rparr>)],
     co_blocked = [], co_skipped = [], co_stageRoot = []\<rparr>"

definition demo_engine :: engine_env where
  "demo_engine = \<lparr>en_hasGit = True, en_repoDir = ''/repo'', en_statePath = ''/hub/state.json'', en_inventory = False,
     en_hasInstallManager = False, en_hasInstallStore = False, en_apply = demo_apply_env\<lparr>ap_sha := toy_sha\<rparr>,
     en_conflicts = Some demo_env, en_newStore = demo_env, en_guard = demo_guard_env, en_install = demo_install_env,
     en_texts = \<lparr>te_recordText = (\<lambda>_. []), te_readRecord = (\<lambda>_. Corrupt), te_indexText = (\<lambda>_. []),
                 te_readIndex = (\<lambda>_. IndexCorrupt), te_modTime = (\<lambda>_. 0)\<rparr>,
     en_git = \<lparr>gi_config = (\<lambda>_. None), gi_pull = (\<lambda>_ head work. (None, head, work)), gi_push = (\<lambda>_ _. None),
               gi_fetch = (\<lambda>_. None), gi_reset = (\<lambda>_ head work. (None, head, work))\<rparr>,
     en_textMerger = None, en_mergeFile = (\<lambda>_ _ _. Inl []),
     en_collector = demo_collect_env, en_errorText = (\<lambda>_. ''failed''),
     en_now = 1, en_firstSyncMode = [], en_firstSyncRun = False, en_pushRetries = 0\<rparr>"

definition demo_sync_disk :: sync_disk where
  "demo_sync_disk = \<lparr>sy_apply = \<lparr>ad_fs = ad_fs demo_machine, ad_aliases = None, ad_base = toy_disk\<rparr>,
     sy_conflict = \<lparr>dk_local = fmempty, dk_repo = fmempty, dk_files = fmempty, dk_pending = None, dk_failed = None,
                    dk_view = None, dk_journal = None\<rparr>,
     sy_install = demo_install_disk, sy_state = None, sy_head = fmempty, sy_net = []\<rparr>"

definition demo_specs :: specs where
  "demo_specs = fmap_of_list [(''claude/skills'', demo_collect_spec)]"

lemma demo_digest: "hex_digest (ap_sha (en_apply demo_engine))"
  using fits_toy by (simp add: demo_engine_def fits_def)

text \<open>A first round over an empty repository, with one skill on the machine.\<close>

lemma books_follow_the_commit_witness:
  "(case SyncOnce demo_engine demo_specs (boot demo_sync_disk [Works]) of
      (Inr (r, _), w) \<Rightarrow> sr_needsAttention r \<or>
        (\<exists>specs'. outputsAside demo_engine demo_specs specs' \<and> booked demo_engine specs' [] toy_disk (w_disk w))
    | (Inl _, w) \<Rightarrow> bs_index (ad_base (sy_apply (w_disk w))) = None)"
proof -
  have d: "ad_base (sy_apply demo_sync_disk) = toy_disk" "bs_index toy_disk = None"
    by (simp_all add: demo_sync_disk_def toy_disk_def)
  have none: "\<not> waitingManifest demo_engine demo_specs as p" for as p
    by (simp add: waitingManifest_def demo_engine_def)
  obtain res w where run: "SyncOnce demo_engine demo_specs (boot demo_sync_disk [Works]) = (res, w)"
    by (cases "SyncOnce demo_engine demo_specs (boot demo_sync_disk [Works])")
  note fact = books_follow_the_commit [OF demo_digest run, unfolded d]
  show ?thesis
  proof (cases res)
    case (Inl e)
    then show ?thesis using fact by (simp add: run)
  next
    case (Inr out)
    obtain r e where out: "out = (r, e)" by (cases out)
    show ?thesis
    proof (cases "sr_needsAttention r")
      case False
      then obtain specs' P where P: "outputsAside demo_engine demo_specs specs'" "booked demo_engine specs' P toy_disk (w_disk w)"
          "\<forall>p\<in>set P. False"
        using fact none by (auto simp: Inr out)
      then have "P = []" by (cases P) auto
      then show ?thesis using P by (auto simp: run Inr out)
    qed (simp add: run Inr out)
  qed
qed

text \<open> C32. A resource that is skipped in a round loses its merge base: of every path below its prefix that the
  repository owns the saved snapshot keeps nothing, because the plan's base, which the entries are kept from, has
  been stripped of them; in the next round a file the user has deleted meanwhile is therefore pulled back, and one
  that another machine has deleted is pushed again. \<close>

theorem skipped_resource_forgets_base:
  assumes "pre \<in> set (pl_skip_prefixes (roundPlan baseSnapshot st c))" and "pathHasPrefix p pre"
    and "fmlookup (rv_owned (rs_remote st)) p \<noteq> None"
    and "next = preserveSnapshot (pl_base (roundPlan baseSnapshot st c)) owned
           (initialPreserve baseSnapshot st (roundPlan baseSnapshot st c) existing @ further)"
  shows "fmlookup next p = None \<and>
    (fmlookup remote p \<noteq> None \<longrightarrow> Action PullToLocal p \<in> set (ReconcileWithBlocked next (fmdrop p local) remote [])) \<and>
    (fmlookup local p \<noteq> None \<longrightarrow> Action PushToRemote p \<in> set (ReconcileWithBlocked next local (fmdrop p remote) []))"
proof -
  let ?plan = "roundPlan baseSnapshot st c"
  have "fmlookup (pl_base ?plan) p = None"
    using assms(1,2) by (auto simp: roundPlan_def prepareResourcePlan_def Let_def list_ex_iff)
  moreover have "p \<in> set (initialPreserve baseSnapshot st ?plan existing @ further)"
    using assms(1-3) by (auto simp: initialPreserve_def underPrefixes_def fm_simps fmlookup_dom_iff)
  ultimately have gone: "fmlookup next p = None" by (simp add: assms(4) fmlookup_preserveSnapshot)
  moreover have "Action PullToLocal p \<in> set (ReconcileWithBlocked next (fmdrop p local) remote [])" if "fmlookup remote p \<noteq> None"
    using that gone by (auto simp: Reconcile_actions_iff reconcilePath_def Let_def sideChanged_def)
  moreover have "Action PushToRemote p \<in> set (ReconcileWithBlocked next local (fmdrop p remote) [])" if "fmlookup local p \<noteq> None"
    using that gone by (auto simp: Reconcile_actions_iff reconcilePath_def Let_def sideChanged_def)
  ultimately show ?thesis by blast
qed

definition demo_skip_state :: resolution_state where
  "demo_skip_state = \<lparr>rs_specs = demo_specs,
     rs_remote = \<lparr>rv_snapshot = co_snapshot demo_collected, rv_owned = co_snapshot demo_collected,
       rv_valid = co_snapshot demo_collected, rv_ownershipBlocked = [], rv_validationBlocked = []\<rparr>,
     rs_planBase = co_snapshot demo_collected, rs_issues = [], rs_held = []\<rparr>"

definition demo_skipped :: collected where
  "demo_skipped = \<lparr>co_snapshot = fmempty, co_artifacts = fmempty, co_blocked = [],
     co_skipped = [\<lparr>iss_resource_key = ''claude/skills'', iss_path = [], iss_code = ''root-missing'', iss_message = Msg [], iss_bytes = 0\<rparr>], co_stageRoot = []\<rparr>"

lemma skipped_resource_forgets_base_witness:
  "\<exists>next. next = preserveSnapshot (pl_base (roundPlan (co_snapshot demo_collected) demo_skip_state demo_skipped))
       (co_snapshot demo_collected)
       (initialPreserve (co_snapshot demo_collected) demo_skip_state
          (roundPlan (co_snapshot demo_collected) demo_skip_state demo_skipped) [] @ []) \<and>
     fmlookup (co_snapshot demo_collected) demo_skill_path \<noteq> None \<and> fmlookup next demo_skill_path = None \<and>
     Action PullToLocal demo_skill_path \<in>
       set (ReconcileWithBlocked next (fmdrop demo_skill_path fmempty) (co_snapshot demo_collected) [])"
proof -
  let ?b = "co_snapshot demo_collected" and ?p = "''agents/_portable/config/providers/claude/skills/skills/''"
  have pre: "?p \<in> set (pl_skip_prefixes (roundPlan ?b demo_skip_state demo_skipped))" by code_simp
  have path: "pathHasPrefix demo_skill_path ?p" by code_simp
  have owned: "fmlookup (rv_owned (rs_remote demo_skip_state)) demo_skill_path \<noteq> None" by code_simp
  have base: "fmlookup ?b demo_skill_path \<noteq> None" by code_simp
  show ?thesis using skipped_resource_forgets_base [OF pre path owned refl, of ?b "[]" "[]" ?b fmempty] base by auto
qed

text \<open> C34. The end of a round that finds the working tree as the committed one, after its pull and its actions: it
  does not ask Git to talk to the remote, whatever the remote would answer, leaves the committed tree as it is, reports
  nothing more as pushed, and yet records that tree as the merge base.  Nothing looks whether the commit has reached
  the upstream: one that an earlier round could not push stays unpushed until there is something new to commit. \<close>

theorem unpushed_commit_stays:
  assumes "workOf (en_apply env) d = sy_head d"
    and "finishRound env baseSnapshot st baseOwned P res retry (boot d fs) = (Inr (r, e), w)"
  shows "sr_pushed r = sr_pushed res \<and> e = None \<and> sy_net (w_disk w) = sy_net d \<and> sy_head (w_disk w) = sy_head d \<and>
     booked env (rs_specs st) P (ad_base (sy_apply d)) (w_disk w)"
proof -
  let ?h = "sy_head d" and ?n = "sy_net d"
  let ?P = "\<lambda>s. (books s = books d \<and> sy_head s = workOf (en_apply env) s) \<and> sy_head s = ?h \<and> sy_net s = ?n"
  let ?K = "\<lambda>s. booked env (rs_specs st) P (ad_base (sy_apply d)) s \<and> sy_head s = ?h \<and> sy_net s = ?n"
  let ?Q = "\<lambda>r' s. sr_pushed (fst r') = sr_pushed res \<and> snd r' = None \<and> ?K s"
  let ?E = "\<lambda>_. True"
  have head: "keeps (\<lambda>s. sy_head s = ?h) (recordBase env specs bs bo pres)" for specs bs bo pres
    unfolding recordBase_def Let_def SaveState_def onBase_def
    by (auto intro!: keeps_intros round_keeps keeps_tick base_head.keeps_zoom split: prod.split sum.split)
  have rec: "fault_valid ?P (recordBase env (rs_specs st) baseSnapshot baseOwned P) (\<lambda>_. ?K) ?E"
    by (rule fault_weaken [OF fault_both [OF fault_recordBase [of "books d"] fault_both [OF head net_recordBase]]])
      (auto simp: books_def)
  have fin: "fault_valid ?P (andThen (recordBase env (rs_specs st) baseSnapshot baseOwned P) (\<lambda>_.
       ret (res\<lparr>sr_needsAttention := a\<rparr>, None))) ?Q ?E" for a
    by (rule fault_andThen [OF rec]) (auto intro!: fault_ret)
  have add: "fault_valid ?P AddAll (\<lambda>_. ?P) ?E"
    by (rule fault_weaken [OF keeps_reads(4) [of ?P]]) auto
  have status: "fault_valid ?P (HasChanges env) (\<lambda>c s. \<not> c \<and> ?P s) ?E"
    unfolding HasChanges_def by (rule fault_read_tick) auto
  have all: "fault_valid ?P (finishRound env baseSnapshot st baseOwned P res retry) ?Q ?E"
    unfolding finishRound_def Let_def
  proof (rule fault_andThen [OF add], rule fault_andThen [OF status])
    fix c
    show "fault_valid (\<lambda>s. \<not> c \<and> ?P s) (if \<not> c
         then andThen (recordBase env (rs_specs st) baseSnapshot baseOwned P) (\<lambda>_.
           ret (res\<lparr>sr_needsAttention := sr_issues res \<noteq> [] \<or> 0 < sr_conflicts res \<or> 0 < sr_pendingInstalls res\<rparr>, None))
         else andThen (Commit env) (\<lambda>_. attempt (Push env) (\<lambda>r. case r of
           Inl e \<Rightarrow> rejectedPush env e retry
         | Inr _ \<Rightarrow> andThen (recordBase env (rs_specs st) baseSnapshot baseOwned P) (\<lambda>_.
             ret ((res\<lparr>sr_pushed := True\<rparr>)\<lparr>sr_needsAttention := sr_issues (res\<lparr>sr_pushed := True\<rparr>) \<noteq> [] \<or>
               0 < sr_conflicts (res\<lparr>sr_pushed := True\<rparr>) \<or> 0 < sr_pendingInstalls (res\<lparr>sr_pushed := True\<rparr>)\<rparr>, None)))))
       ?Q ?E"
      by (rule fault_given [where A = "\<not> c" and P = ?P]) (subst if_P, assumption, rule fin, assumption)
  qed
  have "?P (w_disk (boot d fs))" using assms(1) by (simp add: boot_def)
  from fault_validD(1) [OF all this assms(2) refl] show ?thesis by simp
qed

definition demo_clean_disk :: sync_disk where
  "demo_clean_disk = demo_sync_disk\<lparr>sy_apply := (sy_apply demo_sync_disk)\<lparr>ad_fs := fs_of [([''repo'', ''README''], ''x'')]\<rparr>,
     sy_head := fmap_of_list [(''README'', FileNode ''x'')]\<rparr>"

definition demo_result :: sync_result where
  "demo_result = initialResult fmempty demo_skip_state demo_collected [] []"

lemma unpushed_commit_stays_witness:
  "\<exists>r w. finishRound demo_engine fmempty demo_skip_state fmempty [] demo_result None (boot demo_clean_disk []) = (Inr (r, None), w) \<and>
     \<not> sr_pushed r \<and> sy_net (w_disk w) = []"
proof -
  have clean: "workOf (en_apply demo_engine) demo_clean_disk = sy_head demo_clean_disk" by code_simp
  have ok: "(case finishRound demo_engine fmempty demo_skip_state fmempty [] demo_result None (boot demo_clean_disk []) of
      (Inr r, _) \<Rightarrow> True | _ \<Rightarrow> False)" by code_simp
  then obtain r e w where run: "finishRound demo_engine fmempty demo_skip_state fmempty [] demo_result None
      (boot demo_clean_disk []) = (Inr (r, e), w)" by (auto split: prod.splits sum.splits)
  have "\<not> sr_pushed demo_result" "sy_net demo_clean_disk = []"
    by (simp_all add: demo_result_def initialResult_def demo_clean_disk_def demo_sync_disk_def)
  with unpushed_commit_stays [OF clean run] run show ?thesis by auto
qed

end
