(* ===== verification/Shared_Library.thy ===== *)
theory Shared_Library
  imports Library_Guard Fault_IO
begin

text \<open>
  The shared library's managed copies (internal/sharedlibrary: manager.go, files.go, inventory.go).  A
  root is a skill folder or a single instructions file; the disk maps each root to what lies there,
  and any operation may fail or kill the process.  Writing a file is atomic (a temporary file and a
  rename), writing a tree is not.  Link checks below the user's home, the digests (SHA-256 of the
  JSON encoding) and the JSON encoding itself are parameters; links do not change while an
  operation runs, and empty directories are not visible.
\<close>

section \<open>State\<close>

record lib_file =
  lf_data :: string
  lf_mode :: nat

type_synonym lib_tree = "(string, lib_file) fmap"

datatype lib_node = Regular lib_file | Irregular

datatype lib_root = DirRoot "(string, lib_node) fmap" | FileRoot lib_node

record lib_record =
  lb_request :: lib_request
  lb_original :: lib_tree
  lb_applied :: lib_tree
  lb_previous :: lib_tree
  lb_pending :: bool

datatype ownership_file = OwnershipBytes | OwnershipMap int "(string, lib_record) fmap option"

type_synonym ownership = "(string, lib_record) fmap"

record library_disk =
  ld_roots :: "(string, lib_root) fmap"
  ld_ownership :: "ownership_file option"
  ld_backups :: "(string \<times> lib_request \<times> lib_tree) list"

record library_env =
  le_userHome :: string
  le_noLinks :: "string \<Rightarrow> library_error option"
  le_glob :: glob
  le_unmarshal :: unmarshaller
  le_file :: "lib_file option \<Rightarrow> string"
  le_tree :: "lib_tree \<Rightarrow> string"
  le_plan :: "lib_request \<Rightarrow> string \<Rightarrow> lib_tree \<Rightarrow> lib_tree \<Rightarrow> ownership \<Rightarrow> string"

type_synonym 'a library_io = "(library_disk, library_error, 'a) io"

section \<open>Reading trees\<close>

definition parentDirs :: "string \<Rightarrow> string list" where
  "parentDirs rel =
     (let parts = split_on CHR ''/'' rel in map (\<lambda>k. join_with CHR ''/'' (take k parts)) [1..<length parts])"

text \<open>One regular file of a root: the limits, the filter policy and the content policy.\<close>

definition readEntry :: "library_env \<Rightarrow> string \<Rightarrow> lib_node \<Rightarrow> lib_tree \<times> nat \<Rightarrow> library_error + lib_tree \<times> nat" where
  "readEntry env rel nd = (\<lambda>(t, total).
     case nd of
       Irregular \<Rightarrow> Inl (NotRegular rel)
     | Regular f \<Rightarrow>
         if int (size (fmdom t)) \<ge> 2000 \<or> int (total + length (lf_data f)) > 20971520 then Inl (TooBig rel)
         else if int (length (lf_data f)) > 1048576 then Inl (TooBig rel)
         else case Check (le_glob env) DefaultFilterPolicy rel (int (length (lf_data f))) StrategySourceTree of
           Some reason \<Rightarrow> Inl (BlockedFile rel reason)
         | None \<Rightarrow>
             (case validateLibraryContent (le_glob env) (le_unmarshal env) rel (lf_data f) of
                Some e \<Rightarrow> Inl e
              | None \<Rightarrow> Inr (fmupd rel f t, total + length (lf_data f))))"

definition walkEntry :: "library_env \<Rightarrow> (string, lib_node) fmap \<Rightarrow> string \<Rightarrow> lib_tree \<times> nat \<Rightarrow> library_error + lib_tree \<times> nat" where
  "walkEntry env m rel acc =
     (case find (\<lambda>dir. CheckDirectory (le_glob env) DefaultFilterPolicy dir \<noteq> None) (parentDirs rel) of
        Some dir \<Rightarrow> Inl (BlockedFile dir ''directory'')
      | None \<Rightarrow> readEntry env rel (the (fmlookup m rel)) acc)"

definition readTreeAt :: "library_env \<Rightarrow> string \<Rightarrow> bool \<Rightarrow> library_disk \<Rightarrow> library_error + lib_tree" where
  "readTreeAt env root directory d =
     (case le_noLinks env root of
        Some e \<Rightarrow> Inl e
      | None \<Rightarrow>
          (case fmlookup (ld_roots d) root of
             None \<Rightarrow> Inr fmempty
           | Some (FileRoot nd) \<Rightarrow>
               if directory then Inl (UnexpectedType root)
               else map_sum id fst (readEntry env ''AGENTS.md'' nd (fmempty, 0))
           | Some (DirRoot m) \<Rightarrow>
               if \<not> directory then Inl (UnexpectedType root)
               else map_sum id fst (fold_res (walkEntry env m) (fm_keys m) (fmempty, 0))))"

definition readTree :: "library_env \<Rightarrow> string \<Rightarrow> bool \<Rightarrow> lib_tree library_io" where
  "readTree env root directory = read_tick LibraryFault (readTreeAt env root directory)"

section \<open>Writing trees\<close>

definition putFile :: "string \<Rightarrow> bool \<Rightarrow> string \<Rightarrow> lib_file \<Rightarrow> library_disk \<Rightarrow> library_disk" where
  "putFile root directory rel f d =
     d\<lparr>ld_roots := fmupd root
        (if directory
         then DirRoot (fmupd rel (Regular f) (case fmlookup (ld_roots d) root of Some (DirRoot m) \<Rightarrow> m | _ \<Rightarrow> fmempty))
         else FileRoot (Regular f)) (ld_roots d)\<rparr>"

definition dropFile :: "string \<Rightarrow> bool \<Rightarrow> string \<Rightarrow> library_disk \<Rightarrow> library_disk" where
  "dropFile root directory rel d =
     (if directory
      then (case fmlookup (ld_roots d) root of
              Some (DirRoot m) \<Rightarrow> d\<lparr>ld_roots := fmupd root (DirRoot (fmdrop rel m)) (ld_roots d)\<rparr>
            | _ \<Rightarrow> d)
      else d\<lparr>ld_roots := fmdrop root (ld_roots d)\<rparr>)"

definition filePath :: "string \<Rightarrow> string \<Rightarrow> bool \<Rightarrow> string" where
  "filePath root rel directory = (if directory then path_join [root, rel] else root)"

definition atomicWrite :: "library_env \<Rightarrow> string \<Rightarrow> (library_disk \<Rightarrow> library_disk) \<Rightarrow> unit library_io" where
  "atomicWrite env name f =
     (case le_noLinks env name of
        Some e \<Rightarrow> raise e
      | None \<Rightarrow> tick LibraryFault (\<lambda>d _. d) (\<lambda>d. (Inr (), f d)))"

definition writeOne :: "library_env \<Rightarrow> string \<Rightarrow> bool \<Rightarrow> lib_tree \<Rightarrow> lib_tree \<Rightarrow> string \<Rightarrow> unit \<Rightarrow> unit library_io" where
  "writeOne env root directory before after rel _ =
     (if le_file env (fmlookup before rel) = le_file env (fmlookup after rel) then ret ()
      else atomicWrite env (filePath root rel directory) (putFile root directory rel (the (fmlookup after rel))))"

definition removeOne :: "library_env \<Rightarrow> string \<Rightarrow> bool \<Rightarrow> lib_tree \<Rightarrow> string \<Rightarrow> unit \<Rightarrow> unit library_io" where
  "removeOne env root directory after rel _ =
     (if fmlookup after rel \<noteq> None then ret ()
      else atomicWrite env (filePath root rel directory) (dropFile root directory rel))"

text \<open>The two loops over maps, in key order.\<close>

definition writeTree :: "library_env \<Rightarrow> string \<Rightarrow> bool \<Rightarrow> lib_tree \<Rightarrow> lib_tree \<Rightarrow> unit library_io" where
  "writeTree env root directory before after =
     andThen (forEach (writeOne env root directory before after) (fm_keys after) ()) (\<lambda>_.
       forEach (removeOne env root directory after) (fm_keys before) ())"

section \<open>Ownership\<close>

definition localTree :: "lib_tree \<Rightarrow> bool" where
  "localTree t \<longleftrightarrow> list_all (\<lambda>rel. isLocalRel (cleaned_segments rel) \<and> rel \<noteq> [] \<and> \<not> prefix ''/'' rel \<and> path_clean rel = rel) (fm_keys t)"

definition validRecord :: "library_env \<Rightarrow> string \<Rightarrow> lib_record \<Rightarrow> library_error option" where
  "validRecord env i rec =
     (if isl (libraryPaths (le_userHome env) (lb_request rec)) \<or> i \<noteq> requestKey (lb_request rec) then Some (OwnershipRecord i)
      else if list_all localTree [lb_original rec, lb_applied rec, lb_previous rec] then None else Some BackupPath)"

definition statePath :: "library_env \<Rightarrow> string" where
  "statePath env = path_join [le_userHome env, ''.synchub'', ''library-ownership.json'']"

definition loadedOwnership :: "library_env \<Rightarrow> library_disk \<Rightarrow> library_error + ownership" where
  "loadedOwnership env d =
     (case ld_ownership d of
        None \<Rightarrow> Inr fmempty
      | Some OwnershipBytes \<Rightarrow> Inl OwnershipCorrupt
      | Some (OwnershipMap version records) \<Rightarrow>
          (case records of
             None \<Rightarrow> Inl OwnershipVersion
           | Some m \<Rightarrow>
               if version \<noteq> 1 then Inl OwnershipVersion
               else case List.map_filter (\<lambda>k. validRecord env k (the (fmlookup m k))) (fm_keys m) of
                 e # _ \<Rightarrow> Inl e | [] \<Rightarrow> Inr m))"

definition loadOwnership :: "library_env \<Rightarrow> ownership library_io" where
  "loadOwnership env =
     (case le_noLinks env (statePath env) of
        Some e \<Rightarrow> raise e
      | None \<Rightarrow> read_tick LibraryFault (loadedOwnership env))"

definition saveOwnership :: "library_env \<Rightarrow> ownership \<Rightarrow> unit library_io" where
  "saveOwnership env m = atomicWrite env (statePath env) (\<lambda>d. d\<lparr>ld_ownership := Some (OwnershipMap 1 (Some m))\<rparr>)"

section \<open>Plans\<close>

record lib_change =
  lc_path :: string
  lc_action :: string
  lc_before :: string
  lc_after :: string

record prepared =
  pp_id :: string
  pp_request :: lib_request
  pp_changes :: "lib_change list"
  pp_root :: string
  pp_directory :: bool
  pp_before :: lib_tree
  pp_after :: lib_tree
  pp_state :: ownership

definition recoverable :: "library_env \<Rightarrow> lib_tree \<Rightarrow> lib_record \<Rightarrow> bool" where
  "recoverable env current rec =
     (if \<not> lb_pending rec then le_tree env current = le_tree env (lb_applied rec)
      else
        list_all (\<lambda>rel. le_file env (fmlookup current rel) = le_file env (fmlookup (lb_applied rec) rel) \<or>
                        le_file env (fmlookup current rel) = le_file env (fmlookup (lb_previous rec) rel)) (fm_keys current) \<and>
        list_all (\<lambda>rel. fmlookup current rel \<noteq> None \<or> fmlookup (lb_previous rec) rel = None) (fm_keys (lb_applied rec)))"

definition dataAt :: "lib_tree \<Rightarrow> string \<Rightarrow> string" where
  "dataAt t rel = (case fmlookup t rel of None \<Rightarrow> [] | Some f \<Rightarrow> lf_data f)"

definition changesOf :: "library_env \<Rightarrow> string \<Rightarrow> bool \<Rightarrow> lib_tree \<Rightarrow> lib_tree \<Rightarrow> lib_change list" where
  "changesOf env root directory before after =
     sort_key lc_path (List.map_filter (\<lambda>rel.
       let had = (fmlookup before rel \<noteq> None); has = (fmlookup after rel \<noteq> None)
       in if had \<and> has \<and> le_file env (fmlookup before rel) = le_file env (fmlookup after rel) then None
          else Some \<lparr>lc_path = filePath root rel directory,
                     lc_action = (if \<not> had then ''create'' else if \<not> has then ''delete'' else ''replace''),
                     lc_before = dataAt before rel, lc_after = dataAt after rel\<rparr>)
       (sort_unique (fm_keys before @ fm_keys after)))"

text \<open>What the target becomes; \<open>before\<close> is what lies there now.\<close>

definition desiredTree ::
  "library_env \<Rightarrow> lib_request \<Rightarrow> string \<Rightarrow> string \<Rightarrow> bool \<Rightarrow> lib_tree \<Rightarrow> lib_record option \<Rightarrow> lib_tree library_io" where
  "desiredTree env r source target directory before owned =
     (if lr_action r = ''import'' then readTree env target directory
      else if lr_action r = ''apply'' then
        andThen (if lr_kind r = ''skills'' \<and> lr_harness r = ''common''
                 then read_tick LibraryFault (\<lambda>d.
                        let duplicate = path_join [le_userHome env, ''.copilot'', ''skills'', lr_name r]
                        in if fmlookup (ld_roots d) duplicate \<noteq> None then Inl (DuplicateSkill duplicate) else Inr ())
                 else ret ()) (\<lambda>_.
          case owned of
            Some rec \<Rightarrow>
              if lb_pending rec \<or> le_tree env before \<noteq> le_tree env (lb_applied rec) then raise TargetModified
              else readTree env source directory
          | None \<Rightarrow> readTree env source directory)
      else if lr_action r = ''restore'' then
        (case owned of
           None \<Rightarrow> raise NotManagedHere
         | Some rec \<Rightarrow> if \<not> recoverable env before rec then raise TargetModified else ret (lb_original rec))
      else if lr_action r = ''detach'' then (if owned = None then raise NotManagedHere else ret before)
      else raise (UnsupportedAction (lr_action r)))"

definition prepare :: "library_env \<Rightarrow> lib_request \<Rightarrow> prepared library_io" where
  "prepare env r =
     (case libraryPaths (le_userHome env) r of
        Inl e \<Rightarrow> raise e
      | Inr (source, target) \<Rightarrow>
          let root = (if lr_action r = ''import'' then source else target); directory = (lr_kind r = ''skills'')
          in andThen (loadOwnership env) (\<lambda>state.
             andThen (if lr_action r \<noteq> ''detach'' then readTree env root directory else ret fmempty) (\<lambda>before.
             andThen (desiredTree env r source target directory before (fmlookup state (requestKey r))) (\<lambda>after.
               if (lr_action r = ''import'' \<or> lr_action r = ''apply'') \<and> fm_keys after = [] then raise EmptySource
               else if (lr_action r = ''import'' \<or> lr_action r = ''apply'') \<and> directory \<and> fmlookup after ''SKILL.md'' = None
               then raise NoSkillFile
               else ret \<lparr>pp_id = le_plan env r root before after state, pp_request = r,
                         pp_changes = changesOf env root directory before after, pp_root = root,
                         pp_directory = directory, pp_before = before, pp_after = after, pp_state = state\<rparr>))))"

definition Preview :: "library_env \<Rightarrow> lib_request \<Rightarrow> prepared library_io" where
  "Preview env r = prepare env r"

section \<open>Carrying out a plan\<close>

definition importTree :: "library_env \<Rightarrow> prepared \<Rightarrow> unit library_io" where
  "importTree env p =
     andThen (atomicWrite env (path_join [le_userHome env, ''.synchub'', ''library-import-backups'', pp_id p @ ''.json''])
        (\<lambda>d. d\<lparr>ld_backups := ld_backups d @ [(pp_id p, pp_request p, pp_before p)]\<rparr>)) (\<lambda>_.
     attempt (writeTree env (pp_root p) (pp_directory p) (pp_before p) (pp_after p)) (\<lambda>res.
       case res of
         Inr _ \<Rightarrow> ret ()
       | Inl e \<Rightarrow>
           attempt (readTree env (pp_root p) (pp_directory p)) (\<lambda>current.
             case current of
               Inl readErr \<Rightarrow> raise (WithRollback e readErr)
             | Inr t \<Rightarrow>
                 attempt (writeTree env (pp_root p) (pp_directory p) t (pp_before p)) (\<lambda>undo.
                   case undo of Inl e2 \<Rightarrow> raise (WithRollback e e2) | Inr _ \<Rightarrow> raise e))))"

definition pendingRecord :: "prepared \<Rightarrow> lib_record" where
  "pendingRecord p =
     \<lparr>lb_request = (case fmlookup (pp_state p) (requestKey (pp_request p)) of Some rec \<Rightarrow> lb_request rec | None \<Rightarrow> pp_request p),
      lb_original = (case fmlookup (pp_state p) (requestKey (pp_request p)) of Some rec \<Rightarrow> lb_original rec | None \<Rightarrow> pp_before p),
      lb_applied = pp_after p, lb_previous = pp_before p, lb_pending = True\<rparr>"

definition writeManaged :: "library_env \<Rightarrow> prepared \<Rightarrow> unit library_io" where
  "writeManaged env p =
     (let k = requestKey (pp_request p); rec = pendingRecord p; state = fmupd k rec (pp_state p)
      in andThen (saveOwnership env state) (\<lambda>_.
         andThen (writeTree env (pp_root p) (pp_directory p) (pp_before p) (pp_after p)) (\<lambda>_.
           saveOwnership env
             (if lr_action (pp_request p) = ''restore'' then fmdrop k state
              else fmupd k (rec\<lparr>lb_pending := False, lb_previous := fmempty\<rparr>) state))))"

definition ApplyLibrary :: "library_env \<Rightarrow> lib_request \<Rightarrow> string \<Rightarrow> unit library_io" where
  "ApplyLibrary env r i =
     andThen (prepare env r) (\<lambda>p.
       if i = [] \<or> i \<noteq> pp_id p then raise StalePreview
       else if lr_action r = ''import'' then importTree env p
       else if lr_action r = ''detach'' then saveOwnership env (fmdrop (requestKey r) (pp_state p))
       else writeManaged env p)"

definition refreshOne :: "library_env \<Rightarrow> bool \<Rightarrow> bool \<Rightarrow> string \<times> lib_record \<Rightarrow> library_error list \<Rightarrow> library_error list library_io" where
  "refreshOne env skills instructions = (\<lambda>(_, rec) failures.
     let r = (lb_request rec)\<lparr>lr_action := ''apply''\<rparr>
     in if (lr_kind r = ''skills'' \<and> \<not> skills) \<or> (lr_kind r = ''instructions'' \<and> \<not> instructions) then ret failures
        else attempt (andThen (Preview env r) (\<lambda>p. ApplyLibrary env r (pp_id p))) (\<lambda>res.
          case res of Inl e \<Rightarrow> ret (failures @ [AtKey (requestKey r) e]) | Inr _ \<Rightarrow> ret failures))"

definition RefreshLibrary :: "library_env \<Rightarrow> bool \<Rightarrow> bool \<Rightarrow> library_error list library_io" where
  "RefreshLibrary env skills instructions =
     andThen (loadOwnership env) (\<lambda>state. forEach (refreshOne env skills instructions) (fm_entries state) [])"

section \<open>What lies in a skill folder\<close>

definition contentAt :: "library_disk \<Rightarrow> string \<Rightarrow> string \<Rightarrow> lib_file option" where
  "contentAt d root rel =
     (case fmlookup (ld_roots d) root of
        Some (DirRoot m) \<Rightarrow> (case fmlookup m rel of Some (Regular f) \<Rightarrow> Some f | _ \<Rightarrow> None)
      | _ \<Rightarrow> None)"

lemma contentAt_putFile [simp]:
  "contentAt (putFile root True rel f d) root = (contentAt d root)(rel := Some f)"
  by (auto simp: contentAt_def putFile_def fun_eq_iff split: option.split lib_root.split)

lemma contentAt_dropFile [simp]:
  "contentAt (dropFile root True rel d) root = (contentAt d root)(rel := None)"
  by (auto simp: contentAt_def dropFile_def fun_eq_iff split: option.split lib_root.split)

lemma contentAt_ownership [simp]: "contentAt (d\<lparr>ld_ownership := x\<rparr>) = contentAt d"
  by (simp add: contentAt_def fun_eq_iff)

lemma ownership_roots [simp]:
  "ld_ownership (putFile root directory rel f d) = ld_ownership d"
  "ld_ownership (dropFile root directory rel d) = ld_ownership d"
  by (auto simp: putFile_def dropFile_def split: option.split lib_root.split)

lemma walkEntries_content:
  "fold_res (walkEntry env m) ks (t, bytes) = Inr (t', bytes') \<Longrightarrow> set ks \<subseteq> fset (fmdom m) \<Longrightarrow>
     fmlookup t' rel = (if rel \<in> set ks then (case fmlookup m rel of Some (Regular f) \<Rightarrow> Some f | _ \<Rightarrow> None) else fmlookup t rel) \<and>
     (\<forall>k\<in>set ks. \<exists>f. fmlookup m k = Some (Regular f))"
proof (induction ks arbitrary: t bytes)
  case Nil
  then show ?case by simp
next
  case (Cons k ks)
  obtain nd where nd: "fmlookup m k = Some nd" using Cons.prems(2) by (auto simp: fmlookup_dom_iff)
  obtain t1 bytes1 where step: "walkEntry env m k (t, bytes) = Inr (t1, bytes1)"
    and rest: "fold_res (walkEntry env m) ks (t1, bytes1) = Inr (t', bytes')"
    using Cons.prems(1) by (auto split: sum.splits)
  obtain f where f: "nd = Regular f" "t1 = fmupd k f t"
    using step nd by (auto simp: walkEntry_def readEntry_def split: option.splits lib_node.splits if_splits)
  from Cons.IH [OF rest] Cons.prems(2) show ?case using nd f by auto
qed

lemma readTreeAt_content:
  assumes "readTreeAt env root True d = Inr t"
  shows "fmlookup t = contentAt d root"
proof (cases "fmlookup (ld_roots d) root")
  case None
  then show ?thesis using assms by (auto simp: readTreeAt_def contentAt_def split: option.splits)
next
  case (Some nd)
  then obtain m where m: "nd = DirRoot m" using assms by (cases nd) (auto simp: readTreeAt_def split: option.splits)
  then obtain bytes where "fold_res (walkEntry env m) (fm_keys m) (fmempty, 0) = Inr (t, bytes)"
    using assms Some by (auto simp: readTreeAt_def map_sum_def split: option.splits sum.splits)
  from walkEntries_content [OF this] show ?thesis
    using Some m by (auto simp: fun_eq_iff contentAt_def fmlookup_dom_iff split: option.split)
qed

section \<open>Trees half written\<close>

text \<open>Every file is as it was before or as it is to be.\<close>

definition mixed :: "lib_tree \<Rightarrow> lib_tree \<Rightarrow> (string \<Rightarrow> lib_file option) \<Rightarrow> bool" where
  "mixed before after t \<longleftrightarrow> (\<forall>rel. t rel = fmlookup before rel \<or> t rel = fmlookup after rel)"

lemma mixed_recoverable:
  assumes "mixed before after (fmlookup t)" "lb_applied rec = after" "lb_previous rec = before" "lb_pending rec"
  shows "recoverable env t rec"
  using assms unfolding mixed_def recoverable_def list_all_iff
  by (auto simp: fmlookup_dom_iff) (metis option.distinct(1))+

text \<open>The invariant of the two loops: the ownership is kept, and what has been visited is done.\<close>

definition writing :: "library_env \<Rightarrow> string \<Rightarrow> lib_tree \<Rightarrow> lib_tree \<Rightarrow> ownership_file option \<Rightarrow> string list \<Rightarrow> string list \<Rightarrow>
    library_disk \<Rightarrow> bool" where
  "writing env root before after own towrite toremove d \<longleftrightarrow>
     ld_ownership d = own \<and> mixed before after (contentAt d root) \<and>
     (\<forall>rel. fmlookup after rel \<noteq> None \<and> rel \<notin> set towrite \<longrightarrow>
        contentAt d root rel = fmlookup after rel \<or>
        (contentAt d root rel = fmlookup before rel \<and> le_file env (fmlookup before rel) = le_file env (fmlookup after rel))) \<and>
     (\<forall>rel. fmlookup before rel \<noteq> None \<and> fmlookup after rel = None \<and> rel \<notin> set toremove \<longrightarrow> contentAt d root rel = None)"

definition halfway :: "string \<Rightarrow> lib_tree \<Rightarrow> lib_tree \<Rightarrow> ownership_file option \<Rightarrow> library_disk \<Rightarrow> bool" where
  "halfway root before after own d \<longleftrightarrow> ld_ownership d = own \<and> mixed before after (contentAt d root)"

lemma writing_halfway: "writing env root before after own ws rs d \<Longrightarrow> halfway root before after own d"
  by (simp add: writing_def halfway_def)

lemma fault_atomicWrite:
  assumes "\<And>d. P d \<Longrightarrow> Q (f d)" "\<And>d. P d \<Longrightarrow> E d"
  shows "fault_valid P (atomicWrite env name f) (\<lambda>_. Q) E"
proof (cases "le_noLinks env name")
  case None
  then show ?thesis unfolding atomicWrite_def by simp (rule fault_tick, use assms in auto)
next
  case (Some e)
  then show ?thesis by (simp add: atomicWrite_def) (rule fault_raise, rule assms(2))
qed

lemma fault_writeOne:
  assumes "fmlookup after rel \<noteq> None"
  shows "fault_valid (writing env root before after own (rel # ws) rs) (writeOne env root True before after rel u)
    (\<lambda>_. writing env root before after own ws rs) (halfway root before after own)"
  unfolding writeOne_def
proof (rule fault_if)
  assume same: "le_file env (fmlookup before rel) = le_file env (fmlookup after rel)"
  show "fault_valid (writing env root before after own (rel # ws) rs) (ret ()) (\<lambda>_. writing env root before after own ws rs)
      (halfway root before after own)"
    by (rule fault_ret) (use same in \<open>auto simp: writing_def mixed_def\<close>)
next
  show "fault_valid (writing env root before after own (rel # ws) rs)
      (atomicWrite env (filePath root rel True) (putFile root True rel (the (fmlookup after rel))))
      (\<lambda>_. writing env root before after own ws rs) (halfway root before after own)"
    by (rule fault_atomicWrite) (use assms in \<open>auto simp: writing_def mixed_def halfway_def\<close>)
qed

lemma fault_removeOne:
  "fault_valid (writing env root before after own ws (rel # rs)) (removeOne env root True after rel u)
    (\<lambda>_. writing env root before after own ws rs) (halfway root before after own)"
  unfolding removeOne_def
proof (rule fault_if)
  assume "fmlookup after rel \<noteq> None"
  then show "fault_valid (writing env root before after own ws (rel # rs)) (ret ()) (\<lambda>_. writing env root before after own ws rs)
      (halfway root before after own)"
    by (intro fault_ret) (auto simp: writing_def)
next
  assume "\<not> fmlookup after rel \<noteq> None"
  then show "fault_valid (writing env root before after own ws (rel # rs)) (atomicWrite env (filePath root rel True) (dropFile root True rel))
      (\<lambda>_. writing env root before after own ws rs) (halfway root before after own)"
    by (intro fault_atomicWrite) (auto simp: writing_def mixed_def halfway_def)
qed

lemma fault_writeTree:
  "fault_valid (\<lambda>d. ld_ownership d = own \<and> contentAt d root = fmlookup before) (writeTree env root True before after)
    (\<lambda>_. writing env root before after own [] []) (halfway root before after own)"
proof -
  have one: "fault_valid (\<lambda>d. set (rel # ws) \<subseteq> fset (fmdom after) \<and> writing env root before after own (rel # ws) (fm_keys before) d)
      (writeOne env root True before after rel u)
      (\<lambda>_ d. set ws \<subseteq> fset (fmdom after) \<and> writing env root before after own ws (fm_keys before) d) (halfway root before after own)" for rel ws u
    by (rule fault_given [where A = "set (rel # ws) \<subseteq> fset (fmdom after)"
            and P = "writing env root before after own (rel # ws) (fm_keys before)"],
        rule fault_weaken [OF fault_writeOne]) (auto simp: fmlookup_dom_iff)
  have "fault_valid (\<lambda>d. set (fm_keys after) \<subseteq> fset (fmdom after) \<and> writing env root before after own (fm_keys after) (fm_keys before) d)
      (forEach (writeOne env root True before after) (fm_keys after) ())
      (\<lambda>_ d. set [] \<subseteq> fset (fmdom after) \<and> writing env root before after own [] (fm_keys before) d) (halfway root before after own)"
    by (rule fault_forEach [where I = "\<lambda>ws _ d. set ws \<subseteq> fset (fmdom after) \<and> writing env root before after own ws (fm_keys before) d"])
      (rule one)
  then have W: "fault_valid (\<lambda>d. ld_ownership d = own \<and> contentAt d root = fmlookup before)
      (forEach (writeOne env root True before after) (fm_keys after) ())
      (\<lambda>_. writing env root before after own [] (fm_keys before)) (halfway root before after own)"
    by (rule fault_weaken) (auto simp: writing_def mixed_def fmlookup_dom_iff)
  have R: "fault_valid (writing env root before after own [] (fm_keys before)) (forEach (removeOne env root True after) (fm_keys before) ())
      (\<lambda>_. writing env root before after own [] []) (halfway root before after own)"
    by (rule fault_forEach [where I = "\<lambda>rs _. writing env root before after own [] rs"]) (rule fault_removeOne)
  show ?thesis unfolding writeTree_def by (rule fault_andThen [OF W R])
qed

lemma written_exactly:
  assumes "writing env root before after own [] [] d"
    "\<And>rel. le_file env (fmlookup before rel) = le_file env (fmlookup after rel) \<Longrightarrow> fmlookup before rel = fmlookup after rel"
  shows "contentAt d root = fmlookup after"
proof
  fix rel
  show "contentAt d root rel = fmlookup after rel"
  proof (cases "fmlookup after rel")
    case None
    have "contentAt d root rel = fmlookup before rel \<or> contentAt d root rel = fmlookup after rel"
      using assms(1) by (simp add: writing_def mixed_def)
    then show ?thesis using assms(1) None unfolding writing_def by (cases "fmlookup before rel") auto
  next
    case (Some f)
    have "\<forall>rel. fmlookup after rel \<noteq> None \<and> rel \<notin> set [] \<longrightarrow> contentAt d root rel = fmlookup after rel \<or>
        (contentAt d root rel = fmlookup before rel \<and> le_file env (fmlookup before rel) = le_file env (fmlookup after rel))"
      using assms(1) unfolding writing_def by blast
    from spec [OF this, of rel] Some have "contentAt d root rel = fmlookup after rel \<or>
        (contentAt d root rel = fmlookup before rel \<and> le_file env (fmlookup before rel) = le_file env (fmlookup after rel))"
      by simp
    then show ?thesis using assms(2) by auto
  qed
qed

section \<open>Preparing and applying\<close>

definition recordsOn :: "library_disk \<Rightarrow> ownership" where
  "recordsOn d = (case ld_ownership d of Some (OwnershipMap _ (Some m)) \<Rightarrow> m | _ \<Rightarrow> fmempty)"

lemma loadedOwnership_records: "loadedOwnership env d = Inr m \<Longrightarrow> recordsOn d = m"
  by (auto simp: loadedOwnership_def recordsOn_def split: option.splits ownership_file.splits if_splits list.splits)

lemma keeps_readTree: "keeps I (readTree env root directory)"
  by (simp add: readTree_def keeps_read_tick)

text \<open>What a plan is built from.\<close>

definition planned :: "library_env \<Rightarrow> lib_request \<Rightarrow> string \<Rightarrow> string \<Rightarrow> library_disk \<Rightarrow> prepared \<Rightarrow> bool" where
  "planned env r source target d p \<longleftrightarrow>
     pp_request p = r \<and> pp_state p = recordsOn d \<and> pp_root p = target \<and> pp_directory p \<and>
     fmlookup (pp_before p) = contentAt d target \<and>
     (lr_action r = ''apply'' \<longrightarrow> fmlookup (pp_after p) = contentAt d source) \<and>
     (lr_action r = ''restore'' \<longrightarrow> (\<exists>rec. fmlookup (recordsOn d) (requestKey r) = Some rec \<and> pp_after p = lb_original rec))"

lemma fault_desiredTree:
  assumes "lr_action r = ''apply'' \<or> lr_action r = ''restore''"
  shows "fault_valid (\<lambda>d'. d' = d) (desiredTree env r source target True before owned)
    (\<lambda>after d'. d' = d \<and> (lr_action r = ''apply'' \<longrightarrow> fmlookup after = contentAt d source) \<and>
       (lr_action r = ''restore'' \<longrightarrow> (\<exists>rec. owned = Some rec \<and> after = lb_original rec))) (\<lambda>d'. d' = d)"
proof (cases "lr_action r = ''apply''")
  case True
  have read: "fault_valid (\<lambda>d'. d' = d) (readTree env source True)
      (\<lambda>after d'. d' = d \<and> fmlookup after = contentAt d source) (\<lambda>d'. d' = d)"
    unfolding readTree_def by (rule fault_read_tick) (auto dest: readTreeAt_content)
  have dup: "fault_valid (\<lambda>d'. d' = d) (if b then read_tick LibraryFault f else ret ()) (\<lambda>_ d'. d' = d) (\<lambda>d'. d' = d)" for b f
    by (intro fault_if keeps_read_tick keeps_ret)
  have rest: "fault_valid (\<lambda>d'. d' = d) (case owned of
            Some rec \<Rightarrow> if lb_pending rec \<or> le_tree env before \<noteq> le_tree env (lb_applied rec) then raise TargetModified
              else readTree env source True
          | None \<Rightarrow> readTree env source True) (\<lambda>after d'. d' = d \<and> fmlookup after = contentAt d source) (\<lambda>d'. d' = d)"
    using read by (cases owned) (auto intro: fault_raise)
  from fault_andThen [OF dup rest] True show ?thesis
    unfolding desiredTree_def by (auto intro: fault_weaken)
next
  case False
  then show ?thesis using assms
    by (cases owned) (auto simp: desiredTree_def intro: fault_raise fault_ret)
qed

lemma fault_prepare:
  assumes act: "lr_action r = ''apply'' \<or> lr_action r = ''restore''" and kind: "lr_kind r = ''skills''"
    and paths: "libraryPaths (le_userHome env) r = Inr (source, target)"
  shows "fault_valid (\<lambda>d'. d' = d) (prepare env r) (\<lambda>p d'. d' = d \<and> planned env r source target d p) (\<lambda>d'. d' = d)"
proof -
  have load: "fault_valid (\<lambda>d'. d' = d) (loadOwnership env) (\<lambda>m d'. d' = d \<and> m = recordsOn d) (\<lambda>d'. d' = d)"
    unfolding loadOwnership_def
    by (cases "le_noLinks env (statePath env)")
      (auto intro!: fault_raise fault_read_tick dest: loadedOwnership_records)
  have before: "fault_valid (\<lambda>d'. d' = d \<and> m = recordsOn d) (readTree env target True)
      (\<lambda>b d'. d' = d \<and> m = recordsOn d \<and> fmlookup b = contentAt d target) (\<lambda>d'. d' = d)" for m
    unfolding readTree_def by (rule fault_read_tick) (auto dest: readTreeAt_content)
  let ?A = "\<lambda>m b after d'. d' = d \<and> m = recordsOn d \<and> fmlookup b = contentAt d target \<and>
      (lr_action r = ''apply'' \<longrightarrow> fmlookup after = contentAt d source) \<and>
      (lr_action r = ''restore'' \<longrightarrow> (\<exists>rec. fmlookup m (requestKey r) = Some rec \<and> after = lb_original rec))"
  have after: "fault_valid (\<lambda>d'. d' = d \<and> m = recordsOn d \<and> fmlookup b = contentAt d target)
      (desiredTree env r source target True b (fmlookup m (requestKey r))) (?A m b) (\<lambda>d'. d' = d)" for m b
    by (rule fault_given [where A = "m = recordsOn d \<and> fmlookup b = contentAt d target" and P = "\<lambda>d'. d' = d"],
        rule fault_weaken [OF fault_desiredTree [OF act, of d]]) auto
  have finish: "fault_valid (?A m b after)
      (if (lr_action r = ''import'' \<or> lr_action r = ''apply'') \<and> fm_keys after = [] then raise EmptySource
       else if (lr_action r = ''import'' \<or> lr_action r = ''apply'') \<and> True \<and> fmlookup after ''SKILL.md'' = None then raise NoSkillFile
       else ret \<lparr>pp_id = le_plan env r target b after m, pp_request = r, pp_changes = changesOf env target True b after,
              pp_root = target, pp_directory = True, pp_before = b, pp_after = after, pp_state = m\<rparr>)
      (\<lambda>p d'. d' = d \<and> planned env r source target d p) (\<lambda>d'. d' = d)" for m b after
    by (intro fault_if fault_raise fault_ret) (auto simp: planned_def)
  have import: "(if lr_action r = ''import'' then source else target) = target" "(lr_kind r = ''skills'') = True"
    "(if lr_action r \<noteq> ''detach'' then m else n) = m" for m n :: "lib_tree library_io"
    using act kind by auto
  show ?thesis
    unfolding prepare_def paths sum.case prod.case Let_def import
    by (rule fault_andThen [OF load], rule fault_andThen [OF before], rule fault_andThen [OF after], rule finish)
qed

text \<open>What an operation that writes a managed folder may leave behind.\<close>

definition consistent :: "library_env \<Rightarrow> lib_request \<Rightarrow> string \<Rightarrow> library_disk \<Rightarrow> library_disk \<Rightarrow> bool" where
  "consistent env r target d d' \<longleftrightarrow>
     (let k = requestKey r;
          original = (case fmlookup (recordsOn d) k of Some rec \<Rightarrow> fmlookup (lb_original rec) | None \<Rightarrow> contentAt d target)
      in (ld_roots d' = ld_roots d \<and> ld_ownership d' = ld_ownership d) \<or>
         (\<exists>rec. fmlookup (recordsOn d') k = Some rec \<and> fmlookup (lb_original rec) = original \<and>
            (\<forall>t. fmlookup t = contentAt d' target \<longrightarrow> recoverable env t rec)) \<or>
         (lr_action r = ''restore'' \<and> fmlookup (recordsOn d') k = None \<and> contentAt d' target = original))"

lemma recordsOn_saved [simp]: "recordsOn (d\<lparr>ld_ownership := Some (OwnershipMap 1 (Some m))\<rparr>) = m"
  by (simp add: recordsOn_def)

text \<open>The files whose digests a request compares: those of the folder, of the library and of the recorded originals.\<close>

definition filesAt :: "lib_request \<Rightarrow> string \<Rightarrow> string \<Rightarrow> library_disk \<Rightarrow> lib_file option set" where
  "filesAt r source target d =
     range (contentAt d target) \<union> range (contentAt d source) \<union>
     {f. \<exists>rec rel. fmlookup (recordsOn d) (requestKey r) = Some rec \<and> f = fmlookup (lb_original rec) rel}"

lemma planned_files:
  assumes "planned env r source target d p" "lr_action r = ''apply'' \<or> lr_action r = ''restore''"
  shows "fmlookup (pp_before p) rel \<in> filesAt r source target d" "fmlookup (pp_after p) rel \<in> filesAt r source target d"
  using assms by (auto simp: planned_def filesAt_def)

lemma fault_writeManaged:
  assumes p: "planned env r source target d p" and act: "lr_action r = ''apply'' \<or> lr_action r = ''restore''"
    and inj: "inj_on (le_file env) (filesAt r source target d)"
  shows "fault_valid (\<lambda>d'. d' = d) (writeManaged env p)
    (\<lambda>_ d'. consistent env r target d d' \<and>
       (lr_action r = ''apply'' \<longrightarrow> contentAt d' target = contentAt d source) \<and>
       (lr_action r = ''restore'' \<longrightarrow> fmlookup (recordsOn d') (requestKey r) = None)) (consistent env r target d)"
    (is "fault_valid _ _ ?Q ?E")
proof -
  let ?k = "requestKey r" and ?rec = "pendingRecord p" and ?state = "fmupd (requestKey r) (pendingRecord p) (pp_state p)"
  let ?own = "Some (OwnershipMap 1 (Some ?state))"
  have rec: "lb_applied ?rec = pp_after p" "lb_previous ?rec = pp_before p" "lb_pending ?rec"
    by (simp_all add: pendingRecord_def)
  have original: "fmlookup (lb_original ?rec) =
      (case fmlookup (recordsOn d) ?k of Some rec \<Rightarrow> fmlookup (lb_original rec) | None \<Rightarrow> contentAt d target)"
    using p by (auto simp: pendingRecord_def planned_def split: option.split)
  have half: "?E d'" if h: "halfway target (pp_before p) (pp_after p) ?own d'" for d'
  proof -
    have "recordsOn d' = ?state" using h by (simp add: halfway_def recordsOn_def)
    moreover have "\<forall>t. fmlookup t = contentAt d' target \<longrightarrow> recoverable env t ?rec"
    proof (intro allI impI)
      fix t assume "fmlookup t = contentAt d' target"
      then have "mixed (pp_before p) (pp_after p) (fmlookup t)" using h by (simp add: halfway_def)
      from mixed_recoverable [OF this rec] show "recoverable env t ?rec" .
    qed
    ultimately show ?thesis using original by (auto simp: consistent_def Let_def)
  qed
  have start: "?E d" by (simp add: consistent_def Let_def)
  have save: "fault_valid (\<lambda>d'. d' = d) (saveOwnership env ?state)
      (\<lambda>_ d'. ld_ownership d' = ?own \<and> contentAt d' target = fmlookup (pp_before p)) ?E"
    unfolding saveOwnership_def by (rule fault_atomicWrite) (use p start in \<open>auto simp: planned_def\<close>)
  have tree: "fault_valid (\<lambda>d'. ld_ownership d' = ?own \<and> contentAt d' target = fmlookup (pp_before p))
      (writeTree env target True (pp_before p) (pp_after p))
      (\<lambda>_. writing env target (pp_before p) (pp_after p) ?own [] []) ?E"
    by (rule fault_weaken [OF fault_writeTree]) (auto intro: half)
  let ?final = "if lr_action r = ''restore'' then fmdrop ?k ?state else fmupd ?k (?rec\<lparr>lb_pending := False, lb_previous := fmempty\<rparr>) ?state"
  have last: "fault_valid (writing env target (pp_before p) (pp_after p) ?own [] []) (saveOwnership env ?final) ?Q ?E"
    unfolding saveOwnership_def
  proof (rule fault_atomicWrite)
    fix d' assume w: "writing env target (pp_before p) (pp_after p) ?own [] [] d'"
    show "?E d'" by (rule half [OF writing_halfway [OF w]])
    have content: "contentAt d' target = fmlookup (pp_after p)" 
      by (rule written_exactly [OF w]) (rule inj_onD [OF inj], assumption, rule planned_files [OF p act], rule planned_files [OF p act])
    let ?d = "d'\<lparr>ld_ownership := Some (OwnershipMap 1 (Some ?final))\<rparr>"
    show "?Q () ?d"
    proof (cases "lr_action r = ''restore''")
      case True
      then obtain old where "fmlookup (recordsOn d) ?k = Some old" "pp_after p = lb_original old"
        using p unfolding planned_def by blast
      then show ?thesis using True content by (simp add: consistent_def Let_def)
    next
      case False
      then have a: "lr_action r = ''apply''" using act by blast
      have "\<forall>t. fmlookup t = contentAt ?d target \<longrightarrow> recoverable env t (?rec\<lparr>lb_pending := False, lb_previous := fmempty\<rparr>)"
        using content rec(1) by (auto simp: recoverable_def fmlookup_inject)
      then show ?thesis using False a content original p by (auto simp: consistent_def Let_def planned_def)
    qed
  qed
  have req: "pp_request p = r" "pp_root p = target" "pp_directory p" using p by (simp_all add: planned_def)
  show ?thesis unfolding writeManaged_def Let_def req
    using fault_andThen [OF save fault_andThen [OF tree last]] req(3) by simp
qed

text \<open>A tree that can be read has at most 2000 files.\<close>

lemma walkEntries_limit:
  "fold_res (walkEntry env m) ks (t, bytes) = Inr (t', bytes') \<Longrightarrow> size (fmdom t) \<le> 2000 \<Longrightarrow> size (fmdom t') \<le> 2000"
proof (induction ks arbitrary: t bytes)
  case Nil
  then show ?case by simp
next
  case (Cons k ks)
  obtain t1 bytes1 where step: "walkEntry env m k (t, bytes) = Inr (t1, bytes1)"
    and rest: "fold_res (walkEntry env m) ks (t1, bytes1) = Inr (t', bytes')"
    using Cons.prems(1) by (auto split: sum.splits)
  obtain f where "t1 = fmupd k f t" "\<not> size (fmdom t) \<ge> 2000"
    using step by (auto simp: walkEntry_def readEntry_def split: option.splits lib_node.splits if_splits)
  then have "size (fmdom t1) \<le> 2000" by (auto simp: card_insert_if)
  with Cons.IH [OF rest] show ?case .
qed

section \<open>Property\<close>


definition toy_digest :: "lib_file option \<Rightarrow> string" where
  "toy_digest f = (case f of None \<Rightarrow> [] | Some x \<Rightarrow> replicate (lf_mode x) (CHR ''a'') @ CHR ''b'' # lf_data x)"

lemma inj_toy_digest: "inj toy_digest"
proof (rule injI)
  fix f g assume eq: "toy_digest f = toy_digest g"
  have split: "takeWhile (\<lambda>c. c = CHR ''a'') (replicate n (CHR ''a'') @ CHR ''b'' # s) = replicate n (CHR ''a'')"
    "dropWhile (\<lambda>c. c = CHR ''a'') (replicate n (CHR ''a'') @ CHR ''b'' # s) = CHR ''b'' # s" for n s
    by (induction n) auto
  show "f = g"
  proof (cases f; cases g)
    fix x y assume f: "f = Some x" and g: "g = Some y"
    have e: "replicate (lf_mode x) (CHR ''a'') @ CHR ''b'' # lf_data x = replicate (lf_mode y) (CHR ''a'') @ CHR ''b'' # lf_data y"
      using eq f g by (simp add: toy_digest_def)
    have "replicate (lf_mode x) (CHR ''a'') = replicate (lf_mode y) (CHR ''a'')" "lf_data x = lf_data y"
      using arg_cong [OF e, of "takeWhile (\<lambda>c. c = CHR ''a'')"] arg_cong [OF e, of "dropWhile (\<lambda>c. c = CHR ''a'')"]
      by (simp_all only: split) simp
    then have "lf_mode x = lf_mode y" "lf_data x = lf_data y" by (auto dest: arg_cong [of _ _ length])
    then show ?thesis using f g by simp
  qed (use eq in \<open>auto simp: toy_digest_def\<close>)
qed

definition demo_library_env :: library_env where
  "demo_library_env = \<lparr>le_userHome = ''/h'', le_noLinks = (\<lambda>_. None), le_glob = (\<lambda>_ _. Some False), le_unmarshal = (\<lambda>_. None),
     le_file = toy_digest, le_tree = (\<lambda>t. concat (map (\<lambda>k. toy_digest (fmlookup t k)) (fm_keys t))),
     le_plan = (\<lambda>_ _ _ _ _. ''p'')\<rparr>"

definition demo_skill_request :: lib_request where
  "demo_skill_request = \<lparr>lr_action = ''apply'', lr_kind = ''skills'', lr_name = ''a'', lr_harness = ''claude''\<rparr>"

definition demo_library :: library_disk where
  "demo_library = \<lparr>ld_roots = fmap_of_list
     [(''/h/.agents/library/skills/a'', DirRoot (fmap_of_list [(''SKILL.md'', Regular \<lparr>lf_data = ''new'', lf_mode = 1\<rparr>)])),
      (''/h/.claude/skills/a'', DirRoot (fmap_of_list [(''mine.md'', Regular \<lparr>lf_data = ''mine'', lf_mode = 1\<rparr>)]))],
     ld_ownership = None, ld_backups = []\<rparr>"


end
