(* ===== verification/Tray_Feedback.thy ===== *)
theory Tray_Feedback
  imports Scheduler_Machine "HOL-Library.Word"
begin

text \<open>
  The tray feedback of \<open>internal/tray/feedback.go\<close>.  Every method is a critical section that changes
  the state and leaves an update to be delivered; updates are delivered later, in any order, under
  the delivery lock, in two steps: the check that the update is still the current one, and the
  rendering.  Revisions are 64-bit words.  A timer that was stopped may already be running, so a
  scheduled hide callback stays possible for ever; its revision check decides.  \<open>fb_bumps\<close> is not in
  the code: it counts the revisions, to say that the word has not wrapped around.
\<close>

record tip =
  tip_revision :: "64 word"
  tip_kind :: string
  tip_title :: string
  tip_message :: string

record feedback_update =
  up_tip :: tip
  up_tooltip :: string
  up_iconState :: visible
  up_show :: bool

record feedback =
  fb_tip :: tip
  fb_active :: bool
  fb_paused :: bool
  fb_finished :: bool
  fb_ready :: bool
  fb_dismissed :: bool
  fb_visible :: bool
  fb_enabled :: bool
  fb_closed :: bool
  fb_timers :: "64 word list"
  fb_delivered :: bool
  fb_lastDelivered :: "64 word"
  fb_pending :: "feedback_update list"
  fb_inflight :: "feedback_update option"
  fb_rendered :: "feedback_update list"
  fb_bumps :: nat

definition mkTip :: "string \<Rightarrow> string \<Rightarrow> string \<Rightarrow> tip" where
  "mkTip kind title message = \<lparr>tip_revision = 0, tip_kind = kind, tip_title = title, tip_message = message\<rparr>"

definition readyTip :: tip where
  "readyTip = mkTip ''ready'' ''Ready'' ''SyncHub for Agents is running in the tray.''"

definition NewFeedback :: feedback where
  "NewFeedback =
     \<lparr>fb_tip = readyTip, fb_active = False, fb_paused = False, fb_finished = False, fb_ready = False,
      fb_dismissed = False, fb_visible = False, fb_enabled = True, fb_closed = False, fb_timers = [],
      fb_delivered = False, fb_lastDelivered = 0, fb_pending = [], fb_inflight = None, fb_rendered = [],
      fb_bumps = 0\<rparr>"

definition alerting :: "tip \<Rightarrow> bool" where
  "alerting t \<longleftrightarrow> tip_kind t = ''error'' \<or> tip_kind t = ''warning''"

definition scheduleHide :: "feedback \<Rightarrow> feedback" where
  "scheduleHide f =
     (if \<not> fb_ready f \<or> \<not> fb_visible f \<or> \<not> fb_enabled f then f
      else f\<lparr>fb_timers := tip_revision (fb_tip f) # fb_timers f\<rparr>)"

definition bump :: "feedback \<Rightarrow> feedback" where
  "bump f = f\<lparr>fb_tip := (fb_tip f)\<lparr>tip_revision := tip_revision (fb_tip f) + 1\<rparr>, fb_bumps := Suc (fb_bumps f)\<rparr>"

definition setLocked :: "tip \<Rightarrow> bool \<Rightarrow> feedback \<Rightarrow> feedback" where
  "setLocked t show f =
     (if tip_kind (fb_tip f) = tip_kind t \<and> tip_message (fb_tip f) = tip_message t then f
      else scheduleHide (f\<lparr>fb_tip := t\<lparr>tip_revision := tip_revision (fb_tip f) + 1\<rparr>,
                           fb_visible := (show \<and> fb_enabled f), fb_bumps := Suc (fb_bumps f)\<rparr>))"

definition updateLocked :: "feedback \<Rightarrow> feedback_update" where
  "updateLocked f =
     \<lparr>up_tip = fb_tip f, up_tooltip = ''SyncHub for Agents: '' @ tip_title (fb_tip f),
      up_iconState =
        (if alerting (fb_tip f) then StateError
         else if fb_active f then StateUpdating
         else if fb_paused f then StatePaused
         else if tip_kind (fb_tip f) = ''done'' then StateDone else StateIdle),
      up_show = (fb_ready f \<and> fb_visible f \<and> fb_enabled f)\<rparr>"

definition queue_update :: "feedback \<Rightarrow> feedback" where
  "queue_update f = f\<lparr>fb_pending := updateLocked f # fb_pending f\<rparr>"

definition finishLocked :: "bool \<Rightarrow> bool \<Rightarrow> feedback \<Rightarrow> feedback" where
  "finishLocked failed needsAttention f0 =
     (let f = f0\<lparr>fb_active := False, fb_finished := True\<rparr>
      in if failed then
           setLocked (mkTip ''error'' ''Sync error'' ''Synchronization failed. Open SyncHub for Agents to review the details.'')
             True (f\<lparr>fb_dismissed := False\<rparr>)
         else if needsAttention then
           setLocked (mkTip ''warning'' ''Needs attention'' ''Review conflicts, blocked files or pending installations in the app.'')
             True (f\<lparr>fb_dismissed := False\<rparr>)
         else
           setLocked (mkTip ''done'' ''Sync complete'' ''Your selected resources have been synchronized.'')
             (\<not> fb_dismissed f) f)"

definition State :: "visible \<Rightarrow> feedback \<Rightarrow> feedback" where
  "State st f =
     (if fb_closed f then f
      else queue_update
        (case st of
           StateUpdating \<Rightarrow>
             if \<not> fb_active f then
               setLocked (mkTip ''syncing'' ''Syncing'' ''Preparing to synchronize selected resources.'') True
                 (f\<lparr>fb_active := True, fb_finished := False, fb_dismissed := False, fb_paused := False\<rparr>)
             else f
         | StatePaused \<Rightarrow>
             (let f' = f\<lparr>fb_paused := True\<rparr>
              in if \<not> fb_active f' \<and> \<not> alerting (fb_tip f')
                 then setLocked (mkTip ''paused'' ''Paused'' ''Automatic synchronization is paused.'') True f' else f')
         | StateIdle \<Rightarrow>
             (let f' = f\<lparr>fb_paused := False\<rparr>
              in if \<not> fb_active f' \<and> \<not> alerting (fb_tip f') then setLocked readyTip False f' else f')
         | StateDone \<Rightarrow> if \<not> fb_finished f then finishLocked False False f else f
         | StateError \<Rightarrow> if \<not> fb_finished f then finishLocked True False f else f))"

definition progressTip :: "string \<Rightarrow> tip option" where
  "progressTip stage =
     (if stage = ''pulling'' then
        Some (mkTip ''pulling'' ''Pulling'' ''Retrieving the latest changes from your sync repository.'')
      else if stage = ''scanning'' then
        Some (mkTip ''scanning'' ''Scanning'' ''Finding portable resources and applying safety exclusions.'')
      else if stage = ''comparing'' then
        Some (mkTip ''comparing'' ''Comparing'' ''Comparing local and remote resources.'')
      else if stage = ''applying'' then
        Some (mkTip ''applying'' ''Applying'' ''Applying synchronized resources on this computer.'')
      else if stage = ''uploading'' then
        Some (mkTip ''pushing'' ''Pushing'' ''Uploading synchronized changes to your sync repository.'')
      else if stage = ''complete'' then Some (mkTip [] [] [])
      else None)"

text \<open>The boolean is true when the stage is not supported and an error is returned.\<close>

definition Progress :: "string \<Rightarrow> feedback \<Rightarrow> feedback \<times> bool" where
  "Progress stage f =
     (case progressTip stage of
        None \<Rightarrow> (f, True)
      | Some t \<Rightarrow>
          if stage = ''complete'' then (f, False)
          else if fb_closed f \<or> \<not> fb_active f then (f, False)
          else
            let t' = (if fb_paused f
                      then t\<lparr>tip_message := tip_message t @ '' Automatic syncing is paused; this run is finishing.''\<rparr> else t)
            in (queue_update (setLocked t' (\<not> fb_dismissed f) f), False))"

definition Finish :: "bool \<Rightarrow> bool \<Rightarrow> feedback \<Rightarrow> feedback" where
  "Finish failed needsAttention f = (if fb_closed f then f else queue_update (finishLocked failed needsAttention f))"

definition Reviewed :: "bool \<Rightarrow> feedback \<Rightarrow> feedback" where
  "Reviewed needsAttention f =
     (if fb_closed f \<or> needsAttention \<or> tip_kind (fb_tip f) \<noteq> ''warning'' then f
      else queue_update (setLocked (mkTip ''done'' ''Sync complete'' ''Synchronization notices have been reviewed.'') False f))"

definition Ready :: "feedback \<Rightarrow> feedback" where
  "Ready f = (if fb_closed f \<or> fb_ready f then f else queue_update (scheduleHide (bump (f\<lparr>fb_ready := True\<rparr>))))"

definition Dismiss :: "feedback \<Rightarrow> feedback" where
  "Dismiss f = (if fb_closed f then f else queue_update (bump (f\<lparr>fb_dismissed := True, fb_visible := False\<rparr>)))"

definition SetEnabled :: "bool \<Rightarrow> feedback \<Rightarrow> feedback" where
  "SetEnabled enabled f =
     (if fb_closed f \<or> fb_enabled f = enabled then f
      else queue_update (bump (f\<lparr>fb_enabled := enabled, fb_visible := False\<rparr>)))"

definition CloseFeedback :: "feedback \<Rightarrow> feedback" where
  "CloseFeedback f = f\<lparr>fb_closed := True\<rparr>"

definition hideCallback :: "nat \<Rightarrow> feedback \<Rightarrow> feedback" where
  "hideCallback k f =
     (if k < length (fb_timers f) then
        let revision = fb_timers f ! k
        in if fb_closed f \<or> tip_revision (fb_tip f) \<noteq> revision then f
           else queue_update (bump (f\<lparr>fb_visible := False\<rparr>))
      else f)"

text \<open>\<open>deliver\<close>: the check under the delivery lock, then the rendering that releases it.\<close>

definition deliverCheck :: "nat \<Rightarrow> feedback \<Rightarrow> feedback" where
  "deliverCheck k f =
     (if k < length (fb_pending f) \<and> fb_inflight f = None then
        let u = fb_pending f ! k;
            f' = f\<lparr>fb_pending := take k (fb_pending f) @ drop (Suc k) (fb_pending f)\<rparr>;
            current = (\<not> fb_closed f \<and> tip_revision (up_tip u) = tip_revision (fb_tip f))
        in if \<not> current \<or> (fb_delivered f \<and> tip_revision (up_tip u) \<le> fb_lastDelivered f) then f'
           else f'\<lparr>fb_delivered := True, fb_lastDelivered := tip_revision (up_tip u), fb_inflight := Some u\<rparr>
      else f)"

definition deliverRender :: "feedback \<Rightarrow> feedback" where
  "deliverRender f =
     (case fb_inflight f of
        None \<Rightarrow> f
      | Some u \<Rightarrow> f\<lparr>fb_inflight := None, fb_rendered := fb_rendered f @ [u]\<rparr>)"

datatype feedback_event =
    OnState visible
  | OnProgress string
  | OnFinish bool bool
  | OnReviewed bool
  | OnReady
  | OnDismiss
  | OnSetEnabled bool
  | OnClose
  | OnTimer nat
  | OnCheck nat
  | OnRender

fun feedback_step :: "feedback_event \<Rightarrow> feedback \<Rightarrow> feedback" where
  "feedback_step (OnState st) f = State st f"
| "feedback_step (OnProgress stage) f = fst (Progress stage f)"
| "feedback_step (OnFinish a b) f = Finish a b f"
| "feedback_step (OnReviewed b) f = Reviewed b f"
| "feedback_step OnReady f = Ready f"
| "feedback_step OnDismiss f = Dismiss f"
| "feedback_step (OnSetEnabled b) f = SetEnabled b f"
| "feedback_step OnClose f = CloseFeedback f"
| "feedback_step (OnTimer k) f = hideCallback k f"
| "feedback_step (OnCheck k) f = deliverCheck k f"
| "feedback_step OnRender f = deliverRender f"

definition feedback_run :: "feedback_event list \<Rightarrow> feedback" where
  "feedback_run es = foldl (\<lambda>f e. feedback_step e f) NewFeedback es"

lemma feedback_run_invariant:
  assumes "I NewFeedback" "\<And>f e. I f \<Longrightarrow> I (feedback_step e f)"
  shows "I (feedback_run es)"
  unfolding feedback_run_def using assms by (induction es rule: rev_induct) simp_all

section \<open>Delivery\<close>

definition delivery_log :: "feedback \<Rightarrow> feedback_update list" where
  "delivery_log f = fb_rendered f @ (case fb_inflight f of None \<Rightarrow> [] | Some u \<Rightarrow> [u])"

abbreviation up_revision :: "feedback_update \<Rightarrow> 64 word" where
  "up_revision u \<equiv> tip_revision (up_tip u)"

text \<open>Methods never touch what has been delivered.\<close>

definition same_delivery :: "feedback \<Rightarrow> feedback \<Rightarrow> bool" where
  "same_delivery f f' \<longleftrightarrow> fb_rendered f' = fb_rendered f \<and> fb_inflight f' = fb_inflight f \<and>
     fb_delivered f' = fb_delivered f \<and> fb_lastDelivered f' = fb_lastDelivered f"

lemma same_delivery_setLocked [simp]:
  "same_delivery f (setLocked t b g) = same_delivery f g"
  "same_delivery f (bump g) = same_delivery f g"
  "same_delivery f (queue_update g) = same_delivery f g"
  "same_delivery f (scheduleHide g) = same_delivery f g"
  by (simp_all add: same_delivery_def setLocked_def scheduleHide_def bump_def queue_update_def)

lemma same_delivery_finish [simp]: "same_delivery f (finishLocked a b g) = same_delivery f g"
  by (simp add: finishLocked_def Let_def) (simp add: same_delivery_def)

lemma same_delivery_methods:
  "(\<forall>k. e \<noteq> OnCheck k) \<Longrightarrow> e \<noteq> OnRender \<Longrightarrow> same_delivery f (feedback_step e f)"
proof (induct e)
  case (OnState st)
  have "same_delivery f f" by (simp add: same_delivery_def)
  then show ?case by (cases st) (simp_all add: State_def Let_def, (simp add: same_delivery_def)+)
next
  case (OnProgress stage)
  then show ?case by (simp add: Progress_def Let_def split: option.split) (simp add: same_delivery_def)
qed (simp_all add: Finish_def Reviewed_def Ready_def Dismiss_def SetEnabled_def CloseFeedback_def hideCallback_def Let_def,
     (simp_all add: same_delivery_def)?)

definition deliv_inv :: "feedback \<Rightarrow> bool" where
  "deliv_inv f \<longleftrightarrow> sorted_wrt (<) (map up_revision (delivery_log f)) \<and>
     (delivery_log f \<noteq> [] \<longleftrightarrow> fb_delivered f) \<and>
     (fb_delivered f \<longrightarrow> up_revision (last (delivery_log f)) = fb_lastDelivered f)"

lemma sorted_last_max:
  fixes xs :: "'a::linorder list"
  shows "sorted_wrt (<) xs \<Longrightarrow> x \<in> set xs \<Longrightarrow> x \<le> last xs"
proof (induction xs)
  case (Cons y ys)
  show ?case
  proof (cases "ys = []")
    case False
    then have "y < last ys" "last ys \<in> set ys" using Cons.prems(1) by auto
    then show ?thesis using Cons False by (auto simp: less_imp_le)
  qed (use Cons in auto)
qed simp

lemma deliv_inv_check:
  assumes "deliv_inv f"
  shows "deliv_inv (deliverCheck k f)"
proof (cases "k < length (fb_pending f) \<and> fb_inflight f = None \<and> \<not> fb_closed f \<and>
    up_revision (fb_pending f ! k) = tip_revision (fb_tip f) \<and>
    \<not> (fb_delivered f \<and> up_revision (fb_pending f ! k) \<le> fb_lastDelivered f)")
  case False
  then have "same_delivery f (deliverCheck k f)"
    by (auto simp: deliverCheck_def same_delivery_def Let_def)
  then show ?thesis using assms by (simp add: same_delivery_def deliv_inv_def delivery_log_def)
next
  case True
  let ?u = "fb_pending f ! k"
  have log: "delivery_log (deliverCheck k f) = delivery_log f @ [?u]"
    using True by (auto simp: deliverCheck_def delivery_log_def Let_def)
  have d: "fb_delivered (deliverCheck k f)" "fb_lastDelivered (deliverCheck k f) = up_revision ?u"
    using True by (auto simp: deliverCheck_def Let_def)
  have "r < up_revision ?u" if "r \<in> set (map up_revision (delivery_log f))" for r
  proof -
    have ne: "delivery_log f \<noteq> []" using that by auto
    then have "last (map up_revision (delivery_log f)) = fb_lastDelivered f"
      using assms by (simp add: deliv_inv_def last_map)
    then have "r \<le> fb_lastDelivered f"
      using sorted_last_max [OF _ that] assms by (simp add: deliv_inv_def)
    then show ?thesis using True ne assms by (auto simp: deliv_inv_def)
  qed
  then show ?thesis using assms d by (auto simp: deliv_inv_def log sorted_wrt_append)
qed

lemma delivery_log_render [simp]: "delivery_log (deliverRender f) = delivery_log f"
  by (simp add: deliverRender_def delivery_log_def split: option.split)

lemma deliv_inv_step:
  assumes f: "deliv_inv f"
  shows "deliv_inv (feedback_step e f)"
proof (cases "(\<exists>k. e = OnCheck k) \<or> e = OnRender")
  case True
  have "fb_delivered (deliverRender f) = fb_delivered f" "fb_lastDelivered (deliverRender f) = fb_lastDelivered f"
    by (simp_all add: deliverRender_def split: option.split)
  then have "deliv_inv (deliverRender f)" using f by (simp add: deliv_inv_def)
  with True f show ?thesis by (auto simp: deliv_inv_check)
next
  case False
  with f same_delivery_methods [of e f] show ?thesis
    by (auto simp: same_delivery_def deliv_inv_def delivery_log_def)
qed

lemma deliv_inv_run: "deliv_inv (feedback_run es)"
  by (rule feedback_run_invariant [where I = deliv_inv]) (simp_all add: deliv_inv_step, simp add: deliv_inv_def NewFeedback_def delivery_log_def)

text \<open>After Close the log does not grow.\<close>

lemma closed_step: "fb_closed f \<Longrightarrow> fb_closed (feedback_step e f) \<and> delivery_log (feedback_step e f) = delivery_log f"
  by (induct e)
    (simp_all add: State_def Progress_def Finish_def Reviewed_def Ready_def Dismiss_def SetEnabled_def CloseFeedback_def
      hideCallback_def deliverCheck_def deliverRender_def delivery_log_def Let_def split: option.split)

section \<open>What is shown is what is\<close>

definition progress_kinds :: "string list" where
  "progress_kinds = [''syncing'', ''pulling'', ''scanning'', ''comparing'', ''applying'', ''pushing'']"

definition shape_inv :: "feedback \<Rightarrow> bool" where
  "shape_inv f \<longleftrightarrow>
     (fb_active f \<longleftrightarrow> tip_kind (fb_tip f) \<in> set progress_kinds) \<and>
     (tip_kind (fb_tip f) = ''ready'' \<longrightarrow> \<not> fb_paused f) \<and>
     (tip_kind (fb_tip f) = ''paused'' \<longrightarrow> fb_paused f)"

lemma queue_update_simps [simp]:
  "fb_tip (queue_update f) = fb_tip f" "fb_active (queue_update f) = fb_active f"
  "fb_paused (queue_update f) = fb_paused f" "updateLocked (queue_update f) = updateLocked f"
  "fb_closed (queue_update f) = fb_closed f" "fb_bumps (queue_update f) = fb_bumps f"
  "fb_pending (queue_update f) = updateLocked f # fb_pending f"
  by (simp_all add: queue_update_def updateLocked_def)

lemma scheduleHide_simps [simp]:
  "fb_tip (scheduleHide f) = fb_tip f" "fb_active (scheduleHide f) = fb_active f"
  "fb_paused (scheduleHide f) = fb_paused f" "fb_closed (scheduleHide f) = fb_closed f"
  "fb_bumps (scheduleHide f) = fb_bumps f" "fb_pending (scheduleHide f) = fb_pending f"
  by (simp_all add: scheduleHide_def)

lemma setLocked_simps [simp]:
  "tip_kind (fb_tip (setLocked t b f)) = tip_kind t" "fb_active (setLocked t b f) = fb_active f"
  "fb_paused (setLocked t b f) = fb_paused f"
  by (auto simp: setLocked_def)

lemma bump_simps [simp]:
  "tip_kind (fb_tip (bump f)) = tip_kind (fb_tip f)" "fb_active (bump f) = fb_active f"
  "fb_paused (bump f) = fb_paused f"
  by (simp_all add: bump_def)

lemma mkTip_simps [simp]: "tip_kind (mkTip k t m) = k" "tip_message (mkTip k t m) = m"
  by (simp_all add: mkTip_def)

lemma progressTip_kind:
  "progressTip stage = Some t \<Longrightarrow> stage \<noteq> ''complete'' \<Longrightarrow>
     tip_kind t \<in> set progress_kinds \<and> tip_kind t \<noteq> ''ready'' \<and> tip_kind t \<noteq> ''paused''"
  unfolding progressTip_def progress_kinds_def by (auto split: if_splits)

lemma shape_inv_finish: "shape_inv f \<Longrightarrow> shape_inv (finishLocked a b f)"
  by (simp add: shape_inv_def finishLocked_def progress_kinds_def Let_def)

lemma shape_inv_State: "shape_inv f \<Longrightarrow> shape_inv (State st f)"
  using shape_inv_finish [of f] unfolding State_def
  by (cases st)
    (simp_all add: Let_def, auto simp: shape_inv_def readyTip_def alerting_def progress_kinds_def)

lemma shape_inv_Progress: "shape_inv f \<Longrightarrow> shape_inv (fst (Progress stage f))"
  using progressTip_kind [of stage]
  by (auto simp: Progress_def shape_inv_def Let_def split: option.split)

lemma shape_inv_step: "shape_inv f \<Longrightarrow> shape_inv (feedback_step e f)"
proof (induct e)
  case (OnFinish a b)
  then show ?case using shape_inv_finish [of f a b] by (simp add: Finish_def shape_inv_def)
qed (simp_all add: shape_inv_State shape_inv_Progress,
     (simp_all add: shape_inv_def Reviewed_def Ready_def Dismiss_def SetEnabled_def CloseFeedback_def
       hideCallback_def deliverCheck_def deliverRender_def progress_kinds_def Let_def split: option.split)?)

text \<open>A method either leaves the display as it is or takes a new revision.\<close>

definition advances :: "feedback \<Rightarrow> feedback \<Rightarrow> bool" where
  "advances f f' \<longleftrightarrow> same_delivery f f' \<and> fb_pending f' = fb_pending f \<and> fb_closed f' = fb_closed f \<and>
     (fb_bumps f' = fb_bumps f \<and> updateLocked f' = updateLocked f \<or>
      fb_bumps f' = Suc (fb_bumps f) \<and> tip_revision (fb_tip f') = tip_revision (fb_tip f) + 1)"

lemma advances_bump: "same_delivery f g \<Longrightarrow> fb_pending g = fb_pending f \<Longrightarrow> fb_closed g = fb_closed f \<Longrightarrow>
   fb_bumps g = fb_bumps f \<Longrightarrow> fb_tip g = fb_tip f \<Longrightarrow> advances f (bump g) \<and> advances f (scheduleHide (bump g))"
  by (simp add: advances_def) (simp add: bump_def)

lemma advances_set:
  assumes "same_delivery f g" "fb_pending g = fb_pending f" "fb_closed g = fb_closed f"
    "fb_bumps g = fb_bumps f" "fb_tip g = fb_tip f"
    and "tip_kind (fb_tip f) = tip_kind t \<Longrightarrow> tip_message (fb_tip f) = tip_message t \<Longrightarrow> updateLocked g = updateLocked f"
  shows "advances f (setLocked t b g)"
  using assms by (simp add: advances_def) (simp add: setLocked_def)

lemma updateLocked_cong:
  "fb_tip g = fb_tip f \<Longrightarrow> fb_ready g = fb_ready f \<Longrightarrow> fb_visible g = fb_visible f \<Longrightarrow> fb_enabled g = fb_enabled f \<Longrightarrow>
   up_iconState (updateLocked g) = up_iconState (updateLocked f) \<Longrightarrow> updateLocked g = updateLocked f"
  by (simp add: updateLocked_def)

lemma same_delivery_refl [simp]: "same_delivery f f"
  by (simp add: same_delivery_def)

lemma advances_refl: "advances f f"
  by (simp add: advances_def)

lemma finish_advances:
  assumes "shape_inv f"
  shows "advances f (finishLocked a b f)"
proof -
  let ?g = "f\<lparr>fb_active := False, fb_finished := True\<rparr>"
  have quiet: "\<not> fb_active f" if "tip_kind (fb_tip f) = k" "k \<notin> set progress_kinds" for k
    using assms that by (simp add: shape_inv_def)
  have fin: "advances f (setLocked (mkTip k t m) c g)"
    if k: "k \<notin> set progress_kinds" and g: "g = ?g \<or> g = ?g\<lparr>fb_dismissed := False\<rparr>" for k t m c g
  proof (rule advances_set)
    assume "tip_kind (fb_tip f) = tip_kind (mkTip k t m)"
    then have "\<not> fb_active f" using quiet k by simp
    then show "updateLocked g = updateLocked f" using g by (elim disjE) (simp_all add: updateLocked_def)
  qed (use g in \<open>elim disjE; simp add: same_delivery_def\<close>)+
  have k: "''done'' \<notin> set progress_kinds" "''error'' \<notin> set progress_kinds" "''warning'' \<notin> set progress_kinds"
    by (simp_all add: progress_kinds_def)
  show ?thesis unfolding finishLocked_def Let_def by (simp add: fin k)
qed

lemma state_advances:
  assumes "shape_inv f" "\<not> fb_closed f"
  shows "\<exists>g. advances f g \<and> State st f = queue_update g"
proof (cases st)
  case StateIdle
  let ?g = "f\<lparr>fb_paused := False\<rparr>"
  have "advances f (if \<not> fb_active ?g \<and> \<not> alerting (fb_tip ?g) then setLocked readyTip False ?g else ?g)"
  proof (cases "\<not> fb_active f \<and> \<not> alerting (fb_tip f)")
    case True
    have "advances f (setLocked readyTip False ?g)"
      by (rule advances_set) (use assms(1) in \<open>auto simp: same_delivery_def shape_inv_def readyTip_def updateLocked_def\<close>)
    then show ?thesis using True by simp
  next
    case False
    then have "updateLocked ?g = updateLocked f" by (auto simp: updateLocked_def)
    then show ?thesis using False by (auto simp: advances_def same_delivery_def)
  qed
  then show ?thesis using StateIdle assms(2) by (auto simp: State_def Let_def)
next
  case StateUpdating
  let ?g = "f\<lparr>fb_active := True, fb_finished := False, fb_dismissed := False, fb_paused := False\<rparr>"
  have "advances f (setLocked (mkTip ''syncing'' t m) True ?g)" if "\<not> fb_active f" for t m
    by (rule advances_set) (use assms(1) that in \<open>auto simp: same_delivery_def shape_inv_def progress_kinds_def\<close>)
  then have "advances f (if \<not> fb_active f
      then setLocked (mkTip ''syncing'' ''Syncing'' ''Preparing to synchronize selected resources.'') True ?g else f)"
    using advances_refl by simp
  then show ?thesis using StateUpdating assms(2) unfolding State_def by auto
next
  case StateDone
  then have "State st f = queue_update (if fb_finished f then f else finishLocked (st = StateError) False f)"
    using assms(2) by (simp add: State_def)
  moreover have "advances f (if fb_finished f then f else finishLocked (st = StateError) False f)"
    using finish_advances [OF assms(1)] advances_refl by simp
  ultimately show ?thesis by blast
next
  case StateError
  then have "State st f = queue_update (if fb_finished f then f else finishLocked (st = StateError) False f)"
    using assms(2) by (simp add: State_def)
  moreover have "advances f (if fb_finished f then f else finishLocked (st = StateError) False f)"
    using finish_advances [OF assms(1)] advances_refl by simp
  ultimately show ?thesis by blast
next
  case StatePaused
  let ?g = "f\<lparr>fb_paused := True\<rparr>"
  have "advances f (if \<not> fb_active ?g \<and> \<not> alerting (fb_tip ?g) then setLocked (mkTip ''paused'' t m) True ?g else ?g)" for t m
  proof (cases "\<not> fb_active f \<and> \<not> alerting (fb_tip f)")
    case True
    have "advances f (setLocked (mkTip ''paused'' t m) True ?g)"
      by (rule advances_set) (use assms(1) in \<open>auto simp: same_delivery_def shape_inv_def updateLocked_def\<close>)
    then show ?thesis using True by simp
  next
    case False
    then have "updateLocked ?g = updateLocked f" by (auto simp: updateLocked_def)
    then show ?thesis using False by (auto simp: advances_def same_delivery_def)
  qed
  from this [of "''Paused''" "''Automatic synchronization is paused.''"] show ?thesis
    using StatePaused assms(2) unfolding State_def Let_def by auto
qed

lemma method_advances:
  assumes "shape_inv f" "\<not> fb_closed f" "\<forall>k. e \<noteq> OnCheck k" "e \<noteq> OnRender" "e \<noteq> OnClose"
  shows "feedback_step e f = f \<or> (\<exists>g. advances f g \<and> feedback_step e f = queue_update g)"
proof (cases e)
  case (OnState st)
  then show ?thesis using state_advances [OF assms(1,2)] by simp
next
  case (OnProgress stage)
  have "advances f (setLocked t b f)" for t b by (rule advances_set) simp_all
  then show ?thesis using OnProgress assms(2) by (auto simp: Progress_def Let_def split: option.split)
next
  case (OnFinish a b)
  then show ?thesis using finish_advances [OF assms(1)] assms(2) by (auto simp: Finish_def)
next
  case (OnReviewed b)
  have "advances f (setLocked t b f)" for t b by (rule advances_set) simp_all
  then show ?thesis using OnReviewed by (auto simp: Reviewed_def)
next
  case OnReady
  have "advances f (scheduleHide (bump (f\<lparr>fb_ready := True\<rparr>)))"
    using advances_bump [of f "f\<lparr>fb_ready := True\<rparr>"] by (simp add: same_delivery_def)
  then show ?thesis using OnReady by (auto simp: Ready_def)
next
  case OnDismiss
  have "advances f (bump (f\<lparr>fb_dismissed := True, fb_visible := False\<rparr>))"
    using advances_bump [of f "f\<lparr>fb_dismissed := True, fb_visible := False\<rparr>"] by (simp add: same_delivery_def)
  then show ?thesis using OnDismiss by (auto simp: Dismiss_def)
next
  case (OnSetEnabled b)
  have "advances f (bump (f\<lparr>fb_enabled := b, fb_visible := False\<rparr>))"
    using advances_bump [of f "f\<lparr>fb_enabled := b, fb_visible := False\<rparr>"] by (simp add: same_delivery_def)
  then show ?thesis using OnSetEnabled by (auto simp: SetEnabled_def)
next
  case (OnTimer k)
  have "advances f (bump (f\<lparr>fb_visible := False\<rparr>))"
    using advances_bump [of f "f\<lparr>fb_visible := False\<rparr>"] by (simp add: same_delivery_def)
  then show ?thesis using OnTimer by (auto simp: hideCallback_def Let_def)
qed (use assms in auto)

definition agree_inv :: "feedback \<Rightarrow> bool" where
  "agree_inv f \<longleftrightarrow> (fb_bumps f < 2 ^ 64 \<longrightarrow>
     unat (tip_revision (fb_tip f)) = fb_bumps f \<and>
     (\<forall>u\<in>set (fb_pending f) \<union> set (delivery_log f).
        unat (up_revision u) \<le> fb_bumps f \<and>
        (\<not> fb_closed f \<and> up_revision u = tip_revision (fb_tip f) \<longrightarrow> u = updateLocked f)) \<and>
     (0 < fb_bumps f \<and> \<not> fb_closed f \<longrightarrow>
        (fb_delivered f \<and> fb_lastDelivered f = tip_revision (fb_tip f)) \<or>
        (\<exists>u\<in>set (fb_pending f). up_revision u = tip_revision (fb_tip f))))"

lemma up_revision_updateLocked [simp]: "up_revision (updateLocked f) = tip_revision (fb_tip f)"
  by (simp add: updateLocked_def)

lemma delivery_log_same: "same_delivery f g \<Longrightarrow> delivery_log g = delivery_log f"
  by (simp add: same_delivery_def delivery_log_def)

lemma delivery_log_queue [simp]: "delivery_log (queue_update g) = delivery_log g"
  by (simp add: queue_update_def delivery_log_def)

lemma agree_inv_queue:
  assumes "agree_inv f" "advances f g"
  shows "agree_inv (queue_update g)"
proof -
  have log: "delivery_log g = delivery_log f" and p: "fb_pending g = fb_pending f" and c: "fb_closed g = fb_closed f"
    using assms(2) by (auto simp: advances_def delivery_log_same)
  from assms(2) consider (same) "fb_bumps g = fb_bumps f" "updateLocked g = updateLocked f"
    | (bump) "fb_bumps g = Suc (fb_bumps f)" "tip_revision (fb_tip g) = tip_revision (fb_tip f) + 1"
    by (auto simp: advances_def)
  then show ?thesis
  proof cases
    case same
    then have "fb_tip g = fb_tip f" by (simp add: updateLocked_def)
    then show ?thesis using assms(1) same log p c by (auto simp: agree_inv_def)
  next
    case bump
    show ?thesis unfolding agree_inv_def
    proof (intro impI)
      assume lim: "fb_bumps (queue_update g) < 2 ^ 64"
      then have lim': "fb_bumps f < 2 ^ 64" "unat (tip_revision (fb_tip f)) = fb_bumps f"
        using bump assms(1) by (auto simp: agree_inv_def)
      have rev: "unat (tip_revision (fb_tip g)) = Suc (fb_bumps f)"
        using lim bump lim'(2) by (simp add: unat_word_ariths mod_less)
      have old: "unat (up_revision u) \<le> fb_bumps f" if "u \<in> set (fb_pending f) \<union> set (delivery_log f)" for u
        using assms(1) lim'(1) that by (auto simp: agree_inv_def)
      then have new: "up_revision u \<noteq> tip_revision (fb_tip g)"
        if "u \<in> set (fb_pending f) \<union> set (delivery_log f)" for u
        using that rev by fastforce
      show "unat (tip_revision (fb_tip (queue_update g))) = fb_bumps (queue_update g) \<and>
        (\<forall>u\<in>set (fb_pending (queue_update g)) \<union> set (delivery_log (queue_update g)).
          unat (up_revision u) \<le> fb_bumps (queue_update g) \<and>
          (\<not> fb_closed (queue_update g) \<and> up_revision u = tip_revision (fb_tip (queue_update g)) \<longrightarrow>
             u = updateLocked (queue_update g))) \<and>
        (0 < fb_bumps (queue_update g) \<and> \<not> fb_closed (queue_update g) \<longrightarrow>
          (fb_delivered (queue_update g) \<and> fb_lastDelivered (queue_update g) = tip_revision (fb_tip (queue_update g))) \<or>
          (\<exists>u\<in>set (fb_pending (queue_update g)). up_revision u = tip_revision (fb_tip (queue_update g))))"
        using rev bump(1) old new log p by (auto dest: old intro: le_SucI)
    qed
  qed
qed

lemma agree_inv_check:
  assumes a: "agree_inv f" and d: "deliv_inv f" and l: "fb_bumps f < 2 ^ 64 \<longrightarrow> (fb_delivered f \<longrightarrow> fb_lastDelivered f \<le> tip_revision (fb_tip f))"
  shows "agree_inv (deliverCheck k f)"
proof (cases "k < length (fb_pending f) \<and> fb_inflight f = None")
  case False
  then have "deliverCheck k f = f" by (auto simp: deliverCheck_def)
  with a show ?thesis by simp
next
  case True
  let ?u = "fb_pending f ! k" and ?p = "take k (fb_pending f) @ drop (Suc k) (fb_pending f)"
  let ?f = "deliverCheck k f"
  have pend: "set (fb_pending f) = insert ?u (set ?p)"
  proof -
    have "fb_pending f = take k (fb_pending f) @ ?u # drop (Suc k) (fb_pending f)"
      using True by (simp add: id_take_nth_drop)
    then show ?thesis by (metis Un_insert_right list.simps(15) set_append)
  qed
  have keep: "fb_tip ?f = fb_tip f" "fb_bumps ?f = fb_bumps f" "fb_closed ?f = fb_closed f" "fb_pending ?f = ?p"
    "updateLocked ?f = updateLocked f"
    using True by (auto simp: deliverCheck_def Let_def updateLocked_def)
  have sub: "set (fb_pending ?f) \<union> set (delivery_log ?f) \<subseteq> set (fb_pending f) \<union> set (delivery_log f)"
    using True pend by (auto simp: deliverCheck_def Let_def delivery_log_def)
  have live: "(fb_delivered ?f \<and> fb_lastDelivered ?f = tip_revision (fb_tip f)) \<or>
      (\<exists>u\<in>set ?p. up_revision u = tip_revision (fb_tip f))"
    if lim: "fb_bumps f < 2 ^ 64" and act: "0 < fb_bumps f" "\<not> fb_closed f"
  proof (cases "fb_delivered f \<and> fb_lastDelivered f = tip_revision (fb_tip f)")
    case same: True
    then show ?thesis using True by (auto simp: deliverCheck_def Let_def)
  next
    case False
    then obtain u where u: "u \<in> set (fb_pending f)" "up_revision u = tip_revision (fb_tip f)"
      using a lim act by (auto simp: agree_inv_def)
    show ?thesis
    proof (cases "u = ?u")
      case True
      then have "\<not> (fb_delivered f \<and> up_revision ?u \<le> fb_lastDelivered f)"
        using False l lim u(2) by auto
      then show ?thesis using u(2) \<open>u = ?u\<close> act \<open>k < length (fb_pending f) \<and> fb_inflight f = None\<close>
        by (auto simp: deliverCheck_def Let_def)
    qed (use u pend in auto)
  qed
  show ?thesis unfolding agree_inv_def keep
  proof (intro impI conjI)
    assume lim: "fb_bumps f < 2 ^ 64"
    show "unat (tip_revision (fb_tip f)) = fb_bumps f" using a lim by (simp add: agree_inv_def)
    show "\<forall>u\<in>set ?p \<union> set (delivery_log ?f). unat (up_revision u) \<le> fb_bumps f \<and>
        (\<not> fb_closed f \<and> up_revision u = tip_revision (fb_tip f) \<longrightarrow> u = updateLocked f)"
      using a lim sub keep(4) by (simp add: agree_inv_def) blast
    assume "0 < fb_bumps f \<and> \<not> fb_closed f"
    then show "(fb_delivered ?f \<and> fb_lastDelivered ?f = tip_revision (fb_tip f)) \<or>
        (\<exists>u\<in>set ?p. up_revision u = tip_revision (fb_tip f))" using live lim by blast
  qed
qed

text \<open>The revision delivered last is never ahead of the current one.\<close>

lemma delivered_le:
  assumes "agree_inv f" "deliv_inv f" "fb_bumps f < 2 ^ 64" "fb_delivered f"
  shows "fb_lastDelivered f \<le> tip_revision (fb_tip f)"
proof -
  have ne: "delivery_log f \<noteq> []" and l: "up_revision (last (delivery_log f)) = fb_lastDelivered f"
    using assms(2,4) by (auto simp: deliv_inv_def)
  have "unat (up_revision (last (delivery_log f))) \<le> fb_bumps f"
    using assms(1,3) last_in_set [OF ne] by (auto simp: agree_inv_def)
  then show ?thesis using assms(1,3) l by (simp add: agree_inv_def word_le_nat_alt)
qed

lemma agree_inv_step:
  assumes "agree_inv f" "deliv_inv f" "shape_inv f"
  shows "agree_inv (feedback_step e f)"
proof (cases "(\<exists>k. e = OnCheck k) \<or> e = OnRender \<or> e = OnClose")
  case True
  have "agree_inv (deliverCheck k f)" for k
    by (rule agree_inv_check) (use assms delivered_le in auto)
  moreover have "agree_inv (deliverRender f)"
  proof -
    have "fb_tip (deliverRender f) = fb_tip f" "fb_bumps (deliverRender f) = fb_bumps f"
      "fb_pending (deliverRender f) = fb_pending f" "fb_closed (deliverRender f) = fb_closed f"
      "fb_delivered (deliverRender f) = fb_delivered f" "fb_lastDelivered (deliverRender f) = fb_lastDelivered f"
      "updateLocked (deliverRender f) = updateLocked f"
      by (simp_all add: deliverRender_def updateLocked_def split: option.split)
    then show ?thesis using assms(1) by (simp add: agree_inv_def)
  qed
  moreover have "agree_inv (CloseFeedback f)"
    using assms(1) by (simp add: agree_inv_def CloseFeedback_def delivery_log_def)
  ultimately show ?thesis using True by auto
next
  case False
  show ?thesis
  proof (cases "fb_closed f")
    case True
    then have "feedback_step e f = f"
      using False by (cases e) (simp_all add: State_def Progress_def Finish_def Reviewed_def Ready_def Dismiss_def
        SetEnabled_def hideCallback_def Let_def split: option.split)
    then show ?thesis using assms(1) by simp
  next
    case open_: False
    from method_advances [OF assms(3) open_, of e] False agree_inv_queue [OF assms(1)] assms(1)
    show ?thesis by auto
  qed
qed

lemma all_inv_run: "agree_inv (feedback_run es) \<and> deliv_inv (feedback_run es) \<and> shape_inv (feedback_run es)"
proof (rule feedback_run_invariant [where I = "\<lambda>f. agree_inv f \<and> deliv_inv f \<and> shape_inv f"])
  show "agree_inv NewFeedback \<and> deliv_inv NewFeedback \<and> shape_inv NewFeedback"
    by (simp add: agree_inv_def deliv_inv_def shape_inv_def NewFeedback_def delivery_log_def progress_kinds_def
        readyTip_def) (simp add: mkTip_def)
qed (simp add: agree_inv_step deliv_inv_step shape_inv_step)

section \<open>Properties\<close>

text \<open>The revisions rendered strictly increase, for every interleaving of the methods, the timers
  and the deliveries: no update is shown twice and none after a newer one.\<close>

lemma rendered_revisions_increase:
  "sorted_wrt (<) (map up_revision (fb_rendered (feedback_run es)))"
  using deliv_inv_run [of es] by (simp add: deliv_inv_def delivery_log_def sorted_wrt_append)

text \<open>Once every update has been delivered, the icon, tooltip and tip on the screen are those of
  the current state: nothing is lost on the way, as long as fewer than 2^64 revisions were taken.\<close>

lemma display_settles_on_current_state:
  assumes "fb_pending (feedback_run es) = []" and "fb_inflight (feedback_run es) = None"
    and "\<not> fb_closed (feedback_run es)" and "0 < fb_bumps (feedback_run es)"
    and "fb_bumps (feedback_run es) < 2 ^ 64"
  shows "fb_rendered (feedback_run es) \<noteq> [] \<and>
    last (fb_rendered (feedback_run es)) = updateLocked (feedback_run es)"
proof -
  let ?f = "feedback_run es"
  have inv: "agree_inv ?f" "deliv_inv ?f" using all_inv_run [of es] by simp_all
  have log: "delivery_log ?f = fb_rendered ?f" using assms(2) by (simp add: delivery_log_def)
  have d: "fb_delivered ?f" "fb_lastDelivered ?f = tip_revision (fb_tip ?f)"
    using inv(1) assms by (auto simp: agree_inv_def)
  then have ne: "fb_rendered ?f \<noteq> []" and r: "up_revision (last (fb_rendered ?f)) = tip_revision (fb_tip ?f)"
    using inv(2) log by (auto simp: deliv_inv_def)
  have "last (fb_rendered ?f) = updateLocked ?f"
    using inv(1) assms(3,5) last_in_set [OF ne] r log by (simp add: agree_inv_def)
  with ne show ?thesis by simp
qed

lemma display_settles_on_current_state_witness:
  "last (fb_rendered (feedback_run [OnReady, OnState StateUpdating, OnState StateDone, OnCheck 0, OnRender, OnCheck 1, OnCheck 0])) =
     updateLocked (feedback_run [OnReady, OnState StateUpdating, OnState StateDone, OnCheck 0, OnRender, OnCheck 1, OnCheck 0])"
proof -
  let ?es = "[OnReady, OnState StateUpdating, OnState StateDone, OnCheck 0, OnRender, OnCheck 1, OnCheck 0]"
  have "fb_pending (feedback_run ?es) = []" "fb_inflight (feedback_run ?es) = None" "\<not> fb_closed (feedback_run ?es)"
    "0 < fb_bumps (feedback_run ?es)" "fb_bumps (feedback_run ?es) < 9"
    by code_simp+
  from display_settles_on_current_state [OF this(1-4)] this(5) show ?thesis by simp
qed

text \<open>After Close no update passes the delivery check any more: what is rendered later is at most
  the one update whose rendering had already begun.\<close>

lemma nothing_delivered_after_close:
  "delivery_log (feedback_run (es @ OnClose # es')) = delivery_log (feedback_run es)"
proof -
  let ?f = "feedback_run (es @ [OnClose])"
  have c: "fb_closed ?f" by (simp add: feedback_run_def CloseFeedback_def)
  have "fb_closed f \<Longrightarrow> delivery_log (foldl (\<lambda>f e. feedback_step e f) f es') = delivery_log f" for f
    by (induction es' arbitrary: f) (simp_all add: closed_step)
  from this [OF c] show ?thesis
    by (simp add: feedback_run_def) (simp add: CloseFeedback_def delivery_log_def)
qed

end
