(* ===== verification/Spec2Isabelle.thy ===== *)
theory Spec2Isabelle
  imports Desktop_Settings Device_Login Sync_Notices Preview_Coordinator Reset_Promises Provider_Config Update_Launch Update_Handoff Sync_Promises Library_Guard Shared_Library Repo_Namespace Reconcile_Plan Structured_Merge Conflict_Store Base_Store Scheduler_Machine Tray_Feedback Safe_Paths Path_Resolver Secret_Scanner Portable_Document Portable_Config Install_Plan Install_Executor Remote_Guards Trash Resource_Applier
begin

text \<open>
  SyncHub for Agents: a verification development of the Go program.

  SyncHub keeps the configuration of AI coding agents in step over several machines by way of a Git repository.  The
  settings and the providers give resource specifications; a synchronization collects the machine's files, compares
  them with the repository and with the base of the last round, applies what each side has changed, keeps conflicts for
  the user, runs approved installations, commits and pushes.  A scheduler in a daemon starts it; the desktop
  application shows what it did, previews what it would do, changes the settings, updates the program and removes it.

  Conventions.  Go strings are lists of bytes; \<open>error\<close> results are the left side of a sum, or an option where the function
  returns nothing else.  Code outside src/ (Git, the JSON, YAML and TOML libraries, glob matching, SHA-256, HTTP, the
  keyring) is an argument of the definitions that call it.  Disk operations run in the monad of \<open>Fault_IO\<close>: a schedule
  says of every operation whether it works, fails or is the one the process dies at, so a theorem about all schedules
  covers every error path and every crash.  Concurrent objects are step relations whose steps are critical sections.

  Shared theories.
  \<^item> \<open>Go_Prelude\<close>, \<open>Go_Text\<close>: the pieces of Go's standard library the sources use, with their lemmas.
  \<^item> \<open>Fault_IO\<close>, \<open>Fault_Logic\<close>: the monad and three program logics, for crashes only, for any schedule with one exceptional
    outcome, and with errors and deaths told apart.

  Specifications (internal/config, internal/provider, internal/cli/runtime.go, internal/resource).
  \<^item> \<open>Provider_Config\<close>: settings, providers and \<open>BuildResourceSpecs\<close>; every specification comes from an enabled category of
    an enabled agent or from the user, and saved settings load back.
  \<^item> \<open>Repo_Namespace\<close>: identifiers, declarations, \<open>RepoPath\<close> and \<open>ParseRepoPath\<close>, which are inverse to each other.
  \<^item> \<open>Path_Resolver\<close>: provider path templates and the home token; a tokenized path names the same place on any machine.

  What may leave or reach the machine (internal/secret, internal/resource/filter.go, internal/portableconfig,
  internal/syncengine/resources.go, internal/sharedlibrary/sync.go).
  \<^item> \<open>Secret_Scanner\<close>: the scanner and the filter, equal to a specification by paths of a document.
  \<^item> \<open>Portable_Document\<close>, \<open>Portable_Config\<close>: documents as sets of leaves; projection sends exactly the portable
    fields, restoring changes exactly those.
  \<^item> \<open>Remote_Guards\<close>: the checks of repository files; \<open>Safe_Paths\<close>: the join functions and symbolic links (link budgets
    \<open>ap_links\<close> and \<open>cl_links\<close> stand for the limits of the kernel and of EvalSymlinks; the theorems hold for every budget).
  \<^item> \<open>Library_Guard\<close>, \<open>Shared_Library\<close>: the reservation of generated outputs, and the managed copies whose originals
    survive every fault.

  The synchronization engine (internal/syncengine, internal/state, internal/conflict, internal/portablemerge,
  internal/resourcecollect, internal/installplan).
  \<^item> \<open>Reconcile_Plan\<close>: the plan equals its specification, loses no update and converges.
  \<^item> \<open>Structured_Merge\<close>: the merge of documents keeps both edits; a conflict is exactly a clash.
  \<^item> \<open>Collector\<close>, \<open>Collected\<close>: the walk over roots and links (its recursion is bounded by a measure on what is left to visit) and
    what it stages.
  \<^item> \<open>Resource_Applier\<close>, \<open>Trash\<close>: pushing, restoring, deleting, aliases; soft deletion and its expiry.
  \<^item> \<open>Base_Store\<close>: objects and index, a refinement of a map that survives every fault.
  \<^item> \<open>Conflict_Store\<close>: bundles, and the resolution batch as an atomic transaction with a journal.
  \<^item> \<open>Install_Plan\<close>, \<open>Install_Executor\<close>: plans, their whitelist, approvals and the manager.
  \<^item> \<open>Sync_Disk\<close>, \<open>Sync_Engine\<close>: the state of a round put together from those parts and the round itself, which returns a
    result together with the error of its deferred clean-up, as Go does; \<open>Sync_Frames\<close> says what each part leaves alone,
    \<open>Sync_Accounts\<close> that every path keeping its old merge base is accounted for, \<open>Sync_Rounds\<close> what a round records,
    \<open>Sync_Bounds\<close> which network operations it makes (at most \<open>attemptsOf\<close> attempts, the fuel of \<open>syncOnce\<close>, which is
    exactly the number the code allows), and \<open>Sync_Promises\<close> what all that promises.

  The application (internal/scheduler, internal/daemon, internal/tray, internal/desktop, internal/auth).
  \<^item> \<open>Scheduler_Machine\<close>: the run loop, pauses, triggers and timers under every interleaving.
  \<^item> \<open>Tray_Feedback\<close>: the tip of the tray, its deliveries and hide timers.
  \<^item> \<open>Sync_Notices\<close>: what a cycle tells the user; only notices that were shown are acknowledged.
  \<^item> \<open>Preview_Coordinator\<close>: shared previews of concurrent callers.
  \<^item> \<open>Desktop_Settings\<close>: saving settings with the move of the repository, and the daemon that follows them.
  \<^item> \<open>Desktop_Reset\<close>, \<open>Reset_Promises\<close>: removing the local setup as a transaction (a target's staging name is its index
    00 to 09, so no two collide).
  \<^item> \<open>Credential_Store\<close>, \<open>Device_Login\<close>: the tokens, git's credential helper, and the device flow with a bounded number of polls.

  Updates (internal/updater).
  \<^item> \<open>Update_Release\<close>, \<open>Update_Manager\<close>, \<open>Update_Launch\<close>: releases, downloads (three attempts, as \<open>getFrom\<close> makes) and what is
    launched; \<open>Update_Helper\<close>, \<open>Update_Handoff\<close>: the helper's command line and the handoff of two processes.

  Interfaces between parts are locales, each interpreted on the definitions of the component that provides it:
  \<open>keyed_store\<close> (what the engine relies on in a store of bases), \<open>merge3\<close> and \<open>merge3_fair\<close> (the contract of the mergers),
  \<open>framed\<close> (a part's operations leave the other books alone) and \<open>collecting\<close> (what a collection gives and keeps).  The modelling has shown defects, which are
  lemmas of the theories concerned (for instance \<open>stop_timeout_strands_synchronization\<close>, \<open>recovery_gaps\<close>,
  \<open>refused_settings_strand_the_repository\<close>, \<open>rejected_legacy_token_stays\<close>, \<open>huge_grace_purges_everything\<close>).

  Not modelled.  The Git client runs a program that is not under src/; the command line, the windows and the old settings
  pages parse, print and call the parts above; registration at login, notifications, pictures, file locks and the
  Windows calls of the update helper are services of the operating system, of which the helper's outcomes appear as
  events; the discovery of installed plugins parses what other commands print; build scripts and tools are not part
  of the program.  Permissions, file times, temporary files and wording of error texts are left out everywhere, and
  paths are those of a Unix host unless a theory says otherwise.
\<close>

end
